(* ===== verification/Prelude.thy ===== *)
theory Prelude
  imports Main "HOL-Library.AList" "HOL-Library.Word" "HOL-Library.Multiset"
    "HOL-Library.List_Lexorder" "HOL-Library.Char_ord"
begin

text \<open>
  Shared vocabulary of the development: the machine integers of the Rust source, its hash
  maps and hash sets, the slice and vector operations it uses, and the lemmas about them
  that the component theories share.

  \<^item> \<open>u64\<close> and \<open>usize\<close> are naturals, \<open>i64\<close> is \<open>int\<close>; where the source saturates, the
    saturation is written out (\<open>u64_saturating_add\<close>, \<open>i64_saturating_sub\<close> and so on).
  \<^item> A \<open>FxHashMap\<close> is an association list with distinct keys and a \<open>FxHashSet\<close> a list
    without duplicates. The list order stands for the iteration order, which the hash
    tables leave open: every theorem holds for all lists, hence for every order.
  \<^item> \<open>String\<close> is a list of bytes.
\<close>

section \<open>Collections of facts\<close>

named_theorems hm_simps \<open>hash map and hash set rewriting\<close>
named_theorems sat_defs \<open>definitions of saturating arithmetic\<close>

section \<open>Machine integers\<close>

type_synonym u64 = nat
type_synonym usize = nat
type_synonym i64 = int
type_synonym u8 = "8 word"

text \<open>An IEEE-754 binary64 value is kept as its bit pattern.\<close>

type_synonym f64 = "64 word"

definition u64_max :: nat where "u64_max = 18446744073709551615"
definition i64_max :: int where "i64_max = 9223372036854775807"
definition i64_min :: int where "i64_min = - 9223372036854775808"

definition u64_saturating_add :: "u64 \<Rightarrow> u64 \<Rightarrow> u64" where
  "u64_saturating_add a b = min (a + b) u64_max"

definition i64_saturate :: "int \<Rightarrow> i64" where
  "i64_saturate x = max i64_min (min i64_max x)"

definition i64_saturating_add :: "i64 \<Rightarrow> i64 \<Rightarrow> i64" where
  "i64_saturating_add a b = i64_saturate (a + b)"

definition i64_saturating_sub :: "i64 \<Rightarrow> i64 \<Rightarrow> i64" where
  "i64_saturating_sub a b = i64_saturate (a - b)"

definition i64_saturating_mul :: "i64 \<Rightarrow> i64 \<Rightarrow> i64" where
  "i64_saturating_mul a b = i64_saturate (a * b)"

definition in_i64 :: "int \<Rightarrow> bool" where
  "in_i64 x \<longleftrightarrow> i64_min \<le> x \<and> x \<le> i64_max"

text \<open>\<open>a - b\<close> on \<open>i64\<close> in a release build.\<close>

definition i64_wrapping_sub :: "i64 \<Rightarrow> i64 \<Rightarrow> i64" where
  "i64_wrapping_sub a b = (a - b + 2 ^ 63) mod 2 ^ 64 - 2 ^ 63"

text \<open>Rust's integer division truncates towards zero.\<close>

definition i64_div :: "i64 \<Rightarrow> i64 \<Rightarrow> i64" where
  "i64_div n d =
     (if (n < 0) = (d < 0) then \<bar>n\<bar> div \<bar>d\<bar> else - (\<bar>n\<bar> div \<bar>d\<bar>))"

lemmas [sat_defs] = u64_max_def i64_max_def i64_min_def u64_saturating_add_def
  i64_saturate_def i64_saturating_add_def i64_saturating_sub_def i64_saturating_mul_def
  in_i64_def

lemma in_i64_saturate [simp, intro]: "in_i64 (i64_saturate x)"
  by (simp add: sat_defs)

lemma i64_saturate_id: "in_i64 x \<Longrightarrow> i64_saturate x = x"
  by (simp add: sat_defs)

lemma i64_saturate_mono: "x \<le> y \<Longrightarrow> i64_saturate x \<le> i64_saturate y"
  by (simp add: sat_defs)

lemma i64_saturating_sub_le: "0 \<le> b \<Longrightarrow> in_i64 a \<Longrightarrow> i64_saturating_sub a b \<le> a"
  by (simp add: sat_defs)

section \<open>Panics\<close>

text \<open>Where safe Rust panics, the model returns the reason on the left.\<close>

datatype panic =
    SliceIndexOrder nat nat \<comment> \<open>slice index starts at the first but ends at the second\<close>
  | SliceEndIndexLen nat nat \<comment> \<open>range end index out of range for a slice of that length\<close>
  | IndexOutOfBounds nat nat \<comment> \<open>the index is not below the length\<close>
  | DurationOverflow \<comment> \<open>\<open>Duration::from_secs_f64\<close> of a value too large for a duration\<close>

definition slice :: "'a list \<Rightarrow> nat \<Rightarrow> nat \<Rightarrow> panic + 'a list" where
  "slice xs lo hi =
     (if hi < lo then Inl (SliceIndexOrder lo hi)
      else if length xs < hi then Inl (SliceEndIndexLen hi (length xs))
      else Inr (take (hi - lo) (drop lo xs)))"

section \<open>Sorted slices\<close>

text \<open>
  \<open>slice::partition_point\<close>: the length of the prefix satisfying the predicate, for a slice
  that is partitioned by it (the standard library leaves the result open otherwise).
\<close>

definition partition_point :: "('a \<Rightarrow> bool) \<Rightarrow> 'a list \<Rightarrow> nat" where
  "partition_point P xs = length (takeWhile P xs)"

lemma partition_point_le [simp]: "partition_point P xs \<le> length xs"
  by (simp add: partition_point_def length_takeWhile_le)

lemma drop_partition_point [simp]: "drop (partition_point P xs) xs = dropWhile P xs"
  unfolding partition_point_def by (rule dropWhile_eq_drop [symmetric])

lemma take_partition_point [simp]: "take (partition_point P xs) xs = takeWhile P xs"
  unfolding partition_point_def by (rule takeWhile_eq_take [symmetric])

lemma takeWhile_sorted_filter:
  assumes "sorted (map f xs)" and "\<And>a b. f a \<le> f b \<Longrightarrow> P b \<Longrightarrow> P a"
  shows "takeWhile P xs = filter P xs"
  using assms
proof (induction xs)
  case Nil
  show ?case by simp
next
  case (Cons x xs)
  show ?case
  proof (cases "P x")
    case True
    with Cons show ?thesis by simp
  next
    case False
    with Cons.prems have "\<forall>y \<in> set xs. \<not> P y" by auto
    with False show ?thesis by (simp add: filter_False)
  qed
qed

lemma dropWhile_sorted_filter:
  assumes "sorted (map f xs)" and "\<And>a b. f a \<le> f b \<Longrightarrow> P b \<Longrightarrow> P a"
  shows "dropWhile P xs = filter (\<lambda>x. \<not> P x) xs"
  using assms
proof (induction xs)
  case Nil
  show ?case by simp
next
  case (Cons x xs)
  show ?case
  proof (cases "P x")
    case True
    with Cons show ?thesis by simp
  next
    case False
    with Cons.prems have "\<forall>y \<in> set xs. \<not> P y" by auto
    with False show ?thesis by (simp add: filter_True)
  qed
qed

lemma sorted_map_filter: "sorted (map f xs) \<Longrightarrow> sorted (map f (filter P xs))"
  by (induction xs) auto

lemma sorted_map_drop: "sorted (map f xs) \<Longrightarrow> sorted (map f (drop n xs))"
  by (metis drop_map sorted_wrt_drop)

text \<open>
  The slice between two partition points of a sorted vector, as both time-range lookups take
  it: the elements of the closed range, unless an element lies strictly between a start and an
  earlier end, where the slice indices cross and indexing panics.
\<close>

lemma slice_partition_points:
  fixes key :: "'a \<Rightarrow> int"
  assumes "sorted (map key xs)"
  shows "slice xs (partition_point (\<lambda>e. key e < a) xs) (partition_point (\<lambda>e. key e \<le> b) xs) =
    (if \<exists>e \<in> set xs. b < key e \<and> key e < a
     then Inl (SliceIndexOrder (length (filter (\<lambda>e. key e < a) xs)) (length (filter (\<lambda>e. key e \<le> b) xs)))
     else Inr (filter (\<lambda>e. a \<le> key e \<and> key e \<le> b) xs))"
proof -
  let ?lo = "partition_point (\<lambda>e. key e < a) xs" and ?hi = "partition_point (\<lambda>e. key e \<le> b) xs"
  have tw: "takeWhile (\<lambda>e. key e < a) xs = filter (\<lambda>e. key e < a) xs"
    "takeWhile (\<lambda>e. key e \<le> b) xs = filter (\<lambda>e. key e \<le> b) xs"
    by (rule takeWhile_sorted_filter [OF assms]; simp)+
  then have pp: "?lo = length (filter (\<lambda>e. key e < a) xs)" "?hi = length (filter (\<lambda>e. key e \<le> b) xs)"
    by (simp_all add: partition_point_def)
  show ?thesis
  proof (cases "\<exists>e \<in> set xs. b < key e \<and> key e < a")
    case True
    then obtain e where e: "e \<in> set xs" "b < key e" "key e < a" by blast
    have "filter (\<lambda>e. key e \<le> b) xs = filter (\<lambda>e. key e \<le> b) (filter (\<lambda>e. key e < a) xs)"
      using e by (auto intro!: filter_cong)
    also have "length \<dots> < length (filter (\<lambda>e. key e < a) xs)"
      using e by (intro length_filter_less [of e]) auto
    finally have "?hi < ?lo" by (simp only: pp)
    with True show ?thesis by (simp add: slice_def pp)
  next
    case False
    then have sub: "filter (\<lambda>e. key e < a) (filter (\<lambda>e. key e \<le> b) xs) = filter (\<lambda>e. key e < a) xs"
      by (auto intro!: filter_cong)
    have le: "?lo \<le> ?hi"
      unfolding pp by (subst sub [symmetric]) (rule length_filter_le)
    have "takeWhile (\<lambda>e. key e < a) (filter (\<lambda>e. key e \<le> b) xs) =
        filter (\<lambda>e. key e < a) (filter (\<lambda>e. key e \<le> b) xs)"
      by (rule takeWhile_sorted_filter [where f = key]) (simp_all add: sorted_map_filter assms)
    then have lo: "?lo = partition_point (\<lambda>e. key e < a) (filter (\<lambda>e. key e \<le> b) xs)"
      by (simp only: pp) (simp only: partition_point_def sub)
    have "take (?hi - ?lo) (drop ?lo xs) = drop ?lo (take ?hi xs)"
      by (simp only: take_drop le_add_diff_inverse2 [OF le])
    also have "\<dots> = drop ?lo (filter (\<lambda>e. key e \<le> b) xs)"
      by (simp add: tw)
    also have "\<dots> = dropWhile (\<lambda>e. key e < a) (filter (\<lambda>e. key e \<le> b) xs)"
      unfolding lo by (rule drop_partition_point)
    also have "\<dots> = filter (\<lambda>e. \<not> key e < a) (filter (\<lambda>e. key e \<le> b) xs)"
      by (rule dropWhile_sorted_filter [where f = key]) (simp_all add: sorted_map_filter assms)
    also have "\<dots> = filter (\<lambda>e. a \<le> key e \<and> key e \<le> b) xs"
      by (simp add: not_less conj_commute)
    finally have part: "take (?hi - ?lo) (drop ?lo xs) = filter (\<lambda>e. a \<le> key e \<and> key e \<le> b) xs" .
    have len: "\<not> ?hi < ?lo" "\<not> length xs < ?hi"
      using le by (simp_all only: not_less partition_point_le)
    show ?thesis
      unfolding slice_def if_not_P [OF False] if_not_P [OF len(1)] if_not_P [OF len(2)] part ..
  qed
qed

text \<open>
  \<open>sort_by_key\<close> is stable: it is \<open>sort_key\<close>. \<open>sort_by_key(Reverse)\<close> sorts stably by the
  opposite order.
\<close>

definition sort_by_key_desc :: "('a \<Rightarrow> 'b::linorder) \<Rightarrow> 'a list \<Rightarrow> 'a list" where
  "sort_by_key_desc f xs = rev (sort_key f (rev xs))"

lemma sorted_sort_by_key_desc: "sorted (map f (rev (sort_by_key_desc f xs)))"
  by (simp add: sort_by_key_desc_def)

lemma mset_sort_by_key_desc [simp]: "mset (sort_by_key_desc f xs) = mset xs"
  by (simp add: sort_by_key_desc_def)

text \<open>Truncating a descending sort keeps the largest keys.\<close>

lemma take_sort_by_key_desc:
  defines "ys xs f n \<equiv> take n (sort_by_key_desc f xs)"
  shows "sorted (map f (rev (ys xs f n)))" and "length (ys xs f n) = min n (length xs)"
    and "set (ys xs f n) \<subseteq> set xs"
    and "x \<in> set xs \<Longrightarrow> x \<notin> set (ys xs f n) \<Longrightarrow> y \<in> set (ys xs f n) \<Longrightarrow> f x \<le> f y"
    and "distinct (map g xs) \<Longrightarrow> distinct (map g (ys xs f n))"
proof -
  have m: "mset (take n (sort_by_key_desc f xs)) + mset (drop n (sort_by_key_desc f xs)) = mset xs"
    unfolding mset_append [symmetric] append_take_drop_id by simp
  have s: "sorted (map f (rev (drop n (sort_by_key_desc f xs)) @ rev (take n (sort_by_key_desc f xs))))"
    unfolding rev_append [symmetric] append_take_drop_id by (rule sorted_sort_by_key_desc)
  show "sorted (map f (rev (ys xs f n)))"
    using s unfolding ys_def by (simp only: map_append sorted_append)
  show "length (ys xs f n) = min n (length xs)"
    unfolding ys_def using mset_sort_by_key_desc [of f xs, THEN mset_eq_length] by simp
  have set: "set xs = set (take n (sort_by_key_desc f xs)) \<union> set (drop n (sort_by_key_desc f xs))"
    using arg_cong [OF m, of set_mset] by simp
  then show "set (ys xs f n) \<subseteq> set xs" unfolding ys_def by blast
  show "f x \<le> f y" if "x \<in> set xs" "x \<notin> set (ys xs f n)" "y \<in> set (ys xs f n)"
    using that set s unfolding ys_def map_append sorted_append by (auto simp: image_iff)
  have "distinct (map g (sort_by_key_desc f xs))" if "distinct (map g xs)"
    using that mset_map [of g] mset_sort_by_key_desc [of f xs] mset_eq_imp_distinct_iff by metis
  then show "distinct (map g (ys xs f n))" if "distinct (map g xs)"
    unfolding ys_def take_map [symmetric] using that by simp
qed

text \<open>Truncating an ascending sort keeps the smallest keys.\<close>

lemma sort_key_map: "sort_key f (map g xs) = map g (sort_key (\<lambda>x. f (g x)) xs)"
proof (induction xs)
  case (Cons x xs)
  have "insort_key f (g x) (map g ys) = map g (insort_key (\<lambda>x. f (g x)) x ys)" for ys
    by (induction ys) simp_all
  with Cons show ?case by simp
qed simp

lemma take_sort_key:
  fixes f :: "'a \<Rightarrow> 'b::linorder"
  shows "mset (take n (sort_key f xs)) \<subseteq># mset xs"
    and "length (take n (sort_key f xs)) = min n (length xs)"
    and "sorted (map f (take n (sort_key f xs)))"
    and "x \<in># mset xs - mset (take n (sort_key f xs)) \<Longrightarrow> y \<in> set (take n (sort_key f xs)) \<Longrightarrow> f y \<le> f x"
proof -
  let ?ys = "sort_key f xs"
  have m: "mset xs = mset (take n ?ys) + mset (drop n ?ys)"
    unfolding mset_append [symmetric] append_take_drop_id by simp
  then show "mset (take n ?ys) \<subseteq># mset xs" by simp
  show "length (take n ?ys) = min n (length xs)" by simp
  have s: "sorted (map f (take n ?ys @ drop n ?ys))" by simp
  then show "sorted (map f (take n ?ys))" unfolding map_append sorted_append by simp
  assume "x \<in># mset xs - mset (take n ?ys)" and "y \<in> set (take n ?ys)"
  then show "f y \<le> f x" using s unfolding m map_append sorted_append by simp
qed

text \<open>Strictly increasing lists are determined by their elements.\<close>

lemma strict_sorted_unique:
  fixes xs ys :: "'a::linorder list"
  assumes "sorted_wrt (<) xs" and "sorted_wrt (<) ys" and "set xs = set ys"
  shows "xs = ys"
  using assms by (metis strict_sorted_equal)

lemma strict_sorted_distinct: "sorted_wrt (<) (xs :: 'a::linorder list) \<Longrightarrow> distinct xs"
  by (simp add: strict_sorted_iff)

text \<open>\<open>Vec::dedup\<close> is \<open>remdups_adj\<close>; on a sorted vector it leaves no duplicates.\<close>

lemma strict_sorted_remdups_adj:
  "sorted xs \<Longrightarrow> sorted_wrt (<) (remdups_adj (xs :: 'a::linorder list))"
  by (induction xs rule: remdups_adj.induct) auto

section \<open>Hash maps and hash sets\<close>

type_synonym ('k, 'v) hash_map = "('k \<times> 'v) list"
type_synonym 'a hash_set = "'a list"

abbreviation hm_get :: "('k, 'v) hash_map \<Rightarrow> 'k \<Rightarrow> 'v option" where
  "hm_get \<equiv> map_of"

abbreviation hm_insert :: "'k \<Rightarrow> 'v \<Rightarrow> ('k, 'v) hash_map \<Rightarrow> ('k, 'v) hash_map" where
  "hm_insert \<equiv> AList.update"

abbreviation hm_remove :: "'k \<Rightarrow> ('k, 'v) hash_map \<Rightarrow> ('k, 'v) hash_map" where
  "hm_remove \<equiv> AList.delete"

abbreviation hm_keys :: "('k, 'v) hash_map \<Rightarrow> 'k list" where
  "hm_keys m \<equiv> map fst m"

abbreviation hm_values :: "('k, 'v) hash_map \<Rightarrow> 'v list" where
  "hm_values m \<equiv> map snd m"

abbreviation hm_wf :: "('k, 'v) hash_map \<Rightarrow> bool" where
  "hm_wf m \<equiv> distinct (map fst m)"

text \<open>\<open>map.entry(k).or_default()\<close> followed by an update of the value in place.\<close>

definition hm_upsert :: "'v \<Rightarrow> 'k \<Rightarrow> ('v \<Rightarrow> 'v) \<Rightarrow> ('k, 'v) hash_map \<Rightarrow> ('k, 'v) hash_map" where
  "hm_upsert d k f m = hm_insert k (f (case hm_get m k of None \<Rightarrow> d | Some v \<Rightarrow> v)) m"

abbreviation hs_insert :: "'a \<Rightarrow> 'a hash_set \<Rightarrow> 'a hash_set" where
  "hs_insert \<equiv> List.insert"

abbreviation hs_remove :: "'a \<Rightarrow> 'a hash_set \<Rightarrow> 'a hash_set" where
  "hs_remove \<equiv> removeAll"

text \<open>
  Lookups are rewritten by the collection \<open>hm_simps\<close>; the library's rules that turn them into
  membership in the list, and quantifiers over pairs into two, get in the way.
\<close>

declare map_of_eq_Some_iff [simp del] Some_eq_map_of_iff [simp del] split_paired_All [simp del]
  split_paired_Ex [simp del]

lemma hm_get_insert [hm_simps]: "hm_get (hm_insert k v m) = (hm_get m)(k \<mapsto> v)"
  by (rule update_conv')

lemma hm_get_remove [hm_simps]: "hm_get (hm_remove k m) = (hm_get m)(k := None)"
  by (rule delete_conv')

lemma hm_get_upsert [hm_simps]:
  "hm_get (hm_upsert d k f m) =
     (hm_get m)(k \<mapsto> f (case hm_get m k of None \<Rightarrow> d | Some v \<Rightarrow> v))"
  by (simp add: hm_upsert_def hm_get_insert)

lemma hm_wf_insert [hm_simps]: "hm_wf m \<Longrightarrow> hm_wf (hm_insert k v m)"
  by (rule distinct_update)

lemma hm_wf_remove [hm_simps]: "hm_wf m \<Longrightarrow> hm_wf (hm_remove k m)"
  by (rule distinct_delete)

lemma hm_wf_upsert [hm_simps]: "hm_wf m \<Longrightarrow> hm_wf (hm_upsert d k f m)"
  by (simp add: hm_upsert_def distinct_update)

lemma hm_wf_filter [hm_simps]: "hm_wf m \<Longrightarrow> hm_wf (filter P m)"
  by (induction m) auto

lemma hm_wf_map_values [hm_simps]: "hm_wf (map (\<lambda>(k, v). (k, f k v)) m) = hm_wf m"
  by (simp add: case_prod_unfold comp_def)

lemma hm_get_map_values [hm_simps]:
  "hm_get (map (\<lambda>(k, v). (k, f k v)) m) k = map_option (f k) (hm_get m k)"
  by (induction m) auto

lemma hm_get_filter [hm_simps]:
  "hm_wf m \<Longrightarrow> hm_get (filter (\<lambda>(k, v). P k v) m) k =
     (case hm_get m k of None \<Rightarrow> None | Some v \<Rightarrow> if P k v then Some v else None)"
proof (induction m)
  case Nil
  show ?case by simp
next
  case (Cons kv m)
  obtain k' v' where kv: "kv = (k', v')" by force
  have "k' = k \<Longrightarrow> hm_get m k = None"
    using Cons.prems kv by (auto simp: map_of_eq_None_iff)
  with Cons kv show ?case by auto
qed

lemma hm_mem_iff: "hm_wf m \<Longrightarrow> (k, v) \<in> set m \<longleftrightarrow> hm_get m k = Some v"
  by (auto intro: map_of_SomeD)

lemma hm_key_iff: "k \<in> set (hm_keys m) \<longleftrightarrow> hm_get m k \<noteq> None"
  by (force simp: map_of_eq_None_iff)

lemma hm_keys_remove: "set (hm_keys (hm_remove k m)) = set (hm_keys m) - {k}"
  by (simp only: delete_keys set_removeAll)

lemma hm_length_remove:
  assumes "hm_wf m" and "hm_get m k = Some v"
  shows "length (hm_remove k m) = length m - 1"
proof -
  have "length (hm_remove k m) = card (set (hm_keys (hm_remove k m)))"
    using distinct_card [OF hm_wf_remove [OF assms(1)]] by simp
  also have "\<dots> = card (set (hm_keys m) - {k})"
    by (simp only: hm_keys_remove)
  also have "\<dots> = card (set (hm_keys m)) - 1"
    using assms(2) hm_key_iff [of k m] by (simp add: card_Diff_singleton)
  also have "card (set (hm_keys m)) = length m"
    using distinct_card [OF assms(1)] by simp
  finally show ?thesis .
qed

text \<open>Grouping the elements of a list by a key, each group in the order its elements came.\<close>

lemma group_fold_get:
  "hm_get (fold (\<lambda>x. hm_upsert [] (key x) (\<lambda>ys. ys @ [val x])) xs m) k =
    (if filter (\<lambda>x. key x = k) xs = [] then hm_get m k
     else Some ((case hm_get m k of None \<Rightarrow> [] | Some ys \<Rightarrow> ys) @ map val (filter (\<lambda>x. key x = k) xs)))"
  by (induction xs arbitrary: m) (auto simp: hm_simps split: option.split)

lemma group_fold_keys:
  assumes "hm_wf m"
  shows "hm_wf (fold (\<lambda>x. hm_upsert [] (key x) (\<lambda>ys. ys @ [val x])) xs m)"
  using assms by (induction xs arbitrary: m) (simp_all add: hm_simps)

text \<open>The elements split by their keys.\<close>

lemma mset_split:
  assumes "distinct ks" and "f ` set xs \<subseteq> set ks"
  shows "(\<Sum>k \<leftarrow> ks. mset (filter (\<lambda>x. f x = k) xs)) = mset xs"
proof -
  have "(\<Sum>k \<leftarrow> ks. mset (filter (\<lambda>x. f x = k) xs)) = mset (filter (\<lambda>x. f x \<in> set ks) xs)"
    using assms(1)
  proof (induction ks)
    case (Cons k ks)
    have "mset (filter (\<lambda>x. f x \<in> set (k # ks)) xs) =
        mset (filter (\<lambda>x. f x = k) xs) + mset (filter (\<lambda>x. f x \<in> set ks) xs)"
      using Cons.prems by (induction xs) auto
    then show ?case using Cons by simp
  qed simp
  moreover have "filter (\<lambda>x. f x \<in> set ks) xs = xs" using assms(2) by (auto simp: filter_id_conv)
  ultimately show ?thesis by simp
qed

text \<open>Sums over the values of a map, under removal and update of one key.\<close>

lemma sum_values_remove:
  fixes f :: "'v \<Rightarrow> nat"
  assumes "hm_wf m" and "hm_get m k = Some v"
  shows "sum_list (map f (hm_values m)) = f v + sum_list (map f (hm_values (hm_remove k m)))"
  using assms
proof (induction m)
  case Nil
  then show ?case by simp
next
  case (Cons kv m)
  obtain k' v' where kv: "kv = (k', v')" by force
  show ?case
  proof (cases "k' = k")
    case True
    with Cons.prems kv have "k \<notin> set (hm_keys m)" by simp
    then have "hm_remove k m = m" by (simp add: delete_idem)
    with True Cons.prems kv show ?thesis by simp
  next
    case False
    with Cons kv show ?thesis by simp
  qed
qed

lemma sum_values_update:
  fixes f :: "'v \<Rightarrow> nat"
  assumes "hm_wf m" and "hm_get m k = Some v"
  shows "sum_list (map f (hm_values (hm_insert k w m))) + f v =
         sum_list (map f (hm_values m)) + f w"
  using assms
proof (induction m)
  case Nil
  then show ?case by simp
next
  case (Cons kv m)
  obtain k' v' where kv: "kv = (k', v')" by force
  show ?case
  proof (cases "k' = k")
    case True
    with Cons.prems kv show ?thesis by simp
  next
    case False
    with Cons kv show ?thesis by simp
  qed
qed

lemma sum_values_insert_new:
  fixes f :: "'v \<Rightarrow> nat"
  assumes "hm_get m k = None"
  shows "sum_list (map f (hm_values (hm_insert k w m))) = sum_list (map f (hm_values m)) + f w"
  using assms by (induction m) (auto split: if_splits)

end
