(* ===== verification/Posting_List.thy ===== *)
theory Posting_List
  imports Prelude
begin

text \<open>
  \<open>src/store/posting_list.rs\<close>: the sorted id list behind every inverted index entry, with
  insertion, removal and membership by binary search, and the merge loops for difference,
  intersection and union. The interface the label index relies on is the locale
  \<open>id_set_algebra\<close>, interpreted on these operations at the end.
\<close>

section \<open>The data and its point operations\<close>

record posting_list =
  pl_ids :: "u64 list"

definition pl_new :: posting_list where
  "pl_new = \<lparr>pl_ids = []\<rparr>"

definition pl_from_ids :: "u64 list \<Rightarrow> posting_list" where
  "pl_from_ids xs = \<lparr>pl_ids = remdups_adj (sort xs)\<rparr>"

text \<open>
  \<open>slice::binary_search\<close> on a sorted slice without duplicates: \<open>Inr\<close> the position of the
  element (Rust's \<open>Ok\<close>), or \<open>Inl\<close> the position where it would be inserted (\<open>Err\<close>).
\<close>

definition binary_search :: "u64 list \<Rightarrow> u64 \<Rightarrow> nat + nat" where
  "binary_search xs x =
     (let pos = partition_point (\<lambda>y. y < x) xs
      in if pos < length xs \<and> xs ! pos = x then Inr pos else Inl pos)"

definition pl_insert :: "posting_list \<Rightarrow> u64 \<Rightarrow> posting_list" where
  "pl_insert pl x =
     (case binary_search (pl_ids pl) x of
        Inr _ \<Rightarrow> pl
      | Inl pos \<Rightarrow> pl\<lparr>pl_ids := take pos (pl_ids pl) @ x # drop pos (pl_ids pl)\<rparr>)"

definition pl_remove :: "posting_list \<Rightarrow> u64 \<Rightarrow> posting_list \<times> bool" where
  "pl_remove pl x =
     (case binary_search (pl_ids pl) x of
        Inr pos \<Rightarrow> (pl\<lparr>pl_ids := take pos (pl_ids pl) @ drop (Suc pos) (pl_ids pl)\<rparr>, True)
      | Inl _ \<Rightarrow> (pl, False))"

definition pl_contains :: "posting_list \<Rightarrow> u64 \<Rightarrow> bool" where
  "pl_contains pl x = (case binary_search (pl_ids pl) x of Inr _ \<Rightarrow> True | Inl _ \<Rightarrow> False)"

definition pl_len :: "posting_list \<Rightarrow> nat" where
  "pl_len pl = length (pl_ids pl)"

definition pl_is_empty :: "posting_list \<Rightarrow> bool" where
  "pl_is_empty pl \<longleftrightarrow> pl_ids pl = []"

section \<open>The merge loops\<close>

text \<open>
  The Rust loops walk two slices with the indices \<open>i\<close> and \<open>j\<close>; the recursions below walk
  the suffixes that start at them. The final \<open>extend_from_slice\<close> calls are the equations
  for an exhausted side.
\<close>

fun difference_ids :: "u64 list \<Rightarrow> u64 list \<Rightarrow> u64 list" where
  "difference_ids [] bs = []"
| "difference_ids as [] = as"
| "difference_ids (a # as) (b # bs) =
     (if a < b then a # difference_ids as (b # bs)
      else if b < a then difference_ids (a # as) bs
      else difference_ids as bs)"

definition pl_difference :: "posting_list \<Rightarrow> posting_list \<Rightarrow> posting_list" where
  "pl_difference a b = \<lparr>pl_ids = difference_ids (pl_ids a) (pl_ids b)\<rparr>"

fun intersect_two :: "u64 list \<Rightarrow> u64 list \<Rightarrow> u64 list" where
  "intersect_two [] bs = []"
| "intersect_two as [] = []"
| "intersect_two (a # as) (b # bs) =
     (if a < b then intersect_two as (b # bs)
      else if b < a then intersect_two (a # as) bs
      else a # intersect_two as bs)"

text \<open>The loop over the remaining lists, with its \<open>break\<close> on an empty result.\<close>

fun intersect_rest :: "u64 list \<Rightarrow> posting_list list \<Rightarrow> u64 list" where
  "intersect_rest acc [] = acc"
| "intersect_rest acc (pl # pls) =
     (let acc' = intersect_two acc (pl_ids pl)
      in if acc' = [] then acc' else intersect_rest acc' pls)"

definition pl_intersect :: "posting_list list \<Rightarrow> u64 list" where
  "pl_intersect pls =
     (case pls of
        [] \<Rightarrow> []
      | [pl] \<Rightarrow> pl_ids pl
      | _ \<Rightarrow> (case sort_key pl_len pls of
                [] \<Rightarrow> []
              | smallest # rest \<Rightarrow> intersect_rest (pl_ids smallest) rest))"

fun union_ids :: "u64 list \<Rightarrow> u64 list \<Rightarrow> u64 list" where
  "union_ids [] bs = bs"
| "union_ids as [] = as"
| "union_ids (a # as) (b # bs) =
     (if a < b then a # union_ids as (b # bs)
      else if b < a then b # union_ids (a # as) bs
      else a # union_ids as bs)"

definition pl_union :: "posting_list \<Rightarrow> posting_list \<Rightarrow> posting_list" where
  "pl_union a b = \<lparr>pl_ids = union_ids (pl_ids a) (pl_ids b)\<rparr>"

section \<open>Well-formedness and the set a posting list denotes\<close>

definition pl_wf :: "posting_list \<Rightarrow> bool" where
  "pl_wf pl \<longleftrightarrow> sorted_wrt (<) (pl_ids pl)"

definition pl_set :: "posting_list \<Rightarrow> u64 set" where
  "pl_set pl = set (pl_ids pl)"

lemma pl_wf_new [simp]: "pl_wf pl_new" and pl_set_new [simp]: "pl_set pl_new = {}"
  by (simp_all add: pl_wf_def pl_set_def pl_new_def)

lemma pl_from_ids_wf [simp]: "pl_wf (pl_from_ids xs)"
  by (simp add: pl_wf_def pl_from_ids_def strict_sorted_remdups_adj)

lemma pl_from_ids_set [simp]: "pl_set (pl_from_ids xs) = set xs"
  by (simp add: pl_set_def pl_from_ids_def)

lemma pl_is_empty_iff: "pl_is_empty pl \<longleftrightarrow> pl_set pl = {}"
  by (simp add: pl_is_empty_def pl_set_def)

text \<open>The position the search finds splits a sorted list into smaller and larger ids.\<close>

lemma split_at_search:
  fixes x :: u64
  assumes "sorted_wrt (<) xs"
  shows "\<forall>y \<in> set (take (partition_point (\<lambda>y. y < x) xs) xs). y < x"
    and "\<forall>y \<in> set (drop (partition_point (\<lambda>y. y < x) xs) xs). x \<le> y"
proof -
  show "\<forall>y \<in> set (take (partition_point (\<lambda>y. y < x) xs) xs). y < x"
    by (auto dest: set_takeWhileD)
  have "sorted (map (\<lambda>y. y) xs)"
    using assms(1) by (simp add: strict_sorted_iff)
  then have "dropWhile (\<lambda>y. y < x) xs = filter (\<lambda>y. \<not> y < x) xs"
    by (rule dropWhile_sorted_filter) auto
  then show "\<forall>y \<in> set (drop (partition_point (\<lambda>y. y < x) xs) xs). x \<le> y"
    by auto
qed

lemma search_found_iff:
  assumes "sorted_wrt (<) xs"
  shows "(\<exists>pos. binary_search xs x = Inr pos) \<longleftrightarrow> x \<in> set xs"
proof -
  let ?pos = "partition_point (\<lambda>y. y < x) xs"
  have split: "\<forall>y \<in> set (take ?pos xs). y < x" "\<forall>y \<in> set (drop ?pos xs). x \<le> y"
    using split_at_search [OF assms] by blast+
  have "?pos < length xs \<and> xs ! ?pos = x" if "x \<in> set xs"
  proof -
    have "x \<in> set (drop ?pos xs)"
      using that split(1) by (metis UnE append_take_drop_id less_irrefl set_append)
    then have lt: "?pos < length xs" 
      by (metis drop_eq_Nil empty_iff list.set(1) not_le)
    then have cons: "drop ?pos xs = xs ! ?pos # drop (Suc ?pos) xs"
      by (rule Cons_nth_drop_Suc [symmetric])
    moreover have "sorted_wrt (<) (drop ?pos xs)"
      using assms by (rule sorted_wrt_drop)
    ultimately have "\<forall>y \<in> set (drop (Suc ?pos) xs). xs ! ?pos < y" by simp
    moreover have "x \<le> xs ! ?pos" using split(2) cons by simp
    ultimately have "xs ! ?pos = x"
      using \<open>x \<in> set (drop ?pos xs)\<close> cons by auto
    with lt show ?thesis ..
  qed
  moreover have "x \<in> set xs" if "?pos < length xs \<and> xs ! ?pos = x"
    using that nth_mem [of ?pos xs] by (metis (no_types))
  moreover have "(\<exists>pos. binary_search xs x = Inr pos) \<longleftrightarrow> ?pos < length xs \<and> xs ! ?pos = x"
    unfolding binary_search_def Let_def by simp
  ultimately show ?thesis by argo
qed

lemma search_Inr:
  assumes "binary_search xs x = Inr pos"
  shows "pos < length xs" and "xs ! pos = x"
  using assms by (auto simp: binary_search_def Let_def split: if_splits)

lemma search_Inl: "binary_search xs x = Inl pos \<Longrightarrow> pos = partition_point (\<lambda>y. y < x) xs"
  by (auto simp: binary_search_def Let_def split: if_splits)

lemma pl_contains_iff: "pl_wf pl \<Longrightarrow> pl_contains pl x \<longleftrightarrow> x \<in> pl_set pl"
  using search_found_iff [of "pl_ids pl" x]
  by (auto simp: pl_contains_def pl_wf_def pl_set_def split: sum.splits)

lemma pl_insert_set: "pl_wf pl \<Longrightarrow> pl_set (pl_insert pl x) = insert x (pl_set pl)"
proof (cases "binary_search (pl_ids pl) x")
  case (Inr pos)
  then show ?thesis
    using search_Inr [OF Inr] by (auto simp: pl_insert_def pl_set_def)
next
  case (Inl pos)
  have "set (take pos (pl_ids pl)) \<union> set (drop pos (pl_ids pl)) = set (pl_ids pl)"
    by (metis append_take_drop_id set_append)
  with Inl show ?thesis by (auto simp: pl_insert_def pl_set_def)
qed

lemma pl_insert_wf: 
  assumes "pl_wf pl"
  shows "pl_wf (pl_insert pl x)"
proof (cases "binary_search (pl_ids pl) x")
  case (Inr pos)
  with assms show ?thesis by (simp add: pl_insert_def)
next
  case (Inl pos)
  let ?xs = "pl_ids pl"
  have sorted: "sorted_wrt (<) ?xs" using assms by (simp add: pl_wf_def)
  have pos: "pos = partition_point (\<lambda>y. y < x) ?xs" using Inl by (rule search_Inl)
  have "x \<notin> set ?xs"
    using search_found_iff [OF sorted, of x] Inl by auto
  then have "\<forall>y \<in> set (drop pos ?xs). x < y"
    using split_at_search(2) [OF sorted, of x] pos
    by (metis in_set_dropD order_le_imp_less_or_eq)
  moreover have "\<forall>y \<in> set (take pos ?xs). y < x"
    using split_at_search(1) [OF sorted, of x] pos by simp
  ultimately have "sorted_wrt (<) (take pos ?xs @ x # drop pos ?xs)"
    using sorted by (force simp: sorted_wrt_append intro: sorted_wrt_take sorted_wrt_drop)
  with Inl show ?thesis by (simp add: pl_insert_def pl_wf_def)
qed

lemma pl_remove_spec:
  assumes "pl_wf pl"
  shows "pl_wf (fst (pl_remove pl x))"
    and "pl_set (fst (pl_remove pl x)) = pl_set pl - {x}"
    and "snd (pl_remove pl x) \<longleftrightarrow> x \<in> pl_set pl"
proof -
  let ?xs = "pl_ids pl"
  have sorted: "sorted_wrt (<) ?xs" using assms by (simp add: pl_wf_def)
  have "pl_wf (fst (pl_remove pl x)) \<and> pl_set (fst (pl_remove pl x)) = pl_set pl - {x} \<and>
    (snd (pl_remove pl x) \<longleftrightarrow> x \<in> pl_set pl)"
  proof (cases "binary_search ?xs x")
    case (Inr pos)
    note found = search_Inr [OF Inr]
    have split: "?xs = take pos ?xs @ x # drop (Suc pos) ?xs"
      using id_take_nth_drop [OF found(1)] found(2) by simp
    then have sorted': "sorted_wrt (<) (take pos ?xs @ x # drop (Suc pos) ?xs)"
      using sorted by simp
    then have "sorted_wrt (<) (take pos ?xs @ drop (Suc pos) ?xs)"
      and "x \<notin> set (take pos ?xs) \<union> set (drop (Suc pos) ?xs)"
      by (auto simp: sorted_wrt_append)
    moreover have "set ?xs = insert x (set (take pos ?xs) \<union> set (drop (Suc pos) ?xs))"
      by (subst split) auto
    ultimately show ?thesis
      using Inr by (auto simp: pl_remove_def pl_wf_def pl_set_def)
  next
    case (Inl pos)
    then have "x \<notin> set ?xs" using search_found_iff [OF sorted, of x] by auto
    with Inl assms show ?thesis by (simp add: pl_remove_def pl_set_def)
  qed
  then show "pl_wf (fst (pl_remove pl x))" "pl_set (fst (pl_remove pl x)) = pl_set pl - {x}"
    "snd (pl_remove pl x) \<longleftrightarrow> x \<in> pl_set pl" by blast+
qed

section \<open>The merge loops compute the set operations\<close>

lemma difference_ids_set:
  "sorted_wrt (<) as \<Longrightarrow> sorted_wrt (<) bs \<Longrightarrow>
     set (difference_ids as bs) = set as - set bs"
proof (induction as bs rule: difference_ids.induct)
  case (3 a as b bs)
  consider "a < b" | "b < a" | "a = b" by (rule linorder_cases)
  then show ?case
  proof cases
    case 1
    with "3.prems" have "a \<notin> set (b # bs)" by auto
    with 1 "3.IH"(1) "3.prems" show ?thesis by auto
  next
    case 2
    with "3.prems" have "b \<notin> set (a # as)" by auto
    with 2 "3.IH"(2) "3.prems" show ?thesis by auto
  next
    case 3
    with "3.prems" have "a \<notin> set as" "b \<notin> set bs" by auto
    with 3 "3.IH"(3) "3.prems" show ?thesis by auto
  qed
qed auto

lemma difference_ids_sorted:
  "sorted_wrt (<) as \<Longrightarrow> sorted_wrt (<) bs \<Longrightarrow> sorted_wrt (<) (difference_ids as bs)"
  by (induction as bs rule: difference_ids.induct) (auto simp: difference_ids_set)

lemma intersect_two_set:
  "sorted_wrt (<) as \<Longrightarrow> sorted_wrt (<) bs \<Longrightarrow>
     set (intersect_two as bs) = set as \<inter> set bs"
proof (induction as bs rule: intersect_two.induct)
  case (3 a as b bs)
  consider "a < b" | "b < a" | "a = b" by (rule linorder_cases)
  then show ?case
  proof cases
    case 1
    with "3.prems" have "a \<notin> set (b # bs)" by auto
    with 1 "3.IH"(1) "3.prems" show ?thesis by auto
  next
    case 2
    with "3.prems" have "b \<notin> set (a # as)" by auto
    with 2 "3.IH"(2) "3.prems" show ?thesis by auto
  next
    case 3
    with "3.prems" have "a \<notin> set as" "b \<notin> set bs" by auto
    with 3 "3.IH"(3) "3.prems" show ?thesis by auto
  qed
qed auto

lemma intersect_two_sorted:
  "sorted_wrt (<) as \<Longrightarrow> sorted_wrt (<) bs \<Longrightarrow> sorted_wrt (<) (intersect_two as bs)"
  by (induction as bs rule: intersect_two.induct) (auto simp: intersect_two_set)

lemma union_ids_set: "set (union_ids as bs) = set as \<union> set bs"
  by (induction as bs rule: union_ids.induct) auto

lemma union_ids_sorted:
  "sorted_wrt (<) as \<Longrightarrow> sorted_wrt (<) bs \<Longrightarrow> sorted_wrt (<) (union_ids as bs)"
  by (induction as bs rule: union_ids.induct) (auto simp: union_ids_set)

lemma pl_difference_spec:
  assumes "pl_wf a" and "pl_wf b"
  shows "pl_wf (pl_difference a b)" and "pl_set (pl_difference a b) = pl_set a - pl_set b"
  using assms
  by (simp_all add: pl_difference_def pl_wf_def pl_set_def difference_ids_set difference_ids_sorted)

lemma pl_union_spec:
  assumes "pl_wf a" and "pl_wf b"
  shows "pl_wf (pl_union a b)" and "pl_set (pl_union a b) = pl_set a \<union> pl_set b"
  using assms by (simp_all add: pl_union_def pl_wf_def pl_set_def union_ids_set union_ids_sorted)

lemma intersect_rest_spec:
  assumes "sorted_wrt (<) acc" and "\<forall>pl \<in> set pls. pl_wf pl"
  shows "sorted_wrt (<) (intersect_rest acc pls) \<and>
    set (intersect_rest acc pls) = set acc \<inter> (\<Inter>pl \<in> set pls. pl_set pl)"
  using assms
proof (induction acc pls rule: intersect_rest.induct)
  case (1 acc)
  then show ?case by simp
next
  case (2 acc pl pls)
  let ?acc = "intersect_two acc (pl_ids pl)"
  have step: "sorted_wrt (<) ?acc" "set ?acc = set acc \<inter> pl_set pl"
    using "2.prems" by (simp_all add: pl_wf_def pl_set_def intersect_two_sorted intersect_two_set)
  show ?case
  proof (cases "?acc = []")
    case True
    with step(2) have "set acc \<inter> pl_set pl = {}" by simp
    with True show ?thesis by auto
  next
    case False
    with "2.IH" [OF refl False step(1)] "2.prems"(2) step(2) show ?thesis by (auto simp: Let_def)
  qed
qed

lemma pl_intersect_spec:
  assumes "\<forall>pl \<in> set pls. pl_wf pl" and "pls \<noteq> []"
  shows "sorted_wrt (<) (pl_intersect pls)"
    and "set (pl_intersect pls) = (\<Inter>pl \<in> set pls. pl_set pl)"
proof -
  have "sorted_wrt (<) (pl_intersect pls) \<and>
    set (pl_intersect pls) = (\<Inter>pl \<in> set pls. pl_set pl)"
  proof (cases "\<exists>pl. pls = [pl]")
    case True
    with assms(1) show ?thesis by (auto simp: pl_intersect_def pl_wf_def pl_set_def)
  next
    case False
    then have eq: "pl_intersect pls =
      (case sort_key pl_len pls of [] \<Rightarrow> [] | s # rest \<Rightarrow> intersect_rest (pl_ids s) rest)"
      using assms(2) by (auto simp: pl_intersect_def split: list.splits)
    have "sort_key pl_len pls \<noteq> []"
      using assms(2) by (metis length_0_conv length_sort)
    then obtain s rest where cons: "sort_key pl_len pls = s # rest"
      by (cases "sort_key pl_len pls") auto
    then have same: "set pls = insert s (set rest)"
      by (metis list.simps(15) set_sort)
    have "sorted_wrt (<) (pl_ids s)" "\<forall>pl \<in> set rest. pl_wf pl"
      using assms(1) same by (auto simp: pl_wf_def)
    from intersect_rest_spec [OF this] show ?thesis
      by (simp add: eq cons same pl_set_def [of s])
  qed
  then show "sorted_wrt (<) (pl_intersect pls)"
    "set (pl_intersect pls) = (\<Inter>pl \<in> set pls. pl_set pl)" by blast+
qed

section \<open>The interface the label index relies on\<close>

text \<open>
  A client of posting lists uses them as finite sets of ids. \<open>id_set\<close> is what maintaining an
  index needs, \<open>id_set_algebra\<close> adds what answering a query needs.
\<close>

locale id_set =
  fixes empty :: "'s"
    and ins :: "'s \<Rightarrow> u64 \<Rightarrow> 's"
    and rem :: "'s \<Rightarrow> u64 \<Rightarrow> 's \<times> bool"
    and mem :: "'s \<Rightarrow> u64 \<Rightarrow> bool"
    and inv :: "'s \<Rightarrow> bool"
    and elems :: "'s \<Rightarrow> u64 set"
  assumes inv_empty: "inv empty" and elems_empty: "elems empty = {}"
    and inv_ins: "inv s \<Longrightarrow> inv (ins s x)"
    and elems_ins: "inv s \<Longrightarrow> elems (ins s x) = insert x (elems s)"
    and inv_rem: "inv s \<Longrightarrow> inv (fst (rem s x))"
    and elems_rem: "inv s \<Longrightarrow> elems (fst (rem s x)) = elems s - {x}"
    and rem_reports: "inv s \<Longrightarrow> snd (rem s x) \<longleftrightarrow> x \<in> elems s"
    and mem_iff: "inv s \<Longrightarrow> mem s x \<longleftrightarrow> x \<in> elems s"
begin

lemma fold_ins: "inv s \<Longrightarrow> inv (fold (\<lambda>x s. ins s x) xs s)
    \<and> elems (fold (\<lambda>x s. ins s x) xs s) = set xs \<union> elems s"
  by (induction xs arbitrary: s) (auto simp: inv_ins elems_ins)

lemma insert_then_member: "inv s \<Longrightarrow> mem (ins s x) x"
  by (simp add: mem_iff inv_ins elems_ins)

lemma remove_then_not_member: "inv s \<Longrightarrow> \<not> mem (fst (rem s x)) x"
  by (simp add: mem_iff inv_rem elems_rem)

end

locale id_set_algebra = id_set +
  fixes uni :: "'a \<Rightarrow> 'a \<Rightarrow> 'a"
    and diff :: "'a \<Rightarrow> 'a \<Rightarrow> 'a"
    and inters :: "'a list \<Rightarrow> u64 list"
  assumes inv_uni: "inv a \<Longrightarrow> inv b \<Longrightarrow> inv (uni a b)"
    and elems_uni: "inv a \<Longrightarrow> inv b \<Longrightarrow> elems (uni a b) = elems a \<union> elems b"
    and inv_diff: "inv a \<Longrightarrow> inv b \<Longrightarrow> inv (diff a b)"
    and elems_diff: "inv a \<Longrightarrow> inv b \<Longrightarrow> elems (diff a b) = elems a - elems b"
    and inters_sorted: "\<forall>a \<in> set as. inv a \<Longrightarrow> as \<noteq> [] \<Longrightarrow> sorted_wrt (<) (inters as)"
    and inters_set:
      "\<forall>a \<in> set as. inv a \<Longrightarrow> as \<noteq> [] \<Longrightarrow> set (inters as) = (\<Inter>a \<in> set as. elems a)"
begin

text \<open>The union a regex matcher accumulates over the label values it accepts.\<close>

lemma fold_uni:
  assumes "inv s" and "\<forall>x \<in> set xs. inv (g x)"
  shows "inv (fold (\<lambda>x s. uni s (g x)) xs s) \<and>
    elems (fold (\<lambda>x s. uni s (g x)) xs s) = elems s \<union> (\<Union>x \<in> set xs. elems (g x))"
  using assms by (induction xs arbitrary: s) (auto simp: inv_uni elems_uni)

lemma inters_unique:
  assumes "\<forall>a \<in> set as. inv a" and "as \<noteq> []" and "\<forall>b \<in> set bs. inv b" and "bs \<noteq> []"
    and "(\<Inter>a \<in> set as. elems a) = (\<Inter>b \<in> set bs. elems b)"
  shows "inters as = inters bs"
  using assms by (intro strict_sorted_unique) (simp_all add: inters_sorted inters_set)

end

interpretation pl: id_set_algebra pl_new pl_insert pl_remove pl_contains pl_wf pl_set
    pl_union pl_difference pl_intersect
  by unfold_locales
    (auto simp: pl_insert_wf pl_insert_set pl_remove_spec pl_contains_iff pl_difference_spec
      pl_union_spec pl_intersect_spec)

text \<open>
  On well-formed posting lists the intersection is the increasing enumeration of the
  ids present in every list, whatever the order or the lengths of the lists.
\<close>

theorem posting_intersect_correct:
  assumes "\<forall>pl \<in> set pls. pl_wf pl" and "pls \<noteq> []"
  shows "pl_intersect pls = sorted_list_of_set (\<Inter>pl \<in> set pls. pl_set pl)"
proof (rule strict_sorted_unique)
  have fin: "finite (\<Inter>pl \<in> set pls. pl_set pl)"
    using assms(2) by (cases pls) (auto simp: pl_set_def)
  show "sorted_wrt (<) (pl_intersect pls)"
    using assms by (rule pl.inters_sorted)
  show "sorted_wrt (<) (sorted_list_of_set (\<Inter>pl \<in> set pls. pl_set pl))"
    by simp
  show "set (pl_intersect pls) = set (sorted_list_of_set (\<Inter>pl \<in> set pls. pl_set pl))"
    using assms fin by (simp add: pl.inters_set)
qed

theorem posting_intersect_correct_witness:
  "pl_intersect [\<lparr>pl_ids = [1, 3, 5]\<rparr>, \<lparr>pl_ids = [3, 5]\<rparr>]
     = sorted_list_of_set (\<Inter>pl \<in> set [\<lparr>pl_ids = [1, 3, 5]\<rparr>, \<lparr>pl_ids = [3, 5::u64]\<rparr>]. pl_set pl)"
  by (rule posting_intersect_correct) (simp_all add: pl_wf_def)

end
