(* ===== verification/Externals.thy ===== *)
theory Externals
  imports Prelude
begin

text \<open>
  The third-party crates the modelled code calls, as parameters: the string interner
  \<open>lasso::Rodeo\<close> and the regular expressions of the \<open>regex\<close> crate. Each is a record of
  functions; what the code relies on is stated as a predicate (\<open>rodeo_laws\<close>) that theorems
  take as a hypothesis, and a small list-based interner shows that the laws can hold.
\<close>

section \<open>The string interner\<close>

text \<open>A \<open>Spur\<close> is an opaque key with an order (the source sorts labels by it).\<close>

type_synonym spur = nat

record 'i rodeo_ops =
  rd_default :: 'i
  rd_get_or_intern :: "'i \<Rightarrow> string \<Rightarrow> 'i \<times> spur"
  rd_get :: "'i \<Rightarrow> string \<Rightarrow> spur option"
  rd_resolve :: "'i \<Rightarrow> spur \<Rightarrow> string"

text \<open>
  Documented behaviour of \<open>Rodeo\<close>: a fresh interner is empty; interning returns the key that
  \<open>get\<close> then finds, and leaves every other string as it was; \<open>resolve\<close> inverts \<open>get\<close>.
\<close>

definition rodeo_laws :: "'i rodeo_ops \<Rightarrow> bool" where
  "rodeo_laws R \<longleftrightarrow>
     (\<forall>s. rd_get R (rd_default R) s = None) \<and>
     (\<forall>i s i' k. rd_get_or_intern R i s = (i', k) \<longrightarrow> rd_get R i' s = Some k) \<and>
     (\<forall>i s i' k t. rd_get_or_intern R i s = (i', k) \<longrightarrow> t \<noteq> s \<longrightarrow> rd_get R i' t = rd_get R i t) \<and>
     (\<forall>i s i' k k'. rd_get_or_intern R i s = (i', k) \<longrightarrow> rd_get R i s = Some k' \<longrightarrow> k = k') \<and>
     (\<forall>i s k. rd_get R i s = Some k \<longrightarrow> rd_resolve R i k = s)"

text \<open>A key that some string of the interner has.\<close>

definition spur_ok :: "'i rodeo_ops \<Rightarrow> 'i \<Rightarrow> spur \<Rightarrow> bool" where
  "spur_ok R i k \<longleftrightarrow> rd_get R i (rd_resolve R i k) = Some k"

text \<open>Growth of an interner: what it knows stays known under the same key.\<close>

definition rd_extends :: "'i rodeo_ops \<Rightarrow> 'i \<Rightarrow> 'i \<Rightarrow> bool" where
  "rd_extends R i j \<longleftrightarrow> (\<forall>s k. rd_get R i s = Some k \<longrightarrow> rd_get R j s = Some k)"

lemma rd_extends_refl [simp, intro]: "rd_extends R i i"
  by (simp add: rd_extends_def)

lemma rd_extends_trans: "rd_extends R i j \<Longrightarrow> rd_extends R j l \<Longrightarrow> rd_extends R i l"
  by (simp add: rd_extends_def)

lemma rd_default_get: "rodeo_laws R \<Longrightarrow> rd_get R (rd_default R) s = None"
  by (simp add: rodeo_laws_def)

lemma rd_intern_get:
  "rodeo_laws R \<Longrightarrow> rd_get_or_intern R i s = (j, k) \<Longrightarrow> rd_get R j s = Some k"
  unfolding rodeo_laws_def by blast

lemma rd_intern_extends:
  "rodeo_laws R \<Longrightarrow> rd_get_or_intern R i s = (j, k) \<Longrightarrow> rd_extends R i j"
  unfolding rodeo_laws_def rd_extends_def by metis

lemma rd_intern_known:
  "rodeo_laws R \<Longrightarrow> rd_get R i s = Some k \<Longrightarrow> rd_get_or_intern R i s = (j, k') \<Longrightarrow> k' = k"
  unfolding rodeo_laws_def by blast

lemma rd_resolve_get: "rodeo_laws R \<Longrightarrow> rd_get R i s = Some k \<Longrightarrow> rd_resolve R i k = s"
  unfolding rodeo_laws_def by blast

lemma spur_okI: "rodeo_laws R \<Longrightarrow> rd_get R i s = Some k \<Longrightarrow> spur_ok R i k"
  by (simp add: spur_ok_def rd_resolve_get)

lemma spur_ok_extends:
  assumes "rodeo_laws R" and "rd_extends R i j" and "spur_ok R i k"
  shows "spur_ok R j k" and "rd_resolve R j k = rd_resolve R i k"
proof -
  have get: "rd_get R j (rd_resolve R i k) = Some k"
    using assms(2,3) by (simp add: rd_extends_def spur_ok_def)
  show "spur_ok R j k" using assms(1) get by (rule spur_okI)
  show "rd_resolve R j k = rd_resolve R i k" using assms(1) get by (rule rd_resolve_get)
qed

lemma rd_resolve_inj:
  "spur_ok R i k \<Longrightarrow> spur_ok R i k' \<Longrightarrow> rd_resolve R i k = rd_resolve R i k' \<Longrightarrow> k = k'"
  unfolding spur_ok_def by (metis option.inject)

lemma rd_get_iff:
  "rodeo_laws R \<Longrightarrow> spur_ok R i k \<Longrightarrow> rd_get R i s = Some k \<longleftrightarrow> rd_resolve R i k = s"
  by (metis rd_resolve_get spur_ok_def)

subsection \<open>A concrete interner\<close>

text \<open>The strings in order of interning; a key is a position. Used by the witnesses.\<close>

fun position :: "string \<Rightarrow> string list \<Rightarrow> nat option" where
  "position s [] = None"
| "position s (t # ts) = (if s = t then Some 0 else map_option Suc (position s ts))"

definition list_rodeo :: "string list rodeo_ops" where
  "list_rodeo = \<lparr>rd_default = [],
     rd_get_or_intern = (\<lambda>i s. case position s i of
        Some k \<Rightarrow> (i, k) | None \<Rightarrow> (i @ [s], length i)),
     rd_get = (\<lambda>i s. position s i),
     rd_resolve = (\<lambda>i k. if k < length i then i ! k else [])\<rparr>"

lemma position_Some: "position s ts = Some k \<Longrightarrow> k < length ts \<and> ts ! k = s"
  by (induction ts arbitrary: k) (auto split: if_splits)

lemma position_append:
  "position s (ts @ us) = (case position s ts of Some k \<Rightarrow> Some k
     | None \<Rightarrow> map_option (\<lambda>k. k + length ts) (position s us))"
  by (induction ts) (auto split: option.splits simp: option.map_comp comp_def option.map_ident)

lemma list_rodeo_laws: "rodeo_laws list_rodeo"
  by (auto simp: rodeo_laws_def list_rodeo_def position_append dest: position_Some
      split: option.splits)

section \<open>Regular expressions\<close>

record 'r regex_ops =
  rx_new :: "string \<Rightarrow> 'r option"
  rx_is_match :: "'r \<Rightarrow> string \<Rightarrow> bool"

text \<open>
  Stand-in used by the witnesses: a pattern is a literal text with the anchors the code adds,
  and it matches exactly that text.
\<close>

definition literal_regex :: "string regex_ops" where
  "literal_regex = \<lparr>rx_new = (\<lambda>p. Some p), rx_is_match = (\<lambda>p s. p = ''^(?:'' @ s @ '')$'')\<rparr>"

end
