(* ===== verification/Label_Index.thy ===== *)
theory Label_Index
  imports Posting_List Externals
begin

text \<open>
  The helpers of \<open>src/store/mod.rs\<close> that the log and the metric store share: label
  interning, the inverted index over label pairs and its upkeep, label matchers and
  \<open>select_indexed_ids\<close>, the regex cache, and \<open>batch_needs_sort\<close>. The invariant
  \<open>index_wf\<close> says that the index is exactly the one induced by the stored label sets.
\<close>

section \<open>Types\<close>

type_synonym label_pairs = "(spur \<times> spur) list"
type_synonym label_index = "(spur \<times> spur, posting_list) hash_map"
type_synonym label_values = "(spur, spur hash_set) hash_map"

datatype label_match_op = Eq | Neq | Regex | NotRegex

record label_matcher =
  lm_name :: string
  lm_op :: label_match_op
  lm_value :: string

section \<open>Interning label sets\<close>

fun intern_pairs :: "'i rodeo_ops \<Rightarrow> 'i \<Rightarrow> (string \<times> string) list \<Rightarrow> 'i \<times> label_pairs" where
  "intern_pairs R i [] = (i, [])"
| "intern_pairs R i ((k, v) # ls) =
     (let (i1, ks) = rd_get_or_intern R i k;
          (i2, vs) = rd_get_or_intern R i1 v;
          (i3, rest) = intern_pairs R i2 ls
      in (i3, (ks, vs) # rest))"

definition intern_label_pairs ::
  "'i rodeo_ops \<Rightarrow> 'i \<Rightarrow> (string \<times> string) list \<Rightarrow> 'i \<times> label_pairs" where
  "intern_label_pairs R i labels =
     (let (i', ps) = intern_pairs R i labels in (i', sort_key fst ps))"

definition resolve_labels :: "'i rodeo_ops \<Rightarrow> 'i \<Rightarrow> label_pairs \<Rightarrow> (string \<times> string) list" where
  "resolve_labels R i ls = map (\<lambda>(k, v). (rd_resolve R i k, rd_resolve R i v)) ls"

section \<open>Index upkeep\<close>

definition track_label_values :: "label_values \<Rightarrow> label_pairs \<Rightarrow> label_values" where
  "track_label_values vals labels =
     fold (\<lambda>(k, v) m. hm_upsert [] k (hs_insert v) m) labels vals"

text \<open>The loop that indexes a new id under each of its label pairs.\<close>

definition index_insert :: "label_index \<Rightarrow> label_pairs \<Rightarrow> u64 \<Rightarrow> label_index" where
  "index_insert idx labels x =
     fold (\<lambda>(k, v) m. hm_upsert pl_new (k, v) (\<lambda>pl. pl_insert pl x) m) labels idx"

definition remove_label_value :: "label_values \<Rightarrow> spur \<Rightarrow> spur \<Rightarrow> label_values" where
  "remove_label_value vals k v =
     (case hm_get vals k of
        None \<Rightarrow> vals
      | Some vs \<Rightarrow> (let vs' = hs_remove v vs
                   in if vs' = [] then hm_remove k vals else hm_insert k vs' vals))"

fun remove_label_pair ::
  "u64 \<Rightarrow> spur \<times> spur \<Rightarrow> label_index \<times> label_values \<Rightarrow> label_index \<times> label_values" where
  "remove_label_pair x (k, v) (idx, vals) =
     (case hm_get idx (k, v) of
        None \<Rightarrow> (idx, vals)
      | Some pl \<Rightarrow>
          (let pl' = fst (pl_remove pl x)
           in if pl_is_empty pl' then (hm_remove (k, v) idx, remove_label_value vals k v)
              else (hm_insert (k, v) pl' idx, vals)))"

definition remove_from_label_indexes ::
  "label_index \<Rightarrow> label_values \<Rightarrow> label_pairs \<Rightarrow> u64 \<Rightarrow> label_index \<times> label_values" where
  "remove_from_label_indexes idx vals labels x = fold (remove_label_pair x) labels (idx, vals)"

section \<open>Regex compilation and its cache\<close>

definition anchored :: "string \<Rightarrow> string" where
  "anchored pattern = ''^(?:'' @ pattern @ '')$''"

text \<open>What compiling a label pattern means, without the cache.\<close>

definition label_regex :: "'r regex_ops \<Rightarrow> string \<Rightarrow> 'r option" where
  "label_regex X pattern = rx_new X (anchored pattern)"

text \<open>The process-wide memo: look up, else compile and remember.\<close>

definition compiled_label_regex ::
  "'r regex_ops \<Rightarrow> (string, 'r) hash_map \<Rightarrow> string \<Rightarrow> 'r option \<times> (string, 'r) hash_map" where
  "compiled_label_regex X cache pattern =
     (case hm_get cache pattern of
        Some re \<Rightarrow> (Some re, cache)
      | None \<Rightarrow> (case rx_new X (anchored pattern) of
                  None \<Rightarrow> (None, cache)
                | Some re \<Rightarrow> (Some re, hm_insert pattern re cache)))"

definition cache_ok :: "'r regex_ops \<Rightarrow> (string, 'r) hash_map \<Rightarrow> bool" where
  "cache_ok X cache \<longleftrightarrow> (\<forall>p re. hm_get cache p = Some re \<longrightarrow> label_regex X p = Some re)"

lemma compiled_label_regex_transparent:
  assumes "cache_ok X cache"
  shows "fst (compiled_label_regex X cache p) = label_regex X p"
    and "cache_ok X (snd (compiled_label_regex X cache p))"
  using assms
  by (auto simp: compiled_label_regex_def cache_ok_def label_regex_def hm_simps
      split: option.splits)

section \<open>Selecting ids by label matchers\<close>

text \<open>
  The source compiles through the cache; by \<open>compiled_label_regex_transparent\<close> that is
  \<open>label_regex\<close>. The full id set is computed at most once (\<open>all_or_init\<close>), a pure value here.
\<close>

definition matching_postings ::
  "'i rodeo_ops \<Rightarrow> 'r regex_ops \<Rightarrow> 'i \<Rightarrow> label_index \<Rightarrow> label_values \<Rightarrow> spur \<Rightarrow> 'r \<Rightarrow> posting_list"
where
  "matching_postings R X i idx vals k re =
     (case hm_get vals k of
        None \<Rightarrow> pl_new
      | Some vs \<Rightarrow>
          fold (\<lambda>v acc. if rx_is_match X re (rd_resolve R i v)
                        then (case hm_get idx (k, v) of
                                None \<Rightarrow> acc
                              | Some pl \<Rightarrow> pl_union acc pl)
                        else acc) vs pl_new)"

text \<open>The posting list one matcher contributes; \<open>None\<close> is \<open>return Vec::new()\<close>.\<close>

definition matcher_posting ::
  "'i rodeo_ops \<Rightarrow> 'r regex_ops \<Rightarrow> 'i \<Rightarrow> label_index \<Rightarrow> label_values \<Rightarrow> posting_list \<Rightarrow>
     label_matcher \<Rightarrow> posting_list option" where
  "matcher_posting R X i idx vals all m =
     (case rd_get R i (lm_name m) of
        None \<Rightarrow> (case lm_op m of Neq \<Rightarrow> Some all | NotRegex \<Rightarrow> Some all | _ \<Rightarrow> None)
      | Some k \<Rightarrow>
          (case lm_op m of
             Eq \<Rightarrow> (case rd_get R i (lm_value m) of
                      None \<Rightarrow> None
                    | Some v \<Rightarrow> hm_get idx (k, v))
           | Neq \<Rightarrow> Some (case Option.bind (rd_get R i (lm_value m)) (\<lambda>v. hm_get idx (k, v)) of
                            None \<Rightarrow> all
                          | Some exclude \<Rightarrow> pl_difference all exclude)
           | Regex \<Rightarrow> (case label_regex X (lm_value m) of
                         None \<Rightarrow> None
                       | Some re \<Rightarrow> Some (matching_postings R X i idx vals k re))
           | NotRegex \<Rightarrow> (case label_regex X (lm_value m) of
                            None \<Rightarrow> None
                          | Some re \<Rightarrow>
                              Some (pl_difference all (matching_postings R X i idx vals k re)))))"

fun collect_postings :: "(label_matcher \<Rightarrow> posting_list option) \<Rightarrow> label_matcher list \<Rightarrow>
    posting_list list option" where
  "collect_postings f [] = Some []"
| "collect_postings f (m # ms) =
     (case f m of
        None \<Rightarrow> None
      | Some pl \<Rightarrow> map_option ((#) pl) (collect_postings f ms))"

definition select_indexed_ids ::
  "'i rodeo_ops \<Rightarrow> 'r regex_ops \<Rightarrow> 'i \<Rightarrow> label_index \<Rightarrow> label_values \<Rightarrow> u64 list \<Rightarrow>
     label_matcher list \<Rightarrow> u64 list" where
  "select_indexed_ids R X i idx vals all_ids ms =
     (if ms = [] then all_ids
      else case collect_postings (matcher_posting R X i idx vals (pl_from_ids all_ids)) ms of
             None \<Rightarrow> []
           | Some pls \<Rightarrow> pl_intersect pls)"

section \<open>Deciding whether an appended batch needs a sort\<close>

definition batch_needs_sort :: "('a \<Rightarrow> i64) \<Rightarrow> 'a list \<Rightarrow> nat \<Rightarrow> bool" where
  "batch_needs_sort key items prev_len =
     (if length items \<le> prev_len then False
      else if 0 < prev_len \<and> key (items ! prev_len) < key (items ! (prev_len - 1)) then True
      else (\<exists>w \<in> set (zip (drop prev_len items) (tl (drop prev_len items))).
              key (snd w) < key (fst w)))"

section \<open>The index invariant\<close>

text \<open>
  \<open>items\<close> is the set of stored label sets by id. \<open>ids_with items p\<close> are the ids that carry
  the label pair \<open>p\<close>; the index must hold exactly these, without empty entries, and the
  value table exactly the values in use.
\<close>

definition ids_with :: "(u64 \<rightharpoonup> label_pairs) \<Rightarrow> spur \<times> spur \<Rightarrow> u64 set" where
  "ids_with items p = {x. \<exists>ls. items x = Some ls \<and> p \<in> set ls}"

definition posting_of :: "label_index \<Rightarrow> spur \<times> spur \<Rightarrow> u64 set" where
  "posting_of idx p = (case hm_get idx p of None \<Rightarrow> {} | Some pl \<Rightarrow> pl_set pl)"

definition values_of :: "label_values \<Rightarrow> spur \<Rightarrow> spur set" where
  "values_of vals k = (case hm_get vals k of None \<Rightarrow> {} | Some vs \<Rightarrow> set vs)"

definition postings_wf :: "label_index \<Rightarrow> bool" where
  "postings_wf idx \<longleftrightarrow> hm_wf idx \<and>
     (\<forall>p pl. hm_get idx p = Some pl \<longrightarrow> pl_wf pl \<and> pl_set pl \<noteq> {})"

definition values_wf :: "label_values \<Rightarrow> bool" where
  "values_wf vals \<longleftrightarrow> hm_wf vals \<and> (\<forall>k vs. hm_get vals k = Some vs \<longrightarrow> distinct vs \<and> vs \<noteq> [])"

definition index_wf :: "(u64 \<rightharpoonup> label_pairs) \<Rightarrow> label_index \<Rightarrow> label_values \<Rightarrow> bool" where
  "index_wf items idx vals \<longleftrightarrow>
     postings_wf idx \<and> values_wf vals \<and>
     (\<forall>p. posting_of idx p = ids_with items p) \<and>
     (\<forall>k. values_of vals k = {v. ids_with items (k, v) \<noteq> {}})"

lemma index_wfD:
  assumes "index_wf items idx vals"
  shows "postings_wf idx" and "values_wf vals"
    and "posting_of idx p = ids_with items p"
    and "values_of vals k = {v. ids_with items (k, v) \<noteq> {}}"
  using assms unfolding index_wf_def by blast+

lemma index_wf_empty [simp]: "index_wf Map.empty [] []"
  by (simp add: index_wf_def postings_wf_def values_wf_def posting_of_def values_of_def
      ids_with_def)

lemma ids_with_update:
  "items x = None \<Longrightarrow>
     ids_with (items(x \<mapsto> ls)) p = ids_with items p \<union> (if p \<in> set ls then {x} else {})"
  by (auto simp: ids_with_def)

lemma ids_with_delete: "ids_with (items(x := None)) p = ids_with items p - {x}"
  by (auto simp: ids_with_def)

subsection \<open>Tracking values\<close>

lemma track_label_values_Cons:
  "track_label_values vals ((k, v) # ls) =
     track_label_values (hm_upsert [] k (hs_insert v) vals) ls"
  by (simp add: track_label_values_def)

lemma values_wf_upsert:
  assumes "values_wf vals"
  shows "values_wf (hm_upsert [] k (hs_insert v) vals)"
  unfolding values_wf_def
proof (intro conjI allI impI)
  show "hm_wf (hm_upsert [] k (hs_insert v) vals)"
    using assms by (simp add: values_wf_def hm_simps)
  let ?w = "case hm_get vals k of None \<Rightarrow> [] | Some vs \<Rightarrow> vs"
  have new: "distinct (hs_insert v ?w)" "hs_insert v ?w \<noteq> []"
    using assms by (auto simp: values_wf_def List.insert_def split: option.split)
  fix k' vs
  assume get: "hm_get (hm_upsert [] k (hs_insert v) vals) k' = Some vs"
  show "distinct vs" "vs \<noteq> []"
    using get new assms by (cases "k' = k"; simp add: hm_simps values_wf_def)+
qed

lemma track_label_values_spec:
  assumes "values_wf vals"
  shows "values_wf (track_label_values vals ls) \<and>
    values_of (track_label_values vals ls) k = values_of vals k \<union> {v. (k, v) \<in> set ls}"
  using assms
proof (induction ls arbitrary: vals)
  case Nil
  then show ?case by (simp add: track_label_values_def)
next
  case (Cons p ls)
  obtain k' v where p: "p = (k', v)" by force
  let ?vals = "hm_upsert [] k' (hs_insert v) vals"
  have "values_wf ?vals"
    using Cons.prems by (rule values_wf_upsert)
  then have "values_wf (track_label_values ?vals ls) \<and> values_of (track_label_values ?vals ls) k
      = values_of ?vals k \<union> {v. (k, v) \<in> set ls}"
    by (rule Cons.IH)
  moreover have "values_of ?vals k = values_of vals k \<union> (if k = k' then {v} else {})"
    by (simp add: values_of_def hm_simps split: option.split)
  ultimately show ?case
    by (simp add: p track_label_values_Cons) blast
qed

subsection \<open>Adding an id\<close>

lemma index_insert_Cons:
  "index_insert idx ((k, v) # ls) x =
     index_insert (hm_upsert pl_new (k, v) (\<lambda>pl. pl_insert pl x) idx) ls x"
  by (simp add: index_insert_def)

lemma index_insert_spec:
  assumes "postings_wf idx"
  shows "postings_wf (index_insert idx ls x) \<and>
    posting_of (index_insert idx ls x) p = posting_of idx p \<union> (if p \<in> set ls then {x} else {})"
  using assms
proof (induction ls arbitrary: idx)
  case Nil
  then show ?case by (simp add: index_insert_def)
next
  case (Cons q ls)
  obtain k v where q: "q = (k, v)" by force
  let ?idx = "hm_upsert pl_new (k, v) (\<lambda>pl. pl_insert pl x) idx"
  have "postings_wf ?idx"
    using Cons.prems
    by (auto simp: postings_wf_def hm_simps pl.inv_ins pl.elems_ins pl.inv_empty
        split: option.splits if_splits)
  then have "postings_wf (index_insert ?idx ls x) \<and> posting_of (index_insert ?idx ls x) p
      = posting_of ?idx p \<union> (if p \<in> set ls then {x} else {})"
    by (rule Cons.IH)
  moreover have "posting_of ?idx p = posting_of idx p \<union> (if p = (k, v) then {x} else {})"
    using Cons.prems
    by (simp add: postings_wf_def posting_of_def hm_simps pl.elems_ins pl.inv_empty
        split: option.split)
  ultimately show ?case
    by (auto simp: q index_insert_Cons)
qed

lemma index_wf_add:
  assumes "index_wf items idx vals" and "items x = None"
  shows "index_wf (items(x \<mapsto> ls)) (index_insert idx ls x) (track_label_values vals ls)"
proof -
  have wf: "postings_wf idx" "values_wf vals"
    and post: "\<And>p. posting_of idx p = ids_with items p"
    and vals: "\<And>k. values_of vals k = {v. ids_with items (k, v) \<noteq> {}}"
    using index_wfD [OF assms(1)] by blast+
  have upd: "ids_with (items(x \<mapsto> ls)) p = ids_with items p \<union> (if p \<in> set ls then {x} else {})" for p
    using assms(2) by (rule ids_with_update)
  show ?thesis
    unfolding index_wf_def upd
    using index_insert_spec [OF wf(1), of ls x] track_label_values_spec [OF wf(2), of ls]
    by (auto simp: post vals simp del: split_paired_All)
qed

text \<open>Tracking the labels of an id that is already stored changes nothing observable.\<close>

lemma index_wf_track:
  assumes "index_wf items idx vals" and "items x = Some ls"
  shows "index_wf items idx (track_label_values vals ls)"
proof -
  have wf: "values_wf vals" and vals: "\<And>k. values_of vals k = {v. ids_with items (k, v) \<noteq> {}}"
    using assms(1) by (simp_all add: index_wf_def)
  have "{v. (k, v) \<in> set ls} \<subseteq> {v. ids_with items (k, v) \<noteq> {}}" for k
    using assms(2) by (auto simp: ids_with_def)
  then have "values_of (track_label_values vals ls) k = {v. ids_with items (k, v) \<noteq> {}}" for k
    using track_label_values_spec [OF wf, of ls k] vals [of k] by blast
  with track_label_values_spec [OF wf, of ls] assms(1) show ?thesis
    by (simp add: index_wf_def)
qed

subsection \<open>Removing an id\<close>

text \<open>While the pairs of \<open>x\<close> are removed, the value table follows the postings.\<close>

definition in_step :: "label_index \<Rightarrow> label_values \<Rightarrow> bool" where
  "in_step idx vals \<longleftrightarrow> postings_wf idx \<and> values_wf vals \<and>
     (\<forall>k. values_of vals k = {v. posting_of idx (k, v) \<noteq> {}})"

lemma remove_label_value_spec:
  assumes "values_wf vals"
  shows "values_wf (remove_label_value vals k v)"
    and "values_of (remove_label_value vals k v) k' =
      values_of vals k' - (if k' = k then {v} else {})"
proof -
  show "values_wf (remove_label_value vals k v)"
  proof (cases "hm_get vals k")
    case None
    with assms show ?thesis by (simp add: remove_label_value_def)
  next
    case (Some vs)
    then have "distinct (hs_remove v vs)"
      using assms by (simp add: values_wf_def distinct_removeAll)
    with Some assms show ?thesis
      by (simp add: remove_label_value_def values_wf_def hm_simps Let_def)
  qed
  have "hm_get vals k = Some vs \<Longrightarrow> hs_remove v vs = [] \<longleftrightarrow> set vs - {v} = {}" for vs
    by (metis set_empty set_removeAll)
  then show "values_of (remove_label_value vals k v) k' =
      values_of vals k' - (if k' = k then {v} else {})"
    by (auto simp: remove_label_value_def values_of_def hm_simps Let_def split: option.split)
qed

lemma remove_label_pair_spec:
  assumes "in_step idx vals" and "remove_label_pair x q (idx, vals) = (idx', vals')"
  shows "in_step idx' vals'"
    and "posting_of idx' p = posting_of idx p - (if p = q then {x} else {})"
proof -
  obtain k v where q: "q = (k, v)" by force
  have wf: "postings_wf idx" "values_wf vals"
    and vals: "\<And>k. values_of vals k = {v. posting_of idx (k, v) \<noteq> {}}"
    using assms(1) by (auto simp: in_step_def)
  have "in_step idx' vals' \<and>
    (\<forall>p. posting_of idx' p = posting_of idx p - (if p = q then {x} else {}))"
  proof (cases "hm_get idx (k, v)")
    case None
    with assms wf show ?thesis by (auto simp: q posting_of_def)
  next
    case (Some pl)
    let ?pl = "fst (pl_remove pl x)"
    have pl: "pl_wf ?pl" "pl_set ?pl = pl_set pl - {x}" "pl_wf pl" "pl_set pl \<noteq> {}"
      using wf(1) Some by (auto simp: postings_wf_def pl.inv_rem pl.elems_rem)
    show ?thesis
    proof (cases "pl_is_empty ?pl")
      case True
      then have res: "idx' = hm_remove (k, v) idx" "vals' = remove_label_value vals k v"
        using assms(2) Some by (auto simp: q Let_def)
      have "postings_wf idx'"
        using wf(1) by (auto simp: res postings_wf_def hm_simps split: if_splits)
      moreover have post: "posting_of idx' p = posting_of idx p - (if p = q then {x} else {})" for p
        using True Some pl by (auto simp: res q posting_of_def hm_simps pl_is_empty_iff)
      moreover have "posting_of idx' q = {}"
        by (simp add: res q posting_of_def hm_simps)
      ultimately show ?thesis
        using remove_label_value_spec [OF wf(2)] vals
        by (auto simp: in_step_def res(2) q split: if_splits)
    next
      case False
      then have res: "idx' = hm_insert (k, v) ?pl idx" "vals' = vals"
        using assms(2) Some by (auto simp: q Let_def)
      have "postings_wf idx'"
        using wf(1) pl False by (auto simp: res postings_wf_def hm_simps pl_is_empty_iff)
      moreover have post: "posting_of idx' p = posting_of idx p - (if p = q then {x} else {})" for p
        using Some pl by (auto simp: res q posting_of_def hm_simps)
      moreover have "posting_of idx' q \<noteq> {}"
        using False by (simp add: res q posting_of_def hm_simps pl_is_empty_iff)
      ultimately show ?thesis
        using wf(2) vals by (auto simp: in_step_def res(2) q split: if_splits)
    qed
  qed
  then show "in_step idx' vals'"
    "posting_of idx' p = posting_of idx p - (if p = q then {x} else {})" by blast+
qed

lemma fold_remove_label_pair:
  assumes "in_step idx vals" and "fold (remove_label_pair x) ls (idx, vals) = (idx', vals')"
  shows "in_step idx' vals' \<and>
    (\<forall>p. posting_of idx' p = posting_of idx p - (if p \<in> set ls then {x} else {}))"
  using assms
proof (induction ls arbitrary: idx vals)
  case Nil
  then show ?case by simp
next
  case (Cons q ls)
  obtain idx1 vals1 where step: "remove_label_pair x q (idx, vals) = (idx1, vals1)" by force
  note spec = remove_label_pair_spec [OF Cons.prems(1) step]
  have "fold (remove_label_pair x) ls (idx1, vals1) = (idx', vals')"
    using Cons.prems(2) step by simp
  from Cons.IH [OF spec(1) this] show ?case
    by (auto simp: spec(2))
qed

lemma index_wf_remove:
  assumes "index_wf items idx vals" and "items x = Some ls"
    and "remove_from_label_indexes idx vals ls x = (idx', vals')"
  shows "index_wf (items(x := None)) idx' vals'"
proof -
  have "in_step idx vals"
    using assms(1) by (simp add: index_wf_def in_step_def)
  from fold_remove_label_pair [OF this] assms(3)
  have step: "in_step idx' vals'"
    and post: "\<And>p. posting_of idx' p = posting_of idx p - (if p \<in> set ls then {x} else {})"
    by (auto simp: remove_from_label_indexes_def)
  have "posting_of idx' p = ids_with (items(x := None)) p" for p
  proof -
    have "posting_of idx p = ids_with items p"
      using index_wfD(3) [OF assms(1)] .
    moreover have "p \<notin> set ls \<Longrightarrow> x \<notin> ids_with items p"
      using assms(2) by (simp add: ids_with_def)
    ultimately show ?thesis by (simp add: post ids_with_delete)
  qed
  with step show ?thesis
    by (simp add: index_wf_def in_step_def)
qed

end
