(* ===== verification/Label_Select.thy ===== *)
theory Label_Select
  imports Label_Index
begin

text \<open>
  Correctness of the label helpers: interning a label set is faithful and insensitive to the
  order of its labels, \<open>select_indexed_ids\<close> returns exactly the ids whose labels satisfy every
  matcher, and \<open>batch_needs_sort\<close> decides whether an appended batch breaks the order.
\<close>

section \<open>Interned label sets\<close>

definition labels_ok :: "'i rodeo_ops \<Rightarrow> 'i \<Rightarrow> label_pairs \<Rightarrow> bool" where
  "labels_ok R i ls \<longleftrightarrow> (\<forall>p \<in> set ls. spur_ok R i (fst p) \<and> spur_ok R i (snd p))"

lemma labels_ok_extends:
  assumes "rodeo_laws R" and "rd_extends R i j" and "labels_ok R i ls"
  shows "labels_ok R j ls" and "resolve_labels R j ls = resolve_labels R i ls"
  using assms spur_ok_extends [OF assms(1,2)]
  by (auto simp: labels_ok_def resolve_labels_def)

lemma intern_pairs_spec:
  assumes "rodeo_laws R" and "intern_pairs R i ls = (j, ps)"
  shows "rd_extends R i j \<and> labels_ok R j ps \<and> resolve_labels R j ps = ls"
  using assms(2)
proof (induction ls arbitrary: i j ps)
  case Nil
  then show ?case by (simp add: labels_ok_def resolve_labels_def)
next
  case (Cons p ls)
  obtain k v where p: "p = (k, v)" by force
  obtain i1 ks where 1: "rd_get_or_intern R i k = (i1, ks)" by force
  obtain i2 vs where 2: "rd_get_or_intern R i1 v = (i2, vs)" by force
  obtain i3 rest where 3: "intern_pairs R i2 ls = (i3, rest)" by force
  have res: "j = i3" "ps = (ks, vs) # rest"
    using Cons.prems 1 2 3 by (auto simp: p)
  note IH = Cons.IH [OF 3]
  have ext: "rd_extends R i i1" "rd_extends R i1 i2" "rd_extends R i2 i3"
    using rd_intern_extends [OF assms(1)] 1 2 IH by blast+
  have "rd_get R i1 k = Some ks" "rd_get R i2 v = Some vs"
    using rd_intern_get [OF assms(1)] 1 2 by blast+
  then have get: "rd_get R i3 k = Some ks" "rd_get R i3 v = Some vs"
    using ext by (simp_all add: rd_extends_def)
  note get [THEN spur_okI [OF assms(1)]] get [THEN rd_resolve_get [OF assms(1)]]
  moreover have "rd_extends R i i3"
    by (rule rd_extends_trans [OF ext(1) rd_extends_trans [OF ext(2,3)]])
  ultimately show ?case
    using IH by (simp add: res p labels_ok_def resolve_labels_def)
qed

text \<open>What the store keeps for a label set is a permutation of it, ordered by label key.\<close>

lemma intern_label_pairs_spec:
  assumes "rodeo_laws R" and "intern_label_pairs R i ls = (j, ps)"
  shows "rd_extends R i j" and "labels_ok R j ps" and "mset (resolve_labels R j ps) = mset ls"
    and "sorted (map fst ps)"
proof -
  obtain qs where qs: "intern_pairs R i ls = (j, qs)" "ps = sort_key fst qs"
    using assms(2) by (auto simp: intern_label_pairs_def split: prod.splits)
  note spec = intern_pairs_spec [OF assms(1) qs(1)]
  then show "rd_extends R i j" ..
  show "labels_ok R j ps" using spec by (simp add: qs(2) labels_ok_def)
  have "mset (resolve_labels R j ps) = mset (resolve_labels R j qs)"
    by (simp add: qs(2) resolve_labels_def)
  with spec show "mset (resolve_labels R j ps) = mset ls" by simp
  show "sorted (map fst ps)" by (simp add: qs(2))
qed

text \<open>
  Label sets with pairwise distinct names that agree up to order are stored alike once their
  strings are interned, so they denote the same stream or series.
\<close>

lemma stored_alike:
  assumes "rodeo_laws R" and "labels_ok R j ps" and "labels_ok R j qs"
    and "mset (resolve_labels R j ps) = mset (resolve_labels R j qs)"
    and "distinct (map fst (resolve_labels R j ps))"
    and "sorted (map fst ps)" and "sorted (map fst qs)"
  shows "ps = qs"
proof -
  let ?res = "\<lambda>p. (rd_resolve R j (fst p), rd_resolve R j (snd p))"
  have res: "resolve_labels R j ls = map ?res ls" for ls
    by (simp add: resolve_labels_def case_prod_unfold)
  have inj: "inj_on ?res (set ps \<union> set qs)"
  proof (rule inj_onI)
    fix p q
    assume mem: "p \<in> set ps \<union> set qs" "q \<in> set ps \<union> set qs" and eq: "?res p = ?res q"
    have ok: "\<forall>p \<in> set ps \<union> set qs. spur_ok R j (fst p) \<and> spur_ok R j (snd p)"
      using assms(2,3) by (auto simp: labels_ok_def)
    have "fst p = fst q" "snd p = snd q"
      using eq by (auto intro: rd_resolve_inj [OF ok [THEN bspec, OF mem(1), THEN conjunct1]
            ok [THEN bspec, OF mem(2), THEN conjunct1]]
          rd_resolve_inj [OF ok [THEN bspec, OF mem(1), THEN conjunct2]
            ok [THEN bspec, OF mem(2), THEN conjunct2]])
    then show "p = q" by (rule prod_eqI)
  qed
  have "?res ` set ps = ?res ` set qs"
    using arg_cong [OF assms(4), of set_mset] unfolding res by simp
  then have same: "set ps = set qs"
    using inj_on_Un_image_eq_iff [OF inj] by simp
  have "distinct (map fst qs)" "distinct (map fst ps)"
  proof -
    have "distinct (map fst (resolve_labels R j qs))"
      using assms(4,5) by (metis mset_eq_imp_distinct_iff mset_map)
    then show "distinct (map fst qs)"
      using distinct_map [of "rd_resolve R j" "map fst qs"] by (simp add: res comp_def)
    from assms(5) show "distinct (map fst ps)"
      using distinct_map [of "rd_resolve R j" "map fst ps"] by (simp add: res comp_def)
  qed
  moreover have "inj_on fst (set ps \<union> set qs)"
    using calculation same by (simp add: distinct_map)
  ultimately show ?thesis
    using assms(6,7) same map_sorted_distinct_set_unique by blast
qed

section \<open>What a matcher means\<close>

definition matcher_holds ::
  "'r regex_ops \<Rightarrow> (string \<times> string) list \<Rightarrow> label_matcher \<Rightarrow> bool" where
  "matcher_holds X labels m =
     (case lm_op m of
        Eq \<Rightarrow> (lm_name m, lm_value m) \<in> set labels
      | Neq \<Rightarrow> (lm_name m, lm_value m) \<notin> set labels
      | Regex \<Rightarrow> (case label_regex X (lm_value m) of
                    None \<Rightarrow> False
                  | Some re \<Rightarrow> (\<exists>p \<in> set labels. fst p = lm_name m \<and> rx_is_match X re (snd p)))
      | NotRegex \<Rightarrow> (case label_regex X (lm_value m) of
                       None \<Rightarrow> False
                     | Some re \<Rightarrow>
                         \<not> (\<exists>p \<in> set labels. fst p = lm_name m \<and> rx_is_match X re (snd p))))"

definition matcher_valid :: "'r regex_ops \<Rightarrow> label_matcher \<Rightarrow> bool" where
  "matcher_valid X m \<longleftrightarrow>
     (lm_op m = Regex \<or> lm_op m = NotRegex \<longrightarrow> label_regex X (lm_value m) \<noteq> None)"

definition ids_matching ::
  "'i rodeo_ops \<Rightarrow> 'r regex_ops \<Rightarrow> 'i \<Rightarrow> (u64 \<rightharpoonup> label_pairs) \<Rightarrow> label_matcher \<Rightarrow> u64 set" where
  "ids_matching R X i items m =
     {x. \<exists>ls. items x = Some ls \<and> matcher_holds X (resolve_labels R i ls) m}"

text \<open>A resolved label pair is present exactly if both strings are interned and indexed.\<close>

lemma resolved_pair_iff:
  assumes "rodeo_laws R" and "labels_ok R i ls"
  shows "(n, v) \<in> set (resolve_labels R i ls) \<longleftrightarrow>
    (\<exists>k w. rd_get R i n = Some k \<and> rd_get R i v = Some w \<and> (k, w) \<in> set ls)"
proof
  assume "(n, v) \<in> set (resolve_labels R i ls)"
  then obtain k w where kw: "(k, w) \<in> set ls" "n = rd_resolve R i k" "v = rd_resolve R i w"
    by (auto simp: resolve_labels_def)
  then have "rd_get R i n = Some k" "rd_get R i v = Some w"
    using assms(2) by (auto simp: labels_ok_def spur_ok_def)
  with kw(1) show "\<exists>k w. rd_get R i n = Some k \<and> rd_get R i v = Some w \<and> (k, w) \<in> set ls"
    by blast
next
  assume "\<exists>k w. rd_get R i n = Some k \<and> rd_get R i v = Some w \<and> (k, w) \<in> set ls"
  then obtain k w where kw: "rd_get R i n = Some k" "rd_get R i v = Some w" "(k, w) \<in> set ls"
    by blast
  then have "rd_resolve R i k = n" "rd_resolve R i w = v"
    using rd_resolve_get [OF assms(1)] by blast+
  with kw(3) show "(n, v) \<in> set (resolve_labels R i ls)"
    by (force simp: resolve_labels_def)
qed

lemma resolved_name_iff:
  assumes "rodeo_laws R" and "labels_ok R i ls"
  shows "(\<exists>p \<in> set (resolve_labels R i ls). fst p = n \<and> P (snd p)) \<longleftrightarrow>
    (\<exists>k w. rd_get R i n = Some k \<and> (k, w) \<in> set ls \<and> P (rd_resolve R i w))"
proof -
  have "(\<exists>p \<in> set (resolve_labels R i ls). fst p = n \<and> P (snd p)) \<longleftrightarrow>
      (\<exists>k w. (k, w) \<in> set ls \<and> rd_resolve R i k = n \<and> P (rd_resolve R i w))"
    by (force simp: resolve_labels_def)
  moreover have "rd_resolve R i k = n \<longleftrightarrow> rd_get R i n = Some k" if "(k, w) \<in> set ls" for k w
    using that assms by (auto simp: labels_ok_def rd_get_iff)
  ultimately show ?thesis by blast
qed

section \<open>The posting list of one matcher\<close>

lemma matching_postings_spec:
  assumes "index_wf items idx vals"
  shows "pl_wf (matching_postings R X i idx vals k re)"
    and "pl_set (matching_postings R X i idx vals k re) =
      {x. \<exists>v. rx_is_match X re (rd_resolve R i v) \<and> x \<in> ids_with items (k, v)}"
proof -
  let ?g = "\<lambda>v. if rx_is_match X re (rd_resolve R i v)
                then (case hm_get idx (k, v) of None \<Rightarrow> pl_new | Some pl \<Rightarrow> pl) else pl_new"
  let ?step = "\<lambda>v acc. if rx_is_match X re (rd_resolve R i v)
                then (case hm_get idx (k, v) of None \<Rightarrow> acc | Some pl \<Rightarrow> pl_union acc pl) else acc"
  let ?vs = "case hm_get vals k of None \<Rightarrow> [] | Some vs \<Rightarrow> vs"
  note wf = index_wfD [OF assms]
  have same: "?step v acc = pl_union acc (?g v)" for v acc
    by (cases "pl_ids acc") (auto simp: pl_union_def pl_new_def split: option.split)
  have inv: "\<forall>v \<in> set ?vs. pl_wf (?g v)"
    using wf(1) by (auto simp: postings_wf_def split: option.split)
  have eq: "matching_postings R X i idx vals k re = fold (\<lambda>v acc. pl_union acc (?g v)) ?vs pl_new"
    unfolding matching_postings_def same by (simp split: option.split)
  have elems: "pl_set (?g v) =
      (if rx_is_match X re (rd_resolve R i v) then ids_with items (k, v) else {})" for v
    using wf(3) [of "(k, v)"] by (auto simp: posting_of_def split: option.splits)
  have vals: "set ?vs = {v. ids_with items (k, v) \<noteq> {}}"
    using wf(4) [of k] by (auto simp: values_of_def split: option.splits)
  from pl.fold_uni [OF pl.inv_empty inv]
  show "pl_wf (matching_postings R X i idx vals k re)"
    and "pl_set (matching_postings R X i idx vals k re) =
      {x. \<exists>v. rx_is_match X re (rd_resolve R i v) \<and> x \<in> ids_with items (k, v)}"
    unfolding eq elems vals by (auto split: if_splits)
qed

text \<open>The ids carrying a given label pair, and those with a matching value of a given name.\<close>

lemma pair_ids:
  assumes "rodeo_laws R" and "\<forall>x ls. items x = Some ls \<longrightarrow> labels_ok R i ls"
  shows "{x. \<exists>ls. items x = Some ls \<and> (n, v) \<in> set (resolve_labels R i ls)} =
    {x. \<exists>k w. rd_get R i n = Some k \<and> rd_get R i v = Some w \<and> x \<in> ids_with items (k, w)}"
  using resolved_pair_iff [OF assms(1)] assms(2) unfolding ids_with_def by blast

lemma name_ids:
  assumes "rodeo_laws R" and "\<forall>x ls. items x = Some ls \<longrightarrow> labels_ok R i ls"
  shows "{x. \<exists>ls. items x = Some ls \<and> (\<exists>p \<in> set (resolve_labels R i ls). fst p = n \<and> P (snd p))} =
    {x. \<exists>k w. rd_get R i n = Some k \<and> P (rd_resolve R i w) \<and> x \<in> ids_with items (k, w)}"
proof -
  have "(\<exists>p \<in> set (resolve_labels R i ls). fst p = n \<and> P (snd p)) \<longleftrightarrow>
      (\<exists>k w. rd_get R i n = Some k \<and> (k, w) \<in> set ls \<and> P (rd_resolve R i w))"
    if "items x = Some ls" for x ls
    using that assms(2) by (intro resolved_name_iff [OF assms(1)]) blast
  then show ?thesis unfolding ids_with_def by blast
qed

lemma ids_matching_cases:
  fixes X :: "'r regex_ops"
  assumes "rodeo_laws R" and "\<forall>x ls. items x = Some ls \<longrightarrow> labels_ok R i ls"
  defines "pairs \<equiv> \<lambda>n v. {x. \<exists>k w. rd_get R i n = Some k \<and> rd_get R i v = Some w
                          \<and> x \<in> ids_with items (k, w)}"
    and "names \<equiv> \<lambda>n re. {x. \<exists>k w. rd_get R i n = Some k \<and> rx_is_match X re (rd_resolve R i w)
                          \<and> x \<in> ids_with items (k, w)}"
  shows "ids_matching R X i items m =
    (case lm_op m of
       Eq \<Rightarrow> pairs (lm_name m) (lm_value m)
     | Neq \<Rightarrow> dom items - pairs (lm_name m) (lm_value m)
     | Regex \<Rightarrow> (case label_regex X (lm_value m) of None \<Rightarrow> {} | Some re \<Rightarrow> names (lm_name m) re)
     | NotRegex \<Rightarrow> (case label_regex X (lm_value m) of
                     None \<Rightarrow> {} | Some re \<Rightarrow> dom items - names (lm_name m) re))"
proof -
  have 1: "pairs n v = {x. \<exists>ls. items x = Some ls \<and> (n, v) \<in> set (resolve_labels R i ls)}" for n v
    unfolding pairs_def using pair_ids [OF assms(1,2)] by simp
  have 2: "names n re = {x. \<exists>ls. items x = Some ls \<and>
      (\<exists>p \<in> set (resolve_labels R i ls). fst p = n \<and> rx_is_match X re (snd p))}" for n re
    unfolding names_def using name_ids [OF assms(1,2)] by simp
  show ?thesis
    unfolding ids_matching_def 1 2
    by (auto simp: matcher_holds_def split: label_match_op.split option.split)
qed

lemma matcher_posting_Some:
  assumes "index_wf items idx vals" and "rodeo_laws R"
    and "\<forall>x ls. items x = Some ls \<longrightarrow> labels_ok R i ls" and "set all_ids = dom items"
    and "matcher_valid X m"
    and "matcher_posting R X i idx vals (pl_from_ids all_ids) m = Some pl"
  shows "pl_wf pl \<and> pl_set pl = ids_matching R X i items m"
proof -
  note match = ids_matching_cases [OF assms(2,3), of X m]
  note wf = index_wfD [OF assms(1)]
  note mp = matching_postings_spec [OF assms(1), of R X i]
  have idx: "pl_wf p \<and> pl_set p = ids_with items q" if "hm_get idx q = Some p" for q p
    using that wf(1) wf(3) [of q] by (simp add: postings_wf_def posting_of_def)
  have noidx: "ids_with items q = {}" if "hm_get idx q = None" for q
    using that wf(3) [of q] by (simp add: posting_of_def)
  show ?thesis
  proof (cases "rd_get R i (lm_name m)")
    case None
    with assms(4-6) show ?thesis
      by (auto simp: matcher_posting_def match matcher_valid_def split: label_match_op.splits)
  next
    case name: (Some k)
    show ?thesis
    proof (cases "lm_op m")
      case Eq
      with name assms(6) show ?thesis
        by (auto simp: matcher_posting_def match idx split: option.splits)
    next
      case Neq
      have "pl = (case Option.bind (rd_get R i (lm_value m)) (\<lambda>v. hm_get idx (k, v)) of
          None \<Rightarrow> pl_from_ids all_ids | Some ex \<Rightarrow> pl_difference (pl_from_ids all_ids) ex)"
        using Neq name assms(6) by (simp add: matcher_posting_def)
      with Neq name show ?thesis
        by (cases "rd_get R i (lm_value m)")
          (auto simp: match assms(4) idx noidx pl.inv_diff pl.elems_diff split: option.split)
    next
      case Regex
      with name assms(6) show ?thesis
        by (auto simp: matcher_posting_def match mp split: option.splits)
    next
      case NotRegex
      with name assms(6) show ?thesis
        by (auto simp: matcher_posting_def match mp assms(4) pl.inv_diff pl.elems_diff
            split: option.splits)
    qed
  qed
qed

lemma matcher_posting_None:
  assumes "index_wf items idx vals" and "rodeo_laws R"
    and "\<forall>x ls. items x = Some ls \<longrightarrow> labels_ok R i ls"
    and "matcher_posting R X i idx vals all m = None"
  shows "ids_matching R X i items m = {}"
proof -
  have noidx: "ids_with items q = {}" if "hm_get idx q = None" for q
    using that index_wfD(3) [OF assms(1), of q] by (simp add: posting_of_def)
  show ?thesis
    unfolding ids_matching_cases [OF assms(2,3), of X m] using assms(4)
    by (auto simp: matcher_posting_def noidx split: label_match_op.splits option.splits)
qed

section \<open>\<open>select_indexed_ids\<close>\<close>

lemma collect_postings_Some:
  "collect_postings f ms = Some pls \<longleftrightarrow> map f ms = map Some pls"
  by (induction ms arbitrary: pls) (auto split: option.splits)

lemma collect_postings_None:
  "collect_postings f ms = None \<longleftrightarrow> (\<exists>m \<in> set ms. f m = None)"
  by (induction ms) (auto split: option.splits)

lemma select_indexed_ids_spec:
  assumes wf: "index_wf items idx vals" "rodeo_laws R"
    and ok: "\<forall>x ls. items x = Some ls \<longrightarrow> labels_ok R i ls" and all: "set all_ids = dom items"
    and valid: "\<forall>m \<in> set ms. matcher_valid X m" and "ms \<noteq> []"
  shows "set (select_indexed_ids R X i idx vals all_ids ms) = (\<Inter>m \<in> set ms. ids_matching R X i items m)"
    and "sorted_wrt (<) (select_indexed_ids R X i idx vals all_ids ms)"
proof -
  let ?f = "matcher_posting R X i idx vals (pl_from_ids all_ids)"
  let ?sel = "select_indexed_ids R X i idx vals all_ids ms"
  have "set ?sel = (\<Inter>m \<in> set ms. ids_matching R X i items m) \<and> sorted_wrt (<) ?sel"
  proof (cases "collect_postings ?f ms")
    case None
    then obtain m where "m \<in> set ms" "?f m = None"
      by (auto simp: collect_postings_None)
    then have "(\<Inter>m \<in> set ms. ids_matching R X i items m) = {}"
      using matcher_posting_None [OF wf ok] by blast
    with None \<open>ms \<noteq> []\<close> show ?thesis by (simp add: select_indexed_ids_def)
  next
    case (Some pls)
    then have map: "map ?f ms = map Some pls" by (simp add: collect_postings_Some)
    have posting: "pl_wf (the (?f m)) \<and> pl_set (the (?f m)) = ids_matching R X i items m"
      if "m \<in> set ms" for m
    proof -
      have "?f m \<in> set (map Some pls)" using that map by (metis imageI set_map)
      then obtain p where p: "?f m = Some p" by auto
      show ?thesis
        using matcher_posting_Some [OF wf ok all _ p] valid that by (simp add: p)
    qed
    have pls: "pls = map (\<lambda>m. the (?f m)) ms"
      using arg_cong [OF map, of "map the"] by (simp add: comp_def)
    have "\<forall>p \<in> set pls. pl_wf p" "pls \<noteq> []"
      using posting pls \<open>ms \<noteq> []\<close> by auto
    moreover have "(\<Inter>p \<in> set pls. pl_set p) = (\<Inter>m \<in> set ms. ids_matching R X i items m)"
      unfolding pls using posting by simp
    ultimately show ?thesis
      using Some \<open>ms \<noteq> []\<close> pl.inters_set [of pls] pl.inters_sorted [of pls]
      by (simp add: select_indexed_ids_def)
  qed
  then show "set ?sel = (\<Inter>m \<in> set ms. ids_matching R X i items m)" "sorted_wrt (<) ?sel"
    by blast+
qed

section \<open>\<open>batch_needs_sort\<close>\<close>

lemma sorted_iff_adjacent:
  "sorted (map f xs) \<longleftrightarrow> (\<forall>w \<in> set (zip xs (tl xs)). f (fst w) \<le> f (snd w))"
  for f :: "'a \<Rightarrow> 'b::linorder"
proof (induction xs rule: induct_list012)
  case (3 x y zs)
  have "sorted (map f (x # y # zs)) \<longleftrightarrow> f x \<le> f y \<and> sorted (map f (y # zs))"
    by (simp only: list.map sorted2)
  with 3(2) show ?case by simp
qed simp_all

text \<open>
  With a sorted prefix of length \<open>prev_len\<close>, the test inspects only the batch and the seam and
  yet decides whether the whole vector is sorted.
\<close>

lemma batch_needs_sort_iff:
  assumes "sorted (map key (take n items))" and "n \<le> length items"
  shows "batch_needs_sort key items n \<longleftrightarrow> \<not> sorted (map key items)"
proof (cases "n = length items")
  case True
  with assms show ?thesis by (simp add: batch_needs_sort_def)
next
  case False
  with assms(2) have n: "n < length items" by simp
  let ?old = "take n items" and ?new = "drop n items"
  have new: "?new = items ! n # drop (Suc n) items"
    using n by (rule Cons_nth_drop_Suc [symmetric])
  have split: "sorted (map key items) \<longleftrightarrow>
      sorted (map key ?old @ map key ?new)"
    by (metis append_take_drop_id map_append)
  have whole: "sorted (map key items) \<longleftrightarrow> sorted (map key ?new) \<and>
      (n = 0 \<or> key (items ! (n - 1)) \<le> key (items ! n))"
  proof (cases "n = 0")
    case True
    then show ?thesis by simp
  next
    case False
    then have last: "?old = take (n - 1) items @ [items ! (n - 1)]"
      using n take_Suc_conv_app_nth [of "n - 1" items] by simp
    have le: "\<forall>y \<in> set ?old. key y \<le> key (items ! (n - 1))"
      using assms(1) unfolding last by (auto simp: sorted_append)
    have mem: "items ! (n - 1) \<in> set ?old" "items ! n \<in> set ?new"
      unfolding last new by simp_all
    have ge: "\<forall>y \<in> set ?new. key (items ! n) \<le> key y" if "sorted (map key ?new)"
      using that unfolding new by simp
    have seam_iff: "(\<forall>x \<in> set ?old. \<forall>y \<in> set ?new. key x \<le> key y) \<longleftrightarrow>
        key (items ! (n - 1)) \<le> key (items ! n)"
      if "sorted (map key ?new)"
    proof
      assume "\<forall>x \<in> set ?old. \<forall>y \<in> set ?new. key x \<le> key y"
      with mem show "key (items ! (n - 1)) \<le> key (items ! n)" by blast
    next
      assume seam: "key (items ! (n - 1)) \<le> key (items ! n)"
      show "\<forall>x \<in> set ?old. \<forall>y \<in> set ?new. key x \<le> key y"
      proof (intro ballI)
        fix x y
        assume "x \<in> set ?old" "y \<in> set ?new"
        show "key x \<le> key y"
          by (rule order_trans [OF bspec [OF le \<open>x \<in> set ?old\<close>]
                order_trans [OF seam bspec [OF ge [OF that] \<open>y \<in> set ?new\<close>]]])
      qed
    qed
    have "sorted (map key items) \<longleftrightarrow> sorted (map key ?new) \<and>
        (\<forall>x \<in> set ?old. \<forall>y \<in> set ?new. key x \<le> key y)"
      unfolding split sorted_append using assms(1) by (simp only: set_map ball_simps simp_thms)
    with False seam_iff show ?thesis by blast
  qed
  have "(\<exists>w \<in> set (zip ?new (tl ?new)). key (snd w) < key (fst w)) \<longleftrightarrow> \<not> sorted (map key ?new)"
    unfolding sorted_iff_adjacent by (simp only: not_le [symmetric] bex_simps ball_simps simp_thms)
  then have "batch_needs_sort key items n \<longleftrightarrow>
      (0 < n \<and> \<not> key (items ! (n - 1)) \<le> key (items ! n)) \<or> \<not> sorted (map key ?new)"
    unfolding batch_needs_sort_def not_le [symmetric] by (simp only: iffD2 [OF not_le n] if_False) (simp only: if_bool_eq_disj not_le simp_thms; blast)
  with whole show ?thesis by (simp only: neq0_conv [symmetric]) blast
qed

text \<open>Appending a batch the way both stores do it amounts to a stable sort of the whole.\<close>

lemma append_batch_sorts:
  assumes "sorted (map key old)"
  shows "(if 0 < length new \<and> batch_needs_sort key (old @ new) (length old)
          then sort_key key (old @ new) else old @ new) = sort_key key (old @ new)"
proof -
  have "batch_needs_sort key (old @ new) (length old) \<longleftrightarrow> \<not> sorted (map key (old @ new))"
    using assms by (intro batch_needs_sort_iff) simp_all
  moreover have "new = [] \<Longrightarrow> sorted (map key (old @ new))"
    using assms by simp
  ultimately show ?thesis
    using sort_key_id_if_sorted [of key "old @ new"] by (cases "new = []") simp_all
qed

end
