(* ===== verification/Labelled_Store.thy ===== *)
theory Labelled_Store
  imports Label_Select
begin

text \<open>
  What \<open>LogStore\<close> and \<open>MetricStore\<close> have in common: items keyed by id, each with its interned
  label set (\<open>lab\<close>) and its time-ordered data (\<open>dat\<close>), the exact map from label sets to ids and
  the inverted index. \<open>labelled_wf\<close> is their shared invariant and \<open>series_view\<close> their shared
  abstraction: which data is stored under which labels, the order of the labels set aside. The
  two store theories instantiate the lemmas of this one at their own records.
\<close>

section \<open>Label sets up to order\<close>

text \<open>
  What a label list says about each name: its values, in order. Interning sorts the pairs by
  name, stably, so this is precisely what survives of the order.
\<close>

definition label_fun :: "('k \<times> 'v) list \<Rightarrow> 'k \<Rightarrow> 'v list" where
  "label_fun ls n = map snd (filter (\<lambda>p. fst p = n) ls)"

lemma label_fun_sort_key: "label_fun (sort_key fst ls) = label_fun ls"
  by (rule ext) (simp add: label_fun_def sort_key_stable)

lemma label_fun_distinct_perm:
  assumes "mset ls = mset ls'" and "distinct (map fst ls)"
  shows "label_fun ls = label_fun ls'"
proof
  fix n
  have le1: "length (filter (\<lambda>p. fst p = n) ls) \<le> 1"
    using assms(2) by (induction ls) (force simp: filter_empty_conv)+
  have "mset (filter (\<lambda>p. fst p = n) ls) = mset (filter (\<lambda>p. fst p = n) ls')"
    by (simp only: mset_filter assms(1))
  moreover have "xs = ys" if "mset xs = mset ys" "length xs \<le> 1" for xs ys :: "('a \<times> 'b) list"
    using that by (cases xs rule: remdups_adj.cases) auto
  ultimately have "filter (\<lambda>p. fst p = n) ls = filter (\<lambda>p. fst p = n) ls'"
    using le1 by blast
  then show "label_fun ls n = label_fun ls' n" by (simp add: label_fun_def)
qed

lemma label_fun_mem: "v \<in> set (label_fun ls n) \<longleftrightarrow> (n, v) \<in> set ls"
  by (force simp: label_fun_def)

lemma label_fun_eq_sorted:
  assumes "sorted (map fst ps)" and "sorted (map fst qs)" and "label_fun ps = label_fun qs"
  shows "ps = (qs :: ('k::linorder \<times> 'v) list)"
proof -
  have eq: "filter (\<lambda>p. fst p = n) ps = filter (\<lambda>p. fst p = n) qs" for n
  proof -
    have pair: "map (Pair n) (map snd (filter (\<lambda>p. fst p = n) xs)) = filter (\<lambda>p. fst p = n) xs"
      for xs :: "('k \<times> 'v) list"
      by (induction xs) auto
    have "map snd (filter (\<lambda>p. fst p = n) ps) = map snd (filter (\<lambda>p. fst p = n) qs)"
      using fun_cong [OF assms(3), of n] by (simp add: label_fun_def)
    then show ?thesis using pair by metis
  qed
  have eq': "filter (\<lambda>p. n = fst p) ps = filter (\<lambda>p. n = fst p) qs" for n
    using eq [of n] by (simp add: eq_commute [of n])
  have "sort_key fst qs = ps"
  proof (rule properties_for_sort_key)
    show "mset ps = mset qs"
    proof (rule multiset_eqI)
      fix p :: "'k \<times> 'v"
      have "count (mset xs) p = count (mset (filter (\<lambda>q. fst q = fst p) xs)) p"
        for xs :: "('k \<times> 'v) list"
        by (induction xs) auto
      with eq [of "fst p"] show "count (mset ps) p = count (mset qs) p" by metis
    qed
  qed (simp_all add: assms(1) eq eq')
  moreover have "sort_key fst qs = qs"
    using assms(2) by (rule sort_key_id_if_sorted)
  ultimately show ?thesis by simp
qed

text \<open>Under an interner, the resolved labels determine the stored ones.\<close>

lemma label_fun_resolve:
  assumes "labels_ok R i ls" and "spur_ok R i k"
  shows "label_fun (resolve_labels R i ls) (rd_resolve R i k) = map (rd_resolve R i) (label_fun ls k)"
proof -
  have "rd_resolve R i (fst p) = rd_resolve R i k \<longleftrightarrow> fst p = k" if "p \<in> set ls" for p
    using that assms rd_resolve_inj [of R i "fst p" k] by (auto simp: labels_ok_def)
  then have "filter (\<lambda>p. rd_resolve R i (fst p) = rd_resolve R i k) ls = filter (\<lambda>p. fst p = k) ls"
    by (intro filter_cong) auto
  then show ?thesis
    by (simp add: label_fun_def resolve_labels_def filter_map comp_def case_prod_unfold)
qed

lemma resolve_key_eq:
  assumes "labels_ok R i ps" and "labels_ok R i qs"
    and "label_fun (resolve_labels R i ps) = label_fun (resolve_labels R i qs)"
  shows "label_fun ps = label_fun qs"
proof
  fix k
  show "label_fun ps k = label_fun qs k"
  proof (cases "spur_ok R i k")
    case True
    have ok: "set (label_fun xs k) \<subseteq> {v. spur_ok R i v}" if "labels_ok R i xs" for xs
      using that by (fastforce simp: label_fun_mem labels_ok_def)
    have inj: "inj_on (rd_resolve R i) {v. spur_ok R i v}"
      by (auto intro: inj_onI rd_resolve_inj)
    have "map (rd_resolve R i) (label_fun ps k) = map (rd_resolve R i) (label_fun qs k)"
      using fun_cong [OF assms(3), of "rd_resolve R i k"] label_fun_resolve assms(1,2) True by metis
    moreover have "inj_on (rd_resolve R i) (set (label_fun ps k) \<union> set (label_fun qs k))"
      using inj ok assms(1,2) by (blast intro: inj_on_subset)
    ultimately show ?thesis using map_inj_on by blast
  next
    case False
    then have "label_fun xs k = []" if "labels_ok R i xs" for xs
      using that by (auto simp: label_fun_def labels_ok_def filter_empty_conv)
    with assms(1,2) show ?thesis by simp
  qed
qed

lemma stored_labels_determined:
  assumes "labels_ok R i ps" and "labels_ok R i qs"
    and "sorted (map fst ps)" and "sorted (map fst qs)"
    and "label_fun (resolve_labels R i ps) = label_fun (resolve_labels R i qs)"
  shows "ps = qs"
  using label_fun_eq_sorted [OF assms(3,4) resolve_key_eq [OF assms(1,2,5)]] .

lemma intern_label_pairs_key:
  assumes "rodeo_laws R" and "intern_label_pairs R i ls = (j, ps)"
  shows "label_fun (resolve_labels R j ps) = label_fun ls"
proof -
  obtain qs where qs: "intern_pairs R i ls = (j, qs)" "ps = sort_key fst qs"
    using assms(2) by (auto simp: intern_label_pairs_def split: prod.splits)
  have spec: "labels_ok R j qs" "resolve_labels R j qs = ls"
    using intern_pairs_spec [OF assms(1) qs(1)] by blast+
  then have ok: "labels_ok R j ps" by (simp add: qs(2) labels_ok_def)
  show ?thesis
  proof
    fix n
    show "label_fun (resolve_labels R j ps) n = label_fun ls n"
    proof (cases "\<exists>k. spur_ok R j k \<and> rd_resolve R j k = n")
      case True
      then obtain k where k: "spur_ok R j k" "rd_resolve R j k = n" by blast
      show ?thesis
        using label_fun_resolve [OF ok k(1)] label_fun_resolve [OF spec(1) k(1)] spec(2)
        by (simp add: k(2) qs(2) label_fun_sort_key)
    next
      case False
      then have none: "label_fun (resolve_labels R j xs) n = []" if "labels_ok R j xs" for xs
        using that by (force simp: label_fun_def resolve_labels_def labels_ok_def filter_empty_conv)
      show ?thesis using none [OF ok] none [OF spec(1)] spec(2) by simp
    qed
  qed
qed

section \<open>The shared invariant\<close>

definition items_of :: "('s \<Rightarrow> label_pairs) \<Rightarrow> (u64, 's) hash_map \<Rightarrow> u64 \<rightharpoonup> label_pairs" where
  "items_of lab streams x = map_option lab (hm_get streams x)"

lemma dom_items_of: "dom (items_of lab streams) = set (hm_keys streams)"
proof -
  have "items_of lab streams x \<noteq> None \<longleftrightarrow> x \<in> set (hm_keys streams)" for x
    unfolding hm_key_iff by (simp add: items_of_def)
  then show ?thesis by (auto simp: dom_def)
qed

text \<open>
  Ids are unique and below the next id; the exact map inverts the stored label sets; every
  stored label set is interned and sorted; the inverted index is the one these sets induce.
\<close>

definition labelled_wf ::
  "'i rodeo_ops \<Rightarrow> 'i \<Rightarrow> ('s \<Rightarrow> label_pairs) \<Rightarrow> (u64, 's) hash_map \<Rightarrow> (label_pairs, u64) hash_map \<Rightarrow>
     u64 \<Rightarrow> label_index \<Rightarrow> label_values \<Rightarrow> bool" where
  "labelled_wf R i lab streams ids nxt idx vals \<longleftrightarrow>
     hm_wf streams \<and> hm_wf ids \<and>
     (\<forall>ls x. hm_get ids ls = Some x \<longleftrightarrow> items_of lab streams x = Some ls) \<and>
     (\<forall>x s. hm_get streams x = Some s \<longrightarrow>
        x < nxt \<and> labels_ok R i (lab s) \<and> sorted (map fst (lab s))) \<and>
     index_wf (items_of lab streams) idx vals"

lemma labelled_wfD:
  assumes "labelled_wf R i lab streams ids nxt idx vals"
  shows "hm_wf streams" and "hm_wf ids"
    and "hm_get ids ls = Some x \<longleftrightarrow> items_of lab streams x = Some ls"
    and "hm_get streams x = Some s \<Longrightarrow> x < nxt"
    and "hm_get streams x = Some s \<Longrightarrow> labels_ok R i (lab s)"
    and "hm_get streams x = Some s \<Longrightarrow> sorted (map fst (lab s))"
    and "index_wf (items_of lab streams) idx vals"
  using assms unfolding labelled_wf_def by blast+

lemma labelled_wfI:
  assumes "hm_wf streams" and "hm_wf ids"
    and "\<And>ls x. hm_get ids ls = Some x \<longleftrightarrow> items_of lab streams x = Some ls"
    and "\<And>x s. hm_get streams x = Some s \<Longrightarrow>
      x < nxt \<and> labels_ok R i (lab s) \<and> sorted (map fst (lab s))"
    and "index_wf (items_of lab streams) idx vals"
  shows "labelled_wf R i lab streams ids nxt idx vals"
  using assms unfolding labelled_wf_def by blast

lemma labelled_wf_empty [simp]: "labelled_wf R i lab [] [] nxt [] []"
proof -
  have "items_of lab [] = Map.empty" by (rule ext) (simp add: items_of_def)
  then show ?thesis by (simp add: labelled_wf_def items_of_def)
qed

lemma labelled_wf_extends:
  assumes "rodeo_laws R" and "rd_extends R i j"
    and "labelled_wf R i lab streams ids nxt idx vals"
  shows "labelled_wf R j lab streams ids nxt idx vals"
  using assms(3) labels_ok_extends(1) [OF assms(1,2)] unfolding labelled_wf_def by blast

text \<open>Changing the data of items while keeping their labels.\<close>

lemma labelled_wf_same_items:
  assumes "labelled_wf R i lab streams ids nxt idx vals" and "hm_wf streams'"
    and "items_of lab streams' = items_of lab streams"
  shows "labelled_wf R i lab streams' ids nxt idx vals"
proof -
  have "\<exists>t. hm_get streams x = Some t \<and> lab t = lab s" if "hm_get streams' x = Some s" for x s
    using fun_cong [OF assms(3), of x] that
    by (cases "hm_get streams x") (auto simp: items_of_def)
  with assms show ?thesis unfolding labelled_wf_def by metis
qed

lemma items_of_update:
  assumes "hm_get streams x = Some s" and "lab s' = lab s"
  shows "items_of lab (hm_insert x s' streams) = items_of lab streams"
  by (rule ext) (simp add: items_of_def hm_simps assms)

lemma items_of_map_values:
  assumes "\<And>x s. lab (f x s) = lab s"
  shows "items_of lab (map (\<lambda>(x, s). (x, f x s)) streams) = items_of lab streams"
  by (rule ext) (simp add: items_of_def hm_simps option.map_comp comp_def assms)

text \<open>A new id, as both ingest paths allocate it.\<close>

lemma labelled_wf_new:
  assumes wf: "labelled_wf R i lab streams ids nxt idx vals" and fresh: "hm_get ids ls = None"
    and s: "lab s = ls" "labels_ok R i ls" "sorted (map fst ls)"
  shows "labelled_wf R i lab (hm_insert nxt s streams) (hm_insert ls nxt ids) (Suc nxt)
    (index_insert idx ls nxt) (track_label_values vals ls)"
proof -
  note D = labelled_wfD [OF wf]
  have none: "hm_get streams nxt = None"
    using D(4) [of nxt] by (cases "hm_get streams nxt") auto
  have items: "items_of lab (hm_insert nxt s streams) = (items_of lab streams)(nxt \<mapsto> ls)"
    by (rule ext) (simp add: items_of_def hm_simps s)
  have notls: "items_of lab streams x \<noteq> Some ls" for x
    using fresh D(3) [of ls x] by simp
  show ?thesis
  proof (rule labelled_wfI)
    show "hm_wf (hm_insert nxt s streams)" "hm_wf (hm_insert ls nxt ids)"
      by (intro hm_wf_insert D(1,2))+
    show "index_wf (items_of lab (hm_insert nxt s streams))
        (index_insert idx ls nxt) (track_label_values vals ls)"
      unfolding items by (rule index_wf_add [OF D(7)]) (simp add: items_of_def none)
    fix ls' x
    show "hm_get (hm_insert ls nxt ids) ls' = Some x \<longleftrightarrow>
        items_of lab (hm_insert nxt s streams) x = Some ls'"
      unfolding items using D(3) [of ls' x] notls [of x] none
      by (auto simp: hm_simps items_of_def)
  next
    fix x t
    assume "hm_get (hm_insert nxt s streams) x = Some t"
    then show "x < Suc nxt \<and> labels_ok R i (lab t) \<and> sorted (map fst (lab t))"
      using D(4-6) [of x t] s by (cases "x = nxt") (simp_all add: hm_simps)
  qed
qed

text \<open>Tracking the labels of a known id again.\<close>

lemma labelled_wf_track:
  assumes "labelled_wf R i lab streams ids nxt idx vals" and "hm_get ids ls = Some x"
  shows "labelled_wf R i lab streams ids nxt idx (track_label_values vals ls)"
proof -
  note D = labelled_wfD [OF assms(1)]
  have "items_of lab streams x = Some ls" using assms(2) by (simp only: D(3))
  then have "index_wf (items_of lab streams) idx (track_label_values vals ls)"
    by (rule index_wf_track [OF D(7)])
  with assms(1) show ?thesis unfolding labelled_wf_def by blast
qed

text \<open>Removing an id, as eviction and \<open>clear_service\<close> do.\<close>

lemma labelled_wf_drop:
  assumes wf: "labelled_wf R i lab streams ids nxt idx vals"
    and x: "hm_get streams x = Some s"
    and rem: "remove_from_label_indexes idx vals (lab s) x = (idx', vals')"
  shows "labelled_wf R i lab (hm_remove x streams) (hm_remove (lab s) ids) nxt idx' vals'"
proof -
  note D = labelled_wfD [OF wf]
  have items: "items_of lab (hm_remove x streams) = (items_of lab streams)(x := None)"
    by (rule ext) (simp add: items_of_def hm_simps)
  have item: "items_of lab streams x = Some (lab s)"
    by (simp add: items_of_def x)
  then have "hm_get ids (lab s) = Some x" by (simp add: D(3))
  then have uniq: "items_of lab streams y = Some (lab s) \<Longrightarrow> y = x" for y
    using D(3) [of "lab s" y] by simp
  show ?thesis
  proof (rule labelled_wfI)
    show "hm_wf (hm_remove x streams)" "hm_wf (hm_remove (lab s) ids)"
      by (intro hm_wf_remove D(1,2))+
    show "index_wf (items_of lab (hm_remove x streams)) idx' vals'"
      unfolding items by (rule index_wf_remove [OF D(7) item rem])
    fix ls y
    show "hm_get (hm_remove (lab s) ids) ls = Some y \<longleftrightarrow>
        items_of lab (hm_remove x streams) y = Some ls"
    proof (cases "y = x \<or> ls = lab s")
      case True
      with uniq [of y] item show ?thesis
        unfolding items hm_get_remove D(3) fun_upd_apply by (cases "y = x") (auto simp: D(3))
    next
      case False
      then show ?thesis
        unfolding items hm_get_remove fun_upd_apply by (simp add: D(3))
    qed
  next
    fix y t
    assume "hm_get (hm_remove x streams) y = Some t"
    then show "y < nxt \<and> labels_ok R i (lab t) \<and> sorted (map fst (lab t))"
      using D(4-6) [of y t] by (cases "y = x") (simp_all add: hm_simps)
  qed
qed

section \<open>Lookups by label\<close>

lemma label_index_ids:
  assumes "labelled_wf R i lab streams ids nxt idx vals"
  shows "posting_of idx p = {x. \<exists>s. hm_get streams x = Some s \<and> p \<in> set (lab s)}"
  using index_wfD(3) [OF labelled_wfD(7) [OF assms], of p]
  by (auto simp: ids_with_def items_of_def)

lemma service_label_iff:
  assumes "rodeo_laws R" and "labels_ok R i ls"
  shows "v \<in> set (label_fun (resolve_labels R i ls) n) \<longleftrightarrow>
    (\<exists>k w. rd_get R i n = Some k \<and> rd_get R i v = Some w \<and> (k, w) \<in> set ls)"
  unfolding label_fun_mem by (rule resolved_pair_iff [OF assms])

text \<open>Selecting by matchers returns the ids whose labels satisfy all of them.\<close>

lemma select_distinct:
  assumes laws: "rodeo_laws R" and wf: "labelled_wf R i lab streams ids nxt idx vals"
    and valid: "\<forall>m \<in> set ms. matcher_valid X m"
  shows "distinct (select_indexed_ids R X i idx vals (hm_keys streams) ms)"
proof (cases "ms = []")
  case True
  then show ?thesis using labelled_wfD(1) [OF wf] by (simp add: select_indexed_ids_def)
next
  case False
  have ok: "\<forall>x ls. items_of lab streams x = Some ls \<longrightarrow> labels_ok R i ls"
    using labelled_wfD(5) [OF wf] by (auto simp: items_of_def)
  have "sorted_wrt (<) (select_indexed_ids R X i idx vals (hm_keys streams) ms)"
    by (rule select_indexed_ids_spec(2) [OF labelled_wfD(7) [OF wf] laws ok dom_items_of [symmetric] valid False])
  then show ?thesis by (simp add: strict_sorted_iff)
qed

lemma select_stored_ids:
  assumes laws: "rodeo_laws R" and wf: "labelled_wf R i lab streams ids nxt idx vals"
    and valid: "\<forall>m \<in> set ms. matcher_valid X m"
  shows "set (select_indexed_ids R X i idx vals (hm_keys streams) ms) =
    {x. \<exists>s. hm_get streams x = Some s \<and>
      (\<forall>m \<in> set ms. matcher_holds X (resolve_labels R i (lab s)) m)}"
proof (cases "ms = []")
  case True
  have "x \<in> set (hm_keys streams) \<longleftrightarrow> (\<exists>s. hm_get streams x = Some s)" for x
    by (simp only: hm_key_iff not_None_eq)
  with True show ?thesis by (auto simp: select_indexed_ids_def)
next
  case False
  have ok: "\<forall>x ls. items_of lab streams x = Some ls \<longrightarrow> labels_ok R i ls"
    using labelled_wfD(5) [OF wf] by (auto simp: items_of_def)
  have sel: "set (select_indexed_ids R X i idx vals (hm_keys streams) ms) =
      (\<Inter>m \<in> set ms. ids_matching R X i (items_of lab streams) m)"
    by (rule select_indexed_ids_spec(1) [OF labelled_wfD(7) [OF wf] laws ok
          dom_items_of [symmetric] valid False])
  have "x \<in> ids_matching R X i (items_of lab streams) m \<longleftrightarrow>
      (\<exists>s. hm_get streams x = Some s \<and> matcher_holds X (resolve_labels R i (lab s)) m)" for x m
    by (auto simp: ids_matching_def items_of_def)
  with False show ?thesis unfolding sel by (cases ms) auto
qed

text \<open>The values listed for a label name are those that some stored item carries.\<close>

lemma stored_label_values:
  assumes laws: "rodeo_laws R" and wf: "labelled_wf R i lab streams ids nxt idx vals"
  shows "v \<in> set (case rd_get R i n of
        None \<Rightarrow> []
      | Some k \<Rightarrow> (case hm_get vals k of None \<Rightarrow> [] | Some vs \<Rightarrow> map (rd_resolve R i) vs)) \<longleftrightarrow>
    (\<exists>x s. hm_get streams x = Some s \<and> (n, v) \<in> set (resolve_labels R i (lab s)))"
    (is "v \<in> set ?vs \<longleftrightarrow> _")
proof -
  have vals: "w \<in> values_of vals k \<longleftrightarrow> (\<exists>x s. hm_get streams x = Some s \<and> (k, w) \<in> set (lab s))" for k w
    using index_wfD(4) [OF labelled_wfD(7) [OF wf], of k]
    by (auto simp: ids_with_def items_of_def)
  have pair: "(n, v) \<in> set (resolve_labels R i (lab s)) \<longleftrightarrow>
      (\<exists>k w. rd_get R i n = Some k \<and> rd_get R i v = Some w \<and> (k, w) \<in> set (lab s))"
    if "hm_get streams x = Some s" for x s
    by (rule resolved_pair_iff [OF laws labelled_wfD(5) [OF wf that]])
  have ok: "spur_ok R i w" if "w \<in> values_of vals k" for k w
    using that labelled_wfD(5) [OF wf] unfolding vals labels_ok_def by fastforce
  have "v \<in> set ?vs \<longleftrightarrow> (\<exists>k w. rd_get R i n = Some k \<and> w \<in> values_of vals k \<and> v = rd_resolve R i w)"
  proof (cases "rd_get R i n")
    case None
    then show ?thesis by simp
  next
    case (Some k)
    then show ?thesis by (cases "hm_get vals k") (auto simp: values_of_def)
  qed
  also have "\<dots> \<longleftrightarrow> (\<exists>k w. rd_get R i n = Some k \<and> w \<in> values_of vals k \<and> rd_get R i v = Some w)"
    using ok rd_get_iff [OF laws] by metis
  also have "\<dots> \<longleftrightarrow> (\<exists>x s. hm_get streams x = Some s \<and> (n, v) \<in> set (resolve_labels R i (lab s)))"
    unfolding vals using pair by blast
  finally show ?thesis .
qed

section \<open>Rebuilding the exact map\<close>

text \<open>
  \<open>rebuild_stream_ids\<close> and \<open>rebuild_series_ids\<close> run one step per id over the sorted ids,
  starting from an empty map and 0; the order does not matter.
\<close>

definition rebuild_step ::
  "('s \<Rightarrow> label_pairs) \<Rightarrow> (u64, 's) hash_map \<Rightarrow> u64 \<Rightarrow> (label_pairs, u64) hash_map \<times> u64 \<Rightarrow>
     (label_pairs, u64) hash_map \<times> u64" where
  "rebuild_step lab streams x m =
     (case hm_get streams x of
        None \<Rightarrow> m
      | Some s \<Rightarrow> (hm_insert (lab s) x (fst m), max (snd m) (u64_saturating_add x 1)))"

lemma rebuild_fold:
  assumes "\<forall>x y ls. items_of lab streams x = Some ls \<longrightarrow> items_of lab streams y = Some ls \<longrightarrow> x = y"
    and "\<forall>x \<in> set xs. x < u64_max"
    and "fold (rebuild_step lab streams) xs (ids, n) = (ids', n')" and "hm_wf ids"
  shows "hm_wf ids' \<and> n \<le> n' \<and> (\<forall>x \<in> set xs. hm_get streams x \<noteq> None \<longrightarrow> x < n') \<and>
    (\<forall>ls x. hm_get ids' ls = Some x \<longleftrightarrow>
      (if \<exists>y \<in> set xs. items_of lab streams y = Some ls
       then items_of lab streams x = Some ls else hm_get ids ls = Some x))"
  using assms(2-4)
proof (induction xs arbitrary: ids n)
  case Nil
  then show ?case by simp
next
  case (Cons x xs)
  show ?case
  proof (cases "hm_get streams x")
    case None
    then have "rebuild_step lab streams x (ids, n) = (ids, n)" "items_of lab streams x = None"
      by (simp_all add: rebuild_step_def items_of_def)
    with Cons.IH [of ids n] Cons.prems None show ?thesis by simp
  next
    case (Some s)
    have x: "u64_saturating_add x 1 = Suc x" "items_of lab streams x = Some (lab s)"
      using Cons.prems(1) Some by (simp_all add: u64_saturating_add_def items_of_def)
    let ?ids = "hm_insert (lab s) x ids" and ?n = "max n (Suc x)"
    have "rebuild_step lab streams x (ids, n) = (?ids, ?n)"
      using Some x(1) by (simp add: rebuild_step_def)
    then have "fold (rebuild_step lab streams) xs (?ids, ?n) = (ids', n')"
      using Cons.prems(2) by simp
    moreover have "\<forall>y \<in> set xs. y < u64_max"
      using Cons.prems(1) by simp
    ultimately have IH: "hm_wf ids'" "?n \<le> n'"
      "\<forall>y \<in> set xs. hm_get streams y \<noteq> None \<longrightarrow> y < n'"
      "\<And>ls y. hm_get ids' ls = Some y \<longleftrightarrow> (if \<exists>z \<in> set xs. items_of lab streams z = Some ls
        then items_of lab streams y = Some ls else hm_get ?ids ls = Some y)"
      using Cons.IH [of ?ids ?n] hm_wf_insert [OF Cons.prems(3)] by blast+
    have "hm_get ids' ls = Some y \<longleftrightarrow>
        (if \<exists>z \<in> set (x # xs). items_of lab streams z = Some ls
         then items_of lab streams y = Some ls else hm_get ids ls = Some y)" for ls y
    proof (cases "\<exists>z \<in> set xs. items_of lab streams z = Some ls")
      case True
      then show ?thesis by (simp add: IH(4))
    next
      case False
      show ?thesis
      proof (cases "ls = lab s")
        case True
        have "items_of lab streams y = Some ls \<longleftrightarrow> y = x"
          using assms(1) x(2) True by blast
        with False True show ?thesis by (auto simp: IH(4) hm_simps x(2))
      next
        case ls: False
        with False x(2) show ?thesis by (auto simp: IH(4) hm_simps)
      qed
    qed
    with IH(1-3) show ?thesis by (simp add: Some)
  qed
qed

lemma labelled_wf_rebuild:
  assumes wf: "labelled_wf R i lab streams ids nxt idx vals" and room: "nxt \<le> u64_max"
    and fold: "fold (rebuild_step lab streams) (sort (hm_keys streams)) ([], 0) = (ids', nxt')"
  shows "labelled_wf R i lab streams ids' nxt' idx vals"
proof -
  note D = labelled_wfD [OF wf]
  have uniq: "\<forall>x y ls. items_of lab streams x = Some ls \<longrightarrow> items_of lab streams y = Some ls \<longrightarrow> x = y"
  proof (intro allI impI)
    fix x y ls assume "items_of lab streams x = Some ls" "items_of lab streams y = Some ls"
    then have "hm_get ids ls = Some x" "hm_get ids ls = Some y" by (simp_all only: D(3))
    then show "x = y" by simp
  qed
  have small: "\<forall>x \<in> set (sort (hm_keys streams)). x < u64_max"
  proof
    fix x assume "x \<in> set (sort (hm_keys streams))"
    then have "hm_get streams x \<noteq> None" unfolding set_sort hm_key_iff .
    then obtain s where "hm_get streams x = Some s" unfolding not_None_eq ..
    from D(4) [OF this] room show "x < u64_max" by simp
  qed
  have "hm_wf ([] :: (label_pairs, u64) hash_map)" by simp
  from rebuild_fold [OF uniq small fold this]
  have r: "hm_wf ids'" "\<forall>x \<in> set (sort (hm_keys streams)). hm_get streams x \<noteq> None \<longrightarrow> x < nxt'"
    and get: "\<And>ls x. hm_get ids' ls = Some x \<longleftrightarrow>
      (if \<exists>y \<in> set (sort (hm_keys streams)). items_of lab streams y = Some ls
       then items_of lab streams x = Some ls else hm_get ([] :: (label_pairs, u64) hash_map) ls = Some x)"
    by blast+
  have key: "x \<in> set (sort (hm_keys streams)) \<longleftrightarrow> hm_get streams x \<noteq> None" for x
    by (simp only: set_sort hm_key_iff)
  show ?thesis
  proof (rule labelled_wfI)
    show "hm_get ids' ls = Some x \<longleftrightarrow> items_of lab streams x = Some ls" for ls x
    proof -
      have "\<exists>y \<in> set (sort (hm_keys streams)). items_of lab streams y = Some ls"
        if "items_of lab streams x = Some ls"
      proof
        show "items_of lab streams x = Some ls" by (rule that)
        show "x \<in> set (sort (hm_keys streams))" unfolding key using that by (auto simp: items_of_def)
      qed
      then show ?thesis using get [of ls x] by (auto split: if_splits)
    qed
    show "x < nxt' \<and> labels_ok R i (lab s) \<and> sorted (map fst (lab s))"
      if "hm_get streams x = Some s" for x s
      using r(2) that D(5,6) [OF that] unfolding Ball_def key by simp
  qed (rule D(1) r(1) D(7))+
qed

section \<open>The abstraction\<close>

text \<open>The data stored under a label function: what the items with these labels hold.\<close>

definition series_view ::
  "'i rodeo_ops \<Rightarrow> 'i \<Rightarrow> ('s \<Rightarrow> label_pairs) \<Rightarrow> ('s \<Rightarrow> 'd list) \<Rightarrow> (u64, 's) hash_map \<Rightarrow>
     (string \<Rightarrow> string list) \<Rightarrow> 'd list" where
  "series_view R i lab dat streams f =
     concat (map dat (filter (\<lambda>s. label_fun (resolve_labels R i (lab s)) = f) (hm_values streams)))"

lemma series_view_none:
  assumes "hm_wf streams"
    and "\<And>x s. hm_get streams x = Some s \<Longrightarrow> label_fun (resolve_labels R i (lab s)) = f \<Longrightarrow> dat s = []"
  shows "series_view R i lab dat streams f = []"
proof -
  have "dat s = []" if "s \<in> set (hm_values streams)"
    "label_fun (resolve_labels R i (lab s)) = f" for s
  proof -
    from that(1) obtain x where "(x, s) \<in> set streams" by auto
    with assms(2) that(2) show ?thesis by (simp only: hm_mem_iff [OF assms(1)])
  qed
  then show ?thesis by (simp add: series_view_def)
qed

lemma filter_values_unique:
  assumes "hm_wf streams" and "hm_get streams x = Some s" and "P s"
    and "\<And>y t. hm_get streams y = Some t \<Longrightarrow> P t \<Longrightarrow> y = x"
  shows "filter P (hm_values streams) = [s]"
  using assms
proof (induction streams)
  case Nil
  then show ?case by simp
next
  case (Cons p streams)
  obtain y t where p: "p = (y, t)" by force
  have y: "hm_get streams y = None"
    using Cons.prems(1) p by (simp add: map_of_eq_None_iff)
  show ?case
  proof (cases "y = x")
    case True
    have "\<not> P u" if "u \<in> set (hm_values streams)" for u
    proof
      assume "P u"
      from that obtain z where "(z, u) \<in> set streams" by auto
      moreover have "hm_wf streams" using Cons.prems(1) by simp
      ultimately have "hm_get streams z = Some u" by (simp only: hm_mem_iff)
      moreover from this have "z \<noteq> y" using y by auto
      ultimately have "hm_get (p # streams) z = Some u" using p by simp
      then have "z = x" by (rule Cons.prems(4) [OF _ \<open>P u\<close>])
      with True \<open>z \<noteq> y\<close> show False by simp
    qed
    then have "filter P (hm_values streams) = []"
      by (simp only: filter_empty_conv) blast
    with True Cons.prems(2,3) p show ?thesis by simp
  next
    case False
    have "\<not> P t"
    proof
      assume "P t"
      then have "y = x" by (rule Cons.prems(4) [rotated]) (simp add: p)
      with False show False ..
    qed
    moreover have "filter P (hm_values streams) = [s]"
    proof (rule Cons.IH)
      show "hm_wf streams" "hm_get streams x = Some s" "P s"
        using Cons.prems(1-3) p False by simp_all
      show "z = x" if "hm_get streams z = Some u" "P u" for z u
      proof (rule Cons.prems(4) [OF _ that(2)])
        show "hm_get (p # streams) z = Some u" using that(1) y p by auto
      qed
    qed
    ultimately show ?thesis by (simp add: p)
  qed
qed

lemma same_labels_same_id:
  assumes wf: "labelled_wf R i lab streams ids nxt idx vals" and x: "hm_get streams x = Some s" and y: "hm_get streams y = Some t"
    and same: "label_fun (resolve_labels R i (lab t)) = label_fun (resolve_labels R i (lab s))"
  shows "y = x"
proof -
  note D = labelled_wfD [OF wf]
  have "lab t = lab s"
    by (rule stored_labels_determined [OF D(5) [OF y] D(5) [OF x] D(6) [OF y] D(6) [OF x] same])
  then have "hm_get ids (lab s) = Some y" "hm_get ids (lab s) = Some x"
    using x y by (simp_all add: D(3) items_of_def)
  then show ?thesis by simp
qed

lemma series_view_item:
  assumes wf: "labelled_wf R i lab streams ids nxt idx vals" and x: "hm_get streams x = Some s"
  shows "series_view R i lab dat streams (label_fun (resolve_labels R i (lab s))) = dat s"
proof -
  have "filter (\<lambda>t. label_fun (resolve_labels R i (lab t)) =
      label_fun (resolve_labels R i (lab s))) (hm_values streams) = [s]"
    by (rule filter_values_unique [OF labelled_wfD(1) [OF wf] x]) (use same_labels_same_id [OF wf x] in auto)
  then show ?thesis by (simp add: series_view_def)
qed

lemma series_view_cases:
  assumes "labelled_wf R i lab streams ids nxt idx vals"
  obtains (item) x s where "hm_get streams x = Some s" "f = label_fun (resolve_labels R i (lab s))"
      "series_view R i lab dat streams f = dat s"
    | (none) "\<And>x s. hm_get streams x = Some s \<Longrightarrow> label_fun (resolve_labels R i (lab s)) \<noteq> f"
      "series_view R i lab dat streams f = []"
proof (cases "\<exists>x s. hm_get streams x = Some s \<and> label_fun (resolve_labels R i (lab s)) = f")
  case True
  then show ?thesis using item series_view_item [OF assms] by metis
next
  case False
  then have "series_view R i lab dat streams f = []"
    by (intro series_view_none [OF labelled_wfD(1) [OF assms]]) auto
  with False show ?thesis by (intro none) auto
qed

text \<open>The view survives the growth of the interner.\<close>

lemma series_view_extends:
  assumes "rodeo_laws R" and "rd_extends R i j"
    and wf: "labelled_wf R i lab streams ids nxt idx vals"
  shows "series_view R j lab dat streams = series_view R i lab dat streams"
proof
  fix f
  have same: "resolve_labels R j (lab s) = resolve_labels R i (lab s)" if "s \<in> set (hm_values streams)" for s
  proof -
    from that obtain x where "(x, s) \<in> set streams" by auto
    then have "hm_get streams x = Some s" by (simp only: hm_mem_iff [OF labelled_wfD(1) [OF wf]])
    then show ?thesis by (rule labels_ok_extends(2) [OF assms(1,2) labelled_wfD(5) [OF wf]])
  qed
  have "filter (\<lambda>s. label_fun (resolve_labels R j (lab s)) = f) (hm_values streams) =
      filter (\<lambda>s. label_fun (resolve_labels R i (lab s)) = f) (hm_values streams)"
    by (rule filter_cong [OF refl]) (simp only: same)
  then show "series_view R j lab dat streams f = series_view R i lab dat streams f"
    by (simp only: series_view_def)
qed

text \<open>Writing one item: the view changes at its labels only.\<close>

lemma series_view_write:
  assumes wf: "labelled_wf R i lab streams ids nxt idx vals"
    and wf': "labelled_wf R i lab (hm_insert x s' streams) ids' nxt' idx' vals'"
    and same: "\<And>s. hm_get streams x = Some s \<Longrightarrow> lab s = lab s'"
  shows "series_view R i lab dat (hm_insert x s' streams) =
    (series_view R i lab dat streams)(label_fun (resolve_labels R i (lab s')) := dat s')"
proof
  fix f
  let ?key = "\<lambda>s. label_fun (resolve_labels R i (lab s))"
  let ?new = "hm_insert x s' streams"
  have x: "hm_get ?new x = Some s'" by (simp add: hm_simps)
  show "series_view R i lab dat ?new f = ((series_view R i lab dat streams)(?key s' := dat s')) f"
  proof (cases "f = ?key s'")
    case True
    then show ?thesis using series_view_item [OF wf' x] by simp
  next
    case False
    from wf' have "series_view R i lab dat ?new f = series_view R i lab dat streams f"
    proof (cases rule: series_view_cases [where f = f and dat = dat])
      case (item y t)
      then have "y \<noteq> x" using False x by auto
      with item(1) have "hm_get streams y = Some t" by (simp add: hm_simps)
      from series_view_item [OF wf this, of dat] item(2,3) show ?thesis by simp
    next
      case none
      have "?key t \<noteq> f" if "hm_get streams y = Some t" for y t
      proof (cases "y = x")
        case True
        with that same [of t] False show ?thesis by auto
      next
        case False
        with that have "hm_get ?new y = Some t" by (simp add: hm_simps)
        then show ?thesis by (rule none(1))
      qed
      then have "series_view R i lab dat streams f = []"
        by (intro series_view_none [OF labelled_wfD(1) [OF wf]]) blast
      with none(2) show ?thesis by simp
    qed
    with False show ?thesis by simp
  qed
qed

text \<open>
  Shrinking the data: if each item keeps part of its data, as \<open>P\<close> allows for its labels, or
  goes, its rest being nothing, then so does the view.
\<close>

lemma series_view_shrink:
  fixes P :: "(string \<Rightarrow> string list) \<Rightarrow> 'd list \<Rightarrow> 'd list \<Rightarrow> bool"
  assumes wf: "labelled_wf R i lab streams ids nxt idx vals"
    and wf': "labelled_wf R i lab streams' ids' nxt' idx' vals'"
    and kept: "\<And>x s'. hm_get streams' x = Some s' \<Longrightarrow> \<exists>s. hm_get streams x = Some s \<and> lab s' = lab s \<and>
      P (label_fun (resolve_labels R i (lab s))) (dat s) (dat s')"
    and gone: "\<And>x s. hm_get streams x = Some s \<Longrightarrow> hm_get streams' x = None \<Longrightarrow>
      P (label_fun (resolve_labels R i (lab s))) (dat s) []"
    and idle: "P f [] []"
  shows "P f (series_view R i lab dat streams f) (series_view R i lab dat streams' f)"
proof (cases rule: series_view_cases [OF wf', where f = f and dat = dat, case_names item none])
  case (item y t)
  from kept [OF item(1)] obtain s where s: "hm_get streams y = Some s" "lab t = lab s"
    "P (label_fun (resolve_labels R i (lab s))) (dat s) (dat t)" by blast
  show ?thesis
    using series_view_item [OF wf s(1), of dat] s item by simp
next
  case empty: none
  show ?thesis
  proof (cases rule: series_view_cases [OF wf, where f = f and dat = dat, case_names item none])
    case (item y t)
    have "hm_get streams' y = None"
    proof (cases "hm_get streams' y")
      case (Some u)
      with kept [OF Some] item have "label_fun (resolve_labels R i (lab u)) = f" by auto
      with empty(1) [OF Some] show ?thesis by simp
    qed
    from gone [OF item(1) this] show ?thesis using item empty(2) by simp
  next
    case none
    with empty(2) idle show ?thesis by simp
  qed
qed

text \<open>
  Finding or allocating the item of an interned label set: the two cases of the \<open>match\<close> on the
  exact map in both ingest paths.
\<close>

lemma labelled_known:
  assumes wf: "labelled_wf R i lab streams ids nxt idx vals" and known: "hm_get ids ls = Some x"
  obtains s where "hm_get streams x = Some s" and "lab s = ls"
    and "labelled_wf R i lab streams ids nxt idx (track_label_values vals ls)"
proof -
  have "items_of lab streams x = Some ls"
    using labelled_wfD(3) [OF wf] known by blast
  then show ?thesis
    using that labelled_wf_track [OF wf known] by (auto simp: items_of_def)
qed

lemma labelled_fresh:
  assumes wf: "labelled_wf R i lab streams ids nxt idx vals" and fresh: "hm_get ids ls = None"
    and s: "lab s = ls" "labels_ok R i ls" "sorted (map fst ls)" "dat s = []"
  shows "labelled_wf R i lab (hm_insert nxt s streams) (hm_insert ls nxt ids) (Suc nxt)
      (index_insert idx ls nxt) (track_label_values vals ls)"
    and "hm_get streams nxt = None"
    and "series_view R i lab dat (hm_insert nxt s streams) = series_view R i lab dat streams"
proof -
  show wf': "labelled_wf R i lab (hm_insert nxt s streams) (hm_insert ls nxt ids) (Suc nxt)
      (index_insert idx ls nxt) (track_label_values vals ls)"
    by (rule labelled_wf_new [OF wf fresh s(1-3)])
  show none: "hm_get streams nxt = None"
    using labelled_wfD(4) [OF wf, of nxt] by (cases "hm_get streams nxt") auto
  let ?f = "label_fun (resolve_labels R i (lab s))"
  have "series_view R i lab dat streams ?f = []"
  proof (rule series_view_none [OF labelled_wfD(1) [OF wf]])
    fix y t
    assume y: "hm_get streams y = Some t" and eq: "label_fun (resolve_labels R i (lab t)) = ?f"
    have "labels_ok R i (lab s)" "sorted (map fst (lab s))" using s by simp_all
    with stored_labels_determined [OF labelled_wfD(5) [OF wf y] _ labelled_wfD(6) [OF wf y] _ eq]
    have "lab t = ls" using s(1) by simp
    then have "hm_get ids ls = Some y"
      unfolding labelled_wfD(3) [OF wf] by (simp add: items_of_def y)
    with fresh show "dat t = []" by simp
  qed
  moreover have "series_view R i lab dat (hm_insert nxt s streams) =
      (series_view R i lab dat streams)(?f := [])"
    using series_view_write [OF wf wf', of dat] none s(4) by simp
  ultimately show "series_view R i lab dat (hm_insert nxt s streams) = series_view R i lab dat streams"
    by (simp add: fun_upd_idem)
qed

section \<open>Selectors over the abstract contents\<close>

text \<open>A matcher as a condition on what each label name is mapped to.\<close>

definition label_holds :: "'r regex_ops \<Rightarrow> (string \<Rightarrow> string list) \<Rightarrow> label_matcher \<Rightarrow> bool" where
  "label_holds X f m =
     (let vs = set (f (lm_name m))
      in case lm_op m of
           Eq \<Rightarrow> lm_value m \<in> vs
         | Neq \<Rightarrow> lm_value m \<notin> vs
         | Regex \<Rightarrow> (case label_regex X (lm_value m) of None \<Rightarrow> False | Some re \<Rightarrow> \<exists>v \<in> vs. rx_is_match X re v)
         | NotRegex \<Rightarrow> (case label_regex X (lm_value m) of None \<Rightarrow> False | Some re \<Rightarrow> \<forall>v \<in> vs. \<not> rx_is_match X re v))"

lemma label_holds_iff: "matcher_holds X ls m \<longleftrightarrow> label_holds X (label_fun ls) m"
proof -
  have "(\<exists>p \<in> set ls. fst p = n \<and> P (snd p)) \<longleftrightarrow> (\<exists>v \<in> set (label_fun ls n). P v)" for n P
    unfolding label_fun_mem Bex_def by (metis fst_conv prod.collapse snd_conv)
  then show ?thesis
    by (simp add: matcher_holds_def label_holds_def label_fun_mem Let_def split: label_match_op.split option.split)
qed

definition selects :: "'r regex_ops \<Rightarrow> label_matcher list \<Rightarrow> (string \<Rightarrow> string list) \<Rightarrow> bool" where
  "selects X ms f \<longleftrightarrow> list_all (label_holds X f) ms"

section \<open>Collecting under a label set\<close>

lemma concat_single:
  assumes "distinct xs" and "\<And>y. y \<in> set xs \<Longrightarrow> y \<noteq> x \<Longrightarrow> g y = []"
  shows "concat (map g xs) = (if x \<in> set xs then g x else [])"
  using assms
proof (induction xs)
  case (Cons y ys)
  then have "concat (map g ys) = (if x \<in> set ys then g x else [])" by simp
  with Cons.prems show ?case by auto
qed simp

text \<open>
  If what is collected for an id depends on its data where its labels are \<open>f\<close>, and is nothing elsewhere,
  then all selected ids together give what the data stored under \<open>f\<close> give.
\<close>

lemma selected_view:
  assumes laws: "rodeo_laws R" and wf: "labelled_wf R i lab streams ids nxt idx vals"
    and valid: "\<forall>m \<in> set ms. matcher_valid X m"
    and g: "\<And>x s. hm_get streams x = Some s \<Longrightarrow>
      g x = (if label_fun (resolve_labels R i (lab s)) = f then h (dat s) else [])"
    and empty: "h [] = []"
  shows "concat (map g (select_indexed_ids R X i idx vals (hm_keys streams) ms)) =
    (if selects X ms f then h (series_view R i lab dat streams f) else [])"
proof (rule series_view_cases [OF wf, where f = f and dat = dat])
  let ?sids = "select_indexed_ids R X i idx vals (hm_keys streams) ms"
  let ?lf = "\<lambda>s. label_fun (resolve_labels R i (lab s))"
  have sids: "x \<in> set ?sids \<longleftrightarrow> (\<exists>s. hm_get streams x = Some s \<and> selects X ms (?lf s))" for x
    using select_stored_ids [OF laws wf valid] by (simp add: label_holds_iff selects_def list_all_iff)
  {
    fix x s
    assume item: "hm_get streams x = Some s" "f = ?lf s" "series_view R i lab dat streams f = dat s"
    have other: "g y = []" if y: "y \<in> set ?sids" "y \<noteq> x" for y
    proof -
      from y(1) obtain t where t: "hm_get streams y = Some t" unfolding sids by (elim exE conjE)
      have "?lf t \<noteq> f"
      proof
        assume "?lf t = f"
        then have "?lf t = ?lf s" using item(2) by simp
        from same_labels_same_id [OF wf item(1) t this] y(2) show False by contradiction
      qed
      then show ?thesis by (simp add: g [OF t])
    qed
    have single: "concat (map g ?sids) = (if x \<in> set ?sids then g x else [])"
      by (rule concat_single [OF select_distinct [OF laws wf valid]]) (rule other)
    have "x \<in> set ?sids \<longleftrightarrow> selects X ms f" using sids [of x] item(1,2) by simp
    then show "concat (map g ?sids) = (if selects X ms f then h (series_view R i lab dat streams f) else [])"
      unfolding single item(3) using item(2) by (simp add: g [OF item(1)])
  next
    assume none: "\<And>x s. hm_get streams x = Some s \<Longrightarrow> ?lf s \<noteq> f" "series_view R i lab dat streams f = []"
    have "g y = []" if y: "y \<in> set ?sids" for y
    proof -
      from y obtain t where t: "hm_get streams y = Some t" unfolding sids by (elim exE conjE)
      with none(1) show ?thesis by (simp add: g [OF t])
    qed
    then show "concat (map g ?sids) = (if selects X ms f then h (series_view R i lab dat streams f) else [])"
      by (simp add: none(2) empty)
  }
qed

end
