(* ===== verification/Rust_Text.thy ===== *)
theory Rust_Text
  imports Prelude
begin

text \<open>
  The text operations of the Rust standard library the source uses: decimal and hexadecimal
  rendering, \<open>str::parse\<close> for integers, \<open>u8::from_str_radix(_, 16)\<close>, \<open>join\<close>, prefix tests and
  trimming. Text is a list of bytes; character classes are those of ASCII.
\<close>

section \<open>Characters\<close>

definition digit_char :: "nat \<Rightarrow> char" where
  "digit_char n = char_of (48 + n)"

definition is_ascii_digit :: "char \<Rightarrow> bool" where
  "is_ascii_digit c \<longleftrightarrow> 48 \<le> (of_char c :: nat) \<and> (of_char c :: nat) \<le> 57"

definition digit_val :: "char \<Rightarrow> nat" where
  "digit_val c = of_char c - 48"

definition is_alpha :: "char \<Rightarrow> bool" where
  "is_alpha c \<longleftrightarrow> (65 \<le> (of_char c :: nat) \<and> (of_char c :: nat) \<le> 90) \<or>
     (97 \<le> (of_char c :: nat) \<and> (of_char c :: nat) \<le> 122)"

definition is_alphanumeric :: "char \<Rightarrow> bool" where
  "is_alphanumeric c \<longleftrightarrow> is_alpha c \<or> is_ascii_digit c"

text \<open>Tab, line feed, vertical tab, form feed, carriage return and space.\<close>

definition is_whitespace :: "char \<Rightarrow> bool" where
  "is_whitespace c \<longleftrightarrow> (9 \<le> (of_char c :: nat) \<and> (of_char c :: nat) \<le> 13) \<or> of_char c = (32 :: nat)"

lemma of_char_digit_char: "n < 10 \<Longrightarrow> of_char (digit_char n) = 48 + n"
  by (simp add: digit_char_def)

lemma digit_char_digit [simp]: "n < 10 \<Longrightarrow> is_ascii_digit (digit_char n)"
  by (simp add: is_ascii_digit_def of_char_digit_char)

lemma digit_val_digit_char [simp]: "n < 10 \<Longrightarrow> digit_val (digit_char n) = n"
  by (simp add: digit_val_def of_char_digit_char)

section \<open>Trimming, prefixes, joining\<close>

definition trim_start :: "string \<Rightarrow> string" where
  "trim_start s = dropWhile is_whitespace s"

definition trim_end :: "string \<Rightarrow> string" where
  "trim_end s = rev (dropWhile is_whitespace (rev s))"

definition trim :: "string \<Rightarrow> string" where
  "trim s = trim_end (trim_start s)"

fun strip_prefix :: "string \<Rightarrow> string \<Rightarrow> string option" where
  "strip_prefix [] s = Some s"
| "strip_prefix (p # ps) [] = None"
| "strip_prefix (p # ps) (c # cs) = (if p = c then strip_prefix ps cs else None)"

definition starts_with :: "string \<Rightarrow> string \<Rightarrow> bool" where
  "starts_with s p \<longleftrightarrow> strip_prefix p s \<noteq> None"

definition strip_suffix :: "string \<Rightarrow> string \<Rightarrow> string option" where
  "strip_suffix p s = map_option rev (strip_prefix (rev p) (rev s))"

definition ends_with :: "string \<Rightarrow> string \<Rightarrow> bool" where
  "ends_with s p \<longleftrightarrow> strip_suffix p s \<noteq> None"

fun contains :: "string \<Rightarrow> string \<Rightarrow> bool" where
  "contains [] p \<longleftrightarrow> p = []"
| "contains (c # cs) p \<longleftrightarrow> starts_with (c # cs) p \<or> contains cs p"

fun join :: "string \<Rightarrow> string list \<Rightarrow> string" where
  "join sep [] = []"
| "join sep [s] = s"
| "join sep (s # ss) = s @ sep @ join sep ss"

lemma strip_prefix_append [simp]: "strip_prefix p (p @ s) = Some s"
  by (induction p) auto

lemma strip_prefix_Some: "strip_prefix p s = Some r \<longleftrightarrow> s = p @ r"
  by (induction p s rule: strip_prefix.induct) auto

lemma length_trim_start [simp]: "length (trim_start s) \<le> length s"
  by (simp add: trim_start_def length_dropWhile_le)

section \<open>Decimal\<close>

fun nat_to_string :: "nat \<Rightarrow> string" where
  "nat_to_string n =
     (if n < 10 then [digit_char n] else nat_to_string (n div 10) @ [digit_char (n mod 10)])"

declare nat_to_string.simps [simp del]

definition int_to_string :: "int \<Rightarrow> string" where
  "int_to_string i =
     (if i < 0 then CHR ''-'' # nat_to_string (nat (- i)) else nat_to_string (nat i))"

definition digits_value :: "string \<Rightarrow> nat" where
  "digits_value s = foldl (\<lambda>acc c. 10 * acc + digit_val c) 0 s"

definition parse_digits :: "string \<Rightarrow> nat option" where
  "parse_digits s = (if s \<noteq> [] \<and> list_all is_ascii_digit s then Some (digits_value s) else None)"

text \<open>\<open>str::parse\<close> for \<open>u64\<close>: an optional plus sign, digits, and a range check.\<close>

definition parse_u64 :: "string \<Rightarrow> u64 option" where
  "parse_u64 s =
     (case parse_digits (case s of c # cs \<Rightarrow> if c = CHR ''+'' then cs else s | [] \<Rightarrow> s) of
        None \<Rightarrow> None
      | Some n \<Rightarrow> if n \<le> u64_max then Some n else None)"

definition parse_i64 :: "string \<Rightarrow> i64 option" where
  "parse_i64 s =
     (let (neg, body) = (case s of
            c # cs \<Rightarrow> if c = CHR ''-'' then (True, cs)
                      else if c = CHR ''+'' then (False, cs) else (False, s)
          | [] \<Rightarrow> (False, s))
      in case parse_digits body of
           None \<Rightarrow> None
         | Some n \<Rightarrow> (let i = (if neg then - int n else int n) in if in_i64 i then Some i else None))"

lemma nat_to_string_digits: "list_all is_ascii_digit (nat_to_string n)"
  by (induction n rule: nat_to_string.induct) (subst nat_to_string.simps, simp)

lemma nat_to_string_nonempty [simp]: "nat_to_string n \<noteq> []"
  by (subst nat_to_string.simps) simp

lemma digits_value_nat_to_string: "digits_value (nat_to_string n) = n"
proof (induction n rule: nat_to_string.induct)
  case (1 n)
  show ?case
  proof (cases "n < 10")
    case True
    then show ?thesis by (subst nat_to_string.simps) (simp add: digits_value_def)
  next
    case False
    with 1 show ?thesis by (subst nat_to_string.simps) (simp add: digits_value_def)
  qed
qed

lemma parse_digits_nat_to_string [simp]: "parse_digits (nat_to_string n) = Some n"
  by (simp add: parse_digits_def nat_to_string_digits digits_value_nat_to_string)

lemma nat_to_string_hd: "nat_to_string n = c # cs \<Longrightarrow> is_ascii_digit c"
  using nat_to_string_digits [of n] by simp

lemma parse_u64_nat_to_string: "n \<le> u64_max \<Longrightarrow> parse_u64 (nat_to_string n) = Some n"
  using nat_to_string_hd [of n] parse_digits_nat_to_string [of n]
  by (cases "nat_to_string n") (auto simp: parse_u64_def is_ascii_digit_def)

lemma parse_i64_int_to_string: "in_i64 i \<Longrightarrow> parse_i64 (int_to_string i) = Some i"
  using nat_to_string_hd [of "nat i"] parse_digits_nat_to_string [of "nat i"]
  by (cases "nat_to_string (nat i)")
    (auto simp: parse_i64_def int_to_string_def Let_def is_ascii_digit_def)

section \<open>Hexadecimal\<close>

definition hex_digit :: "nat \<Rightarrow> char" where
  "hex_digit n = char_of (if n < 10 then 48 + n else 87 + n)"

definition hex_byte :: "u8 \<Rightarrow> string" where
  "hex_byte b = [hex_digit (unat b div 16), hex_digit (unat b mod 16)]"

definition hex_encode :: "u8 list \<Rightarrow> string" where
  "hex_encode bs = concat (map hex_byte bs)"

definition hex_digit_val :: "char \<Rightarrow> nat option" where
  "hex_digit_val c =
     (let n = of_char c :: nat
      in if 48 \<le> n \<and> n \<le> 57 then Some (n - 48)
         else if 97 \<le> n \<and> n \<le> 102 then Some (n - 87)
         else if 65 \<le> n \<and> n \<le> 70 then Some (n - 55) else None)"

lemma length_hex_encode [simp]: "length (hex_encode bs) = 2 * length bs"
  by (induction bs) (simp_all add: hex_encode_def hex_byte_def)

lemma hex_digit_val_hex_digit [simp]: "n < 16 \<Longrightarrow> hex_digit_val (hex_digit n) = Some n"
  by (auto simp: hex_digit_val_def hex_digit_def Let_def)

text \<open>\<open>u8::from_str_radix(_, 16)\<close> on two bytes, where a leading plus sign is a sign.\<close>

definition hex_pair :: "char \<Rightarrow> char \<Rightarrow> u8 option" where
  "hex_pair a b =
     (if a = CHR ''+'' then map_option word_of_nat (hex_digit_val b)
      else case (hex_digit_val a, hex_digit_val b) of
             (Some x, Some y) \<Rightarrow> Some (word_of_nat (16 * x + y))
           | _ \<Rightarrow> None)"

fun hex_pairs :: "string \<Rightarrow> u8 list option" where
  "hex_pairs [] = Some []"
| "hex_pairs [_] = None"
| "hex_pairs (a # b # cs) =
     (case hex_pair a b of None \<Rightarrow> None | Some x \<Rightarrow> map_option (Cons x) (hex_pairs cs))"

lemma hex_pair_byte: "hex_pair (hex_digit (unat (b :: u8) div 16)) (hex_digit (unat b mod 16)) = Some b"
proof -
  have "unat b < 2 ^ LENGTH(8)" by (rule unsigned_less)
  then have "unat b div 16 < 16" by simp
  moreover have "hex_digit n \<noteq> CHR ''+''" if "n < 16" for n
  proof
    assume "hex_digit n = CHR ''+''"
    then have "hex_digit_val (hex_digit n) = hex_digit_val (CHR ''+'')" by simp
    moreover have "hex_digit_val (CHR ''+'') = None" by (simp add: hex_digit_val_def)
    ultimately show False using that by simp
  qed
  ultimately show ?thesis by (simp add: hex_pair_def)
qed

lemma hex_pairs_encode: "hex_pairs (hex_encode bs) = Some bs"
  by (induction bs) (simp_all add: hex_encode_def hex_byte_def hex_pair_byte)

text \<open>\<open>format!("{:02X}")\<close> for each byte, and \<open>to_lowercase\<close>.\<close>

definition hex_digit_upper :: "nat \<Rightarrow> char" where
  "hex_digit_upper n = char_of (if n < 10 then 48 + n else 55 + n)"

definition hex_encode_upper :: "u8 list \<Rightarrow> string" where
  "hex_encode_upper bs = concat (map (\<lambda>b. [hex_digit_upper (unat b div 16), hex_digit_upper (unat b mod 16)]) bs)"

definition ascii_lower :: "char \<Rightarrow> char" where
  "ascii_lower c = (if 65 \<le> (of_char c :: nat) \<and> (of_char c :: nat) \<le> 90 then char_of (of_char c + 32 :: nat) else c)"

definition to_lowercase :: "string \<Rightarrow> string" where
  "to_lowercase s = map ascii_lower s"

lemma ascii_lower_hex: "n < 16 \<Longrightarrow> ascii_lower (hex_digit_upper n) = hex_digit n"
  by (auto simp: ascii_lower_def hex_digit_upper_def hex_digit_def)

lemma byte_digits: "unat (b :: u8) div 16 < 16" "unat b mod 16 < 16"
  proof -
  have "unat b < 256" using unsigned_less [of b] by simp
  then show "unat b div 16 < 16" "unat b mod 16 < 16" by (simp_all add: less_mult_imp_div_less)
qed

lemma to_lowercase_hex [simp]: "to_lowercase (hex_encode_upper bs) = hex_encode bs"
  by (induction bs) (simp_all add: to_lowercase_def hex_encode_upper_def hex_encode_def hex_byte_def
    ascii_lower_hex byte_digits)

end
