(* ===== verification/Attribute_Value.thy ===== *)
theory Attribute_Value
  imports Externals Rust_Text
begin

text \<open>
  \<open>AttributeValue\<close> of \<open>src/store/trace_store.rs\<close>, the typed attribute of log entries, spans,
  span events and links, with the rendering that both the log and the trace store define.
  Strings are interned; the rendering of a float is the standard library's, a parameter.
\<close>

type_synonym trace_id = "u8 list"
type_synonym span_id = "u8 list"

datatype attribute_value =
    AString spur
  | AInt i64
  | AFloat f64
  | ABool bool
  | AArray "attribute_value list"
  | ABytes "u8 list"
  | AKeyValueList "(spur \<times> attribute_value) list"

type_synonym attributes = "(spur \<times> attribute_value) list"

definition bool_to_string :: "bool \<Rightarrow> string" where
  "bool_to_string b = (if b then ''true'' else ''false'')"

fun resolve_attribute_value ::
  "'i rodeo_ops \<Rightarrow> (f64 \<Rightarrow> string) \<Rightarrow> 'i \<Rightarrow> attribute_value \<Rightarrow> string" where
  "resolve_attribute_value R fmt i (AString s) = rd_resolve R i s"
| "resolve_attribute_value R fmt i (AInt n) = int_to_string n"
| "resolve_attribute_value R fmt i (AFloat f) = fmt f"
| "resolve_attribute_value R fmt i (ABool b) = bool_to_string b"
| "resolve_attribute_value R fmt i (AArray items) =
     ''['' @ join '', '' (map (resolve_attribute_value R fmt i) items) @ '']''"
| "resolve_attribute_value R fmt i (ABytes b) = ''0x'' @ hex_encode b"
| "resolve_attribute_value R fmt i (AKeyValueList pairs) =
     ''{'' @ join '', '' (map (\<lambda>(k, v). rd_resolve R i k @ ''='' @ resolve_attribute_value R fmt i v) pairs)
       @ ''}''"

text \<open>Every interned string of a value is known to the interner.\<close>

fun attribute_ok :: "'i rodeo_ops \<Rightarrow> 'i \<Rightarrow> attribute_value \<Rightarrow> bool" where
  "attribute_ok R i (AString s) = spur_ok R i s"
| "attribute_ok R i (AArray items) = (\<forall>v \<in> set items. attribute_ok R i v)"
| "attribute_ok R i (AKeyValueList pairs) =
     (\<forall>p \<in> set pairs. spur_ok R i (fst p) \<and> attribute_ok R i (snd p))"
| "attribute_ok R i _ = True"

text \<open>Rendering does not change when the interner grows.\<close>

lemma resolve_attribute_value_extends:
  assumes "rodeo_laws R" and "rd_extends R i j" and "attribute_ok R i v"
  shows "attribute_ok R j v \<and> resolve_attribute_value R fmt j v = resolve_attribute_value R fmt i v"
  using assms(3)
proof (induction v)
  case (AArray items)
  then show ?case by (simp cong: map_cong)
next
  case (AKeyValueList pairs)
  have "attribute_ok R j v \<and> resolve_attribute_value R fmt j v = resolve_attribute_value R fmt i v"
    if "(k, v) \<in> set pairs" for k v
    using AKeyValueList.IH [of "(k, v)" v] AKeyValueList.prems that by fastforce
  moreover have "spur_ok R j k \<and> rd_resolve R j k = rd_resolve R i k" if "(k, v) \<in> set pairs" for k v
    using AKeyValueList.prems that spur_ok_extends [OF assms(1,2)] by fastforce
  ultimately show ?case by (auto intro!: arg_cong [where f = "join _"])
qed (auto simp: spur_ok_extends [OF assms(1,2)])

end
