(* ===== verification/Retention.thy ===== *)
theory Retention
  imports Prelude
begin

text \<open>
  The contract that the eviction task (\<open>run_eviction\<close> in \<open>src/store/mod.rs\<close>) relies on, stated
  once for the three stores: eviction by age removes exactly what is older than the cutoff,
  eviction by count respects the limit, only removes, and leaves a store within the limit alone.
\<close>

locale retained_store =
  fixes wf :: "'s \<Rightarrow> bool"
    and items :: "'s \<Rightarrow> 'k \<Rightarrow> 'e list"
    and stamp :: "'e \<Rightarrow> int"
    and size_of :: "'s \<Rightarrow> nat"
    and evict_before :: "int \<Rightarrow> 's \<Rightarrow> 's"
    and evict_to_max :: "nat \<Rightarrow> 's \<Rightarrow> 's"
  assumes before_wf: "wf s \<Longrightarrow> wf (evict_before c s)"
    and before_items: "wf s \<Longrightarrow> items (evict_before c s) k = filter (\<lambda>e. c \<le> stamp e) (items s k)"
    and max_wf: "wf s \<Longrightarrow> wf (evict_to_max n s)"
    and max_size: "wf s \<Longrightarrow> size_of (evict_to_max n s) \<le> n"
    and max_items: "wf s \<Longrightarrow> set (items (evict_to_max n s) k) \<subseteq> set (items s k)"
    and before_size: "wf s \<Longrightarrow> size_of (evict_before c s) \<le> size_of s"
    and max_fits: "size_of s \<le> n \<Longrightarrow> evict_to_max n s = s"
begin

text \<open>One pass of the eviction task over a store.\<close>

definition sweep :: "int \<Rightarrow> nat \<Rightarrow> 's \<Rightarrow> 's" where
  "sweep c n s = evict_to_max n (evict_before c s)"

lemma sweep_wf: "wf s \<Longrightarrow> wf (sweep c n s)"
  by (simp add: sweep_def before_wf max_wf)

lemma sweep_size: "wf s \<Longrightarrow> size_of (sweep c n s) \<le> n"
  by (simp add: sweep_def before_wf max_size)

lemma sweep_items:
  assumes "wf s" and "e \<in> set (items (sweep c n s) k)"
  shows "e \<in> set (items s k) \<and> c \<le> stamp e"
  using max_items [OF before_wf [OF assms(1)]] assms before_items unfolding sweep_def by fastforce

lemma sweep_within_limits:
  assumes "wf s" and "size_of (evict_before c s) \<le> n"
  shows "items (sweep c n s) k = filter (\<lambda>e. c \<le> stamp e) (items s k)"
  using assms by (simp add: sweep_def max_fits before_items)

text \<open>A second pass with the same cutoff and limit finds nothing to remove.\<close>

lemma sweep_again:
  assumes "wf s"
  shows "items (sweep c n (sweep c n s)) k = items (sweep c n s) k"
proof -
  have "size_of (evict_before c (sweep c n s)) \<le> n"
    using before_size [OF sweep_wf [OF assms]] sweep_size [OF assms] le_trans by blast
  then have "items (sweep c n (sweep c n s)) k = filter (\<lambda>e. c \<le> stamp e) (items (sweep c n s) k)"
    by (rule sweep_within_limits [OF sweep_wf [OF assms]])
  also have "\<dots> = items (sweep c n s) k"
    using sweep_items [OF assms] by (intro filter_True) blast
  finally show ?thesis .
qed

end

end
