(* ===== verification/Log_Store_Correct.thy ===== *)
theory Log_Store_Correct
  imports Log_Store Retention
begin

text \<open>
  Correctness of the log store: the invariant \<open>log_wf\<close> and its preservation by every operation,
  the abstraction \<open>log_view\<close>, what each operation does to it, and the trace index.
\<close>

section \<open>The invariant\<close>

definition log_labelled :: "'i rodeo_ops \<Rightarrow> 'i log_store \<Rightarrow> bool" where
  "log_labelled R s \<longleftrightarrow>
     labelled_wf R (lg_interner s) ls_labels (lg_streams s) (lg_stream_ids s)
       (lg_next_stream_id s) (lg_label_index s) (lg_label_values s)"

definition log_count :: "(u64, log_stream) hash_map \<Rightarrow> nat" where
  "log_count streams = sum_list (map (\<lambda>st. length (ls_entries st)) (hm_values streams))"

definition entries_sorted :: "(u64, log_stream) hash_map \<Rightarrow> bool" where
  "entries_sorted streams \<longleftrightarrow>
     (\<forall>x st. hm_get streams x = Some st \<longrightarrow> sorted (map le_timestamp_ns (ls_entries st)))"

text \<open>The part of the invariant that does not mention the trace index.\<close>

definition log_base :: "'i rodeo_ops \<Rightarrow> 'i log_store \<Rightarrow> bool" where
  "log_base R s \<longleftrightarrow> log_labelled R s \<and> entries_sorted (lg_streams s) \<and>
     lg_total_entries s = log_count (lg_streams s)"

text \<open>
  The trace index: for the streams that exist it is exact. A removed stream may linger in it
  (\<open>clear_service\<close> leaves it there), but never an id that is still to be given out.
\<close>

definition has_trace :: "log_stream \<Rightarrow> trace_id \<Rightarrow> bool" where
  "has_trace st t \<longleftrightarrow> (\<exists>e \<in> set (ls_entries st). le_trace_id e = Some t)"

definition tids :: "(trace_id, u64 hash_set) hash_map \<Rightarrow> trace_id \<Rightarrow> u64 list" where
  "tids m t = (case hm_get m t of None \<Rightarrow> [] | Some xs \<Rightarrow> xs)"

definition traces_ok :: "'i log_store \<Rightarrow> bool" where
  "traces_ok s \<longleftrightarrow>
     (\<forall>t. distinct (tids (lg_trace_index s) t)) \<and>
     (\<forall>t. \<forall>x \<in> set (tids (lg_trace_index s) t). x < lg_next_stream_id s) \<and>
     (\<forall>x st t. hm_get (lg_streams s) x = Some st \<longrightarrow>
        (x \<in> set (tids (lg_trace_index s) t) \<longleftrightarrow> has_trace st t))"

definition log_wf :: "'i rodeo_ops \<Rightarrow> 'i log_store \<Rightarrow> bool" where
  "log_wf R s \<longleftrightarrow> log_base R s \<and> traces_ok s"

definition log_view :: "'i rodeo_ops \<Rightarrow> 'i log_store \<Rightarrow> (string \<Rightarrow> string list) \<Rightarrow> log_entry list" where
  "log_view R s = series_view R (lg_interner s) ls_labels ls_entries (lg_streams s)"

lemma log_baseD:
  assumes "log_base R s"
  shows "log_labelled R s" and "entries_sorted (lg_streams s)"
    and "lg_total_entries s = log_count (lg_streams s)" and "hm_wf (lg_streams s)"
proof -
  show "log_labelled R s" "entries_sorted (lg_streams s)"
    "lg_total_entries s = log_count (lg_streams s)"
    using assms unfolding log_base_def by blast+
  then show "hm_wf (lg_streams s)" unfolding log_labelled_def by (intro labelled_wfD(1))
qed

lemma log_base_wf: "log_wf R s \<Longrightarrow> log_base R s"
  by (simp add: log_wf_def)

lemma log_new_wf: "log_wf R (log_new R)"
  by (simp add: log_wf_def log_base_def log_labelled_def log_new_def entries_sorted_def
      log_count_def traces_ok_def tids_def)

lemma log_clear_wf: "log_wf R (log_clear R s)"
  by (simp add: log_wf_def log_base_def log_labelled_def log_clear_def entries_sorted_def
      log_count_def traces_ok_def tids_def)

section \<open>The trace index\<close>

lemma index_traces_Cons:
  "index_traces x (e # es) m =
     index_traces x es (case le_trace_id e of None \<Rightarrow> m | Some t \<Rightarrow> hm_upsert [] t (hs_insert x) m)"
  by (simp add: index_traces_def)

lemma index_traces_spec:
  "(y \<in> set (tids (index_traces x es m) t) \<longleftrightarrow>
      y \<in> set (tids m t) \<or> y = x \<and> (\<exists>e \<in> set es. le_trace_id e = Some t)) \<and>
   (distinct (tids m t) \<longrightarrow> distinct (tids (index_traces x es m) t))"
proof (induction es arbitrary: m)
  case Nil
  show ?case by (simp add: index_traces_def)
next
  case (Cons e es)
  have "tids (hm_upsert [] t' (hs_insert x) m) t =
      (if t = t' then hs_insert x (tids m t) else tids m t)" for t'
    by (auto simp: tids_def hm_simps split: option.split)
  with Cons show ?case
    by (cases "le_trace_id e") (auto simp: index_traces_Cons)
qed

lemma fold_index_traces_spec:
  "(y \<in> set (tids (fold (\<lambda>(x, st). index_traces x (ls_entries st)) streams m) t) \<longleftrightarrow>
      y \<in> set (tids m t) \<or> (\<exists>st. (y, st) \<in> set streams \<and> has_trace st t)) \<and>
   (distinct (tids m t) \<longrightarrow>
      distinct (tids (fold (\<lambda>(x, st). index_traces x (ls_entries st)) streams m) t))"
proof (induction streams arbitrary: m)
  case Nil
  show ?case by simp
next
  case (Cons p streams)
  obtain x st where p: "p = (x, st)" by force
  note spec = index_traces_spec [where x = x and es = "ls_entries st" and m = m and t = t]
  show ?case
    using Cons.IH [of "index_traces x (ls_entries st) m"] spec [of y] spec
    by (auto simp: p has_trace_def)
qed

lemma rebuild_trace_index_wf:
  assumes "log_base R s"
  shows "log_wf R (rebuild_trace_index s)"
proof -
  note D = log_baseD [OF assms]
  let ?m = "fold (\<lambda>(x, st). index_traces x (ls_entries st)) (lg_streams s) []"
  have mem: "y \<in> set (tids ?m t) \<longleftrightarrow> (\<exists>st. hm_get (lg_streams s) y = Some st \<and> has_trace st t)" for y t
    using fold_index_traces_spec [where streams = "lg_streams s" and m = "[]" and y = y and t = t]
    by (simp add: tids_def hm_mem_iff [OF D(4)])
  have "distinct (tids ?m t)" for t
    using fold_index_traces_spec [where streams = "lg_streams s" and m = "[]" and t = t]
    by (simp add: tids_def)
  moreover have "x < lg_next_stream_id s" if "hm_get (lg_streams s) x = Some st" for x st
    using D(1) that unfolding log_labelled_def by (rule labelled_wfD(4))
  then have "\<forall>x \<in> set (tids ?m t). x < lg_next_stream_id s" for t
    unfolding Ball_def mem by blast
  ultimately have "traces_ok (rebuild_trace_index s)"
    by (simp add: traces_ok_def rebuild_trace_index_def) (simp add: mem)
  moreover have "log_base R (rebuild_trace_index s)"
    using assms by (simp add: rebuild_trace_index_def log_base_def log_labelled_def)
  ultimately show ?thesis by (simp add: log_wf_def)
qed

section \<open>Dropping a stream\<close>

lemma log_drop_stream_fields [simp]:
  "lg_streams (log_drop_stream x s) = hm_remove x (lg_streams s)"
  "lg_interner (log_drop_stream x s) = lg_interner s"
  "lg_total_entries (log_drop_stream x s) = lg_total_entries s"
  "lg_next_stream_id (log_drop_stream x s) = lg_next_stream_id s"
  "lg_trace_index (log_drop_stream x s) = lg_trace_index s"
  by (auto simp: log_drop_stream_def delete_idem map_of_eq_None_iff split: option.split prod.split)

lemma log_drop_stream_labelled:
  assumes "log_labelled R s"
  shows "log_labelled R (log_drop_stream x s)"
proof (cases "hm_get (lg_streams s) x")
  case None
  with assms show ?thesis by (simp add: log_drop_stream_def)
next
  case (Some st)
  obtain idx vals where rem: "remove_from_label_indexes (lg_label_index s) (lg_label_values s)
      (ls_labels st) x = (idx, vals)" by force
  from assms [unfolded log_labelled_def] Some rem
  have "labelled_wf R (lg_interner s) ls_labels (hm_remove x (lg_streams s))
      (hm_remove (ls_labels st) (lg_stream_ids s)) (lg_next_stream_id s) idx vals"
    by (rule labelled_wf_drop)
  with Some rem show ?thesis by (simp add: log_drop_stream_def log_labelled_def)
qed

lemma entries_sorted_remove: "entries_sorted streams \<Longrightarrow> entries_sorted (hm_remove x streams)"
  by (simp add: entries_sorted_def hm_simps)

lemma log_count_remove:
  assumes "hm_wf streams" and "hm_get streams x = Some st"
  shows "log_count streams = length (ls_entries st) + log_count (hm_remove x streams)"
  unfolding log_count_def by (rule sum_values_remove [OF assms])

lemma log_drop_empty_base:
  assumes "log_base R s" and "\<And>st. hm_get (lg_streams s) x = Some st \<Longrightarrow> ls_entries st = []"
  shows "log_base R (log_drop_stream x s)"
proof -
  note D = log_baseD [OF assms(1)]
  have "log_count (hm_remove x (lg_streams s)) = log_count (lg_streams s)"
  proof (cases "hm_get (lg_streams s) x")
    case None
    then show ?thesis by (simp add: delete_idem map_of_eq_None_iff)
  next
    case (Some st)
    with log_count_remove [OF D(4) Some] assms(2) show ?thesis by simp
  qed
  with D(3) entries_sorted_remove [OF D(2)] log_drop_stream_labelled [OF D(1)] show ?thesis
    by (simp add: log_base_def)
qed

lemma fold_log_drop:
  assumes "log_base R s"
    and "\<forall>x \<in> set xs. \<forall>st. hm_get (lg_streams s) x = Some st \<longrightarrow> ls_entries st = []"
  shows "log_base R (fold log_drop_stream xs s) \<and>
    hm_get (lg_streams (fold log_drop_stream xs s)) =
      (\<lambda>x. if x \<in> set xs then None else hm_get (lg_streams s) x) \<and>
    lg_interner (fold log_drop_stream xs s) = lg_interner s \<and>
    lg_total_entries (fold log_drop_stream xs s) = lg_total_entries s"
  using assms
proof (induction xs arbitrary: s)
  case Nil
  then show ?case by simp
next
  case (Cons x xs)
  have base: "log_base R (log_drop_stream x s)"
    using Cons.prems by (intro log_drop_empty_base) auto
  have "\<forall>y \<in> set xs. \<forall>st. hm_get (lg_streams (log_drop_stream x s)) y = Some st \<longrightarrow> ls_entries st = []"
    using Cons.prems(2) by (simp add: hm_simps)
  from Cons.IH [OF base this] show ?case
    by (auto simp: fun_eq_iff hm_simps)
qed

section \<open>Ingest\<close>

lemma entries_sortedD:
  "entries_sorted streams \<Longrightarrow> hm_get streams x = Some st \<Longrightarrow> sorted (map le_timestamp_ns (ls_entries st))"
  unfolding entries_sorted_def by blast

lemma log_append_sorts:
  assumes "sorted (map le_timestamp_ns (ls_entries st))"
  shows "log_append entries st = st\<lparr>ls_entries := sort_key le_timestamp_ns (ls_entries st @ entries)\<rparr>"
  using append_batch_sorts [OF assms, of entries] by (simp add: log_append_def Let_def)

text \<open>Finding or allocating the stream changes neither view, nor count, nor trace index.\<close>

lemma log_allocate_spec:
  fixes s :: "'i log_store"
  assumes laws: "rodeo_laws R" and wf: "log_base R s" and room: "lg_next_stream_id s < u64_max"
    and intern: "intern_label_pairs R (lg_interner s) labels = (i, ls)"
  defines "s1 \<equiv> s\<lparr>lg_interner := i, lg_label_values := track_label_values (lg_label_values s) ls\<rparr>"
  assumes alloc: "log_allocate ls s1 = (s2, x)"
  obtains st where "log_base R s2" and "traces_ok s \<longrightarrow> traces_ok s2" and "log_view R s2 = log_view R s"
    and "hm_get (lg_streams s2) x = Some st"
    and "label_fun (resolve_labels R (lg_interner s2) (ls_labels st)) = label_fun labels"
proof -
  note base = log_baseD [OF wf]
  note spec = intern_label_pairs_spec [OF laws intern]
  note key = intern_label_pairs_key [OF laws intern]
  have wf_i: "labelled_wf R i ls_labels (lg_streams s) (lg_stream_ids s)
      (lg_next_stream_id s) (lg_label_index s) (lg_label_values s)"
    using base(1) unfolding log_labelled_def by (rule labelled_wf_extends [OF laws spec(1)])
  have view_i: "log_view R s = series_view R i ls_labels ls_entries (lg_streams s)"
    using base(1) series_view_extends [OF laws spec(1)]
    unfolding log_labelled_def log_view_def by metis
  show ?thesis
  proof (cases "hm_get (lg_stream_ids s) ls")
    case (Some y)
    then have res: "s2 = s1" "x = y"
      using alloc by (simp_all add: log_allocate_def s1_def)
    from wf_i Some obtain st where st: "hm_get (lg_streams s) y = Some st" "ls_labels st = ls"
      and track: "labelled_wf R i ls_labels (lg_streams s) (lg_stream_ids s) (lg_next_stream_id s)
        (lg_label_index s) (track_label_values (lg_label_values s) ls)"
      by (rule labelled_known)
    from track have "log_labelled R s2" by (simp add: res s1_def log_labelled_def)
    with base have "log_base R s2"
      by (simp add: log_base_def res s1_def)
    moreover have "traces_ok s \<longrightarrow> traces_ok s2"
      by (simp add: traces_ok_def res s1_def)
    moreover have "log_view R s2 = log_view R s"
      by (simp add: view_i) (simp add: log_view_def res s1_def)
    ultimately show ?thesis
      using that [of st] st key by (simp add: res s1_def)
  next
    case None
    let ?n = "lg_next_stream_id s"
    let ?st = "\<lparr>ls_labels = ls, ls_entries = []\<rparr>"
    have n: "u64_saturating_add ?n 1 = Suc ?n"
      using room by (simp add: u64_saturating_add_def)
    have res: "x = ?n" "s2 = s1\<lparr>lg_next_stream_id := Suc ?n,
        lg_stream_ids := hm_insert ls ?n (lg_stream_ids s),
        lg_streams := hm_insert ?n ?st (lg_streams s),
        lg_label_index := index_insert (lg_label_index s) ls ?n\<rparr>"
      using alloc None n by (auto simp: log_allocate_def s1_def Let_def)
    have new: "ls_labels ?st = ls" "ls_entries ?st = []" by simp_all
    note fresh = labelled_fresh [where lab = ls_labels and dat = ls_entries and s = ?st, OF wf_i None new(1) spec(2,4) new(2)]
    note lwf = fresh(1) and none = fresh(2)
    have streams: "lg_streams s2 = hm_insert ?n ?st (lg_streams s)" "lg_interner s2 = i"
      by (simp_all add: res s1_def)
    have "log_labelled R s2"
      using lwf by (simp add: log_labelled_def res s1_def)
    moreover have "entries_sorted (lg_streams s2)"
      using base(2) by (simp add: streams entries_sorted_def hm_simps)
    moreover have "lg_total_entries s2 = log_count (lg_streams s2)"
      using base(3) sum_values_insert_new [OF none, of "\<lambda>st. length (ls_entries st)" ?st]
      by (simp add: res s1_def log_count_def)
    moreover have "traces_ok s \<longrightarrow> traces_ok s2"
    proof
      assume tr: "traces_ok s"
      have "?n \<notin> set (tids (lg_trace_index s) t)" for t
        using tr unfolding traces_ok_def by blast
      moreover have "x < Suc ?n" if "x \<in> set (tids (lg_trace_index s) t)" for x t
        using tr that less_SucI unfolding traces_ok_def by blast
      ultimately show "traces_ok s2"
        using tr by (auto simp: traces_ok_def res s1_def hm_simps has_trace_def)
    qed
    moreover have "log_view R s2 = log_view R s"
      using fresh(3) by (simp add: view_i) (simp add: log_view_def streams)
    ultimately show ?thesis
      using that [of ?st] key by (simp add: log_base_def streams res(1) hm_simps)
  qed
qed

lemma log_ingest_correct:
  assumes laws: "rodeo_laws R" and wf: "log_base R s" and room: "lg_next_stream_id s < u64_max"
  shows "log_base R (log_ingest_stream R labels entries s) \<and>
    (traces_ok s \<longrightarrow> traces_ok (log_ingest_stream R labels entries s)) \<and>
    log_view R (log_ingest_stream R labels entries s) =
      (log_view R s)(label_fun labels :=
        sort_key le_timestamp_ns (log_view R s (label_fun labels) @ entries))"
proof -
  obtain i ls where intern: "intern_label_pairs R (lg_interner s) labels = (i, ls)" by force
  let ?s1 = "s\<lparr>lg_interner := i, lg_label_values := track_label_values (lg_label_values s) ls\<rparr>"
  obtain s2 x where alloc: "log_allocate ls ?s1 = (s2, x)" by force
  from laws wf room intern alloc obtain st where wf2: "log_base R s2" and tr2: "traces_ok s \<longrightarrow> traces_ok s2" and view2: "log_view R s2 = log_view R s"
    and st: "hm_get (lg_streams s2) x = Some st"
    and key: "label_fun (resolve_labels R (lg_interner s2) (ls_labels st)) = label_fun labels"
    by (rule log_allocate_spec)
  note base = log_baseD [OF wf2]
  let ?st = "log_append entries st" and ?s = "log_ingest_stream R labels entries s"
  have st': "?st = st\<lparr>ls_entries := sort_key le_timestamp_ns (ls_entries st @ entries)\<rparr>"
    by (rule log_append_sorts [OF entries_sortedD [OF base(2) st]])
  have res: "?s = s2\<lparr>lg_trace_index := index_traces x entries (lg_trace_index s2),
      lg_streams := hm_insert x ?st (lg_streams s2),
      lg_total_entries := lg_total_entries s2 + length entries\<rparr>"
    using intern alloc st by (simp add: log_ingest_stream_def)
  have lwf: "labelled_wf R (lg_interner s2) ls_labels (hm_insert x ?st (lg_streams s2))
      (lg_stream_ids s2) (lg_next_stream_id s2) (lg_label_index s2) (lg_label_values s2)"
    using base(1) unfolding log_labelled_def
    by (rule labelled_wf_same_items) (simp_all add: hm_wf_insert [OF base(4)] items_of_update [OF st] st')
  have "log_labelled R ?s"
    using lwf by (simp add: log_labelled_def res)
  moreover have "entries_sorted (lg_streams ?s)"
    using base(2) by (simp add: res entries_sorted_def hm_simps st')
  moreover have "lg_total_entries ?s = log_count (lg_streams ?s)"
    using base(3) sum_values_update [OF base(4) st, of "\<lambda>st. length (ls_entries st)" ?st]
    by (simp add: res log_count_def st')
  moreover have "traces_ok s \<longrightarrow> traces_ok ?s"
  proof
    assume "traces_ok s"
    with tr2 have tr: "traces_ok s2" by blast
    have lt: "x < lg_next_stream_id s2"
      using base(1) st unfolding log_labelled_def by (rule labelled_wfD(4))
    have app: "has_trace ?st t \<longleftrightarrow> has_trace st t \<or> (\<exists>e \<in> set entries. le_trace_id e = Some t)" for t
      by (auto simp: has_trace_def st')
    note spec = index_traces_spec [where x = x and es = entries and m = "lg_trace_index s2"]
    have xin: "x \<in> set (tids (lg_trace_index s2) t) \<longleftrightarrow> has_trace st t" for t
      using tr st unfolding traces_ok_def by blast
    show "traces_ok ?s"
      unfolding traces_ok_def
    proof (intro conjI allI ballI impI)
      fix t show "distinct (tids (lg_trace_index ?s) t)"
        using spec [of _ t] tr by (simp add: res traces_ok_def)
    next
      fix t y assume "y \<in> set (tids (lg_trace_index ?s) t)"
      then show "y < lg_next_stream_id ?s"
        using spec [of y t] tr lt by (auto simp: res traces_ok_def)
    next
      fix y u t assume y: "hm_get (lg_streams ?s) y = Some u"
      show "y \<in> set (tids (lg_trace_index ?s) t) \<longleftrightarrow> has_trace u t"
      proof (cases "y = x")
        case True
        with y have "u = ?st" by (simp add: res hm_simps)
        with True xin app spec [of x t] show ?thesis by (auto simp: res)
      next
        case False
        with y have "hm_get (lg_streams s2) y = Some u" by (simp add: res hm_simps)
        then have "y \<in> set (tids (lg_trace_index s2) t) \<longleftrightarrow> has_trace u t"
          using tr unfolding traces_ok_def by blast
        with False spec [of y t] show ?thesis by (simp add: res)
      qed
    qed
  qed
  moreover have "log_view R ?s = (log_view R s)(label_fun labels :=
      sort_key le_timestamp_ns (log_view R s (label_fun labels) @ entries))"
  proof -
    have "ls_entries st = log_view R s (label_fun labels)"
      using base(1) series_view_item [of R _ ls_labels _ _ _ _ _ x st ls_entries] st key view2
      unfolding log_labelled_def log_view_def by metis
    moreover have "log_view R ?s = (log_view R s2)(label_fun labels := ls_entries ?st)"
      using series_view_write [OF base(1) [unfolded log_labelled_def] lwf, of ls_entries] st key
      by (simp add: log_view_def res st')
    ultimately show ?thesis by (simp add: view2 st')
  qed
  ultimately show ?thesis by (simp add: log_base_def)
qed

section \<open>Eviction by age\<close>

definition drained :: "i64 \<Rightarrow> log_stream \<Rightarrow> log_stream" where
  "drained cutoff st = st\<lparr>ls_entries := dropWhile (\<lambda>e. le_timestamp_ns e < cutoff) (ls_entries st)\<rparr>"

lemma evict_streams_eq:
  "evict_streams cutoff streams n =
     (map (\<lambda>(x, st). (x, drained cutoff st)) streams,
      n - sum_list (map (\<lambda>st. length (ls_entries st) - length (ls_entries (drained cutoff st)))
        (hm_values streams)),
      map fst (filter (\<lambda>(x, st). ls_entries (drained cutoff st) = []) streams))"
proof (induction streams arbitrary: n)
  case Nil
  show ?case by simp
next
  case (Cons p streams)
  obtain x st where p: "p = (x, st)" by force
  have d: "st\<lparr>ls_entries := drop (partition_point (\<lambda>e. le_timestamp_ns e < cutoff) (ls_entries st))
      (ls_entries st)\<rparr> = drained cutoff st"
    by (simp add: drained_def)
  show ?case
    unfolding p evict_streams.simps Let_def d Cons.IH prod.case by simp
qed

lemma drained_count:
  "sum_list (map (\<lambda>st. length (ls_entries st)) sts) -
     sum_list (map (\<lambda>st. length (ls_entries st) - length (ls_entries (drained c st))) sts) =
   sum_list (map (\<lambda>st. length (ls_entries (drained c st))) sts)" (is "?a sts - ?b sts = ?c sts")
proof -
  have "?b sts + ?c sts = ?a sts"
  proof (induction sts)
    case Nil
    show ?case by simp
  next
    case (Cons st sts)
    have "length (ls_entries (drained c st)) \<le> length (ls_entries st)"
      by (simp add: drained_def length_dropWhile_le)
    with Cons.IH show ?case by simp
  qed
  then show ?thesis by simp
qed

lemma log_evict_before_correct:
  assumes wf: "log_base R s"
  shows "log_wf R (log_evict_before cutoff s) \<and>
    log_view R (log_evict_before cutoff s) =
      (\<lambda>f. filter (\<lambda>e. cutoff \<le> le_timestamp_ns e) (log_view R s f))"
proof -
  note base = log_baseD [OF wf]
  let ?m = "map (\<lambda>(x, st). (x, drained cutoff st)) (lg_streams s)"
  let ?em = "map fst (filter (\<lambda>(x, st). ls_entries (drained cutoff st) = []) (lg_streams s))"
  define n where n: "n = sum_list (map (\<lambda>st. length (ls_entries (drained cutoff st))) (hm_values (lg_streams s)))"
  have ev: "evict_streams cutoff (lg_streams s) (lg_total_entries s) = (?m, n, ?em)"
    unfolding evict_streams_eq base(3) log_count_def drained_count n ..
  let ?s1 = "s\<lparr>lg_streams := ?m, lg_total_entries := n\<rparr>"
  let ?s2 = "fold log_drop_stream ?em ?s1"
  have res: "log_evict_before cutoff s = rebuild_trace_index ?s2"
    by (simp add: log_evict_before_def ev)
  have sorted: "sorted (map le_timestamp_ns (ls_entries st))" if "hm_get (lg_streams s) x = Some st" for x st
    using base(2) that by (rule entries_sortedD)
  have filt: "ls_entries (drained cutoff st) = filter (\<lambda>e. cutoff \<le> le_timestamp_ns e) (ls_entries st)"
    if "hm_get (lg_streams s) x = Some st" for x st
    unfolding drained_def
    using dropWhile_sorted_filter [OF sorted [OF that], of "\<lambda>e. le_timestamp_ns e < cutoff"]
    by (simp add: not_less)
  have get: "hm_get ?m x = map_option (drained cutoff) (hm_get (lg_streams s) x)" for x
    by (rule hm_get_map_values)
  have "labelled_wf R (lg_interner s) ls_labels ?m (lg_stream_ids s) (lg_next_stream_id s)
      (lg_label_index s) (lg_label_values s)"
    using base(1) unfolding log_labelled_def
  proof (rule labelled_wf_same_items)
    show "hm_wf ?m"
      using hm_wf_map_values [where m = "lg_streams s" and f = "\<lambda>_. drained cutoff"] base(4)
      by (simp only:)
    show "items_of ls_labels ?m = items_of ls_labels (lg_streams s)"
      by (rule items_of_map_values) (simp add: drained_def)
  qed
  moreover have "entries_sorted ?m"
    unfolding entries_sorted_def
  proof (intro allI impI)
    fix x u assume "hm_get ?m x = Some u"
    then obtain st where "hm_get (lg_streams s) x = Some st" "u = drained cutoff st"
      unfolding get by auto
    then show "sorted (map le_timestamp_ns (ls_entries u))"
      using sorted filt by (simp add: sorted_map_filter)
  qed
  moreover have "log_count ?m = n"
    by (simp add: log_count_def n comp_def case_prod_unfold)
  ultimately have base1: "log_base R ?s1"
    by (simp add: log_base_def log_labelled_def)
  have empty: "\<forall>x \<in> set ?em. \<forall>u. hm_get (lg_streams ?s1) x = Some u \<longrightarrow> ls_entries u = []"
  proof (intro ballI allI impI)
    fix x u assume x: "x \<in> set ?em" "hm_get (lg_streams ?s1) x = Some u"
    then obtain st where "(x, st) \<in> set (lg_streams s)" "ls_entries (drained cutoff st) = []"
      by auto
    then have "hm_get (lg_streams s) x = Some st" "ls_entries (drained cutoff st) = []"
      by (simp_all only: hm_mem_iff [OF base(4)])
    with x(2) show "ls_entries u = []" by (simp add: get)
  qed
  note folded = fold_log_drop [OF base1 empty]
  have drop: "log_base R ?s2" "lg_interner ?s2 = lg_interner s"
    and drop3: "hm_get (lg_streams ?s2) =
      (\<lambda>x. if x \<in> set ?em then None else hm_get (lg_streams ?s1) x)"
    using folded by simp_all
  have get1: "hm_get (lg_streams ?s1) x = map_option (drained cutoff) (hm_get (lg_streams s) x)" for x
    by (simp add: get)
  have "log_wf R (log_evict_before cutoff s)"
    unfolding res by (rule rebuild_trace_index_wf [OF drop(1)])
  moreover have "log_view R (log_evict_before cutoff s) f =
      filter (\<lambda>e. cutoff \<le> le_timestamp_ns e) (log_view R s f)" for f
  proof -
    have lwf2: "labelled_wf R (lg_interner s) ls_labels (lg_streams ?s2) (lg_stream_ids ?s2)
        (lg_next_stream_id ?s2) (lg_label_index ?s2) (lg_label_values ?s2)"
      using log_baseD(1) [OF drop(1)] by (simp only: log_labelled_def drop(2))
    have view: "log_view R (log_evict_before cutoff s) =
        series_view R (lg_interner s) ls_labels ls_entries (lg_streams ?s2)"
      by (simp add: res log_view_def rebuild_trace_index_def drop(2))
    have kept: "\<exists>st. hm_get (lg_streams s) x = Some st \<and> ls_labels u = ls_labels st \<and>
        ls_entries u = filter (\<lambda>e. cutoff \<le> le_timestamp_ns e) (ls_entries st)"
      if u: "hm_get (lg_streams ?s2) x = Some u" for x u
    proof -
      from u obtain st where "hm_get (lg_streams s) x = Some st" "u = drained cutoff st"
        unfolding drop3 get1 by (auto split: if_splits)
      then show ?thesis using filt [of x st] by (simp add: drained_def)
    qed
    have gone: "[] = filter (\<lambda>e. cutoff \<le> le_timestamp_ns e) (ls_entries st)"
      if x: "hm_get (lg_streams s) x = Some st" and none: "hm_get (lg_streams ?s2) x = None" for x st
    proof (cases "x \<in> set ?em")
      case True
      then obtain u where "(x, u) \<in> set (lg_streams s)" "ls_entries (drained cutoff u) = []"
        by auto
      then have "hm_get (lg_streams s) x = Some u" "ls_entries (drained cutoff u) = []"
        by (simp_all only: hm_mem_iff [OF base(4)])
      with x filt [OF x] show ?thesis by simp
    next
      case False
      with x none show ?thesis unfolding drop3 get1 by simp
    qed
    show ?thesis
      using series_view_shrink [where P = "\<lambda>_ d d'. d' = filter (\<lambda>e. cutoff \<le> le_timestamp_ns e) d",
          OF base(1) [unfolded log_labelled_def] lwf2 kept gone, where f = f]
      by (simp add: view) (simp add: log_view_def)
  qed
  ultimately show ?thesis by blast
qed

section \<open>Eviction by count\<close>

definition stream_len :: "'i log_store \<Rightarrow> u64 \<Rightarrow> nat" where
  "stream_len s x = (case hm_get (lg_streams s) x of None \<Rightarrow> 0 | Some st \<Rightarrow> length (ls_entries st))"

text \<open>Each stream of \<open>s'\<close> is what \<open>s\<close> has under the same labels, less its oldest entries.\<close>

definition keeps_suffixes :: "'i log_store \<Rightarrow> 'i log_store \<Rightarrow> bool" where
  "keeps_suffixes s s' \<longleftrightarrow>
     (\<forall>x st'. hm_get (lg_streams s') x = Some st' \<longrightarrow>
        (\<exists>st n. hm_get (lg_streams s) x = Some st \<and> ls_labels st' = ls_labels st \<and>
           ls_entries st' = drop n (ls_entries st)))"

lemma keeps_suffixes_refl: "keeps_suffixes s s"
  unfolding keeps_suffixes_def by (metis drop0)

lemma keeps_suffixes_trans:
  assumes "keeps_suffixes s t" and "keeps_suffixes t u"
  shows "keeps_suffixes s u"
  unfolding keeps_suffixes_def
proof (intro allI impI)
  fix x st' assume "hm_get (lg_streams u) x = Some st'"
  with assms(2) obtain st1 n where 1: "hm_get (lg_streams t) x = Some st1"
    "ls_labels st' = ls_labels st1" "ls_entries st' = drop n (ls_entries st1)"
    unfolding keeps_suffixes_def by blast
  with assms(1) obtain st m where "hm_get (lg_streams s) x = Some st"
    "ls_labels st1 = ls_labels st" "ls_entries st1 = drop m (ls_entries st)"
    unfolding keeps_suffixes_def by blast
  with 1 show "\<exists>st n. hm_get (lg_streams s) x = Some st \<and> ls_labels st' = ls_labels st \<and>
      ls_entries st' = drop n (ls_entries st)"
    by (metis drop_drop)
qed

text \<open>One round of the loop: the first \<open>n\<close> entries of stream \<open>x\<close> go.\<close>

definition log_drain_one :: "nat \<Rightarrow> u64 \<Rightarrow> log_stream \<Rightarrow> 'i log_store \<Rightarrow> 'i log_store" where
  "log_drain_one n x st s =
     (let st' = st\<lparr>ls_entries := drop n (ls_entries st)\<rparr>;
          s' = s\<lparr>lg_streams := hm_insert x st' (lg_streams s),
                 lg_total_entries := lg_total_entries s - n\<rparr>
      in if ls_entries st' = [] then log_drop_stream x s' else s')"

lemma log_drain_Some:
  assumes "0 < m" and "hm_get (lg_streams s) x = Some st"
  shows "log_drain m (x # xs) s =
    (let n = min m (length (ls_entries st)) in log_drain (m - n) xs (log_drain_one n x st s))"
  using assms by (simp add: Let_def log_drain_one_def)

lemma log_drain_one_spec:
  assumes base: "log_base R s" and x: "hm_get (lg_streams s) x = Some st"
    and n: "n \<le> length (ls_entries st)"
  shows "log_base R (log_drain_one n x st s)"
    and "lg_total_entries (log_drain_one n x st s) + n = lg_total_entries s"
    and "stream_len (log_drain_one n x st s) y = (if y = x then stream_len s x - n else stream_len s y)"
    and "keeps_suffixes s (log_drain_one n x st s)"
    and "lg_interner (log_drain_one n x st s) = lg_interner s"
proof -
  note B = log_baseD [OF base]
  let ?st = "st\<lparr>ls_entries := drop n (ls_entries st)\<rparr>"
  let ?s = "s\<lparr>lg_streams := hm_insert x ?st (lg_streams s), lg_total_entries := lg_total_entries s - n\<rparr>"
  have one: "log_drain_one n x st s = (if drop n (ls_entries st) = [] then log_drop_stream x ?s else ?s)"
    by (simp add: log_drain_one_def)
  have cnt: "log_count (hm_insert x ?st (lg_streams s)) + n = log_count (lg_streams s)"
    using sum_values_update [OF B(4) x, of "\<lambda>st. length (ls_entries st)" ?st] n
    by (simp add: log_count_def)
  have "labelled_wf R (lg_interner s) ls_labels (hm_insert x ?st (lg_streams s)) (lg_stream_ids s)
      (lg_next_stream_id s) (lg_label_index s) (lg_label_values s)"
    using B(1) unfolding log_labelled_def
    by (rule labelled_wf_same_items) (simp_all add: hm_wf_insert [OF B(4)] items_of_update [OF x])
  moreover have "entries_sorted (hm_insert x ?st (lg_streams s))"
    using B(2) entries_sortedD [OF B(2) x]
    by (simp add: entries_sorted_def hm_simps sorted_map_drop)
  ultimately have base1: "log_base R ?s"
    using cnt B(3) by (simp add: log_base_def log_labelled_def)
  have "log_base R (log_drop_stream x ?s)" if "drop n (ls_entries st) = []"
    using base1 by (rule log_drop_empty_base) (simp add: hm_simps that)
  with base1 show "log_base R (log_drain_one n x st s)"
    unfolding one by (cases "drop n (ls_entries st) = []") (simp_all only: if_True if_False simp_thms)
  show "lg_total_entries (log_drain_one n x st s) + n = lg_total_entries s"
    using cnt B(3) by (simp add: one)
  show "stream_len (log_drain_one n x st s) y = (if y = x then stream_len s x - n else stream_len s y)"
    using x n by (simp add: one stream_len_def hm_simps)
  have "keeps_suffixes s ?s"
    unfolding keeps_suffixes_def
  proof (intro allI impI)
    fix y u assume "hm_get (lg_streams ?s) y = Some u"
    then show "\<exists>st n. hm_get (lg_streams s) y = Some st \<and> ls_labels u = ls_labels st \<and>
        ls_entries u = drop n (ls_entries st)"
      using x by (cases "y = x") (auto simp: hm_simps intro: exI [of _ "0::nat"])
  qed
  moreover have "keeps_suffixes t (log_drop_stream x t)" for t :: "'b log_store"
    unfolding keeps_suffixes_def log_drop_stream_fields hm_get_remove fun_upd_apply
    by (metis drop0 option.distinct(1))
  ultimately have "keeps_suffixes s ?s" "keeps_suffixes s (log_drop_stream x ?s)"
    by (simp, blast intro: keeps_suffixes_trans)
  then show "keeps_suffixes s (log_drain_one n x st s)"
    unfolding one by (cases "drop n (ls_entries st) = []") (simp_all only: if_True if_False simp_thms)
  show "lg_interner (log_drain_one n x st s) = lg_interner s"
    by (simp add: one)
qed

lemma log_drain_spec:
  assumes "log_base R s" and "distinct xs" and "m \<le> sum_list (map (stream_len s) xs)"
  shows "log_base R (log_drain m xs s) \<and> lg_total_entries (log_drain m xs s) + m = lg_total_entries s \<and>
    keeps_suffixes s (log_drain m xs s) \<and> lg_interner (log_drain m xs s) = lg_interner s"
  using assms
proof (induction xs arbitrary: m s)
  case Nil
  then show ?case by (simp add: keeps_suffixes_refl)
next
  case (Cons x xs)
  show ?case
  proof (cases "m = 0")
    case True
    with Cons.prems(1) show ?thesis by (simp add: keeps_suffixes_refl)
  next
    case m: False
    show ?thesis
    proof (cases "hm_get (lg_streams s) x")
      case None
      then have "stream_len s x = 0" by (simp add: stream_len_def)
      with Cons.prems(3) have "m \<le> sum_list (map (stream_len s) xs)" by simp
      with Cons.IH [OF Cons.prems(1)] Cons.prems(2) None m show ?thesis by simp
    next
      case (Some st)
      let ?n = "min m (length (ls_entries st))"
      let ?s = "log_drain_one ?n x st s"
      note one = log_drain_one_spec [OF Cons.prems(1) Some min.cobounded2 [of m]]
      have others: "map (stream_len ?s) xs = map (stream_len s) xs"
        using Cons.prems(2) one(3) by auto
      have "stream_len s x = length (ls_entries st)"
        using Some by (simp add: stream_len_def)
      then have "m - ?n \<le> sum_list (map (stream_len ?s) xs)"
        unfolding others using Cons.prems(3) by simp
      with Cons.IH [OF one(1), of "m - ?n"] Cons.prems(2)
      have IH: "log_base R (log_drain (m - ?n) xs ?s)"
        "lg_total_entries (log_drain (m - ?n) xs ?s) + (m - ?n) = lg_total_entries ?s"
        "keeps_suffixes ?s (log_drain (m - ?n) xs ?s)"
        "lg_interner (log_drain (m - ?n) xs ?s) = lg_interner ?s"
        by simp_all
      have step: "log_drain m (x # xs) s = log_drain (m - ?n) xs ?s"
        using log_drain_Some [OF _ Some, of m xs] m by (simp add: Let_def)
      have n: "?n \<le> m" by simp
      show ?thesis
        unfolding step
      proof (intro conjI)
        show "lg_total_entries (log_drain (m - ?n) xs ?s) + m = lg_total_entries s"
          using IH(2) one(2) n by linarith
      qed (use IH(1,4) one(5) keeps_suffixes_trans [OF one(4) IH(3)] in \<open>simp_all only:\<close>)
    qed
  qed
qed

lemma stream_len_total:
  assumes "hm_wf (lg_streams s)"
  shows "sum_list (map (stream_len s) (hm_keys (lg_streams s))) = log_count (lg_streams s)"
proof -
  have "stream_len s (fst p) = length (ls_entries (snd p))" if "p \<in> set (lg_streams s)" for p
    using that hm_mem_iff [OF assms, of "fst p" "snd p"] by (simp add: stream_len_def)
  then have "map (stream_len s) (hm_keys (lg_streams s)) =
      map (\<lambda>st. length (ls_entries st)) (hm_values (lg_streams s))"
    by simp
  then show ?thesis unfolding log_count_def by (rule arg_cong)
qed

lemma log_evict_to_max_correct:
  assumes wf: "log_base R s"
  shows "log_base R (log_evict_to_max k s) \<and> (traces_ok s \<longrightarrow> traces_ok (log_evict_to_max k s))"
    and "lg_total_entries (log_evict_to_max k s) = min k (lg_total_entries s)"
    and "\<exists>n. log_view R (log_evict_to_max k s) f = drop n (log_view R s f)"
proof -
  note base = log_baseD [OF wf]
  let ?xs = "sort_key (first_entry_ns s) (hm_keys (lg_streams s))"
  let ?m = "lg_total_entries s - k"
  let ?s = "log_drain ?m ?xs s" and ?r = "log_evict_to_max k s"
  have "(log_base R ?r \<and> (traces_ok s \<longrightarrow> traces_ok ?r)) \<and> lg_total_entries ?r = min k (lg_total_entries s) \<and>
    (\<exists>n. log_view R ?r f = drop n (log_view R s f))"
  proof (cases "lg_total_entries s \<le> k")
    case True
    with wf have "?r = s" by (simp add: log_evict_to_max_def)
    with wf True show ?thesis by (metis drop0 min.absorb2)
  next
    case False
    have r: "?r = rebuild_trace_index ?s"
      using False by (simp add: log_evict_to_max_def)
    have "sum_list (map (stream_len s) ?xs) = log_count (lg_streams s)"
      unfolding stream_len_total [OF base(4), symmetric]
      by (metis mset_map mset_sort sum_mset_sum_list)
    then have d: "log_base R ?s" "lg_total_entries ?s + ?m = lg_total_entries s"
      "keeps_suffixes s ?s" "lg_interner ?s = lg_interner s"
      using log_drain_spec [OF wf, of ?xs ?m] base(3,4) by simp_all
    have lwf: "labelled_wf R (lg_interner s) ls_labels (lg_streams ?s) (lg_stream_ids ?s)
        (lg_next_stream_id ?s) (lg_label_index ?s) (lg_label_values ?s)"
      using log_baseD(1) [OF d(1)] by (simp only: log_labelled_def d(4))
    have view: "log_view R ?r f = series_view R (lg_interner s) ls_labels ls_entries (lg_streams ?s) f"
      by (simp add: r log_view_def rebuild_trace_index_def d(4))
    have kept: "\<exists>st. hm_get (lg_streams s) x = Some st \<and> ls_labels u = ls_labels st \<and>
        (\<exists>n. ls_entries u = drop n (ls_entries st))"
      if "hm_get (lg_streams ?s) x = Some u" for x u
      using d(3) that unfolding keeps_suffixes_def by metis
    have gone: "\<exists>n. [] = drop n (ls_entries st)"
      if "hm_get (lg_streams s) x = Some st" "hm_get (lg_streams ?s) x = None" for x st
      by (metis drop_all order_refl)
    have "\<exists>n. log_view R ?r f = drop n (log_view R s f)"
      using series_view_shrink [where P = "\<lambda>_ d d'. \<exists>n. d' = drop n d",
          OF base(1) [unfolded log_labelled_def] lwf kept gone, where f = f]
      unfolding view by (simp add: log_view_def)
    moreover have "lg_total_entries ?r = min k (lg_total_entries s)"
      using d(2) False by (simp add: r rebuild_trace_index_def)
    moreover have "log_wf R ?r"
      unfolding r by (rule rebuild_trace_index_wf [OF d(1)])
    ultimately show ?thesis unfolding log_wf_def by blast
  qed
  then show "log_base R ?r \<and> (traces_ok s \<longrightarrow> traces_ok ?r)" "lg_total_entries ?r = min k (lg_total_entries s)"
    "\<exists>n. log_view R ?r f = drop n (log_view R s f)" by blast+
qed

subsection \<open>The retention contract\<close>

lemma evict_streams_total: "fst (snd (evict_streams cutoff streams n)) \<le> n"
  unfolding evict_streams_eq by simp

lemma log_drop_total: "lg_total_entries (fold log_drop_stream xs s) = lg_total_entries s"
  by (induction xs arbitrary: s) simp_all

interpretation log_retention: retained_store "log_base R" "log_view R" le_timestamp_ns lg_total_entries
    log_evict_before log_evict_to_max for R :: "'i rodeo_ops"
proof unfold_locales
  fix s :: "'i log_store" and c k n
  assume wf: "log_base R s"
  show "log_base R (log_evict_before c s)"
    "log_view R (log_evict_before c s) k = filter (\<lambda>e. c \<le> le_timestamp_ns e) (log_view R s k)"
    using log_evict_before_correct [OF wf] log_base_wf by auto
  show "log_base R (log_evict_to_max n s)" "lg_total_entries (log_evict_to_max n s) \<le> n"
    using log_evict_to_max_correct(1,2) [OF wf] by auto
  show "set (log_view R (log_evict_to_max n s) k) \<subseteq> set (log_view R s k)"
    using log_evict_to_max_correct(3) [OF wf] set_drop_subset by metis
  show "lg_total_entries (log_evict_before c s) \<le> lg_total_entries s"
    using evict_streams_total [of c "lg_streams s" "lg_total_entries s"]
    by (cases "evict_streams c (lg_streams s) (lg_total_entries s)")
      (simp add: log_evict_before_def rebuild_trace_index_def log_drop_total)
qed (simp add: log_evict_to_max_def)

section \<open>Clearing a service\<close>

lemma log_remove_stream_fields [simp]:
  "lg_streams (log_remove_stream x s) = hm_remove x (lg_streams s)"
  "lg_interner (log_remove_stream x s) = lg_interner s"
  "lg_trace_index (log_remove_stream x s) = lg_trace_index s"
  "lg_next_stream_id (log_remove_stream x s) = lg_next_stream_id s"
  by (auto simp: log_remove_stream_def delete_idem map_of_eq_None_iff split: option.split)

lemma log_remove_stream_base:
  assumes "log_base R s"
  shows "log_base R (log_remove_stream x s)"
proof (cases "hm_get (lg_streams s) x")
  case None
  with assms show ?thesis by (simp add: log_remove_stream_def)
next
  case (Some st)
  note B = log_baseD [OF assms]
  have "log_labelled R (s\<lparr>lg_total_entries := n\<rparr>)" for n
    using B(1) by (simp add: log_labelled_def)
  from log_drop_stream_labelled [OF this, of x] Some
  have "log_labelled R (log_remove_stream x s)" by (simp add: log_remove_stream_def)
  with B(3) Some log_count_remove [OF B(4) Some] entries_sorted_remove [OF B(2), of x] show ?thesis
    by (simp add: log_base_def) (simp add: log_remove_stream_def)
qed

lemma log_remove_streams:
  "(log_base R s \<longrightarrow> log_base R (fold log_remove_stream xs s)) \<and>
   lg_interner (fold log_remove_stream xs s) = lg_interner s \<and>
   lg_trace_index (fold log_remove_stream xs s) = lg_trace_index s \<and>
   lg_next_stream_id (fold log_remove_stream xs s) = lg_next_stream_id s \<and>
   hm_get (lg_streams (fold log_remove_stream xs s)) =
     (\<lambda>x. if x \<in> set xs then None else hm_get (lg_streams s) x)"
  by (induction xs arbitrary: s) (auto simp: log_remove_stream_base fun_eq_iff hm_simps)

text \<open>
  In a well-formed store \<open>clear_service\<close> removes precisely the streams whose labels say
  \<open>service = s\<close>.
\<close>

lemma log_clear_service_streams:
  assumes laws: "rodeo_laws R" and wf: "log_base R s"
  shows "hm_get (lg_streams (log_clear_service R service s)) x =
    (case hm_get (lg_streams s) x of
       None \<Rightarrow> None
     | Some st \<Rightarrow> if service \<in> set (label_fun (resolve_labels R (lg_interner s) (ls_labels st)) ''service'')
                  then None else Some st)"
    (is "?new x = ?spec x")
proof -
  note L = log_baseD(1) [OF wf, unfolded log_labelled_def]
  have iff: "service \<in> set (label_fun (resolve_labels R (lg_interner s) (ls_labels st)) ''service'') \<longleftrightarrow>
      (\<exists>k w. rd_get R (lg_interner s) ''service'' = Some k \<and> rd_get R (lg_interner s) service = Some w
        \<and> (k, w) \<in> set (ls_labels st))" if "hm_get (lg_streams s) x = Some st" for st
    by (rule service_label_iff [OF laws labelled_wfD(5) [OF L that]])
  note ids = label_index_ids [OF L]
  show ?thesis
  proof (cases "rd_get R (lg_interner s) service")
    case None
    then show ?thesis using iff by (auto simp: log_clear_service_def split: option.split)
  next
    case v: (Some v)
    show ?thesis
    proof (cases "rd_get R (lg_interner s) ''service''")
      case None
      then show ?thesis using iff v by (auto simp: log_clear_service_def split: option.split)
    next
      case k: (Some k)
      show ?thesis
      proof (cases "hm_get (lg_label_index s) (k, v)")
        case None
        with ids [of "(k, v)"] have "\<And>st. hm_get (lg_streams s) x = Some st \<Longrightarrow> (k, v) \<notin> set (ls_labels st)"
          by (auto simp: posting_of_def)
        then show ?thesis using iff v k None by (auto simp: log_clear_service_def split: option.split)
      next
        case (Some pl)
        with ids [of "(k, v)"]
        have "x \<in> set (pl_ids pl) \<longleftrightarrow> (\<exists>st. hm_get (lg_streams s) x = Some st \<and> (k, v) \<in> set (ls_labels st))"
          by (auto simp: posting_of_def pl_set_def)
        then show ?thesis
          using iff v k Some log_remove_streams [of R s "pl_ids pl"]
          by (auto simp: log_clear_service_def split: option.split)
      qed
    qed
  qed
qed

lemma log_clear_service_keeps:
  assumes "log_base R s"
  shows "log_base R (log_clear_service R service s)"
    and "lg_interner (log_clear_service R service s) = lg_interner s"
    and "lg_trace_index (log_clear_service R service s) = lg_trace_index s"
    and "lg_next_stream_id (log_clear_service R service s) = lg_next_stream_id s"
  using assms log_remove_streams [of R s]
  by (auto simp: log_clear_service_def split: option.split)

lemma log_clear_service_correct:
  assumes laws: "rodeo_laws R" and wf: "log_base R s"
  shows "log_base R (log_clear_service R service s) \<and>
    (traces_ok s \<longrightarrow> traces_ok (log_clear_service R service s)) \<and>
    log_view R (log_clear_service R service s) =
      (\<lambda>f. if service \<in> set (f ''service'') then [] else log_view R s f)"
proof (intro conjI impI ext)
  note keeps = log_clear_service_keeps [OF wf]
  note streams = log_clear_service_streams [OF laws wf]
  let ?s = "log_clear_service R service s"
  show base: "log_base R ?s" by (rule keeps(1))
  have kept: "\<exists>st. hm_get (lg_streams s) x = Some st \<and> u = st \<and>
      service \<notin> set (label_fun (resolve_labels R (lg_interner s) (ls_labels st)) ''service'')"
    if "hm_get (lg_streams ?s) x = Some u" for x u
    using that unfolding streams by (auto split: option.splits if_splits)
  show "traces_ok ?s" if tr: "traces_ok s"
    unfolding traces_ok_def keeps(3,4)
    using tr kept unfolding traces_ok_def by blast
  fix f
  let ?P = "\<lambda>f d d'. d' = (if service \<in> set (f ''service'') then [] else d)"
  have "?P f (series_view R (lg_interner s) ls_labels ls_entries (lg_streams s) f)
      (series_view R (lg_interner s) ls_labels ls_entries (lg_streams ?s) f)"
  proof (rule series_view_shrink [where P = ?P,
        OF log_baseD(1) [OF wf, unfolded log_labelled_def]
           log_baseD(1) [OF base, unfolded log_labelled_def keeps(2)]])
    fix x u assume "hm_get (lg_streams ?s) x = Some u"
    with kept [of x u] show "\<exists>st. hm_get (lg_streams s) x = Some st \<and> ls_labels u = ls_labels st \<and>
        ?P (label_fun (resolve_labels R (lg_interner s) (ls_labels st))) (ls_entries st) (ls_entries u)"
      by auto
  next
    fix x st assume "hm_get (lg_streams s) x = Some st" "hm_get (lg_streams ?s) x = None"
    then show "?P (label_fun (resolve_labels R (lg_interner s) (ls_labels st))) (ls_entries st) []"
      unfolding streams by (auto split: if_splits)
  qed simp
  then show "log_view R ?s f = (if service \<in> set (f ''service'') then [] else log_view R s f)"
    by (simp add: log_view_def keeps(2))
qed

section \<open>Rebuilding after a restore\<close>

lemma log_rebuild_fields:
  "log_rebuild_stream_ids s =
     (let m = fold (rebuild_step ls_labels (lg_streams s)) (sort (hm_keys (lg_streams s))) ([], 0)
      in s\<lparr>lg_stream_ids := fst m, lg_next_stream_id := snd m\<rparr>)"
proof -
  have "fold (\<lambda>x s. case hm_get (lg_streams s) x of
                   None \<Rightarrow> s
                 | Some st \<Rightarrow> s\<lparr>lg_stream_ids := hm_insert (ls_labels st) x (lg_stream_ids s),
                     lg_next_stream_id := max (lg_next_stream_id s) (u64_saturating_add x 1)\<rparr>) xs
      (s\<lparr>lg_stream_ids := a, lg_next_stream_id := n\<rparr>) =
    (let m = fold (rebuild_step ls_labels (lg_streams s)) xs (a, n)
     in s\<lparr>lg_stream_ids := fst m, lg_next_stream_id := snd m\<rparr>)" for xs a n
    by (induction xs arbitrary: a n) (simp_all add: rebuild_step_def split: option.split)
  then show ?thesis by (simp add: log_rebuild_stream_ids_def)
qed

text \<open>
  Whatever exact map and next id a snapshot carries, rebuilding restores the invariant, and
  the view is untouched.
\<close>

lemma log_rebuild_correct:
  assumes wf: "log_base R s" and room: "lg_next_stream_id s \<le> u64_max"
  shows "log_base R (log_rebuild_stream_ids (s\<lparr>lg_stream_ids := a, lg_next_stream_id := n\<rparr>)) \<and>
    log_view R (log_rebuild_stream_ids (s\<lparr>lg_stream_ids := a, lg_next_stream_id := n\<rparr>)) = log_view R s"
proof -
  note B = log_baseD [OF wf]
  obtain ids nxt where fold:
    "fold (rebuild_step ls_labels (lg_streams s)) (sort (hm_keys (lg_streams s))) ([], 0) = (ids, nxt)"
    by force
  have r: "log_rebuild_stream_ids (s\<lparr>lg_stream_ids := a, lg_next_stream_id := n\<rparr>) =
      s\<lparr>lg_stream_ids := ids, lg_next_stream_id := nxt\<rparr>"
    using fold by (simp add: log_rebuild_fields)
  have "log_labelled R (s\<lparr>lg_stream_ids := ids, lg_next_stream_id := nxt\<rparr>)"
    using labelled_wf_rebuild [OF B(1) [unfolded log_labelled_def] room fold]
    by (simp add: log_labelled_def)
  with B show ?thesis unfolding r by (simp add: log_base_def log_view_def)
qed

section \<open>Queries\<close>

lemma get_entries_spec:
  assumes "log_base R s" and "hm_get (lg_streams s) x = Some st"
  shows "get_entries s x a b =
    (if \<exists>e \<in> set (ls_entries st). b < le_timestamp_ns e \<and> le_timestamp_ns e < a
     then Inl (SliceIndexOrder (length (filter (\<lambda>e. le_timestamp_ns e < a) (ls_entries st)))
                (length (filter (\<lambda>e. le_timestamp_ns e \<le> b) (ls_entries st))))
     else Inr (filter (\<lambda>e. a \<le> le_timestamp_ns e \<and> le_timestamp_ns e \<le> b) (ls_entries st)))"
  using slice_partition_points [OF entries_sortedD [OF log_baseD(2) [OF assms(1)] assms(2)], of a b] assms(2)
  by (simp add: get_entries_def)

lemma streams_for_trace_spec:
  assumes "log_wf R s"
  shows "distinct (streams_for_trace s t)"
    and "hm_get (lg_streams s) x = Some st \<Longrightarrow> x \<in> set (streams_for_trace s t) \<longleftrightarrow> has_trace st t"
proof -
  have "streams_for_trace s t = tids (lg_trace_index s) t"
    by (simp add: streams_for_trace_def tids_def)
  then show "distinct (streams_for_trace s t)"
    and "hm_get (lg_streams s) x = Some st \<Longrightarrow> x \<in> set (streams_for_trace s t) \<longleftrightarrow> has_trace st t"
    using assms unfolding log_wf_def traces_ok_def by simp_all
qed

lemma query_streams_spec:
  assumes "rodeo_laws R" and "log_base R s" and "\<forall>m \<in> set ms. matcher_valid X m"
  shows "set (query_streams R X s ms) =
    {x. \<exists>st. hm_get (lg_streams s) x = Some st \<and>
      (\<forall>m \<in> set ms. matcher_holds X (resolve_labels R (lg_interner s) (ls_labels st)) m)}"
  unfolding query_streams_def
  by (rule select_stored_ids [OF assms(1) log_baseD(1) [OF assms(2), unfolded log_labelled_def] assms(3)])

lemma log_label_values_spec:
  assumes "rodeo_laws R" and "log_base R s"
  shows "v \<in> set (log_label_values R s n) \<longleftrightarrow>
    (\<exists>x st. hm_get (lg_streams s) x = Some st \<and> (n, v) \<in> set (resolve_labels R (lg_interner s) (ls_labels st)))"
  unfolding log_label_values_def
  by (rule stored_label_values [OF assms(1) log_baseD(1) [OF assms(2), unfolded log_labelled_def]])

section \<open>A sample store\<close>

definition sample_entry :: "i64 \<Rightarrow> string \<Rightarrow> trace_id option \<Rightarrow> log_entry" where
  "sample_entry t line tid = \<lparr>le_timestamp_ns = t, le_line = line, le_ingest_seq = 0, le_trace_id = tid,
     le_span_id = None, le_severity_number = 0, le_severity_text = None, le_attributes = []\<rparr>"

definition sample_logs :: "string list log_store" where
  "sample_logs = log_ingest_stream list_rodeo [(''service'', ''api''), (''env'', ''prod'')]
     [sample_entry 20 ''b'' (Some [1]), sample_entry 10 ''a'' None] (log_new list_rodeo)"

lemma sample_logs_wf: "log_wf list_rodeo sample_logs"
proof -
  have "lg_next_stream_id (log_new list_rodeo) < u64_max" by (simp add: log_new_def u64_max_def)
  from log_ingest_correct [OF list_rodeo_laws log_base_wf [OF log_new_wf] this] show ?thesis
    unfolding sample_logs_def log_wf_def using log_new_wf unfolding log_wf_def by blast
qed

text \<open>The definitions a run of the store evaluates.\<close>

lemmas log_eval = log_ingest_stream_def intern_label_pairs_def list_rodeo_def log_new_def
  log_allocate_def log_append_def batch_needs_sort_def index_insert_def track_label_values_def
  index_traces_def hm_upsert_def pl_new_def pl_insert_def binary_search_def partition_point_def
  u64_saturating_add_def u64_max_def log_rebuild_stream_ids_def log_clear_service_def
  log_remove_stream_def log_drop_stream_def remove_from_label_indexes_def remove_label_value_def
  pl_remove_def pl_is_empty_def streams_for_trace_def

lemma sample_logs_streams:
  shows "lg_streams sample_logs = [(0, \<lparr>ls_labels = [(0, 1), (2, 3)],
     ls_entries = [sample_entry 10 ''a'' None, sample_entry 20 ''b'' (Some [1])]\<rparr>)]"
    and "lg_next_stream_id sample_logs = 1"
  by (simp_all add: sample_logs_def log_eval sample_entry_def)

section \<open>Properties\<close>

text \<open>
  C14: Ingesting a batch into the log store keeps the invariant (unique ids, an exact label map,
  an inverted index induced by the stored label sets, entries in time order, an exact total and
  an exact trace index) and has the abstract effect that the doc comments promise: the entries
  stored under the batch's label set, in whatever order its labels come, become the stable sort
  by time of the old ones and the batch, and no other label set is touched.
\<close>

theorem log_ingest_refines:
  assumes "rodeo_laws R" and "log_wf R s" and "lg_next_stream_id s < u64_max"
  shows "log_wf R (log_ingest_stream R labels entries s) \<and>
    log_view R (log_ingest_stream R labels entries s) =
      (log_view R s)(label_fun labels :=
        sort_key le_timestamp_ns (log_view R s (label_fun labels) @ entries))"
  using log_ingest_correct [OF assms(1) log_base_wf [OF assms(2)] assms(3)] assms(2)
  unfolding log_wf_def by blast

theorem log_ingest_refines_witness:
  "log_view list_rodeo (log_ingest_stream list_rodeo [(''env'', ''prod''), (''service'', ''api'')]
      [sample_entry 15 ''c'' None] sample_logs) =
    (log_view list_rodeo sample_logs)(label_fun [(''env'', ''prod''), (''service'', ''api'')] :=
      sort_key le_timestamp_ns (log_view list_rodeo sample_logs
        (label_fun [(''env'', ''prod''), (''service'', ''api'')]) @ [sample_entry 15 ''c'' None]))"
  using log_ingest_refines [OF list_rodeo_laws sample_logs_wf, of "[(''env'', ''prod''), (''service'', ''api'')]"
      "[sample_entry 15 ''c'' None]"] sample_logs_streams(2)
  by (simp add: u64_max_def)

text \<open>
  Age-based eviction of logs keeps the invariant and removes, under every label set,
  exactly the entries older than the cutoff.
\<close>

lemma log_evict_before_refines:
  assumes "log_wf R s"
  shows "log_wf R (log_evict_before cutoff s) \<and>
    log_view R (log_evict_before cutoff s) =
      (\<lambda>f. filter (\<lambda>e. cutoff \<le> le_timestamp_ns e) (log_view R s f))"
  by (rule log_evict_before_correct [OF log_base_wf [OF assms]])

lemma log_evict_before_refines_witness:
  "log_view list_rodeo (log_evict_before 15 sample_logs) =
    (\<lambda>f. filter (\<lambda>e. 15 \<le> le_timestamp_ns e) (log_view list_rodeo sample_logs f))"
  using log_evict_before_refines [OF sample_logs_wf, of 15] by blast

text \<open>
  C16: Count-based eviction of logs keeps the invariant, leaves exactly the smaller of the limit
  and the total, and takes from each label set only its oldest entries.
\<close>

theorem log_evict_to_max_refines:
  assumes "log_wf R s"
  shows "log_wf R (log_evict_to_max k s) \<and>
    lg_total_entries (log_evict_to_max k s) = min k (lg_total_entries s) \<and>
    (\<forall>f. \<exists>n. log_view R (log_evict_to_max k s) f = drop n (log_view R s f))"
  using log_evict_to_max_correct [OF log_base_wf [OF assms]] assms unfolding log_wf_def by blast

theorem log_evict_to_max_refines_witness:
  "lg_total_entries (log_evict_to_max 1 sample_logs) = min 1 (lg_total_entries sample_logs)"
  using log_evict_to_max_refines [OF sample_logs_wf, of 1] by blast

text \<open>
  Clearing a service from the log store keeps the invariant, empties precisely the label
  sets whose \<open>service\<close> is that service, and leaves all others as they were.
\<close>

lemma log_clear_service_refines:
  assumes "rodeo_laws R" and "log_wf R s"
  shows "log_wf R (log_clear_service R service s) \<and>
    log_view R (log_clear_service R service s) =
      (\<lambda>f. if service \<in> set (f ''service'') then [] else log_view R s f)"
  using log_clear_service_correct [OF assms(1) log_base_wf [OF assms(2)]] assms(2)
  unfolding log_wf_def by blast

lemma log_clear_service_refines_witness:
  "log_view list_rodeo (log_clear_service list_rodeo ''api'' sample_logs) =
    (\<lambda>f. if ''api'' \<in> set (f ''service'') then [] else log_view list_rodeo sample_logs f)"
  using log_clear_service_refines [OF list_rodeo_laws sample_logs_wf, of "''api''"] by blast

text \<open>
  C15: A stream selector returns exactly the streams whose labels satisfy every matcher, for
  matchers with valid regular expressions: the inverted index never loses or invents a stream.
\<close>

theorem query_streams_exact:
  assumes "rodeo_laws R" and "log_wf R s" and "\<forall>m \<in> set ms. matcher_valid X m"
  shows "set (query_streams R X s ms) =
    {x. \<exists>st. hm_get (lg_streams s) x = Some st \<and>
      (\<forall>m \<in> set ms. matcher_holds X (resolve_labels R (lg_interner s) (ls_labels st)) m)}"
  by (rule query_streams_spec [OF assms(1) log_base_wf [OF assms(2)] assms(3)])

theorem query_streams_exact_witness:
  "set (query_streams list_rodeo literal_regex sample_logs
      [\<lparr>lm_name = ''service'', lm_op = Regex, lm_value = ''api''\<rparr>]) =
    {x. \<exists>st. hm_get (lg_streams sample_logs) x = Some st \<and>
      (\<forall>m \<in> set [\<lparr>lm_name = ''service'', lm_op = Regex, lm_value = ''api''\<rparr>].
        matcher_holds literal_regex (resolve_labels list_rodeo (lg_interner sample_logs) (ls_labels st)) m)}"
  by (rule query_streams_exact [OF list_rodeo_laws sample_logs_wf])
    (simp add: matcher_valid_def label_regex_def literal_regex_def)

text \<open>
  A time-range lookup in a stream returns the entries of the closed range, in order; it
  panics precisely when the range is inverted and an entry lies strictly inside the gap, the
  error carrying the two crossed indices.
\<close>

lemma get_entries_range:
  assumes "log_wf R s" and "hm_get (lg_streams s) x = Some st"
  shows "get_entries s x a b =
    (if \<exists>e \<in> set (ls_entries st). b < le_timestamp_ns e \<and> le_timestamp_ns e < a
     then Inl (SliceIndexOrder (length (filter (\<lambda>e. le_timestamp_ns e < a) (ls_entries st)))
                (length (filter (\<lambda>e. le_timestamp_ns e \<le> b) (ls_entries st))))
     else Inr (filter (\<lambda>e. a \<le> le_timestamp_ns e \<and> le_timestamp_ns e \<le> b) (ls_entries st)))"
  by (rule get_entries_spec [OF log_base_wf [OF assms(1)] assms(2)])

lemma get_entries_range_witness:
  "get_entries sample_logs 0 15 5 = Inl (SliceIndexOrder 1 0)"
  using get_entries_range [OF sample_logs_wf, of 0 _ 15 5] unfolding sample_logs_streams
  by (simp add: sample_entry_def)

text \<open>
  The trace index answers exactly: the streams listed for a trace are, among the streams
  that exist, those with an entry of that trace, each once.
\<close>

lemma streams_for_trace_exact:
  assumes "log_wf R s" and "hm_get (lg_streams s) x = Some st"
  shows "distinct (streams_for_trace s t) \<and>
    (x \<in> set (streams_for_trace s t) \<longleftrightarrow> (\<exists>e \<in> set (ls_entries st). le_trace_id e = Some t))"
  using streams_for_trace_spec [OF assms(1)] assms(2) unfolding has_trace_def by blast

lemma streams_for_trace_exact_witness:
  "distinct (streams_for_trace sample_logs [1]) \<and> 0 \<in> set (streams_for_trace sample_logs [1])"
  using streams_for_trace_exact [OF sample_logs_wf, of 0 _ "[1]"] unfolding sample_logs_streams
  by (simp add: sample_entry_def)

text \<open>
  Restoring a snapshot rebuilds the exact label map and the next id, whatever the snapshot
  carried for them: the store's invariant (the trace index aside) and its contents are kept.
\<close>

theorem log_rebuild_refines:
  assumes "log_wf R s" and "lg_next_stream_id s \<le> u64_max"
  shows "log_base R (log_rebuild_stream_ids (s\<lparr>lg_stream_ids := a, lg_next_stream_id := n\<rparr>)) \<and>
    log_view R (log_rebuild_stream_ids (s\<lparr>lg_stream_ids := a, lg_next_stream_id := n\<rparr>)) = log_view R s"
  by (rule log_rebuild_correct [OF log_base_wf [OF assms(1)] assms(2)])

theorem log_rebuild_refines_witness:
  "log_view list_rodeo (log_rebuild_stream_ids (sample_logs\<lparr>lg_stream_ids := [], lg_next_stream_id := 0\<rparr>)) =
    log_view list_rodeo sample_logs"
  using log_rebuild_refines [OF sample_logs_wf, where a = "[]" and n = 0] sample_logs_streams(2)
  by (simp add: u64_max_def)

definition stale_run :: "string list log_store" where
  "stale_run = log_ingest_stream list_rodeo [(''service'', ''web'')] [sample_entry 30 ''x'' None]
     (log_rebuild_stream_ids (log_clear_service list_rodeo ''api'' sample_logs))"

text \<open>
  A cleared stream leaves a stale id in the trace index, and rebuilding the ids after a
  restart may give that id to a new stream: then the trace index lists a stream that has no
  entry of the trace. The run: ingest one stream with a trace, clear its service, restore the
  snapshot, ingest another service's stream without any trace.
\<close>

lemma stale_trace_index:
  "streams_for_trace stale_run [1] = [0] \<and>
   map_option (\<lambda>st. map le_trace_id (ls_entries st)) (hm_get (lg_streams stale_run) 0) = Some [None]"
  by (simp add: stale_run_def sample_logs_def log_eval sample_entry_def)

end
