(* ===== verification/Metric_Store.thy ===== *)
theory Metric_Store
  imports Labelled_Store Rust_Text
begin

text \<open>
  \<open>MetricStore\<close> of \<open>src/store/metric_store.rs\<close>: state, operations and queries. A sample value
  is an IEEE bit pattern; the store never computes with it.
\<close>

section \<open>State\<close>

record sample =
  sm_timestamp_ms :: i64
  sm_value :: f64
  sm_ingest_seq :: u64

record metric_series =
  ms_labels :: label_pairs
  ms_samples :: "sample list"

datatype metric_store_error =
  MetricNameCollision string string string \<comment> \<open>normalized, existing, incoming\<close>

datatype metric_type = Counter | Gauge | Histogram | Summary | Unknown

definition metric_type_as_str :: "metric_type \<Rightarrow> string" where
  "metric_type_as_str t = (case t of Counter \<Rightarrow> ''counter'' | Gauge \<Rightarrow> ''gauge''
     | Histogram \<Rightarrow> ''histogram'' | Summary \<Rightarrow> ''summary'' | Unknown \<Rightarrow> ''unknown'')"

record metric_metadata =
  md_type :: "metric_type option"
  md_help :: "string option"
  md_unit :: "string option"

definition metadata_default :: metric_metadata where
  "metadata_default = \<lparr>md_type = None, md_help = None, md_unit = None\<rparr>"

record 'i metric_store =
  mt_series :: "(u64, metric_series) hash_map"
  mt_label_index :: label_index
  mt_label_values :: label_values
  mt_interner :: 'i
  mt_total_samples :: usize
  mt_series_ids :: "(label_pairs, u64) hash_map"
  mt_next_series_id :: u64
  mt_name_sources :: "(spur, spur) hash_map"
  mt_metadata :: "(spur, metric_metadata) hash_map"

definition metric_new :: "'i rodeo_ops \<Rightarrow> 'i metric_store" where
  "metric_new R = \<lparr>mt_series = [], mt_label_index = [], mt_label_values = [],
     mt_interner = rd_default R, mt_total_samples = 0, mt_series_ids = [], mt_next_series_id = 0,
     mt_name_sources = [], mt_metadata = []\<rparr>"

section \<open>Metric names and metadata\<close>

definition metric_rebuild_series_ids :: "'i metric_store \<Rightarrow> 'i metric_store" where
  "metric_rebuild_series_ids s =
     fold (\<lambda>x s. case hm_get (mt_series s) x of
                   None \<Rightarrow> s
                 | Some se \<Rightarrow> s\<lparr>mt_series_ids := hm_insert (ms_labels se) x (mt_series_ids s),
                     mt_next_series_id := max (mt_next_series_id s) (u64_saturating_add x 1)\<rparr>)
       (sort (hm_keys (mt_series s)))
       (s\<lparr>mt_series_ids := [], mt_next_series_id := 0\<rparr>)"

definition check_metric_name_collision ::
  "'i rodeo_ops \<Rightarrow> 'i metric_store \<Rightarrow> string \<Rightarrow> string \<Rightarrow> metric_store_error + unit" where
  "check_metric_name_collision R s normalized source =
     (case rd_get R (mt_interner s) normalized of
        None \<Rightarrow> Inr ()
      | Some n \<Rightarrow>
          (case hm_get (mt_name_sources s) n of
             None \<Rightarrow> Inr ()
           | Some existing \<Rightarrow>
               if rd_resolve R (mt_interner s) existing \<noteq> source
               then Inl (MetricNameCollision normalized (rd_resolve R (mt_interner s) existing) source)
               else Inr ()))"

definition register_metric_name ::
  "'i rodeo_ops \<Rightarrow> string \<Rightarrow> string \<Rightarrow> 'i metric_store \<Rightarrow>
     'i metric_store \<times> (metric_store_error + unit)" where
  "register_metric_name R normalized source s =
     (let (i1, n) = rd_get_or_intern R (mt_interner s) normalized;
          (i2, src) = rd_get_or_intern R i1 source;
          s' = s\<lparr>mt_interner := i2\<rparr>
      in case hm_get (mt_name_sources s) n of
           Some existing \<Rightarrow>
             if existing \<noteq> src
             then (s', Inl (MetricNameCollision normalized (rd_resolve R i2 existing) source))
             else (s', Inr ())
         | None \<Rightarrow> (s'\<lparr>mt_name_sources := hm_insert n src (mt_name_sources s)\<rparr>, Inr ()))"

definition merge_metadata ::
  "metric_type option \<Rightarrow> string option \<Rightarrow> string option \<Rightarrow> metric_metadata \<Rightarrow> metric_metadata" where
  "merge_metadata ty help un md =
     \<lparr>md_type = (if (ty \<noteq> None \<and> ty \<noteq> Some Unknown) \<or> md_type md = None then ty else md_type md),
      md_help = (if help \<noteq> None then help else md_help md),
      md_unit = (if un \<noteq> None then un else md_unit md)\<rparr>"

definition register_metric_metadata ::
  "'i rodeo_ops \<Rightarrow> string \<Rightarrow> metric_type option \<Rightarrow> string option \<Rightarrow> string option \<Rightarrow>
     'i metric_store \<Rightarrow> 'i metric_store" where
  "register_metric_metadata R normalized ty help un s =
     (let (i, n) = rd_get_or_intern R (mt_interner s) normalized
      in s\<lparr>mt_interner := i,
           mt_metadata := hm_upsert metadata_default n (merge_metadata ty help un) (mt_metadata s)\<rparr>)"

definition get_metric_type :: "'i metric_store \<Rightarrow> spur \<Rightarrow> metric_type option" where
  "get_metric_type s n = Option.bind (hm_get (mt_metadata s) n) md_type"

definition get_metric_metadata :: "'i rodeo_ops \<Rightarrow> 'i metric_store \<Rightarrow> string \<Rightarrow> metric_metadata option"
where
  "get_metric_metadata R s name =
     Option.bind (rd_get R (mt_interner s) name) (hm_get (mt_metadata s))"

text \<open>The metric names in use: the first \<open>__name__\<close> label of each series.\<close>

definition surviving_names :: "spur \<Rightarrow> 'i metric_store \<Rightarrow> spur list" where
  "surviving_names k s =
     List.map_filter (\<lambda>se. map_option snd (find (\<lambda>p. fst p = k) (ms_labels se))) (hm_values (mt_series s))"

definition prune_orphaned_metadata :: "'i rodeo_ops \<Rightarrow> 'i metric_store \<Rightarrow> 'i metric_store" where
  "prune_orphaned_metadata R s =
     (case rd_get R (mt_interner s) ''__name__'' of
        None \<Rightarrow> s
      | Some k \<Rightarrow>
          s\<lparr>mt_metadata := filter (\<lambda>(n, _). n \<in> set (surviving_names k s)) (mt_metadata s)\<rparr>)"

section \<open>Ingest\<close>

definition metric_allocate :: "label_pairs \<Rightarrow> 'i metric_store \<Rightarrow> 'i metric_store \<times> u64" where
  "metric_allocate labels s =
     (case hm_get (mt_series_ids s) labels of
        Some x \<Rightarrow> (s, x)
      | None \<Rightarrow>
          (let x = mt_next_series_id s
           in (s\<lparr>mt_next_series_id := u64_saturating_add x 1,
                 mt_series_ids := hm_insert labels x (mt_series_ids s),
                 mt_series := hm_insert x \<lparr>ms_labels = labels, ms_samples = []\<rparr> (mt_series s),
                 mt_label_index := index_insert (mt_label_index s) labels x\<rparr>, x)))"

definition metric_append :: "sample list \<Rightarrow> metric_series \<Rightarrow> metric_series" where
  "metric_append samples se =
     (let all = ms_samples se @ samples;
          needs_sort = 0 < length samples \<and> batch_needs_sort sm_timestamp_ms all (length (ms_samples se))
      in se\<lparr>ms_samples := (if needs_sort then sort_key sm_timestamp_ms all else all)\<rparr>)"

definition ingest_samples ::
  "'i rodeo_ops \<Rightarrow> string \<Rightarrow> (string \<times> string) list \<Rightarrow> sample list \<Rightarrow> 'i metric_store \<Rightarrow> 'i metric_store"
where
  "ingest_samples R name labels samples s =
     (let (i, interned) = intern_label_pairs R (mt_interner s) ((''__name__'', name) # labels);
          s1 = s\<lparr>mt_interner := i, mt_label_values := track_label_values (mt_label_values s) interned\<rparr>;
          (s2, x) = metric_allocate interned s1
      in case hm_get (mt_series s2) x of
           None \<Rightarrow> s2
         | Some se \<Rightarrow>
             s2\<lparr>mt_series := hm_insert x (metric_append samples se) (mt_series s2),
                mt_total_samples := mt_total_samples s2 + length samples\<rparr>)"

section \<open>Queries\<close>

definition select_series :: "'i rodeo_ops \<Rightarrow> 'r regex_ops \<Rightarrow> 'i metric_store \<Rightarrow> label_matcher list \<Rightarrow> u64 list"
where
  "select_series R X s ms =
     select_indexed_ids R X (mt_interner s) (mt_label_index s) (mt_label_values s)
       (hm_keys (mt_series s)) ms"

definition get_samples :: "'i metric_store \<Rightarrow> u64 \<Rightarrow> i64 \<Rightarrow> i64 \<Rightarrow> panic + sample list" where
  "get_samples s x start_ms end_ms =
     (case hm_get (mt_series s) x of
        None \<Rightarrow> Inr []
      | Some se \<Rightarrow>
          slice (ms_samples se)
            (partition_point (\<lambda>p. sm_timestamp_ms p < start_ms) (ms_samples se))
            (partition_point (\<lambda>p. sm_timestamp_ms p \<le> end_ms) (ms_samples se)))"

definition latest_sample_timestamp_ms :: "'i metric_store \<Rightarrow> i64 option" where
  "latest_sample_timestamp_ms s =
     fold (\<lambda>se m. if ms_samples se = [] then m
                  else (let t = sm_timestamp_ms (last (ms_samples se))
                        in Some (case m of None \<Rightarrow> t | Some u \<Rightarrow> max u t)))
       (hm_values (mt_series s)) None"

definition get_series_labels :: "'i rodeo_ops \<Rightarrow> 'i metric_store \<Rightarrow> u64 \<Rightarrow> (string \<times> string) list option"
where
  "get_series_labels R s x =
     map_option (\<lambda>se. resolve_labels R (mt_interner s) (ms_labels se)) (hm_get (mt_series s) x)"

definition metric_label_names :: "'i rodeo_ops \<Rightarrow> 'i metric_store \<Rightarrow> string list" where
  "metric_label_names R s = map (rd_resolve R (mt_interner s)) (hm_keys (mt_label_values s))"

definition metric_label_values :: "'i rodeo_ops \<Rightarrow> 'i metric_store \<Rightarrow> string \<Rightarrow> string list" where
  "metric_label_values R s name =
     (case rd_get R (mt_interner s) name of
        None \<Rightarrow> []
      | Some k \<Rightarrow> (case hm_get (mt_label_values s) k of
                    None \<Rightarrow> []
                  | Some vs \<Rightarrow> map (rd_resolve R (mt_interner s)) vs))"

section \<open>Eviction and clearing\<close>

definition metric_drop_series :: "u64 \<Rightarrow> 'i metric_store \<Rightarrow> 'i metric_store" where
  "metric_drop_series x s =
     (case hm_get (mt_series s) x of
        None \<Rightarrow> s
      | Some se \<Rightarrow>
          (let (idx, vals) = remove_from_label_indexes (mt_label_index s) (mt_label_values s)
                               (ms_labels se) x
           in s\<lparr>mt_series := hm_remove x (mt_series s),
                mt_series_ids := hm_remove (ms_labels se) (mt_series_ids s),
                mt_label_index := idx, mt_label_values := vals\<rparr>))"

text \<open>Dropping a series together with its samples' share of the total.\<close>

definition metric_remove_series :: "u64 \<Rightarrow> 'i metric_store \<Rightarrow> 'i metric_store" where
  "metric_remove_series x s =
     (case hm_get (mt_series s) x of
        None \<Rightarrow> s
      | Some se \<Rightarrow>
          metric_drop_series x (s\<lparr>mt_total_samples := mt_total_samples s - length (ms_samples se)\<rparr>))"

definition first_sample_ms :: "'i metric_store \<Rightarrow> u64 \<Rightarrow> i64" where
  "first_sample_ms s x =
     (case hm_get (mt_series s) x of
        None \<Rightarrow> i64_max
      | Some se \<Rightarrow> (case ms_samples se of [] \<Rightarrow> i64_max | p # _ \<Rightarrow> sm_timestamp_ms p))"

definition metric_evict_to_max :: "'i rodeo_ops \<Rightarrow> usize \<Rightarrow> 'i metric_store \<Rightarrow> 'i metric_store" where
  "metric_evict_to_max R max_series s =
     (if length (mt_series s) \<le> max_series then s
      else prune_orphaned_metadata R
             (fold metric_remove_series
               (take (length (mt_series s) - max_series)
                 (sort_key (first_sample_ms s) (hm_keys (mt_series s)))) s))"

fun evict_series :: "i64 \<Rightarrow> (u64, metric_series) hash_map \<Rightarrow> usize \<Rightarrow>
    (u64, metric_series) hash_map \<times> usize \<times> u64 list" where
  "evict_series cutoff [] tally = ([], tally, [])"
| "evict_series cutoff ((x, se) # rest) tally =
     (let drain_count = partition_point (\<lambda>p. sm_timestamp_ms p < cutoff) (ms_samples se);
          se' = se\<lparr>ms_samples := drop drain_count (ms_samples se)\<rparr>;
          removed = length (ms_samples se) - length (ms_samples se');
          (rest', tally', empties) = evict_series cutoff rest (tally - removed)
      in ((x, se') # rest', tally', (if ms_samples se' = [] then x # empties else empties)))"

definition metric_evict_before :: "'i rodeo_ops \<Rightarrow> i64 \<Rightarrow> 'i metric_store \<Rightarrow> 'i metric_store" where
  "metric_evict_before R cutoff s =
     (let (series, tally, empties) = evict_series cutoff (mt_series s) (mt_total_samples s)
      in prune_orphaned_metadata R
           (fold metric_drop_series empties (s\<lparr>mt_series := series, mt_total_samples := tally\<rparr>)))"

definition metric_clear :: "'i rodeo_ops \<Rightarrow> 'i metric_store \<Rightarrow> 'i metric_store" where
  "metric_clear R s = s\<lparr>mt_series := [], mt_label_index := [], mt_label_values := [],
     mt_interner := rd_default R, mt_total_samples := 0, mt_series_ids := [], mt_next_series_id := 0,
     mt_name_sources := [], mt_metadata := []\<rparr>"

text \<open>The last step of \<open>clear_service\<close>: drop registrations no surviving series refers to.\<close>

definition prune_names :: "'i rodeo_ops \<Rightarrow> 'i metric_store \<Rightarrow> 'i metric_store" where
  "prune_names R s =
     (case rd_get R (mt_interner s) ''__name__'' of
        None \<Rightarrow> s
      | Some k \<Rightarrow>
          s\<lparr>mt_name_sources := filter (\<lambda>(n, _). n \<in> set (surviving_names k s)) (mt_name_sources s),
            mt_metadata := filter (\<lambda>(n, _). n \<in> set (surviving_names k s)) (mt_metadata s)\<rparr>)"

definition metric_clear_service :: "'i rodeo_ops \<Rightarrow> string \<Rightarrow> 'i metric_store \<Rightarrow> 'i metric_store" where
  "metric_clear_service R service s =
     (case rd_get R (mt_interner s) service of
        None \<Rightarrow> s
      | Some v \<Rightarrow>
          (case rd_get R (mt_interner s) ''service'' of
             None \<Rightarrow> s
           | Some k \<Rightarrow>
               (case hm_get (mt_label_index s) (k, v) of
                  None \<Rightarrow> s
                | Some pl \<Rightarrow> prune_names R (fold metric_remove_series (pl_ids pl) s))))"

end
