(* ===== verification/Metric_Store_Correct.thy ===== *)
theory Metric_Store_Correct
  imports Metric_Store Retention
begin

text \<open>
  Correctness of the metric store: the invariant \<open>metric_base\<close> and its preservation by every
  operation, the abstraction \<open>metric_view\<close>, what each operation does to it, and the registry of
  metric names and metadata.
\<close>

section \<open>The invariant\<close>

definition metric_labelled :: "'i rodeo_ops \<Rightarrow> 'i metric_store \<Rightarrow> bool" where
  "metric_labelled R s \<longleftrightarrow>
     labelled_wf R (mt_interner s) ms_labels (mt_series s) (mt_series_ids s)
       (mt_next_series_id s) (mt_label_index s) (mt_label_values s)"

definition metric_count :: "(u64, metric_series) hash_map \<Rightarrow> nat" where
  "metric_count series = sum_list (map (\<lambda>se. length (ms_samples se)) (hm_values series))"

definition samples_sorted :: "(u64, metric_series) hash_map \<Rightarrow> bool" where
  "samples_sorted series \<longleftrightarrow>
     (\<forall>x se. hm_get series x = Some se \<longrightarrow> sorted (map sm_timestamp_ms (ms_samples se)))"

definition metric_base :: "'i rodeo_ops \<Rightarrow> 'i metric_store \<Rightarrow> bool" where
  "metric_base R s \<longleftrightarrow> metric_labelled R s \<and> samples_sorted (mt_series s) \<and>
     mt_total_samples s = metric_count (mt_series s)"

definition metric_view :: "'i rodeo_ops \<Rightarrow> 'i metric_store \<Rightarrow> (string \<Rightarrow> string list) \<Rightarrow> sample list" where
  "metric_view R s = series_view R (mt_interner s) ms_labels ms_samples (mt_series s)"

lemma metric_baseD:
  assumes "metric_base R s"
  shows "metric_labelled R s" and "samples_sorted (mt_series s)"
    and "mt_total_samples s = metric_count (mt_series s)" and "hm_wf (mt_series s)"
proof -
  show "metric_labelled R s" "samples_sorted (mt_series s)"
    "mt_total_samples s = metric_count (mt_series s)"
    using assms unfolding metric_base_def by blast+
  then show "hm_wf (mt_series s)" unfolding metric_labelled_def by (intro labelled_wfD(1))
qed

lemma metric_new_base: "metric_base R (metric_new R)"
  by (simp add: metric_base_def metric_labelled_def metric_new_def samples_sorted_def metric_count_def)

lemma metric_clear_base: "metric_base R (metric_clear R s)"
  by (simp add: metric_base_def metric_labelled_def metric_clear_def samples_sorted_def metric_count_def)

section \<open>Dropping a series\<close>

lemma metric_drop_series_fields [simp]:
  "mt_series (metric_drop_series x s) = hm_remove x (mt_series s)"
  "mt_interner (metric_drop_series x s) = mt_interner s"
  "mt_total_samples (metric_drop_series x s) = mt_total_samples s"
  "mt_next_series_id (metric_drop_series x s) = mt_next_series_id s"
  by (auto simp: metric_drop_series_def delete_idem map_of_eq_None_iff split: option.split prod.split)

lemma metric_drop_series_labelled:
  assumes "metric_labelled R s"
  shows "metric_labelled R (metric_drop_series x s)"
proof (cases "hm_get (mt_series s) x")
  case None
  with assms show ?thesis by (simp add: metric_drop_series_def)
next
  case (Some se)
  obtain idx vals where rem: "remove_from_label_indexes (mt_label_index s) (mt_label_values s)
      (ms_labels se) x = (idx, vals)" by force
  from assms [unfolded metric_labelled_def] Some rem
  have "labelled_wf R (mt_interner s) ms_labels (hm_remove x (mt_series s))
      (hm_remove (ms_labels se) (mt_series_ids s)) (mt_next_series_id s) idx vals"
    by (rule labelled_wf_drop)
  with Some rem show ?thesis by (simp add: metric_drop_series_def metric_labelled_def)
qed

lemma samples_sorted_remove: "samples_sorted series \<Longrightarrow> samples_sorted (hm_remove x series)"
  by (simp add: samples_sorted_def hm_simps)

lemma metric_count_remove:
  assumes "hm_wf series" and "hm_get series x = Some se"
  shows "metric_count series = length (ms_samples se) + metric_count (hm_remove x series)"
  unfolding metric_count_def by (rule sum_values_remove [OF assms])

lemma metric_drop_empty_base:
  assumes "metric_base R s" and "\<And>se. hm_get (mt_series s) x = Some se \<Longrightarrow> ms_samples se = []"
  shows "metric_base R (metric_drop_series x s)"
proof -
  note D = metric_baseD [OF assms(1)]
  have "metric_count (hm_remove x (mt_series s)) = metric_count (mt_series s)"
  proof (cases "hm_get (mt_series s) x")
    case None
    then show ?thesis by (simp add: delete_idem map_of_eq_None_iff)
  next
    case (Some se)
    with metric_count_remove [OF D(4) Some] assms(2) show ?thesis by simp
  qed
  with D(3) samples_sorted_remove [OF D(2)] metric_drop_series_labelled [OF D(1)] show ?thesis
    by (simp add: metric_base_def)
qed

lemma fold_metric_drop:
  assumes "metric_base R s"
    and "\<forall>x \<in> set xs. \<forall>se. hm_get (mt_series s) x = Some se \<longrightarrow> ms_samples se = []"
  shows "metric_base R (fold metric_drop_series xs s) \<and>
    hm_get (mt_series (fold metric_drop_series xs s)) =
      (\<lambda>x. if x \<in> set xs then None else hm_get (mt_series s) x) \<and>
    mt_interner (fold metric_drop_series xs s) = mt_interner s \<and>
    mt_total_samples (fold metric_drop_series xs s) = mt_total_samples s"
  using assms
proof (induction xs arbitrary: s)
  case Nil
  then show ?case by simp
next
  case (Cons x xs)
  have base: "metric_base R (metric_drop_series x s)"
    using Cons.prems by (intro metric_drop_empty_base) auto
  have "\<forall>y \<in> set xs. \<forall>se. hm_get (mt_series (metric_drop_series x s)) y = Some se \<longrightarrow> ms_samples se = []"
    using Cons.prems(2) by (simp add: hm_simps)
  from Cons.IH [OF base this] show ?case
    by (auto simp: fun_eq_iff hm_simps)
qed

section \<open>Ingest\<close>

lemma samples_sortedD:
  "samples_sorted series \<Longrightarrow> hm_get series x = Some se \<Longrightarrow> sorted (map sm_timestamp_ms (ms_samples se))"
  unfolding samples_sorted_def by blast

lemma metric_append_sorts:
  assumes "sorted (map sm_timestamp_ms (ms_samples se))"
  shows "metric_append samples se = se\<lparr>ms_samples := sort_key sm_timestamp_ms (ms_samples se @ samples)\<rparr>"
  using append_batch_sorts [OF assms, of samples] by (simp add: metric_append_def Let_def)

text \<open>Finding or allocating the series changes neither view nor count.\<close>

lemma metric_allocate_spec:
  fixes s :: "'i metric_store"
  assumes laws: "rodeo_laws R" and wf: "metric_base R s" and room: "mt_next_series_id s < u64_max"
    and intern: "intern_label_pairs R (mt_interner s) labels = (i, ls)"
  defines "s1 \<equiv> s\<lparr>mt_interner := i, mt_label_values := track_label_values (mt_label_values s) ls\<rparr>"
  assumes alloc: "metric_allocate ls s1 = (s2, x)"
  obtains se where "metric_base R s2" and "metric_view R s2 = metric_view R s"
    and "hm_get (mt_series s2) x = Some se"
    and "label_fun (resolve_labels R (mt_interner s2) (ms_labels se)) = label_fun labels"
proof -
  note base = metric_baseD [OF wf]
  note spec = intern_label_pairs_spec [OF laws intern]
  note key = intern_label_pairs_key [OF laws intern]
  have wf_i: "labelled_wf R i ms_labels (mt_series s) (mt_series_ids s)
      (mt_next_series_id s) (mt_label_index s) (mt_label_values s)"
    using base(1) unfolding metric_labelled_def by (rule labelled_wf_extends [OF laws spec(1)])
  have view_i: "metric_view R s = series_view R i ms_labels ms_samples (mt_series s)"
    using base(1) series_view_extends [OF laws spec(1)]
    unfolding metric_labelled_def metric_view_def by metis
  show ?thesis
  proof (cases "hm_get (mt_series_ids s) ls")
    case (Some y)
    then have res: "s2 = s1" "x = y"
      using alloc by (simp_all add: metric_allocate_def s1_def)
    from wf_i Some obtain se where se: "hm_get (mt_series s) y = Some se" "ms_labels se = ls"
      and track: "labelled_wf R i ms_labels (mt_series s) (mt_series_ids s) (mt_next_series_id s)
        (mt_label_index s) (track_label_values (mt_label_values s) ls)"
      by (rule labelled_known)
    from track have "metric_labelled R s2" by (simp add: res s1_def metric_labelled_def)
    with base have "metric_base R s2"
      by (simp add: metric_base_def res s1_def)
    moreover have "metric_view R s2 = metric_view R s"
      by (simp add: view_i) (simp add: metric_view_def res s1_def)
    ultimately show ?thesis
      using that [of se] se key by (simp add: res s1_def)
  next
    case None
    let ?n = "mt_next_series_id s"
    let ?se = "\<lparr>ms_labels = ls, ms_samples = []\<rparr>"
    have n: "u64_saturating_add ?n 1 = Suc ?n"
      using room by (simp add: u64_saturating_add_def)
    have res: "x = ?n" "s2 = s1\<lparr>mt_next_series_id := Suc ?n,
        mt_series_ids := hm_insert ls ?n (mt_series_ids s),
        mt_series := hm_insert ?n ?se (mt_series s),
        mt_label_index := index_insert (mt_label_index s) ls ?n\<rparr>"
      using alloc None n by (auto simp: metric_allocate_def s1_def Let_def)
    have new: "ms_labels ?se = ls" "ms_samples ?se = []" by simp_all
    note fresh = labelled_fresh [where lab = ms_labels and dat = ms_samples and s = ?se, OF wf_i None new(1) spec(2,4) new(2)]
    note lwf = fresh(1) and none = fresh(2)
    have series: "mt_series s2 = hm_insert ?n ?se (mt_series s)" "mt_interner s2 = i"
      by (simp_all add: res s1_def)
    have "metric_labelled R s2"
      using lwf by (simp add: metric_labelled_def res s1_def)
    moreover have "samples_sorted (mt_series s2)"
      using base(2) by (simp add: series samples_sorted_def hm_simps)
    moreover have "mt_total_samples s2 = metric_count (mt_series s2)"
      using base(3) sum_values_insert_new [OF none, of "\<lambda>se. length (ms_samples se)" ?se]
      by (simp add: res s1_def metric_count_def)
    moreover have "metric_view R s2 = metric_view R s"
      using fresh(3) by (simp add: view_i) (simp add: metric_view_def series)
    ultimately show ?thesis
      using that [of ?se] key by (simp add: metric_base_def series res(1) hm_simps)
  qed
qed

definition name_label :: "string \<Rightarrow> (string \<times> string) list \<Rightarrow> (string \<times> string) list" where
  "name_label name labels = (''__name__'', name) # labels"

lemma ingest_samples_correct:
  assumes laws: "rodeo_laws R" and wf: "metric_base R s" and room: "mt_next_series_id s < u64_max"
  shows "metric_base R (ingest_samples R name labels samples s) \<and>
    metric_view R (ingest_samples R name labels samples s) =
      (metric_view R s)(label_fun (name_label name labels) :=
        sort_key sm_timestamp_ms (metric_view R s (label_fun (name_label name labels)) @ samples))"
proof -
  obtain i ls where intern: "intern_label_pairs R (mt_interner s) (name_label name labels) = (i, ls)" by force
  let ?s1 = "s\<lparr>mt_interner := i, mt_label_values := track_label_values (mt_label_values s) ls\<rparr>"
  obtain s2 x where alloc: "metric_allocate ls ?s1 = (s2, x)" by force
  from laws wf room intern alloc obtain se where wf2: "metric_base R s2" and view2: "metric_view R s2 = metric_view R s"
    and se: "hm_get (mt_series s2) x = Some se"
    and key: "label_fun (resolve_labels R (mt_interner s2) (ms_labels se)) = label_fun (name_label name labels)"
    by (rule metric_allocate_spec)
  note base = metric_baseD [OF wf2]
  let ?se = "metric_append samples se" and ?s = "ingest_samples R name labels samples s"
  have se': "?se = se\<lparr>ms_samples := sort_key sm_timestamp_ms (ms_samples se @ samples)\<rparr>"
    by (rule metric_append_sorts [OF samples_sortedD [OF base(2) se]])
  have res: "?s = s2\<lparr>mt_series := hm_insert x ?se (mt_series s2),
      mt_total_samples := mt_total_samples s2 + length samples\<rparr>"
    using intern alloc se by (simp add: ingest_samples_def name_label_def)
  have lwf: "labelled_wf R (mt_interner s2) ms_labels (hm_insert x ?se (mt_series s2))
      (mt_series_ids s2) (mt_next_series_id s2) (mt_label_index s2) (mt_label_values s2)"
    using base(1) unfolding metric_labelled_def
    by (rule labelled_wf_same_items) (simp_all add: hm_wf_insert [OF base(4)] items_of_update [OF se] se')
  have "metric_labelled R ?s"
    using lwf by (simp add: metric_labelled_def res)
  moreover have "samples_sorted (mt_series ?s)"
    using base(2) by (simp add: res samples_sorted_def hm_simps se')
  moreover have "mt_total_samples ?s = metric_count (mt_series ?s)"
    using base(3) sum_values_update [OF base(4) se, of "\<lambda>se. length (ms_samples se)" ?se]
    by (simp add: res metric_count_def se')
  moreover have "metric_view R ?s = (metric_view R s)(label_fun (name_label name labels) :=
      sort_key sm_timestamp_ms (metric_view R s (label_fun (name_label name labels)) @ samples))"
  proof -
    have "ms_samples se = metric_view R s (label_fun (name_label name labels))"
      using base(1) series_view_item [of R _ ms_labels _ _ _ _ _ x se ms_samples] se key view2
      unfolding metric_labelled_def metric_view_def by metis
    moreover have "metric_view R ?s = (metric_view R s2)(label_fun (name_label name labels) := ms_samples ?se)"
      using series_view_write [OF base(1) [unfolded metric_labelled_def] lwf, of ms_samples] se key
      by (simp add: metric_view_def res se')
    ultimately show ?thesis by (simp add: view2 se')
  qed
  ultimately show ?thesis by (simp add: metric_base_def)
qed

section \<open>Pruning\<close>

lemma prune_fields [simp]:
  "mt_series (prune_orphaned_metadata R s) = mt_series s"
  "mt_interner (prune_orphaned_metadata R s) = mt_interner s"
  "mt_name_sources (prune_orphaned_metadata R s) = mt_name_sources s"
  "mt_series (prune_names R s) = mt_series s"
  "mt_interner (prune_names R s) = mt_interner s"
  by (simp_all add: prune_orphaned_metadata_def prune_names_def split: option.split)

lemma prune_base [simp]:
  "metric_base R (prune_orphaned_metadata R s) = metric_base R s"
  "metric_base R (prune_names R s) = metric_base R s"
  by (simp_all add: prune_orphaned_metadata_def prune_names_def metric_base_def metric_labelled_def
      split: option.split)

section \<open>Eviction by age\<close>

definition drained_series :: "i64 \<Rightarrow> metric_series \<Rightarrow> metric_series" where
  "drained_series cutoff se = se\<lparr>ms_samples := dropWhile (\<lambda>e. sm_timestamp_ms e < cutoff) (ms_samples se)\<rparr>"

lemma evict_series_eq:
  "evict_series cutoff series n =
     (map (\<lambda>(x, se). (x, drained_series cutoff se)) series,
      n - sum_list (map (\<lambda>se. length (ms_samples se) - length (ms_samples (drained_series cutoff se)))
        (hm_values series)),
      map fst (filter (\<lambda>(x, se). ms_samples (drained_series cutoff se) = []) series))"
proof (induction series arbitrary: n)
  case Nil
  show ?case by simp
next
  case (Cons p series)
  obtain x se where p: "p = (x, se)" by force
  have d: "se\<lparr>ms_samples := drop (partition_point (\<lambda>e. sm_timestamp_ms e < cutoff) (ms_samples se))
      (ms_samples se)\<rparr> = drained_series cutoff se"
    by (simp add: drained_series_def)
  show ?case
    unfolding p evict_series.simps Let_def d Cons.IH prod.case by simp
qed

lemma drained_series_count:
  "sum_list (map (\<lambda>se. length (ms_samples se)) sts) -
     sum_list (map (\<lambda>se. length (ms_samples se) - length (ms_samples (drained_series c se))) sts) =
   sum_list (map (\<lambda>se. length (ms_samples (drained_series c se))) sts)" (is "?a sts - ?b sts = ?c sts")
proof -
  have "?b sts + ?c sts = ?a sts"
  proof (induction sts)
    case Nil
    show ?case by simp
  next
    case (Cons se sts)
    have "length (ms_samples (drained_series c se)) \<le> length (ms_samples se)"
      by (simp add: drained_series_def length_dropWhile_le)
    with Cons.IH show ?case by simp
  qed
  then show ?thesis by simp
qed

lemma metric_evict_before_correct:
  assumes wf: "metric_base R s"
  shows "metric_base R (metric_evict_before R cutoff s) \<and>
    metric_view R (metric_evict_before R cutoff s) =
      (\<lambda>f. filter (\<lambda>e. cutoff \<le> sm_timestamp_ms e) (metric_view R s f))"
proof -
  note base = metric_baseD [OF wf]
  let ?m = "map (\<lambda>(x, se). (x, drained_series cutoff se)) (mt_series s)"
  let ?em = "map fst (filter (\<lambda>(x, se). ms_samples (drained_series cutoff se) = []) (mt_series s))"
  define n where n: "n = sum_list (map (\<lambda>se. length (ms_samples (drained_series cutoff se))) (hm_values (mt_series s)))"
  have ev: "evict_series cutoff (mt_series s) (mt_total_samples s) = (?m, n, ?em)"
    unfolding evict_series_eq base(3) metric_count_def drained_series_count n ..
  let ?s1 = "s\<lparr>mt_series := ?m, mt_total_samples := n\<rparr>"
  let ?s2 = "fold metric_drop_series ?em ?s1"
  have res: "metric_evict_before R cutoff s = prune_orphaned_metadata R ?s2"
    by (simp add: metric_evict_before_def ev)
  have sorted: "sorted (map sm_timestamp_ms (ms_samples se))" if "hm_get (mt_series s) x = Some se" for x se
    using base(2) that by (rule samples_sortedD)
  have filt: "ms_samples (drained_series cutoff se) = filter (\<lambda>e. cutoff \<le> sm_timestamp_ms e) (ms_samples se)"
    if "hm_get (mt_series s) x = Some se" for x se
    unfolding drained_series_def
    using dropWhile_sorted_filter [OF sorted [OF that], of "\<lambda>e. sm_timestamp_ms e < cutoff"]
    by (simp add: not_less)
  have get: "hm_get ?m x = map_option (drained_series cutoff) (hm_get (mt_series s) x)" for x
    by (rule hm_get_map_values)
  have "labelled_wf R (mt_interner s) ms_labels ?m (mt_series_ids s) (mt_next_series_id s)
      (mt_label_index s) (mt_label_values s)"
    using base(1) unfolding metric_labelled_def
  proof (rule labelled_wf_same_items)
    show "hm_wf ?m"
      using hm_wf_map_values [where m = "mt_series s" and f = "\<lambda>_. drained_series cutoff"] base(4)
      by (simp only:)
    show "items_of ms_labels ?m = items_of ms_labels (mt_series s)"
      by (rule items_of_map_values) (simp add: drained_series_def)
  qed
  moreover have "samples_sorted ?m"
    unfolding samples_sorted_def
  proof (intro allI impI)
    fix x u assume "hm_get ?m x = Some u"
    then obtain se where "hm_get (mt_series s) x = Some se" "u = drained_series cutoff se"
      unfolding get by auto
    then show "sorted (map sm_timestamp_ms (ms_samples u))"
      using sorted filt by (simp add: sorted_map_filter)
  qed
  moreover have "metric_count ?m = n"
    by (simp add: metric_count_def n comp_def case_prod_unfold)
  ultimately have base1: "metric_base R ?s1"
    by (simp add: metric_base_def metric_labelled_def)
  have empty: "\<forall>x \<in> set ?em. \<forall>u. hm_get (mt_series ?s1) x = Some u \<longrightarrow> ms_samples u = []"
  proof (intro ballI allI impI)
    fix x u assume x: "x \<in> set ?em" "hm_get (mt_series ?s1) x = Some u"
    then obtain se where "(x, se) \<in> set (mt_series s)" "ms_samples (drained_series cutoff se) = []"
      by auto
    then have "hm_get (mt_series s) x = Some se" "ms_samples (drained_series cutoff se) = []"
      by (simp_all only: hm_mem_iff [OF base(4)])
    with x(2) show "ms_samples u = []" by (simp add: get)
  qed
  note folded = fold_metric_drop [OF base1 empty]
  have drop: "metric_base R ?s2" "mt_interner ?s2 = mt_interner s"
    and drop3: "hm_get (mt_series ?s2) =
      (\<lambda>x. if x \<in> set ?em then None else hm_get (mt_series ?s1) x)"
    using folded by simp_all
  have get1: "hm_get (mt_series ?s1) x = map_option (drained_series cutoff) (hm_get (mt_series s) x)" for x
    by (simp add: get)
  have "metric_base R (metric_evict_before R cutoff s)"
    unfolding res by (simp add: drop(1))
  moreover have "metric_view R (metric_evict_before R cutoff s) f =
      filter (\<lambda>e. cutoff \<le> sm_timestamp_ms e) (metric_view R s f)" for f
  proof -
    have lwf2: "labelled_wf R (mt_interner s) ms_labels (mt_series ?s2) (mt_series_ids ?s2)
        (mt_next_series_id ?s2) (mt_label_index ?s2) (mt_label_values ?s2)"
      using metric_baseD(1) [OF drop(1)] by (simp only: metric_labelled_def drop(2))
    have view: "metric_view R (metric_evict_before R cutoff s) =
        series_view R (mt_interner s) ms_labels ms_samples (mt_series ?s2)"
      by (simp add: res metric_view_def drop(2))
    have kept: "\<exists>se. hm_get (mt_series s) x = Some se \<and> ms_labels u = ms_labels se \<and>
        ms_samples u = filter (\<lambda>e. cutoff \<le> sm_timestamp_ms e) (ms_samples se)"
      if u: "hm_get (mt_series ?s2) x = Some u" for x u
    proof -
      from u obtain se where "hm_get (mt_series s) x = Some se" "u = drained_series cutoff se"
        unfolding drop3 get1 by (auto split: if_splits)
      then show ?thesis using filt [of x se] by (simp add: drained_series_def)
    qed
    have gone: "[] = filter (\<lambda>e. cutoff \<le> sm_timestamp_ms e) (ms_samples se)"
      if x: "hm_get (mt_series s) x = Some se" and none: "hm_get (mt_series ?s2) x = None" for x se
    proof (cases "x \<in> set ?em")
      case True
      then obtain u where "(x, u) \<in> set (mt_series s)" "ms_samples (drained_series cutoff u) = []"
        by auto
      then have "hm_get (mt_series s) x = Some u" "ms_samples (drained_series cutoff u) = []"
        by (simp_all only: hm_mem_iff [OF base(4)])
      with x filt [OF x] show ?thesis by simp
    next
      case False
      with x none show ?thesis unfolding drop3 get1 by simp
    qed
    show ?thesis
      using series_view_shrink [where P = "\<lambda>_ d d'. d' = filter (\<lambda>e. cutoff \<le> sm_timestamp_ms e) d",
          OF base(1) [unfolded metric_labelled_def] lwf2 kept gone, where f = f]
      by (simp add: view) (simp add: metric_view_def)
  qed
  ultimately show ?thesis by blast
qed

section \<open>Removing series\<close>

lemma metric_remove_series_fields [simp]:
  "mt_series (metric_remove_series x s) = hm_remove x (mt_series s)"
  "mt_interner (metric_remove_series x s) = mt_interner s"
  "mt_name_sources (metric_remove_series x s) = mt_name_sources s"
  by (auto simp: metric_remove_series_def metric_drop_series_def delete_idem map_of_eq_None_iff
      split: option.split prod.split)

lemma metric_remove_series_base:
  assumes "metric_base R s"
  shows "metric_base R (metric_remove_series x s)"
proof (cases "hm_get (mt_series s) x")
  case None
  with assms show ?thesis by (simp add: metric_remove_series_def)
next
  case (Some se)
  note B = metric_baseD [OF assms]
  have "metric_labelled R (s\<lparr>mt_total_samples := n\<rparr>)" for n
    using B(1) by (simp add: metric_labelled_def)
  from metric_drop_series_labelled [OF this, of x] Some
  have "metric_labelled R (metric_remove_series x s)" by (simp add: metric_remove_series_def)
  with B(3) Some metric_count_remove [OF B(4) Some] samples_sorted_remove [OF B(2), of x] show ?thesis
    by (simp add: metric_base_def) (simp add: metric_remove_series_def)
qed

lemma metric_remove_many:
  "(metric_base R s \<longrightarrow> metric_base R (fold metric_remove_series xs s)) \<and>
   mt_interner (fold metric_remove_series xs s) = mt_interner s \<and>
   mt_name_sources (fold metric_remove_series xs s) = mt_name_sources s \<and>
   hm_get (mt_series (fold metric_remove_series xs s)) =
     (\<lambda>x. if x \<in> set xs then None else hm_get (mt_series s) x)"
  by (induction xs arbitrary: s) (auto simp: metric_remove_series_base fun_eq_iff hm_simps)

text \<open>Keeping some series whole and losing others: the view of each label set stays or empties.\<close>

lemma metric_view_restrict:
  assumes wf: "metric_base R s" and wf': "metric_base R s'" and i: "mt_interner s' = mt_interner s"
    and get: "\<And>x. hm_get (mt_series s') x = (if P x then None else hm_get (mt_series s) x)"
    and key: "\<And>x se. hm_get (mt_series s) x = Some se \<Longrightarrow>
      (if P x then Q (label_fun (resolve_labels R (mt_interner s) (ms_labels se))) (ms_samples se) []
       else Q (label_fun (resolve_labels R (mt_interner s) (ms_labels se))) (ms_samples se) (ms_samples se))"
    and idle: "Q f [] []"
  shows "Q f (metric_view R s f) (metric_view R s' f)"
  unfolding metric_view_def i
proof (rule series_view_shrink [where P = Q,
      OF metric_baseD(1) [OF wf, unfolded metric_labelled_def]
         metric_baseD(1) [OF wf', unfolded metric_labelled_def i]])
  fix x u assume "hm_get (mt_series s') x = Some u"
  then have "\<not> P x" "hm_get (mt_series s) x = Some u"
    unfolding get by (auto split: if_splits)
  with key [of x u] show "\<exists>se. hm_get (mt_series s) x = Some se \<and> ms_labels u = ms_labels se \<and>
      Q (label_fun (resolve_labels R (mt_interner s) (ms_labels se))) (ms_samples se) (ms_samples u)"
    by simp
next
  fix x se assume "hm_get (mt_series s) x = Some se" "hm_get (mt_series s') x = None"
  with key [of x se] show "Q (label_fun (resolve_labels R (mt_interner s) (ms_labels se))) (ms_samples se) []"
    unfolding get by (auto split: if_splits)
qed (rule idle)

section \<open>Eviction by count\<close>

lemma metric_evict_to_max_correct:
  fixes R :: "'i rodeo_ops" and k :: usize
  assumes wf: "metric_base R s"
  defines "s' \<equiv> metric_evict_to_max R k s"
  shows "metric_base R s'"
    and "length (mt_series s') = min k (length (mt_series s))"
    and "metric_view R s' f \<in> {metric_view R s f, []}"
    and "hm_get (mt_series s) x \<noteq> None \<Longrightarrow> hm_get (mt_series s') x = None \<Longrightarrow>
      hm_get (mt_series s') y \<noteq> None \<Longrightarrow> first_sample_ms s x \<le> first_sample_ms s y"
proof -
  note B = metric_baseD [OF wf]
  let ?n = "length (mt_series s)"
  let ?ys = "sort_key (first_sample_ms s) (hm_keys (mt_series s))"
  let ?xs = "take (?n - k) ?ys"
  have all: "metric_base R s' \<and> length (mt_series s') = min k ?n \<and> mt_interner s' = mt_interner s \<and>
    (\<exists>P. (\<forall>x. hm_get (mt_series s') x = (if P x then None else hm_get (mt_series s) x)) \<and>
      (\<forall>x y. P x \<longrightarrow> \<not> P y \<longrightarrow> hm_get (mt_series s) y \<noteq> None \<longrightarrow> first_sample_ms s x \<le> first_sample_ms s y))"
  proof (cases "?n \<le> k")
    case True
    then have "s' = s" by (simp add: s'_def metric_evict_to_max_def)
    with wf True show ?thesis by (intro conjI exI [of _ "\<lambda>_. False"]) simp_all
  next
    case False
    let ?s = "fold metric_remove_series ?xs s"
    have s': "s' = prune_orphaned_metadata R ?s"
      using False by (simp add: s'_def metric_evict_to_max_def)
    note many = metric_remove_many [of R s ?xs]
    have get: "hm_get (mt_series s') = (\<lambda>x. if x \<in> set ?xs then None else hm_get (mt_series s) x)"
      unfolding s' prune_fields using many by blast
    have base: "metric_base R s'" using many wf by (simp add: s')
    have keys: "set (hm_keys (mt_series s')) = set ?ys - set ?xs"
    proof (rule set_eqI)
      fix x
      have "x \<in> set (hm_keys (mt_series s')) \<longleftrightarrow> x \<notin> set ?xs \<and> x \<in> set (hm_keys (mt_series s))"
        unfolding hm_key_iff get by simp
      then show "x \<in> set (hm_keys (mt_series s')) \<longleftrightarrow> x \<in> set ?ys - set ?xs" by auto
    qed
    have dist: "distinct ?ys" using B(4) by simp
    have len: "length (mt_series s') = min k ?n"
    proof -
      have "length (mt_series s') = card (set (hm_keys (mt_series s')))"
        using distinct_card [OF metric_baseD(4) [OF base]] by simp
      also have "\<dots> = card (set ?ys) - card (set ?xs)"
        unfolding keys by (rule card_Diff_subset) (auto dest: in_set_takeD)
      also have "\<dots> = length ?ys - length ?xs"
        unfolding distinct_card [OF dist] distinct_card [OF distinct_take [OF dist]] ..
      also have "\<dots> = min k ?n" using False by simp
      finally show ?thesis .
    qed
    have order: "first_sample_ms s x \<le> first_sample_ms s y"
      if "x \<in> set ?xs" "y \<notin> set ?xs" "hm_get (mt_series s) y \<noteq> None" for x y
    proof -
      have "y \<in> set ?ys" using that(3) unfolding hm_key_iff [symmetric] by simp
      moreover have split: "?ys = ?xs @ drop (?n - k) ?ys" by simp
      ultimately have "y \<in> set (drop (?n - k) ?ys)"
        using that(2) by (metis Un_iff set_append)
      moreover have "sorted (map (first_sample_ms s) (?xs @ drop (?n - k) ?ys))"
        unfolding split [symmetric] by (rule sorted_sort_key)
      ultimately show ?thesis
        using that(1) unfolding map_append sorted_append by (metis imageI set_map)
    qed
    from base len many get order show ?thesis
      by (intro conjI exI [of _ "\<lambda>x. x \<in> set ?xs"]) (simp_all add: s')
  qed
  then obtain P where P: "\<And>x. hm_get (mt_series s') x = (if P x then None else hm_get (mt_series s) x)"
    and ord: "\<And>x y. P x \<Longrightarrow> \<not> P y \<Longrightarrow> hm_get (mt_series s) y \<noteq> None \<Longrightarrow>
      first_sample_ms s x \<le> first_sample_ms s y" by blast
  show "metric_base R s'" "length (mt_series s') = min k ?n" using all by blast+
  have i: "mt_interner s' = mt_interner s" using all by blast
  show "metric_view R s' f \<in> {metric_view R s f, []}"
    using metric_view_restrict [where Q = "\<lambda>_ d d'. d' \<in> {d, []}" and P = P and f = f, OF wf _ i P]
      all by simp
  show "first_sample_ms s x \<le> first_sample_ms s y" if "hm_get (mt_series s) x \<noteq> None"
    "hm_get (mt_series s') x = None" "hm_get (mt_series s') y \<noteq> None"
    using that ord [of x y] unfolding P by (auto split: if_splits)
qed

subsection \<open>The retention contract\<close>

lemma length_fold_metric_drop:
  "length (mt_series (fold metric_drop_series xs s)) \<le> length (mt_series s)"
proof (induction xs arbitrary: s)
  case (Cons x xs)
  have "length (hm_remove x (mt_series s)) \<le> length (mt_series s)"
    by (simp add: AList.delete_eq)
  with Cons [of "metric_drop_series x s"] show ?case by simp
qed simp

lemma prune_metadata_series: "mt_series (prune_orphaned_metadata R s) = mt_series s"
  by (simp add: prune_orphaned_metadata_def Let_def split: option.split)

lemma length_evict_series: "length (fst (evict_series cutoff series n)) = length series"
  unfolding evict_series_eq by simp

interpretation metric_retention: retained_store "metric_base R" "metric_view R" sm_timestamp_ms
    "\<lambda>s. length (mt_series s)" "metric_evict_before R" "metric_evict_to_max R" for R :: "'i rodeo_ops"
proof unfold_locales
  fix s :: "'i metric_store" and c k n
  assume wf: "metric_base R s"
  show "metric_base R (metric_evict_before R c s)"
    "metric_view R (metric_evict_before R c s) k = filter (\<lambda>e. c \<le> sm_timestamp_ms e) (metric_view R s k)"
    using metric_evict_before_correct [OF wf] by auto
  show "metric_base R (metric_evict_to_max R n s)" "length (mt_series (metric_evict_to_max R n s)) \<le> n"
    using metric_evict_to_max_correct(1,2) [OF wf] by auto
  show "set (metric_view R (metric_evict_to_max R n s) k) \<subseteq> set (metric_view R s k)"
    using metric_evict_to_max_correct(3) [OF wf, of n k] by auto
  show "length (mt_series (metric_evict_before R c s)) \<le> length (mt_series s)"
  proof -
    obtain series tally em where ev: "evict_series c (mt_series s) (mt_total_samples s) = (series, tally, em)"
      by (rule prod_cases3)
    with length_evict_series [of c "mt_series s" "mt_total_samples s"]
    have "length series = length (mt_series s)" by simp
    then show ?thesis
      using length_fold_metric_drop [of em "s\<lparr>mt_series := series, mt_total_samples := tally\<rparr>"]
      by (simp add: metric_evict_before_def ev prune_metadata_series)
  qed
qed (simp add: metric_evict_to_max_def)

section \<open>Clearing a service\<close>

lemma metric_clear_service_correct:
  assumes laws: "rodeo_laws R" and wf: "metric_base R s"
  shows "metric_base R (metric_clear_service R service s) \<and>
    metric_view R (metric_clear_service R service s) =
      (\<lambda>f. if service \<in> set (f ''service'') then [] else metric_view R s f)"
proof -
  note B = metric_baseD [OF wf]
  note L = B(1) [unfolded metric_labelled_def]
  let ?s = "metric_clear_service R service s"
  let ?has = "\<lambda>se. service \<in> set (label_fun (resolve_labels R (mt_interner s) (ms_labels se)) ''service'')"
  let ?P = "\<lambda>x. \<exists>se. hm_get (mt_series s) x = Some se \<and> ?has se"
  have iff: "?has se \<longleftrightarrow>
      (\<exists>k w. rd_get R (mt_interner s) ''service'' = Some k \<and> rd_get R (mt_interner s) service = Some w
        \<and> (k, w) \<in> set (ms_labels se))" if "hm_get (mt_series s) x = Some se" for x se
    by (rule service_label_iff [OF laws labelled_wfD(5) [OF L that]])
  note ids = label_index_ids [OF L]
  have spec: "metric_base R ?s \<and> mt_interner ?s = mt_interner s \<and>
    hm_get (mt_series ?s) = (\<lambda>x. if ?P x then None else hm_get (mt_series s) x)"
  proof (cases "\<exists>k v pl. rd_get R (mt_interner s) ''service'' = Some k \<and>
      rd_get R (mt_interner s) service = Some v \<and> hm_get (mt_label_index s) (k, v) = Some pl")
    case False
    then have "?s = s" by (auto simp: metric_clear_service_def split: option.split)
    moreover have "\<not> ?P x" for x
    proof
      assume "?P x"
      then obtain se where se: "hm_get (mt_series s) x = Some se" "?has se" by blast
      then obtain k w where kw: "rd_get R (mt_interner s) ''service'' = Some k"
        "rd_get R (mt_interner s) service = Some w" "(k, w) \<in> set (ms_labels se)"
        using iff [OF se(1)] by blast
      then have "x \<in> posting_of (mt_label_index s) (k, w)" using ids se(1) by blast
      then have "hm_get (mt_label_index s) (k, w) \<noteq> None"
        by (cases "hm_get (mt_label_index s) (k, w)") (auto simp: posting_of_def)
      with kw False show False by blast
    qed
    then have "hm_get (mt_series s) = (\<lambda>x. if ?P x then None else hm_get (mt_series s) x)"
      by (intro ext) (simp only: if_False)
    ultimately show ?thesis using wf by simp
  next
    case True
    then obtain k v pl where kv: "rd_get R (mt_interner s) ''service'' = Some k"
      "rd_get R (mt_interner s) service = Some v" "hm_get (mt_label_index s) (k, v) = Some pl" by blast
    have s: "?s = prune_names R (fold metric_remove_series (pl_ids pl) s)"
      using kv by (simp add: metric_clear_service_def)
    have "x \<in> set (pl_ids pl) \<longleftrightarrow> ?P x" for x
    proof -
      have "x \<in> set (pl_ids pl) \<longleftrightarrow> (\<exists>se. hm_get (mt_series s) x = Some se \<and> (k, v) \<in> set (ms_labels se))"
        using ids [of "(k, v)"] kv(3) by (auto simp: posting_of_def pl_set_def)
      also have "\<dots> \<longleftrightarrow> ?P x" using iff [of x] kv(1,2) by auto
      finally show ?thesis .
    qed
    then have "hm_get (mt_series ?s) = (\<lambda>x. if ?P x then None else hm_get (mt_series s) x)"
      unfolding s prune_fields using metric_remove_many [of R s "pl_ids pl"] by simp
    with metric_remove_many [of R s "pl_ids pl"] wf show ?thesis by (simp add: s)
  qed
  then have base: "metric_base R ?s" and i: "mt_interner ?s = mt_interner s"
    and get: "hm_get (mt_series ?s) x = (if ?P x then None else hm_get (mt_series s) x)" for x
    by (simp_all only: simp_thms)
  have "metric_view R ?s f = (if service \<in> set (f ''service'') then [] else metric_view R s f)" for f
  proof (rule metric_view_restrict [where P = ?P and f = f and
        Q = "\<lambda>f d d'. d' = (if service \<in> set (f ''service'') then [] else d)", OF wf base i get])
    fix x se assume x: "hm_get (mt_series s) x = Some se"
    let ?f = "label_fun (resolve_labels R (mt_interner s) (ms_labels se))"
    show "if ?P x then [] = (if service \<in> set (?f ''service'') then [] else ms_samples se)
      else ms_samples se = (if service \<in> set (?f ''service'') then [] else ms_samples se)"
      using x by simp
  qed simp
  with base show ?thesis by blast
qed

section \<open>Rebuilding after a restore\<close>

lemma metric_rebuild_fields:
  "metric_rebuild_series_ids s =
     (let m = fold (rebuild_step ms_labels (mt_series s)) (sort (hm_keys (mt_series s))) ([], 0)
      in s\<lparr>mt_series_ids := fst m, mt_next_series_id := snd m\<rparr>)"
proof -
  have "fold (\<lambda>x s. case hm_get (mt_series s) x of
                   None \<Rightarrow> s
                 | Some se \<Rightarrow> s\<lparr>mt_series_ids := hm_insert (ms_labels se) x (mt_series_ids s),
                     mt_next_series_id := max (mt_next_series_id s) (u64_saturating_add x 1)\<rparr>) xs
      (s\<lparr>mt_series_ids := a, mt_next_series_id := n\<rparr>) =
    (let m = fold (rebuild_step ms_labels (mt_series s)) xs (a, n)
     in s\<lparr>mt_series_ids := fst m, mt_next_series_id := snd m\<rparr>)" for xs a n
    by (induction xs arbitrary: a n) (simp_all add: rebuild_step_def split: option.split)
  then show ?thesis by (simp add: metric_rebuild_series_ids_def)
qed

lemma metric_rebuild_correct:
  assumes wf: "metric_base R s" and room: "mt_next_series_id s \<le> u64_max"
  shows "metric_base R (metric_rebuild_series_ids (s\<lparr>mt_series_ids := a, mt_next_series_id := n\<rparr>)) \<and>
    metric_view R (metric_rebuild_series_ids (s\<lparr>mt_series_ids := a, mt_next_series_id := n\<rparr>)) =
      metric_view R s"
proof -
  note B = metric_baseD [OF wf]
  obtain ids nxt where fold:
    "fold (rebuild_step ms_labels (mt_series s)) (sort (hm_keys (mt_series s))) ([], 0) = (ids, nxt)"
    by force
  have r: "metric_rebuild_series_ids (s\<lparr>mt_series_ids := a, mt_next_series_id := n\<rparr>) =
      s\<lparr>mt_series_ids := ids, mt_next_series_id := nxt\<rparr>"
    using fold by (simp add: metric_rebuild_fields)
  have "metric_labelled R (s\<lparr>mt_series_ids := ids, mt_next_series_id := nxt\<rparr>)"
    using labelled_wf_rebuild [OF B(1) [unfolded metric_labelled_def] room fold]
    by (simp add: metric_labelled_def)
  with B show ?thesis unfolding r by (simp add: metric_base_def metric_view_def)
qed

section \<open>Queries\<close>

lemma get_samples_spec:
  assumes "metric_base R s" and "hm_get (mt_series s) x = Some se"
  shows "get_samples s x a b =
    (if \<exists>p \<in> set (ms_samples se). b < sm_timestamp_ms p \<and> sm_timestamp_ms p < a
     then Inl (SliceIndexOrder (length (filter (\<lambda>p. sm_timestamp_ms p < a) (ms_samples se)))
                (length (filter (\<lambda>p. sm_timestamp_ms p \<le> b) (ms_samples se))))
     else Inr (filter (\<lambda>p. a \<le> sm_timestamp_ms p \<and> sm_timestamp_ms p \<le> b) (ms_samples se)))"
  using slice_partition_points [OF samples_sortedD [OF metric_baseD(2) [OF assms(1)] assms(2)], of a b] assms(2)
  by (simp add: get_samples_def)

lemma select_series_spec:
  assumes "rodeo_laws R" and "metric_base R s" and "\<forall>m \<in> set ms. matcher_valid X m"
  shows "set (select_series R X s ms) =
    {x. \<exists>se. hm_get (mt_series s) x = Some se \<and>
      (\<forall>m \<in> set ms. matcher_holds X (resolve_labels R (mt_interner s) (ms_labels se)) m)}"
  unfolding select_series_def
  by (rule select_stored_ids [OF assms(1) metric_baseD(1) [OF assms(2), unfolded metric_labelled_def] assms(3)])

lemma metric_label_values_spec:
  assumes "rodeo_laws R" and "metric_base R s"
  shows "v \<in> set (metric_label_values R s n) \<longleftrightarrow>
    (\<exists>x se. hm_get (mt_series s) x = Some se \<and> (n, v) \<in> set (resolve_labels R (mt_interner s) (ms_labels se)))"
  unfolding metric_label_values_def
  by (rule stored_label_values [OF assms(1) metric_baseD(1) [OF assms(2), unfolded metric_labelled_def]])

definition last_ms :: "metric_series \<Rightarrow> i64" where
  "last_ms se = sm_timestamp_ms (last (ms_samples se))"

lemma latest_sample_fold:
  "case fold (\<lambda>se m. if ms_samples se = [] then m
                 else (let t = sm_timestamp_ms (last (ms_samples se))
                       in Some (case m of None \<Rightarrow> t | Some u \<Rightarrow> max u t))) ses m of
     None \<Rightarrow> m = None \<and> (\<forall>se \<in> set ses. ms_samples se = [])
   | Some t \<Rightarrow> (m = Some t \<or> (\<exists>se \<in> set ses. ms_samples se \<noteq> [] \<and> t = last_ms se)) \<and>
       (\<forall>u. m = Some u \<longrightarrow> u \<le> t) \<and> (\<forall>se \<in> set ses. ms_samples se \<noteq> [] \<longrightarrow> last_ms se \<le> t)"
proof (induction ses arbitrary: m)
  case Nil
  show ?case by (simp split: option.split)
next
  case (Cons se ses)
  let ?m = "if ms_samples se = [] then m
    else (let t = sm_timestamp_ms (last (ms_samples se))
          in Some (case m of None \<Rightarrow> t | Some u \<Rightarrow> max u t))"
  show ?case
    using Cons.IH [of ?m]
    by (cases m) (auto simp: last_ms_def Let_def max_def split: option.splits if_splits)
qed

text \<open>The newest timestamp is attained by a stored sample, and no stored sample is newer.\<close>

lemma latest_sample_spec:
  assumes wf: "metric_base R s"
  shows "case latest_sample_timestamp_ms s of
      None \<Rightarrow> \<forall>x se. hm_get (mt_series s) x = Some se \<longrightarrow> ms_samples se = []
    | Some t \<Rightarrow> (\<exists>x se. hm_get (mt_series s) x = Some se \<and> t \<in> sm_timestamp_ms ` set (ms_samples se)) \<and>
        (\<forall>x se. hm_get (mt_series s) x = Some se \<longrightarrow> (\<forall>p \<in> set (ms_samples se). sm_timestamp_ms p \<le> t))"
proof -
  note B = metric_baseD [OF wf]
  have val: "se \<in> set (hm_values (mt_series s)) \<longleftrightarrow> (\<exists>x. hm_get (mt_series s) x = Some se)" for se
    using hm_mem_iff [OF B(4)] by force
  have last: "sm_timestamp_ms p \<le> last_ms se"
    if "hm_get (mt_series s) x = Some se" "p \<in> set (ms_samples se)" for x se p
  proof -
    from that(2) have ne: "ms_samples se \<noteq> []" by auto
    have "sorted (map sm_timestamp_ms (butlast (ms_samples se) @ [last (ms_samples se)]))"
      using samples_sortedD [OF B(2) that(1)] ne by simp
    moreover have "p \<in> set (butlast (ms_samples se) @ [last (ms_samples se)])"
      using that(2) ne by simp
    ultimately show ?thesis
      unfolding last_ms_def by (simp only: map_append sorted_append) auto
  qed
  note fold = latest_sample_fold [where m = None and ses = "hm_values (mt_series s)",
      folded latest_sample_timestamp_ms_def]
  show ?thesis
  proof (cases "latest_sample_timestamp_ms s")
    case None
    with fold show ?thesis unfolding Ball_def val by (simp only: option.case) blast
  next
    case (Some t)
    with fold obtain se where se: "se \<in> set (hm_values (mt_series s))" "ms_samples se \<noteq> []" "t = last_ms se"
      and le: "\<And>u. u \<in> set (hm_values (mt_series s)) \<Longrightarrow> ms_samples u \<noteq> [] \<Longrightarrow> last_ms u \<le> t"
      by auto
    have "sm_timestamp_ms p \<le> t" if "hm_get (mt_series s) x = Some u" "p \<in> set (ms_samples u)" for x u p
    proof -
      have "u \<in> set (hm_values (mt_series s))" using that(1) val by blast
      moreover have "ms_samples u \<noteq> []" using that(2) by auto
      ultimately show ?thesis using le last [OF that] order_trans by blast
    qed
    moreover have "t \<in> sm_timestamp_ms ` set (ms_samples se)" using se(2,3) by (simp add: last_ms_def)
    ultimately show ?thesis
      using se(1) unfolding val by (simp only: Some option.case) blast
  qed
qed

section \<open>Metric names\<close>

text \<open>Registrations refer to interned strings.\<close>

definition names_ok :: "'i rodeo_ops \<Rightarrow> 'i metric_store \<Rightarrow> bool" where
  "names_ok R s \<longleftrightarrow> (\<forall>n src. hm_get (mt_name_sources s) n = Some src \<longrightarrow>
     spur_ok R (mt_interner s) n \<and> spur_ok R (mt_interner s) src)"

lemma names_ok_extends:
  assumes "rodeo_laws R" and "names_ok R s" and "rd_extends R (mt_interner s) (mt_interner s')"
    and "mt_name_sources s' = mt_name_sources s"
  shows "names_ok R s'"
  using assms(2) spur_ok_extends(1) [OF assms(1,3)] unfolding names_ok_def assms(4) by blast

lemma register_metric_name_ok:
  assumes laws: "rodeo_laws R" and ok: "names_ok R s"
    and reg: "register_metric_name R n src s = (s', r)"
  shows "names_ok R s'" and "r = check_metric_name_collision R s n src"
    and "r = Inr () \<Longrightarrow> check_metric_name_collision R s' n src' =
      (if src' = src then Inr () else Inl (MetricNameCollision n src src'))"
proof -
  obtain i1 nk where 1: "rd_get_or_intern R (mt_interner s) n = (i1, nk)" by force
  obtain i2 sk where 2: "rd_get_or_intern R i1 src = (i2, sk)" by force
  have ext: "rd_extends R (mt_interner s) i1" "rd_extends R i1 i2"
    using rd_intern_extends [OF laws] 1 2 by blast+
  have get2: "rd_get R i2 src = Some sk" by (rule rd_intern_get [OF laws 2])
  have get1: "rd_get R i2 n = Some nk"
    using rd_intern_get [OF laws 1] ext(2) by (simp add: rd_extends_def)
  have ext': "rd_extends R (mt_interner s) i2" by (rule rd_extends_trans [OF ext])
  have known: "rd_get R (mt_interner s) n = Some k \<Longrightarrow> k = nk" for k
    using rd_intern_known [OF laws _ 1] by metis
  have src: "spur_ok R i2 e" "rd_resolve R i2 e = rd_resolve R (mt_interner s) e"
    "rd_get R (mt_interner s) n = Some nk" if "hm_get (mt_name_sources s) nk = Some e" for e
  proof -
    have e: "spur_ok R (mt_interner s) e" "spur_ok R (mt_interner s) nk"
      using ok that unfolding names_ok_def by blast+
    show "spur_ok R i2 e" "rd_resolve R i2 e = rd_resolve R (mt_interner s) e"
      using spur_ok_extends [OF laws ext' e(1)] by blast+
    have "rd_resolve R i2 nk = n" by (rule rd_resolve_get [OF laws get1])
    then have "rd_resolve R (mt_interner s) nk = n"
      using spur_ok_extends(2) [OF laws ext' e(2)] by simp
    with e(2) show "rd_get R (mt_interner s) n = Some nk" by (simp add: spur_ok_def)
  qed
  have sok: "spur_ok R i2 nk" "spur_ok R i2 sk" "rd_resolve R i2 sk = src"
    using spur_okI [OF laws] rd_resolve_get [OF laws] get1 get2 by blast+
  show "names_ok R s'"
  proof (cases "hm_get (mt_name_sources s) nk")
    case None
    then have s': "s' = s\<lparr>mt_interner := i2, mt_name_sources := hm_insert nk sk (mt_name_sources s)\<rparr>"
      using reg 1 2 by (simp add: register_metric_name_def)
    have "spur_ok R i2 a \<and> spur_ok R i2 b" if "hm_get (mt_name_sources s) a = Some b" for a b
      using ok that spur_ok_extends(1) [OF laws ext'] unfolding names_ok_def by blast
    then show ?thesis using sok by (simp add: names_ok_def s' hm_simps)
  next
    case (Some e)
    then have "s' = s\<lparr>mt_interner := i2\<rparr>"
      using reg 1 2 by (simp add: register_metric_name_def Let_def split: if_splits)
    with names_ok_extends [OF laws ok, of s'] ext' show ?thesis by simp
  qed
  show r: "r = check_metric_name_collision R s n src"
  proof (cases "hm_get (mt_name_sources s) nk")
    case None
    then have "r = Inr ()" using reg 1 2 by (simp add: register_metric_name_def)
    moreover have "check_metric_name_collision R s n src = Inr ()"
      using None known by (auto simp: check_metric_name_collision_def split: option.split)
    ultimately show ?thesis by simp
  next
    case (Some e)
    have "e = sk \<longleftrightarrow> rd_resolve R (mt_interner s) e = src"
      using rd_resolve_inj [OF src(1) [OF Some] sok(2)] src(2) [OF Some] sok(3) by auto
    with Some src(2,3) [OF Some] show ?thesis
      using reg 1 2 by (auto simp: register_metric_name_def check_metric_name_collision_def split: if_splits)
  qed
  show "check_metric_name_collision R s' n src' =
      (if src' = src then Inr () else Inl (MetricNameCollision n src src'))" if "r = Inr ()"
  proof (cases "hm_get (mt_name_sources s) nk")
    case None
    then have "s' = s\<lparr>mt_interner := i2, mt_name_sources := hm_insert nk sk (mt_name_sources s)\<rparr>"
      using reg 1 2 by (simp add: register_metric_name_def)
    with get1 sok(3) show ?thesis by (simp add: check_metric_name_collision_def hm_simps)
  next
    case (Some e)
    then have "e = sk" "s' = s\<lparr>mt_interner := i2\<rparr>"
      using reg 1 2 that by (auto simp: register_metric_name_def Let_def split: if_splits)
    with get1 sok(3) Some show ?thesis by (simp add: check_metric_name_collision_def)
  qed
qed

text \<open>After eviction no metadata is left for a name that no series carries.\<close>

lemma prune_orphaned_metadata_spec:
  assumes "rd_get R (mt_interner s) ''__name__'' = Some k"
    and "hm_get (mt_metadata (prune_orphaned_metadata R s)) n = Some md"
  shows "\<exists>se \<in> set (hm_values (mt_series s)). (k, n) \<in> set (ms_labels se)"
proof -
  have "n \<in> set (hm_keys (mt_metadata (prune_orphaned_metadata R s)))"
    using assms(2) by (simp only: hm_key_iff) simp
  then have "n \<in> set (surviving_names k s)"
    using assms(1) by (auto simp: prune_orphaned_metadata_def)
  then obtain se where "se \<in> set (hm_values (mt_series s))"
    "map_option snd (find (\<lambda>p. fst p = k) (ms_labels se)) = Some n"
    unfolding surviving_names_def List.map_filter_def by fastforce
  moreover from this(2) have "(k, n) \<in> set (ms_labels se)"
    by (auto simp: find_Some_iff dest: nth_mem)
  ultimately show ?thesis by blast
qed

lemma metric_evict_before_metadata:
  assumes "rd_get R (mt_interner s) ''__name__'' = Some k"
    and "hm_get (mt_metadata (metric_evict_before R cutoff s)) n = Some md"
  shows "\<exists>se \<in> set (hm_values (mt_series (metric_evict_before R cutoff s))). (k, n) \<in> set (ms_labels se)"
proof -
  obtain series tally empties where ev:
    "evict_series cutoff (mt_series s) (mt_total_samples s) = (series, tally, empties)"
    by (rule prod_cases3)
  let ?t = "fold metric_drop_series empties (s\<lparr>mt_series := series, mt_total_samples := tally\<rparr>)"
  have res: "metric_evict_before R cutoff s = prune_orphaned_metadata R ?t"
    by (simp add: metric_evict_before_def ev)
  have "mt_interner (fold metric_drop_series xs t) = mt_interner t" for xs and t :: "'a metric_store"
    by (induction xs arbitrary: t) simp_all
  then show ?thesis
    using prune_orphaned_metadata_spec [of R ?t k n md] assms by (simp add: res)
qed

lemma metric_evict_before_keeps_names:
  "mt_name_sources (metric_evict_before R cutoff s) = mt_name_sources s"
proof -
  have "mt_name_sources (fold metric_drop_series xs t) = mt_name_sources t" for xs and t :: "'a metric_store"
    by (induction xs arbitrary: t)
      (simp_all add: metric_drop_series_def split: option.split prod.split)
  then show ?thesis by (simp add: metric_evict_before_def split: prod.split)
qed

section \<open>A sample store\<close>

definition point :: "i64 \<Rightarrow> sample" where
  "point t = \<lparr>sm_timestamp_ms = t, sm_value = 0, sm_ingest_seq = 0\<rparr>"

definition sample_metrics :: "string list metric_store" where
  "sample_metrics = ingest_samples list_rodeo ''up'' [(''service'', ''api'')] [point 20, point 10]
     (metric_new list_rodeo)"

lemma metric_ingest_base:
  assumes "rodeo_laws R" and "metric_base R s" and "mt_next_series_id s < u64_max"
  shows "metric_base R (ingest_samples R name labels samples s)"
  using ingest_samples_correct [OF assms] by blast

lemma sample_metrics_base: "metric_base list_rodeo sample_metrics"
  unfolding sample_metrics_def
  by (rule metric_ingest_base [OF list_rodeo_laws metric_new_base]) (simp add: metric_new_def u64_max_def)

text \<open>The definitions a run of the store evaluates.\<close>

lemmas metric_eval = ingest_samples_def intern_label_pairs_def list_rodeo_def metric_new_def
  metric_allocate_def metric_append_def batch_needs_sort_def index_insert_def
  track_label_values_def hm_upsert_def pl_new_def pl_insert_def binary_search_def
  partition_point_def u64_saturating_add_def u64_max_def metric_evict_before_def
  metric_drop_series_def remove_from_label_indexes_def remove_label_value_def pl_remove_def
  pl_is_empty_def prune_orphaned_metadata_def register_metric_name_def
  check_metric_name_collision_def

lemma sample_metrics_series:
  shows "mt_series sample_metrics = [(0, \<lparr>ms_labels = [(0, 1), (2, 3)], ms_samples = [point 10, point 20]\<rparr>)]"
    and "mt_next_series_id sample_metrics = 1"
  by (simp_all add: sample_metrics_def metric_eval point_def)

section \<open>Properties\<close>

text \<open>
  Ingesting samples keeps the metric store's invariant, and the samples stored under the
  metric's name and labels become the stable sort by time of the old ones and the batch; no
  other series is touched, and the order of the labels does not matter.
\<close>

lemma ingest_samples_refines:
  assumes "rodeo_laws R" and "metric_base R s" and "mt_next_series_id s < u64_max"
  shows "metric_base R (ingest_samples R name labels samples s) \<and>
    metric_view R (ingest_samples R name labels samples s) =
      (metric_view R s)(label_fun (name_label name labels) :=
        sort_key sm_timestamp_ms (metric_view R s (label_fun (name_label name labels)) @ samples))"
  by (rule ingest_samples_correct [OF assms])

lemma ingest_samples_refines_witness:
  "metric_view list_rodeo (ingest_samples list_rodeo ''up'' [(''service'', ''api'')] [point 15] sample_metrics) =
    (metric_view list_rodeo sample_metrics)(label_fun (name_label ''up'' [(''service'', ''api'')]) :=
      sort_key sm_timestamp_ms (metric_view list_rodeo sample_metrics
        (label_fun (name_label ''up'' [(''service'', ''api'')])) @ [point 15]))"
  using ingest_samples_refines [OF list_rodeo_laws sample_metrics_base, of "''up''" "[(''service'', ''api'')]"
      "[point 15]"] sample_metrics_series(2)
  by (simp add: u64_max_def)

text \<open>
  Age-based eviction of metrics keeps the invariant, removes under every label set exactly
  the samples older than the cutoff, and leaves metadata only for names a series still carries.
\<close>

lemma metric_evict_before_refines:
  assumes "metric_base R s"
  shows "metric_base R (metric_evict_before R cutoff s) \<and>
    metric_view R (metric_evict_before R cutoff s) =
      (\<lambda>f. filter (\<lambda>p. cutoff \<le> sm_timestamp_ms p) (metric_view R s f)) \<and>
    (\<forall>k n md. rd_get R (mt_interner s) ''__name__'' = Some k \<longrightarrow>
      hm_get (mt_metadata (metric_evict_before R cutoff s)) n = Some md \<longrightarrow>
      (\<exists>se \<in> set (hm_values (mt_series (metric_evict_before R cutoff s))). (k, n) \<in> set (ms_labels se)))"
  using metric_evict_before_correct [OF assms, of cutoff] metric_evict_before_metadata by blast

lemma metric_evict_before_refines_witness:
  "metric_view list_rodeo (metric_evict_before list_rodeo 15 sample_metrics) =
    (\<lambda>f. filter (\<lambda>p. 15 \<le> sm_timestamp_ms p) (metric_view list_rodeo sample_metrics f))"
  using metric_evict_before_refines [OF sample_metrics_base, of 15] by blast

text \<open>
  Count-based eviction of metrics keeps the invariant, leaves exactly the smaller of the
  limit and the number of series, keeps or empties each label set as a whole, and evicts no
  series before one whose first sample is older.
\<close>

lemma metric_evict_to_max_refines:
  assumes "metric_base R s"
  shows "metric_base R (metric_evict_to_max R k s) \<and>
    length (mt_series (metric_evict_to_max R k s)) = min k (length (mt_series s)) \<and>
    (\<forall>f. metric_view R (metric_evict_to_max R k s) f \<in> {metric_view R s f, []}) \<and>
    (\<forall>x y. hm_get (mt_series s) x \<noteq> None \<longrightarrow> hm_get (mt_series (metric_evict_to_max R k s)) x = None \<longrightarrow>
      hm_get (mt_series (metric_evict_to_max R k s)) y \<noteq> None \<longrightarrow> first_sample_ms s x \<le> first_sample_ms s y)"
  using metric_evict_to_max_correct [OF assms] by blast

lemma metric_evict_to_max_refines_witness:
  "length (mt_series (metric_evict_to_max list_rodeo 0 sample_metrics)) = min 0 (length (mt_series sample_metrics))"
  using metric_evict_to_max_refines [OF sample_metrics_base, of 0] by blast

text \<open>
  Clearing a service from the metric store keeps the invariant and empties precisely the
  label sets of that service.
\<close>

theorem metric_clear_service_refines:
  assumes "rodeo_laws R" and "metric_base R s"
  shows "metric_base R (metric_clear_service R service s) \<and>
    metric_view R (metric_clear_service R service s) =
      (\<lambda>f. if service \<in> set (f ''service'') then [] else metric_view R s f)"
  by (rule metric_clear_service_correct [OF assms])

theorem metric_clear_service_refines_witness:
  "metric_view list_rodeo (metric_clear_service list_rodeo ''api'' sample_metrics) =
    (\<lambda>f. if ''api'' \<in> set (f ''service'') then [] else metric_view list_rodeo sample_metrics f)"
  using metric_clear_service_refines [OF list_rodeo_laws sample_metrics_base] by blast

text \<open>
  The read-only collision check predicts what registering a metric name will answer, and a
  successful registration is remembered: the same source name is accepted again, every other
  source name is rejected with the names involved.
\<close>

theorem register_metric_name_agrees:
  assumes "rodeo_laws R" and "names_ok R s" and "register_metric_name R n src s = (s', r)"
  shows "names_ok R s' \<and> r = check_metric_name_collision R s n src \<and>
    (r = Inr () \<longrightarrow> check_metric_name_collision R s' n src' =
      (if src' = src then Inr () else Inl (MetricNameCollision n src src')))"
  using register_metric_name_ok [OF assms] by blast

theorem register_metric_name_agrees_witness:
  "check_metric_name_collision list_rodeo
      (fst (register_metric_name list_rodeo ''a_b'' ''a.b'' (metric_new list_rodeo))) ''a_b'' ''a/b'' =
    Inl (MetricNameCollision ''a_b'' ''a.b'' ''a/b'')"
proof -
  have ok: "names_ok list_rodeo (metric_new list_rodeo)" by (simp add: names_ok_def metric_new_def)
  obtain s' r where reg: "register_metric_name list_rodeo ''a_b'' ''a.b'' (metric_new list_rodeo) = (s', r)"
    by force
  have "r = Inr ()" using reg by (auto simp: register_metric_name_def metric_new_def Let_def split: prod.splits)
  with register_metric_name_agrees [OF list_rodeo_laws ok reg, of "''a/b''"] reg show ?thesis by simp
qed

definition stale_name_run :: "string list metric_store" where
  "stale_name_run = metric_evict_before list_rodeo 100
     (ingest_samples list_rodeo ''a_b'' [] [point 10]
       (fst (register_metric_name list_rodeo ''a_b'' ''a.b'' (metric_new list_rodeo))))"

text \<open>
  Age-based eviction forgets the series but not the name registrations, so a metric whose
  source name differs but normalises alike is rejected although no series of that name is left.
  The run: register \<open>a_b\<close> for \<open>a.b\<close>, ingest one sample, evict it, check \<open>a/b\<close>.
\<close>

lemma stale_name_registration:
  "mt_series stale_name_run = [] \<and>
   check_metric_name_collision list_rodeo stale_name_run ''a_b'' ''a/b'' =
     Inl (MetricNameCollision ''a_b'' ''a.b'' ''a/b'')"
  by (simp add: stale_name_run_def metric_eval point_def)

end
