(* ===== verification/Trace_Store.thy ===== *)
theory Trace_Store
  imports Attribute_Value
begin

text \<open>
  \<open>TraceStore\<close> of \<open>src/store/trace_store.rs\<close>: spans by trace id, the indexes by service, name,
  status and string attribute, and every operation that changes them.
\<close>

section \<open>State\<close>

datatype span_status = Unset | Ok | Error

datatype span_kind = Unspecified | Internal | Server | Client | Producer | Consumer

definition span_kind_from_otlp :: "int \<Rightarrow> span_kind" where
  "span_kind_from_otlp code =
     (if code = 1 then Internal else if code = 2 then Server else if code = 3 then Client
      else if code = 4 then Producer else if code = 5 then Consumer else Unspecified)"

definition span_kind_as_otlp :: "span_kind \<Rightarrow> int" where
  "span_kind_as_otlp k = (case k of Unspecified \<Rightarrow> 0 | Internal \<Rightarrow> 1 | Server \<Rightarrow> 2 | Client \<Rightarrow> 3
     | Producer \<Rightarrow> 4 | Consumer \<Rightarrow> 5)"

record span_event =
  ev_name :: spur
  ev_time_ns :: i64
  ev_attributes :: attributes

record span_link =
  lk_trace_id :: trace_id
  lk_span_id :: span_id
  lk_trace_state :: "spur option"
  lk_attributes :: attributes
  lk_flags :: nat

record span =
  sp_trace_id :: trace_id
  sp_span_id :: span_id
  sp_parent :: "span_id option"
  sp_name :: spur
  sp_service :: spur
  sp_start_ns :: i64
  sp_duration_ns :: i64
  sp_status :: span_status
  sp_status_message :: "spur option"
  sp_kind :: span_kind
  sp_attributes :: attributes
  sp_events :: "span_event list"
  sp_links :: "span_link list"
  sp_ingest_seq :: u64

definition count_error_spans :: "span_status list \<Rightarrow> nat" where
  "count_error_spans sts = length (filter (\<lambda>s. s = Error) sts)"

record trace_result =
  tr_trace_id :: trace_id
  tr_root_service :: string
  tr_root_span :: string
  tr_start_ns :: i64
  tr_duration_ns :: i64
  tr_span_count :: nat
  tr_error_count :: nat

type_synonym 'k trace_index = "('k, trace_id hash_set) hash_map"

record 'i trace_store =
  ts_traces :: "(trace_id, span list) hash_map"
  ts_service_index :: "spur trace_index"
  ts_name_index :: "spur trace_index"
  ts_status_index :: "span_status trace_index"
  ts_attr_index :: "(spur, spur trace_index) hash_map"
  ts_interner :: 'i
  ts_total_spans :: usize

definition trace_new :: "'i rodeo_ops \<Rightarrow> 'i trace_store" where
  "trace_new R = \<lparr>ts_traces = [], ts_service_index = [], ts_name_index = [], ts_status_index = [],
     ts_attr_index = [], ts_interner = rd_default R, ts_total_spans = 0\<rparr>"

section \<open>Index operations\<close>

text \<open>\<open>entry(k).or_default().insert(t)\<close>.\<close>

definition idx_add :: "trace_id \<Rightarrow> 'k \<Rightarrow> 'k trace_index \<Rightarrow> 'k trace_index" where
  "idx_add t k m = hm_upsert [] k (hs_insert t) m"

text \<open>\<open>if let Some(set) = get_mut(k) { set.remove(t) }\<close>.\<close>

definition idx_discard :: "trace_id \<Rightarrow> 'k \<Rightarrow> 'k trace_index \<Rightarrow> 'k trace_index" where
  "idx_discard t k m = (case hm_get m k of None \<Rightarrow> m | Some s \<Rightarrow> hm_insert k (hs_remove t s) m)"

definition idx_retain :: "'k trace_index \<Rightarrow> 'k trace_index" where
  "idx_retain m = filter (\<lambda>(_, s). s \<noteq> []) m"

text \<open>The reconciliation step for one key: prune unless a surviving span still has it.\<close>

definition idx_prune :: "trace_id \<Rightarrow> 'k list \<Rightarrow> 'k \<Rightarrow> 'k trace_index \<Rightarrow> 'k trace_index" where
  "idx_prune t surviving k m =
     (if k \<in> set surviving then m
      else case hm_get m k of
             None \<Rightarrow> m
           | Some s \<Rightarrow>
               if t \<in> set s
               then (let s' = hs_remove t s in if s' = [] then hm_remove k m else hm_insert k s' m)
               else m)"

definition index_attributes ::
  "trace_id \<Rightarrow> attributes \<Rightarrow> (spur, spur trace_index) hash_map \<Rightarrow> (spur, spur trace_index) hash_map"
where
  "index_attributes t attrs m =
     fold (\<lambda>(k, val) m. case val of AString v \<Rightarrow> hm_upsert [] k (idx_add t v) m | _ \<Rightarrow> m) attrs m"

section \<open>Operations\<close>

definition ingest_span :: "span \<Rightarrow> 'i trace_store \<Rightarrow> 'i trace_store" where
  "ingest_span sp s =
     (let t = sp_trace_id sp
      in s\<lparr>ts_service_index := idx_add t (sp_service sp) (ts_service_index s),
           ts_name_index := idx_add t (sp_name sp) (ts_name_index s),
           ts_status_index := idx_add t (sp_status sp) (ts_status_index s),
           ts_attr_index := index_attributes t (sp_attributes sp) (ts_attr_index s),
           ts_traces := hm_upsert [] t (\<lambda>sps. sps @ [sp]) (ts_traces s),
           ts_total_spans := ts_total_spans s + 1\<rparr>)"

definition ingest_spans :: "span list \<Rightarrow> 'i trace_store \<Rightarrow> 'i trace_store" where
  "ingest_spans sps s = fold ingest_span sps s"

definition get_trace :: "'i trace_store \<Rightarrow> trace_id \<Rightarrow> span list option" where
  "get_trace s t = hm_get (ts_traces s) t"

definition trace_service_names :: "'i rodeo_ops \<Rightarrow> 'i trace_store \<Rightarrow> string list" where
  "trace_service_names R s = map (rd_resolve R (ts_interner s)) (hm_keys (ts_service_index s))"

definition traces_for_service :: "'i rodeo_ops \<Rightarrow> 'i trace_store \<Rightarrow> string \<Rightarrow> trace_id list" where
  "traces_for_service R s service =
     (case rd_get R (ts_interner s) service of
        None \<Rightarrow> []
      | Some k \<Rightarrow> (case hm_get (ts_service_index s) k of None \<Rightarrow> [] | Some ts \<Rightarrow> ts))"

definition rebuild_attr_index :: "'i trace_store \<Rightarrow> 'i trace_store" where
  "rebuild_attr_index s =
     s\<lparr>ts_attr_index := fold (\<lambda>(t, sps) m. fold (\<lambda>sp. index_attributes t (sp_attributes sp)) sps m)
        (ts_traces s) []\<rparr>"

subsection \<open>Eviction by count\<close>

definition earliest_start :: "span list \<Rightarrow> i64" where
  "earliest_start sps = (if sps = [] then i64_max else min_list (map sp_start_ns sps))"

definition trace_start :: "'i trace_store \<Rightarrow> trace_id \<Rightarrow> i64" where
  "trace_start s t = (case hm_get (ts_traces s) t of None \<Rightarrow> i64_max | Some sps \<Rightarrow> earliest_start sps)"

definition drop_trace :: "trace_id \<Rightarrow> span list \<Rightarrow> 'i trace_store \<Rightarrow> 'i trace_store" where
  "drop_trace t sps s =
     fold (\<lambda>sp s. s\<lparr>ts_service_index := idx_discard t (sp_service sp) (ts_service_index s),
                    ts_name_index := idx_discard t (sp_name sp) (ts_name_index s),
                    ts_status_index := idx_discard t (sp_status sp) (ts_status_index s)\<rparr>)
       sps
       (s\<lparr>ts_traces := hm_remove t (ts_traces s), ts_total_spans := ts_total_spans s - length sps\<rparr>)"

fun trace_evict_loop :: "nat \<Rightarrow> trace_id list \<Rightarrow> 'i trace_store \<Rightarrow> 'i trace_store" where
  "trace_evict_loop max_spans [] s = s"
| "trace_evict_loop max_spans (t # ts) s =
     (if ts_total_spans s \<le> max_spans then s
      else trace_evict_loop max_spans ts
             (case hm_get (ts_traces s) t of None \<Rightarrow> s | Some sps \<Rightarrow> drop_trace t sps s))"

definition trace_evict_to_max :: "usize \<Rightarrow> 'i trace_store \<Rightarrow> 'i trace_store" where
  "trace_evict_to_max max_spans s =
     (if ts_total_spans s \<le> max_spans then s
      else let s' = trace_evict_loop max_spans (sort_key (trace_start s) (hm_keys (ts_traces s))) s
           in rebuild_attr_index
                (s'\<lparr>ts_service_index := idx_retain (ts_service_index s'),
                    ts_name_index := idx_retain (ts_name_index s'),
                    ts_status_index := idx_retain (ts_status_index s')\<rparr>))"

subsection \<open>Reconciliation, eviction by age, clearing a service\<close>

type_synonym span_index_keys = "(spur \<times> span_status \<times> spur) list"

definition span_keys :: "span list \<Rightarrow> span_index_keys" where
  "span_keys sps = map (\<lambda>sp. (sp_name sp, sp_status sp, sp_service sp)) sps"

definition reconcile_trace_indexes :: "trace_id \<Rightarrow> span_index_keys \<Rightarrow> 'i trace_store \<Rightarrow> 'i trace_store"
where
  "reconcile_trace_indexes t before s =
     (let sps = (case hm_get (ts_traces s) t of None \<Rightarrow> [] | Some sps \<Rightarrow> sps)
      in fold (\<lambda>(name, status, svc) s.
           s\<lparr>ts_name_index := idx_prune t (map sp_name sps) name (ts_name_index s),
             ts_status_index := idx_prune t (map sp_status sps) status (ts_status_index s),
             ts_service_index := idx_prune t (map sp_service sps) svc (ts_service_index s)\<rparr>)
         before s)"

fun evict_spans :: "i64 \<Rightarrow> (trace_id, span list) hash_map \<Rightarrow> usize \<Rightarrow>
    (trace_id, span list) hash_map \<times> usize \<times> trace_id list \<times> (trace_id \<times> span_index_keys) list" where
  "evict_spans cutoff [] tally = ([], tally, [], [])"
| "evict_spans cutoff ((t, sps) # rest) tally =
     (if \<not> list_ex (\<lambda>sp. sp_start_ns sp < cutoff) sps
      then let (rest', tally', empties, changed) = evict_spans cutoff rest tally
           in ((t, sps) # rest', tally', empties, changed)
      else let sps' = filter (\<lambda>sp. cutoff \<le> sp_start_ns sp) sps;
               removed = length sps - length sps';
               (rest', tally', empties, changed) = evict_spans cutoff rest (tally - removed)
           in ((t, sps') # rest', tally', (if sps' = [] then t # empties else empties),
               (t, span_keys sps) # changed))"

definition trace_evict_before :: "i64 \<Rightarrow> 'i trace_store \<Rightarrow> 'i trace_store" where
  "trace_evict_before cutoff s =
     (let (traces, tally, empties, changed) = evict_spans cutoff (ts_traces s) (ts_total_spans s);
          s1 = s\<lparr>ts_traces := fold hm_remove empties traces, ts_total_spans := tally\<rparr>
      in rebuild_attr_index (fold (\<lambda>(t, before). reconcile_trace_indexes t before) changed s1))"

definition clear_service_step :: "spur \<Rightarrow> trace_id \<Rightarrow> 'i trace_store \<Rightarrow> 'i trace_store" where
  "clear_service_step service t s =
     (case hm_get (ts_traces s) t of
        None \<Rightarrow> s
      | Some sps \<Rightarrow>
          (let sps' = filter (\<lambda>sp. sp_service sp \<noteq> service) sps
           in reconcile_trace_indexes t (span_keys sps)
                (s\<lparr>ts_total_spans := ts_total_spans s - (length sps - length sps'),
                   ts_traces := (if sps' = [] then hm_remove t (ts_traces s)
                                 else hm_insert t sps' (ts_traces s))\<rparr>)))"

definition trace_clear_service :: "'i rodeo_ops \<Rightarrow> string \<Rightarrow> 'i trace_store \<Rightarrow> 'i trace_store" where
  "trace_clear_service R service s =
     (case rd_get R (ts_interner s) service of
        None \<Rightarrow> s
      | Some k \<Rightarrow>
          (case hm_get (ts_service_index s) k of
             None \<Rightarrow> s
           | Some ts \<Rightarrow> rebuild_attr_index (fold (clear_service_step k) ts s)))"

definition trace_clear :: "'i rodeo_ops \<Rightarrow> 'i trace_store \<Rightarrow> 'i trace_store" where
  "trace_clear R s = s\<lparr>ts_traces := [], ts_service_index := [], ts_name_index := [],
     ts_status_index := [], ts_attr_index := [], ts_interner := rd_default R, ts_total_spans := 0\<rparr>"

section \<open>Summaries\<close>

definition span_end_ns :: "span \<Rightarrow> i64" where
  "span_end_ns sp = i64_saturating_add (sp_start_ns sp) (sp_duration_ns sp)"

definition root_span :: "span list \<Rightarrow> span" where
  "root_span sps =
     (case find (\<lambda>sp. sp_parent sp = None) sps of
        Some sp \<Rightarrow> sp
      | None \<Rightarrow> arg_min_list sp_start_ns sps)"

definition latest_end :: "span list \<Rightarrow> i64" where
  "latest_end sps = (case map span_end_ns sps of [] \<Rightarrow> 0 | e # es \<Rightarrow> fold max es e)"

definition trace_result_of :: "'i rodeo_ops \<Rightarrow> 'i trace_store \<Rightarrow> trace_id \<Rightarrow> trace_result option" where
  "trace_result_of R s t =
     (case hm_get (ts_traces s) t of
        None \<Rightarrow> None
      | Some sps \<Rightarrow>
          if sps = [] then None
          else (let start = min_list (map sp_start_ns sps)
                in Some \<lparr>tr_trace_id = t,
                     tr_root_service = rd_resolve R (ts_interner s) (sp_service (root_span sps)),
                     tr_root_span = rd_resolve R (ts_interner s) (sp_name (root_span sps)),
                     tr_start_ns = start,
                     tr_duration_ns = i64_saturating_sub (latest_end sps) start,
                     tr_span_count = length sps,
                     tr_error_count = count_error_spans (map sp_status sps)\<rparr>))"

definition recent_traces :: "'i rodeo_ops \<Rightarrow> 'i trace_store \<Rightarrow> nat \<Rightarrow> trace_result list" where
  "recent_traces R s limit =
     take limit (sort_by_key_desc tr_start_ns
       (List.map_filter (trace_result_of R s) (hm_keys (ts_traces s))))"

end
