(* ===== verification/Trace_Index.thy ===== *)
theory Trace_Index
  imports Trace_Store
begin

text \<open>
  The indexes of the trace store in general: what a set of trace ids per key contains, when it
  is exactly the one a collection of traces induces, and the effect of each index operation.
\<close>

section \<open>Exact indexes\<close>

definition idx_set :: "'k trace_index \<Rightarrow> 'k \<Rightarrow> trace_id set" where
  "idx_set m k = (case hm_get m k of None \<Rightarrow> {} | Some s \<Rightarrow> set s)"

definition idx_wf :: "'k trace_index \<Rightarrow> bool" where
  "idx_wf m \<longleftrightarrow> hm_wf m \<and> (\<forall>k s. hm_get m k = Some s \<longrightarrow> distinct s)"

definition idx_full :: "'k trace_index \<Rightarrow> bool" where
  "idx_full m \<longleftrightarrow> (\<forall>k s. hm_get m k = Some s \<longrightarrow> s \<noteq> [])"

text \<open>Some span of trace \<open>t\<close> has key \<open>k\<close>.\<close>

definition has_key :: "(span \<Rightarrow> 'k) \<Rightarrow> (trace_id, span list) hash_map \<Rightarrow> 'k \<Rightarrow> trace_id \<Rightarrow> bool" where
  "has_key f traces k t \<longleftrightarrow> (\<exists>sps. hm_get traces t = Some sps \<and> k \<in> f ` set sps)"

definition idx_exact :: "(span \<Rightarrow> 'k) \<Rightarrow> (trace_id, span list) hash_map \<Rightarrow> 'k trace_index \<Rightarrow> bool" where
  "idx_exact f traces m \<longleftrightarrow> idx_wf m \<and> (\<forall>k t. t \<in> idx_set m k \<longleftrightarrow> has_key f traces k t)"

lemma idx_exactD: "idx_exact f traces m \<Longrightarrow> t \<in> idx_set m k \<longleftrightarrow> has_key f traces k t"
  unfolding idx_exact_def by blast

lemma idx_exact_empty [simp]: "idx_exact f [] []"
  by (simp add: idx_exact_def idx_wf_def idx_set_def has_key_def)

lemma idx_full_empty [simp]: "idx_full []"
  by (simp add: idx_full_def)

subsection \<open>Adding\<close>

lemma idx_add_spec:
  assumes "idx_wf m"
  shows "idx_wf (idx_add t k m)"
    and "idx_set (idx_add t k m) k' = idx_set m k' \<union> (if k' = k then {t} else {})"
    and "idx_full m \<Longrightarrow> idx_full (idx_add t k m)"
proof -
  let ?old = "case hm_get m k of None \<Rightarrow> [] | Some v \<Rightarrow> v"
  have new: "distinct (hs_insert t ?old)" "hs_insert t ?old \<noteq> []"
    using assms by (auto simp: idx_wf_def List.insert_def split: option.split)
  have get: "hm_get (idx_add t k m) = (hm_get m)(k \<mapsto> hs_insert t ?old)"
    by (simp add: idx_add_def hm_simps)
  show "idx_wf (idx_add t k m)"
    unfolding idx_wf_def get
  proof (intro conjI allI impI)
    show "hm_wf (idx_add t k m)" using assms by (simp add: idx_wf_def idx_add_def hm_simps)
    fix k' s assume "((hm_get m)(k \<mapsto> hs_insert t ?old)) k' = Some s"
    then show "distinct s"
      using new(1) assms unfolding idx_wf_def by (cases "k' = k") simp_all
  qed
  show "idx_set (idx_add t k m) k' = idx_set m k' \<union> (if k' = k then {t} else {})"
    unfolding idx_set_def get by (simp split: option.split)
  show "idx_full (idx_add t k m)" if full: "idx_full m"
    unfolding idx_full_def get
  proof (intro allI impI)
    fix k' s assume "((hm_get m)(k \<mapsto> hs_insert t ?old)) k' = Some s"
    then show "s \<noteq> []"
      using new(2) full unfolding idx_full_def by (cases "k' = k") simp_all
  qed
qed

lemma idx_exact_add:
  assumes "idx_exact f traces m"
  shows "idx_exact f (hm_upsert [] t (\<lambda>sps. sps @ [sp]) traces) (idx_add t (f sp) m)"
proof -
  have wf: "idx_wf m" using assms by (simp add: idx_exact_def)
  have "has_key f (hm_upsert [] t (\<lambda>sps. sps @ [sp]) traces) k t' \<longleftrightarrow>
      has_key f traces k t' \<or> t' = t \<and> k = f sp" for k t'
    by (cases "hm_get traces t") (auto simp: has_key_def hm_simps)
  then show ?thesis
    using assms idx_add_spec(1,2) [OF wf, of t "f sp"] by (auto simp: idx_exact_def)
qed

subsection \<open>Discarding and retaining\<close>

lemma idx_discard_spec:
  assumes "idx_wf m"
  shows "idx_wf (idx_discard t k m)"
    and "idx_set (idx_discard t k m) k' = idx_set m k' - (if k' = k then {t} else {})"
proof -
  show "idx_set (idx_discard t k m) k' = idx_set m k' - (if k' = k then {t} else {})"
    by (auto simp: idx_discard_def idx_set_def hm_simps split: option.split)
  show "idx_wf (idx_discard t k m)"
  proof (cases "hm_get m k")
    case None
    with assms show ?thesis by (simp add: idx_discard_def)
  next
    case (Some s)
    have "distinct (hs_remove t s)"
      using assms Some by (simp add: idx_wf_def distinct_removeAll)
    with Some assms show ?thesis by (simp add: idx_discard_def idx_wf_def hm_simps)
  qed
qed

lemma fold_discard_spec:
  assumes "idx_wf m"
  shows "idx_wf (fold (idx_discard t) ks m) \<and>
    idx_set (fold (idx_discard t) ks m) k = idx_set m k - (if k \<in> set ks then {t} else {})"
  using assms
proof (induction ks arbitrary: m)
  case Nil
  then show ?case by simp
next
  case (Cons k' ks)
  from Cons.IH [OF idx_discard_spec(1) [OF Cons.prems]] idx_discard_spec(2) [OF Cons.prems, of t k' k]
  show ?case by auto
qed

lemma idx_exact_discard:
  assumes "idx_exact f traces m" and "hm_get traces t = Some sps"
  shows "idx_exact f (hm_remove t traces) (fold (idx_discard t) (map f sps) m)"
proof -
  have wf: "idx_wf m" using assms(1) by (simp add: idx_exact_def)
  have "has_key f (hm_remove t traces) k t' \<longleftrightarrow> has_key f traces k t' \<and> t' \<noteq> t" for k t'
    by (auto simp: has_key_def hm_simps)
  moreover have "has_key f traces k t \<longleftrightarrow> k \<in> set (map f sps)" for k
    using assms(2) by (simp add: has_key_def)
  ultimately show ?thesis
    using assms(1) fold_discard_spec [OF wf, of t "map f sps"]
    unfolding idx_exact_def by (auto split: if_splits)
qed

lemma idx_retain_spec:
  assumes "idx_wf m"
  shows "idx_wf (idx_retain m)" and "idx_full (idx_retain m)"
    and "idx_set (idx_retain m) k = idx_set m k"
proof -
  have wf: "hm_wf m" using assms by (simp add: idx_wf_def)
  have get: "hm_get (idx_retain m) k = (case hm_get m k of None \<Rightarrow> None
      | Some s \<Rightarrow> if s \<noteq> [] then Some s else None)" for k
    unfolding idx_retain_def by (rule hm_get_filter [OF wf])
  show "idx_wf (idx_retain m)"
    using assms hm_wf_filter [OF wf] unfolding idx_wf_def get
    by (auto simp: idx_retain_def split: option.splits if_splits)
  show "idx_full (idx_retain m)"
    unfolding idx_full_def get by (auto split: option.splits if_splits)
  show "idx_set (idx_retain m) k = idx_set m k"
    unfolding idx_set_def get by (simp split: option.split)
qed

lemma idx_exact_retain:
  assumes "idx_exact f traces m"
  shows "idx_exact f traces (idx_retain m)" and "idx_full (idx_retain m)"
proof -
  have wf: "idx_wf m" using assms by (simp add: idx_exact_def)
  show "idx_full (idx_retain m)" by (rule idx_retain_spec(2) [OF wf])
  show "idx_exact f traces (idx_retain m)"
    using assms idx_retain_spec(1) [OF wf] unfolding idx_exact_def idx_retain_spec(3) [OF wf] by blast
qed

subsection \<open>Reconciling\<close>

lemma idx_prune_spec:
  assumes "idx_wf m"
  shows "idx_wf (idx_prune t sv k m)" and "idx_full m \<Longrightarrow> idx_full (idx_prune t sv k m)"
    and "idx_set (idx_prune t sv k m) k' = idx_set m k' - (if k' = k \<and> k \<notin> set sv then {t} else {})"
proof -
  have dist: "distinct (hs_remove t s)" if "hm_get m k = Some s" for s
    using assms that by (simp add: idx_wf_def distinct_removeAll)
  show "idx_wf (idx_prune t sv k m)"
    using assms dist by (auto simp: idx_prune_def idx_wf_def hm_simps Let_def split: option.split)
  show "idx_full (idx_prune t sv k m)" if "idx_full m"
    using that by (auto simp: idx_prune_def idx_full_def hm_simps Let_def split: option.split if_splits)
  have empty: "hs_remove t s = [] \<longleftrightarrow> set s - {t} = {}" for s
    by (metis set_empty set_removeAll)
  show "idx_set (idx_prune t sv k m) k' = idx_set m k' - (if k' = k \<and> k \<notin> set sv then {t} else {})"
  proof (cases "hm_get m k")
    case None
    then show ?thesis by (auto simp: idx_prune_def idx_set_def)
  next
    case (Some s)
    then show ?thesis
      using empty [of s] by (auto simp: idx_prune_def idx_set_def hm_simps Let_def)
  qed
qed

lemma fold_prune_spec:
  assumes "idx_wf m"
  shows "idx_wf (fold (idx_prune t sv) ks m) \<and> (idx_full m \<longrightarrow> idx_full (fold (idx_prune t sv) ks m)) \<and>
    idx_set (fold (idx_prune t sv) ks m) k = idx_set m k - (if k \<in> set ks \<and> k \<notin> set sv then {t} else {})"
  using assms
proof (induction ks arbitrary: m)
  case Nil
  then show ?case by simp
next
  case (Cons k' ks)
  note spec = idx_prune_spec [OF Cons.prems, of t sv k']
  from Cons.IH [OF spec(1)] spec(2) spec(3) [of k] show ?case by auto
qed

text \<open>Reconciling a list of changed traces, each with the keys it had before.\<close>

definition prune_all :: "(trace_id \<Rightarrow> 'k list) \<Rightarrow> (trace_id \<times> 'k list) list \<Rightarrow> 'k trace_index \<Rightarrow> 'k trace_index"
where
  "prune_all sv changed m = fold (\<lambda>(t, ks). fold (idx_prune t (sv t)) ks) changed m"

lemma prune_all_spec:
  assumes "idx_wf m"
  shows "idx_wf (prune_all sv changed m) \<and> (idx_full m \<longrightarrow> idx_full (prune_all sv changed m)) \<and>
    idx_set (prune_all sv changed m) k =
      idx_set m k - {t. \<exists>ks. (t, ks) \<in> set changed \<and> k \<in> set ks \<and> k \<notin> set (sv t)}"
  using assms
proof (induction changed arbitrary: m)
  case Nil
  then show ?case by (simp add: prune_all_def)
next
  case (Cons c changed)
  obtain t ks where c: "c = (t, ks)" by force
  let ?m = "fold (idx_prune t (sv t)) ks m"
  note spec = fold_prune_spec [OF Cons.prems, of t "sv t" ks]
  have step: "prune_all sv (c # changed) m = prune_all sv changed ?m"
    by (simp add: prune_all_def c)
  have "idx_wf ?m" using spec by blast
  from Cons.IH [OF this] show ?case
    unfolding step using spec [of k] by (auto simp: c)
qed

text \<open>
  If every trace that differs between \<open>traces\<close> and \<open>traces'\<close> has lost spans only and is listed
  with its former keys, pruning turns an index exact for the former into one exact for the latter.
\<close>

lemma idx_exact_prune_all:
  assumes exact: "idx_exact f traces m"
    and listed: "\<And>t ks. (t, ks) \<in> set changed \<Longrightarrow> \<exists>sps. hm_get traces t = Some sps \<and> ks = map f sps"
    and same: "\<And>t. t \<notin> fst ` set changed \<Longrightarrow> hm_get traces' t = hm_get traces t"
    and sub: "\<And>t sps'. hm_get traces' t = Some sps' \<Longrightarrow>
      \<exists>sps. hm_get traces t = Some sps \<and> set sps' \<subseteq> set sps"
    and sv: "\<And>t. sv t = (case hm_get traces' t of None \<Rightarrow> [] | Some sps \<Rightarrow> map f sps)"
  shows "idx_exact f traces' (prune_all sv changed m)"
  unfolding idx_exact_def
proof (intro conjI allI)
  have wf: "idx_wf m" using exact by (simp add: idx_exact_def)
  note spec = prune_all_spec [OF wf, of sv changed]
  show "idx_wf (prune_all sv changed m)" using spec by blast
  fix k t
  have key: "has_key f traces' k t \<longleftrightarrow> k \<in> set (sv t)"
    unfolding has_key_def sv by (cases "hm_get traces' t") simp_all
  have grow: "has_key f traces k t" if "has_key f traces' k t"
    using that sub unfolding has_key_def by blast
  have unchanged: "has_key f traces' k t" if "has_key f traces k t" "t \<notin> fst ` set changed"
    using that same unfolding has_key_def by simp
  have before: "k \<in> set ks" if "(t, ks) \<in> set changed" "has_key f traces k t" for ks
    using listed [OF that(1)] that(2) unfolding has_key_def by auto
  have mem: "t \<in> idx_set (prune_all sv changed m) k \<longleftrightarrow>
      has_key f traces k t \<and> \<not> (\<exists>ks. (t, ks) \<in> set changed \<and> k \<in> set ks \<and> k \<notin> set (sv t))"
    using spec [of k] idx_exactD [OF exact, of t k] by simp
  show "t \<in> idx_set (prune_all sv changed m) k \<longleftrightarrow> has_key f traces' k t"
  proof
    assume l: "t \<in> idx_set (prune_all sv changed m) k"
    show "has_key f traces' k t"
    proof (cases "t \<in> fst ` set changed")
      case True
      then obtain ks where "(t, ks) \<in> set changed" by force
      with l mem before have "k \<in> set (sv t)" by blast
      then show ?thesis by (simp only: key)
    next
      case False
      with l mem unchanged show ?thesis by blast
    qed
  next
    assume r: "has_key f traces' k t"
    then have "k \<in> set (sv t)" by (simp only: key)
    with grow [OF r] mem show "t \<in> idx_set (prune_all sv changed m) k" by blast
  qed
qed

section \<open>The attribute index\<close>

definition attr_set :: "(spur, spur trace_index) hash_map \<Rightarrow> spur \<Rightarrow> spur \<Rightarrow> trace_id set" where
  "attr_set m k v = (case hm_get m k of None \<Rightarrow> {} | Some m' \<Rightarrow> idx_set m' v)"

definition attr_wf :: "(spur, spur trace_index) hash_map \<Rightarrow> bool" where
  "attr_wf m \<longleftrightarrow> hm_wf m \<and> (\<forall>k m'. hm_get m k = Some m' \<longrightarrow> idx_wf m')"

definition has_attr :: "(trace_id, span list) hash_map \<Rightarrow> spur \<Rightarrow> spur \<Rightarrow> trace_id \<Rightarrow> bool" where
  "has_attr traces k v t \<longleftrightarrow>
     (\<exists>sps. hm_get traces t = Some sps \<and> (\<exists>sp \<in> set sps. (k, AString v) \<in> set (sp_attributes sp)))"

definition attr_exact :: "(trace_id, span list) hash_map \<Rightarrow> (spur, spur trace_index) hash_map \<Rightarrow> bool" where
  "attr_exact traces m \<longleftrightarrow> attr_wf m \<and> (\<forall>k v t. t \<in> attr_set m k v \<longleftrightarrow> has_attr traces k v t)"

lemma index_attributes_spec:
  assumes "attr_wf m"
  shows "attr_wf (index_attributes t attrs m) \<and>
    attr_set (index_attributes t attrs m) k v =
      attr_set m k v \<union> (if (k, AString v) \<in> set attrs then {t} else {})"
  using assms
proof (induction attrs arbitrary: m)
  case Nil
  then show ?case by (simp add: index_attributes_def)
next
  case (Cons a attrs)
  obtain k' val where a: "a = (k', val)" by force
  show ?case
  proof (cases "\<exists>w. val = AString w")
    case True
    then obtain w where w: "val = AString w" by blast
    let ?m = "hm_upsert [] k' (idx_add t w) m"
    let ?old = "case hm_get m k' of None \<Rightarrow> [] | Some m' \<Rightarrow> m'"
    have step: "index_attributes t (a # attrs) m = index_attributes t attrs ?m"
      by (simp add: index_attributes_def a w)
    have old: "idx_wf ?old"
      using Cons.prems by (auto simp: attr_wf_def idx_wf_def split: option.split)
    have get: "hm_get ?m = (hm_get m)(k' \<mapsto> idx_add t w ?old)"
      by (simp add: hm_simps)
    have "attr_wf ?m"
      unfolding attr_wf_def get
    proof (intro conjI allI impI)
      show "hm_wf ?m" using Cons.prems by (simp add: attr_wf_def hm_simps)
      fix k m' assume "((hm_get m)(k' \<mapsto> idx_add t w ?old)) k = Some m'"
      then show "idx_wf m'"
        using idx_add_spec(1) [OF old, of t w] Cons.prems unfolding attr_wf_def
        by (cases "k = k'") simp_all
    qed
    moreover have "attr_set ?m k v = attr_set m k v \<union> (if k = k' \<and> v = w then {t} else {})"
    proof (cases "k = k'")
      case True
      have "idx_set ?old v = attr_set m k' v"
        by (simp add: attr_set_def idx_set_def split: option.split)
      with True idx_add_spec(2) [OF old, of t w v] show ?thesis
        unfolding attr_set_def get by simp
    next
      case False
      then show ?thesis unfolding attr_set_def get by simp
    qed
    ultimately show ?thesis
      unfolding step using Cons.IH [of ?m] by (auto simp: a w)
  next
    case False
    then have "index_attributes t (a # attrs) m = index_attributes t attrs m"
      by (cases val) (simp_all add: index_attributes_def a)
    with Cons.IH [OF Cons.prems] False show ?thesis by (auto simp: a)
  qed
qed

lemma attr_exact_add:
  assumes "attr_exact traces m"
  shows "attr_exact (hm_upsert [] t (\<lambda>sps. sps @ [sp]) traces) (index_attributes t (sp_attributes sp) m)"
proof -
  have wf: "attr_wf m" using assms by (simp add: attr_exact_def)
  have "has_attr (hm_upsert [] t (\<lambda>sps. sps @ [sp]) traces) k v t' \<longleftrightarrow>
      has_attr traces k v t' \<or> t' = t \<and> (k, AString v) \<in> set (sp_attributes sp)" for k v t'
    by (cases "hm_get traces t") (auto simp: has_attr_def hm_simps)
  then show ?thesis
    using assms index_attributes_spec [OF wf, of t "sp_attributes sp"] by (auto simp: attr_exact_def)
qed

lemma fold_index_attributes:
  assumes "attr_wf m"
  shows "attr_wf (fold (\<lambda>sp. index_attributes t (sp_attributes sp)) sps m) \<and>
    attr_set (fold (\<lambda>sp. index_attributes t (sp_attributes sp)) sps m) k v = attr_set m k v \<union>
      (if \<exists>sp \<in> set sps. (k, AString v) \<in> set (sp_attributes sp) then {t} else {})"
  using assms
proof (induction sps arbitrary: m)
  case Nil
  then show ?case by simp
next
  case (Cons sp sps)
  note spec = index_attributes_spec [OF Cons.prems, of t "sp_attributes sp"]
  have "attr_wf (index_attributes t (sp_attributes sp) m)" using spec by blast
  from Cons.IH [OF this] spec [of k v] show ?case by auto
qed

lemma rebuild_attr_index_exact:
  assumes "hm_wf (ts_traces s)"
  shows "attr_exact (ts_traces s) (ts_attr_index (rebuild_attr_index s))"
proof -
  let ?f = "fold (\<lambda>(t, sps) m. fold (\<lambda>sp. index_attributes t (sp_attributes sp)) sps m)"
  have "attr_wf (?f traces m) \<and> attr_set (?f traces m) k v = attr_set m k v \<union>
      {t. \<exists>sps. (t, sps) \<in> set traces \<and> (\<exists>sp \<in> set sps. (k, AString v) \<in> set (sp_attributes sp))}"
    if "attr_wf m" for traces m k v
    using that
  proof (induction traces arbitrary: m)
    case Nil
    then show ?case by simp
  next
    case (Cons p traces)
    obtain t sps where p: "p = (t, sps)" by force
    note spec = fold_index_attributes [OF Cons.prems, of t sps]
    have "attr_wf (fold (\<lambda>sp. index_attributes t (sp_attributes sp)) sps m)" using spec by blast
    from Cons.IH [OF this] spec [of k v] show ?case by (auto simp: p)
  qed
  from this [of "[]" "ts_traces s"] show ?thesis
    by (auto simp: attr_exact_def rebuild_attr_index_def attr_wf_def has_attr_def
        hm_mem_iff [OF assms] attr_set_def)
qed

end
