(* ===== verification/Trace_Store_Correct.thy ===== *)
theory Trace_Store_Correct
  imports Trace_Index Retention
begin

text \<open>
  Correctness of the trace store: the invariant \<open>trace_wf\<close> (every index is exactly the one the
  stored spans induce, the total is exact, every interned string is known), its preservation by
  every operation, and what each operation does to the spans of each trace.
\<close>

section \<open>The invariant\<close>

definition attrs_ok :: "'i rodeo_ops \<Rightarrow> 'i \<Rightarrow> attributes \<Rightarrow> bool" where
  "attrs_ok R i attrs \<longleftrightarrow> (\<forall>p \<in> set attrs. spur_ok R i (fst p) \<and> attribute_ok R i (snd p))"

definition span_ok :: "'i rodeo_ops \<Rightarrow> 'i \<Rightarrow> span \<Rightarrow> bool" where
  "span_ok R i sp \<longleftrightarrow>
     spur_ok R i (sp_name sp) \<and> spur_ok R i (sp_service sp) \<and> attrs_ok R i (sp_attributes sp) \<and>
     (\<forall>m. sp_status_message sp = Some m \<longrightarrow> spur_ok R i m) \<and>
     (\<forall>e \<in> set (sp_events sp). spur_ok R i (ev_name e) \<and> attrs_ok R i (ev_attributes e)) \<and>
     (\<forall>l \<in> set (sp_links sp). attrs_ok R i (lk_attributes l))"

definition span_count :: "(trace_id, span list) hash_map \<Rightarrow> nat" where
  "span_count traces = sum_list (map length (hm_values traces))"

definition traces_wf :: "'i rodeo_ops \<Rightarrow> 'i trace_store \<Rightarrow> bool" where
  "traces_wf R s \<longleftrightarrow> hm_wf (ts_traces s) \<and>
     (\<forall>t sps. hm_get (ts_traces s) t = Some sps \<longrightarrow> sps \<noteq> [] \<and>
        (\<forall>sp \<in> set sps. sp_trace_id sp = t \<and> span_ok R (ts_interner s) sp)) \<and>
     ts_total_spans s = span_count (ts_traces s)"

definition keys_exact :: "'i trace_store \<Rightarrow> bool" where
  "keys_exact s \<longleftrightarrow> idx_exact sp_service (ts_traces s) (ts_service_index s) \<and>
     idx_exact sp_name (ts_traces s) (ts_name_index s) \<and>
     idx_exact sp_status (ts_traces s) (ts_status_index s)"

definition keys_full :: "'i trace_store \<Rightarrow> bool" where
  "keys_full s \<longleftrightarrow> idx_full (ts_service_index s) \<and> idx_full (ts_name_index s) \<and>
     idx_full (ts_status_index s)"

definition trace_wf :: "'i rodeo_ops \<Rightarrow> 'i trace_store \<Rightarrow> bool" where
  "trace_wf R s \<longleftrightarrow> traces_wf R s \<and> keys_exact s \<and> keys_full s \<and>
     attr_exact (ts_traces s) (ts_attr_index s)"

definition spans_of :: "'i trace_store \<Rightarrow> trace_id \<Rightarrow> span list" where
  "spans_of s t = (case hm_get (ts_traces s) t of None \<Rightarrow> [] | Some sps \<Rightarrow> sps)"

lemma has_key_spans: "has_key f (ts_traces s) k t \<longleftrightarrow> k \<in> f ` set (spans_of s t)"
  by (cases "hm_get (ts_traces s) t") (simp_all add: has_key_def spans_of_def)

lemma trace_wfD:
  assumes "trace_wf R s"
  shows "traces_wf R s" and "keys_exact s" and "keys_full s"
    and "attr_exact (ts_traces s) (ts_attr_index s)"
  using assms unfolding trace_wf_def by blast+

lemma traces_wfD:
  assumes "traces_wf R s"
  shows "hm_wf (ts_traces s)" and "hm_get (ts_traces s) t = Some sps \<Longrightarrow> sps \<noteq> []"
    and "hm_get (ts_traces s) t = Some sps \<Longrightarrow> sp \<in> set sps \<Longrightarrow> sp_trace_id sp = t"
    and "hm_get (ts_traces s) t = Some sps \<Longrightarrow> sp \<in> set sps \<Longrightarrow> span_ok R (ts_interner s) sp"
    and "ts_total_spans s = span_count (ts_traces s)"
  using assms unfolding traces_wf_def by blast+

lemma attr_exact_empty [simp]: "attr_exact [] []"
  by (simp add: attr_exact_def attr_wf_def attr_set_def has_attr_def)

lemma trace_new_wf: "trace_wf R (trace_new R)"
  by (simp add: trace_wf_def traces_wf_def keys_exact_def keys_full_def trace_new_def span_count_def)

lemma trace_clear_wf: "trace_wf R (trace_clear R s)"
  by (simp add: trace_wf_def traces_wf_def keys_exact_def keys_full_def trace_clear_def span_count_def)

lemma attrs_ok_extends:
  assumes "rodeo_laws R" and "rd_extends R i j" and "attrs_ok R i attrs"
  shows "attrs_ok R j attrs"
  using assms(3) spur_ok_extends(1) [OF assms(1,2)] resolve_attribute_value_extends [OF assms(1,2)]
  unfolding attrs_ok_def by blast

lemma span_ok_extends:
  assumes "rodeo_laws R" and "rd_extends R i j" and "span_ok R i sp"
  shows "span_ok R j sp"
  using assms(3) spur_ok_extends(1) [OF assms(1,2)] attrs_ok_extends [OF assms(1,2)]
  unfolding span_ok_def by blast

text \<open>Ingest interns into the store before it inserts; that keeps the invariant.\<close>

lemma trace_wf_interner:
  assumes "rodeo_laws R" and "rd_extends R (ts_interner s) j" and "trace_wf R s"
  shows "trace_wf R (s\<lparr>ts_interner := j\<rparr>)"
  using assms(3) span_ok_extends [OF assms(1,2)]
  by (simp add: trace_wf_def traces_wf_def keys_exact_def keys_full_def)

section \<open>Ingest\<close>

lemma ingest_span_wf:
  assumes wf: "trace_wf R s" and ok: "span_ok R (ts_interner s) sp"
  shows "trace_wf R (ingest_span sp s)"
    and "spans_of (ingest_span sp s) t = spans_of s t @ (if sp_trace_id sp = t then [sp] else [])"
    and "ts_interner (ingest_span sp s) = ts_interner s"
proof -
  note W = trace_wfD [OF wf] and T = traces_wfD [OF trace_wfD(1) [OF wf]]
  let ?t = "sp_trace_id sp" and ?s = "ingest_span sp s"
  let ?traces = "hm_upsert [] ?t (\<lambda>sps. sps @ [sp]) (ts_traces s)"
  have traces: "ts_traces ?s = ?traces" "ts_interner ?s = ts_interner s"
    by (simp_all add: ingest_span_def Let_def)
  then show "ts_interner ?s = ts_interner s" by simp
  show "spans_of ?s t = spans_of s t @ (if ?t = t then [sp] else [])"
    by (simp add: spans_of_def traces hm_simps split: option.split)
  have count: "span_count ?traces = Suc (span_count (ts_traces s))"
  proof (cases "hm_get (ts_traces s) ?t")
    case None
    from sum_values_insert_new [OF None, of length "[sp]"] show ?thesis
      by (simp add: span_count_def hm_upsert_def None)
  next
    case (Some sps)
    from sum_values_update [OF T(1) Some, of length "sps @ [sp]"] show ?thesis
      by (simp add: span_count_def hm_upsert_def Some)
  qed
  have "traces_wf R ?s"
    unfolding traces_wf_def traces
  proof (intro conjI allI impI)
    show "hm_wf ?traces" using T(1) by (rule hm_wf_upsert)
    show "ts_total_spans ?s = span_count ?traces"
      using count T(5) by (simp add: ingest_span_def Let_def)
    fix t sps assume get: "hm_get ?traces t = Some sps"
    have sps: "sps = spans_of s t @ (if ?t = t then [sp] else [])"
      "t = ?t \<or> hm_get (ts_traces s) t = Some sps"
      using get by (auto simp: hm_simps spans_of_def split: option.splits if_splits)
    show "sps \<noteq> []" using sps T(2) [of t sps] by auto
    show "\<forall>sp \<in> set sps. sp_trace_id sp = t \<and> span_ok R (ts_interner s) sp"
      using sps(1) T(3,4) [of t] ok by (cases "hm_get (ts_traces s) t") (auto simp: spans_of_def)
  qed
  moreover have "keys_exact ?s"
    using W(2) unfolding keys_exact_def traces
    by (auto simp: ingest_span_def Let_def intro: idx_exact_add)
  moreover have "keys_full ?s"
    using W(2,3) unfolding keys_exact_def keys_full_def idx_exact_def
    by (auto simp: ingest_span_def Let_def intro: idx_add_spec(3))
  moreover have "attr_exact (ts_traces ?s) (ts_attr_index ?s)"
    using attr_exact_add [OF W(4)] unfolding traces by (simp add: ingest_span_def Let_def)
  ultimately show "trace_wf R ?s" by (simp add: trace_wf_def)
qed

lemma ingest_spans_correct:
  assumes "trace_wf R s" and "\<forall>sp \<in> set sps. span_ok R (ts_interner s) sp"
  shows "trace_wf R (ingest_spans sps s) \<and>
    spans_of (ingest_spans sps s) t = spans_of s t @ filter (\<lambda>sp. sp_trace_id sp = t) sps"
  using assms unfolding ingest_spans_def
proof (induction sps arbitrary: s)
  case Nil
  then show ?case by simp
next
  case (Cons sp sps)
  have "span_ok R (ts_interner s) sp" using Cons.prems(2) by simp
  note one = ingest_span_wf [OF Cons.prems(1) this]
  have "\<forall>sp' \<in> set sps. span_ok R (ts_interner (ingest_span sp s)) sp'"
    using Cons.prems(2) one(3) by simp
  from Cons.IH [OF one(1) this] one(2) [of t] show ?case by simp
qed

section \<open>Eviction by count\<close>

lemma drop_trace_fields:
  "ts_traces (drop_trace t sps s) = hm_remove t (ts_traces s)"
  "ts_total_spans (drop_trace t sps s) = ts_total_spans s - length sps"
  "ts_interner (drop_trace t sps s) = ts_interner s"
  "ts_service_index (drop_trace t sps s) = fold (idx_discard t) (map sp_service sps) (ts_service_index s)"
  "ts_name_index (drop_trace t sps s) = fold (idx_discard t) (map sp_name sps) (ts_name_index s)"
  "ts_status_index (drop_trace t sps s) = fold (idx_discard t) (map sp_status sps) (ts_status_index s)"
proof -
  let ?step = "\<lambda>sp s. s\<lparr>ts_service_index := idx_discard t (sp_service sp) (ts_service_index s),
                    ts_name_index := idx_discard t (sp_name sp) (ts_name_index s),
                    ts_status_index := idx_discard t (sp_status sp) (ts_status_index s)\<rparr>"
  have fold: "ts_traces (fold ?step sps s) = ts_traces s \<and> ts_total_spans (fold ?step sps s) = ts_total_spans s \<and>
    ts_interner (fold ?step sps s) = ts_interner s \<and>
    ts_service_index (fold ?step sps s) = fold (idx_discard t) (map sp_service sps) (ts_service_index s) \<and>
    ts_name_index (fold ?step sps s) = fold (idx_discard t) (map sp_name sps) (ts_name_index s) \<and>
    ts_status_index (fold ?step sps s) = fold (idx_discard t) (map sp_status sps) (ts_status_index s)"
    for s :: "'a trace_store"
    by (induction sps arbitrary: s) simp_all
  show "ts_traces (drop_trace t sps s) = hm_remove t (ts_traces s)"
    "ts_total_spans (drop_trace t sps s) = ts_total_spans s - length sps"
    "ts_interner (drop_trace t sps s) = ts_interner s"
    "ts_service_index (drop_trace t sps s) = fold (idx_discard t) (map sp_service sps) (ts_service_index s)"
    "ts_name_index (drop_trace t sps s) = fold (idx_discard t) (map sp_name sps) (ts_name_index s)"
    "ts_status_index (drop_trace t sps s) = fold (idx_discard t) (map sp_status sps) (ts_status_index s)"
    unfolding drop_trace_def by (simp_all add: fold)
qed

lemma span_count_remove:
  assumes "hm_wf traces" and "hm_get traces t = Some sps"
  shows "span_count traces = length sps + span_count (hm_remove t traces)"
  unfolding span_count_def by (rule sum_values_remove [OF assms])

lemma drop_trace_wf:
  assumes "traces_wf R s" and "keys_exact s" and "hm_get (ts_traces s) t = Some sps"
  shows "traces_wf R (drop_trace t sps s)" and "keys_exact (drop_trace t sps s)"
proof -
  note T = traces_wfD [OF assms(1)]
  show "keys_exact (drop_trace t sps s)"
    using assms(2) unfolding keys_exact_def drop_trace_fields
    by (simp only: idx_exact_discard [OF _ assms(3)] simp_thms)
  show "traces_wf R (drop_trace t sps s)"
    unfolding traces_wf_def drop_trace_fields
  proof (intro conjI allI impI)
    show "hm_wf (hm_remove t (ts_traces s))" by (rule hm_wf_remove [OF T(1)])
    show "ts_total_spans s - length sps = span_count (hm_remove t (ts_traces s))"
      using T(5) span_count_remove [OF T(1) assms(3)] by simp
    fix u sps' assume "hm_get (hm_remove t (ts_traces s)) u = Some sps'"
    then have u: "hm_get (ts_traces s) u = Some sps'" by (auto simp: hm_simps split: if_splits)
    show "sps' \<noteq> []" by (rule T(2) [OF u])
    show "\<forall>sp \<in> set sps'. sp_trace_id sp = u \<and> span_ok R (ts_interner s) sp"
      using T(3,4) [OF u] by blast
  qed
qed

text \<open>The number of spans that the traces of a list have.\<close>

definition spans_in :: "'i trace_store \<Rightarrow> trace_id list \<Rightarrow> nat" where
  "spans_in s ts = (\<Sum>t \<leftarrow> ts. length (spans_of s t))"

lemma spans_in_simps [simp]:
  "spans_in s [] = 0" "spans_in s (t # ts) = length (spans_of s t) + spans_in s ts"
  by (simp_all add: spans_in_def)

lemma spans_in_cong: "(\<And>t. t \<in> set ts \<Longrightarrow> spans_of s t = spans_of s' t) \<Longrightarrow> spans_in s ts = spans_in s' ts"
  unfolding spans_in_def by (intro arg_cong [where f = sum_list] map_cong) simp_all

lemma spans_in_all:
  assumes "hm_wf m" and "distinct ts" and "set ts = set (hm_keys m)"
  shows "(\<Sum>t \<leftarrow> ts. case hm_get m t of None \<Rightarrow> 0 | Some sps \<Rightarrow> length sps) = span_count m"
  using assms
proof (induction ts arbitrary: m)
  case Nil
  then show ?case by (simp add: span_count_def)
next
  case (Cons t ts)
  then obtain sps where sps: "hm_get m t = Some sps"
    by (metis hm_key_iff list.set_intros(1) option.exhaust)
  have "set ts = set (hm_keys (hm_remove t m))" using Cons.prems(2,3) unfolding hm_keys_remove by auto
  then have "(\<Sum>u \<leftarrow> ts. case hm_get (hm_remove t m) u of None \<Rightarrow> 0 | Some sps \<Rightarrow> length sps) = span_count (hm_remove t m)"
    using Cons.prems(2) by (intro Cons.IH hm_wf_remove [OF Cons.prems(1)]) simp_all
  moreover have "map (\<lambda>u. case hm_get (hm_remove t m) u of None \<Rightarrow> 0 | Some sps \<Rightarrow> length sps) ts =
      map (\<lambda>u. case hm_get m u of None \<Rightarrow> 0 | Some sps \<Rightarrow> length sps) ts"
    using Cons.prems(2) by (intro map_cong refl) (auto simp: hm_simps)
  ultimately show ?case by (simp add: sps span_count_remove [OF Cons.prems(1) sps])
qed

lemma total_spans_in:
  assumes "traces_wf R s" and "distinct ts" and "set ts = set (hm_keys (ts_traces s))"
  shows "ts_total_spans s = spans_in s ts"
proof -
  have "length (spans_of s t) = (case hm_get (ts_traces s) t of None \<Rightarrow> 0 | Some sps \<Rightarrow> length sps)" for t
    by (simp add: spans_of_def split: option.split)
  then show ?thesis
    using spans_in_all [OF traces_wfD(1) [OF assms(1)] assms(2,3)] traces_wfD(5) [OF assms(1)]
    by (simp add: spans_in_def)
qed

text \<open>The loop drops a prefix of the traces, the shortest one that brings the total down to the limit.\<close>

definition evicted_prefix :: "nat \<Rightarrow> 'i trace_store \<Rightarrow> trace_id list \<Rightarrow> trace_id list \<Rightarrow> bool" where
  "evicted_prefix k s evicted kept \<longleftrightarrow>
     spans_in s kept \<le> k \<and> (evicted \<noteq> [] \<longrightarrow> k < spans_in s (last evicted # kept))"

lemma trace_evict_loop_spec:
  assumes "traces_wf R s" and "keys_exact s" and "distinct ts" and "set ts = set (hm_keys (ts_traces s))"
  shows "\<exists>evicted kept. ts = evicted @ kept \<and> evicted_prefix k s evicted kept \<and>
    traces_wf R (trace_evict_loop k ts s) \<and> keys_exact (trace_evict_loop k ts s) \<and>
    ts_total_spans (trace_evict_loop k ts s) = spans_in s kept \<and>
    hm_get (ts_traces (trace_evict_loop k ts s)) = (\<lambda>t. if t \<in> set evicted then None else hm_get (ts_traces s) t)"
  using assms
proof (induction ts arbitrary: s)
  case Nil
  then have "ts_traces s = []" by simp
  with traces_wfD(5) [OF Nil(1)] have "ts_total_spans s = 0" by (simp add: span_count_def)
  with Nil show ?case by (simp add: evicted_prefix_def)
next
  case (Cons t ts)
  note total = total_spans_in [OF Cons.prems(1,3,4)]
  show ?case
  proof (cases "ts_total_spans s \<le> k")
    case True
    with Cons.prems(1,2) total show ?thesis
      by (intro exI [of _ "[]"] exI [of _ "t # ts"]) (simp add: evicted_prefix_def)
  next
    case False
    obtain sps where sps: "hm_get (ts_traces s) t = Some sps"
      using Cons.prems(4) by (metis hm_key_iff list.set_intros(1) option.exhaust)
    let ?s = "drop_trace t sps s"
    have step: "trace_evict_loop k (t # ts) s = trace_evict_loop k ts ?s" using False sps by simp
    have same: "spans_of ?s u = spans_of s u" if "u \<noteq> t" for u
      using that by (simp add: spans_of_def drop_trace_fields hm_simps)
    have "distinct ts" "set ts = set (hm_keys (ts_traces ?s))"
      using Cons.prems(3,4) unfolding drop_trace_fields hm_keys_remove by auto
    from Cons.IH [OF drop_trace_wf [OF Cons.prems(1,2) sps] this] obtain evicted kept where
      IH: "ts = evicted @ kept" "evicted_prefix k ?s evicted kept" "traces_wf R (trace_evict_loop k ts ?s)"
        "keys_exact (trace_evict_loop k ts ?s)" "ts_total_spans (trace_evict_loop k ts ?s) = spans_in ?s kept"
        "hm_get (ts_traces (trace_evict_loop k ts ?s)) =
          (\<lambda>u. if u \<in> set evicted then None else hm_get (ts_traces ?s) u)"
      by blast
    have t: "t \<notin> set (evicted @ kept)" using Cons.prems(3) IH(1) by simp
    then have kept: "spans_in ?s kept = spans_in s kept" by (intro spans_in_cong same) auto
    have "evicted_prefix k s (t # evicted) kept"
    proof (cases "evicted = []")
      case True
      with IH(1,2) kept total False show ?thesis by (simp add: evicted_prefix_def)
    next
      case False
      then have "last evicted \<noteq> t" using t by (metis UnI1 last_in_set set_append)
      with False IH(2) kept same show ?thesis by (simp add: evicted_prefix_def)
    qed
    moreover have "hm_get (ts_traces (trace_evict_loop k ts ?s)) =
        (\<lambda>u. if u \<in> set (t # evicted) then None else hm_get (ts_traces s) u)"
      unfolding IH(6) drop_trace_fields by (auto simp: hm_simps fun_eq_iff)
    moreover have "t # ts = (t # evicted) @ kept" using IH(1) by simp
    ultimately show ?thesis unfolding step using IH(3,4) IH(5) [unfolded kept] by blast
  qed
qed

lemma rebuild_attr_fields [simp]:
  "ts_traces (rebuild_attr_index s) = ts_traces s"
  "ts_service_index (rebuild_attr_index s) = ts_service_index s"
  "ts_name_index (rebuild_attr_index s) = ts_name_index s"
  "ts_status_index (rebuild_attr_index s) = ts_status_index s"
  "ts_interner (rebuild_attr_index s) = ts_interner s"
  "ts_total_spans (rebuild_attr_index s) = ts_total_spans s"
  by (simp_all add: rebuild_attr_index_def)

lemma rebuild_attr_wf:
  assumes "traces_wf R s" and "keys_exact s" and "keys_full s"
  shows "trace_wf R (rebuild_attr_index s)"
proof -
  have "ts_traces (rebuild_attr_index s) = ts_traces s" by (simp add: rebuild_attr_index_def)
  with rebuild_attr_index_exact [OF traces_wfD(1) [OF assms(1)]]
  have "attr_exact (ts_traces (rebuild_attr_index s)) (ts_attr_index (rebuild_attr_index s))" by simp
  with assms show ?thesis
    by (simp add: trace_wf_def) (simp add: rebuild_attr_index_def traces_wf_def keys_exact_def keys_full_def)
qed

lemma stored_keys:
  assumes "traces_wf R s"
  shows "t \<in> set (hm_keys (ts_traces s)) \<longleftrightarrow> spans_of s t \<noteq> []"
  using traces_wfD(2) [OF assms, of t]
  unfolding hm_key_iff by (cases "hm_get (ts_traces s) t") (simp_all add: spans_of_def)

lemma trace_evict_to_max_exact:
  assumes wf: "trace_wf R s"
  shows "trace_wf R (trace_evict_to_max k s) \<and>
    (\<exists>evicted kept. distinct (evicted @ kept) \<and> set (evicted @ kept) = {t. spans_of s t \<noteq> []} \<and>
      sorted (map (trace_start s) (evicted @ kept)) \<and> evicted_prefix k s evicted kept \<and>
      ts_total_spans (trace_evict_to_max k s) = spans_in s kept \<and>
      (\<forall>t. spans_of (trace_evict_to_max k s) t = (if t \<in> set evicted then [] else spans_of s t)))"
proof -
  note W = trace_wfD [OF wf]
  let ?ts = "sort_key (trace_start s) (hm_keys (ts_traces s))"
  have dist: "distinct ?ts" using traces_wfD(1) [OF W(1)] by simp
  have keys: "set ?ts = set (hm_keys (ts_traces s))" by simp
  have stored: "set ?ts = {t. spans_of s t \<noteq> []}" using stored_keys [OF W(1)] by auto
  have sorted: "sorted (map (trace_start s) ?ts)" by (rule sorted_sort_key)
  note total = total_spans_in [OF W(1) dist keys]
  show ?thesis
  proof (cases "ts_total_spans s \<le> k")
    case True
    with wf dist stored sorted total show ?thesis
      by (intro conjI exI [of _ "[]"] exI [of _ ?ts]) (simp_all add: trace_evict_to_max_def evicted_prefix_def)
  next
    case False
    let ?l = "trace_evict_loop k ?ts s"
    let ?l' = "?l\<lparr>ts_service_index := idx_retain (ts_service_index ?l),
      ts_name_index := idx_retain (ts_name_index ?l), ts_status_index := idx_retain (ts_status_index ?l)\<rparr>"
    have res: "trace_evict_to_max k s = rebuild_attr_index ?l'"
      using False by (simp add: trace_evict_to_max_def Let_def)
    obtain evicted kept where l: "?ts = evicted @ kept" "evicted_prefix k s evicted kept"
      "traces_wf R ?l" "keys_exact ?l" "ts_total_spans ?l = spans_in s kept"
      "hm_get (ts_traces ?l) = (\<lambda>t. if t \<in> set evicted then None else hm_get (ts_traces s) t)"
      using trace_evict_loop_spec [OF W(1,2) dist keys, of k] by blast
    have "traces_wf R ?l'" using l(3) by (simp add: traces_wf_def)
    moreover have "keys_exact ?l'"
      using l(4) unfolding keys_exact_def by (simp add: idx_exact_retain(1))
    moreover have "keys_full ?l'"
      using l(4) unfolding keys_exact_def keys_full_def by (auto intro: idx_exact_retain(2))
    ultimately have "trace_wf R (trace_evict_to_max k s)" unfolding res by (rule rebuild_attr_wf)
    moreover have "spans_of (trace_evict_to_max k s) t = (if t \<in> set evicted then [] else spans_of s t)" for t
      unfolding res by (simp add: spans_of_def l(6))
    moreover have "ts_total_spans (trace_evict_to_max k s) = spans_in s kept" using l(5) by (simp add: res)
    ultimately show ?thesis using dist stored sorted l(2) unfolding l(1) by blast
  qed
qed

lemma trace_evict_to_max_correct:
  assumes "trace_wf R s"
  shows "trace_wf R (trace_evict_to_max k s) \<and> ts_total_spans (trace_evict_to_max k s) \<le> k \<and>
    (\<forall>t. spans_of (trace_evict_to_max k s) t \<in> {spans_of s t, []})"
  using trace_evict_to_max_exact [OF assms, of k] by (auto simp: evicted_prefix_def)

section \<open>Reconciliation\<close>

definition sv_of :: "(span \<Rightarrow> 'k) \<Rightarrow> (trace_id, span list) hash_map \<Rightarrow> trace_id \<Rightarrow> 'k list" where
  "sv_of f traces t = (case hm_get traces t of None \<Rightarrow> [] | Some sps \<Rightarrow> map f sps)"

lemma reconcile_fields:
  "ts_traces (reconcile_trace_indexes t before s) = ts_traces s"
  "ts_total_spans (reconcile_trace_indexes t before s) = ts_total_spans s"
  "ts_interner (reconcile_trace_indexes t before s) = ts_interner s"
  "ts_service_index (reconcile_trace_indexes t before s) =
     fold (idx_prune t (sv_of sp_service (ts_traces s) t)) (map (\<lambda>(n, st, sv). sv) before) (ts_service_index s)"
  "ts_name_index (reconcile_trace_indexes t before s) =
     fold (idx_prune t (sv_of sp_name (ts_traces s) t)) (map (\<lambda>(n, st, sv). n) before) (ts_name_index s)"
  "ts_status_index (reconcile_trace_indexes t before s) =
     fold (idx_prune t (sv_of sp_status (ts_traces s) t)) (map (\<lambda>(n, st, sv). st) before) (ts_status_index s)"
proof -
  let ?sps = "case hm_get (ts_traces s) t of None \<Rightarrow> [] | Some sps \<Rightarrow> sps"
  let ?step = "\<lambda>(name, status, svc) s.
    s\<lparr>ts_name_index := idx_prune t (map sp_name ?sps) name (ts_name_index s),
      ts_status_index := idx_prune t (map sp_status ?sps) status (ts_status_index s),
      ts_service_index := idx_prune t (map sp_service ?sps) svc (ts_service_index s)\<rparr>"
  have sv: "map f ?sps = sv_of f (ts_traces s) t" for f :: "span \<Rightarrow> 'k"
    by (simp add: sv_of_def split: option.split)
  have fold: "ts_traces (fold ?step before u) = ts_traces u \<and> ts_total_spans (fold ?step before u) = ts_total_spans u \<and>
    ts_interner (fold ?step before u) = ts_interner u \<and>
    ts_service_index (fold ?step before u) =
      fold (idx_prune t (map sp_service ?sps)) (map (\<lambda>(n, st, sv). sv) before) (ts_service_index u) \<and>
    ts_name_index (fold ?step before u) =
      fold (idx_prune t (map sp_name ?sps)) (map (\<lambda>(n, st, sv). n) before) (ts_name_index u) \<and>
    ts_status_index (fold ?step before u) =
      fold (idx_prune t (map sp_status ?sps)) (map (\<lambda>(n, st, sv). st) before) (ts_status_index u)"
    for u :: "'a trace_store"
    by (induction before arbitrary: u) auto
  show "ts_traces (reconcile_trace_indexes t before s) = ts_traces s"
    "ts_total_spans (reconcile_trace_indexes t before s) = ts_total_spans s"
    "ts_interner (reconcile_trace_indexes t before s) = ts_interner s"
    "ts_service_index (reconcile_trace_indexes t before s) =
       fold (idx_prune t (sv_of sp_service (ts_traces s) t)) (map (\<lambda>(n, st, sv). sv) before) (ts_service_index s)"
    "ts_name_index (reconcile_trace_indexes t before s) =
       fold (idx_prune t (sv_of sp_name (ts_traces s) t)) (map (\<lambda>(n, st, sv). n) before) (ts_name_index s)"
    "ts_status_index (reconcile_trace_indexes t before s) =
       fold (idx_prune t (sv_of sp_status (ts_traces s) t)) (map (\<lambda>(n, st, sv). st) before) (ts_status_index s)"
    unfolding reconcile_trace_indexes_def Let_def sv [symmetric] by (simp_all only: fold simp_thms)
qed

definition reconcile_all :: "(trace_id \<times> span_index_keys) list \<Rightarrow> 'i trace_store \<Rightarrow> 'i trace_store" where
  "reconcile_all changed s = fold (\<lambda>(t, before). reconcile_trace_indexes t before) changed s"

lemma reconcile_all_fields:
  "ts_traces (reconcile_all changed s) = ts_traces s \<and>
   ts_total_spans (reconcile_all changed s) = ts_total_spans s \<and>
   ts_interner (reconcile_all changed s) = ts_interner s \<and>
   ts_service_index (reconcile_all changed s) = prune_all (sv_of sp_service (ts_traces s))
     (map (\<lambda>(t, before). (t, map (\<lambda>(n, st, sv). sv) before)) changed) (ts_service_index s) \<and>
   ts_name_index (reconcile_all changed s) = prune_all (sv_of sp_name (ts_traces s))
     (map (\<lambda>(t, before). (t, map (\<lambda>(n, st, sv). n) before)) changed) (ts_name_index s) \<and>
   ts_status_index (reconcile_all changed s) = prune_all (sv_of sp_status (ts_traces s))
     (map (\<lambda>(t, before). (t, map (\<lambda>(n, st, sv). st) before)) changed) (ts_status_index s)"
  unfolding reconcile_all_def prune_all_def
  by (induction changed arbitrary: s) (auto simp: reconcile_fields)

text \<open>
  Replacing the traces by smaller ones and reconciling those that changed keeps the key indexes
  exact.
\<close>

lemma reconcile_all_traces_wf: "traces_wf R (reconcile_all changed s) = traces_wf R s"
  by (simp add: traces_wf_def reconcile_all_fields)

lemma reconcile_all_exact:
  assumes exact: "keys_exact s" "keys_full s" and ind: "ts_service_index s' = ts_service_index s"
      "ts_name_index s' = ts_name_index s" "ts_status_index s' = ts_status_index s"
    and listed: "\<And>t ks. (t, ks) \<in> set changed \<Longrightarrow> \<exists>sps. hm_get (ts_traces s) t = Some sps \<and> ks = span_keys sps"
    and same: "\<And>t. t \<notin> fst ` set changed \<Longrightarrow> hm_get (ts_traces s') t = hm_get (ts_traces s) t"
    and sub: "\<And>t sps'. hm_get (ts_traces s') t = Some sps' \<Longrightarrow>
      \<exists>sps. hm_get (ts_traces s) t = Some sps \<and> set sps' \<subseteq> set sps"
  shows "keys_exact (reconcile_all changed s') \<and> keys_full (reconcile_all changed s')"
proof -
  have one: "idx_exact f (ts_traces s') (prune_all (sv_of f (ts_traces s'))
      (map (\<lambda>(t, before). (t, map g before)) changed) m)"
    if "idx_exact f (ts_traces s) m" "\<And>sps. map g (span_keys sps) = map f sps"
    for f :: "span \<Rightarrow> 'k" and g m
  proof (rule idx_exact_prune_all [OF that(1)])
    fix t ks assume "(t, ks) \<in> set (map (\<lambda>(t, before). (t, map g before)) changed)"
    then obtain before where "(t, before) \<in> set changed" "ks = map g before" by auto
    with listed [OF this(1)] that(2) show "\<exists>sps. hm_get (ts_traces s) t = Some sps \<and> ks = map f sps"
      by auto
  next
    fix t assume "t \<notin> fst ` set (map (\<lambda>(t, before). (t, map g before)) changed)"
    then have "t \<notin> fst ` set changed" by (force simp: image_iff)
    then show "hm_get (ts_traces s') t = hm_get (ts_traces s) t" by (rule same)
  qed (rule sub, assumption, simp add: sv_of_def)
  have keys: "map (\<lambda>(n, st, sv). sv) (span_keys sps) = map sp_service sps"
    "map (\<lambda>(n, st, sv). n) (span_keys sps) = map sp_name sps"
    "map (\<lambda>(n, st, sv). st) (span_keys sps) = map sp_status sps" for sps
    by (simp_all add: span_keys_def)
  note F = reconcile_all_fields [of changed s', unfolded ind]
  have "keys_exact (reconcile_all changed s')"
    using exact(1) unfolding keys_exact_def by (simp only: F one keys)
  moreover have "keys_full (reconcile_all changed s')"
    using exact prune_all_spec unfolding keys_exact_def keys_full_def idx_exact_def
    by (simp only: F) (simp add: prune_all_spec)
  ultimately show ?thesis ..
qed

section \<open>Eviction by age\<close>

lemma evict_spans_eq:
  "evict_spans cutoff traces n =
    (map (\<lambda>(t, sps). (t, filter (\<lambda>sp. cutoff \<le> sp_start_ns sp) sps)) traces,
     n - sum_list (map (\<lambda>sps. length sps - length (filter (\<lambda>sp. cutoff \<le> sp_start_ns sp) sps)) (hm_values traces)),
     map fst (filter (\<lambda>(t, sps). list_ex (\<lambda>sp. sp_start_ns sp < cutoff) sps \<and>
       filter (\<lambda>sp. cutoff \<le> sp_start_ns sp) sps = []) traces),
     map (\<lambda>(t, sps). (t, span_keys sps)) (filter (\<lambda>(t, sps). list_ex (\<lambda>sp. sp_start_ns sp < cutoff) sps) traces))"
proof (induction traces arbitrary: n)
  case Nil
  show ?case by simp
next
  case (Cons p traces)
  obtain t sps where p: "p = (t, sps)" by force
  have "filter (\<lambda>sp. cutoff \<le> sp_start_ns sp) sps = sps" if "\<not> list_ex (\<lambda>sp. sp_start_ns sp < cutoff) sps"
    using that by (auto simp: list_ex_iff not_less filter_id_conv)
  moreover define d where "d = length sps - length (filter (\<lambda>sp. cutoff \<le> sp_start_ns sp) sps)"
  ultimately show ?case
    unfolding p evict_spans.simps Let_def Cons.IH prod.case
    by (simp flip: d_def) (simp add: d_def)
qed

lemma kept_count:
  "sum_list (map length xss) - sum_list (map (\<lambda>xs. length xs - length (filter P xs)) xss) =
    sum_list (map (\<lambda>xs. length (filter P xs)) xss)"
proof -
  have "sum_list (map (\<lambda>xs. length xs - length (filter P xs)) xss) +
      sum_list (map (\<lambda>xs. length (filter P xs)) xss) = sum_list (map length xss)"
  proof (induction xss)
    case Nil
    show ?case by simp
  next
    case (Cons xs xss)
    have "length (filter P xs) \<le> length xs" by (rule length_filter_le)
    with Cons.IH show ?case unfolding list.map sum_list.Cons by linarith
  qed
  then show ?thesis by linarith
qed

lemma fold_remove_get:
  "hm_get (fold hm_remove ks m) = (\<lambda>k. if k \<in> set ks then None else hm_get m k)"
  by (induction ks arbitrary: m) (auto simp: hm_simps fun_eq_iff)

lemma fold_remove_wf: "hm_wf m \<Longrightarrow> hm_wf (fold hm_remove ks m)"
  by (induction ks arbitrary: m) (simp_all add: hm_wf_remove)

lemma fold_remove_empty_count:
  assumes "hm_wf m" and "\<forall>k \<in> set ks. \<forall>v. hm_get m k = Some v \<longrightarrow> v = []"
  shows "span_count (fold hm_remove ks m) = span_count m"
  using assms
proof (induction ks arbitrary: m)
  case Nil
  then show ?case by simp
next
  case (Cons k ks)
  have "span_count (hm_remove k m) = span_count m"
  proof (cases "hm_get m k")
    case None
    then show ?thesis by (simp add: delete_idem map_of_eq_None_iff)
  next
    case (Some v)
    with span_count_remove [OF Cons.prems(1) Some] Cons.prems(2) show ?thesis by simp
  qed
  moreover have "\<forall>k' \<in> set ks. \<forall>v. hm_get (hm_remove k m) k' = Some v \<longrightarrow> v = []"
    using Cons.prems(2) by (simp add: hm_simps)
  ultimately show ?case
    using Cons.IH [OF hm_wf_remove [OF Cons.prems(1)]] by simp
qed

lemma trace_evict_before_correct:
  assumes wf: "trace_wf R s"
  shows "trace_wf R (trace_evict_before cutoff s) \<and>
    (\<forall>t. spans_of (trace_evict_before cutoff s) t = filter (\<lambda>sp. cutoff \<le> sp_start_ns sp) (spans_of s t))"
proof -
  note W = trace_wfD [OF wf] and T = traces_wfD [OF trace_wfD(1) [OF wf]]
  let ?keep = "filter (\<lambda>sp. cutoff \<le> sp_start_ns sp)"
  let ?old = "list_ex (\<lambda>sp. sp_start_ns sp < cutoff)"
  let ?m = "map (\<lambda>(t, sps). (t, ?keep sps)) (ts_traces s)"
  let ?em = "map fst (filter (\<lambda>(t, sps). ?old sps \<and> ?keep sps = []) (ts_traces s))"
  let ?ch = "map (\<lambda>(t, sps). (t, span_keys sps)) (filter (\<lambda>(t, sps). ?old sps) (ts_traces s))"
  define n where "n = sum_list (map (\<lambda>sps. length (?keep sps)) (hm_values (ts_traces s)))"
  have ev: "evict_spans cutoff (ts_traces s) (ts_total_spans s) = (?m, n, ?em, ?ch)"
    unfolding evict_spans_eq T(5) span_count_def kept_count n_def ..
  let ?s1 = "s\<lparr>ts_traces := fold hm_remove ?em ?m, ts_total_spans := n\<rparr>"
  have res: "trace_evict_before cutoff s = rebuild_attr_index (reconcile_all ?ch ?s1)"
    by (simp add: trace_evict_before_def ev reconcile_all_def)
  have getm: "hm_get ?m t = map_option ?keep (hm_get (ts_traces s) t)" for t
    by (rule hm_get_map_values)
  have wfm: "hm_wf ?m"
    using hm_wf_map_values [where m = "ts_traces s" and f = "\<lambda>_. ?keep"] T(1) by (simp only:)
  have id: "?keep sps = sps" if "\<not> ?old sps" for sps
    using that by (auto simp: list_ex_iff not_less filter_id_conv)
  have em: "t \<in> set ?em \<longleftrightarrow> (\<exists>sps. hm_get (ts_traces s) t = Some sps \<and> ?keep sps = [])" for t
  proof
    assume "t \<in> set ?em"
    then obtain sps where "(t, sps) \<in> set (ts_traces s)" "?keep sps = []" by auto
    then show "\<exists>sps. hm_get (ts_traces s) t = Some sps \<and> ?keep sps = []"
      using hm_mem_iff [OF T(1)] by blast
  next
    assume "\<exists>sps. hm_get (ts_traces s) t = Some sps \<and> ?keep sps = []"
    then obtain sps where sps: "hm_get (ts_traces s) t = Some sps" "?keep sps = []" by blast
    then have "?old sps" using id [of sps] T(2) [OF sps(1)] by fastforce
    moreover have "(t, sps) \<in> set (ts_traces s)" using sps(1) by (simp only: hm_mem_iff [OF T(1)])
    ultimately show "t \<in> set ?em" using sps(2) by force
  qed
  have get: "hm_get (ts_traces ?s1) t = (case hm_get (ts_traces s) t of None \<Rightarrow> None
      | Some sps \<Rightarrow> if ?keep sps = [] then None else Some (?keep sps))" for t
  proof -
    have "hm_get (ts_traces ?s1) t = (if t \<in> set ?em then None else hm_get ?m t)"
      by (simp add: fold_remove_get)
    then show ?thesis unfolding em getm by (cases "hm_get (ts_traces s) t") simp_all
  qed
  have traces: "traces_wf R ?s1"
    unfolding traces_wf_def
  proof (intro conjI allI impI)
    show "hm_wf (ts_traces ?s1)" using fold_remove_wf [OF wfm] by simp
    have "\<forall>k \<in> set ?em. \<forall>v. hm_get ?m k = Some v \<longrightarrow> v = []"
      unfolding Ball_def em getm by auto
    from fold_remove_empty_count [OF wfm this]
    show "ts_total_spans ?s1 = span_count (ts_traces ?s1)"
      by (simp add: span_count_def n_def comp_def case_prod_unfold)
    fix t sps assume "hm_get (ts_traces ?s1) t = Some sps"
    then obtain sps0 where sps0: "hm_get (ts_traces s) t = Some sps0" "sps = ?keep sps0" "sps \<noteq> []"
      unfolding get by (auto split: option.splits if_splits)
    show "sps \<noteq> []" by (rule sps0(3))
    show "\<forall>sp \<in> set sps. sp_trace_id sp = t \<and> span_ok R (ts_interner ?s1) sp"
      using sps0(2) T(3,4) [OF sps0(1)] by simp
  qed
  have "keys_exact (reconcile_all ?ch ?s1) \<and> keys_full (reconcile_all ?ch ?s1)"
  proof (rule reconcile_all_exact [OF W(2,3)])
    fix t ks assume "(t, ks) \<in> set ?ch"
    then obtain sps where "(t, sps) \<in> set (ts_traces s)" "ks = span_keys sps" by auto
    then show "\<exists>sps. hm_get (ts_traces s) t = Some sps \<and> ks = span_keys sps"
      by (simp only: hm_mem_iff [OF T(1)]) blast
  next
    fix t assume t: "t \<notin> fst ` set ?ch"
    show "hm_get (ts_traces ?s1) t = hm_get (ts_traces s) t"
    proof (cases "hm_get (ts_traces s) t")
      case None
      then show ?thesis unfolding get by simp
    next
      case (Some sps)
      then have "(t, sps) \<in> set (ts_traces s)" by (simp only: hm_mem_iff [OF T(1)])
      with t have "\<not> ?old sps" by force
      show ?thesis
        unfolding get Some option.case id [OF \<open>\<not> ?old sps\<close>] if_not_P [OF T(2) [OF Some]] ..
    qed
  next
    fix t sps' assume "hm_get (ts_traces ?s1) t = Some sps'"
    then show "\<exists>sps. hm_get (ts_traces s) t = Some sps \<and> set sps' \<subseteq> set sps"
      unfolding get by (auto split: option.splits if_splits)
  qed simp_all
  moreover have "traces_wf R (reconcile_all ?ch ?s1)"
    using traces by (simp only: reconcile_all_traces_wf)
  ultimately have "trace_wf R (trace_evict_before cutoff s)"
    unfolding res by (intro rebuild_attr_wf) blast+
  moreover have "spans_of (trace_evict_before cutoff s) t = ?keep (spans_of s t)" for t
  proof -
    have "ts_traces (trace_evict_before cutoff s) = ts_traces ?s1"
      unfolding res by (simp only: rebuild_attr_fields reconcile_all_fields)
    then have "spans_of (trace_evict_before cutoff s) t =
        (case hm_get (ts_traces ?s1) t of None \<Rightarrow> [] | Some sps \<Rightarrow> sps)"
      by (simp only: spans_of_def)
    then show ?thesis
      unfolding get by (cases "hm_get (ts_traces s) t") (simp_all add: spans_of_def)
  qed
  ultimately show ?thesis by blast
qed

subsection \<open>The retention contract\<close>

lemma evict_spans_tally: "fst (snd (evict_spans cutoff traces n)) \<le> n"
  unfolding evict_spans_eq by simp

interpretation trace_retention: retained_store "trace_wf R" spans_of sp_start_ns ts_total_spans
    trace_evict_before trace_evict_to_max for R :: "'i rodeo_ops"
proof unfold_locales
  fix s :: "'i trace_store" and c k n
  assume wf: "trace_wf R s"
  show "trace_wf R (trace_evict_before c s)"
    "spans_of (trace_evict_before c s) k = filter (\<lambda>e. c \<le> sp_start_ns e) (spans_of s k)"
    using trace_evict_before_correct [OF wf] by auto
  show "trace_wf R (trace_evict_to_max n s)" "ts_total_spans (trace_evict_to_max n s) \<le> n"
    using trace_evict_to_max_correct [OF wf] by auto
  have "spans_of (trace_evict_to_max n s) k \<in> {spans_of s k, []}"
    using trace_evict_to_max_correct [OF wf] by blast
  then show "set (spans_of (trace_evict_to_max n s) k) \<subseteq> set (spans_of s k)" by auto
  show "ts_total_spans (trace_evict_before c s) \<le> ts_total_spans s"
    using evict_spans_tally [of c "ts_traces s" "ts_total_spans s"]
    by (cases "evict_spans c (ts_traces s) (ts_total_spans s)")
      (simp add: trace_evict_before_def reconcile_all_def [symmetric] reconcile_all_fields)
qed (simp add: trace_evict_to_max_def)

section \<open>Clearing a service\<close>

lemma reconcile_one: "reconcile_trace_indexes t before s = reconcile_all [(t, before)] s"
  by (simp add: reconcile_all_def)

lemma span_count_insert:
  assumes "hm_wf m" and "hm_get m t = Some sps" and "length sps' \<le> length sps"
  shows "span_count (hm_insert t sps' m) = span_count m - (length sps - length sps')"
  using sum_values_update [OF assms(1,2), of length sps'] assms(3) unfolding span_count_def by linarith

text \<open>One step of the clearing loop filters the spans of one trace and keeps the invariant.\<close>

lemma clear_service_step_spec:
  assumes wf: "traces_wf R s" "keys_exact s" "keys_full s"
  shows "traces_wf R (clear_service_step k t s) \<and> keys_exact (clear_service_step k t s) \<and>
    keys_full (clear_service_step k t s) \<and> ts_interner (clear_service_step k t s) = ts_interner s \<and>
    (\<forall>u. spans_of (clear_service_step k t s) u =
      (if u = t then filter (\<lambda>sp. sp_service sp \<noteq> k) (spans_of s u) else spans_of s u))"
proof (cases "hm_get (ts_traces s) t")
  case None
  with wf show ?thesis by (simp add: clear_service_step_def spans_of_def)
next
  case (Some sps)
  note T = traces_wfD [OF wf(1)]
  define sps' where "sps' = filter (\<lambda>sp. sp_service sp \<noteq> k) sps"
  define s1 where "s1 = s\<lparr>ts_total_spans := ts_total_spans s - (length sps - length sps'),
    ts_traces := (if sps' = [] then hm_remove t (ts_traces s) else hm_insert t sps' (ts_traces s))\<rparr>"
  have res: "clear_service_step k t s = reconcile_all [(t, span_keys sps)] s1"
    by (simp add: clear_service_step_def Some reconcile_one s1_def sps'_def Let_def)
  have get: "hm_get (ts_traces s1) u = (if u = t then (if sps' = [] then None else Some sps')
      else hm_get (ts_traces s) u)" for u
    by (simp add: s1_def hm_simps)
  have len: "length sps' \<le> length sps" by (simp add: sps'_def)
  have "ts_total_spans s1 = span_count (ts_traces s1)"
    using span_count_insert [OF T(1) Some len] span_count_remove [OF T(1) Some] T(5)
    by (simp add: s1_def)
  moreover have "hm_wf (ts_traces s1)" using T(1) by (simp add: s1_def hm_simps)
  moreover have "ts_interner s1 = ts_interner s" by (simp add: s1_def)
  ultimately have tr: "traces_wf R s1"
    using T(2,3,4) Some unfolding traces_wf_def get by (auto simp: sps'_def split: if_splits)
  have "keys_exact (reconcile_all [(t, span_keys sps)] s1) \<and> keys_full (reconcile_all [(t, span_keys sps)] s1)"
    by (rule reconcile_all_exact [OF wf(2,3)])
      (use Some get in \<open>auto simp: s1_def sps'_def split: if_splits\<close>)
  moreover have "spans_of (clear_service_step k t s) u =
      (if u = t then filter (\<lambda>sp. sp_service sp \<noteq> k) (spans_of s u) else spans_of s u)" for u
    using Some by (simp add: res spans_of_def reconcile_all_fields get sps'_def)
  moreover have "ts_interner (clear_service_step k t s) = ts_interner s"
    by (simp add: res reconcile_all_fields s1_def)
  ultimately show ?thesis
    using tr by (simp only: res reconcile_all_traces_wf) blast
qed

lemma clear_service_fold:
  assumes "traces_wf R s" and "keys_exact s" and "keys_full s" and "distinct ts"
  shows "traces_wf R (fold (clear_service_step k) ts s) \<and> keys_exact (fold (clear_service_step k) ts s) \<and>
    keys_full (fold (clear_service_step k) ts s) \<and>
    ts_interner (fold (clear_service_step k) ts s) = ts_interner s \<and>
    (\<forall>u. spans_of (fold (clear_service_step k) ts s) u =
      (if u \<in> set ts then filter (\<lambda>sp. sp_service sp \<noteq> k) (spans_of s u) else spans_of s u))"
  using assms
proof (induction ts arbitrary: s)
  case Nil
  then show ?case by simp
next
  case (Cons t ts)
  note S = clear_service_step_spec [OF Cons.prems(1-3), of k t]
  with Cons.IH [of "clear_service_step k t s"] Cons.prems(4) show ?case by simp
qed

lemma trace_clear_service_correct:
  assumes laws: "rodeo_laws R" and wf: "trace_wf R s"
  shows "trace_wf R (trace_clear_service R service s) \<and>
    (\<forall>t. spans_of (trace_clear_service R service s) t =
      filter (\<lambda>sp. rd_resolve R (ts_interner s) (sp_service sp) \<noteq> service) (spans_of s t))"
proof -
  note W = trace_wfD [OF wf] and T = traces_wfD [OF trace_wfD(1) [OF wf]]
  have ok: "spur_ok R (ts_interner s) (sp_service sp)" if "sp \<in> set (spans_of s t)" for sp t
    using that T(4) [of t] unfolding spans_of_def span_ok_def by (cases "hm_get (ts_traces s) t") auto
  have is_k: "rd_resolve R (ts_interner s) (sp_service sp) = service \<longleftrightarrow> sp_service sp = k"
    if "rd_get R (ts_interner s) service = Some k" "sp \<in> set (spans_of s t)" for sp t k
    using rd_get_iff [OF laws ok [OF that(2)], of service] that(1) by (simp only: option.inject) blast
  have idx: "t \<in> idx_set (ts_service_index s) k \<longleftrightarrow> (\<exists>sp \<in> set (spans_of s t). sp_service sp = k)" for t k
  proof -
    have "idx_exact sp_service (ts_traces s) (ts_service_index s)" using W(2) unfolding keys_exact_def by blast
    from idx_exactD [OF this] show ?thesis unfolding has_key_spans by auto
  qed
  show ?thesis
  proof (cases "rd_get R (ts_interner s) service")
    case None
    have "rd_resolve R (ts_interner s) (sp_service sp) \<noteq> service" if "sp \<in> set (spans_of s t)" for sp t
      using ok [OF that] None unfolding spur_ok_def by auto
    with None wf show ?thesis by (simp add: trace_clear_service_def filter_id_conv)
  next
    case (Some k)
    have keep: "filter (\<lambda>sp. rd_resolve R (ts_interner s) (sp_service sp) \<noteq> service) (spans_of s t) =
        filter (\<lambda>sp. sp_service sp \<noteq> k) (spans_of s t)" for t
      using is_k [OF Some] by (intro filter_cong) auto
    show ?thesis
    proof (cases "hm_get (ts_service_index s) k")
      case None
      then have "filter (\<lambda>sp. sp_service sp \<noteq> k) (spans_of s t) = spans_of s t" for t
        using idx [of t k] by (auto simp: idx_set_def filter_id_conv)
      with None Some wf show ?thesis by (simp add: trace_clear_service_def keep)
    next
      case (Some ts)
      let ?s = "fold (clear_service_step k) ts s"
      have "distinct ts"
        using W(2) Some unfolding keys_exact_def idx_exact_def idx_wf_def by blast
      note F = clear_service_fold [OF W(1,2,3) this, of k]
      have "trace_wf R (rebuild_attr_index ?s)"
        using F by (intro rebuild_attr_wf) blast+
      moreover have "spans_of ?s t = filter (\<lambda>sp. sp_service sp \<noteq> k) (spans_of s t)" for t
      proof (cases "t \<in> set ts")
        case False
        then have "filter (\<lambda>sp. sp_service sp \<noteq> k) (spans_of s t) = spans_of s t"
          using idx [of t k] Some by (auto simp: idx_set_def filter_id_conv)
        with False F show ?thesis by simp
      qed (simp add: F)
      ultimately show ?thesis
        using Some \<open>rd_get R (ts_interner s) service = Some k\<close>
        by (simp add: trace_clear_service_def keep) (simp add: spans_of_def)
    qed
  qed
qed

section \<open>Summaries\<close>

lemma find_root: "sps \<noteq> [] \<Longrightarrow> root_span sps \<in> set sps"
  unfolding root_span_def by (auto split: option.split simp: find_Some_iff2 arg_min_list_in find_Some_iff)

lemma latest_end_ge: "sp \<in> set sps \<Longrightarrow> span_end_ns sp \<le> latest_end sps"
proof -
  have fold_max: "(\<forall>x \<in> set es. x \<le> fold max es e) \<and> e \<le> fold max es e" for es and e :: int
    by (induction es arbitrary: e) (auto, (meson max.boundedE)+)
  assume "sp \<in> set sps"
  then show ?thesis
    using fold_max [of "map span_end_ns (tl sps)" "span_end_ns (hd sps)"]
    unfolding latest_end_def by (cases sps) auto
qed

text \<open>The summary of a stored trace exists and describes it.\<close>

lemma trace_result_of_stored:
  assumes "trace_wf R s"
  shows "trace_result_of R s t = None \<longleftrightarrow> hm_get (ts_traces s) t = None"
    and "trace_result_of R s t = Some r \<Longrightarrow> tr_trace_id r = t"
  using traces_wfD(2) [OF trace_wfD(1) [OF assms], of t]
  by (auto simp: trace_result_of_def Let_def split: option.splits if_splits)

lemma recent_traces_correct:
  assumes wf: "trace_wf R s"
  shows "length (recent_traces R s n) = min n (length (ts_traces s))"
    and "sorted (map tr_start_ns (rev (recent_traces R s n)))"
    and "distinct (map tr_trace_id (recent_traces R s n))"
    and "\<forall>r \<in> set (recent_traces R s n). trace_result_of R s (tr_trace_id r) = Some r"
    and "\<forall>t r. trace_result_of R s t = Some r \<longrightarrow> r \<notin> set (recent_traces R s n) \<longrightarrow>
      (\<forall>r' \<in> set (recent_traces R s n). tr_start_ns r \<le> tr_start_ns r')"
proof -
  let ?rs = "List.map_filter (trace_result_of R s) (hm_keys (ts_traces s))"
  note T = traces_wfD(1) [OF trace_wfD(1) [OF wf]] and S = trace_result_of_stored [OF wf]
  note take = take_sort_by_key_desc [where xs = ?rs and f = tr_start_ns and n = n, folded recent_traces_def]
  have all: "\<forall>t \<in> set ts. trace_result_of R s t \<noteq> None \<Longrightarrow>
      map tr_trace_id (List.map_filter (trace_result_of R s) ts) = ts" for ts
    using S(2) by (induction ts) (auto simp: List.map_filter_simps)
  have "\<forall>t \<in> set (hm_keys (ts_traces s)). trace_result_of R s t \<noteq> None"
    unfolding Ball_def S(1) hm_key_iff by blast
  from all [OF this] have ids: "map tr_trace_id ?rs = hm_keys (ts_traces s)" .
  have mem: "r \<in> set ?rs \<longleftrightarrow> (\<exists>t. trace_result_of R s t = Some r)" for r
  proof -
    have "trace_result_of R s t = Some r \<Longrightarrow> t \<in> set (hm_keys (ts_traces s))" for t
      using S(1) [of t] unfolding hm_key_iff by simp
    then show ?thesis by (force simp: List.map_filter_def image_iff)
  qed
  have "length ?rs = length (ts_traces s)" using arg_cong [OF ids, of length] by simp
  then show "length (recent_traces R s n) = min n (length (ts_traces s))" using take(2) by simp
  show "sorted (map tr_start_ns (rev (recent_traces R s n)))" by (rule take(1))
  show "distinct (map tr_trace_id (recent_traces R s n))"
    by (rule take(5)) (use ids T in simp)
  show "\<forall>r \<in> set (recent_traces R s n). trace_result_of R s (tr_trace_id r) = Some r"
  proof
    fix r assume "r \<in> set (recent_traces R s n)"
    with take(3) have "r \<in> set ?rs" by blast
    then obtain t where t: "trace_result_of R s t = Some r" unfolding mem by blast
    show "trace_result_of R s (tr_trace_id r) = Some r" unfolding S(2) [OF t] by (rule t)
  qed
  show "\<forall>t r. trace_result_of R s t = Some r \<longrightarrow> r \<notin> set (recent_traces R s n) \<longrightarrow>
      (\<forall>r' \<in> set (recent_traces R s n). tr_start_ns r \<le> tr_start_ns r')"
    using take(4) mem by blast
qed

section \<open>A concrete store\<close>

text \<open>Two traces, two services; the interner knows the five strings.\<close>

definition sample_span :: "trace_id \<Rightarrow> spur \<Rightarrow> spur \<Rightarrow> i64 \<Rightarrow> span" where
  "sample_span t name service start = \<lparr>sp_trace_id = t, sp_span_id = [1], sp_parent = None,
     sp_name = name, sp_service = service, sp_start_ns = start, sp_duration_ns = 5,
     sp_status = (if start < 20 then Error else Unset), sp_status_message = None, sp_kind = Server,
     sp_attributes = [(4, AString 0)], sp_events = [], sp_links = [], sp_ingest_seq = 0\<rparr>"

definition sample_spans :: "span list" where
  "sample_spans = [sample_span [1] 2 0 10, sample_span [1] 3 1 12, sample_span [2] 2 0 30]"

definition sample_interner :: "string list" where
  "sample_interner = [''api'', ''db'', ''GET'', ''SELECT'', ''env'']"

definition sample_traces :: "string list trace_store" where
  "sample_traces = ingest_spans sample_spans ((trace_new list_rodeo)\<lparr>ts_interner := sample_interner\<rparr>)"

lemma sample_spans_ok: "\<forall>sp \<in> set sample_spans. span_ok list_rodeo sample_interner sp"
  by (simp add: sample_spans_def sample_span_def sample_interner_def span_ok_def attrs_ok_def
      spur_ok_def list_rodeo_def)

lemma empty_traces_wf: "trace_wf list_rodeo ((trace_new list_rodeo)\<lparr>ts_interner := i\<rparr>)"
  by (simp add: trace_wf_def traces_wf_def keys_exact_def keys_full_def trace_new_def span_count_def)

lemma sample_traces_wf: "trace_wf list_rodeo sample_traces"
  unfolding sample_traces_def
  by (rule ingest_spans_correct [THEN conjunct1, OF empty_traces_wf]) (simp add: sample_spans_ok)

lemmas trace_eval = ingest_spans_def ingest_span_def idx_add_def index_attributes_def hm_upsert_def
  trace_new_def list_rodeo_def Let_def

lemma sample_traces_interner: "ts_interner sample_traces = sample_interner"
  by (simp add: sample_traces_def sample_spans_def sample_span_def trace_eval)

lemma sample_traces_stored:
  "ts_traces sample_traces = [([1], [sample_span [1] 2 0 10, sample_span [1] 3 1 12]), ([2], [sample_span [2] 2 0 30])]"
  by (simp add: sample_traces_def sample_spans_def sample_span_def trace_eval)

section \<open>Properties\<close>

text \<open>
  C17: Ingesting spans keeps the trace store's invariant (the service, name, status and attribute
  indexes are exactly the ones the stored spans induce, the total is exact) and appends to each
  trace the batch's spans of that trace, in order.
\<close>

theorem ingest_spans_refines:
  assumes "trace_wf R s" and "\<forall>sp \<in> set sps. span_ok R (ts_interner s) sp"
  shows "trace_wf R (ingest_spans sps s) \<and>
    (\<forall>t. spans_of (ingest_spans sps s) t = spans_of s t @ filter (\<lambda>sp. sp_trace_id sp = t) sps)"
  using ingest_spans_correct [OF assms] by blast

theorem ingest_spans_refines_witness:
  "spans_of (ingest_spans sample_spans ((trace_new list_rodeo)\<lparr>ts_interner := sample_interner\<rparr>)) [2] =
    [sample_span [2] 2 0 30]"
  using ingest_spans_refines [OF empty_traces_wf, of sample_spans sample_interner] sample_spans_ok
  by (simp add: sample_spans_def sample_span_def spans_of_def trace_new_def)

text \<open>
  Age-based eviction of traces keeps the invariant, with every index exact for what is left,
  and removes exactly the spans that start before the cutoff.
\<close>

lemma trace_evict_before_refines:
  assumes "trace_wf R s"
  shows "trace_wf R (trace_evict_before cutoff s) \<and>
    (\<forall>t. spans_of (trace_evict_before cutoff s) t = filter (\<lambda>sp. cutoff \<le> sp_start_ns sp) (spans_of s t))"
  by (rule trace_evict_before_correct [OF assms])

lemma trace_evict_before_refines_witness:
  "trace_wf list_rodeo (trace_evict_before 11 sample_traces) \<and>
   spans_of (trace_evict_before 11 sample_traces) [1] = [sample_span [1] 3 1 12]"
  using trace_evict_before_refines [OF sample_traces_wf, of 11]
  by (simp add: spans_of_def sample_traces_stored sample_span_def)

text \<open>
  C18: Count-based eviction of traces keeps the invariant. In an order of the stored traces by their
  earliest span it drops a prefix, each trace as a whole, and keeps the rest as it is. The prefix is
  the shortest that brings the number of spans down to the limit: with the last dropped trace the
  kept ones would exceed it, so nothing goes from a store within its limit.
\<close>

theorem trace_evict_to_max_refines:
  assumes "trace_wf R s"
  shows "trace_wf R (trace_evict_to_max k s) \<and>
    (\<exists>evicted kept. distinct (evicted @ kept) \<and> set (evicted @ kept) = {t. spans_of s t \<noteq> []} \<and>
      sorted (map (trace_start s) (evicted @ kept)) \<and>
      (\<forall>t. spans_of (trace_evict_to_max k s) t = (if t \<in> set evicted then [] else spans_of s t)) \<and>
      ts_total_spans (trace_evict_to_max k s) = spans_in s kept \<and> spans_in s kept \<le> k \<and>
      (evicted \<noteq> [] \<longrightarrow> k < spans_in s (last evicted # kept)))"
  using trace_evict_to_max_exact [OF assms, of k] unfolding evicted_prefix_def by blast

theorem trace_evict_to_max_refines_witness:
  "spans_of (trace_evict_to_max 2 sample_traces) [1] = [] \<and>
   spans_of (trace_evict_to_max 2 sample_traces) [2] = [sample_span [2] 2 0 30]"
proof -
  let ?s = "sample_traces"
  have stored: "{t. spans_of ?s t \<noteq> []} = {[1], [2]}"
    and two: "spans_of ?s [2] = [sample_span [2] 2 0 30]" "length (spans_of ?s [1]) = 2"
    and starts: "trace_start ?s [1] = 10" "trace_start ?s [2] = 30"
    by (auto simp: spans_of_def trace_start_def sample_traces_stored earliest_start_def sample_span_def)
  obtain evicted kept where E: "distinct (evicted @ kept)" "set (evicted @ kept) = {[1], [2]}"
    "sorted (map (trace_start ?s) (evicted @ kept))" "spans_in ?s kept \<le> 2"
    "evicted \<noteq> [] \<longrightarrow> 2 < spans_in ?s (last evicted # kept)"
    "\<And>t. spans_of (trace_evict_to_max 2 ?s) t = (if t \<in> set evicted then [] else spans_of ?s t)"
    using trace_evict_to_max_refines [OF sample_traces_wf, of 2] unfolding stored by metis
  have inj: "inj_on (trace_start ?s) (set (evicted @ kept))" unfolding E(2) by (simp add: starts inj_on_def)
  have "evicted @ kept = [[1], [2]]"
  proof (rule map_sorted_distinct_set_unique [of "trace_start ?s"])
    show "distinct (map (trace_start ?s) (evicted @ kept))" unfolding distinct_map using E(1) inj by blast
    show "inj_on (trace_start ?s) (set (evicted @ kept) \<union> set [[1], [2]])" using inj E(2) by simp
  qed (use E(2,3) starts in simp_all)
  then consider "evicted = []" "kept = [[1], [2]]" | "evicted = [[1]]" "kept = [[2]]" | "evicted = [[1], [2]]" "kept = []"
    by (auto simp: append_eq_Cons_conv)
  then show ?thesis using E(4,5,6) two by cases simp_all
qed

text \<open>
  Clearing a service from the trace store keeps the invariant, removes exactly the spans of
  that service and keeps the spans of other services in the same traces.
\<close>

theorem trace_clear_service_refines:
  assumes "rodeo_laws R" and "trace_wf R s"
  shows "trace_wf R (trace_clear_service R service s) \<and>
    (\<forall>t. spans_of (trace_clear_service R service s) t =
      filter (\<lambda>sp. rd_resolve R (ts_interner s) (sp_service sp) \<noteq> service) (spans_of s t))"
  by (rule trace_clear_service_correct [OF assms])

theorem trace_clear_service_refines_witness:
  "spans_of (trace_clear_service list_rodeo ''db'' sample_traces) [1] = [sample_span [1] 2 0 10]"
  using trace_clear_service_refines [OF list_rodeo_laws sample_traces_wf, of "''db''"]
  by (simp add: spans_of_def sample_traces_stored sample_traces_interner list_rodeo_def
      sample_interner_def sample_span_def)

text \<open>
  The recent-traces listing has as many summaries as the limit allows, newest first, one per
  trace, each the summary of a stored trace; a trace left out starts no later than any listed one.
\<close>

lemma recent_traces_newest:
  assumes "trace_wf R s"
  shows "length (recent_traces R s n) = min n (length (ts_traces s)) \<and>
    sorted (map tr_start_ns (rev (recent_traces R s n))) \<and>
    distinct (map tr_trace_id (recent_traces R s n)) \<and>
    (\<forall>r \<in> set (recent_traces R s n). trace_result_of R s (tr_trace_id r) = Some r) \<and>
    (\<forall>t r. trace_result_of R s t = Some r \<longrightarrow> r \<notin> set (recent_traces R s n) \<longrightarrow>
      (\<forall>r' \<in> set (recent_traces R s n). tr_start_ns r \<le> tr_start_ns r'))"
  using recent_traces_correct [OF assms, of n] by blast

lemma recent_traces_newest_witness:
  "length (recent_traces list_rodeo sample_traces 1) = 1"
  using recent_traces_newest [OF sample_traces_wf, of 1] by (simp add: sample_traces_stored)

end
