(* ===== verification/Nom.thy ===== *)
theory Nom
  imports Rust_Text
begin

text \<open>
  The parser combinators of the \<open>nom\<close> crate that the TraceQL and LogQL parsers call. The
  primitive parsers are parameters (the record \<open>nom_ops\<close>) whose documented behaviour is the
  predicate \<open>nom_laws\<close>; \<open>?\<close>, \<open>map\<close>, \<open>alt\<close> and \<open>cut\<close> are the control flow of the parsers over
  nom's three-way result: a value with the remaining input, a recoverable error that lets \<open>alt\<close>
  try the next branch, or a failure that stops. A parser that panics is a fourth outcome.
\<close>

section \<open>Results\<close>

datatype error_kind = KTag | KChar | KTakeWhile1 | KVerify | KFloat | KDigit | KTooLarge | KFail
  | KSeparatedList

datatype 'a parsed =
    Parsed string 'a
  | Backtrack string error_kind \<comment> \<open>\<open>Err::Error\<close> at that input\<close>
  | Abort string error_kind \<comment> \<open>\<open>Err::Failure\<close> at that input\<close>
  | Crash panic

fun parse_bind :: "'a parsed \<Rightarrow> (string \<Rightarrow> 'a \<Rightarrow> 'b parsed) \<Rightarrow> 'b parsed" where
  "parse_bind (Parsed rest v) f = f rest v"
| "parse_bind (Backtrack s k) f = Backtrack s k"
| "parse_bind (Abort s k) f = Abort s k"
| "parse_bind (Crash p) f = Crash p"

definition parse_map :: "('a \<Rightarrow> 'b) \<Rightarrow> 'a parsed \<Rightarrow> 'b parsed" where
  "parse_map g p = parse_bind p (\<lambda>rest v. Parsed rest (g v))"

fun parse_cut :: "'a parsed \<Rightarrow> 'a parsed" where
  "parse_cut (Backtrack s k) = Abort s k"
| "parse_cut p = p"

text \<open>\<open>alt\<close>: the first parser that does not backtrack; its error is the last one's.\<close>

fun parse_alt :: "(string \<Rightarrow> 'a parsed) \<Rightarrow> (string \<Rightarrow> 'a parsed) list \<Rightarrow> string \<Rightarrow> 'a parsed" where
  "parse_alt p [] input = p input"
| "parse_alt p (q # qs) input =
     (case p input of Backtrack _ _ \<Rightarrow> parse_alt q qs input | r \<Rightarrow> r)"

text \<open>A value parsed from text, or a failure at that input.\<close>

definition parse_require :: "string \<Rightarrow> error_kind \<Rightarrow> 'a option \<Rightarrow> (string \<Rightarrow> 'a \<Rightarrow> 'b parsed) \<Rightarrow> 'b parsed" where
  "parse_require input k r f = (case r of None \<Rightarrow> Abort input k | Some v \<Rightarrow> f input v)"

lemma parse_require_simps [simp]:
  "parse_require input k None f = Abort input k" "parse_require input k (Some v) f = f input v"
  by (simp_all add: parse_require_def)

lemma parse_map_simps [simp]:
  "parse_map g (Parsed rest v) = Parsed rest (g v)"
  "parse_map g (Backtrack s k) = Backtrack s k" "parse_map g (Abort s k) = Abort s k"
  "parse_map g (Crash p) = Crash p"
  by (simp_all add: parse_map_def)

lemma parse_bind_Parsed:
  "parse_bind p f = Parsed rest v \<longleftrightarrow> (\<exists>r u. p = Parsed r u \<and> f r u = Parsed rest v)"
  by (cases p) simp_all

lemma parse_map_Parsed: "parse_map g p = Parsed rest v \<longleftrightarrow> (\<exists>u. p = Parsed rest u \<and> v = g u)"
  by (cases p) auto

lemma parse_require_Parsed:
  "parse_require input k r f = Parsed rest v \<longleftrightarrow> (\<exists>u. r = Some u \<and> f input u = Parsed rest v)"
  by (cases r) simp_all

lemmas parsed_iffs = parse_bind_Parsed parse_map_Parsed parse_require_Parsed

section \<open>Primitive parsers\<close>

record nom_ops =
  nm_tag :: "string \<Rightarrow> string \<Rightarrow> string parsed"
  nm_char :: "char \<Rightarrow> string \<Rightarrow> char parsed"
  nm_multispace0 :: "string \<Rightarrow> string parsed"
  nm_take_while1 :: "(char \<Rightarrow> bool) \<Rightarrow> string \<Rightarrow> string parsed"

definition is_multispace :: "char \<Rightarrow> bool" where
  "is_multispace c \<longleftrightarrow> c = CHR '' '' \<or> c = CHR 0x09 \<or> c = CHR 0x0A \<or> c = CHR 0x0D"

definition doc_tag :: "string \<Rightarrow> string \<Rightarrow> string parsed" where
  "doc_tag t input = (case strip_prefix t input of Some rest \<Rightarrow> Parsed rest t | None \<Rightarrow> Backtrack input KTag)"

definition doc_char :: "char \<Rightarrow> string \<Rightarrow> char parsed" where
  "doc_char c input = (case input of
     [] \<Rightarrow> Backtrack input KChar
   | d # rest \<Rightarrow> if d = c then Parsed rest c else Backtrack input KChar)"

definition doc_take_while1 :: "(char \<Rightarrow> bool) \<Rightarrow> string \<Rightarrow> string parsed" where
  "doc_take_while1 P input =
     (if takeWhile P input = [] then Backtrack input KTakeWhile1
      else Parsed (dropWhile P input) (takeWhile P input))"

definition doc_nom :: nom_ops where
  "doc_nom = \<lparr>nm_tag = doc_tag, nm_char = doc_char,
     nm_multispace0 = (\<lambda>input. Parsed (dropWhile is_multispace input) (takeWhile is_multispace input)),
     nm_take_while1 = doc_take_while1\<rparr>"

text \<open>The documented behaviour of the four parsers, for every argument.\<close>

definition nom_laws :: "nom_ops \<Rightarrow> bool" where
  "nom_laws N \<longleftrightarrow>
     (\<forall>t s. nm_tag N t s = doc_tag t s) \<and> (\<forall>c s. nm_char N c s = doc_char c s) \<and>
     (\<forall>s. nm_multispace0 N s = Parsed (dropWhile is_multispace s) (takeWhile is_multispace s)) \<and>
     (\<forall>P s. nm_take_while1 N P s = doc_take_while1 P s)"

lemma doc_nom_laws: "nom_laws doc_nom"
  by (simp add: nom_laws_def doc_nom_def)

lemma nom_laws_rewrites:
  assumes "nom_laws N"
  shows "nm_tag N t s = doc_tag t s" and "nm_char N c s = doc_char c s"
    and "nm_multispace0 N s = Parsed (dropWhile is_multispace s) (takeWhile is_multispace s)"
    and "nm_take_while1 N P s = doc_take_while1 P s"
  using assms by (simp_all add: nom_laws_def)

text \<open>\<open>alt\<close> over tags that stand for constants.\<close>

fun one_of_tags :: "nom_ops \<Rightarrow> (string \<times> 'a) list \<Rightarrow> string \<Rightarrow> 'a parsed" where
  "one_of_tags N [] input = Backtrack input KTag"
| "one_of_tags N ((t, v) # rest) input =
     (case parse_map (\<lambda>_. v) (nm_tag N t input) of Backtrack _ _ \<Rightarrow> one_of_tags N rest input | r \<Rightarrow> r)"

section \<open>Quoted strings\<close>

text \<open>
  \<open>parse_quoted_string\<close> of both parsers, after the opening quote: \<open>start\<close> is the input there, for
  the error; \<open>acc\<close> the decoded text in reverse.
\<close>

fun quoted_body :: "string \<Rightarrow> string \<Rightarrow> string \<Rightarrow> string parsed" where
  "quoted_body start acc [] = Abort start KChar"
| "quoted_body start acc (c # cs) =
     (if c = CHR 0x22 then Parsed cs (rev acc)
      else if c = CHR 0x5C then
        (case cs of
           [] \<Rightarrow> Abort start KChar
         | d # ds \<Rightarrow>
             if d = CHR ''n'' then quoted_body start (CHR 0x0A # acc) ds
             else if d = CHR ''t'' then quoted_body start (CHR 0x09 # acc) ds
             else if d = CHR 0x5C then quoted_body start (CHR 0x5C # acc) ds
             else if d = CHR 0x22 then quoted_body start (CHR 0x22 # acc) ds
             else quoted_body start (d # CHR 0x5C # acc) ds)
      else quoted_body start (c # acc) cs)"

definition parse_quoted_string :: "nom_ops \<Rightarrow> string \<Rightarrow> string parsed" where
  "parse_quoted_string N input = parse_bind (nm_char N (CHR 0x22) input) (\<lambda>input _. quoted_body input [] input)"

text \<open>The text that denotes a string in a query.\<close>

definition escape_char :: "char \<Rightarrow> string" where
  "escape_char c = (if c = CHR 0x22 \<or> c = CHR 0x5C then [CHR 0x5C, c] else [c])"

definition quote :: "string \<Rightarrow> string" where
  "quote s = CHR 0x22 # concat (List.map escape_char s) @ [CHR 0x22]"

lemma quoted_body_escape:
  "quoted_body start acc (concat (List.map escape_char s) @ CHR 0x22 # rest) = Parsed rest (rev acc @ s)"
  by (induction s arbitrary: acc) (auto simp: escape_char_def)

lemma parse_quoted_string_quote:
  assumes "nom_laws N"
  shows "parse_quoted_string N (quote s @ rest) = Parsed rest s"
  using quoted_body_escape [of _ "[]" s rest]
  by (simp add: parse_quoted_string_def quote_def nom_laws_rewrites [OF assms] doc_char_def)

section \<open>Progress\<close>

text \<open>
  A result leaves no more than it was given (\<open>keeps\<close>) or strictly less (\<open>shrinks\<close>). The rules of
  the collection \<open>progress\<close> follow the structure of a parser.
\<close>

named_theorems progress \<open>how much input a parser leaves\<close>

definition keeps :: "'a parsed \<Rightarrow> string \<Rightarrow> bool" where
  "keeps p s \<longleftrightarrow> (\<forall>r v. p = Parsed r v \<longrightarrow> length r \<le> length s)"

definition shrinks :: "'a parsed \<Rightarrow> string \<Rightarrow> bool" where
  "shrinks p s \<longleftrightarrow> (\<forall>r v. p = Parsed r v \<longrightarrow> length r < length s)"

lemma shrinksD: "shrinks p s \<Longrightarrow> p = Parsed r v \<Longrightarrow> length r < length s"
  by (simp add: shrinks_def)

lemma shrinks_keeps: "shrinks p s \<Longrightarrow> keeps p s"
  by (simp add: keeps_def shrinks_def less_imp_le)

lemma keeps_simps [simp]:
  "keeps (Parsed s v) s" "keeps (Backtrack i k) s" "keeps (Abort i k) s" "keeps (Crash p) s"
  "shrinks (Backtrack i k) s" "shrinks (Abort i k) s" "shrinks (Crash p) s"
  by (simp_all add: keeps_def shrinks_def)

lemma keeps_bind [progress]:
  assumes "keeps p s" and "\<And>r u. keeps (f r u) r"
  shows "keeps (parse_bind p f) s"
  using assms by (cases p) (simp_all add: keeps_def, meson le_trans)

lemma shrinks_bind [progress]:
  assumes "shrinks p s" and "\<And>r u. keeps (f r u) r"
  shows "shrinks (parse_bind p f) s"
  using assms by (cases p) (simp_all add: keeps_def shrinks_def, meson le_less_trans)

lemma shrinks_bind_right:
  assumes "keeps p s" and "\<And>r u. shrinks (f r u) r"
  shows "shrinks (parse_bind p f) s"
  using assms by (cases p) (simp_all add: keeps_def shrinks_def, meson order_less_le_trans)

lemma keeps_map [progress]: "keeps p s \<Longrightarrow> keeps (parse_map g p) s"
  by (cases p) (simp_all add: keeps_def)

lemma shrinks_map [progress]: "shrinks p s \<Longrightarrow> shrinks (parse_map g p) s"
  by (cases p) (simp_all add: shrinks_def)

lemma keeps_require [progress]: "(\<And>u. keeps (f input u) input) \<Longrightarrow> keeps (parse_require input k r f) input"
  by (cases r) simp_all

lemma keeps_if [progress]: "keeps p s \<Longrightarrow> keeps q s \<Longrightarrow> keeps (if b then p else q) s"
  by simp

lemma shrinks_if [progress]: "shrinks p s \<Longrightarrow> shrinks q s \<Longrightarrow> shrinks (if b then p else q) s"
  by simp

lemma shrinks_alt: "\<forall>q \<in> set (p # ps). shrinks (q s) s \<Longrightarrow> shrinks (parse_alt p ps s) s"
proof (induction p ps s rule: parse_alt.induct)
  case (2 p q qs s)
  then show ?case by (cases "p s") auto
qed simp

lemma quoted_body_length: "quoted_body start acc s = Parsed r v \<Longrightarrow> length r < length s"
  by (induction start acc s rule: quoted_body.induct) (auto split: if_splits list.splits)

lemma take_drop_while_length: "length (dropWhile P s) + length (takeWhile P s) = length s"
  by (metis add.commute length_append takeWhile_dropWhile_id)

lemma primitive_progress [progress]:
  assumes "nom_laws N"
  shows "t \<noteq> [] \<Longrightarrow> shrinks (nm_tag N t s) s" and "shrinks (nm_char N c s) s"
    and "keeps (nm_multispace0 N s) s" and "shrinks (nm_take_while1 N P s) s"
    and "shrinks (parse_quoted_string N s) s"
proof -
  show "t \<noteq> [] \<Longrightarrow> shrinks (nm_tag N t s) s"
    by (auto simp: nom_laws_rewrites [OF assms] doc_tag_def shrinks_def strip_prefix_Some split: option.splits)
  show c: "shrinks (nm_char N c s) s" for c s
    by (auto simp: nom_laws_rewrites [OF assms] doc_char_def shrinks_def split: list.splits if_splits)
  show "keeps (nm_multispace0 N s) s"
    by (simp add: nom_laws_rewrites [OF assms] keeps_def length_dropWhile_le)
  have "length (dropWhile P s) < length s" if "takeWhile P s \<noteq> []"
    using that take_drop_while_length [of P s] by (metis add_diff_cancel_left' less_add_same_cancel1 length_greater_0_conv)
  then show "shrinks (nm_take_while1 N P s) s"
    by (auto simp: nom_laws_rewrites [OF assms] doc_take_while1_def shrinks_def split: if_splits)
  have "keeps (quoted_body i [] i) i" for i
    using quoted_body_length less_imp_le unfolding keeps_def by blast
  then show "shrinks (parse_quoted_string N s) s"
    unfolding parse_quoted_string_def by (intro progress c)
qed

lemma tags_progress [progress]:
  assumes "nom_laws N" and "\<forall>p \<in> set tags. fst p \<noteq> []"
  shows "shrinks (one_of_tags N tags s) s"
  using assms(2)
proof (induction tags)
  case (Cons p tags)
  obtain t u where p: "p = (t, u)" by force
  with Cons.prems have "shrinks (parse_map (\<lambda>_. u) (nm_tag N t s)) s"
    by (intro progress primitive_progress [OF assms(1)]) simp
  moreover have "shrinks (one_of_tags N tags s) s" using Cons by simp
  ultimately show ?case unfolding p one_of_tags.simps
    by (cases "parse_map (\<lambda>_. u) (nm_tag N t s)") simp_all
qed simp

lemmas weak_progress [progress] = primitive_progress(1,2,4,5) [THEN shrinks_keeps]
  tags_progress [THEN shrinks_keeps]

end
