(* ===== verification/Float64.thy ===== *)
theory Float64
  imports Rust_Text
begin

text \<open>
  The binary64 arithmetic of the source, on bit patterns. A finite value is an integer multiple
  of \<open>2 ^ -1074\<close>, its number of units; an operation is exact on units and then rounded to
  nearest, ties to even, as IEEE 754 and Rust prescribe. \<open>str::parse\<close> and
  \<open>Duration::from_secs_f64\<close> round the same way.
\<close>

section \<open>Values\<close>

definition f64_bits :: "f64 \<Rightarrow> nat" where "f64_bits x = unat x mod 2 ^ 63"
definition f64_neg :: "f64 \<Rightarrow> bool" where "f64_neg x \<longleftrightarrow> 2 ^ 63 \<le> unat x"
definition f64_inf_bits :: nat where "f64_inf_bits = 2047 * 2 ^ 52"

definition is_nan :: "f64 \<Rightarrow> bool" where "is_nan x \<longleftrightarrow> f64_inf_bits < f64_bits x"
definition is_finite :: "f64 \<Rightarrow> bool" where "is_finite x \<longleftrightarrow> f64_bits x < f64_inf_bits"

text \<open>The magnitude in units of \<open>2 ^ -1074\<close>; for an infinity one more than any finite value can have.\<close>

definition units_of_bits :: "nat \<Rightarrow> nat" where
  "units_of_bits b =
     (if b < 2 ^ 52 then b else (2 ^ 52 + b mod 2 ^ 52) * 2 ^ (b div 2 ^ 52 - 1))"

definition f64_units :: "f64 \<Rightarrow> int" where
  "f64_units x =
     (if f64_neg x then - int (units_of_bits (f64_bits x)) else int (units_of_bits (f64_bits x)))"

definition f64_one_units :: nat where "f64_one_units = 2 ^ 1074"

definition f64_of_bits :: "bool \<Rightarrow> nat \<Rightarrow> f64" where
  "f64_of_bits neg b = word_of_nat ((if neg then 2 ^ 63 else 0) + b)"

definition f64_zero :: f64 where "f64_zero = 0"
definition f64_infinity :: f64 where "f64_infinity = f64_of_bits False f64_inf_bits"
definition f64_neg_infinity :: f64 where "f64_neg_infinity = f64_of_bits True f64_inf_bits"
definition f64_nan :: f64 where "f64_nan = f64_of_bits False (2047 * 2 ^ 52 + 2 ^ 51)"

text \<open>\<open>f64::EPSILON\<close>, \<open>2 ^ -52\<close>.\<close>

definition f64_epsilon :: f64 where "f64_epsilon = f64_of_bits False (971 * 2 ^ 52)"

section \<open>Rounding\<close>

definition round_half_even :: "nat \<Rightarrow> nat \<Rightarrow> nat" where
  "round_half_even n d =
     (let q = n div d; r = n mod d
      in if 2 * r < d \<or> (2 * r = d \<and> even q) then q else q + 1)"

fun bit_length :: "nat \<Rightarrow> nat" where
  "bit_length n = (if n = 0 then 0 else Suc (bit_length (n div 2)))"

declare bit_length.simps [simp del]

text \<open>The value \<open>n / d\<close> units, rounded; beyond the largest finite value it is an infinity.\<close>

definition f64_round :: "bool \<Rightarrow> nat \<Rightarrow> nat \<Rightarrow> f64" where
  "f64_round neg n d =
     (let k = bit_length (n div d) - 53;
          b = k * 2 ^ 52 + round_half_even n (d * 2 ^ k)
      in f64_of_bits neg (min b f64_inf_bits))"

definition f64_of_int :: "int \<Rightarrow> f64" where
  "f64_of_int i = f64_round (i < 0) (nat \<bar>i\<bar> * f64_one_units) 1"

section \<open>Arithmetic\<close>

definition f64_negate :: "f64 \<Rightarrow> f64" where
  "f64_negate x = f64_of_bits (\<not> f64_neg x) (f64_bits x)"

definition f64_abs :: "f64 \<Rightarrow> f64" where
  "f64_abs x = f64_of_bits False (f64_bits x)"

definition f64_add :: "f64 \<Rightarrow> f64 \<Rightarrow> f64" where
  "f64_add x y =
     (if is_nan x \<or> is_nan y then f64_nan
      else if \<not> is_finite x
        then (if \<not> is_finite y \<and> f64_neg x \<noteq> f64_neg y then f64_nan else x)
      else if \<not> is_finite y then y
      else let u = f64_units x + f64_units y
           in if u = 0 then f64_of_bits (f64_neg x \<and> f64_neg y) 0
              else f64_round (u < 0) (nat \<bar>u\<bar>) 1)"

definition f64_sub :: "f64 \<Rightarrow> f64 \<Rightarrow> f64" where
  "f64_sub x y = f64_add x (f64_negate y)"

definition f64_mul :: "f64 \<Rightarrow> f64 \<Rightarrow> f64" where
  "f64_mul x y =
     (let neg = (f64_neg x \<noteq> f64_neg y)
      in if is_nan x \<or> is_nan y then f64_nan
         else if \<not> is_finite x \<or> \<not> is_finite y
           then (if f64_bits x = 0 \<or> f64_bits y = 0 then f64_nan else f64_of_bits neg f64_inf_bits)
         else f64_round neg (nat (\<bar>f64_units x\<bar> * \<bar>f64_units y\<bar>)) f64_one_units)"

definition f64_div :: "f64 \<Rightarrow> f64 \<Rightarrow> f64" where
  "f64_div x y =
     (let neg = (f64_neg x \<noteq> f64_neg y)
      in if is_nan x \<or> is_nan y then f64_nan
         else if \<not> is_finite x then (if is_finite y then f64_of_bits neg f64_inf_bits else f64_nan)
         else if \<not> is_finite y then f64_of_bits neg 0
         else if f64_bits y = 0
           then (if f64_bits x = 0 then f64_nan else f64_of_bits neg f64_inf_bits)
         else f64_round neg (nat \<bar>f64_units x\<bar> * f64_one_units) (nat \<bar>f64_units y\<bar>))"

section \<open>Comparison\<close>

definition f64_lt :: "f64 \<Rightarrow> f64 \<Rightarrow> bool" where
  "f64_lt x y \<longleftrightarrow> \<not> is_nan x \<and> \<not> is_nan y \<and> f64_units x < f64_units y"

definition f64_le :: "f64 \<Rightarrow> f64 \<Rightarrow> bool" where
  "f64_le x y \<longleftrightarrow> \<not> is_nan x \<and> \<not> is_nan y \<and> f64_units x \<le> f64_units y"

definition f64_eq :: "f64 \<Rightarrow> f64 \<Rightarrow> bool" where
  "f64_eq x y \<longleftrightarrow> \<not> is_nan x \<and> \<not> is_nan y \<and> f64_units x = f64_units y"

text \<open>\<open>f64::min\<close> and \<open>f64::max\<close>: a NaN loses against a number.\<close>

definition f64_min :: "f64 \<Rightarrow> f64 \<Rightarrow> f64" where
  "f64_min x y = (if is_nan x then y else if is_nan y then x else if f64_lt y x then y else x)"

definition f64_max :: "f64 \<Rightarrow> f64 \<Rightarrow> f64" where
  "f64_max x y = (if is_nan x then y else if is_nan y then x else if f64_lt x y then y else x)"

lemma f64_lt_irrefl [simp]: "\<not> f64_lt x x"
  by (simp add: f64_lt_def)

lemma f64_lt_trans: "f64_lt x y \<Longrightarrow> f64_lt y z \<Longrightarrow> f64_lt x z"
  by (auto simp: f64_lt_def)

lemma f64_le_lt: "f64_le x y \<longleftrightarrow> f64_lt x y \<or> f64_eq x y"
  by (auto simp: f64_le_def f64_lt_def f64_eq_def)

lemma f64_total: "\<not> is_nan x \<Longrightarrow> \<not> is_nan y \<Longrightarrow> f64_lt x y \<or> f64_eq x y \<or> f64_lt y x"
  by (auto simp: f64_lt_def f64_eq_def)

lemma f64_add_commute:
  assumes "is_finite x" and "is_finite y"
  shows "f64_add x y = f64_add y x"
  using assms by (simp add: f64_add_def Let_def add.commute conj_commute is_nan_def is_finite_def)

section \<open>Integers as floats\<close>

lemma bit_length_0 [simp]: "bit_length 0 = 0"
  by (simp add: bit_length.simps)

lemma bit_length_bounds: "0 < n \<Longrightarrow> 2 ^ (bit_length n - 1) \<le> n \<and> n < 2 ^ bit_length n \<and> 0 < bit_length n"
proof (induction n rule: bit_length.induct)
  case (1 n)
  show ?case
  proof (cases "n div 2 = 0")
    case True
    with 1 have "n = 1" by simp
    then show ?thesis by (simp add: bit_length.simps)
  next
    case False
    define l where "l = bit_length (n div 2)"
    have ih: "2 ^ (l - 1) \<le> n div 2" "n div 2 < 2 ^ l" "0 < l"
      using 1 False unfolding l_def by simp_all
    then obtain k where "l = Suc k" using gr0_implies_Suc by blast
    define p :: nat where "p = 2 ^ k"
    have "p \<le> n div 2" "n div 2 < 2 * p" using ih \<open>l = Suc k\<close> by (simp_all add: p_def)
    then have "2 * p \<le> n" "n < 4 * p" by presburger+
    moreover have "bit_length n = Suc (Suc k)"
      using 1(2) \<open>l = Suc k\<close> by (subst bit_length.simps) (simp add: l_def [symmetric])
    ultimately show ?thesis by (simp add: p_def)
  qed
qed

lemma bit_length_unique:
  assumes "2 ^ l \<le> n" and "n < 2 ^ Suc l"
  shows "bit_length n = Suc l"
proof -
  have n: "0 < n" using assms(1) by (metis gr0I not_less_zero order_less_le_trans zero_less_numeral zero_less_power)
  note B = bit_length_bounds [OF n]
  have "bit_length n - 1 < Suc l" using B assms(2) power_less_imp_less_exp [of "2 :: nat"] le_less_trans one_less_numeral_iff
    by (metis semiring_norm(76))
  moreover have "l < bit_length n" using B assms(1) power_less_imp_less_exp [of "2 :: nat"] le_less_trans
    by (metis one_less_numeral_iff semiring_norm(76))
  ultimately show ?thesis by simp
qed

lemma bit_length_shift: "0 < n \<Longrightarrow> bit_length (n * 2 ^ k) = bit_length n + k"
proof -
  assume "0 < n"
  note B = bit_length_bounds [OF this]
  then obtain l where l: "bit_length n = Suc l" using gr0_implies_Suc by blast
  with B have "2 ^ (l + k) \<le> n * 2 ^ k" "n * 2 ^ k < 2 ^ Suc (l + k)"
    by (simp_all add: power_add)
  from bit_length_unique [OF this] show ?thesis by (simp add: l)
qed

lemma round_half_even_cancel: "0 < c \<Longrightarrow> round_half_even (n * c) (d * c) = round_half_even n d"
proof -
  assume c: "0 < c"
  have div: "n * c div (d * c) = n div d" using c by simp
  have rem: "n * c mod (d * c) = n mod d * c" by (rule mult_mod_left [symmetric])
  have "2 * (n mod d * c) < d * c \<longleftrightarrow> 2 * (n mod d) < d" using c by (metis mult.assoc mult_less_cancel2)
  moreover have "2 * (n mod d * c) = d * c \<longleftrightarrow> 2 * (n mod d) = d" using c by (metis mult.assoc mult_cancel2 not_gr0)
  ultimately show ?thesis unfolding round_half_even_def Let_def div rem by simp
qed

lemma round_half_even_exact: "0 < d \<Longrightarrow> round_half_even (q * d) d = q"
  by (simp add: round_half_even_def)

text \<open>An integer with at most 53 bits is represented exactly.\<close>

lemma f64_round_exact:
  assumes "0 < m" and "bit_length m \<le> 53"
  shows "f64_round neg (m * f64_one_units) 1 =
    f64_of_bits neg ((1021 + bit_length m) * 2 ^ 52 + m * 2 ^ (53 - bit_length m))"
proof -
  define l where "l = bit_length m"
  have l: "0 < l" "l \<le> 53" "m < 2 ^ l" using bit_length_bounds [OF assms(1)] assms(2) unfolding l_def by auto
  have k: "bit_length (m * f64_one_units div 1) - 53 = 1021 + l"
    using bit_length_shift [OF assms(1), of 1074] l unfolding f64_one_units_def l_def by simp
  have e: "(2 :: nat) ^ 1074 = 2 ^ (53 - l) * 2 ^ (1021 + l)"
    unfolding power_add [symmetric] using l by simp
  have r: "round_half_even (m * f64_one_units) (1 * 2 ^ (1021 + l)) = m * 2 ^ (53 - l)"
    unfolding f64_one_units_def e mult.assoc [symmetric] mult_1 by (rule round_half_even_exact) simp
  have "m * 2 ^ (53 - l) < 2 ^ 53"
  proof -
    have "m * 2 ^ (53 - l) < 2 ^ l * 2 ^ (53 - l)" using l(3) by simp
    also have "\<dots> = 2 ^ 53" unfolding power_add [symmetric] using l(2) by simp
    finally show ?thesis .
  qed
  moreover have "(1021 + l) * 2 ^ 52 \<le> (1021 + 53) * 2 ^ 52" using l(2) by (intro mult_right_mono) auto
  ultimately have "(1021 + l) * 2 ^ 52 + m * 2 ^ (53 - l) \<le> f64_inf_bits"
    unfolding f64_inf_bits_def by (simp only: power_numeral pow.simps) simp
  then show ?thesis unfolding f64_round_def Let_def k l_def [symmetric] r by (simp only: min.absorb1)
qed

section \<open>Parsing\<close>

definition ascii_lower :: "char \<Rightarrow> char" where
  "ascii_lower c = (let n = of_char c :: nat in if 65 \<le> n \<and> n \<le> 90 then char_of (n + 32) else c)"

text \<open>Digits with at most one point and an optional exponent: mantissa digits and decimal exponent.\<close>

definition split_digits :: "string \<Rightarrow> string \<times> string" where
  "split_digits s = (takeWhile is_ascii_digit s, dropWhile is_ascii_digit s)"

definition parse_exponent :: "string \<Rightarrow> int option" where
  "parse_exponent s =
     (case s of
        [] \<Rightarrow> Some 0
      | c # cs \<Rightarrow>
          if ascii_lower c \<noteq> CHR ''e'' then None
          else let (neg, ds) = (case cs of
                     d # ds \<Rightarrow> if d = CHR ''-'' then (True, ds) else if d = CHR ''+'' then (False, ds)
                               else (False, cs)
                   | [] \<Rightarrow> (False, []))
               in map_option (\<lambda>n. if neg then - int n else int n) (parse_digits ds))"

definition parse_decimal :: "string \<Rightarrow> (nat \<times> int) option" where
  "parse_decimal s =
     (let (whole, r1) = split_digits s;
          (frac, r2) = (case r1 of c # cs \<Rightarrow> if c = CHR ''.'' then split_digits cs else ([], r1)
                        | [] \<Rightarrow> ([], []))
      in if whole = [] \<and> frac = [] then None
         else map_option (\<lambda>e. (digits_value (whole @ frac), e - int (length frac))) (parse_exponent r2))"

definition f64_of_decimal :: "bool \<Rightarrow> nat \<times> int \<Rightarrow> f64" where
  "f64_of_decimal neg p =
     (case p of (m, e) \<Rightarrow>
        if 0 \<le> e then f64_round neg (m * 10 ^ nat e * f64_one_units) 1
        else f64_round neg (m * f64_one_units) (10 ^ nat (- e)))"

definition parse_f64 :: "string \<Rightarrow> f64 option" where
  "parse_f64 s =
     (let (neg, body) = (case s of
            c # cs \<Rightarrow> if c = CHR ''-'' then (True, cs) else if c = CHR ''+'' then (False, cs) else (False, s)
          | [] \<Rightarrow> (False, []));
          word = List.map ascii_lower body
      in if word = ''inf'' \<or> word = ''infinity'' then Some (f64_of_bits neg f64_inf_bits)
         else if word = ''nan'' then Some f64_nan
         else map_option (f64_of_decimal neg) (parse_decimal body))"

section \<open>Durations\<close>

text \<open>A \<open>Duration\<close> is its number of nanoseconds.\<close>

type_synonym duration = nat

definition duration_max :: duration where
  "duration_max = u64_max * 1000000000 + 999999999"

text \<open>
  \<open>Duration::from_secs_f64\<close> on a value that is neither negative nor NaN: the nearest nanosecond,
  ties to even; it panics when the seconds do not fit 64 bits.
\<close>

definition from_secs_f64 :: "f64 \<Rightarrow> panic + duration" where
  "from_secs_f64 x =
     (let d = round_half_even (units_of_bits (f64_bits x) * 1000000000) f64_one_units
      in if is_finite x \<and> d \<le> duration_max then Inr d else Inl DurationOverflow)"

definition duration_as_i64_ns :: "duration \<Rightarrow> i64" where
  "duration_as_i64_ns d = (if int d > i64_max then i64_max else int d)"

lemma f64_of_bits_unat: "b < 2 ^ 63 \<Longrightarrow> unat (f64_of_bits neg b) = (if neg then 2 ^ 63 else 0) + b"
  unfolding f64_of_bits_def by (simp only: unat_of_nat) simp

lemma f64_of_bits_bits: "b < 2 ^ 63 \<Longrightarrow> f64_bits (f64_of_bits neg b) = b"
  by (simp add: f64_bits_def f64_of_bits_unat)

lemma f64_of_bits_neg: "b < 2 ^ 63 \<Longrightarrow> f64_neg (f64_of_bits neg b) = neg"
  by (simp add: f64_neg_def f64_of_bits_unat)

lemma f64_of_nat_units:
  assumes "m < 2 ^ 53"
  defines "x \<equiv> f64_round False (m * f64_one_units) 1"
  shows "units_of_bits (f64_bits x) = m * f64_one_units \<and> is_finite x \<and> \<not> f64_neg x"
proof (cases "m = 0")
  case True
  have "x = f64_of_bits False 0" unfolding x_def True by (simp add: f64_round_def round_half_even_def)
  then show ?thesis
    using True f64_of_bits_bits [of 0 False] f64_of_bits_neg [of 0 False]
    by (simp add: units_of_bits_def is_finite_def f64_inf_bits_def)
next
  case False
  define l where "l = bit_length m"
  note B = bit_length_bounds [of m, folded l_def]
  have l: "0 < l" "l \<le> 53" "m < 2 ^ l" "2 ^ (l - 1) \<le> m"
  proof -
    have "(2 :: nat) ^ (l - 1) < 2 ^ 53" using B False assms(1) le_less_trans by blast
    then have "l - 1 < 53" by (rule power_less_imp_less_exp [rotated]) simp
    then show "l \<le> 53" by simp
  qed (use B False in auto)
  have e: "(2 :: nat) ^ (l - 1) * 2 ^ (53 - l) = 2 ^ 52" "(2 :: nat) ^ l * 2 ^ (53 - l) = 2 ^ 53"
    unfolding power_add [symmetric] using l by simp_all
  define q where "q = m * 2 ^ (53 - l)"
  have q: "2 ^ 52 \<le> q" "q < 2 ^ 53"
    unfolding q_def e [symmetric] using l by simp_all
  define b where "b = (1021 + l) * 2 ^ 52 + q"
  have x: "x = f64_of_bits False b"
    using f64_round_exact [of m False] False l unfolding x_def b_def q_def l_def by simp
  have split: "b = (1022 + l) * 2 ^ 52 + (q - 2 ^ 52)" using q(1) unfolding b_def by simp
  have small: "q - 2 ^ 52 < 2 ^ 52" using q by simp
  have div: "b div 2 ^ 52 = 1022 + l"
    unfolding split by (subst div_mult_self3) (use small in simp_all)
  have "b mod 2 ^ 52 = q - 2 ^ 52"
    unfolding split mod_mult_self3 by (rule mod_less [OF small])
  then have rem: "2 ^ 52 + b mod 2 ^ 52 = q" using q(1) by simp
  have b: "2 ^ 52 \<le> b" "b < f64_inf_bits" "b < 2 ^ 63"
    using q l(2) unfolding b_def f64_inf_bits_def by simp_all
  have "units_of_bits b = q * 2 ^ (1021 + l)"
    using b(1) unfolding units_of_bits_def div rem by simp
  also have "\<dots> = m * f64_one_units"
    unfolding q_def f64_one_units_def mult.assoc power_add [symmetric] using l(2) by simp
  finally show ?thesis
    unfolding x f64_of_bits_bits [OF b(3)] f64_of_bits_neg [OF b(3)] is_finite_def using b(2) by simp
qed

lemma from_secs_f64_nat:
  assumes "n < 2 ^ 53"
  shows "from_secs_f64 (f64_round False (n * f64_one_units) 1) = Inr (n * 1000000000)"
proof -
  have "round_half_even (n * f64_one_units * 1000000000) f64_one_units = n * 1000000000"
    using round_half_even_exact [of f64_one_units "n * 1000000000"]
    by (simp add: f64_one_units_def mult.assoc mult.commute)
  moreover have "n * 1000000000 \<le> duration_max"
    using assms by (simp add: duration_max_def u64_max_def)
  ultimately show ?thesis
    using f64_of_nat_units [OF assms] by (simp add: from_secs_f64_def)
qed

lemma takeWhile_digits [simp]: "takeWhile is_ascii_digit (nat_to_string n) = nat_to_string n"
  "dropWhile is_ascii_digit (nat_to_string n) = []"
  using nat_to_string_digits [of n] by (simp_all add: list_all_iff)

lemma parse_f64_nat: "parse_f64 (nat_to_string n) = Some (f64_round False (n * f64_one_units) 1)"
proof -
  obtain c cs where s: "nat_to_string n = c # cs" by (cases "nat_to_string n") simp_all
  have c: "is_ascii_digit c" using nat_to_string_digits [of n] s by simp
  then have "48 \<le> (of_char c :: nat)" "(of_char c :: nat) \<le> 57" by (simp_all add: is_ascii_digit_def)
  then have "of_char (ascii_lower c) = (of_char c :: nat)" by (simp add: ascii_lower_def Let_def)
  then have c': "is_ascii_digit (ascii_lower c)" using c by (simp add: is_ascii_digit_def)
  have ne: "c \<noteq> CHR ''-''" "c \<noteq> CHR ''+''" "ascii_lower c \<noteq> CHR ''i''" "ascii_lower c \<noteq> CHR ''n''"
    using c c' by (auto simp: is_ascii_digit_def)
  have "parse_decimal (c # cs) = Some (n, 0)"
    unfolding parse_decimal_def split_digits_def s [symmetric]
    by (simp add: digits_value_nat_to_string parse_exponent_def)
  then show ?thesis
    unfolding parse_f64_def s Let_def using ne by (simp add: f64_of_decimal_def)
qed

text \<open>The smallest value that does not fit a duration.\<close>

lemma f64_two_64: "f64_round False (2 ^ 64 * f64_one_units) 1 = f64_of_bits False (1087 * 2 ^ 52)"
proof -
  have l: "bit_length (2 ^ 64) = Suc 64" by (rule bit_length_unique) simp_all
  have k: "bit_length (2 ^ 64 * f64_one_units div 1) - 53 = 1086"
    using bit_length_shift [of "2 ^ 64" 1074] l unfolding f64_one_units_def by simp
  have "(2 :: nat) ^ 64 * 2 ^ 1074 = 2 ^ 52 * 2 ^ 1086" unfolding power_add [symmetric] by simp
  then have r: "round_half_even (2 ^ 64 * f64_one_units) (1 * 2 ^ 1086) = 2 ^ 52"
    unfolding f64_one_units_def mult_1 by (simp only:) (rule round_half_even_exact, simp)
  show ?thesis unfolding f64_round_def Let_def k r by (simp add: f64_inf_bits_def)
qed

lemma from_secs_f64_two_64: "from_secs_f64 (f64_of_bits False (1087 * 2 ^ 52)) = Inl DurationOverflow"
proof -
  have b: "f64_bits (f64_of_bits False (1087 * 2 ^ 52)) = 1087 * 2 ^ 52" by (rule f64_of_bits_bits) simp
  have "units_of_bits (1087 * 2 ^ 52) = 2 ^ 52 * 2 ^ 1086" by (simp add: units_of_bits_def)
  also have "\<dots> = 2 ^ 64 * f64_one_units" unfolding f64_one_units_def power_add [symmetric] by simp
  finally have u: "units_of_bits (1087 * 2 ^ 52) = 2 ^ 64 * f64_one_units" .
  have "2 ^ 64 * f64_one_units * 1000000000 = (2 ^ 64 * 1000000000) * f64_one_units" by simp
  then have "round_half_even (2 ^ 64 * f64_one_units * 1000000000) f64_one_units = 2 ^ 64 * 1000000000"
    by (simp only:) (rule round_half_even_exact, simp add: f64_one_units_def)
  moreover have "\<not> (2 ^ 64 * 1000000000 :: nat) \<le> duration_max" by (simp add: duration_max_def u64_max_def)
  ultimately show ?thesis unfolding from_secs_f64_def b u Let_def by (simp only: simp_thms if_False)
qed

end
