(* ===== verification/Traceql_Parser.thy ===== *)
theory Traceql_Parser
  imports Nom Float64
begin

text \<open>
  The TraceQL parser: \<open>src/query/traceql/parser.rs\<close> and \<open>parser/pipeline.rs\<close>. One definition
  per function, on the parsers of the theory Nom.
\<close>

section \<open>Syntax\<close>

datatype attr_scope = ScopeResource | ScopeSpan

datatype compare_op = CEq | CNeq | CGt | CLt | CGte | CLte | CRegex

datatype span_value = VString string | VInt i64 | VFloat f64 | VBool bool

datatype logical_op = LAnd | LOr

datatype span_status_value = SvOk | SvError | SvUnset

datatype span_kind_value = KvUnspecified | KvInternal | KvServer | KvClient | KvProducer | KvConsumer

datatype span_condition =
    CondAttribute attr_scope string compare_op span_value
  | CondDuration compare_op duration
  | CondStatus compare_op span_status_value
  | CondKind compare_op span_kind_value
  | CondName compare_op string
  | CondEventName compare_op string
  | CondEventAttribute string compare_op span_value

datatype structural_op = Descendant | Child | Sibling

datatype pipeline_stage =
    CountFilter compare_op u64
  | AvgDuration compare_op i64
  | MaxDuration compare_op i64
  | MinDuration compare_op i64

datatype traceql_expr =
    SpanSelector "span_condition list" "logical_op list"
  | Structural structural_op traceql_expr traceql_expr
  | TracePipeline traceql_expr "pipeline_stage list"

datatype traceql_parse_error = TraceSyntax string error_kind | TraceTrailing string

section \<open>Tokens\<close>

definition is_attr_char :: "char \<Rightarrow> bool" where
  "is_attr_char c \<longleftrightarrow> is_alphanumeric c \<or> c = CHR ''.'' \<or> c = CHR ''_'' \<or> c = CHR ''-''"

definition is_word_char :: "char \<Rightarrow> bool" where
  "is_word_char c \<longleftrightarrow> is_alphanumeric c \<or> c = CHR ''_'' \<or> c = CHR ''.''"

definition peek_keyword :: "string \<Rightarrow> string \<Rightarrow> bool" where
  "peek_keyword input keyword =
     (case strip_prefix keyword input of
        None \<Rightarrow> False
      | Some [] \<Rightarrow> True
      | Some (c # _) \<Rightarrow> \<not> is_word_char c)"

definition parse_compare_op :: "nom_ops \<Rightarrow> string \<Rightarrow> compare_op parsed" where
  "parse_compare_op N = one_of_tags N
     [(''>='', CGte), (''<='', CLte), (''!='', CNeq), (''=~'', CRegex), (''='', CEq), (''>'', CGt),
      (''<'', CLt)]"

definition parse_bool_value :: "nom_ops \<Rightarrow> string \<Rightarrow> span_value parsed" where
  "parse_bool_value N input =
     parse_bind (one_of_tags N [(''true'', True), (''false'', False)] input) (\<lambda>rest b.
       case rest of
         c # _ \<Rightarrow> if is_word_char c then Backtrack input KTag else Parsed rest (VBool b)
       | [] \<Rightarrow> Parsed rest (VBool b))"

definition parse_numeric_value :: "nom_ops \<Rightarrow> string \<Rightarrow> span_value parsed" where
  "parse_numeric_value N input =
     parse_bind (nm_take_while1 N (\<lambda>c. is_ascii_digit c \<or> c = CHR ''.'' \<or> c = CHR ''-'') input)
       (\<lambda>input num.
         if CHR ''.'' \<in> set num
         then parse_require input KFloat (parse_f64 num) (\<lambda>input v. Parsed input (VFloat v))
         else parse_require input KDigit (parse_i64 num) (\<lambda>input v. Parsed input (VInt v)))"

definition parse_span_value :: "nom_ops \<Rightarrow> string \<Rightarrow> span_value parsed" where
  "parse_span_value N =
     parse_alt (\<lambda>input. parse_map VString (parse_quoted_string N input))
       [parse_bool_value N, parse_numeric_value N]"

datatype duration_unit = Millis | Seconds | Minutes | Hours

definition unit_seconds :: "duration_unit \<Rightarrow> f64 \<Rightarrow> f64" where
  "unit_seconds u num = (case u of
     Millis \<Rightarrow> f64_div num (f64_of_int 1000)
   | Seconds \<Rightarrow> num
   | Minutes \<Rightarrow> f64_mul num (f64_of_int 60)
   | Hours \<Rightarrow> f64_mul num (f64_of_int 3600))"

text \<open>
  The constant \<open>Duration::MAX.as_secs_f64()\<close>: \<open>u64::MAX\<close> seconds and a fraction round to \<open>2 ^ 64\<close>.
\<close>

definition duration_max_secs :: f64 where
  "duration_max_secs = f64_of_bits False (1087 * 2 ^ 52)"

definition parse_duration_value :: "nom_ops \<Rightarrow> string \<Rightarrow> duration parsed" where
  "parse_duration_value N input =
     parse_bind (nm_take_while1 N (\<lambda>c. is_ascii_digit c \<or> c = CHR ''.'') input) (\<lambda>input num_str.
     parse_bind (one_of_tags N [(''ms'', Millis), (''s'', Seconds), (''m'', Minutes), (''h'', Hours)] input)
       (\<lambda>input unit.
     parse_require input KFloat (parse_f64 num_str) (\<lambda>input num.
       let secs = unit_seconds unit num
       in if \<not> is_finite secs \<or> f64_lt secs f64_zero \<or> f64_lt duration_max_secs secs
          then Abort input KFloat
          else case from_secs_f64 secs of Inl p \<Rightarrow> Crash p | Inr d \<Rightarrow> Parsed input d)))"

section \<open>Conditions\<close>

text \<open>The operator and what surrounds it: \<open>multispace0, parse_compare_op, multispace0\<close>.\<close>

definition spaced_op :: "nom_ops \<Rightarrow> string \<Rightarrow> (string \<Rightarrow> compare_op \<Rightarrow> 'a parsed) \<Rightarrow> 'a parsed" where
  "spaced_op N input f =
     parse_bind (nm_multispace0 N input) (\<lambda>input _.
     parse_bind (parse_compare_op N input) (\<lambda>input op.
     parse_bind (nm_multispace0 N input) (\<lambda>input _. f input op)))"

definition is_equality_op :: "compare_op \<Rightarrow> bool" where
  "is_equality_op op \<longleftrightarrow> op = CEq \<or> op = CNeq"

definition parse_duration_condition :: "nom_ops \<Rightarrow> string \<Rightarrow> span_condition parsed" where
  "parse_duration_condition N input =
     parse_bind (nm_tag N ''duration'' input) (\<lambda>input _.
     spaced_op N input (\<lambda>input op.
     parse_map (CondDuration op) (parse_duration_value N input)))"

definition parse_status_condition :: "nom_ops \<Rightarrow> string \<Rightarrow> span_condition parsed" where
  "parse_status_condition N input =
     parse_bind (nm_tag N ''status'' input) (\<lambda>input _.
     spaced_op N input (\<lambda>input op.
     parse_bind (one_of_tags N [(''error'', SvError), (''ok'', SvOk), (''unset'', SvUnset)] input)
       (\<lambda>input status.
         if is_equality_op op then Parsed input (CondStatus op status) else Backtrack input KVerify)))"

definition parse_kind_condition :: "nom_ops \<Rightarrow> string \<Rightarrow> span_condition parsed" where
  "parse_kind_condition N input =
     parse_bind (nm_tag N ''kind'' input) (\<lambda>input _.
     spaced_op N input (\<lambda>input op.
     parse_bind (one_of_tags N [(''unspecified'', KvUnspecified), (''internal'', KvInternal),
         (''server'', KvServer), (''client'', KvClient), (''producer'', KvProducer),
         (''consumer'', KvConsumer)] input)
       (\<lambda>input kind.
         if is_equality_op op then Parsed input (CondKind op kind) else Backtrack input KVerify)))"

definition parse_name_condition :: "nom_ops \<Rightarrow> string \<Rightarrow> span_condition parsed" where
  "parse_name_condition N input =
     parse_bind (nm_tag N ''name'' input) (\<lambda>input _.
     spaced_op N input (\<lambda>input op.
     parse_map (CondName op) (parse_quoted_string N input)))"

definition parse_event_condition :: "nom_ops \<Rightarrow> string \<Rightarrow> span_condition parsed" where
  "parse_event_condition N input =
     parse_bind (nm_tag N ''event.'' input) (\<lambda>input _.
     parse_bind (nm_take_while1 N is_attr_char input) (\<lambda>input key.
     spaced_op N input (\<lambda>input op.
       if key = ''name'' then parse_map (CondEventName op) (parse_quoted_string N input)
       else parse_map (CondEventAttribute key op) (parse_span_value N input))))"

definition attr_scope_of :: "string \<Rightarrow> attr_scope \<times> string" where
  "attr_scope_of s =
     (case strip_prefix ''resource.'' s of
        Some rest \<Rightarrow> (ScopeResource, rest)
      | None \<Rightarrow> (case strip_prefix ''span.'' s of
            Some rest \<Rightarrow> (ScopeSpan, rest)
          | None \<Rightarrow> (if CHR ''.'' \<in> set s then ScopeResource else ScopeSpan, s)))"

definition parse_attribute_condition :: "nom_ops \<Rightarrow> string \<Rightarrow> span_condition parsed" where
  "parse_attribute_condition N input =
     parse_bind (nm_take_while1 N is_attr_char input) (\<lambda>input scope_and_name.
       let (scope, name) = attr_scope_of scope_and_name
       in spaced_op N input (\<lambda>input op.
          parse_map (CondAttribute scope name op) (parse_span_value N input)))"

definition parse_condition :: "nom_ops \<Rightarrow> string \<Rightarrow> span_condition parsed" where
  "parse_condition N input =
     parse_bind (nm_multispace0 N input) (\<lambda>input _.
       if peek_keyword input ''duration'' then parse_duration_condition N input
       else if peek_keyword input ''status'' then parse_status_condition N input
       else if peek_keyword input ''kind'' then parse_kind_condition N input
       else if peek_keyword input ''name'' then parse_name_condition N input
       else if starts_with input ''event.'' then parse_event_condition N input
       else parse_attribute_condition N input)"

text \<open>
  The loop of \<open>parse_conditions\<close>: it collects operator and condition pairs until no operator
  follows. An operator without a condition is a failure at the input after it. Each round consumes
  input, so the length of the input is enough fuel.
\<close>

fun more_conditions :: "nom_ops \<Rightarrow> nat \<Rightarrow> string \<Rightarrow> (logical_op \<times> span_condition) list parsed" where
  "more_conditions N 0 input = Parsed input []"
| "more_conditions N (Suc fuel) input =
     (case nm_multispace0 N input of
        Parsed trimmed _ \<Rightarrow>
          (case one_of_tags N [(''&&'', LAnd), (''||'', LOr)] trimmed of
             Parsed rest op \<Rightarrow>
               (case nm_multispace0 N rest of
                  Parsed rest _ \<Rightarrow>
                    (case parse_condition N rest of
                       Parsed rest' cond \<Rightarrow>
                         parse_map (Cons (op, cond)) (more_conditions N fuel rest')
                     | Crash p \<Rightarrow> Crash p
                     | _ \<Rightarrow> Abort rest KTag)
                | _ \<Rightarrow> Parsed input [])
           | _ \<Rightarrow> Parsed input [])
      | _ \<Rightarrow> Parsed input [])"

definition parse_conditions :: "nom_ops \<Rightarrow> string \<Rightarrow> (span_condition list \<times> logical_op list) parsed" where
  "parse_conditions N input =
     (case parse_condition N input of
        Parsed rest first \<Rightarrow>
          parse_map (\<lambda>more. (first # List.map snd more, List.map fst more))
            (more_conditions N (length rest) rest)
      | Crash p \<Rightarrow> Crash p
      | _ \<Rightarrow> Parsed input ([], []))"

definition parse_span_selector :: "nom_ops \<Rightarrow> string \<Rightarrow> traceql_expr parsed" where
  "parse_span_selector N input =
     parse_bind (nm_multispace0 N input) (\<lambda>input _.
     parse_bind (nm_char N (CHR ''{'') input) (\<lambda>input _.
     parse_bind (nm_multispace0 N input) (\<lambda>input _.
     parse_bind (parse_conditions N input) (\<lambda>input (conditions, ops).
     parse_bind (nm_multispace0 N input) (\<lambda>input _.
     parse_bind (nm_char N (CHR ''}'') input) (\<lambda>input _.
       Parsed input (SpanSelector conditions ops)))))))"

definition parse_structural_op :: "nom_ops \<Rightarrow> string \<Rightarrow> structural_op parsed" where
  "parse_structural_op N = one_of_tags N [(''>>'', Descendant), (''>'', Child), (''~'', Sibling)]"

definition parse_top_level :: "nom_ops \<Rightarrow> string \<Rightarrow> traceql_expr parsed" where
  "parse_top_level N input =
     parse_bind (parse_span_selector N input) (\<lambda>input lhs.
     parse_bind (nm_multispace0 N input) (\<lambda>input _.
       case parse_structural_op N input of
         Parsed input op \<Rightarrow>
           parse_bind (nm_multispace0 N input) (\<lambda>input _.
           parse_map (Structural op lhs) (parse_span_selector N input))
       | _ \<Rightarrow> Parsed input lhs))"

section \<open>Pipeline stages\<close>

definition parse_count_filter :: "nom_ops \<Rightarrow> string \<Rightarrow> pipeline_stage parsed" where
  "parse_count_filter N input =
     parse_bind (nm_tag N ''count()'' input) (\<lambda>input _.
     spaced_op N input (\<lambda>input op.
     parse_bind (nm_take_while1 N is_ascii_digit input) (\<lambda>input num.
     parse_require input KDigit (parse_u64 num) (\<lambda>input v. Parsed input (CountFilter op v)))))"

definition duration_to_i64_ns :: "duration \<Rightarrow> i64 option" where
  "duration_to_i64_ns d = (if i64_max < int d then None else Some (int d))"

definition parse_duration_agg_filter :: "nom_ops \<Rightarrow> string \<Rightarrow> pipeline_stage parsed" where
  "parse_duration_agg_filter N input =
     parse_bind (one_of_tags N [(''avg'', AvgDuration), (''max'', MaxDuration), (''min'', MinDuration)] input)
       (\<lambda>input agg.
     parse_bind (nm_tag N ''(duration)'' input) (\<lambda>input _.
     spaced_op N input (\<lambda>input op.
     parse_bind (parse_duration_value N input) (\<lambda>input dur.
     parse_require input KTooLarge (duration_to_i64_ns dur) (\<lambda>input ns. Parsed input (agg op ns))))))"

text \<open>The loop of \<open>parse_pipeline_stages\<close>; every stage consumes input, the length is enough fuel.\<close>

fun pipeline_loop :: "nom_ops \<Rightarrow> nat \<Rightarrow> string \<Rightarrow> pipeline_stage list parsed" where
  "pipeline_loop N 0 input = Parsed input []"
| "pipeline_loop N (Suc fuel) input =
     (case trim_start input of
        [] \<Rightarrow> Parsed input []
      | c # cs \<Rightarrow>
          if c \<noteq> CHR ''|'' then Parsed input []
          else (case parse_count_filter N (trim_start cs) of
                  Parsed rest stage \<Rightarrow> parse_map (Cons stage) (pipeline_loop N fuel rest)
                | Crash p \<Rightarrow> Crash p
                | _ \<Rightarrow> (case parse_duration_agg_filter N (trim_start cs) of
                      Parsed rest stage \<Rightarrow> parse_map (Cons stage) (pipeline_loop N fuel rest)
                    | Crash p \<Rightarrow> Crash p
                    | _ \<Rightarrow> Parsed input [])))"

definition parse_pipeline_stages :: "nom_ops \<Rightarrow> string \<Rightarrow> pipeline_stage list parsed" where
  "parse_pipeline_stages N input = pipeline_loop N (length input) input"

section \<open>Whole queries\<close>

text \<open>The outcome of a call: it panics, rejects the query, or returns the expression.\<close>

definition parse_traceql :: "nom_ops \<Rightarrow> string \<Rightarrow> panic + (traceql_parse_error + traceql_expr)" where
  "parse_traceql N input =
     (case parse_top_level N (trim input) of
        Parsed remaining expr \<Rightarrow>
          (case parse_pipeline_stages N (trim remaining) of
             Parsed remaining stages \<Rightarrow>
               Inr (if trim remaining = []
                    then Inr (if stages = [] then expr else TracePipeline expr stages)
                    else Inl (TraceTrailing (trim remaining)))
           | Crash p \<Rightarrow> Inl p
           | Backtrack s k \<Rightarrow> Inr (Inl (TraceSyntax s k))
           | Abort s k \<Rightarrow> Inr (Inl (TraceSyntax s k)))
      | Crash p \<Rightarrow> Inl p
      | Backtrack s k \<Rightarrow> Inr (Inl (TraceSyntax s k))
      | Abort s k \<Rightarrow> Inr (Inl (TraceSyntax s k)))"

end
