(* ===== verification/Traceql_Eval.thy ===== *)
theory Traceql_Eval
  imports Traceql_Parser Trace_Store
begin

text \<open>
  The TraceQL evaluator, \<open>src/query/traceql/eval.rs\<close>: conditions on a span, selectors with index
  narrowing, structural operators and pipeline stages over a trace store. Indexing a condition out
  of bounds panics, so matching and evaluation return a panic or a value.
\<close>

section \<open>Results\<close>

record matched_span =
  msp_span_id :: span_id
  msp_name :: string
  msp_service :: string
  msp_start_ns :: i64
  msp_duration_ns :: i64
  msp_status :: span_status
  msp_attributes :: "(string \<times> string) list"

record traceql_result =
  tq_trace_id :: trace_id
  tq_spans :: "matched_span list"

text \<open>What the evaluator needs from outside: interner, regular expressions, float rendering.\<close>

record ('i, 'r) eval_env =
  env_rodeo :: "'i rodeo_ops"
  env_regex :: "'r regex_ops"
  env_fmt :: "f64 \<Rightarrow> string"

section \<open>Comparisons\<close>

definition compare_ord :: "'a::linorder \<Rightarrow> compare_op \<Rightarrow> 'a \<Rightarrow> bool" where
  "compare_ord a op b = (case op of CEq \<Rightarrow> a = b | CNeq \<Rightarrow> a \<noteq> b | CGt \<Rightarrow> b < a | CLt \<Rightarrow> a < b
     | CGte \<Rightarrow> b \<le> a | CLte \<Rightarrow> a \<le> b | CRegex \<Rightarrow> False)"

text \<open>The source has one copy per integer type.\<close>

definition compare_i64 :: "i64 \<Rightarrow> compare_op \<Rightarrow> i64 \<Rightarrow> bool" where
  [simp]: "compare_i64 a op b = compare_ord a op b"

definition compare_u64 :: "u64 \<Rightarrow> compare_op \<Rightarrow> u64 \<Rightarrow> bool" where
  [simp]: "compare_u64 a op b = compare_ord a op b"

definition compare_duration_ns :: "i64 \<Rightarrow> compare_op \<Rightarrow> i64 \<Rightarrow> bool" where
  [simp]: "compare_duration_ns a op b = compare_ord a op b"

definition compare_duration :: "duration \<Rightarrow> compare_op \<Rightarrow> duration \<Rightarrow> bool" where
  [simp]: "compare_duration a op b = compare_ord a op b"

definition compare_f64 :: "f64 \<Rightarrow> compare_op \<Rightarrow> f64 \<Rightarrow> bool" where
  "compare_f64 a op b = (case op of
     CEq \<Rightarrow> f64_lt (f64_abs (f64_sub a b)) f64_epsilon
   | CNeq \<Rightarrow> f64_le f64_epsilon (f64_abs (f64_sub a b))
   | CGt \<Rightarrow> f64_lt b a | CLt \<Rightarrow> f64_lt a b | CGte \<Rightarrow> f64_le b a | CLte \<Rightarrow> f64_le a b
   | CRegex \<Rightarrow> False)"

definition compare_string ::
  "'r regex_ops \<Rightarrow> string \<Rightarrow> compare_op \<Rightarrow> string \<Rightarrow> 'r option \<Rightarrow> bool" where
  "compare_string X actual op expected re = (case op of
     CEq \<Rightarrow> actual = expected | CNeq \<Rightarrow> actual \<noteq> expected
   | CRegex \<Rightarrow> (case re of None \<Rightarrow> False | Some r \<Rightarrow> rx_is_match X r actual)
   | CGt \<Rightarrow> expected < actual | CLt \<Rightarrow> actual < expected
   | CGte \<Rightarrow> expected \<le> actual | CLte \<Rightarrow> actual \<le> expected)"

fun compare_attribute_value ::
  "('i, 'r) eval_env \<Rightarrow> 'i \<Rightarrow> attribute_value \<Rightarrow> compare_op \<Rightarrow> span_value \<Rightarrow> 'r option \<Rightarrow> bool" where
  "compare_attribute_value E i (AString s) op (VString t) re =
     compare_string (env_regex E) (rd_resolve (env_rodeo E) i s) op t re"
| "compare_attribute_value E i (AInt n) op (VInt t) re = compare_i64 n op t"
| "compare_attribute_value E i (AInt n) op (VFloat t) re = compare_f64 (f64_of_int n) op t"
| "compare_attribute_value E i (AFloat f) op (VFloat t) re = compare_f64 f op t"
| "compare_attribute_value E i (AFloat f) op (VInt t) re = compare_f64 f op (f64_of_int t)"
| "compare_attribute_value E i (AString s) op (VInt t) re =
     (case parse_i64 (rd_resolve (env_rodeo E) i s) of None \<Rightarrow> False | Some n \<Rightarrow> compare_i64 n op t)"
| "compare_attribute_value E i (ABool b) op (VBool t) re =
     (case op of CEq \<Rightarrow> b = t | CNeq \<Rightarrow> b \<noteq> t | _ \<Rightarrow> False)"
| "compare_attribute_value E i _ op _ re = False"

definition compare_enum :: "compare_op \<Rightarrow> bool \<Rightarrow> bool" where
  "compare_enum op same = (case op of CEq \<Rightarrow> same | CNeq \<Rightarrow> \<not> same | _ \<Rightarrow> False)"

definition status_of_value :: "span_status_value \<Rightarrow> span_status" where
  "status_of_value v = (case v of SvOk \<Rightarrow> Ok | SvError \<Rightarrow> Error | SvUnset \<Rightarrow> Unset)"

definition kind_of_value :: "span_kind_value \<Rightarrow> span_kind" where
  "kind_of_value v = (case v of KvUnspecified \<Rightarrow> Unspecified | KvInternal \<Rightarrow> Internal | KvServer \<Rightarrow> Server
     | KvClient \<Rightarrow> Client | KvProducer \<Rightarrow> Producer | KvConsumer \<Rightarrow> Consumer)"

section \<open>One span\<close>

text \<open>The attribute keys a condition looks for.\<close>

definition attr_keys :: "attr_scope \<Rightarrow> string \<Rightarrow> string list" where
  "attr_keys sc name = (case sc of ScopeResource \<Rightarrow> [''resource.'' @ name, name] | ScopeSpan \<Rightarrow> [''span.'' @ name])"

fun span_matches_condition ::
  "('i, 'r) eval_env \<Rightarrow> 'i \<Rightarrow> span \<Rightarrow> span_condition \<Rightarrow> 'r option \<Rightarrow> bool" where
  "span_matches_condition E i sp (CondDuration op d) re = compare_duration (nat (max (sp_duration_ns sp) 0)) op d"
| "span_matches_condition E i sp (CondStatus op v) re = compare_enum op (sp_status sp = status_of_value v)"
| "span_matches_condition E i sp (CondName op v) re =
     compare_string (env_regex E) (rd_resolve (env_rodeo E) i (sp_name sp)) op v re"
| "span_matches_condition E i sp (CondKind op v) re = compare_enum op (sp_kind sp = kind_of_value v)"
| "span_matches_condition E i sp (CondEventName op v) re =
     list_ex (\<lambda>ev. compare_string (env_regex E) (rd_resolve (env_rodeo E) i (ev_name ev)) op v re) (sp_events sp)"
| "span_matches_condition E i sp (CondEventAttribute name op v) re =
     (let vals = map snd (filter (\<lambda>p. rd_resolve (env_rodeo E) i (fst p) = name) (concat (map ev_attributes (sp_events sp))))
      in list_ex (\<lambda>a. compare_attribute_value E i a op v re) vals \<or> (vals = [] \<and> op = CNeq))"
| "span_matches_condition E i sp (CondAttribute sc name op v) re =
     (case find (\<lambda>p. rd_resolve (env_rodeo E) i (fst p) \<in> set (attr_keys sc name)) (sp_attributes sp) of
        Some p \<Rightarrow> compare_attribute_value E i (snd p) op v re
      | None \<Rightarrow> op = CNeq)"

fun regex_pattern :: "span_condition \<Rightarrow> (compare_op \<times> string) option" where
  "regex_pattern (CondAttribute sc name op (VString s)) = Some (op, s)"
| "regex_pattern (CondName op v) = Some (op, v)"
| "regex_pattern _ = None"

definition precompile_regexes :: "('i, 'r) eval_env \<Rightarrow> span_condition list \<Rightarrow> 'r option list" where
  "precompile_regexes E conds =
     map (\<lambda>c. case regex_pattern c of
            None \<Rightarrow> None
          | Some (op, p) \<Rightarrow> if op = CRegex then rx_new (env_regex E) p else None) conds"

text \<open>Condition number \<open>k\<close>; the slice access panics out of bounds.\<close>

definition nth_condition ::
  "('i, 'r) eval_env \<Rightarrow> 'i \<Rightarrow> span \<Rightarrow> span_condition list \<Rightarrow> 'r option list \<Rightarrow> nat \<Rightarrow> panic + bool" where
  "nth_condition E i sp conds res k =
     (if k < length conds
      then Inr (span_matches_condition E i sp (conds ! k) (if k < length res then res ! k else None))
      else Inl (IndexOutOfBounds k (length conds)))"

text \<open>The left-to-right loop: a failed group restarts at \<open>||\<close>, a matched group ends the loop there.\<close>

fun and_or_loop :: "(nat \<Rightarrow> panic + bool) \<Rightarrow> nat \<Rightarrow> logical_op list \<Rightarrow> bool \<Rightarrow> panic + bool" where
  "and_or_loop m k [] acc = Inr acc"
| "and_or_loop m k (op # ops) acc =
     (case m (k + 1) of
        Inl p \<Rightarrow> Inl p
      | Inr b \<Rightarrow> (case op of
            LAnd \<Rightarrow> and_or_loop m (k + 1) ops (acc \<and> b)
          | LOr \<Rightarrow> if acc then Inr True else and_or_loop m (k + 1) ops b))"

definition span_matches_conditions ::
  "('i, 'r) eval_env \<Rightarrow> 'i \<Rightarrow> span_condition list \<Rightarrow> logical_op list \<Rightarrow> 'r option list \<Rightarrow> span \<Rightarrow> panic + bool" where
  "span_matches_conditions E i conds ops res sp =
     (if conds = [] then Inr True
      else case nth_condition E i sp conds res 0 of
             Inl p \<Rightarrow> Inl p
           | Inr b \<Rightarrow> and_or_loop (nth_condition E i sp conds res) 0 ops b)"

definition span_to_matched :: "('i, 'r) eval_env \<Rightarrow> 'i \<Rightarrow> span \<Rightarrow> matched_span" where
  "span_to_matched E i sp = \<lparr>msp_span_id = sp_span_id sp,
     msp_name = rd_resolve (env_rodeo E) i (sp_name sp),
     msp_service = rd_resolve (env_rodeo E) i (sp_service sp),
     msp_start_ns = sp_start_ns sp, msp_duration_ns = sp_duration_ns sp, msp_status = sp_status sp,
     msp_attributes = map (\<lambda>(k, v). (rd_resolve (env_rodeo E) i k,
       resolve_attribute_value (env_rodeo E) (env_fmt E) i v)) (sp_attributes sp)\<rparr>"

section \<open>Index narrowing\<close>

definition indexed_attribute_traces ::
  "('i, 'r) eval_env \<Rightarrow> 'i trace_store \<Rightarrow> attr_scope \<Rightarrow> string \<Rightarrow> string \<Rightarrow> trace_id hash_set option" where
  "indexed_attribute_traces E s sc name value =
     (let get = rd_get (env_rodeo E) (ts_interner s)
      in if sc = ScopeResource \<and> name = ''service.name''
         then (case get value of None \<Rightarrow> None | Some k \<Rightarrow> hm_get (ts_service_index s) k)
         else case get value of
                None \<Rightarrow> None
              | Some v \<Rightarrow>
                  (let out = fold (\<lambda>key out.
                         case get key of
                           None \<Rightarrow> out
                         | Some k \<Rightarrow> (case hm_get (ts_attr_index s) k of
                               None \<Rightarrow> out
                             | Some values \<Rightarrow> (case hm_get values v of None \<Rightarrow> out | Some ts \<Rightarrow> fold hs_insert ts out)))
                       (attr_keys sc name) []
                   in if out = [] then None else Some out))"

fun indexable_traces ::
  "('i, 'r) eval_env \<Rightarrow> 'i trace_store \<Rightarrow> span_condition \<Rightarrow> trace_id hash_set option" where
  "indexable_traces E s (CondName CEq value) =
     (case rd_get (env_rodeo E) (ts_interner s) value of None \<Rightarrow> None | Some k \<Rightarrow> hm_get (ts_name_index s) k)"
| "indexable_traces E s (CondStatus CEq value) = hm_get (ts_status_index s) (status_of_value value)"
| "indexable_traces E s (CondAttribute sc name CEq (VString v)) = indexed_attribute_traces E s sc name v"
| "indexable_traces E s _ = None"

fun intersect_candidates ::
  "('i, 'r) eval_env \<Rightarrow> 'i trace_store \<Rightarrow> span_condition list \<Rightarrow> trace_id hash_set option \<Rightarrow>
    trace_id hash_set option" where
  "intersect_candidates E s [] cand = cand"
| "intersect_candidates E s (c # cs) cand =
     intersect_candidates E s cs
       (case indexable_traces E s c of
          None \<Rightarrow> cand
        | Some ts \<Rightarrow> Some (case cand of None \<Rightarrow> ts | Some cur \<Rightarrow> filter (\<lambda>t. t \<in> set ts) cur))"

definition candidate_trace_ids ::
  "('i, 'r) eval_env \<Rightarrow> 'i trace_store \<Rightarrow> span_condition list \<Rightarrow> logical_op list \<Rightarrow> trace_id list option" where
  "candidate_trace_ids E s conds ops =
     (if LOr \<in> set ops then None else intersect_candidates E s conds None)"

section \<open>Selectors\<close>

text \<open>\<open>filter\<close> with a predicate that may panic.\<close>

fun filter_panic :: "('a \<Rightarrow> panic + bool) \<Rightarrow> 'a list \<Rightarrow> panic + 'a list" where
  "filter_panic m [] = Inr []"
| "filter_panic m (x # xs) =
     (case m x of
        Inl p \<Rightarrow> Inl p
      | Inr b \<Rightarrow> (case filter_panic m xs of Inl p \<Rightarrow> Inl p | Inr ys \<Rightarrow> Inr (if b then x # ys else ys)))"

definition scan_trace ::
  "('i, 'r) eval_env \<Rightarrow> 'i trace_store \<Rightarrow> span_condition list \<Rightarrow> logical_op list \<Rightarrow> trace_id \<Rightarrow> span list \<Rightarrow>
    panic + traceql_result list" where
  "scan_trace E s conds ops t sps =
     (case filter_panic (span_matches_conditions E (ts_interner s) conds ops (precompile_regexes E conds)) sps of
        Inl p \<Rightarrow> Inl p
      | Inr ms \<Rightarrow> Inr (if ms = [] then []
                       else [\<lparr>tq_trace_id = t, tq_spans = map (span_to_matched E (ts_interner s)) ms\<rparr>]))"

fun scan_all ::
  "(trace_id \<Rightarrow> span list \<Rightarrow> panic + traceql_result list) \<Rightarrow> (trace_id \<times> span list) list \<Rightarrow>
    panic + traceql_result list" where
  "scan_all scan [] = Inr []"
| "scan_all scan ((t, sps) # rest) =
     (case scan t sps of
        Inl p \<Rightarrow> Inl p
      | Inr rs \<Rightarrow> (case scan_all scan rest of Inl p \<Rightarrow> Inl p | Inr rs' \<Rightarrow> Inr (rs @ rs')))"

definition traces_to_scan :: "'i trace_store \<Rightarrow> trace_id list option \<Rightarrow> (trace_id \<times> span list) list" where
  "traces_to_scan s ids = (case ids of
     Some ts \<Rightarrow> List.map_filter (\<lambda>t. map_option (Pair t) (hm_get (ts_traces s) t)) ts
   | None \<Rightarrow> ts_traces s)"

definition eval_span_selector ::
  "('i, 'r) eval_env \<Rightarrow> span_condition list \<Rightarrow> logical_op list \<Rightarrow> 'i trace_store \<Rightarrow> panic + traceql_result list"
where
  "eval_span_selector E conds ops s =
     map_sum id (sort_key tq_trace_id)
       (scan_all (scan_trace E s conds ops) (traces_to_scan s (candidate_trace_ids E s conds ops)))"

section \<open>Structural operators\<close>

type_synonym span_map = "(span_id, span) hash_map"

definition span_map_of :: "span list \<Rightarrow> span_map" where
  "span_map_of sps = fold (\<lambda>sp m. hm_insert (sp_span_id sp) sp m) sps []"

definition parent_of :: "span_map \<Rightarrow> span_id \<Rightarrow> span_id option" where
  "parent_of m c = (case hm_get m c of None \<Rightarrow> None | Some sp \<Rightarrow> sp_parent sp)"

definition is_child :: "span_id \<Rightarrow> span_id \<Rightarrow> span_map \<Rightarrow> bool" where
  "is_child p c m \<longleftrightarrow> parent_of m c = Some p"

definition is_sibling :: "span_id \<Rightarrow> span_id \<Rightarrow> span_map \<Rightarrow> bool" where
  "is_sibling a b m \<longleftrightarrow> a \<noteq> b \<and> parent_of m a = parent_of m b"

text \<open>The walk up the parents with its cycle check.\<close>

function climbs_to :: "span_map \<Rightarrow> span_id \<Rightarrow> span_id list \<Rightarrow> span_id \<Rightarrow> bool" where
  "climbs_to m anc visited current =
     (if current = anc then False
      else case hm_get m current of
             None \<Rightarrow> False
           | Some sp \<Rightarrow>
               (case sp_parent sp of
                  None \<Rightarrow> False
                | Some p \<Rightarrow>
                    if p = anc then True
                    else if p \<in> set visited then False
                    else climbs_to m anc (hs_insert current visited) p))"
  by pat_completeness auto

text \<open>The keys not yet visited, counted twice, and whether the walk stands on a visited one.\<close>

definition climb_measure :: "span_map \<times> span_id \<times> span_id list \<times> span_id \<Rightarrow> nat" where
  "climb_measure = (\<lambda>(m, anc, visited, current).
     2 * card (set (hm_keys m) - set visited) + (if current \<in> set visited then 1 else 0))"

termination climbs_to
proof (relation "measure climb_measure", simp)
  fix m :: span_map and anc :: span_id and visited :: "span_id list" and current :: span_id and sp p
  assume "hm_get m current = Some sp" and new: "p \<notin> set visited"
  then have key: "current \<in> set (hm_keys m)" unfolding hm_key_iff by simp
  show "((m, anc, hs_insert current visited, p), (m, anc, visited, current)) \<in> measure climb_measure"
  proof (cases "current \<in> set visited")
    case True
    then show ?thesis using new by (simp add: climb_measure_def insert_absorb)
  next
    case False
    have "set (hm_keys m) - set (hs_insert current visited) = (set (hm_keys m) - set visited) - {current}"
      by auto
    then have "card (set (hm_keys m) - set (hs_insert current visited)) < card (set (hm_keys m) - set visited)"
      using key False by (simp only:) (intro card_Diff1_less, auto)
    then show ?thesis using False by (simp add: climb_measure_def)
  qed
qed

declare climbs_to.simps [simp del]

definition is_descendant :: "span_id \<Rightarrow> span_id \<Rightarrow> span_map \<Rightarrow> bool" where
  "is_descendant anc desc m = climbs_to m anc [] desc"

definition related :: "structural_op \<Rightarrow> span_id \<Rightarrow> span_id \<Rightarrow> span_map \<Rightarrow> bool" where
  "related op a b m = (case op of
     Descendant \<Rightarrow> is_descendant a b m | Child \<Rightarrow> is_child a b m | Sibling \<Rightarrow> is_sibling a b m)"

text \<open>\<open>Vec::dedup_by_key\<close>: the first of each run of equal keys.\<close>

fun dedup_by_key :: "('a \<Rightarrow> 'b) \<Rightarrow> 'a list \<Rightarrow> 'a list" where
  "dedup_by_key f (x # y # zs) =
     (if f x = f y then dedup_by_key f (x # zs) else x # dedup_by_key f (y # zs))"
| "dedup_by_key f xs = xs"

definition structural_matches ::
  "structural_op \<Rightarrow> span_map \<Rightarrow> matched_span list \<Rightarrow> matched_span list \<Rightarrow> matched_span list" where
  "structural_matches op m ls rs =
     dedup_by_key msp_span_id (sort_key msp_span_id
       (concat (map (\<lambda>l. filter (\<lambda>r. related op (msp_span_id l) (msp_span_id r) m) rs) ls)))"

definition join_trace ::
  "structural_op \<Rightarrow> 'i trace_store \<Rightarrow> (trace_id, traceql_result) hash_map \<Rightarrow> traceql_result \<Rightarrow> traceql_result option"
where
  "join_trace op s rhs l =
     (case hm_get rhs (tq_trace_id l) of
        None \<Rightarrow> None
      | Some r \<Rightarrow>
          (case get_trace s (tq_trace_id l) of
             None \<Rightarrow> None
           | Some sps \<Rightarrow>
               (let ms = structural_matches op (span_map_of sps) (tq_spans l) (tq_spans r)
                in if ms = [] then None else Some \<lparr>tq_trace_id = tq_trace_id l, tq_spans = ms\<rparr>)))"

definition eval_structural ::
  "structural_op \<Rightarrow> traceql_result list \<Rightarrow> traceql_result list \<Rightarrow> 'i trace_store \<Rightarrow> traceql_result list" where
  "eval_structural op lhs rhs s =
     (let by_trace = fold (\<lambda>r m. hm_insert (tq_trace_id r) r m) rhs []
      in List.map_filter (join_trace op s by_trace) lhs)"

section \<open>Pipelines\<close>

definition i64_clamp :: "int \<Rightarrow> i64" where
  "i64_clamp x = max i64_min (min i64_max x)"

fun stage_holds :: "pipeline_stage \<Rightarrow> traceql_result \<Rightarrow> bool" where
  "stage_holds (CountFilter op n) r = compare_u64 (length (tq_spans r)) op n"
| "stage_holds (AvgDuration op ns) r =
     (tq_spans r \<noteq> [] \<and>
      compare_duration_ns (i64_clamp (i64_div (sum_list (map msp_duration_ns (tq_spans r))) (int (length (tq_spans r))))) op ns)"
| "stage_holds (MaxDuration op ns) r =
     (tq_spans r \<noteq> [] \<and> compare_duration_ns (Max (set (map msp_duration_ns (tq_spans r)))) op ns)"
| "stage_holds (MinDuration op ns) r =
     (tq_spans r \<noteq> [] \<and> compare_duration_ns (Min (set (map msp_duration_ns (tq_spans r)))) op ns)"

definition apply_pipeline_stage :: "traceql_result list \<Rightarrow> pipeline_stage \<Rightarrow> traceql_result list" where
  "apply_pipeline_stage results stage = filter (stage_holds stage) results"

fun evaluate_traceql ::
  "('i, 'r) eval_env \<Rightarrow> traceql_expr \<Rightarrow> 'i trace_store \<Rightarrow> panic + traceql_result list" where
  "evaluate_traceql E (SpanSelector conds ops) s = eval_span_selector E conds ops s"
| "evaluate_traceql E (Structural op l r) s =
     (case evaluate_traceql E l s of
        Inl p \<Rightarrow> Inl p
      | Inr lhs \<Rightarrow> (case evaluate_traceql E r s of
            Inl p \<Rightarrow> Inl p
          | Inr rhs \<Rightarrow> Inr (eval_structural op lhs rhs s)))"
| "evaluate_traceql E (TracePipeline e stages) s =
     map_sum id (\<lambda>rs. fold (\<lambda>stage rs. apply_pipeline_stage rs stage) stages rs) (evaluate_traceql E e s)"

end
