(* ===== verification/Query_Text.thy ===== *)
theory Query_Text
  imports Nom Float64
begin

text \<open>
  Text facts the correctness proofs of both query parsers share: reading a printed number back,
  text that trimming leaves alone, and the float \<open>2 ^ 64\<close> at the edge of the durations.
\<close>

section \<open>Digits\<close>

lemma takeWhile_name:
  assumes "list_all P name" and "rest = [] \<or> \<not> P (hd rest)"
  shows "takeWhile P (name @ rest) = name" and "dropWhile P (name @ rest) = rest"
proof -
  have "takeWhile P rest = []" "dropWhile P rest = rest"
    using assms(2) by (cases rest; simp)+
  with assms(1) show "takeWhile P (name @ rest) = name" "dropWhile P (name @ rest) = rest"
    by (simp_all add: list_all_iff takeWhile_append dropWhile_append)
qed

lemma takeWhile_digits_append:
  assumes "\<And>c. is_ascii_digit c \<Longrightarrow> P c" and "rest = [] \<or> \<not> P (hd rest)"
  shows "takeWhile P (nat_to_string n @ rest) = nat_to_string n \<and> dropWhile P (nat_to_string n @ rest) = rest"
proof -
  have "list_all P (nat_to_string n)"
    using nat_to_string_digits [of n] assms(1) unfolding list_all_iff by blast
  from takeWhile_name [OF this assms(2)] show ?thesis by blast
qed

lemma digits_no_point: "CHR ''.'' \<notin> set (nat_to_string n)"
  using nat_to_string_digits [of n] by (auto simp: list_all_iff is_ascii_digit_def)

section \<open>Trimming\<close>

lemma trim_id:
  assumes "s \<noteq> []" and "\<not> is_whitespace (hd s)" and "\<not> is_whitespace (last s)"
  shows "trim s = s"
proof -
  have "trim_start s = s" using assms(1,2) by (cases s) (simp_all add: trim_start_def)
  moreover have "rev s \<noteq> []" "\<not> is_whitespace (hd (rev s))" using assms(1,3) by (simp_all add: hd_rev)
  then have "dropWhile is_whitespace (rev s) = rev s" by (cases "rev s") simp_all
  ultimately show ?thesis by (simp add: trim_def trim_end_def)
qed

text \<open>Text that trimming leaves alone.\<close>

definition trimmed :: "string \<Rightarrow> bool" where
  "trimmed s \<longleftrightarrow> s = [] \<or> (\<not> is_whitespace (hd s) \<and> \<not> is_whitespace (last s))"

lemma trim_trimmed: "trimmed s \<Longrightarrow> trim s = s"
  by (cases "s = []") (simp_all add: trimmed_def trim_id, simp add: trim_def trim_start_def trim_end_def)

lemma digits_last: "\<not> is_whitespace (last (nat_to_string n))"
proof -
  have "is_ascii_digit (last (nat_to_string n))"
    using nat_to_string_digits [of n] last_in_set [OF nat_to_string_nonempty [of n]] by (simp add: list_all_iff)
  then show ?thesis by (auto simp: is_ascii_digit_def is_whitespace_def)
qed

lemma trimmed_append: "trimmed s \<Longrightarrow> trimmed t \<Longrightarrow> trimmed (s @ t)"
  by (auto simp: trimmed_def last_append hd_append)

section \<open>The edge of the durations\<close>

text \<open>\<open>u64::MAX as f64\<close> and \<open>Duration::MAX.as_secs_f64()\<close> both round to \<open>2 ^ 64\<close>.\<close>

definition f64_two_pow_64 :: f64 where
  "f64_two_pow_64 = f64_of_bits False (1087 * 2 ^ 52)"

lemma f64_two_pow_64_facts:
  "is_finite f64_two_pow_64" "\<not> f64_neg f64_two_pow_64" "\<not> f64_lt f64_two_pow_64 f64_zero"
  "\<not> f64_lt f64_two_pow_64 f64_two_pow_64"
  "from_secs_f64 f64_two_pow_64 = Inl DurationOverflow"
  "parse_f64 (nat_to_string (2 ^ 64)) = Some f64_two_pow_64"
proof -
  have b: "f64_bits f64_two_pow_64 = 1087 * 2 ^ 52" and n: "\<not> f64_neg f64_two_pow_64"
    unfolding f64_two_pow_64_def by (subst f64_of_bits_bits f64_of_bits_neg; simp)+
  show "\<not> f64_neg f64_two_pow_64" by (rule n)
  show "is_finite f64_two_pow_64" unfolding is_finite_def b by (simp add: f64_inf_bits_def)
  show "\<not> f64_lt f64_two_pow_64 f64_zero"
    by (simp add: f64_lt_def f64_units_def b n) (simp add: f64_zero_def f64_neg_def f64_bits_def units_of_bits_def)
  show "\<not> f64_lt f64_two_pow_64 f64_two_pow_64" by (simp add: f64_lt_def)
  show "from_secs_f64 f64_two_pow_64 = Inl DurationOverflow"
    unfolding f64_two_pow_64_def by (rule from_secs_f64_two_64)
  show "parse_f64 (nat_to_string (2 ^ 64)) = Some f64_two_pow_64"
    unfolding parse_f64_nat f64_two_64 f64_two_pow_64_def ..
qed

lemma f64_round_cancel: "0 < c \<Longrightarrow> f64_round neg (n * c) (d * c) = f64_round neg n d"
proof -
  assume c: "0 < c"
  have "round_half_even (n * c) (d * c * 2 ^ k) = round_half_even n (d * 2 ^ k)" for k
    using round_half_even_cancel [OF c, of n "d * 2 ^ k"] by (simp only: ac_simps)
  with c show ?thesis by (simp add: f64_round_def)
qed

lemma f64_two_pow_64_times_one: "f64_mul f64_two_pow_64 (f64_of_int 1) = f64_two_pow_64"
proof -
  have one: "f64_of_int 1 = f64_round False (1 * f64_one_units) 1" by (simp add: f64_of_int_def)
  note O = f64_of_nat_units [of 1, folded one]
  have b: "f64_bits f64_two_pow_64 = 1087 * 2 ^ 52"
    unfolding f64_two_pow_64_def by (subst f64_of_bits_bits; simp)
  have "units_of_bits (f64_bits f64_two_pow_64) = 2 ^ 52 * 2 ^ 1086" unfolding b by (simp add: units_of_bits_def)
  also have "(2 :: nat) ^ 52 * 2 ^ 1086 = 2 ^ 64 * f64_one_units"
    unfolding f64_one_units_def power_add [symmetric] by simp
  finally have u: "f64_units f64_two_pow_64 = int (2 ^ 64 * f64_one_units)"
    by (simp add: f64_units_def f64_two_pow_64_facts)
  have o: "f64_units (f64_of_int 1) = int f64_one_units" "is_finite (f64_of_int 1)" "\<not> f64_neg (f64_of_int 1)"
    using O by (simp_all add: f64_units_def)
  have nan: "\<not> is_nan x" if "is_finite x" for x using that by (simp add: is_nan_def is_finite_def)
  have "nat (\<bar>f64_units f64_two_pow_64\<bar> * \<bar>f64_units (f64_of_int 1)\<bar>) = (2 ^ 64 * f64_one_units) * f64_one_units"
    unfolding u o(1) by (simp only: abs_of_nat of_nat_mult [symmetric] nat_int)
  moreover have "f64_round False ((2 ^ 64 * f64_one_units) * f64_one_units) (1 * f64_one_units) = f64_two_pow_64"
    unfolding f64_two_pow_64_def f64_two_64 [symmetric]
    by (rule f64_round_cancel) (simp add: f64_one_units_def)
  ultimately show ?thesis
    using f64_two_pow_64_facts(1,2) o(2,3) nan by (simp add: f64_mul_def)
qed

end
