(* ===== verification/Traceql_Parser_Correct.thy ===== *)
theory Traceql_Parser_Correct
  imports Traceql_Parser Query_Text Attribute_Value
begin

text \<open>
  Correctness of the TraceQL parser: it inverts a printer of the query language, every expression
  it returns is well formed (one operator between any two conditions, equality only on status and
  kind), the fuel of its loops never runs out, and one query makes it panic.
\<close>

section \<open>Printing\<close>

definition show_op :: "compare_op \<Rightarrow> string" where
  "show_op op = (case op of CEq \<Rightarrow> ''='' | CNeq \<Rightarrow> ''!='' | CGt \<Rightarrow> ''>'' | CLt \<Rightarrow> ''<'' | CGte \<Rightarrow> ''>=''
     | CLte \<Rightarrow> ''<='' | CRegex \<Rightarrow> ''=~'')"

fun show_value :: "span_value \<Rightarrow> string" where
  "show_value (VString s) = quote s"
| "show_value (VInt i) = int_to_string i"
| "show_value (VBool b) = bool_to_string b"
| "show_value (VFloat x) = []"

definition show_duration :: "duration \<Rightarrow> string" where
  "show_duration d = nat_to_string (d div 1000000000) @ ''s''"

definition show_status :: "span_status_value \<Rightarrow> string" where
  "show_status v = (case v of SvOk \<Rightarrow> ''ok'' | SvError \<Rightarrow> ''error'' | SvUnset \<Rightarrow> ''unset'')"

definition show_kind :: "span_kind_value \<Rightarrow> string" where
  "show_kind v = (case v of KvUnspecified \<Rightarrow> ''unspecified'' | KvInternal \<Rightarrow> ''internal'' | KvServer \<Rightarrow> ''server''
     | KvClient \<Rightarrow> ''client'' | KvProducer \<Rightarrow> ''producer'' | KvConsumer \<Rightarrow> ''consumer'')"

definition show_scope :: "attr_scope \<Rightarrow> string" where
  "show_scope sc = (case sc of ScopeResource \<Rightarrow> ''resource.'' | ScopeSpan \<Rightarrow> ''span.'')"

fun show_condition :: "span_condition \<Rightarrow> string" where
  "show_condition (CondAttribute sc name op v) = show_scope sc @ name @ show_op op @ show_value v"
| "show_condition (CondDuration op d) = ''duration'' @ show_op op @ show_duration d"
| "show_condition (CondStatus op v) = ''status'' @ show_op op @ show_status v"
| "show_condition (CondKind op v) = ''kind'' @ show_op op @ show_kind v"
| "show_condition (CondName op s) = ''name'' @ show_op op @ quote s"
| "show_condition (CondEventName op s) = ''event.name'' @ show_op op @ quote s"
| "show_condition (CondEventAttribute name op v) = ''event.'' @ name @ show_op op @ show_value v"

definition show_logical :: "logical_op \<Rightarrow> string" where
  "show_logical op = (case op of LAnd \<Rightarrow> ''&&'' | LOr \<Rightarrow> ''||'')"

fun show_more :: "(logical_op \<times> span_condition) list \<Rightarrow> string" where
  "show_more [] = []"
| "show_more ((op, c) # ocs) = show_logical op @ show_condition c @ show_more ocs"

definition show_selector :: "span_condition list \<Rightarrow> logical_op list \<Rightarrow> string" where
  "show_selector conds ops =
     ''{'' @ (case conds of [] \<Rightarrow> [] | c # cs \<Rightarrow> show_condition c @ show_more (zip ops cs)) @ ''}''"

definition show_structural :: "structural_op \<Rightarrow> string" where
  "show_structural op = (case op of Descendant \<Rightarrow> ''>>'' | Child \<Rightarrow> ''>'' | Sibling \<Rightarrow> ''~'')"

fun show_stage :: "pipeline_stage \<Rightarrow> string" where
  "show_stage (CountFilter op n) = ''count()'' @ show_op op @ nat_to_string n"
| "show_stage (AvgDuration op ns) = ''avg(duration)'' @ show_op op @ show_duration (nat ns)"
| "show_stage (MaxDuration op ns) = ''max(duration)'' @ show_op op @ show_duration (nat ns)"
| "show_stage (MinDuration op ns) = ''min(duration)'' @ show_op op @ show_duration (nat ns)"

fun show_expr :: "traceql_expr \<Rightarrow> string" where
  "show_expr (SpanSelector conds ops) = show_selector conds ops"
| "show_expr (Structural op l r) = show_expr l @ show_structural op @ show_expr r"
| "show_expr (TracePipeline e stages) = show_expr e @ concat (map (\<lambda>st. CHR ''|'' # show_stage st) stages)"

section \<open>Expressions of the grammar\<close>

fun value_ok :: "span_value \<Rightarrow> bool" where
  "value_ok (VInt i) = in_i64 i"
| "value_ok (VFloat x) = False"
| "value_ok _ = True"

definition duration_ok :: "duration \<Rightarrow> bool" where
  "duration_ok d \<longleftrightarrow> d mod 1000000000 = 0 \<and> d div 1000000000 < 2 ^ 53"

fun condition_ok :: "span_condition \<Rightarrow> bool" where
  "condition_ok (CondAttribute sc name op v) \<longleftrightarrow> list_all is_attr_char name \<and> value_ok v"
| "condition_ok (CondDuration op d) \<longleftrightarrow> duration_ok d"
| "condition_ok (CondStatus op v) \<longleftrightarrow> is_equality_op op"
| "condition_ok (CondKind op v) \<longleftrightarrow> is_equality_op op"
| "condition_ok (CondName op s) \<longleftrightarrow> True"
| "condition_ok (CondEventName op s) \<longleftrightarrow> True"
| "condition_ok (CondEventAttribute name op v) \<longleftrightarrow>
     name \<noteq> [] \<and> name \<noteq> ''name'' \<and> list_all is_attr_char name \<and> value_ok v"

fun selector_ok :: "traceql_expr \<Rightarrow> bool" where
  "selector_ok (SpanSelector conds ops) \<longleftrightarrow>
     length ops = length conds - 1 \<and> list_all condition_ok conds"
| "selector_ok _ \<longleftrightarrow> False"

fun stage_ok :: "pipeline_stage \<Rightarrow> bool" where
  "stage_ok (CountFilter op n) \<longleftrightarrow> n \<le> u64_max"
| "stage_ok (AvgDuration op ns) \<longleftrightarrow> 0 \<le> ns \<and> ns \<le> i64_max \<and> duration_ok (nat ns)"
| "stage_ok (MaxDuration op ns) \<longleftrightarrow> 0 \<le> ns \<and> ns \<le> i64_max \<and> duration_ok (nat ns)"
| "stage_ok (MinDuration op ns) \<longleftrightarrow> 0 \<le> ns \<and> ns \<le> i64_max \<and> duration_ok (nat ns)"

fun base_ok :: "traceql_expr \<Rightarrow> bool" where
  "base_ok (SpanSelector conds ops) \<longleftrightarrow> selector_ok (SpanSelector conds ops)"
| "base_ok (Structural op l r) \<longleftrightarrow> selector_ok l \<and> selector_ok r"
| "base_ok (TracePipeline e stages) \<longleftrightarrow> False"

fun expr_ok :: "traceql_expr \<Rightarrow> bool" where
  "expr_ok (TracePipeline e stages) \<longleftrightarrow> base_ok e \<and> stages \<noteq> [] \<and> list_all stage_ok stages"
| "expr_ok e \<longleftrightarrow> base_ok e"

section \<open>Tokens\<close>

text \<open>What may follow a printed value: the end, an operator, a stage or the closing brace.\<close>

definition delimited :: "string \<Rightarrow> bool" where
  "delimited rest \<longleftrightarrow> (case rest of [] \<Rightarrow> True
     | c # _ \<Rightarrow> c = CHR ''&'' \<or> c = CHR ''|'' \<or> c = CHR ''}'')"

lemma delimited_cases:
  assumes "delimited rest"
  obtains "rest = []" | r where "rest = CHR ''&'' # r" | r where "rest = CHR ''|'' # r"
    | r where "rest = CHR ''}'' # r"
  using assms unfolding delimited_def by (cases rest) auto

lemmas char_classes = is_attr_char_def is_word_char_def is_alphanumeric_def is_alpha_def
  is_ascii_digit_def is_multispace_def is_whitespace_def

text \<open>A token starts neither with white space nor with a character that continues an operator.\<close>

definition token_start :: "string \<Rightarrow> bool" where
  "token_start s \<longleftrightarrow> (case s of [] \<Rightarrow> False
     | c # _ \<Rightarrow> \<not> is_multispace c \<and> c \<noteq> CHR ''='' \<and> c \<noteq> CHR ''~'')"

lemma spaced_op_show:
  assumes "nom_laws N" and "token_start s"
  shows "spaced_op N (show_op op @ s) f = f s op"
  using assms(2) unfolding token_start_def
  by (cases s; cases op)
    (auto simp: spaced_op_def parse_compare_op_def show_op_def nom_laws_rewrites [OF assms(1)] doc_tag_def
      is_multispace_def)

lemma int_to_string_chars: "\<forall>c \<in> set (int_to_string i). is_ascii_digit c \<or> c = CHR ''-''"
  using nat_to_string_digits by (auto simp: int_to_string_def list_all_iff)

lemma int_to_string_nonempty [simp]: "int_to_string i \<noteq> []"
  by (simp add: int_to_string_def)

lemma parse_numeric_show:
  assumes "nom_laws N" and "in_i64 i" and "delimited rest"
  shows "parse_numeric_value N (int_to_string i @ rest) = Parsed rest (VInt i)"
proof -
  let ?P = "\<lambda>c. is_ascii_digit c \<or> c = CHR ''.'' \<or> c = CHR ''-''"
  have stop: "takeWhile ?P rest = []" "dropWhile ?P rest = rest"
    using assms(3) by (cases rule: delimited_cases; simp add: is_ascii_digit_def)+
  have all: "\<forall>c \<in> set (int_to_string i). ?P c" using int_to_string_chars [of i] by blast
  have "takeWhile ?P (int_to_string i @ rest) = int_to_string i" "dropWhile ?P (int_to_string i @ rest) = rest"
    using all stop by (simp_all add: takeWhile_append dropWhile_append)
  moreover have "CHR ''.'' \<notin> set (int_to_string i)"
    using int_to_string_chars [of i] by (auto simp: is_ascii_digit_def)
  ultimately show ?thesis
    by (simp add: parse_numeric_value_def nom_laws_rewrites [OF assms(1)] doc_take_while1_def
        parse_i64_int_to_string [OF assms(2)])
qed

lemma numeric_start: "int_to_string i @ rest = c # cs \<Longrightarrow> is_ascii_digit c \<or> c = CHR ''-''"
  using int_to_string_chars [of i] by (cases "int_to_string i") auto

lemma parse_value_show:
  assumes "nom_laws N" and "value_ok v" and "delimited rest"
  shows "parse_span_value N (show_value v @ rest) = Parsed rest v"
proof (cases v)
  case (VString s)
  then show ?thesis
    by (simp add: parse_span_value_def parse_quoted_string_quote [OF assms(1)])
next
  case (VInt i)
  obtain c cs where s: "int_to_string i @ rest = c # cs" by (cases "int_to_string i @ rest") simp_all
  from numeric_start [OF this] have "c \<noteq> CHR 0x22" "c \<noteq> CHR ''t''" "c \<noteq> CHR ''f''"
    by (auto simp: is_ascii_digit_def)
  then have "parse_quoted_string N (c # cs) = Backtrack (c # cs) KChar"
    "parse_bool_value N (c # cs) = Backtrack (c # cs) KTag"
    by (simp_all add: parse_quoted_string_def parse_bool_value_def nom_laws_rewrites [OF assms(1)]
        doc_char_def doc_tag_def)
  moreover have "parse_numeric_value N (c # cs) = Parsed rest (VInt i)"
    unfolding s [symmetric] by (rule parse_numeric_show) (use assms VInt in auto)
  ultimately show ?thesis
    unfolding VInt show_value.simps s by (simp add: parse_span_value_def)
next
  case (VBool b)
  from assms(3) show ?thesis
    by (cases rule: delimited_cases; cases b)
      (simp_all add: VBool parse_span_value_def parse_quoted_string_def parse_bool_value_def
        nom_laws_rewrites [OF assms(1)] doc_char_def doc_tag_def bool_to_string_def char_classes)
next
  case (VFloat x)
  with assms(2) show ?thesis by simp
qed

lemma value_token_start: "value_ok v \<Longrightarrow> token_start (show_value v @ rest)"
proof (cases v)
  case (VInt i)
  obtain c cs where s: "int_to_string i @ rest = c # cs" by (cases "int_to_string i @ rest") simp_all
  from numeric_start [OF this] show ?thesis
    unfolding VInt show_value.simps s by (auto simp: token_start_def is_multispace_def is_ascii_digit_def)
qed (auto simp: token_start_def quote_def bool_to_string_def is_multispace_def)

subsection \<open>Durations\<close>

lemma parse_duration_show:
  assumes "nom_laws N" and "duration_ok d"
  shows "parse_duration_value N (show_duration d @ rest) = Parsed rest d"
proof -
  define n where "n = d div 1000000000"
  have n: "n < 2 ^ 53" "d = n * 1000000000"
    using assms(2) unfolding duration_ok_def n_def by (auto simp: div_mult_mod_eq)
  define x where "x = f64_round False (n * f64_one_units) 1"
  have x: "units_of_bits (f64_bits x) = n * f64_one_units" "is_finite x" "\<not> f64_neg x"
    using f64_of_nat_units [OF n(1)] unfolding x_def by blast+
  have "\<not> f64_lt x f64_zero"
    using x(1,3) by (simp add: f64_lt_def f64_units_def f64_zero_def f64_neg_def f64_bits_def units_of_bits_def)
  moreover have "\<not> f64_lt duration_max_secs x"
  proof -
    have big: "(1087 * 2 ^ 52 :: nat) < 2 ^ 63" by simp
    have "f64_units duration_max_secs = int (2 ^ 52 * 2 ^ 1086)"
      unfolding duration_max_secs_def f64_units_def f64_of_bits_bits [OF big] f64_of_bits_neg [OF big] if_False
      by (simp add: units_of_bits_def)
    also have "(2 :: nat) ^ 52 * 2 ^ 1086 = 2 ^ 64 * f64_one_units"
      unfolding f64_one_units_def power_add [symmetric] by simp
    finally have "f64_units duration_max_secs = int (2 ^ 64 * f64_one_units)" .
    moreover have "f64_units x = int (n * f64_one_units)" by (simp only: f64_units_def x if_False)
    moreover have "n \<le> 2 ^ 64" using n(1) by simp
    ultimately show ?thesis by (simp add: f64_lt_def del: of_nat_mult)
  qed
  moreover have "from_secs_f64 x = Inr d" using from_secs_f64_nat [OF n(1)] unfolding x_def n(2) .
  moreover have "takeWhile (\<lambda>c. is_ascii_digit c \<or> c = CHR ''.'') (nat_to_string n @ CHR ''s'' # rest) = nat_to_string n \<and>
      dropWhile (\<lambda>c. is_ascii_digit c \<or> c = CHR ''.'') (nat_to_string n @ CHR ''s'' # rest) = CHR ''s'' # rest"
    by (rule takeWhile_digits_append) (auto simp: is_ascii_digit_def)
  ultimately show ?thesis
    using x(2) unfolding x_def show_duration_def n_def [symmetric]
    by (simp add: parse_duration_value_def nom_laws_rewrites [OF assms(1)] doc_take_while1_def doc_tag_def
        parse_f64_nat unit_seconds_def)
qed

lemma duration_token_start: "token_start (show_duration d @ rest)"
proof -
  obtain c cs where s: "nat_to_string (d div 1000000000) = c # cs"
    by (cases "nat_to_string (d div 1000000000)") simp_all
  from nat_to_string_hd [OF this] show ?thesis
    by (auto simp: show_duration_def s token_start_def is_multispace_def is_ascii_digit_def)
qed

section \<open>Conditions\<close>

lemma show_op_start: "\<exists>c cs. show_op op @ s = c # cs \<and> \<not> is_attr_char c \<and> \<not> is_word_char c \<and> \<not> is_multispace c"
  by (cases op) (simp_all add: show_op_def char_classes)

lemma peek_keyword_show: "peek_keyword (k @ show_op op @ s) k"
  using show_op_start [of op s] by (auto simp: peek_keyword_def)

lemma attr_chars_show:
  assumes "list_all is_attr_char name"
  shows "takeWhile is_attr_char (name @ show_op op @ s) = name"
    and "dropWhile is_attr_char (name @ show_op op @ s) = show_op op @ s"
proof -
  obtain c cs where "show_op op @ s = c # cs" "\<not> is_attr_char c" using show_op_start by blast
  then have "takeWhile is_attr_char (show_op op @ s) = []" "dropWhile is_attr_char (show_op op @ s) = show_op op @ s"
    by simp_all
  with assms show "takeWhile is_attr_char (name @ show_op op @ s) = name"
    "dropWhile is_attr_char (name @ show_op op @ s) = show_op op @ s"
    by (simp_all add: list_all_iff takeWhile_append dropWhile_append)
qed

lemma scope_chars: "list_all is_attr_char (show_scope sc)"
  by (cases sc) (simp_all add: show_scope_def char_classes)

lemma attr_scope_show: "attr_scope_of (show_scope sc @ name) = (sc, name)"
  by (cases sc) (simp_all add: attr_scope_of_def show_scope_def)

lemmas nom_eval = doc_tag_def doc_char_def doc_take_while1_def is_multispace_def

lemma parse_attribute_show:
  assumes "nom_laws N" and "condition_ok (CondAttribute sc name op v)" and "delimited rest"
  shows "parse_condition N (show_condition (CondAttribute sc name op v) @ rest) =
    Parsed rest (CondAttribute sc name op v)"
proof -
  have name: "list_all is_attr_char (show_scope sc @ name)" and v: "value_ok v"
    using assms(2) scope_chars [of sc] by simp_all
  have ne: "show_scope sc @ name \<noteq> []" by (cases sc) (simp_all add: show_scope_def)
  let ?s = "show_scope sc @ name @ show_op op @ show_value v @ rest"
  have other: "\<not> peek_keyword ?s ''duration'' \<and> \<not> peek_keyword ?s ''status'' \<and> \<not> peek_keyword ?s ''kind'' \<and>
      \<not> peek_keyword ?s ''name'' \<and> \<not> starts_with ?s ''event.'' \<and> dropWhile is_multispace ?s = ?s"
    by (cases sc) (simp_all add: show_scope_def peek_keyword_def starts_with_def is_multispace_def)
  note tw = attr_chars_show [OF name, unfolded append_assoc]
  have "parse_attribute_condition N ?s = Parsed rest (CondAttribute sc name op v)"
    using ne by (simp add: parse_attribute_condition_def nom_laws_rewrites [OF assms(1)] doc_take_while1_def tw
        attr_scope_show spaced_op_show [OF assms(1) value_token_start [OF v]] parse_value_show [OF assms(1) v assms(3)])
  with other show ?thesis
    by (simp add: parse_condition_def nom_laws_rewrites [OF assms(1)])
qed

lemma parse_event_show:
  assumes "nom_laws N" and "key \<noteq> []" and "list_all is_attr_char key"
  shows "parse_condition N (''event.'' @ key @ show_op op @ s) =
    spaced_op N (show_op op @ s) (\<lambda>input op.
      if key = ''name'' then parse_map (CondEventName op) (parse_quoted_string N input)
      else parse_map (CondEventAttribute key op) (parse_span_value N input))"
  using assms(2)
  by (simp add: parse_condition_def parse_event_condition_def nom_laws_rewrites [OF assms(1)] nom_eval
      peek_keyword_def starts_with_def attr_chars_show [OF assms(3)])

lemma quote_token_start: "token_start (quote s @ rest)"
  by (simp add: token_start_def quote_def is_multispace_def)

text \<open>A keyword condition is dispatched to its own parser.\<close>

lemma keyword_dispatch:
  assumes "nom_laws N"
  shows "parse_condition N (''duration'' @ show_op op @ s) = parse_duration_condition N (''duration'' @ show_op op @ s)"
    and "parse_condition N (''status'' @ show_op op @ s) = parse_status_condition N (''status'' @ show_op op @ s)"
    and "parse_condition N (''kind'' @ show_op op @ s) = parse_kind_condition N (''kind'' @ show_op op @ s)"
    and "parse_condition N (''name'' @ show_op op @ s) = parse_name_condition N (''name'' @ show_op op @ s)"
  using peek_keyword_show [of "''duration''" op s] peek_keyword_show [of "''status''" op s]
    peek_keyword_show [of "''kind''" op s] peek_keyword_show [of "''name''" op s]
  by (simp_all add: parse_condition_def nom_laws_rewrites [OF assms] is_multispace_def)
    (simp_all add: peek_keyword_def)

lemma parse_condition_show:
  assumes N: "nom_laws N" and "condition_ok c" and "delimited rest"
  shows "parse_condition N (show_condition c @ rest) = Parsed rest c"
proof (cases c)
  case (CondAttribute sc name op v)
  with parse_attribute_show [OF N _ assms(3)] assms(2) show ?thesis by simp
next
  case (CondDuration op d)
  then show ?thesis
    using assms(2)
    by (simp only: show_condition.simps append_assoc keyword_dispatch [OF N])
      (simp add: parse_duration_condition_def nom_laws_rewrites [OF N] doc_tag_def
        spaced_op_show [OF N duration_token_start] parse_duration_show [OF N])
next
  case (CondStatus op v)
  then have ops: "is_equality_op op" using assms(2) by simp
  have start: "token_start (show_status v @ rest)" for v
    by (cases v) (simp_all add: show_status_def token_start_def is_multispace_def)
  show ?thesis
    unfolding CondStatus using ops
    by (simp only: show_condition.simps append_assoc keyword_dispatch [OF N])
      (cases v; simp add: parse_status_condition_def nom_laws_rewrites [OF N] doc_tag_def
        spaced_op_show [OF N start],
        simp_all add: show_status_def nom_laws_rewrites [OF N] doc_tag_def)
next
  case (CondKind op v)
  then have ops: "is_equality_op op" using assms(2) by simp
  have start: "token_start (show_kind v @ rest)" for v
    by (cases v) (simp_all add: show_kind_def token_start_def is_multispace_def)
  show ?thesis
    unfolding CondKind using ops
    by (simp only: show_condition.simps append_assoc keyword_dispatch [OF N])
      (cases v; simp add: parse_kind_condition_def nom_laws_rewrites [OF N] doc_tag_def
        spaced_op_show [OF N start],
        simp_all add: show_kind_def nom_laws_rewrites [OF N] doc_tag_def)
next
  case (CondName op s)
  then show ?thesis
    by (simp only: show_condition.simps append_assoc keyword_dispatch [OF N])
      (simp add: parse_name_condition_def nom_laws_rewrites [OF N] doc_tag_def
        spaced_op_show [OF N quote_token_start] parse_quoted_string_quote [OF N])
next
  case (CondEventName op s)
  have "list_all is_attr_char ''name''" by (simp add: char_classes)
  from parse_event_show [OF N _ this, of op "quote s @ rest"] show ?thesis
    unfolding CondEventName
    by (simp add: spaced_op_show [OF N quote_token_start] parse_quoted_string_quote [OF N])
next
  case (CondEventAttribute key op v)
  then have "key \<noteq> []" "list_all is_attr_char key" "key \<noteq> ''name''" and v: "value_ok v" using assms(2) by simp_all
  with parse_event_show [OF N this(1,2), of op "show_value v @ rest"] show ?thesis
    unfolding CondEventAttribute
    by (simp add: spaced_op_show [OF N value_token_start [OF v]] parse_value_show [OF N v assms(3)])
qed

section \<open>Selectors\<close>

lemma show_condition_start:
  "\<exists>c cs. show_condition cond @ rest = c # cs \<and> \<not> is_multispace c \<and> \<not> is_whitespace c"
proof (cases cond)
  case (CondAttribute sc name op v)
  then show ?thesis by (cases sc) (simp_all add: show_scope_def char_classes)
qed (simp_all add: char_classes)

lemma skip_condition [simp]: "dropWhile is_multispace (show_condition cond @ rest) = show_condition cond @ rest"
  using show_condition_start [of cond rest] by force

lemma delimited_more: "delimited (show_more ocs @ CHR ''}'' # rest)"
proof (cases ocs)
  case (Cons p ps)
  then show ?thesis by (cases p; cases "fst p") (simp_all add: delimited_def show_logical_def)
qed (simp add: delimited_def)

lemma more_conditions_show:
  assumes N: "nom_laws N" and "\<forall>p \<in> set ocs. condition_ok (snd p)" and "length ocs \<le> fuel"
  shows "more_conditions N fuel (show_more ocs @ CHR ''}'' # rest) = Parsed (CHR ''}'' # rest) ocs"
  using assms(2,3)
proof (induction ocs arbitrary: fuel)
  case Nil
  show ?case by (cases fuel) (simp_all add: nom_laws_rewrites [OF N] nom_eval)
next
  case (Cons p ocs)
  obtain op c where p: "p = (op, c)" by force
  obtain f where f: "fuel = Suc f" using Cons.prems(2) by (cases fuel) auto
  let ?tl = "show_more ocs @ CHR ''}'' # rest"
  have cond: "parse_condition N (show_condition c @ ?tl) = Parsed ?tl c"
    using parse_condition_show [OF N _ delimited_more] Cons.prems(1) p by simp
  have ih: "more_conditions N f ?tl = Parsed (CHR ''}'' # rest) ocs"
    using Cons.prems f by (intro Cons.IH) auto
  have tag: "dropWhile is_multispace (show_logical op @ s) = show_logical op @ s"
    "one_of_tags N [(''&&'', LAnd), (''||'', LOr)] (show_logical op @ s) = Parsed s op" for s
    by (cases op; simp add: show_logical_def nom_laws_rewrites [OF N] nom_eval)+
  show ?case
    unfolding p f show_more.simps append_assoc
    by (simp only: more_conditions.simps nom_laws_rewrites [OF N] parsed.case tag skip_condition cond ih
        parse_map_simps)
qed

lemma length_show_more: "length ocs \<le> length (show_more ocs)"
proof (induction ocs)
  case (Cons p ocs)
  then show ?case by (cases p; cases "fst p") (simp_all add: show_logical_def)
qed simp

lemma parse_conditions_show:
  assumes N: "nom_laws N" and ok: "selector_ok (SpanSelector conds ops)"
  shows "parse_conditions N ((case conds of [] \<Rightarrow> [] | c # cs \<Rightarrow> show_condition c @ show_more (zip ops cs)) @ CHR ''}'' # rest)
    = Parsed (CHR ''}'' # rest) (conds, ops)"
proof (cases conds)
  case Nil
  have "\<not> is_attr_char (CHR ''}'')" by (simp add: char_classes)
  then have "parse_condition N (CHR ''}'' # rest) = Backtrack (CHR ''}'' # rest) KTakeWhile1"
    by (simp add: parse_condition_def nom_laws_rewrites [OF N] nom_eval peek_keyword_def starts_with_def
        parse_attribute_condition_def)
  with Nil ok show ?thesis by (simp add: parse_conditions_def)
next
  case (Cons c cs)
  let ?ocs = "zip ops cs"
  have len: "length ops = length cs" using ok Cons by simp
  have conds: "condition_ok c" "\<forall>p \<in> set ?ocs. condition_ok (snd p)"
    using ok Cons by (auto simp: list_all_iff dest: set_zip_rightD)
  let ?tl = "show_more ?ocs @ CHR ''}'' # rest"
  have "parse_condition N (show_condition c @ ?tl) = Parsed ?tl c"
    by (rule parse_condition_show [OF N conds(1) delimited_more])
  moreover have "more_conditions N (length ?tl) ?tl = Parsed (CHR ''}'' # rest) ?ocs"
    using length_show_more [of ?ocs] by (intro more_conditions_show [OF N conds(2)]) simp
  ultimately show ?thesis
    using len by (simp add: Cons parse_conditions_def)
qed

lemma parse_selector_show:
  assumes N: "nom_laws N" and ok: "selector_ok (SpanSelector conds ops)"
  shows "parse_span_selector N (show_selector conds ops @ rest) = Parsed rest (SpanSelector conds ops)"
proof -
  let ?body = "(case conds of [] \<Rightarrow> [] | c # cs \<Rightarrow> show_condition c @ show_more (zip ops cs)) @ CHR ''}'' # rest"
  have "dropWhile is_multispace ?body = ?body"
    by (cases conds) (simp_all add: is_multispace_def)
  with parse_conditions_show [OF N ok, of rest] show ?thesis
    by (simp add: parse_span_selector_def show_selector_def nom_laws_rewrites [OF N] doc_char_def
        is_multispace_def [of "CHR ''{''"] is_multispace_def [of "CHR ''}''"])
qed

section \<open>Stages\<close>

lemma nat_token_start: "token_start (nat_to_string n @ rest)"
proof -
  obtain c cs where s: "nat_to_string n = c # cs" by (cases "nat_to_string n") simp_all
  from nat_to_string_hd [OF this] show ?thesis
    by (auto simp: s token_start_def is_multispace_def is_ascii_digit_def)
qed

text \<open>What follows a stage: the end or another stage.\<close>

definition stage_end :: "string \<Rightarrow> bool" where
  "stage_end rest \<longleftrightarrow> rest = [] \<or> hd rest = CHR ''|''"

lemma parse_count_show:
  assumes N: "nom_laws N" and "n \<le> u64_max" and "stage_end rest"
  shows "parse_count_filter N (show_stage (CountFilter op n) @ rest) = Parsed rest (CountFilter op n)"
proof -
  have "takeWhile is_ascii_digit (nat_to_string n @ rest) = nat_to_string n \<and>
      dropWhile is_ascii_digit (nat_to_string n @ rest) = rest"
    using assms(3) by (intro takeWhile_digits_append) (auto simp: stage_end_def is_ascii_digit_def)
  then show ?thesis
    by (simp add: parse_count_filter_def nom_laws_rewrites [OF N] doc_tag_def doc_take_while1_def
        spaced_op_show [OF N nat_token_start] parse_u64_nat_to_string [OF assms(2)])
qed

lemma parse_agg_show:
  assumes N: "nom_laws N" and "stage_ok st" and "\<forall>op n. st \<noteq> CountFilter op n"
  shows "parse_count_filter N (show_stage st @ rest) = Backtrack (show_stage st @ rest) KTag \<and>
    parse_duration_agg_filter N (show_stage st @ rest) = Parsed rest st"
  using assms(2,3)
  by (cases st)
    (simp_all add: parse_count_filter_def parse_duration_agg_filter_def nom_laws_rewrites [OF N] doc_tag_def
      spaced_op_show [OF N duration_token_start] parse_duration_show [OF N] duration_to_i64_ns_def)

lemma trim_start_stage: "trim_start (show_stage st @ rest) = show_stage st @ rest"
  by (cases st) (simp_all add: trim_start_def is_whitespace_def)

definition show_stages :: "pipeline_stage list \<Rightarrow> string" where
  "show_stages stages = concat (map (\<lambda>st. CHR ''|'' # show_stage st) stages)"

lemma pipeline_loop_show:
  assumes N: "nom_laws N" and "list_all stage_ok stages" and "length stages \<le> fuel"
  shows "pipeline_loop N fuel (show_stages stages) = Parsed [] stages"
  using assms(2,3)
proof (induction stages arbitrary: fuel)
  case Nil
  show ?case by (cases fuel) (simp_all add: show_stages_def trim_start_def)
next
  case (Cons st stages)
  obtain f where f: "fuel = Suc f" using Cons.prems(2) by (cases fuel) auto
  have ih: "pipeline_loop N f (show_stages stages) = Parsed [] stages"
    using Cons f by simp
  have s: "show_stages (st # stages) = CHR ''|'' # show_stage st @ show_stages stages"
    by (simp add: show_stages_def)
  have bar: "trim_start (CHR ''|'' # s) = CHR ''|'' # s" for s
    by (simp add: trim_start_def is_whitespace_def)
  have stop: "stage_end (show_stages stages)" by (cases stages) (simp_all add: stage_end_def show_stages_def)
  show ?case
  proof (cases "\<exists>op n. st = CountFilter op n")
    case True
    then obtain op n where "st = CountFilter op n" by blast
    with parse_count_show [OF N _ stop, of n op] Cons.prems(1)
    have "parse_count_filter N (show_stage st @ show_stages stages) = Parsed (show_stages stages) st" by simp
    then show ?thesis unfolding f s by (simp add: bar trim_start_stage ih)
  next
    case False
    with parse_agg_show [OF N, of st "show_stages stages"] Cons.prems(1)
    show ?thesis unfolding f s by (simp add: bar trim_start_stage ih)
  qed
qed

section \<open>Round trip\<close>

lemma trimmed_stages: "trimmed (show_stages stages)"
proof (induction stages)
  case (Cons st stages)
  have "\<not> is_whitespace (last (CHR ''|'' # show_stage st))"
    by (cases st) (simp_all add: show_duration_def digits_last is_whitespace_def [of "CHR ''s''"])
  with Cons show ?case
    by (auto simp: trimmed_def show_stages_def last_append is_whitespace_def [of "CHR ''|''"] split: if_splits)
qed (simp add: trimmed_def show_stages_def)

lemma trimmed_selector: "trimmed (show_selector conds ops)"
  by (simp add: trimmed_def show_selector_def is_whitespace_def)

lemma selector_cases:
  assumes "selector_ok e"
  obtains conds ops where "e = SpanSelector conds ops" "selector_ok (SpanSelector conds ops)"
  using assms by (cases e) auto

lemma trimmed_base: "base_ok e \<Longrightarrow> trimmed (show_expr e)"
proof (cases e)
  case (Structural op l r)
  assume "base_ok e"
  with Structural have "selector_ok l" "selector_ok r" by simp_all
  then have "trimmed (show_expr l)" "trimmed (show_expr r)"
    by (metis selector_cases show_expr.simps(1) trimmed_selector)+
  moreover have "trimmed (show_structural op)"
    by (cases op) (simp_all add: trimmed_def show_structural_def is_whitespace_def)
  ultimately show ?thesis
    unfolding Structural show_expr.simps by (intro trimmed_append)
qed (simp_all add: trimmed_selector)

lemma parse_top_level_show:
  assumes N: "nom_laws N" and ok: "base_ok e" and "stage_end rest"
  shows "parse_top_level N (show_expr e @ rest) = Parsed rest e"
proof (cases e)
  case (SpanSelector conds ops)
  have "dropWhile is_multispace rest = rest"
    using assms(3) by (cases rest) (auto simp: stage_end_def is_multispace_def)
  moreover have "parse_structural_op N rest = Backtrack rest KTag"
    using assms(3) by (cases rest)
      (auto simp: stage_end_def parse_structural_op_def nom_laws_rewrites [OF N] doc_tag_def)
  moreover have "selector_ok (SpanSelector conds ops)" using ok SpanSelector by (simp only: base_ok.simps)
  ultimately show ?thesis
    unfolding SpanSelector show_expr.simps parse_top_level_def nom_laws_rewrites [OF N]
    by (simp only: parse_selector_show [OF N] parse_bind.simps parsed.case)
next
  case (Structural op l r)
  with ok have lr: "selector_ok l" "selector_ok r" by simp_all
  obtain c1 o1 where l: "l = SpanSelector c1 o1" "selector_ok (SpanSelector c1 o1)"
    using lr(1) by (rule selector_cases)
  obtain c2 o2 where r: "r = SpanSelector c2 o2" "selector_ok (SpanSelector c2 o2)"
    using lr(2) by (rule selector_cases)
  let ?s = "show_selector c2 o2 @ rest"
  have sp: "dropWhile is_multispace ?s = ?s" "dropWhile is_multispace (show_structural op @ ?s) = show_structural op @ ?s"
    by (cases op; simp add: show_selector_def show_structural_def is_multispace_def)+
  have "parse_structural_op N (show_structural op @ ?s) = Parsed ?s op"
    by (cases op) (simp_all add: parse_structural_op_def show_structural_def show_selector_def
        nom_laws_rewrites [OF N] doc_tag_def)
  then show ?thesis
    unfolding Structural l(1) r(1) show_expr.simps append_assoc parse_top_level_def parse_selector_show [OF N l(2)]
    by (simp add: nom_laws_rewrites [OF N] sp parse_selector_show [OF N r(2)])
next
  case (TracePipeline x y)
  with ok show ?thesis by simp
qed

lemma parse_traceql_show:
  assumes N: "nom_laws N" and ok: "expr_ok e"
  shows "parse_traceql N (show_expr e) = Inr (Inr e)"
proof (cases "\<exists>b stages. e = TracePipeline b stages")
  case True
  then obtain b stages where e: "e = TracePipeline b stages" by blast
  with ok have b: "base_ok b" and st: "stages \<noteq> []" "list_all stage_ok stages" by simp_all
  have s: "show_expr e = show_expr b @ show_stages stages" by (simp add: e show_stages_def)
  have len: "length stages \<le> length (show_stages stages)"
    by (induction stages) (simp_all add: show_stages_def)
  have "trimmed (show_expr b @ show_stages stages)"
    by (rule trimmed_append [OF trimmed_base [OF b] trimmed_stages])
  moreover have "stage_end (show_stages stages)"
    by (cases stages) (simp_all add: stage_end_def show_stages_def)
  ultimately show ?thesis
    unfolding s
    using pipeline_loop_show [OF N st(2) len] parse_top_level_show [OF N b]
    by (simp add: parse_traceql_def trim_trimmed trimmed_stages parse_pipeline_stages_def e st(1))
      (simp add: trim_def trim_start_def trim_end_def)
next
  case False
  then have b: "base_ok e" using ok by (cases e) auto
  have top: "parse_top_level N (show_expr e) = Parsed [] e"
    using parse_top_level_show [OF N b, of "[]"] by (simp add: stage_end_def)
  have "trim [] = []" by (simp add: trim_def trim_start_def trim_end_def)
  then show ?thesis
    by (simp add: parse_traceql_def trim_trimmed [OF trimmed_base [OF b]] top parse_pipeline_stages_def)
qed

section \<open>Progress and fuel\<close>

lemma spaced_progress:
  assumes "nom_laws N" and "\<And>r op. keeps (f r op) r"
  shows "shrinks (spaced_op N s f) s"
  unfolding spaced_op_def parse_compare_op_def
  by (rule shrinks_bind_right [OF primitive_progress(3) [OF assms(1)]], rule shrinks_bind [OF tags_progress [OF assms(1)]])
    (auto intro!: progress assms)

lemma value_progress:
  assumes N: "nom_laws N"
  shows "shrinks (parse_span_value N s) s"
  unfolding parse_span_value_def
proof (rule shrinks_alt)
  have b: "shrinks (parse_bool_value N s) s"
    unfolding parse_bool_value_def
    by (rule shrinks_bind [OF tags_progress [OF N]]) (auto split: list.split simp: keeps_def)
  have n: "shrinks (parse_numeric_value N s) s"
    unfolding parse_numeric_value_def by (intro progress N) simp_all
  have "shrinks (parse_map VString (parse_quoted_string N s)) s" by (intro progress N)
  with b n show "\<forall>q \<in> set [\<lambda>input. parse_map VString (parse_quoted_string N input), parse_bool_value N,
      parse_numeric_value N]. shrinks (q s) s" by simp
qed

lemma duration_progress:
  assumes N: "nom_laws N"
  shows "shrinks (parse_duration_value N s) s"
proof -
  have k: "keeps (let secs = unit_seconds u num in
      if \<not> is_finite secs \<or> f64_lt secs f64_zero \<or> f64_lt duration_max_secs secs then Abort i KFloat
      else case from_secs_f64 secs of Inl p \<Rightarrow> Crash p | Inr d \<Rightarrow> Parsed i d) i" for u num i
    by (simp add: Let_def split: sum.split)
  show ?thesis
    unfolding parse_duration_value_def
    by (rule shrinks_bind [OF primitive_progress(4) [OF N]]) (intro progress N k, simp)
qed

lemma condition_progress:
  assumes N: "nom_laws N"
  shows "shrinks (parse_condition N s) s"
proof -
  note spaced = shrinks_keeps [OF spaced_progress [OF N]]
  note vals = value_progress [OF N] value_progress [OF N, THEN shrinks_keeps]
    duration_progress [OF N, THEN shrinks_keeps]
  have "shrinks (parse_duration_condition N t) t" "shrinks (parse_status_condition N t) t"
    "shrinks (parse_kind_condition N t) t" "shrinks (parse_name_condition N t) t"
    "shrinks (parse_event_condition N t) t" for t
    unfolding parse_duration_condition_def parse_status_condition_def parse_kind_condition_def
      parse_name_condition_def parse_event_condition_def
    by (rule shrinks_bind, (rule progress N | simp)+,
        (rule shrinks_bind keeps_bind spaced progress vals N | simp)+)+
  moreover have "shrinks (parse_attribute_condition N t) t" for t
  proof -
    have "keeps (let (scope, name) = attr_scope_of u
       in spaced_op N r (\<lambda>input op. parse_map (CondAttribute scope name op) (parse_span_value N input))) r" for r u
      by (cases "attr_scope_of u") (simp, intro spaced progress vals)
    then show ?thesis
      unfolding parse_attribute_condition_def by (rule shrinks_bind [OF primitive_progress(4) [OF N]])
  qed
  ultimately show ?thesis
    unfolding parse_condition_def
    by (intro shrinks_bind_right [OF primitive_progress(3) [OF N]]) simp
qed

lemma more_conditions_fuel:
  assumes N: "nom_laws N" and "length s \<le> f" and "length s \<le> g"
  shows "more_conditions N f s = more_conditions N g s"
  using assms(2,3)
proof (induction f arbitrary: g s)
  case 0
  then show ?case by (cases g) (simp_all add: nom_laws_rewrites [OF N] doc_tag_def)
next
  case (Suc f)
  show ?case
  proof (cases g)
    case 0
    with Suc.prems show ?thesis by (simp add: nom_laws_rewrites [OF N] doc_tag_def)
  next
    case (Suc h)
    let ?t = "dropWhile is_multispace s"
    have "more_conditions N f r'' = more_conditions N h r''"
      if "one_of_tags N [(''&&'', LAnd), (''||'', LOr)] ?t = Parsed r op"
        "parse_condition N (dropWhile is_multispace r) = Parsed r'' c" for r op r'' c
    proof -
      have "length r < length ?t"
        by (rule shrinksD [OF tags_progress [OF N] that(1)]) simp
      moreover have "length r'' < length (dropWhile is_multispace r)"
        by (rule shrinksD [OF condition_progress [OF N] that(2)])
      ultimately have "length r'' < length s"
        using length_dropWhile_le [of is_multispace s] length_dropWhile_le [of is_multispace r] by linarith
      with Suc.prems \<open>g = Suc h\<close> show ?thesis by (intro Suc.IH) simp_all
    qed
    then show ?thesis
      unfolding \<open>g = Suc h\<close> more_conditions.simps nom_laws_rewrites(3) [OF N] parsed.case
      by (auto split: parsed.split)
  qed
qed

lemma stage_progress:
  assumes N: "nom_laws N"
  shows "shrinks (parse_count_filter N s) s" and "shrinks (parse_duration_agg_filter N s) s"
proof -
  note spaced = shrinks_keeps [OF spaced_progress [OF N]]
  note vals = duration_progress [OF N, THEN shrinks_keeps]
  show "shrinks (parse_count_filter N s) s" "shrinks (parse_duration_agg_filter N s) s"
    unfolding parse_count_filter_def parse_duration_agg_filter_def
    by (rule shrinks_bind, (rule progress N | simp)+,
        (rule shrinks_bind keeps_bind spaced progress vals N | simp)+)+
qed

lemma pipeline_loop_fuel:
  assumes N: "nom_laws N" and "length s \<le> f" and "length s \<le> g"
  shows "pipeline_loop N f s = pipeline_loop N g s"
  using assms(2,3)
proof (induction f arbitrary: g s)
  case 0
  then show ?case by (cases g) (simp_all add: trim_start_def)
next
  case (Suc f)
  show ?case
  proof (cases g)
    case 0
    with Suc.prems show ?thesis by (simp add: trim_start_def)
  next
    case (Suc h)
    have "pipeline_loop N f r = pipeline_loop N h r"
      if "parse_count_filter N (trim_start cs) = Parsed r st \<or>
        parse_duration_agg_filter N (trim_start cs) = Parsed r st" and "trim_start s = CHR ''|'' # cs" for cs r st
    proof -
      have "length r < length (trim_start cs)"
        using that(1) shrinksD [OF stage_progress(1) [OF N]] shrinksD [OF stage_progress(2) [OF N]] by blast
      moreover have "length (CHR ''|'' # cs) \<le> length s" unfolding that(2) [symmetric] by simp
      moreover have "length (trim_start cs) \<le> length cs" by simp
      ultimately have "length r < length s" by (simp only: length_Cons)
      with Suc.prems \<open>g = Suc h\<close> show ?thesis by (intro Suc.IH) simp_all
    qed
    then have eq: "trim_start s = CHR ''|'' # cs \<Longrightarrow> parse_count_filter N (trim_start cs) = Parsed r st \<Longrightarrow>
        pipeline_loop N f r = pipeline_loop N h r"
      "trim_start s = CHR ''|'' # cs \<Longrightarrow> parse_duration_agg_filter N (trim_start cs) = Parsed r st \<Longrightarrow>
        pipeline_loop N f r = pipeline_loop N h r" for cs r st
      by blast+
    show ?thesis
    proof (cases "trim_start s")
      case (Cons c cs)
      show ?thesis
        unfolding \<open>g = Suc h\<close> pipeline_loop.simps Cons list.case
        using eq [of cs] Cons by (cases "c = CHR ''|''") (auto split: parsed.split)
    qed (simp add: \<open>g = Suc h\<close>)
  qed
qed

section \<open>The shape of parsed queries\<close>

text \<open>What the evaluator relies on: an operator between any two conditions, and only equality on enumerations.\<close>

fun condition_shape :: "span_condition \<Rightarrow> bool" where
  "condition_shape (CondStatus op v) \<longleftrightarrow> is_equality_op op"
| "condition_shape (CondKind op v) \<longleftrightarrow> is_equality_op op"
| "condition_shape _ \<longleftrightarrow> True"

fun selector_shape :: "traceql_expr \<Rightarrow> bool" where
  "selector_shape (SpanSelector conds ops) \<longleftrightarrow>
     length ops = length conds - 1 \<and> list_all condition_shape conds"
| "selector_shape _ \<longleftrightarrow> False"

fun expr_shape :: "traceql_expr \<Rightarrow> bool" where
  "expr_shape (SpanSelector conds ops) \<longleftrightarrow> selector_shape (SpanSelector conds ops)"
| "expr_shape (Structural op l r) \<longleftrightarrow> selector_shape l \<and> selector_shape r"
| "expr_shape (TracePipeline e stages) \<longleftrightarrow>
     stages \<noteq> [] \<and> (\<forall>e' st. e \<noteq> TracePipeline e' st) \<and> expr_shape e"

lemma parse_condition_shape: "parse_condition N s = Parsed r c \<Longrightarrow> condition_shape c"
  by (auto simp: parse_condition_def parse_duration_condition_def parse_status_condition_def
      parse_kind_condition_def parse_name_condition_def parse_event_condition_def
      parse_attribute_condition_def spaced_op_def parsed_iffs Let_def case_prod_unfold split: if_splits)

lemma more_conditions_shape:
  "more_conditions N fuel s = Parsed r ocs \<Longrightarrow> list_all condition_shape (map snd ocs)"
proof (induction fuel arbitrary: s r ocs)
  case (Suc fuel)
  from Suc.prems consider "ocs = []"
    | r' c op ocs' s' where "parse_condition N s' = Parsed r' c" "ocs = (op, c) # ocs'"
        "more_conditions N fuel r' = Parsed r ocs'"
    by (auto simp: parse_map_Parsed simp del: one_of_tags.simps split: parsed.splits)
  then show ?case
    by cases (auto dest: parse_condition_shape Suc.IH)
qed simp

lemma parse_conditions_shape:
  "parse_conditions N s = Parsed r (conds, ops) \<Longrightarrow> selector_shape (SpanSelector conds ops)"
  by (auto simp: parse_conditions_def parse_map_Parsed dest!: more_conditions_shape
      intro: parse_condition_shape split: parsed.splits)

lemma parse_selector_shape: "parse_span_selector N s = Parsed r e \<Longrightarrow> selector_shape e"
  unfolding parse_span_selector_def
  by (auto simp only: parsed_iffs prod.case parsed.inject split: prod.splits dest!: parse_conditions_shape)

lemma parse_top_shape:
  assumes "parse_top_level N s = Parsed r e"
  shows "(\<forall>e' st. e \<noteq> TracePipeline e' st) \<and> expr_shape e"
proof -
  have sel: "(\<forall>e' st. x \<noteq> TracePipeline e' st) \<and> expr_shape x" if "selector_shape x" for x
    using that by (cases x) simp_all
  obtain r1 r2 lhs where lhs: "parse_span_selector N s = Parsed r1 lhs"
    and tail: "(case parse_structural_op N r2 of
         Parsed input op \<Rightarrow> parse_bind (nm_multispace0 N input) (\<lambda>input _.
           parse_map (Structural op lhs) (parse_span_selector N input))
       | _ \<Rightarrow> Parsed r2 lhs) = Parsed r e"
    using assms unfolding parse_top_level_def parse_bind_Parsed by blast
  note l = parse_selector_shape [OF lhs]
  show ?thesis
  proof (cases "parse_structural_op N r2")
    case (Parsed r3 op)
    with tail obtain r4 rhs where "parse_span_selector N r4 = Parsed r rhs" "e = Structural op lhs rhs"
      by (auto simp: parsed_iffs)
    with l parse_selector_shape show ?thesis by simp
  qed (use tail sel [OF l] in simp_all)
qed

lemma parse_traceql_shape: "parse_traceql N s = Inr (Inr e) \<Longrightarrow> expr_shape e"
  unfolding parse_traceql_def by (auto split: parsed.splits if_splits dest!: parse_top_shape)

section \<open>A query that panics\<close>

definition overflow_secs :: string where
  "overflow_secs = nat_to_string (2 ^ 64)"

lemma parse_duration_overflow:
  assumes N: "nom_laws N"
  shows "parse_duration_value N (overflow_secs @ CHR ''s'' # rest) = Crash DurationOverflow"
proof -
  have tw: "takeWhile (\<lambda>c. is_ascii_digit c \<or> c = CHR ''.'') (overflow_secs @ CHR ''s'' # rest) = overflow_secs \<and>
      dropWhile (\<lambda>c. is_ascii_digit c \<or> c = CHR ''.'') (overflow_secs @ CHR ''s'' # rest) = CHR ''s'' # rest"
    unfolding overflow_secs_def by (rule takeWhile_digits_append) (auto simp: is_ascii_digit_def)
  have ne: "overflow_secs \<noteq> []" by (simp add: overflow_secs_def)
  have m: "duration_max_secs = f64_two_pow_64" by (simp only: duration_max_secs_def f64_two_pow_64_def)
  show ?thesis
    using ne tw f64_two_pow_64_facts [folded m overflow_secs_def]
    by (simp add: parse_duration_value_def nom_laws_rewrites [OF N] doc_take_while1_def doc_tag_def unit_seconds_def)
qed

lemma parse_traceql_overflow:
  assumes N: "nom_laws N"
  shows "parse_traceql N (''{duration>'' @ overflow_secs @ ''s}'') = Inl DurationOverflow"
proof -
  let ?s = "overflow_secs @ CHR ''s'' # ''}''"
  have start: "token_start ?s" unfolding overflow_secs_def by (rule nat_token_start)
  have "parse_condition N (''duration'' @ show_op CGt @ ?s) = Crash DurationOverflow"
    unfolding keyword_dispatch [OF N]
    by (simp add: parse_duration_condition_def nom_laws_rewrites [OF N] doc_tag_def spaced_op_show [OF N start]
        parse_duration_overflow [OF N])
  then have "parse_conditions N (''duration>'' @ ?s) = Crash DurationOverflow"
    by (simp add: parse_conditions_def show_op_def)
  then have "parse_top_level N (''{duration>'' @ ?s) = Crash DurationOverflow"
    by (simp add: parse_top_level_def parse_span_selector_def nom_laws_rewrites [OF N] doc_char_def is_multispace_def)
  moreover have "trim (''{duration>'' @ ?s) = ''{duration>'' @ ?s"
    by (rule trim_id) (simp_all add: is_whitespace_def)
  ultimately show ?thesis by (simp add: parse_traceql_def)
qed

section \<open>Properties\<close>

text \<open>
  C19: The parser inverts the printer: for every expression of the grammar (whole-second durations,
  no float literals) parsing its text gives the expression back.
\<close>

theorem traceql_round_trip:
  assumes "nom_laws N" and "expr_ok e"
  shows "parse_traceql N (show_expr e) = Inr (Inr e)"
  by (rule parse_traceql_show [OF assms])

theorem traceql_round_trip_witness:
  "parse_traceql doc_nom (show_expr (TracePipeline (Structural Descendant
      (SpanSelector [CondAttribute ScopeResource ''service.name'' CEq (VString ''api''), CondStatus CEq SvError] [LAnd])
      (SpanSelector [CondDuration CGt 2000000000, CondName CRegex ''GET.*''] [LOr])) [CountFilter CGte 3])) =
    Inr (Inr (TracePipeline (Structural Descendant
      (SpanSelector [CondAttribute ScopeResource ''service.name'' CEq (VString ''api''), CondStatus CEq SvError] [LAnd])
      (SpanSelector [CondDuration CGt 2000000000, CondName CRegex ''GET.*''] [LOr])) [CountFilter CGte 3]))"
  by (rule traceql_round_trip [OF doc_nom_laws])
    (simp add: is_equality_op_def duration_ok_def u64_max_def char_classes)

text \<open>
  C20: Whatever the parser primitives do, every accepted query has the shape the evaluator indexes
  by: one operator between any two conditions, equality operators only on status and kind,
  structural operators and pipelines over plain selectors.
\<close>

theorem traceql_parsed_shape:
  assumes "parse_traceql N s = Inr (Inr e)"
  shows "expr_shape e"
  by (rule parse_traceql_shape [OF assms])

theorem traceql_parsed_shape_witness:
  "expr_shape (SpanSelector [CondStatus CNeq SvOk] [])"
proof -
  have "parse_traceql doc_nom (show_expr (SpanSelector [CondStatus CNeq SvOk] [])) =
      Inr (Inr (SpanSelector [CondStatus CNeq SvOk] []))"
    by (rule parse_traceql_show [OF doc_nom_laws]) (simp add: is_equality_op_def)
  then show ?thesis by (rule traceql_parsed_shape)
qed

text \<open>
  C21: The fuel of the parser's loops is never the reason they stop: with the length of the input
  or anything above it as fuel, the condition loop and the stage loop give the same result.
\<close>

theorem traceql_fuel_suffices:
  assumes "nom_laws N" and "length s \<le> fuel"
  shows "more_conditions N fuel s = more_conditions N (length s) s \<and>
    pipeline_loop N fuel s = parse_pipeline_stages N s"
  unfolding parse_pipeline_stages_def
  using more_conditions_fuel [OF assms(1) assms(2) order_refl] pipeline_loop_fuel [OF assms(1) assms(2) order_refl]
  by blast

theorem traceql_fuel_suffices_witness:
  "pipeline_loop doc_nom 99 ''|count()>5'' = parse_pipeline_stages doc_nom ''|count()>5''"
  using traceql_fuel_suffices [OF doc_nom_laws, of "''|count()>5''" 99] by simp

text \<open>
  The range check on durations lets \<open>2 ^ 64\<close> seconds through, which no duration can hold: the
  query \<open>{duration>18446744073709551616s}\<close> panics instead of being rejected.
\<close>

lemma traceql_duration_panic:
  assumes "nom_laws N"
  shows "parse_traceql N (''{duration>'' @ nat_to_string (2 ^ 64) @ ''s}'') = Inl DurationOverflow"
  using parse_traceql_overflow [OF assms] unfolding overflow_secs_def .

lemma traceql_duration_panic_witness:
  "parse_traceql doc_nom (''{duration>'' @ nat_to_string (2 ^ 64) @ ''s}'') = Inl DurationOverflow"
  by (rule traceql_duration_panic [OF doc_nom_laws])

end
