(* ===== verification/Traceql_Eval_Correct.thy ===== *)
theory Traceql_Eval_Correct
  imports Traceql_Eval Traceql_Parser_Correct Trace_Store_Correct
begin

text \<open>
  Correctness of the TraceQL evaluator: conditions combine as the disjunction of their \<open>&&\<close>-groups,
  index narrowing never changes the answer of a full scan, the climb through the parents decides
  ancestry (and terminates on cycles), structural operators join exactly the related spans, and no
  parsed query makes the evaluator panic.
\<close>

section \<open>Conditions\<close>

definition compiled :: "('i, 'r) eval_env \<Rightarrow> span_condition \<Rightarrow> 'r option" where
  "compiled E c = (case regex_pattern c of
     None \<Rightarrow> None | Some (op, p) \<Rightarrow> if op = CRegex then rx_new (env_regex E) p else None)"

definition condition_holds :: "('i, 'r) eval_env \<Rightarrow> 'i \<Rightarrow> span \<Rightarrow> span_condition \<Rightarrow> bool" where
  "condition_holds E i sp c = span_matches_condition E i sp c (compiled E c)"

lemma nth_condition_holds:
  "k < length conds \<Longrightarrow>
    nth_condition E i sp conds (precompile_regexes E conds) k = Inr (condition_holds E i sp (conds ! k))"
  by (simp add: nth_condition_def precompile_regexes_def condition_holds_def compiled_def)

text \<open>The \<open>||\<close>-separated groups of a selector.\<close>

fun or_groups :: "'a \<Rightarrow> (logical_op \<times> 'a) list \<Rightarrow> 'a list list" where
  "or_groups c [] = [[c]]"
| "or_groups c ((LAnd, d) # ocs) = (case or_groups d ocs of g # gs \<Rightarrow> (c # g) # gs | [] \<Rightarrow> [[c]])"
| "or_groups c ((LOr, d) # ocs) = [c] # or_groups d ocs"

definition selector_holds :: "('a \<Rightarrow> bool) \<Rightarrow> 'a list \<Rightarrow> logical_op list \<Rightarrow> bool" where
  "selector_holds P conds ops =
     (case conds of [] \<Rightarrow> True | c # cs \<Rightarrow> list_ex (list_all P) (or_groups c (zip ops cs)))"

lemma or_groups_nonempty: "\<exists>g gs. or_groups c ocs = g # gs"
proof (induction c ocs rule: or_groups.induct)
  case (2 c d ocs)
  then show ?case by auto
qed auto

lemma list_ex_or_groups_and:
  "list_ex (list_all P) (or_groups c ((LAnd, d) # ocs)) \<longleftrightarrow>
    (case or_groups d ocs of g # gs \<Rightarrow> (P c \<and> list_all P g) \<or> list_ex (list_all P) gs | [] \<Rightarrow> P c)"
  by (simp split: list.split)

lemma and_or_loop_groups:
  assumes "\<And>j. j \<le> k + length cs \<Longrightarrow> m j = Inr (P (conds ! j))" and "drop k conds = c # cs"
    and "length ops = length cs"
  shows "and_or_loop m k ops (acc \<and> P c) =
    Inr (case or_groups c (zip ops cs) of g # gs \<Rightarrow> (acc \<and> list_all P g) \<or> list_ex (list_all P) gs | [] \<Rightarrow> True)"
  using assms
proof (induction cs arbitrary: k ops c acc)
  case Nil
  then show ?case by simp
next
  case (Cons d ds)
  obtain op ops' where ops: "ops = op # ops'" using Cons.prems(3) by (cases ops) auto
  have dr: "drop (k + 1) conds = d # ds" using Cons.prems(2) by (metis Suc_eq_plus1 drop_Suc list.sel(3) tl_drop)
  have "conds ! (k + 1) = d" using dr by (metis nth_via_drop)
  with Cons.prems(1) [of "k + 1"] have m: "m (k + 1) = Inr (P d)" by simp
  have prem: "\<And>j. j \<le> k + 1 + length ds \<Longrightarrow> m j = Inr (P (conds ! j))"
    using Cons.prems(1) by simp
  have len: "length ops' = length ds" using Cons.prems(3) ops by simp
  obtain g gs where g: "or_groups d (zip ops' ds) = g # gs"
    using or_groups_nonempty [of d "zip ops' ds"] by blast
  show ?case
  proof (cases op)
    case LAnd
    have "and_or_loop m (k + 1) ops' ((acc \<and> P c) \<and> P d) =
        Inr (((acc \<and> P c) \<and> list_all P g) \<or> list_ex (list_all P) gs)"
      using Cons.IH [OF prem dr len, of "acc \<and> P c"] by (simp add: g)
    then show ?thesis using m LAnd by (auto simp: ops g)
  next
    case LOr
    have "and_or_loop m (k + 1) ops' (True \<and> P d) = Inr (list_all P g \<or> list_ex (list_all P) gs)"
      using Cons.IH [OF prem dr len, of True] by (simp add: g)
    then show ?thesis using m LOr by (auto simp: ops g)
  qed
qed

lemma span_matches_groups:
  assumes "selector_shape (SpanSelector conds ops)"
  shows "span_matches_conditions E i conds ops (precompile_regexes E conds) sp =
    Inr (selector_holds (condition_holds E i sp) conds ops)"
proof (cases conds)
  case Nil
  then show ?thesis by (simp add: span_matches_conditions_def selector_holds_def)
next
  case (Cons c cs)
  have len: "length ops = length cs" using assms Cons by simp
  obtain g gs where g: "or_groups c (zip ops cs) = g # gs"
    using or_groups_nonempty [of c "zip ops cs"] by blast
  have "and_or_loop (nth_condition E i sp conds (precompile_regexes E conds)) 0 ops (True \<and> condition_holds E i sp c) =
      Inr (list_all (condition_holds E i sp) g \<or> list_ex (list_all (condition_holds E i sp)) gs)"
    using and_or_loop_groups [of 0 cs "nth_condition E i sp conds (precompile_regexes E conds)"
        "condition_holds E i sp" conds c ops True] nth_condition_holds [of _ conds E i sp] Cons len
    by (simp add: g less_Suc_eq_le)
  with Cons nth_condition_holds [of 0 conds E i sp] show ?thesis
    by (simp add: span_matches_conditions_def selector_holds_def g)
qed

section \<open>Scanning\<close>

lemma filter_panic_total: "(\<And>x. x \<in> set xs \<Longrightarrow> m x = Inr (P x)) \<Longrightarrow> filter_panic m xs = Inr (filter P xs)"
  by (induction xs) simp_all

definition scan_result ::
  "('i, 'r) eval_env \<Rightarrow> 'i trace_store \<Rightarrow> (span \<Rightarrow> bool) \<Rightarrow> trace_id \<times> span list \<Rightarrow> traceql_result option" where
  "scan_result E s P = (\<lambda>(t, sps). if filter P sps = [] then None
     else Some \<lparr>tq_trace_id = t, tq_spans = map (span_to_matched E (ts_interner s)) (filter P sps)\<rparr>)"

text \<open>The answer of a full scan: the traces with a matching span, each with its matching spans, by id.\<close>

definition select_traces ::
  "('i, 'r) eval_env \<Rightarrow> 'i trace_store \<Rightarrow> (span \<Rightarrow> bool) \<Rightarrow> traceql_result list" where
  "select_traces E s P = sort_key tq_trace_id (List.map_filter (scan_result E s P) (ts_traces s))"

lemma scan_all_total:
  assumes "selector_shape (SpanSelector conds ops)"
  shows "scan_all (scan_trace E s conds ops) traces =
    Inr (List.map_filter (scan_result E s (\<lambda>sp. selector_holds (condition_holds E (ts_interner s) sp) conds ops)) traces)"
proof (induction traces)
  case (Cons p traces)
  obtain t sps where p: "p = (t, sps)" by force
  have "filter_panic (span_matches_conditions E (ts_interner s) conds ops (precompile_regexes E conds)) sps =
      Inr (filter (\<lambda>sp. selector_holds (condition_holds E (ts_interner s) sp) conds ops) sps)"
    by (rule filter_panic_total) (rule span_matches_groups [OF assms])
  then show ?case
    using Cons by (simp add: p scan_trace_def scan_result_def List.map_filter_simps)
qed (simp add: List.map_filter_simps)

section \<open>Index narrowing\<close>

text \<open>
  The service index stands in for the attribute \<open>resource.service.name\<close>: a span that carries it as a
  string carries its own service. The OTLP ingest sets both from the same value.
\<close>

definition service_attr_ok :: "'i rodeo_ops \<Rightarrow> 'i \<Rightarrow> span \<Rightarrow> bool" where
  "service_attr_ok R i sp \<longleftrightarrow>
     (\<forall>k v. find (\<lambda>p. rd_resolve R i (fst p) \<in> set (attr_keys ScopeResource ''service.name'')) (sp_attributes sp)
        = Some (k, AString v) \<longrightarrow> v = sp_service sp)"

definition services_ok :: "'i rodeo_ops \<Rightarrow> 'i trace_store \<Rightarrow> bool" where
  "services_ok R s \<longleftrightarrow> (\<forall>t. \<forall>sp \<in> set (spans_of s t). service_attr_ok R (ts_interner s) sp)"

lemma span_ok_spans_of:
  assumes "trace_wf R s" and "sp \<in> set (spans_of s t)"
  shows "span_ok R (ts_interner s) sp"
  using assms(2) traces_wfD(4) [OF trace_wfD(1) [OF assms(1)], of t]
  by (cases "hm_get (ts_traces s) t") (auto simp: spans_of_def)

lemma idx_get_spans:
  assumes "idx_exact f (ts_traces s) m" and "hm_get m k = Some ts"
  shows "distinct ts" and "sp \<in> set (spans_of s t) \<Longrightarrow> f sp = k \<Longrightarrow> t \<in> set ts"
  using assms idx_exactD [OF assms(1), of t k] unfolding has_key_spans idx_exact_def idx_wf_def idx_set_def by auto

lemma attr_set_spans:
  assumes "trace_wf R s" and "sp \<in> set (spans_of s t)" and "(k, AString v) \<in> set (sp_attributes sp)"
  shows "t \<in> attr_set (ts_attr_index s) k v"
proof -
  have "has_attr (ts_traces s) k v t"
    using assms(2,3) by (cases "hm_get (ts_traces s) t") (auto simp: spans_of_def has_attr_def)
  with trace_wfD(4) [OF assms(1)] show ?thesis unfolding attr_exact_def by blast
qed

text \<open>The union the attribute lookup builds over its candidate keys.\<close>

lemma attr_union:
  fixes get :: "string \<Rightarrow> spur option" and m :: "(spur, spur trace_index) hash_map" and v :: spur
  defines "step \<equiv> (\<lambda>key out. case get key of
     None \<Rightarrow> out
   | Some k \<Rightarrow> (case hm_get m k of
         None \<Rightarrow> out
       | Some values \<Rightarrow> (case hm_get values v of None \<Rightarrow> out | Some ts \<Rightarrow> fold hs_insert ts out)))"
  shows "set (fold step keys out) = set out \<union> (\<Union>key \<in> set keys. case get key of None \<Rightarrow> {} | Some k \<Rightarrow> attr_set m k v)"
    and "distinct out \<Longrightarrow> distinct (fold step keys out)"
proof -
  have ins: "set (fold hs_insert ts (out :: trace_id list)) = set ts \<union> set out" for ts out
    by (induction ts arbitrary: out) auto
  have dist: "distinct out \<Longrightarrow> distinct (fold hs_insert ts (out :: trace_id list))" for ts out
    by (induction ts arbitrary: out) auto
  have one: "set (step key out) = set out \<union> (case get key of None \<Rightarrow> {} | Some k \<Rightarrow> attr_set m k v)" for key out
    unfolding step_def attr_set_def idx_set_def by (auto split: option.split simp: ins)
  have one_d: "distinct out \<Longrightarrow> distinct (step key out)" for key out
    unfolding step_def by (auto split: option.split simp: dist)
  show "set (fold step keys out) = set out \<union> (\<Union>key \<in> set keys. case get key of None \<Rightarrow> {} | Some k \<Rightarrow> attr_set m k v)"
    by (induction keys arbitrary: out) (auto simp: one)
  show "distinct out \<Longrightarrow> distinct (fold step keys out)"
    by (induction keys arbitrary: out) (auto simp: one_d)
qed

lemma find_SomeD: "find P xs = Some x \<Longrightarrow> x \<in> set xs \<and> P x"
  by (induction xs) (auto split: if_splits)

text \<open>A string equality on an attribute, taken apart.\<close>

lemma attr_eq_holds:
  assumes "condition_holds E i sp (CondAttribute sc name CEq (VString w))"
  obtains k v where "find (\<lambda>p. rd_resolve (env_rodeo E) i (fst p) \<in> set (attr_keys sc name)) (sp_attributes sp) = Some (k, AString v)"
    and "rd_resolve (env_rodeo E) i v = w"
proof -
  obtain k a where f: "find (\<lambda>p. rd_resolve (env_rodeo E) i (fst p) \<in> set (attr_keys sc name)) (sp_attributes sp) = Some (k, a)"
    using assms by (cases "find (\<lambda>p. rd_resolve (env_rodeo E) i (fst p) \<in> set (attr_keys sc name)) (sp_attributes sp)")
      (auto simp: condition_holds_def)
  with assms show thesis
    by (cases a) (auto simp: condition_holds_def compare_string_def intro: that)
qed

lemma indexable_sound:
  assumes laws: "rodeo_laws (env_rodeo E)" and wf: "trace_wf (env_rodeo E) s" and sv: "services_ok (env_rodeo E) s"
    and idx: "indexable_traces E s c = Some ts"
  shows "distinct ts"
    and "sp \<in> set (spans_of s t) \<Longrightarrow> condition_holds E (ts_interner s) sp c \<Longrightarrow> t \<in> set ts"
proof -
  let ?R = "env_rodeo E" and ?i = "ts_interner s"
  note K = trace_wfD(2) [OF wf, unfolded keys_exact_def]
  have get_ok: "rd_get ?R ?i w = Some k \<longleftrightarrow> rd_resolve ?R ?i k = w" if "spur_ok ?R ?i k" for k w
    by (rule rd_get_iff [OF laws that])
  have ok: "span_ok ?R ?i sp" if "sp \<in> set (spans_of s t)" for sp t by (rule span_ok_spans_of [OF wf that])
  consider (name) v where "c = CondName CEq v" | (status) v where "c = CondStatus CEq v"
    | (attr) sc name v where "c = CondAttribute sc name CEq (VString v)"
    using idx by (cases "(E, s, c)" rule: indexable_traces.cases) auto
  then have "distinct ts \<and> (sp \<in> set (spans_of s t) \<longrightarrow> condition_holds E ?i sp c \<longrightarrow> t \<in> set ts)"
  proof cases
    case name
    then obtain k where k: "rd_get ?R ?i v = Some k" "hm_get (ts_name_index s) k = Some ts"
      using idx by (auto split: option.splits)
    note I = idx_get_spans [OF K [THEN conjunct2, THEN conjunct1] k(2)]
    have "sp_name sp = k" if "sp \<in> set (spans_of s t)" "condition_holds E ?i sp c"
      using that name k(1) ok [OF that(1)] get_ok [of "sp_name sp" v]
      by (simp add: condition_holds_def compare_string_def span_ok_def)
    with I show ?thesis by blast
  next
    case status
    then have "hm_get (ts_status_index s) (status_of_value v) = Some ts" using idx by simp
    note I = idx_get_spans [OF K [THEN conjunct2, THEN conjunct2] this]
    with status show ?thesis by (auto simp: condition_holds_def compare_enum_def)
  next
    case attr
    let ?P = "\<lambda>p. rd_resolve ?R ?i (fst p) \<in> set (attr_keys sc name)"
    have lookup: "indexed_attribute_traces E s sc name v = Some ts" using idx attr by simp
    have found: "\<exists>k w. find ?P (sp_attributes sp) = Some (k, AString w) \<and> rd_get ?R ?i v = Some w \<and>
        rd_get ?R ?i (rd_resolve ?R ?i k) = Some k \<and> rd_resolve ?R ?i k \<in> set (attr_keys sc name) \<and>
        (k, AString w) \<in> set (sp_attributes sp)"
      if sp: "sp \<in> set (spans_of s t)" "condition_holds E ?i sp c"
    proof -
      obtain k w where f: "find ?P (sp_attributes sp) = Some (k, AString w)" "rd_resolve ?R ?i w = v"
        using attr_eq_holds [OF sp(2) [unfolded attr]] .
      note m = find_SomeD [OF f(1)]
      then have "spur_ok ?R ?i k" "spur_ok ?R ?i w"
        using ok [OF sp(1)] by (auto simp: span_ok_def attrs_ok_def)
      with f m get_ok show ?thesis by auto
    qed
    show ?thesis
    proof (cases "sc = ScopeResource \<and> name = ''service.name''")
      case True
      then obtain k where k: "rd_get ?R ?i v = Some k" "hm_get (ts_service_index s) k = Some ts"
        using lookup by (auto simp: indexed_attribute_traces_def Let_def split: option.splits)
      note I = idx_get_spans [OF K [THEN conjunct1] k(2)]
      have "sp_service sp = k" if sp: "sp \<in> set (spans_of s t)" "condition_holds E ?i sp c"
      proof -
        obtain k' w where "find ?P (sp_attributes sp) = Some (k', AString w)" "rd_get ?R ?i v = Some w"
          using found [OF sp] by blast
        with sv sp(1) True k(1) show ?thesis by (simp add: services_ok_def service_attr_ok_def)
      qed
      with I show ?thesis by blast
    next
      case False
      then obtain w where w: "rd_get ?R ?i v = Some w"
        using lookup by (auto simp: indexed_attribute_traces_def Let_def split: option.splits)
      note U = attr_union [where get = "rd_get ?R ?i" and m = "ts_attr_index s" and v = w and keys = "attr_keys sc name" and out = "[]"]
      have ts: "set ts = (\<Union>key \<in> set (attr_keys sc name). case rd_get ?R ?i key of None \<Rightarrow> {} | Some k \<Rightarrow> attr_set (ts_attr_index s) k w)"
        and "distinct ts"
        using lookup False w U by (auto simp: indexed_attribute_traces_def Let_def split: if_splits)
      moreover have "t \<in> set ts" if sp: "sp \<in> set (spans_of s t)" "condition_holds E ?i sp c"
      proof -
        obtain k w' where k: "rd_get ?R ?i v = Some w'" "rd_get ?R ?i (rd_resolve ?R ?i k) = Some k"
          "rd_resolve ?R ?i k \<in> set (attr_keys sc name)" "(k, AString w') \<in> set (sp_attributes sp)"
          using found [OF sp] by blast
        then have "(k, AString w) \<in> set (sp_attributes sp)" using w by simp
        from attr_set_spans [OF wf sp(1) this] k(2,3) show ?thesis unfolding ts by force
      qed
      ultimately show ?thesis by blast
    qed
  qed
  then show "distinct ts"
    and "sp \<in> set (spans_of s t) \<Longrightarrow> condition_holds E (ts_interner s) sp c \<Longrightarrow> t \<in> set ts" by blast+
qed

lemma intersect_sound:
  assumes "rodeo_laws (env_rodeo E)" and "trace_wf (env_rodeo E) s" and "services_ok (env_rodeo E) s"
    and "intersect_candidates E s cs cand = Some ts" and "\<forall>cur. cand = Some cur \<longrightarrow> distinct cur"
  shows "distinct ts"
    and "sp \<in> set (spans_of s t) \<Longrightarrow> \<forall>c \<in> set cs. condition_holds E (ts_interner s) sp c \<Longrightarrow>
      (\<forall>cur. cand = Some cur \<longrightarrow> t \<in> set cur) \<Longrightarrow> t \<in> set ts"
proof -
  note sound = indexable_sound [OF assms(1-3)]
  have "distinct ts \<and> (sp \<in> set (spans_of s t) \<longrightarrow> (\<forall>c \<in> set cs. condition_holds E (ts_interner s) sp c) \<longrightarrow>
      (\<forall>cur. cand = Some cur \<longrightarrow> t \<in> set cur) \<longrightarrow> t \<in> set ts)"
    using assms(4,5)
  proof (induction cs arbitrary: cand)
    case (Cons c cs)
    define cand' where "cand' = (case indexable_traces E s c of None \<Rightarrow> cand
        | Some us \<Rightarrow> Some (case cand of None \<Rightarrow> us | Some cur \<Rightarrow> filter (\<lambda>t. t \<in> set us) cur))"
    have d: "\<forall>cur. cand' = Some cur \<longrightarrow> distinct cur"
      using Cons.prems(2) sound(1) [of c]
      by (cases "indexable_traces E s c"; cases cand) (simp_all add: cand'_def)
    have m: "\<forall>cur. cand' = Some cur \<longrightarrow> t \<in> set cur"
      if "sp \<in> set (spans_of s t)" "condition_holds E (ts_interner s) sp c" "\<forall>cur. cand = Some cur \<longrightarrow> t \<in> set cur"
      using that sound(2) [of c _ sp t]
      by (cases "indexable_traces E s c"; cases cand) (simp_all add: cand'_def)
    have "intersect_candidates E s cs cand' = Some ts" using Cons.prems(1) by (simp add: cand'_def)
    from Cons.IH [OF this d] m show ?case by (metis list.set_intros)
  qed simp
  then show "distinct ts"
    and "sp \<in> set (spans_of s t) \<Longrightarrow> \<forall>c \<in> set cs. condition_holds E (ts_interner s) sp c \<Longrightarrow>
      (\<forall>cur. cand = Some cur \<longrightarrow> t \<in> set cur) \<Longrightarrow> t \<in> set ts" by blast+
qed

text \<open>Without \<open>||\<close> a selector is the conjunction of its conditions.\<close>

lemma or_groups_conj: "LOr \<notin> fst ` set ocs \<Longrightarrow> or_groups c ocs = [c # map snd ocs]"
  by (induction c ocs rule: or_groups.induct) auto

lemma selector_holds_conj:
  assumes "LOr \<notin> set ops" and "selector_shape (SpanSelector conds ops)"
  shows "selector_holds P conds ops \<longleftrightarrow> (\<forall>c \<in> set conds. P c)"
proof (cases conds)
  case (Cons c cs)
  then have len: "length ops = length cs" using assms(2) by simp
  have "LOr \<notin> fst ` set (zip ops cs)" using assms(1) by (auto dest: set_zip_leftD)
  from or_groups_conj [OF this, of c] show ?thesis
    using Cons len by (simp add: selector_holds_def list_all_iff)
qed (simp add: selector_holds_def)

lemma candidates_sound:
  assumes "rodeo_laws (env_rodeo E)" and "trace_wf (env_rodeo E) s" and "services_ok (env_rodeo E) s"
    and "selector_shape (SpanSelector conds ops)" and "candidate_trace_ids E s conds ops = Some ts"
  shows "distinct ts"
    and "sp \<in> set (spans_of s t) \<Longrightarrow> selector_holds (condition_holds E (ts_interner s) sp) conds ops \<Longrightarrow> t \<in> set ts"
proof -
  have conj: "LOr \<notin> set ops" and i: "intersect_candidates E s conds None = Some ts"
    using assms(5) by (auto simp: candidate_trace_ids_def split: if_splits)
  show "distinct ts" by (rule intersect_sound(1) [OF assms(1-3) i]) simp
  show "t \<in> set ts" if "sp \<in> set (spans_of s t)" "selector_holds (condition_holds E (ts_interner s) sp) conds ops"
    using that selector_holds_conj [OF conj assms(4)] by (intro intersect_sound(2) [OF assms(1-3) i]) auto
qed

section \<open>Selectors\<close>

lemma map_filter_keys:
  assumes "\<And>x y. f x = Some y \<Longrightarrow> g y = h x"
  shows "map g (List.map_filter f xs) = map h (filter (\<lambda>x. f x \<noteq> None) xs)"
  using assms by (induction xs) (auto simp: List.map_filter_simps split: option.split)

lemma scan_result_id: "scan_result E s P p = Some r \<Longrightarrow> tq_trace_id r = fst p"
  by (cases p) (auto simp: scan_result_def split: if_splits)

lemma set_map_filter_iff: "y \<in> set (List.map_filter f xs) \<longleftrightarrow> (\<exists>x \<in> set xs. f x = Some y)"
  by (induction xs) (auto simp: List.map_filter_simps split: option.split)

lemma set_map_filter_cong:
  assumes "\<forall>x. f x \<noteq> None \<longrightarrow> (x \<in> set xs \<longleftrightarrow> x \<in> set ys)"
  shows "set (List.map_filter f xs) = set (List.map_filter f ys)"
  unfolding set_eq_iff set_map_filter_iff using assms by (metis option.distinct(1))

lemma sort_key_unique:
  fixes f :: "'a \<Rightarrow> 'b::linorder"
  assumes "distinct (map f xs)" and "distinct (map f ys)" and "set xs = set ys"
  shows "sort_key f xs = sort_key f ys"
proof (rule map_sorted_distinct_set_unique)
  show "inj_on f (set (sort_key f xs) \<union> set (sort_key f ys))"
    using assms by (simp add: distinct_map)
  have d: "distinct (map f (sort_key f zs))" if "distinct (map f zs)" for zs
    using that by (metis distinct_map distinct_sort set_sort)
  show "distinct (map f (sort_key f xs))" "distinct (map f (sort_key f ys))"
    by (rule d [OF assms(1)], rule d [OF assms(2)])
qed (use assms(3) in simp_all)

lemma selector_full_scan:
  assumes laws: "rodeo_laws (env_rodeo E)" and wf: "trace_wf (env_rodeo E) s" and sv: "services_ok (env_rodeo E) s"
    and shape: "selector_shape (SpanSelector conds ops)"
  shows "eval_span_selector E conds ops s =
    Inr (select_traces E s (\<lambda>sp. selector_holds (condition_holds E (ts_interner s) sp) conds ops))"
proof -
  define P where "P = (\<lambda>sp. selector_holds (condition_holds E (ts_interner s) sp) conds ops)"
  let ?f = "scan_result E s P"
  note T = traces_wfD [OF trace_wfD(1) [OF wf]]
  have dist: "distinct (map tq_trace_id (List.map_filter ?f traces))" if "distinct (map fst traces)" for traces
  proof -
    have "map tq_trace_id (List.map_filter ?f traces) = map fst (filter (\<lambda>p. ?f p \<noteq> None) traces)"
      by (rule map_filter_keys) (rule scan_result_id)
    then show ?thesis using distinct_map_filter [OF that] by simp
  qed
  have "sort_key tq_trace_id (List.map_filter ?f (traces_to_scan s (candidate_trace_ids E s conds ops))) =
      select_traces E s P"
  proof (cases "candidate_trace_ids E s conds ops")
    case None
    then show ?thesis by (simp add: traces_to_scan_def select_traces_def)
  next
    case (Some ts)
    note C = candidates_sound [OF laws wf sv shape Some]
    let ?tr = "List.map_filter (\<lambda>t. map_option (Pair t) (hm_get (ts_traces s) t)) ts"
    have "map fst ?tr = map id (filter (\<lambda>t. map_option (Pair t) (hm_get (ts_traces s) t) \<noteq> None) ts)"
      by (rule map_filter_keys) auto
    then have keys: "distinct (map fst ?tr)" using C(1) by simp
    have mem: "(t, sps) \<in> set ?tr \<longleftrightarrow> t \<in> set ts \<and> hm_get (ts_traces s) t = Some sps" for t sps
      by (auto simp: set_map_filter_iff)
    have "t \<in> set ts" if "hm_get (ts_traces s) t = Some sps" "filter P sps \<noteq> []" for t sps
      using that C(2) [of _ t] by (auto simp: P_def spans_of_def filter_empty_conv)
    then have "\<forall>p. ?f p \<noteq> None \<longrightarrow> (p \<in> set ?tr \<longleftrightarrow> p \<in> set (ts_traces s))"
      by (simp add: split_paired_All mem hm_mem_iff [OF T(1)] scan_result_def) blast
    then have "set (List.map_filter ?f ?tr) = set (List.map_filter ?f (ts_traces s))"
      by (rule set_map_filter_cong)
    then have "sort_key tq_trace_id (List.map_filter ?f ?tr) = sort_key tq_trace_id (List.map_filter ?f (ts_traces s))"
      by (intro sort_key_unique dist keys T(1))
    with Some show ?thesis by (simp add: traces_to_scan_def select_traces_def)
  qed
  then show ?thesis
    unfolding eval_span_selector_def scan_all_total [OF shape] P_def [symmetric] by simp
qed

section \<open>Ancestry\<close>

definition parent_rel :: "span_map \<Rightarrow> (span_id \<times> span_id) set" where
  "parent_rel m = {(c, p). parent_of m c = Some p}"

lemma parent_rel_fun: "(c, p) \<in> parent_rel m \<Longrightarrow> (c, q) \<in> parent_rel m \<Longrightarrow> p = q"
  by (simp add: parent_rel_def)

lemma climb_closed:
  assumes "\<forall>v \<in> S. \<forall>w. (v, w) \<in> r \<longrightarrow> w \<in> S" and "(x, y) \<in> r\<^sup>+" and "x \<in> S"
  shows "y \<in> S"
  using assms(2,1,3) by (induction rule: trancl_induct) blast+

lemma climbs_to_spec:
  assumes "anc \<notin> set visited"
    and "\<forall>v \<in> set visited. \<exists>w. (v, w) \<in> parent_rel m \<and> w \<in> insert current (set visited)"
  shows "climbs_to m anc visited current \<longleftrightarrow> current \<noteq> anc \<and> (current, anc) \<in> (parent_rel m)\<^sup>+"
  using assms
proof (induction m anc visited current rule: climbs_to.induct)
  case (1 m anc visited current)
  show ?case
  proof (cases "parent_of m current")
    case None
    then have "climbs_to m anc visited current = False"
      by (subst climbs_to.simps) (auto simp: parent_of_def split: option.splits)
    moreover have "(current, anc) \<notin> (parent_rel m)\<^sup>+"
      using None by (auto simp: parent_rel_def dest: tranclD)
    ultimately show ?thesis by simp
  next
    case (Some p)
    then obtain sp where sp: "hm_get m current = Some sp" "sp_parent sp = Some p"
      by (auto simp: parent_of_def split: option.splits)
    have step: "(current, p) \<in> parent_rel m" using Some by (simp add: parent_rel_def)
    have up: "(current, anc) \<in> (parent_rel m)\<^sup>+ \<longleftrightarrow> p = anc \<or> (p, anc) \<in> (parent_rel m)\<^sup>+"
      using step by (metis parent_rel_fun r_into_trancl tranclD trancl_into_trancl2 rtranclD)
    show ?thesis
    proof (cases "current = anc \<or> p = anc")
      case True
      then show ?thesis using up by (subst climbs_to.simps) (auto simp: sp)
    next
      case False
      show ?thesis
      proof (cases "p \<in> set visited")
        case True
        have "\<forall>v \<in> insert current (set visited). \<forall>w. (v, w) \<in> parent_rel m \<longrightarrow> w \<in> insert current (set visited)"
          using 1(3) step True parent_rel_fun by blast
        then have "(current, anc) \<notin> (parent_rel m)\<^sup>+"
          using climb_closed [of "insert current (set visited)" "parent_rel m" current anc] False 1(2) by blast
        moreover have "climbs_to m anc visited current = False"
          using False True by (subst climbs_to.simps) (simp add: sp)
        ultimately show ?thesis by simp
      next
        case new: False
        have "climbs_to m anc visited current = climbs_to m anc (hs_insert current visited) p"
          using False new by (subst climbs_to.simps) (simp add: sp)
        moreover have "climbs_to m anc (hs_insert current visited) p \<longleftrightarrow> p \<noteq> anc \<and> (p, anc) \<in> (parent_rel m)\<^sup>+"
        proof (rule "1.IH" [OF _ sp])
          show "current \<noteq> anc" "p \<noteq> anc" "p \<notin> set visited" using False new by auto
          show "anc \<notin> set (hs_insert current visited)" using False 1(2) by auto
          show "\<forall>v \<in> set (hs_insert current visited). \<exists>w. (v, w) \<in> parent_rel m \<and> w \<in> insert p (set (hs_insert current visited))"
            using 1(3) step by auto
        qed
        ultimately show ?thesis using False up by simp
      qed
    qed
  qed
qed

lemma is_descendant_trancl:
  "is_descendant anc desc m \<longleftrightarrow> desc \<noteq> anc \<and> (desc, anc) \<in> (parent_rel m)\<^sup>+"
  unfolding is_descendant_def by (rule climbs_to_spec) simp_all

section \<open>Structural operators\<close>

text \<open>The meaning of the three operators over the parent relation of a trace.\<close>

definition relation_holds :: "structural_op \<Rightarrow> span_id \<Rightarrow> span_id \<Rightarrow> span_map \<Rightarrow> bool" where
  "relation_holds op a b m = (case op of
     Descendant \<Rightarrow> a \<noteq> b \<and> (b, a) \<in> (parent_rel m)\<^sup>+
   | Child \<Rightarrow> (b, a) \<in> parent_rel m
   | Sibling \<Rightarrow> a \<noteq> b \<and> parent_of m a = parent_of m b)"

lemma related_holds: "related op a b m \<longleftrightarrow> relation_holds op a b m"
  by (cases op) (auto simp: related_def relation_holds_def is_descendant_trancl is_child_def is_sibling_def parent_rel_def)

lemma dedup_by_key_keys: "f ` set (dedup_by_key f xs) = f ` set xs"
  by (induction f xs rule: dedup_by_key.induct) auto

lemma dedup_by_key_hd: "xs \<noteq> [] \<Longrightarrow> dedup_by_key f xs = hd xs # tl (dedup_by_key f xs)"
  by (induction f xs rule: dedup_by_key.induct) auto

lemma dedup_by_key_sorted:
  fixes f :: "'a \<Rightarrow> 'b::linorder"
  shows "sorted (map f xs) \<Longrightarrow> sorted_wrt (<) (map f (dedup_by_key f xs))"
proof (induction f xs rule: dedup_by_key.induct)
  case (1 f x y zs)
  show ?case
  proof (cases "f x = f y")
    case True
    with 1 show ?thesis by simp
  next
    case False
    with 1(3) have "f x < f y" "sorted (map f (y # zs))" by (simp_all add: less_le)
    have "f x < z" if "z \<in> f ` set (dedup_by_key f (y # zs))" for z
    proof -
      have "f y \<le> z" using 1(3) that unfolding dedup_by_key_keys by auto
      with \<open>f x < f y\<close> show ?thesis by (rule order.strict_trans2)
    qed
    then show ?thesis using 1(2) [OF False \<open>sorted (map f (y # zs))\<close>] False by simp
  qed
qed simp_all

lemma structural_matches_spec:
  shows "msp_span_id ` set (structural_matches op m ls rs) =
      {x. \<exists>l \<in> set ls. \<exists>r \<in> set rs. msp_span_id r = x \<and> relation_holds op (msp_span_id l) x m}"
    and "distinct (map msp_span_id (structural_matches op m ls rs))"
proof -
  show "msp_span_id ` set (structural_matches op m ls rs) =
      {x. \<exists>l \<in> set ls. \<exists>r \<in> set rs. msp_span_id r = x \<and> relation_holds op (msp_span_id l) x m}"
    unfolding structural_matches_def dedup_by_key_keys by (auto simp: related_holds)
  show "distinct (map msp_span_id (structural_matches op m ls rs))"
    unfolding structural_matches_def by (intro strict_sorted_distinct dedup_by_key_sorted sorted_sort_key)
qed

lemma fold_insert_get:
  "distinct (map f rs) \<Longrightarrow>
    hm_get (fold (\<lambda>r m. hm_insert (f r) r m) rs m0) k = (case find (\<lambda>r. f r = k) rs of None \<Rightarrow> hm_get m0 k | Some r \<Rightarrow> Some r)"
proof (induction rs arbitrary: m0)
  case (Cons r rs)
  have "find (\<lambda>r'. f r' = f r) rs = None"
    using Cons.prems by (auto simp: find_None_iff image_iff)
  with Cons show ?case by (auto simp: hm_simps split: option.split)
qed simp

lemma select_traces_mem:
  assumes "trace_wf R s"
  shows "q \<in> set (select_traces E s P) \<longleftrightarrow> filter P (spans_of s (tq_trace_id q)) \<noteq> [] \<and>
      tq_spans q = map (span_to_matched E (ts_interner s)) (filter P (spans_of s (tq_trace_id q)))"
    and "distinct (map tq_trace_id (select_traces E s P))"
proof -
  note T = traces_wfD [OF trace_wfD(1) [OF assms]]
  show "q \<in> set (select_traces E s P) \<longleftrightarrow> filter P (spans_of s (tq_trace_id q)) \<noteq> [] \<and>
      tq_spans q = map (span_to_matched E (ts_interner s)) (filter P (spans_of s (tq_trace_id q)))"
  proof
    assume "q \<in> set (select_traces E s P)"
    then obtain t sps where "(t, sps) \<in> set (ts_traces s)" "scan_result E s P (t, sps) = Some q"
      by (auto simp: select_traces_def set_map_filter_iff)
    then show "filter P (spans_of s (tq_trace_id q)) \<noteq> [] \<and>
        tq_spans q = map (span_to_matched E (ts_interner s)) (filter P (spans_of s (tq_trace_id q)))"
      unfolding hm_mem_iff [OF T(1)] by (auto simp: scan_result_def spans_of_def split: if_splits)
  next
    assume q: "filter P (spans_of s (tq_trace_id q)) \<noteq> [] \<and>
        tq_spans q = map (span_to_matched E (ts_interner s)) (filter P (spans_of s (tq_trace_id q)))"
    then obtain sps where sps: "hm_get (ts_traces s) (tq_trace_id q) = Some sps"
      by (cases "hm_get (ts_traces s) (tq_trace_id q)") (simp_all add: spans_of_def)
    then have "(tq_trace_id q, sps) \<in> set (ts_traces s)" by (simp only: hm_mem_iff [OF T(1)])
    moreover have "scan_result E s P (tq_trace_id q, sps) = Some q"
      using q sps by (simp add: scan_result_def spans_of_def)
    ultimately show "q \<in> set (select_traces E s P)"
      unfolding select_traces_def set_sort set_map_filter_iff by blast
  qed
  have "distinct (map tq_trace_id (List.map_filter (scan_result E s P) (ts_traces s)))"
  proof -
    have "map tq_trace_id (List.map_filter (scan_result E s P) (ts_traces s)) =
        map fst (filter (\<lambda>p. scan_result E s P p \<noteq> None) (ts_traces s))"
      by (rule map_filter_keys) (rule scan_result_id)
    then show ?thesis using distinct_map_filter [OF T(1)] by simp
  qed
  then show "distinct (map tq_trace_id (select_traces E s P))"
    unfolding select_traces_def by (metis distinct_map distinct_sort set_sort)
qed

lemma eval_structural_spec:
  fixes E :: "('i, 'r) eval_env" and s :: "'i trace_store" and P Q :: "span \<Rightarrow> bool" and op :: structural_op
  assumes wf: "trace_wf R s"
  defines "res \<equiv> eval_structural op (select_traces E s P) (select_traces E s Q) s"
  shows "(\<exists>q \<in> set res. tq_trace_id q = t \<and> x \<in> msp_span_id ` set (tq_spans q)) \<longleftrightarrow>
      (\<exists>a \<in> set (spans_of s t). \<exists>b \<in> set (spans_of s t). P a \<and> Q b \<and> sp_span_id b = x \<and>
        relation_holds op (sp_span_id a) x (span_map_of (spans_of s t)))"
    and "distinct (map tq_trace_id res)"
    and "q \<in> set res \<Longrightarrow> tq_spans q \<noteq> [] \<and> distinct (map msp_span_id (tq_spans q))"
proof -
  note S = select_traces_mem [OF wf, where E = E and P = P]
    and S2 = select_traces_mem [OF wf, where E = E and P = Q]
  let ?by = "fold (\<lambda>r m. hm_insert (tq_trace_id r) r m) (select_traces E s Q) []"
  let ?m = "span_map_of (spans_of s t)"
  have by_get: "hm_get ?by u = find (\<lambda>r. tq_trace_id r = u) (select_traces E s Q)" for u
    by (simp add: fold_insert_get [OF S2(2)] split: option.split)
  have res_mem: "q \<in> set res \<longleftrightarrow> (\<exists>l \<in> set (select_traces E s P). join_trace op s ?by l = Some q)" for q
    by (simp add: res_def eval_structural_def set_map_filter_iff)
  have join_id: "tq_trace_id q = tq_trace_id l" if "join_trace op s ?by l = Some q" for l q
    using that by (auto simp: join_trace_def Let_def split: option.splits if_splits)
  have join_ok: "tq_spans q \<noteq> [] \<and> distinct (map msp_span_id (tq_spans q))" if "join_trace op s ?by l = Some q" for l q
    using that structural_matches_spec(2) by (auto simp: join_trace_def Let_def split: option.splits if_splits)
  show "q \<in> set res \<Longrightarrow> tq_spans q \<noteq> [] \<and> distinct (map msp_span_id (tq_spans q))"
    using join_ok unfolding res_mem by blast
  have "map tq_trace_id res = map tq_trace_id (filter (\<lambda>l. join_trace op s ?by l \<noteq> None) (select_traces E s P))"
    unfolding res_def eval_structural_def Let_def by (rule map_filter_keys) (rule join_id)
  then show "distinct (map tq_trace_id res)" using distinct_map_filter [OF S(2)] by simp
  have spans_id: "msp_span_id (span_to_matched E i sp) = sp_span_id sp" for i sp by (simp add: span_to_matched_def)
  let ?ls = "map (span_to_matched E (ts_interner s)) (filter P (spans_of s t))"
  let ?rs = "map (span_to_matched E (ts_interner s)) (filter Q (spans_of s t))"
  have match: "x \<in> msp_span_id ` set (structural_matches op ?m ?ls ?rs) \<longleftrightarrow>
      (\<exists>a \<in> set (spans_of s t). \<exists>b \<in> set (spans_of s t). P a \<and> Q b \<and> sp_span_id b = x \<and>
        relation_holds op (sp_span_id a) x ?m)" for x
    unfolding structural_matches_spec(1) by (auto simp: spans_id)
  show "(\<exists>q \<in> set res. tq_trace_id q = t \<and> x \<in> msp_span_id ` set (tq_spans q)) \<longleftrightarrow>
      (\<exists>a \<in> set (spans_of s t). \<exists>b \<in> set (spans_of s t). P a \<and> Q b \<and> sp_span_id b = x \<and>
        relation_holds op (sp_span_id a) x ?m)"
  proof
    assume "\<exists>q \<in> set res. tq_trace_id q = t \<and> x \<in> msp_span_id ` set (tq_spans q)"
    then obtain q where q: "x \<in> msp_span_id ` set (tq_spans q)" "q \<in> set res" "tq_trace_id q = t" by blast
    from res_mem [of q] q(2) obtain l where l: "l \<in> set (select_traces E s P)"
      "join_trace op s ?by l = Some q" by blast
    have lt: "tq_trace_id l = t" using join_id [OF l(2)] q(3) by simp
    then obtain r sps where r: "find (\<lambda>r. tq_trace_id r = t) (select_traces E s Q) = Some r"
      and sps: "hm_get (ts_traces s) t = Some sps"
      and qs: "tq_spans q = structural_matches op (span_map_of sps) (tq_spans l) (tq_spans r)"
      using l(2) lt by (auto simp: join_trace_def by_get get_trace_def Let_def split: option.splits if_splits)
    note r' = find_SomeD [OF r]
    have "spans_of s t = sps" using sps by (simp add: spans_of_def)
    with q(1) qs l(1) lt S(1) [of l] r' S2(1) [of r] match [of x] show "\<exists>a \<in> set (spans_of s t). \<exists>b \<in> set (spans_of s t).
        P a \<and> Q b \<and> sp_span_id b = x \<and> relation_holds op (sp_span_id a) x ?m" by simp
  next
    assume ex: "\<exists>a \<in> set (spans_of s t). \<exists>b \<in> set (spans_of s t). P a \<and> Q b \<and> sp_span_id b = x \<and>
        relation_holds op (sp_span_id a) x ?m"
    then have ne: "filter P (spans_of s t) \<noteq> []" "filter Q (spans_of s t) \<noteq> []" by (auto simp: filter_empty_conv)
    from ex obtain sps where sps: "hm_get (ts_traces s) t = Some sps" "spans_of s t = sps"
      by (cases "hm_get (ts_traces s) t") (auto simp: spans_of_def)
    let ?l = "\<lparr>tq_trace_id = t, tq_spans = ?ls\<rparr>" and ?r = "\<lparr>tq_trace_id = t, tq_spans = ?rs\<rparr>"
    have l: "?l \<in> set (select_traces E s P)" and r: "?r \<in> set (select_traces E s Q)"
      unfolding S(1) S2(1) using ne by simp_all
    have "find (\<lambda>r. tq_trace_id r = t) (select_traces E s Q) = Some ?r"
    proof (cases "find (\<lambda>r. tq_trace_id r = t) (select_traces E s Q)")
      case None
      with r show ?thesis by (auto simp: find_None_iff)
    next
      case (Some r')
      note r'' = find_SomeD [OF Some]
      then have "tq_spans r' = ?rs" using S2(1) [of r'] by simp
      with r'' Some show ?thesis by (cases r') simp
    qed
    moreover have ms: "x \<in> msp_span_id ` set (structural_matches op ?m ?ls ?rs)" using ex match by blast
    ultimately have "join_trace op s ?by ?l = Some \<lparr>tq_trace_id = t, tq_spans = structural_matches op ?m ?ls ?rs\<rparr>"
      using sps by (auto simp: join_trace_def by_get get_trace_def Let_def)
    then have "\<lparr>tq_trace_id = t, tq_spans = structural_matches op ?m ?ls ?rs\<rparr> \<in> set res"
      unfolding res_mem using l by blast
    with ms show "\<exists>q \<in> set res. tq_trace_id q = t \<and> x \<in> msp_span_id ` set (tq_spans q)"
      by (intro bexI conjI) simp_all
  qed
qed

section \<open>Panic freedom\<close>

lemma eval_shape_total: "expr_shape e \<Longrightarrow> \<exists>rs. evaluate_traceql E e s = Inr rs"
proof (induction e)
  case (SpanSelector conds ops)
  then have "selector_shape (SpanSelector conds ops)" by simp
  then show ?case by (simp add: eval_span_selector_def scan_all_total [OF \<open>selector_shape (SpanSelector conds ops)\<close>])
next
  case (Structural op l r)
  then have "selector_shape l" "selector_shape r" by simp_all
  moreover have "expr_shape x" if "selector_shape x" for x using that by (cases x) simp_all
  ultimately obtain ls rs where "evaluate_traceql E l s = Inr ls" "evaluate_traceql E r s = Inr rs"
    using Structural.IH by blast
  then show ?case by simp
next
  case (TracePipeline e stages)
  then obtain rs where "evaluate_traceql E e s = Inr rs" by auto
  then show ?case by simp
qed

text \<open>Conditions on events are left out of the regex compilation.\<close>

lemma event_regex_false:
  "\<not> condition_holds E i sp (CondEventName CRegex p)"
  "\<not> condition_holds E i sp (CondEventAttribute k CRegex (VString p))"
proof -
  have "\<not> compare_attribute_value E i a CRegex (VString p) None" for a
    by (cases a) (simp_all add: compare_string_def)
  then show "\<not> condition_holds E i sp (CondEventName CRegex p)"
    "\<not> condition_holds E i sp (CondEventAttribute k CRegex (VString p))"
    by (simp_all add: condition_holds_def compiled_def compare_string_def list_ex_iff Let_def)
qed

lemma never_matches:
  assumes "\<And>sp. \<not> condition_holds E (ts_interner s) sp c" and "condition_shape c"
  shows "evaluate_traceql E (SpanSelector [c] []) s = Inr []"
proof -
  have shape: "selector_shape (SpanSelector [c] [])" using assms(2) by simp
  have "scan_result E s (\<lambda>sp. selector_holds (condition_holds E (ts_interner s) sp) [c] []) p = None" for p
    by (cases p) (simp add: scan_result_def selector_holds_def assms(1))
  then have "List.map_filter (scan_result E s (\<lambda>sp. selector_holds (condition_holds E (ts_interner s) sp) [c] [])) traces = []" for traces
    by (simp add: List.map_filter_def)
  then show ?thesis by (simp add: eval_span_selector_def scan_all_total [OF shape])
qed

section \<open>A concrete family of spans\<close>

definition family_span :: "span_id \<Rightarrow> span_id option \<Rightarrow> spur \<Rightarrow> spur \<Rightarrow> span" where
  "family_span x parent name service = \<lparr>sp_trace_id = [9], sp_span_id = x, sp_parent = parent,
     sp_name = name, sp_service = service, sp_start_ns = 10, sp_duration_ns = 5,
     sp_status = Unset, sp_status_message = None, sp_kind = Server,
     sp_attributes = [(4, AString service)], sp_events = [], sp_links = [], sp_ingest_seq = 0\<rparr>"

definition family_interner :: "string list" where
  "family_interner = [''api'', ''db'', ''GET'', ''SELECT'', ''resource.service.name'']"

definition family_spans :: "span list" where
  "family_spans = [family_span [1] None 2 0, family_span [2] (Some [1]) 3 1, family_span [3] (Some [2]) 2 1]"

definition family_traces :: "string list trace_store" where
  "family_traces = ingest_spans family_spans ((trace_new list_rodeo)\<lparr>ts_interner := family_interner\<rparr>)"

definition list_env :: "(string list, string) eval_env" where
  "list_env = \<lparr>env_rodeo = list_rodeo, env_regex = literal_regex, env_fmt = (\<lambda>f. [])\<rparr>"

lemma family_stored: "ts_traces family_traces = [([9], family_spans)]" "ts_interner family_traces = family_interner"
  by (simp_all add: family_traces_def family_spans_def family_span_def trace_eval)

lemma family_wf: "trace_wf list_rodeo family_traces"
  unfolding family_traces_def
  by (rule ingest_spans_correct [THEN conjunct1, OF empty_traces_wf])
    (simp add: family_spans_def family_span_def family_interner_def span_ok_def attrs_ok_def spur_ok_def list_rodeo_def)

lemma family_services: "services_ok list_rodeo family_traces"
  by (auto simp: services_ok_def service_attr_ok_def spans_of_def family_stored family_spans_def family_span_def
      split: if_splits)

section \<open>Properties\<close>

text \<open>
  C5: A selector returns, sorted by trace id, exactly the traces of a full scan with a span that
  satisfies the disjunction of the \<open>&&\<close>-groups, each with all such spans: reading the candidate traces
  from the name, status, service and attribute indexes never loses or adds a trace.
\<close>

theorem selector_narrowing_exact:
  assumes "rodeo_laws (env_rodeo E)" and "trace_wf (env_rodeo E) s" and "services_ok (env_rodeo E) s"
    and "selector_shape (SpanSelector conds ops)"
  shows "evaluate_traceql E (SpanSelector conds ops) s =
    Inr (sort_key tq_trace_id (List.map_filter
      (scan_result E s (\<lambda>sp. selector_holds (condition_holds E (ts_interner s) sp) conds ops)) (ts_traces s)))"
  using selector_full_scan [OF assms] by (simp add: select_traces_def)

theorem selector_narrowing_exact_witness:
  "\<exists>r. evaluate_traceql list_env (SpanSelector [CondName CEq ''GET'', CondAttribute ScopeResource ''service.name'' CEq (VString ''db'')] [LAnd])
      family_traces = Inr [r] \<and> tq_trace_id r = [9] \<and> map msp_span_id (tq_spans r) = [[3]]"
  using selector_narrowing_exact [of list_env family_traces
      "[CondName CEq ''GET'', CondAttribute ScopeResource ''service.name'' CEq (VString ''db'')]" "[LAnd]"]
    list_rodeo_laws family_wf family_services
  by (simp add: list_env_def family_stored List.map_filter_simps scan_result_def selector_holds_def
      condition_holds_def compare_string_def attr_keys_def family_spans_def family_span_def family_interner_def
      list_rodeo_def span_to_matched_def)

text \<open>
  C22: A structural query lists each trace once and each matched span once, and a span is listed
  exactly when it satisfies the right selector and stands in the relation to some span of the same
  trace that satisfies the left one: descendant by the transitive closure of the parent links, child
  by one link, sibling by equal parents.
\<close>

theorem structural_operators_exact:
  assumes "rodeo_laws (env_rodeo E)" and "trace_wf (env_rodeo E) s" and "services_ok (env_rodeo E) s"
    and "selector_shape (SpanSelector cs os)" and "selector_shape (SpanSelector ds us)"
  shows "\<exists>res. evaluate_traceql E (Structural op (SpanSelector cs os) (SpanSelector ds us)) s = Inr res \<and>
    distinct (map tq_trace_id res) \<and>
    (\<forall>q \<in> set res. tq_spans q \<noteq> [] \<and> distinct (map msp_span_id (tq_spans q))) \<and>
    (\<forall>t x. (\<exists>q \<in> set res. tq_trace_id q = t \<and> x \<in> msp_span_id ` set (tq_spans q)) \<longleftrightarrow>
      (\<exists>a \<in> set (spans_of s t). \<exists>b \<in> set (spans_of s t).
        selector_holds (condition_holds E (ts_interner s) a) cs os \<and>
        selector_holds (condition_holds E (ts_interner s) b) ds us \<and> sp_span_id b = x \<and>
        relation_holds op (sp_span_id a) x (span_map_of (spans_of s t))))"
proof -
  have eval: "evaluate_traceql E (Structural op (SpanSelector cs os) (SpanSelector ds us)) s =
      Inr (eval_structural op
        (select_traces E s (\<lambda>sp. selector_holds (condition_holds E (ts_interner s) sp) cs os))
        (select_traces E s (\<lambda>sp. selector_holds (condition_holds E (ts_interner s) sp) ds us)) s)"
    by (simp add: selector_full_scan [OF assms(1-3) assms(4)] selector_full_scan [OF assms(1-3) assms(5)])
  note D = eval_structural_spec [OF assms(2), where E = E and op = op
      and P = "\<lambda>sp. selector_holds (condition_holds E (ts_interner s) sp) cs os"
      and Q = "\<lambda>sp. selector_holds (condition_holds E (ts_interner s) sp) ds us"]
  show ?thesis
    unfolding eval sum.inject by (intro exI conjI allI ballI, rule refl) (use D in blast)+
qed

theorem structural_operators_exact_witness:
  "\<exists>res. evaluate_traceql list_env (Structural Descendant
      (SpanSelector [CondAttribute ScopeResource ''service.name'' CEq (VString ''api'')] [])
      (SpanSelector [CondName CEq ''GET''] [])) family_traces = Inr res \<and>
    (\<exists>q \<in> set res. tq_trace_id q = [9] \<and> [3] \<in> msp_span_id ` set (tq_spans q))"
proof -
  let ?m = "span_map_of (spans_of family_traces [9])"
  let ?cs = "[CondAttribute ScopeResource ''service.name'' CEq (VString ''api'')]" and ?ds = "[CondName CEq ''GET'']"
  have links: "([3], [2]) \<in> parent_rel ?m" "([2], [1]) \<in> parent_rel ?m"
    by (simp_all add: parent_rel_def parent_of_def span_map_of_def spans_of_def family_stored family_spans_def family_span_def)
  then have "relation_holds Descendant [1] [3] ?m"
    by (simp add: relation_holds_def)
  then have "\<exists>a \<in> set (spans_of family_traces [9]). \<exists>b \<in> set (spans_of family_traces [9]).
      selector_holds (condition_holds list_env (ts_interner family_traces) a) ?cs [] \<and>
      selector_holds (condition_holds list_env (ts_interner family_traces) b) ?ds [] \<and> sp_span_id b = [3] \<and>
      relation_holds Descendant (sp_span_id a) [3] ?m"
    by (intro bexI [of _ "family_span [1] None 2 0"] bexI [of _ "family_span [3] (Some [2]) 2 1"])
      (simp_all add: spans_of_def family_stored family_spans_def family_span_def selector_holds_def condition_holds_def
        compare_string_def attr_keys_def list_env_def list_rodeo_def family_interner_def)
  moreover have "env_rodeo list_env = list_rodeo" by (simp add: list_env_def)
  moreover have "selector_shape (SpanSelector ?cs [])" "selector_shape (SpanSelector ?ds [])" by simp_all
  ultimately show ?thesis
    using structural_operators_exact [of list_env family_traces ?cs "[]" ?ds "[]" Descendant]
      list_rodeo_laws family_wf family_services
    by (simp only:) metis
qed

text \<open>
  C23: The climb through the parents decides ancestry: it ends on every parent map, cyclic ones
  included, and says yes exactly for the proper ancestors.
\<close>

theorem ancestry_decided:
  "is_descendant anc desc m \<longleftrightarrow> desc \<noteq> anc \<and> (desc, anc) \<in> {(c, p). parent_of m c = Some p}\<^sup>+"
  using is_descendant_trancl [of anc desc m] by (simp only: parent_rel_def)

text \<open>
  Whatever text the parser accepts, and whatever the store holds, evaluating the parsed query
  returns: no index into the conditions or operators is out of bounds.
\<close>

lemma parsed_queries_never_panic:
  assumes "parse_traceql N q = Inr (Inr e)"
  shows "\<exists>rs. evaluate_traceql E e s = Inr rs"
  by (rule eval_shape_total [OF parse_traceql_shape [OF assms]])

lemma parsed_queries_never_panic_witness:
  "\<exists>rs. evaluate_traceql list_env (SpanSelector [CondStatus CNeq SvOk] []) family_traces = Inr rs"
proof -
  have "parse_traceql doc_nom (show_expr (SpanSelector [CondStatus CNeq SvOk] [])) =
      Inr (Inr (SpanSelector [CondStatus CNeq SvOk] []))"
    by (rule parse_traceql_show [OF doc_nom_laws]) (simp add: is_equality_op_def)
  then show ?thesis by (rule parsed_queries_never_panic)
qed

text \<open>
  A regular-expression match on an event name or an event attribute selects nothing, in any
  store and for any pattern: only name and attribute patterns are compiled.
\<close>

lemma event_regex_never_matches:
  "evaluate_traceql E (SpanSelector [CondEventName CRegex p] []) s = Inr [] \<and>
   evaluate_traceql E (SpanSelector [CondEventAttribute k CRegex (VString p)] []) s = Inr []"
  using never_matches [of E s "CondEventName CRegex p"] never_matches [of E s "CondEventAttribute k CRegex (VString p)"]
    event_regex_false [of E "ts_interner s"]
  by simp

end
