(* ===== verification/Config.thy ===== *)
theory Config
  imports Float64
begin

text \<open>
  \<open>src/config.rs\<close>: the configuration and the duration syntax of the retention option and of LogQL
  ranges. The command line parser (\<open>clap\<close>) is outside the sources.
\<close>

record config =
  cf_bind_address :: string
  cf_port :: nat
  cf_snapshot_dir :: string
  cf_snapshot_interval :: u64
  cf_max_log_entries :: usize
  cf_max_series :: usize
  cf_max_spans :: usize
  cf_retention :: string
  cf_restore :: bool

text \<open>The number and the seconds of its unit; without a unit, seconds.\<close>

definition split_unit :: "string \<Rightarrow> string \<times> u64" where
  "split_unit s =
     (case strip_suffix ''s'' s of Some n \<Rightarrow> (n, 1)
      | None \<Rightarrow> (case strip_suffix ''m'' s of Some n \<Rightarrow> (n, 60)
        | None \<Rightarrow> (case strip_suffix ''h'' s of Some n \<Rightarrow> (n, 3600)
          | None \<Rightarrow> (case strip_suffix ''d'' s of Some n \<Rightarrow> (n, 86400) | None \<Rightarrow> (s, 1)))))"

text \<open>\<open>u64::MAX as f64\<close> rounds up to \<open>2 ^ 64\<close>.\<close>

definition u64_max_f64 :: f64 where
  "u64_max_f64 = f64_of_bits False (1087 * 2 ^ 52)"

definition parse_duration :: "string \<Rightarrow> panic + duration option" where
  "parse_duration input =
     (let s = trim input
      in if s = [] then Inr None
         else case strip_suffix ''ms'' s of
                Some num \<Rightarrow> Inr (map_option (\<lambda>n. n * 1000000) (parse_u64 (trim num)))
              | None \<Rightarrow>
                  (let (num_str, multiplier) = split_unit s
                   in case parse_f64 (trim num_str) of
                        None \<Rightarrow> Inr None
                      | Some n \<Rightarrow>
                          (let total_secs = f64_mul n (f64_of_int (int multiplier))
                           in if \<not> is_finite total_secs \<or> f64_lt total_secs f64_zero \<or>
                                 f64_lt u64_max_f64 total_secs
                              then Inr None
                              else map_sum id Some (from_secs_f64 total_secs))))"

definition retention_duration :: "config \<Rightarrow> panic + duration" where
  "retention_duration c =
     map_sum id (\<lambda>d. case d of None \<Rightarrow> 7200 * 1000000000 | Some d \<Rightarrow> d) (parse_duration (cf_retention c))"

end
