(* ===== verification/Logql_Parser.thy ===== *)
theory Logql_Parser
  imports Nom Config Externals
begin

text \<open>
  The LogQL parser, \<open>src/query/logql/parser.rs\<close>, over nom's primitive parsers and the \<open>regex\<close>
  crate as parameters. Text is bytes; the character classes are those of ASCII.
\<close>

section \<open>Expressions\<close>

datatype match_op = LqEq | LqNeq | LqRegex | LqNotRegex

record logql_matcher =
  qm_name :: string
  qm_op :: match_op
  qm_value :: string

datatype logql_compare_op = LqGt | LqGte | LqLt | LqLte

datatype 'r logql_stage =
    LineContains string
  | LineNotContains string
  | LineRegex string 'r
  | LineNotRegex string 'r
  | JsonExtract
  | LogfmtExtract
  | Unwrap string
  | RegexpExtract string 'r
  | LabelFilter string match_op string "'r option"
  | CompareFilter string logql_compare_op f64

datatype metric_func =
  CountOverTime | RateOverTime | BytesOverTime | SumOverTime | AvgOverTime | MinOverTime | MaxOverTime

datatype 'r logql_expr =
    StreamSelector "logql_matcher list"
  | Pipeline "'r logql_expr" "'r logql_stage list"
  | MetricQuery metric_func "'r logql_expr" duration

text \<open>The position in the query and the message.\<close>

datatype logql_parse_error = LogqlParse usize string

section \<open>Error messages\<close>

definition classify_parse_failure :: "string \<Rightarrow> usize \<Rightarrow> string" where
  "classify_parse_failure input pos =
     (let pos = min pos (length input);
          before = trim_end (take pos input)
      in if ends_with before ''='' then ''expected a quoted value after '' @ [CHR 0x27] @ ''='' @ [CHR 0x27]
         else if ends_with before ''{'' \<or> ends_with before '','' then ''expected a label name''
         else if length input \<le> pos
         then (if contains input ''{'' \<and> \<not> contains input ''}''
               then ''expected '' @ [CHR 0x27] @ ''}'' @ [CHR 0x27] @ '' to close the selector''
               else ''unexpected end of query'')
         else ''unexpected input here'')"

definition nom_err_to_human :: "string \<Rightarrow> string \<Rightarrow> usize \<Rightarrow> logql_parse_error" where
  "nom_err_to_human trimmed remaining leading_ws =
     (let pos = length trimmed - length remaining
      in LogqlParse (leading_ws + pos) (classify_parse_failure trimmed pos))"

text \<open>The first \<open>n\<close> characters of UTF-8 text and the rest.\<close>

definition is_continuation :: "char \<Rightarrow> bool" where
  "is_continuation c \<longleftrightarrow> 128 \<le> (of_char c :: nat) \<and> (of_char c :: nat) < 192"

fun split_chars :: "nat \<Rightarrow> string \<Rightarrow> string \<times> string" where
  "split_chars 0 s = ([], s)"
| "split_chars (Suc n) [] = ([], [])"
| "split_chars (Suc n) (c # cs) =
     (let (taken, rest) = split_chars n (dropWhile is_continuation cs)
      in (c # takeWhile is_continuation cs @ taken, rest))"

definition trailing_snippet :: "string \<Rightarrow> string" where
  "trailing_snippet input =
     (let (snippet, rest) = split_chars 30 input
      in if rest \<noteq> [] then snippet @ [CHR 0xE2, CHR 0x80, CHR 0xA6] else snippet)"

section \<open>Tokens\<close>

definition is_field_char :: "char \<Rightarrow> bool" where
  "is_field_char c \<longleftrightarrow> is_alphanumeric c \<or> c = CHR ''_''"

definition is_label_char :: "char \<Rightarrow> bool" where
  "is_label_char c \<longleftrightarrow> is_alphanumeric c \<or> c = CHR ''_'' \<or> c = CHR ''.''"

definition is_keyword_boundary :: "string \<Rightarrow> bool" where
  "is_keyword_boundary rest \<longleftrightarrow> (case rest of [] \<Rightarrow> True | c # _ \<Rightarrow> \<not> is_field_char c)"

definition parse_match_op :: "nom_ops \<Rightarrow> string \<Rightarrow> match_op parsed" where
  "parse_match_op N = one_of_tags N [(''=~'', LqRegex), (''!~'', LqNotRegex), (''!='', LqNeq), (''='', LqEq)]"

text \<open>\<open>cut(parse_quoted_string)\<close>\<close>

definition cut_quoted_string :: "nom_ops \<Rightarrow> string \<Rightarrow> string parsed" where
  "cut_quoted_string N input = parse_cut (parse_quoted_string N input)"

section \<open>Stream selectors\<close>

definition parse_matcher :: "nom_ops \<Rightarrow> string \<Rightarrow> logql_matcher parsed" where
  "parse_matcher N input =
     parse_bind (nm_multispace0 N input) (\<lambda>input _.
     parse_bind (nm_take_while1 N is_label_char input) (\<lambda>input name.
     parse_bind (nm_multispace0 N input) (\<lambda>input _.
     parse_bind (parse_match_op N input) (\<lambda>input op.
     parse_bind (nm_multispace0 N input) (\<lambda>input _.
     parse_map (\<lambda>value. \<lparr>qm_name = name, qm_op = op, qm_value = value\<rparr>) (cut_quoted_string N input))))))"

text \<open>
  nom's \<open>separated_list0\<close>: elements and separators alternate until one of them backtracks; the
  result ends before a separator that no element follows. Each round consumes its separator.
\<close>

fun separated_more :: "(string \<Rightarrow> char parsed) \<Rightarrow> (string \<Rightarrow> 'a parsed) \<Rightarrow> nat \<Rightarrow> string \<Rightarrow> 'a list parsed" where
  "separated_more sep p 0 input = Parsed input []"
| "separated_more sep p (Suc fuel) input =
     (case sep input of
        Parsed rest _ \<Rightarrow>
          (case p rest of
             Parsed rest' v \<Rightarrow>
               if length rest' = length input then Backtrack input KSeparatedList
               else parse_map (Cons v) (separated_more sep p fuel rest')
           | Backtrack _ _ \<Rightarrow> Parsed input []
           | Abort s k \<Rightarrow> Abort s k
           | Crash q \<Rightarrow> Crash q)
      | Backtrack _ _ \<Rightarrow> Parsed input []
      | Abort s k \<Rightarrow> Abort s k
      | Crash q \<Rightarrow> Crash q)"

definition separated_list0 :: "(string \<Rightarrow> char parsed) \<Rightarrow> (string \<Rightarrow> 'a parsed) \<Rightarrow> string \<Rightarrow> 'a list parsed" where
  "separated_list0 sep p input =
     (case p input of
        Parsed rest v \<Rightarrow> parse_map (Cons v) (separated_more sep p (length rest) rest)
      | Backtrack _ _ \<Rightarrow> Parsed input []
      | Abort s k \<Rightarrow> Abort s k
      | Crash q \<Rightarrow> Crash q)"

definition parse_stream_selector :: "nom_ops \<Rightarrow> string \<Rightarrow> 'r logql_expr parsed" where
  "parse_stream_selector N input =
     parse_bind (nm_multispace0 N input) (\<lambda>input _.
     parse_bind (nm_char N (CHR ''{'') input) (\<lambda>input _.
     parse_bind (nm_multispace0 N input) (\<lambda>input _.
     parse_bind (separated_list0 (nm_char N (CHR '','')) (parse_matcher N) input) (\<lambda>input matchers.
     parse_bind (nm_multispace0 N input) (\<lambda>input _.
     parse_bind (nm_char N (CHR ''}'') input) (\<lambda>input _.
       Parsed input (StreamSelector matchers)))))))"

section \<open>Pipeline stages\<close>

text \<open>A tag, spaces, a quoted string: the head of the four line filters.\<close>

definition parse_line_filter :: "nom_ops \<Rightarrow> string \<Rightarrow> string \<Rightarrow> (string \<Rightarrow> string \<Rightarrow> 'a parsed) \<Rightarrow> 'a parsed" where
  "parse_line_filter N t input f =
     parse_bind (nm_tag N t input) (\<lambda>input _.
     parse_bind (nm_multispace0 N input) (\<lambda>input _.
     parse_bind (parse_quoted_string N input) f))"

definition parse_line_contains :: "nom_ops \<Rightarrow> string \<Rightarrow> 'r logql_stage parsed" where
  "parse_line_contains N input =
     parse_line_filter N ''|='' input (\<lambda>input pattern. Parsed input (LineContains pattern))"

definition parse_line_not_contains :: "nom_ops \<Rightarrow> string \<Rightarrow> 'r logql_stage parsed" where
  "parse_line_not_contains N input =
     parse_line_filter N ''!='' input (\<lambda>input pattern. Parsed input (LineNotContains pattern))"

definition parse_line_regex :: "nom_ops \<Rightarrow> 'r regex_ops \<Rightarrow> string \<Rightarrow> 'r logql_stage parsed" where
  "parse_line_regex N X input =
     parse_line_filter N ''|~'' input (\<lambda>input pattern.
       parse_require input KVerify (rx_new X pattern) (\<lambda>input re. Parsed input (LineRegex pattern re)))"

definition parse_line_not_regex :: "nom_ops \<Rightarrow> 'r regex_ops \<Rightarrow> string \<Rightarrow> 'r logql_stage parsed" where
  "parse_line_not_regex N X input =
     parse_line_filter N ''!~'' input (\<lambda>input pattern.
       parse_require input KVerify (rx_new X pattern) (\<lambda>input re. Parsed input (LineNotRegex pattern re)))"

text \<open>A keyword that is not the start of a longer name: the input after it.\<close>

definition parse_keyword :: "nom_ops \<Rightarrow> string \<Rightarrow> string \<Rightarrow> string option" where
  "parse_keyword N k input =
     (case nm_tag N k input of
        Parsed rest _ \<Rightarrow> if is_keyword_boundary rest then Some rest else None
      | _ \<Rightarrow> None)"

definition parse_unwrap :: "nom_ops \<Rightarrow> string \<Rightarrow> 'r logql_stage parsed" where
  "parse_unwrap N rest =
     parse_bind (nm_multispace0 N rest) (\<lambda>rest _.
     parse_map Unwrap (nm_take_while1 N is_field_char rest))"

definition parse_regexp :: "nom_ops \<Rightarrow> 'r regex_ops \<Rightarrow> string \<Rightarrow> 'r logql_stage parsed" where
  "parse_regexp N X rest =
     parse_bind (nm_multispace0 N rest) (\<lambda>rest _.
     parse_bind (cut_quoted_string N rest) (\<lambda>rest pattern.
     parse_require rest KVerify (rx_new X pattern) (\<lambda>rest re. Parsed rest (RegexpExtract pattern re))))"

definition compare_result :: "string \<Rightarrow> (string \<times> logql_compare_op) option" where
  "compare_result s =
     (case strip_prefix ''>='' s of Some rest \<Rightarrow> Some (rest, LqGte)
      | None \<Rightarrow> (case strip_prefix ''<='' s of Some rest \<Rightarrow> Some (rest, LqLte)
        | None \<Rightarrow> (case strip_prefix ''>'' s of Some rest \<Rightarrow> Some (rest, LqGt)
          | None \<Rightarrow> (case strip_prefix ''<'' s of Some rest \<Rightarrow> Some (rest, LqLt) | None \<Rightarrow> None))))"

definition parse_compare_filter :: "nom_ops \<Rightarrow> string \<Rightarrow> logql_compare_op \<Rightarrow> string \<Rightarrow> 'r logql_stage parsed" where
  "parse_compare_filter N key op rest =
     parse_bind (nm_multispace0 N rest) (\<lambda>rest _.
     parse_bind (nm_take_while1 N (\<lambda>c. is_ascii_digit c \<or> c = CHR ''.'' \<or> c = CHR ''-'' \<or> c = CHR ''+'') rest)
       (\<lambda>rest num.
     parse_require rest KVerify (parse_f64 num) (\<lambda>rest v. Parsed rest (CompareFilter key op v))))"

definition parse_string_filter :: "nom_ops \<Rightarrow> 'r regex_ops \<Rightarrow> string \<Rightarrow> string \<Rightarrow> 'r logql_stage parsed" where
  "parse_string_filter N X key input =
     parse_bind (parse_match_op N input) (\<lambda>input op.
     parse_bind (nm_multispace0 N input) (\<lambda>input _.
     parse_bind (cut_quoted_string N input) (\<lambda>input value.
       if op = LqRegex \<or> op = LqNotRegex
       then parse_require input KVerify (rx_new X value) (\<lambda>input re. Parsed input (LabelFilter key op value (Some re)))
       else Parsed input (LabelFilter key op value None))))"

definition parse_label_filter :: "nom_ops \<Rightarrow> 'r regex_ops \<Rightarrow> string \<Rightarrow> 'r logql_stage parsed" where
  "parse_label_filter N X input =
     parse_bind (nm_take_while1 N is_field_char input) (\<lambda>input key.
     parse_bind (nm_multispace0 N input) (\<lambda>input _.
       case compare_result input of
         Some (rest, op) \<Rightarrow> parse_compare_filter N key op rest
       | None \<Rightarrow> parse_string_filter N X key input))"

definition parse_json_or_label_filter :: "nom_ops \<Rightarrow> 'r regex_ops \<Rightarrow> string \<Rightarrow> 'r logql_stage parsed" where
  "parse_json_or_label_filter N X input =
     parse_bind (nm_char N (CHR ''|'') input) (\<lambda>input _.
     parse_bind (nm_multispace0 N input) (\<lambda>input _.
       case parse_keyword N ''json'' input of
         Some rest \<Rightarrow> Parsed rest JsonExtract
       | None \<Rightarrow> (case parse_keyword N ''logfmt'' input of
           Some rest \<Rightarrow> Parsed rest LogfmtExtract
         | None \<Rightarrow> (case parse_keyword N ''unwrap'' input of
             Some rest \<Rightarrow> parse_unwrap N rest
           | None \<Rightarrow> (case parse_keyword N ''regexp'' input of
               Some rest \<Rightarrow> parse_regexp N X rest
             | None \<Rightarrow> parse_label_filter N X input)))))"

definition parse_pipeline_stage :: "nom_ops \<Rightarrow> 'r regex_ops \<Rightarrow> string \<Rightarrow> 'r logql_stage parsed" where
  "parse_pipeline_stage N X =
     parse_alt (parse_line_contains N)
       [parse_line_not_contains N, parse_line_regex N X, parse_line_not_regex N X, parse_json_or_label_filter N X]"

text \<open>
  The stage loop: a stage that fails hard is an error, one that backtracks ends the loop before
  the spaces in front of it. Each round consumes input.
\<close>

fun stage_loop :: "nom_ops \<Rightarrow> 'r regex_ops \<Rightarrow> nat \<Rightarrow> string \<Rightarrow> 'r logql_stage list parsed" where
  "stage_loop N X 0 remaining = Parsed remaining []"
| "stage_loop N X (Suc fuel) remaining =
     (case parse_pipeline_stage N X (trim_start remaining) of
        Parsed rest stage \<Rightarrow> parse_map (Cons stage) (stage_loop N X fuel rest)
      | Abort s k \<Rightarrow> Abort s k
      | Crash p \<Rightarrow> Crash p
      | Backtrack _ _ \<Rightarrow> Parsed remaining [])"

definition parse_pipeline_or_selector :: "nom_ops \<Rightarrow> 'r regex_ops \<Rightarrow> string \<Rightarrow> 'r logql_expr parsed" where
  "parse_pipeline_or_selector N X input =
     parse_bind (parse_stream_selector N input) (\<lambda>input selector.
     parse_bind (nm_multispace0 N input) (\<lambda>input _.
     parse_map (\<lambda>stages. if stages = [] then selector else Pipeline selector stages)
       (stage_loop N X (length input) input)))"

section \<open>Metric queries\<close>

definition parse_range :: "nom_ops \<Rightarrow> string \<Rightarrow> duration parsed" where
  "parse_range N input =
     parse_bind (nm_char N (CHR ''['') input) (\<lambda>input _.
     parse_bind (nm_take_while1 N is_alphanumeric input) (\<lambda>input dur_str.
     parse_bind (nm_char N (CHR '']'') input) (\<lambda>input _.
       case parse_duration dur_str of
         Inl p \<Rightarrow> Crash p
       | Inr d \<Rightarrow> parse_require input KFail d (\<lambda>input d. Parsed input d))))"

definition parse_metric_func :: "nom_ops \<Rightarrow> string \<Rightarrow> metric_func parsed" where
  "parse_metric_func N = one_of_tags N
     [(''count_over_time'', CountOverTime), (''bytes_over_time'', BytesOverTime), (''sum_over_time'', SumOverTime),
      (''avg_over_time'', AvgOverTime), (''min_over_time'', MinOverTime), (''max_over_time'', MaxOverTime),
      (''rate'', RateOverTime)]"

definition parse_metric_query :: "nom_ops \<Rightarrow> 'r regex_ops \<Rightarrow> string \<Rightarrow> 'r logql_expr parsed" where
  "parse_metric_query N X input =
     parse_bind (parse_metric_func N input) (\<lambda>input func.
     parse_bind (nm_char N (CHR ''('') input) (\<lambda>input _.
     parse_bind (nm_multispace0 N input) (\<lambda>input _.
     parse_bind (parse_pipeline_or_selector N X input) (\<lambda>input inner.
     parse_bind (nm_multispace0 N input) (\<lambda>input _.
     parse_bind (parse_range N input) (\<lambda>input range.
     parse_bind (nm_multispace0 N input) (\<lambda>input _.
     parse_bind (nm_char N (CHR '')'') input) (\<lambda>input _.
       Parsed input (MetricQuery func inner range)))))))))"

section \<open>Whole queries\<close>

text \<open>What both attempts do with the input left after a complete expression.\<close>

definition accept_all :: "usize \<Rightarrow> string \<Rightarrow> string \<Rightarrow> 'r logql_expr \<Rightarrow> logql_parse_error + 'r logql_expr" where
  "accept_all leading_ws trimmed remaining expr =
     (let rest = trim_start remaining
      in if rest = [] then Inr expr
         else Inl (LogqlParse (leading_ws + (length trimmed - length rest))
                    (''unexpected trailing input: '' @ trailing_snippet rest)))"

definition parse_logql ::
  "nom_ops \<Rightarrow> 'r regex_ops \<Rightarrow> string \<Rightarrow> panic + (logql_parse_error + 'r logql_expr)" where
  "parse_logql N X input =
     (let leading_ws = length input - length (trim_start input);
          trimmed = trim input
      in case parse_metric_query N X trimmed of
           Parsed remaining expr \<Rightarrow> Inr (accept_all leading_ws trimmed remaining expr)
         | Crash p \<Rightarrow> Inl p
         | _ \<Rightarrow>
             (case parse_pipeline_or_selector N X trimmed of
                Parsed remaining expr \<Rightarrow> Inr (accept_all leading_ws trimmed remaining expr)
              | Crash p \<Rightarrow> Inl p
              | Backtrack s k \<Rightarrow> Inr (Inl (nom_err_to_human trimmed s leading_ws))
              | Abort s k \<Rightarrow> Inr (Inl (nom_err_to_human trimmed s leading_ws))))"

end
