(* ===== verification/Logql_Parser_Correct.thy ===== *)
theory Logql_Parser_Correct
  imports Logql_Parser Query_Text
begin

text \<open>
  Correctness of the LogQL parser: it inverts a printer of the query language, its loops never run
  out of fuel, and the duration syntax it shares with the configuration stays within the range of a
  \<open>Duration\<close> except at one value, where it panics.
\<close>

section \<open>Printing\<close>

definition show_match_op :: "match_op \<Rightarrow> string" where
  "show_match_op op = (case op of LqEq \<Rightarrow> ''='' | LqNeq \<Rightarrow> ''!='' | LqRegex \<Rightarrow> ''=~'' | LqNotRegex \<Rightarrow> ''!~'')"

definition show_matcher :: "logql_matcher \<Rightarrow> string" where
  "show_matcher m = qm_name m @ show_match_op (qm_op m) @ quote (qm_value m)"

definition show_matchers :: "logql_matcher list \<Rightarrow> string" where
  "show_matchers ms = concat (map (\<lambda>m. CHR '','' # show_matcher m) ms)"

definition show_stream_selector :: "logql_matcher list \<Rightarrow> string" where
  "show_stream_selector ms = CHR ''{'' # (case ms of [] \<Rightarrow> [] | m # others \<Rightarrow> show_matcher m @ show_matchers others) @ ''}''"

definition show_compare :: "logql_compare_op \<Rightarrow> string" where
  "show_compare op = (case op of LqGt \<Rightarrow> ''>'' | LqGte \<Rightarrow> ''>='' | LqLt \<Rightarrow> ''<'' | LqLte \<Rightarrow> ''<='')"

text \<open>Comparison values are printed as naturals; \<open>nat_f64\<close> is the float such a numeral denotes.\<close>

definition nat_f64 :: "nat \<Rightarrow> f64" where
  "nat_f64 n = f64_round False (n * f64_one_units) 1"

datatype 'r printable_stage = Plain "'r logql_stage" | Compared string logql_compare_op nat

fun stage_of :: "'r printable_stage \<Rightarrow> 'r logql_stage" where
  "stage_of (Plain st) = st"
| "stage_of (Compared k op n) = CompareFilter k op (nat_f64 n)"

fun show_log_stage :: "'r printable_stage \<Rightarrow> string" where
  "show_log_stage (Plain (LineContains s)) = ''|='' @ quote s"
| "show_log_stage (Plain (LineNotContains s)) = ''!='' @ quote s"
| "show_log_stage (Plain (LineRegex s r)) = ''|~'' @ quote s"
| "show_log_stage (Plain (LineNotRegex s r)) = ''!~'' @ quote s"
| "show_log_stage (Plain JsonExtract) = ''|json''"
| "show_log_stage (Plain LogfmtExtract) = ''|logfmt''"
| "show_log_stage (Plain (Unwrap f)) = ''|unwrap '' @ f"
| "show_log_stage (Plain (RegexpExtract s r)) = ''|regexp'' @ quote s"
| "show_log_stage (Plain (LabelFilter k op v re)) = CHR ''|'' # k @ show_match_op op @ quote v"
| "show_log_stage (Plain (CompareFilter k op v)) = []"
| "show_log_stage (Compared k op n) = CHR ''|'' # k @ show_compare op @ nat_to_string n"

definition show_log_stages :: "'r printable_stage list \<Rightarrow> string" where
  "show_log_stages sts = concat (map show_log_stage sts)"

definition show_metric_func :: "metric_func \<Rightarrow> string" where
  "show_metric_func f = (case f of CountOverTime \<Rightarrow> ''count_over_time'' | RateOverTime \<Rightarrow> ''rate''
     | BytesOverTime \<Rightarrow> ''bytes_over_time'' | SumOverTime \<Rightarrow> ''sum_over_time'' | AvgOverTime \<Rightarrow> ''avg_over_time''
     | MinOverTime \<Rightarrow> ''min_over_time'' | MaxOverTime \<Rightarrow> ''max_over_time'')"

text \<open>A log query is a selector and stages; a metric query applies a function to one over a range in milliseconds.\<close>

definition show_log_query :: "logql_matcher list \<Rightarrow> 'r printable_stage list \<Rightarrow> string" where
  "show_log_query ms sts = show_stream_selector ms @ show_log_stages sts"

definition show_metric_query :: "metric_func \<Rightarrow> logql_matcher list \<Rightarrow> 'r printable_stage list \<Rightarrow> nat \<Rightarrow> string" where
  "show_metric_query f ms sts n =
     show_metric_func f @ ''('' @ show_log_query ms sts @ ''['' @ nat_to_string n @ ''ms])''"

definition log_query :: "logql_matcher list \<Rightarrow> 'r printable_stage list \<Rightarrow> 'r logql_expr" where
  "log_query ms sts = (if sts = [] then StreamSelector ms else Pipeline (StreamSelector ms) (map stage_of sts))"

definition matcher_ok :: "logql_matcher \<Rightarrow> bool" where
  "matcher_ok m \<longleftrightarrow> qm_name m \<noteq> [] \<and> list_all is_label_char (qm_name m)"

definition field_ok :: "string \<Rightarrow> bool" where
  "field_ok k \<longleftrightarrow> k \<noteq> [] \<and> list_all is_field_char k"

definition key_ok :: "string \<Rightarrow> bool" where
  "key_ok k \<longleftrightarrow> field_ok k \<and> k \<notin> {''json'', ''logfmt'', ''unwrap'', ''regexp''}"

fun log_stage_ok :: "'r regex_ops \<Rightarrow> 'r printable_stage \<Rightarrow> bool" where
  "log_stage_ok X (Plain (LineRegex s r)) \<longleftrightarrow> rx_new X s = Some r"
| "log_stage_ok X (Plain (LineNotRegex s r)) \<longleftrightarrow> rx_new X s = Some r"
| "log_stage_ok X (Plain (Unwrap f)) \<longleftrightarrow> field_ok f"
| "log_stage_ok X (Plain (RegexpExtract s r)) \<longleftrightarrow> rx_new X s = Some r"
| "log_stage_ok X (Plain (LabelFilter k op v re)) \<longleftrightarrow> key_ok k \<and>
     (if op = LqRegex \<or> op = LqNotRegex then re \<noteq> None \<and> rx_new X v = re else re = None)"
| "log_stage_ok X (Plain (CompareFilter k op v)) \<longleftrightarrow> False"
| "log_stage_ok X (Compared k op n) \<longleftrightarrow> key_ok k"
| "log_stage_ok X _ \<longleftrightarrow> True"

section \<open>Selectors\<close>

lemmas log_chars = is_label_char_def is_field_char_def is_alphanumeric_def is_alpha_def is_ascii_digit_def

lemma quote_start: "quote s @ rest = CHR 0x22 # concat (map escape_char s) @ CHR 0x22 # rest"
  by (simp add: quote_def)

lemma quote_not_space [simp]: "dropWhile is_multispace (quote s @ rest) = quote s @ rest"
  by (simp add: quote_start is_multispace_def)

lemma cut_quoted_show: "nom_laws N \<Longrightarrow> cut_quoted_string N (quote s @ rest) = Parsed rest s"
  by (simp add: cut_quoted_string_def parse_quoted_string_quote)

lemma match_op_show:
  assumes "nom_laws N"
  shows "parse_match_op N (show_match_op op @ quote s @ rest) = Parsed (quote s @ rest) op"
  unfolding quote_start
  by (cases op) (simp_all add: parse_match_op_def show_match_op_def nom_laws_rewrites [OF assms] doc_tag_def)

lemma match_op_start:
  "\<exists>c cs. show_match_op op @ s = c # cs \<and> \<not> is_multispace c \<and> \<not> is_label_char c \<and> \<not> is_field_char c"
  by (cases op) (simp_all add: show_match_op_def log_chars is_multispace_def)

lemma match_op_skip [simp]: "dropWhile is_multispace (show_match_op op @ s) = show_match_op op @ s"
  using match_op_start [of op s] by auto

lemma label_not_space: "is_label_char c \<Longrightarrow> \<not> is_multispace c"
  by (auto simp: log_chars is_multispace_def)

lemma parse_matcher_show:
  assumes N: "nom_laws N" and "matcher_ok m"
  shows "parse_matcher N (show_matcher m @ rest) = Parsed rest m"
proof -
  let ?tail = "show_match_op (qm_op m) @ quote (qm_value m) @ rest"
  have name: "qm_name m \<noteq> []" "list_all is_label_char (qm_name m)" using assms(2) by (simp_all add: matcher_ok_def)
  then obtain c cs where c: "qm_name m = c # cs" "is_label_char c" by (cases "qm_name m") auto
  obtain d ds where d: "?tail = d # ds" "\<not> is_label_char d" using match_op_start by blast
  then have stop: "?tail = [] \<or> \<not> is_label_char (hd ?tail)" by simp
  note T = takeWhile_name [OF name(2) stop]
  have "dropWhile is_multispace (qm_name m @ ?tail) = qm_name m @ ?tail"
    using c label_not_space by simp
  with T name(1) show ?thesis
    by (simp add: parse_matcher_def show_matcher_def nom_laws_rewrites [OF N] doc_take_while1_def
        match_op_show [OF N] cut_quoted_show [OF N])
qed

lemma parse_matcher_brace:
  assumes "nom_laws N"
  shows "parse_matcher N (CHR ''}'' # rest) = Backtrack (CHR ''}'' # rest) KTakeWhile1"
  by (simp add: parse_matcher_def nom_laws_rewrites [OF assms] doc_take_while1_def log_chars is_multispace_def)

lemma show_matchers_Cons: "show_matchers (m # ms) = CHR '','' # show_matcher m @ show_matchers ms"
  by (simp add: show_matchers_def)

lemma separated_show:
  assumes N: "nom_laws N" and "list_all matcher_ok ms" and "length ms \<le> fuel"
  shows "separated_more (nm_char N (CHR '','')) (parse_matcher N) fuel (show_matchers ms @ CHR ''}'' # rest) =
    Parsed (CHR ''}'' # rest) ms"
  using assms(2,3)
proof (induction ms arbitrary: fuel)
  case Nil
  then show ?case by (cases fuel) (simp_all add: show_matchers_def nom_laws_rewrites [OF N] doc_char_def)
next
  case (Cons m ms)
  then obtain f where f: "fuel = Suc f" by (cases fuel) auto
  have "separated_more (nm_char N (CHR '','')) (parse_matcher N) f (show_matchers ms @ CHR ''}'' # rest) =
      Parsed (CHR ''}'' # rest) ms"
    using Cons f by simp
  moreover have "parse_matcher N (show_matcher m @ show_matchers ms @ CHR ''}'' # rest) =
      Parsed (show_matchers ms @ CHR ''}'' # rest) m"
    by (rule parse_matcher_show [OF N]) (use Cons.prems in simp)
  moreover have "nm_char N (CHR '','') (CHR '','' # r) = Parsed r (CHR '','')" for r
    by (simp add: nom_laws_rewrites [OF N] doc_char_def)
  ultimately show ?case by (simp add: f show_matchers_Cons)
qed

lemma show_matcher_length: "length ms \<le> length (show_matchers ms)"
  by (induction ms) (simp_all add: show_matchers_def)

lemma parse_stream_selector_show:
  assumes N: "nom_laws N" and ok: "list_all matcher_ok ms"
  shows "parse_stream_selector N (show_stream_selector ms @ rest) = Parsed rest (StreamSelector ms)"
proof (cases ms)
  case Nil
  then show ?thesis
    by (simp add: parse_stream_selector_def show_stream_selector_def separated_list0_def parse_matcher_brace [OF N]
        nom_laws_rewrites [OF N] doc_char_def is_multispace_def)
next
  case (Cons m others)
  have "length others \<le> length (show_matchers others @ CHR ''}'' # rest)" using show_matcher_length [of others] by simp
  note sep = separated_show [OF N _ this, of rest]
  have m: "parse_matcher N (show_matcher m @ show_matchers others @ CHR ''}'' # rest) =
      Parsed (show_matchers others @ CHR ''}'' # rest) m"
    by (rule parse_matcher_show [OF N]) (use ok Cons in simp)
  obtain c cs where "show_matcher m = c # cs" "is_label_char c"
    using ok Cons by (cases "qm_name m") (auto simp: matcher_ok_def show_matcher_def)
  then have "dropWhile is_multispace (show_matcher m @ show_matchers others @ CHR ''}'' # rest) =
      show_matcher m @ show_matchers others @ CHR ''}'' # rest"
    using label_not_space by simp
  with m sep ok show ?thesis
    by (simp add: Cons parse_stream_selector_def show_stream_selector_def separated_list0_def
        nom_laws_rewrites [OF N] doc_char_def is_multispace_def)
qed

section \<open>Stages\<close>

text \<open>What follows a stage: the end, another stage or a range.\<close>

definition log_stage_end :: "string \<Rightarrow> bool" where
  "log_stage_end rest \<longleftrightarrow> rest = [] \<or> hd rest = CHR ''|'' \<or> hd rest = CHR ''!'' \<or> hd rest = CHR ''[''"

lemma log_stage_end_cases:
  assumes "log_stage_end rest"
  obtains "rest = []" | r where "rest = CHR ''|'' # r" | r where "rest = CHR ''!'' # r"
    | r where "rest = CHR ''['' # r"
  using assms unfolding log_stage_end_def by (cases rest) auto

lemma keyword_show:
  assumes N: "nom_laws N" and "log_stage_end rest"
  shows "parse_keyword N k (k @ rest) = Some rest"
  using assms(2) strip_prefix_append [of k "[]"]
  by (cases rule: log_stage_end_cases)
    (simp_all add: parse_keyword_def nom_laws_rewrites [OF N] doc_tag_def is_keyword_boundary_def log_chars)

lemma keyword_other:
  assumes N: "nom_laws N" and "list_all is_field_char k" and "list_all is_field_char key" and "key \<noteq> k"
    and "tail = [] \<or> \<not> is_field_char (hd tail)"
  shows "parse_keyword N k (key @ tail) = None"
proof (cases "strip_prefix k (key @ tail)")
  case None
  then show ?thesis by (simp add: parse_keyword_def nom_laws_rewrites [OF N] doc_tag_def)
next
  case (Some rest)
  then have eq: "key @ tail = k @ rest" by (simp add: strip_prefix_Some)
  have "\<not> is_keyword_boundary rest"
  proof
    assume "is_keyword_boundary rest"
    then have "rest = [] \<or> \<not> is_field_char (hd rest)" by (cases rest) (simp_all add: is_keyword_boundary_def)
    with takeWhile_name(1) [OF assms(2) this] takeWhile_name(1) [OF assms(3,5)] eq assms(4) show False by simp
  qed
  with Some show ?thesis by (simp add: parse_keyword_def nom_laws_rewrites [OF N] doc_tag_def)
qed

lemma keywords_other:
  assumes "nom_laws N" and "key_ok key" and "tail = [] \<or> \<not> is_field_char (hd tail)"
  shows "parse_keyword N ''json'' (key @ tail) = None" "parse_keyword N ''logfmt'' (key @ tail) = None"
    "parse_keyword N ''unwrap'' (key @ tail) = None" "parse_keyword N ''regexp'' (key @ tail) = None"
  using assms(2) by (auto intro!: keyword_other [OF assms(1)] assms(3) simp: key_ok_def field_ok_def) (simp_all add: log_chars)

lemma field_start:
  assumes "field_ok k"
  obtains c cs where "k = c # cs" "is_field_char c" "\<not> is_multispace c" "c \<noteq> CHR ''='' \<and> c \<noteq> CHR ''~''"
proof -
  obtain c cs where c: "k = c # cs" "is_field_char c" using assms by (cases k) (auto simp: field_ok_def)
  then have "\<not> is_multispace c" "c \<noteq> CHR ''='' \<and> c \<noteq> CHR ''~''" by (auto simp: log_chars is_multispace_def)
  with c that show thesis by blast
qed

lemma parse_unwrap_show:
  assumes N: "nom_laws N" and f: "field_ok f" and e: "log_stage_end rest"
  shows "parse_unwrap N (CHR '' '' # f @ rest) = Parsed rest (Unwrap f)"
proof -
  obtain c cs where "f = c # cs" "\<not> is_multispace c" using field_start [OF f] by metis
  then have "dropWhile is_multispace (CHR '' '' # f @ rest) = f @ rest" by (simp add: is_multispace_def [of "CHR '' ''"])
  moreover have "rest = [] \<or> \<not> is_field_char (hd rest)"
    using e by (cases rule: log_stage_end_cases) (simp_all add: log_chars)
  ultimately show ?thesis
    using f takeWhile_name [of is_field_char f rest]
    by (simp add: parse_unwrap_def nom_laws_rewrites [OF N] doc_take_while1_def field_ok_def)
qed

lemma label_filter_show:
  assumes N: "nom_laws N" and k: "key_ok k"
    and re: "if op = LqRegex \<or> op = LqNotRegex then re \<noteq> None \<and> rx_new X v = re else re = None"
  shows "parse_label_filter N X (k @ show_match_op op @ quote v @ rest) = Parsed rest (LabelFilter k op v re)"
proof -
  let ?tail = "show_match_op op @ quote v @ rest"
  have f: "k \<noteq> []" "list_all is_field_char k" using k by (simp_all add: key_ok_def field_ok_def)
  obtain d ds where "?tail = d # ds" "\<not> is_field_char d" using match_op_start by blast
  then have stop: "?tail = [] \<or> \<not> is_field_char (hd ?tail)" by simp
  have none: "compare_result ?tail = None"
    unfolding quote_start by (cases op) (simp_all add: compare_result_def show_match_op_def)
  have str: "parse_string_filter N X k ?tail = Parsed rest (LabelFilter k op v re)"
    using re by (auto simp: parse_string_filter_def match_op_show [OF N] nom_laws_rewrites(3) [OF N] cut_quoted_show [OF N])
  from f takeWhile_name [OF f(2) stop] show ?thesis
    by (simp add: parse_label_filter_def nom_laws_rewrites [OF N] doc_take_while1_def none str)
qed

lemma compare_filter_show:
  assumes N: "nom_laws N" and k: "key_ok k" and e: "log_stage_end rest"
  shows "parse_label_filter N X (k @ show_compare op @ nat_to_string n @ rest) =
    Parsed rest (CompareFilter k op (nat_f64 n))"
proof -
  let ?num = "nat_to_string n @ rest"
  let ?tail = "show_compare op @ ?num"
  obtain c cs where c: "nat_to_string n = c # cs" by (cases "nat_to_string n") simp_all
  have digit: "c \<noteq> CHR ''=''" "\<not> is_multispace c"
    using nat_to_string_hd [OF c] by (auto simp: is_ascii_digit_def is_multispace_def)
  have f: "k \<noteq> []" "list_all is_field_char k" using k by (simp_all add: key_ok_def field_ok_def)
  have head: "\<exists>d ds. ?tail = d # ds \<and> \<not> is_field_char d \<and> \<not> is_multispace d"
    by (cases op) (simp_all add: show_compare_def log_chars is_multispace_def)
  then have stop: "?tail = [] \<or> \<not> is_field_char (hd ?tail)" and skip: "dropWhile is_multispace ?tail = ?tail" by auto
  have cmp: "compare_result ?tail = Some (?num, op)"
    using digit by (cases op) (simp_all add: compare_result_def show_compare_def c)
  let ?P = "\<lambda>c. is_ascii_digit c \<or> c = CHR ''.'' \<or> c = CHR ''-'' \<or> c = CHR ''+''"
  have "takeWhile ?P ?num = nat_to_string n \<and> dropWhile ?P ?num = rest"
    using e by (intro takeWhile_digits_append) (auto simp: log_stage_end_def is_ascii_digit_def)
  moreover have "dropWhile is_multispace ?num = ?num" using digit by (simp add: c)
  ultimately have "parse_compare_filter N k op ?num = Parsed rest (CompareFilter k op (nat_f64 n))"
    by (simp add: parse_compare_filter_def nom_laws_rewrites [OF N] doc_take_while1_def parse_f64_nat nat_f64_def)
  with f takeWhile_name [OF f(2) stop] show ?thesis
    by (simp add: parse_label_filter_def nom_laws_rewrites [OF N] doc_take_while1_def skip cmp)
qed

lemma line_filter_show:
  assumes "nom_laws N" and "t \<noteq> []"
  shows "parse_line_filter N t (t @ quote s @ rest) f = f rest s"
  using assms(2)
  by (simp add: parse_line_filter_def nom_laws_rewrites [OF assms(1)] doc_tag_def parse_quoted_string_quote [OF assms(1)])

lemma line_filter_other:
  assumes "nom_laws N" and "strip_prefix t s = None"
  shows "parse_line_filter N t s f = Backtrack s KTag"
  using assms(2) by (simp add: parse_line_filter_def nom_laws_rewrites [OF assms(1)] doc_tag_def)

text \<open>A stage after a bar that is not followed by \<open>=\<close> or \<open>~\<close> reaches the last alternative.\<close>

lemma bar_stage:
  fixes X :: "'r regex_ops"
  assumes N: "nom_laws N" and "s = c # cs" and "c \<noteq> CHR ''='' \<and> c \<noteq> CHR ''~''"
  shows "parse_pipeline_stage N X (CHR ''|'' # s) = parse_json_or_label_filter N X (CHR ''|'' # s)"
proof -
  have "parse_line_contains N (CHR ''|'' # s) = (Backtrack (CHR ''|'' # s) KTag :: 'r logql_stage parsed)"
    "parse_line_not_contains N (CHR ''|'' # s) = (Backtrack (CHR ''|'' # s) KTag :: 'r logql_stage parsed)"
    "parse_line_regex N X (CHR ''|'' # s) = Backtrack (CHR ''|'' # s) KTag"
    "parse_line_not_regex N X (CHR ''|'' # s) = Backtrack (CHR ''|'' # s) KTag"
    unfolding parse_line_contains_def parse_line_not_contains_def parse_line_regex_def parse_line_not_regex_def
    by (rule line_filter_other [OF N], use assms(2,3) in auto)+
  then show ?thesis by (simp add: parse_pipeline_stage_def)
qed

lemma bar_inside:
  assumes N: "nom_laws N" and "s = c # cs" and "\<not> is_multispace c"
  shows "nm_char N (CHR ''|'') (CHR ''|'' # s) = Parsed s (CHR ''|'') \<and>
    nm_multispace0 N s = Parsed s []"
  using assms(2,3) by (simp add: nom_laws_rewrites [OF N] doc_char_def)

lemma keyword_stage:
  assumes N: "nom_laws N" and "s = c # cs" and "is_field_char c"
  shows "parse_pipeline_stage N X (CHR ''|'' # s) =
    (case parse_keyword N ''json'' s of
         Some rest \<Rightarrow> Parsed rest JsonExtract
       | None \<Rightarrow> (case parse_keyword N ''logfmt'' s of
           Some rest \<Rightarrow> Parsed rest LogfmtExtract
         | None \<Rightarrow> (case parse_keyword N ''unwrap'' s of
             Some rest \<Rightarrow> parse_unwrap N rest
           | None \<Rightarrow> (case parse_keyword N ''regexp'' s of
               Some rest \<Rightarrow> parse_regexp N X rest
             | None \<Rightarrow> parse_label_filter N X s))))"
proof -
  have c: "\<not> is_multispace c" "c \<noteq> CHR ''='' \<and> c \<noteq> CHR ''~''"
    using assms(3) by (auto simp: log_chars is_multispace_def)
  note B = bar_inside [OF N assms(2) c(1)]
  show ?thesis
    unfolding bar_stage [OF N assms(2) c(2)] parse_json_or_label_filter_def
      B [THEN conjunct1] B [THEN conjunct2] parse_bind.simps ..
qed

lemma keyword_stage_show:
  assumes N: "nom_laws N" and e: "log_stage_end rest"
  shows "parse_pipeline_stage N X (''|json'' @ rest) = Parsed rest JsonExtract"
    "parse_pipeline_stage N X (''|logfmt'' @ rest) = Parsed rest LogfmtExtract"
    "field_ok f \<Longrightarrow> parse_pipeline_stage N X (''|unwrap '' @ f @ rest) = Parsed rest (Unwrap f)"
    "rx_new X p = Some r \<Longrightarrow> parse_pipeline_stage N X (''|regexp'' @ quote p @ rest) = Parsed rest (RegexpExtract p r)"
proof -
  have kw: "parse_keyword N k (k @ rest) = Some rest" for k by (rule keyword_show [OF N e])
  have other: "parse_keyword N k (j @ tail) = None"
    if "list_all is_field_char k" "list_all is_field_char j" "j \<noteq> k" "tail = [] \<or> \<not> is_field_char (hd tail)" for k j tail
    by (rule keyword_other [OF N that])
  have stop: "rest = [] \<or> \<not> is_field_char (hd rest)"
    using e by (cases rule: log_stage_end_cases) (simp_all add: log_chars)
  have fc: "list_all is_field_char ''json''" "list_all is_field_char ''logfmt''" "list_all is_field_char ''unwrap''"
    "list_all is_field_char ''regexp''" by (simp_all add: log_chars)
  show "parse_pipeline_stage N X (''|json'' @ rest) = Parsed rest JsonExtract"
    using kw [of "''json''"] by (simp add: keyword_stage [OF N refl] log_chars)
  show "parse_pipeline_stage N X (''|logfmt'' @ rest) = Parsed rest LogfmtExtract"
    using kw [of "''logfmt''"] other [OF fc(1) fc(2) _ stop] by (simp add: keyword_stage [OF N refl] log_chars)
  show "parse_pipeline_stage N X (''|unwrap '' @ f @ rest) = Parsed rest (Unwrap f)" if f: "field_ok f"
  proof -
    let ?t = "CHR '' '' # f @ rest"
    have t: "?t = [] \<or> \<not> is_field_char (hd ?t)" by (simp add: log_chars)
    have "parse_keyword N ''unwrap'' (''unwrap'' @ ?t) = Some ?t"
      using strip_prefix_append [of "''unwrap''" ?t]
      by (simp add: parse_keyword_def nom_laws_rewrites [OF N] doc_tag_def is_keyword_boundary_def log_chars)
    then show ?thesis
      using other [OF fc(1) fc(3) _ t] other [OF fc(2) fc(3) _ t]
      by (simp add: keyword_stage [OF N refl] parse_unwrap_show [OF N f e] log_chars)
  qed
  show "parse_pipeline_stage N X (''|regexp'' @ quote p @ rest) = Parsed rest (RegexpExtract p r)" if "rx_new X p = Some r"
  proof -
    let ?t = "quote p @ rest"
    have t: "?t = [] \<or> \<not> is_field_char (hd ?t)" by (simp add: quote_start log_chars)
    have "parse_keyword N ''regexp'' (''regexp'' @ ?t) = Some ?t"
      using strip_prefix_append [of "''regexp''" ?t]
      by (simp add: parse_keyword_def nom_laws_rewrites [OF N] doc_tag_def is_keyword_boundary_def quote_start log_chars)
    moreover have "parse_regexp N X ?t = Parsed rest (RegexpExtract p r)"
      using that by (simp add: parse_regexp_def nom_laws_rewrites(3) [OF N] cut_quoted_show [OF N])
    ultimately show ?thesis
      using other [OF fc(1) fc(4) _ t] other [OF fc(2) fc(4) _ t] other [OF fc(3) fc(4) _ t]
      by (simp add: keyword_stage [OF N refl] log_chars)
  qed
qed

lemma filter_stage_show:
  assumes N: "nom_laws N" and k: "key_ok k" and tail: "tail = [] \<or> \<not> is_field_char (hd tail)"
  shows "parse_pipeline_stage N X (CHR ''|'' # k @ tail) = parse_label_filter N X (k @ tail)"
proof -
  obtain c cs where c: "k = c # cs" "is_field_char c"
    using k field_start [of k] unfolding key_ok_def by metis
  then have s: "k @ tail = c # (cs @ tail)" by simp
  show ?thesis
    unfolding keyword_stage [OF N s c(2)] keywords_other [OF N k tail] option.case ..
qed

lemma parse_stage_show:
  assumes N: "nom_laws N" and ok: "log_stage_ok X st" and e: "log_stage_end rest"
  shows "parse_pipeline_stage N X (show_log_stage st @ rest) = Parsed rest (stage_of st)"
proof (cases st)
  case (Compared k op n)
  have "parse_pipeline_stage N X (CHR ''|'' # k @ show_compare op @ nat_to_string n @ rest) =
      parse_label_filter N X (k @ show_compare op @ nat_to_string n @ rest)"
    by (rule filter_stage_show [OF N]) (use ok Compared in \<open>cases op; simp add: show_compare_def log_chars\<close>)+
  with Compared ok compare_filter_show [OF N _ e] show ?thesis by simp
next
  case (Plain st')
  note line_show = line_filter_show [OF N, of "''|=''", simplified] line_filter_show [OF N, of "''!=''", simplified]
    line_filter_show [OF N, of "''|~''", simplified] line_filter_show [OF N, of "''!~''", simplified]
  show ?thesis
  proof (cases st')
    case (LabelFilter k op v re)
    have "parse_pipeline_stage N X (CHR ''|'' # k @ show_match_op op @ quote v @ rest) =
        parse_label_filter N X (k @ show_match_op op @ quote v @ rest)"
      by (rule filter_stage_show [OF N])
        (use ok Plain LabelFilter in \<open>cases op; simp add: show_match_op_def log_chars\<close>)+
    with Plain LabelFilter ok label_filter_show [OF N, of k op re X v rest] show ?thesis by simp
  next
    case (LineContains s)
    then show ?thesis
      by (simp add: Plain parse_pipeline_stage_def parse_line_contains_def line_show)
  next
    case (LineNotContains s)
    then show ?thesis
      by (simp add: Plain parse_pipeline_stage_def parse_line_contains_def parse_line_not_contains_def line_filter_other [OF N] line_show)
  next
    case (LineRegex s r)
    with ok Plain show ?thesis
      by (simp add: parse_pipeline_stage_def parse_line_contains_def parse_line_not_contains_def
          parse_line_regex_def line_filter_other [OF N] line_show)
  next
    case (LineNotRegex s r)
    with ok Plain show ?thesis
      by (simp add: parse_pipeline_stage_def parse_line_contains_def parse_line_not_contains_def
          parse_line_regex_def parse_line_not_regex_def line_filter_other [OF N] line_show)
  qed (use ok Plain keyword_stage_show [OF N e] in simp_all)
qed

lemma stage_start:
  assumes "log_stage_ok X st"
  shows "\<exists>c cs. show_log_stage st = c # cs \<and> (c = CHR ''|'' \<or> c = CHR ''!'')"
  using assms by (cases st rule: show_log_stage.cases) auto

lemma stages_end:
  assumes "list_all (log_stage_ok X) sts" and "log_stage_end rest"
  shows "log_stage_end (show_log_stages sts @ rest)"
  using assms stage_start [of X "hd sts"] by (cases sts) (auto simp: show_log_stages_def log_stage_end_def)

lemma stage_end_no_space:
  assumes "log_stage_end rest"
  shows "trim_start rest = rest" "dropWhile is_multispace rest = rest"
  using assms by (cases rule: log_stage_end_cases; simp add: trim_start_def is_whitespace_def is_multispace_def)+

text \<open>After the last stage comes the end of the query or a range.\<close>

definition query_end :: "string \<Rightarrow> bool" where
  "query_end rest \<longleftrightarrow> rest = [] \<or> hd rest = CHR ''[''"

lemma query_end_stage: "query_end rest \<Longrightarrow> log_stage_end rest"
  by (auto simp: query_end_def log_stage_end_def)

lemma no_stage:
  assumes N: "nom_laws N" and "query_end rest"
  shows "\<exists>s k. parse_pipeline_stage N X rest = Backtrack s k"
proof -
  from assms(2) consider "rest = []" | r where "rest = CHR ''['' # r" by (cases rest) (auto simp: query_end_def)
  then show ?thesis
    by cases (simp_all add: parse_pipeline_stage_def parse_line_contains_def parse_line_not_contains_def
        parse_line_regex_def parse_line_not_regex_def line_filter_other [OF N] parse_json_or_label_filter_def
        nom_laws_rewrites [OF N] doc_char_def)
qed

lemma stage_loop_show:
  assumes N: "nom_laws N" and "list_all (log_stage_ok X) sts" and "query_end rest" and "length sts \<le> fuel"
  shows "stage_loop N X fuel (show_log_stages sts @ rest) = Parsed rest (map stage_of sts)"
  using assms(2,4)
proof (induction sts arbitrary: fuel)
  case Nil
  obtain s k where "parse_pipeline_stage N X rest = Backtrack s k" using no_stage [OF N assms(3)] by blast
  then show ?case
    by (cases fuel) (simp_all add: show_log_stages_def stage_end_no_space [OF query_end_stage [OF assms(3)]])
next
  case (Cons st sts)
  obtain f where f: "fuel = Suc f" using Cons.prems(2) by (cases fuel) auto
  have s: "show_log_stages (st # sts) @ rest = show_log_stage st @ show_log_stages sts @ rest"
    by (simp add: show_log_stages_def)
  have e: "log_stage_end (show_log_stages sts @ rest)" "log_stage_end (show_log_stages (st # sts) @ rest)"
    by (rule stages_end [of X, OF _ query_end_stage [OF assms(3)]], use Cons.prems(1) in simp)+
  have "parse_pipeline_stage N X (show_log_stage st @ show_log_stages sts @ rest) =
      Parsed (show_log_stages sts @ rest) (stage_of st)"
    by (rule parse_stage_show [OF N _ e(1)]) (use Cons.prems in simp)
  moreover have "trim_start (show_log_stage st @ show_log_stages sts @ rest) = show_log_stage st @ show_log_stages sts @ rest"
    using stage_end_no_space(1) [OF e(2)] unfolding s .
  moreover have "stage_loop N X f (show_log_stages sts @ rest) = Parsed rest (map stage_of sts)"
    using Cons f by simp
  ultimately show ?case unfolding s f by simp
qed

lemma stages_length:
  assumes "list_all (log_stage_ok X) sts"
  shows "length sts \<le> length (show_log_stages sts)"
  using assms
proof (induction sts)
  case (Cons st sts)
  then have "show_log_stage st \<noteq> []" using stage_start [of X st] by auto
  moreover have "length sts \<le> length (show_log_stages sts)" using Cons by simp
  ultimately show ?case by (cases "show_log_stage st") (simp_all add: show_log_stages_def)
qed (simp add: show_log_stages_def)

lemma parse_log_query_show:
  assumes N: "nom_laws N" and "list_all matcher_ok ms" and "list_all (log_stage_ok X) sts" and "query_end rest"
  shows "parse_pipeline_or_selector N X (show_log_query ms sts @ rest) = Parsed rest (log_query ms sts)"
proof -
  have e: "log_stage_end (show_log_stages sts @ rest)"
    using stages_end [OF assms(3) query_end_stage [OF assms(4)]] .
  have "length sts \<le> length (show_log_stages sts @ rest)" using stages_length [OF assms(3)] by simp
  note loop = stage_loop_show [OF N assms(3,4) this]
  show ?thesis
    using loop stage_end_no_space(2) [OF e]
    by (simp add: parse_stream_selector_show [OF N assms(2)] parse_pipeline_or_selector_def show_log_query_def log_query_def nom_laws_rewrites(3) [OF N])
qed

section \<open>Metric queries\<close>

lemma parse_duration_ms:
  assumes "n \<le> u64_max"
  shows "parse_duration (nat_to_string n @ ''ms'') = Inr (Some (n * 1000000))"
proof -
  obtain c cs where c: "nat_to_string n = c # cs" by (cases "nat_to_string n") simp_all
  have ws: "\<not> is_whitespace c" using nat_to_string_hd [OF c] by (auto simp: is_ascii_digit_def is_whitespace_def)
  have t: "trim (nat_to_string n) = nat_to_string n" "trim (nat_to_string n @ ''ms'') = nat_to_string n @ ''ms''"
    by (rule trim_trimmed, use ws digits_last [of n] c in \<open>auto simp: trimmed_def is_whitespace_def [of "CHR ''s''"]\<close>)+
  have "strip_suffix ''ms'' (nat_to_string n @ ''ms'') = Some (nat_to_string n)"
    by (simp add: strip_suffix_def)
  with t show ?thesis
    by (simp add: parse_duration_def parse_u64_nat_to_string [OF assms])
qed

lemma parse_range_show:
  assumes N: "nom_laws N" and "n \<le> u64_max"
  shows "parse_range N (CHR ''['' # nat_to_string n @ ''ms]'' @ rest) = Parsed rest (n * 1000000)"
proof -
  have "list_all is_alphanumeric (nat_to_string n @ ''ms'')"
    using nat_to_string_digits [of n] by (auto simp: list_all_iff is_alphanumeric_def is_alpha_def)
  then have "takeWhile is_alphanumeric ((nat_to_string n @ ''ms'') @ CHR '']'' # rest) = nat_to_string n @ ''ms''"
    "dropWhile is_alphanumeric ((nat_to_string n @ ''ms'') @ CHR '']'' # rest) = CHR '']'' # rest"
    by (intro takeWhile_name; simp add: is_alphanumeric_def is_alpha_def is_ascii_digit_def)+
  then show ?thesis
    by (simp add: parse_range_def nom_laws_rewrites [OF N] doc_char_def doc_take_while1_def parse_duration_ms [OF assms(2)])
qed

lemma parse_metric_show:
  assumes N: "nom_laws N" and "list_all matcher_ok ms" and "list_all (log_stage_ok X) sts" and "n \<le> u64_max"
  shows "parse_metric_query N X (show_metric_query f ms sts n) =
    Parsed [] (MetricQuery f (log_query ms sts) (n * 1000000))"
proof -
  have func: "parse_metric_func N (show_metric_func f @ CHR ''('' # s) = Parsed (CHR ''('' # s) f" for s
    by (cases f) (simp_all add: parse_metric_func_def show_metric_func_def nom_laws_rewrites [OF N] doc_tag_def)
  have q: "query_end (CHR ''['' # s)" for s by (simp add: query_end_def)
  have brace: "\<exists>cs. show_log_query ms sts @ s = CHR ''{'' # cs" for s
    by (simp add: show_log_query_def show_stream_selector_def)
  have skip: "dropWhile is_multispace (show_log_query ms sts @ s) = show_log_query ms sts @ s" for s
    using brace [of s] by (auto simp: is_multispace_def)
  show ?thesis
    using parse_log_query_show [OF N assms(2,3) q, of "nat_to_string n @ ''ms])''"] parse_range_show [OF N assms(4), of "'')''"]
    by (simp add: parse_metric_query_def show_metric_query_def func nom_laws_rewrites [OF N] doc_char_def skip is_multispace_def)
qed

section \<open>Whole queries\<close>

lemma last_quote [simp]: "quote s \<noteq> []" "last (quote s) = CHR 0x22" "last (c # quote s) = CHR 0x22"
  by (simp_all add: quote_def)

lemma trimmed_stage:
  assumes "log_stage_ok X st"
  shows "trimmed (show_log_stage st)"
proof -
  have w: "\<not> is_whitespace (CHR ''|'')" "\<not> is_whitespace (CHR ''!'')" "\<not> is_whitespace (CHR 0x22)"
    "\<not> is_whitespace (CHR ''n'')" "\<not> is_whitespace (CHR ''t'')"
    by (simp_all add: is_whitespace_def)
  have field: "f \<noteq> [] \<and> \<not> is_whitespace (last f)" if "field_ok f" for f
  proof -
    have "is_field_char (last f)" using that by (auto simp: field_ok_def list_all_iff)
    then show ?thesis using that by (auto simp: field_ok_def log_chars is_whitespace_def)
  qed
  show ?thesis
    using assms w field digits_last
    by (cases st rule: show_log_stage.cases) (auto simp: trimmed_def)
qed

lemma trimmed_log_query:
  assumes "list_all (log_stage_ok X) sts"
  shows "trimmed (show_log_query ms sts)"
proof -
  have "trimmed (show_log_stages sts)"
    using assms by (induction sts) (auto simp: show_log_stages_def trimmed_def [of "[]"] intro!: trimmed_append trimmed_stage)
  moreover have "trimmed (show_stream_selector ms)"
    by (simp add: trimmed_def show_stream_selector_def is_whitespace_def)
  ultimately show ?thesis by (simp add: show_log_query_def trimmed_append)
qed

lemma trimmed_metric_query: "trimmed (show_metric_query f ms sts n)"
  by (cases f) (simp_all add: trimmed_def show_metric_query_def show_metric_func_def is_whitespace_def)

lemma parse_logql_brace:
  assumes N: "nom_laws N" and q: "q = CHR ''{'' # cs" and t: "trimmed q"
    and p: "parse_pipeline_or_selector N X q = Parsed [] e"
  shows "parse_logql N X q = Inr (Inr e)"
proof -
  have "\<exists>s k. parse_metric_func N q = Backtrack s k"
    by (auto simp: q parse_metric_func_def nom_laws_rewrites [OF N] doc_tag_def)
  then obtain s k where "parse_metric_query N X q = Backtrack s k" by (auto simp: parse_metric_query_def)
  with p show ?thesis by (simp add: parse_logql_def trim_trimmed [OF t] accept_all_def trim_start_def)
qed

lemma parse_logql_show_query:
  assumes N: "nom_laws N" and ok: "list_all matcher_ok ms" "list_all (log_stage_ok X) sts"
  shows "parse_logql N X (show_log_query ms sts) = Inr (Inr (log_query ms sts))"
proof (rule parse_logql_brace [OF N _ trimmed_log_query [OF ok(2)]])
  show "show_log_query ms sts = CHR ''{'' # tl (show_log_query ms sts)"
    by (simp add: show_log_query_def show_stream_selector_def)
  show "parse_pipeline_or_selector N X (show_log_query ms sts) = Parsed [] (log_query ms sts)"
    using parse_log_query_show [OF N ok, of "[]"] by (simp add: query_end_def)
qed

lemma parse_logql_show_metric:
  assumes N: "nom_laws N" and ok: "list_all matcher_ok ms" "list_all (log_stage_ok X) sts" "n \<le> u64_max"
  shows "parse_logql N X (show_metric_query f ms sts n) = Inr (Inr (MetricQuery f (log_query ms sts) (n * 1000000)))"
  using parse_metric_show [OF N ok, of f] trim_trimmed [OF trimmed_metric_query, of f ms sts n]
  by (simp add: parse_logql_def accept_all_def trim_start_def)

section \<open>Progress and fuel\<close>

lemma cut_progress: "shrinks p s \<Longrightarrow> shrinks (parse_cut p) s"
  by (cases p) simp_all

lemma matcher_progress:
  assumes N: "nom_laws N"
  shows "shrinks (parse_matcher N s) s"
  unfolding parse_matcher_def parse_match_op_def cut_quoted_string_def
  by (rule shrinks_bind_right [OF primitive_progress(3) [OF N]], rule shrinks_bind [OF primitive_progress(4) [OF N]])
    (intro progress N shrinks_keeps [OF cut_progress], simp_all)

lemma separated_more_fuel:
  assumes "\<And>s. shrinks (sep s) s" and "\<And>s. shrinks (p s) s" and "length s \<le> f" and "length s \<le> g"
    and "sep [] = Backtrack [] k"
  shows "separated_more sep p f s = separated_more sep p g s"
  using assms(3,4)
proof (induction f arbitrary: g s)
  case 0
  then show ?case using assms(5) by (cases g) simp_all
next
  case (Suc f)
  show ?case
  proof (cases g)
    case 0
    with Suc.prems assms(5) show ?thesis by simp
  next
    case (Suc h)
    have "separated_more sep p f r' = separated_more sep p h r'" if "sep s = Parsed r u" "p r = Parsed r' v" for r u r' v
    proof -
      have "length r' < length s" using shrinksD [OF assms(1) that(1)] shrinksD [OF assms(2) that(2)] by simp
      with Suc.prems \<open>g = Suc h\<close> show ?thesis by (intro Suc.IH) simp_all
    qed
    then show ?thesis unfolding \<open>g = Suc h\<close> separated_more.simps by (auto split: parsed.split)
  qed
qed

lemma log_stage_progress:
  fixes X :: "'a regex_ops"
  assumes N: "nom_laws N"
  shows "shrinks (parse_pipeline_stage N X s) s"
proof -
  have line: "shrinks (parse_line_filter N t u f) u" if "t \<noteq> []" "\<And>r v. keeps (f r v) r" for t u and f :: "string \<Rightarrow> string \<Rightarrow> 'a logql_stage parsed"
    unfolding parse_line_filter_def
    by (rule shrinks_bind [OF primitive_progress(1) [OF N that(1)]]) (intro progress N that(2))
  have kw: "length r \<le> length u" if "parse_keyword N k u = Some r" for k u r
    using that by (auto simp: parse_keyword_def nom_laws_rewrites [OF N] doc_tag_def strip_prefix_Some split: option.splits if_splits)
  have keepD: "keeps p r \<Longrightarrow> length r \<le> length u \<Longrightarrow> keeps p u" for p :: "'a logql_stage parsed" and r u
    by (auto simp: keeps_def)
  have unwrap: "keeps (parse_unwrap N r :: 'a logql_stage parsed) r" for r
    unfolding parse_unwrap_def by (intro progress N)
  have regexp: "keeps (parse_regexp N X r) r" for r
    unfolding parse_regexp_def cut_quoted_string_def by (intro progress N shrinks_keeps [OF cut_progress]) simp
  have cmp: "length r \<le> length u" if "compare_result u = Some (r, op)" for u r op
    using that by (auto simp: compare_result_def strip_prefix_Some split: option.splits)
  have cf: "keeps (parse_compare_filter N key op r :: 'a logql_stage parsed) r" for key op r
    unfolding parse_compare_filter_def by (intro progress N) simp
  have sf: "keeps (parse_string_filter N X key r) r" for key r
    unfolding parse_string_filter_def parse_match_op_def cut_quoted_string_def
    by (intro progress N shrinks_keeps [OF cut_progress]) simp_all
  have filter: "keeps (parse_label_filter N X u) u" for u
    unfolding parse_label_filter_def
    by (intro progress N) (auto split: option.split intro: keepD [OF cf cmp] sf)
  have "keeps (case parse_keyword N ''json'' u of
         Some rest \<Rightarrow> Parsed rest JsonExtract
       | None \<Rightarrow> (case parse_keyword N ''logfmt'' u of
           Some rest \<Rightarrow> Parsed rest LogfmtExtract
         | None \<Rightarrow> (case parse_keyword N ''unwrap'' u of
             Some rest \<Rightarrow> parse_unwrap N rest
           | None \<Rightarrow> (case parse_keyword N ''regexp'' u of
               Some rest \<Rightarrow> parse_regexp N X rest
             | None \<Rightarrow> parse_label_filter N X u)))) u" for u
    using filter by (auto split: option.split intro: keepD [OF unwrap kw] keepD [OF regexp kw] keepD [OF keeps_simps(1) kw])
  then have bar: "shrinks (parse_json_or_label_filter N X u) u" for u
    unfolding parse_json_or_label_filter_def
    by (intro shrinks_bind [OF primitive_progress(2) [OF N]] keeps_bind [OF primitive_progress(3) [OF N]])
  show ?thesis
    unfolding parse_pipeline_stage_def parse_line_contains_def parse_line_not_contains_def parse_line_regex_def
      parse_line_not_regex_def
    by (rule shrinks_alt) (auto intro!: line bar progress)
qed

lemma stage_loop_fuel:
  assumes N: "nom_laws N" and "length s \<le> f" and "length s \<le> g"
  shows "stage_loop N X f s = stage_loop N X g s"
  using assms(2,3)
proof (induction f arbitrary: g s)
  case 0
  then show ?case
    using no_stage [OF N, of "[]" X] by (cases g) (auto simp: query_end_def trim_start_def)
next
  case (Suc f)
  show ?case
  proof (cases g)
    case 0
    with Suc.prems show ?thesis using no_stage [OF N, of "[]" X] by (auto simp: query_end_def trim_start_def)
  next
    case (Suc h)
    have "stage_loop N X f r = stage_loop N X h r" if "parse_pipeline_stage N X (trim_start s) = Parsed r st" for r st
    proof -
      have "length r < length s"
        using shrinksD [OF log_stage_progress [OF N] that] length_trim_start [of s] by linarith
      with Suc.prems \<open>g = Suc h\<close> show ?thesis by (intro Suc.IH) simp_all
    qed
    then show ?thesis unfolding \<open>g = Suc h\<close> stage_loop.simps by (auto split: parsed.split)
  qed
qed

section \<open>Durations\<close>

lemma parse_duration_bounded:
  assumes "parse_duration s = Inr (Some d)"
  shows "d \<le> duration_max"
proof -
  have "d \<le> duration_max" if "from_secs_f64 x = Inr d" for x
    using that by (auto simp: from_secs_f64_def Let_def split: if_splits)
  moreover have "n * 1000000 \<le> duration_max" if "parse_u64 u = Some n" for u n
    using that by (auto simp: parse_u64_def duration_max_def split: option.splits if_splits)
  ultimately show ?thesis
    using assms unfolding parse_duration_def Let_def
    by (auto split: if_splits option.splits prod.splits simp: map_sum_def split: sum.splits)
qed

lemma digit_not_m: "\<not> is_ascii_digit (CHR ''m'')"
  by (simp add: is_ascii_digit_def)

lemma parse_duration_panics: "parse_duration (nat_to_string (2 ^ 64) @ ''s'') = Inl DurationOverflow"
proof -
  let ?n = "nat_to_string (2 ^ 64)"
  obtain c cs where c: "?n = c # cs" by (cases ?n) simp_all
  have ws: "\<not> is_whitespace c" using nat_to_string_hd [OF c] by (auto simp: is_ascii_digit_def is_whitespace_def)
  have t: "trim ?n = ?n" "trim (?n @ ''s'') = ?n @ ''s''"
    by (rule trim_trimmed, use ws digits_last [of "2 ^ 64"] c in \<open>auto simp: trimmed_def is_whitespace_def [of "CHR ''s''"]\<close>)+
  have "last ?n \<noteq> CHR ''m''"
    using nat_to_string_digits [of "2 ^ 64"] last_in_set [of ?n] nat_to_string_nonempty [of "2 ^ 64"]
    unfolding list_all_iff by (metis digit_not_m)
  then have "strip_suffix ''ms'' (?n @ ''s'') = None"
    by (cases ?n rule: rev_cases) (auto simp: strip_suffix_def)
  moreover have "split_unit (?n @ ''s'') = (?n, 1)" by (simp add: split_unit_def strip_suffix_def)
  moreover have "u64_max_f64 = f64_two_pow_64" by (simp only: u64_max_f64_def f64_two_pow_64_def)
  ultimately show ?thesis
    using f64_two_pow_64_facts t by (simp add: parse_duration_def f64_two_pow_64_times_one)
qed

section \<open>Error positions\<close>

lemma trim_within: "length input - length (trim_start input) + length (trim input) \<le> length input"
proof -
  have "length (trim input) \<le> length (trim_start input)"
    using length_dropWhile_le [of is_whitespace "rev (trim_start input)"] by (simp add: trim_def trim_end_def)
  with length_trim_start [of input] show ?thesis by linarith
qed

lemma error_position:
  "accept_all l u r e = Inl (LogqlParse p m) \<Longrightarrow> p \<le> l + length u"
  "nom_err_to_human u r l = LogqlParse p m \<Longrightarrow> p \<le> l + length u"
  by (auto simp: accept_all_def nom_err_to_human_def Let_def split: if_splits)

lemma parse_logql_position:
  assumes "parse_logql N X input = Inr (Inl (LogqlParse pos msg))"
  shows "pos \<le> length input"
proof -
  have "pos \<le> length input - length (trim_start input) + length (trim input)"
    using assms unfolding parse_logql_def Let_def
    by (auto split: parsed.splits dest: error_position)
  with trim_within [of input] show ?thesis by simp
qed

section \<open>Properties\<close>

text \<open>
  C24: The parser inverts the printer: every log query of well-formed matchers and stages, and every
  metric query over one with a range in milliseconds, is read back exactly.
\<close>

theorem logql_round_trip:
  assumes "nom_laws N" and "list_all matcher_ok ms" and "list_all (log_stage_ok X) sts" and "n \<le> u64_max"
  shows "parse_logql N X (show_log_query ms sts) = Inr (Inr (log_query ms sts)) \<and>
    parse_logql N X (show_metric_query f ms sts n) = Inr (Inr (MetricQuery f (log_query ms sts) (n * 1000000)))"
  using parse_logql_show_query [OF assms(1-3)] parse_logql_show_metric [OF assms] by blast

theorem logql_round_trip_witness:
  "parse_logql doc_nom literal_regex (show_metric_query RateOverTime
      [\<lparr>qm_name = ''service'', qm_op = LqRegex, qm_value = ''api|db''\<rparr>]
      ([Plain (LineContains ''err''), Plain LogfmtExtract, Compared ''status'' LqGte 500] :: string printable_stage list)
      300000) =
    Inr (Inr (MetricQuery RateOverTime (Pipeline (StreamSelector [\<lparr>qm_name = ''service'', qm_op = LqRegex, qm_value = ''api|db''\<rparr>])
      [LineContains ''err'', LogfmtExtract, CompareFilter ''status'' LqGte (nat_f64 500)]) 300000000000))"
  using logql_round_trip [OF doc_nom_laws, of "[\<lparr>qm_name = ''service'', qm_op = LqRegex, qm_value = ''api|db''\<rparr>]"
      literal_regex "[Plain (LineContains ''err''), Plain LogfmtExtract, Compared ''status'' LqGte 500]" 300000 RateOverTime]
  by (simp add: matcher_ok_def key_ok_def field_ok_def log_chars u64_max_def log_query_def)

text \<open>
  The position a parse error reports lies within the query the caller typed, white space around
  it included.
\<close>

lemma logql_error_position:
  assumes "parse_logql N X input = Inr (Inl (LogqlParse pos msg))"
  shows "pos \<le> length input"
  by (rule parse_logql_position [OF assms])

lemma logql_error_position_witness: "(2 :: nat) \<le> length ''  x''"
proof -
  have "parse_logql doc_nom literal_regex ''  x'' = Inr (Inl (LogqlParse 2 ''unexpected input here''))"
    by (simp add: parse_logql_def trim_def trim_start_def trim_end_def is_whitespace_def parse_metric_query_def
        parse_metric_func_def parse_pipeline_or_selector_def parse_stream_selector_def doc_nom_def doc_tag_def
        doc_char_def is_multispace_def nom_err_to_human_def classify_parse_failure_def ends_with_def strip_suffix_def)
  then show ?thesis by (rule logql_error_position)
qed

text \<open>
  A duration that the configuration or a LogQL range accepts fits the range of a \<open>Duration\<close>; the
  check lets one value too many through, \<open>2 ^ 64\<close> seconds, and panics on it.
\<close>

lemma parse_duration_range:
  "(\<forall>s d. parse_duration s = Inr (Some d) \<longrightarrow> d \<le> duration_max) \<and>
   parse_duration (nat_to_string (2 ^ 64) @ ''s'') = Inl DurationOverflow"
  using parse_duration_bounded parse_duration_panics by blast

lemma parse_duration_range_witness: "(250 * 1000000 :: nat) \<le> duration_max"
proof -
  have "parse_duration (nat_to_string 250 @ ''ms'') = Inr (Some (250 * 1000000))"
    by (rule parse_duration_ms) (simp add: u64_max_def)
  with parse_duration_range show ?thesis by blast
qed

end
