(* ===== verification/Time_Grid.thy ===== *)
theory Time_Grid
  imports Prelude
begin

text \<open>
  The two loops the LogQL and the PromQL evaluators share: a loop over the selected streams or
  series whose body may panic, and the loop \<open>while t <= end\<close> that advances by a step until
  the addition overflows. The second one is a closed-form grid of times.
\<close>

section \<open>Loops\<close>

text \<open>A loop over streams or series whose body may panic and yields results.\<close>

fun collect_streams :: "('a \<Rightarrow> panic + 'b list) \<Rightarrow> 'a list \<Rightarrow> panic + 'b list" where
  "collect_streams f [] = Inr []"
| "collect_streams f (x # xs) =
     (case f x of
        Inl p \<Rightarrow> Inl p
      | Inr ys \<Rightarrow> (case collect_streams f xs of Inl p \<Rightarrow> Inl p | Inr zs \<Rightarrow> Inr (ys @ zs)))"

definition advance_time :: "i64 \<Rightarrow> i64 \<Rightarrow> i64 option" where
  "advance_time current step =
     (if step \<le> 0 then None else if i64_max < current + step then None else Some (current + step))"

function time_loop :: "(i64 \<Rightarrow> panic + f64 option) \<Rightarrow> i64 \<Rightarrow> i64 \<Rightarrow> i64 \<Rightarrow> panic + (i64 \<times> f64) list" where
  "time_loop body end_ns step t =
     (if end_ns < t then Inr []
      else case body t of
             Inl p \<Rightarrow> Inl p
           | Inr v \<Rightarrow>
               (let here = (case v of None \<Rightarrow> [] | Some x \<Rightarrow> [(t, x)])
                in case advance_time t step of
                     None \<Rightarrow> Inr here
                   | Some t' \<Rightarrow> map_sum id (append here) (time_loop body end_ns step t')))"
  by pat_completeness auto

termination
  by (relation "measure (\<lambda>(body, end_ns, step, t). nat (end_ns + 1 - t))")
    (auto simp: advance_time_def split: if_splits)

declare time_loop.simps [simp del]

section \<open>What the loops compute\<close>

lemma collect_streams_total:
  "(\<And>x. f x = Inr (g x)) \<Longrightarrow> collect_streams f xs = Inr (concat (map g xs))"
  by (induction xs) simp_all

text \<open>The times the loop samples, in closed form.\<close>

definition time_grid :: "i64 \<Rightarrow> i64 \<Rightarrow> i64 \<Rightarrow> i64 list" where
  "time_grid a b step =
     (if b < a then [] else if step \<le> 0 then [a]
      else map (\<lambda>k. a + int k * step) [0..<Suc (nat ((b - a) div step))])"

lemma time_grid_step:
  assumes "0 < step" and "a \<le> b"
  shows "time_grid a b step = a # time_grid (a + step) b step"
proof (cases "a + step \<le> b")
  case True
  have "(b - a) div step = (b - (a + step)) div step + 1"
    using assms(1) div_add_self2 [of step "b - (a + step)"] by simp
  moreover have "0 \<le> (b - (a + step)) div step" using True assms(1) by (simp add: pos_imp_zdiv_nonneg_iff)
  ultimately have "nat ((b - a) div step) = Suc (nat ((b - (a + step)) div step))" by simp
  with True assms show ?thesis
    by (simp add: time_grid_def upt_conv_Cons map_Suc_upt [symmetric] algebra_simps del: upt_Suc)
next
  case False
  then have "(b - a) div step = 0" using assms by (simp add: div_pos_pos_trivial)
  with False assms show ?thesis by (simp add: time_grid_def)
qed

lemma time_grid_within: "t \<in> set (time_grid a b step) \<Longrightarrow> a \<le> t \<and> t \<le> b"
proof (cases "0 < step")
  case True
  assume t: "t \<in> set (time_grid a b step)"
  then obtain k where k: "t = a + int k * step" "k \<le> nat ((b - a) div step)" "a \<le> b"
    using True by (auto simp: time_grid_def less_Suc_eq_le simp del: upt_Suc split: if_splits)
  have "int k \<le> (b - a) div step" using k True by (simp add: pos_imp_zdiv_nonneg_iff le_nat_iff)
  then have "int k * step \<le> (b - a) div step * step" using True by (simp add: mult_right_mono)
  also have "\<dots> \<le> b - a" using True by (metis div_mult_mod_eq le_add_same_cancel1 pos_mod_sign)
  finally show ?thesis using k True by simp
qed (auto simp: time_grid_def split: if_splits)

lemma time_loop_grid:
  assumes "\<And>t. a \<le> t \<Longrightarrow> t \<le> b \<Longrightarrow> body t = Inr (v t)" and max: "b \<le> i64_max"
  shows "time_loop body b step a =
    Inr (List.map_filter (\<lambda>t. map_option (Pair t) (v t)) (time_grid a b step))"
  using assms max
proof (induction body b step a rule: time_loop.induct)
  case (1 body b' step a)
  show ?case
  proof (cases "b' < a")
    case True
    then show ?thesis by (subst time_loop.simps) (simp add: time_grid_def List.map_filter_simps)
  next
    case False
    then have here: "body a = Inr (v a)" using "1.prems" by simp
    show ?thesis
    proof (cases "advance_time a step")
      case None
      then have "time_grid a b' step = a # (if 0 < step then time_grid (a + step) b' step else [])"
        using False time_grid_step [of step a b'] by (simp add: time_grid_def)
      moreover have "0 < step \<Longrightarrow> time_grid (a + step) b' step = []"
        using None "1.prems"(2) by (auto simp: advance_time_def time_grid_def split: if_splits)
      ultimately show ?thesis
        using False here None by (subst time_loop.simps) (auto simp: List.map_filter_simps split: option.split)
    next
      case (Some t')
      then have t': "t' = a + step" "0 < step" by (auto simp: advance_time_def split: if_splits)
      have "time_loop body b' step t' = Inr (List.map_filter (\<lambda>t. map_option (Pair t) (v t)) (time_grid t' b' step))"
        using "1.IH" [OF False here _ Some] "1.prems" t' by simp
      then show ?thesis
        using False here Some t' time_grid_step [of step a b']
        by (subst time_loop.simps) (auto simp: List.map_filter_simps split: option.split)
    qed
  qed
qed

section \<open>Counting the steps\<close>

lemma saturating_difference: "b - a \<le> i64_max \<Longrightarrow> max (i64_saturating_sub b a) 0 = max (b - a) 0"
  by (auto simp: i64_saturating_sub_def i64_saturate_def i64_max_def i64_min_def max_def)

lemma le_zdiv_iff: "0 < s \<Longrightarrow> n \<le> m div s \<longleftrightarrow> n * s \<le> (m :: int)"
proof
  assume "0 < s"
  have "m div s * s \<le> m" using \<open>0 < s\<close> by (metis add.commute div_mult_mod_eq le_add_same_cancel2 pos_mod_sign)
  moreover assume "n \<le> m div s"
  then have "n * s \<le> m div s * s" using \<open>0 < s\<close> by simp
  ultimately show "n * s \<le> m" by simp
next
  assume "0 < s" and "n * s \<le> m"
  then show "n \<le> m div s" using zdiv_mono1 [of "n * s" m s] by simp
qed

lemma time_grid_length:
  assumes "0 < step" and "b - a < n * step" and "0 < n"
  shows "int (length (time_grid a b step)) \<le> n"
proof (cases "b < a")
  case True
  then show ?thesis using assms by (simp add: time_grid_def)
next
  case False
  have "\<not> n \<le> (b - a) div step" unfolding le_zdiv_iff [OF assms(1)] using assms(2) by simp
  moreover have "0 \<le> (b - a) div step" using False assms(1) by (simp add: pos_imp_zdiv_nonneg_iff)
  ultimately show ?thesis using False assms(1) by (simp add: time_grid_def)
qed

end
