(* ===== verification/Logql_Eval.thy ===== *)
theory Logql_Eval
  imports Logql_Parser Log_Store Time_Grid "HOL-Library.Product_Lexorder"
begin

text \<open>
  The LogQL evaluator, \<open>src/query/logql/eval.rs\<close>: pipeline stages over a line, log queries with and
  without a limit, and metric queries over a grid of times. Looking entries up can panic on an
  inverted range, so evaluation returns a panic or a value. JSON, regular expression captures and
  the iteration order of the binary heap are parameters.
\<close>

section \<open>Text\<close>

text \<open>\<open>str::split_whitespace\<close> and \<open>str::split_once\<close>.\<close>

function split_whitespace :: "string \<Rightarrow> string list" where
  "split_whitespace s =
     (case dropWhile is_whitespace s of
        [] \<Rightarrow> []
      | c # cs \<Rightarrow> (c # takeWhile (\<lambda>d. \<not> is_whitespace d) cs) # split_whitespace (dropWhile (\<lambda>d. \<not> is_whitespace d) cs))"
  by pat_completeness auto

termination
proof (relation "measure length", simp)
  fix s c cs
  assume "dropWhile is_whitespace s = c # cs"
  then have "length (c # cs) \<le> length s" using length_dropWhile_le [of is_whitespace s] by simp
  with length_dropWhile_le [of "\<lambda>d. \<not> is_whitespace d" cs]
  show "(dropWhile (\<lambda>d. \<not> is_whitespace d) cs, s) \<in> measure length" by simp
qed

declare split_whitespace.simps [simp del]

definition split_once :: "char \<Rightarrow> string \<Rightarrow> (string \<times> string) option" where
  "split_once c s = (case dropWhile (\<lambda>d. d \<noteq> c) s of [] \<Rightarrow> None | _ # rest \<Rightarrow> Some (takeWhile (\<lambda>d. d \<noteq> c) s, rest))"

section \<open>Results and environment\<close>

record resolved_entry =
  re_timestamp_ns :: i64
  re_line :: string
  re_trace_id :: "string option"
  re_span_id :: "string option"
  re_attributes :: "(string \<times> string) list"

record stream_result =
  sr_labels :: "(string \<times> string) list"
  sr_entries :: "resolved_entry list"

record metric_result =
  mr_labels :: "(string \<times> string) list"
  mr_samples :: "(i64 \<times> f64) list"

datatype logql_result = Streams "stream_result list" | Matrix "metric_result list"

text \<open>An element of the heap of newest entries; the heap orders by time, then by sequence number.\<close>

record heap_item =
  hi_timestamp_ns :: i64
  hi_sequence :: usize
  hi_stream :: u64
  hi_line :: string
  hi_trace_id :: "trace_id option"
  hi_span_id :: "span_id option"
  hi_attributes :: "(string \<times> string) list"

text \<open>\<open>serde_json\<close>: parsing, the members of an object, the text of a string, the text of any value.\<close>

record 'v json_ops =
  js_parse :: "string \<Rightarrow> 'v option"
  js_object :: "'v \<Rightarrow> (string \<times> 'v) list option"
  js_string :: "'v \<Rightarrow> string option"
  js_text :: "'v \<Rightarrow> string"

text \<open>\<open>regex\<close> captures: the group names of a pattern, and for a matching line the text of each name.\<close>

record 'r capture_ops =
  cp_names :: "'r \<Rightarrow> string option list"
  cp_captures :: "'r \<Rightarrow> string \<Rightarrow> (string \<Rightarrow> string option) option"

record ('i, 'r, 'v) log_env =
  lv_rodeo :: "'i rodeo_ops"
  lv_regex :: "'r regex_ops"
  lv_captures :: "'r capture_ops"
  lv_json :: "'v json_ops"
  lv_fmt :: "f64 \<Rightarrow> string"
  lv_heap_order :: "heap_item list \<Rightarrow> heap_item list"

section \<open>Pipeline stages\<close>

type_synonym extracted = "(string, string) hash_map"

text \<open>A value of \<open>key=value\<close> without the quotes around it.\<close>

definition unquote_value :: "string \<Rightarrow> string" where
  "unquote_value v =
     (case strip_prefix [CHR 0x22] v of
        None \<Rightarrow> v
      | Some w \<Rightarrow> (case strip_suffix [CHR 0x22] w of None \<Rightarrow> v | Some x \<Rightarrow> x))"

definition extract_logfmt :: "string \<Rightarrow> extracted \<Rightarrow> extracted" where
  "extract_logfmt line ex =
     fold (\<lambda>pair ex. case split_once (CHR ''='') pair of
              None \<Rightarrow> ex
            | Some (key, v) \<Rightarrow> if key = [] then ex else hm_insert key (unquote_value v) ex)
       (split_whitespace line) ex"

definition extract_json :: "'v json_ops \<Rightarrow> string \<Rightarrow> extracted \<Rightarrow> extracted" where
  "extract_json J line ex =
     (case js_parse J line of
        None \<Rightarrow> ex
      | Some v \<Rightarrow> (case js_object J v of
            None \<Rightarrow> ex
          | Some members \<Rightarrow>
              fold (\<lambda>(k, w). hm_insert k (case js_string J w of Some s \<Rightarrow> s | None \<Rightarrow> js_text J w)) members ex))"

definition extract_regexp :: "'r capture_ops \<Rightarrow> 'r \<Rightarrow> string \<Rightarrow> extracted \<Rightarrow> extracted" where
  "extract_regexp C re line ex =
     (case cp_captures C re line of
        None \<Rightarrow> ex
      | Some caps \<Rightarrow>
          fold (\<lambda>name ex. case caps name of None \<Rightarrow> ex | Some m \<Rightarrow> hm_insert name m ex)
            (List.map_filter id (cp_names C re)) ex)"

definition compare_number :: "f64 \<Rightarrow> logql_compare_op \<Rightarrow> f64 \<Rightarrow> bool" where
  "compare_number n op v = (case op of LqGt \<Rightarrow> f64_lt v n | LqGte \<Rightarrow> f64_le v n | LqLt \<Rightarrow> f64_lt n v | LqLte \<Rightarrow> f64_le n v)"

definition label_filter_matches :: "'r regex_ops \<Rightarrow> string \<Rightarrow> match_op \<Rightarrow> string \<Rightarrow> 'r option \<Rightarrow> bool" where
  "label_filter_matches X label op v re =
     (case op of
        LqEq \<Rightarrow> label = v
      | LqNeq \<Rightarrow> label \<noteq> v
      | LqRegex \<Rightarrow> (case re of None \<Rightarrow> False | Some r \<Rightarrow> rx_is_match X r label)
      | LqNotRegex \<Rightarrow> (case re of None \<Rightarrow> False | Some r \<Rightarrow> \<not> rx_is_match X r label))"

fun apply_stage :: "('i, 'r, 'v) log_env \<Rightarrow> string \<Rightarrow> 'r logql_stage \<Rightarrow> extracted \<Rightarrow> extracted option" where
  "apply_stage E line (LineContains p) ex = (if contains line p then Some ex else None)"
| "apply_stage E line (LineNotContains p) ex = (if contains line p then None else Some ex)"
| "apply_stage E line (LineRegex p re) ex = (if rx_is_match (lv_regex E) re line then Some ex else None)"
| "apply_stage E line (LineNotRegex p re) ex = (if rx_is_match (lv_regex E) re line then None else Some ex)"
| "apply_stage E line LogfmtExtract ex = Some (extract_logfmt line ex)"
| "apply_stage E line JsonExtract ex = Some (extract_json (lv_json E) line ex)"
| "apply_stage E line (Unwrap f) ex = Some ex"
| "apply_stage E line (RegexpExtract p re) ex = Some (extract_regexp (lv_captures E) re line ex)"
| "apply_stage E line (CompareFilter key op v) ex =
     (case hm_get ex key of
        None \<Rightarrow> None
      | Some label \<Rightarrow> (case parse_f64 (trim label) of
            None \<Rightarrow> None
          | Some n \<Rightarrow> if compare_number n op v then Some ex else None))"
| "apply_stage E line (LabelFilter key op v re) ex =
     (case hm_get ex key of
        None \<Rightarrow> None
      | Some label \<Rightarrow> if label_filter_matches (lv_regex E) label op v re then Some ex else None)"

fun run_stages :: "('i, 'r, 'v) log_env \<Rightarrow> string \<Rightarrow> 'r logql_stage list \<Rightarrow> extracted \<Rightarrow> extracted option" where
  "run_stages E line [] ex = Some ex"
| "run_stages E line (st # sts) ex =
     (case apply_stage E line st ex of None \<Rightarrow> None | Some ex' \<Rightarrow> run_stages E line sts ex')"

definition apply_stages_with_extract ::
  "('i, 'r, 'v) log_env \<Rightarrow> string \<Rightarrow> 'r logql_stage list \<Rightarrow> (string \<times> string) list \<Rightarrow> extracted option" where
  "apply_stages_with_extract E line stages labels =
     run_stages E line stages (fold (\<lambda>(k, v). hm_insert k v) labels [])"

definition apply_stages ::
  "('i, 'r, 'v) log_env \<Rightarrow> string \<Rightarrow> 'r logql_stage list \<Rightarrow> (string \<times> string) list \<Rightarrow> bool" where
  "apply_stages E line stages labels \<longleftrightarrow> apply_stages_with_extract E line stages labels \<noteq> None"

section \<open>Selecting streams\<close>

definition convert_op :: "match_op \<Rightarrow> label_match_op" where
  "convert_op op = (case op of LqEq \<Rightarrow> Eq | LqNeq \<Rightarrow> Neq | LqRegex \<Rightarrow> Regex | LqNotRegex \<Rightarrow> NotRegex)"

definition convert_matchers :: "logql_matcher list \<Rightarrow> label_matcher list" where
  "convert_matchers ms = map (\<lambda>m. \<lparr>lm_name = qm_name m, lm_op = convert_op (qm_op m), lm_value = qm_value m\<rparr>) ms"

fun extract_selector_and_stages :: "'r logql_expr \<Rightarrow> logql_matcher list \<times> 'r logql_stage list" where
  "extract_selector_and_stages (StreamSelector ms) = (ms, [])"
| "extract_selector_and_stages (Pipeline sel stages) =
     (let (ms, existing) = extract_selector_and_stages sel in (ms, existing @ stages))"
| "extract_selector_and_stages _ = ([], [])"

definition stream_labels :: "('i, 'r, 'v) log_env \<Rightarrow> 'i log_store \<Rightarrow> u64 \<Rightarrow> (string \<times> string) list" where
  "stream_labels E s sid = (case get_stream_labels (lv_rodeo E) s sid of None \<Rightarrow> [] | Some ls \<Rightarrow> ls)"

text \<open>The attributes of an entry with its severity appended.\<close>

definition entry_attributes :: "('i, 'r, 'v) log_env \<Rightarrow> 'i \<Rightarrow> log_entry \<Rightarrow> (string \<times> string) list" where
  "entry_attributes E i e =
     map (\<lambda>(k, v). (rd_resolve (lv_rodeo E) i k, resolve_attribute_value (lv_rodeo E) (lv_fmt E) i v)) (le_attributes e)
     @ (if le_severity_number e \<noteq> 0 then [(''severity_number'', int_to_string (le_severity_number e))] else [])
     @ (case le_severity_text e of None \<Rightarrow> [] | Some t \<Rightarrow> [(''severity_text'', rd_resolve (lv_rodeo E) i t)])"

definition resolve_entry :: "('i, 'r, 'v) log_env \<Rightarrow> 'i \<Rightarrow> log_entry \<Rightarrow> resolved_entry" where
  "resolve_entry E i e = \<lparr>re_timestamp_ns = le_timestamp_ns e, re_line = le_line e,
     re_trace_id = map_option hex_encode (le_trace_id e), re_span_id = map_option hex_encode (le_span_id e),
     re_attributes = entry_attributes E i e\<rparr>"

section \<open>Log queries\<close>

definition unlimited_stream ::
  "('i, 'r, 'v) log_env \<Rightarrow> 'r logql_stage list \<Rightarrow> 'i log_store \<Rightarrow> i64 \<Rightarrow> i64 \<Rightarrow> u64 \<Rightarrow> panic + stream_result list" where
  "unlimited_stream E stages s start_ns end_ns sid =
     (case get_entries s sid start_ns end_ns of
        Inl p \<Rightarrow> Inl p
      | Inr entries \<Rightarrow>
          (let labels = stream_labels E s sid;
               kept = filter (\<lambda>e. apply_stages E (le_line e) stages labels) entries
           in Inr (if kept = [] then []
                   else [\<lparr>sr_labels = labels, sr_entries = map (resolve_entry E (lg_interner s)) kept\<rparr>])))"

definition evaluate_unlimited_stream_query ::
  "('i, 'r, 'v) log_env \<Rightarrow> u64 list \<Rightarrow> 'r logql_stage list \<Rightarrow> 'i log_store \<Rightarrow> i64 \<Rightarrow> i64 \<Rightarrow> panic + stream_result list"
where
  "evaluate_unlimited_stream_query E sids stages s start_ns end_ns =
     collect_streams (unlimited_stream E stages s start_ns end_ns) sids"

text \<open>The heap of newest entries, kept sorted: the oldest is first.\<close>

definition heap_key :: "heap_item \<Rightarrow> i64 \<times> usize" where
  "heap_key x = (hi_timestamp_ns x, hi_sequence x)"

definition should_insert :: "usize \<Rightarrow> heap_item list \<Rightarrow> i64 \<Rightarrow> bool" where
  "should_insert limit newest t \<longleftrightarrow>
     length newest < limit \<or> (case newest of [] \<Rightarrow> False | oldest # _ \<Rightarrow> hi_timestamp_ns oldest < t)"

definition heap_item_of :: "('i, 'r, 'v) log_env \<Rightarrow> 'i \<Rightarrow> u64 \<Rightarrow> usize \<Rightarrow> log_entry \<Rightarrow> heap_item" where
  "heap_item_of E i sid sequence e = \<lparr>hi_timestamp_ns = le_timestamp_ns e, hi_sequence = sequence, hi_stream = sid,
     hi_line = le_line e, hi_trace_id = le_trace_id e, hi_span_id = le_span_id e,
     hi_attributes = entry_attributes E i e\<rparr>"

fun newest_entries ::
  "('i, 'r, 'v) log_env \<Rightarrow> 'i \<Rightarrow> usize \<Rightarrow> u64 \<Rightarrow> log_entry list \<Rightarrow> heap_item list \<times> usize \<Rightarrow> heap_item list \<times> usize" where
  "newest_entries E i limit sid [] st = st"
| "newest_entries E i limit sid (e # es) (newest, sequence) =
     newest_entries E i limit sid es
       (if should_insert limit newest (le_timestamp_ns e)
        then (insort_key heap_key (heap_item_of E i sid sequence e) (if length newest = limit then tl newest else newest),
              (sequence + 1) mod 2 ^ 64)
        else (newest, sequence))"

fun newest_streams ::
  "('i, 'r, 'v) log_env \<Rightarrow> 'r logql_stage list \<Rightarrow> 'i log_store \<Rightarrow> i64 \<Rightarrow> i64 \<Rightarrow> usize \<Rightarrow> u64 list \<Rightarrow>
    heap_item list \<times> usize \<Rightarrow> panic + heap_item list \<times> usize" where
  "newest_streams E stages s start_ns end_ns limit [] st = Inr st"
| "newest_streams E stages s start_ns end_ns limit (sid # sids) st =
     (let labels = stream_labels E s sid
      in case get_entries s sid start_ns end_ns of
           Inl p \<Rightarrow> Inl p
         | Inr entries \<Rightarrow>
             newest_streams E stages s start_ns end_ns limit sids
               (newest_entries E (lg_interner s) limit sid
                 (filter (\<lambda>e. apply_stages E (le_line e) stages labels) entries) st))"

definition entry_of_item :: "heap_item \<Rightarrow> resolved_entry" where
  "entry_of_item x = \<lparr>re_timestamp_ns = hi_timestamp_ns x, re_line = hi_line x,
     re_trace_id = map_option hex_encode (hi_trace_id x), re_span_id = map_option hex_encode (hi_span_id x),
     re_attributes = hi_attributes x\<rparr>"

definition group_items :: "heap_item list \<Rightarrow> (u64, resolved_entry list) hash_map" where
  "group_items xs = fold (\<lambda>x. hm_upsert [] (hi_stream x) (\<lambda>es. es @ [entry_of_item x])) xs []"

definition grouped_results ::
  "('i, 'r, 'v) log_env \<Rightarrow> 'i log_store \<Rightarrow> (u64, resolved_entry list) hash_map \<Rightarrow> stream_result list" where
  "grouped_results E s grouped =
     List.map_filter (\<lambda>sid. map_option (\<lambda>entries.
         \<lparr>sr_labels = stream_labels E s sid, sr_entries = sort_key re_timestamp_ns entries\<rparr>) (hm_get grouped sid))
       (sort (hm_keys grouped))"

definition evaluate_limited_stream_query ::
  "('i, 'r, 'v) log_env \<Rightarrow> u64 list \<Rightarrow> 'r logql_stage list \<Rightarrow> 'i log_store \<Rightarrow> i64 \<Rightarrow> i64 \<Rightarrow> usize \<Rightarrow>
    panic + stream_result list" where
  "evaluate_limited_stream_query E sids stages s start_ns end_ns limit =
     map_sum id (\<lambda>(newest, _). grouped_results E s (group_items (lv_heap_order E newest)))
       (newest_streams E stages s start_ns end_ns limit sids ([], 0))"

definition evaluate_stream_query ::
  "('i, 'r, 'v) log_env \<Rightarrow> logql_matcher list \<Rightarrow> 'r logql_stage list \<Rightarrow> 'i log_store \<Rightarrow> i64 \<Rightarrow> i64 \<Rightarrow> usize option \<Rightarrow>
    panic + logql_result" where
  "evaluate_stream_query E matchers stages s start_ns end_ns limit =
     (let sids = query_streams (lv_rodeo E) (lv_regex E) s (convert_matchers matchers)
      in case limit of
           None \<Rightarrow> map_sum id Streams (evaluate_unlimited_stream_query E sids stages s start_ns end_ns)
         | Some n \<Rightarrow> if n = 0 then Inr (Streams [])
                     else map_sum id Streams (evaluate_limited_stream_query E sids stages s start_ns end_ns n))"

section \<open>Metric queries\<close>

record window_stats =
  ws_count :: usize
  ws_bytes :: usize
  ws_numeric_count :: usize
  ws_sum :: f64
  ws_min :: f64
  ws_max :: f64

definition empty_window :: window_stats where
  "empty_window = \<lparr>ws_count = 0, ws_bytes = 0, ws_numeric_count = 0, ws_sum = f64_zero,
     ws_min = f64_infinity, ws_max = f64_neg_infinity\<rparr>"

fun unwrap_field :: "'r logql_stage list \<Rightarrow> string option" where
  "unwrap_field [] = None"
| "unwrap_field (Unwrap f # sts) = Some f"
| "unwrap_field (_ # sts) = unwrap_field sts"

definition numeric_value :: "string option \<Rightarrow> string \<Rightarrow> extracted \<Rightarrow> f64 option" where
  "numeric_value field line ex =
     (case field of
        None \<Rightarrow> parse_f64 (trim line)
      | Some f \<Rightarrow> (case hm_get ex f of None \<Rightarrow> None | Some v \<Rightarrow> parse_f64 (trim v)))"

definition window_step ::
  "('i, 'r, 'v) log_env \<Rightarrow> 'r logql_stage list \<Rightarrow> (string \<times> string) list \<Rightarrow> log_entry \<Rightarrow> window_stats \<Rightarrow> window_stats" where
  "window_step E stages labels e w =
     (case apply_stages_with_extract E (le_line e) stages labels of
        None \<Rightarrow> w
      | Some ex \<Rightarrow>
          (let w' = w\<lparr>ws_count := ws_count w + 1, ws_bytes := ws_bytes w + length (le_line e)\<rparr>
           in case numeric_value (unwrap_field stages) (le_line e) ex of
                None \<Rightarrow> w'
              | Some v \<Rightarrow> w'\<lparr>ws_numeric_count := ws_numeric_count w + 1, ws_sum := f64_add (ws_sum w) v,
                    ws_min := f64_min (ws_min w) v, ws_max := f64_max (ws_max w) v\<rparr>))"

text \<open>The value of a window; \<open>None\<close> where the loop skips the time.\<close>

definition metric_value :: "metric_func \<Rightarrow> i64 \<Rightarrow> window_stats \<Rightarrow> f64 option" where
  "metric_value func range_ns w =
     (case func of
        CountOverTime \<Rightarrow> Some (f64_of_int (int (ws_count w)))
      | RateOverTime \<Rightarrow>
          Some (if 0 < range_ns
                then f64_div (f64_of_int (int (ws_count w))) (f64_div (f64_of_int range_ns) (f64_of_int 1000000000))
                else f64_zero)
      | BytesOverTime \<Rightarrow> Some (f64_of_int (int (ws_bytes w)))
      | SumOverTime \<Rightarrow> Some (ws_sum w)
      | AvgOverTime \<Rightarrow>
          Some (if ws_numeric_count w = 0 then f64_zero
                else f64_div (ws_sum w) (f64_of_int (int (ws_numeric_count w))))
      | MinOverTime \<Rightarrow> if ws_numeric_count w = 0 then None else Some (ws_min w)
      | MaxOverTime \<Rightarrow> if ws_numeric_count w = 0 then None else Some (ws_max w))"

definition window_value ::
  "('i, 'r, 'v) log_env \<Rightarrow> metric_func \<Rightarrow> 'r logql_stage list \<Rightarrow> 'i log_store \<Rightarrow> i64 \<Rightarrow> u64 \<Rightarrow> i64 \<Rightarrow> panic + f64 option"
where
  "window_value E func stages s range_ns sid t =
     map_sum id (\<lambda>entries. metric_value func range_ns
         (fold (window_step E stages (stream_labels E s sid)) entries empty_window))
       (get_entries s sid (i64_saturating_sub t range_ns) t)"

definition metric_stream ::
  "('i, 'r, 'v) log_env \<Rightarrow> metric_func \<Rightarrow> 'r logql_stage list \<Rightarrow> 'i log_store \<Rightarrow> i64 \<Rightarrow> i64 \<Rightarrow> i64 \<Rightarrow> i64 \<Rightarrow> u64 \<Rightarrow>
    panic + metric_result list" where
  "metric_stream E func stages s range_ns start_ns end_ns step_ns sid =
     map_sum id (\<lambda>samples. if samples = [] then [] else [\<lparr>mr_labels = stream_labels E s sid, mr_samples = samples\<rparr>])
       (time_loop (window_value E func stages s range_ns sid) end_ns step_ns start_ns)"

definition evaluate_metric_query ::
  "('i, 'r, 'v) log_env \<Rightarrow> metric_func \<Rightarrow> 'r logql_expr \<Rightarrow> duration \<Rightarrow> 'i log_store \<Rightarrow> i64 \<Rightarrow> i64 \<Rightarrow> i64 \<Rightarrow>
    panic + logql_result" where
  "evaluate_metric_query E func inner dur s start_ns end_ns step_ns =
     (let range_ns = duration_as_i64_ns dur;
          (ms, stages) = extract_selector_and_stages inner;
          sids = query_streams (lv_rodeo E) (lv_regex E) s (convert_matchers ms)
      in map_sum id Matrix (collect_streams (metric_stream E func stages s range_ns start_ns end_ns step_ns) sids))"

section \<open>Expressions\<close>

fun evaluate_logql_limited ::
  "('i, 'r, 'v) log_env \<Rightarrow> 'r logql_expr \<Rightarrow> 'i log_store \<Rightarrow> i64 \<Rightarrow> i64 \<Rightarrow> i64 option \<Rightarrow> usize option \<Rightarrow> panic + logql_result"
where
  "evaluate_logql_limited E (StreamSelector ms) s start_ns end_ns step_ns limit =
     evaluate_stream_query E ms [] s start_ns end_ns limit"
| "evaluate_logql_limited E (Pipeline sel stages) s start_ns end_ns step_ns limit =
     (let (ms, existing) = extract_selector_and_stages sel
      in evaluate_stream_query E ms (existing @ stages) s start_ns end_ns limit)"
| "evaluate_logql_limited E (MetricQuery func inner dur) s start_ns end_ns step_ns limit =
     evaluate_metric_query E func inner dur s start_ns end_ns
       (case step_ns of None \<Rightarrow> duration_as_i64_ns dur | Some st \<Rightarrow> st)"

definition evaluate_logql ::
  "('i, 'r, 'v) log_env \<Rightarrow> 'r logql_expr \<Rightarrow> 'i log_store \<Rightarrow> i64 \<Rightarrow> i64 \<Rightarrow> i64 option \<Rightarrow> panic + logql_result" where
  "evaluate_logql E expr s start_ns end_ns step_ns = evaluate_logql_limited E expr s start_ns end_ns step_ns None"

end
