(* ===== verification/Float64_Ops.thy ===== *)
theory Float64_Ops
  imports Float64
begin

text \<open>
  The remaining operations on \<open>f64\<close> the PromQL evaluator uses: rounding to integers, square
  root, remainder, sums and conversions. They are exact on units and rounded once, as IEEE 754
  prescribes. Logarithms, exponentials and powers, whose precision Rust leaves open, are a
  parameter (\<open>libm_ops\<close>). Rounding is monotone, which bounds what an interpolation can do.
\<close>

section \<open>Operations\<close>

definition is_infinite :: "f64 \<Rightarrow> bool" where
  "is_infinite x \<longleftrightarrow> f64_bits x = f64_inf_bits"

definition f64_one :: f64 where "f64_one = f64_of_bits False (1023 * 2 ^ 52)"
definition f64_neg_zero :: f64 where "f64_neg_zero = f64_of_bits True 0"

text \<open>An integral magnitude with a sign; \<open>-0.0\<close> keeps its sign.\<close>

definition f64_integral :: "bool \<Rightarrow> nat \<Rightarrow> f64" where
  "f64_integral neg m = f64_round neg (m * f64_one_units) 1"

definition f64_trunc_nat :: "f64 \<Rightarrow> nat" where
  "f64_trunc_nat x = units_of_bits (f64_bits x) div f64_one_units"

definition f64_up_nat :: "f64 \<Rightarrow> nat" where
  "f64_up_nat x = (units_of_bits (f64_bits x) + (f64_one_units - 1)) div f64_one_units"

definition f64_floor :: "f64 \<Rightarrow> f64" where
  "f64_floor x =
     (if \<not> is_finite x then x
      else f64_integral (f64_neg x) (if f64_neg x then f64_up_nat x else f64_trunc_nat x))"

definition f64_ceil :: "f64 \<Rightarrow> f64" where
  "f64_ceil x =
     (if \<not> is_finite x then x
      else f64_integral (f64_neg x) (if f64_neg x then f64_trunc_nat x else f64_up_nat x))"

text \<open>\<open>f64::round\<close>: to the nearest integer, half-way cases away from zero.\<close>

definition f64_round_int :: "f64 \<Rightarrow> f64" where
  "f64_round_int x =
     (if \<not> is_finite x then x
      else f64_integral (f64_neg x) ((2 * units_of_bits (f64_bits x) + f64_one_units) div (2 * f64_one_units)))"

text \<open>\<open>%\<close>: the remainder of the truncated division, with the sign of the left operand.\<close>

definition f64_rem :: "f64 \<Rightarrow> f64 \<Rightarrow> f64" where
  "f64_rem x y =
     (if is_nan x \<or> is_nan y \<or> \<not> is_finite x \<or> f64_bits y = 0 then f64_nan
      else if \<not> is_finite y then x
      else f64_round (f64_neg x) (units_of_bits (f64_bits x) mod units_of_bits (f64_bits y)) 1)"

text \<open>The integer square root, two bits at a time.\<close>

function isqrt :: "nat \<Rightarrow> nat" where
  "isqrt n = (if n = 0 then 0
     else (let r = 2 * isqrt (n div 4) in if (r + 1) * (r + 1) \<le> n then r + 1 else r))"
  by pat_completeness auto
termination by (relation "measure id") auto

declare isqrt.simps [simp del]

text \<open>
  \<open>f64::sqrt\<close>: with \<open>s\<close> the integer square root of the units squared, a root that is not \<open>s\<close>
  itself lies strictly between \<open>s\<close> and \<open>s + 1\<close> and rounds as \<open>s + 1/2\<close> does.
\<close>

definition f64_sqrt :: "f64 \<Rightarrow> f64" where
  "f64_sqrt x =
     (if is_nan x then f64_nan
      else if f64_bits x = 0 then x
      else if f64_neg x then f64_nan
      else if \<not> is_finite x then x
      else (let n = units_of_bits (f64_bits x) * f64_one_units; s = isqrt n
            in f64_round False (2 * s + (if s * s = n then 0 else 1)) 2))"

text \<open>\<open>powi(2)\<close>.\<close>

definition f64_square :: "f64 \<Rightarrow> f64" where "f64_square x = f64_mul x x"

text \<open>\<open>Iterator::sum\<close> starts at \<open>-0.0\<close>.\<close>

definition f64_sum :: "f64 list \<Rightarrow> f64" where
  "f64_sum xs = fold (\<lambda>x acc. f64_add acc x) xs f64_neg_zero"

definition f64_of_nat :: "nat \<Rightarrow> f64" where "f64_of_nat n = f64_of_int (int n)"

text \<open>\<open>as usize\<close>: towards zero, saturating, zero for NaN and below zero.\<close>

definition f64_to_usize :: "f64 \<Rightarrow> usize" where
  "f64_to_usize x =
     (if is_nan x \<or> f64_neg x then 0 else if \<not> is_finite x then u64_max else min u64_max (f64_trunc_nat x))"

record libm_ops =
  m_powf :: "f64 \<Rightarrow> f64 \<Rightarrow> f64"
  m_ln :: "f64 \<Rightarrow> f64"
  m_log2 :: "f64 \<Rightarrow> f64"
  m_log10 :: "f64 \<Rightarrow> f64"
  m_exp :: "f64 \<Rightarrow> f64"

section \<open>Sorting by a partial order\<close>

text \<open>
  \<open>sort_by\<close> with \<open>partial_cmp(..).unwrap_or(Equal)\<close>. Without a NaN among the keys the order is total and
  the sort is the stable one. With a NaN it is not, and the standard library promises a permutation
  at most (it may also panic): the outcome is a parameter. Fewer than two elements are never compared.
\<close>

definition partial_sort :: "('a list \<Rightarrow> panic + 'a list) \<Rightarrow> ('a \<Rightarrow> f64) \<Rightarrow> bool \<Rightarrow> 'a list \<Rightarrow> panic + 'a list" where
  "partial_sort unordered key descending xs =
     (if length xs < 2 then Inr xs
      else if list_all (\<lambda>x. \<not> is_nan (key x)) xs
      then Inr (sort_key (\<lambda>x. if descending then - f64_units (key x) else f64_units (key x)) xs)
      else unordered xs)"

end
