(* ===== verification/Json.thy ===== *)
theory Json
  imports Float64_Ops "HOL-Library.List_Lexorder" "HOL-Library.Char_ord"
begin

text \<open>
  The JSON values the handlers build with \<open>serde_json\<close>: an object keeps its members in order of
  the keys, a later member replacing an earlier one of the same key; a float that is not finite
  becomes \<open>null\<close>. A response is a status and a value.
\<close>

datatype json =
    JNull
  | JBool bool
  | JInt int
  | JFloat f64
  | JString string
  | JArray "json list"
  | JObject "(string \<times> json) list"

definition json_f64 :: "f64 \<Rightarrow> json" where
  "json_f64 x = (if is_finite x then JFloat x else JNull)"

definition json_map :: "(string \<times> json) list \<Rightarrow> json" where
  "json_map members =
     JObject (map (\<lambda>k. (k, the (map_of (rev members) k))) (sort (remdups (map fst members))))"

definition json_option :: "('a \<Rightarrow> json) \<Rightarrow> 'a option \<Rightarrow> json" where
  "json_option f x = (case x of None \<Rightarrow> JNull | Some y \<Rightarrow> f y)"

definition json_strings :: "string list \<Rightarrow> json" where
  "json_strings xs = JArray (map JString xs)"

type_synonym response = "nat \<times> json"

definition status_ok :: nat where "status_ok = 200"
definition status_bad_request :: nat where "status_bad_request = 400"
definition status_not_found :: nat where "status_not_found = 404"

end
