(* ===== verification/Threading.thy ===== *)
theory Threading
  imports Prelude
begin

text \<open>
  Iterator chains whose closure updates something outside the chain, as the ingest paths use
  them: \<open>map\<close> and \<open>filter_map\<close> with a state that is passed from one element to the next. The
  state is the string interner of a store or the counter of ingest sequence numbers.
\<close>

section \<open>Mapping with a state\<close>

fun thread_map :: "('s \<Rightarrow> 'a \<Rightarrow> 's \<times> 'b) \<Rightarrow> 's \<Rightarrow> 'a list \<Rightarrow> 's \<times> 'b list" where
  "thread_map f s [] = (s, [])"
| "thread_map f s (x # xs) =
     (let (s1, y) = f s x; (s2, ys) = thread_map f s1 xs in (s2, y # ys))"

definition thread_filter_map :: "('s \<Rightarrow> 'a \<Rightarrow> 's \<times> 'b option) \<Rightarrow> 's \<Rightarrow> 'a list \<Rightarrow> 's \<times> 'b list" where
  "thread_filter_map f s xs = (let (s', ys) = thread_map f s xs in (s', List.map_filter id ys))"

lemma thread_map_cong [fundef_cong]:
  "xs = ys \<Longrightarrow> s = t \<Longrightarrow> (\<And>u x. x \<in> set ys \<Longrightarrow> f u x = g u x) \<Longrightarrow>
     thread_map f s xs = thread_map g t ys"
  by (induction ys arbitrary: xs s t) (auto split: prod.splits)

lemma map_filter_cong [fundef_cong]:
  "xs = ys \<Longrightarrow> (\<And>x. x \<in> set ys \<Longrightarrow> f x = g x) \<Longrightarrow> List.map_filter f xs = List.map_filter g ys"
  by (induction ys arbitrary: xs) (auto simp: List.map_filter_simps split: option.splits)

lemma length_thread_map: "thread_map f s xs = (s', ys) \<Longrightarrow> length ys = length xs"
  by (induction xs arbitrary: s ys) (auto split: prod.splits)

text \<open>
  The rule for a preorder that every step respects, such as the growth of an interner: each
  result stays valid in the final state, where \<open>Q\<close> relates it to its argument.
\<close>

lemma thread_map_grows:
  assumes "thread_map f s xs = (s', ys)"
    and refl: "\<And>u. R u u" and trans: "\<And>u v w. R u v \<Longrightarrow> R v w \<Longrightarrow> R u w"
    and step: "\<And>u x v y. x \<in> set xs \<Longrightarrow> R s u \<Longrightarrow> f u x = (v, y) \<Longrightarrow> R u v \<and> Q v x y"
    and mono: "\<And>u v x y. x \<in> set xs \<Longrightarrow> R u v \<Longrightarrow> Q u x y \<Longrightarrow> Q v x y"
  shows "R s s' \<and> list_all2 (Q s') xs ys"
  using assms(1) step mono
proof (induction xs arbitrary: s ys)
  case Nil
  then show ?case using refl by simp
next
  case (Cons x xs)
  obtain s1 y where 1: "f s x = (s1, y)" by force
  obtain s2 zs where 2: "thread_map f s1 xs = (s2, zs)" by force
  have eq: "s' = s2" "ys = y # zs" using Cons.prems(1) 1 2 by simp_all
  have R1: "R s s1" "Q s1 x y" using Cons.prems(2) [OF _ refl 1] by simp_all
  have "R s1 s' \<and> list_all2 (Q s') xs zs"
  proof (rule Cons.IH)
    show "thread_map f s1 xs = (s', zs)" using 2 eq by simp
    show "R u v \<and> Q v z w" if "z \<in> set xs" "R s1 u" "f u z = (v, w)" for u z v w
      using Cons.prems(2) [of z u v w] trans [OF R1(1) that(2)] that by simp
    show "Q v z w" if "z \<in> set xs" "R u v" "Q u z w" for u v z w
      using Cons.prems(3) [of z u v w] that by simp
  qed
  moreover from this have "Q s' x y" using Cons.prems(3) [of x s1 s' y] R1 by simp
  ultimately show ?case using trans [OF R1(1)] eq by simp
qed

lemma list_all2_meaning:
  "list_all2 (\<lambda>p a. A a \<and> g a = m p) ps as \<longleftrightarrow> (\<forall>a \<in> set as. A a) \<and> map g as = map m ps"
proof (induction as arbitrary: ps)
  case (Cons a as)
  then show ?case by (cases ps) auto
qed auto

lemmas list_all2_reading = list_all2_meaning [where m = "\<lambda>p. p", simplified]

section \<open>Numbering\<close>

text \<open>
  \<open>AtomicU64::fetch_add(1)\<close> on the ingest counter: the old value and the wrapped successor. A
  request takes consecutive values.
\<close>

definition fetch_add :: "u64 \<Rightarrow> u64 \<times> u64" where
  "fetch_add n = ((n + 1) mod (u64_max + 1), n)"

lemma fetch_add_fresh: "n < u64_max \<Longrightarrow> fetch_add n = (n + 1, n)"
  by (simp add: fetch_add_def)

definition stamp :: "u64 \<Rightarrow> nat \<Rightarrow> u64" where
  "stamp seq k = (seq + k) mod (u64_max + 1)"

text \<open>Elements in order, each with the next number.\<close>

definition stamped :: "('a \<Rightarrow> u64 \<Rightarrow> 'b) \<Rightarrow> u64 \<Rightarrow> 'a list \<Rightarrow> 'b list" where
  "stamped g seq xs = map (\<lambda>(k, x). g x (stamp seq k)) (enumerate 0 xs)"

lemma stamp_le [simp]: "stamp seq k \<le> u64_max"
  unfolding stamp_def using mod_less_divisor [of "u64_max + 1" "seq + k"] by linarith

lemma stamp_0 [simp]: "seq \<le> u64_max \<Longrightarrow> stamp seq 0 = seq"
  by (simp add: stamp_def)

lemma stamp_stamp [simp]: "stamp (stamp seq j) k = stamp seq (j + k)"
  by (simp add: stamp_def mod_add_left_eq add.assoc)

lemma stamp_Suc: "stamp seq (Suc 0) = fst (fetch_add seq)"
  by (simp add: stamp_def fetch_add_def)

lemma stamp_fresh: "seq + k \<le> u64_max \<Longrightarrow> stamp seq k = seq + k"
  by (simp add: stamp_def)

lemma stamped_Nil [simp]: "stamped g seq [] = []"
  by (simp add: stamped_def)

lemma length_stamped [simp]: "length (stamped g seq xs) = length xs"
  by (simp add: stamped_def)

lemma stamped_append: "stamped g seq (xs @ ys) = stamped g seq xs @ stamped g (stamp seq (length xs)) ys"
proof -
  have "map (\<lambda>(k, x). g x (stamp seq k)) (enumerate (length xs) ys) =
      map (\<lambda>(k, x). g x (stamp seq (length xs + k))) (enumerate 0 ys)"
    by (rule nth_equalityI) (simp_all add: nth_enumerate_eq)
  then show ?thesis by (simp add: stamped_def enumerate_append_eq)
qed

lemma stamped_Cons: "seq \<le> u64_max \<Longrightarrow> stamped g seq (x # xs) = g x seq # stamped g (stamp seq 1) xs"
  using stamped_append [of g seq "[x]" xs] by (simp add: stamped_def)

lemma map_stamped: "map h (stamped g seq xs) = stamped (\<lambda>x n. h (g x n)) seq xs"
  by (simp add: stamped_def case_prod_unfold comp_def)

lemma stamped_map: "stamped g seq (map h xs) = stamped (\<lambda>x. g (h x)) seq xs"
  by (rule nth_equalityI) (simp_all add: stamped_def nth_enumerate_eq)

lemma set_stamped: "y \<in> set (stamped g seq xs) \<longleftrightarrow> (\<exists>k < length xs. y = g (xs ! k) (stamp seq k))"
  by (force simp: stamped_def in_set_conv_nth nth_enumerate_eq)

lemma map_stamped_const: "map h (stamped g seq xs) = map h' xs" if "\<And>x n. h (g x n) = h' x"
  by (rule nth_equalityI) (simp_all add: that stamped_def nth_enumerate_eq)

lemma thread_filter_fetch:
  assumes "seq \<le> u64_max"
    and f: "\<And>n x. f n x = (if P x then (fst (fetch_add n), Some (g x n)) else (n, None))"
  shows "thread_filter_map f seq xs = (stamp seq (length (filter P xs)), stamped g seq (filter P xs))"
  using assms(1)
proof (induction xs arbitrary: seq)
  case Nil
  then show ?case by (simp add: thread_filter_map_def List.map_filter_simps)
next
  case (Cons x xs)
  have step: "thread_filter_map f n (x # xs) =
      (let (n', y) = f n x; (n'', ys) = thread_filter_map f n' xs
       in (n'', case y of None \<Rightarrow> ys | Some z \<Rightarrow> z # ys))" for n
    by (simp add: thread_filter_map_def List.map_filter_simps split: prod.splits option.splits)
  show ?case
  proof (cases "P x")
    case True
    with Cons.IH [of "stamp seq (Suc 0)"] Cons.prems show ?thesis
      unfolding step f [of seq x] by (simp add: stamped_Cons stamp_Suc [symmetric])
  next
    case False
    with Cons.IH [of seq] Cons.prems show ?thesis unfolding step f [of seq x] by simp
  qed
qed

text \<open>
  A threaded map over parts that each stamp the elements \<open>acc x\<close>: the parts together stamp the
  concatenation.
\<close>

lemma thread_map_stamped:
  assumes "seq \<le> u64_max"
    and f: "\<And>n x. n \<le> u64_max \<Longrightarrow> x \<in> set xs \<Longrightarrow>
      fst (f n x) = stamp n (length (acc x)) \<and> out (snd (f n x)) = stamped g n (acc x)"
  shows "fst (thread_map f seq xs) = stamp seq (length (concat (map acc xs))) \<and>
    concat (map out (snd (thread_map f seq xs))) = stamped g seq (concat (map acc xs))"
  using assms
proof (induction xs arbitrary: seq)
  case Nil
  then show ?case by simp
next
  case (Cons x xs)
  obtain n y where 1: "f seq x = (n, y)" by force
  have n: "n = stamp seq (length (acc x))" "out y = stamped g seq (acc x)"
    using Cons.prems(2) [of seq x] Cons.prems(1) 1 by simp_all
  have "fst (thread_map f n xs) = stamp n (length (concat (map acc xs))) \<and>
    concat (map out (snd (thread_map f n xs))) = stamped g n (concat (map acc xs))"
    by (rule Cons.IH) (use Cons.prems(2) n in simp_all)
  then show ?case using 1 n by (simp add: case_prod_unfold Let_def stamped_append)
qed

end
