(* ===== verification/Ingest_Common.thy ===== *)
theory Ingest_Common
  imports Attribute_Value Float64 Threading
begin

text \<open>
  \<open>src/ingest/mod.rs\<close> and \<open>src/ingest/label.rs\<close>: what all ingest paths share. Request bodies are
  bounded before anything is decoded; timestamps of any unit become nanoseconds; resource
  attributes become labels. The decompressors (\<open>flate2\<close>, \<open>snap\<close>) are parameters.
\<close>

section \<open>Request bodies\<close>

definition max_decompressed_size :: usize where
  "max_decompressed_size = 64 * 1024 * 1024"

datatype ingest_error =
    GzipDecompression string
  | SnappyDecompression string
  | PayloadTooLarge

text \<open>
  \<open>gz_read\<close> is \<open>take(n).read_to_end\<close> on a gzip decoder: at most \<open>n\<close> bytes, or the error met on
  the way. \<open>sn_decompress\<close> fills the buffer it is given and returns it with the number of bytes
  written.
\<close>

record codec_ops =
  gz_read :: "nat \<Rightarrow> u8 list \<Rightarrow> string + u8 list"
  sn_decompress_len :: "u8 list \<Rightarrow> string + nat"
  sn_decompress :: "u8 list \<Rightarrow> u8 list \<Rightarrow> string + u8 list \<times> nat"

text \<open>A decompressor writes into the slice it is given; it cannot change its length.\<close>

definition codec_laws :: "codec_ops \<Rightarrow> bool" where
  "codec_laws D \<longleftrightarrow>
     (\<forall>body buf buf' n. sn_decompress D body buf = Inr (buf', n) \<longrightarrow> length buf' = length buf)"

text \<open>The value of a header, where it is visible ASCII.\<close>

type_synonym headers = "(string \<times> string) list"

definition ensure_body_size :: "u8 list \<Rightarrow> ingest_error + unit" where
  "ensure_body_size body =
     (if max_decompressed_size < length body then Inl PayloadTooLarge else Inr ())"

definition eq_ignore_ascii_case :: "string \<Rightarrow> string \<Rightarrow> bool" where
  "eq_ignore_ascii_case a b \<longleftrightarrow> map ascii_lower a = map ascii_lower b"

definition header_is :: "headers \<Rightarrow> string \<Rightarrow> string \<Rightarrow> bool" where
  "header_is hs name v \<longleftrightarrow>
     (case hm_get hs name of None \<Rightarrow> False | Some x \<Rightarrow> eq_ignore_ascii_case x v)"

definition decode_body :: "codec_ops \<Rightarrow> headers \<Rightarrow> u8 list \<Rightarrow> ingest_error + u8 list" where
  "decode_body D hs body =
     (if header_is hs ''content-encoding'' ''gzip'' then
        case gz_read D (max_decompressed_size + 1) body of
          Inl e \<Rightarrow> Inl (GzipDecompression e)
        | Inr out \<Rightarrow>
            if max_decompressed_size < length out then Inl PayloadTooLarge else Inr out
      else map_sum id (\<lambda>_. body) (ensure_body_size body))"

definition decode_snappy_body :: "codec_ops \<Rightarrow> u8 list \<Rightarrow> ingest_error + u8 list" where
  "decode_snappy_body D body =
     (case sn_decompress_len D body of
        Inl e \<Rightarrow> Inl (SnappyDecompression e)
      | Inr len \<Rightarrow>
          if max_decompressed_size < len then Inl PayloadTooLarge
          else case sn_decompress D body (replicate len 0) of
                 Inl e \<Rightarrow> Inl (SnappyDecompression e)
               | Inr (buf, written) \<Rightarrow> Inr (take written buf))"

definition is_json_content_type :: "headers \<Rightarrow> bool" where
  "is_json_content_type hs \<longleftrightarrow>
     (case hm_get hs ''content-type'' of
        None \<Rightarrow> False
      | Some v \<Rightarrow>
          (let lower = map ascii_lower v
           in lower = ''application/json'' \<or> starts_with lower ''application/json;'' \<or>
              starts_with lower ''application/json ''))"

section \<open>Timestamps\<close>

definition u64_to_i64_saturating :: "u64 \<Rightarrow> i64" where
  "u64_to_i64_saturating v = (if i64_max < int v then i64_max else int v)"

definition classify_to_ns :: "i64 \<Rightarrow> i64" where
  "classify_to_ns n =
     (if 1000000000000000000 < n then n
      else if 1000000000000000 < n then i64_saturating_mul n 1000
      else if 1000000000000 < n then i64_saturating_mul n 1000000
      else i64_saturating_mul n 1000000000)"

text \<open>\<open>as i64\<close> on a float: towards zero, saturating, zero for NaN.\<close>

definition f64_to_i64 :: "f64 \<Rightarrow> i64" where
  "f64_to_i64 x =
     (if is_nan x then 0
      else i64_saturate
        ((if f64_neg x then - 1 else 1) * int (units_of_bits (f64_bits x) div f64_one_units)))"

definition ns_per_sec :: f64 where
  "ns_per_sec = f64_of_int 1000000000"

definition float_seconds_to_ns :: "f64 \<Rightarrow> i64 option" where
  "float_seconds_to_ns secs =
     (if \<not> is_finite secs \<or> f64_lt (f64_div (f64_of_int i64_max) ns_per_sec) secs \<or>
         f64_lt secs (f64_div (f64_of_int i64_min) ns_per_sec)
      then None
      else Some (f64_to_i64 (f64_mul secs ns_per_sec)))"

definition parse_timestamp_ns :: "string \<Rightarrow> i64 option" where
  "parse_timestamp_ns s =
     (case parse_i64 (trim s) of
        Some n \<Rightarrow> Some (classify_to_ns n)
      | None \<Rightarrow> Option.bind (parse_f64 (trim s)) float_seconds_to_ns)"

section \<open>OTLP attributes and labels\<close>

text \<open>
  \<open>AnyValue\<close> and \<open>KeyValue\<close> of the OTLP protocol; \<open>NoValue\<close> is a value whose \<open>oneof\<close> is not set.
\<close>

datatype any_value =
    NoValue
  | StringValue string
  | BoolValue bool
  | IntValue i64
  | DoubleValue f64
  | BytesValue "u8 list"
  | ArrayValue "any_value list"
  | KvlistValue "(string \<times> any_value option) list"

type_synonym key_value = "string \<times> any_value option"
type_synonym resource = "key_value list"

definition any_value_to_string :: "(f64 \<Rightarrow> string) \<Rightarrow> any_value \<Rightarrow> string option" where
  "any_value_to_string fmt v = (case v of
     StringValue s \<Rightarrow> Some s | IntValue i \<Rightarrow> Some (int_to_string i) | DoubleValue f \<Rightarrow> Some (fmt f)
   | BoolValue b \<Rightarrow> Some (bool_to_string b) | _ \<Rightarrow> None)"

definition extract_key_values :: "(f64 \<Rightarrow> string) \<Rightarrow> key_value list \<Rightarrow> (string \<times> string) list" where
  "extract_key_values fmt attrs =
     List.map_filter (\<lambda>(k, v). map_option (Pair k) (Option.bind v (any_value_to_string fmt))) attrs"

definition extract_resource_labels ::
  "(f64 \<Rightarrow> string) \<Rightarrow> resource option \<Rightarrow> (string \<times> string) list" where
  "extract_resource_labels fmt r = (case r of None \<Rightarrow> [] | Some attrs \<Rightarrow> extract_key_values fmt attrs)"

text \<open>\<open>Iterator::position\<close> of the first pair with a key, and \<open>Vec::remove\<close>.\<close>

fun key_position :: "'k \<Rightarrow> ('k \<times> 'v) list \<Rightarrow> nat option" where
  "key_position k [] = None"
| "key_position k (p # ps) = (if fst p = k then Some 0 else map_option Suc (key_position k ps))"

definition vec_remove :: "nat \<Rightarrow> 'a list \<Rightarrow> 'a list" where
  "vec_remove n xs = take n xs @ drop (Suc n) xs"

definition promote_service_name :: "(string \<times> string) list \<Rightarrow> (string \<times> string) list" where
  "promote_service_name labels =
     (case key_position ''service.name'' labels of
        None \<Rightarrow> labels
      | Some pos \<Rightarrow>
          (let service_value = snd (labels ! pos); rest = vec_remove pos labels
           in case key_position ''service'' rest of
                Some j \<Rightarrow> rest[j := (''service'', service_value)]
              | None \<Rightarrow> rest @ [(''service'', service_value)]))"

section \<open>Lemmas\<close>

lemma key_position_None: "key_position k ps = None \<longleftrightarrow> k \<notin> fst ` set ps"
  by (induction ps) auto

lemma key_position_Some:
  "key_position k ps = Some n \<Longrightarrow> n < length ps \<and> fst (ps ! n) = k \<and> map_of ps k = Some (snd (ps ! n))"
  by (induction ps arbitrary: n) (auto split: if_splits)

text \<open>A label list after promotion: its first \<open>service\<close> label is the promoted name.\<close>

lemma map_of_update_at_first:
  "key_position k ps = Some n \<Longrightarrow> map_of (ps[n := (k, v)]) = (map_of ps)(k \<mapsto> v)"
  by (induction ps arbitrary: n) (auto split: if_splits)

lemma map_of_remove_first:
  "key_position k ps = Some n \<Longrightarrow> k' \<noteq> k \<Longrightarrow> map_of (vec_remove n ps) k' = map_of ps k'"
  by (induction ps arbitrary: n) (auto simp: vec_remove_def split: if_splits)

lemma promote_service_name_spec:
  "map_of (promote_service_name labels) n =
     (case map_of labels ''service.name'' of
        None \<Rightarrow> map_of labels n
      | Some v \<Rightarrow> if n = ''service'' then Some v
                  else if n = ''service.name'' then map_of (promote_service_name labels) n
                  else map_of labels n)"
proof (cases "key_position ''service.name'' labels")
  case None
  then have "map_of labels ''service.name'' = None"
    by (simp add: key_position_None map_of_eq_None_iff)
  with None show ?thesis by (simp add: promote_service_name_def)
next
  case (Some pos)
  note P = key_position_Some [OF Some]
  let ?rest = "vec_remove pos labels" and ?v = "snd (labels ! pos)"
  have rest: "map_of ?rest n' = map_of labels n'" if "n' \<noteq> ''service.name''" for n'
    using map_of_remove_first [OF Some that] .
  have "map_of (promote_service_name labels) n =
      (if n = ''service'' then Some ?v else map_of ?rest n)"
  proof (cases "key_position ''service'' ?rest")
    case None
    then have "map_of ?rest ''service'' = None" by (simp add: key_position_None map_of_eq_None_iff)
    with Some None show ?thesis
      by (auto simp: promote_service_name_def Let_def map_add_def split: option.splits)
  next
    case (Some j)
    with \<open>key_position ''service.name'' labels = Some pos\<close> show ?thesis
      by (simp add: promote_service_name_def Let_def map_of_update_at_first)
  qed
  with P rest show ?thesis by auto
qed

end
