(* ===== verification/Logql_Handlers.thy ===== *)
theory Logql_Handlers
  imports Logql_Eval Json Ingest_Common
begin

text \<open>
  The Loki-compatible endpoints, \<open>src/query/logql/handlers.rs\<close>: the window, step and limit of a
  query, the global entry limit over all streams, and the JSON of the result.
\<close>

definition logql_hint :: string where
  "logql_hint = (let q = [CHR 0x22] in ''Example: {service='' @ q @ ''myapp'' @ q @ '', level='' @ q @ ''error'' @ q @
     ''} |= '' @ q @ ''timeout'' @ q)"

definition logql_max_query_steps :: i64 where "logql_max_query_steps = 11000"
definition default_entry_limit :: nat where "default_entry_limit = 1000"
definition max_entry_limit :: nat where "max_entry_limit = 10000"
definition one_hour_ns :: i64 where "one_hour_ns = 3600000000000"

record log_query_params =
  lq_query :: string
  lq_time :: "string option"
  lq_limit :: "usize option"

record log_range_params =
  lr_query :: string
  lr_start :: "string option"
  lr_end :: "string option"
  lr_step :: "string option"
  lr_limit :: "usize option"

definition log_bounded_limit :: "usize option \<Rightarrow> usize" where
  "log_bounded_limit limit = min (case limit of None \<Rightarrow> default_entry_limit | Some n \<Rightarrow> n) max_entry_limit"

text \<open>The system clock is a signed distance from the epoch in nanoseconds.\<close>

definition now_ns :: "int \<Rightarrow> i64" where
  "now_ns clock = duration_as_i64_ns (nat clock)"

section \<open>Results\<close>

text \<open>
  The limit counts the entries of all streams together: the newest stay, in the order they were
  collected where times are equal, and each stream is sorted again.
\<close>

definition tagged_entries :: "stream_result list \<Rightarrow> (nat \<times> resolved_entry) list" where
  "tagged_entries streams = concat (map (\<lambda>(idx, sr). map (Pair idx) (sr_entries sr)) (enumerate 0 streams))"

definition limit_entries :: "usize \<Rightarrow> stream_result list \<Rightarrow> stream_result list" where
  "limit_entries limit streams =
     (if sum_list (map (length \<circ> sr_entries) streams) \<le> limit then streams
      else let kept = take limit (sort_by_key_desc (re_timestamp_ns \<circ> snd) (tagged_entries streams));
               drained = map (\<lambda>sr. sr\<lparr>sr_entries := []\<rparr>) streams;
               refilled = fold (\<lambda>(idx, e) srs. srs[idx := (srs ! idx)\<lparr>sr_entries := sr_entries (srs ! idx) @ [e]\<rparr>])
                            kept drained
           in map (\<lambda>sr. sr\<lparr>sr_entries := sort_key re_timestamp_ns (sr_entries sr)\<rparr>) refilled)"

definition string_members :: "(string \<times> string) list \<Rightarrow> json" where
  "string_members kvs = json_map (map (\<lambda>(k, v). (k, JString v)) kvs)"

definition entry_metadata :: "resolved_entry \<Rightarrow> (string \<times> string) list" where
  "entry_metadata e =
     (case re_trace_id e of None \<Rightarrow> [] | Some t \<Rightarrow> [(''trace_id'', t)]) @
     (case re_span_id e of None \<Rightarrow> [] | Some sid \<Rightarrow> [(''span_id'', sid)]) @
     re_attributes e"

definition entry_json :: "resolved_entry \<Rightarrow> json" where
  "entry_json e =
     (let base = [JString (int_to_string (re_timestamp_ns e)), JString (re_line e)]
      in JArray (if entry_metadata e = [] then base else base @ [string_members (entry_metadata e)]))"

definition stream_json :: "stream_result \<Rightarrow> json" where
  "stream_json sr = json_map [(''stream'', string_members (sr_labels sr)),
     (''values'', JArray (map entry_json (sr_entries sr)))]"

definition metric_json :: "(f64 \<Rightarrow> string) \<Rightarrow> metric_result \<Rightarrow> json" where
  "metric_json fmt mr = json_map [(''metric'', string_members (mr_labels mr)),
     (''values'', JArray (map (\<lambda>(t, v). JArray
        [json_f64 (f64_div (f64_of_int t) (f64_of_int 1000000000)), JString (fmt v)]) (mr_samples mr)))]"

definition loki_success :: "string \<Rightarrow> json list \<Rightarrow> json" where
  "loki_success kind result = json_map [(''status'', JString ''success''),
     (''data'', json_map [(''resultType'', JString kind), (''result'', JArray result)])]"

definition format_logql_result :: "(f64 \<Rightarrow> string) \<Rightarrow> logql_result \<Rightarrow> usize \<Rightarrow> json" where
  "format_logql_result fmt r limit =
     (case r of
        Streams streams \<Rightarrow> loki_success ''streams''
          (map stream_json (filter (\<lambda>sr. sr_entries sr \<noteq> []) (limit_entries limit streams)))
      | Matrix metrics \<Rightarrow> loki_success ''matrix'' (map (metric_json fmt) metrics))"

section \<open>Queries\<close>

definition loki_error :: "string \<Rightarrow> response" where
  "loki_error message = (status_bad_request, json_map [(''status'', JString ''error''), (''error'', JString message)])"

definition logql_error_text :: "logql_parse_error \<Rightarrow> string" where
  "logql_error_text e = (case e of LogqlParse pos msg \<Rightarrow> ''parse error at position '' @ nat_to_string pos @ '': '' @ msg)"

definition loki_parse_error :: "logql_parse_error \<Rightarrow> response" where
  "loki_parse_error e = (status_bad_request, json_map [(''status'', JString ''error''),
     (''error'', JString (logql_error_text e)), (''hint'', JString logql_hint)])"

definition loki_time :: "string \<Rightarrow> string option \<Rightarrow> i64 \<Rightarrow> response + i64" where
  "loki_time name v dflt =
     (case v of
        None \<Rightarrow> Inr dflt
      | Some t \<Rightarrow> (case parse_timestamp_ns t of
            None \<Rightarrow> Inl (loki_error (''invalid '' @ name @ '': '' @ t))
          | Some ns \<Rightarrow> Inr ns))"

definition loki_answer ::
  "('i, 'r, 'v) log_env \<Rightarrow> 'i log_store \<Rightarrow> 'r logql_expr \<Rightarrow> i64 \<Rightarrow> i64 \<Rightarrow> i64 option \<Rightarrow> usize \<Rightarrow> panic + response" where
  "loki_answer E s expr start_ns end_ns step_ns limit =
     map_sum id (\<lambda>r. (status_ok, format_logql_result (lv_fmt E) r limit))
       (evaluate_logql_limited E expr s start_ns end_ns step_ns (Some limit))"

text \<open>An instant query looks back one hour; the subtraction wraps.\<close>

definition loki_query :: "('i, 'r, 'v) log_env \<Rightarrow> nom_ops \<Rightarrow> int \<Rightarrow> 'i log_store \<Rightarrow> log_query_params \<Rightarrow> panic + response" where
  "loki_query E N clock s params =
     (case parse_logql N (lv_regex E) (lq_query params) of
        Inl p \<Rightarrow> Inl p
      | Inr (Inl e) \<Rightarrow> Inr (loki_parse_error e)
      | Inr (Inr expr) \<Rightarrow>
          (case loki_time ''time'' (lq_time params) (now_ns clock) of
             Inl r \<Rightarrow> Inr r
           | Inr t \<Rightarrow> loki_answer E s expr (i64_wrapping_sub t one_hour_ns) t None (log_bounded_limit (lq_limit params))))"

definition loki_step :: "string option \<Rightarrow> panic + response + i64 option" where
  "loki_step v =
     (case v of
        None \<Rightarrow> Inr (Inr None)
      | Some t \<Rightarrow> map_sum id (\<lambda>d. case d of
            None \<Rightarrow> Inl (loki_error (''invalid step: '' @ t))
          | Some d \<Rightarrow> Inr (Some (duration_as_i64_ns d))) (parse_duration t))"

text \<open>A metric query without a step advances by its range; streams have no steps.\<close>

definition effective_step :: "'r logql_expr \<Rightarrow> i64 option \<Rightarrow> i64 option" where
  "effective_step expr step_ns =
     (case step_ns of
        Some st \<Rightarrow> Some st
      | None \<Rightarrow> (case expr of MetricQuery func inner dur \<Rightarrow> Some (duration_as_i64_ns dur) | _ \<Rightarrow> None))"

definition loki_num_steps :: "i64 \<Rightarrow> i64 \<Rightarrow> i64 \<Rightarrow> i64" where
  "loki_num_steps start_ns end_ns step = max (i64_saturating_sub end_ns start_ns) 0 div step"

definition too_many_steps :: "i64 option \<Rightarrow> i64 \<Rightarrow> i64 \<Rightarrow> i64 option" where
  "too_many_steps step start_ns end_ns =
     (case step of
        None \<Rightarrow> None
      | Some st \<Rightarrow> if 0 < st \<and> logql_max_query_steps \<le> loki_num_steps start_ns end_ns st
                   then Some (loki_num_steps start_ns end_ns st) else None)"

definition loki_run_range ::
  "('i, 'r, 'v) log_env \<Rightarrow> 'i log_store \<Rightarrow> 'r logql_expr \<Rightarrow> i64 \<Rightarrow> i64 \<Rightarrow> i64 option \<Rightarrow> usize \<Rightarrow> panic + response" where
  "loki_run_range E s expr start_ns end_ns step_ns limit =
     (if step_ns = Some 0 then Inr (loki_error ''step must be positive'')
      else case too_many_steps (effective_step expr step_ns) start_ns end_ns of
             Some n \<Rightarrow> Inr (loki_error (''query would produce '' @ int_to_string n @
                        '' steps, exceeding maximum of '' @ int_to_string logql_max_query_steps))
           | None \<Rightarrow> loki_answer E s expr start_ns end_ns step_ns limit)"

definition loki_query_range ::
  "('i, 'r, 'v) log_env \<Rightarrow> nom_ops \<Rightarrow> int \<Rightarrow> 'i log_store \<Rightarrow> log_range_params \<Rightarrow> panic + response" where
  "loki_query_range E N clock s params =
     (case parse_logql N (lv_regex E) (lr_query params) of
        Inl p \<Rightarrow> Inl p
      | Inr (Inl e) \<Rightarrow> Inr (loki_parse_error e)
      | Inr (Inr expr) \<Rightarrow>
          (case loki_time ''start'' (lr_start params) (now_ns clock - one_hour_ns) of
             Inl r \<Rightarrow> Inr r
           | Inr start_ns \<Rightarrow>
               (case loki_time ''end'' (lr_end params) (now_ns clock) of
                  Inl r \<Rightarrow> Inr r
                | Inr end_ns \<Rightarrow>
                    (case loki_step (lr_step params) of
                       Inl p \<Rightarrow> Inl p
                     | Inr (Inl r) \<Rightarrow> Inr r
                     | Inr (Inr step_ns) \<Rightarrow>
                         loki_run_range E s expr start_ns end_ns step_ns (log_bounded_limit (lr_limit params))))))"

section \<open>Labels\<close>

definition loki_data :: "string list \<Rightarrow> response" where
  "loki_data xs = (status_ok, json_map [(''status'', JString ''success''), (''data'', json_strings xs)])"

definition loki_label_names :: "('i, 'r, 'v) log_env \<Rightarrow> 'i log_store \<Rightarrow> response" where
  "loki_label_names E s = loki_data (log_label_names (lv_rodeo E) s)"

definition loki_label_values :: "('i, 'r, 'v) log_env \<Rightarrow> 'i log_store \<Rightarrow> string \<Rightarrow> response" where
  "loki_label_values E s name = loki_data (log_label_values (lv_rodeo E) s name)"

end
