(* ===== verification/Logql_Eval_Correct.thy ===== *)
theory Logql_Eval_Correct
  imports Logql_Eval Log_Store_Correct
begin

text \<open>
  Correctness of the LogQL evaluator. A log query with a limit returns the newest of what the
  query without one returns, in time order per stream, whatever order the heap iterates in; a
  metric query samples a closed-form grid of times, each over its closed window; and no query
  whose start is not after its end panics.
\<close>

section \<open>Lookups\<close>

definition entries_of :: "'i log_store \<Rightarrow> u64 \<Rightarrow> log_entry list" where
  "entries_of s sid = (case hm_get (lg_streams s) sid of None \<Rightarrow> [] | Some st \<Rightarrow> ls_entries st)"

definition in_window :: "i64 \<Rightarrow> i64 \<Rightarrow> log_entry \<Rightarrow> bool" where
  "in_window a b e \<longleftrightarrow> a \<le> le_timestamp_ns e \<and> le_timestamp_ns e \<le> b"

lemma get_entries_window:
  assumes "log_wf R s" and "a \<le> b"
  shows "get_entries s sid a b = Inr (filter (in_window a b) (entries_of s sid))"
proof (cases "hm_get (lg_streams s) sid")
  case None
  then show ?thesis by (simp add: get_entries_def entries_of_def)
next
  case (Some st)
  have "\<not> (\<exists>e \<in> set (ls_entries st). b < le_timestamp_ns e \<and> le_timestamp_ns e < a)" using assms(2) by auto
  with get_entries_spec [OF log_base_wf [OF assms(1)] Some, of a b] Some show ?thesis
    by (simp add: entries_of_def in_window_def [abs_def])
qed

text \<open>The entries of a stream that a log query keeps.\<close>

definition matched_entries ::
  "('i, 'r, 'v) log_env \<Rightarrow> 'r logql_stage list \<Rightarrow> 'i log_store \<Rightarrow> i64 \<Rightarrow> i64 \<Rightarrow> u64 \<Rightarrow> log_entry list" where
  "matched_entries E stages s a b sid =
     filter (\<lambda>e. apply_stages E (le_line e) stages (stream_labels E s sid)) (filter (in_window a b) (entries_of s sid))"

definition stream_answer ::
  "('i, 'r, 'v) log_env \<Rightarrow> 'r logql_stage list \<Rightarrow> 'i log_store \<Rightarrow> i64 \<Rightarrow> i64 \<Rightarrow> u64 \<Rightarrow> stream_result list" where
  "stream_answer E stages s a b sid =
     (let kept = matched_entries E stages s a b sid
      in if kept = [] then []
         else [\<lparr>sr_labels = stream_labels E s sid, sr_entries = map (resolve_entry E (lg_interner s)) kept\<rparr>])"

lemma unlimited_total:
  assumes "log_wf R s" and "a \<le> b"
  shows "evaluate_unlimited_stream_query E sids stages s a b = Inr (concat (map (stream_answer E stages s a b) sids))"
  unfolding evaluate_unlimited_stream_query_def
  by (rule collect_streams_total)
    (simp add: unlimited_stream_def get_entries_window [OF assms] stream_answer_def matched_entries_def Let_def)

section \<open>The heap of newest entries\<close>

definition item_pair :: "heap_item \<Rightarrow> u64 \<times> resolved_entry" where
  "item_pair x = (hi_stream x, entry_of_item x)"

abbreviation pair_time :: "u64 \<times> resolved_entry \<Rightarrow> i64" where
  "pair_time p \<equiv> re_timestamp_ns (snd p)"

lemma item_pair_of: "item_pair (heap_item_of E i sid q e) = (sid, resolve_entry E i e)"
  by (simp add: item_pair_def entry_of_item_def heap_item_of_def resolve_entry_def)

lemma item_time: "pair_time (item_pair x) = hi_timestamp_ns x"
  by (simp add: item_pair_def entry_of_item_def)

text \<open>The heap holds the newest of the multiset seen so far.\<close>

definition keeps_newest :: "nat \<Rightarrow> (u64 \<times> resolved_entry) multiset \<Rightarrow> (u64 \<times> resolved_entry) multiset \<Rightarrow> bool" where
  "keeps_newest n seen kept \<longleftrightarrow> kept \<subseteq># seen \<and> size kept = min n (size seen) \<and>
     (\<forall>x \<in># seen - kept. \<forall>y \<in># kept. pair_time x \<le> pair_time y)"

definition heap_ok :: "nat \<Rightarrow> (u64 \<times> resolved_entry) multiset \<Rightarrow> heap_item list \<Rightarrow> bool" where
  "heap_ok n seen newest \<longleftrightarrow> sorted (map heap_key newest) \<and> keeps_newest n seen (mset (map item_pair newest))"

lemma heap_ok_empty: "heap_ok n {#} []"
  by (simp add: heap_ok_def keeps_newest_def)

lemma mset_insort_key: "mset (insort_key f x xs) = add_mset x (mset xs)"
  by (induction xs) simp_all

lemma keeps_newest_room:
  assumes "keeps_newest n seen kept" and "size kept < n"
  shows "keeps_newest n (add_mset p seen) (add_mset p kept)"
proof -
  have "size kept = size seen" "kept \<subseteq># seen" using assms by (auto simp: keeps_newest_def min_def split: if_splits)
  then have "kept = seen" by (metis mset_subset_size nless_le subset_mset.le_imp_less_or_eq)
  with assms(2) show ?thesis by (simp add: keeps_newest_def)
qed

lemma keeps_newest_replace:
  assumes k: "keeps_newest n seen (add_mset m kept)" and n: "Suc (size kept) = n"
    and m: "\<forall>y \<in># kept. pair_time m \<le> pair_time y" and p: "pair_time m < pair_time p"
  shows "keeps_newest n (add_mset p seen) (add_mset p kept)"
proof -
  have sub: "add_mset m kept \<subseteq># seen" and old: "\<forall>x \<in># seen - add_mset m kept. pair_time x \<le> pair_time m"
    using k by (auto simp: keeps_newest_def)
  obtain rest where rest: "seen = add_mset m kept + rest" using sub by (metis mset_subset_eq_exists_conv)
  then have diff: "add_mset p seen - add_mset p kept = add_mset m rest" by simp
  have "\<forall>x \<in># add_mset m rest. pair_time x \<le> pair_time m" using old rest by simp
  then have "\<forall>x \<in># add_mset m rest. \<forall>y \<in># add_mset p kept. pair_time x \<le> pair_time y"
    using m p by (metis (no_types, opaque_lifting) insert_iff less_imp_le order_trans set_mset_add_mset_insert)
  with diff n rest show ?thesis by (simp add: keeps_newest_def)
qed

lemma keeps_newest_reject:
  assumes k: "keeps_newest n seen kept" and "size kept = n" and "\<forall>y \<in># kept. pair_time p \<le> pair_time y"
  shows "keeps_newest n (add_mset p seen) kept"
proof -
  have sub: "kept \<subseteq># seen" using k by (simp add: keeps_newest_def)
  then have "add_mset p seen - kept = add_mset p (seen - kept)" by (metis multiset_diff_union_assoc union_mset_add_mset_right add_mset_add_single union_commute)
  moreover have "kept \<subseteq># add_mset p seen" using sub by (metis mset_subset_eq_add_right add_mset_add_single subset_mset.trans mset_subset_eq_add_left)
  ultimately show ?thesis using assms by (auto simp: keeps_newest_def)
qed

lemma heap_step:
  assumes n: "0 < n" and ok: "heap_ok n seen newest"
  shows "heap_ok n (add_mset (sid, resolve_entry E i e) seen)
    (if should_insert n newest (le_timestamp_ns e)
     then insort_key heap_key (heap_item_of E i sid q e) (if length newest = n then tl newest else newest)
     else newest)"
proof -
  let ?x = "heap_item_of E i sid q e" and ?p = "(sid, resolve_entry E i e)"
  have s: "sorted (map heap_key newest)" and k: "keeps_newest n seen (mset (map item_pair newest))"
    using ok by (simp_all add: heap_ok_def)
  have len: "length newest \<le> n" using k by (simp add: keeps_newest_def)
  have t: "pair_time ?p = le_timestamp_ns e" by (simp add: resolve_entry_def)
  have pair: "mset (map item_pair (insort_key heap_key ?x xs)) = add_mset ?p (mset (map item_pair xs))" for xs
    by (simp add: mset_insort_key item_pair_of)
  show ?thesis
  proof (cases "length newest < n")
    case True
    then show ?thesis
      using keeps_newest_room [OF k, of ?p] s
      by (simp add: heap_ok_def should_insert_def sorted_insort_key pair del: mset_map)
  next
    case False
    with len have full: "length newest = n" by simp
    with n obtain m others where h: "newest = m # others" by (cases newest) auto
    have min: "hi_timestamp_ns m \<le> hi_timestamp_ns y" if "y \<in> set others" for y
      using s that by (auto simp: h heap_key_def less_eq_prod_def)
    show ?thesis
    proof (cases "hi_timestamp_ns m < le_timestamp_ns e")
      case True
      have "keeps_newest n (add_mset ?p seen) (add_mset ?p (mset (map item_pair others)))"
        by (rule keeps_newest_replace [of n seen "item_pair m"]) (use k full min True t in \<open>auto simp: h item_time\<close>)
      then show ?thesis
        using s True full by (simp add: heap_ok_def should_insert_def h sorted_insort_key pair del: mset_map)
    next
      case False
      have "keeps_newest n (add_mset ?p seen) (mset (map item_pair newest))"
        by (rule keeps_newest_reject [OF k]) (use full False t in \<open>auto simp: h item_time dest: min\<close>)
      then show ?thesis using s False full by (simp add: heap_ok_def should_insert_def h)
    qed
  qed
qed

lemma newest_entries_ok:
  assumes "0 < n"
  shows "heap_ok n seen newest \<Longrightarrow>
    heap_ok n (seen + mset (map (\<lambda>e. (sid, resolve_entry E i e)) es)) (fst (newest_entries E i n sid es (newest, q)))"
proof (induction es arbitrary: seen newest q)
  case (Cons e es)
  note step = heap_step [OF assms Cons.prems, of sid E i e q]
  show ?case
    using Cons.IH [OF step] by (cases "should_insert n newest (le_timestamp_ns e)") (simp_all add: add.commute)
qed simp

lemma newest_streams_ok:
  assumes "log_wf R s" and "a \<le> b" and "0 < n"
  shows "heap_ok n seen newest \<Longrightarrow> \<exists>newest' q'. newest_streams E stages s a b n sids (newest, q) = Inr (newest', q') \<and>
    heap_ok n (seen + mset (concat (map (\<lambda>sid. map (\<lambda>e. (sid, resolve_entry E (lg_interner s) e))
      (matched_entries E stages s a b sid)) sids))) newest'"
proof (induction sids arbitrary: seen newest q)
  case (Cons sid sids)
  obtain newest1 q1 where one: "newest_entries E (lg_interner s) n sid (matched_entries E stages s a b sid) (newest, q) = (newest1, q1)"
    by force
  with newest_entries_ok [OF assms(3) Cons.prems, of sid E "lg_interner s" "matched_entries E stages s a b sid" q]
  have ok: "heap_ok n (seen + mset (map (\<lambda>e. (sid, resolve_entry E (lg_interner s) e)) (matched_entries E stages s a b sid))) newest1"
    by simp
  have "newest_streams E stages s a b n (sid # sids) (newest, q) = newest_streams E stages s a b n sids (newest1, q1)"
    unfolding one [symmetric] matched_entries_def by (simp add: get_entries_window [OF assms(1,2)] del: filter_filter)
  then show ?case using Cons.IH [OF ok, of q1] by (simp add: add.assoc del: newest_streams.simps)
qed simp

section \<open>Grouping\<close>

lemma group_items_get:
  "hm_get (group_items xs) k =
    (case map entry_of_item (filter (\<lambda>x. hi_stream x = k) xs) of [] \<Rightarrow> None | es \<Rightarrow> Some es)"
  and group_items_wf: "hm_wf (group_items xs)"
  unfolding group_items_def by (auto simp: group_fold_get intro: group_fold_keys split: list.split)

text \<open>Splitting a list by a key and putting the parts together again.\<close>

lemma mset_group:
  assumes "distinct ks" and "f ` set xs \<subseteq> set ks"
  shows "mset (concat (map (\<lambda>k. map (g k) (filter (\<lambda>x. f x = k) xs)) ks)) = mset (map (\<lambda>x. g (f x) x) xs)"
  using assms
proof (induction ks arbitrary: xs)
  case (Cons k ks)
  let ?others = "filter (\<lambda>x. f x \<noteq> k) xs"
  have "filter (\<lambda>x. f x = k') ?others = filter (\<lambda>x. f x = k') xs" if "k' \<in> set ks" for k'
    using that Cons.prems(1) by (auto intro!: filter_cong)
  then have same: "map (\<lambda>k'. map (g k') (filter (\<lambda>x. f x = k') ?others)) ks = map (\<lambda>k'. map (g k') (filter (\<lambda>x. f x = k') xs)) ks"
    by simp
  have ih: "mset (concat (map (\<lambda>k'. map (g k') (filter (\<lambda>x. f x = k') ?others)) ks)) = mset (map (\<lambda>x. g (f x) x) ?others)"
    by (rule Cons.IH) (use Cons.prems in auto)
  have here: "map (g k) (filter (\<lambda>x. f x = k) xs) = map (\<lambda>x. g (f x) x) (filter (\<lambda>x. f x = k) xs)"
    by (rule map_cong) simp_all
  have "mset (map (\<lambda>x. g (f x) x) xs) = mset (map (\<lambda>x. g (f x) x) (filter (\<lambda>x. f x = k) xs)) + mset (map (\<lambda>x. g (f x) x) ?others)"
    by (induction xs) simp_all
  then show ?case using ih unfolding same list.map concat.simps mset_append here by simp
qed simp

text \<open>The labelled entries of an answer.\<close>

definition labelled_entries :: "stream_result list \<Rightarrow> ((string \<times> string) list \<times> resolved_entry) list" where
  "labelled_entries rs = concat (map (\<lambda>r. map (Pair (sr_labels r)) (sr_entries r)) rs)"

definition label_pair ::
  "('i, 'r, 'v) log_env \<Rightarrow> 'i log_store \<Rightarrow> u64 \<times> resolved_entry \<Rightarrow> (string \<times> string) list \<times> resolved_entry" where
  "label_pair E s p = (stream_labels E s (fst p), snd p)"

lemma grouped_results_eq:
  "grouped_results E s (group_items xs) =
    map (\<lambda>sid. \<lparr>sr_labels = stream_labels E s sid,
        sr_entries = sort_key re_timestamp_ns (map entry_of_item (filter (\<lambda>x. hi_stream x = sid) xs))\<rparr>)
      (sort (hm_keys (group_items xs)))"
  and group_keys: "set (hm_keys (group_items xs)) = hi_stream ` set xs"
proof -
  have key: "k \<in> set (hm_keys (group_items xs)) \<longleftrightarrow> k \<in> hi_stream ` set xs" for k
    unfolding hm_key_iff group_items_get using filter_empty_conv [of "\<lambda>x. hi_stream x = k" xs]
    by (cases "filter (\<lambda>x. hi_stream x = k) xs") auto
  then show "set (hm_keys (group_items xs)) = hi_stream ` set xs" by blast
  have "hm_get (group_items xs) k = Some (map entry_of_item (filter (\<lambda>x. hi_stream x = k) xs))"
    if "k \<in> set (hm_keys (group_items xs))" for k
    using that unfolding hm_key_iff group_items_get by (auto split: list.splits)
  then show "grouped_results E s (group_items xs) =
    map (\<lambda>sid. \<lparr>sr_labels = stream_labels E s sid,
        sr_entries = sort_key re_timestamp_ns (map entry_of_item (filter (\<lambda>x. hi_stream x = sid) xs))\<rparr>)
      (sort (hm_keys (group_items xs)))"
    unfolding grouped_results_def List.map_filter_def by (intro map_cong) (auto simp: filter_True intro!: filter_True)
qed

lemma grouped_entries:
  "mset (labelled_entries (grouped_results E s (group_items xs))) = image_mset (label_pair E s) (mset (map item_pair xs))"
proof -
  let ?ks = "sort (hm_keys (group_items xs))"
  have m: "mset (concat (map f ks)) = sum_list (map (\<lambda>k. mset (f k)) ks)" for f :: "u64 \<Rightarrow> 'x list" and ks
    by (induction ks) simp_all
  have "mset (labelled_entries (grouped_results E s (group_items xs))) =
      mset (concat (map (\<lambda>sid. map (\<lambda>x. (stream_labels E s sid, entry_of_item x)) (filter (\<lambda>x. hi_stream x = sid) xs)) ?ks))"
    unfolding grouped_results_eq labelled_entries_def
    by (simp add: m comp_def image_mset.compositionality)
  also have "\<dots> = mset (map (\<lambda>x. (stream_labels E s (hi_stream x), entry_of_item x)) xs)"
    by (rule mset_group) (use group_items_wf [of xs] group_keys [of xs] in simp_all)
  finally show ?thesis by (simp add: label_pair_def item_pair_def image_mset.compositionality comp_def)
qed

lemma unlimited_entries:
  "mset (labelled_entries (concat (map (stream_answer E stages s a b) sids))) =
    image_mset (label_pair E s) (mset (concat (map (\<lambda>sid. map (\<lambda>e. (sid, resolve_entry E (lg_interner s) e))
      (matched_entries E stages s a b sid)) sids)))"
proof (induction sids)
  case (Cons sid sids)
  have "labelled_entries (stream_answer E stages s a b sid) =
      map (\<lambda>e. (stream_labels E s sid, resolve_entry E (lg_interner s) e)) (matched_entries E stages s a b sid)"
    by (simp add: labelled_entries_def stream_answer_def Let_def)
  then have "mset (labelled_entries (stream_answer E stages s a b sid)) =
      image_mset (label_pair E s) (mset (map (\<lambda>e. (sid, resolve_entry E (lg_interner s) e)) (matched_entries E stages s a b sid)))"
    by (simp add: label_pair_def image_mset.compositionality comp_def)
  with Cons show ?case by (simp add: labelled_entries_def)
qed (simp add: labelled_entries_def)

lemma limited_newest:
  assumes wf: "log_wf (lv_rodeo E) s" and "a \<le> b" and "0 < n"
    and order: "\<And>xs. mset (lv_heap_order E xs) = mset xs"
    and all: "all = labelled_entries (concat (map (stream_answer E stages s a b) sids))"
  shows "\<exists>kept. evaluate_limited_stream_query E sids stages s a b n = Inr kept \<and>
    mset (labelled_entries kept) \<subseteq># mset all \<and>
    length (labelled_entries kept) = min n (length all) \<and>
    (\<forall>x \<in># mset all - mset (labelled_entries kept). \<forall>y \<in> set (labelled_entries kept).
      re_timestamp_ns (snd x) \<le> re_timestamp_ns (snd y)) \<and>
    (\<forall>r \<in> set kept. sr_entries r \<noteq> [] \<and> sorted (map re_timestamp_ns (sr_entries r)))"
proof -
  let ?seen = "mset (concat (map (\<lambda>sid. map (\<lambda>e. (sid, resolve_entry E (lg_interner s) e))
      (matched_entries E stages s a b sid)) sids))"
  obtain newest q where run: "newest_streams E stages s a b n sids ([], 0) = Inr (newest, q)" and ok: "heap_ok n ?seen newest"
    using newest_streams_ok [OF wf assms(2,3) heap_ok_empty, of E stages sids 0] by auto
  define kept where "kept = grouped_results E s (group_items (lv_heap_order E newest))"
  let ?kept = "mset (map item_pair newest)"
  have k: "mset (labelled_entries kept) = image_mset (label_pair E s) ?kept"
    using order [of newest] unfolding kept_def grouped_entries by (simp flip: mset_map) (simp add: order)
  have al: "mset all = image_mset (label_pair E s) ?seen" unfolding all by (rule unlimited_entries)
  have newest: "?kept \<subseteq># ?seen" "size ?kept = min n (size ?seen)"
    "\<forall>x \<in># ?seen - ?kept. \<forall>y \<in># ?kept. pair_time x \<le> pair_time y"
    using ok by (simp_all add: heap_ok_def keeps_newest_def)
  have "mset (labelled_entries kept) \<subseteq># mset all" unfolding k al by (rule image_mset_subseteq_mono [OF newest(1)])
  moreover have "length (labelled_entries kept) = min n (length all)"
    using newest(2) arg_cong [OF k, of size] arg_cong [OF al, of size] by simp
  moreover have "\<forall>x \<in># mset all - mset (labelled_entries kept). \<forall>y \<in> set (labelled_entries kept).
      re_timestamp_ns (snd x) \<le> re_timestamp_ns (snd y)"
  proof -
    have "mset all - mset (labelled_entries kept) = image_mset (label_pair E s) (?seen - ?kept)"
      unfolding k al by (rule image_mset_Diff [OF newest(1), symmetric])
    moreover have "set (labelled_entries kept) = label_pair E s ` set_mset ?kept"
      using arg_cong [OF k, of set_mset] by simp
    ultimately show ?thesis using newest(3) by (auto simp: label_pair_def)
  qed
  moreover have "\<forall>r \<in> set kept. sr_entries r \<noteq> [] \<and> sorted (map re_timestamp_ns (sr_entries r))"
  proof
    fix r assume "r \<in> set kept"
    then have "r \<in> (\<lambda>sid. \<lparr>sr_labels = stream_labels E s sid, sr_entries = sort_key re_timestamp_ns
        (map entry_of_item (filter (\<lambda>x. hi_stream x = sid) (lv_heap_order E newest)))\<rparr>) ` hi_stream ` set (lv_heap_order E newest)"
      unfolding kept_def grouped_results_eq group_keys [symmetric] by (simp only: set_map set_sort)
    then obtain sid where sid: "sid \<in> hi_stream ` set (lv_heap_order E newest)"
      and r': "r = \<lparr>sr_labels = stream_labels E s sid, sr_entries = sort_key re_timestamp_ns
        (map entry_of_item (filter (\<lambda>x. hi_stream x = sid) (lv_heap_order E newest)))\<rparr>" by (rule imageE)
    then have r: "sr_entries r = sort_key re_timestamp_ns (map entry_of_item (filter (\<lambda>x. hi_stream x = sid) (lv_heap_order E newest)))"
      by simp
    from sid have "filter (\<lambda>x. hi_stream x = sid) (lv_heap_order E newest) \<noteq> []" by (auto simp: filter_empty_conv)
    then have "length (sr_entries r) \<noteq> 0" unfolding r length_sort by simp
    moreover have "sorted (map re_timestamp_ns (sr_entries r))" unfolding r by (rule sorted_sort_key)
    ultimately show "sr_entries r \<noteq> [] \<and> sorted (map re_timestamp_ns (sr_entries r))" by auto
  qed
  moreover have "evaluate_limited_stream_query E sids stages s a b n = Inr kept"
    by (simp add: evaluate_limited_stream_query_def run kept_def)
  ultimately show ?thesis by blast
qed

section \<open>Metric queries\<close>

text \<open>What a window counts: the entries that pass the stages, and their bytes.\<close>

lemma window_counts:
  "ws_count (fold (window_step E stages labels) entries w) =
     ws_count w + length (filter (\<lambda>e. apply_stages E (le_line e) stages labels) entries) \<and>
   ws_bytes (fold (window_step E stages labels) entries w) =
     ws_bytes w + sum_list (map (length \<circ> le_line) (filter (\<lambda>e. apply_stages E (le_line e) stages labels) entries))"
proof (induction entries arbitrary: w)
  case (Cons e entries)
  have "ws_count (window_step E stages labels e w) = ws_count w + (if apply_stages E (le_line e) stages labels then 1 else 0) \<and>
      ws_bytes (window_step E stages labels e w) = ws_bytes w + (if apply_stages E (le_line e) stages labels then length (le_line e) else 0)"
    by (auto simp: window_step_def apply_stages_def Let_def split: option.split)
  with Cons show ?case by simp
qed simp

definition window_answer ::
  "('i, 'r, 'v) log_env \<Rightarrow> metric_func \<Rightarrow> 'r logql_stage list \<Rightarrow> 'i log_store \<Rightarrow> i64 \<Rightarrow> u64 \<Rightarrow> i64 \<Rightarrow> f64 option" where
  "window_answer E func stages s range_ns sid t =
     metric_value func range_ns (fold (window_step E stages (stream_labels E s sid))
       (filter (in_window (i64_saturating_sub t range_ns) t) (entries_of s sid)) empty_window)"

definition metric_answer ::
  "('i, 'r, 'v) log_env \<Rightarrow> metric_func \<Rightarrow> 'r logql_stage list \<Rightarrow> 'i log_store \<Rightarrow> i64 \<Rightarrow> i64 list \<Rightarrow> u64 \<Rightarrow> metric_result list" where
  "metric_answer E func stages s range_ns grid sid =
     (let samples = List.map_filter (\<lambda>t. map_option (Pair t) (window_answer E func stages s range_ns sid t)) grid
      in if samples = [] then [] else [\<lparr>mr_labels = stream_labels E s sid, mr_samples = samples\<rparr>])"

lemma metric_query_total:
  assumes wf: "log_wf (lv_rodeo E) s" and a: "in_i64 a" and b: "in_i64 b"
  shows "evaluate_metric_query E func inner dur s a b step =
    (case extract_selector_and_stages inner of (ms, stages) \<Rightarrow>
      Inr (Matrix (concat (map (metric_answer E func stages s (duration_as_i64_ns dur) (time_grid a b step))
        (query_streams (lv_rodeo E) (lv_regex E) s (convert_matchers ms))))))"
proof -
  have win: "window_value E func stages s (duration_as_i64_ns dur) sid t =
      Inr (window_answer E func stages s (duration_as_i64_ns dur) sid t)" if "a \<le> t" for stages sid t
  proof -
    have "0 \<le> duration_as_i64_ns dur" by (simp add: duration_as_i64_ns_def i64_max_def)
    then have "i64_saturating_sub t (duration_as_i64_ns dur) \<le> t" using that a by (simp add: sat_defs)
    from get_entries_window [OF wf this] show ?thesis by (simp add: window_value_def window_answer_def)
  qed
  have "metric_stream E func stages s (duration_as_i64_ns dur) a b step sid =
      Inr (metric_answer E func stages s (duration_as_i64_ns dur) (time_grid a b step) sid)" for stages sid
    using time_loop_grid [of a b "window_value E func stages s (duration_as_i64_ns dur) sid"
        "window_answer E func stages s (duration_as_i64_ns dur) sid" step] win b
    by (simp add: metric_stream_def metric_answer_def in_i64_def Let_def)
  then have "collect_streams (metric_stream E func stages s (duration_as_i64_ns dur) a b step) sids =
      Inr (concat (map (metric_answer E func stages s (duration_as_i64_ns dur) (time_grid a b step)) sids))" for stages sids
    by (rule collect_streams_total)
  then show ?thesis
    by (cases "extract_selector_and_stages inner") (simp add: evaluate_metric_query_def)
qed

section \<open>A concrete environment\<close>

definition list_log_env :: "(string list, string, unit) log_env" where
  "list_log_env = \<lparr>lv_rodeo = list_rodeo, lv_regex = literal_regex,
     lv_captures = \<lparr>cp_names = (\<lambda>_. []), cp_captures = (\<lambda>_ _. None)\<rparr>,
     lv_json = \<lparr>js_parse = (\<lambda>_. None), js_object = (\<lambda>_. None), js_string = (\<lambda>_. None), js_text = (\<lambda>_. [])\<rparr>,
     lv_fmt = (\<lambda>_. []), lv_heap_order = rev\<rparr>"

section \<open>Properties\<close>

text \<open>
  A log query with a limit answers with the newest entries of the unlimited query: as many as the
  limit allows, none older than an entry left out, each under the labels of its stream and in time
  order there. This holds for every order in which the heap is iterated, and neither query panics
  when the range is not inverted.
\<close>

lemma limited_query_newest:
  assumes "log_wf (lv_rodeo E) s" and "a \<le> b" and "0 < n" and "\<And>xs. mset (lv_heap_order E xs) = mset xs"
  shows "\<exists>all kept. evaluate_stream_query E ms stages s a b None = Inr (Streams all) \<and>
    evaluate_stream_query E ms stages s a b (Some n) = Inr (Streams kept) \<and>
    mset (labelled_entries kept) \<subseteq># mset (labelled_entries all) \<and>
    length (labelled_entries kept) = min n (length (labelled_entries all)) \<and>
    (\<forall>x \<in># mset (labelled_entries all) - mset (labelled_entries kept). \<forall>y \<in> set (labelled_entries kept).
      re_timestamp_ns (snd x) \<le> re_timestamp_ns (snd y)) \<and>
    (\<forall>r \<in> set kept. sr_entries r \<noteq> [] \<and> sorted (map re_timestamp_ns (sr_entries r)))"
proof -
  let ?sids = "query_streams (lv_rodeo E) (lv_regex E) s (convert_matchers ms)"
  obtain kept where "evaluate_limited_stream_query E ?sids stages s a b n = Inr kept" and
    K: "mset (labelled_entries kept) \<subseteq># mset (labelled_entries (concat (map (stream_answer E stages s a b) ?sids)))"
    "length (labelled_entries kept) = min n (length (labelled_entries (concat (map (stream_answer E stages s a b) ?sids))))"
    "\<forall>x \<in># mset (labelled_entries (concat (map (stream_answer E stages s a b) ?sids))) - mset (labelled_entries kept).
      \<forall>y \<in> set (labelled_entries kept). re_timestamp_ns (snd x) \<le> re_timestamp_ns (snd y)"
    "\<forall>r \<in> set kept. sr_entries r \<noteq> [] \<and> sorted (map re_timestamp_ns (sr_entries r))"
    using limited_newest [OF assms refl, of ?sids stages] by blast
  then have "evaluate_stream_query E ms stages s a b (Some n) = Inr (Streams kept)"
    using assms(3) by (simp add: evaluate_stream_query_def)
  moreover have "evaluate_stream_query E ms stages s a b None = Inr (Streams (concat (map (stream_answer E stages s a b) ?sids)))"
    by (simp add: evaluate_stream_query_def unlimited_total [OF assms(1,2)])
  ultimately show ?thesis using K by blast
qed

lemma limited_query_newest_witness:
  "\<exists>kept. evaluate_stream_query list_log_env [] [] sample_logs 0 100 (Some 1) = Inr (Streams kept) \<and>
    length (labelled_entries kept) \<le> 1"
  using limited_query_newest [of list_log_env sample_logs 0 100 1 "[]" "[]"] sample_logs_wf
  by (auto simp: list_log_env_def)

text \<open>
  C25: A metric query returns one sample per time of the grid from start to end by step, each computed
  from the entries of the closed window that ends there, and one series per selected stream that has a
  sample; it never panics and its loop ends for every step. The count and the bytes of a window are
  those of the entries that pass the stages.
\<close>

theorem metric_query_windows:
  assumes "log_wf (lv_rodeo E) s" and "in_i64 a" and "in_i64 b" and "extract_selector_and_stages inner = (ms, stages)"
  shows "evaluate_metric_query E func inner dur s a b step =
      Inr (Matrix (concat (map (metric_answer E func stages s (duration_as_i64_ns dur) (time_grid a b step))
        (query_streams (lv_rodeo E) (lv_regex E) s (convert_matchers ms))))) \<and>
    ws_count (fold (window_step E stages labels) entries empty_window) =
      length (filter (\<lambda>e. apply_stages E (le_line e) stages labels) entries) \<and>
    ws_bytes (fold (window_step E stages labels) entries empty_window) =
      sum_list (map (length \<circ> le_line) (filter (\<lambda>e. apply_stages E (le_line e) stages labels) entries))"
  using metric_query_total [OF assms(1-3), of func inner dur step] window_counts [of E stages labels entries empty_window] assms(4)
  by (simp add: empty_window_def)

theorem metric_query_windows_witness:
  "\<exists>rs. evaluate_metric_query list_log_env CountOverTime (StreamSelector []) 1000 sample_logs 0 100 7 = Inr (Matrix rs)"
  using metric_query_windows [of list_log_env sample_logs 0 100 "StreamSelector []" "[]" "[]" CountOverTime 1000 7] sample_logs_wf
  by (simp add: list_log_env_def sat_defs)

end
