(* ===== verification/Logql_Handlers_Correct.thy ===== *)
theory Logql_Handlers_Correct
  imports Logql_Handlers Logql_Eval_Correct
begin

text \<open>
  The Loki-compatible endpoints: a log query answers with the newest entries of its window under the
  global limit, exactly the inverted windows that enclose an entry panic, and the limit on the steps
  bounds every series of a metric query.
\<close>

section \<open>Log queries\<close>

fun is_metric_query :: "'r logql_expr \<Rightarrow> bool" where
  "is_metric_query (MetricQuery func inner dur) = True"
| "is_metric_query _ = False"

lemma evaluate_log_query:
  assumes "\<not> is_metric_query expr" and "extract_selector_and_stages expr = (ms, stages)"
  shows "evaluate_logql_limited E expr s a b step limit = evaluate_stream_query E ms stages s a b limit"
  using assms by (cases expr) (auto split: prod.splits)

lemma labelled_entries_length: "length (labelled_entries rs) = sum_list (map (length \<circ> sr_entries) rs)"
  by (induction rs) (simp_all add: labelled_entries_def)

text \<open>What the evaluator has limited already passes the endpoint's own limit unchanged.\<close>

lemma limit_entries_id: "length (labelled_entries rs) \<le> n \<Longrightarrow> limit_entries n rs = rs"
  by (simp add: limit_entries_def labelled_entries_length)

lemma get_entries_inverted:
  assumes "log_wf R s"
  shows "(\<exists>p. get_entries s sid a b = Inl p) \<longleftrightarrow>
    (\<exists>e \<in> set (entries_of s sid). b < le_timestamp_ns e \<and> le_timestamp_ns e < a)"
proof (cases "hm_get (lg_streams s) sid")
  case None
  then show ?thesis by (simp add: get_entries_def entries_of_def)
next
  case (Some st)
  with get_entries_spec [OF log_base_wf [OF assms] Some, of a b] show ?thesis by (auto simp: entries_of_def)
qed

lemma newest_streams_panics:
  "(\<exists>p. newest_streams E stages s a b n sids st = Inl p) \<longleftrightarrow> (\<exists>sid \<in> set sids. \<exists>p. get_entries s sid a b = Inl p)"
proof (induction sids arbitrary: st)
  case (Cons sid sids)
  show ?case by (cases "get_entries s sid a b") (simp_all add: Let_def Cons.IH)
qed simp

lemma map_sum_panics: "(\<exists>p. map_sum id f r = Inl p) \<longleftrightarrow> (\<exists>p. r = Inl p)"
  by (cases r) simp_all

lemma stream_query_panics:
  assumes "log_wf (lv_rodeo E) s" and "0 < n"
  shows "(\<exists>p. evaluate_stream_query E ms stages s a b (Some n) = Inl p) \<longleftrightarrow>
    (\<exists>sid \<in> set (query_streams (lv_rodeo E) (lv_regex E) s (convert_matchers ms)).
      \<exists>e \<in> set (entries_of s sid). b < le_timestamp_ns e \<and> le_timestamp_ns e < a)"
  using assms(2) get_entries_inverted [OF assms(1), of _ a b]
  by (simp add: evaluate_stream_query_def evaluate_limited_stream_query_def map_sum_panics newest_streams_panics)

section \<open>Metric queries\<close>

lemma too_many_steps_iff:
  assumes "b - a \<le> i64_max"
  shows "(\<exists>n. too_many_steps (Some step) a b = Some n) \<longleftrightarrow> 0 < step \<and> 11000 * step \<le> b - a"
proof (cases "0 < step")
  case True
  then show ?thesis
    by (auto simp: too_many_steps_def loki_num_steps_def logql_max_query_steps_def saturating_difference [OF assms] le_zdiv_iff)
qed (simp add: too_many_steps_def)

lemma metric_answer_samples:
  "r \<in> set (metric_answer E func stages s range_ns grid sid) \<Longrightarrow> length (mr_samples r) \<le> length grid"
  by (auto simp: metric_answer_def List.map_filter_def Let_def split: if_splits)

section \<open>Properties\<close>

text \<open>
  C6: A log query with a start not after its end and a positive limit answers with the newest entries of
  its window: no more than the limit over all streams together, every entry left out being no newer than any in the answer, each
  under the labels of its stream and in time order there. The endpoint's own limit, which would
  distribute the entries anew, changes nothing the evaluator has limited.
\<close>

theorem loki_answers_newest:
  assumes "log_wf (lv_rodeo E) s" and "a \<le> b" and "0 < n" and "\<And>xs. mset (lv_heap_order E xs) = mset xs"
    and "\<not> is_metric_query expr" and "extract_selector_and_stages expr = (ms, stages)"
  shows "\<exists>all kept. evaluate_stream_query E ms stages s a b None = Inr (Streams all) \<and>
    loki_answer E s expr a b step n = Inr (status_ok, loki_success ''streams'' (map stream_json kept)) \<and>
    mset (labelled_entries kept) \<subseteq># mset (labelled_entries all) \<and>
    length (labelled_entries kept) = min n (length (labelled_entries all)) \<and>
    (\<forall>x \<in># mset (labelled_entries all) - mset (labelled_entries kept). \<forall>y \<in> set (labelled_entries kept).
      re_timestamp_ns (snd x) \<le> re_timestamp_ns (snd y)) \<and>
    (\<forall>r \<in> set kept. sr_entries r \<noteq> [] \<and> sorted (map re_timestamp_ns (sr_entries r)))"
proof -
  obtain all kept where K: "evaluate_stream_query E ms stages s a b None = Inr (Streams all)"
    "evaluate_stream_query E ms stages s a b (Some n) = Inr (Streams kept)"
    "mset (labelled_entries kept) \<subseteq># mset (labelled_entries all)"
    "length (labelled_entries kept) = min n (length (labelled_entries all))"
    "\<forall>x \<in># mset (labelled_entries all) - mset (labelled_entries kept). \<forall>y \<in> set (labelled_entries kept).
      re_timestamp_ns (snd x) \<le> re_timestamp_ns (snd y)"
    "\<forall>r \<in> set kept. sr_entries r \<noteq> [] \<and> sorted (map re_timestamp_ns (sr_entries r))"
    using limited_query_newest [OF assms(1-4), of ms stages] by blast
  have "filter (\<lambda>sr. sr_entries sr \<noteq> []) kept = kept" using K(6) by (simp add: filter_id_conv)
  then have "loki_answer E s expr a b step n = Inr (status_ok, loki_success ''streams'' (map stream_json kept))"
    using K(4) by (simp add: loki_answer_def evaluate_log_query [OF assms(5,6)] K(2) format_logql_result_def limit_entries_id)
  with K show ?thesis by blast
qed

theorem loki_answers_newest_witness:
  "\<exists>kept. loki_answer list_log_env sample_logs (StreamSelector []) 0 100 None 1 =
      Inr (status_ok, loki_success ''streams'' (map stream_json kept)) \<and> length (labelled_entries kept) \<le> 1"
  using loki_answers_newest [of list_log_env sample_logs 0 100 1 "StreamSelector []" "[]" "[]" None] sample_logs_wf
  by (auto simp: list_log_env_def)

text \<open>
  A log query panics exactly when its window is inverted around an entry: some selected stream has
  an entry after the end and before the start. No endpoint rejects a start after the end.
\<close>

lemma loki_inverted_window_panics:
  assumes "log_wf (lv_rodeo E) s" and "0 < n" and "\<not> is_metric_query expr"
    and "extract_selector_and_stages expr = (ms, stages)"
  shows "(\<exists>p. loki_run_range E s expr a b None n = Inl p) \<longleftrightarrow>
    (\<exists>sid \<in> set (query_streams (lv_rodeo E) (lv_regex E) s (convert_matchers ms)).
      \<exists>e \<in> set (entries_of s sid). b < le_timestamp_ns e \<and> le_timestamp_ns e < a)"
proof -
  have "loki_run_range E s expr a b None n = loki_answer E s expr a b None n"
    using assms(3) by (cases expr) (simp_all add: loki_run_range_def effective_step_def too_many_steps_def)
  then show ?thesis
    using stream_query_panics [OF assms(1,2), of ms stages a b]
    by (simp add: loki_answer_def evaluate_log_query [OF assms(3,4)] map_sum_panics)
qed

lemma loki_inverted_window_panics_witness:
  "\<exists>p. loki_run_range list_log_env sample_logs (StreamSelector []) 100 0 None 1 = Inl p"
proof -
  have "0 \<in> set (query_streams list_rodeo literal_regex sample_logs [])"
    using query_streams_spec [OF list_rodeo_laws log_base_wf [OF sample_logs_wf], of "[]" literal_regex]
    by (simp add: sample_logs_streams)
  moreover have "sample_entry 20 ''b'' (Some [1]) \<in> set (entries_of sample_logs 0)"
    by (simp add: entries_of_def sample_logs_streams)
  ultimately show ?thesis
    using loki_inverted_window_panics [of list_log_env sample_logs 1 "StreamSelector []" "[]" "[]" 100 0] sample_logs_wf
    by (fastforce simp: list_log_env_def convert_matchers_def sample_entry_def)
qed

text \<open>
  A metric query over a window whose length fits \<open>i64\<close> is rejected exactly when its step is zero, or
  positive and too small: 11000 of them fit into the window; the step is the given one, or the range
  of the query. What is let through never panics and no series has more than 11000 samples.
\<close>

lemma loki_metric_guards:
  assumes "log_wf (lv_rodeo E) s" and "in_i64 a" and "in_i64 b" and "b - a \<le> i64_max"
    and "st = (case step of None \<Rightarrow> duration_as_i64_ns dur | Some st \<Rightarrow> st)"
  shows "if step = Some 0 \<or> (0 < st \<and> 11000 * st \<le> b - a)
    then \<exists>m. loki_run_range E s (MetricQuery func inner dur) a b step n = Inr (loki_error m)
    else \<exists>metrics. loki_run_range E s (MetricQuery func inner dur) a b step n =
        Inr (status_ok, loki_success ''matrix'' (map (metric_json (lv_fmt E)) metrics)) \<and>
      (\<forall>r \<in> set metrics. length (mr_samples r) \<le> 11000)"
proof -
  have st: "effective_step (MetricQuery func inner dur) step = Some st"
    unfolding assms(5) by (cases step) (simp_all add: effective_step_def)
  obtain ms stages where x: "extract_selector_and_stages inner = (ms, stages)" by force
  let ?metrics = "concat (map (metric_answer E func stages s (duration_as_i64_ns dur) (time_grid a b st))
      (query_streams (lv_rodeo E) (lv_regex E) s (convert_matchers ms)))"
  show ?thesis
  proof (cases "step = Some 0 \<or> (0 < st \<and> 11000 * st \<le> b - a)")
    case True
    then show ?thesis
      using too_many_steps_iff [OF assms(4), of st] by (auto simp: loki_run_range_def st)
  next
    case False
    then have none: "too_many_steps (Some st) a b = None"
      using too_many_steps_iff [OF assms(4), of st] by (cases "too_many_steps (Some st) a b") auto
    have "loki_run_range E s (MetricQuery func inner dur) a b step n =
        Inr (status_ok, loki_success ''matrix'' (map (metric_json (lv_fmt E)) ?metrics))"
      using False metric_query_total [OF assms(1-3), of func inner dur st] x
      by (simp add: loki_run_range_def st none loki_answer_def assms(5) [symmetric] format_logql_result_def)
    moreover have "length (time_grid a b st) \<le> 11000"
    proof (cases "0 < st")
      case True
      with False time_grid_length [of st b a 11000] show ?thesis by auto
    qed (simp add: time_grid_def)
    then have "length (mr_samples r) \<le> 11000" if "r \<in> set ?metrics" for r
      using that metric_answer_samples by (fastforce intro: order_trans)
    ultimately show ?thesis using False by auto
  qed
qed

lemma loki_metric_guards_witness:
  "\<exists>m. loki_run_range list_log_env sample_logs (MetricQuery CountOverTime (StreamSelector []) 1000) 0 11000 (Some 1) 5 =
    Inr (loki_error m)"
  using loki_metric_guards [of list_log_env sample_logs 0 11000 1 1000 "Some 1" CountOverTime "StreamSelector []" 5] sample_logs_wf
  by (simp add: list_log_env_def sat_defs)

end
