(* ===== verification/Traceql_Handlers.thy ===== *)
theory Traceql_Handlers
  imports Traceql_Eval Json "HOL-Library.Product_Lexorder"
begin

text \<open>
  The TraceQL endpoints, \<open>src/query/traceql/handlers.rs\<close>: the search over recent or matching
  traces, and one trace in the shape of an OTLP export.
\<close>

definition traceql_hint :: string where
  "traceql_hint = ''Example: { resource.service.name = '' @ [CHR 0x22] @ ''myapp'' @ [CHR 0x22] @ '' && status = error }''"

definition default_recent_traces_limit :: nat where "default_recent_traces_limit = 20"
definition max_trace_search_limit :: nat where "max_trace_search_limit = 1000"

record trace_search_params =
  tsp_q :: "string option"
  tsp_start :: "u64 option"
  tsp_end :: "u64 option"
  tsp_limit :: "usize option"

text \<open>The evaluator's environment, nom, and the text nom prints for a failure.\<close>

record ('i, 'r) traceql_env =
  te_eval :: "('i, 'r) eval_env"
  te_nom :: nom_ops
  te_nom_text :: "string \<Rightarrow> error_kind \<Rightarrow> string"

abbreviation te_rodeo :: "('i, 'r) traceql_env \<Rightarrow> 'i rodeo_ops" where
  "te_rodeo E \<equiv> env_rodeo (te_eval E)"

section \<open>Parameters\<close>

definition param_to_ns :: "u64 \<Rightarrow> i64" where
  "param_to_ns v =
     (if v < 100000000000 then i64_saturating_mul (int v) 1000000000
      else if v < 100000000000000 then i64_saturating_mul (int v) 1000000
      else if i64_max < int v then i64_max
      else int v)"

definition trace_bounded_limit :: "usize option \<Rightarrow> usize \<Rightarrow> usize" where
  "trace_bounded_limit limit dflt = min (case limit of None \<Rightarrow> dflt | Some n \<Rightarrow> n) max_trace_search_limit"

text \<open>Ids are trimmed; sixteen pairs of digits, each read by \<open>from_str_radix\<close>.\<close>

definition parse_trace_id :: "string \<Rightarrow> trace_id option" where
  "parse_trace_id s = (if length (trim s) \<noteq> 32 then None else hex_pairs (trim s))"

text \<open>Whether a stretch of time meets the window; an absent bound does not limit.\<close>

definition overlaps :: "i64 option \<Rightarrow> i64 option \<Rightarrow> i64 \<Rightarrow> i64 \<Rightarrow> bool" where
  "overlaps start_ns end_ns from_ns duration_ns \<longleftrightarrow>
     (case start_ns of None \<Rightarrow> True | Some st \<Rightarrow> st \<le> i64_saturating_add from_ns duration_ns) \<and>
     (case end_ns of None \<Rightarrow> True | Some en \<Rightarrow> from_ns \<le> en)"

section \<open>Searching\<close>

definition traceql_error_text :: "('i, 'r) traceql_env \<Rightarrow> traceql_parse_error \<Rightarrow> string" where
  "traceql_error_text E e = ''parse error: '' @
     (case e of
        TraceSyntax s k \<Rightarrow> te_nom_text E s k
      | TraceTrailing rest \<Rightarrow> ''unexpected trailing input: '' @ rest)"

definition recent_search :: "'i rodeo_ops \<Rightarrow> 'i trace_store \<Rightarrow> i64 option \<Rightarrow> i64 option \<Rightarrow> usize \<Rightarrow> trace_result list" where
  "recent_search R s start_ns end_ns limit =
     (let ranged = start_ns \<noteq> None \<or> end_ns \<noteq> None;
          recent = recent_traces R s (if ranged then length (ts_traces s) else limit);
          recent = (if ranged then filter (\<lambda>tr. overlaps start_ns end_ns (tr_start_ns tr) (tr_duration_ns tr)) recent
                    else recent)
      in take limit recent)"

definition trace_summary :: "string \<Rightarrow> string \<Rightarrow> string \<Rightarrow> i64 \<Rightarrow> i64 \<Rightarrow> nat \<Rightarrow> json \<Rightarrow> json" where
  "trace_summary trace_id service name start_ns duration_ns errors span_sets =
     json_map [(''traceID'', JString trace_id), (''rootServiceName'', JString service),
       (''rootTraceName'', JString name), (''startTimeUnixNano'', JString (int_to_string start_ns)),
       (''durationMs'', JInt (i64_div duration_ns 1000000)), (''errorCount'', JInt (int errors)),
       (''spanSets'', span_sets)]"

definition recent_json :: "trace_result \<Rightarrow> json" where
  "recent_json tr = trace_summary (hex_encode (tr_trace_id tr)) (tr_root_service tr) (tr_root_span tr)
     (tr_start_ns tr) (tr_duration_ns tr) (tr_error_count tr) (JArray [])"

definition found_in_window :: "i64 option \<Rightarrow> i64 option \<Rightarrow> traceql_result \<Rightarrow> bool" where
  "found_in_window start_ns end_ns r =
     list_ex (\<lambda>sp. overlaps start_ns end_ns (msp_start_ns sp) (msp_duration_ns sp)) (tq_spans r)"

definition found_start :: "'i rodeo_ops \<Rightarrow> 'i trace_store \<Rightarrow> traceql_result \<Rightarrow> i64" where
  "found_start R s r =
     (case trace_result_of R s (tq_trace_id r) of
        Some t \<Rightarrow> tr_start_ns t
      | None \<Rightarrow> (case tq_spans r of [] \<Rightarrow> 0 | sp # _ \<Rightarrow> msp_start_ns sp))"

text \<open>\<open>Reverse(start)\<close> orders as the negated start does.\<close>

definition found_traces ::
  "'i rodeo_ops \<Rightarrow> 'i trace_store \<Rightarrow> i64 option \<Rightarrow> i64 option \<Rightarrow> usize option \<Rightarrow> traceql_result list \<Rightarrow> traceql_result list"
where
  "found_traces R s start_ns end_ns limit results =
     take (trace_bounded_limit limit max_trace_search_limit)
       (sort_key (\<lambda>r. (- found_start R s r, tq_trace_id r)) (filter (found_in_window start_ns end_ns) results))"

definition status_text :: "span_status \<Rightarrow> string" where
  "status_text st = (case st of Ok \<Rightarrow> ''ok'' | Error \<Rightarrow> ''error'' | Unset \<Rightarrow> ''unset'')"

definition matched_span_json :: "matched_span \<Rightarrow> json" where
  "matched_span_json sp = json_map [(''spanID'', JString (hex_encode (msp_span_id sp))),
     (''name'', JString (msp_name sp)), (''serviceName'', JString (msp_service sp)),
     (''startTimeUnixNano'', JString (int_to_string (msp_start_ns sp))),
     (''durationNanos'', JString (int_to_string (msp_duration_ns sp))),
     (''status'', JString (status_text (msp_status sp)))]"

definition found_json :: "'i rodeo_ops \<Rightarrow> 'i trace_store \<Rightarrow> traceql_result \<Rightarrow> json" where
  "found_json R s r =
     (let trace_id = to_lowercase (hex_encode_upper (tq_trace_id r));
          span_sets = JArray [json_map [(''spans'', JArray (map matched_span_json (tq_spans r))),
            (''matched'', JInt (int (length (tq_spans r))))]];
          errors = count_error_spans (map msp_status (tq_spans r))
      in case trace_result_of R s (tq_trace_id r) of
           Some tr \<Rightarrow> trace_summary trace_id (tr_root_service tr) (tr_root_span tr) (tr_start_ns tr)
                         (tr_duration_ns tr) (tr_error_count tr) span_sets
         | None \<Rightarrow>
             (case tq_spans r of
                [] \<Rightarrow> trace_summary trace_id [] [] 0 0 errors span_sets
              | sp # _ \<Rightarrow> trace_summary trace_id (msp_service sp) (msp_name sp) (msp_start_ns sp)
                            (msp_duration_ns sp) errors span_sets))"

definition traces_body :: "json list \<Rightarrow> response" where
  "traces_body traces = (status_ok, json_map [(''traces'', JArray traces)])"

definition trace_search :: "('i, 'r) traceql_env \<Rightarrow> 'i trace_store \<Rightarrow> trace_search_params \<Rightarrow> panic + response" where
  "trace_search E s params =
     (let start_ns = map_option param_to_ns (tsp_start params);
          end_ns = map_option param_to_ns (tsp_end params);
          q = (case tsp_q params of None \<Rightarrow> [] | Some q \<Rightarrow> q)
      in if q = [] then
           Inr (traces_body (map recent_json (recent_search (te_rodeo E) s start_ns end_ns
             (trace_bounded_limit (tsp_limit params) default_recent_traces_limit))))
         else (case parse_traceql (te_nom E) q of
                 Inl p \<Rightarrow> Inl p
               | Inr (Inl e) \<Rightarrow> Inr (status_bad_request, json_map
                   [(''error'', JString (traceql_error_text E e)), (''hint'', JString traceql_hint)])
               | Inr (Inr expr) \<Rightarrow>
                   map_sum id (\<lambda>results. traces_body (map (found_json (te_rodeo E) s)
                       (found_traces (te_rodeo E) s start_ns end_ns (tsp_limit params) results)))
                     (evaluate_traceql (te_eval E) expr s)))"

section \<open>One trace\<close>

definition attribute_json :: "('i, 'r) eval_env \<Rightarrow> 'i \<Rightarrow> spur \<times> attribute_value \<Rightarrow> json" where
  "attribute_json E i kv = json_map [(''key'', JString (rd_resolve (env_rodeo E) i (fst kv))),
     (''value'', json_map [(''stringValue'', JString (resolve_attribute_value (env_rodeo E) (env_fmt E) i (snd kv)))])]"

definition attributes_json :: "('i, 'r) eval_env \<Rightarrow> 'i \<Rightarrow> attributes \<Rightarrow> json" where
  "attributes_json E i attrs = JArray (map (attribute_json E i) attrs)"

definition event_json :: "('i, 'r) eval_env \<Rightarrow> 'i \<Rightarrow> span_event \<Rightarrow> json" where
  "event_json E i ev = json_map [(''name'', JString (rd_resolve (env_rodeo E) i (ev_name ev))),
     (''timeUnixNano'', JString (int_to_string (ev_time_ns ev))),
     (''attributes'', attributes_json E i (ev_attributes ev))]"

definition resolve_or_empty :: "('i, 'r) eval_env \<Rightarrow> 'i \<Rightarrow> spur option \<Rightarrow> string" where
  "resolve_or_empty E i k = (case k of None \<Rightarrow> [] | Some k \<Rightarrow> rd_resolve (env_rodeo E) i k)"

definition link_json :: "('i, 'r) eval_env \<Rightarrow> 'i \<Rightarrow> span_link \<Rightarrow> json" where
  "link_json E i lk = json_map [(''traceId'', JString (hex_encode (lk_trace_id lk))),
     (''spanId'', JString (hex_encode (lk_span_id lk))),
     (''traceState'', JString (resolve_or_empty E i (lk_trace_state lk))),
     (''flags'', JInt (int (lk_flags lk))), (''attributes'', attributes_json E i (lk_attributes lk))]"

definition status_code :: "span_status \<Rightarrow> int" where
  "status_code st = (case st of Unset \<Rightarrow> 0 | Ok \<Rightarrow> 1 | Error \<Rightarrow> 2)"

definition span_json :: "('i, 'r) eval_env \<Rightarrow> 'i \<Rightarrow> span \<Rightarrow> json" where
  "span_json E i sp = json_map [(''traceId'', JString (hex_encode (sp_trace_id sp))),
     (''spanId'', JString (hex_encode (sp_span_id sp))),
     (''parentSpanId'', JString (case sp_parent sp of None \<Rightarrow> [] | Some p \<Rightarrow> hex_encode p)),
     (''name'', JString (rd_resolve (env_rodeo E) i (sp_name sp))),
     (''kind'', JInt (span_kind_as_otlp (sp_kind sp))),
     (''startTimeUnixNano'', JString (int_to_string (sp_start_ns sp))),
     (''endTimeUnixNano'', JString (int_to_string (i64_saturating_add (sp_start_ns sp) (sp_duration_ns sp)))),
     (''status'', json_map [(''code'', JInt (status_code (sp_status sp))),
        (''message'', JString (resolve_or_empty E i (sp_status_message sp)))]),
     (''attributes'', attributes_json E i (sp_attributes sp)),
     (''events'', JArray (map (event_json E i) (sp_events sp))),
     (''links'', JArray (map (link_json E i) (sp_links sp)))]"

text \<open>The services in the order they were first seen, and the spans of each.\<close>

type_synonym service_groups = "string list \<times> (string, json list) hash_map"

definition add_to_service :: "string \<Rightarrow> json \<Rightarrow> service_groups \<Rightarrow> service_groups" where
  "add_to_service service v g =
     (case g of (order, spans) \<Rightarrow>
        (if hm_get spans service = None then order @ [service] else order,
         hm_upsert [] service (\<lambda>vs. vs @ [v]) spans))"

definition group_by_service :: "('i, 'r) eval_env \<Rightarrow> 'i \<Rightarrow> span list \<Rightarrow> service_groups" where
  "group_by_service E i sps =
     fold (\<lambda>sp. add_to_service (rd_resolve (env_rodeo E) i (sp_service sp)) (span_json E i sp)) sps ([], [])"

definition batch_json :: "string \<Rightarrow> json list \<Rightarrow> json" where
  "batch_json service spans = json_map
     [(''resource'', json_map [(''attributes'', JArray [json_map [(''key'', JString ''service.name''),
         (''value'', json_map [(''stringValue'', JString service)])]])]),
      (''scopeSpans'', JArray [json_map [(''spans'', JArray spans)]])]"

definition trace_batches :: "('i, 'r) eval_env \<Rightarrow> 'i \<Rightarrow> span list \<Rightarrow> json list" where
  "trace_batches E i sps =
     (case group_by_service E i sps of (order, spans) \<Rightarrow>
        map (\<lambda>svc. batch_json svc (case hm_get spans svc of None \<Rightarrow> [] | Some vs \<Rightarrow> vs)) order)"

definition trace_detail :: "('i, 'r) eval_env \<Rightarrow> 'i trace_store \<Rightarrow> string \<Rightarrow> response" where
  "trace_detail E s trace_id_str =
     (case parse_trace_id trace_id_str of
        None \<Rightarrow> (status_bad_request, json_map [(''error'', JString ''invalid trace ID'')])
      | Some t \<Rightarrow>
          (case get_trace s t of
             Some sps \<Rightarrow> (status_ok, json_map [(''batches'', JArray (trace_batches E (ts_interner s) sps))])
           | None \<Rightarrow> (status_not_found, json_map [(''error'', JString ''trace not found'')])))"

end
