(* ===== verification/Traceql_Handlers_Correct.thy ===== *)
theory Traceql_Handlers_Correct
  imports Traceql_Handlers Traceql_Eval_Correct Query_Text
begin

text \<open>
  The TraceQL endpoints: a search keeps the newest of the traces that meet its window, for listings
  and for queries; it panics only where the parser does; and a trace found by its printed id comes
  back with each of its spans once, under its service.
\<close>

section \<open>The search\<close>

lemma recent_traces_stored:
  assumes "trace_wf R s" and "r \<in> set (recent_traces R s n)"
  shows "trace_result_of R s (tr_trace_id r) = Some r"
  using recent_traces_correct(4) [OF assms(1)] assms(2) by blast

lemma recent_traces_all:
  assumes "trace_wf R s" and "trace_result_of R s t = Some r"
  shows "r \<in> set (recent_traces R s (length (ts_traces s)))"
proof -
  let ?rs = "recent_traces R s (length (ts_traces s))"
  have len: "length ?rs = length (ts_traces s)" using recent_traces_correct(1) [OF assms(1)] by simp
  have key: "tr_trace_id r \<in> set (hm_keys (ts_traces s))" if "r \<in> set ?rs" for r
    unfolding hm_key_iff
    using recent_traces_stored [OF assms(1) that] trace_result_of_stored(1) [OF assms(1), of "tr_trace_id r"] by simp
  then have "set (map tr_trace_id ?rs) \<subseteq> set (hm_keys (ts_traces s))"
    unfolding set_map [of tr_trace_id] by blast
  moreover have "card (set (map tr_trace_id ?rs)) = card (set (hm_keys (ts_traces s)))"
    using distinct_card [OF recent_traces_correct(3) [OF assms(1), of "length (ts_traces s)"]] len
      distinct_card [OF traces_wfD(1) [OF trace_wfD(1) [OF assms(1)]]] by simp
  ultimately have "set (map tr_trace_id ?rs) = set (hm_keys (ts_traces s))"
    by (intro card_subset_eq) simp_all
  moreover have "t \<in> set (hm_keys (ts_traces s))"
    unfolding hm_key_iff using assms(2) trace_result_of_stored(1) [OF assms(1), of t] by simp
  ultimately have "t \<in> set (map tr_trace_id ?rs)" by (simp only:)
  then obtain r' where "r' \<in> set ?rs" "tr_trace_id r' = t" by auto
  then show ?thesis using recent_traces_stored [OF assms(1)] assms(2) by force
qed

text \<open>What the listing of recent traces shows.\<close>

definition in_listing :: "i64 option \<Rightarrow> i64 option \<Rightarrow> trace_result \<Rightarrow> bool" where
  "in_listing start_ns end_ns tr \<longleftrightarrow> overlaps start_ns end_ns (tr_start_ns tr) (tr_duration_ns tr)"

lemma in_listing_fun: "in_listing a b = (\<lambda>tr. overlaps a b (tr_start_ns tr) (tr_duration_ns tr))"
  by (rule ext) (rule in_listing_def)

lemma sorted_rev_take_filter:
  assumes "sorted (map f (rev xs))"
  shows "sorted (map f (rev (take n (filter P xs))))"
    and "x \<in> set (filter P xs) \<Longrightarrow> x \<notin> set (take n (filter P xs)) \<Longrightarrow> y \<in> set (take n (filter P xs)) \<Longrightarrow> f x \<le> (f y :: 'b::linorder)"
proof -
  have "sorted (map f (rev (filter P xs)))"
    unfolding rev_filter using sorted_filter [OF assms, of P] by (simp add: filter_map comp_def)
  then have s: "sorted (map f (rev (drop n (filter P xs)) @ rev (take n (filter P xs))))"
    unfolding rev_append [symmetric] append_take_drop_id .
  then show "sorted (map f (rev (take n (filter P xs))))" unfolding map_append sorted_append by blast
  assume "x \<in> set (filter P xs)" "x \<notin> set (take n (filter P xs))" "y \<in> set (take n (filter P xs))"
  moreover from this have "x \<in> set (drop n (filter P xs))"
    by (metis Un_iff append_take_drop_id set_append)
  ultimately show "f x \<le> f y" using s unfolding map_append sorted_append by auto
qed

lemma recent_search_eq:
  "recent_search R s a b n = (if a = None \<and> b = None then recent_traces R s n
     else take n (filter (in_listing a b) (recent_traces R s (length (ts_traces s)))))"
  by (auto simp: recent_search_def in_listing_fun recent_traces_def Let_def)

lemma recent_search_correct:
  fixes a b :: "i64 option" and n :: nat
  assumes wf: "trace_wf R s"
  defines "shown \<equiv> recent_search R s a b n"
  shows "length shown \<le> n" and "sorted (map tr_start_ns (rev shown))" and "distinct (map tr_trace_id shown)"
    and "r \<in> set shown \<Longrightarrow> trace_result_of R s (tr_trace_id r) = Some r \<and> in_listing a b r"
    and "trace_result_of R s t = Some r \<Longrightarrow> in_listing a b r \<Longrightarrow> r \<notin> set shown \<Longrightarrow> r' \<in> set shown \<Longrightarrow> tr_start_ns r \<le> tr_start_ns r'"
    and "trace_result_of R s t = Some r \<Longrightarrow> in_listing a b r \<Longrightarrow> r \<notin> set shown \<Longrightarrow> length shown = n"
proof -
  note C = recent_traces_correct [OF wf]
  let ?all = "recent_traces R s (length (ts_traces s))"
  show "length shown \<le> n" "sorted (map tr_start_ns (rev shown))"
    using C(1,2) [of n] sorted_rev_take_filter(1) [OF C(2)] by (auto simp: shown_def recent_search_eq)
  have "distinct (map tr_trace_id (take n (filter P ?all)))" for P
    using C(3) [of "length (ts_traces s)"] by (simp add: take_map [symmetric] distinct_map_filter)
  then show "distinct (map tr_trace_id shown)" using C(3) [of n] by (simp add: shown_def recent_search_eq)
  show "trace_result_of R s (tr_trace_id r) = Some r \<and> in_listing a b r" if "r \<in> set shown" for r
    using that recent_traces_stored [OF wf]
    by (auto simp: shown_def recent_search_eq in_listing_def overlaps_def split: if_splits dest!: in_set_takeD)
  assume r: "trace_result_of R s t = Some r" "in_listing a b r" "r \<notin> set shown"
  note all = recent_traces_all [OF wf r(1)]
  show "tr_start_ns r \<le> tr_start_ns r'" if "r' \<in> set shown"
  proof (cases "a = None \<and> b = None")
    case True
    then show ?thesis using that r C(5) [of n] by (auto simp: shown_def recent_search_eq)
  next
    case False
    then show ?thesis using that r all sorted_rev_take_filter(2) [OF C(2), of r "in_listing a b" _ n r']
      by (auto simp: shown_def recent_search_eq)
  qed
  show "length shown = n"
  proof (cases "a = None \<and> b = None")
    case True
    have "n < length (ts_traces s)"
    proof (rule ccontr)
      assume "\<not> n < length (ts_traces s)"
      then have "recent_traces R s n = ?all"
        using C(1) [of n] C(1) [of "length (ts_traces s)"] unfolding recent_traces_def
        by (simp add: min_def split: if_splits)
      then show False using True r(3) all by (simp add: shown_def recent_search_eq)
    qed
    then show ?thesis using True C(1) [of n] by (simp add: shown_def recent_search_eq)
  next
    case False
    have "\<not> length (filter (in_listing a b) ?all) \<le> n"
      using False r all by (auto simp: shown_def recent_search_eq)
    then show ?thesis using False by (auto simp: shown_def recent_search_eq)
  qed
qed

lemma trace_search_query:
  assumes "tsp_q params = Some q" and "q \<noteq> []" and "parse_traceql (te_nom E) q = Inr (Inr expr)"
    and "evaluate_traceql (te_eval E) expr s = Inr results"
  shows "trace_search E s params = Inr (traces_body (map (found_json (te_rodeo E) s)
    (found_traces (te_rodeo E) s (map_option param_to_ns (tsp_start params)) (map_option param_to_ns (tsp_end params))
      (tsp_limit params) results)))"
  using assms by (simp add: trace_search_def Let_def)

lemma found_traces_correct:
  fixes R :: "'i rodeo_ops"
  defines "shown s a b limit rs \<equiv> found_traces R s a b limit rs"
    and "candidates a b rs \<equiv> filter (found_in_window a b) rs"
  shows "mset (shown s a b limit rs) \<subseteq># mset (candidates a b rs)"
    and "length (shown s a b limit rs) = min (trace_bounded_limit limit max_trace_search_limit) (length (candidates a b rs))"
    and "sorted (map (found_start R s) (rev (shown s a b limit rs)))"
    and "x \<in># mset (candidates a b rs) - mset (shown s a b limit rs) \<Longrightarrow> y \<in> set (shown s a b limit rs) \<Longrightarrow>
      found_start R s x \<le> found_start R s y"
proof -
  let ?n = "trace_bounded_limit limit max_trace_search_limit"
  note T = take_sort_key [where n = ?n and f = "\<lambda>r. (- found_start R s r, tq_trace_id r)" and xs = "candidates a b rs",
      folded found_traces_def [of R s a b limit rs, folded candidates_def], folded shown_def]
  show "mset (shown s a b limit rs) \<subseteq># mset (candidates a b rs)" by (rule T(1))
  show "length (shown s a b limit rs) = min ?n (length (candidates a b rs))" by (rule T(2))
  show "sorted (map (found_start R s) (rev (shown s a b limit rs)))"
    using T(3) unfolding rev_map [symmetric] sorted_wrt_rev sorted_map sorted_wrt_map
    by (rule sorted_wrt_mono_rel [rotated]) (auto simp: less_eq_prod_def)
  show "found_start R s x \<le> found_start R s y"
    if "x \<in># mset (candidates a b rs) - mset (shown s a b limit rs)" "y \<in> set (shown s a b limit rs)"
    using T(4) [OF that] by (auto simp: less_eq_prod_def)
qed

section \<open>One trace\<close>

text \<open>The distinct elements in the order they first come.\<close>

definition first_seen_names :: "'a list \<Rightarrow> 'a list" where
  "first_seen_names xs = rev (remdups (rev xs))"

lemma first_seen_names_simps:
  "distinct (first_seen_names xs)" "set (first_seen_names xs) = set xs"
  "first_seen_names (xs @ [x]) = (if x \<in> set xs then first_seen_names xs else first_seen_names xs @ [x])"
  by (simp_all add: first_seen_names_def)

lemma group_by_service_eq:
  fixes E :: "('i, 'r) eval_env" and i :: 'i
  defines "name \<equiv> \<lambda>sp. rd_resolve (env_rodeo E) i (sp_service sp)"
  shows "fst (group_by_service E i sps) = first_seen_names (map name sps) \<and>
    hm_get (snd (group_by_service E i sps)) svc =
      (if svc \<in> set (map name sps) then Some (map (span_json E i) (filter (\<lambda>sp. name sp = svc) sps)) else None)"
proof (induction sps arbitrary: svc rule: rev_induct)
  case Nil
  show ?case by (simp add: group_by_service_def first_seen_names_def)
next
  case (snoc sp sps)
  obtain order spans where g: "group_by_service E i sps = (order, spans)" by force
  have step: "group_by_service E i (sps @ [sp]) = add_to_service (name sp) (span_json E i sp) (order, spans)"
    using g by (simp add: group_by_service_def name_def)
  show ?case
    unfolding step using snoc.IH [of svc] snoc.IH [of "name sp"] g
    by (auto simp: add_to_service_def hm_simps first_seen_names_simps filter_empty_conv split: if_splits) (metis image_eqI)
qed

text \<open>A batch per service, in the order the services first come, with the service's spans in order.\<close>

lemma trace_batches_eq:
  fixes E :: "('i, 'r) eval_env" and i :: 'i
  defines "name \<equiv> \<lambda>sp. rd_resolve (env_rodeo E) i (sp_service sp)"
  shows "trace_batches E i sps =
    map (\<lambda>svc. batch_json svc (map (span_json E i) (filter (\<lambda>sp. name sp = svc) sps))) (first_seen_names (map name sps))"
proof -
  obtain order spans where g: "group_by_service E i sps = (order, spans)" by force
  with group_by_service_eq [of E i sps] have "order = first_seen_names (map name sps)"
    and "\<And>svc. hm_get spans svc = (if svc \<in> set (map name sps) then Some (map (span_json E i) (filter (\<lambda>sp. name sp = svc) sps)) else None)"
    by (simp_all add: name_def)
  with g show ?thesis
    unfolding trace_batches_def by (auto simp: first_seen_names_simps(2) intro!: map_cong)
qed

lemma hex_digit_not_space: "n < 16 \<Longrightarrow> \<not> is_whitespace (hex_digit n)"
  by (auto simp: is_whitespace_def hex_digit_def)

lemma trim_hex_encode: "trim (hex_encode bs) = hex_encode bs"
proof (rule trim_trimmed)
  have "\<not> is_whitespace c" if "c \<in> set (hex_encode bs)" for c
    using that by (auto simp: hex_encode_def hex_byte_def hex_digit_not_space byte_digits)
  then show "trimmed (hex_encode bs)" by (auto simp: trimmed_def)
qed

lemma parse_trace_id_hex: "length t = 16 \<Longrightarrow> parse_trace_id (hex_encode t) = Some t"
  by (simp add: parse_trace_id_def trim_hex_encode hex_pairs_encode)

section \<open>Properties\<close>

definition sample_traceql :: "(string list, string) traceql_env" where
  "sample_traceql = \<lparr>te_eval = list_env, te_nom = doc_nom, te_nom_text = (\<lambda>_ _. [])\<rparr>"

definition status_query :: traceql_expr where
  "status_query = SpanSelector [CondStatus CNeq SvOk] []"

lemma status_query_parsed:
  "parse_traceql doc_nom (show_expr status_query) = Inr (Inr status_query)" "show_expr status_query \<noteq> []"
proof -
  show *: "parse_traceql doc_nom (show_expr status_query) = Inr (Inr status_query)"
    unfolding status_query_def by (rule parse_traceql_show [OF doc_nom_laws]) (simp add: is_equality_op_def)
  show "show_expr status_query \<noteq> []" by (simp add: status_query_def show_selector_def)
qed

text \<open>
  C34: A search with a query answers with matching traces only, each with a matched span that meets
  the window; as many as the limit (at most 1000) allows, the latest start first; and a matching trace
  that is left out starts no later than any listed one.
\<close>

theorem search_keeps_newest:
  assumes "tsp_q params = Some q" and "q \<noteq> []" and "parse_traceql (te_nom E) q = Inr (Inr expr)"
    and "a = map_option param_to_ns (tsp_start params)" and "b = map_option param_to_ns (tsp_end params)"
  shows "\<exists>results kept. evaluate_traceql (te_eval E) expr s = Inr results \<and>
    trace_search E s params = Inr (traces_body (map (found_json (te_rodeo E) s) kept)) \<and>
    mset kept \<subseteq># mset (filter (found_in_window a b) results) \<and>
    length kept = min (trace_bounded_limit (tsp_limit params) 1000) (length (filter (found_in_window a b) results)) \<and>
    sorted (map (found_start (te_rodeo E) s) (rev kept)) \<and>
    (\<forall>x \<in># mset (filter (found_in_window a b) results) - mset kept. \<forall>y \<in> set kept.
      found_start (te_rodeo E) s x \<le> found_start (te_rodeo E) s y)"
proof -
  obtain results where r: "evaluate_traceql (te_eval E) expr s = Inr results"
    using eval_shape_total [OF parse_traceql_shape [OF assms(3)]] by blast
  show ?thesis
    using r trace_search_query [OF assms(1-3) r] found_traces_correct [where R = "te_rodeo E" and s = s and a = a and b = b and limit = "tsp_limit params" and rs = results]
    unfolding assms(4,5) max_trace_search_limit_def by blast
qed

theorem search_keeps_newest_witness:
  "\<exists>kept. trace_search sample_traceql family_traces
      \<lparr>tsp_q = Some (show_expr status_query), tsp_start = None, tsp_end = None, tsp_limit = Some 1\<rparr> =
      Inr (traces_body (map (found_json list_rodeo family_traces) kept)) \<and>
    length kept \<le> 1"
  using search_keeps_newest [of "\<lparr>tsp_q = Some (show_expr status_query), tsp_start = None, tsp_end = None, tsp_limit = Some 1\<rparr>"
      _ sample_traceql status_query None None family_traces] status_query_parsed
  by (auto simp: sample_traceql_def list_env_def trace_bounded_limit_def max_trace_search_limit_def)

text \<open>
  A search without a query lists stored traces that meet the window, each once, the latest start
  first and no more than the limit; a stored trace that meets the window is left out only when the
  listing is full, and then starts no later than any listed one.
\<close>

lemma listing_keeps_newest:
  assumes "trace_wf (te_rodeo E) s" and "tsp_q params = None \<or> tsp_q params = Some []"
    and "a = map_option param_to_ns (tsp_start params)" and "b = map_option param_to_ns (tsp_end params)"
    and "n = trace_bounded_limit (tsp_limit params) 20"
  shows "\<exists>shown. trace_search E s params = Inr (traces_body (map recent_json shown)) \<and>
    length shown \<le> n \<and> sorted (map tr_start_ns (rev shown)) \<and> distinct (map tr_trace_id shown) \<and>
    (\<forall>r \<in> set shown. trace_result_of (te_rodeo E) s (tr_trace_id r) = Some r \<and> in_listing a b r) \<and>
    (\<forall>t r. trace_result_of (te_rodeo E) s t = Some r \<and> in_listing a b r \<and> r \<notin> set shown \<longrightarrow>
      length shown = n \<and> (\<forall>r' \<in> set shown. tr_start_ns r \<le> tr_start_ns r'))"
proof -
  let ?shown = "recent_search (te_rodeo E) s a b n"
  have "trace_search E s params = Inr (traces_body (map recent_json ?shown))"
    using assms(2) unfolding assms(3-5) by (auto simp: trace_search_def default_recent_traces_limit_def Let_def)
  then show ?thesis using recent_search_correct [OF assms(1), where a = a and b = b and n = n] by blast
qed

lemma listing_keeps_newest_witness:
  "\<exists>shown. trace_search sample_traceql family_traces \<lparr>tsp_q = None, tsp_start = Some 0, tsp_end = None, tsp_limit = None\<rparr> =
      Inr (traces_body (map recent_json shown)) \<and> length shown \<le> 20"
  using listing_keeps_newest [of sample_traceql family_traces
      "\<lparr>tsp_q = None, tsp_start = Some 0, tsp_end = None, tsp_limit = None\<rparr>" "Some 0" None 20] family_wf
  by (auto simp: sample_traceql_def list_env_def param_to_ns_def sat_defs trace_bounded_limit_def max_trace_search_limit_def)

text \<open>
  The id a search prints leads back to its trace: asked for by that text, a stored trace comes
  back with one batch per service, in the order the services first come, each with the service's
  spans in order; over the batches each span of the trace occurs as often as it is stored.
\<close>

lemma trace_detail_complete:
  assumes "length t = 16" and "get_trace s t = Some sps"
    and "name = (\<lambda>sp. rd_resolve (env_rodeo E) (ts_interner s) (sp_service sp))"
  shows "\<exists>services. trace_detail E s (to_lowercase (hex_encode_upper t)) =
      (status_ok, json_map [(''batches'', JArray (map (\<lambda>svc. batch_json svc
        (map (span_json E (ts_interner s)) (filter (\<lambda>sp. name sp = svc) sps))) services))]) \<and>
    services = first_seen_names (map name sps) \<and> distinct services \<and>
    (\<Sum>svc \<leftarrow> services. mset (filter (\<lambda>sp. name sp = svc) sps)) = mset sps"
  using assms mset_split [of "first_seen_names (map name sps)" name sps]
  by (simp add: trace_detail_def parse_trace_id_hex trace_batches_eq first_seen_names_simps)

lemma trace_detail_complete_witness:
  "\<exists>services. trace_detail list_env (family_traces\<lparr>ts_traces := [(replicate 16 9, family_spans)]\<rparr>)
      (to_lowercase (hex_encode_upper (replicate 16 9))) =
      (status_ok, json_map [(''batches'', JArray (map (\<lambda>svc. batch_json svc
        (map (span_json list_env family_interner)
          (filter (\<lambda>sp. rd_resolve list_rodeo family_interner (sp_service sp) = svc) family_spans))) services))])"
  using trace_detail_complete [of "replicate 16 9" "family_traces\<lparr>ts_traces := [(replicate 16 9, family_spans)]\<rparr>"
      family_spans _ list_env]
  by (auto simp: get_trace_def family_stored list_env_def)

text \<open>
  C35: A search panics exactly where the parser panics on its query; evaluating what the parser accepts,
  the window, the limit and the rendering never do.
\<close>

theorem search_panics_in_parser:
  "trace_search E s params = Inl p \<longleftrightarrow>
    (\<exists>q. tsp_q params = Some q \<and> q \<noteq> [] \<and> parse_traceql (te_nom E) q = Inl p)"
proof (cases "\<exists>q. tsp_q params = Some q \<and> q \<noteq> []")
  case True
  then obtain q where q: "tsp_q params = Some q" "q \<noteq> []" by blast
  show ?thesis
  proof (cases "parse_traceql (te_nom E) q")
    case (Inr r)
    show ?thesis
    proof (cases r)
      case (Inr expr)
      with \<open>parse_traceql (te_nom E) q = Inr r\<close> have parsed: "parse_traceql (te_nom E) q = Inr (Inr expr)" by simp
      with eval_shape_total [OF parse_traceql_shape [OF parsed], of "te_eval E" s] trace_search_query [OF q parsed, of s]
      show ?thesis using q by auto
    qed (use q Inr in \<open>simp add: trace_search_def Let_def\<close>)
  qed (use q in \<open>simp add: trace_search_def Let_def\<close>)
qed (auto simp: trace_search_def Let_def split: option.split)

end
