(* ===== verification/Promql_Types.thy ===== *)
theory Promql_Types
  imports Metric_Store Float64_Ops Time_Grid "HOL-Library.List_Lexorder" "HOL-Library.Product_Lexorder"
    "HOL-Library.Char_ord"
begin

text \<open>
  The data of the PromQL evaluator: the expressions the \<open>promql-parser\<close> crate delivers (its public
  syntax tree; the parser itself is a parameter), the results and errors of
  \<open>src/query/promql/eval/types.rs\<close>, and the environment with what the standard library and the
  crates leave open. An operator is the text its \<open>to_string\<close> prints.
\<close>

section \<open>The syntax tree of promql-parser\<close>

datatype prom_match_op = PmEqual | PmNotEqual | PmRe | PmNotRe

record prom_matcher =
  pm_op :: prom_match_op
  pm_name :: string
  pm_value :: string

text \<open>A \<open>SystemTime\<close> is its signed distance from the epoch in nanoseconds.\<close>

datatype at_modifier = AtStart | AtEnd | AtTime int

datatype prom_offset = OffsetPos duration | OffsetNeg duration

record vector_selector =
  vs_name :: "string option"
  vs_matchers :: "prom_matcher list"
  vs_offset :: "prom_offset option"
  vs_at :: "at_modifier option"

datatype label_modifier = Include "string list" | Exclude "string list"

datatype match_cardinality = OneToOne | ManyToOne "string list" | OneToMany "string list" | ManyToMany

record bin_modifier =
  bm_card :: match_cardinality
  bm_matching :: "label_modifier option"
  bm_return_bool :: bool

definition bin_modifier_default :: bin_modifier where
  "bin_modifier_default = \<lparr>bm_card = OneToOne, bm_matching = None, bm_return_bool = False\<rparr>"

text \<open>Subqueries and extension nodes only reach the evaluator's last arm.\<close>

datatype prom_expr =
    NumberLiteral f64
  | StringLiteral string
  | VectorSelector vector_selector
  | MatrixSelector vector_selector duration
  | PromCall string "prom_expr list"
  | Aggregate string prom_expr "prom_expr option" "label_modifier option"
  | PromBinary string prom_expr prom_expr "bin_modifier option"
  | PromParen prom_expr
  | PromUnary prom_expr
  | Subquery prom_expr
  | Extension string

section \<open>Results and errors\<close>

datatype promql_error =
    PromParse string
  | PromUnsupported string
  | PromEval string

type_synonym prom_labels = "(string \<times> string) list"
type_synonym prom_samples = "(i64 \<times> f64) list"

record series_result =
  se_labels :: prom_labels
  se_samples :: prom_samples

datatype promql_result =
    InstantVector "series_result list"
  | RangeVector "series_result list"
  | Scalar f64

type_synonym sample_lookup = "(i64, f64) hash_map"

text \<open>What evaluating yields: a panic, an error or a value; and its sequencing.\<close>

type_synonym 'a evaluated = "panic + promql_error + 'a"

definition ok :: "'a \<Rightarrow> 'a evaluated" where "ok x = Inr (Inr x)"
definition fail :: "promql_error \<Rightarrow> 'a evaluated" where "fail e = Inr (Inl e)"

definition and_then :: "'a evaluated \<Rightarrow> ('a \<Rightarrow> 'b evaluated) \<Rightarrow> 'b evaluated" where
  "and_then m f = (case m of Inl p \<Rightarrow> Inl p | Inr r \<Rightarrow> (case r of Inl e \<Rightarrow> Inr (Inl e) | Inr x \<Rightarrow> f x))"

definition lift_panic :: "panic + 'a \<Rightarrow> 'a evaluated" where
  "lift_panic m = map_sum id Inr m"

lemma and_then_simps [simp]:
  "and_then (ok x) f = f x" "and_then (fail e) f = fail e" "and_then (Inl p) f = Inl p"
  by (simp_all add: and_then_def ok_def fail_def)

lemma lift_panic_Inr [simp]: "lift_panic (Inr x) = ok x"
  by (simp add: lift_panic_def ok_def)

lemma ok_fail [simp]: "ok x \<noteq> fail e" "fail e \<noteq> ok x" "ok x = ok y \<longleftrightarrow> x = y" "fail e = fail e' \<longleftrightarrow> e = e'"
  "ok x \<noteq> Inl p" "fail e \<noteq> Inl p" "Inl p \<noteq> ok x" "Inl p \<noteq> fail e"
  by (simp_all add: ok_def fail_def)

section \<open>Environment\<close>

text \<open>
  The interner and the regular expressions; for a pattern and a text the captured groups, the whole
  match first; the libm functions; \<open>promql_parser::parser::parse\<close>; \<open>f64::to_string\<close>; the printed forms of an expression and of labels in messages;
  what sorting does when a NaN makes the order partial.
\<close>

record ('i, 'r) prom_env =
  pv_rodeo :: "'i rodeo_ops"
  pv_regex :: "'r regex_ops"
  pv_captures :: "'r \<Rightarrow> string \<Rightarrow> string option list option"
  pv_libm :: libm_ops
  pv_parse :: "string \<Rightarrow> string + prom_expr"
  pv_fmt :: "f64 \<Rightarrow> string"
  pv_debug :: "prom_expr \<Rightarrow> string"
  pv_debug_labels :: "prom_labels \<Rightarrow> string"
  pv_sort_values :: "f64 list \<Rightarrow> panic + f64 list"
  pv_sort_series :: "series_result list \<Rightarrow> panic + series_result list"
  pv_sort_buckets :: "(f64 \<times> prom_samples) list \<Rightarrow> panic + (f64 \<times> prom_samples) list"

section \<open>Grouping\<close>

text \<open>
  Filling a \<open>BTreeMap\<close> with \<open>entry(key).or_default().push(x)\<close>, and its entries in order of the keys.
\<close>

definition btree_group :: "('a \<Rightarrow> 'k::linorder) \<Rightarrow> ('a \<Rightarrow> 'b) \<Rightarrow> 'a list \<Rightarrow> ('k \<times> 'b list) list" where
  "btree_group key val xs =
     (let m = fold (\<lambda>x. hm_upsert [] (key x) (\<lambda>ys. ys @ [val x])) xs []
      in map (\<lambda>k. (k, the (hm_get m k))) (sort (hm_keys m)))"

text \<open>Collecting pairs into a hash map: a later pair with the same key replaces the earlier one.\<close>

definition sample_lookup :: "prom_samples \<Rightarrow> sample_lookup" where
  "sample_lookup samples = fold (\<lambda>(t, v). hm_insert t v) samples []"

end
