(* ===== verification/Promql_Select.thy ===== *)
theory Promql_Select
  imports Promql_Types
begin

text \<open>
  Vector and matrix selectors, \<open>src/query/promql/eval/selectors.rs\<close>: the lookup windows, the
  functions over a window of samples and the loops over series and times. Looking samples up can
  panic, so a window's value is a panic or a value. Timestamps are \<open>i64\<close>; their difference wraps.
\<close>

section \<open>Offsets and times\<close>

definition duration_to_i64_ms :: "duration \<Rightarrow> i64" where
  "duration_to_i64_ms d = (let ms = int (d div 1000000) in if i64_max < ms then i64_max else ms)"

definition i64_saturating_neg :: "i64 \<Rightarrow> i64" where
  "i64_saturating_neg x = i64_saturate (- x)"

definition offset_to_ms :: "prom_offset option \<Rightarrow> i64" where
  "offset_to_ms off =
     (case off of
        Some (OffsetPos d) \<Rightarrow> duration_to_i64_ms d
      | Some (OffsetNeg d) \<Rightarrow> i64_saturating_neg (duration_to_i64_ms d)
      | None \<Rightarrow> 0)"

definition at_to_ms :: "at_modifier option \<Rightarrow> i64 \<Rightarrow> i64 \<Rightarrow> i64 option" where
  "at_to_ms at start_ms end_ms =
     (case at of
        Some AtStart \<Rightarrow> Some start_ms
      | Some AtEnd \<Rightarrow> Some end_ms
      | Some (AtTime time) \<Rightarrow> Some (duration_to_i64_ms (nat time))
      | None \<Rightarrow> None)"

section \<open>Matchers\<close>

definition prom_convert_matchers :: "prom_matcher list \<Rightarrow> label_matcher list" where
  "prom_convert_matchers ms =
     map (\<lambda>m. \<lparr>lm_name = pm_name m,
               lm_op = (case pm_op m of PmEqual \<Rightarrow> Eq | PmNotEqual \<Rightarrow> Neq | PmRe \<Rightarrow> Regex | PmNotRe \<Rightarrow> NotRegex),
               lm_value = pm_value m\<rparr>) ms"

definition vs_label_matchers :: "vector_selector \<Rightarrow> label_matcher list" where
  "vs_label_matchers vs =
     (let matchers = prom_convert_matchers (vs_matchers vs)
      in case vs_name vs of
           None \<Rightarrow> matchers
         | Some name \<Rightarrow>
             if list_ex (\<lambda>m. lm_name m = ''__name__'') matchers then matchers
             else matchers @ [\<lparr>lm_name = ''__name__'', lm_op = Eq, lm_value = name\<rparr>])"

section \<open>Functions of a window\<close>

text \<open>Adjacent samples, oldest first.\<close>

definition adjacent :: "'a list \<Rightarrow> ('a \<times> 'a) list" where
  "adjacent xs = zip xs (tl xs)"

definition counter_increase :: "f64 \<Rightarrow> f64 \<Rightarrow> f64" where
  "counter_increase prev cur =
     (let delta = f64_sub cur prev in if f64_le f64_zero delta then delta else cur)"

definition total_increase :: "sample list \<Rightarrow> f64" where
  "total_increase samples =
     fold (\<lambda>(p, c) acc. f64_add acc (counter_increase (sm_value p) (sm_value c))) (adjacent samples) f64_zero"

definition ms_to_s :: "i64 \<Rightarrow> f64" where
  "ms_to_s ms = f64_div (f64_of_int ms) (f64_of_int 1000)"

text \<open>The slope of the least-squares line through the samples.\<close>

definition deriv :: "sample list \<Rightarrow> f64 option" where
  "deriv samples =
     (let n = f64_of_nat (length samples);
          x_mean = f64_div (f64_sum (map (\<lambda>s. ms_to_s (sm_timestamp_ms s)) samples)) n;
          y_mean = f64_div (f64_sum (map sm_value samples)) n;
          (num, den) = fold (\<lambda>s (num, den).
              (let dx = f64_sub (ms_to_s (sm_timestamp_ms s)) x_mean; dy = f64_sub (sm_value s) y_mean
               in (f64_add num (f64_mul dx dy), f64_add den (f64_mul dx dx)))) samples (f64_zero, f64_zero)
      in if f64_lt (f64_abs den) f64_epsilon then None else Some (f64_div num den))"

definition compute_rate_like :: "string \<Rightarrow> sample list \<Rightarrow> i64 \<Rightarrow> f64 option" where
  "compute_rate_like func samples range_ms =
     (if length samples < 2 then None
      else if func = ''rate'' \<or> func = ''increase'' then
        (let total = total_increase samples;
             duration_s = ms_to_s (i64_wrapping_sub (sm_timestamp_ms (last samples)) (sm_timestamp_ms (hd samples)))
         in if f64_le duration_s f64_zero then None
            else if func = ''increase'' then Some (f64_div (f64_mul total (ms_to_s range_ms)) duration_s)
            else Some (f64_div total duration_s))
      else if func = ''delta'' then Some (f64_sub (sm_value (last samples)) (sm_value (hd samples)))
      else if func = ''deriv'' then deriv samples
      else if func = ''irate'' then
        (let prev = samples ! (length samples - 2); cur = samples ! (length samples - 1);
             dt = ms_to_s (i64_wrapping_sub (sm_timestamp_ms cur) (sm_timestamp_ms prev))
         in if f64_lt f64_zero dt then Some (f64_div (counter_increase (sm_value prev) (sm_value cur)) dt)
            else None)
      else None)"

text \<open>\<open>values[i]\<close>.\<close>

definition index :: "'a list \<Rightarrow> nat \<Rightarrow> panic + 'a" where
  "index xs i = (if i < length xs then Inr (xs ! i) else Inl (IndexOutOfBounds i (length xs)))"

definition interpolate_quantile :: "f64 list \<Rightarrow> f64 \<Rightarrow> panic + f64" where
  "interpolate_quantile sorted_values q =
     (let n = length sorted_values
      in if n = 0 then Inr f64_nan
         else if n = 1 then index sorted_values 0
         else (let rank = f64_mul q (f64_of_nat (n - 1));
                   lower = f64_to_usize (f64_floor rank); upper = f64_to_usize (f64_ceil rank)
               in if lower = upper then index sorted_values lower
                  else (let fraction = f64_sub rank (f64_of_nat lower)
                        in case index sorted_values lower of
                             Inl p \<Rightarrow> Inl p
                           | Inr lo \<Rightarrow> map_sum id (\<lambda>hi. f64_add (f64_mul lo (f64_sub f64_one fraction)) (f64_mul hi fraction))
                                         (index sorted_values upper))))"

definition mean_of :: "f64 list \<Rightarrow> f64" where
  "mean_of values = f64_div (f64_sum values) (f64_of_nat (length values))"

definition variance_of :: "f64 list \<Rightarrow> f64" where
  "variance_of values =
     f64_div (f64_sum (map (\<lambda>v. f64_square (f64_sub v (mean_of values))) values)) (f64_of_nat (length values))"

definition compute_over_time :: "string \<Rightarrow> sample list \<Rightarrow> f64 option" where
  "compute_over_time func samples =
     (if samples = [] then None
      else (let values = map sm_value samples
            in if func = ''avg_over_time'' then Some (mean_of values)
               else if func = ''min_over_time'' then Some (fold (\<lambda>v acc. f64_min acc v) values f64_infinity)
               else if func = ''max_over_time'' then Some (fold (\<lambda>v acc. f64_max acc v) values f64_neg_infinity)
               else if func = ''sum_over_time'' then Some (f64_sum values)
               else if func = ''count_over_time'' then Some (f64_of_nat (length values))
               else if func = ''last_over_time'' then Some (last values)
               else if func = ''present_over_time'' then Some f64_one
               else if func = ''stddev_over_time'' then Some (f64_sqrt (variance_of values))
               else if func = ''stdvar_over_time'' then Some (variance_of values)
               else None))"

definition unit_interval :: "f64 \<Rightarrow> bool" where
  "unit_interval q \<longleftrightarrow> f64_le f64_zero q \<and> f64_le q f64_one"

definition quantile_over_time :: "('i, 'r) prom_env \<Rightarrow> f64 \<Rightarrow> sample list \<Rightarrow> panic + f64 option" where
  "quantile_over_time E quantile samples =
     (if samples = [] \<or> \<not> unit_interval quantile then Inr None
      else case partial_sort (pv_sort_values E) id False (map sm_value samples) of
             Inl p \<Rightarrow> Inl p
           | Inr values \<Rightarrow> map_sum id Some (interpolate_quantile values quantile))"

definition count_changes_or_resets :: "string \<Rightarrow> sample list \<Rightarrow> f64" where
  "count_changes_or_resets func samples =
     fold (\<lambda>(p, c) acc.
         if func = ''changes'' then (if \<not> f64_eq (sm_value c) (sm_value p) then f64_add acc f64_one else acc)
         else if func = ''resets'' \<and> f64_lt (sm_value c) (sm_value p) then f64_add acc f64_one
         else acc) (adjacent samples) f64_zero"

section \<open>Loops over series and times\<close>

definition series_labels :: "('i, 'r) prom_env \<Rightarrow> 'i metric_store \<Rightarrow> u64 \<Rightarrow> prom_labels" where
  "series_labels E s sid = (case get_series_labels (pv_rodeo E) s sid of None \<Rightarrow> [] | Some ls \<Rightarrow> ls)"

definition selected_series :: "('i, 'r) prom_env \<Rightarrow> 'i metric_store \<Rightarrow> vector_selector \<Rightarrow> u64 list" where
  "selected_series E s vs = select_series (pv_rodeo E) (pv_regex E) s (vs_label_matchers vs)"

text \<open>A series with one sample at the end of the query; a series with the samples of the time loop.\<close>

definition one_sample :: "prom_labels \<Rightarrow> i64 \<Rightarrow> f64 option \<Rightarrow> series_result list" where
  "one_sample labels t v = (case v of None \<Rightarrow> [] | Some x \<Rightarrow> [\<lparr>se_labels = labels, se_samples = [(t, x)]\<rparr>])"

definition some_samples :: "prom_labels \<Rightarrow> prom_samples \<Rightarrow> series_result list" where
  "some_samples labels samples = (if samples = [] then [] else [\<lparr>se_labels = labels, se_samples = samples\<rparr>])"

definition last_value :: "sample list \<Rightarrow> f64 option" where
  "last_value samples = (if samples = [] then None else Some (sm_value (last samples)))"

definition eval_vector_selector ::
  "('i, 'r) prom_env \<Rightarrow> vector_selector \<Rightarrow> 'i metric_store \<Rightarrow> i64 \<Rightarrow> i64 \<Rightarrow> i64 \<Rightarrow> bool \<Rightarrow> promql_result evaluated" where
  "eval_vector_selector E vs s start_ms end_ms step_ms is_instant =
     (let sids = selected_series E s vs;
          offset_ms = offset_to_ms (vs_offset vs);
          at_ms = at_to_ms (vs_at vs) start_ms end_ms;
          lookback_ms = 5 * 60 * 1000
      in lift_panic (map_sum id InstantVector
           (if is_instant \<or> step_ms = 0
            then (let effective_end = i64_saturating_sub (case at_ms of None \<Rightarrow> end_ms | Some t \<Rightarrow> t) offset_ms
                  in collect_streams (\<lambda>sid.
                       map_sum id (\<lambda>samples. one_sample (series_labels E s sid) end_ms (last_value samples))
                         (get_samples s sid (i64_saturating_sub effective_end lookback_ms)
                           (i64_saturating_add effective_end 1000))) sids)
            else collect_streams (\<lambda>sid.
                   map_sum id (some_samples (series_labels E s sid))
                     (time_loop (\<lambda>t. (let effective_t = i64_saturating_sub (case at_ms of None \<Rightarrow> t | Some u \<Rightarrow> u) offset_ms
                                      in map_sum id last_value
                                           (get_samples s sid (i64_saturating_sub effective_t lookback_ms) effective_t)))
                       end_ms step_ms start_ms)) sids)))"

definition eval_matrix_selector ::
  "('i, 'r) prom_env \<Rightarrow> vector_selector \<Rightarrow> duration \<Rightarrow> 'i metric_store \<Rightarrow> i64 \<Rightarrow> i64 \<Rightarrow> promql_result evaluated" where
  "eval_matrix_selector E vs range_dur s start_ms end_ms =
     (let range_ms = duration_to_i64_ms range_dur;
          effective_end = i64_saturating_sub
            (case at_to_ms (vs_at vs) start_ms end_ms of None \<Rightarrow> end_ms | Some t \<Rightarrow> t) (offset_to_ms (vs_offset vs))
      in lift_panic (map_sum id RangeVector
           (collect_streams (\<lambda>sid.
              map_sum id (\<lambda>samples. some_samples (series_labels E s sid)
                            (map (\<lambda>p. (sm_timestamp_ms p, sm_value p)) samples))
                (get_samples s sid (i64_saturating_sub effective_end range_ms) effective_end))
             (selected_series E s vs))))"

text \<open>
  The loop the range functions share: the samples of a series in the closed window that ends
  \<open>offset\<close> before the time, handed to a function that may have no value for them.
\<close>

definition window_at ::
  "('i, 'r) prom_env \<Rightarrow> (sample list \<Rightarrow> panic + f64 option) \<Rightarrow> 'i metric_store \<Rightarrow> i64 \<Rightarrow> i64 \<Rightarrow> u64 \<Rightarrow> i64 \<Rightarrow> panic + f64 option"
where
  "window_at E f s range_ms offset_ms sid t =
     (let effective_t = i64_saturating_sub t offset_ms
      in case get_samples s sid (i64_saturating_sub effective_t range_ms) effective_t of
           Inl p \<Rightarrow> Inl p
         | Inr samples \<Rightarrow> f samples)"

definition eval_windows ::
  "('i, 'r) prom_env \<Rightarrow> (sample list \<Rightarrow> panic + f64 option) \<Rightarrow> vector_selector \<Rightarrow> i64 \<Rightarrow> 'i metric_store \<Rightarrow>
    i64 \<Rightarrow> i64 \<Rightarrow> i64 \<Rightarrow> bool \<Rightarrow> promql_result evaluated" where
  "eval_windows E f vs range_ms s start_ms end_ms step_ms is_instant =
     (let sids = selected_series E s vs; offset_ms = offset_to_ms (vs_offset vs)
      in lift_panic (map_sum id InstantVector
           (if is_instant \<or> step_ms = 0
            then collect_streams (\<lambda>sid.
                   map_sum id (one_sample (series_labels E s sid) end_ms) (window_at E f s range_ms offset_ms sid end_ms)) sids
            else collect_streams (\<lambda>sid.
                   map_sum id (some_samples (series_labels E s sid))
                     (time_loop (window_at E f s range_ms offset_ms sid) end_ms step_ms start_ms)) sids)))"

text \<open>Only a matrix selector has a window.\<close>

definition extract_matrix :: "prom_expr \<Rightarrow> string \<Rightarrow> (vector_selector \<times> i64) evaluated" where
  "extract_matrix arg func =
     (case arg of
        MatrixSelector vs d \<Rightarrow> ok (vs, duration_to_i64_ms d)
      | _ \<Rightarrow> fail (PromEval (func @ '' requires a range vector argument'')))"

definition eval_rate_like ::
  "('i, 'r) prom_env \<Rightarrow> string \<Rightarrow> prom_expr \<Rightarrow> 'i metric_store \<Rightarrow> i64 \<Rightarrow> i64 \<Rightarrow> i64 \<Rightarrow> bool \<Rightarrow> promql_result evaluated" where
  "eval_rate_like E func arg s start_ms end_ms step_ms is_instant =
     (case arg of
        MatrixSelector vs d \<Rightarrow>
          (let range_ms = duration_to_i64_ms d
           in eval_windows E (\<lambda>samples. Inr (compute_rate_like func samples range_ms)) vs range_ms
                s start_ms end_ms step_ms is_instant)
      | _ \<Rightarrow> fail (PromEval ''rate/increase requires matrix selector''))"

definition eval_over_time ::
  "('i, 'r) prom_env \<Rightarrow> string \<Rightarrow> prom_expr \<Rightarrow> 'i metric_store \<Rightarrow> i64 \<Rightarrow> i64 \<Rightarrow> i64 \<Rightarrow> bool \<Rightarrow> promql_result evaluated" where
  "eval_over_time E func arg s start_ms end_ms step_ms is_instant =
     and_then (extract_matrix arg func) (\<lambda>(vs, range_ms).
       eval_windows E (\<lambda>samples. Inr (compute_over_time func samples)) vs range_ms s start_ms end_ms step_ms is_instant)"

definition eval_quantile_over_time ::
  "('i, 'r) prom_env \<Rightarrow> f64 \<Rightarrow> prom_expr \<Rightarrow> 'i metric_store \<Rightarrow> i64 \<Rightarrow> i64 \<Rightarrow> i64 \<Rightarrow> bool \<Rightarrow> promql_result evaluated" where
  "eval_quantile_over_time E quantile arg s start_ms end_ms step_ms is_instant =
     and_then (extract_matrix arg ''quantile_over_time'') (\<lambda>(vs, range_ms).
       eval_windows E (quantile_over_time E quantile) vs range_ms s start_ms end_ms step_ms is_instant)"

definition eval_changes_or_resets ::
  "('i, 'r) prom_env \<Rightarrow> string \<Rightarrow> prom_expr \<Rightarrow> 'i metric_store \<Rightarrow> i64 \<Rightarrow> i64 \<Rightarrow> i64 \<Rightarrow> bool \<Rightarrow> promql_result evaluated" where
  "eval_changes_or_resets E func arg s start_ms end_ms step_ms is_instant =
     and_then (extract_matrix arg func) (\<lambda>(vs, range_ms).
       eval_windows E
         (\<lambda>samples. Inr (if samples = [] then None else Some (count_changes_or_resets func samples)))
         vs range_ms s start_ms end_ms step_ms is_instant)"

text \<open>The loop over the series that stops at the first with a sample in the window.\<close>

fun any_present :: "'i metric_store \<Rightarrow> i64 \<Rightarrow> i64 \<Rightarrow> u64 list \<Rightarrow> panic + bool" where
  "any_present s range_ms effective_t [] = Inr False"
| "any_present s range_ms effective_t (sid # sids) =
     (case get_samples s sid (i64_saturating_sub effective_t range_ms) effective_t of
        Inl p \<Rightarrow> Inl p
      | Inr samples \<Rightarrow> if samples \<noteq> [] then Inr True else any_present s range_ms effective_t sids)"

definition absent_at :: "'i metric_store \<Rightarrow> i64 \<Rightarrow> i64 \<Rightarrow> u64 list \<Rightarrow> i64 \<Rightarrow> panic + f64 option" where
  "absent_at s range_ms offset_ms sids t =
     map_sum id (\<lambda>present. if present then None else Some f64_one)
       (any_present s range_ms (i64_saturating_sub t offset_ms) sids)"

definition eval_absent_over_time ::
  "('i, 'r) prom_env \<Rightarrow> prom_expr \<Rightarrow> 'i metric_store \<Rightarrow> i64 \<Rightarrow> i64 \<Rightarrow> i64 \<Rightarrow> bool \<Rightarrow> promql_result evaluated" where
  "eval_absent_over_time E arg s start_ms end_ms step_ms is_instant =
     and_then (extract_matrix arg ''absent_over_time'') (\<lambda>(vs, range_ms).
       (let sids = selected_series E s vs; offset_ms = offset_to_ms (vs_offset vs)
        in lift_panic (map_sum id InstantVector
             (if is_instant \<or> step_ms = 0
              then map_sum id (one_sample [] end_ms) (absent_at s range_ms offset_ms sids end_ms)
              else map_sum id (some_samples [])
                     (time_loop (absent_at s range_ms offset_ms sids) end_ms step_ms start_ms)))))"

end
