(* ===== verification/Promql_Functions.thy ===== *)
theory Promql_Functions
  imports Promql_Select
begin

text \<open>
  The functions of \<open>src/query/promql/eval/functions.rs\<close> over the samples of a vector: histogram
  quantiles, pointwise mathematics, clamping, and the rewriting of labels.
\<close>

section \<open>Pointwise functions\<close>

definition map_samples :: "(i64 \<times> f64 \<Rightarrow> f64) \<Rightarrow> series_result list \<Rightarrow> series_result list" where
  "map_samples f series = map (\<lambda>sr. sr\<lparr>se_samples := map (\<lambda>(t, v). (t, f (t, v))) (se_samples sr)\<rparr>) series"

text \<open>An instant vector or a scalar is mapped; a range vector passes unchanged.\<close>

definition map_result :: "(f64 \<Rightarrow> f64) \<Rightarrow> promql_result \<Rightarrow> promql_result" where
  "map_result f r =
     (case r of
        InstantVector series \<Rightarrow> InstantVector (map_samples (f \<circ> snd) series)
      | Scalar v \<Rightarrow> Scalar (f v)
      | RangeVector series \<Rightarrow> RangeVector series)"

definition scalar_func :: "string \<Rightarrow> f64 \<Rightarrow> f64" where
  "scalar_func func v =
     (if func = ''abs'' then f64_abs v
      else if func = ''ceil'' then f64_ceil v
      else if func = ''floor'' then f64_floor v
      else if func = ''round'' then f64_round_int v
      else v)"

definition apply_scalar_func :: "string \<Rightarrow> promql_result \<Rightarrow> promql_result evaluated" where
  "apply_scalar_func func r = ok (map_result (scalar_func func) r)"

definition sgn_value :: "f64 \<Rightarrow> f64" where
  "sgn_value v =
     (if is_nan v then f64_nan
      else if f64_lt f64_zero v then f64_one
      else if f64_lt v f64_zero then f64_negate f64_one
      else f64_zero)"

definition math_func :: "libm_ops \<Rightarrow> string \<Rightarrow> f64 \<Rightarrow> f64" where
  "math_func M func v =
     (if func = ''ln'' then m_ln M v
      else if func = ''log2'' then m_log2 M v
      else if func = ''log10'' then m_log10 M v
      else if func = ''exp'' then m_exp M v
      else if func = ''sqrt'' then f64_sqrt v
      else if func = ''sgn'' then sgn_value v
      else v)"

definition apply_math_func :: "libm_ops \<Rightarrow> string \<Rightarrow> promql_result \<Rightarrow> promql_result evaluated" where
  "apply_math_func M func r = ok (map_result (math_func M func) r)"

definition apply_timestamp :: "promql_result \<Rightarrow> i64 \<Rightarrow> promql_result evaluated" where
  "apply_timestamp r end_ms =
     (case r of
        InstantVector series \<Rightarrow> ok (InstantVector (map_samples (\<lambda>(t, v). ms_to_s t) series))
      | other \<Rightarrow> ok other)"

definition clamp_value :: "f64 option \<Rightarrow> f64 option \<Rightarrow> f64 \<Rightarrow> f64" where
  "clamp_value min_val max_val v =
     (let v1 = (case min_val of None \<Rightarrow> v | Some lo \<Rightarrow> if f64_lt v lo then lo else v)
      in case max_val of None \<Rightarrow> v1 | Some hi \<Rightarrow> if f64_lt hi v1 then hi else v1)"

definition apply_clamp :: "promql_result \<Rightarrow> f64 option \<Rightarrow> f64 option \<Rightarrow> promql_result evaluated" where
  "apply_clamp r min_val max_val = ok (map_result (clamp_value min_val max_val) r)"

section \<open>Histogram quantiles\<close>

text \<open>The bound of a bucket series; \<open>None\<close> without a label \<open>le\<close>.\<close>

definition bucket_bound :: "series_result \<Rightarrow> f64 option" where
  "bucket_bound sr =
     map_option (\<lambda>v. if v = ''+Inf'' then f64_infinity
                     else (case parse_f64 v of None \<Rightarrow> f64_infinity | Some b \<Rightarrow> b))
       (map_of (se_labels sr) ''le'')"

definition without_le :: "prom_labels \<Rightarrow> prom_labels" where
  "without_le labels = filter (\<lambda>(k, _). k \<noteq> ''le'') labels"

text \<open>The first bucket that reaches the target, and where in it the target lies.\<close>

fun quantile_in_buckets :: "f64 \<Rightarrow> f64 \<Rightarrow> f64 \<Rightarrow> (f64 \<times> f64) list \<Rightarrow> f64 option" where
  "quantile_in_buckets target prev_count prev_bound [] = None"
| "quantile_in_buckets target prev_count prev_bound ((bound, n) # rest) =
     (if f64_le target n
      then Some (if is_infinite bound then prev_bound
                 else if f64_eq n prev_count then bound
                 else f64_add prev_bound
                        (f64_mul (f64_div (f64_sub target prev_count) (f64_sub n prev_count))
                          (f64_sub bound prev_bound)))
      else quantile_in_buckets target n bound rest)"

text \<open>The quantile at one time; \<open>None\<close> where the loop goes on to the next.\<close>

definition bucket_quantile :: "f64 \<Rightarrow> (f64 \<times> prom_samples) list \<Rightarrow> i64 \<Rightarrow> f64 option" where
  "bucket_quantile quantile buckets t =
     (let points = List.map_filter (\<lambda>(le, s). map_option (Pair le) (map_of s t)) buckets
      in if points = [] then None
         else (let whole = snd (last points)
               in if f64_eq whole f64_zero then None
                  else case quantile_in_buckets (f64_mul quantile whole) f64_zero f64_zero points of
                         None \<Rightarrow> Some (fst (last points))
                       | Some v \<Rightarrow> Some v))"

definition bucket_groups :: "series_result list \<Rightarrow> (prom_labels \<times> (f64 \<times> prom_samples) list) list" where
  "bucket_groups series =
     btree_group (\<lambda>(sr, b). without_le (se_labels sr)) (\<lambda>(sr, b). (b, se_samples sr))
       (List.map_filter (\<lambda>sr. map_option (Pair sr) (bucket_bound sr)) series)"

definition histogram_group ::
  "('i, 'r) prom_env \<Rightarrow> f64 \<Rightarrow> prom_labels \<times> (f64 \<times> prom_samples) list \<Rightarrow> panic + series_result list" where
  "histogram_group E quantile g =
     map_sum id (\<lambda>buckets. case buckets of
           [] \<Rightarrow> []
         | (_, first_samples) # _ \<Rightarrow>
             some_samples (fst g)
               (List.map_filter (\<lambda>(t, _). map_option (Pair t) (bucket_quantile quantile buckets t)) first_samples))
       (partial_sort (pv_sort_buckets E) fst False (snd g))"

definition eval_histogram_quantile ::
  "('i, 'r) prom_env \<Rightarrow> f64 \<Rightarrow> promql_result \<Rightarrow> promql_result evaluated" where
  "eval_histogram_quantile E quantile r =
     (case r of
        InstantVector series \<Rightarrow>
          lift_panic (map_sum id InstantVector (collect_streams (histogram_group E quantile) (bucket_groups series)))
      | _ \<Rightarrow> fail (PromEval ''histogram_quantile requires instant vector''))"

section \<open>Labels\<close>

definition extract_string_arg :: "prom_expr \<Rightarrow> string evaluated" where
  "extract_string_arg e =
     (case e of StringLiteral v \<Rightarrow> ok v | _ \<Rightarrow> fail (PromEval ''expected string literal argument''))"

text \<open>\<open>str::replace\<close> with a pattern that is not empty.\<close>

function replace_all :: "string \<Rightarrow> string \<Rightarrow> string \<Rightarrow> string" where
  "replace_all p r s =
     (case s of
        [] \<Rightarrow> []
      | c # cs \<Rightarrow> (case strip_prefix p s of
            Some rest \<Rightarrow> if p = [] then s else r @ replace_all p r rest
          | None \<Rightarrow> c # replace_all p r cs))"
  by pat_completeness auto
termination
  by (relation "measure (\<lambda>(p, r, s). length s)") (auto simp: strip_prefix_Some)

declare replace_all.simps [simp del]

text \<open>The groups after the whole match, highest number first.\<close>

definition expand_groups :: "string \<Rightarrow> string option list \<Rightarrow> string" where
  "expand_groups replacement caps =
     fold (\<lambda>i new_value. replace_all (CHR ''$'' # nat_to_string i)
             (case caps ! i of Some m \<Rightarrow> m | None \<Rightarrow> []) new_value)
       (rev [1..<length caps]) replacement"

fun update_first :: "'k \<Rightarrow> 'v \<Rightarrow> ('k \<times> 'v) list \<Rightarrow> ('k \<times> 'v) list" where
  "update_first k v [] = []"
| "update_first k v ((k', v') # rest) = (if k' = k then (k, v) # rest else (k', v') # update_first k v rest)"

text \<open>An empty value removes a label; another replaces the first of the name or is added in order.\<close>

definition set_label :: "string \<Rightarrow> string \<Rightarrow> prom_labels \<Rightarrow> prom_labels" where
  "set_label dst v labels =
     (if v = [] then filter (\<lambda>(k, _). k \<noteq> dst) labels
      else if map_of labels dst \<noteq> None then update_first dst v labels
      else sort_key fst (labels @ [(dst, v)]))"

definition label_value :: "prom_labels \<Rightarrow> string \<Rightarrow> string" where
  "label_value labels name = (case map_of labels name of None \<Rightarrow> [] | Some v \<Rightarrow> v)"

text \<open>A vector of either kind becomes an instant vector with its labels rewritten; a scalar passes.\<close>

definition map_labels :: "(prom_labels \<Rightarrow> prom_labels) \<Rightarrow> promql_result \<Rightarrow> promql_result" where
  "map_labels f r =
     (case r of
        InstantVector series \<Rightarrow> InstantVector (map (\<lambda>sr. sr\<lparr>se_labels := f (se_labels sr)\<rparr>) series)
      | RangeVector series \<Rightarrow> InstantVector (map (\<lambda>sr. sr\<lparr>se_labels := f (se_labels sr)\<rparr>) series)
      | Scalar v \<Rightarrow> Scalar v)"

definition replace_label ::
  "('i, 'r) prom_env \<Rightarrow> 'r \<Rightarrow> string \<Rightarrow> string \<Rightarrow> string \<Rightarrow> prom_labels \<Rightarrow> prom_labels" where
  "replace_label E re dst replacement src labels =
     (case pv_captures E re (label_value labels src) of
        None \<Rightarrow> labels
      | Some caps \<Rightarrow> set_label dst (expand_groups replacement caps) labels)"

definition eval_label_replace ::
  "('i, 'r) prom_env \<Rightarrow> prom_expr list \<Rightarrow> promql_result \<Rightarrow> promql_result evaluated" where
  "eval_label_replace E args inner =
     (if length args < 5 then fail (PromEval ''label_replace requires 5 arguments'')
      else and_then (extract_string_arg (args ! 1)) (\<lambda>dst.
           and_then (extract_string_arg (args ! 2)) (\<lambda>replacement.
           and_then (extract_string_arg (args ! 3)) (\<lambda>src.
           and_then (extract_string_arg (args ! 4)) (\<lambda>pattern.
             case label_regex (pv_regex E) pattern of
               None \<Rightarrow> fail (PromEval (''invalid regex: '' @ pattern))
             | Some re \<Rightarrow> ok (map_labels (replace_label E re dst replacement src) inner))))))"

fun extract_string_args :: "prom_expr list \<Rightarrow> string list evaluated" where
  "extract_string_args [] = ok []"
| "extract_string_args (e # es) =
     and_then (extract_string_arg e) (\<lambda>s. and_then (extract_string_args es) (\<lambda>ss. ok (s # ss)))"

definition join_label :: "string \<Rightarrow> string \<Rightarrow> string list \<Rightarrow> prom_labels \<Rightarrow> prom_labels" where
  "join_label dst separator srcs labels = set_label dst (join separator (map (label_value labels) srcs)) labels"

definition eval_label_join :: "prom_expr list \<Rightarrow> promql_result \<Rightarrow> promql_result evaluated" where
  "eval_label_join args inner =
     (if length args < 4 then fail (PromEval ''label_join requires at least 4 arguments'')
      else and_then (extract_string_arg (args ! 1)) (\<lambda>dst.
           and_then (extract_string_arg (args ! 2)) (\<lambda>separator.
           and_then (extract_string_args (drop 3 args)) (\<lambda>srcs.
             ok (map_labels (join_label dst separator srcs) inner)))))"

end
