(* ===== verification/Promql_Aggregation.thy ===== *)
theory Promql_Aggregation
  imports Promql_Select
begin

text \<open>
  Aggregation operators, \<open>src/query/promql/eval/aggregation.rs\<close>: series are grouped by the labels
  the modifier keeps, and each group is folded time by time.
\<close>

definition compute_group_labels :: "prom_labels \<Rightarrow> label_modifier option \<Rightarrow> prom_labels" where
  "compute_group_labels labels modifier =
     (case modifier of
        Some (Include names) \<Rightarrow> filter (\<lambda>(k, _). k \<in> set names) labels
      | Some (Exclude names) \<Rightarrow> filter (\<lambda>(k, _). k \<notin> set names) labels
      | None \<Rightarrow> [])"

definition scalar_to_count :: "f64 \<Rightarrow> usize" where
  "scalar_to_count v =
     (if \<not> is_finite v \<or> f64_le v f64_zero then 0
      else if f64_le (f64_of_nat u64_max) v then u64_max
      else f64_to_usize v)"

text \<open>The value of a series that sorting looks at: its last sample.\<close>

definition last_sample :: "series_result \<Rightarrow> f64" where
  "last_sample sr = (if se_samples sr = [] then f64_nan else snd (last (se_samples sr)))"

definition group_timestamps :: "series_result list \<Rightarrow> i64 list" where
  "group_timestamps series = remdups_adj (sort (concat (map (\<lambda>s. map fst (se_samples s)) series)))"

definition values_at :: "series_result list \<Rightarrow> i64 \<Rightarrow> f64 list" where
  "values_at series t = List.map_filter (\<lambda>s. hm_get (sample_lookup (se_samples s)) t) series"

definition aggregate_values :: "string \<Rightarrow> f64 list \<Rightarrow> f64" where
  "aggregate_values op values =
     (if op = ''sum'' then f64_sum values
      else if op = ''avg'' then mean_of values
      else if op = ''max'' then fold (\<lambda>v acc. f64_max acc v) values f64_neg_infinity
      else if op = ''min'' then fold (\<lambda>v acc. f64_min acc v) values f64_infinity
      else if op = ''count'' then f64_of_nat (length values)
      else if op = ''group'' then f64_one
      else if op = ''stddev'' then f64_sqrt (variance_of values)
      else variance_of values)"

definition aggregate_group :: "string \<Rightarrow> series_result list \<Rightarrow> prom_samples" where
  "aggregate_group op series =
     List.map_filter (\<lambda>t. let values = values_at series t
                          in if values = [] then None else Some (t, aggregate_values op values))
       (group_timestamps series)"

definition group_series :: "label_modifier option \<Rightarrow> series_result list \<Rightarrow> (prom_labels \<times> series_result list) list" where
  "group_series modifier series = btree_group (\<lambda>sr. compute_group_labels (se_labels sr) modifier) id series"

text \<open>A loop over the times of a group that may panic.\<close>

definition quantile_group :: "('i, 'r) prom_env \<Rightarrow> series_result list \<Rightarrow> f64 \<Rightarrow> panic + prom_samples" where
  "quantile_group E series q =
     (if series = [] \<or> \<not> unit_interval q then Inr []
      else collect_streams (\<lambda>t. let values = values_at series t
             in if values = [] then Inr []
                else case partial_sort (pv_sort_values E) id False values of
                       Inl p \<Rightarrow> Inl p
                     | Inr sorted_values \<Rightarrow> map_sum id (\<lambda>v. [(t, v)]) (interpolate_quantile sorted_values q))
         (group_timestamps series))"

definition eval_quantile_aggregation ::
  "('i, 'r) prom_env \<Rightarrow> f64 \<Rightarrow> series_result list \<Rightarrow> label_modifier option \<Rightarrow> panic + promql_result" where
  "eval_quantile_aggregation E q series modifier =
     map_sum id InstantVector
       (collect_streams (\<lambda>(labels, members). map_sum id (some_samples labels) (quantile_group E members q))
         (group_series modifier series))"

definition simple_aggregations :: "string list" where
  "simple_aggregations = [''sum'', ''avg'', ''max'', ''min'', ''count'', ''stddev'', ''stdvar'', ''group'']"

definition scalar_param :: "promql_result option \<Rightarrow> string \<Rightarrow> string \<Rightarrow> f64 evaluated" where
  "scalar_param param not_scalar missing =
     (case param of
        Some (Scalar v) \<Rightarrow> ok v
      | Some _ \<Rightarrow> fail (PromEval not_scalar)
      | None \<Rightarrow> fail (PromEval missing))"

definition eval_aggregation_series ::
  "('i, 'r) prom_env \<Rightarrow> string \<Rightarrow> label_modifier option \<Rightarrow> series_result list \<Rightarrow> promql_result option \<Rightarrow> promql_result evaluated"
where
  "eval_aggregation_series E op modifier series param =
     (if op = ''topk'' \<or> op = ''bottomk'' then
        and_then (scalar_param param ''topk/bottomk parameter must be a scalar'' ''topk/bottomk requires a parameter k'') (\<lambda>v.
          lift_panic (map_sum id (\<lambda>sorted_series. InstantVector (take (scalar_to_count v) sorted_series))
            (partial_sort (pv_sort_series E) last_sample (op = ''topk'') series)))
      else if op = ''count_values'' then fail (PromUnsupported ''count_values aggregation'')
      else if op = ''quantile'' then
        and_then (scalar_param param ''quantile parameter must be a scalar''
                   (''quantile requires a parameter '' @ [CHR 0xCF, CHR 0x86])) (\<lambda>q.
          lift_panic (eval_quantile_aggregation E q series modifier))
      else if op \<in> set simple_aggregations then
        ok (InstantVector (map (\<lambda>(labels, members). \<lparr>se_labels = labels, se_samples = aggregate_group op members\<rparr>)
             (group_series modifier series)))
      else fail (PromUnsupported (''aggregation: '' @ op)))"

definition eval_aggregation ::
  "('i, 'r) prom_env \<Rightarrow> string \<Rightarrow> label_modifier option \<Rightarrow> promql_result \<Rightarrow> promql_result option \<Rightarrow> promql_result evaluated"
where
  "eval_aggregation E op modifier inner param =
     (case inner of
        Scalar v \<Rightarrow> ok (Scalar v)
      | InstantVector series \<Rightarrow> eval_aggregation_series E op modifier series param
      | RangeVector series \<Rightarrow> eval_aggregation_series E op modifier series param)"

end
