(* ===== verification/Promql_Binary.thy ===== *)
theory Promql_Binary
  imports Promql_Select
begin

text \<open>
  Binary operators, \<open>src/query/promql/eval/binary.rs\<close>: arithmetic and comparisons between scalars
  and vectors, vector matching by labels with its joins, and the set operators.
\<close>

section \<open>Operators on values\<close>

definition truth :: "bool \<Rightarrow> f64" where "truth b = (if b then f64_one else f64_zero)"

definition apply_binary_op :: "libm_ops \<Rightarrow> string \<Rightarrow> f64 \<Rightarrow> f64 \<Rightarrow> f64" where
  "apply_binary_op M op l r =
     (if op = ''+'' then f64_add l r
      else if op = ''-'' then f64_sub l r
      else if op = ''*'' then f64_mul l r
      else if op = ''/'' then (if f64_eq r f64_zero then f64_nan else f64_div l r)
      else if op = ''%'' then (if f64_eq r f64_zero then f64_nan else f64_rem l r)
      else if op = ''>'' then truth (f64_lt r l)
      else if op = ''<'' then truth (f64_lt l r)
      else if op = ''>='' then truth (f64_le r l)
      else if op = ''<='' then truth (f64_le l r)
      else if op = ''=='' then truth (f64_lt (f64_abs (f64_sub l r)) f64_epsilon)
      else if op = ''!='' then truth (f64_le f64_epsilon (f64_abs (f64_sub l r)))
      else if op = ''^'' then m_powf M l r
      else f64_nan)"

definition is_set_op :: "string \<Rightarrow> bool" where
  "is_set_op op \<longleftrightarrow> op \<in> set [''and'', ''or'', ''unless'']"

definition is_comparison :: "string \<Rightarrow> bool" where
  "is_comparison op \<longleftrightarrow> op \<in> set [''>'', ''<'', ''>='', ''<='', ''=='', ''!='']"

definition comparison_sample :: "string \<Rightarrow> i64 \<Rightarrow> f64 \<Rightarrow> f64 \<Rightarrow> bool \<Rightarrow> (i64 \<times> f64) option" where
  "comparison_sample op t lhs_value r return_bool =
     (if is_comparison op
      then (if return_bool then Some (t, r) else if f64_eq r f64_zero then None else Some (t, lhs_value))
      else Some (t, r))"

section \<open>Matching series\<close>

datatype match_mode = AllLabels | OnLabels "string list" | IgnoringLabels "string list"

datatype join_mode = PlainJoin | GroupLeft "string list" | GroupRight "string list"

definition match_mode_of :: "label_modifier option \<Rightarrow> match_mode" where
  "match_mode_of modifier =
     (case modifier of
        Some (Include names) \<Rightarrow> OnLabels names
      | Some (Exclude names) \<Rightarrow> IgnoringLabels names
      | None \<Rightarrow> AllLabels)"

definition join_mode_of :: "match_cardinality \<Rightarrow> join_mode" where
  "join_mode_of cardinality =
     (case cardinality of ManyToOne names \<Rightarrow> GroupLeft names | OneToMany names \<Rightarrow> GroupRight names | _ \<Rightarrow> PlainJoin)"

definition labels_without_metric_name :: "prom_labels \<Rightarrow> prom_labels" where
  "labels_without_metric_name labels = filter (\<lambda>(k, _). k \<noteq> ''__name__'') labels"

definition match_key :: "match_mode \<Rightarrow> prom_labels \<Rightarrow> prom_labels" where
  "match_key mode labels =
     (case mode of
        AllLabels \<Rightarrow> labels_without_metric_name labels
      | OnLabels names \<Rightarrow> filter (\<lambda>(k, _). k \<in> set names) labels
      | IgnoringLabels names \<Rightarrow> filter (\<lambda>(k, _). k \<noteq> ''__name__'' \<and> k \<notin> set names) labels)"

type_synonym rhs_entry = "series_result \<times> sample_lookup"

definition rhs_by_key :: "match_mode \<Rightarrow> series_result list \<Rightarrow> (prom_labels, rhs_entry list) hash_map" where
  "rhs_by_key mode rhs_series =
     fold (\<lambda>rs. hm_upsert [] (match_key mode (se_labels rs)) (\<lambda>es. es @ [(rs, sample_lookup (se_samples rs))]))
       rhs_series []"

text \<open>The samples of a left series that meet one of the right at the same time.\<close>

definition joined_samples ::
  "libm_ops \<Rightarrow> string \<Rightarrow> bool \<Rightarrow> series_result \<Rightarrow> sample_lookup \<Rightarrow> prom_samples" where
  "joined_samples M op return_bool ls rhs_samples =
     List.map_filter (\<lambda>(t, lv).
         case hm_get rhs_samples t of
           None \<Rightarrow> None
         | Some rv \<Rightarrow> comparison_sample op t lv (apply_binary_op M op lv rv) return_bool) (se_samples ls)"

text \<open>The labels of the many side with the named labels of the one side written over them.\<close>

fun set_first :: "'k \<Rightarrow> 'v \<Rightarrow> ('k \<times> 'v) list \<Rightarrow> ('k \<times> 'v) list" where
  "set_first k v [] = [(k, v)]"
| "set_first k v ((k', v') # rest) = (if k' = k then (k', v) # rest else (k', v') # set_first k v rest)"

definition carry_labels :: "string list \<Rightarrow> prom_labels \<Rightarrow> prom_labels \<Rightarrow> prom_labels" where
  "carry_labels names from_labels labels =
     sort_key fst (fold (\<lambda>(k, v) ls. if k \<in> set names then set_first k v ls else ls) from_labels labels)"

definition plain_join ::
  "libm_ops \<Rightarrow> string \<Rightarrow> bool \<Rightarrow> series_result \<Rightarrow> rhs_entry list \<Rightarrow> promql_error + series_result list" where
  "plain_join M op return_bool ls matches =
     Inr (concat (map (\<lambda>(rs, lookup). some_samples (labels_without_metric_name (se_labels ls))
                         (joined_samples M op return_bool ls lookup)) matches))"

definition group_left_join ::
  "('i, 'r) prom_env \<Rightarrow> string \<Rightarrow> bool \<Rightarrow> string list \<Rightarrow> prom_labels \<Rightarrow> series_result \<Rightarrow> rhs_entry list \<Rightarrow>
    promql_error + series_result list" where
  "group_left_join E op return_bool names key ls matches =
     (if 1 < length matches
      then Inl (PromEval (''group_left: multiple RHS series match labels '' @ pv_debug_labels E key))
      else (let (rs, lookup) = hd matches
            in Inr (some_samples (carry_labels names (se_labels rs) (labels_without_metric_name (se_labels ls)))
                      (joined_samples (pv_libm E) op return_bool ls lookup))))"

definition group_right_join ::
  "libm_ops \<Rightarrow> string \<Rightarrow> bool \<Rightarrow> string list \<Rightarrow> series_result \<Rightarrow> rhs_entry list \<Rightarrow> promql_error + series_result list" where
  "group_right_join M op return_bool names ls matches =
     Inr (concat (map (\<lambda>(rs, lookup).
            some_samples (carry_labels names (se_labels ls) (labels_without_metric_name (se_labels rs)))
              (joined_samples M op return_bool ls lookup)) matches))"

text \<open>The loop over the left series; one without a match is passed over.\<close>

fun join_series ::
  "(prom_labels \<Rightarrow> series_result \<Rightarrow> rhs_entry list \<Rightarrow> promql_error + series_result list) \<Rightarrow> match_mode \<Rightarrow>
    (prom_labels, rhs_entry list) hash_map \<Rightarrow> series_result list \<Rightarrow> promql_error + series_result list" where
  "join_series f mode by_key [] = Inr []"
| "join_series f mode by_key (ls # rest) =
     (let key = match_key mode (se_labels ls)
      in case hm_get by_key key of
           None \<Rightarrow> join_series f mode by_key rest
         | Some matches \<Rightarrow>
             (case f key ls matches of
                Inl e \<Rightarrow> Inl e
              | Inr here \<Rightarrow> map_sum id (append here) (join_series f mode by_key rest)))"

definition eval_vector_vector ::
  "('i, 'r) prom_env \<Rightarrow> string \<Rightarrow> series_result list \<Rightarrow> series_result list \<Rightarrow> match_mode \<Rightarrow> join_mode \<Rightarrow> bool \<Rightarrow>
    promql_error + promql_result" where
  "eval_vector_vector E op lhs_series rhs_series mode jm return_bool =
     map_sum id InstantVector
       (join_series (\<lambda>key ls matches.
            case jm of
              PlainJoin \<Rightarrow> plain_join (pv_libm E) op return_bool ls matches
            | GroupLeft names \<Rightarrow> group_left_join E op return_bool names key ls matches
            | GroupRight names \<Rightarrow> group_right_join (pv_libm E) op return_bool names ls matches)
         mode (rhs_by_key mode rhs_series) lhs_series)"

section \<open>Set operators\<close>

definition without_name :: "series_result \<Rightarrow> series_result" where
  "without_name sr = sr\<lparr>se_labels := labels_without_metric_name (se_labels sr)\<rparr>"

definition match_keys :: "match_mode \<Rightarrow> series_result list \<Rightarrow> prom_labels list" where
  "match_keys mode series = map (\<lambda>sr. match_key mode (se_labels sr)) series"

definition eval_set_op ::
  "string \<Rightarrow> series_result list \<Rightarrow> series_result list \<Rightarrow> match_mode \<Rightarrow> promql_error + promql_result" where
  "eval_set_op op lhs_series rhs_series mode =
     (let rhs_keys = match_keys mode rhs_series
      in if op = ''and'' then
           Inr (InstantVector (map without_name
             (filter (\<lambda>ls. match_key mode (se_labels ls) \<in> set rhs_keys) lhs_series)))
         else if op = ''unless'' then
           Inr (InstantVector (map without_name
             (filter (\<lambda>ls. match_key mode (se_labels ls) \<notin> set rhs_keys) lhs_series)))
         else if op = ''or'' then
           (let lhs_keys = match_keys mode lhs_series
            in Inr (InstantVector (map without_name lhs_series @ map without_name
                 (filter (\<lambda>rs. match_key mode (se_labels rs) \<notin> set lhs_keys) rhs_series))))
         else Inl (PromUnsupported (''set operator: '' @ op)))"

section \<open>Binary expressions\<close>

definition eval_vector_scalar ::
  "libm_ops \<Rightarrow> string \<Rightarrow> bool \<Rightarrow> bool \<Rightarrow> series_result list \<Rightarrow> f64 \<Rightarrow> series_result list" where
  "eval_vector_scalar M op return_bool is_lhs_scalar series scalar =
     filter (\<lambda>sr. se_samples sr \<noteq> [])
       (map (\<lambda>sr. sr\<lparr>se_samples := List.map_filter (\<lambda>(t, v).
                 comparison_sample op t v
                   (if is_lhs_scalar then apply_binary_op M op scalar v else apply_binary_op M op v scalar)
                   return_bool) (se_samples sr)\<rparr>) series)"

definition eval_binary_result ::
  "('i, 'r) prom_env \<Rightarrow> string \<Rightarrow> bin_modifier option \<Rightarrow> promql_result \<Rightarrow> promql_result \<Rightarrow> promql_error + promql_result" where
  "eval_binary_result E op modifier lhs rhs =
     (let m = (case modifier of None \<Rightarrow> bin_modifier_default | Some m \<Rightarrow> m);
          mode = match_mode_of (bm_matching m);
          jm = join_mode_of (bm_card m)
      in case (lhs, rhs) of
           (Scalar l, Scalar r) \<Rightarrow> Inr (Scalar (apply_binary_op (pv_libm E) op l r))
         | (InstantVector series, Scalar x) \<Rightarrow>
             Inr (InstantVector (eval_vector_scalar (pv_libm E) op (bm_return_bool m) False series x))
         | (Scalar x, InstantVector series) \<Rightarrow>
             Inr (InstantVector (eval_vector_scalar (pv_libm E) op (bm_return_bool m) True series x))
         | (InstantVector lhs_series, InstantVector rhs_series) \<Rightarrow>
             if is_set_op op then eval_set_op op lhs_series rhs_series mode
             else eval_vector_vector E op lhs_series rhs_series mode jm (bm_return_bool m)
         | _ \<Rightarrow> Inl (PromUnsupported ''unsupported binary operand types''))"

end
