(* ===== verification/Promql_Eval.thy ===== *)
theory Promql_Eval
  imports Promql_Functions Promql_Aggregation Promql_Binary
begin

text \<open>
  The evaluator, \<open>src/query/promql/eval.rs\<close>: the walk over the expression and the dispatch of
  function calls.
\<close>

definition apply_unary_minus :: "promql_result \<Rightarrow> promql_result" where
  "apply_unary_minus r = map_result f64_negate r"

definition sort_vector :: "('i, 'r) prom_env \<Rightarrow> promql_result \<Rightarrow> bool \<Rightarrow> panic + promql_result" where
  "sort_vector E r descending =
     (case r of
        InstantVector series \<Rightarrow>
          map_sum id InstantVector (partial_sort (pv_sort_series E) last_sample descending series)
      | other \<Rightarrow> Inr other)"

definition as_scalar :: "string \<Rightarrow> promql_result \<Rightarrow> f64 evaluated" where
  "as_scalar message r = (case r of Scalar v \<Rightarrow> ok v | _ \<Rightarrow> fail (PromEval message))"

text \<open>The functions of one evaluated argument; \<open>args\<close> are the unevaluated ones.\<close>

definition one_series :: "i64 \<Rightarrow> f64 \<Rightarrow> promql_result" where
  "one_series t v = InstantVector [\<lparr>se_labels = [], se_samples = [(t, v)]\<rparr>]"

definition call_absent :: "i64 \<Rightarrow> promql_result \<Rightarrow> promql_result" where
  "call_absent end_ms inner =
     (case inner of
        InstantVector [] \<Rightarrow> one_series end_ms f64_one
      | RangeVector [] \<Rightarrow> one_series end_ms f64_one
      | _ \<Rightarrow> InstantVector [])"

definition call_vector :: "i64 \<Rightarrow> promql_result \<Rightarrow> promql_result" where
  "call_vector end_ms inner = (case inner of Scalar v \<Rightarrow> one_series end_ms v | other \<Rightarrow> other)"

definition call_scalar :: "promql_result \<Rightarrow> promql_result" where
  "call_scalar inner =
     (case inner of
        InstantVector [sr] \<Rightarrow> Scalar (case se_samples sr of [] \<Rightarrow> f64_nan | (_, v) # _ \<Rightarrow> v)
      | Scalar v \<Rightarrow> Scalar v
      | _ \<Rightarrow> Scalar f64_nan)"

definition rate_functions :: "string list" where
  "rate_functions = [''rate'', ''increase'', ''irate'', ''delta'', ''deriv'']"

definition over_time_functions :: "string list" where
  "over_time_functions = [''avg_over_time'', ''min_over_time'', ''max_over_time'', ''sum_over_time'',
     ''count_over_time'', ''last_over_time'', ''present_over_time'', ''stddev_over_time'', ''stdvar_over_time'']"

definition one_arg_functions :: "string list" where
  "one_arg_functions = [''abs'', ''ceil'', ''floor'', ''round'', ''ln'', ''log2'', ''log10'', ''exp'', ''sqrt'', ''sgn'',
     ''timestamp'', ''label_replace'', ''label_join'', ''absent'', ''sort'', ''sort_desc'', ''vector'', ''scalar'']"

definition apply_one_arg ::
  "('i, 'r) prom_env \<Rightarrow> string \<Rightarrow> prom_expr list \<Rightarrow> i64 \<Rightarrow> promql_result \<Rightarrow> promql_result evaluated" where
  "apply_one_arg E func args end_ms inner =
     (if func \<in> set [''abs'', ''ceil'', ''floor'', ''round''] then apply_scalar_func func inner
      else if func \<in> set [''ln'', ''log2'', ''log10'', ''exp'', ''sqrt'', ''sgn''] then apply_math_func (pv_libm E) func inner
      else if func = ''timestamp'' then apply_timestamp inner end_ms
      else if func = ''label_replace'' then eval_label_replace E args inner
      else if func = ''label_join'' then eval_label_join args inner
      else if func = ''absent'' then ok (call_absent end_ms inner)
      else if func = ''sort'' \<or> func = ''sort_desc'' then lift_panic (sort_vector E inner (func = ''sort_desc''))
      else if func = ''vector'' then ok (call_vector end_ms inner)
      else ok (call_scalar inner))"

text \<open>The functions of a range vector argument, which they do not evaluate but read.\<close>

definition eval_range_function ::
  "('i, 'r) prom_env \<Rightarrow> string \<Rightarrow> prom_expr list \<Rightarrow> 'i metric_store \<Rightarrow> i64 \<Rightarrow> i64 \<Rightarrow> i64 \<Rightarrow> bool \<Rightarrow> promql_result evaluated" where
  "eval_range_function E func args s start_ms end_ms step_ms is_instant =
     (case args of
        [] \<Rightarrow> fail (PromEval (func @ '' requires a range vector argument''))
      | arg # _ \<Rightarrow>
          if func \<in> set rate_functions then eval_rate_like E func arg s start_ms end_ms step_ms is_instant
          else if func \<in> set over_time_functions then eval_over_time E func arg s start_ms end_ms step_ms is_instant
          else if func = ''absent_over_time'' then eval_absent_over_time E arg s start_ms end_ms step_ms is_instant
          else eval_changes_or_resets E func arg s start_ms end_ms step_ms is_instant)"

definition range_functions :: "string list" where
  "range_functions = rate_functions @ over_time_functions @ [''absent_over_time'', ''changes'', ''resets'']"

text \<open>
  A call, given its arguments and what evaluating each yields. A function uses the values of the
  arguments it evaluates, in the order of the code; a range function only reads its argument.
\<close>

definition eval_quantile_call ::
  "('i, 'r) prom_env \<Rightarrow> prom_expr list \<Rightarrow> promql_result evaluated list \<Rightarrow> 'i metric_store \<Rightarrow> i64 \<Rightarrow> i64 \<Rightarrow> i64 \<Rightarrow> bool \<Rightarrow>
    promql_result evaluated" where
  "eval_quantile_call E args vals s start_ms end_ms step_ms is_instant =
     (if length args < 2 then fail (PromEval ''quantile_over_time requires 2 arguments'')
      else and_then (vals ! 0) (\<lambda>r.
           and_then (as_scalar ''first arg to quantile_over_time must be scalar'' r) (\<lambda>quantile.
             eval_quantile_over_time E quantile (args ! 1) s start_ms end_ms step_ms is_instant)))"

definition eval_histogram_call ::
  "('i, 'r) prom_env \<Rightarrow> promql_result evaluated list \<Rightarrow> promql_result evaluated" where
  "eval_histogram_call E vals =
     (if length vals < 2 then fail (PromEval ''histogram_quantile requires 2 arguments'')
      else and_then (vals ! 0) (\<lambda>r.
           and_then (as_scalar ''first arg to histogram_quantile must be scalar'' r) (\<lambda>quantile.
             and_then (vals ! 1) (eval_histogram_quantile E quantile))))"

definition eval_clamp_call :: "string \<Rightarrow> promql_result evaluated list \<Rightarrow> promql_result evaluated" where
  "eval_clamp_call func vals =
     (if func = ''clamp'' then
        (if length vals < 3 then fail (PromEval ''clamp requires 3 arguments: vector, min, max'')
         else and_then (vals ! 0) (\<lambda>inner.
              and_then (vals ! 1) (\<lambda>r1. and_then (as_scalar ''clamp min argument must be a scalar'' r1) (\<lambda>lo.
              and_then (vals ! 2) (\<lambda>r2. and_then (as_scalar ''clamp max argument must be a scalar'' r2) (\<lambda>hi.
                apply_clamp inner (Some lo) (Some hi)))))))
      else if func = ''clamp_min'' then
        (if length vals < 2 then fail (PromEval ''clamp_min requires 2 arguments: vector, min'')
         else and_then (vals ! 0) (\<lambda>inner.
              and_then (vals ! 1) (\<lambda>r1. and_then (as_scalar ''clamp_min argument must be a scalar'' r1) (\<lambda>lo.
                apply_clamp inner (Some lo) None))))
      else
        (if length vals < 2 then fail (PromEval ''clamp_max requires 2 arguments: vector, max'')
         else and_then (vals ! 0) (\<lambda>inner.
              and_then (vals ! 1) (\<lambda>r1. and_then (as_scalar ''clamp_max argument must be a scalar'' r1) (\<lambda>hi.
                apply_clamp inner None (Some hi))))))"

definition eval_call ::
  "('i, 'r) prom_env \<Rightarrow> string \<Rightarrow> prom_expr list \<Rightarrow> promql_result evaluated list \<Rightarrow> 'i metric_store \<Rightarrow>
    i64 \<Rightarrow> i64 \<Rightarrow> i64 \<Rightarrow> bool \<Rightarrow> promql_result evaluated" where
  "eval_call E func args vals s start_ms end_ms step_ms is_instant =
     (if func \<in> set range_functions then eval_range_function E func args s start_ms end_ms step_ms is_instant
      else if func \<in> set one_arg_functions then
        (case vals of
           [] \<Rightarrow> fail (PromEval (func @ '' requires an argument''))
         | v # _ \<Rightarrow> and_then v (apply_one_arg E func args end_ms))
      else if func = ''quantile_over_time'' then eval_quantile_call E args vals s start_ms end_ms step_ms is_instant
      else if func = ''histogram_quantile'' then eval_histogram_call E vals
      else if func \<in> set [''clamp'', ''clamp_min'', ''clamp_max''] then eval_clamp_call func vals
      else if func = ''time'' then ok (one_series end_ms (ms_to_s end_ms))
      else fail (PromUnsupported (''function: '' @ func)))"

fun eval_expr ::
  "('i, 'r) prom_env \<Rightarrow> prom_expr \<Rightarrow> 'i metric_store \<Rightarrow> i64 \<Rightarrow> i64 \<Rightarrow> i64 \<Rightarrow> bool \<Rightarrow> promql_result evaluated"
where
  "eval_expr E (NumberLiteral v) s start_ms end_ms step_ms is_instant = ok (Scalar v)"
| "eval_expr E (VectorSelector vs) s start_ms end_ms step_ms is_instant =
     eval_vector_selector E vs s start_ms end_ms step_ms is_instant"
| "eval_expr E (MatrixSelector vs d) s start_ms end_ms step_ms is_instant =
     eval_matrix_selector E vs d s start_ms end_ms"
| "eval_expr E (PromCall func args) s start_ms end_ms step_ms is_instant =
     eval_call E func args (map (\<lambda>e. eval_expr E e s start_ms end_ms step_ms is_instant) args)
       s start_ms end_ms step_ms is_instant"
| "eval_expr E (Aggregate op e param modifier) s start_ms end_ms step_ms is_instant =
     and_then (eval_expr E e s start_ms end_ms step_ms is_instant) (\<lambda>inner.
       case param of
         None \<Rightarrow> eval_aggregation E op modifier inner None
       | Some p \<Rightarrow>
           and_then (eval_expr E p s start_ms end_ms step_ms is_instant) (\<lambda>v.
             eval_aggregation E op modifier inner (Some v)))"
| "eval_expr E (PromBinary op lhs rhs modifier) s start_ms end_ms step_ms is_instant =
     and_then (eval_expr E lhs s start_ms end_ms step_ms is_instant) (\<lambda>l.
       and_then (eval_expr E rhs s start_ms end_ms step_ms is_instant) (\<lambda>r.
         Inr (eval_binary_result E op modifier l r)))"
| "eval_expr E (PromParen e) s start_ms end_ms step_ms is_instant =
     eval_expr E e s start_ms end_ms step_ms is_instant"
| "eval_expr E (PromUnary e) s start_ms end_ms step_ms is_instant =
     and_then (eval_expr E e s start_ms end_ms step_ms is_instant) (\<lambda>r. ok (apply_unary_minus r))"
| "eval_expr E (StringLiteral v) s start_ms end_ms step_ms is_instant =
     fail (PromUnsupported (pv_debug E (StringLiteral v)))"
| "eval_expr E (Subquery e) s start_ms end_ms step_ms is_instant =
     fail (PromUnsupported (pv_debug E (Subquery e)))"
| "eval_expr E (Extension x) s start_ms end_ms step_ms is_instant =
     fail (PromUnsupported (pv_debug E (Extension x)))"

section \<open>Queries\<close>

definition evaluate_instant ::
  "('i, 'r) prom_env \<Rightarrow> string \<Rightarrow> 'i metric_store \<Rightarrow> i64 \<Rightarrow> promql_result evaluated" where
  "evaluate_instant E query s time_ms =
     (case pv_parse E query of
        Inl e \<Rightarrow> fail (PromParse e)
      | Inr ast \<Rightarrow> eval_expr E ast s time_ms time_ms 0 True)"

definition evaluate_range ::
  "('i, 'r) prom_env \<Rightarrow> string \<Rightarrow> 'i metric_store \<Rightarrow> i64 \<Rightarrow> i64 \<Rightarrow> i64 \<Rightarrow> promql_result evaluated" where
  "evaluate_range E query s start_ms end_ms step_ms =
     (case pv_parse E query of
        Inl e \<Rightarrow> fail (PromParse e)
      | Inr ast \<Rightarrow> eval_expr E ast s start_ms end_ms step_ms False)"

end
