(* ===== verification/Promql_Handlers.thy ===== *)
theory Promql_Handlers
  imports Promql_Eval Json Config Ingest_Common
begin

text \<open>
  The PromQL endpoints, \<open>src/query/promql/handlers.rs\<close>: parameters, defaults and limits of the
  queries, the series and label listings, and the JSON of the results. A query that panics takes
  its response with it, so a handler yields a panic or a response.
\<close>

definition promql_hint :: string where "promql_hint = ''Example: rate(http_requests_total[5m])''"

definition max_query_steps :: i64 where "max_query_steps = 11000"

record instant_query_params =
  iq_query :: string
  iq_time :: "string option"

record range_query_params =
  rq_query :: string
  rq_start :: "string option"
  rq_end :: "string option"
  rq_step :: "string option"

record series_params =
  sp_matchers :: "string list"
  sp_start :: "string option"
  sp_end :: "string option"

section \<open>Times\<close>

text \<open>The system clock is a signed distance from the epoch in nanoseconds.\<close>

definition now_ms :: "int \<Rightarrow> i64" where
  "now_ms clock = duration_to_i64_ms (nat clock)"

definition classify_to_ms :: "i64 \<Rightarrow> i64" where
  "classify_to_ms n =
     (if 1000000000000000 < n then i64_div n 1000000
      else if 1000000000000 < n then n
      else i64_saturating_mul n 1000)"

definition float_seconds_to_ms :: "f64 \<Rightarrow> i64 option" where
  "float_seconds_to_ms secs =
     (let ms_per_sec = f64_of_int 1000
      in if \<not> is_finite secs \<or> f64_lt (f64_div (f64_of_int i64_max) ms_per_sec) secs \<or>
           f64_lt secs (f64_div (f64_of_int i64_min) ms_per_sec)
         then None
         else Some (f64_to_i64 (f64_mul secs ms_per_sec)))"

definition parse_timestamp_ms :: "string \<Rightarrow> i64 option" where
  "parse_timestamp_ms s =
     (case parse_i64 s of
        Some n \<Rightarrow> Some (classify_to_ms n)
      | None \<Rightarrow> Option.bind (parse_f64 s) float_seconds_to_ms)"

section \<open>Responses\<close>

definition promql_error_text :: "promql_error \<Rightarrow> string" where
  "promql_error_text e =
     (case e of
        PromParse m \<Rightarrow> ''parse error: '' @ m
      | PromUnsupported m \<Rightarrow> ''unsupported expression: '' @ m
      | PromEval m \<Rightarrow> ''evaluation error: '' @ m)"

definition bad_data :: "string \<Rightarrow> response" where
  "bad_data message = (status_bad_request, json_map [(''status'', JString ''error''),
     (''errorType'', JString ''bad_data''), (''error'', JString message)])"

definition bad_query :: "promql_error \<Rightarrow> response" where
  "bad_query e = (status_bad_request, json_map [(''status'', JString ''error''),
     (''errorType'', JString ''bad_data''), (''error'', JString (promql_error_text e)), (''hint'', JString promql_hint)])"

definition success :: "json \<Rightarrow> json" where
  "success data = json_map [(''status'', JString ''success''), (''data'', data)]"

definition typed_result :: "string \<Rightarrow> json \<Rightarrow> json" where
  "typed_result kind r = success (json_map [(''resultType'', JString kind), (''result'', r)])"

definition labels_object :: "prom_labels \<Rightarrow> json" where
  "labels_object labels = json_map (map (\<lambda>(k, v). (k, JString v)) labels)"

definition sample_json :: "(f64 \<Rightarrow> string) \<Rightarrow> i64 \<times> f64 \<Rightarrow> json" where
  "sample_json fmt p = (case p of (t, v) \<Rightarrow> JArray [json_f64 (ms_to_s t), JString (fmt v)])"

definition format_instant_series :: "(f64 \<Rightarrow> string) \<Rightarrow> series_result \<Rightarrow> json" where
  "format_instant_series fmt sr = json_map [(''metric'', labels_object (se_labels sr)),
     (''value'', (case se_samples sr of [] \<Rightarrow> JNull | p # _ \<Rightarrow> sample_json fmt p))]"

definition format_range_series :: "(f64 \<Rightarrow> string) \<Rightarrow> series_result \<Rightarrow> json" where
  "format_range_series fmt sr = json_map [(''metric'', labels_object (se_labels sr)),
     (''values'', JArray (map (sample_json fmt) (se_samples sr)))]"

definition format_promql_result :: "(f64 \<Rightarrow> string) \<Rightarrow> promql_result \<Rightarrow> i64 \<Rightarrow> json" where
  "format_promql_result fmt r time_ms =
     (case r of
        Scalar v \<Rightarrow> typed_result ''scalar'' (sample_json fmt (time_ms, v))
      | InstantVector series \<Rightarrow> typed_result ''vector'' (JArray (map (format_instant_series fmt) series))
      | RangeVector series \<Rightarrow> typed_result ''matrix'' (JArray (map (format_range_series fmt) series)))"

definition format_range_result :: "(f64 \<Rightarrow> string) \<Rightarrow> promql_result \<Rightarrow> i64 \<Rightarrow> json" where
  "format_range_result fmt r end_ms =
     (case r of
        Scalar v \<Rightarrow> typed_result ''scalar'' (sample_json fmt (end_ms, v))
      | InstantVector series \<Rightarrow> typed_result ''matrix'' (JArray (map (format_range_series fmt) series))
      | RangeVector series \<Rightarrow> typed_result ''matrix'' (JArray (map (format_range_series fmt) series)))"

definition respond :: "(promql_result \<Rightarrow> json) \<Rightarrow> promql_result evaluated \<Rightarrow> panic + response" where
  "respond format r =
     map_sum id (\<lambda>r. case r of Inl e \<Rightarrow> bad_query e | Inr v \<Rightarrow> (status_ok, format v)) r"

section \<open>Queries\<close>

definition query_inner :: "('i, 'r) prom_env \<Rightarrow> int \<Rightarrow> 'i metric_store \<Rightarrow> instant_query_params \<Rightarrow> panic + response" where
  "query_inner E clock s params =
     (let run = (\<lambda>time_ms. respond (\<lambda>r. format_promql_result (pv_fmt E) r time_ms)
                   (evaluate_instant E (iq_query params) s time_ms))
      in case iq_time params of
           Some t \<Rightarrow> (case parse_timestamp_ms t of
               None \<Rightarrow> Inr (bad_data (''invalid time: '' @ t))
             | Some ms \<Rightarrow> run ms)
         | None \<Rightarrow> run (case latest_sample_timestamp_ms s of None \<Rightarrow> now_ms clock | Some t \<Rightarrow> t))"

text \<open>A parameter with a default, or the response that refuses its text.\<close>

definition time_param :: "string \<Rightarrow> string option \<Rightarrow> i64 \<Rightarrow> response + i64" where
  "time_param name v dflt =
     (case v of
        None \<Rightarrow> Inr dflt
      | Some t \<Rightarrow> (case parse_timestamp_ms t of
            None \<Rightarrow> Inl (bad_data (''invalid '' @ name @ '': '' @ t))
          | Some ms \<Rightarrow> Inr ms))"

definition step_param :: "string option \<Rightarrow> panic + response + i64" where
  "step_param v =
     (case v of
        None \<Rightarrow> Inr (Inr 60000)
      | Some t \<Rightarrow> map_sum id (\<lambda>d. case d of
            None \<Rightarrow> Inl (bad_data (''invalid step: '' @ t))
          | Some d \<Rightarrow> Inr (duration_to_i64_ms d)) (parse_duration t))"

definition query_num_steps :: "i64 \<Rightarrow> i64 \<Rightarrow> i64 \<Rightarrow> i64" where
  "query_num_steps start_ms end_ms step_ms = max (i64_saturating_sub end_ms start_ms) 0 div step_ms"

definition run_range_query ::
  "('i, 'r) prom_env \<Rightarrow> 'i metric_store \<Rightarrow> string \<Rightarrow> i64 \<Rightarrow> i64 \<Rightarrow> i64 \<Rightarrow> panic + response" where
  "run_range_query E s query start_ms end_ms step_ms =
     (if step_ms \<le> 0 then Inr (bad_data ''step must be positive'')
      else if max_query_steps \<le> query_num_steps start_ms end_ms step_ms
      then Inr (bad_data (''query would produce '' @ int_to_string (query_num_steps start_ms end_ms step_ms) @
                  '' steps, exceeding maximum of '' @ int_to_string max_query_steps))
      else respond (\<lambda>r. format_range_result (pv_fmt E) r end_ms) (evaluate_range E query s start_ms end_ms step_ms))"

definition query_range_inner ::
  "('i, 'r) prom_env \<Rightarrow> int \<Rightarrow> 'i metric_store \<Rightarrow> range_query_params \<Rightarrow> panic + response" where
  "query_range_inner E clock s params =
     (case time_param ''start'' (rq_start params) (now_ms clock - 3600000) of
        Inl r \<Rightarrow> Inr r
      | Inr start_ms \<Rightarrow>
          (case time_param ''end'' (rq_end params) (now_ms clock) of
             Inl r \<Rightarrow> Inr r
           | Inr end_ms \<Rightarrow>
               (case step_param (rq_step params) of
                  Inl p \<Rightarrow> Inl p
                | Inr (Inl r) \<Rightarrow> Inr r
                | Inr (Inr step_ms) \<Rightarrow> run_range_query E s (rq_query params) start_ms end_ms step_ms)))"

section \<open>Series and labels\<close>

definition optional_time :: "string \<Rightarrow> string option \<Rightarrow> response + i64 option" where
  "optional_time name v =
     (case v of None \<Rightarrow> Inr None | Some _ \<Rightarrow> map_sum id Some (time_param name v 0))"

definition has_samples_in_range ::
  "'i metric_store \<Rightarrow> i64 option \<Rightarrow> i64 option \<Rightarrow> u64 \<Rightarrow> panic + bool" where
  "has_samples_in_range s start_ms end_ms sid =
     (if start_ms = None \<and> end_ms = None then Inr True
      else map_sum id (\<lambda>samples. samples \<noteq> [])
             (get_samples s sid (case start_ms of None \<Rightarrow> i64_min | Some t \<Rightarrow> t)
               (case end_ms of None \<Rightarrow> i64_max | Some t \<Rightarrow> t)))"

text \<open>The labels of one series, if it has samples in the window.\<close>

definition series_entry ::
  "('i, 'r) prom_env \<Rightarrow> 'i metric_store \<Rightarrow> i64 option \<Rightarrow> i64 option \<Rightarrow> u64 \<Rightarrow> panic + json list" where
  "series_entry E s start_ms end_ms sid =
     map_sum id (\<lambda>present. if \<not> present then []
         else (case get_series_labels (pv_rodeo E) s sid of None \<Rightarrow> [] | Some ls \<Rightarrow> [labels_object ls]))
       (has_samples_in_range s start_ms end_ms sid)"

text \<open>The ids of one selector; those an earlier selector had are passed over.\<close>

fun series_entries ::
  "('i, 'r) prom_env \<Rightarrow> 'i metric_store \<Rightarrow> i64 option \<Rightarrow> i64 option \<Rightarrow> u64 list \<Rightarrow> u64 hash_set \<Rightarrow>
    panic + u64 hash_set \<times> json list" where
  "series_entries E s start_ms end_ms [] seen = Inr (seen, [])"
| "series_entries E s start_ms end_ms (x # xs) seen =
     (if x \<in> set seen then series_entries E s start_ms end_ms xs seen
      else case series_entry E s start_ms end_ms x of
             Inl p \<Rightarrow> Inl p
           | Inr here \<Rightarrow> map_sum id (map_prod id (append here)) (series_entries E s start_ms end_ms xs (hs_insert x seen)))"

fun match_series ::
  "('i, 'r) prom_env \<Rightarrow> 'i metric_store \<Rightarrow> i64 option \<Rightarrow> i64 option \<Rightarrow> string list \<Rightarrow> u64 hash_set \<Rightarrow>
    panic + response + json list" where
  "match_series E s start_ms end_ms [] seen = Inr (Inr [])"
| "match_series E s start_ms end_ms (m # ms) seen =
     (case pv_parse E m of
        Inr (VectorSelector vs) \<Rightarrow>
          (case series_entries E s start_ms end_ms
                  (select_series (pv_rodeo E) (pv_regex E) s (prom_convert_matchers (vs_matchers vs))) seen of
             Inl p \<Rightarrow> Inl p
           | Inr (seen', here) \<Rightarrow> map_sum id (map_sum id (append here)) (match_series E s start_ms end_ms ms seen'))
      | _ \<Rightarrow> Inr (Inl (bad_data (''invalid match[] selector: '' @ m))))"

definition series_response :: "panic + response + json list \<Rightarrow> panic + response" where
  "series_response r =
     map_sum id (\<lambda>r. case r of Inl refused \<Rightarrow> refused | Inr all_series \<Rightarrow> (status_ok, success (JArray all_series))) r"

definition prom_series :: "('i, 'r) prom_env \<Rightarrow> 'i metric_store \<Rightarrow> series_params \<Rightarrow> panic + response" where
  "prom_series E s params =
     (case optional_time ''start'' (sp_start params) of
        Inl r \<Rightarrow> Inr r
      | Inr start_ms \<Rightarrow>
          (case optional_time ''end'' (sp_end params) of
             Inl r \<Rightarrow> Inr r
           | Inr end_ms \<Rightarrow>
               series_response
                 (if sp_matchers params = []
                  then map_sum id Inr (collect_streams (series_entry E s start_ms end_ms) (hm_keys (mt_series s)))
                  else match_series E s start_ms end_ms (sp_matchers params) [])))"

definition prom_label_names :: "('i, 'r) prom_env \<Rightarrow> 'i metric_store \<Rightarrow> response" where
  "prom_label_names E s = (status_ok, success (json_strings (metric_label_names (pv_rodeo E) s)))"

definition prom_label_values :: "('i, 'r) prom_env \<Rightarrow> 'i metric_store \<Rightarrow> string \<Rightarrow> response" where
  "prom_label_values E s name = (status_ok, success (json_strings (metric_label_values (pv_rodeo E) s name)))"

end
