(* ===== verification/Float64_Order.thy ===== *)
theory Float64_Order
  imports Float64_Ops
begin

text \<open>
  Order properties of the rounded arithmetic: rounding is monotone in the exact value, what is not
  negative stays so, and the integer parts of an interpolation rank lie where the ranks do.
\<close>

section \<open>Rounding is monotone\<close>

lemma round_half_even_bounds: "n div d \<le> round_half_even n d" "round_half_even n d \<le> n div d + 1"
  by (simp_all add: round_half_even_def Let_def)

lemma scaled_div_mono:
  fixes n1 n2 d1 d2 :: nat
  assumes "0 < d1" and "0 < d2" and "n1 * d2 \<le> n2 * d1"
  shows "n1 div d1 \<le> n2 div d2"
proof -
  have "n1 div d1 * d1 * d2 \<le> n1 * d2" by simp
  also have "\<dots> \<le> n2 * d1" by (rule assms(3))
  finally have "(n1 div d1 * d2) * d1 \<le> n2 * d1" by (simp add: mult.assoc mult.commute)
  then have "n1 div d1 * d2 \<le> n2" using assms(1) by simp
  then show ?thesis using assms(2) by (simp add: less_eq_div_iff_mult_less_eq)
qed

lemma round_half_even_mono:
  assumes "0 < d1" and "0 < d2" and le: "n1 * d2 \<le> n2 * d1"
  shows "round_half_even n1 d1 \<le> round_half_even n2 d2"
proof (cases "n1 div d1 = n2 div d2")
  case False
  with scaled_div_mono [OF assms] have "n1 div d1 + 1 \<le> n2 div d2" by simp
  then show ?thesis using round_half_even_bounds(2) [of n1 d1] round_half_even_bounds(1) [of n2 d2] by linarith
next
  case True
  define q where "q = n2 div d2"
  have "n1 = q * d1 + n1 mod d1" unfolding q_def True [symmetric] by simp
  moreover have "n2 = q * d2 + n2 mod d2" unfolding q_def by simp
  ultimately
  have "(q * d1 + n1 mod d1) * d2 \<le> (q * d2 + n2 mod d2) * d1" using le by metis
  then have rem: "n1 mod d1 * d2 \<le> n2 mod d2 * d1" by (simp add: algebra_simps)
  have up: "d2 \<le> 2 * (n2 mod d2)" if "d1 \<le> 2 * (n1 mod d1)"
  proof -
    have "d1 * d2 \<le> 2 * (n1 mod d1) * d2" using that by simp
    also have "\<dots> \<le> (2 * (n2 mod d2)) * d1" using rem by simp
    finally show ?thesis using assms(1) by (simp add: mult.commute)
  qed
  have strict: "d2 < 2 * (n2 mod d2)" if "d1 < 2 * (n1 mod d1)"
  proof -
    have "d1 * d2 < 2 * (n1 mod d1) * d2" using that assms(2) by simp
    also have "\<dots> \<le> (2 * (n2 mod d2)) * d1" using rem by simp
    finally show ?thesis using assms(1) by (simp add: mult.commute)
  qed
  show ?thesis
    using up strict True unfolding round_half_even_def Let_def
    by (cases "2 * (n1 mod d1) < d1") (auto simp: not_less le_less)
qed

lemma bit_length_mono:
  assumes "m \<le> n"
  shows "bit_length m \<le> bit_length n"
proof (cases "m = 0")
  case False
  have "2 ^ (bit_length m - 1) \<le> m" "n < 2 ^ bit_length n"
    using bit_length_bounds [of m] bit_length_bounds [of n] False assms by auto
  then have "(2 :: nat) ^ (bit_length m - 1) < 2 ^ bit_length n" using assms by linarith
  then show ?thesis by (simp add: power_strict_increasing_iff)
qed simp

text \<open>The bits of a rounded value, before the cut at infinity.\<close>

definition rounded_bits :: "nat \<Rightarrow> nat \<Rightarrow> nat" where
  "rounded_bits n d = (let k = bit_length (n div d) - 53 in k * 2 ^ 52 + round_half_even n (d * 2 ^ k))"

lemma f64_round_eq: "f64_round neg n d = f64_of_bits neg (min (rounded_bits n d) f64_inf_bits)"
  by (simp add: f64_round_def rounded_bits_def Let_def)

lemma rounded_bits_mono:
  assumes "0 < d1" and "0 < d2" and le: "n1 * d2 \<le> n2 * d1"
  shows "rounded_bits n1 d1 \<le> rounded_bits n2 d2"
proof -
  define k1 where "k1 = bit_length (n1 div d1) - 53"
  define k2 where "k2 = bit_length (n2 div d2) - 53"
  have k: "k1 \<le> k2"
    unfolding k1_def k2_def using bit_length_mono [OF scaled_div_mono [OF assms]] by simp
  have "k1 * 2 ^ 52 + round_half_even n1 (d1 * 2 ^ k1) \<le> k2 * 2 ^ 52 + round_half_even n2 (d2 * 2 ^ k2)"
  proof (cases "k1 = k2")
    case True
    have "n1 * (d2 * 2 ^ k2) \<le> n2 * (d1 * 2 ^ k2)" using le by (metis mult.assoc mult_le_mono1)
    then show ?thesis unfolding True using round_half_even_mono [of "d1 * 2 ^ k2" "d2 * 2 ^ k2"] assms by simp
  next
    case False
    have low: "n1 div d1 < 2 ^ (53 + k1)"
    proof (cases "n1 div d1 = 0")
      case False
      then have "n1 div d1 < 2 ^ bit_length (n1 div d1)" using bit_length_bounds by blast
      also have "\<dots> \<le> 2 ^ (53 + k1)" unfolding k1_def by (rule power_increasing) auto
      finally show ?thesis .
    qed simp
    have "n1 div (d1 * 2 ^ k1) < 2 ^ 53"
      using low by (simp add: div_mult2_eq less_mult_imp_div_less power_add mult.commute)
    then have "round_half_even n1 (d1 * 2 ^ k1) \<le> 2 ^ 53" using round_half_even_bounds(2) [of n1 "d1 * 2 ^ k1"] by simp
    moreover have "2 ^ 52 \<le> round_half_even n2 (d2 * 2 ^ k2)"
    proof -
      have b: "bit_length (n2 div d2) = 53 + k2" "0 < n2 div d2"
        using False k unfolding k2_def by (auto intro!: Nat.gr0I)
      have "2 ^ (52 + k2) \<le> n2 div d2" using bit_length_bounds [OF b(2)] b(1) by simp
      then have "2 ^ 52 \<le> n2 div d2 div 2 ^ k2" by (simp add: less_eq_div_iff_mult_less_eq power_add)
      then show ?thesis using round_half_even_bounds(1) [of n2 "d2 * 2 ^ k2"] by (simp add: div_mult2_eq)
    qed
    moreover have "k1 * 2 ^ 52 + 2 ^ 52 \<le> k2 * 2 ^ (52 :: nat)" using False k
      by (metis add_mult_distrib2 le_neq_implies_less less_eq_Suc_le mult.commute mult_Suc add.commute mult_le_mono2)
    ultimately show ?thesis by simp
  qed
  then show ?thesis by (simp add: rounded_bits_def k1_def k2_def Let_def)
qed

lemma units_of_bits_mono:
  assumes "a \<le> b"
  shows "units_of_bits a \<le> units_of_bits b"
proof (cases "b < 2 ^ 52")
  case True
  then show ?thesis using assms by (simp add: units_of_bits_def)
next
  case b: False
  define e f where "e = b div 2 ^ 52" and "f = b mod 2 ^ 52"
  have e: "1 \<le> e" using b by (simp add: e_def Suc_le_eq div_greater_zero_iff)
  have ub: "units_of_bits b = (2 ^ 52 + f) * 2 ^ (e - 1)" using b by (simp add: units_of_bits_def e_def f_def)
  show ?thesis
  proof (cases "a < 2 ^ 52")
    case True
    have "a \<le> 2 ^ 52 * 1" using True by simp
    also have "\<dots> \<le> (2 ^ 52 + f) * 2 ^ (e - 1)" by (rule mult_le_mono) simp_all
    finally have "a \<le> (2 ^ 52 + f) * 2 ^ (e - 1)" .
    then show ?thesis using True ub by (simp add: units_of_bits_def)
  next
    case a: False
    define e' f' where "e' = a div 2 ^ 52" and "f' = a mod 2 ^ 52"
    have ua: "units_of_bits a = (2 ^ 52 + f') * 2 ^ (e' - 1)" using a by (simp add: units_of_bits_def e'_def f'_def)
    have e': "1 \<le> e'" "e' \<le> e" using a assms by (simp_all add: e'_def e_def Suc_le_eq div_greater_zero_iff div_le_mono)
    have f': "f' < 2 ^ 52" by (simp add: f'_def)
    show ?thesis
    proof (cases "e' = e")
      case True
      have "e * 2 ^ 52 + f' = a" unfolding True [symmetric] e'_def f'_def by (rule div_mult_mod_eq)
      moreover have "e * 2 ^ 52 + f = b" unfolding e_def f_def by (rule div_mult_mod_eq)
      ultimately have "f' \<le> f" using assms by linarith
      then show ?thesis using True ua ub by simp
    next
      case False
      then have "e' < e" using e' by simp
      then obtain j where "e = e' + Suc j" using less_imp_Suc_add by auto
      then have j: "e - 1 = Suc (e' - 1 + j)" using e' by simp
      have "(2 ^ 52 + f') * 2 ^ (e' - 1) \<le> 2 * 2 ^ 52 * 2 ^ (e' - 1)" using f' by (intro mult_le_mono1) simp
      also have "\<dots> \<le> 2 ^ 52 * 2 ^ (e - 1)" unfolding j by (simp add: power_add)
      also have "\<dots> \<le> (2 ^ 52 + f) * 2 ^ (e - 1)" by (intro mult_le_mono1) simp
      finally show ?thesis using ua ub by simp
    qed
  qed
qed

section \<open>Signs\<close>

lemma units_of_bits_0 [simp]: "units_of_bits 0 = 0"
  by (simp add: units_of_bits_def)

lemma f64_round_bits: "f64_bits (f64_round neg n d) = min (rounded_bits n d) f64_inf_bits"
  unfolding f64_round_eq by (rule f64_of_bits_bits) (simp add: f64_inf_bits_def min_def)

lemma f64_round_neg: "f64_neg (f64_round neg n d) = neg"
  unfolding f64_round_eq by (rule f64_of_bits_neg) (simp add: f64_inf_bits_def min_def)

lemma f64_round_number [simp]: "\<not> is_nan (f64_round neg n d)"
  by (simp add: is_nan_def f64_round_bits)

lemma rounded_bits_0 [simp]: "rounded_bits 0 d = 0"
  by (cases d) (simp_all add: rounded_bits_def round_half_even_def)

lemma inf_bits_facts: "f64_inf_bits < 2 ^ 63" "0 < f64_inf_bits"
  by (simp_all add: f64_inf_bits_def)

text \<open>A number that is not negative: not NaN, and its value at least zero.\<close>

abbreviation nonneg :: "f64 \<Rightarrow> bool" where "nonneg x \<equiv> f64_le f64_zero x"

lemma f64_zero_units [simp]: "f64_bits f64_zero = 0" "\<not> f64_neg f64_zero" "f64_units f64_zero = 0"
    "\<not> is_nan f64_zero" "is_finite f64_zero"
  by (simp_all add: f64_units_def f64_zero_def f64_bits_def f64_neg_def is_nan_def is_finite_def f64_inf_bits_def)

lemma nonneg_iff: "nonneg x \<longleftrightarrow> \<not> is_nan x \<and> (f64_neg x \<longrightarrow> units_of_bits (f64_bits x) = 0)"
  by (auto simp: f64_le_def f64_units_def)

lemma units_of_bits_pos: "units_of_bits b = 0 \<longleftrightarrow> b = 0"
  by (auto simp: units_of_bits_def)

lemma nonneg_cases: "nonneg x \<longleftrightarrow> \<not> is_nan x \<and> (f64_neg x \<longrightarrow> f64_bits x = 0)"
  by (simp add: nonneg_iff units_of_bits_pos)

lemma units_pos_iff [simp]: "0 < units_of_bits b \<longleftrightarrow> 0 < b"
  using units_of_bits_pos [of b] by linarith

lemma positive_cases: "f64_lt f64_zero x \<longleftrightarrow> \<not> is_nan x \<and> \<not> f64_neg x \<and> f64_bits x \<noteq> 0"
  by (auto simp: f64_lt_def f64_units_def)

lemma nonneg_round: "neg \<longrightarrow> n = 0 \<Longrightarrow> nonneg (f64_round neg n d)"
  by (auto simp: nonneg_cases f64_round_bits f64_round_neg)

lemma infinite_number: "\<not> is_nan x \<Longrightarrow> \<not> is_finite x \<Longrightarrow> f64_bits x = f64_inf_bits"
  by (simp add: is_nan_def is_finite_def)

lemma nonneg_add:
  assumes "nonneg x" and "nonneg y"
  shows "nonneg (f64_add x y)"
proof -
  have "\<not> f64_neg z" if "nonneg z" "\<not> is_finite z" for z
    using that by (auto simp: nonneg_cases is_finite_def inf_bits_facts)
  moreover have "0 \<le> f64_units x" "0 \<le> f64_units y" using assms by (simp_all add: f64_le_def)
  moreover have "nonneg (f64_of_bits neg 0)" for neg
    by (simp add: nonneg_cases is_nan_def f64_of_bits_bits)
  ultimately show ?thesis
    using assms unfolding f64_add_def Let_def by (auto simp: nonneg_cases [THEN iffD1] intro!: nonneg_round simp: f64_le_def [of _ x] f64_le_def [of _ y])
qed

lemma nonneg_div:
  assumes "nonneg x" and "f64_lt f64_zero y" and "is_finite y"
  shows "nonneg (f64_div x y)"
proof -
  have y: "\<not> is_nan y" "\<not> f64_neg y" "f64_bits y \<noteq> 0" using assms(2) by (simp_all add: positive_cases)
  have x: "\<not> is_nan x" "f64_neg x \<Longrightarrow> f64_bits x = 0" using assms(1) by (simp_all add: nonneg_cases)
  show ?thesis
  proof (cases "is_finite x")
    case True
    then show ?thesis using x y assms(3)
      by (auto simp: f64_div_def Let_def f64_units_def intro!: nonneg_round)
  next
    case False
    then have "\<not> f64_neg x" using x inf_bits_facts(2) by (auto simp: is_finite_def)
    then show ?thesis using False x y assms(3) inf_bits_facts
      by (simp add: f64_div_def Let_def nonneg_cases is_nan_def f64_of_bits_bits f64_of_bits_neg)
  qed
qed

lemma nonneg_mul:
  assumes "nonneg x" and "f64_lt f64_zero y" and "is_finite y"
  shows "nonneg (f64_mul x y)"
proof -
  have y: "\<not> is_nan y" "\<not> f64_neg y" "f64_bits y \<noteq> 0" using assms(2) by (simp_all add: positive_cases)
  have x: "\<not> is_nan x" "f64_neg x \<Longrightarrow> f64_bits x = 0" using assms(1) by (simp_all add: nonneg_cases)
  show ?thesis
  proof (cases "is_finite x")
    case True
    then show ?thesis using x y assms(3)
      by (auto simp: f64_mul_def Let_def f64_units_def intro!: nonneg_round)
  next
    case False
    then have "\<not> f64_neg x" "f64_bits x \<noteq> 0" using x inf_bits_facts(2) by (auto simp: is_finite_def)
    then show ?thesis using False x y assms(3) inf_bits_facts
      by (simp add: f64_mul_def Let_def nonneg_cases is_nan_def f64_of_bits_bits f64_of_bits_neg)
  qed
qed

section \<open>Conversions\<close>

lemma rounded_bits_pos: "0 < d \<Longrightarrow> d \<le> n \<Longrightarrow> 0 < rounded_bits n d"
proof (cases "bit_length (n div d) \<le> 53")
  case True
  assume "0 < d" "d \<le> n"
  then have "0 < n div d" by (simp add: div_greater_zero_iff)
  then show ?thesis using True round_half_even_bounds(1) [of n d] by (simp add: rounded_bits_def)
qed (simp add: rounded_bits_def Let_def)

lemma one_units_pos [simp]: "0 < f64_one_units" "1000 \<le> f64_one_units" "f64_one_units \<noteq> 0"
  by (simp_all add: f64_one_units_def)

lemma rounded_two_64: "rounded_bits (2 ^ 64 * f64_one_units) 1 = 1087 * 2 ^ 52"
proof -
  have "min (rounded_bits (2 ^ 64 * f64_one_units) 1) f64_inf_bits = 1087 * 2 ^ 52"
    using f64_round_bits [of False "2 ^ 64 * f64_one_units" 1] unfolding f64_two_64
    by (simp add: f64_of_bits_bits)
  moreover have "(1087 :: nat) * 2 ^ 52 < f64_inf_bits" by (simp add: f64_inf_bits_def)
  ultimately show ?thesis by linarith
qed

lemma rounded_finite:
  assumes "0 < d" and "n \<le> 2 ^ 64 * f64_one_units * d"
  shows "rounded_bits n d < f64_inf_bits" "units_of_bits (rounded_bits n d) \<le> 2 ^ 64 * f64_one_units"
proof -
  have le: "rounded_bits n d \<le> 1087 * 2 ^ 52"
    using rounded_bits_mono [of d 1 n "2 ^ 64 * f64_one_units"] assms by (simp only: rounded_two_64 mult_1_right)
  then show "rounded_bits n d < f64_inf_bits" by (simp add: f64_inf_bits_def)
  have "units_of_bits (1087 * 2 ^ 52) = 2 ^ 52 * 2 ^ 1086" by (simp add: units_of_bits_def)
  also have "\<dots> = 2 ^ 64 * f64_one_units" unfolding f64_one_units_def power_add [symmetric] by simp
  finally show "units_of_bits (rounded_bits n d) \<le> 2 ^ 64 * f64_one_units"
    using units_of_bits_mono [OF le] by simp
qed

lemma f64_of_nat_exact:
  assumes "m < 2 ^ 53"
  shows "units_of_bits (f64_bits (f64_of_nat m)) = m * f64_one_units" "is_finite (f64_of_nat m)"
    "\<not> f64_neg (f64_of_nat m)" "f64_bits (f64_of_nat m) = rounded_bits (m * f64_one_units) 1"
proof -
  have eq: "f64_of_nat m = f64_round False (m * f64_one_units) 1"
    by (simp add: f64_of_nat_def f64_of_int_def)
  show fin: "is_finite (f64_of_nat m)" and "units_of_bits (f64_bits (f64_of_nat m)) = m * f64_one_units"
    and "\<not> f64_neg (f64_of_nat m)"
    using f64_of_nat_units [OF assms] unfolding eq by blast+
  then show "f64_bits (f64_of_nat m) = rounded_bits (m * f64_one_units) 1"
    unfolding eq f64_round_bits is_finite_def by simp
qed

lemma f64_of_pos_int:
  assumes "0 < i" and "i \<le> 2 ^ 64"
  shows "f64_lt f64_zero (f64_of_int i)" "is_finite (f64_of_int i)"
    "f64_one_units \<le> units_of_bits (f64_bits (f64_of_int i))"
    "units_of_bits (f64_bits (f64_of_int i)) \<le> 2 ^ 64 * f64_one_units" "\<not> f64_neg (f64_of_int i)"
proof -
  define n where "n = nat i * f64_one_units"
  have "nat i \<le> nat (2 ^ 64)" using assms(2) by (rule nat_mono)
  then have n: "f64_one_units \<le> n" "n \<le> 2 ^ 64 * f64_one_units * 1"
    using assms unfolding n_def by (auto simp: nat_power_eq)
  have eq: "f64_of_int i = f64_round False n 1" using assms unfolding n_def f64_of_int_def by simp
  note fin = rounded_finite [OF zero_less_one n(2)]
  have bits: "f64_bits (f64_of_int i) = rounded_bits n 1" unfolding eq f64_round_bits using fin(1) by simp
  show "is_finite (f64_of_int i)" using fin(1) by (simp add: is_finite_def bits)
  show "\<not> f64_neg (f64_of_int i)" unfolding eq by (simp add: f64_round_neg)
  show "units_of_bits (f64_bits (f64_of_int i)) \<le> 2 ^ 64 * f64_one_units" unfolding bits by (rule fin(2))
  have "rounded_bits (1 * f64_one_units) 1 \<le> rounded_bits n 1"
    using rounded_bits_mono [of 1 1 "1 * f64_one_units" n] n(1) by simp
  from units_of_bits_mono [OF this] show units: "f64_one_units \<le> units_of_bits (f64_bits (f64_of_int i))"
    using f64_of_nat_exact(1,4) [of 1] unfolding bits by simp
  have "f64_bits (f64_of_int i) \<noteq> 0"
  proof
    assume "f64_bits (f64_of_int i) = 0"
    with units have "f64_one_units \<le> 0" by simp
    then show False by simp
  qed
  then show "f64_lt f64_zero (f64_of_int i)" unfolding positive_cases eq by (simp add: f64_round_neg)
qed

text \<open>Milliseconds as seconds.\<close>

lemma f64_thousandth:
  assumes "0 < i" and "i \<le> 2 ^ 64"
  shows "f64_lt f64_zero (f64_div (f64_of_int i) (f64_of_int 1000)) \<and>
    is_finite (f64_div (f64_of_int i) (f64_of_int 1000))"
proof -
  note x = f64_of_pos_int [OF assms]
  have thousand: "f64_of_int 1000 = f64_of_nat 1000" by (simp add: f64_of_nat_def)
  have y: "units_of_bits (f64_bits (f64_of_int 1000)) = 1000 * f64_one_units"
    using f64_of_nat_exact(1) [of 1000] unfolding thousand by simp
  note y' = f64_of_pos_int [of 1000]
  define n d where "n = units_of_bits (f64_bits (f64_of_int i)) * f64_one_units" and "d = 1000 * f64_one_units"
  have "f64_div (f64_of_int i) (f64_of_int 1000) = f64_round False n d"
    using x y y' by (auto simp: f64_div_def Let_def positive_cases f64_units_def n_def d_def nat_mult_distrib)
  moreover have "0 < d" by (simp add: d_def)
  moreover have "d \<le> n" unfolding d_def n_def using x(3) one_units_pos(2) by (intro mult_le_mono1) (rule order_trans)
  moreover have "n \<le> 2 ^ 64 * f64_one_units * d"
  proof -
    have "n \<le> 2 ^ 64 * f64_one_units * f64_one_units" unfolding n_def using x(4) by (rule mult_le_mono1)
    also have "\<dots> \<le> 2 ^ 64 * f64_one_units * d" unfolding d_def by (intro mult_le_mono2) simp
    finally show ?thesis .
  qed
  ultimately show ?thesis
    using rounded_bits_pos [of d n] rounded_finite(1) [of d n] inf_bits_facts
    by (simp add: positive_cases is_finite_def f64_round_bits f64_round_neg)
qed

section \<open>Integer parts of a rank\<close>

lemma f64_integral_to_usize: "m < 2 ^ 53 \<Longrightarrow> f64_to_usize (f64_integral False m) = m"
proof -
  assume m: "m < 2 ^ 53"
  have eq: "f64_integral False m = f64_of_nat m" by (simp add: f64_integral_def f64_of_nat_def f64_of_int_def)
  have "m \<le> u64_max" using m by (simp add: u64_max_def)
  then show ?thesis
    using f64_of_nat_exact [OF m] unfolding eq f64_to_usize_def f64_trunc_nat_def
    by (simp add: is_nan_def is_finite_def)
qed

lemma f64_integral_neg_to_usize: "f64_to_usize (f64_integral True m) = 0"
  by (simp add: f64_to_usize_def f64_integral_def f64_round_neg)

text \<open>
  The rank \<open>q * m\<close> of a quantile in the unit interval: its floor and ceiling are the floor and
  ceiling of one number that is at most \<open>m\<close>.
\<close>

lemma rank_parts:
  assumes "f64_le f64_zero q" and "f64_le q f64_one" and m: "m < 2 ^ 53"
  defines "rank \<equiv> f64_mul q (f64_of_nat m)"
  shows "\<exists>u \<le> m * f64_one_units. f64_to_usize (f64_floor rank) = u div f64_one_units \<and>
    f64_to_usize (f64_ceil rank) = (u + (f64_one_units - 1)) div f64_one_units"
proof -
  note M = f64_of_nat_exact [OF m]
  define qu where "qu = units_of_bits (f64_bits q)"
  have one_bits: "f64_bits f64_one = 1023 * 2 ^ 52" by (simp add: f64_one_def f64_of_bits_bits)
  have "units_of_bits (1023 * 2 ^ 52) = 2 ^ 52 * 2 ^ 1022" by (simp add: units_of_bits_def)
  also have "\<dots> = f64_one_units" unfolding f64_one_units_def power_add [symmetric] by simp
  finally have one_units: "units_of_bits (f64_bits f64_one) = f64_one_units" by (simp add: one_bits)
  have one_pos: "\<not> f64_neg f64_one" by (simp add: f64_one_def f64_of_bits_neg)
  have q: "\<not> is_nan q" "f64_neg q \<Longrightarrow> qu = 0" using assms(1) by (simp_all add: nonneg_iff qu_def)
  have qu: "qu \<le> f64_one_units"
    using assms(2) q(2) one_units one_pos by (cases "f64_neg q") (auto simp: f64_le_def f64_units_def qu_def)
  have fin_q: "is_finite q"
  proof (rule ccontr)
    assume "\<not> is_finite q"
    then have "f64_bits q = f64_inf_bits" using q(1) by (rule infinite_number [rotated])
    then have "units_of_bits f64_inf_bits \<le> f64_one_units" using qu by (simp add: qu_def)
    moreover have "units_of_bits f64_inf_bits = 2 ^ 52 * 2 ^ 2046" by (simp add: units_of_bits_def f64_inf_bits_def)
    moreover have "f64_one_units < 2 ^ 52 * (2 ^ 2046 :: nat)"
      unfolding f64_one_units_def power_add [symmetric] by (intro power_strict_increasing) simp_all
    ultimately show False by simp
  qed
  have rank: "rank = f64_round (f64_neg q) (qu * (m * f64_one_units)) f64_one_units"
    using M q(1) fin_q unfolding rank_def f64_mul_def Let_def
    by (simp add: f64_units_def qu_def is_nan_def is_finite_def nat_mult_distrib)
  define b where "b = rounded_bits (qu * (m * f64_one_units)) f64_one_units"
  have le: "b \<le> rounded_bits (m * f64_one_units) 1"
    unfolding b_def using qu by (intro rounded_bits_mono) (simp_all add: mult.commute)
  then have fin: "b < f64_inf_bits" using M(2,4) by (simp add: is_finite_def)
  have bits: "f64_bits rank = b" unfolding rank f64_round_bits b_def [symmetric] using fin by simp
  define u where "u = units_of_bits b"
  have u: "u \<le> m * f64_one_units" using units_of_bits_mono [OF le] M(1,4) by (simp add: u_def)
  have down: "u div f64_one_units \<le> m" using u by (metis div_le_mono div_mult_self_is_m one_units_pos(1))
  have up: "(u + (f64_one_units - 1)) div f64_one_units \<le> m"
  proof -
    have "u + (f64_one_units - 1) < m * f64_one_units + f64_one_units"
      using u one_units_pos(1) by linarith
    then have "u + (f64_one_units - 1) < Suc m * f64_one_units" by simp
    then show ?thesis using less_mult_imp_div_less by (metis less_Suc_eq_le)
  qed
  have finite: "is_finite rank" using fin by (simp add: is_finite_def bits)
  have neg: "f64_neg rank = f64_neg q" by (simp add: rank f64_round_neg)
  show ?thesis
  proof (cases "f64_neg q")
    case True
    then have "u = 0" using q(2) by (simp add: u_def b_def)
    moreover have "(f64_one_units - 1) div f64_one_units = 0" by simp
    ultimately show ?thesis
      using True finite neg by (intro exI [of _ 0]) (simp add: f64_floor_def f64_ceil_def f64_integral_neg_to_usize)
  next
    case False
    have "f64_to_usize (f64_floor rank) = u div f64_one_units"
      using False finite neg f64_integral_to_usize [of "u div f64_one_units"] down m
      by (simp add: f64_floor_def f64_trunc_nat_def bits u_def [symmetric])
    moreover have "f64_to_usize (f64_ceil rank) = (u + (f64_one_units - 1)) div f64_one_units"
      using False finite neg f64_integral_to_usize [of "(u + (f64_one_units - 1)) div f64_one_units"] up m
      by (simp add: f64_ceil_def f64_up_nat_def bits u_def [symmetric])
    ultimately show ?thesis using u by blast
  qed
qed

end
