(* ===== verification/Promql_Select_Correct.thy ===== *)
theory Promql_Select_Correct
  imports Promql_Select Metric_Store_Correct Float64_Order
begin

text \<open>
  Correctness of the selectors: a lookup window is the closed interval of times it names, a range
  query samples a closed-form grid, and rates of a counter are not negative. The predicate
  \<open>panics_only\<close> carries the argument that evaluation does not panic through every combinator.
\<close>

section \<open>Windows\<close>

definition samples_of :: "'i metric_store \<Rightarrow> u64 \<Rightarrow> sample list" where
  "samples_of s sid = (case hm_get (mt_series s) sid of None \<Rightarrow> [] | Some se \<Rightarrow> ms_samples se)"

definition within_ms :: "i64 \<Rightarrow> i64 \<Rightarrow> sample \<Rightarrow> bool" where
  "within_ms a b p \<longleftrightarrow> a \<le> sm_timestamp_ms p \<and> sm_timestamp_ms p \<le> b"

lemma get_samples_window:
  assumes "metric_base R s" and "a \<le> b"
  shows "get_samples s sid a b = Inr (filter (within_ms a b) (samples_of s sid))"
proof (cases "hm_get (mt_series s) sid")
  case None
  then show ?thesis by (simp add: get_samples_def samples_of_def)
next
  case (Some se)
  have "\<not> (\<exists>p \<in> set (ms_samples se). b < sm_timestamp_ms p \<and> sm_timestamp_ms p < a)" using assms(2) by auto
  with get_samples_spec [OF assms(1) Some, of a b] Some show ?thesis
    by (simp add: samples_of_def within_ms_def [abs_def])
qed

lemma samples_of_sorted: "metric_base R s \<Longrightarrow> sorted (map sm_timestamp_ms (samples_of s sid))"
  by (auto simp: samples_of_def dest: samples_sortedD [OF metric_baseD(2)] split: option.split)

lemma duration_ms_range: "0 \<le> duration_to_i64_ms d" "duration_to_i64_ms d \<le> i64_max"
  by (auto simp: duration_to_i64_ms_def Let_def i64_max_def)

lemma in_i64_saturating [simp]: "in_i64 (i64_saturating_sub a b)" "in_i64 (i64_saturating_add a b)"
  by (simp_all add: i64_saturating_sub_def i64_saturating_add_def)

lemma saturating_window: "in_i64 t \<Longrightarrow> 0 \<le> r \<Longrightarrow> i64_saturating_sub t r \<le> t"
  by (rule i64_saturating_sub_le)

lemma saturating_add_ge: "in_i64 t \<Longrightarrow> 0 \<le> r \<Longrightarrow> t \<le> i64_saturating_add t r"
  by (auto simp: i64_saturating_add_def i64_saturate_def in_i64_def)

text \<open>The samples of a series in the closed window of the given length that ends at a time.\<close>

definition window_samples :: "'i metric_store \<Rightarrow> u64 \<Rightarrow> i64 \<Rightarrow> i64 \<Rightarrow> sample list" where
  "window_samples s sid range_ms t = filter (within_ms (i64_saturating_sub t range_ms) t) (samples_of s sid)"

lemma get_window:
  "metric_base R s \<Longrightarrow> in_i64 t \<Longrightarrow> 0 \<le> r \<Longrightarrow>
    get_samples s sid (i64_saturating_sub t r) t = Inr (window_samples s sid r t)"
  unfolding window_samples_def by (rule get_samples_window [OF _ saturating_window])

section \<open>Evaluation without panics\<close>

text \<open>An index into a list of more than \<open>2 ^ 53\<close> values.\<close>

definition huge_index :: "panic \<Rightarrow> bool" where
  "huge_index p \<longleftrightarrow> (case p of IndexOutOfBounds i n \<Rightarrow> 2 ^ 53 < n | _ \<Rightarrow> False)"

text \<open>A computation returns, or panics in one of the ways allowed.\<close>

definition panics_only :: "(panic \<Rightarrow> bool) \<Rightarrow> panic + 'a \<Rightarrow> bool" where
  "panics_only P m \<longleftrightarrow> (case m of Inl p \<Rightarrow> P p | Inr _ \<Rightarrow> True)"

lemma panics_only_simps [simp]:
  "panics_only P (Inr x)" "panics_only P (ok y)" "panics_only P (fail e)" "panics_only P (map_sum id f m) = panics_only P m"
  "panics_only P (lift_panic n) = panics_only P n"
  by (auto simp: panics_only_def ok_def fail_def lift_panic_def split: sum.splits)

lemma panics_only_and_then:
  "panics_only P m \<Longrightarrow> (\<And>x. m = ok x \<Longrightarrow> panics_only P (f x)) \<Longrightarrow> panics_only P (and_then m f)"
  by (cases m) (auto simp: panics_only_def and_then_def ok_def split: sum.splits)

lemma panics_only_case:
  "panics_only P m \<Longrightarrow> (\<And>x. panics_only P (f x)) \<Longrightarrow> panics_only P (case m of Inl p \<Rightarrow> Inl p | Inr x \<Rightarrow> f x)"
  by (cases m) (simp_all add: panics_only_def)

lemma panics_only_collect:
  "(\<And>x. x \<in> set xs \<Longrightarrow> panics_only P (f x)) \<Longrightarrow> panics_only P (collect_streams f xs)"
proof (induction xs)
  case (Cons x xs)
  then have "panics_only P (f x)" "panics_only P (collect_streams f xs)" by simp_all
  then show ?case by (auto simp: panics_only_def split: sum.split)
qed simp

lemma panics_only_time_loop: "(\<And>t. panics_only P (body t)) \<Longrightarrow> panics_only P (time_loop body b step t)"
proof (induction body b step t rule: time_loop.induct)
  case (1 body b step t)
  show ?case
  proof (cases "body t")
    case (Inl p)
    then show ?thesis using "1.prems" [of t] by (subst time_loop.simps) (simp add: panics_only_def)
  next
    case (Inr v)
    show ?thesis
    proof (cases "b < t \<or> advance_time t step = None")
      case True
      then show ?thesis using Inr by (subst time_loop.simps) (auto simp: Let_def)
    next
      case False
      then obtain t' where "advance_time t step = Some t'" "\<not> b < t" by auto
      with "1.IH" [of v] Inr "1.prems" show ?thesis by (subst time_loop.simps) (simp add: Let_def)
    qed
  qed
qed

text \<open>
  What the standard library leaves open when the order is not total, as with a NaN among two or more
  keys: the sort may panic.
\<close>

definition nan_panic :: "('a list \<Rightarrow> panic + 'a list) \<Rightarrow> ('a \<Rightarrow> f64) \<Rightarrow> panic \<Rightarrow> bool" where
  "nan_panic unordered key p \<longleftrightarrow> (\<exists>xs. 2 \<le> length xs \<and> list_ex (is_nan \<circ> key) xs \<and> unordered xs = Inl p)"

lemma panics_only_sort:
  assumes "\<And>p. nan_panic unordered key p \<Longrightarrow> P p"
  shows "panics_only P (partial_sort unordered key desc xs)"
proof (cases "partial_sort unordered key desc xs")
  case (Inl p)
  then have "2 \<le> length xs" "list_ex (is_nan \<circ> key) xs" "unordered xs = Inl p"
    by (auto simp: partial_sort_def list_all_iff list_ex_iff split: if_splits)
  then show ?thesis using assms Inl by (auto simp: nan_panic_def panics_only_def)
qed (simp add: panics_only_def)

section \<open>Quantiles of a list\<close>

lemma index_in: "i < length xs \<Longrightarrow> index xs i = Inr (xs ! i)"
  by (simp add: index_def)

lemma rank_indices:
  assumes "unit_interval q" and "length values \<le> 2 ^ 53" and "2 \<le> length values"
  defines "rank \<equiv> f64_mul q (f64_of_nat (length values - 1))"
  shows "f64_to_usize (f64_floor rank) < length values" "f64_to_usize (f64_ceil rank) < length values"
proof -
  define m where "m = length values - 1"
  have m: "m < 2 ^ 53" "length values = Suc m" using assms(2,3) by (simp_all add: m_def)
  obtain u where u: "u \<le> m * f64_one_units" "f64_to_usize (f64_floor rank) = u div f64_one_units"
    "f64_to_usize (f64_ceil rank) = (u + (f64_one_units - 1)) div f64_one_units"
    using rank_parts [of q m] assms(1) m(1) unfolding unit_interval_def rank_def m_def [symmetric] by blast
  have "u < Suc m * f64_one_units" "u + (f64_one_units - 1) < Suc m * f64_one_units"
    using u(1) one_units_pos(1) unfolding mult_Suc by linarith+
  then show "f64_to_usize (f64_floor rank) < length values" "f64_to_usize (f64_ceil rank) < length values"
    unfolding u(2,3) m(2) by (blast intro: less_mult_imp_div_less)+
qed

lemma interpolate_quantile_returns:
  assumes "unit_interval q" and "length values \<le> 2 ^ 53"
  shows "\<exists>v. interpolate_quantile values q = Inr v"
proof (cases "length values < 2")
  case True
  then have "length values = 0 \<or> length values = 1" by linarith
  then show ?thesis by (auto simp: interpolate_quantile_def index_def)
next
  case False
  note I = rank_indices [OF assms] 
  then show ?thesis using False
    by (auto simp: interpolate_quantile_def Let_def index_in)
qed

lemma panics_only_index: "huge_index \<le> P \<Longrightarrow> 2 ^ 53 < length xs \<Longrightarrow> panics_only P (index xs i)"
  using predicate1D [of huge_index P "IndexOutOfBounds i (length xs)"]
  by (simp add: index_def panics_only_def huge_index_def)

lemma panics_only_interpolate:
  assumes "huge_index \<le> P" and "unit_interval q"
  shows "panics_only P (interpolate_quantile values q)"
proof (cases "length values \<le> 2 ^ 53")
  case True
  then show ?thesis using interpolate_quantile_returns [OF assms(2)] by (metis panics_only_simps(1))
next
  case False
  then have i: "panics_only P (index values i)" for i by (intro panics_only_index [OF assms(1)]) simp
  then show ?thesis unfolding interpolate_quantile_def Let_def by (simp add: panics_only_case)
qed

lemma panics_only_quantile_over_time:
  assumes "huge_index \<le> P" and "nan_panic (pv_sort_values E) id \<le> P"
  shows "panics_only P (quantile_over_time E q samples)"
proof -
  have "panics_only P (partial_sort (pv_sort_values E) id False (map sm_value samples))"
    by (rule panics_only_sort) (rule predicate1D [OF assms(2)])
  then show ?thesis by (simp add: quantile_over_time_def panics_only_interpolate [OF assms(1)] panics_only_case)
qed

section \<open>Selectors\<close>

lemma window_at_total:
  assumes "metric_base R s" and "0 \<le> r"
  shows "window_at E f s r off sid t = f (window_samples s sid r (i64_saturating_sub t off))"
  using get_window [OF assms(1) in_i64_saturating(1) assms(2), of sid t off] by (simp add: window_at_def Let_def)

definition grid_samples :: "(i64 \<Rightarrow> f64 option) \<Rightarrow> i64 list \<Rightarrow> prom_samples" where
  "grid_samples f grid = List.map_filter (\<lambda>t. map_option (Pair t) (f t)) grid"

text \<open>The time a selector looks at when the query is at \<open>t\<close>.\<close>

definition effective_time :: "vector_selector \<Rightarrow> i64 \<Rightarrow> i64 \<Rightarrow> i64 \<Rightarrow> i64" where
  "effective_time vs start_ms end_ms t =
     i64_saturating_sub (case at_to_ms (vs_at vs) start_ms end_ms of None \<Rightarrow> t | Some u \<Rightarrow> u) (offset_to_ms (vs_offset vs))"

lemma range_vector_selector:
  assumes "metric_base R s" and "step \<noteq> 0" and "b \<le> i64_max"
  shows "eval_vector_selector E vs s a b step False = ok (InstantVector (concat (map (\<lambda>sid.
      some_samples (series_labels E s sid)
        (grid_samples (\<lambda>t. last_value (window_samples s sid 300000 (effective_time vs a b t))) (time_grid a b step)))
      (selected_series E s vs))))"
proof -
  have "time_loop (\<lambda>t. (let e = i64_saturating_sub (case at_to_ms (vs_at vs) a b of None \<Rightarrow> t | Some u \<Rightarrow> u)
            (offset_to_ms (vs_offset vs))
          in map_sum id last_value (get_samples s sid (i64_saturating_sub e (5 * 60 * 1000)) e))) b step a =
      Inr (grid_samples (\<lambda>t. last_value (window_samples s sid 300000 (effective_time vs a b t))) (time_grid a b step))"
    for sid
    unfolding grid_samples_def using assms(3)
    by (intro time_loop_grid) (simp_all add: Let_def effective_time_def get_window [OF assms(1)])
  then show ?thesis
    using assms(2) unfolding eval_vector_selector_def Let_def
    by (simp add: collect_streams_total)
qed

lemma instant_vector_selector:
  assumes "metric_base R s"
  shows "eval_vector_selector E vs s a b step True = ok (InstantVector (concat (map (\<lambda>sid.
      one_sample (series_labels E s sid) b (last_value (filter
        (within_ms (i64_saturating_sub (effective_time vs a b b) 300000)
                   (i64_saturating_add (effective_time vs a b b) 1000)) (samples_of s sid))))
      (selected_series E s vs))))"
proof -
  define e where "e = effective_time vs a b b"
  have e: "in_i64 e" by (simp add: e_def effective_time_def)
  have "i64_saturating_sub e 300000 \<le> i64_saturating_add e 1000"
    using saturating_window [OF e, of 300000] saturating_add_ge [OF e, of 1000] by simp
  from get_samples_window [OF assms this]
  have "get_samples s sid (i64_saturating_sub e 300000) (i64_saturating_add e 1000) =
      Inr (filter (within_ms (i64_saturating_sub e 300000) (i64_saturating_add e 1000)) (samples_of s sid))" for sid .
  then show ?thesis
    unfolding eval_vector_selector_def Let_def
    by (simp add: collect_streams_total e_def effective_time_def)
qed

text \<open>The range functions, for a function of the window that returns.\<close>

definition windows_answer ::
  "('i, 'r) prom_env \<Rightarrow> (sample list \<Rightarrow> f64 option) \<Rightarrow> vector_selector \<Rightarrow> i64 \<Rightarrow> 'i metric_store \<Rightarrow>
    i64 \<Rightarrow> i64 \<Rightarrow> i64 \<Rightarrow> bool \<Rightarrow> series_result list" where
  "windows_answer E g vs r s a b step is_instant =
     (let value_at = (\<lambda>sid t. g (window_samples s sid r (i64_saturating_sub t (offset_to_ms (vs_offset vs)))))
      in concat (map (\<lambda>sid.
           if is_instant \<or> step = 0 then one_sample (series_labels E s sid) b (value_at sid b)
           else some_samples (series_labels E s sid) (grid_samples (value_at sid) (time_grid a b step)))
         (selected_series E s vs)))"

lemma eval_windows_total:
  assumes "metric_base R s" and "0 \<le> r" and "b \<le> i64_max" and f: "\<And>samples. f samples = Inr (g samples)"
  shows "eval_windows E f vs r s a b step is_instant = ok (InstantVector (windows_answer E g vs r s a b step is_instant))"
proof -
  have w: "window_at E f s r (offset_to_ms (vs_offset vs)) sid t =
      Inr (g (window_samples s sid r (i64_saturating_sub t (offset_to_ms (vs_offset vs)))))" for sid t
    by (simp add: window_at_total [OF assms(1,2)] f)
  have "time_loop (window_at E f s r (offset_to_ms (vs_offset vs)) sid) b step a =
      Inr (grid_samples (\<lambda>t. g (window_samples s sid r (i64_saturating_sub t (offset_to_ms (vs_offset vs))))) (time_grid a b step))"
    for sid unfolding grid_samples_def by (intro time_loop_grid w assms(3))
  then show ?thesis unfolding eval_windows_def windows_answer_def Let_def
    by (simp add: w collect_streams_total)
qed

section \<open>Selectors do not panic\<close>

lemma panics_only_get_samples:
  assumes "metric_base R s" and "in_i64 t" and "0 \<le> r"
  shows "panics_only P (get_samples s sid (i64_saturating_sub t r) t)"
  by (simp add: get_window [OF assms])

lemma panics_only_vector_selector:
  assumes "metric_base R s"
  shows "panics_only P (eval_vector_selector E vs s a b step is_instant)"
proof (cases "is_instant \<or> step = 0")
  case True
  then have "eval_vector_selector E vs s a b step is_instant = eval_vector_selector E vs s a b step True"
    by (simp add: eval_vector_selector_def)
  then show ?thesis by (simp add: instant_vector_selector [OF assms])
next
  case False
  then show ?thesis
    unfolding eval_vector_selector_def Let_def
    by (simp add: panics_only_collect panics_only_time_loop panics_only_get_samples [OF assms])
qed

lemma panics_only_matrix_selector:
  assumes "metric_base R s"
  shows "panics_only P (eval_matrix_selector E vs d s a b)"
  unfolding eval_matrix_selector_def Let_def
  by (simp add: panics_only_collect panics_only_get_samples [OF assms] duration_ms_range)

lemma panics_only_windows:
  assumes "metric_base R s" and "0 \<le> r" and "\<And>samples. panics_only P (f samples)"
  shows "panics_only P (eval_windows E f vs r s a b step is_instant)"
  unfolding eval_windows_def Let_def
  by (simp add: panics_only_collect panics_only_time_loop window_at_total [OF assms(1,2)] assms(3))

lemma extract_matrix_ok:
  assumes "extract_matrix arg func = ok (vs, r)"
  shows "0 \<le> r"
  using assms by (auto simp: extract_matrix_def duration_ms_range split: prom_expr.splits)

lemma panics_only_extract [simp]: "panics_only P (extract_matrix arg func)"
  by (simp add: extract_matrix_def split: prom_expr.split)

lemma panics_only_range_functions:
  assumes "metric_base R s"
  shows "panics_only P (eval_rate_like E func arg s a b step is_instant)"
    and "panics_only P (eval_over_time E func arg s a b step is_instant)"
    and "huge_index \<le> P \<Longrightarrow> nan_panic (pv_sort_values E) id \<le> P \<Longrightarrow>
      panics_only P (eval_quantile_over_time E q arg s a b step is_instant)"
    and "panics_only P (eval_changes_or_resets E func arg s a b step is_instant)"
proof -
  show "panics_only P (eval_rate_like E func arg s a b step is_instant)"
    by (cases arg) (simp_all add: eval_rate_like_def Let_def panics_only_windows [OF assms(1)] duration_ms_range)
  show "panics_only P (eval_over_time E func arg s a b step is_instant)"
    "panics_only P (eval_changes_or_resets E func arg s a b step is_instant)"
    unfolding eval_over_time_def eval_changes_or_resets_def
    by (rule panics_only_and_then, auto intro!: panics_only_windows [OF assms] dest: extract_matrix_ok)+
  show "panics_only P (eval_quantile_over_time E q arg s a b step is_instant)"
    if "huge_index \<le> P" "nan_panic (pv_sort_values E) id \<le> P"
    unfolding eval_quantile_over_time_def
    by (rule panics_only_and_then)
      (auto simp: panics_only_quantile_over_time [OF that] intro!: panics_only_windows [OF assms] dest: extract_matrix_ok)
qed

lemma panics_only_any_present:
  assumes "metric_base R s" and "in_i64 t" and "0 \<le> r"
  shows "panics_only P (any_present s r t sids)"
  by (induction sids) (simp_all add: get_window [OF assms])

lemma panics_only_absent:
  assumes "metric_base R s"
  shows "panics_only P (eval_absent_over_time E arg s a b step is_instant)"
  unfolding eval_absent_over_time_def
proof (rule panics_only_and_then)
  fix x assume "extract_matrix arg ''absent_over_time'' = ok x"
  then have r: "0 \<le> snd x" by (cases x) (simp add: extract_matrix_ok)
  have "panics_only P (absent_at s (snd x) off sids t)" for off sids t
    by (simp add: absent_at_def panics_only_any_present [OF assms _ r])
  then show "panics_only P (case x of (vs, range_ms) \<Rightarrow> (let sids = selected_series E s vs; offset_ms = offset_to_ms (vs_offset vs)
        in lift_panic (map_sum id InstantVector
             (if is_instant \<or> step = 0
              then map_sum id (one_sample [] b) (absent_at s range_ms offset_ms sids b)
              else map_sum id (some_samples [])
                     (time_loop (absent_at s range_ms offset_ms sids) b step a)))))"
    by (cases x) (simp add: Let_def panics_only_time_loop)
qed simp

section \<open>Rates of counters\<close>

text \<open>Samples as a counter has them: times from zero on, in order, and values that are not negative.\<close>

definition counter_samples :: "sample list \<Rightarrow> bool" where
  "counter_samples samples \<longleftrightarrow> sorted (map sm_timestamp_ms samples) \<and>
     (\<forall>p \<in> set samples. 0 \<le> sm_timestamp_ms p \<and> sm_timestamp_ms p \<le> i64_max \<and> nonneg (sm_value p))"

lemma counter_samples_filter: "counter_samples samples \<Longrightarrow> counter_samples (filter P samples)"
  by (auto simp: counter_samples_def sorted_map_filter)

lemma wrapping_sub_exact: "0 \<le> a \<Longrightarrow> a \<le> b \<Longrightarrow> b \<le> i64_max \<Longrightarrow> i64_wrapping_sub b a = b - a"
  by (simp add: i64_wrapping_sub_def i64_max_def)

lemma nonneg_increase: "nonneg cur \<Longrightarrow> nonneg (counter_increase prev cur)"
  by (simp add: counter_increase_def Let_def)

lemma adjacent_set: "(p, c) \<in> set (adjacent xs) \<Longrightarrow> c \<in> set xs"
  by (cases xs) (auto simp: adjacent_def dest: set_zip_rightD)

lemma nonneg_total:
  assumes "\<forall>p \<in> set samples. nonneg (sm_value p)"
  shows "nonneg (total_increase samples)"
proof -
  have "nonneg (fold (\<lambda>(p, c) acc. f64_add acc (counter_increase (sm_value p) (sm_value c))) ps acc)"
    if "nonneg acc" "\<forall>(p, c) \<in> set ps. nonneg (sm_value c)" for ps acc
    using that by (induction ps arbitrary: acc) (auto intro!: nonneg_add nonneg_increase)
  moreover have "\<forall>(p, c) \<in> set (adjacent samples). nonneg (sm_value c)"
    using assms by (auto dest: adjacent_set)
  moreover have "nonneg f64_zero" by (simp add: f64_le_def)
  ultimately show ?thesis unfolding total_increase_def by blast
qed

lemma ms_to_s_0: "f64_le (ms_to_s 0) f64_zero" "\<not> f64_lt f64_zero (ms_to_s 0)"
proof -
  note y = f64_of_pos_int [of 1000]
  have "f64_of_int 0 = f64_round False 0 1" by (simp add: f64_of_int_def)
  then have x: "f64_bits (f64_of_int 0) = 0" "\<not> f64_neg (f64_of_int 0)" "\<not> is_nan (f64_of_int 0)"
    by (simp_all add: f64_round_bits f64_round_neg)
  then have fin: "is_finite (f64_of_int 0)" by (simp add: is_finite_def f64_inf_bits_def)
  have "ms_to_s 0 = f64_round False 0 (units_of_bits (f64_bits (f64_of_int 1000)))"
    using x y fin by (auto simp: ms_to_s_def f64_div_def Let_def positive_cases f64_units_def)
  then have "f64_bits (ms_to_s 0) = 0" "\<not> f64_neg (ms_to_s 0)" "\<not> is_nan (ms_to_s 0)"
    by (simp_all add: f64_round_bits f64_round_neg)
  then show "f64_le (ms_to_s 0) f64_zero" "\<not> f64_lt f64_zero (ms_to_s 0)"
    by (simp_all add: f64_le_def f64_lt_def f64_units_def)
qed

lemma ms_to_s_pos: "0 < ms \<Longrightarrow> ms \<le> i64_max \<Longrightarrow> f64_lt f64_zero (ms_to_s ms) \<and> is_finite (ms_to_s ms)"
  unfolding ms_to_s_def by (rule f64_thousandth) (simp_all add: i64_max_def)

definition counter_rates :: "string list" where "counter_rates = [''rate'', ''increase'', ''irate'']"

lemma compute_rate_nonneg:
  assumes samples: "counter_samples samples" and func: "func \<in> set counter_rates"
    and range: "0 < range_ms" "range_ms \<le> i64_max"
    and v: "compute_rate_like func samples range_ms = Some v"
  shows "nonneg v"
proof -
  have two: "2 \<le> length samples" using v by (auto simp: compute_rate_like_def split: if_splits)
  have gap: "i64_wrapping_sub (sm_timestamp_ms (samples ! j)) (sm_timestamp_ms (samples ! i)) =
      sm_timestamp_ms (samples ! j) - sm_timestamp_ms (samples ! i) \<and>
      0 \<le> sm_timestamp_ms (samples ! j) - sm_timestamp_ms (samples ! i) \<and>
      sm_timestamp_ms (samples ! j) - sm_timestamp_ms (samples ! i) \<le> i64_max"
    if "i \<le> j" "j < length samples" for i j
  proof -
    have "sm_timestamp_ms (samples ! i) \<le> sm_timestamp_ms (samples ! j)"
      using sorted_nth_mono [of "map sm_timestamp_ms samples" i j] samples that
      by (simp add: counter_samples_def)
    moreover have "samples ! i \<in> set samples" "samples ! j \<in> set samples" using that by simp_all
    then have "0 \<le> sm_timestamp_ms (samples ! i)" "sm_timestamp_ms (samples ! j) \<le> i64_max"
      using samples by (simp_all add: counter_samples_def)
    ultimately show ?thesis by (simp add: wrapping_sub_exact)
  qed
  have lasts: "hd samples = samples ! 0" "last samples = samples ! (length samples - 1)"
  proof -
    have "samples \<noteq> []" using two by auto
    then show "hd samples = samples ! 0" "last samples = samples ! (length samples - 1)"
      by (simp_all add: hd_conv_nth last_conv_nth)
  qed
  have positive: "f64_lt f64_zero (ms_to_s g) \<and> is_finite (ms_to_s g)"
    if "0 \<le> g" "g \<le> i64_max" "\<not> f64_le (ms_to_s g) f64_zero \<or> f64_lt f64_zero (ms_to_s g)" for g
    using that ms_to_s_pos [of g] ms_to_s_0 by (cases "g = 0") auto
  have total: "nonneg (total_increase samples)" using samples by (intro nonneg_total) (simp add: counter_samples_def)
  have func': "func = ''rate'' \<or> func = ''increase'' \<or> func = ''irate''" using func by (simp add: counter_rates_def)
  show ?thesis
  proof (cases "func = ''irate''")
    case True
    define g where "g = i64_wrapping_sub (sm_timestamp_ms (samples ! (length samples - 1)))
      (sm_timestamp_ms (samples ! (length samples - 2)))"
    have "f64_lt f64_zero (ms_to_s g)" and v': "v = f64_div (counter_increase
        (sm_value (samples ! (length samples - 2))) (sm_value (samples ! (length samples - 1)))) (ms_to_s g)"
      using v True two by (auto simp: compute_rate_like_def Let_def g_def split: if_splits)
    moreover have "0 \<le> g" "g \<le> i64_max"
      using gap [of "length samples - 2" "length samples - 1"] two unfolding g_def by auto
    ultimately have d: "f64_lt f64_zero (ms_to_s g)" "is_finite (ms_to_s g)" using positive by blast+
    have "samples ! (length samples - 1) \<in> set samples" using two by (intro nth_mem) linarith
    then have "nonneg (sm_value (samples ! (length samples - 1)))" using samples by (simp add: counter_samples_def)
    then show ?thesis unfolding v' using d by (intro nonneg_div nonneg_increase)
  next
    case False
    define g where "g = i64_wrapping_sub (sm_timestamp_ms (last samples)) (sm_timestamp_ms (hd samples))"
    have g: "\<not> f64_le (ms_to_s g) f64_zero"
      and v': "v = (if func = ''increase'' then f64_div (f64_mul (total_increase samples) (ms_to_s range_ms)) (ms_to_s g)
        else f64_div (total_increase samples) (ms_to_s g))"
      using v False func' two by (auto simp: compute_rate_like_def Let_def g_def split: if_splits)
    have "0 \<le> g" "g \<le> i64_max"
      using gap [of 0 "length samples - 1"] two unfolding g_def lasts by auto
    then have d: "f64_lt f64_zero (ms_to_s g)" "is_finite (ms_to_s g)" using positive g by blast+
    have r: "f64_lt f64_zero (ms_to_s range_ms)" "is_finite (ms_to_s range_ms)" using ms_to_s_pos range by blast+
    show ?thesis unfolding v' using total d r by (simp add: nonneg_div nonneg_mul)
  qed
qed

lemma grid_samples_mem: "(t, v) \<in> set (grid_samples f grid) \<longleftrightarrow> t \<in> set grid \<and> f t = Some v"
  by (auto simp: grid_samples_def List.map_filter_def image_iff)

lemma sample_list_simps:
  "sr \<in> set (one_sample ls b w) \<longleftrightarrow> (\<exists>x. w = Some x \<and> sr = \<lparr>se_labels = ls, se_samples = [(b, x)]\<rparr>)"
  "sr \<in> set (some_samples ls ps) \<longleftrightarrow> ps \<noteq> [] \<and> sr = \<lparr>se_labels = ls, se_samples = ps\<rparr>"
  by (auto simp: one_sample_def some_samples_def split: option.split)

lemma windows_answer_values:
  assumes "sr \<in> set (windows_answer E g vs r s a b step is_instant)" and "(t, v) \<in> set (se_samples sr)"
  obtains sid u where "g (window_samples s sid r u) = Some v"
proof -
  have "\<exists>sid. g (window_samples s sid r (i64_saturating_sub t (offset_to_ms (vs_offset vs)))) = Some v"
    using assms unfolding windows_answer_def Let_def
    by (cases "is_instant \<or> step = 0") (auto simp: sample_list_simps grid_samples_mem)
  then show thesis using that by blast
qed

section \<open>Quantiles of a window\<close>

lemma partial_sort_numbers:
  assumes "list_all (\<lambda>x. \<not> is_nan x) values"
  shows "partial_sort unordered id False values = Inr (sort_key f64_units values)"
proof (cases "length values < 2")
  case True
  then consider "values = []" | x where "values = [x]" by (cases "values" rule: remdups_adj.cases) auto
  then show ?thesis by cases (simp_all add: partial_sort_def)
next
  case False
  then show ?thesis using assms by (simp add: partial_sort_def)
qed

text \<open>At 0 and at 1 the rank is the first and the last index.\<close>

lemma rank_zero: "interpolate_quantile values f64_zero = (if values = [] then Inr f64_nan else Inr (values ! 0))"
proof -
  have "f64_to_usize (f64_floor (f64_mul f64_zero (f64_of_nat m))) = 0 \<and>
      f64_to_usize (f64_ceil (f64_mul f64_zero (f64_of_nat m))) = 0" for m
  proof (cases "is_finite (f64_of_nat m)")
    case True
    define x where "x = f64_mul f64_zero (f64_of_nat m)"
    have "\<exists>neg. x = f64_round neg 0 f64_one_units"
      using True unfolding x_def f64_mul_def Let_def by (auto simp: is_nan_def is_finite_def)
    then have "f64_bits x = 0" "is_finite x" by (auto simp: f64_round_bits is_finite_def f64_inf_bits_def)
    moreover have "f64_to_usize (f64_integral neg 0) = 0" for neg
      using f64_integral_to_usize [of 0] f64_integral_neg_to_usize [of 0] by (cases neg) simp_all
    moreover have "(f64_one_units - Suc 0) div f64_one_units = 0" by simp
    ultimately show ?thesis unfolding x_def [symmetric] f64_floor_def f64_ceil_def f64_trunc_nat_def f64_up_nat_def
      by (cases "f64_neg x") simp_all
  next
    case False
    then have "f64_mul f64_zero (f64_of_nat m) = f64_nan" by (simp add: f64_mul_def Let_def)
    moreover have "is_nan f64_nan" "\<not> is_finite f64_nan"
      by (simp_all add: is_nan_def is_finite_def f64_nan_def f64_of_bits_bits f64_inf_bits_def)
    ultimately show ?thesis by (simp add: f64_floor_def f64_ceil_def f64_to_usize_def)
  qed
  then show ?thesis by (cases "values") (auto simp: interpolate_quantile_def Let_def index_def)
qed

lemma f64_one_facts: "f64_bits f64_one = rounded_bits f64_one_units 1" "units_of_bits (f64_bits f64_one) = f64_one_units"
  "\<not> f64_neg f64_one" "is_finite f64_one"
proof -
  have u: "units_of_bits (1023 * 2 ^ 52) = 2 ^ 52 * 2 ^ 1022" by (simp add: units_of_bits_def)
  also have "\<dots> = f64_one_units" unfolding f64_one_units_def power_add [symmetric] by simp
  finally show "units_of_bits (f64_bits f64_one) = f64_one_units" by (simp add: f64_one_def f64_of_bits_bits)
  show "\<not> f64_neg f64_one" by (simp add: f64_one_def f64_of_bits_neg)
  show "is_finite f64_one" by (simp add: is_finite_def f64_one_def f64_of_bits_bits f64_inf_bits_def)
  have "bit_length f64_one_units = Suc 1074" unfolding f64_one_units_def by (rule bit_length_unique) simp_all
  moreover have "round_half_even f64_one_units (2 ^ 1022) = 2 ^ 52"
  proof -
    have e: "f64_one_units = 2 ^ 52 * 2 ^ 1022" unfolding f64_one_units_def power_add [symmetric] by simp
    show ?thesis unfolding e by (rule round_half_even_exact) simp
  qed
  ultimately have "rounded_bits f64_one_units 1 = 1023 * 2 ^ 52" by (simp add: rounded_bits_def Let_def)
  then show "f64_bits f64_one = rounded_bits f64_one_units 1" by (simp add: f64_one_def f64_of_bits_bits)
qed

lemma rank_one:
  assumes "values \<noteq> []" and "length values \<le> 2 ^ 53"
  shows "interpolate_quantile values f64_one = Inr (last values)"
proof (cases "length values = 1")
  case True
  then show ?thesis by (cases "values") (auto simp: interpolate_quantile_def index_def)
next
  case False
  define m where "m = length values - 1"
  have m: "m < 2 ^ 53" "length values = Suc m" proof -
    have "0 < length values" using assms(1) by simp
    then show "m < 2 ^ 53" "length values = Suc m" using assms(2) unfolding m_def by linarith+
  qed
  note M = f64_of_nat_exact [OF m(1)]
  define x where "x = f64_mul f64_one (f64_of_nat m)"
  have x: "x = f64_round False (f64_one_units * (m * f64_one_units)) f64_one_units"
    using M f64_one_facts unfolding x_def f64_mul_def Let_def
    by (simp add: f64_units_def is_nan_def is_finite_def nat_mult_distrib)
  have "rounded_bits (f64_one_units * (m * f64_one_units)) f64_one_units = rounded_bits (m * f64_one_units) 1"
    by (intro antisym rounded_bits_mono) (simp_all add: mult.commute)
  then have bits: "f64_bits x = rounded_bits (m * f64_one_units) 1" and fin: "is_finite x"
    using M(2,4) unfolding x f64_round_bits is_finite_def by simp_all
  have units: "units_of_bits (f64_bits x) = m * f64_one_units" using M(1,4) by (simp add: bits)
  have "(m * f64_one_units + (f64_one_units - 1)) div f64_one_units = m" by simp
  then have "f64_to_usize (f64_floor x) = m" "f64_to_usize (f64_ceil x) = m"
    using fin units f64_integral_to_usize [OF m(1)]
    by (simp_all add: f64_floor_def f64_ceil_def f64_trunc_nat_def f64_up_nat_def x f64_round_neg)
  then show ?thesis using False assms(1) m(2)
    by (simp add: interpolate_quantile_def Let_def m_def [symmetric] x_def [symmetric] index_def last_conv_nth)
qed

lemma f64_units_le: "\<not> is_nan x \<Longrightarrow> \<not> is_nan y \<Longrightarrow> f64_le x y \<longleftrightarrow> f64_units x \<le> f64_units y"
  by (simp add: f64_le_def)

section \<open>A sample environment\<close>

definition sample_prom :: "(string list, string) prom_env" where
  "sample_prom = \<lparr>pv_rodeo = list_rodeo, pv_regex = literal_regex, pv_captures = (\<lambda>re s. None),
     pv_libm = \<lparr>m_powf = (\<lambda>x y. x), m_ln = id, m_log2 = id, m_log10 = id, m_exp = id\<rparr>,
     pv_parse = (\<lambda>q. Inr (VectorSelector \<lparr>vs_name = Some q, vs_matchers = [], vs_offset = None, vs_at = None\<rparr>)),
     pv_fmt = (\<lambda>x. []), pv_debug = (\<lambda>e. []), pv_debug_labels = (\<lambda>ls. []),
     pv_sort_values = Inr, pv_sort_series = Inr, pv_sort_buckets = Inr\<rparr>"

definition up_selector :: vector_selector where
  "up_selector = \<lparr>vs_name = Some ''up'', vs_matchers = [], vs_offset = None, vs_at = None\<rparr>"

lemma sample_prom_fields [simp]: "pv_rodeo sample_prom = list_rodeo" "pv_regex sample_prom = literal_regex"
  by (simp_all add: sample_prom_def)

lemma up_matchers: "vs_label_matchers up_selector = [\<lparr>lm_name = ''__name__'', lm_op = Eq, lm_value = ''up''\<rparr>]"
  by (simp add: vs_label_matchers_def up_selector_def prom_convert_matchers_def)

lemma sample_samples: "samples_of sample_metrics 0 = [point 10, point 20]"
  by (simp add: samples_of_def sample_metrics_series(1))

section \<open>Properties\<close>

text \<open>
  C27: A range query of a selector panics on no store that satisfies the invariant. It has one result
  per stored series whose labels satisfy the matchers and that has a sample to show, and at each time
  of the grid from start to end by step the value of the last sample in the five minutes that end
  at the time, after the offset and the \<open>@\<close> modifier.
\<close>

theorem range_selector_samples:
  assumes "rodeo_laws (pv_rodeo E)" and "metric_base (pv_rodeo E) s"
    and "list_all (matcher_valid (pv_regex E)) (vs_label_matchers vs)" and "0 < step" and "b \<le> i64_max"
  shows "eval_vector_selector E vs s a b step False = ok (InstantVector (concat (map (\<lambda>sid.
      some_samples (series_labels E s sid)
        (grid_samples (\<lambda>t. last_value (window_samples s sid 300000 (effective_time vs a b t))) (time_grid a b step)))
      (selected_series E s vs)))) \<and>
    set (selected_series E s vs) = {sid. \<exists>se. hm_get (mt_series s) sid = Some se \<and>
      list_all (matcher_holds (pv_regex E) (resolve_labels (pv_rodeo E) (mt_interner s) (ms_labels se)))
        (vs_label_matchers vs)}"
  using range_vector_selector [OF assms(2) _ assms(5), of step E vs a] assms(4)
    select_series_spec [OF assms(1,2), of "vs_label_matchers vs" "pv_regex E"] assms(3)
  by (simp add: selected_series_def list_all_iff)

theorem range_selector_samples_witness:
  "eval_vector_selector sample_prom up_selector sample_metrics 0 30 10 False = ok (InstantVector (concat (map (\<lambda>sid.
      some_samples (series_labels sample_prom sample_metrics sid)
        (grid_samples (\<lambda>t. last_value (window_samples sample_metrics sid 300000 (effective_time up_selector 0 30 t)))
          (time_grid 0 30 10)))
      (selected_series sample_prom sample_metrics up_selector))))"
  using range_selector_samples [of sample_prom sample_metrics up_selector 10 30 0] list_rodeo_laws sample_metrics_base
  by (simp add: up_matchers matcher_valid_def i64_max_def)


lemma sample_counter: "counter_samples (samples_of sample_metrics sid)"
proof (cases "sid = 0")
  case True
  then show ?thesis by (simp add: sample_samples counter_samples_def point_def i64_max_def f64_le_def flip: f64_zero_def)
next
  case False
  then show ?thesis by (simp add: samples_of_def sample_metrics_series(1) counter_samples_def)
qed


text \<open>
  C32: The quantile of a window that has a value, at most \<open>2 ^ 53\<close> of them and none a NaN, is defined for
  every rank in the unit interval, at 0 it is the least and at 1 the greatest value; interpolating never
  indexes outside the window.
\<close>

theorem quantile_over_time_defined:
  assumes "samples \<noteq> []" and "length samples \<le> 2 ^ 53" and "list_all (\<lambda>p. \<not> is_nan (sm_value p)) samples"
    and "unit_interval q"
  shows "(\<exists>v. quantile_over_time E q samples = Inr (Some v)) \<and>
    (\<exists>p \<in> set samples. quantile_over_time E f64_zero samples = Inr (Some (sm_value p)) \<and>
      (\<forall>p' \<in> set samples. f64_le (sm_value p) (sm_value p'))) \<and>
    (\<exists>p \<in> set samples. quantile_over_time E f64_one samples = Inr (Some (sm_value p)) \<and>
      (\<forall>p' \<in> set samples. f64_le (sm_value p') (sm_value p)))"
proof -
  define vals where "vals = sort_key f64_units (map sm_value samples)"
  have sorted: "partial_sort (pv_sort_values E) id False (map sm_value samples) = Inr vals"
    unfolding vals_def by (rule partial_sort_numbers) (use assms(3) in \<open>simp add: list_all_iff\<close>)
  have vals: "vals \<noteq> []" "length vals \<le> 2 ^ 53" "set vals = sm_value ` set samples" "sorted (map f64_units vals)"
    using assms(1,2) unfolding vals_def by (simp_all add: length_greater_0_conv [symmetric] del: length_greater_0_conv)
  have numbers: "\<not> is_nan v" if "v \<in> set vals" for v using that assms(3) by (auto simp: vals(3) list_all_iff)
  have quantile: "quantile_over_time E q' samples = map_sum id Some (interpolate_quantile vals q')" if "unit_interval q'" for q'
    using assms(1) that by (simp add: quantile_over_time_def sorted)
  have ends: "unit_interval f64_zero" "unit_interval f64_one"
    using f64_one_facts by (simp_all add: unit_interval_def f64_le_def f64_units_def is_nan_def is_finite_def)
  have "vals ! 0 \<in> set vals" "last vals \<in> set vals" using vals(1) by simp_all
  moreover have "f64_le (vals ! 0) v \<and> f64_le v (last vals)" if v: "v \<in> set vals" for v
  proof -
    obtain i where i: "i < length vals" "v = vals ! i" using v by (auto simp: in_set_conv_nth)
    have "f64_units (vals ! 0) \<le> f64_units (vals ! i)" "f64_units (vals ! i) \<le> f64_units (vals ! (length vals - 1))"
      using sorted_nth_mono [OF vals(4), of 0 i] sorted_nth_mono [OF vals(4), of i "length vals - 1"] i(1) vals(1)
      by (simp_all add: length_greater_0_conv [symmetric] del: length_greater_0_conv)
    then show ?thesis
      using numbers calculation v i(2) vals(1) by (simp add: f64_units_le last_conv_nth)
  qed
  moreover have "quantile_over_time E f64_zero samples = Inr (Some (vals ! 0))"
    "quantile_over_time E f64_one samples = Inr (Some (last vals))"
    using vals(1) rank_zero [of vals] rank_one [OF vals(1,2)] quantile ends by simp_all
  moreover obtain v where "interpolate_quantile vals q = Inr v"
    using interpolate_quantile_returns [OF assms(4) vals(2)] by blast
  ultimately show ?thesis using quantile [OF assms(4)] unfolding vals(3) by auto
qed

theorem quantile_over_time_defined_witness:
  "\<exists>v. quantile_over_time sample_prom f64_one [point 10, point 20] = Inr (Some v)"
proof -
  have "unit_interval f64_one"
    using f64_one_facts by (simp add: unit_interval_def f64_le_def f64_units_def is_nan_def is_finite_def)
  then show ?thesis
    using quantile_over_time_defined [of "[point 10, point 20]" f64_one sample_prom]
    by (simp add: point_def flip: f64_zero_def)
qed

text \<open>The range functions do not look at the \<open>@\<close> modifier of their selector.\<close>

lemma rate_ignores_at:
  "eval_rate_like E func (MatrixSelector (vs\<lparr>vs_at := at\<rparr>) d) s a b step is_instant =
   eval_rate_like E func (MatrixSelector vs d) s a b step is_instant"
  by (simp add: eval_rate_like_def eval_windows_def Let_def selected_series_def vs_label_matchers_def
      fun_eq_iff window_at_def [abs_def])

end
