(* ===== verification/Promql_Eval_Correct.thy ===== *)
theory Promql_Eval_Correct
  imports Promql_Eval Promql_Select_Correct
begin

text \<open>
  Correctness of the PromQL evaluator: no expression panics; aggregation folds the groups of a
  partition, each time by time; vector matching through the hash index equals the nested loops over
  both sides; and the set operators split and unite their operands.
\<close>

section \<open>Grouping\<close>

text \<open>The groups are those of the keys, in order, each with its elements in the order they came.\<close>

lemma btree_group_eq:
  "btree_group key val xs =
    map (\<lambda>k. (k, map val (filter (\<lambda>x. key x = k) xs))) (sorted_list_of_set (key ` set xs))"
proof -
  define m where "m = fold (\<lambda>x. hm_upsert [] (key x) (\<lambda>ys. ys @ [val x])) xs []"
  have wf: "hm_wf m" unfolding m_def by (rule group_fold_keys) simp
  have get: "hm_get m k = (if filter (\<lambda>x. key x = k) xs = [] then None else Some (map val (filter (\<lambda>x. key x = k) xs)))" for k
    unfolding m_def by (simp add: group_fold_get)
  have "k \<in> set (hm_keys m) \<longleftrightarrow> k \<in> key ` set xs" for k
    unfolding hm_key_iff get by (auto simp: filter_empty_conv)
  then have "set (hm_keys m) = key ` set xs" by blast
  then have keys: "sort (hm_keys m) = sorted_list_of_set (key ` set xs)"
    using wf sorted_list_of_set_sort_remdups [of "hm_keys m"] by (simp add: distinct_remdups_id)
  show ?thesis
    unfolding btree_group_def Let_def m_def [symmetric] keys
    by (rule map_cong) (auto simp: get filter_empty_conv)
qed

text \<open>The groups partition the elements.\<close>

lemma mset_groups:
  "(\<Sum>g \<leftarrow> btree_group key id xs. mset (snd g)) = mset xs"
  using mset_split [of "sorted_list_of_set (key ` set xs)" key xs] unfolding btree_group_eq by (simp add: comp_def)

section \<open>Aggregation\<close>

text \<open>The times of some series, in ascending order.\<close>

definition times_of :: "series_result list \<Rightarrow> i64 list" where
  "times_of series = sorted_list_of_set (\<Union>sr \<in> set series. fst ` set (se_samples sr))"

lemma group_timestamps_eq: "group_timestamps series = times_of series"
proof -
  have "sorted_wrt (<) (remdups_adj (sort xs))" for xs :: "i64 list"
    by (rule strict_sorted_remdups_adj) simp
  then have "remdups_adj (sort xs) = sorted_list_of_set (set xs)" for xs :: "i64 list"
    by (intro strict_sorted_unique) simp_all
  then show ?thesis by (simp add: group_timestamps_def times_of_def image_Union)
qed

lemma sample_lookup_get: "hm_get (sample_lookup ps) t = map_of (rev ps) t"
proof -
  have "hm_get (fold (\<lambda>(t, v). hm_insert t v) ps m) t = (case map_of (rev ps) t of None \<Rightarrow> hm_get m t | Some v \<Rightarrow> Some v)" for m
    by (induction ps arbitrary: m) (auto simp: hm_simps map_add_def split: option.split)
  then show ?thesis by (simp add: sample_lookup_def split: option.split)
qed

lemma values_at_nonempty:
  assumes "t \<in> set (times_of series)"
  shows "values_at series t \<noteq> []"
proof -
  obtain sr where sr: "sr \<in> set series" "t \<in> fst ` set (se_samples sr)"
    using assms by (auto simp: times_of_def)
  then have "map_of (rev (se_samples sr)) t \<noteq> None" by (simp add: map_of_eq_None_iff)
  then have "hm_get (sample_lookup (se_samples sr)) t \<noteq> None" by (simp add: sample_lookup_get)
  with sr(1) show ?thesis by (auto simp: values_at_def List.map_filter_def filter_empty_conv)
qed

lemma aggregate_group_eq:
  "aggregate_group op series = map (\<lambda>t. (t, aggregate_values op (values_at series t))) (times_of series)"
proof -
  have "List.map_filter (\<lambda>t. let vs = values_at series t in if vs = [] then None else Some (t, aggregate_values op vs)) ts =
      map (\<lambda>t. (t, aggregate_values op (values_at series t))) ts" if "set ts \<subseteq> set (times_of series)" for ts
    using that by (induction ts) (simp_all add: List.map_filter_simps values_at_nonempty Let_def)
  then show ?thesis unfolding aggregate_group_def group_timestamps_eq by blast
qed

text \<open>The series of one group.\<close>

definition group_members :: "label_modifier option \<Rightarrow> prom_labels \<Rightarrow> series_result list \<Rightarrow> series_result list" where
  "group_members modifier labels series = filter (\<lambda>sr. compute_group_labels (se_labels sr) modifier = labels) series"

lemma group_series_eq:
  "group_series modifier series = map (\<lambda>labels. (labels, group_members modifier labels series))
     (sorted_list_of_set ((\<lambda>sr. compute_group_labels (se_labels sr) modifier) ` set series))"
  by (simp add: group_series_def btree_group_eq group_members_def)

section \<open>Vector matching\<close>

definition partners :: "match_mode \<Rightarrow> series_result list \<Rightarrow> series_result \<Rightarrow> series_result list" where
  "partners mode rhs ls = filter (\<lambda>rs. match_key mode (se_labels rs) = match_key mode (se_labels ls)) rhs"

lemma rhs_by_key_get:
  "hm_get (rhs_by_key mode rhs) (match_key mode (se_labels ls)) =
    (if partners mode rhs ls = [] then None
     else Some (map (\<lambda>rs. (rs, sample_lookup (se_samples rs))) (partners mode rhs ls)))"
  unfolding rhs_by_key_def partners_def by (simp add: group_fold_get)

text \<open>The join as loops over both sides.\<close>

definition nested_join ::
  "(series_result \<Rightarrow> series_result \<Rightarrow> series_result list) \<Rightarrow> match_mode \<Rightarrow> series_result list \<Rightarrow> series_result list \<Rightarrow>
    series_result list" where
  "nested_join f mode lhs rhs = concat (map (\<lambda>ls. concat (map (f ls) (partners mode rhs ls))) lhs)"

definition joined_pair ::
  "('i, 'r) prom_env \<Rightarrow> (series_result \<Rightarrow> series_result \<Rightarrow> prom_labels) \<Rightarrow> string \<Rightarrow> bool \<Rightarrow> series_result \<Rightarrow> series_result \<Rightarrow>
    series_result list" where
  "joined_pair E labels op return_bool ls rs =
     some_samples (labels ls rs) (joined_samples (pv_libm E) op return_bool ls (sample_lookup (se_samples rs)))"

lemma join_series_total:
  assumes "\<And>ls. ls \<in> set lhs \<Longrightarrow> partners mode rhs ls \<noteq> [] \<Longrightarrow>
    f (match_key mode (se_labels ls)) ls (map (\<lambda>rs. (rs, sample_lookup (se_samples rs))) (partners mode rhs ls)) =
      Inr (concat (map (g ls) (partners mode rhs ls)))"
  shows "join_series f mode (rhs_by_key mode rhs) lhs = Inr (nested_join g mode lhs rhs)"
  using assms by (induction lhs) (auto simp: nested_join_def rhs_by_key_get Let_def)

lemma join_series_fails:
  assumes "ls \<in> set lhs" and "\<And>ls. f (match_key mode (se_labels ls)) ls (map (\<lambda>rs. (rs, sample_lookup (se_samples rs))) (partners mode rhs ls)) \<in>
      (if 1 < length (partners mode rhs ls) then range (\<lambda>m. Inl (PromEval m)) else range Inr)"
    and "1 < length (partners mode rhs ls)"
  shows "\<exists>m. join_series f mode (rhs_by_key mode rhs) lhs = Inl (PromEval m)"
  using assms(1)
proof (induction lhs)
  case (Cons l lhs)
  show ?case
  proof (cases "1 < length (partners mode rhs l)")
    case True
    then show ?thesis using assms(2) [of l] by (auto simp: rhs_by_key_get Let_def)
  next
    case False
    then have "ls \<in> set lhs" using Cons.prems assms(3) by auto
    then show ?thesis using Cons.IH assms(2) [of l] False by (auto simp: rhs_by_key_get Let_def)
  qed
qed simp

section \<open>What panics\<close>

text \<open>A sort that meets a NaN among the values, the last samples or the bounds it orders.\<close>

definition sort_panic :: "('i, 'r) prom_env \<Rightarrow> panic \<Rightarrow> bool" where
  "sort_panic E p \<longleftrightarrow> nan_panic (pv_sort_values E) id p \<or> nan_panic (pv_sort_series E) last_sample p \<or>
     nan_panic (pv_sort_buckets E) fst p"

definition query_panic :: "('i, 'r) prom_env \<Rightarrow> panic \<Rightarrow> bool" where
  "query_panic E p \<longleftrightarrow> huge_index p \<or> sort_panic E p"

text \<open>The functions and aggregations that sort, and the expressions that use one.\<close>

definition sorting_functions :: "string list" where
  "sorting_functions = [''sort'', ''sort_desc'', ''quantile_over_time'', ''histogram_quantile'']"

definition sorting_aggregations :: "string list" where
  "sorting_aggregations = [''topk'', ''bottomk'', ''quantile'']"

fun sorts_values :: "prom_expr \<Rightarrow> bool" where
  "sorts_values (PromCall func args) \<longleftrightarrow> func \<in> set sorting_functions \<or> list_ex sorts_values args"
| "sorts_values (Aggregate op e param modifier) \<longleftrightarrow> op \<in> set sorting_aggregations \<or> sorts_values e \<or>
     (case param of None \<Rightarrow> False | Some p \<Rightarrow> sorts_values p)"
| "sorts_values (PromBinary op lhs rhs modifier) \<longleftrightarrow> sorts_values lhs \<or> sorts_values rhs"
| "sorts_values (PromParen e) \<longleftrightarrow> sorts_values e"
| "sorts_values (PromUnary e) \<longleftrightarrow> sorts_values e"
| "sorts_values e \<longleftrightarrow> False"

lemma query_panic_covers:
  assumes "query_panic E \<le> P"
  shows "huge_index \<le> P" and "nan_panic (pv_sort_values E) id \<le> P"
    and "nan_panic (pv_sort_series E) last_sample \<le> P" and "nan_panic (pv_sort_buckets E) fst \<le> P"
  using assms by (auto simp: query_panic_def sort_panic_def le_fun_def)

lemma panics_only_series_sort:
  "query_panic E \<le> P \<Longrightarrow> panics_only P (partial_sort (pv_sort_series E) last_sample desc xs)"
  by (rule panics_only_sort) (rule predicate1D [OF query_panic_covers(3)])

lemma panics_only_quantile_group:
  assumes "query_panic E \<le> P"
  shows "panics_only P (quantile_group E series q)"
proof (cases "unit_interval q")
  case True
  note C = query_panic_covers [OF assms]
  have "panics_only P (partial_sort (pv_sort_values E) id False vs)" for vs
    by (rule panics_only_sort) (rule predicate1D [OF C(2)])
  then show ?thesis
    by (simp add: quantile_group_def Let_def panics_only_collect panics_only_case panics_only_interpolate [OF C(1) True])
qed (simp add: quantile_group_def)

lemma panics_only_scalar_param [simp]: "panics_only P (scalar_param param m m')"
  by (simp add: scalar_param_def split: option.split promql_result.split)

lemma panics_only_aggregation_series:
  assumes "op \<in> set sorting_aggregations \<Longrightarrow> query_panic E \<le> P"
  shows "panics_only P (eval_aggregation_series E op modifier series param)"
proof (cases "op \<in> set sorting_aggregations")
  case True
  note P = assms [OF True]
  show ?thesis
    unfolding eval_aggregation_series_def eval_quantile_aggregation_def
    by (simp add: panics_only_and_then panics_only_collect panics_only_quantile_group [OF P]
        panics_only_series_sort [OF P] split_def)
qed (simp add: eval_aggregation_series_def sorting_aggregations_def)

lemma panics_only_aggregation:
  assumes "op \<in> set sorting_aggregations \<Longrightarrow> query_panic E \<le> P"
  shows "panics_only P (eval_aggregation E op modifier inner param)"
  by (cases inner) (simp_all add: eval_aggregation_def panics_only_aggregation_series [OF assms])

lemma panics_only_histogram:
  assumes "query_panic E \<le> P"
  shows "panics_only P (eval_histogram_quantile E quantile r)"
proof -
  have "panics_only P (partial_sort (pv_sort_buckets E) fst False bs)" for bs
    by (rule panics_only_sort) (rule predicate1D [OF query_panic_covers(4) [OF assms]])
  then show ?thesis
    by (cases r) (simp_all add: eval_histogram_quantile_def histogram_group_def panics_only_collect)
qed

lemma panics_only_string_args [simp]: "panics_only P (extract_string_arg e)" "panics_only P (extract_string_args es)"
proof -
  show one: "panics_only P (extract_string_arg e)" for e by (cases e) (simp_all add: extract_string_arg_def)
  show "panics_only P (extract_string_args es)"
    by (induction es) (auto intro!: panics_only_and_then one)
qed

lemma panics_only_one_arg:
  assumes "func \<in> set sorting_functions \<Longrightarrow> query_panic E \<le> P"
  shows "panics_only P (apply_one_arg E func args b inner)"
proof -
  have "panics_only P (eval_label_replace E args inner)"
    unfolding eval_label_replace_def by (auto intro!: panics_only_and_then split: option.split)
  moreover have "panics_only P (eval_label_join args inner)"
    unfolding eval_label_join_def by (auto intro!: panics_only_and_then)
  moreover have "panics_only P (sort_vector E inner desc)" if "func = ''sort'' \<or> func = ''sort_desc''" for desc
    using assms that
    by (cases inner) (auto simp: sort_vector_def sorting_functions_def intro: panics_only_series_sort)
  moreover have "panics_only P (apply_timestamp inner b)" by (cases inner) (simp_all add: apply_timestamp_def)
  ultimately show ?thesis
    by (simp add: apply_one_arg_def apply_scalar_func_def apply_math_func_def)
qed

lemma panics_only_as_scalar [simp]: "panics_only P (as_scalar m r)"
  by (cases r) (simp_all add: as_scalar_def)

lemma panics_only_range_function:
  assumes "metric_base R s"
  shows "panics_only P (eval_range_function E func args s a b step is_instant)"
  unfolding eval_range_function_def
  by (cases args) (simp_all add: panics_only_range_functions [OF assms] panics_only_absent [OF assms])

lemma panics_only_clamp_call:
  assumes "\<And>v. v \<in> set vals \<Longrightarrow> panics_only P v"
  shows "panics_only P (eval_clamp_call func vals)"
proof -
  have "\<not> length vals < n \<Longrightarrow> i < n \<Longrightarrow> panics_only P (vals ! i)" for i n using assms by simp
  then show ?thesis
    unfolding eval_clamp_call_def apply_clamp_def by (simp add: panics_only_and_then)
qed

lemma panics_only_call:
  assumes base: "metric_base R s" and cov: "func \<in> set sorting_functions \<Longrightarrow> query_panic E \<le> P"
    and vals: "\<And>v. v \<in> set vals \<Longrightarrow> panics_only P v" and len: "length vals = length args"
  shows "panics_only P (eval_call E func args vals s a b step is_instant)"
proof -
  have nth: "\<not> length vals < n \<Longrightarrow> i < n \<Longrightarrow> panics_only P (vals ! i)" for i n using vals by simp
  have "panics_only P (eval_quantile_call E args vals s a b step is_instant)" if "func = ''quantile_over_time''"
  proof -
    have "query_panic E \<le> P" using cov that by (simp add: sorting_functions_def)
    then show ?thesis
      unfolding eval_quantile_call_def using nth [of 2 0] len
      by (simp add: panics_only_and_then panics_only_range_functions(3) [OF base] query_panic_covers)
  qed
  moreover have "panics_only P (eval_histogram_call E vals)" if "func = ''histogram_quantile''"
  proof -
    have "query_panic E \<le> P" using cov that by (simp add: sorting_functions_def)
    then show ?thesis
      unfolding eval_histogram_call_def using nth [of 2] by (simp add: panics_only_and_then panics_only_histogram)
  qed
  moreover have "panics_only P (case vals of [] \<Rightarrow> fail e | v # _ \<Rightarrow> and_then v (apply_one_arg E func args b))" for e
    using vals by (cases vals) (auto intro!: panics_only_and_then panics_only_one_arg [OF cov])
  ultimately show ?thesis
    unfolding eval_call_def
    by (simp add: panics_only_range_function [OF base] panics_only_clamp_call [OF vals])
qed

lemma panics_only_expr:
  assumes base: "metric_base R s" and cov: "sorts_values e \<Longrightarrow> query_panic E \<le> P"
  shows "panics_only P (eval_expr E e s a b step is_instant)"
  using cov
proof (induction e)
  case (PromCall func args)
  then show ?case
    by (simp add: list_ex_iff, intro panics_only_call [OF base]) auto
next
  case (Aggregate op e param modifier)
  then show ?case
    by (cases param) (auto intro!: panics_only_and_then panics_only_aggregation)
qed (auto intro!: panics_only_and_then panics_only_vector_selector [OF base] panics_only_matrix_selector [OF base])

lemma promql_panics:
  assumes "metric_base R s" and "(\<exists>e. pv_parse E query = Inr e \<and> sorts_values e) \<Longrightarrow> query_panic E \<le> P"
  shows "panics_only P (evaluate_range E query s a b step)" "panics_only P (evaluate_instant E query s b)"
  using assms(2) by (auto simp: evaluate_range_def evaluate_instant_def intro: panics_only_expr [OF assms(1)] split: sum.split)

text \<open>What a panicking query did.\<close>

definition sorting_query_panic :: "('i, 'r) prom_env \<Rightarrow> string \<Rightarrow> panic \<Rightarrow> bool" where
  "sorting_query_panic E query p \<longleftrightarrow>
     (\<exists>e. pv_parse E query = Inr e \<and> sorts_values e) \<and> (huge_index p \<or> sort_panic E p)"

lemma promql_sorting_panics:
  assumes "metric_base R s"
  shows "panics_only (sorting_query_panic E query) (evaluate_range E query s a b step)"
    "panics_only (sorting_query_panic E query) (evaluate_instant E query s b)"
  by (rule promql_panics [OF assms]; auto simp: sorting_query_panic_def query_panic_def le_fun_def)+

text \<open>A vector with a NaN as the last sample of a series, given to \<open>sort\<close>, panics wherever the sort does.\<close>

lemma sort_of_nan_panics:
  assumes "eval_expr E e s a b step is_instant = ok (InstantVector series)" and "2 \<le> length series"
    and "list_ex (is_nan \<circ> last_sample) series" and "pv_sort_series E series = Inl p"
  shows "eval_expr E (PromCall ''sort'' [e]) s a b step is_instant = Inl p"
proof -
  have "partial_sort (pv_sort_series E) last_sample False series = Inl p"
    using assms(2,3,4) by (auto simp: partial_sort_def list_all_iff list_ex_iff)
  then show ?thesis
    using assms(1) by (simp add: eval_call_def range_functions_def rate_functions_def over_time_functions_def
        one_arg_functions_def apply_one_arg_def sort_vector_def lift_panic_def)
qed

section \<open>Properties\<close>

text \<open>
  C7: Over a store that satisfies the invariant an instant or a range query that uses none of \<open>sort\<close>,
  \<open>sort_desc\<close>, \<open>topk\<close>, \<open>bottomk\<close>, \<open>quantile\<close>, \<open>quantile_over_time\<close> and \<open>histogram_quantile\<close> never
  panics, whatever the times, the step and the offsets. A query that uses one of them panics only
  where the standard library's sort does on two or more elements one of whose keys is a NaN, or at an
  index into more than \<open>2 ^ 53\<close> values.
\<close>

theorem promql_panics_only_sorting:
  assumes "metric_base (pv_rodeo E) s"
  shows "(case evaluate_range E query s a b step of
      Inl p \<Rightarrow> (\<exists>e. pv_parse E query = Inr e \<and> sorts_values e) \<and> (huge_index p \<or> sort_panic E p) | Inr _ \<Rightarrow> True) \<and>
    (case evaluate_instant E query s b of
      Inl p \<Rightarrow> (\<exists>e. pv_parse E query = Inr e \<and> sorts_values e) \<and> (huge_index p \<or> sort_panic E p) | Inr _ \<Rightarrow> True)"
  using promql_sorting_panics(1) [OF assms, of E query a b step] promql_sorting_panics(2) [OF assms, of E query b]
  unfolding panics_only_def sorting_query_panic_def by (rule conjI)

theorem promql_panics_only_sorting_witness:
  "\<exists>r. evaluate_range sample_prom ''up'' sample_metrics i64_min i64_max (-7) = Inr r"
  using promql_panics_only_sorting [of sample_prom sample_metrics "''up''" i64_min i64_max "-7"] sample_metrics_base
  by (cases "evaluate_range sample_prom ''up'' sample_metrics i64_min i64_max (-7)") (auto simp: sample_prom_def)

text \<open>
  C29: An aggregation without a parameter has one result per group, in ascending order of the group's
  labels, and per time at which a member has a sample the operator applied to the members' values
  there, of which there is at least one; every series belongs to exactly one group.
\<close>

theorem aggregation_groups:
  fixes modifier :: "label_modifier option" and series :: "series_result list"
  assumes "op \<in> set simple_aggregations"
  defines "key \<equiv> \<lambda>sr. compute_group_labels (se_labels sr) modifier"
  shows "eval_aggregation E op modifier (InstantVector series) param = ok (InstantVector (map (\<lambda>labels.
      \<lparr>se_labels = labels,
       se_samples = map (\<lambda>t. (t, aggregate_values op (values_at (group_members modifier labels series) t)))
                      (times_of (group_members modifier labels series))\<rparr>)
      (sorted_list_of_set (key ` set series)))) \<and>
    (\<Sum>labels \<leftarrow> sorted_list_of_set (key ` set series). mset (group_members modifier labels series)) = mset series \<and>
    (\<forall>members. \<forall>t \<in> set (times_of members). values_at members t \<noteq> [])"
proof -
  have "op \<noteq> ''topk''" "op \<noteq> ''bottomk''" "op \<noteq> ''count_values''" "op \<noteq> ''quantile''"
    using assms(1) by (auto simp: simple_aggregations_def)
  then have "eval_aggregation E op modifier (InstantVector series) param =
      ok (InstantVector (map (\<lambda>(labels, members). \<lparr>se_labels = labels, se_samples = aggregate_group op members\<rparr>)
        (group_series modifier series)))"
    using assms(1) by (simp add: eval_aggregation_def eval_aggregation_series_def)
  moreover have "(\<Sum>labels \<leftarrow> sorted_list_of_set (key ` set series). mset (group_members modifier labels series)) = mset series"
    using mset_groups [of key series] unfolding btree_group_eq key_def group_members_def by (simp add: comp_def)
  ultimately show ?thesis
    using values_at_nonempty by (simp add: group_series_eq aggregate_group_eq key_def comp_def)
qed

theorem aggregation_groups_witness:
  "eval_aggregation sample_prom ''count'' None (InstantVector [\<lparr>se_labels = [(''a'', ''1'')], se_samples = [(5, 0)]\<rparr>,
      \<lparr>se_labels = [(''a'', ''2'')], se_samples = [(5, 0), (7, 0)]\<rparr>]) None =
    ok (InstantVector [\<lparr>se_labels = [], se_samples = [(5, f64_of_nat 2), (7, f64_of_nat 1)]\<rparr>])"
proof -
  let ?series = "[\<lparr>se_labels = [(''a'', ''1'')], se_samples = [(5, 0)]\<rparr>, \<lparr>se_labels = [(''a'', ''2'')], se_samples = [(5, 0), (7, 0 :: f64)]\<rparr>]"
  have "times_of ?series = [5, 7]" by (simp add: times_of_def insert_Diff_if)
  moreover have "group_members None [] ?series = ?series" by (simp add: group_members_def compute_group_labels_def)
  moreover have "values_at ?series 5 = [0, 0]" "values_at ?series 7 = [0]"
    by (simp_all add: values_at_def sample_lookup_def List.map_filter_simps)
  ultimately show ?thesis
    using aggregation_groups [of "''count''" sample_prom None ?series None]
    by (simp add: simple_aggregations_def compute_group_labels_def aggregate_values_def numeral_2_eq_2)
qed

text \<open>
  C28: Matching two vectors through the hash index of the right side gives what comparing every left
  series with every right series gives; \<open>group_left\<close> fails exactly if some left series has
  several partners.
\<close>

theorem vector_matching_nested_loops:
  "eval_vector_vector E op lhs rhs mode PlainJoin return_bool =
      Inr (InstantVector (nested_join (joined_pair E (\<lambda>ls rs. labels_without_metric_name (se_labels ls)) op return_bool) mode lhs rhs)) \<and>
    eval_vector_vector E op lhs rhs mode (GroupRight names) return_bool =
      Inr (InstantVector (nested_join
        (joined_pair E (\<lambda>ls rs. carry_labels names (se_labels ls) (labels_without_metric_name (se_labels rs))) op return_bool) mode lhs rhs)) \<and>
    (if \<exists>ls \<in> set lhs. 1 < length (partners mode rhs ls)
     then \<exists>m. eval_vector_vector E op lhs rhs mode (GroupLeft names) return_bool = Inl (PromEval m)
     else eval_vector_vector E op lhs rhs mode (GroupLeft names) return_bool =
      Inr (InstantVector (nested_join
        (joined_pair E (\<lambda>ls rs. carry_labels names (se_labels rs) (labels_without_metric_name (se_labels ls))) op return_bool) mode lhs rhs)))"
proof (intro conjI)
  show "eval_vector_vector E op lhs rhs mode PlainJoin return_bool =
      Inr (InstantVector (nested_join (joined_pair E (\<lambda>ls rs. labels_without_metric_name (se_labels ls)) op return_bool) mode lhs rhs))"
    unfolding eval_vector_vector_def joined_pair_def
    by (subst join_series_total) (auto simp: plain_join_def comp_def)
  show "eval_vector_vector E op lhs rhs mode (GroupRight names) return_bool =
      Inr (InstantVector (nested_join
        (joined_pair E (\<lambda>ls rs. carry_labels names (se_labels ls) (labels_without_metric_name (se_labels rs))) op return_bool) mode lhs rhs))"
    unfolding eval_vector_vector_def joined_pair_def
    by (subst join_series_total) (auto simp: group_right_join_def comp_def)
  show "if \<exists>ls \<in> set lhs. 1 < length (partners mode rhs ls)
     then \<exists>m. eval_vector_vector E op lhs rhs mode (GroupLeft names) return_bool = Inl (PromEval m)
     else eval_vector_vector E op lhs rhs mode (GroupLeft names) return_bool =
      Inr (InstantVector (nested_join
        (joined_pair E (\<lambda>ls rs. carry_labels names (se_labels rs) (labels_without_metric_name (se_labels ls))) op return_bool) mode lhs rhs))"
  proof (cases "\<exists>ls \<in> set lhs. 1 < length (partners mode rhs ls)")
    case True
    then obtain ls where ls: "ls \<in> set lhs" "1 < length (partners mode rhs ls)" by blast
    have "\<exists>m. join_series (\<lambda>key ls. group_left_join E op return_bool names key ls) mode (rhs_by_key mode rhs) lhs = Inl (PromEval m)"
      by (rule join_series_fails [OF ls(1) _ ls(2)]) (auto simp: group_left_join_def Let_def split: prod.split)
    then show ?thesis using True by (auto simp: eval_vector_vector_def)
  next
    case False
    have "group_left_join E op return_bool names key ls (map (\<lambda>rs. (rs, sample_lookup (se_samples rs))) (partners mode rhs ls)) =
        Inr (concat (map (joined_pair E (\<lambda>ls rs. carry_labels names (se_labels rs) (labels_without_metric_name (se_labels ls))) op return_bool ls)
          (partners mode rhs ls)))" if "ls \<in> set lhs" "partners mode rhs ls \<noteq> []" for key ls
    proof -
      from that False obtain rs where "partners mode rhs ls = [rs]"
        by (cases "partners mode rhs ls" rule: remdups_adj.cases) auto
      then show ?thesis by (simp add: group_left_join_def joined_pair_def Let_def)
    qed
    then have "join_series (\<lambda>key ls. group_left_join E op return_bool names key ls) mode (rhs_by_key mode rhs) lhs =
        Inr (nested_join (joined_pair E (\<lambda>ls rs. carry_labels names (se_labels rs) (labels_without_metric_name (se_labels ls))) op return_bool)
          mode lhs rhs)"
      by (intro join_series_total)
    then show ?thesis using False by (simp add: eval_vector_vector_def)
  qed
qed

text \<open>
  C30: The set operators of two vectors: \<open>and\<close> and \<open>unless\<close> split the left series, \<open>and\<close> keeping those
  with a partner; \<open>or\<close> is the left vector followed by the right one \<open>unless\<close> the left one.
\<close>

theorem set_operators_partition:
  shows "\<exists>both only extra.
    eval_binary_result E ''and'' modifier (InstantVector lhs) (InstantVector rhs) = Inr (InstantVector both) \<and>
    eval_binary_result E ''unless'' modifier (InstantVector lhs) (InstantVector rhs) = Inr (InstantVector only) \<and>
    eval_binary_result E ''unless'' modifier (InstantVector rhs) (InstantVector lhs) = Inr (InstantVector extra) \<and>
    eval_binary_result E ''or'' modifier (InstantVector lhs) (InstantVector rhs) =
      Inr (InstantVector (map without_name lhs @ extra)) \<and>
    mset both + mset only = mset (map without_name lhs) \<and>
    both = map without_name (filter (\<lambda>ls. partners
      (match_mode_of (bm_matching (case modifier of None \<Rightarrow> bin_modifier_default | Some m \<Rightarrow> m))) rhs ls \<noteq> []) lhs)"
proof -
  define mode where "mode = match_mode_of (bm_matching (case modifier of None \<Rightarrow> bin_modifier_default | Some m \<Rightarrow> m))"
  have "match_key mode (se_labels ls) \<in> set (match_keys mode rhs) \<longleftrightarrow> partners mode rhs ls \<noteq> []" for ls rhs
    unfolding match_keys_def partners_def filter_empty_conv set_map image_iff by metis
  moreover have "image_mset without_name (filter_mset P m) + image_mset without_name (filter_mset (\<lambda>x. \<not> P x) m) =
      image_mset without_name m" for P and m :: "series_result multiset"
    by (simp flip: image_mset_union)
  note this [of "\<lambda>ls. partners mode rhs ls \<noteq> []" "mset lhs"]
  ultimately show ?thesis
    unfolding eval_binary_result_def eval_set_op_def Let_def mode_def [symmetric]
    by (simp add: is_set_op_def)
qed

text \<open>Ranking ignores the grouping an aggregation asks for.\<close>

lemma topk_ignores_grouping:
  "eval_aggregation E ''topk'' modifier (InstantVector series) param =
   eval_aggregation E ''topk'' None (InstantVector series) param"
  by (simp add: eval_aggregation_def eval_aggregation_series_def)

end
