(* ===== verification/Promql_Handlers_Correct.thy ===== *)
theory Promql_Handlers_Correct
  imports Promql_Handlers Promql_Eval_Correct
begin

text \<open>
  The PromQL endpoints: what the limit on the number of steps bounds, when a request panics, and two
  ways in which the series listing departs from the queries.
\<close>

section \<open>The limit on steps\<close>

lemma num_steps_iff:
  assumes "0 < step"
  shows "max_query_steps \<le> query_num_steps a b step \<longleftrightarrow> max_query_steps * step \<le> min (b - a) i64_max"
proof -
  have sat: "max (i64_saturating_sub b a) 0 = max (min (b - a) i64_max) 0"
    by (auto simp: i64_saturating_sub_def i64_saturate_def i64_max_def i64_min_def max_def)
  have "max_query_steps \<le> query_num_steps a b step \<longleftrightarrow> max_query_steps * step \<le> max (min (b - a) i64_max) 0"
    unfolding query_num_steps_def sat by (rule le_zdiv_iff [OF assms])
  also have "\<dots> \<longleftrightarrow> max_query_steps * step \<le> min (b - a) i64_max"
    using assms by (auto simp: max_query_steps_def max_def)
  finally show ?thesis .
qed

text \<open>The difference saturates, so a span of more than \<open>i64::MAX\<close> milliseconds may have twice the steps.\<close>

definition step_bound :: "i64 \<Rightarrow> i64 \<Rightarrow> nat" where
  "step_bound a b = (if b - a \<le> i64_max then 11000 else 22000)"

lemma guarded_grid:
  assumes "0 < step" and "min (b - a) i64_max < max_query_steps * step" and "in_i64 a" and "in_i64 b"
  shows "length (time_grid a b step) \<le> step_bound a b"
proof -
  have "b - a < int (step_bound a b) * step"
    using assms by (auto simp: step_bound_def max_query_steps_def in_i64_def i64_max_def i64_min_def min_def split: if_splits)
  then show ?thesis using time_grid_length [of step b a "int (step_bound a b)"] assms(1) by (simp add: step_bound_def)
qed

lemma length_grid_samples: "length (grid_samples f grid) \<le> length grid"
  by (simp add: grid_samples_def List.map_filter_def)

section \<open>Panics of the endpoints\<close>

lemma respond_panic: "respond f r = Inl p \<longleftrightarrow> r = Inl p"
  by (cases r) (simp_all add: respond_def)

lemma step_param_panic: "step_param v = Inl p \<Longrightarrow> \<exists>t. v = Some t \<and> parse_duration t = Inl p"
  by (cases v) (auto simp: step_param_def map_sum_def split: sum.splits)

lemma range_endpoint_panic:
  assumes "metric_base (pv_rodeo E) s" and "query_range_inner E clock s params = Inl p"
  shows "huge_index p \<or> sort_panic E p \<or> (\<exists>t. rq_step params = Some t \<and> parse_duration t = Inl p)"
proof -
  have "huge_index p \<or> sort_panic E p" if "run_range_query E s q a b step = Inl p" for q a b step
    using that promql_sorting_panics(1) [OF assms(1), of E q a b step]
    by (auto simp: run_range_query_def respond_panic panics_only_def sorting_query_panic_def split: if_splits)
  then show ?thesis
    using assms(2) by (auto simp: query_range_inner_def dest: step_param_panic split: sum.splits)
qed

lemma collect_streams_panics:
  "(\<exists>p. collect_streams f xs = Inl p) \<longleftrightarrow> (\<exists>x \<in> set xs. \<exists>p. f x = Inl p)"
  by (induction xs) (auto split: sum.split)

lemma series_entry_panics:
  assumes "metric_base (pv_rodeo E) s" and "hm_get (mt_series s) sid = Some se"
  shows "(\<exists>p. series_entry E s (Some a) (Some b) sid = Inl p) \<longleftrightarrow>
    (\<exists>q \<in> set (ms_samples se). b < sm_timestamp_ms q \<and> sm_timestamp_ms q < a)"
  unfolding series_entry_def has_samples_in_range_def
  by (simp add: get_samples_spec [OF assms])

section \<open>Properties\<close>

text \<open>
  C33: A range query is refused if its step is not positive or its span, taken as \<open>i64::MAX\<close> where it is
  more, has eleven thousand steps or more. Otherwise it is evaluated, at no more than eleven thousand
  times, or twenty-two thousand where start and end are more than \<open>i64::MAX\<close> milliseconds apart, and no
  series of a selector has more samples. The endpoint panics only where parsing the step does, where a
  sort meets a NaN and panics, or at an index into more than \<open>2 ^ 53\<close> values.
\<close>

theorem range_query_guards:
  assumes "metric_base (pv_rodeo E) s" and "in_i64 a" and "in_i64 b"
  shows "(if step \<le> 0 \<or> 11000 * step \<le> min (b - a) i64_max
     then \<exists>m. run_range_query E s q a b step = Inr (bad_data m)
     else run_range_query E s q a b step =
         respond (\<lambda>r. format_range_result (pv_fmt E) r b) (evaluate_range E q s a b step) \<and>
       length (time_grid a b step) \<le> (if b - a \<le> i64_max then 11000 else 22000) \<and>
       (\<forall>vs rs. eval_vector_selector E vs s a b step False = ok (InstantVector rs) \<longrightarrow>
         (\<forall>sr \<in> set rs. length (se_samples sr) \<le> (if b - a \<le> i64_max then 11000 else 22000)))) \<and>
    (\<forall>p. query_range_inner E clock s params = Inl p \<longrightarrow>
       huge_index p \<or> sort_panic E p \<or> (\<exists>t. rq_step params = Some t \<and> parse_duration t = Inl p))"
proof (rule conjI)
  show "\<forall>p. query_range_inner E clock s params = Inl p \<longrightarrow>
       huge_index p \<or> sort_panic E p \<or> (\<exists>t. rq_step params = Some t \<and> parse_duration t = Inl p)"
    using range_endpoint_panic [OF assms(1)] by blast
  show "if step \<le> 0 \<or> 11000 * step \<le> min (b - a) i64_max
     then \<exists>m. run_range_query E s q a b step = Inr (bad_data m)
     else run_range_query E s q a b step =
         respond (\<lambda>r. format_range_result (pv_fmt E) r b) (evaluate_range E q s a b step) \<and>
       length (time_grid a b step) \<le> (if b - a \<le> i64_max then 11000 else 22000) \<and>
       (\<forall>vs rs. eval_vector_selector E vs s a b step False = ok (InstantVector rs) \<longrightarrow>
         (\<forall>sr \<in> set rs. length (se_samples sr) \<le> (if b - a \<le> i64_max then 11000 else 22000)))"
  proof (cases "step \<le> 0 \<or> 11000 * step \<le> min (b - a) i64_max")
    case True
    then show ?thesis using num_steps_iff [of step a b]
      by (auto simp: run_range_query_def max_query_steps_def simp del: min.bounded_iff)
  next
    case False
    then have step: "0 < step" "\<not> max_query_steps \<le> query_num_steps a b step"
      using num_steps_iff [of step a b] by (auto simp: max_query_steps_def simp del: min.bounded_iff)
    have grid: "length (time_grid a b step) \<le> step_bound a b"
      using guarded_grid [OF step(1) _ assms(2,3)] False by (simp add: max_query_steps_def not_le del: min.bounded_iff)
    have last: "b \<le> i64_max" using assms(3) by (simp add: in_i64_def)
    have "length (se_samples sr) \<le> step_bound a b"
      if "eval_vector_selector E vs s a b step False = ok (InstantVector rs)" "sr \<in> set rs" for vs rs sr
      using that order_trans [OF length_grid_samples grid] step(1)
      unfolding range_vector_selector [OF assms(1) less_imp_neq [OF step(1), symmetric] last]
      by (auto simp: sample_list_simps)
    moreover have "run_range_query E s q a b step =
        respond (\<lambda>r. format_range_result (pv_fmt E) r b) (evaluate_range E q s a b step)"
      using step by (simp add: run_range_query_def)
    ultimately show ?thesis using grid unfolding if_not_P [OF False] step_bound_def by blast
  qed
qed

theorem range_query_guards_witness:
  "(\<exists>m. run_range_query sample_prom sample_metrics ''up'' 0 11000000 1000 = Inr (bad_data m)) \<and>
   length (time_grid 0 10999999 1000) \<le> 11000"
  using range_query_guards [of sample_prom sample_metrics 0 11000000 1000 "''up''" 0 undefined]
    range_query_guards [of sample_prom sample_metrics 0 10999999 1000 "''up''" 0 undefined] sample_metrics_base
  by (simp add: i64_max_def i64_min_def in_i64_def)

text \<open>The bound of twenty-two thousand is reached.\<close>

lemma step_limit_saturates:
  "query_num_steps i64_min i64_max 838488366986798 < max_query_steps \<and>
   length (time_grid i64_min i64_max 838488366986798) = 22000"
proof -
  have "(i64_max - i64_min) div 838488366986798 = 21999" by (simp add: i64_max_def i64_min_def)
  then have "length (time_grid i64_min i64_max 838488366986798) = Suc (nat 21999)"
    unfolding time_grid_def by (simp add: i64_max_def i64_min_def del: upt_Suc)
  then show ?thesis
    by (simp add: query_num_steps_def max_query_steps_def i64_saturating_sub_def i64_saturate_def i64_max_def i64_min_def)
qed

text \<open>
  Listing the series with a start and an end panics exactly if some stored series has a sample
  strictly between the end and the start, that is, for an inverted window.
\<close>

lemma series_window_panics:
  assumes "metric_base (pv_rodeo E) s" and "sp_matchers params = []"
    and "optional_time ''start'' (sp_start params) = Inr (Some a)"
    and "optional_time ''end'' (sp_end params) = Inr (Some b)"
  shows "(\<exists>p. prom_series E s params = Inl p) \<longleftrightarrow>
    (\<exists>sid se. hm_get (mt_series s) sid = Some se \<and>
      (\<exists>q \<in> set (ms_samples se). b < sm_timestamp_ms q \<and> sm_timestamp_ms q < a))"
proof -
  have "(\<exists>p. prom_series E s params = Inl p) \<longleftrightarrow>
      (\<exists>p. collect_streams (series_entry E s (Some a) (Some b)) (hm_keys (mt_series s)) = Inl p)"
    using assms(2,3,4) by (auto simp: prom_series_def series_response_def map_sum_def split: sum.splits)
  also have "\<dots> \<longleftrightarrow> (\<exists>sid \<in> set (hm_keys (mt_series s)). \<exists>p. series_entry E s (Some a) (Some b) sid = Inl p)"
    by (rule collect_streams_panics)
  also have "\<dots> \<longleftrightarrow> (\<exists>sid se. hm_get (mt_series s) sid = Some se \<and>
      (\<exists>q \<in> set (ms_samples se). b < sm_timestamp_ms q \<and> sm_timestamp_ms q < a))"
    using series_entry_panics [OF assms(1)] by (simp only: Bex_def hm_key_iff) (metis option.exhaust option.distinct(1))
  finally show ?thesis .
qed

lemma series_window_panics_witness:
  "\<exists>p. prom_series sample_prom sample_metrics \<lparr>sp_matchers = [], sp_start = Some ''1'', sp_end = Some ''0''\<rparr> = Inl p"
proof -
  have "parse_i64 ''1'' = Some 1" "parse_i64 ''0'' = Some 0"
    by (simp_all add: parse_i64_def parse_digits_def is_ascii_digit_def digits_value_def digit_val_def
        in_i64_def i64_max_def i64_min_def)
  then have "optional_time ''start'' (Some ''1'') = Inr (Some 1000)" "optional_time ''end'' (Some ''0'') = Inr (Some 0)"
    by (simp_all add: optional_time_def time_param_def parse_timestamp_ms_def classify_to_ms_def
        i64_saturating_mul_def i64_saturate_def i64_max_def i64_min_def)
  then show ?thesis
    using series_window_panics [of sample_prom sample_metrics "\<lparr>sp_matchers = [], sp_start = Some ''1'', sp_end = Some ''0''\<rparr>" 1000 0]
      sample_metrics_base by (simp add: sample_metrics_series(1) point_def)
qed

text \<open>A selector of the listing selects by its matchers only; its metric name is ignored.\<close>

lemma series_ignores_metric_name:
  assumes "pv_parse E m = Inr (VectorSelector vs)" and "pv_parse E m' = Inr (VectorSelector (vs\<lparr>vs_name := None\<rparr>))"
  shows "prom_series E s \<lparr>sp_matchers = [m], sp_start = a, sp_end = b\<rparr> =
    prom_series E s \<lparr>sp_matchers = [m'], sp_start = a, sp_end = b\<rparr>"
  using assms by (auto simp: prom_series_def split: sum.split)

end
