(* ===== verification/App_State.thy ===== *)
theory App_State
  imports Log_Store Metric_Store Trace_Store Config Threading
begin

text \<open>
  \<open>AppState\<close> of \<open>src/store/mod.rs\<close>: the three stores, the configuration and the counter of
  ingest sequence numbers. Each store sits behind its own lock; an operation that takes a write
  lock is one atomic step on that store. The start time of the process is left out.
\<close>

record 'i app_state =
  ap_log :: "'i log_store"
  ap_metric :: "'i metric_store"
  ap_trace :: "'i trace_store"
  ap_config :: config
  ap_seq :: u64

text \<open>\<open>DELETE /api/v1/reset\<close>: one service, or everything; the counter goes on.\<close>

definition reset :: "'i rodeo_ops \<Rightarrow> string option \<Rightarrow> 'i app_state \<Rightarrow> 'i app_state" where
  "reset R service a =
     (case service of
        Some name \<Rightarrow>
          a\<lparr>ap_log := log_clear_service R name (ap_log a),
            ap_metric := metric_clear_service R name (ap_metric a),
            ap_trace := trace_clear_service R name (ap_trace a)\<rparr>
      | None \<Rightarrow>
          a\<lparr>ap_log := log_clear R (ap_log a), ap_metric := metric_clear R (ap_metric a),
            ap_trace := trace_clear R (ap_trace a)\<rparr>)"

end
