(* ===== verification/Trace_Ingest.thy ===== *)
theory Trace_Ingest
  imports App_State Ingest_Common
begin

text \<open>
  \<open>src/ingest/otlp_traces.rs\<close>: an export request becomes prepared spans outside the lock, which
  are interned and stored under it. The protobuf and JSON decoders are parameters; the records
  below are the fields of the OTLP messages that the source reads.
\<close>

section \<open>The request\<close>

record otlp_event =
  oe_time_unix_nano :: u64
  oe_name :: string
  oe_attributes :: "key_value list"

record otlp_link =
  ol_trace_id :: "u8 list"
  ol_span_id :: "u8 list"
  ol_trace_state :: string
  ol_attributes :: "key_value list"
  ol_flags :: nat

record otlp_status =
  ot_message :: string
  ot_code :: int

record otlp_span =
  os_trace_id :: "u8 list"
  os_span_id :: "u8 list"
  os_parent_span_id :: "u8 list"
  os_name :: string
  os_kind :: int
  os_start_time_unix_nano :: u64
  os_end_time_unix_nano :: u64
  os_attributes :: "key_value list"
  os_events :: "otlp_event list"
  os_links :: "otlp_link list"
  os_status :: "otlp_status option"

record otlp_scope =
  oc_name :: string
  oc_version :: string
  oc_attributes :: "key_value list"

record scope_spans =
  ss_scope :: "otlp_scope option"
  ss_spans :: "otlp_span list"

record resource_spans =
  rs_resource :: "resource option"
  rs_scope_spans :: "scope_spans list"

section \<open>Prepared spans\<close>

datatype prepared_value =
    PString string
  | PInt i64
  | PFloat f64
  | PBool bool
  | PArray "prepared_value list"
  | PBytes "u8 list"
  | PKeyValueList "(string \<times> prepared_value) list"

type_synonym prepared_attrs = "(string \<times> prepared_value) list"

record prepared_event =
  pe_name :: string
  pe_time_ns :: i64
  pe_attributes :: prepared_attrs

record prepared_link =
  pk_trace_id :: trace_id
  pk_span_id :: span_id
  pk_trace_state :: "string option"
  pk_attributes :: prepared_attrs
  pk_flags :: nat

record prepared_span =
  ps_trace_id :: trace_id
  ps_span_id :: span_id
  ps_parent :: "span_id option"
  ps_name :: string
  ps_service :: string
  ps_start_ns :: i64
  ps_duration_ns :: i64
  ps_status :: span_status
  ps_status_message :: "string option"
  ps_kind :: span_kind
  ps_attributes :: prepared_attrs
  ps_events :: "prepared_event list"
  ps_links :: "prepared_link list"
  ps_ingest_seq :: u64

record traces_accepted =
  ta_traces :: usize
  ta_spans :: usize

section \<open>Preparation\<close>

fun convert_any_value :: "any_value \<Rightarrow> prepared_value option" where
  "convert_any_value (StringValue s) = Some (PString s)"
| "convert_any_value (IntValue i) = Some (PInt i)"
| "convert_any_value (DoubleValue f) = Some (PFloat f)"
| "convert_any_value (BoolValue b) = Some (PBool b)"
| "convert_any_value (BytesValue b) = Some (PBytes b)"
| "convert_any_value (ArrayValue vs) = Some (PArray (List.map_filter convert_any_value vs))"
| "convert_any_value (KvlistValue kvs) =
     Some (PKeyValueList (List.map_filter
       (\<lambda>(k, v). case v of None \<Rightarrow> None | Some v \<Rightarrow> map_option (Pair k) (convert_any_value v)) kvs))"
| "convert_any_value NoValue = None"

text \<open>The pairs whose value converts, under a namespace.\<close>

definition convert_attrs :: "string \<Rightarrow> key_value list \<Rightarrow> prepared_attrs" where
  "convert_attrs prefix attrs =
     List.map_filter
       (\<lambda>(k, v). map_option (Pair (prefix @ k)) (Option.bind v convert_any_value)) attrs"

definition prepare_scope_attrs :: "otlp_scope option \<Rightarrow> prepared_attrs" where
  "prepare_scope_attrs scope =
     (case scope of
        None \<Rightarrow> []
      | Some s \<Rightarrow>
          (if oc_name s = [] then [] else [(''scope.name'', PString (oc_name s))]) @
          (if oc_version s = [] then [] else [(''scope.version'', PString (oc_version s))]) @
          convert_attrs ''scope.'' (oc_attributes s))"

text \<open>\<open>try_into\<close> an array of fixed length, refusing the all-zero id.\<close>

definition valid_id :: "nat \<Rightarrow> u8 list \<Rightarrow> bool" where
  "valid_id n b \<longleftrightarrow> length b = n \<and> b \<noteq> replicate n 0"

definition prepare_parent :: "u8 list \<Rightarrow> span_id option" where
  "prepare_parent b =
     (if b = [] \<or> (\<forall>x \<in> set b. x = 0) then None else if length b = 8 then Some b else None)"

definition prepare_status :: "otlp_status option \<Rightarrow> span_status" where
  "prepare_status st =
     (case st of
        None \<Rightarrow> Unset
      | Some s \<Rightarrow> if ot_code s = 0 then Unset else if ot_code s = 1 then Ok
                  else if ot_code s = 2 then Error else Unset)"

definition prepare_status_message :: "otlp_status option \<Rightarrow> string option" where
  "prepare_status_message st =
     (case st of None \<Rightarrow> None | Some s \<Rightarrow> if ot_message s = [] then None else Some (ot_message s))"

definition prepare_event :: "otlp_event \<Rightarrow> prepared_event" where
  "prepare_event e =
     \<lparr>pe_name = oe_name e, pe_time_ns = u64_to_i64_saturating (oe_time_unix_nano e),
      pe_attributes = convert_attrs [] (oe_attributes e)\<rparr>"

definition prepare_link :: "otlp_link \<Rightarrow> prepared_link option" where
  "prepare_link l =
     (if length (ol_trace_id l) \<noteq> 16 \<or> length (ol_span_id l) \<noteq> 8 then None
      else if ol_trace_id l = replicate 16 0 \<or> ol_span_id l = replicate 8 0 then None
      else Some \<lparr>pk_trace_id = ol_trace_id l, pk_span_id = ol_span_id l,
        pk_trace_state = (if ol_trace_state l = [] then None else Some (ol_trace_state l)),
        pk_attributes = convert_attrs [] (ol_attributes l), pk_flags = ol_flags l\<rparr>)"

text \<open>The prepared span of one with valid ids, and the body of the loop: a skipped span takes no
  sequence number.\<close>

definition span_of_otlp :: "string \<Rightarrow> otlp_span \<Rightarrow> u64 \<Rightarrow> prepared_span" where
  "span_of_otlp service s n =
     (let start_ns = u64_to_i64_saturating (os_start_time_unix_nano s);
          end_ns = u64_to_i64_saturating (os_end_time_unix_nano s)
      in \<lparr>ps_trace_id = os_trace_id s, ps_span_id = os_span_id s,
          ps_parent = prepare_parent (os_parent_span_id s), ps_name = os_name s,
          ps_service = service, ps_start_ns = start_ns,
          ps_duration_ns = i64_saturating_sub end_ns start_ns,
          ps_status = prepare_status (os_status s),
          ps_status_message = prepare_status_message (os_status s),
          ps_kind = span_kind_from_otlp (os_kind s),
          ps_attributes = convert_attrs ''span.'' (os_attributes s),
          ps_events = map prepare_event (os_events s),
          ps_links = List.map_filter prepare_link (os_links s), ps_ingest_seq = n\<rparr>)"

definition prepare_span :: "string \<Rightarrow> u64 \<Rightarrow> otlp_span \<Rightarrow> u64 \<times> prepared_span option" where
  "prepare_span service seq s =
     (if \<not> valid_id 16 (os_trace_id s) then (seq, None)
      else if \<not> valid_id 8 (os_span_id s) then (seq, None)
      else (let (seq', n) = fetch_add seq in (seq', Some (span_of_otlp service s n))))"

type_synonym scope_group = "prepared_attrs \<times> prepared_span list"

definition prepare_scope :: "string \<Rightarrow> u64 \<Rightarrow> scope_spans \<Rightarrow> u64 \<times> scope_group" where
  "prepare_scope service seq ss =
     (let (seq', spans) = thread_filter_map (prepare_span service) seq (ss_spans ss)
      in (seq', (prepare_scope_attrs (ss_scope ss), spans)))"

definition resource_service :: "(string \<times> string) list \<Rightarrow> string" where
  "resource_service labels =
     (case hm_get labels ''service.name'' of None \<Rightarrow> ''unknown'' | Some v \<Rightarrow> v)"

definition prepare_resource ::
  "(f64 \<Rightarrow> string) \<Rightarrow> u64 \<Rightarrow> resource_spans \<Rightarrow> u64 \<times> (prepared_attrs \<times> scope_group list)" where
  "prepare_resource fmt seq rs =
     (let labels = extract_resource_labels fmt (rs_resource rs);
          attrs = map (\<lambda>(k, v). (''resource.'' @ k, PString v)) labels;
          (seq', groups) = thread_map (prepare_scope (resource_service labels)) seq (rs_scope_spans rs)
      in (seq', (attrs, groups)))"

section \<open>Interning\<close>

fun intern_value ::
  "'i rodeo_ops \<Rightarrow> 'i \<Rightarrow> prepared_value \<Rightarrow> 'i \<times> attribute_value" where
  "intern_value R i (PString s) = (let (j, k) = rd_get_or_intern R i s in (j, AString k))"
| "intern_value R i (PInt n) = (i, AInt n)"
| "intern_value R i (PFloat f) = (i, AFloat f)"
| "intern_value R i (PBool b) = (i, ABool b)"
| "intern_value R i (PBytes b) = (i, ABytes b)"
| "intern_value R i (PArray items) =
     (let (j, vs) = thread_map (intern_value R) i items in (j, AArray vs))"
| "intern_value R i (PKeyValueList pairs) =
     (let (j, vs) = thread_map
            (\<lambda>i (k, v). let (i1, key) = rd_get_or_intern R i k; (i2, w) = intern_value R i1 v
                        in (i2, (key, w))) i pairs
      in (j, AKeyValueList vs))"

definition intern_attribute ::
  "'i rodeo_ops \<Rightarrow> 'i \<Rightarrow> string \<times> prepared_value \<Rightarrow> 'i \<times> (spur \<times> attribute_value)" where
  "intern_attribute R i p =
     (let (i1, key) = rd_get_or_intern R i (fst p); (i2, v) = intern_value R i1 (snd p)
      in (i2, (key, v)))"

definition intern_attrs :: "'i rodeo_ops \<Rightarrow> 'i \<Rightarrow> prepared_attrs \<Rightarrow> 'i \<times> attributes" where
  "intern_attrs R = thread_map (intern_attribute R)"

definition intern_opt :: "'i rodeo_ops \<Rightarrow> 'i \<Rightarrow> string option \<Rightarrow> 'i \<times> spur option" where
  "intern_opt R i s =
     (case s of None \<Rightarrow> (i, None) | Some t \<Rightarrow> (let (j, k) = rd_get_or_intern R i t in (j, Some k)))"

definition intern_event :: "'i rodeo_ops \<Rightarrow> 'i \<Rightarrow> prepared_event \<Rightarrow> 'i \<times> span_event" where
  "intern_event R i e =
     (let (i1, name) = rd_get_or_intern R i (pe_name e);
          (i2, attrs) = intern_attrs R i1 (pe_attributes e)
      in (i2, \<lparr>ev_name = name, ev_time_ns = pe_time_ns e, ev_attributes = attrs\<rparr>))"

definition intern_link :: "'i rodeo_ops \<Rightarrow> 'i \<Rightarrow> prepared_link \<Rightarrow> 'i \<times> span_link" where
  "intern_link R i l =
     (let (i1, state) = intern_opt R i (pk_trace_state l);
          (i2, attrs) = intern_attrs R i1 (pk_attributes l)
      in (i2, \<lparr>lk_trace_id = pk_trace_id l, lk_span_id = pk_span_id l, lk_trace_state = state,
               lk_attributes = attrs, lk_flags = pk_flags l\<rparr>))"

definition intern_prepared_span ::
  "'i rodeo_ops \<Rightarrow> attributes \<Rightarrow> attributes \<Rightarrow> 'i \<Rightarrow> prepared_span \<Rightarrow> 'i \<times> span" where
  "intern_prepared_span R resource_spurs scope_spurs i p =
     (let (i1, name) = rd_get_or_intern R i (ps_name p);
          (i2, service) = rd_get_or_intern R i1 (ps_service p);
          (i3, attrs) = intern_attrs R i2 (ps_attributes p);
          (i4, events) = thread_map (intern_event R) i3 (ps_events p);
          (i5, links) = thread_map (intern_link R) i4 (ps_links p);
          (i6, message) = intern_opt R i5 (ps_status_message p)
      in (i6, \<lparr>sp_trace_id = ps_trace_id p, sp_span_id = ps_span_id p, sp_parent = ps_parent p,
               sp_name = name, sp_service = service, sp_start_ns = ps_start_ns p,
               sp_duration_ns = ps_duration_ns p, sp_status = ps_status p,
               sp_status_message = message, sp_kind = ps_kind p,
               sp_attributes = resource_spurs @ scope_spurs @ attrs, sp_events = events,
               sp_links = links, sp_ingest_seq = ps_ingest_seq p\<rparr>))"

section \<open>Storing a request\<close>

definition store_scope_group ::
  "'i rodeo_ops \<Rightarrow> attributes \<Rightarrow> scope_group \<Rightarrow> 'i trace_store \<Rightarrow> 'i trace_store" where
  "store_scope_group R resource_spurs g s =
     (let (i1, scope_spurs) = intern_attrs R (ts_interner s) (fst g);
          (i2, spans) = thread_map (intern_prepared_span R resource_spurs scope_spurs) i1 (snd g)
      in ingest_spans spans (s\<lparr>ts_interner := i2\<rparr>))"

definition store_batch ::
  "'i rodeo_ops \<Rightarrow> prepared_attrs \<times> scope_group list \<Rightarrow> 'i trace_store \<Rightarrow> 'i trace_store" where
  "store_batch R b s =
     (let (i, resource_spurs) = intern_attrs R (ts_interner s) (fst b)
      in fold (store_scope_group R resource_spurs) (snd b) (s\<lparr>ts_interner := i\<rparr>))"

definition batch_spans :: "(prepared_attrs \<times> scope_group list) list \<Rightarrow> prepared_span list" where
  "batch_spans bs = concat (map (\<lambda>b. concat (map snd (snd b))) bs)"

definition ingest_traces ::
  "'i rodeo_ops \<Rightarrow> (f64 \<Rightarrow> string) \<Rightarrow> resource_spans list \<Rightarrow> 'i app_state \<Rightarrow>
     'i app_state \<times> traces_accepted" where
  "ingest_traces R fmt request a =
     (let (seq', batches) = thread_map (prepare_resource fmt) (ap_seq a) request;
          trace_ids = fold (\<lambda>p. hs_insert (ps_trace_id p)) (batch_spans batches) [];
          total_spans = sum_list (map (\<lambda>b. sum_list (map (\<lambda>g. length (snd g)) (snd b))) batches)
      in (a\<lparr>ap_seq := seq', ap_trace := fold (store_batch R) batches (ap_trace a)\<rparr>,
          \<lparr>ta_traces = length trace_ids, ta_spans = total_spans\<rparr>))"

section \<open>The handlers\<close>

text \<open>
  \<open>POST /v1/traces\<close> with the decoders as parameters, and the gRPC service, which is handed the
  decoded request. \<open>BadRequest\<close> stands for the status 400.
\<close>

datatype 'a http_reply = BadRequest | Accepted 'a

definition traces_handler ::
  "'i rodeo_ops \<Rightarrow> (f64 \<Rightarrow> string) \<Rightarrow> codec_ops \<Rightarrow> (u8 list \<Rightarrow> resource_spans list option) \<Rightarrow>
     (u8 list \<Rightarrow> resource_spans list option) \<Rightarrow> headers \<Rightarrow> u8 list \<Rightarrow> 'i app_state \<Rightarrow>
     'i app_state \<times> traces_accepted http_reply" where
  "traces_handler R fmt D json protobuf hs body a =
     (case decode_body D hs body of
        Inl e \<Rightarrow> (a, BadRequest)
      | Inr bytes \<Rightarrow>
          (case (if is_json_content_type hs then json bytes else protobuf bytes) of
             None \<Rightarrow> (a, BadRequest)
           | Some request \<Rightarrow>
               (let (a', accepted) = ingest_traces R fmt request a in (a', Accepted accepted))))"

definition traces_export ::
  "'i rodeo_ops \<Rightarrow> (f64 \<Rightarrow> string) \<Rightarrow> resource_spans list \<Rightarrow> 'i app_state \<Rightarrow> 'i app_state" where
  "traces_export R fmt request a = fst (ingest_traces R fmt request a)"

end
