(* ===== verification/Log_Ingest.thy ===== *)
theory Log_Ingest
  imports Trace_Ingest
begin

text \<open>
  \<open>src/ingest/otlp_logs.rs\<close> and \<open>src/ingest/loki.rs\<close>: two ways into the log store. An OTLP export
  is grouped by label set before the lock is taken; a Loki push comes grouped by stream. The
  wall clock, the JSON rendering of \<open>serde_json\<close> and the decoders are parameters.
\<close>

section \<open>OTLP log records\<close>

record otlp_log_record =
  or_time_unix_nano :: u64
  or_severity_number :: int
  or_severity_text :: string
  or_body :: "any_value option"
  or_attributes :: "key_value list"
  or_trace_id :: "u8 list"
  or_span_id :: "u8 list"

record resource_logs =
  rl_resource :: "resource option"
  rl_scope_logs :: "otlp_log_record list list"

datatype prepared_log_attr =
    PLString string
  | PLInt i64
  | PLFloat f64
  | PLBool bool

text \<open>A log entry whose attributes and severity text are still text.\<close>

type_synonym raw_attrs = "(string \<times> prepared_log_attr) list"
type_synonym raw_entry = "log_entry \<times> raw_attrs \<times> string option"
type_synonym log_batch = "(string \<times> string) list \<times> raw_entry list"

definition trace_id_bytes :: "u8 list \<Rightarrow> trace_id option" where
  "trace_id_bytes b = (if length b = 16 \<and> \<not> (\<forall>x \<in> set b. x = 0) then Some b else None)"

definition span_id_bytes :: "u8 list \<Rightarrow> span_id option" where
  "span_id_bytes b = (if length b = 8 \<and> \<not> (\<forall>x \<in> set b. x = 0) then Some b else None)"

text \<open>\<open>now\<close> is the time since the epoch in nanoseconds.\<close>

definition current_time_ns :: "nat \<Rightarrow> i64" where
  "current_time_ns now = (if i64_max < int now then i64_max else int now)"

definition severity_to_level :: "int \<Rightarrow> string" where
  "severity_to_level n =
     (if 1 \<le> n \<and> n \<le> 4 then ''trace'' else if 5 \<le> n \<and> n \<le> 8 then ''debug''
      else if 9 \<le> n \<and> n \<le> 12 then ''info'' else if 13 \<le> n \<and> n \<le> 16 then ''warn''
      else if 17 \<le> n \<and> n \<le> 20 then ''error'' else if 21 \<le> n \<and> n \<le> 24 then ''fatal''
      else ''unknown'')"

definition convert_log_value :: "any_value option \<Rightarrow> prepared_log_attr option" where
  "convert_log_value v = (case v of
     Some (StringValue s) \<Rightarrow> Some (PLString s) | Some (IntValue i) \<Rightarrow> Some (PLInt i)
   | Some (DoubleValue f) \<Rightarrow> Some (PLFloat f) | Some (BoolValue b) \<Rightarrow> Some (PLBool b) | _ \<Rightarrow> None)"

definition convert_log_attrs :: "key_value list \<Rightarrow> raw_attrs" where
  "convert_log_attrs attrs =
     List.map_filter (\<lambda>(k, v). map_option (Pair k) (convert_log_value v)) attrs"

text \<open>The text of a body; \<open>js\<close> is \<open>serde_json::to_string\<close>.\<close>

definition log_value_to_string ::
  "(f64 \<Rightarrow> string) \<Rightarrow> (any_value \<Rightarrow> string option) \<Rightarrow> any_value \<Rightarrow> string" where
  "log_value_to_string fmt js v = (case v of
     StringValue s \<Rightarrow> s | IntValue i \<Rightarrow> int_to_string i | DoubleValue f \<Rightarrow> fmt f
   | BoolValue b \<Rightarrow> bool_to_string b
   | BytesValue bs \<Rightarrow> ''<bytes len='' @ nat_to_string (length bs) @ ''>''
   | ArrayValue _ \<Rightarrow> (case js v of None \<Rightarrow> ''<array>'' | Some t \<Rightarrow> t)
   | KvlistValue _ \<Rightarrow> (case js v of None \<Rightarrow> ''<kvlist>'' | Some t \<Rightarrow> t)
   | NoValue \<Rightarrow> [])"

text \<open>What the log paths take from outside: float and JSON rendering and the clock, read for the
  record that takes a sequence number.\<close>

record log_ingest_env =
  li_fmt :: "f64 \<Rightarrow> string"
  li_json :: "any_value \<Rightarrow> string option"
  li_now :: "u64 \<Rightarrow> nat"

definition log_entry_of_otlp :: "log_ingest_env \<Rightarrow> otlp_log_record \<Rightarrow> u64 \<Rightarrow> raw_entry" where
  "log_entry_of_otlp L r n =
     (\<lparr>le_timestamp_ns = (if or_time_unix_nano r = 0 then current_time_ns (li_now L n)
                         else u64_to_i64_saturating (or_time_unix_nano r)),
       le_line = (case or_body r of None \<Rightarrow> [] | Some v \<Rightarrow> log_value_to_string (li_fmt L) (li_json L) v),
       le_ingest_seq = n, le_trace_id = trace_id_bytes (or_trace_id r),
       le_span_id = span_id_bytes (or_span_id r), le_severity_number = or_severity_number r,
       le_severity_text = None, le_attributes = []\<rparr>,
      convert_log_attrs (or_attributes r),
      (if or_severity_text r = [] then None else Some (or_severity_text r)))"

definition record_labels :: "(string \<times> string) list \<Rightarrow> otlp_log_record \<Rightarrow> (string \<times> string) list" where
  "record_labels resource_labels r =
     resource_labels @ [(''level'', severity_to_level (or_severity_number r))]"

text \<open>Finding or opening the batch of a label set; \<open>key_index\<close> maps label sets to positions.\<close>

type_synonym grouped_logs = "log_batch list \<times> ((string \<times> string) list, usize) hash_map"

definition group_record ::
  "(string \<times> string) list \<Rightarrow> raw_entry \<Rightarrow> grouped_logs \<Rightarrow> grouped_logs" where
  "group_record labels e g =
     (case g of (grouped, key_index) \<Rightarrow>
        (case hm_get key_index labels of
           Some idx \<Rightarrow>
             (grouped[idx := (fst (grouped ! idx), snd (grouped ! idx) @ [e])], key_index)
         | None \<Rightarrow> (grouped @ [(labels, [e])], hm_insert labels (length grouped) key_index)))"

definition prepare_log_record ::
  "log_ingest_env \<Rightarrow> (string \<times> string) list \<Rightarrow> otlp_log_record \<Rightarrow> u64 \<times> grouped_logs \<Rightarrow> u64 \<times> grouped_logs"
where
  "prepare_log_record L resource_labels r st =
     (let (seq', n) = fetch_add (fst st)
      in (seq', group_record (record_labels resource_labels r) (log_entry_of_otlp L r n) (snd st)))"

definition prepare_resource_logs ::
  "log_ingest_env \<Rightarrow> resource_logs \<Rightarrow> u64 \<times> grouped_logs \<Rightarrow> u64 \<times> grouped_logs" where
  "prepare_resource_logs L rl st =
     (let resource_labels = promote_service_name (extract_resource_labels (li_fmt L) (rl_resource rl))
      in fold (\<lambda>records st. fold (prepare_log_record L resource_labels) records st) (rl_scope_logs rl) st)"

section \<open>Interning and storing\<close>

definition intern_log_attr ::
  "'i rodeo_ops \<Rightarrow> 'i \<Rightarrow> string \<times> prepared_log_attr \<Rightarrow> 'i \<times> (spur \<times> attribute_value)" where
  "intern_log_attr R i p =
     (let (i1, key) = rd_get_or_intern R i (fst p)
      in case snd p of
           PLString s \<Rightarrow> (let (i2, k) = rd_get_or_intern R i1 s in (i2, (key, AString k)))
         | PLInt n \<Rightarrow> (i1, (key, AInt n))
         | PLFloat f \<Rightarrow> (i1, (key, AFloat f))
         | PLBool b \<Rightarrow> (i1, (key, ABool b)))"

definition intern_log_entry :: "'i rodeo_ops \<Rightarrow> 'i \<Rightarrow> raw_entry \<Rightarrow> 'i \<times> log_entry" where
  "intern_log_entry R i e =
     (case e of (entry, raw_attrs, sev_text) \<Rightarrow>
        (let (i1, attrs) = thread_map (intern_log_attr R) i raw_attrs;
             (i2, text) = intern_opt R i1 sev_text
         in (i2, entry\<lparr>le_attributes := le_attributes entry @ attrs,
                       le_severity_text := (case text of None \<Rightarrow> le_severity_text entry | Some k \<Rightarrow> Some k)\<rparr>)))"

definition store_log_batch :: "'i rodeo_ops \<Rightarrow> log_batch \<Rightarrow> 'i log_store \<Rightarrow> 'i log_store" where
  "store_log_batch R b s =
     (let (i, entries) = thread_map (intern_log_entry R) (lg_interner s) (snd b)
      in log_ingest_stream R (fst b) entries (s\<lparr>lg_interner := i\<rparr>))"

definition ingest_logs ::
  "'i rodeo_ops \<Rightarrow> log_ingest_env \<Rightarrow> resource_logs list \<Rightarrow> 'i app_state \<Rightarrow> 'i app_state \<times> usize" where
  "ingest_logs R L request a =
     (let (seq', grouped, _) = fold (prepare_resource_logs L) request (ap_seq a, [], [])
      in (a\<lparr>ap_seq := seq', ap_log := fold (store_log_batch R) grouped (ap_log a)\<rparr>,
          sum_list (map (\<lambda>b. length (snd b)) grouped)))"

definition logs_handler ::
  "'i rodeo_ops \<Rightarrow> log_ingest_env \<Rightarrow> codec_ops \<Rightarrow> (u8 list \<Rightarrow> resource_logs list option) \<Rightarrow>
     (u8 list \<Rightarrow> resource_logs list option) \<Rightarrow> headers \<Rightarrow> u8 list \<Rightarrow> 'i app_state \<Rightarrow>
     'i app_state \<times> unit http_reply" where
  "logs_handler R L D json protobuf hs body a =
     (case decode_body D hs body of
        Inl e \<Rightarrow> (a, BadRequest)
      | Inr bytes \<Rightarrow>
          (case (if is_json_content_type hs then json bytes else protobuf bytes) of
             None \<Rightarrow> (a, BadRequest)
           | Some request \<Rightarrow> (fst (ingest_logs R L request a), Accepted ())))"

definition logs_export ::
  "'i rodeo_ops \<Rightarrow> log_ingest_env \<Rightarrow> resource_logs list \<Rightarrow> 'i app_state \<Rightarrow> 'i app_state" where
  "logs_export R L request a = fst (ingest_logs R L request a)"

end
