(* ===== verification/Loki_Ingest.thy ===== *)
theory Loki_Ingest
  imports Log_Ingest
begin

text \<open>
  \<open>src/ingest/loki.rs\<close>: the Loki push endpoint. A body is JSON, perhaps snappy-compressed; the JSON
  parser and its rendering of a value are parameters, the value type is that of \<open>serde_json\<close>
  with numbers kept as their text.
\<close>

datatype json =
    JNull
  | JBool bool
  | JNumber string
  | JString string
  | JArray "json list"
  | JObject "(string \<times> json) list"

record loki_value =
  lo_ts :: string
  lo_line :: string
  lo_metadata :: "(string \<times> json) list option"

record loki_stream =
  lm_stream :: "(string \<times> json) list"
  lm_values :: "loki_value list"

definition max_loki_labels_per_stream :: usize where "max_loki_labels_per_stream = 128"
definition max_loki_streams_per_request :: usize where "max_loki_streams_per_request = 10000"

text \<open>\<open>deserialize_log_values\<close>: arrays of a timestamp, a line and perhaps metadata; others are dropped.\<close>

definition json_text :: "(json \<Rightarrow> string) \<Rightarrow> json \<Rightarrow> string" where
  "json_text show_json v = (case v of JString s \<Rightarrow> s | other \<Rightarrow> show_json other)"

definition deserialize_log_value :: "(json \<Rightarrow> string) \<Rightarrow> json list \<Rightarrow> loki_value option" where
  "deserialize_log_value show_json entry =
     (case entry of
        t # l # rest \<Rightarrow>
          (let line = json_text show_json l;
               metadata = (case rest of [] \<Rightarrow> None
                           | v # _ \<Rightarrow> (case v of JObject m \<Rightarrow> Some m | _ \<Rightarrow> None))
           in case t of
                JString s \<Rightarrow> Some \<lparr>lo_ts = s, lo_line = line, lo_metadata = metadata\<rparr>
              | JNumber n \<Rightarrow> Some \<lparr>lo_ts = n, lo_line = line, lo_metadata = metadata\<rparr>
              | _ \<Rightarrow> None)
      | _ \<Rightarrow> None)"

definition deserialize_log_values :: "(json \<Rightarrow> string) \<Rightarrow> json list list \<Rightarrow> loki_value list" where
  "deserialize_log_values show_json raw = List.map_filter (deserialize_log_value show_json) raw"

definition parse_hex_trace_id :: "string \<Rightarrow> trace_id option" where
  "parse_hex_trace_id s = (if length s \<noteq> 32 then None else hex_pairs s)"

definition parse_hex_span_id :: "string \<Rightarrow> span_id option" where
  "parse_hex_span_id s = (if length s \<noteq> 16 then None else hex_pairs s)"

type_synonym parsed_meta = "trace_id option \<times> span_id option \<times> (string \<times> string) list"

definition parse_loki_metadata :: "(json \<Rightarrow> string) \<Rightarrow> (string \<times> json) list \<Rightarrow> parsed_meta" where
  "parse_loki_metadata show_json metadata =
     fold (\<lambda>(k, v) (tid, sid, attrs).
             (let val_str = json_text show_json v
              in if k = ''trace_id'' \<or> k = ''traceId'' then (parse_hex_trace_id val_str, sid, attrs)
                 else if k = ''span_id'' \<or> k = ''spanId'' then (tid, parse_hex_span_id val_str, attrs)
                 else (tid, sid, attrs @ [(k, val_str)])))
       metadata (None, None, [])"

section \<open>Ingest\<close>

definition loki_entry :: "(json \<Rightarrow> string) \<Rightarrow> loki_value \<Rightarrow> i64 \<Rightarrow> u64 \<Rightarrow> log_entry \<times> (string \<times> string) list" where
  "loki_entry show_json v timestamp_ns n =
     (let (tid, sid, attrs) = (case lo_metadata v of None \<Rightarrow> (None, None, [])
                               | Some m \<Rightarrow> parse_loki_metadata show_json m)
      in (\<lparr>le_timestamp_ns = timestamp_ns, le_line = lo_line v, le_ingest_seq = n, le_trace_id = tid,
           le_span_id = sid, le_severity_number = 0, le_severity_text = None, le_attributes = []\<rparr>, attrs))"

text \<open>A value whose timestamp does not parse is dropped and takes no sequence number.\<close>

definition prepare_loki_value ::
  "(json \<Rightarrow> string) \<Rightarrow> u64 \<Rightarrow> loki_value \<Rightarrow> u64 \<times> (log_entry \<times> (string \<times> string) list) option" where
  "prepare_loki_value show_json seq v =
     (case parse_timestamp_ns (lo_ts v) of
        None \<Rightarrow> (seq, None)
      | Some t \<Rightarrow> (let (seq', n) = fetch_add seq in (seq', Some (loki_entry show_json v t n))))"

definition loki_labels :: "(json \<Rightarrow> string) \<Rightarrow> loki_stream \<Rightarrow> (string \<times> string) list" where
  "loki_labels show_json stream = map (\<lambda>(k, v). (k, json_text show_json v)) (lm_stream stream)"

type_synonym loki_batch = "(string \<times> string) list \<times> (log_entry \<times> (string \<times> string) list) list"

definition prepare_loki_stream :: "(json \<Rightarrow> string) \<Rightarrow> u64 \<Rightarrow> loki_stream \<Rightarrow> u64 \<times> loki_batch" where
  "prepare_loki_stream show_json seq stream =
     (let (seq', entries) = thread_filter_map (prepare_loki_value show_json) seq (lm_values stream)
      in (seq', (loki_labels show_json stream, entries)))"

definition intern_loki_attr ::
  "'i rodeo_ops \<Rightarrow> 'i \<Rightarrow> string \<times> string \<Rightarrow> 'i \<times> (spur \<times> attribute_value)" where
  "intern_loki_attr R i p =
     (let (i1, key) = rd_get_or_intern R i (fst p); (i2, v) = rd_get_or_intern R i1 (snd p)
      in (i2, (key, AString v)))"

definition intern_loki_entry ::
  "'i rodeo_ops \<Rightarrow> 'i \<Rightarrow> log_entry \<times> (string \<times> string) list \<Rightarrow> 'i \<times> log_entry" where
  "intern_loki_entry R i e =
     (let (j, attrs) = thread_map (intern_loki_attr R) i (snd e)
      in (j, (fst e)\<lparr>le_attributes := le_attributes (fst e) @ attrs\<rparr>))"

definition store_loki_batch :: "'i rodeo_ops \<Rightarrow> loki_batch \<Rightarrow> 'i log_store \<Rightarrow> 'i log_store" where
  "store_loki_batch R b s =
     (let (i, entries) = thread_map (intern_loki_entry R) (lg_interner s) (snd b)
      in log_ingest_stream R (fst b) entries (s\<lparr>lg_interner := i\<rparr>))"

definition ingest_loki_push ::
  "'i rodeo_ops \<Rightarrow> (json \<Rightarrow> string) \<Rightarrow> loki_stream list \<Rightarrow> 'i app_state \<Rightarrow> 'i app_state \<times> (usize \<times> usize)" where
  "ingest_loki_push R show_json streams a =
     (let (seq', prepared) = thread_map (prepare_loki_stream show_json) (ap_seq a) streams
      in (a\<lparr>ap_seq := seq', ap_log := fold (store_loki_batch R) prepared (ap_log a)\<rparr>,
          (length prepared, sum_list (map (\<lambda>b. length (snd b)) prepared))))"

section \<open>The handler\<close>

datatype push_reply =
    PushBadRequest
  | PushTooLarge
  | PushAccepted usize usize

definition decode_snappy_json ::
  "codec_ops \<Rightarrow> (u8 list \<Rightarrow> loki_stream list option) \<Rightarrow> u8 list \<Rightarrow> loki_stream list option" where
  "decode_snappy_json D json body =
     (case decode_snappy_body D body of Inl _ \<Rightarrow> None | Inr bytes \<Rightarrow> json bytes)"

definition push_handler ::
  "'i rodeo_ops \<Rightarrow> (json \<Rightarrow> string) \<Rightarrow> codec_ops \<Rightarrow> (u8 list \<Rightarrow> loki_stream list option) \<Rightarrow>
     headers \<Rightarrow> u8 list \<Rightarrow> 'i app_state \<Rightarrow> 'i app_state \<times> push_reply" where
  "push_handler R show_json D json hs body a =
     (let content_type = (case hm_get hs ''content-type'' of None \<Rightarrow> ''application/json'' | Some v \<Rightarrow> v);
          snappy = (contains content_type ''application/x-protobuf'' \<or>
                    contains content_type ''application/x-snappy'')
      in if \<not> snappy \<and> ensure_body_size body \<noteq> Inr () then (a, PushTooLarge)
         else case (if snappy then decode_snappy_json D json body else json body) of
                None \<Rightarrow> (a, PushBadRequest)
              | Some streams \<Rightarrow>
                  if max_loki_streams_per_request < length streams then (a, PushTooLarge)
                  else if list_ex (\<lambda>st. max_loki_labels_per_stream < length (lm_stream st)) streams
                  then (a, PushTooLarge)
                  else (let (a', n, m) = ingest_loki_push R show_json streams a
                        in (a', PushAccepted n m)))"

end
