(* ===== verification/Interned.thy ===== *)
theory Interned
  imports Trace_Ingest
begin

text \<open>
  Interning as a contract. Each ingest path turns text into interner keys piece by piece: plain
  values, attribute lists, events, links. The locale \<open>interning\<close> states what every such step
  promises: the interner only grows, the result holds known keys, reading the keys back gives what
  the prepared piece means, and later growth changes neither. Lists of pieces inherit the contract.
\<close>

locale interning =
  fixes R :: "'i rodeo_ops" and intern :: "'i \<Rightarrow> 'p \<Rightarrow> 'i \<times> 'a"
    and known :: "'i \<Rightarrow> 'a \<Rightarrow> bool" and reading :: "'i \<Rightarrow> 'a \<Rightarrow> 'q" and means :: "'p \<Rightarrow> 'q"
  assumes interned: "rodeo_laws R \<Longrightarrow> intern i p = (j, a) \<Longrightarrow>
      rd_extends R i j \<and> known j a \<and> reading j a = means p"
    and stable: "rodeo_laws R \<Longrightarrow> rd_extends R i j \<Longrightarrow> known i a \<Longrightarrow>
      known j a \<and> reading j a = reading i a"
begin

lemma list_stable:
  assumes "rodeo_laws R" and "rd_extends R i j" and "\<forall>a \<in> set as. known i a"
  shows "(\<forall>a \<in> set as. known j a) \<and> map (reading j) as = map (reading i) as"
  using stable [OF assms(1,2)] assms(3) by simp

lemma list_interned:
  assumes laws: "rodeo_laws R" and run: "thread_map intern i ps = (j, as)"
  shows "rd_extends R i j \<and> (\<forall>a \<in> set as. known j a) \<and> map (reading j) as = map means ps"
proof -
  have "rd_extends R i j \<and> list_all2 (\<lambda>p a. known j a \<and> reading j a = means p) ps as"
  proof (rule thread_map_grows [OF run])
    show "rd_extends R u w" if "rd_extends R u v" "rd_extends R v w" for u v w
      using that by (rule rd_extends_trans)
  qed (use interned [OF laws] stable [OF laws] in auto)
  then show ?thesis unfolding list_all2_meaning by blast
qed

end

section \<open>Values\<close>

fun read_value :: "'i rodeo_ops \<Rightarrow> 'i \<Rightarrow> attribute_value \<Rightarrow> prepared_value" where
  "read_value R i (AString s) = PString (rd_resolve R i s)"
| "read_value R i (AInt n) = PInt n"
| "read_value R i (AFloat f) = PFloat f"
| "read_value R i (ABool b) = PBool b"
| "read_value R i (ABytes b) = PBytes b"
| "read_value R i (AArray items) = PArray (map (read_value R i) items)"
| "read_value R i (AKeyValueList pairs) =
     PKeyValueList (map (\<lambda>(k, v). (rd_resolve R i k, read_value R i v)) pairs)"

lemma intern_text:
  assumes "rodeo_laws R" and "rd_get_or_intern R i s = (j, k)"
  shows "rd_extends R i j \<and> spur_ok R j k \<and> rd_resolve R j k = s"
proof -
  have "rd_get R j s = Some k" using rd_intern_get [OF assms] .
  then show ?thesis
    using rd_intern_extends [OF assms] spur_okI [OF assms(1)] rd_resolve_get [OF assms(1)] by blast
qed

lemma read_value_stable:
  assumes "rodeo_laws R" and "rd_extends R i j" and "attribute_ok R i v"
  shows "attribute_ok R j v \<and> read_value R j v = read_value R i v"
  using assms(3)
proof (induction v)
  case (AKeyValueList pairs)
  have "attribute_ok R j v \<and> read_value R j v = read_value R i v" if "(k, v) \<in> set pairs" for k v
    using AKeyValueList.IH [of "(k, v)" v] AKeyValueList.prems that by fastforce
  moreover have "spur_ok R j k \<and> rd_resolve R j k = rd_resolve R i k" if "(k, v) \<in> set pairs" for k v
    using AKeyValueList.prems that spur_ok_extends [OF assms(1,2)] by fastforce
  ultimately show ?case by auto
qed (auto simp: spur_ok_extends [OF assms(1,2)])

lemma intern_value_reads:
  assumes laws: "rodeo_laws R"
  shows "intern_value R i v = (j, a) \<Longrightarrow> rd_extends R i j \<and> attribute_ok R j a \<and> read_value R j a = v"
proof (induction v arbitrary: i j a)
  case (PString s)
  then show ?case using intern_text [OF laws] by (force split: prod.splits)
next
  case (PArray items)
  obtain vs where run: "thread_map (intern_value R) i items = (j, vs)" and a: "a = AArray vs"
    using PArray.prems by (auto split: prod.splits)
  have "rd_extends R i j \<and> list_all2 (\<lambda>p a. attribute_ok R j a \<and> read_value R j a = p) items vs"
  proof (rule thread_map_grows [OF run])
    show "rd_extends R u w" if "rd_extends R u v" "rd_extends R v w" for u v w
      using that by (rule rd_extends_trans)
    show "rd_extends R u w \<and> attribute_ok R w b \<and> read_value R w b = p"
      if "p \<in> set items" "intern_value R u p = (w, b)" for u p w b
      using PArray.IH that by blast
    show "attribute_ok R v b \<and> read_value R v b = p"
      if "rd_extends R u v" "attribute_ok R u b \<and> read_value R u b = p" for u v p b
      using read_value_stable [OF laws that(1)] that(2) by simp
  qed simp
  then show ?case unfolding a list_all2_reading by simp
next
  case (PKeyValueList pairs)
  let ?f = "\<lambda>i (k, v). let (i1, key) = rd_get_or_intern R i k; (i2, w) = intern_value R i1 v
      in (i2, (key, w))"
  obtain vs where run: "thread_map ?f i pairs = (j, vs)" and a: "a = AKeyValueList vs"
    using PKeyValueList.prems by (auto split: prod.splits)
  let ?read = "\<lambda>j (k, v). (rd_resolve R j k, read_value R j v)"
  let ?Q = "\<lambda>j p a. (spur_ok R j (fst a) \<and> attribute_ok R j (snd a)) \<and> ?read j a = p"
  have "rd_extends R i j \<and> list_all2 (?Q j) pairs vs"
  proof (rule thread_map_grows [OF run])
    show "rd_extends R u w" if "rd_extends R u v" "rd_extends R v w" for u v w
      using that by (rule rd_extends_trans)
    show "rd_extends R u w \<and> ?Q w p b" if p: "p \<in> set pairs" and f: "?f u p = (w, b)" for u p w b
    proof -
      obtain k v i1 key x where s: "p = (k, v)" "rd_get_or_intern R u k = (i1, key)"
        "intern_value R i1 v = (w, x)" "b = (key, x)"
        using f by (auto split: prod.splits)
      have "rd_extends R i1 w \<and> attribute_ok R w x \<and> read_value R w x = v"
        using PKeyValueList.IH [of p v i1 w x] p s by simp
      then show ?thesis
        using intern_text [OF laws s(2)] spur_ok_extends [OF laws, of i1 w key] rd_extends_trans s
        by auto
    qed
    show "?Q v p b" if "rd_extends R u v" "?Q u p b" for u v p b
      using that spur_ok_extends [OF laws that(1)] read_value_stable [OF laws that(1)]
      by (auto simp: case_prod_unfold)
  qed simp
  then show ?case unfolding a list_all2_reading by simp
qed auto

interpretation attr: interning R "intern_attribute R"
  "\<lambda>i p. spur_ok R i (fst p) \<and> attribute_ok R i (snd p)"
  "\<lambda>i p. (rd_resolve R i (fst p), read_value R i (snd p))" "\<lambda>p. p" for R :: "'i rodeo_ops"
proof
  fix i j :: 'i and p a
  assume laws: "rodeo_laws R" and run: "intern_attribute R i p = (j, a)"
  obtain i1 key v where s: "rd_get_or_intern R i (fst p) = (i1, key)"
    "intern_value R i1 (snd p) = (j, v)" "a = (key, v)"
    using run by (auto simp: intern_attribute_def split: prod.splits)
  show "rd_extends R i j \<and> (spur_ok R j (fst a) \<and> attribute_ok R j (snd a)) \<and>
      (rd_resolve R j (fst a), read_value R j (snd a)) = p"
    using intern_text [OF laws s(1)] intern_value_reads [OF laws s(2)] s(3)
      spur_ok_extends [OF laws, of i1 j key] rd_extends_trans [of R i i1 j] by auto
next
  fix i j :: 'i and a :: "spur \<times> attribute_value"
  assume "rodeo_laws R" and "rd_extends R i j" and "spur_ok R i (fst a) \<and> attribute_ok R i (snd a)"
  then show "(spur_ok R j (fst a) \<and> attribute_ok R j (snd a)) \<and>
      (rd_resolve R j (fst a), read_value R j (snd a)) = (rd_resolve R i (fst a), read_value R i (snd a))"
    using spur_ok_extends [of R i j "fst a"] read_value_stable [of R i j "snd a"] by simp
qed

end
