(* ===== verification/Trace_Ingest_Correct.thy ===== *)
theory Trace_Ingest_Correct
  imports Interned Traceql_Eval_Correct
begin

text \<open>
  Correctness of trace ingest: the spans of a request that carry valid ids are stored under their
  traces in request order, and reading their interner keys back gives exactly what the request
  says about them, resource and scope attributes included; nothing else of the state changes.
\<close>

section \<open>Reading stored spans back\<close>

definition read_attrs :: "'i rodeo_ops \<Rightarrow> 'i \<Rightarrow> attributes \<Rightarrow> prepared_attrs" where
  "read_attrs R i = map (\<lambda>p. (rd_resolve R i (fst p), read_value R i (snd p)))"

definition read_event :: "'i rodeo_ops \<Rightarrow> 'i \<Rightarrow> span_event \<Rightarrow> prepared_event" where
  "read_event R i e =
     \<lparr>pe_name = rd_resolve R i (ev_name e), pe_time_ns = ev_time_ns e,
      pe_attributes = read_attrs R i (ev_attributes e)\<rparr>"

definition read_link :: "'i rodeo_ops \<Rightarrow> 'i \<Rightarrow> span_link \<Rightarrow> prepared_link" where
  "read_link R i l =
     \<lparr>pk_trace_id = lk_trace_id l, pk_span_id = lk_span_id l,
      pk_trace_state = map_option (rd_resolve R i) (lk_trace_state l),
      pk_attributes = read_attrs R i (lk_attributes l), pk_flags = lk_flags l\<rparr>"

definition read_span :: "'i rodeo_ops \<Rightarrow> 'i \<Rightarrow> span \<Rightarrow> prepared_span" where
  "read_span R i sp =
     \<lparr>ps_trace_id = sp_trace_id sp, ps_span_id = sp_span_id sp, ps_parent = sp_parent sp,
      ps_name = rd_resolve R i (sp_name sp), ps_service = rd_resolve R i (sp_service sp),
      ps_start_ns = sp_start_ns sp, ps_duration_ns = sp_duration_ns sp, ps_status = sp_status sp,
      ps_status_message = map_option (rd_resolve R i) (sp_status_message sp),
      ps_kind = sp_kind sp, ps_attributes = read_attrs R i (sp_attributes sp),
      ps_events = map (read_event R i) (sp_events sp), ps_links = map (read_link R i) (sp_links sp),
      ps_ingest_seq = sp_ingest_seq sp\<rparr>"

definition event_ok :: "'i rodeo_ops \<Rightarrow> 'i \<Rightarrow> span_event \<Rightarrow> bool" where
  "event_ok R i e \<longleftrightarrow> spur_ok R i (ev_name e) \<and> attrs_ok R i (ev_attributes e)"

definition opt_ok :: "'i rodeo_ops \<Rightarrow> 'i \<Rightarrow> spur option \<Rightarrow> bool" where
  "opt_ok R i s \<longleftrightarrow> (case s of None \<Rightarrow> True | Some k \<Rightarrow> spur_ok R i k)"

definition link_ok :: "'i rodeo_ops \<Rightarrow> 'i \<Rightarrow> span_link \<Rightarrow> bool" where
  "link_ok R i l \<longleftrightarrow> opt_ok R i (lk_trace_state l) \<and> attrs_ok R i (lk_attributes l)"

definition span_full_ok :: "'i rodeo_ops \<Rightarrow> 'i \<Rightarrow> span \<Rightarrow> bool" where
  "span_full_ok R i sp \<longleftrightarrow> span_ok R i sp \<and> (\<forall>l \<in> set (sp_links sp). link_ok R i l)"

section \<open>Every interning step keeps the contract\<close>

interpretation key: interning R "rd_get_or_intern R" "spur_ok R" "rd_resolve R" "\<lambda>s. s"
  for R :: "'i rodeo_ops"
  by (standard, erule (1) intern_text) (simp add: spur_ok_extends)

interpretation attrs: interning R "intern_attrs R" "attrs_ok R" "read_attrs R" "\<lambda>p. p" for R :: "'i rodeo_ops"
proof
  show "rd_extends R i j \<and> attrs_ok R j a \<and> read_attrs R j a = p"
    if "rodeo_laws R" "intern_attrs R i p = (j, a)" for i j :: 'i and p a
    using attr.list_interned [OF that(1), of i p j a] that(2)
    by (simp add: intern_attrs_def attrs_ok_def read_attrs_def)
  show "attrs_ok R j a \<and> read_attrs R j a = read_attrs R i a"
    if "rodeo_laws R" "rd_extends R i j" "attrs_ok R i a" for i j :: 'i and a
    using attr.list_stable [OF that(1,2), of a] that(3) by (simp add: attrs_ok_def read_attrs_def)
qed

interpretation opt: interning R "intern_opt R" "opt_ok R" "\<lambda>i. map_option (rd_resolve R i)" "\<lambda>p. p"
  for R :: "'i rodeo_ops"
proof
  show "rd_extends R i j \<and> opt_ok R j a \<and> map_option (rd_resolve R j) a = p"
    if "rodeo_laws R" "intern_opt R i p = (j, a)" for i j :: 'i and p a
    using that(2) key.interned [OF that(1)]
    by (auto simp: intern_opt_def opt_ok_def split: option.splits prod.splits)
  show "opt_ok R j a \<and> map_option (rd_resolve R j) a = map_option (rd_resolve R i) a"
    if "rodeo_laws R" "rd_extends R i j" "opt_ok R i a" for i j :: 'i and a
    using that(3) key.stable [OF that(1,2)] by (cases a) (simp_all add: opt_ok_def)
qed

interpretation event: interning R "intern_event R" "event_ok R" "read_event R" "\<lambda>p. p" for R :: "'i rodeo_ops"
proof
  show "rd_extends R i j \<and> event_ok R j a \<and> read_event R j a = p"
    if laws: "rodeo_laws R" and run: "intern_event R i p = (j, a)" for i j :: 'i and p a
  proof -
    obtain i1 n ats where s: "rd_get_or_intern R i (pe_name p) = (i1, n)"
      "intern_attrs R i1 (pe_attributes p) = (j, ats)"
      "a = \<lparr>ev_name = n, ev_time_ns = pe_time_ns p, ev_attributes = ats\<rparr>"
      using run by (auto simp: intern_event_def split: prod.splits)
    note k = key.interned [OF laws s(1)] and t = attrs.interned [OF laws s(2)]
    show ?thesis
      using k t key.stable [OF laws, of i1 j n] rd_extends_trans [of R i i1 j]
      by (simp add: s(3) event_ok_def read_event_def)
  qed
  show "event_ok R j a \<and> read_event R j a = read_event R i a"
    if "rodeo_laws R" "rd_extends R i j" "event_ok R i a" for i j :: 'i and a
    using that(3) key.stable [OF that(1,2)] attrs.stable [OF that(1,2)]
    by (simp add: event_ok_def read_event_def)
qed

interpretation link: interning R "intern_link R" "link_ok R" "read_link R" "\<lambda>p. p" for R :: "'i rodeo_ops"
proof
  show "rd_extends R i j \<and> link_ok R j a \<and> read_link R j a = p"
    if laws: "rodeo_laws R" and run: "intern_link R i p = (j, a)" for i j :: 'i and p a
  proof -
    obtain i1 st ats where s: "intern_opt R i (pk_trace_state p) = (i1, st)"
      "intern_attrs R i1 (pk_attributes p) = (j, ats)"
      "a = \<lparr>lk_trace_id = pk_trace_id p, lk_span_id = pk_span_id p, lk_trace_state = st,
          lk_attributes = ats, lk_flags = pk_flags p\<rparr>"
      using run by (auto simp: intern_link_def split: prod.splits)
    note k = opt.interned [OF laws s(1)] and t = attrs.interned [OF laws s(2)]
    show ?thesis
      using k t opt.stable [OF laws, of i1 j st] rd_extends_trans [of R i i1 j]
      by (simp add: s(3) link_ok_def read_link_def)
  qed
  show "link_ok R j a \<and> read_link R j a = read_link R i a"
    if "rodeo_laws R" "rd_extends R i j" "link_ok R i a" for i j :: 'i and a
    using that(3) opt.stable [OF that(1,2)] attrs.stable [OF that(1,2)]
    by (simp add: link_ok_def read_link_def)
qed

section \<open>Spans\<close>

definition with_attrs :: "prepared_attrs \<Rightarrow> prepared_span \<Rightarrow> prepared_span" where
  "with_attrs extra p = p\<lparr>ps_attributes := extra @ ps_attributes p\<rparr>"

lemma span_full_ok_iff:
  "span_full_ok R i sp \<longleftrightarrow> spur_ok R i (sp_name sp) \<and> spur_ok R i (sp_service sp) \<and>
     attrs_ok R i (sp_attributes sp) \<and> opt_ok R i (sp_status_message sp) \<and>
     (\<forall>e \<in> set (sp_events sp). event_ok R i e) \<and> (\<forall>l \<in> set (sp_links sp). link_ok R i l)"
  by (auto simp: span_full_ok_def span_ok_def event_ok_def link_ok_def opt_ok_def split: option.split)

lemma read_span_stable:
  assumes "rodeo_laws R" and "rd_extends R i j" and "span_full_ok R i sp"
  shows "span_full_ok R j sp \<and> read_span R j sp = read_span R i sp"
  using assms(3) key.stable [OF assms(1,2)] attrs.stable [OF assms(1,2)] opt.stable [OF assms(1,2)]
    event.list_stable [OF assms(1,2), of "sp_events sp"] link.list_stable [OF assms(1,2), of "sp_links sp"]
  by (simp add: span_full_ok_iff read_span_def)

lemma read_attrs_append [simp]: "read_attrs R i (as @ bs) = read_attrs R i as @ read_attrs R i bs"
  by (simp add: read_attrs_def)

lemma attrs_ok_append [simp]: "attrs_ok R i (as @ bs) \<longleftrightarrow> attrs_ok R i as \<and> attrs_ok R i bs"
  by (auto simp: attrs_ok_def)

lemma intern_prepared_span_reads:
  assumes laws: "rodeo_laws R" and ok: "attrs_ok R i (ra @ sa)"
    and run: "intern_prepared_span R ra sa i p = (j, sp)"
  shows "rd_extends R i j \<and> span_full_ok R j sp \<and>
    read_span R j sp = with_attrs (read_attrs R i (ra @ sa)) p"
proof -
  obtain i1 i2 i3 i4 i5 name service ats events links message where s:
    "rd_get_or_intern R i (ps_name p) = (i1, name)"
    "rd_get_or_intern R i1 (ps_service p) = (i2, service)"
    "intern_attrs R i2 (ps_attributes p) = (i3, ats)"
    "thread_map (intern_event R) i3 (ps_events p) = (i4, events)"
    "thread_map (intern_link R) i4 (ps_links p) = (i5, links)"
    "intern_opt R i5 (ps_status_message p) = (j, message)"
    and sp: "sp = \<lparr>sp_trace_id = ps_trace_id p, sp_span_id = ps_span_id p, sp_parent = ps_parent p,
       sp_name = name, sp_service = service, sp_start_ns = ps_start_ns p,
       sp_duration_ns = ps_duration_ns p, sp_status = ps_status p,
       sp_status_message = message, sp_kind = ps_kind p,
       sp_attributes = ra @ sa @ ats, sp_events = events,
       sp_links = links, sp_ingest_seq = ps_ingest_seq p\<rparr>"
    using run by (auto simp: intern_prepared_span_def split: prod.splits)
  note a1 = key.interned [OF laws s(1)] and a2 = key.interned [OF laws s(2)]
    and a3 = attrs.interned [OF laws s(3)] and a4 = event.list_interned [OF laws s(4)]
    and a5 = link.list_interned [OF laws s(5)] and a6 = opt.interned [OF laws s(6)]
  note tr = rd_extends_trans [of R]
  have e5: "rd_extends R i5 j" using a6 by blast
  have e4: "rd_extends R i4 j" using a5 tr [OF _ e5] by blast
  have e3: "rd_extends R i3 j" using a4 tr [OF _ e4] by blast
  have e2: "rd_extends R i2 j" using a3 tr [OF _ e3] by blast
  have e1: "rd_extends R i1 j" using a2 tr [OF _ e2] by blast
  have e0: "rd_extends R i j" using a1 tr [OF _ e1] by blast
  have "span_full_ok R j sp"
    using a6 key.stable [OF laws e1] key.stable [OF laws e2] attrs.stable [OF laws e3]
      attrs.stable [OF laws e0 ok] event.list_stable [OF laws e4, of events]
      link.list_stable [OF laws e5, of links]
      a1 a2 a3 a4 a5
    by (simp add: span_full_ok_iff sp)
  moreover have "read_span R j sp = with_attrs (read_attrs R i (ra @ sa)) p"
    using a6 key.stable [OF laws e1, of name] key.stable [OF laws e2, of service]
      attrs.stable [OF laws e3, of ats] attrs.stable [OF laws e0 ok]
      event.list_stable [OF laws e4, of events] link.list_stable [OF laws e5, of links]
      a1 a2 a3 a4 a5
    by (simp add: read_span_def sp with_attrs_def)
  ultimately show ?thesis using e0 by blast
qed

section \<open>Storing\<close>

text \<open>
  What storing the prepared spans \<open>ps\<close> does: the invariant stays, the interner grows, and each
  trace gains its spans of \<open>ps\<close>, in order, readable as prepared.
\<close>

definition stored :: "'i rodeo_ops \<Rightarrow> 'i trace_store \<Rightarrow> 'i trace_store \<Rightarrow> prepared_span list \<Rightarrow> bool" where
  "stored R s s' ps \<longleftrightarrow> trace_wf R s' \<and> rd_extends R (ts_interner s) (ts_interner s') \<and>
     (\<forall>t. \<exists>new. spans_of s' t = spans_of s t @ new \<and>
        (\<forall>sp \<in> set new. span_full_ok R (ts_interner s') sp) \<and>
        map (read_span R (ts_interner s')) new = filter (\<lambda>p. ps_trace_id p = t) ps)"

lemma stored_refl: "trace_wf R s \<Longrightarrow> stored R s s []"
  by (simp add: stored_def)

lemma stored_trans:
  assumes laws: "rodeo_laws R" and 1: "stored R s u ps" and 2: "stored R u v qs"
  shows "stored R s v (ps @ qs)"
  unfolding stored_def
proof (intro conjI allI)
  show "trace_wf R v" using 2 by (simp add: stored_def)
  have grow: "rd_extends R (ts_interner u) (ts_interner v)" using 2 by (simp add: stored_def)
  show "rd_extends R (ts_interner s) (ts_interner v)"
    using 1 by (intro rd_extends_trans [OF _ grow]) (simp add: stored_def)
  fix t
  obtain n1 where n1: "spans_of u t = spans_of s t @ n1"
    "\<forall>sp \<in> set n1. span_full_ok R (ts_interner u) sp"
    "map (read_span R (ts_interner u)) n1 = filter (\<lambda>p. ps_trace_id p = t) ps"
    using 1 unfolding stored_def by blast
  obtain n2 where n2: "spans_of v t = spans_of u t @ n2"
    "\<forall>sp \<in> set n2. span_full_ok R (ts_interner v) sp"
    "map (read_span R (ts_interner v)) n2 = filter (\<lambda>p. ps_trace_id p = t) qs"
    using 2 unfolding stored_def by blast
  have "(\<forall>sp \<in> set n1. span_full_ok R (ts_interner v) sp) \<and>
      map (read_span R (ts_interner v)) n1 = map (read_span R (ts_interner u)) n1"
    using n1(2) read_span_stable [OF laws grow] by simp
  with n1 n2 show "\<exists>new. spans_of v t = spans_of s t @ new \<and>
      (\<forall>sp \<in> set new. span_full_ok R (ts_interner v) sp) \<and>
      map (read_span R (ts_interner v)) new = filter (\<lambda>p. ps_trace_id p = t) (ps @ qs)"
    by (intro exI [of _ "n1 @ n2"]) auto
qed

lemma stored_fold:
  assumes laws: "rodeo_laws R" and wf: "trace_wf R s" and grow: "rd_extends R i (ts_interner s)"
    and step: "\<And>b s. trace_wf R s \<Longrightarrow> rd_extends R i (ts_interner s) \<Longrightarrow> stored R s (f b s) (g b)"
  shows "stored R s (fold f bs s) (concat (map g bs))"
  using wf grow
proof (induction bs arbitrary: s)
  case Nil
  then show ?case by (simp add: stored_refl)
next
  case (Cons b bs)
  note 1 = step [OF Cons.prems]
  have "trace_wf R (f b s)" and grow: "rd_extends R (ts_interner s) (ts_interner (f b s))"
    using 1 by (simp_all add: stored_def)
  from this(1) rd_extends_trans [OF Cons.prems(2) grow]
  have "stored R (f b s) (fold f bs (f b s)) (concat (map g bs))" by (rule Cons.IH)
  from stored_trans [OF laws 1 this] show ?case by simp
qed

lemma stored_interner:
  assumes "rodeo_laws R" and "rd_extends R (ts_interner s) i" and "stored R (s\<lparr>ts_interner := i\<rparr>) s' ps"
  shows "stored R s s' ps"
  using assms(3) rd_extends_trans [OF assms(2), of "ts_interner s'"] by (simp add: stored_def spans_of_def)

text \<open>Interning a list of prepared spans under common attributes.\<close>

lemma intern_spans:
  assumes laws: "rodeo_laws R" and ok: "attrs_ok R i (ra @ sa)"
    and run: "thread_map (intern_prepared_span R ra sa) i ps = (j, sps)"
  shows "rd_extends R i j \<and> (\<forall>sp \<in> set sps. span_full_ok R j sp) \<and>
    map (read_span R j) sps = map (with_attrs (read_attrs R i (ra @ sa))) ps"
proof -
  let ?w = "with_attrs (read_attrs R i (ra @ sa))"
  have "rd_extends R i j \<and> list_all2 (\<lambda>p sp. span_full_ok R j sp \<and> read_span R j sp = ?w p) ps sps"
  proof (rule thread_map_grows [OF run])
    show "rd_extends R u w" if "rd_extends R u v" "rd_extends R v w" for u v w
      using that by (rule rd_extends_trans)
    show "rd_extends R u v \<and> span_full_ok R v sp \<and> read_span R v sp = ?w p"
      if grow: "rd_extends R i u" and step: "intern_prepared_span R ra sa u p = (v, sp)" for u p v sp
    proof -
      have "attrs_ok R u (ra @ sa)" "read_attrs R u (ra @ sa) = read_attrs R i (ra @ sa)"
        using attrs.stable [OF laws grow ok] by simp_all
      with intern_prepared_span_reads [OF laws _ step] show ?thesis by simp
    qed
    show "span_full_ok R v sp \<and> read_span R v sp = ?w p"
      if "rd_extends R u v" "span_full_ok R u sp \<and> read_span R u sp = ?w p" for u v p sp
      using read_span_stable [OF laws that(1)] that(2) by simp
  qed simp
  then have all: "rd_extends R i j" and
    "list_all2 (\<lambda>p sp. span_full_ok R j sp \<and> read_span R j sp = ?w p) ps sps" by blast+
  from this(2) have "list_all2 (\<lambda>q sp. span_full_ok R j sp \<and> read_span R j sp = q) (map ?w ps) sps"
    by (simp add: list_all2_map1)
  with all show ?thesis unfolding list_all2_reading by blast
qed

lemma ingest_spans_interner: "ts_interner (ingest_spans sps s) = ts_interner s"
  unfolding ingest_spans_def by (induction sps arbitrary: s) (simp_all add: ingest_span_def Let_def)

lemma store_scope_group_stored:
  assumes laws: "rodeo_laws R" and wf: "trace_wf R s" and ra: "attrs_ok R (ts_interner s) ra"
  shows "stored R s (store_scope_group R ra g s)
    (map (with_attrs (read_attrs R (ts_interner s) ra @ fst g)) (snd g))"
proof -
  obtain i1 sa where 1: "intern_attrs R (ts_interner s) (fst g) = (i1, sa)" by force
  obtain i2 sps where 2: "thread_map (intern_prepared_span R ra sa) i1 (snd g) = (i2, sps)" by force
  note a = attrs.interned [OF laws 1]
  have r: "attrs_ok R i1 ra" "read_attrs R i1 ra = read_attrs R (ts_interner s) ra"
    using attrs.stable [OF laws conjunct1 [OF a] ra] by simp_all
  with a have "attrs_ok R i1 (ra @ sa)" by simp
  note b = intern_spans [OF laws this 2]
  have grow: "rd_extends R (ts_interner s) i2" by (rule rd_extends_trans [OF conjunct1 [OF a] conjunct1 [OF b]])
  have wf2: "trace_wf R (s\<lparr>ts_interner := i2\<rparr>)" by (rule trace_wf_interner [OF laws grow wf])
  have ok: "\<forall>sp \<in> set sps. span_ok R (ts_interner (s\<lparr>ts_interner := i2\<rparr>)) sp"
    using b by (simp add: span_full_ok_def)
  note c = ingest_spans_correct [OF wf2 ok]
  let ?s = "ingest_spans sps (s\<lparr>ts_interner := i2\<rparr>)"
  have int: "ts_interner ?s = i2"
    by (simp add: ingest_spans_interner)
  have res: "store_scope_group R ra g s = ?s"
    by (simp add: store_scope_group_def 1 2)
  let ?w = "with_attrs (read_attrs R (ts_interner s) ra @ fst g)"
  have read: "map (read_span R i2) sps = map ?w (snd g)"
    using b a r(2) by simp
  have tid: "ps_trace_id (read_span R i2 sp) = sp_trace_id sp" for sp by (simp add: read_span_def)
  show ?thesis
    unfolding stored_def res int
  proof (intro conjI allI exI)
    show "trace_wf R ?s" using c by blast
    show "rd_extends R (ts_interner s) i2" by (rule grow)
    fix t
    show "spans_of ?s t = spans_of s t @ filter (\<lambda>sp. sp_trace_id sp = t) sps"
      using c [of t] by (simp add: spans_of_def)
    show "\<forall>sp \<in> set (filter (\<lambda>sp. sp_trace_id sp = t) sps). span_full_ok R i2 sp"
      using b by simp
    show "map (read_span R i2) (filter (\<lambda>sp. sp_trace_id sp = t) sps) =
        filter (\<lambda>p. ps_trace_id p = t) (map ?w (snd g))"
      unfolding read [symmetric] filter_map by (simp add: comp_def tid)
  qed
qed

definition batch_meaning :: "prepared_attrs \<times> scope_group list \<Rightarrow> prepared_span list" where
  "batch_meaning b = concat (map (\<lambda>g. map (with_attrs (fst b @ fst g)) (snd g)) (snd b))"

lemma store_batch_stored:
  assumes laws: "rodeo_laws R" and wf: "trace_wf R s"
  shows "stored R s (store_batch R b s) (batch_meaning b)"
proof -
  obtain i ra where 1: "intern_attrs R (ts_interner s) (fst b) = (i, ra)" by force
  note a = attrs.interned [OF laws 1]
  have wf1: "trace_wf R (s\<lparr>ts_interner := i\<rparr>)" using a by (intro trace_wf_interner [OF laws _ wf]) simp
  have "stored R (s\<lparr>ts_interner := i\<rparr>) (fold (store_scope_group R ra) (snd b) (s\<lparr>ts_interner := i\<rparr>))
      (batch_meaning b)"
    unfolding batch_meaning_def
  proof (rule stored_fold [OF laws wf1, where i = i])
    show "stored R u (store_scope_group R ra g u) (map (with_attrs (fst b @ fst g)) (snd g))"
      if "trace_wf R u" "rd_extends R i (ts_interner u)" for g u
    proof -
      have "attrs_ok R (ts_interner u) ra \<and> read_attrs R (ts_interner u) ra = fst b"
        using attrs.stable [OF laws that(2)] a by simp
      with store_scope_group_stored [OF laws that(1), of ra g] show ?thesis by simp
    qed
  qed simp
  then show ?thesis
    using stored_interner [OF laws, of s i] a by (simp add: store_batch_def 1)
qed

section \<open>Preparation\<close>

definition span_accepted :: "otlp_span \<Rightarrow> bool" where
  "span_accepted s \<longleftrightarrow> valid_id 16 (os_trace_id s) \<and> valid_id 8 (os_span_id s)"

text \<open>The accepted spans of a request, each with its resource and scope, in request order.\<close>

type_synonym placed_span = "resource_spans \<times> scope_spans \<times> otlp_span"

definition scope_accepted :: "scope_spans \<Rightarrow> otlp_span list" where
  "scope_accepted ss = filter span_accepted (ss_spans ss)"

definition resource_accepted :: "resource_spans \<Rightarrow> placed_span list" where
  "resource_accepted rs =
     concat (map (\<lambda>ss. map (\<lambda>s. (rs, ss, s)) (scope_accepted ss)) (rs_scope_spans rs))"

definition request_spans :: "resource_spans list \<Rightarrow> placed_span list" where
  "request_spans req = concat (map resource_accepted req)"

text \<open>What one accepted span of a request says, given its sequence number.\<close>

definition resource_attrs :: "(f64 \<Rightarrow> string) \<Rightarrow> resource_spans \<Rightarrow> prepared_attrs" where
  "resource_attrs fmt rs =
     map (\<lambda>(k, v). (''resource.'' @ k, PString v)) (extract_resource_labels fmt (rs_resource rs))"

definition span_meaning :: "(f64 \<Rightarrow> string) \<Rightarrow> placed_span \<Rightarrow> u64 \<Rightarrow> prepared_span" where
  "span_meaning fmt placed n =
     (case placed of (rs, ss, s) \<Rightarrow>
        with_attrs (resource_attrs fmt rs @ prepare_scope_attrs (ss_scope ss))
          (span_of_otlp (resource_service (extract_resource_labels fmt (rs_resource rs))) s n))"

lemma prepare_scope_stamped:
  assumes "n \<le> u64_max"
  shows "prepare_scope service n ss =
    (stamp n (length (scope_accepted ss)),
     (prepare_scope_attrs (ss_scope ss), stamped (span_of_otlp service) n (scope_accepted ss)))"
proof -
  have "thread_filter_map (prepare_span service) n (ss_spans ss) =
      (stamp n (length (filter span_accepted (ss_spans ss))),
       stamped (span_of_otlp service) n (filter span_accepted (ss_spans ss)))"
    by (rule thread_filter_fetch [OF assms])
      (simp add: prepare_span_def span_accepted_def fetch_add_def)
  then show ?thesis by (simp add: prepare_scope_def scope_accepted_def)
qed

lemma span_meaning_eq:
  "span_meaning fmt (rs, ss, s) = (\<lambda>n. with_attrs (resource_attrs fmt rs @ prepare_scope_attrs (ss_scope ss))
     (span_of_otlp (resource_service (extract_resource_labels fmt (rs_resource rs))) s n))"
  by (simp add: span_meaning_def fun_eq_iff)

lemma prepare_resource_stamped:
  assumes "n \<le> u64_max"
  shows "fst (prepare_resource fmt n rs) = stamp n (length (resource_accepted rs)) \<and>
    batch_meaning (snd (prepare_resource fmt n rs)) = stamped (span_meaning fmt) n (resource_accepted rs)"
proof -
  define service where "service = resource_service (extract_resource_labels fmt (rs_resource rs))"
  define acc where "acc = (\<lambda>ss. map (\<lambda>s. (rs, ss, s)) (scope_accepted ss))"
  define out where "out = (\<lambda>g. map (with_attrs (resource_attrs fmt rs @ fst g)) (snd g))"
  have "fst (prepare_scope service n ss) = stamp n (length (acc ss)) \<and>
      out (snd (prepare_scope service n ss)) = stamped (span_meaning fmt) n (acc ss)"
    if "n \<le> u64_max" for n ss
    unfolding prepare_scope_stamped [OF that] out_def acc_def stamped_map
    by (simp add: map_stamped span_meaning_eq service_def)
  from thread_map_stamped [OF assms this, of "rs_scope_spans rs"]
  have "fst (thread_map (prepare_scope service) n (rs_scope_spans rs)) = stamp n (length (resource_accepted rs)) \<and>
      concat (map out (snd (thread_map (prepare_scope service) n (rs_scope_spans rs)))) =
        stamped (span_meaning fmt) n (resource_accepted rs)"
    by (simp only: resource_accepted_def acc_def)
  then show ?thesis
    by (simp add: prepare_resource_def batch_meaning_def out_def Let_def case_prod_unfold
        service_def [symmetric] resource_attrs_def)
qed

lemma batch_spans_length: "length (batch_meaning b) = sum_list (map (\<lambda>g. length (snd g)) (snd b))"
  by (simp add: batch_meaning_def length_concat comp_def)

lemma batch_trace_ids:
  "map ps_trace_id (concat (map batch_meaning bs)) = map ps_trace_id (batch_spans bs)"
  by (simp add: batch_meaning_def batch_spans_def with_attrs_def map_concat comp_def)

lemma fold_hs_insert: "distinct ys \<Longrightarrow> distinct (fold (\<lambda>p. hs_insert (f p)) xs ys) \<and>
    set (fold (\<lambda>p. hs_insert (f p)) xs ys) = set ys \<union> f ` set xs"
  by (induction xs arbitrary: ys) auto

lemma ingest_traces_correct:
  fixes fmt :: "f64 \<Rightarrow> string" and req :: "resource_spans list"
  assumes laws: "rodeo_laws R" and wf: "trace_wf R (ap_trace a)" and seq: "ap_seq a \<le> u64_max"
  defines "b \<equiv> ingest_traces R fmt req a" and "n \<equiv> length (request_spans req)"
  shows "stored R (ap_trace a) (ap_trace (fst b)) (stamped (span_meaning fmt) (ap_seq a) (request_spans req))"
    and "fst b = a\<lparr>ap_seq := stamp (ap_seq a) n, ap_trace := ap_trace (fst b)\<rparr>"
    and "ta_spans (snd b) = n"
    and "ta_traces (snd b) = card ((\<lambda>(_, _, s). os_trace_id s) ` set (request_spans req))"
proof -
  obtain seq' bs where run: "thread_map (prepare_resource fmt) (ap_seq a) req = (seq', bs)" by force
  from thread_map_stamped [OF seq, where xs = req and f = "prepare_resource fmt" and acc = resource_accepted
      and out = batch_meaning and g = "span_meaning fmt"] prepare_resource_stamped
  have p: "seq' = stamp (ap_seq a) n"
    "concat (map batch_meaning bs) = stamped (span_meaning fmt) (ap_seq a) (request_spans req)"
    by (simp_all add: run request_spans_def n_def)
  have b: "fst b = a\<lparr>ap_seq := seq', ap_trace := fold (store_batch R) bs (ap_trace a)\<rparr>"
    by (simp add: b_def ingest_traces_def run Let_def)
  have "stored R (ap_trace a) (fold (store_batch R) bs (ap_trace a)) (concat (map batch_meaning bs))"
    by (rule stored_fold [OF laws wf, where i = "ts_interner (ap_trace a)"])
      (simp_all add: store_batch_stored [OF laws])
  then show "stored R (ap_trace a) (ap_trace (fst b))
      (stamped (span_meaning fmt) (ap_seq a) (request_spans req))"
    by (simp add: b p)
  show "fst b = a\<lparr>ap_seq := stamp (ap_seq a) n, ap_trace := ap_trace (fst b)\<rparr>"
    by (simp add: b p)
  have "length (concat (map batch_meaning bs)) = ta_spans (snd b)"
    by (simp add: b_def ingest_traces_def run Let_def length_concat batch_spans_length comp_def)
  then show "ta_spans (snd b) = n" by (simp add: p n_def)
  have "ta_traces (snd b) = card (set (map ps_trace_id (batch_spans bs)))"
    using fold_hs_insert [of "[]" ps_trace_id "batch_spans bs"]
      distinct_card [of "fold (\<lambda>p. hs_insert (ps_trace_id p)) (batch_spans bs) []"]
    by (simp add: b_def ingest_traces_def run Let_def)
  also have "map ps_trace_id (batch_spans bs) = map (\<lambda>(_, _, s). os_trace_id s) (request_spans req)"
    unfolding batch_trace_ids [symmetric] p(2)
    by (rule map_stamped_const) (simp add: span_meaning_def with_attrs_def span_of_otlp_def Let_def split: prod.split)
  finally show "ta_traces (snd b) = card ((\<lambda>(_, _, s). os_trace_id s) ` set (request_spans req))"
    by simp
qed

section \<open>The service of a span\<close>

text \<open>
  TraceQL narrows \<open>resource.service.name\<close> through the service index, which is right when a span
  that carries the attribute carries its own service. Ingest keeps that.
\<close>

lemma find_map: "find P (map f xs) = map_option f (find (P \<circ> f) xs)"
  by (induction xs) auto

lemma find_append: "find P (xs @ ys) = (case find P xs of None \<Rightarrow> find P ys | Some x \<Rightarrow> Some x)"
  by (induction xs) auto

definition service_key :: "string \<Rightarrow> bool" where
  "service_key k \<longleftrightarrow> k = ''resource.service.name'' \<or> k = ''service.name''"

lemma service_keys: "k \<in> set (attr_keys ScopeResource ''service.name'') \<longleftrightarrow> service_key k"
  by (simp add: attr_keys_def service_key_def)

lemma find_convert_attrs:
  assumes "\<And>k. \<not> service_key (prefix @ k)"
  shows "find (\<lambda>p. service_key (fst p)) (convert_attrs prefix attrs) = None"
  unfolding convert_attrs_def
proof (induction attrs)
  case (Cons p attrs)
  with assms show ?case by (cases p) (simp add: List.map_filter_simps split: option.split)
qed (simp add: List.map_filter_simps)

lemma find_scope_attrs: "find (\<lambda>p. service_key (fst p)) (prepare_scope_attrs sc) = None"
proof -
  have "find (\<lambda>p. service_key (fst p)) (convert_attrs ''scope.'' attrs) = None" for attrs
    by (rule find_convert_attrs) (simp add: service_key_def)
  then show ?thesis by (cases sc) (simp_all add: prepare_scope_attrs_def find_append service_key_def)
qed

lemma find_span_attrs: "find (\<lambda>p. service_key (fst p)) (convert_attrs ''span.'' attrs) = None"
  by (rule find_convert_attrs) (simp add: service_key_def)

lemma find_resource_attrs:
  "find (\<lambda>p. service_key (fst p)) (resource_attrs fmt rs) =
     map_option (\<lambda>v. (''resource.service.name'', PString v))
       (map_of (extract_resource_labels fmt (rs_resource rs)) ''service.name'')"
proof -
  have "find (\<lambda>p. service_key (fst p)) (map (\<lambda>(k, v). (''resource.'' @ k, PString v)) ls) =
     map_option (\<lambda>v. (''resource.service.name'', PString v)) (map_of ls ''service.name'')" for ls
    by (induction ls) (auto simp: service_key_def)
  then show ?thesis by (simp add: resource_attrs_def)
qed

lemma span_meaning_service:
  "find (\<lambda>p. service_key (fst p)) (ps_attributes (span_meaning fmt (rs, ss, s) n)) = Some (k, w) \<Longrightarrow>
     w = PString (ps_service (span_meaning fmt (rs, ss, s) n))"
  by (auto simp: span_meaning_def with_attrs_def span_of_otlp_def Let_def find_append find_scope_attrs
      find_span_attrs find_resource_attrs resource_service_def split: option.splits)

lemma find_read_attrs:
  "find (\<lambda>p. service_key (rd_resolve R i (fst p))) as = Some (k, v) \<Longrightarrow>
     find (\<lambda>p. service_key (fst p)) (read_attrs R i as) = Some (rd_resolve R i k, read_value R i v)"
  by (simp add: read_attrs_def find_map comp_def)

lemma service_attr_ok_iff:
  "service_attr_ok R i sp \<longleftrightarrow>
     (\<forall>k v. find (\<lambda>p. service_key (rd_resolve R i (fst p))) (sp_attributes sp) = Some (k, AString v)
        \<longrightarrow> v = sp_service sp)"
  by (simp add: service_attr_ok_def service_keys)

lemma service_attr_ok_read:
  assumes laws: "rodeo_laws R" and ok: "span_full_ok R i sp"
    and read: "read_span R i sp = span_meaning fmt (rs, ss, s) n"
  shows "service_attr_ok R i sp"
  unfolding service_attr_ok_iff
proof (intro allI impI)
  fix k v
  assume f: "find (\<lambda>p. service_key (rd_resolve R i (fst p))) (sp_attributes sp) = Some (k, AString v)"
  have "ps_attributes (span_meaning fmt (rs, ss, s) n) = read_attrs R i (sp_attributes sp)"
    "ps_service (span_meaning fmt (rs, ss, s) n) = rd_resolve R i (sp_service sp)"
    by (simp_all add: read [symmetric] read_span_def)
  then have same: "rd_resolve R i v = rd_resolve R i (sp_service sp)"
    using span_meaning_service [of fmt rs ss s n] find_read_attrs [OF f] by simp
  have mem: "(k, AString v) \<in> set (sp_attributes sp)"
    using f by (auto simp: find_Some_iff)
  have "\<forall>p \<in> set (sp_attributes sp). attribute_ok R i (snd p)"
    using ok by (simp add: span_full_ok_iff attrs_ok_def)
  from bspec [OF this mem] have "spur_ok R i v" by simp
  moreover have "spur_ok R i (sp_service sp)" using ok by (simp add: span_full_ok_iff)
  ultimately show "v = sp_service sp" using same by (rule rd_resolve_inj)
qed

lemma service_attr_ok_stable:
  assumes laws: "rodeo_laws R" and grow: "rd_extends R i j" and ok: "attrs_ok R i (sp_attributes sp)"
    and sv: "service_attr_ok R i sp"
  shows "service_attr_ok R j sp"
proof -
  have "find (\<lambda>p. service_key (rd_resolve R j (fst p))) (sp_attributes sp) =
      find (\<lambda>p. service_key (rd_resolve R i (fst p))) (sp_attributes sp)"
    using ok spur_ok_extends [OF laws grow] by (intro find_cong) (auto simp: attrs_ok_def)
  with sv show ?thesis by (simp add: service_attr_ok_iff)
qed

lemma stored_services_ok:
  assumes laws: "rodeo_laws R" and wf: "trace_wf R s" and sv: "services_ok R s"
    and st: "stored R s s' (stamped (span_meaning fmt) n ps)"
  shows "services_ok R s'"
  unfolding services_ok_def
proof (intro allI ballI)
  fix t sp assume sp: "sp \<in> set (spans_of s' t)"
  obtain new where new: "spans_of s' t = spans_of s t @ new"
    "\<forall>sp \<in> set new. span_full_ok R (ts_interner s') sp"
    "map (read_span R (ts_interner s')) new =
       filter (\<lambda>p. ps_trace_id p = t) (stamped (span_meaning fmt) n ps)"
    using st unfolding stored_def by blast
  show "service_attr_ok R (ts_interner s') sp"
  proof (cases "sp \<in> set new")
    case True
    then have "read_span R (ts_interner s') sp \<in> set (filter (\<lambda>p. ps_trace_id p = t) (stamped (span_meaning fmt) n ps))"
      unfolding new(3) [symmetric] by simp
    then obtain k rs ss s0 where "read_span R (ts_interner s') sp = span_meaning fmt (rs, ss, s0) (stamp n k)"
      by (auto simp: set_stamped) (metis prod_cases3)
    with service_attr_ok_read [OF laws] new(2) True show ?thesis by blast
  next
    case False
    then have old: "sp \<in> set (spans_of s t)" using sp new(1) by simp
    then have "attrs_ok R (ts_interner s) (sp_attributes sp)"
      using span_ok_spans_of [OF wf old] by (simp add: span_ok_def)
    moreover have "rd_extends R (ts_interner s) (ts_interner s')" using st by (simp add: stored_def)
    ultimately show ?thesis using service_attr_ok_stable [OF laws] sv old unfolding services_ok_def by blast
  qed
qed

section \<open>Property\<close>

text \<open>
  C10: an OTLP trace export adds to each trace exactly the spans of the request that carry a valid
  trace and span id, in request order and with consecutive sequence numbers; read back through
  the interner they say what the request says, attributes of resource, scope and span in this
  order. The counts returned are those spans and their distinct traces, the store invariant and
  the one between service and attribute hold on, and no other part of the state changes.
\<close>

theorem otlp_spans_stored:
  assumes "rodeo_laws R" and "trace_wf R (ap_trace a)" and "ap_seq a \<le> u64_max"
    and "ingest_traces R fmt req a = (a', acc)"
  shows "trace_wf R (ap_trace a') \<and>
    (\<forall>t. \<exists>new. spans_of (ap_trace a') t = spans_of (ap_trace a) t @ new \<and>
       map (read_span R (ts_interner (ap_trace a'))) new =
         filter (\<lambda>p. ps_trace_id p = t) (stamped (span_meaning fmt) (ap_seq a) (request_spans req))) \<and>
    ta_spans acc = length (request_spans req) \<and>
    ta_traces acc = card ((\<lambda>(_, _, s). os_trace_id s) ` set (request_spans req)) \<and>
    a' = a\<lparr>ap_seq := stamp (ap_seq a) (length (request_spans req)), ap_trace := ap_trace a'\<rparr> \<and>
    (services_ok R (ap_trace a) \<longrightarrow> services_ok R (ap_trace a'))"
proof -
  note C = ingest_traces_correct [OF assms(1-3), where fmt = fmt and req = req, unfolded assms(4), simplified]
  have "services_ok R (ap_trace a')" if "services_ok R (ap_trace a)"
    by (rule stored_services_ok [OF assms(1,2) that C(1)])
  with C show ?thesis unfolding stored_def by blast
qed

definition sample_state :: "string list app_state" where
  "sample_state = \<lparr>ap_log = log_new list_rodeo, ap_metric = metric_new list_rodeo,
     ap_trace = trace_new list_rodeo,
     ap_config = \<lparr>cf_bind_address = ''127.0.0.1'', cf_port = 4320, cf_snapshot_dir = ''snap'',
       cf_snapshot_interval = 0, cf_max_log_entries = 100, cf_max_series = 10, cf_max_spans = 100,
       cf_retention = ''2h'', cf_restore = False\<rparr>,
     ap_seq = 1\<rparr>"

definition sample_otlp_span :: "u8 list \<Rightarrow> u8 list \<Rightarrow> otlp_span" where
  "sample_otlp_span t s = \<lparr>os_trace_id = t, os_span_id = s, os_parent_span_id = [], os_name = ''GET'',
     os_kind = 2, os_start_time_unix_nano = 5, os_end_time_unix_nano = 9,
     os_attributes = [(''n'', Some (IntValue 7)), (''x'', None)], os_events = [], os_links = [], os_status = None\<rparr>"

definition sample_request :: "resource_spans list" where
  "sample_request = [\<lparr>rs_resource = Some [(''service.name'', Some (StringValue ''db''))],
     rs_scope_spans = [\<lparr>ss_scope = None,
       ss_spans = [sample_otlp_span (replicate 16 1) (replicate 8 0), sample_otlp_span (replicate 16 1) (replicate 8 2)]\<rparr>]\<rparr>]"

theorem otlp_spans_stored_witness:
  "\<exists>sp. spans_of (ap_trace (fst (ingest_traces list_rodeo (\<lambda>_. []) sample_request sample_state))) (replicate 16 1) = [sp] \<and>
     ps_attributes (read_span list_rodeo
       (ts_interner (ap_trace (fst (ingest_traces list_rodeo (\<lambda>_. []) sample_request sample_state)))) sp) =
       [(''resource.service.name'', PString ''db''), (''span.n'', PInt 7)]"
proof -
  let ?r = "ingest_traces list_rodeo (\<lambda>_. []) sample_request sample_state"
  have wf: "trace_wf list_rodeo (ap_trace sample_state)" "ap_seq sample_state \<le> u64_max"
    by (simp_all add: sample_state_def trace_new_wf u64_max_def)
  have old: "spans_of (ap_trace sample_state) t = []" for t
    by (simp add: sample_state_def trace_new_def spans_of_def)
  have req: "request_spans sample_request = [(hd sample_request, hd (rs_scope_spans (hd sample_request)),
      sample_otlp_span (replicate 16 1) (replicate 8 2))]"
    by (simp add: request_spans_def sample_request_def resource_accepted_def scope_accepted_def
        span_accepted_def valid_id_def sample_otlp_span_def)
  have id: "ps_trace_id (span_meaning (\<lambda>_. []) (x, y, sample_otlp_span (replicate 16 1) (replicate 8 2)) n) =
      replicate 16 1" for x y n
    by (simp add: span_meaning_def with_attrs_def span_of_otlp_def sample_otlp_span_def Let_def)
  from otlp_spans_stored [OF list_rodeo_laws wf, where fmt = "\<lambda>_. []" and req = sample_request
      and a' = "fst ?r" and acc = "snd ?r"]
  obtain new where new: "spans_of (ap_trace (fst ?r)) (replicate 16 1) = new"
    "map (read_span list_rodeo (ts_interner (ap_trace (fst ?r)))) new =
      filter (\<lambda>p. ps_trace_id p = replicate 16 1)
        (stamped (span_meaning (\<lambda>_. [])) (ap_seq sample_state) (request_spans sample_request))"
    unfolding old by auto
  from new(2) obtain sp where "new = [sp]"
    "read_span list_rodeo (ts_interner (ap_trace (fst ?r))) sp = span_meaning (\<lambda>_. [])
       (hd sample_request, hd (rs_scope_spans (hd sample_request)),
        sample_otlp_span (replicate 16 1) (replicate 8 2)) 1"
    unfolding req using id by (auto simp: stamped_def sample_state_def stamp_def u64_max_def)
  with new(1) show ?thesis
    by (simp add: span_meaning_def with_attrs_def span_of_otlp_def sample_otlp_span_def sample_request_def
        resource_attrs_def extract_resource_labels_def extract_key_values_def any_value_to_string_def
        List.map_filter_simps convert_attrs_def prepare_scope_attrs_def Let_def)
qed

end
