(* ===== verification/Log_Ingest_Correct.thy ===== *)
theory Log_Ingest_Correct
  imports Loki_Ingest Trace_Ingest_Correct Log_Store_Correct
begin

text \<open>
  Correctness of log ingest. Storing a batch is described by what the stored entries say when
  their keys are read back; grouping by label set is shown to be the partition of the records by
  labels, in order of first occurrence; a Loki push is reduced to the OTLP case.
\<close>

section \<open>Reading stored entries back\<close>

text \<open>An entry without keys, its attributes and its severity text.\<close>

type_synonym told_entry = "log_entry \<times> prepared_attrs \<times> string option"

definition read_entry :: "'i rodeo_ops \<Rightarrow> 'i \<Rightarrow> log_entry \<Rightarrow> told_entry" where
  "read_entry R i e =
     (e\<lparr>le_attributes := [], le_severity_text := None\<rparr>, read_attrs R i (le_attributes e),
      map_option (rd_resolve R i) (le_severity_text e))"

definition log_entry_ok :: "'i rodeo_ops \<Rightarrow> 'i \<Rightarrow> log_entry \<Rightarrow> bool" where
  "log_entry_ok R i e \<longleftrightarrow> attrs_ok R i (le_attributes e) \<and> opt_ok R i (le_severity_text e)"

fun told_value :: "prepared_log_attr \<Rightarrow> prepared_value" where
  "told_value (PLString s) = PString s"
| "told_value (PLInt n) = PInt n"
| "told_value (PLFloat f) = PFloat f"
| "told_value (PLBool b) = PBool b"

definition told :: "raw_entry \<Rightarrow> told_entry" where
  "told e = (case e of (entry, attrs, text) \<Rightarrow> (entry, map (\<lambda>p. (fst p, told_value (snd p))) attrs, text))"

definition bare :: "raw_entry \<Rightarrow> bool" where
  "bare e \<longleftrightarrow> le_attributes (fst e) = [] \<and> le_severity_text (fst e) = None"

interpretation log_attr: interning R "intern_log_attr R"
  "\<lambda>i p. spur_ok R i (fst p) \<and> attribute_ok R i (snd p)"
  "\<lambda>i p. (rd_resolve R i (fst p), read_value R i (snd p))" "\<lambda>p. (fst p, told_value (snd p))"
  for R :: "'i rodeo_ops"
proof
  fix i j :: 'i and p a
  assume laws: "rodeo_laws R" and run: "intern_log_attr R i p = (j, a)"
  obtain i1 key where k: "rd_get_or_intern R i (fst p) = (i1, key)" by force
  note K = intern_text [OF laws k]
  show "rd_extends R i j \<and> (spur_ok R j (fst a) \<and> attribute_ok R j (snd a)) \<and>
      (rd_resolve R j (fst a), read_value R j (snd a)) = (fst p, told_value (snd p))"
  proof (cases "snd p")
    case (PLString s)
    obtain i2 v where v: "rd_get_or_intern R i1 s = (i2, v)" by force
    note V = intern_text [OF laws v]
    have "j = i2" "a = (key, AString v)"
      using run k v PLString by (simp_all add: intern_log_attr_def)
    then show ?thesis
      using V K spur_ok_extends [OF laws conjunct1 [OF V], of key] rd_extends_trans [OF conjunct1 [OF K] conjunct1 [OF V]]
      by (simp add: PLString)
  qed (use run k K in \<open>auto simp: intern_log_attr_def\<close>)
next
  fix i j :: 'i and a :: "spur \<times> attribute_value"
  assume "rodeo_laws R" and "rd_extends R i j" and "spur_ok R i (fst a) \<and> attribute_ok R i (snd a)"
  then show "(spur_ok R j (fst a) \<and> attribute_ok R j (snd a)) \<and>
      (rd_resolve R j (fst a), read_value R j (snd a)) = (rd_resolve R i (fst a), read_value R i (snd a))"
    by (rule attr.stable)
qed

lemma read_entry_stable:
  assumes "rodeo_laws R" and "rd_extends R i j" and "log_entry_ok R i e"
  shows "log_entry_ok R j e \<and> read_entry R j e = read_entry R i e"
  using assms(3) attrs.stable [OF assms(1,2)] opt.stable [OF assms(1,2)]
  by (simp add: log_entry_ok_def read_entry_def)

lemma intern_log_entry_reads:
  assumes laws: "rodeo_laws R" and bare: "bare e" and run: "intern_log_entry R i e = (j, a)"
  shows "rd_extends R i j \<and> log_entry_ok R j a \<and> read_entry R j a = told e"
proof -
  obtain entry attrs sev where e: "e = (entry, attrs, sev)" by (metis prod_cases3)
  obtain i1 ats msg where s: "thread_map (intern_log_attr R) i attrs = (i1, ats)"
    "intern_opt R i1 sev = (j, msg)" "a = entry\<lparr>le_attributes := ats, le_severity_text := msg\<rparr>"
    using run bare by (auto simp: intern_log_entry_def e bare_def split: prod.splits option.splits)
  note A = log_attr.list_interned [OF laws s(1)] and O = opt.interned [OF laws s(2)]
  have ok: "attrs_ok R i1 ats" "read_attrs R i1 ats = map (\<lambda>p. (fst p, told_value (snd p))) attrs"
    using A by (simp_all add: attrs_ok_def read_attrs_def)
  have "attrs_ok R j ats \<and> read_attrs R j ats = read_attrs R i1 ats"
    by (rule attrs.stable [OF laws conjunct1 [OF O] ok(1)])
  moreover have "entry\<lparr>le_attributes := [], le_severity_text := None\<rparr> = entry"
    using bare by (simp add: bare_def e)
  ultimately show ?thesis
    using O ok(2) rd_extends_trans [OF conjunct1 [OF A] conjunct1 [OF O]]
    by (simp add: s(3) log_entry_ok_def read_entry_def told_def e)
qed

lemma entries_interned:
  assumes laws: "rodeo_laws R" and bare: "\<forall>e \<in> set es. bare e"
    and run: "thread_map (intern_log_entry R) i es = (j, as)"
  shows "rd_extends R i j \<and> (\<forall>a \<in> set as. log_entry_ok R j a) \<and> map (read_entry R j) as = map told es"
proof -
  have "rd_extends R i j \<and> list_all2 (\<lambda>e a. log_entry_ok R j a \<and> read_entry R j a = told e) es as"
  proof (rule thread_map_grows [OF run])
    show "rd_extends R u w" if "rd_extends R u v" "rd_extends R v w" for u v w
      using that by (rule rd_extends_trans)
    show "rd_extends R u v \<and> log_entry_ok R v a \<and> read_entry R v a = told e"
      if "e \<in> set es" "intern_log_entry R u e = (v, a)" for u e v a
      using intern_log_entry_reads [OF laws _ that(2)] bare that(1) by simp
    show "log_entry_ok R v a \<and> read_entry R v a = told e"
      if "rd_extends R u v" "log_entry_ok R u a \<and> read_entry R u a = told e" for u v e a
      using read_entry_stable [OF laws that(1)] that(2) by simp
  qed simp
  then show ?thesis unfolding list_all2_meaning by blast
qed

section \<open>Storing batches\<close>

lemma sort_key_sort_append: "sort_key f (sort_key f xs @ ys) = sort_key f (xs @ ys)"
proof (rule properties_for_sort_key)
  show "mset (sort_key f (xs @ ys)) = mset (sort_key f xs @ ys)" by simp
  show "filter (\<lambda>x. f k = f x) (sort_key f (xs @ ys)) = filter (\<lambda>x. f k = f x) (sort_key f xs @ ys)" for k
  proof -
    have swap: "(\<lambda>x. f k = f x) = (\<lambda>x. f x = f k)" by auto
    show ?thesis unfolding swap by (simp only: sort_key_stable filter_append)
  qed
qed simp

lemma log_ingest_fields:
  assumes laws: "rodeo_laws R"
  shows "rd_extends R (lg_interner s) (lg_interner (log_ingest_stream R labels es s))"
    and "lg_next_stream_id (log_ingest_stream R labels es s) \<le> Suc (lg_next_stream_id s)"
proof -
  obtain i ls where intern: "intern_label_pairs R (lg_interner s) labels = (i, ls)" by force
  let ?s1 = "s\<lparr>lg_interner := i, lg_label_values := track_label_values (lg_label_values s) ls\<rparr>"
  obtain s2 x where alloc: "log_allocate ls ?s1 = (s2, x)" by force
  have s2: "lg_interner s2 = i \<and> lg_next_stream_id s2 \<le> Suc (lg_next_stream_id s)"
    using alloc by (auto simp: log_allocate_def Let_def u64_saturating_add_def split: option.splits)
  have "lg_interner (log_ingest_stream R labels es s) = i \<and>
      lg_next_stream_id (log_ingest_stream R labels es s) = lg_next_stream_id s2"
    using s2 by (simp add: log_ingest_stream_def intern alloc split: option.split)
  with s2 intern_label_pairs_spec(1) [OF laws intern]
  show "rd_extends R (lg_interner s) (lg_interner (log_ingest_stream R labels es s))"
    "lg_next_stream_id (log_ingest_stream R labels es s) \<le> Suc (lg_next_stream_id s)" by simp_all
qed

lemma log_base_interner:
  assumes "rodeo_laws R" and "rd_extends R (lg_interner s) i" and "log_base R s"
  shows "log_base R (s\<lparr>lg_interner := i\<rparr>) \<and> log_view R (s\<lparr>lg_interner := i\<rparr>) = log_view R s"
proof -
  note wf = log_baseD(1) [OF assms(3), unfolded log_labelled_def]
  from labelled_wf_extends [OF assms(1,2) wf] series_view_extends [OF assms(1,2) wf, of ls_entries]
  show ?thesis using assms(3) by (simp add: log_base_def log_labelled_def log_view_def)
qed

lemma log_view_sorted:
  assumes "log_base R s"
  shows "sorted (map le_timestamp_ns (log_view R s f))"
  using log_baseD(1) [OF assms] unfolding log_labelled_def
proof (cases rule: series_view_cases [where f = f and dat = ls_entries])
  case (item x st)
  then show ?thesis
    using entries_sortedD [OF log_baseD(2) [OF assms]] by (simp add: log_view_def)
qed (simp add: log_view_def)

lemma log_view_sort: "log_base R s \<Longrightarrow> sort_key le_timestamp_ns (log_view R s f) = log_view R s f"
  by (rule sort_key_id_if_sorted) (rule log_view_sorted)

text \<open>
  What storing the batches \<open>bs\<close> does: under each label function the entries of its batches are
  merged stably by time into those that were there.
\<close>

definition logs_stored :: "'i rodeo_ops \<Rightarrow> 'i log_store \<Rightarrow> 'i log_store \<Rightarrow> log_batch list \<Rightarrow> bool" where
  "logs_stored R s s' bs \<longleftrightarrow> log_base R s' \<and> (traces_ok s \<longrightarrow> traces_ok s') \<and>
     rd_extends R (lg_interner s) (lg_interner s') \<and>
     lg_next_stream_id s' \<le> lg_next_stream_id s + length bs \<and>
     (\<forall>f. \<exists>new. log_view R s' f = sort_key le_timestamp_ns (log_view R s f @ new) \<and>
        (\<forall>e \<in> set new. log_entry_ok R (lg_interner s') e) \<and>
        map (read_entry R (lg_interner s')) new =
          concat (map (\<lambda>b. map told (snd b)) (filter (\<lambda>b. label_fun (fst b) = f) bs)))"

lemma logs_stored_refl: "log_base R s \<Longrightarrow> logs_stored R s s []"
  by (simp add: logs_stored_def log_view_sort)

lemma logs_stored_trans:
  assumes laws: "rodeo_laws R" and 1: "logs_stored R s u bs" and 2: "logs_stored R u v cs"
  shows "logs_stored R s v (bs @ cs)"
  unfolding logs_stored_def
proof (intro conjI allI)
  show "log_base R v" "traces_ok s \<longrightarrow> traces_ok v"
    "lg_next_stream_id v \<le> lg_next_stream_id s + length (bs @ cs)"
    using 1 2 by (auto simp: logs_stored_def)
  have grow: "rd_extends R (lg_interner u) (lg_interner v)" using 2 by (simp add: logs_stored_def)
  show "rd_extends R (lg_interner s) (lg_interner v)"
    using 1 by (intro rd_extends_trans [OF _ grow]) (simp add: logs_stored_def)
  fix f :: "string \<Rightarrow> string list"
  let ?t = "\<lambda>bs. concat (map (\<lambda>b. map told (snd b)) (filter (\<lambda>b. label_fun (fst b) = f) bs))"
  obtain n1 where n1: "log_view R u f = sort_key le_timestamp_ns (log_view R s f @ n1)"
    "\<forall>e \<in> set n1. log_entry_ok R (lg_interner u) e" "map (read_entry R (lg_interner u)) n1 = ?t bs"
    using 1 unfolding logs_stored_def by blast
  obtain n2 where n2: "log_view R v f = sort_key le_timestamp_ns (log_view R u f @ n2)"
    "\<forall>e \<in> set n2. log_entry_ok R (lg_interner v) e" "map (read_entry R (lg_interner v)) n2 = ?t cs"
    using 2 unfolding logs_stored_def by blast
  have "(\<forall>e \<in> set n1. log_entry_ok R (lg_interner v) e) \<and>
      map (read_entry R (lg_interner v)) n1 = map (read_entry R (lg_interner u)) n1"
    using n1(2) read_entry_stable [OF laws grow] by simp
  with n1 n2 show "\<exists>new. log_view R v f = sort_key le_timestamp_ns (log_view R s f @ new) \<and>
      (\<forall>e \<in> set new. log_entry_ok R (lg_interner v) e) \<and>
      map (read_entry R (lg_interner v)) new = ?t (bs @ cs)"
    by (intro exI [of _ "n1 @ n2"]) (auto simp: sort_key_sort_append)
qed

lemma store_log_batch_stored:
  assumes laws: "rodeo_laws R" and wf: "log_base R s" and room: "lg_next_stream_id s < u64_max"
    and bare: "\<forall>e \<in> set (snd b). bare e"
  shows "logs_stored R s (store_log_batch R b s) [b]"
proof -
  obtain i es where run: "thread_map (intern_log_entry R) (lg_interner s) (snd b) = (i, es)" by force
  note E = entries_interned [OF laws bare run]
  let ?u = "s\<lparr>lg_interner := i\<rparr>" let ?s = "log_ingest_stream R (fst b) es ?u"
  note U = log_base_interner [OF laws conjunct1 [OF E] wf]
  have next_id: "lg_next_stream_id ?u < u64_max" using room by simp
  note I = log_ingest_correct [OF laws conjunct1 [OF U] next_id, of "fst b" es]
  have grow: "rd_extends R i (lg_interner ?s)"
    using log_ingest_fields(1) [OF laws, of ?u] by simp
  have read: "(\<forall>e \<in> set es. log_entry_ok R (lg_interner ?s) e) \<and>
      map (read_entry R (lg_interner ?s)) es = map told (snd b)"
    using E read_entry_stable [OF laws grow] by (metis (no_types, lifting) map_cong)
  have tr: "traces_ok ?u \<longleftrightarrow> traces_ok s" by (simp add: traces_ok_def)
  have view: "\<exists>new. log_view R ?s f = sort_key le_timestamp_ns (log_view R s f @ new) \<and>
      (\<forall>e \<in> set new. log_entry_ok R (lg_interner ?s) e) \<and>
      map (read_entry R (lg_interner ?s)) new =
        concat (map (\<lambda>b. map told (snd b)) (filter (\<lambda>b. label_fun (fst b) = f) [b]))" for f
  proof (cases "label_fun (fst b) = f")
    case True
    with I U read show ?thesis by (intro exI [of _ es]) simp
  next
    case False
    then have "log_view R ?s f = log_view R s f" using I U by simp
    then show ?thesis using False by (intro exI [of _ "[]"]) (simp add: log_view_sort [OF wf])
  qed
  have "rd_extends R (lg_interner s) (lg_interner ?s)"
    by (rule rd_extends_trans [OF conjunct1 [OF E] grow])
  with I tr view log_ingest_fields(2) [OF laws, of "fst b" es ?u] show ?thesis
    unfolding logs_stored_def store_log_batch_def run by simp
qed

lemma store_log_batches:
  assumes laws: "rodeo_laws R" and wf: "log_base R s"
    and room: "lg_next_stream_id s + length bs \<le> u64_max" and bare: "\<forall>b \<in> set bs. \<forall>e \<in> set (snd b). bare e"
  shows "logs_stored R s (fold (store_log_batch R) bs s) bs"
  using wf room bare
proof (induction bs arbitrary: s)
  case Nil
  then show ?case by (simp add: logs_stored_refl)
next
  case (Cons b bs)
  have 1: "logs_stored R s (store_log_batch R b s) [b]"
    by (rule store_log_batch_stored [OF laws Cons.prems(1)]) (use Cons.prems in simp_all)
  have "logs_stored R (store_log_batch R b s) (fold (store_log_batch R) bs (store_log_batch R b s)) bs"
    by (rule Cons.IH) (use 1 Cons.prems in \<open>simp_all add: logs_stored_def\<close>)
  from logs_stored_trans [OF laws 1 this] show ?case by simp
qed

section \<open>Grouping\<close>

definition first_seen :: "'a list \<Rightarrow> 'a list" where
  "first_seen xs = fold (\<lambda>x ys. if x \<in> set ys then ys else ys @ [x]) xs []"

lemma first_seen_snoc [simp]:
  "first_seen (xs @ [x]) = (if x \<in> set (first_seen xs) then first_seen xs else first_seen xs @ [x])"
  by (simp add: first_seen_def)

lemma first_seen_spec: "set (first_seen xs) = set xs \<and> distinct (first_seen xs)"
  by (induction xs rule: rev_induct) (auto simp: first_seen_def)

text \<open>The records of one label set, and the batches a list of labelled records is grouped into.\<close>

type_synonym labelled_entry = "(string \<times> string) list \<times> raw_entry"

definition having :: "(string \<times> string) list \<Rightarrow> labelled_entry list \<Rightarrow> raw_entry list" where
  "having labels rs = map snd (filter (\<lambda>r. fst r = labels) rs)"

definition batches_of :: "labelled_entry list \<Rightarrow> log_batch list" where
  "batches_of rs = map (\<lambda>labels. (labels, having labels rs)) (first_seen (map fst rs))"

definition index_ok :: "'k list \<Rightarrow> ('k, usize) hash_map \<Rightarrow> bool" where
  "index_ok ks m \<longleftrightarrow> (\<forall>k n. hm_get m k = Some n \<longleftrightarrow> n < length ks \<and> ks ! n = k)"

lemma index_ok_snoc:
  assumes "index_ok ks m" and "k \<notin> set ks"
  shows "index_ok (ks @ [k]) (hm_insert k (length ks) m)"
  unfolding index_ok_def
proof (intro allI)
  fix x n
  have "ks ! n \<noteq> k" if "n < length ks" using assms(2) that nth_mem by blast
  then show "hm_get (hm_insert k (length ks) m) x = Some n \<longleftrightarrow>
      n < length (ks @ [k]) \<and> (ks @ [k]) ! n = x"
    using assms(1) by (auto simp: index_ok_def hm_simps nth_append)
qed

lemma having_snoc: "having labels (rs @ [(l, e)]) = having labels rs @ (if l = labels then [e] else [])"
  by (simp add: having_def)

lemma group_record_step:
  assumes "index_ok (first_seen (map fst rs)) (snd g)" and "fst g = batches_of rs"
  shows "index_ok (first_seen (map fst (rs @ [(l, e)]))) (snd (group_record l e g)) \<and>
    fst (group_record l e g) = batches_of (rs @ [(l, e)])"
proof -
  let ?ks = "first_seen (map fst rs)"
  note F = first_seen_spec [of "map fst rs"]
  obtain m where g: "g = (batches_of rs, m)" using assms(2) by (cases g) simp
  have ok: "index_ok ?ks m" using assms(1) by (simp add: g)
  show ?thesis
  proof (cases "hm_get m l")
    case None
    have new: "l \<notin> set ?ks"
    proof
      assume "l \<in> set ?ks"
      then obtain n where "n < length ?ks" "?ks ! n = l" by (auto simp: in_set_conv_nth)
      then have "hm_get m l = Some n" using ok by (simp add: index_ok_def)
      with None show False by simp
    qed
    then have none: "having l rs = []" using F by (force simp: having_def filter_empty_conv)
    have "map (\<lambda>x. (x, having x (rs @ [(l, e)]))) ?ks = batches_of rs"
      using new by (auto simp: batches_of_def having_snoc)
    with new none index_ok_snoc [OF ok new] show ?thesis
      by (simp add: group_record_def g None batches_of_def having_snoc)
  next
    case (Some n)
    then have n: "n < length ?ks" "?ks ! n = l" using ok by (simp_all add: index_ok_def)
    then have old: "l \<in> set ?ks" using nth_mem by blast
    have "(batches_of rs)[n := (l, having l rs @ [e])] = batches_of (rs @ [(l, e)])"
    proof (rule nth_equalityI)
      show "length ((batches_of rs)[n := (l, having l rs @ [e])]) = length (batches_of (rs @ [(l, e)]))"
        using old by (simp add: batches_of_def)
      fix k assume "k < length ((batches_of rs)[n := (l, having l rs @ [e])])"
      then have k: "k < length ?ks" by (simp add: batches_of_def)
      have "?ks ! k = l \<longleftrightarrow> k = n" using F n k nth_eq_iff_index_eq by metis
      with k n old show "(batches_of rs)[n := (l, having l rs @ [e])] ! k = batches_of (rs @ [(l, e)]) ! k"
        by (auto simp: batches_of_def having_snoc nth_list_update)
    qed
    with n old ok show ?thesis
      by (simp add: group_record_def g Some) (simp add: batches_of_def)
  qed
qed

section \<open>Requests\<close>

type_synonym placed_record = "resource_logs \<times> otlp_log_record"

definition request_records :: "resource_logs list \<Rightarrow> placed_record list" where
  "request_records req = concat (map (\<lambda>rl. map (Pair rl) (concat (rl_scope_logs rl))) req)"

definition record_meaning :: "log_ingest_env \<Rightarrow> placed_record \<Rightarrow> u64 \<Rightarrow> labelled_entry" where
  "record_meaning L placed n =
     (record_labels (promote_service_name (extract_resource_labels (li_fmt L) (rl_resource (fst placed)))) (snd placed),
      log_entry_of_otlp L (snd placed) n)"

lemma prepare_records:
  assumes "seq \<le> u64_max"
    and "index_ok (first_seen (map fst rs)) m"
  shows "\<exists>m'. fold (prepare_resource_logs L) req (seq, batches_of rs, m) =
      (stamp seq (length (request_records req)),
       batches_of (rs @ stamped (record_meaning L) seq (request_records req)), m')"
proof -
  define step where "step = (\<lambda>(rl :: resource_logs, r). prepare_log_record L
    (promote_service_name (extract_resource_labels (li_fmt L) (rl_resource rl))) r)"
  have flat: "fold (prepare_resource_logs L) req = fold step (request_records req)" for req
  proof (induction req)
    case (Cons rl req)
    have "fold (\<lambda>rs. fold f rs) xss = fold f (concat xss)" for f :: "otlp_log_record \<Rightarrow> u64 \<times> grouped_logs \<Rightarrow> u64 \<times> grouped_logs" and xss
      by (induction xss) (auto simp: fun_eq_iff)
    moreover have "fold step (map (Pair rl) xs) =
        fold (prepare_log_record L (promote_service_name (extract_resource_labels (li_fmt L) (rl_resource rl)))) xs" for xs
      by (induction xs) (simp_all add: step_def)
    ultimately show ?case
      using Cons by (simp add: request_records_def prepare_resource_logs_def fun_eq_iff Let_def)
  qed (simp add: request_records_def)
  have "\<exists>m'. fold step ps (seq, batches_of rs, m) =
      (stamp seq (length ps), batches_of (rs @ stamped (record_meaning L) seq ps), m')" for ps
    using assms
  proof (induction ps arbitrary: seq rs m)
    case Nil
    then show ?case by simp
  next
    case (Cons p ps)
    obtain l e where le: "record_meaning L p seq = (l, e)" by (rule prod.exhaust)
    obtain b' m' where g: "group_record l e (batches_of rs, m) = (b', m')" by (rule prod.exhaust)
    have "index_ok (first_seen (map fst (rs @ [(l, e)]))) m' \<and> b' = batches_of (rs @ [(l, e)])"
      using group_record_step [of rs "(batches_of rs, m)" l e] Cons.prems(2) g by simp
    moreover have "step p (seq, batches_of rs, m) = (stamp seq 1, b', m')"
      using g le by (cases p) (auto simp: step_def prepare_log_record_def record_meaning_def
          stamp_Suc fetch_add_def)
    ultimately show ?case
      using Cons.IH [of "stamp seq 1" "rs @ [(l, e)]" m'] Cons.prems(1) le
      by (simp add: stamped_Cons)
  qed
  then show ?thesis unfolding flat by blast
qed

lemma bare_otlp: "bare (log_entry_of_otlp L r n)"
  by (simp add: bare_def log_entry_of_otlp_def)

definition request_batches :: "log_ingest_env \<Rightarrow> u64 \<Rightarrow> resource_logs list \<Rightarrow> log_batch list" where
  "request_batches L seq req = batches_of (stamped (record_meaning L) seq (request_records req))"

lemma request_batches_bare: "\<forall>b \<in> set (request_batches L seq req). \<forall>e \<in> set (snd b). bare e"
  by (auto simp: request_batches_def batches_of_def having_def set_stamped record_meaning_def bare_otlp)

lemma ingest_logs_eq:
  assumes "ap_seq a \<le> u64_max"
  shows "ingest_logs R L req a =
    (a\<lparr>ap_seq := stamp (ap_seq a) (length (request_records req)),
       ap_log := fold (store_log_batch R) (request_batches L (ap_seq a) req) (ap_log a)\<rparr>,
     sum_list (map (\<lambda>b. length (snd b)) (request_batches L (ap_seq a) req)))"
proof -
  have "batches_of [] = []" "index_ok (first_seen (map fst [])) ([] :: ((string \<times> string) list, usize) hash_map)"
    by (simp_all add: batches_of_def first_seen_def index_ok_def)
  with prepare_records [OF assms, of "[]" "[]" L req] show ?thesis
    by (auto simp: ingest_logs_def request_batches_def)
qed

text \<open>Grouping neither drops nor invents a record.\<close>

lemma mset_add_at:
  assumes "distinct ks" and "l \<in> set ks" and "P l"
  shows "mset (concat (map (\<lambda>x. H x @ (if l = x then [e] else [])) (filter P ks))) =
    add_mset e (mset (concat (map H (filter P ks))))"
  using assms
proof (induction ks)
  case (Cons k ks)
  show ?case
  proof (cases "k = l")
    case True
    with Cons.prems have "l \<notin> set ks" by auto
    then have eq: "map (\<lambda>x. H x @ (if l = x then [e] else [])) (filter P ks) = map H (filter P ks)" by auto
    from True Cons.prems show ?thesis by (simp add: eq)
  qed (use Cons in auto)
qed simp

lemma batches_of_mset:
  "mset (concat (map snd (filter (\<lambda>b. P (fst b)) (batches_of rs)))) =
     mset (map snd (filter (\<lambda>r. P (fst r)) rs))"
proof -
  have eq: "concat (map snd (filter (\<lambda>b. P (fst b)) (batches_of rs))) =
      concat (map (\<lambda>l. having l rs) (filter P (first_seen (map fst rs))))" for rs
    by (simp add: batches_of_def filter_map comp_def)
  have "mset (concat (map (\<lambda>l. having l rs) (filter P (first_seen (map fst rs))))) =
      mset (map snd (filter (\<lambda>r. P (fst r)) rs))"
  proof (induction rs rule: rev_induct)
    case Nil
    show ?case by (simp add: first_seen_def)
  next
    case (snoc r rs)
    obtain l e where r: "r = (l, e)" by (rule prod.exhaust)
    let ?ks = "first_seen (map fst rs)"
    note F = first_seen_spec [of "map fst rs"]
    show ?case
    proof (cases "l \<in> set ?ks")
      case True
      then have ks: "first_seen (map fst (rs @ [r])) = ?ks" by (simp add: r)
      show ?thesis
      proof (cases "P l")
        case True
        with mset_add_at [where H = "\<lambda>x. having x rs" and e = e and P = P, OF conjunct2 [OF F] \<open>l \<in> set ?ks\<close>] snoc
        show ?thesis unfolding ks by (simp add: r having_snoc)
      next
        case False
        have eq: "map (\<lambda>x. having x (rs @ [r])) (filter P ?ks) = map (\<lambda>x. having x rs) (filter P ?ks)"
          using False by (auto simp: r having_snoc)
        from False snoc show ?thesis unfolding ks eq by (simp add: r)
      qed
    next
      case False
      then have none: "having l rs = []" using F by (force simp: having_def filter_empty_conv)
      have eq: "map (\<lambda>x. having x (rs @ [r])) (filter P ?ks) = map (\<lambda>x. having x rs) (filter P ?ks)"
        using False by (auto simp: r having_snoc)
      have "first_seen (map fst (rs @ [r])) = ?ks @ [l]" using False by (simp add: r)
      then have "concat (map (\<lambda>x. having x (rs @ [r])) (filter P (first_seen (map fst (rs @ [r]))))) =
          concat (map (\<lambda>x. having x rs) (filter P ?ks)) @ (if P l then [e] else [])"
        using none by (simp only: filter_append map_append concat_append eq) (simp add: r having_snoc)
      with snoc show ?thesis by (simp add: r)
    qed
  qed
  then show ?thesis unfolding eq .
qed

lemma batches_of_length: "sum_list (map (\<lambda>b. length (snd b)) (batches_of rs)) = length rs"
  using arg_cong [OF batches_of_mset [of "\<lambda>_. True" rs], of size] by (simp add: length_concat comp_def)

lemma length_batches_of: "length (batches_of rs) \<le> length rs"
proof -
  have "length (first_seen (map fst rs)) = card (set (map fst rs))"
    using first_seen_spec [of "map fst rs"] distinct_card by metis
  then show ?thesis using card_length [of "map fst rs"] by (simp add: batches_of_def)
qed

lemma ingest_logs_stored:
  assumes laws: "rodeo_laws R" and wf: "log_base R (ap_log a)" and seq: "ap_seq a \<le> u64_max"
    and room: "lg_next_stream_id (ap_log a) + length (request_records req) \<le> u64_max"
  shows "logs_stored R (ap_log a) (ap_log (fst (ingest_logs R L req a))) (request_batches L (ap_seq a) req)"
proof -
  have "lg_next_stream_id (ap_log a) + length (request_batches L (ap_seq a) req) \<le> u64_max"
    using room length_batches_of [of "stamped (record_meaning L) (ap_seq a) (request_records req)"]
    by (simp add: request_batches_def)
  from store_log_batches [OF laws wf this request_batches_bare]
  show ?thesis by (simp add: ingest_logs_eq [OF seq])
qed

section \<open>Loki\<close>

text \<open>A Loki stream as a batch: its metadata are string attributes, there is no severity text.\<close>

definition of_loki :: "log_entry \<times> (string \<times> string) list \<Rightarrow> raw_entry" where
  "of_loki e = (fst e, map (\<lambda>p. (fst p, PLString (snd p))) (snd e), None)"

lemma thread_map_map: "thread_map f s (map g xs) = thread_map (\<lambda>s x. f s (g x)) s xs"
  by (induction xs arbitrary: s) simp_all

lemma store_loki_batch_eq:
  assumes "\<forall>e \<in> set (snd b). le_severity_text (fst e) = None"
  shows "store_loki_batch R b s = store_log_batch R (fst b, map of_loki (snd b)) s"
proof -
  have attr: "intern_loki_attr R = (\<lambda>i p. intern_log_attr R i (fst p, PLString (snd p)))"
    by (simp add: intern_loki_attr_def intern_log_attr_def fun_eq_iff split: prod.split)
  have "intern_loki_entry R i e = intern_log_entry R i (of_loki e)" if "le_severity_text (fst e) = None" for i e
    using that by (simp add: intern_loki_entry_def intern_log_entry_def of_loki_def thread_map_map attr
        intern_opt_def split: prod.split)
  then have "thread_map (intern_loki_entry R) (lg_interner s) (snd b) =
      thread_map (\<lambda>i e. intern_log_entry R i (of_loki e)) (lg_interner s) (snd b)"
    using assms by (intro thread_map_cong) auto
  then show ?thesis by (simp add: store_loki_batch_def store_log_batch_def thread_map_map)
qed

definition loki_accepted :: "loki_stream \<Rightarrow> loki_value list" where
  "loki_accepted st = filter (\<lambda>v. parse_timestamp_ns (lo_ts v) \<noteq> None) (lm_values st)"

definition loki_meaning :: "(json \<Rightarrow> string) \<Rightarrow> loki_value \<Rightarrow> u64 \<Rightarrow> log_entry \<times> (string \<times> string) list" where
  "loki_meaning show_json v n = loki_entry show_json v (the (parse_timestamp_ns (lo_ts v))) n"

text \<open>The batches of a push, the streams stamped one after the other.\<close>

fun loki_batches :: "(json \<Rightarrow> string) \<Rightarrow> u64 \<Rightarrow> loki_stream list \<Rightarrow> loki_batch list" where
  "loki_batches show_json seq [] = []"
| "loki_batches show_json seq (st # sts) =
     (loki_labels show_json st, stamped (loki_meaning show_json) seq (loki_accepted st)) #
       loki_batches show_json (stamp seq (length (loki_accepted st))) sts"

lemma prepare_loki:
  "seq \<le> u64_max \<Longrightarrow> thread_map (prepare_loki_stream show_json) seq sts =
     (stamp seq (length (concat (map loki_accepted sts))), loki_batches show_json seq sts)"
proof (induction sts arbitrary: seq)
  case (Cons st sts)
  have "thread_filter_map (prepare_loki_value show_json) seq (lm_values st) =
      (stamp seq (length (loki_accepted st)), stamped (loki_meaning show_json) seq (loki_accepted st))"
    unfolding loki_accepted_def
    by (rule thread_filter_fetch [OF Cons.prems])
      (simp add: prepare_loki_value_def loki_meaning_def fetch_add_def split: option.split)
  with Cons.IH [of "stamp seq (length (loki_accepted st))"] show ?case
    by (simp add: prepare_loki_stream_def)
qed simp

definition loki_log_batches :: "(json \<Rightarrow> string) \<Rightarrow> u64 \<Rightarrow> loki_stream list \<Rightarrow> log_batch list" where
  "loki_log_batches show_json seq sts =
     map (\<lambda>b. (fst b, map of_loki (snd b))) (loki_batches show_json seq sts)"

lemma loki_entry_bare: "le_attributes (fst (loki_meaning show_json v n)) = [] \<and>
    le_severity_text (fst (loki_meaning show_json v n)) = None"
  by (simp add: loki_meaning_def loki_entry_def split: prod.split)

lemma loki_batches_bare: "b \<in> set (loki_batches show_json seq sts) \<Longrightarrow> e \<in> set (snd b) \<Longrightarrow>
    le_attributes (fst e) = [] \<and> le_severity_text (fst e) = None"
proof (induction sts arbitrary: seq)
  case (Cons st sts)
  then show ?case using loki_entry_bare by (auto simp: set_stamped)
qed simp

lemma length_loki_batches [simp]: "length (loki_batches show_json seq sts) = length sts"
  by (induction sts arbitrary: seq) simp_all

lemma ingest_loki_stored:
  assumes laws: "rodeo_laws R" and wf: "log_base R (ap_log a)" and seq: "ap_seq a \<le> u64_max"
    and room: "lg_next_stream_id (ap_log a) + length sts \<le> u64_max"
  shows "logs_stored R (ap_log a) (ap_log (fst (ingest_loki_push R show_json sts a)))
      (loki_log_batches show_json (ap_seq a) sts)"
    and "fst (ingest_loki_push R show_json sts a) =
      a\<lparr>ap_seq := stamp (ap_seq a) (length (concat (map loki_accepted sts))),
        ap_log := ap_log (fst (ingest_loki_push R show_json sts a))\<rparr>"
proof -
  let ?bs = "loki_batches show_json (ap_seq a) sts"
  have "store_loki_batch R b = store_log_batch R (fst b, map of_loki (snd b))" if "b \<in> set ?bs" for b
    by (rule ext) (rule store_loki_batch_eq, use loki_batches_bare [OF that] in blast)
  then have "fold (store_loki_batch R) ?bs s =
      fold (store_log_batch R) (map (\<lambda>b. (fst b, map of_loki (snd b))) ?bs) s" for s
    unfolding fold_map by (intro fold_cong) (simp_all add: comp_def)
  then have run: "fst (ingest_loki_push R show_json sts a) =
      a\<lparr>ap_seq := stamp (ap_seq a) (length (concat (map loki_accepted sts))),
        ap_log := fold (store_log_batch R) (loki_log_batches show_json (ap_seq a) sts) (ap_log a)\<rparr>"
    by (simp add: ingest_loki_push_def prepare_loki [OF seq] loki_log_batches_def)
  have "\<forall>b \<in> set (loki_log_batches show_json (ap_seq a) sts). \<forall>e \<in> set (snd b). bare e"
    using loki_batches_bare by (auto simp: loki_log_batches_def bare_def of_loki_def)
  moreover have "lg_next_stream_id (ap_log a) + length (loki_log_batches show_json (ap_seq a) sts) \<le> u64_max"
    using room by (simp add: loki_log_batches_def)
  ultimately show "logs_stored R (ap_log a) (ap_log (fst (ingest_loki_push R show_json sts a)))
      (loki_log_batches show_json (ap_seq a) sts)"
    using store_log_batches [OF laws wf] run by simp
  show "fst (ingest_loki_push R show_json sts a) =
      a\<lparr>ap_seq := stamp (ap_seq a) (length (concat (map loki_accepted sts))),
        ap_log := ap_log (fst (ingest_loki_push R show_json sts a))\<rparr>"
    unfolding run by simp
qed

text \<open>Ids written in hexadecimal are read back.\<close>

lemma parse_hex_ids:
  "length t = 16 \<Longrightarrow> parse_hex_trace_id (hex_encode t) = Some t"
  "length s = 8 \<Longrightarrow> parse_hex_span_id (hex_encode s) = Some s"
  by (simp_all add: parse_hex_trace_id_def parse_hex_span_id_def hex_pairs_encode)

section \<open>Property\<close>

text \<open>
  C26: an OTLP log export, and a Loki push, merge into every label set exactly the records of the
  request with those labels, stably by time, and leave the other label sets as they were; read
  back through the interner each stored entry says what its record says, attributes typed. The
  invariant holds on, records take consecutive sequence numbers, and no other part of the state
  changes.
\<close>

theorem pushed_logs_stored:
  assumes "rodeo_laws R" and "log_wf R (ap_log a)" and "ap_seq a \<le> u64_max"
    and "lg_next_stream_id (ap_log a) + length (request_records req) \<le> u64_max"
    and "lg_next_stream_id (ap_log a) + length sts \<le> u64_max"
    and "ingest_logs R L req a = (a', n)" and "ingest_loki_push R show_json sts a = (p', ns)"
  shows "(\<forall>(s', bs) \<in> {(ap_log a', request_batches L (ap_seq a) req),
                      (ap_log p', loki_log_batches show_json (ap_seq a) sts)}.
      log_wf R s' \<and>
      (\<forall>f. \<exists>new. log_view R s' f = sort_key le_timestamp_ns (log_view R (ap_log a) f @ new) \<and>
         map (read_entry R (lg_interner s')) new =
           concat (map (\<lambda>b. map told (snd b)) (filter (\<lambda>b. label_fun (fst b) = f) bs)))) \<and>
    n = length (request_records req) \<and>
    a' = a\<lparr>ap_seq := stamp (ap_seq a) n, ap_log := ap_log a'\<rparr> \<and>
    p' = a\<lparr>ap_seq := stamp (ap_seq a) (length (concat (map loki_accepted sts))), ap_log := ap_log p'\<rparr>"
proof -
  have base: "log_base R (ap_log a)" and tr: "traces_ok (ap_log a)"
    using assms(2) by (simp_all add: log_wf_def)
  note O = ingest_logs_stored [OF assms(1) base assms(3,4), of L] and E = ingest_logs_eq [OF assms(3), of R L req]
  note K = ingest_loki_stored [OF assms(1) base assms(3,5), of show_json]
  have "n = length (request_records req)"
    using E assms(6) by (simp add: request_batches_def batches_of_length)
  moreover have "a' = a\<lparr>ap_seq := stamp (ap_seq a) (length (request_records req)), ap_log := ap_log a'\<rparr>"
    using E assms(6) by auto
  ultimately show ?thesis
    using O K tr assms(6,7) unfolding logs_stored_def log_wf_def by auto
qed

definition sample_log_env :: log_ingest_env where
  "sample_log_env = \<lparr>li_fmt = (\<lambda>_. []), li_json = (\<lambda>_. None), li_now = (\<lambda>_. 0)\<rparr>"

definition sample_log_request :: "resource_logs list" where
  "sample_log_request = [\<lparr>rl_resource = Some [(''service.name'', Some (StringValue ''db''))],
     rl_scope_logs = [[\<lparr>or_time_unix_nano = 5, or_severity_number = 9, or_severity_text = [],
       or_body = Some (StringValue ''hi''), or_attributes = [], or_trace_id = [], or_span_id = []\<rparr>]]\<rparr>]"

definition sample_push :: "loki_stream list" where
  "sample_push = [\<lparr>lm_stream = [(''env'', JString ''prod'')],
     lm_values = [\<lparr>lo_ts = ''5'', lo_line = ''yo'', lo_metadata = None\<rparr>]\<rparr>]"

lemma read_entry_lines: "map (read_entry R i) es = ts \<Longrightarrow> map le_line es = map (le_line \<circ> fst) ts"
  by (auto simp: read_entry_def)

theorem pushed_logs_stored_witness:
  "map le_line (log_view list_rodeo (ap_log (fst (ingest_logs list_rodeo sample_log_env sample_log_request sample_state)))
      (label_fun [(''service'', ''db''), (''level'', ''info'')])) = [''hi''] \<and>
   map le_line (log_view list_rodeo (ap_log (fst (ingest_loki_push list_rodeo (\<lambda>_. []) sample_push sample_state)))
      (label_fun [(''env'', ''prod'')])) = [''yo'']"
proof -
  let ?a = "ingest_logs list_rodeo sample_log_env sample_log_request sample_state"
  let ?p = "ingest_loki_push list_rodeo (\<lambda>_. []) sample_push sample_state"
  have wf: "log_wf list_rodeo (ap_log sample_state)" by (simp add: sample_state_def log_new_wf)
  have hyps: "ap_seq sample_state \<le> u64_max"
    "lg_next_stream_id (ap_log sample_state) + length (request_records sample_log_request) \<le> u64_max"
    "lg_next_stream_id (ap_log sample_state) + length sample_push \<le> u64_max"
    by (simp_all add: sample_state_def u64_max_def log_new_def request_records_def
        sample_log_request_def sample_push_def)
  have old: "log_view list_rodeo (ap_log sample_state) f = []" for f
    by (simp add: sample_state_def log_view_def log_new_def series_view_def)
  have b: "request_batches sample_log_env (ap_seq sample_state) sample_log_request =
      [([(''service'', ''db''), (''level'', ''info'')],
        [log_entry_of_otlp sample_log_env (hd (hd (rl_scope_logs (hd sample_log_request)))) 1])]"
    by (simp add: request_batches_def request_records_def sample_log_request_def stamped_def stamp_def
        u64_max_def sample_state_def batches_of_def first_seen_def having_def record_meaning_def
        record_labels_def severity_to_level_def promote_service_name_def extract_resource_labels_def
        extract_key_values_def any_value_to_string_def List.map_filter_simps vec_remove_def)
  have "parse_timestamp_ns ''5'' = Some 5000000000" by code_simp
  then have c: "loki_log_batches (\<lambda>_. []) (ap_seq sample_state) sample_push =
      [([(''env'', ''prod'')], [of_loki (loki_meaning (\<lambda>_. []) (hd (lm_values (hd sample_push))) 1)])]"
    by (simp add: loki_log_batches_def sample_push_def loki_labels_def json_text_def loki_accepted_def
        stamped_def stamp_def u64_max_def sample_state_def)
  note P = pushed_logs_stored [OF list_rodeo_laws wf hyps prod.collapse [symmetric] prod.collapse [symmetric],
      where L = sample_log_env and show_json = "\<lambda>_. []"]
  have "\<exists>new. log_view list_rodeo (ap_log (fst ?a)) (label_fun [(''service'', ''db''), (''level'', ''info'')]) =
      sort_key le_timestamp_ns new \<and> map le_line new = [''hi'']"
    using P unfolding old b
    by (fastforce dest!: read_entry_lines simp: told_def log_entry_of_otlp_def sample_log_request_def log_value_to_string_def)
  moreover have "\<exists>new. log_view list_rodeo (ap_log (fst ?p)) (label_fun [(''env'', ''prod'')]) =
      sort_key le_timestamp_ns new \<and> map le_line new = [''yo'']"
    using P unfolding old c
    by (fastforce dest!: read_entry_lines simp: told_def of_loki_def loki_meaning_def loki_entry_def sample_push_def)
  ultimately show ?thesis by auto
qed

end
