(* ===== verification/Log_Answers.thy ===== *)
theory Log_Answers
  imports Log_Ingest_Correct Logql_Eval_Correct
begin

text \<open>
  From ingestion to the answer: a LogQL selector evaluated over the store answers as a filter over the
  abstract contents, so what was pushed is what a later query returns.
\<close>

section \<open>Selectors over the abstract contents\<close>

text \<open>The entries an answer holds under a label set.\<close>

definition answered :: "stream_result list \<Rightarrow> (string \<Rightarrow> string list) \<Rightarrow> resolved_entry list" where
  "answered answers f = concat (map sr_entries (filter (\<lambda>r. label_fun (sr_labels r) = f) answers))"

lemma answered_concat: "answered (concat (map h xs)) f = concat (map (\<lambda>x. answered (h x) f) xs)"
  by (induction xs) (simp_all add: answered_def)

lemma answered_stream:
  assumes "hm_get (lg_streams s) sid = Some st"
  shows "answered (stream_answer E [] s b c sid) f =
    (if label_fun (resolve_labels (lv_rodeo E) (lg_interner s) (ls_labels st)) = f
     then map (resolve_entry E (lg_interner s)) (filter (in_window b c) (ls_entries st)) else [])"
  using assms
  by (auto simp: answered_def stream_answer_def matched_entries_def stream_labels_def get_stream_labels_def entries_of_def
      apply_stages_def apply_stages_with_extract_def Let_def)

lemma selector_answers_view:
  assumes laws: "rodeo_laws (lv_rodeo E)" and wf: "log_wf (lv_rodeo E) s"
    and valid: "\<forall>m \<in> set (convert_matchers ms). matcher_valid (lv_regex E) m" and "b \<le> c"
  shows "\<exists>answers. evaluate_stream_query E ms [] s b c None = Inr (Streams answers) \<and>
    (\<forall>f. answered answers f =
      (if selects (lv_regex E) (convert_matchers ms) f
       then map (resolve_entry E (lg_interner s)) (filter (in_window b c) (log_view (lv_rodeo E) s f)) else []))"
proof -
  let ?sids = "query_streams (lv_rodeo E) (lv_regex E) s (convert_matchers ms)"
  note L = log_baseD(1) [OF log_base_wf [OF wf], unfolded log_labelled_def]
  have "answered (concat (map (stream_answer E [] s b c) ?sids)) f =
      (if selects (lv_regex E) (convert_matchers ms) f
       then map (resolve_entry E (lg_interner s)) (filter (in_window b c) (log_view (lv_rodeo E) s f)) else [])" for f
    unfolding answered_concat query_streams_def log_view_def
    by (rule selected_view [OF laws L valid, where h = "\<lambda>es. map (resolve_entry E (lg_interner s)) (filter (in_window b c) es)"])
      (simp_all add: answered_stream)
  moreover have "evaluate_stream_query E ms [] s b c None = Inr (Streams (concat (map (stream_answer E [] s b c) ?sids)))"
    by (simp add: evaluate_stream_query_def unlimited_total [OF wf assms(4)])
  ultimately show ?thesis by blast
qed

section \<open>What was pushed\<close>

text \<open>Time and line of an entry, of an answer's entry, and of the records of a request under a label set.\<close>

definition timed_line :: "log_entry \<Rightarrow> i64 \<times> string" where
  "timed_line e = (le_timestamp_ns e, le_line e)"

definition answered_lines :: "stream_result list \<Rightarrow> (string \<Rightarrow> string list) \<Rightarrow> (i64 \<times> string) list" where
  "answered_lines answers f = map (\<lambda>x. (re_timestamp_ns x, re_line x)) (answered answers f)"

definition sent_lines :: "log_batch list \<Rightarrow> (string \<Rightarrow> string list) \<Rightarrow> (i64 \<times> string) list" where
  "sent_lines bs f = concat (map (\<lambda>b. map (timed_line \<circ> fst) (snd b)) (filter (\<lambda>b. label_fun (fst b) = f) bs))"

lemma stored_lines:
  assumes "logs_stored R s s' bs"
  shows "map timed_line (log_view R s' f) = sort_key fst (map timed_line (log_view R s f) @ sent_lines bs f)"
proof -
  obtain new where new: "log_view R s' f = sort_key le_timestamp_ns (log_view R s f @ new)"
    "map (read_entry R (lg_interner s')) new = concat (map (\<lambda>b. map told (snd b)) (filter (\<lambda>b. label_fun (fst b) = f) bs))"
    using assms unfolding logs_stored_def by blast
  have "map timed_line new = map (timed_line \<circ> fst) (map (read_entry R (lg_interner s')) new)"
    by (simp add: read_entry_def timed_line_def)
  also have "\<dots> = sent_lines bs f"
    unfolding new(2) by (simp add: sent_lines_def map_concat comp_def told_def timed_line_def case_prod_beta)
  finally have "map timed_line new = sent_lines bs f" .
  then show ?thesis
    using sort_key_map [of fst timed_line "log_view R s f @ new"] by (simp add: new(1) timed_line_def)
qed

lemma stored_lines_answered:
  assumes st: "logs_stored (lv_rodeo E) s s' bs" and laws: "rodeo_laws (lv_rodeo E)" and wf: "log_wf (lv_rodeo E) s"
    and valid: "\<forall>m \<in> set (convert_matchers ms). matcher_valid (lv_regex E) m" and "b \<le> c"
  shows "\<exists>answers. evaluate_stream_query E ms [] s' b c None = Inr (Streams answers) \<and>
    (\<forall>f. answered_lines answers f =
      (if selects (lv_regex E) (convert_matchers ms) f
       then filter (\<lambda>(t, l). b \<le> t \<and> t \<le> c) (sort_key fst (map timed_line (log_view (lv_rodeo E) s f) @ sent_lines bs f))
       else []))"
proof -
  have wf': "log_wf (lv_rodeo E) s'" using st wf by (simp add: logs_stored_def log_wf_def)
  have flt: "filter (\<lambda>(t, l). b \<le> t \<and> t \<le> c) (map timed_line xs) = map timed_line (filter (in_window b c) xs)" for xs
    by (simp add: filter_map comp_def timed_line_def in_window_def [abs_def])
  have res: "map (\<lambda>x. (re_timestamp_ns x, re_line x)) (map (resolve_entry E i) xs) = map timed_line xs" for i xs
    by (simp add: resolve_entry_def timed_line_def)
  obtain answers where A: "evaluate_stream_query E ms [] s' b c None = Inr (Streams answers)"
    "\<And>f. answered answers f =
      (if selects (lv_regex E) (convert_matchers ms) f
       then map (resolve_entry E (lg_interner s')) (filter (in_window b c) (log_view (lv_rodeo E) s' f)) else [])"
    using selector_answers_view [OF laws wf' valid assms(5)] by blast
  show ?thesis
    unfolding stored_lines [OF st, symmetric] flt
    by (intro exI [of _ answers] conjI allI A(1)) (simp add: answered_lines_def A(2) res del: map_map)
qed

section \<open>A push and a query\<close>

definition equality_matcher :: logql_matcher where
  "equality_matcher = \<lparr>qm_name = ''env'', qm_op = LqEq, qm_value = ''prod''\<rparr>"

lemma sample_push_batches:
  "\<exists>e. loki_log_batches (\<lambda>_. []) (ap_seq sample_state) sample_push = [([(''env'', ''prod'')], [e])] \<and>
    timed_line (fst e) = (5000000000, ''yo'')"
proof -
  have "parse_timestamp_ns ''5'' = Some 5000000000" by code_simp
  then show ?thesis
    by (simp add: loki_log_batches_def sample_push_def loki_labels_def json_text_def loki_accepted_def stamped_def stamp_def
        u64_max_def sample_state_def of_loki_def loki_meaning_def loki_entry_def timed_line_def)
qed

section \<open>Property\<close>

text \<open>
  C1: what is pushed is what is found. A selector query with valid matchers and a start not after its
  end, made after an OTLP log export or after a Loki push while the ids are not used up, answers under every label set that meets the matchers exactly the lines stored there before and the
  lines of the request with those labels, in order of time, as far as they lie in the window, and
  nothing under the other label sets.
\<close>

theorem pushed_lines_found:
  assumes "rodeo_laws (lv_rodeo E)" and "log_wf (lv_rodeo E) (ap_log a)" and "ap_seq a \<le> u64_max"
    and "lg_next_stream_id (ap_log a) + length (request_records req) \<le> u64_max"
    and "lg_next_stream_id (ap_log a) + length sts \<le> u64_max"
    and "\<forall>m \<in> set (convert_matchers ms). matcher_valid (lv_regex E) m" and "b \<le> c"
    and "ingest_logs (lv_rodeo E) L req a = (a', n)" and "ingest_loki_push (lv_rodeo E) show_json sts a = (p', ns)"
  shows "\<forall>(s', bs) \<in> {(ap_log a', request_batches L (ap_seq a) req),
                      (ap_log p', loki_log_batches show_json (ap_seq a) sts)}.
    \<exists>answers. evaluate_stream_query E ms [] s' b c None = Inr (Streams answers) \<and>
      (\<forall>f. answered_lines answers f =
        (if selects (lv_regex E) (convert_matchers ms) f
         then filter (\<lambda>(t, l). b \<le> t \<and> t \<le> c)
           (sort_key fst (map timed_line (log_view (lv_rodeo E) (ap_log a) f) @ sent_lines bs f))
         else []))"
proof -
  note O = ingest_logs_stored [OF assms(1) log_base_wf [OF assms(2)] assms(3,4), of L]
  note K = ingest_loki_stored(1) [OF assms(1) log_base_wf [OF assms(2)] assms(3,5), of show_json]
  show ?thesis
    using stored_lines_answered [OF O assms(1,2,6,7)] stored_lines_answered [OF K assms(1,2,6,7)] assms(8,9) by simp
qed

lemma pushed_lines_found_witness:
  "\<exists>answers. evaluate_stream_query list_log_env [equality_matcher] []
      (ap_log (fst (ingest_loki_push list_rodeo (\<lambda>_. []) sample_push sample_state))) 0 10000000000 None = Inr (Streams answers) \<and>
    answered_lines answers (label_fun [(''env'', ''prod'')]) = [(5000000000, ''yo'')]"
proof -
  let ?p = "ingest_loki_push list_rodeo (\<lambda>_. []) sample_push sample_state"
  let ?a = "ingest_logs list_rodeo sample_log_env [] sample_state"
  have R: "lv_rodeo list_log_env = list_rodeo" by (simp add: list_log_env_def)
  have wf: "log_wf list_rodeo (ap_log sample_state)" by (simp add: sample_state_def log_new_wf)
  have hyps: "ap_seq sample_state \<le> u64_max"
    "lg_next_stream_id (ap_log sample_state) + length (request_records []) \<le> u64_max"
    "lg_next_stream_id (ap_log sample_state) + length sample_push \<le> u64_max"
    by (simp_all add: sample_state_def u64_max_def log_new_def request_records_def sample_push_def)
  have valid: "\<forall>m \<in> set (convert_matchers [equality_matcher]). matcher_valid (lv_regex list_log_env) m"
    by (simp add: convert_matchers_def equality_matcher_def convert_op_def matcher_valid_def)
  have old: "log_view list_rodeo (ap_log sample_state) f = []" for f
    by (simp add: sample_state_def log_view_def log_new_def series_view_def)
  have "sent_lines (loki_log_batches (\<lambda>_. []) (ap_seq sample_state) sample_push) (label_fun [(''env'', ''prod'')]) =
      [(5000000000, ''yo'')]"
    using sample_push_batches by (auto simp: sent_lines_def)
  moreover have "selects (lv_regex list_log_env) (convert_matchers [equality_matcher]) (label_fun [(''env'', ''prod'')])"
    by (simp add: selects_def convert_matchers_def equality_matcher_def convert_op_def label_holds_def label_fun_def)
  ultimately show ?thesis
    using pushed_lines_found [of list_log_env, unfolded R, OF list_rodeo_laws wf hyps valid _
        prod.collapse [symmetric] prod.collapse [symmetric], of 0 10000000000 sample_log_env "\<lambda>_. []"]
    by (auto simp: old)
qed

end
