(* ===== verification/Metric_Ingest.thy ===== *)
theory Metric_Ingest
  imports Trace_Ingest
begin

text \<open>
  \<open>src/ingest/otlp_metrics.rs\<close> and \<open>src/ingest/remote_write.rs\<close>: samples are prepared outside the
  lock; under it all names are checked, then registered, then the samples stored and the metadata
  recorded. A collision between two names of one request passes the check and is met only while
  registering. Bucket counts are added in \<open>u64\<close>; the sum wraps, as in a release build.
\<close>

section \<open>OTLP metrics\<close>

datatype number_value = AsDouble f64 | AsInt i64

record number_point =
  nd_attributes :: "key_value list"
  nd_time_unix_nano :: u64
  nd_value :: "number_value option"

record histogram_point =
  hd_attributes :: "key_value list"
  hd_time_unix_nano :: u64
  hd_count :: u64
  hd_sum :: "f64 option"
  hd_bucket_counts :: "u64 list"
  hd_explicit_bounds :: "f64 list"

record summary_point =
  sd_attributes :: "key_value list"
  sd_time_unix_nano :: u64
  sd_count :: u64
  sd_sum :: f64
  sd_quantile_values :: "(f64 \<times> f64) list" \<comment> \<open>quantile and value\<close>

datatype metric_data =
    GaugeData "number_point list"
  | SumData bool "number_point list" \<comment> \<open>monotonic\<close>
  | HistogramData "histogram_point list"
  | ExponentialHistogramData
  | SummaryData "summary_point list"

record otlp_metric =
  om_name :: string
  om_description :: string
  om_unit :: string
  om_data :: "metric_data option"

record resource_metrics =
  rm_resource :: "resource option"
  rm_scope_metrics :: "otlp_metric list list"

text \<open>A series to write: normalised name, source name, labels, samples.\<close>

type_synonym metric_rows = "(string \<times> string \<times> (string \<times> string) list \<times> sample list) list"
type_synonym metric_metas = "(string \<times> metric_type \<times> string option \<times> string option) list"

definition normalize_metric_name :: "string \<Rightarrow> string" where
  "normalize_metric_name name = map (\<lambda>c. if c = CHR ''.'' then CHR ''_'' else c) name"

definition build_dp_labels ::
  "(f64 \<Rightarrow> string) \<Rightarrow> (string \<times> string) list \<Rightarrow> key_value list \<Rightarrow> (string \<times> string) list" where
  "build_dp_labels fmt resource_labels attrs =
     (if attrs = [] then resource_labels
      else resource_labels @
        List.map_filter (\<lambda>(k, v). map_option (Pair k) (Option.bind v (any_value_to_string fmt))) attrs)"

definition extract_number_value :: "number_point \<Rightarrow> f64" where
  "extract_number_value dp =
     (case nd_value dp of Some (AsDouble d) \<Rightarrow> d | Some (AsInt i) \<Rightarrow> f64_of_int i | None \<Rightarrow> f64_zero)"

definition point_ms :: "u64 \<Rightarrow> i64" where
  "point_ms t = i64_div (u64_to_i64_saturating t) 1000000"

text \<open>One row with a single sample, stamped with the next sequence number.\<close>

definition one_sample_row ::
  "string \<Rightarrow> string \<Rightarrow> (string \<times> string) list \<Rightarrow> i64 \<Rightarrow> f64 \<Rightarrow> u64 \<Rightarrow>
     u64 \<times> (string \<times> string \<times> (string \<times> string) list \<times> sample list)" where
  "one_sample_row name source labels ts_ms v seq =
     (let (seq', n) = fetch_add seq
      in (seq', (name, source, labels, [\<lparr>sm_timestamp_ms = ts_ms, sm_value = v, sm_ingest_seq = n\<rparr>])))"

definition prepare_number_point ::
  "(f64 \<Rightarrow> string) \<Rightarrow> (string \<times> string) list \<Rightarrow> otlp_metric \<Rightarrow> u64 \<Rightarrow> number_point \<Rightarrow>
     u64 \<times> (string \<times> string \<times> (string \<times> string) list \<times> sample list)" where
  "prepare_number_point fmt rls m seq dp =
     one_sample_row (normalize_metric_name (om_name m)) (om_name m)
       (build_dp_labels fmt rls (nd_attributes dp)) (point_ms (nd_time_unix_nano dp))
       (extract_number_value dp) seq"

text \<open>The loop over bucket counts, from index \<open>i\<close> with the counts so far added up.\<close>

fun prepare_buckets ::
  "(f64 \<Rightarrow> string) \<Rightarrow> otlp_metric \<Rightarrow> (string \<times> string) list \<Rightarrow> i64 \<Rightarrow> f64 list \<Rightarrow> nat \<Rightarrow> u64 \<Rightarrow>
     u64 list \<Rightarrow> u64 \<Rightarrow> u64 \<times> metric_rows" where
  "prepare_buckets fmt m base ts_ms bounds i cumulative [] seq = (seq, [])"
| "prepare_buckets fmt m base ts_ms bounds i cumulative (n # ns) seq =
     (let cumulative' = (cumulative + n) mod (u64_max + 1);
          le = (if i < length bounds then fmt (bounds ! i) else ''+Inf'');
          (seq1, row) = one_sample_row (normalize_metric_name (om_name m) @ ''_bucket'')
            (om_name m @ ''_bucket'') (base @ [(''le'', le)]) ts_ms (f64_of_int (int cumulative')) seq;
          (seq2, rows) = prepare_buckets fmt m base ts_ms bounds (Suc i) cumulative' ns seq1
      in (seq2, row # rows))"

definition sum_and_count ::
  "otlp_metric \<Rightarrow> (string \<times> string) list \<Rightarrow> i64 \<Rightarrow> f64 \<Rightarrow> u64 \<Rightarrow> u64 \<Rightarrow> u64 \<times> metric_rows" where
  "sum_and_count m base ts_ms v n seq =
     (let (seq1, r1) = one_sample_row (normalize_metric_name (om_name m) @ ''_sum'') (om_name m @ ''_sum'')
            base ts_ms v seq;
          (seq2, r2) = one_sample_row (normalize_metric_name (om_name m) @ ''_count'') (om_name m @ ''_count'')
            base ts_ms (f64_of_int (int n)) seq1
      in (seq2, [r1, r2]))"

definition prepare_histogram_point ::
  "(f64 \<Rightarrow> string) \<Rightarrow> (string \<times> string) list \<Rightarrow> otlp_metric \<Rightarrow> u64 \<Rightarrow> histogram_point \<Rightarrow> u64 \<times> metric_rows" where
  "prepare_histogram_point fmt rls m seq dp =
     (let base = build_dp_labels fmt rls (hd_attributes dp);
          ts_ms = point_ms (hd_time_unix_nano dp);
          (seq1, buckets) = prepare_buckets fmt m base ts_ms (hd_explicit_bounds dp) 0 0 (hd_bucket_counts dp) seq;
          (seq2, rest) = sum_and_count m base ts_ms
            (case hd_sum dp of None \<Rightarrow> f64_zero | Some x \<Rightarrow> x) (hd_count dp) seq1
      in (seq2, buckets @ rest))"

definition prepare_summary_point ::
  "(f64 \<Rightarrow> string) \<Rightarrow> (string \<times> string) list \<Rightarrow> otlp_metric \<Rightarrow> u64 \<Rightarrow> summary_point \<Rightarrow> u64 \<times> metric_rows" where
  "prepare_summary_point fmt rls m seq dp =
     (let base = build_dp_labels fmt rls (sd_attributes dp);
          ts_ms = point_ms (sd_time_unix_nano dp);
          (seq1, quantiles) = thread_map (\<lambda>seq (q, v). one_sample_row (normalize_metric_name (om_name m))
            (om_name m) (base @ [(''quantile'', fmt q)]) ts_ms v seq) seq (sd_quantile_values dp);
          (seq2, rest) = sum_and_count m base ts_ms (sd_sum dp) (sd_count dp) seq1
      in (seq2, quantiles @ rest))"

definition opt_text :: "string \<Rightarrow> string option" where
  "opt_text s = (if s = [] then None else Some s)"

definition metric_meta :: "otlp_metric \<Rightarrow> metric_type \<Rightarrow> metric_metas" where
  "metric_meta m ty = [(normalize_metric_name (om_name m), ty, opt_text (om_description m), opt_text (om_unit m))]"

text \<open>The rows and the metadata of one metric.\<close>

definition prepare_metric ::
  "(f64 \<Rightarrow> string) \<Rightarrow> (string \<times> string) list \<Rightarrow> u64 \<Rightarrow> otlp_metric \<Rightarrow> u64 \<times> (metric_rows \<times> metric_metas)" where
  "prepare_metric fmt rls seq m =
     (case om_data m of
        Some (GaugeData dps) \<Rightarrow>
          (let (seq', rows) = thread_map (prepare_number_point fmt rls m) seq dps
           in (seq', (rows, metric_meta m Gauge)))
      | Some (SumData monotonic dps) \<Rightarrow>
          (let (seq', rows) = thread_map (prepare_number_point fmt rls m) seq dps
           in (seq', (rows, metric_meta m (if monotonic then Counter else Gauge))))
      | Some (HistogramData dps) \<Rightarrow>
          (let (seq', rows) = thread_map (prepare_histogram_point fmt rls m) seq dps
           in (seq', (concat rows, metric_meta m Histogram)))
      | Some (SummaryData dps) \<Rightarrow>
          (let (seq', rows) = thread_map (prepare_summary_point fmt rls m) seq dps
           in (seq', (concat rows, metric_meta m Summary)))
      | Some ExponentialHistogramData \<Rightarrow> (seq, ([], []))
      | None \<Rightarrow> (seq, ([], [])))"

definition prepare_resource_metrics ::
  "(f64 \<Rightarrow> string) \<Rightarrow> u64 \<Rightarrow> resource_metrics \<Rightarrow> u64 \<times> (metric_rows \<times> metric_metas)" where
  "prepare_resource_metrics fmt seq rm =
     (let rls = promote_service_name (extract_resource_labels fmt (rm_resource rm));
          (seq', parts) = thread_map (prepare_metric fmt rls) seq (concat (rm_scope_metrics rm))
      in (seq', (concat (map fst parts), concat (map snd parts))))"

definition prepare_metrics ::
  "(f64 \<Rightarrow> string) \<Rightarrow> u64 \<Rightarrow> resource_metrics list \<Rightarrow> u64 \<times> (metric_rows \<times> metric_metas)" where
  "prepare_metrics fmt seq request =
     (let (seq', parts) = thread_map (prepare_resource_metrics fmt) seq request
      in (seq', (concat (map fst parts), concat (map snd parts))))"

section \<open>Under the lock\<close>

text \<open>The first loop: every name against the registrations of the store.\<close>

fun check_names :: "'i rodeo_ops \<Rightarrow> 'i metric_store \<Rightarrow> (string \<times> string) list \<Rightarrow> metric_store_error + unit" where
  "check_names R s [] = Inr ()"
| "check_names R s ((name, source) # rest) =
     (case check_metric_name_collision R s name source of Inl e \<Rightarrow> Inl e | Inr _ \<Rightarrow> check_names R s rest)"

text \<open>The second loop: registration, which stops at an error and keeps what it registered.\<close>

fun register_names ::
  "'i rodeo_ops \<Rightarrow> (string \<times> string) list \<Rightarrow> 'i metric_store \<Rightarrow> 'i metric_store \<times> (metric_store_error + unit)" where
  "register_names R [] s = (s, Inr ())"
| "register_names R ((name, source) # rest) s =
     (case register_metric_name R name source s of
        (s', Inl e) \<Rightarrow> (s', Inl e)
      | (s', Inr _) \<Rightarrow> register_names R rest s')"

definition store_rows :: "'i rodeo_ops \<Rightarrow> metric_rows \<Rightarrow> 'i metric_store \<Rightarrow> 'i metric_store" where
  "store_rows R rows s = fold (\<lambda>(name, _, labels, samples). ingest_samples R name labels samples) rows s"

definition store_metas :: "'i rodeo_ops \<Rightarrow> metric_metas \<Rightarrow> 'i metric_store \<Rightarrow> 'i metric_store" where
  "store_metas R metas s =
     fold (\<lambda>(name, ty, help, un). register_metric_metadata R name (Some ty) help un) metas s"

definition write_metrics ::
  "'i rodeo_ops \<Rightarrow> metric_rows \<Rightarrow> metric_metas \<Rightarrow> 'i metric_store \<Rightarrow>
     'i metric_store \<times> (metric_store_error + unit)" where
  "write_metrics R rows metas s =
     (let names = map (\<lambda>(name, source, _, _). (name, source)) rows
      in case check_names R s names of
           Inl e \<Rightarrow> (s, Inl e)
         | Inr _ \<Rightarrow>
             (case register_names R names s of
                (s', Inl e) \<Rightarrow> (s', Inl e)
              | (s', Inr _) \<Rightarrow> (store_metas R metas (store_rows R rows s'), Inr ())))"

record metrics_accepted =
  ma_series :: usize
  ma_samples :: usize

definition ingest_metrics ::
  "'i rodeo_ops \<Rightarrow> (f64 \<Rightarrow> string) \<Rightarrow> resource_metrics list \<Rightarrow> 'i app_state \<Rightarrow>
     'i app_state \<times> (metric_store_error + metrics_accepted)" where
  "ingest_metrics R fmt request a =
     (let (seq', rows, metas) = prepare_metrics fmt (ap_seq a) request;
          (s', result) = write_metrics R rows metas (ap_metric a)
      in (a\<lparr>ap_seq := seq', ap_metric := s'\<rparr>,
          map_sum id (\<lambda>_. \<lparr>ma_series = length rows,
            ma_samples = sum_list (map (\<lambda>(_, _, _, samples). length samples) rows)\<rparr>) result))"

definition metrics_handler ::
  "'i rodeo_ops \<Rightarrow> (f64 \<Rightarrow> string) \<Rightarrow> codec_ops \<Rightarrow> (u8 list \<Rightarrow> resource_metrics list option) \<Rightarrow>
     (u8 list \<Rightarrow> resource_metrics list option) \<Rightarrow> headers \<Rightarrow> u8 list \<Rightarrow> 'i app_state \<Rightarrow>
     'i app_state \<times> metrics_accepted http_reply" where
  "metrics_handler R fmt D json protobuf hs body a =
     (case decode_body D hs body of
        Inl e \<Rightarrow> (a, BadRequest)
      | Inr bytes \<Rightarrow>
          (case (if is_json_content_type hs then json bytes else protobuf bytes) of
             None \<Rightarrow> (a, BadRequest)
           | Some request \<Rightarrow>
               (let (a', r) = ingest_metrics R fmt request a
                in (a', case r of Inl _ \<Rightarrow> BadRequest | Inr acc \<Rightarrow> Accepted acc))))"

definition metrics_export ::
  "'i rodeo_ops \<Rightarrow> (f64 \<Rightarrow> string) \<Rightarrow> resource_metrics list \<Rightarrow> 'i app_state \<Rightarrow>
     'i app_state \<times> (metric_store_error + unit)" where
  "metrics_export R fmt request a =
     (let (a', r) = ingest_metrics R fmt request a in (a', map_sum id (\<lambda>_. ()) r))"

section \<open>Prometheus remote write\<close>

record remote_series =
  rw_labels :: "(string \<times> string) list"
  rw_samples :: "(f64 \<times> i64) list" \<comment> \<open>value and timestamp\<close>

definition infer_metric_type :: "string \<Rightarrow> metric_type" where
  "infer_metric_type name =
     (if ends_with name ''_bucket'' then Histogram
      else if ends_with name ''_sum'' \<or> ends_with name ''_count'' then Histogram
      else if ends_with name ''_total'' then Counter else Unknown)"

text \<open>The last \<open>__name__\<close> label is the name; a series without one, or an empty one, is skipped.\<close>

definition remote_name :: "(string \<times> string) list \<Rightarrow> string" where
  "remote_name labels = fold (\<lambda>(k, v) name. if k = ''__name__'' then v else name) labels []"

definition prepare_remote_series ::
  "u64 \<Rightarrow> remote_series \<Rightarrow> u64 \<times> (string \<times> string \<times> (string \<times> string) list \<times> sample list) option" where
  "prepare_remote_series seq ts =
     (let name = remote_name (rw_labels ts);
          labels = filter (\<lambda>(k, _). k \<noteq> ''__name__'') (rw_labels ts)
      in if name = [] then (seq, None)
         else (let (seq', samples) = thread_map (\<lambda>seq (v, t). let (seq1, n) = fetch_add seq
                     in (seq1, \<lparr>sm_timestamp_ms = t, sm_value = v, sm_ingest_seq = n\<rparr>)) seq (rw_samples ts)
               in (seq', Some (name, name, labels, samples))))"

definition remote_metas :: "metric_rows \<Rightarrow> metric_metas" where
  "remote_metas rows =
     map (\<lambda>name. (name, infer_metric_type name, None, None))
       (fold (\<lambda>(name, _) seen. if name \<in> set seen then seen else seen @ [name]) rows [])"

definition ingest_remote_write ::
  "'i rodeo_ops \<Rightarrow> remote_series list \<Rightarrow> 'i app_state \<Rightarrow> 'i app_state \<times> (metric_store_error + unit)" where
  "ingest_remote_write R request a =
     (let (seq', rows) = thread_filter_map prepare_remote_series (ap_seq a) request;
          (s', result) = write_metrics R rows (remote_metas rows) (ap_metric a)
      in (a\<lparr>ap_seq := seq', ap_metric := s'\<rparr>, result))"

datatype write_reply = WriteBadRequest | WriteTooLarge | WriteNoContent

text \<open>Snappy is tried whatever the header says; without the header a plain body may follow.\<close>

definition decode_remote_body :: "codec_ops \<Rightarrow> headers \<Rightarrow> u8 list \<Rightarrow> write_reply + u8 list" where
  "decode_remote_body D hs body =
     (if header_is hs ''content-encoding'' ''snappy'' then
        (case decode_snappy_body D body of Inl _ \<Rightarrow> Inl WriteBadRequest | Inr bytes \<Rightarrow> Inr bytes)
      else
        (case decode_snappy_body D body of
           Inr bytes \<Rightarrow> Inr bytes
         | Inl PayloadTooLarge \<Rightarrow> Inl WriteBadRequest
         | Inl _ \<Rightarrow> (case ensure_body_size body of Inl _ \<Rightarrow> Inl WriteTooLarge | Inr _ \<Rightarrow> Inr body)))"

definition remote_write_handler ::
  "'i rodeo_ops \<Rightarrow> codec_ops \<Rightarrow> (u8 list \<Rightarrow> remote_series list option) \<Rightarrow> headers \<Rightarrow> u8 list \<Rightarrow>
     'i app_state \<Rightarrow> 'i app_state \<times> write_reply" where
  "remote_write_handler R D protobuf hs body a =
     (case decode_remote_body D hs body of
        Inl reply \<Rightarrow> (a, reply)
      | Inr bytes \<Rightarrow>
          (case protobuf bytes of
             None \<Rightarrow> (a, WriteBadRequest)
           | Some request \<Rightarrow>
               (case ingest_remote_write R request a of
                  (a', Inl _) \<Rightarrow> (a', WriteBadRequest)
                | (a', Inr _) \<Rightarrow> (a', WriteNoContent))))"

end
