(* ===== verification/Metric_Ingest_Correct.thy ===== *)
theory Metric_Ingest_Correct
  imports Metric_Ingest Metric_Store_Correct Log_Ingest_Correct
begin

text \<open>
  Correctness of metric ingest: a request either stores every row and records every name, or is
  rejected with the samples and metadata as they were; which of the two is decided by the names
  alone. Two runs show what a rejected request and an eviction pass leave behind.
\<close>

section \<open>Registration of names\<close>

definition name_free :: "'i rodeo_ops \<Rightarrow> 'i metric_store \<Rightarrow> string \<Rightarrow> string \<Rightarrow> bool" where
  "name_free R s n src \<longleftrightarrow> check_metric_name_collision R s n src = Inr ()"

lemma check_names_free: "check_names R s names = Inr () \<longleftrightarrow> (\<forall>p \<in> set names. name_free R s (fst p) (snd p))"
proof (induction names)
  case (Cons p names)
  obtain n src where p: "p = (n, src)" by force
  show ?case using Cons by (auto simp: p name_free_def split: sum.split)
qed simp

lemma register_metric_name_fields:
  assumes laws: "rodeo_laws R" and reg: "register_metric_name R n src s = (s', r)"
  shows "rd_extends R (mt_interner s) (mt_interner s')"
    and "s' = s\<lparr>mt_interner := mt_interner s', mt_name_sources := mt_name_sources s'\<rparr>"
proof -
  obtain i1 nk where 1: "rd_get_or_intern R (mt_interner s) n = (i1, nk)" by force
  obtain i2 sk where 2: "rd_get_or_intern R i1 src = (i2, sk)" by force
  have "mt_interner s' = i2"
    using reg 1 2 by (auto simp: register_metric_name_def Let_def split: option.splits if_splits)
  then show "rd_extends R (mt_interner s) (mt_interner s')"
    using rd_extends_trans [OF rd_intern_extends [OF laws 1] rd_intern_extends [OF laws 2]] by simp
  show "s' = s\<lparr>mt_interner := mt_interner s', mt_name_sources := mt_name_sources s'\<rparr>"
    using reg 1 2 by (auto simp: register_metric_name_def Let_def split: option.splits if_splits)
qed

text \<open>A registration decides its own name and leaves the others.\<close>

lemma register_metric_name_other:
  assumes laws: "rodeo_laws R" and ok: "names_ok R s" and reg: "register_metric_name R n src s = (s', r)"
    and other: "m \<noteq> n"
  shows "check_metric_name_collision R s' m x = check_metric_name_collision R s m x"
proof -
  obtain i1 nk where 1: "rd_get_or_intern R (mt_interner s) n = (i1, nk)" by force
  obtain i2 sk where 2: "rd_get_or_intern R i1 src = (i2, sk)" by force
  have ext: "rd_extends R i1 i2" using rd_intern_extends [OF laws 2] .
  have ext': "rd_extends R (mt_interner s) i2"
    using rd_extends_trans [OF rd_intern_extends [OF laws 1] ext] .
  have n2: "rd_get R i2 n = Some nk" using rd_intern_get [OF laws 1] ext by (simp add: rd_extends_def)
  have int: "mt_interner s' = i2"
    using reg 1 2 by (auto simp: register_metric_name_def Let_def split: option.splits if_splits)
  have src: "hm_get (mt_name_sources s') k = hm_get (mt_name_sources s) k" if "k \<noteq> nk" for k
    using reg 1 2 that by (auto simp: register_metric_name_def Let_def hm_simps split: option.splits if_splits)
  have res: "rd_resolve R i2 e = rd_resolve R (mt_interner s) e \<and> spur_ok R (mt_interner s) k"
    if "hm_get (mt_name_sources s) k = Some e" for k e
    using ok that spur_ok_extends(2) [OF laws ext'] unfolding names_ok_def by blast
  show ?thesis
  proof (cases "rd_get R i2 m")
    case None
    then have "rd_get R (mt_interner s) m = None"
      using ext' by (cases "rd_get R (mt_interner s) m") (auto simp: rd_extends_def)
    with None show ?thesis by (simp add: check_metric_name_collision_def int)
  next
    case (Some k)
    have "k \<noteq> nk"
    proof
      assume "k = nk"
      then have "m = n" using rd_resolve_get [OF laws Some] rd_resolve_get [OF laws n2] by simp
      with other show False by simp
    qed
    note get = src [OF this]
    show ?thesis
    proof (cases "rd_get R (mt_interner s) m")
      case None
      have "hm_get (mt_name_sources s) k = None"
      proof (rule ccontr)
        assume "hm_get (mt_name_sources s) k \<noteq> None"
        then obtain e where "hm_get (mt_name_sources s) k = Some e" by blast
        from conjunct2 [OF res [OF this]] have k: "spur_ok R (mt_interner s) k" .
        have "rd_resolve R (mt_interner s) k = m"
          using spur_ok_extends(2) [OF laws ext' k] rd_resolve_get [OF laws Some] by simp
        with k None show False by (simp add: spur_ok_def)
      qed
      with Some None get show ?thesis by (simp add: check_metric_name_collision_def int)
    next
      case (Some k')
      with ext' \<open>rd_get R i2 m = Some k\<close> have "k' = k" by (auto simp: rd_extends_def)
      with Some \<open>rd_get R i2 m = Some k\<close> get res show ?thesis
        by (simp add: check_metric_name_collision_def int split: option.split)
    qed
  qed
qed

lemma register_name_free:
  assumes "rodeo_laws R" and "names_ok R s" and "register_metric_name R n src s = (s', Inr ())"
  shows "name_free R s' m x \<longleftrightarrow> (if m = n then x = src else name_free R s m x)"
  using register_metric_name_ok(3) [OF assms refl, of x] register_metric_name_other [OF assms, of m x]
  by (auto simp: name_free_def)

definition consistent :: "'i rodeo_ops \<Rightarrow> 'i metric_store \<Rightarrow> (string \<times> string) list \<Rightarrow> bool" where
  "consistent R s names \<longleftrightarrow> (\<forall>p \<in> set names. name_free R s (fst p) (snd p)) \<and>
     (\<forall>p \<in> set names. \<forall>q \<in> set names. fst p = fst q \<longrightarrow> snd p = snd q)"

lemma consistent_iff:
  "consistent R s names \<longleftrightarrow> (\<forall>m x. (m, x) \<in> set names \<longrightarrow> name_free R s m x) \<and>
     (\<forall>m x y. (m, x) \<in> set names \<longrightarrow> (m, y) \<in> set names \<longrightarrow> x = y)"
  unfolding consistent_def by fastforce

lemma consistent_Cons:
  "consistent R s ((n, src) # names) \<longleftrightarrow> name_free R s n src \<and> consistent R s names \<and>
     (\<forall>x. (n, x) \<in> set names \<longrightarrow> x = src)"
  unfolding consistent_iff by auto

lemma consistent_step:
  assumes "name_free R s n src"
    and "\<And>m x. name_free R s1 m x \<longleftrightarrow> (if m = n then x = src else name_free R s m x)"
  shows "consistent R s1 names \<longleftrightarrow> name_free R s n src \<and> consistent R s names \<and>
     (\<forall>x. (n, x) \<in> set names \<longrightarrow> x = src)"
proof -
  have "(\<forall>m x. (m, x) \<in> set names \<longrightarrow> name_free R s1 m x) \<longleftrightarrow>
      (\<forall>m x. (m, x) \<in> set names \<longrightarrow> name_free R s m x) \<and> (\<forall>x. (n, x) \<in> set names \<longrightarrow> x = src)"
    using assms by (auto split: if_splits)
  with assms(1) show ?thesis unfolding consistent_iff by blast
qed

lemma register_names_spec:
  assumes laws: "rodeo_laws R" and ok: "names_ok R s" and reg: "register_names R names s = (s', r)"
  shows "names_ok R s' \<and> rd_extends R (mt_interner s) (mt_interner s') \<and>
    s' = s\<lparr>mt_interner := mt_interner s', mt_name_sources := mt_name_sources s'\<rparr> \<and>
    (r = Inr () \<longleftrightarrow> consistent R s names) \<and>
    (r = Inr () \<longrightarrow> (\<forall>m x. name_free R s' m x \<longleftrightarrow>
       (if m \<in> fst ` set names then (m, x) \<in> set names else name_free R s m x)))"
  using ok reg
proof (induction names arbitrary: s)
  case Nil
  then show ?case by (simp add: consistent_def)
next
  case (Cons p names)
  obtain n src where p: "p = (n, src)" by force
  obtain s1 r1 where 1: "register_metric_name R n src s = (s1, r1)" by force
  note ok1 = register_metric_name_ok(1,2) [OF laws Cons.prems(1) 1]
  note F = register_metric_name_fields [OF laws 1]
  show ?case
  proof (cases r1)
    case (Inl e)
    then have "s' = s1" "r = Inl e" using Cons.prems(2) 1 by (simp_all add: p)
    moreover have "\<not> name_free R s n src"
      unfolding name_free_def ok1(2) [symmetric] Inl by simp
    ultimately show ?thesis using ok1(1) F by (auto simp: consistent_def p)
  next
    case (Inr u)
    then have reg1: "register_metric_name R n src s = (s1, Inr ())" using 1 by simp
    note free1 = register_name_free [OF laws Cons.prems(1) reg1]
    have run: "register_names R names s1 = (s', r)" using Cons.prems(2) reg1 by (simp add: p)
    note IH = Cons.IH [OF ok1(1) run]
    have free: "name_free R s n src" unfolding name_free_def ok1(2) [symmetric] Inr by simp
    have "rd_extends R (mt_interner s) (mt_interner s')"
      using F(1) IH rd_extends_trans [of R "mt_interner s" "mt_interner s1"] by blast
    moreover have "s' = s\<lparr>mt_interner := mt_interner s', mt_name_sources := mt_name_sources s'\<rparr>"
    proof -
      have "s' = s1\<lparr>mt_interner := mt_interner s', mt_name_sources := mt_name_sources s'\<rparr>"
        using IH by blast
      also have "\<dots> = s\<lparr>mt_interner := mt_interner s', mt_name_sources := mt_name_sources s'\<rparr>"
        by (subst F(2)) simp
      finally show ?thesis .
    qed
    moreover have cons: "consistent R s1 names \<longleftrightarrow> consistent R s (p # names)"
      unfolding consistent_Cons p using free free1 by (rule consistent_step)
    moreover have "name_free R s' m x \<longleftrightarrow>
        (if m \<in> fst ` set (p # names) then (m, x) \<in> set (p # names) else name_free R s m x)"
      if "r = Inr ()" for m x
    proof -
      have "consistent R s (p # names)" using IH cons that by blast
      then have "(n, y) \<in> set names \<Longrightarrow> y = src" for y by (force simp: consistent_def p)
      with IH that free1 show ?thesis by (auto simp: p)
    qed
    ultimately show ?thesis using IH by blast
  qed
qed

section \<open>Rows\<close>

definition row_label :: "string \<times> string \<times> (string \<times> string) list \<times> sample list \<Rightarrow> string \<Rightarrow> string list" where
  "row_label row = (case row of (name, _, labels, _) \<Rightarrow> label_fun (name_label name labels))"

definition row_samples :: "string \<times> string \<times> (string \<times> string) list \<times> sample list \<Rightarrow> sample list" where
  "row_samples row = (case row of (_, _, _, samples) \<Rightarrow> samples)"

definition row_names :: "metric_rows \<Rightarrow> (string \<times> string) list" where
  "row_names rows = map (\<lambda>(name, source, _, _). (name, source)) rows"

definition samples_for :: "(string \<Rightarrow> string list) \<Rightarrow> metric_rows \<Rightarrow> sample list" where
  "samples_for f rows = concat (map row_samples (filter (\<lambda>row. row_label row = f) rows))"

lemma metric_view_sorted:
  assumes "metric_base R s"
  shows "sorted (map sm_timestamp_ms (metric_view R s f))"
  using metric_baseD(1) [OF assms] unfolding metric_labelled_def
proof (cases rule: series_view_cases [where f = f and dat = ms_samples])
  case (item x se)
  then show ?thesis
    using samples_sortedD [OF metric_baseD(2) [OF assms]] by (simp add: metric_view_def)
qed (simp add: metric_view_def)

lemma metric_view_sort: "metric_base R s \<Longrightarrow> sort_key sm_timestamp_ms (metric_view R s f) = metric_view R s f"
  by (rule sort_key_id_if_sorted) (rule metric_view_sorted)

lemma ingest_samples_fields:
  assumes laws: "rodeo_laws R"
  shows "rd_extends R (mt_interner s) (mt_interner (ingest_samples R name labels samples s)) \<and>
    mt_next_series_id (ingest_samples R name labels samples s) \<le> Suc (mt_next_series_id s) \<and>
    mt_name_sources (ingest_samples R name labels samples s) = mt_name_sources s \<and>
    mt_metadata (ingest_samples R name labels samples s) = mt_metadata s"
proof -
  obtain i ls where intern: "intern_label_pairs R (mt_interner s) ((''__name__'', name) # labels) = (i, ls)" by force
  let ?s1 = "s\<lparr>mt_interner := i, mt_label_values := track_label_values (mt_label_values s) ls\<rparr>"
  obtain s2 x where alloc: "metric_allocate ls ?s1 = (s2, x)" by force
  have s2: "mt_interner s2 = i \<and> mt_next_series_id s2 \<le> Suc (mt_next_series_id s) \<and>
      mt_name_sources s2 = mt_name_sources s \<and> mt_metadata s2 = mt_metadata s"
    using alloc by (auto simp: metric_allocate_def Let_def u64_saturating_add_def split: option.splits)
  then show ?thesis
    using intern_label_pairs_spec(1) [OF laws intern]
    by (simp add: ingest_samples_def intern alloc split: option.split)
qed

lemma store_rows_spec:
  assumes laws: "rodeo_laws R" and wf: "metric_base R s"
    and room: "mt_next_series_id s + length rows \<le> u64_max"
  shows "metric_base R (store_rows R rows s) \<and>
    metric_view R (store_rows R rows s) f = sort_key sm_timestamp_ms (metric_view R s f @ samples_for f rows) \<and>
    rd_extends R (mt_interner s) (mt_interner (store_rows R rows s)) \<and>
    mt_name_sources (store_rows R rows s) = mt_name_sources s \<and>
    mt_metadata (store_rows R rows s) = mt_metadata s"
  using wf room
proof (induction rows arbitrary: s)
  case Nil
  then show ?case
    by (simp add: store_rows_def samples_for_def metric_view_sort)
next
  case (Cons row rows)
  obtain name src labels samples where row: "row = (name, src, labels, samples)" by (metis prod_cases4)
  let ?s = "ingest_samples R name labels samples s"
  have "mt_next_series_id s < u64_max" using Cons.prems(2) by simp
  note I = ingest_samples_correct [OF laws Cons.prems(1) this, of name labels samples]
  note F = ingest_samples_fields [OF laws, of s name labels samples]
  have run: "store_rows R (row # rows) s = store_rows R rows ?s" by (simp add: store_rows_def row)
  have IH: "metric_base R (store_rows R rows ?s) \<and>
    metric_view R (store_rows R rows ?s) f = sort_key sm_timestamp_ms (metric_view R ?s f @ samples_for f rows) \<and>
    rd_extends R (mt_interner ?s) (mt_interner (store_rows R rows ?s)) \<and>
    mt_name_sources (store_rows R rows ?s) = mt_name_sources ?s \<and>
    mt_metadata (store_rows R rows ?s) = mt_metadata ?s"
    by (rule Cons.IH) (use I F Cons.prems(2) in simp_all)
  have "metric_view R ?s f @ samples_for f rows =
      (if row_label row = f then sort_key sm_timestamp_ms (metric_view R s f @ samples) @ samples_for f rows
       else metric_view R s f @ samples_for f rows)"
    using I by (auto simp: row row_label_def)
  then have "sort_key sm_timestamp_ms (metric_view R ?s f @ samples_for f rows) =
      sort_key sm_timestamp_ms (metric_view R s f @ samples_for f (row # rows))"
    by (simp add: sort_key_sort_append samples_for_def row row_samples_def)
  moreover have "rd_extends R (mt_interner s) (mt_interner (store_rows R rows ?s))"
    using F IH rd_extends_trans [of R "mt_interner s" "mt_interner ?s"] by blast
  ultimately show ?case unfolding run using IH F by simp
qed

lemma metric_base_interner:
  assumes "rodeo_laws R" and "rd_extends R (mt_interner s) i" and "metric_base R s"
  shows "metric_base R (s\<lparr>mt_interner := i\<rparr>) \<and> metric_view R (s\<lparr>mt_interner := i\<rparr>) = metric_view R s"
proof -
  note wf = metric_baseD(1) [OF assms(3), unfolded metric_labelled_def]
  from labelled_wf_extends [OF assms(1,2) wf] series_view_extends [OF assms(1,2) wf, of ms_samples]
  show ?thesis using assms(3) by (simp add: metric_base_def metric_labelled_def metric_view_def)
qed

lemma metric_other_fields:
  "metric_base R (s\<lparr>mt_name_sources := x\<rparr>) = metric_base R s"
  "metric_base R (s\<lparr>mt_metadata := y\<rparr>) = metric_base R s"
  "metric_view R (s\<lparr>mt_name_sources := x\<rparr>) = metric_view R s"
  "metric_view R (s\<lparr>mt_metadata := y\<rparr>) = metric_view R s"
  by (simp_all add: metric_base_def metric_labelled_def metric_view_def)

lemma store_metas_spec:
  assumes laws: "rodeo_laws R" and wf: "metric_base R s"
  shows "metric_base R (store_metas R metas s) \<and> metric_view R (store_metas R metas s) = metric_view R s \<and>
    rd_extends R (mt_interner s) (mt_interner (store_metas R metas s)) \<and>
    mt_name_sources (store_metas R metas s) = mt_name_sources s"
  using wf
proof (induction metas arbitrary: s)
  case Nil
  then show ?case by (simp add: store_metas_def)
next
  case (Cons m metas)
  obtain name ty hp un where m: "m = (name, ty, hp, un)" by (metis prod_cases4)
  obtain i n where 1: "rd_get_or_intern R (mt_interner s) name = (i, n)" by force
  let ?s = "register_metric_metadata R name (Some ty) hp un s"
  have s: "?s = s\<lparr>mt_interner := i, mt_metadata := hm_upsert metadata_default n (merge_metadata (Some ty) hp un) (mt_metadata s)\<rparr>"
    by (simp add: register_metric_metadata_def 1)
  have grow: "rd_extends R (mt_interner s) i" by (rule rd_intern_extends [OF laws 1])
  have run: "store_metas R (m # metas) s = store_metas R metas ?s" by (simp add: store_metas_def m)
  have b: "metric_base R ?s" "metric_view R ?s = metric_view R s"
    unfolding s using metric_base_interner [OF laws grow Cons.prems] by (simp_all add: metric_other_fields)
  note IH = Cons.IH [OF b(1)]
  have "rd_extends R (mt_interner s) (mt_interner (store_metas R metas ?s))"
    using rd_extends_trans [OF grow] IH by (simp add: s)
  then show ?case unfolding run using IH b(2) by (simp add: s)
qed

section \<open>Requests\<close>

text \<open>What the prepared rows do to the store, whether they come from OTLP or remote write.\<close>

definition rows_written ::
  "'i rodeo_ops \<Rightarrow> metric_rows \<Rightarrow> 'i metric_store \<Rightarrow> 'i metric_store \<Rightarrow> bool" where
  "rows_written R rows s s' \<longleftrightarrow> metric_base R s' \<and> names_ok R s' \<and>
     (if consistent R s (row_names rows)
      then (\<forall>f. metric_view R s' f = sort_key sm_timestamp_ms (metric_view R s f @ samples_for f rows)) \<and>
           mt_name_sources s' = mt_name_sources (fst (register_names R (row_names rows) s))
      else metric_view R s' = metric_view R s \<and> mt_metadata s' = mt_metadata s)"

lemma write_metrics_spec:
  assumes laws: "rodeo_laws R" and wf: "metric_base R s" and ok: "names_ok R s"
    and room: "mt_next_series_id s + length rows \<le> u64_max"
    and run: "write_metrics R rows metas s = (s', r)"
  shows "rows_written R rows s s' \<and> (r = Inr () \<longleftrightarrow> consistent R s (row_names rows))"
proof (cases "check_names R s (row_names rows)")
  case (Inl e)
  then have "s' = s" "r = Inl e"
    using run by (simp_all add: write_metrics_def row_names_def)
  moreover have "\<not> consistent R s (row_names rows)"
    using Inl check_names_free [of R s "row_names rows"] by (auto simp: consistent_def)
  ultimately show ?thesis using wf ok by (simp add: rows_written_def)
next
  case (Inr u)
  obtain s1 r1 where reg: "register_names R (row_names rows) s = (s1, r1)" by force
  note G = register_names_spec [OF laws ok reg]
  have names: "names_ok R s1" and grow: "rd_extends R (mt_interner s) (mt_interner s1)"
    and rec: "s1 = s\<lparr>mt_interner := mt_interner s1, mt_name_sources := mt_name_sources s1\<rparr>"
    and iff: "r1 = Inr () \<longleftrightarrow> consistent R s (row_names rows)" using G by blast+
  have b: "metric_base R s1 \<and> metric_view R s1 = metric_view R s"
    using metric_base_interner [OF laws grow wf]
    by (subst (1 2) rec) (simp add: metric_other_fields)
  have meta: "mt_metadata s1 = mt_metadata s" and nxt: "mt_next_series_id s1 = mt_next_series_id s"
    by (subst rec, simp)+
  show ?thesis
  proof (cases r1)
    case Err: (Inl e)
    then have "s' = s1" "r = Inl e" using run Inr reg by (simp_all add: write_metrics_def row_names_def)
    with b names meta iff Err show ?thesis by (simp add: rows_written_def)
  next
    case Succ: (Inr u')
    then have s': "s' = store_metas R metas (store_rows R rows s1)" "r = Inr ()"
      using run Inr reg by (simp_all add: write_metrics_def row_names_def)
    have cons: "consistent R s (row_names rows)" using iff Succ by simp
    have room1: "mt_next_series_id s1 + length rows \<le> u64_max" using room nxt by simp
    note S = store_rows_spec [OF laws conjunct1 [OF b] room1]
    note M = store_metas_spec [OF laws conjunct1 [OF S], of metas]
    have "rd_extends R (mt_interner s1) (mt_interner s')"
      using S M rd_extends_trans [of R "mt_interner s1" "mt_interner (store_rows R rows s1)"] unfolding s'(1) by blast
    then have "names_ok R s'"
      by (rule names_ok_extends [OF laws names]) (use S M in \<open>simp add: s'(1)\<close>)
    with S M b cons s' reg show ?thesis by (simp add: rows_written_def)
  qed
qed

section \<open>Properties\<close>

text \<open>
  C11: an OTLP metrics export is all or nothing as to data. It succeeds exactly when no row's
  name is registered for another source name, in the store or elsewhere in the request; then
  every series gets the samples of its rows, merged stably by time, and the counts returned are
  those of the rows. Otherwise samples and metadata stay as they were. The invariants hold either
  way, the counter moves on, and logs and traces are not touched.
\<close>

theorem metrics_all_or_nothing:
  assumes "rodeo_laws R" and "metric_base R (ap_metric a)" and "names_ok R (ap_metric a)"
    and "prepare_metrics fmt (ap_seq a) req = (seq', rows, metas)"
    and "mt_next_series_id (ap_metric a) + length rows \<le> u64_max"
    and "ingest_metrics R fmt req a = (a', r)"
  shows "metric_base R (ap_metric a') \<and> names_ok R (ap_metric a') \<and>
    a' = a\<lparr>ap_seq := seq', ap_metric := ap_metric a'\<rparr> \<and>
    (if consistent R (ap_metric a) (row_names rows)
     then r = Inr \<lparr>ma_series = length rows, ma_samples = sum_list (map (length \<circ> row_samples) rows)\<rparr> \<and>
       (\<forall>f. metric_view R (ap_metric a') f =
          sort_key sm_timestamp_ms (metric_view R (ap_metric a) f @ samples_for f rows))
     else (\<exists>e. r = Inl e) \<and> metric_view R (ap_metric a') = metric_view R (ap_metric a) \<and>
       mt_metadata (ap_metric a') = mt_metadata (ap_metric a))"
proof -
  obtain s' res where w: "write_metrics R rows metas (ap_metric a) = (s', res)" by force
  have len: "map (\<lambda>(_, _, _, samples). length samples) rows = map (length \<circ> row_samples) rows"
    by (simp add: row_samples_def split: prod.split)
  have a': "a' = a\<lparr>ap_seq := seq', ap_metric := s'\<rparr>"
    "r = map_sum id (\<lambda>_. \<lparr>ma_series = length rows, ma_samples = sum_list (map (length \<circ> row_samples) rows)\<rparr>) res"
    using assms(6) by (simp_all add: ingest_metrics_def assms(4) w len)
  from write_metrics_spec [OF assms(1,2,3,5) w]
  have W: "rows_written R rows (ap_metric a) s'" "res = Inr () \<longleftrightarrow> consistent R (ap_metric a) (row_names rows)"
    by blast+
  show ?thesis
  proof (cases res)
    case (Inl e)
    with W have "\<not> consistent R (ap_metric a) (row_names rows)" by auto
    with W(1) Inl show ?thesis by (simp add: a' rows_written_def)
  next
    case (Inr u)
    with W have "consistent R (ap_metric a) (row_names rows)" by auto
    with W(1) Inr show ?thesis by (simp add: a' rows_written_def)
  qed
qed

definition sample_gauge :: "string \<Rightarrow> otlp_metric" where
  "sample_gauge name = \<lparr>om_name = name, om_description = [], om_unit = [],
     om_data = Some (GaugeData [\<lparr>nd_attributes = [], nd_time_unix_nano = 7000000, nd_value = None\<rparr>])\<rparr>"

definition sample_metrics_request :: "otlp_metric list \<Rightarrow> resource_metrics list" where
  "sample_metrics_request ms = [\<lparr>rm_resource = None, rm_scope_metrics = [ms]\<rparr>]"

lemmas metric_ingest_eval = ingest_metrics_def prepare_metrics_def prepare_resource_metrics_def
  prepare_metric_def prepare_number_point_def one_sample_row_def fetch_add_def sample_metrics_request_def
  sample_gauge_def normalize_metric_name_def build_dp_labels_def extract_number_value_def point_ms_def
  u64_to_i64_saturating_def extract_resource_labels_def promote_service_name_def metric_meta_def opt_text_def
  i64_max_def u64_max_def i64_div_def

theorem metrics_all_or_nothing_witness:
  "metric_view list_rodeo (ap_metric (fst (ingest_metrics list_rodeo (\<lambda>_. [])
       (sample_metrics_request [sample_gauge ''a.b'']) sample_state))) (label_fun [(''__name__'', ''a_b'')]) =
     [\<lparr>sm_timestamp_ms = 7, sm_value = f64_zero, sm_ingest_seq = 1\<rparr>]"
proof -
  have prep: "prepare_metrics (\<lambda>_. []) (ap_seq sample_state) (sample_metrics_request [sample_gauge ''a.b'']) =
      (2, [(''a_b'', ''a.b'', [], [\<lparr>sm_timestamp_ms = 7, sm_value = f64_zero, sm_ingest_seq = 1\<rparr>])],
       [(''a_b'', Gauge, None, None)])"
    by (simp add: metric_ingest_eval sample_state_def)
  have wf: "metric_base list_rodeo (ap_metric sample_state)" "names_ok list_rodeo (ap_metric sample_state)"
    "mt_next_series_id (ap_metric sample_state) + 1 \<le> u64_max"
    by (simp_all add: sample_state_def metric_new_base names_ok_def) (simp_all add: metric_new_def u64_max_def)
  have cons: "consistent list_rodeo (ap_metric sample_state) [(''a_b'', ''a.b'')]"
    by (simp add: consistent_def name_free_def check_metric_name_collision_def sample_state_def metric_new_def
        list_rodeo_def)
  have old: "metric_view list_rodeo (ap_metric sample_state) f = []" for f
    by (simp add: sample_state_def metric_view_def metric_new_def series_view_def)
  from metrics_all_or_nothing [OF list_rodeo_laws wf(1,2) prep _ prod.collapse [symmetric]] wf(3) cons
  show ?thesis by (simp add: old row_names_def samples_for_def row_label_def name_label_def row_samples_def)
qed

text \<open>
  a rejected export can reserve a name. In a request with the metrics \<open>a.b\<close> and \<open>a_b\<close> both
  pass the check; registering the second fails, the registration of the first stays. No series
  exists, yet a later export of \<open>a_b\<close> alone is rejected.
\<close>

lemma rejected_export_reserves_name:
  "let (a1, r1) = ingest_metrics list_rodeo (\<lambda>_. [])
         (sample_metrics_request [sample_gauge ''a.b'', sample_gauge ''a_b'']) sample_state;
       (a2, r2) = ingest_metrics list_rodeo (\<lambda>_. []) (sample_metrics_request [sample_gauge ''a_b'']) a1
   in r1 = Inl (MetricNameCollision ''a_b'' ''a.b'' ''a_b'') \<and> r2 = r1 \<and> mt_series (ap_metric a2) = []"
  by (simp add: metric_ingest_eval sample_state_def write_metrics_def check_metric_name_collision_def
      register_metric_name_def metric_new_def list_rodeo_def hm_simps)

end
