(* ===== verification/Metric_Answers.thy ===== *)
theory Metric_Answers
  imports Metric_Ingest_Correct Promql_Select_Correct
begin

text \<open>
  From ingestion to the answer for metrics: a PromQL selector evaluated over the store answers as a
  look-up in the abstract contents, so what a remote write or an OTLP export stored is what a later
  query shows.
\<close>

section \<open>Selectors over the abstract contents\<close>

text \<open>The samples an answer holds under a label set.\<close>

definition answered_samples :: "series_result list \<Rightarrow> (string \<Rightarrow> string list) \<Rightarrow> prom_samples" where
  "answered_samples answers f = concat (map se_samples (filter (\<lambda>r. label_fun (se_labels r) = f) answers))"

text \<open>What a selector shows at each time of the grid: the last of the samples in the five minutes before.\<close>

definition shown_samples :: "vector_selector \<Rightarrow> i64 \<Rightarrow> i64 \<Rightarrow> i64 \<Rightarrow> sample list \<Rightarrow> prom_samples" where
  "shown_samples vs a b step samples =
     grid_samples (\<lambda>t. last_value (filter
         (within_ms (i64_saturating_sub (effective_time vs a b t) 300000) (effective_time vs a b t)) samples))
       (time_grid a b step)"

lemma shown_samples_Nil: "shown_samples vs a b step [] = []"
  by (simp add: shown_samples_def last_value_def grid_samples_def List.map_filter_def)

lemma answered_samples_concat: "answered_samples (concat (map h xs)) f = concat (map (\<lambda>x. answered_samples (h x) f) xs)"
  by (induction xs) (simp_all add: answered_samples_def)

lemma answered_series:
  assumes "hm_get (mt_series s) sid = Some se"
  shows "answered_samples (some_samples (series_labels E s sid)
      (grid_samples (\<lambda>t. last_value (window_samples s sid 300000 (effective_time vs a b t))) (time_grid a b step))) f =
    (if label_fun (resolve_labels (pv_rodeo E) (mt_interner s) (ms_labels se)) = f
     then shown_samples vs a b step (ms_samples se) else [])"
  using assms
  by (auto simp: answered_samples_def some_samples_def series_labels_def get_series_labels_def window_samples_def
      samples_of_def shown_samples_def)

lemma selector_shows_view:
  assumes laws: "rodeo_laws (pv_rodeo E)" and wf: "metric_base (pv_rodeo E) s"
    and valid: "\<forall>m \<in> set (vs_label_matchers vs). matcher_valid (pv_regex E) m" and "0 < step" and "b \<le> i64_max"
  shows "\<exists>answers. eval_vector_selector E vs s a b step False = ok (InstantVector answers) \<and>
    (\<forall>f. answered_samples answers f =
      (if selects (pv_regex E) (vs_label_matchers vs) f
       then shown_samples vs a b step (metric_view (pv_rodeo E) s f) else []))"
proof -
  let ?one = "\<lambda>sid. some_samples (series_labels E s sid)
      (grid_samples (\<lambda>t. last_value (window_samples s sid 300000 (effective_time vs a b t))) (time_grid a b step))"
  note L = metric_baseD(1) [OF wf, unfolded metric_labelled_def]
  have "answered_samples (concat (map ?one (selected_series E s vs))) f =
      (if selects (pv_regex E) (vs_label_matchers vs) f
       then shown_samples vs a b step (metric_view (pv_rodeo E) s f) else [])" for f
    unfolding answered_samples_concat selected_series_def select_series_def metric_view_def
    by (rule selected_view [OF laws L valid, where h = "shown_samples vs a b step"])
      (simp_all add: answered_series shown_samples_Nil)
  moreover have "eval_vector_selector E vs s a b step False = ok (InstantVector (concat (map ?one (selected_series E s vs))))"
    using range_vector_selector [OF wf _ assms(5), of step E vs a] assms(4) by simp
  ultimately show ?thesis by blast
qed

lemma written_rows_shown:
  assumes rows: "rows_written (pv_rodeo E) rows s s'" and cons: "consistent (pv_rodeo E) s (row_names rows)"
    and laws: "rodeo_laws (pv_rodeo E)"
    and valid: "\<forall>m \<in> set (vs_label_matchers vs). matcher_valid (pv_regex E) m" and "0 < step" and "b \<le> i64_max"
  shows "\<exists>answers. eval_vector_selector E vs s' a b step False = ok (InstantVector answers) \<and>
    (\<forall>f. answered_samples answers f =
      (if selects (pv_regex E) (vs_label_matchers vs) f
       then shown_samples vs a b step (sort_key sm_timestamp_ms (metric_view (pv_rodeo E) s f @ samples_for f rows)) else []))"
proof -
  have wf: "metric_base (pv_rodeo E) s'"
    and view: "metric_view (pv_rodeo E) s' f = sort_key sm_timestamp_ms (metric_view (pv_rodeo E) s f @ samples_for f rows)" for f
    using rows cons by (simp_all add: rows_written_def)
  show ?thesis using selector_shows_view [OF laws wf valid assms(5,6)] by (simp only: view)
qed

section \<open>A write and a query\<close>

definition sample_write :: "remote_series list" where
  "sample_write = [\<lparr>rw_labels = [(''__name__'', ''up''), (''job'', ''api'')], rw_samples = [(f64_zero, 5)]\<rparr>]"

definition sample_row :: "string \<times> string \<times> (string \<times> string) list \<times> sample list" where
  "sample_row = (''up'', ''up'', [(''job'', ''api'')], [\<lparr>sm_timestamp_ms = 5, sm_value = f64_zero, sm_ingest_seq = 1\<rparr>])"

lemma sample_write_rows: "thread_filter_map prepare_remote_series (ap_seq sample_state) sample_write = (2, [sample_row])"
  by (simp add: Let_def List.map_filter_simps thread_filter_map_def sample_write_def sample_row_def prepare_remote_series_def remote_name_def fetch_add_def sample_state_def u64_max_def)

section \<open>Property\<close>

text \<open>
  C2: what is written is what is shown. A range query of a selector after a remote write that was
  accepted has, under every label set that meets the matchers, at each time of the grid the last of
  the samples stored there before and those of the request with these labels that lies in the five
  minutes before the time, and nothing under the other label sets.
\<close>

theorem written_samples_shown:
  assumes "rodeo_laws (pv_rodeo E)" and "metric_base (pv_rodeo E) (ap_metric w)" and "names_ok (pv_rodeo E) (ap_metric w)"
    and "thread_filter_map prepare_remote_series (ap_seq w) req = (seq', rows)"
    and "mt_next_series_id (ap_metric w) + length rows \<le> u64_max"
    and "ingest_remote_write (pv_rodeo E) req w = (w', Inr u)"
    and "\<forall>m \<in> set (vs_label_matchers vs). matcher_valid (pv_regex E) m" and "0 < step" and "b \<le> i64_max"
  shows "\<exists>answers. eval_vector_selector E vs (ap_metric w') a b step False = ok (InstantVector answers) \<and>
    (\<forall>f. answered_samples answers f =
      (if selects (pv_regex E) (vs_label_matchers vs) f
       then shown_samples vs a b step
         (sort_key sm_timestamp_ms (metric_view (pv_rodeo E) (ap_metric w) f @ samples_for f rows))
       else []))"
proof -
  obtain s' where s': "write_metrics (pv_rodeo E) rows (remote_metas rows) (ap_metric w) = (s', Inr u)" "ap_metric w' = s'"
    using assms(6) by (auto simp: ingest_remote_write_def assms(4) split: prod.splits)
  from write_metrics_spec [OF assms(1-3,5) s'(1)]
  have "rows_written (pv_rodeo E) rows (ap_metric w) s'" "consistent (pv_rodeo E) (ap_metric w) (row_names rows)" by simp_all
  from written_rows_shown [OF this assms(1,7-9)] show ?thesis by (simp add: s'(2))
qed

lemma written_samples_shown_witness:
  "\<exists>answers. eval_vector_selector sample_prom up_selector
      (ap_metric (fst (ingest_remote_write list_rodeo sample_write sample_state))) 5 5 10 False = ok (InstantVector answers) \<and>
    answered_samples answers (label_fun [(''__name__'', ''up''), (''job'', ''api'')]) = [(5, f64_zero)]"
proof -
  let ?w = "ingest_remote_write list_rodeo sample_write sample_state"
  have wf: "metric_base list_rodeo (ap_metric sample_state)" "names_ok list_rodeo (ap_metric sample_state)"
    "mt_next_series_id (ap_metric sample_state) + length [sample_row] \<le> u64_max"
    by (simp_all add: sample_state_def metric_new_base names_ok_def) (simp_all add: metric_new_def u64_max_def)
  have cons: "consistent list_rodeo (ap_metric sample_state) (row_names [sample_row])"
    by (simp add: consistent_def name_free_def check_metric_name_collision_def sample_state_def metric_new_def
        list_rodeo_def row_names_def sample_row_def)
  obtain s' r where run: "write_metrics list_rodeo [sample_row] (remote_metas [sample_row]) (ap_metric sample_state) = (s', r)"
    by force
  have "r = Inr ()" using write_metrics_spec [OF list_rodeo_laws wf run] cons by blast
  then have ok: "?w = (fst ?w, Inr ())"
    by (simp add: ingest_remote_write_def sample_write_rows run)
  have old: "metric_view list_rodeo (ap_metric sample_state) f = []" for f
    by (simp add: sample_state_def metric_view_def metric_new_def series_view_def)
  have f: "samples_for (label_fun [(''__name__'', ''up''), (''job'', ''api'')]) [sample_row] =
      [\<lparr>sm_timestamp_ms = 5, sm_value = f64_zero, sm_ingest_seq = 1\<rparr>]"
    by (simp add: samples_for_def row_label_def name_label_def row_samples_def sample_row_def)
  have "shown_samples up_selector 5 5 10 [\<lparr>sm_timestamp_ms = 5, sm_value = f64_zero, sm_ingest_seq = 1\<rparr>] = [(5, f64_zero)]"
    by code_simp
  moreover have "selects literal_regex (vs_label_matchers up_selector) (label_fun [(''__name__'', ''up''), (''job'', ''api'')])"
    by (simp add: selects_def up_matchers label_holds_def label_fun_def)
  moreover have "\<forall>m \<in> set (vs_label_matchers up_selector). matcher_valid (pv_regex sample_prom) m"
    by (simp add: up_matchers matcher_valid_def)
  ultimately show ?thesis
    using written_samples_shown [of sample_prom, unfolded sample_prom_fields, OF list_rodeo_laws wf(1,2) sample_write_rows wf(3) ok,
        of up_selector 10 5 5]
    by (auto simp: old f i64_max_def)
qed

end
