(* ===== verification/Trace_Answers.thy ===== *)
theory Trace_Answers
  imports Trace_Ingest_Correct Traceql_Handlers_Correct
begin

text \<open>
  From ingestion to the answer for traces: what an OTLP export stored is what asking for the trace shows.
\<close>

lemma span_meaning_trace: "ps_trace_id (span_meaning fmt (rs, ss, sp) n) = os_trace_id sp"
  by (simp add: span_meaning_def with_attrs_def span_of_otlp_def Let_def)

lemma request_span_valid:
  assumes "(rs, ss, sp) \<in> set (request_spans req)"
  shows "length (os_trace_id sp) = 16"
  using assms by (auto simp: request_spans_def resource_accepted_def scope_accepted_def span_accepted_def valid_id_def)

lemma stamped_nonempty:
  assumes "x \<in> set xs"
  shows "\<exists>n. g x n \<in> set (stamped g seq xs)"
proof -
  obtain k where "k < length xs" "xs ! k = x" using assms by (auto simp: in_set_conv_nth)
  then have "(k, x) \<in> set (enumerate 0 xs)" by (auto simp: in_set_enumerate_eq)
  then show ?thesis unfolding stamped_def by force
qed

text \<open>
  C3: what is exported is what is shown. After an OTLP trace export, a trace of which it carried a valid
  span is found under its id, as search prints it; the answer has one batch per service with that
  service's spans in order, together all spans of the trace: those stored before and, meaning what
  the request says, those of the request.
\<close>

theorem exported_spans_shown:
  assumes "rodeo_laws (env_rodeo E)" and "trace_wf (env_rodeo E) (ap_trace a)" and "ap_seq a \<le> u64_max"
    and "ingest_traces (env_rodeo E) fmt req a = (a', acc)"
    and "(rs, ss, sp) \<in> set (request_spans req)" and "t = os_trace_id sp"
    and "s' = ap_trace a'" and "name = (\<lambda>sp. rd_resolve (env_rodeo E) (ts_interner s') (sp_service sp))"
  shows "\<exists>sps services. trace_detail E s' (to_lowercase (hex_encode_upper t)) =
      (status_ok, json_map [(''batches'', JArray (map (\<lambda>svc. batch_json svc
        (map (span_json E (ts_interner s')) (filter (\<lambda>sp. name sp = svc) sps))) services))]) \<and>
    distinct services \<and> (\<Sum>svc \<leftarrow> services. mset (filter (\<lambda>sp. name sp = svc) sps)) = mset sps \<and>
    map (read_span (env_rodeo E) (ts_interner s')) sps =
      map (read_span (env_rodeo E) (ts_interner s')) (spans_of (ap_trace a) t) @
      filter (\<lambda>p. ps_trace_id p = t) (stamped (span_meaning fmt) (ap_seq a) (request_spans req))"
proof -
  let ?R = "env_rodeo E"
  let ?told = "filter (\<lambda>p. ps_trace_id p = t) (stamped (span_meaning fmt) (ap_seq a) (request_spans req))"
  have "stored ?R (ap_trace a) s' (stamped (span_meaning fmt) (ap_seq a) (request_spans req))"
    using ingest_traces_correct(1) [OF assms(1-3), of fmt req] by (simp add: assms(4,7))
  then obtain new where new: "spans_of s' t = spans_of (ap_trace a) t @ new" "map (read_span ?R (ts_interner s')) new = ?told"
    unfolding stored_def by blast
  obtain n where "span_meaning fmt (rs, ss, sp) n \<in> set (stamped (span_meaning fmt) (ap_seq a) (request_spans req))"
    using stamped_nonempty [OF assms(5)] by blast
  then have "span_meaning fmt (rs, ss, sp) n \<in> set ?told" by (simp add: span_meaning_trace assms(6))
  then have "?told \<noteq> []" by (metis empty_iff list.set(1))
  with new(2) have "new \<noteq> []" by (metis list.map(1))
  then have get: "get_trace s' t = Some (spans_of s' t)"
    using new(1) by (auto simp: get_trace_def spans_of_def split: option.splits)
  have "length t = 16" using request_span_valid [OF assms(5)] assms(6) by simp
  note T = trace_detail_complete [OF this get assms(8)]
  have "map (read_span ?R (ts_interner s')) (spans_of s' t) =
      map (read_span ?R (ts_interner s')) (spans_of (ap_trace a) t) @ ?told"
    by (simp only: new map_append)
  with T show ?thesis by blast
qed

lemma exported_spans_shown_witness:
  "\<exists>sps services. trace_detail list_env (ap_trace (fst (ingest_traces list_rodeo (\<lambda>_. []) sample_request sample_state)))
      (to_lowercase (hex_encode_upper (replicate 16 1))) =
      (status_ok, json_map [(''batches'', JArray (map (\<lambda>svc. batch_json svc
        (map (span_json list_env (ts_interner (ap_trace (fst (ingest_traces list_rodeo (\<lambda>_. []) sample_request sample_state)))))
          (filter (\<lambda>sp. rd_resolve list_rodeo
              (ts_interner (ap_trace (fst (ingest_traces list_rodeo (\<lambda>_. []) sample_request sample_state)))) (sp_service sp) = svc)
            sps))) services))]) \<and> length sps = 1"
proof -
  let ?r = "ingest_traces list_rodeo (\<lambda>_. []) sample_request sample_state"
  have R: "env_rodeo list_env = list_rodeo" by (simp add: list_env_def)
  have wf: "trace_wf list_rodeo (ap_trace sample_state)" "ap_seq sample_state \<le> u64_max"
    by (simp_all add: sample_state_def trace_new_wf u64_max_def)
  have old: "spans_of (ap_trace sample_state) t = []" for t
    by (simp add: sample_state_def trace_new_def spans_of_def)
  let ?p = "(hd sample_request, hd (rs_scope_spans (hd sample_request)), sample_otlp_span (replicate 16 1) (replicate 8 2))"
  have req: "request_spans sample_request = [?p]"
    by (simp add: request_spans_def sample_request_def resource_accepted_def scope_accepted_def
        span_accepted_def valid_id_def sample_otlp_span_def)
  have id: "os_trace_id (sample_otlp_span (replicate 16 1) (replicate 8 2)) = replicate 16 1"
    by (simp add: sample_otlp_span_def)
  have one: "length (filter (\<lambda>p. ps_trace_id p = replicate 16 1)
      (stamped (span_meaning (\<lambda>_. [])) (ap_seq sample_state) (request_spans sample_request))) = 1"
    unfolding req by (simp add: stamped_def span_meaning_trace id)
  have mem: "?p \<in> set (request_spans sample_request)" by (simp add: req)
  obtain sps services where S: "trace_detail list_env (ap_trace (fst ?r)) (to_lowercase (hex_encode_upper (replicate 16 1))) =
      (status_ok, json_map [(''batches'', JArray (map (\<lambda>svc. batch_json svc
        (map (span_json list_env (ts_interner (ap_trace (fst ?r))))
          (filter (\<lambda>sp. rd_resolve list_rodeo (ts_interner (ap_trace (fst ?r))) (sp_service sp) = svc) sps))) services))])"
    and told: "map (read_span list_rodeo (ts_interner (ap_trace (fst ?r)))) sps =
      map (read_span list_rodeo (ts_interner (ap_trace (fst ?r)))) (spans_of (ap_trace sample_state) (replicate 16 1)) @
      filter (\<lambda>p. ps_trace_id p = replicate 16 1)
        (stamped (span_meaning (\<lambda>_. [])) (ap_seq sample_state) (request_spans sample_request))"
    using exported_spans_shown [where E = list_env, unfolded R, OF list_rodeo_laws wf prod.collapse [symmetric] mem id [symmetric] refl refl]
    by blast
  have "length sps = 1" using arg_cong [OF told, of length] one by (simp add: old)
  with S show ?thesis by blast
qed

end
