(* ===== verification/App_Lifecycle.thy ===== *)
theory App_Lifecycle
  imports Log_Ingest Loki_Ingest Metric_Ingest Trace_Ingest
begin

text \<open>
  The life of the process: the eviction task (\<open>run_eviction\<close> in \<open>src/store/mod.rs\<close>), snapshots
  (\<open>src/snapshot.rs\<close>, \<open>src/api/snapshot.rs\<close>), start-up (\<open>src/main.rs\<close>), and the steps a running
  instance takes. A panic inside the eviction task is caught by the runtime and leaves the state
  as it was.
\<close>

section \<open>Eviction\<close>

text \<open>\<open>now\<close> is the time since the epoch in nanoseconds.\<close>

definition system_time_ns :: "nat \<Rightarrow> i64" where
  "system_time_ns now = (if i64_max < int now then i64_max else int now)"

definition eviction_duration_ns :: "duration \<Rightarrow> i64" where
  "eviction_duration_ns d = (if i64_max < int d then i64_max else int d)"

definition eviction_cutoff_ns :: "duration \<Rightarrow> nat \<Rightarrow> i64" where
  "eviction_cutoff_ns retention now =
     i64_saturating_sub (system_time_ns now) (eviction_duration_ns retention)"

definition run_eviction :: "'i rodeo_ops \<Rightarrow> nat \<Rightarrow> 'i app_state \<Rightarrow> panic + 'i app_state" where
  "run_eviction R now a =
     (case retention_duration (ap_config a) of
        Inl p \<Rightarrow> Inl p
      | Inr retention \<Rightarrow>
          (let cutoff_ns = eviction_cutoff_ns retention now;
               cutoff_ms = i64_div cutoff_ns 1000000
           in Inr (a\<lparr>ap_log := log_evict_to_max (cf_max_log_entries (ap_config a))
                       (log_evict_before cutoff_ns (ap_log a)),
                     ap_metric := metric_evict_to_max R (cf_max_series (ap_config a))
                       (metric_evict_before R cutoff_ms (ap_metric a)),
                     ap_trace := trace_evict_to_max (cf_max_spans (ap_config a))
                       (trace_evict_before cutoff_ns (ap_trace a))\<rparr>)))"

section \<open>Snapshots\<close>

text \<open>The highest sequence number in the stores, 0 when they are empty.\<close>

definition max_of :: "u64 list \<Rightarrow> u64" where
  "max_of ns = fold max ns 0"

definition max_ingest_seq :: "'i log_store \<Rightarrow> 'i metric_store \<Rightarrow> 'i trace_store \<Rightarrow> u64" where
  "max_ingest_seq logs metrics traces =
     (let l = max_of (concat (map (\<lambda>st. map le_ingest_seq (ls_entries st)) (hm_values (lg_streams logs))));
          m = max_of (concat (map (\<lambda>se. map sm_ingest_seq (ms_samples se)) (hm_values (mt_series metrics))));
          t = max_of (concat (map (map sp_ingest_seq) (hm_values (ts_traces traces))))
      in max (max l m) t)"

record 'i snapshot =
  sn_log :: "'i log_store"
  sn_metric :: "'i metric_store"
  sn_trace :: "'i trace_store"

text \<open>
  The \<open>bincode\<close> crate is a parameter over an abstract type of file contents; serialisation may
  fail. The directory holds the temporary file, complete or torn by an interrupted write, and the
  final one. Each file operation may fail, which \<open>fails\<close> decides.
\<close>

record ('i, 'b) snapshot_codec =
  sc_serialize :: "'i snapshot \<Rightarrow> 'b option"
  sc_deserialize :: "'b \<Rightarrow> 'i snapshot option"
  sc_len :: "'b \<Rightarrow> usize"

datatype 'b snapshot_file = Complete 'b | Torn

record 'b snapshot_dir =
  sd_tmp :: "'b snapshot_file option"
  sd_snap :: "'b snapshot_file option"

datatype file_op = CreateDir | RemoveTmp | OpenTmp | WriteTmp | SyncTmp | RenameTmp

datatype snapshot_error = SerializeFailed | FileFailed file_op

definition snapshot_of :: "'i app_state \<Rightarrow> 'i snapshot" where
  "snapshot_of a = \<lparr>sn_log = ap_log a, sn_metric = ap_metric a, sn_trace = ap_trace a\<rparr>"

text \<open>
  The temporary file is removed, created anew, written, synced and renamed over the final one.
  \<open>create_new\<close> refuses an existing file, and removing an absent one is no error.
\<close>

definition write_snapshot ::
  "(file_op \<Rightarrow> bool) \<Rightarrow> 'b \<Rightarrow> 'b snapshot_dir \<Rightarrow> 'b snapshot_dir \<times> (snapshot_error + unit)" where
  "write_snapshot fails bytes d =
     (if sd_tmp d \<noteq> None \<and> fails RemoveTmp then (d, Inl (FileFailed RemoveTmp))
      else let d1 = d\<lparr>sd_tmp := None\<rparr> in
        if fails OpenTmp then (d1, Inl (FileFailed OpenTmp))
        else if fails WriteTmp then (d1\<lparr>sd_tmp := Some Torn\<rparr>, Inl (FileFailed WriteTmp))
        else let d2 = d1\<lparr>sd_tmp := Some (Complete bytes)\<rparr> in
          if fails SyncTmp then (d2, Inl (FileFailed SyncTmp))
          else if fails RenameTmp then (d2, Inl (FileFailed RenameTmp))
          else (d2\<lparr>sd_tmp := None, sd_snap := sd_tmp d2\<rparr>, Inr ()))"

definition save_snapshot_owned ::
  "('i, 'b) snapshot_codec \<Rightarrow> (file_op \<Rightarrow> bool) \<Rightarrow> 'i snapshot \<Rightarrow> 'b snapshot_dir \<Rightarrow>
     'b snapshot_dir \<times> (snapshot_error + usize)" where
  "save_snapshot_owned C fails sn d =
     (if fails CreateDir then (d, Inl (FileFailed CreateDir))
      else case sc_serialize C sn of
             None \<Rightarrow> (d, Inl SerializeFailed)
           | Some bytes \<Rightarrow> (let (d', r) = write_snapshot fails bytes d
                           in (d', map_sum id (\<lambda>_. sc_len C bytes) r)))"

definition save_from_state_reported ::
  "('i, 'b) snapshot_codec \<Rightarrow> (file_op \<Rightarrow> bool) \<Rightarrow> 'i app_state \<Rightarrow> 'b snapshot_dir \<Rightarrow>
     'b snapshot_dir \<times> (snapshot_error + usize)" where
  "save_from_state_reported C fails a d = save_snapshot_owned C fails (snapshot_of a) d"

text \<open>The timer, the signal handler and the shutdown path ignore the outcome.\<close>

definition save_from_state ::
  "('i, 'b) snapshot_codec \<Rightarrow> (file_op \<Rightarrow> bool) \<Rightarrow> 'i app_state \<Rightarrow> 'b snapshot_dir \<Rightarrow> 'b snapshot_dir" where
  "save_from_state C fails a d = fst (save_from_state_reported C fails a d)"

text \<open>\<open>POST /api/v1/snapshot\<close>: the bytes written, or status 500.\<close>

definition snapshot_handler ::
  "('i, 'b) snapshot_codec \<Rightarrow> (file_op \<Rightarrow> bool) \<Rightarrow> 'i app_state \<Rightarrow> 'b snapshot_dir \<Rightarrow>
     'b snapshot_dir \<times> (snapshot_error + usize)" where
  "snapshot_handler C fails a d =
     (case save_from_state_reported C fails a d of
        (d', Inr bytes) \<Rightarrow> (d', Inr bytes) | (d', Inl e) \<Rightarrow> (d', Inl e))"

text \<open>Loading rebuilds the exact label maps, which older snapshots do not carry.\<close>

definition load_snapshot :: "('i, 'b) snapshot_codec \<Rightarrow> 'b snapshot_dir \<Rightarrow> 'i snapshot option" where
  "load_snapshot C d =
     (case sd_snap d of
        Some (Complete bytes) \<Rightarrow>
          map_option (\<lambda>sn. sn\<lparr>sn_log := log_rebuild_stream_ids (sn_log sn),
                              sn_metric := metric_rebuild_series_ids (sn_metric sn)\<rparr>) (sc_deserialize C bytes)
      | _ \<Rightarrow> None)"

section \<open>Start\<close>

definition fresh_snapshot :: "'i rodeo_ops \<Rightarrow> 'i snapshot" where
  "fresh_snapshot R = \<lparr>sn_log = log_new R, sn_metric = metric_new R, sn_trace = trace_new R\<rparr>"

text \<open>The stores come from the snapshot if one is asked for and readable, and the counter goes on
  after the highest number found.\<close>

definition start_app ::
  "'i rodeo_ops \<Rightarrow> ('i, 'b) snapshot_codec \<Rightarrow> config \<Rightarrow> 'b snapshot_dir \<Rightarrow> 'i app_state" where
  "start_app R C cfg d =
     (let sn = (if cf_restore cfg
                then (case load_snapshot C d of Some sn \<Rightarrow> sn | None \<Rightarrow> fresh_snapshot R)
                else fresh_snapshot R);
          seq_seed = u64_saturating_add (max_ingest_seq (sn_log sn) (sn_metric sn) (sn_trace sn)) 1
      in \<lparr>ap_log = sn_log sn, ap_metric = sn_metric sn, ap_trace = sn_trace sn,
          ap_config = cfg, ap_seq = seq_seed\<rparr>)"

section \<open>The steps of an instance\<close>

text \<open>An instance with its snapshot directory.\<close>

record ('i, 'b) server =
  in_app :: "'i app_state"
  in_dir :: "'b snapshot_dir"

text \<open>Requests, in the forms the handlers decode, and what the process does by itself.\<close>

datatype app_event =
    ExportLogs "resource_logs list"
  | PushLoki "loki_stream list"
  | ExportMetrics "resource_metrics list"
  | WriteRemote "remote_series list"
  | ExportTraces "resource_spans list"
  | Reset "string option"
  | Evict nat \<comment> \<open>at this time\<close>
  | SaveSnapshot "file_op \<Rightarrow> bool"
  | Restart config

record ('i, 'b) app_env =
  en_rodeo :: "'i rodeo_ops"
  en_codec :: "('i, 'b) snapshot_codec"
  en_log :: log_ingest_env
  en_json :: "json \<Rightarrow> string"

inductive app_step ::
  "('i, 'b) app_env \<Rightarrow> ('i, 'b) server \<Rightarrow> app_event \<Rightarrow> ('i, 'b) server \<Rightarrow> bool" for E where
  logs: "ingest_logs (en_rodeo E) (en_log E) req (in_app w) = (a, n) \<Longrightarrow>
    app_step E w (ExportLogs req) (w\<lparr>in_app := a\<rparr>)"
| loki: "ingest_loki_push (en_rodeo E) (en_json E) sts (in_app w) = (a, ns) \<Longrightarrow>
    app_step E w (PushLoki sts) (w\<lparr>in_app := a\<rparr>)"
| metrics: "ingest_metrics (en_rodeo E) (li_fmt (en_log E)) req (in_app w) = (a, r) \<Longrightarrow>
    app_step E w (ExportMetrics req) (w\<lparr>in_app := a\<rparr>)"
| remote: "ingest_remote_write (en_rodeo E) sers (in_app w) = (a, r) \<Longrightarrow>
    app_step E w (WriteRemote sers) (w\<lparr>in_app := a\<rparr>)"
| traces: "ingest_traces (en_rodeo E) (li_fmt (en_log E)) req (in_app w) = (a, acc) \<Longrightarrow>
    app_step E w (ExportTraces req) (w\<lparr>in_app := a\<rparr>)"
| reset: "app_step E w (Reset service) (w\<lparr>in_app := reset (en_rodeo E) service (in_app w)\<rparr>)"
| evict: "run_eviction (en_rodeo E) now (in_app w) = Inr a \<Longrightarrow>
    app_step E w (Evict now) (w\<lparr>in_app := a\<rparr>)"
| evict_panic: "run_eviction (en_rodeo E) now (in_app w) = Inl p \<Longrightarrow>
    app_step E w (Evict now) w"
| save: "app_step E w (SaveSnapshot fails)
    (w\<lparr>in_dir := save_from_state (en_codec E) fails (in_app w) (in_dir w)\<rparr>)"
| restart: "app_step E w (Restart cfg)
    (w\<lparr>in_app := start_app (en_rodeo E) (en_codec E) cfg (in_dir w)\<rparr>)"

end
