(* ===== verification/Snapshot_Correct.thy ===== *)
theory Snapshot_Correct
  imports App_Lifecycle Metric_Ingest_Correct
begin

text \<open>
  Snapshots. A store that went through serialisation is the same up to the iteration order of its
  hash maps and sets; the invariants of the three stores and their views do not depend on it. What
  an interrupted save leaves on disk, and what a restart makes of it.
\<close>

section \<open>Maps up to order\<close>

definition same_map :: "('v \<Rightarrow> 'v \<Rightarrow> bool) \<Rightarrow> ('k, 'v) hash_map \<Rightarrow> ('k, 'v) hash_map \<Rightarrow> bool" where
  "same_map rel m m' \<longleftrightarrow> (hm_wf m \<longrightarrow> hm_wf m') \<and> (\<forall>k. rel_option rel (hm_get m k) (hm_get m' k))"

definition same_set :: "'a hash_set \<Rightarrow> 'a hash_set \<Rightarrow> bool" where
  "same_set xs ys \<longleftrightarrow> set xs = set ys \<and> (distinct xs \<longrightarrow> distinct ys)"

lemma same_map_get: "same_map (=) m m' \<Longrightarrow> hm_get m' = hm_get m"
  by (auto simp: same_map_def option.rel_eq)

lemma same_map_wf: "same_map rel m m' \<Longrightarrow> hm_wf m \<Longrightarrow> hm_wf m'"
  by (simp add: same_map_def)

lemma same_map_refl: "(\<And>v. rel v v) \<Longrightarrow> same_map rel m m"
  by (simp add: same_map_def option.rel_refl)

lemma same_set_refl [simp]: "same_set xs xs"
  by (simp add: same_set_def)

lemma same_map_back:
  assumes "same_map rel m m'" and "hm_get m' k = Some v'"
  obtains v where "hm_get m k = Some v" and "rel v v'"
proof -
  have "rel_option rel (hm_get m k) (hm_get m' k)" using assms(1) by (simp add: same_map_def)
  then show ?thesis using assms(2) that by (cases "hm_get m k") auto
qed

lemma same_map_values:
  assumes "same_map (=) m m'" and "hm_wf m"
  shows "mset (hm_values m') = mset (hm_values m)"
proof -
  have wf: "hm_wf m'" by (rule same_map_wf [OF assms])
  have "set m' = set m"
    by (rule set_eqI, simp only: split_paired_all hm_mem_iff [OF wf] hm_mem_iff [OF assms(2)]
        same_map_get [OF assms(1)])
  then have "mset m' = mset m"
    using wf assms(2) by (metis distinct_map set_eq_iff_mset_eq_distinct)
  then show ?thesis by (metis mset_map)
qed

lemma same_map_sum:
  fixes f :: "'v \<Rightarrow> nat"
  assumes "same_map (=) m m'" and "hm_wf m"
  shows "sum_list (map f (hm_values m')) = sum_list (map f (hm_values m))"
  using arg_cong [OF same_map_values [OF assms], of "\<lambda>vs. \<Sum>\<^sub># (image_mset f vs)"]
  by (simp only: mset_map [symmetric] sum_mset_sum_list)

lemma same_map_sets:
  assumes "same_map same_set m m'"
  shows "(case hm_get m' k of None \<Rightarrow> {} | Some xs \<Rightarrow> set xs) = (case hm_get m k of None \<Rightarrow> {} | Some xs \<Rightarrow> set xs)"
proof -
  have "rel_option same_set (hm_get m k) (hm_get m' k)" using assms by (simp add: same_map_def)
  then show ?thesis by (cases "hm_get m k"; cases "hm_get m' k") (auto simp: same_set_def)
qed

section \<open>The stores up to order\<close>

lemma index_wf_same:
  assumes "same_map (=) idx idx'" and "same_map same_set vals vals'" and "index_wf items idx vals"
  shows "index_wf items idx' vals'"
proof -
  note W = index_wfD [OF assms(3)]
  have "postings_wf idx'"
    using W(1) same_map_wf [OF assms(1)] unfolding postings_wf_def same_map_get [OF assms(1)] by blast
  moreover have "values_wf vals'"
    unfolding values_wf_def
  proof (intro conjI allI impI)
    show "hm_wf vals'" using W(2) same_map_wf [OF assms(2)] unfolding values_wf_def by blast
    fix k vs' assume "hm_get vals' k = Some vs'"
    then obtain vs where "hm_get vals k = Some vs" "same_set vs vs'" by (rule same_map_back [OF assms(2)])
    moreover have "distinct vs" "vs \<noteq> []"
      using W(2) \<open>hm_get vals k = Some vs\<close> unfolding values_wf_def by blast+
    ultimately show "distinct vs'" "vs' \<noteq> []" unfolding same_set_def by auto
  qed
  moreover have "posting_of idx' = posting_of idx"
    by (rule ext) (simp add: posting_of_def same_map_get [OF assms(1)])
  moreover have "values_of vals' = values_of vals"
    by (rule ext) (simp only: values_of_def same_map_sets [OF assms(2)])
  ultimately show ?thesis using W(3,4) by (simp add: index_wf_def)
qed

lemma labelled_wf_same:
  assumes "same_map (=) streams streams'" and "same_map (=) ids ids'" and "same_map (=) idx idx'"
    and "same_map same_set vals vals'" and "labelled_wf R i lab streams ids nxt idx vals"
  shows "labelled_wf R i lab streams' ids' nxt idx' vals'"
proof -
  have items: "items_of lab streams' = items_of lab streams"
    by (rule ext) (simp add: items_of_def same_map_get [OF assms(1)])
  note D = assms(5) [unfolded labelled_wf_def]
  show ?thesis
    unfolding labelled_wf_def items same_map_get [OF assms(1)] same_map_get [OF assms(2)]
    using D same_map_wf [OF assms(1)] same_map_wf [OF assms(2)] index_wf_same [OF assms(3,4)] by blast
qed

lemma series_view_same:
  assumes same: "same_map (=) streams streams'"
    and wf: "labelled_wf R i lab streams ids nxt idx vals" and wf': "labelled_wf R i lab streams' ids' nxt idx' vals'"
  shows "series_view R i lab dat streams' = series_view R i lab dat streams"
proof
  fix f
  note get = same_map_get [OF same]
  from wf show "series_view R i lab dat streams' f = series_view R i lab dat streams f"
  proof (cases rule: series_view_cases [where f = f and dat = dat])
    case (item x s)
    then have "hm_get streams' x = Some s" by (simp add: get)
    from series_view_item [OF wf' this] item show ?thesis by simp
  next
    case none
    then show ?thesis
      by (intro trans [OF series_view_none [OF labelled_wfD(1) [OF wf']]]) (auto simp: get)
  qed
qed

definition same_log :: "'i log_store \<Rightarrow> 'i log_store \<Rightarrow> bool" where
  "same_log s s' \<longleftrightarrow> same_map (=) (lg_streams s) (lg_streams s') \<and>
     same_map (=) (lg_label_index s) (lg_label_index s') \<and>
     same_map same_set (lg_label_values s) (lg_label_values s') \<and> lg_interner s' = lg_interner s \<and>
     lg_total_entries s' = lg_total_entries s \<and> same_map (=) (lg_stream_ids s) (lg_stream_ids s') \<and>
     lg_next_stream_id s' = lg_next_stream_id s \<and> same_map same_set (lg_trace_index s) (lg_trace_index s')"

definition same_metric :: "'i metric_store \<Rightarrow> 'i metric_store \<Rightarrow> bool" where
  "same_metric s s' \<longleftrightarrow> same_map (=) (mt_series s) (mt_series s') \<and>
     same_map (=) (mt_label_index s) (mt_label_index s') \<and>
     same_map same_set (mt_label_values s) (mt_label_values s') \<and> mt_interner s' = mt_interner s \<and>
     mt_total_samples s' = mt_total_samples s \<and> same_map (=) (mt_series_ids s) (mt_series_ids s') \<and>
     mt_next_series_id s' = mt_next_series_id s \<and> same_map (=) (mt_name_sources s) (mt_name_sources s') \<and>
     same_map (=) (mt_metadata s) (mt_metadata s')"

definition same_trace :: "'i trace_store \<Rightarrow> 'i trace_store \<Rightarrow> bool" where
  "same_trace s s' \<longleftrightarrow> same_map (=) (ts_traces s) (ts_traces s') \<and>
     same_map same_set (ts_service_index s) (ts_service_index s') \<and>
     same_map same_set (ts_name_index s) (ts_name_index s') \<and>
     same_map same_set (ts_status_index s) (ts_status_index s') \<and>
     same_map (same_map same_set) (ts_attr_index s) (ts_attr_index s') \<and>
     ts_interner s' = ts_interner s \<and> ts_total_spans s' = ts_total_spans s"

lemma same_log_base:
  assumes same: "same_log s s'" and wf: "log_base R s"
  shows "log_base R s' \<and> log_view R s' = log_view R s"
proof -
  note S = same [unfolded same_log_def] and B = log_baseD [OF wf]
  have lab: "log_labelled R s'"
    using labelled_wf_same [of "lg_streams s" "lg_streams s'" "lg_stream_ids s" "lg_stream_ids s'"
        "lg_label_index s" "lg_label_index s'" "lg_label_values s" "lg_label_values s'"] S B(1)
    by (simp add: log_labelled_def)
  moreover have "entries_sorted (lg_streams s')"
    using B(2) same_map_get [OF conjunct1 [OF S]] by (simp add: entries_sorted_def)
  moreover have "log_count (lg_streams s') = log_count (lg_streams s)"
    unfolding log_count_def by (rule same_map_sum [OF conjunct1 [OF S] B(4)])
  moreover have "log_view R s' = log_view R s"
    unfolding log_view_def using S series_view_same B(1) lab unfolding log_labelled_def by metis
  ultimately show ?thesis using S B(3) by (simp add: log_base_def)
qed

lemma same_metric_base:
  assumes same: "same_metric s s'" and wf: "metric_base R s"
  shows "metric_base R s' \<and> metric_view R s' = metric_view R s"
proof -
  note S = same [unfolded same_metric_def] and B = metric_baseD [OF wf]
  have lab: "metric_labelled R s'"
    using labelled_wf_same [of "mt_series s" "mt_series s'" "mt_series_ids s" "mt_series_ids s'"
        "mt_label_index s" "mt_label_index s'" "mt_label_values s" "mt_label_values s'"] S B(1)
    by (simp add: metric_labelled_def)
  moreover have "samples_sorted (mt_series s')"
    using B(2) same_map_get [OF conjunct1 [OF S]] by (simp add: samples_sorted_def)
  moreover have "metric_count (mt_series s') = metric_count (mt_series s)"
    unfolding metric_count_def by (rule same_map_sum [OF conjunct1 [OF S] B(4)])
  moreover have "metric_view R s' = metric_view R s"
    unfolding metric_view_def using S series_view_same B(1) lab unfolding metric_labelled_def by metis
  ultimately show ?thesis using S B(3) by (simp add: metric_base_def)
qed

lemma names_ok_same: "same_metric s s' \<Longrightarrow> names_ok R s \<Longrightarrow> names_ok R s'"
  using same_map_get [of "mt_name_sources s" "mt_name_sources s'"]
  by (simp add: same_metric_def names_ok_def)

lemma idx_wf_same: "same_map same_set m m' \<Longrightarrow> idx_wf m \<Longrightarrow> idx_wf m'"
  unfolding idx_wf_def
  by (metis same_map_back same_map_wf same_set_def)

lemma idx_set_same: "same_map same_set m m' \<Longrightarrow> idx_set m' k = idx_set m k"
  unfolding idx_set_def by (rule same_map_sets)

lemma idx_exact_same:
  assumes "same_map (=) traces traces'" and "same_map same_set m m'" and "idx_exact f traces m"
  shows "idx_exact f traces' m'"
  using assms(3) idx_wf_same [OF assms(2)]
  by (simp add: idx_exact_def idx_set_same [OF assms(2)] has_key_def same_map_get [OF assms(1)])

lemma idx_full_same: "same_map same_set m m' \<Longrightarrow> idx_full m \<Longrightarrow> idx_full m'"
  unfolding idx_full_def by (metis same_map_back same_set_def set_empty)

lemma attr_exact_same:
  assumes "same_map (=) traces traces'" and "same_map (same_map same_set) m m'" and "attr_exact traces m"
  shows "attr_exact traces' m'"
proof -
  have "attr_wf m'"
    using assms(3) same_map_wf [OF assms(2)] unfolding attr_exact_def attr_wf_def
    by (metis same_map_back [OF assms(2)] idx_wf_same)
  moreover have "attr_set m' k v = attr_set m k v" for k v
  proof -
    have "rel_option (same_map same_set) (hm_get m k) (hm_get m' k)" using assms(2) by (simp add: same_map_def)
    then show ?thesis
      by (cases "hm_get m k"; cases "hm_get m' k") (simp_all add: attr_set_def idx_set_same)
  qed
  ultimately show ?thesis
    using assms(3) by (simp add: attr_exact_def has_attr_def same_map_get [OF assms(1)])
qed

lemma same_trace_spans:
  assumes "same_trace s s'"
  shows "spans_of s' = spans_of s"
  using same_map_get [of "ts_traces s" "ts_traces s'"] assms
  by (simp add: same_trace_def spans_of_def fun_eq_iff)

lemma same_trace_wf:
  assumes same: "same_trace s s'" and wf: "trace_wf R s"
  shows "trace_wf R s'"
proof -
  note S = same [unfolded same_trace_def] and W = trace_wfD [OF wf] and T = traces_wfD [OF trace_wfD(1) [OF wf]]
  have tr: "same_map (=) (ts_traces s) (ts_traces s')" using S by blast
  have "span_count (ts_traces s') = span_count (ts_traces s)"
    unfolding span_count_def by (rule same_map_sum [OF tr T(1)])
  then have "traces_wf R s'"
    using W(1) S same_map_wf [OF tr] by (simp add: traces_wf_def same_map_get [OF tr])
  moreover have "keys_exact s'"
    using W(2) S unfolding keys_exact_def by (blast intro: idx_exact_same [OF tr])
  moreover have "keys_full s'"
    using W(3) S unfolding keys_full_def by (blast intro: idx_full_same)
  moreover have "attr_exact (ts_traces s') (ts_attr_index s')"
    using W(4) S attr_exact_same [OF tr] by blast
  ultimately show ?thesis by (simp add: trace_wf_def)
qed

lemma services_ok_same: "same_trace s s' \<Longrightarrow> services_ok R s \<Longrightarrow> services_ok R s'"
  using same_trace_spans [of s s'] by (simp add: services_ok_def same_trace_def)

section \<open>What is stored, and numbered\<close>

text \<open>The sequence numbers in the stores, as they are seen through the views.\<close>

definition log_seqs :: "'i rodeo_ops \<Rightarrow> 'i log_store \<Rightarrow> u64 set" where
  "log_seqs R s = (\<Union>f. le_ingest_seq ` set (log_view R s f))"

definition metric_seqs :: "'i rodeo_ops \<Rightarrow> 'i metric_store \<Rightarrow> u64 set" where
  "metric_seqs R s = (\<Union>f. sm_ingest_seq ` set (metric_view R s f))"

definition trace_seqs :: "'i trace_store \<Rightarrow> u64 set" where
  "trace_seqs s = (\<Union>t. sp_ingest_seq ` set (spans_of s t))"

lemma fold_max_ge: "m \<le> fold max ns m \<and> (\<forall>n \<in> set ns. n \<le> fold max ns (m :: u64))"
proof (induction ns arbitrary: m)
  case (Cons k ns)
  from Cons [of "max k m"] show ?case by auto
qed simp

lemma max_of_ge: "n \<in> set ns \<Longrightarrow> n \<le> max_of ns"
  using fold_max_ge [of 0 ns] by (simp add: max_of_def)

text \<open>The view at any label function holds only what is stored.\<close>

lemma series_view_in:
  assumes "e \<in> set (series_view R i lab dat streams f)"
  shows "\<exists>s \<in> set (hm_values streams). e \<in> set (dat s)"
  using assms by (auto simp: series_view_def)

lemma max_ingest_seq_ge:
  assumes "n \<in> log_seqs R l \<union> metric_seqs R m \<union> trace_seqs t"
  shows "n \<le> max_ingest_seq l m t"
proof -
  have "n \<le> max_of (concat (map (\<lambda>st. map le_ingest_seq (ls_entries st)) (hm_values (lg_streams l))))"
    if "n \<in> log_seqs R l"
  proof (rule max_of_ge)
    from that obtain f e where e: "e \<in> set (log_view R l f)" "n = le_ingest_seq e" unfolding log_seqs_def by blast
    from series_view_in [OF e(1) [unfolded log_view_def]]
    show "n \<in> set (concat (map (\<lambda>st. map le_ingest_seq (ls_entries st)) (hm_values (lg_streams l))))"
      using e(2) by auto
  qed
  moreover have "n \<le> max_of (concat (map (\<lambda>se. map sm_ingest_seq (ms_samples se)) (hm_values (mt_series m))))"
    if "n \<in> metric_seqs R m"
  proof (rule max_of_ge)
    from that obtain f e where e: "e \<in> set (metric_view R m f)" "n = sm_ingest_seq e" unfolding metric_seqs_def by blast
    from series_view_in [OF e(1) [unfolded metric_view_def]]
    show "n \<in> set (concat (map (\<lambda>se. map sm_ingest_seq (ms_samples se)) (hm_values (mt_series m))))"
      using e(2) by auto
  qed
  moreover have "n \<le> max_of (concat (map (map sp_ingest_seq) (hm_values (ts_traces t))))"
    if "n \<in> trace_seqs t"
  proof (rule max_of_ge)
    from that obtain k sp where "sp \<in> set (spans_of t k)" "n = sp_ingest_seq sp" unfolding trace_seqs_def by blast
    then obtain sps where "hm_get (ts_traces t) k = Some sps" "sp \<in> set sps" "n = sp_ingest_seq sp"
      by (cases "hm_get (ts_traces t) k") (auto simp: spans_of_def)
    moreover from this(1) have "(k, sps) \<in> set (ts_traces t)" by (rule map_of_SomeD)
    ultimately show "n \<in> set (concat (map (map sp_ingest_seq) (hm_values (ts_traces t))))" by force
  qed
  ultimately show ?thesis using assms by (auto simp: max_ingest_seq_def Let_def le_max_iff_disj)
qed

section \<open>The invariant of the application\<close>

text \<open>Every store keeps its invariant and every stored sequence number is below the counter.\<close>

definition stores_ok :: "'i rodeo_ops \<Rightarrow> 'i log_store \<Rightarrow> 'i metric_store \<Rightarrow> 'i trace_store \<Rightarrow> bool" where
  "stores_ok R l m t \<longleftrightarrow> log_base R l \<and> metric_base R m \<and> names_ok R m \<and> trace_wf R t \<and> services_ok R t"

definition seqs_below :: "'i rodeo_ops \<Rightarrow> 'i app_state \<Rightarrow> bool" where
  "seqs_below R a \<longleftrightarrow>
     (\<forall>n \<in> log_seqs R (ap_log a) \<union> metric_seqs R (ap_metric a) \<union> trace_seqs (ap_trace a). n < ap_seq a)"

definition app_inv :: "'i rodeo_ops \<Rightarrow> 'i app_state \<Rightarrow> bool" where
  "app_inv R a \<longleftrightarrow> stores_ok R (ap_log a) (ap_metric a) (ap_trace a) \<and> ap_seq a \<le> u64_max \<and> seqs_below R a"

section \<open>Saving and loading\<close>

definition same_snapshot :: "'i snapshot \<Rightarrow> 'i snapshot \<Rightarrow> bool" where
  "same_snapshot s s' \<longleftrightarrow> same_log (sn_log s) (sn_log s') \<and> same_metric (sn_metric s) (sn_metric s') \<and>
     same_trace (sn_trace s) (sn_trace s')"

text \<open>Deserialising what was serialised gives the same value up to the order of maps and sets.\<close>

definition snapshot_codec_laws :: "('i, 'b) snapshot_codec \<Rightarrow> bool" where
  "snapshot_codec_laws C \<longleftrightarrow>
     (\<forall>s b. sc_serialize C s = Some b \<longrightarrow> (\<exists>s'. sc_deserialize C b = Some s' \<and> same_snapshot s s'))"

text \<open>A save either installs the whole snapshot or leaves the one that was there.\<close>

lemma save_atomic:
  assumes "save_from_state_reported C fails a d = (d', r)"
  shows "(case r of
      Inr n \<Rightarrow> (\<exists>bytes. sc_serialize C (snapshot_of a) = Some bytes \<and> n = sc_len C bytes \<and>
        sd_snap d' = Some (Complete bytes) \<and> sd_tmp d' = None)
    | Inl e \<Rightarrow> sd_snap d' = sd_snap d)"
  using assms
  by (auto simp: save_from_state_reported_def save_snapshot_owned_def write_snapshot_def Let_def
      split: option.splits if_splits prod.splits sum.splits)

text \<open>The views of two groups of stores.\<close>

definition same_content :: "'i rodeo_ops \<Rightarrow> 'i snapshot \<Rightarrow> 'i snapshot \<Rightarrow> bool" where
  "same_content R s s' \<longleftrightarrow> log_view R (sn_log s') = log_view R (sn_log s) \<and>
     metric_view R (sn_metric s') = metric_view R (sn_metric s) \<and> spans_of (sn_trace s') = spans_of (sn_trace s) \<and>
     lg_interner (sn_log s') = lg_interner (sn_log s) \<and> ts_interner (sn_trace s') = ts_interner (sn_trace s)"

lemma log_rebuild_other:
  "lg_interner (log_rebuild_stream_ids s) = lg_interner s"
  by (simp add: log_rebuild_fields Let_def)

lemma metric_rebuild_other:
  "mt_interner (metric_rebuild_series_ids s) = mt_interner s"
  "mt_name_sources (metric_rebuild_series_ids s) = mt_name_sources s"
  by (simp_all add: metric_rebuild_fields Let_def)

lemma load_saved:
  assumes codec: "snapshot_codec_laws C" and bytes: "sc_serialize C s = Some b"
    and d: "sd_snap d = Some (Complete b)"
    and ok: "stores_ok R (sn_log s) (sn_metric s) (sn_trace s)"
    and room: "lg_next_stream_id (sn_log s) \<le> u64_max" "mt_next_series_id (sn_metric s) \<le> u64_max"
  obtains s' where "load_snapshot C d = Some s'"
    and "stores_ok R (sn_log s') (sn_metric s') (sn_trace s')" and "same_content R s s'"
proof -
  obtain t where t: "sc_deserialize C b = Some t" "same_snapshot s t"
    using codec bytes unfolding snapshot_codec_laws_def by blast
  note S = t(2) [unfolded same_snapshot_def] and O = ok [unfolded stores_ok_def]
  define s' where "s' = t\<lparr>sn_log := log_rebuild_stream_ids (sn_log t),
    sn_metric := metric_rebuild_series_ids (sn_metric t)\<rparr>"
  have l: "log_base R (sn_log t)" "log_view R (sn_log t) = log_view R (sn_log s)"
    using same_log_base S O by blast+
  have m: "metric_base R (sn_metric t)" "metric_view R (sn_metric t) = metric_view R (sn_metric s)"
    using same_metric_base S O by blast+
  have nxt: "lg_next_stream_id (sn_log t) \<le> u64_max" "mt_next_series_id (sn_metric t) \<le> u64_max"
    "lg_interner (sn_log t) = lg_interner (sn_log s)" "ts_interner (sn_trace t) = ts_interner (sn_trace s)"
    using S room by (simp_all add: same_log_def same_metric_def same_trace_def)
  have L: "log_base R (sn_log s') \<and> log_view R (sn_log s') = log_view R (sn_log s)"
    using log_rebuild_correct [OF l(1) nxt(1), where a = "lg_stream_ids (sn_log t)" and n = "lg_next_stream_id (sn_log t)"]
    by (simp add: s'_def l(2))
  have M: "metric_base R (sn_metric s') \<and> metric_view R (sn_metric s') = metric_view R (sn_metric s)"
    using metric_rebuild_correct [OF m(1) nxt(2), where a = "mt_series_ids (sn_metric t)" and n = "mt_next_series_id (sn_metric t)"]
    by (simp add: s'_def m(2))
  have N: "names_ok R (sn_metric s')"
    using names_ok_same [of "sn_metric s" "sn_metric t"] S O
    by (simp add: s'_def names_ok_def metric_rebuild_other)
  have T: "trace_wf R (sn_trace s')" "services_ok R (sn_trace s')" "spans_of (sn_trace s') = spans_of (sn_trace s)"
    using S O same_trace_wf services_ok_same same_trace_spans by (auto simp: s'_def)
  show ?thesis
  proof (rule that)
    show "load_snapshot C d = Some s'" by (simp add: load_snapshot_def d t(1) s'_def)
    show "stores_ok R (sn_log s') (sn_metric s') (sn_trace s')" using L M N T by (simp add: stores_ok_def)
    show "same_content R s s'"
      using L M T(3) nxt by (simp add: same_content_def s'_def log_rebuild_other)
  qed
qed

end
