(* ===== verification/App_Steps.thy ===== *)
theory App_Steps
  imports Snapshot_Correct
begin

text \<open>
  What each step of the application does to the invariant: what eviction and clearing leave alone,
  the numbers ingestion hands out, and the preservation lemmas, one per operation.
\<close>

section \<open>What eviction and clearing leave alone\<close>

lemma fold_frame:
  assumes "\<And>x s. F s (f x s)" and "\<And>s. F s s" and "\<And>s t u. F s t \<Longrightarrow> F t u \<Longrightarrow> F s u"
  shows "F s (fold f xs s)"
  by (induction xs arbitrary: s) (simp_all add: assms(2), blast intro: assms(1,3))

lemma log_drop_stream_next [simp]: "lg_next_stream_id (log_drop_stream x s) = lg_next_stream_id s"
  by (simp add: log_drop_stream_def split: option.split prod.split)

lemma log_drain_next [simp]: "lg_next_stream_id (log_drain n xs s) = lg_next_stream_id s"
  by (induction n xs s rule: log_drain.induct) (simp_all add: Let_def split: option.split)

lemma rebuild_trace_index_next [simp]: "lg_next_stream_id (rebuild_trace_index s) = lg_next_stream_id s"
  by (simp add: rebuild_trace_index_def)

lemma log_evict_next:
  "lg_next_stream_id (log_evict_to_max n s) = lg_next_stream_id s"
  "lg_next_stream_id (log_evict_before c s) = lg_next_stream_id s"
proof -
  show "lg_next_stream_id (log_evict_to_max n s) = lg_next_stream_id s" by (simp add: log_evict_to_max_def)
  have "lg_next_stream_id (fold log_drop_stream xs t) = lg_next_stream_id t" for xs and t :: "'a log_store"
    by (rule fold_frame) simp_all
  then show "lg_next_stream_id (log_evict_before c s) = lg_next_stream_id s"
    by (simp add: log_evict_before_def split: prod.split)
qed

text \<open>Eviction and clearing keep the interner of the metric store and only drop registrations.\<close>

definition metric_frame :: "'i metric_store \<Rightarrow> 'i metric_store \<Rightarrow> bool" where
  "metric_frame s s' \<longleftrightarrow> mt_interner s' = mt_interner s \<and> mt_next_series_id s' = mt_next_series_id s \<and>
     (\<forall>n v. hm_get (mt_name_sources s') n = Some v \<longrightarrow> hm_get (mt_name_sources s) n = Some v)"

lemma metric_frame_refl: "metric_frame s s"
  by (simp add: metric_frame_def)

lemma metric_frame_trans: "metric_frame s t \<Longrightarrow> metric_frame t u \<Longrightarrow> metric_frame s u"
  by (simp add: metric_frame_def)

lemma names_ok_frame: "metric_frame s s' \<Longrightarrow> names_ok R s \<Longrightarrow> names_ok R s'"
  unfolding metric_frame_def names_ok_def by metis

lemma metric_drop_frame: "metric_frame s (metric_drop_series x s)"
  by (simp add: metric_frame_def metric_drop_series_def split: option.split prod.split)

lemma metric_remove_frame: "metric_frame s (metric_remove_series x s)"
  using metric_drop_frame [of "s\<lparr>mt_total_samples := t\<rparr>" x for t]
  by (simp add: metric_remove_series_def metric_frame_def split: option.split)

lemma hm_get_filter_keys: "hm_get (filter (\<lambda>(k, _). P k) m) n = (if P n then hm_get m n else None)"
  by (induction m) auto

lemma prune_frame: "metric_frame s (prune_orphaned_metadata R s)" "metric_frame s (prune_names R s)"
  by (auto simp: metric_frame_def prune_orphaned_metadata_def prune_names_def
      simp: hm_get_filter_keys split: option.splits if_splits)

lemma metric_evict_before_frame: "metric_frame s (metric_evict_before R c s)"
proof -
  obtain series tally empties where e: "evict_series c (mt_series s) (mt_total_samples s) = (series, tally, empties)"
    by (metis prod_cases3)
  let ?s = "s\<lparr>mt_series := series, mt_total_samples := tally\<rparr>"
  have "metric_frame s ?s" by (simp add: metric_frame_def)
  moreover have "metric_frame ?s (fold metric_drop_series empties ?s)"
    by (rule fold_frame [where F = metric_frame, OF metric_drop_frame metric_frame_refl metric_frame_trans])
  ultimately show ?thesis
    unfolding metric_evict_before_def e using prune_frame(1) metric_frame_trans by (simp, blast)
qed

lemma metric_remove_fold_frame: "metric_frame s (fold metric_remove_series xs s)"
  by (rule fold_frame [where F = metric_frame, OF metric_remove_frame metric_frame_refl metric_frame_trans])

lemma metric_evict_to_max_frame: "metric_frame s (metric_evict_to_max R n s)"
  by (auto simp: metric_evict_to_max_def metric_frame_refl
      intro: metric_frame_trans [OF metric_remove_fold_frame prune_frame(1)])

lemma metric_clear_service_frame: "metric_frame s (metric_clear_service R service s)"
  by (auto simp: metric_clear_service_def metric_frame_refl split: option.split
      intro: metric_frame_trans [OF metric_remove_fold_frame prune_frame(2)])

text \<open>The interner of the trace store.\<close>

lemma trace_evict_interner:
  "ts_interner (trace_evict_before c s) = ts_interner s"
  "ts_interner (trace_evict_to_max n s) = ts_interner s"
proof -
  show "ts_interner (trace_evict_before c s) = ts_interner s"
    by (simp add: trace_evict_before_def reconcile_all_def [symmetric] reconcile_all_fields Let_def split: prod.split)
  have "ts_interner (trace_evict_loop n ts t) = ts_interner t" for ts and t :: "'a trace_store"
    by (induction n ts t rule: trace_evict_loop.induct) (simp_all add: drop_trace_fields split: option.split)
  then show "ts_interner (trace_evict_to_max n s) = ts_interner s"
    by (simp add: trace_evict_to_max_def Let_def)
qed

lemma trace_clear_service_interner: "ts_interner (trace_clear_service R service s) = ts_interner s"
proof -
  have "ts_interner (clear_service_step k t s) = ts_interner s" for k t and s :: "'a trace_store"
    by (simp add: clear_service_step_def reconcile_fields Let_def split: option.split)
  then have "ts_interner (fold (clear_service_step k) ts s) = ts_interner s" for k ts and s :: "'a trace_store"
    by (intro fold_frame [where F = "\<lambda>s t. ts_interner t = ts_interner s"]) auto
  then show ?thesis by (simp add: trace_clear_service_def split: option.split)
qed

lemma services_ok_shrink:
  assumes "services_ok R s" and "ts_interner s' = ts_interner s" and "\<And>t. set (spans_of s' t) \<subseteq> set (spans_of s t)"
  shows "services_ok R s'"
  using assms unfolding services_ok_def by (metis subsetD)

section \<open>Eviction\<close>

text \<open>A successful pass is one sweep of each store.\<close>

lemma run_eviction_sweeps:
  assumes "run_eviction R now a = Inr a'" and "retention_duration (ap_config a) = Inr ret"
  shows "a' = a\<lparr>ap_log := log_retention.sweep (eviction_cutoff_ns ret now) (cf_max_log_entries (ap_config a)) (ap_log a),
     ap_metric := metric_retention.sweep R (i64_div (eviction_cutoff_ns ret now) 1000000)
       (cf_max_series (ap_config a)) (ap_metric a),
     ap_trace := trace_retention.sweep (eviction_cutoff_ns ret now) (cf_max_spans (ap_config a)) (ap_trace a)\<rparr>"
  using assms
  by (simp add: run_eviction_def Let_def log_retention.sweep_def metric_retention.sweep_def trace_retention.sweep_def)

lemma seqs_below_shrink:
  assumes "seqs_below R a" and "ap_seq a \<le> ap_seq a'"
    and "log_seqs R (ap_log a') \<subseteq> log_seqs R (ap_log a)"
    and "metric_seqs R (ap_metric a') \<subseteq> metric_seqs R (ap_metric a)"
    and "trace_seqs (ap_trace a') \<subseteq> trace_seqs (ap_trace a)"
  shows "seqs_below R a'"
  using assms unfolding seqs_below_def by (metis Un_iff order_less_le_trans subsetD)

lemma view_seqs_mono:
  "(\<And>f. set (log_view R s' f) \<subseteq> set (log_view R s f)) \<Longrightarrow> log_seqs R s' \<subseteq> log_seqs R s"
  "(\<And>f. set (metric_view R m' f) \<subseteq> set (metric_view R m f)) \<Longrightarrow> metric_seqs R m' \<subseteq> metric_seqs R m"
  "(\<And>t. set (spans_of tr' t) \<subseteq> set (spans_of tr t)) \<Longrightarrow> trace_seqs tr' \<subseteq> trace_seqs tr"
  unfolding log_seqs_def metric_seqs_def trace_seqs_def by (blast, blast, blast)

text \<open>The ids still to be given out fit 64 bits.\<close>

definition ids_fit :: "'i app_state \<Rightarrow> bool" where
  "ids_fit a \<longleftrightarrow> lg_next_stream_id (ap_log a) \<le> u64_max \<and> mt_next_series_id (ap_metric a) \<le> u64_max"

lemma eviction_inv:
  assumes inv: "app_inv R a" and fit: "ids_fit a" and run: "run_eviction R now a = Inr a'"
  shows "app_inv R a' \<and> ids_fit a'"
proof -
  obtain ret where ret: "retention_duration (ap_config a) = Inr ret"
    using run by (cases "retention_duration (ap_config a)") (simp_all add: run_eviction_def)
  note E = run_eviction_sweeps [OF run ret]
  note I = inv [unfolded app_inv_def stores_ok_def]
  have l: "log_base R (ap_log a)" and m: "metric_base R (ap_metric a)" and t: "trace_wf R (ap_trace a)"
    using I by blast+
  have frame: "metric_frame (ap_metric a) (ap_metric a')"
    by (simp add: E metric_retention.sweep_def metric_frame_trans [OF metric_evict_before_frame metric_evict_to_max_frame])
  have sub: "set (spans_of (ap_trace a') u) \<subseteq> set (spans_of (ap_trace a) u)" for u
    using trace_retention.sweep_items [OF t] by (auto simp: E)
  have "stores_ok R (ap_log a') (ap_metric a') (ap_trace a')"
    unfolding stores_ok_def
  proof (intro conjI)
    show "log_base R (ap_log a')" by (simp add: E log_retention.sweep_wf [OF l])
    show "metric_base R (ap_metric a')" by (simp add: E metric_retention.sweep_wf [OF m])
    show "names_ok R (ap_metric a')" using names_ok_frame [OF frame] I by blast
    show "trace_wf R (ap_trace a')" by (simp add: E trace_retention.sweep_wf [OF t])
    show "services_ok R (ap_trace a')"
      by (rule services_ok_shrink [OF _ _ sub]) (use I in \<open>simp_all add: E trace_retention.sweep_def trace_evict_interner\<close>)
  qed
  moreover have "seqs_below R a'"
  proof (rule seqs_below_shrink [of R a])
    show "seqs_below R a" "ap_seq a \<le> ap_seq a'" using I by (simp_all add: E)
    show "log_seqs R (ap_log a') \<subseteq> log_seqs R (ap_log a)"
      by (rule view_seqs_mono) (use log_retention.sweep_items [OF l] in \<open>auto simp: E\<close>)
    show "metric_seqs R (ap_metric a') \<subseteq> metric_seqs R (ap_metric a)"
      by (rule view_seqs_mono) (use metric_retention.sweep_items [OF m] in \<open>auto simp: E\<close>)
    show "trace_seqs (ap_trace a') \<subseteq> trace_seqs (ap_trace a)" by (rule view_seqs_mono) (rule sub)
  qed
  moreover have "ids_fit a'"
    using fit frame by (simp add: ids_fit_def metric_frame_def E log_retention.sweep_def log_evict_next)
  ultimately show ?thesis using I by (simp add: app_inv_def E)
qed

section \<open>Reset\<close>

lemma cleared_views:
  "log_view R (log_clear R s) f = []" "metric_view R (metric_clear R m) f = []"
  "spans_of (trace_clear R t) u = []"
  by (simp_all add: log_view_def log_clear_def metric_view_def metric_clear_def series_view_def
      spans_of_def trace_clear_def)

lemma cleared_names: "names_ok R (metric_clear R m)"
  by (simp add: names_ok_def metric_clear_def)

lemma reset_inv:
  assumes laws: "rodeo_laws R" and inv: "app_inv R a" and fit: "ids_fit a"
  shows "app_inv R (reset R service a) \<and> ids_fit (reset R service a)"
proof (cases service)
  case None
  have "stores_ok R (log_clear R (ap_log a)) (metric_clear R (ap_metric a)) (trace_clear R (ap_trace a))"
    by (simp add: stores_ok_def services_ok_def cleared_views cleared_names log_base_wf [OF log_clear_wf]
        metric_clear_base trace_clear_wf)
  with inv fit show ?thesis
    by (simp add: reset_def None app_inv_def ids_fit_def seqs_below_def log_seqs_def metric_seqs_def
        trace_seqs_def cleared_views) (simp add: log_clear_def metric_clear_def)
next
  case (Some name)
  note I = inv [unfolded app_inv_def stores_ok_def]
  have L: "log_base R (log_clear_service R name (ap_log a))"
      "log_view R (log_clear_service R name (ap_log a)) = (\<lambda>f. if name \<in> set (f ''service'') then [] else log_view R (ap_log a) f)"
    using log_clear_service_correct [OF laws] I by blast+
  have M: "metric_base R (metric_clear_service R name (ap_metric a))"
      "metric_view R (metric_clear_service R name (ap_metric a)) = (\<lambda>f. if name \<in> set (f ''service'') then [] else metric_view R (ap_metric a) f)"
    using metric_clear_service_correct [OF laws] I by blast+
  have T: "trace_wf R (trace_clear_service R name (ap_trace a))"
      "\<forall>t. spans_of (trace_clear_service R name (ap_trace a)) t =
        filter (\<lambda>sp. rd_resolve R (ts_interner (ap_trace a)) (sp_service sp) \<noteq> name) (spans_of (ap_trace a) t)"
    using trace_clear_service_correct [OF laws] I by blast+
  have sv: "services_ok R (trace_clear_service R name (ap_trace a))"
    by (rule services_ok_shrink [where s = "ap_trace a"]) (use I T(2) in \<open>simp_all add: trace_clear_service_interner\<close>)
  have nm: "names_ok R (metric_clear_service R name (ap_metric a))"
    using names_ok_frame [OF metric_clear_service_frame] I by blast
  have "seqs_below R (reset R service a)"
  proof (rule seqs_below_shrink [of R a])
    show "seqs_below R a" "ap_seq a \<le> ap_seq (reset R service a)" using I by (simp_all add: reset_def Some)
    show "log_seqs R (ap_log (reset R service a)) \<subseteq> log_seqs R (ap_log a)"
      by (rule view_seqs_mono) (simp add: reset_def Some L(2))
    show "metric_seqs R (ap_metric (reset R service a)) \<subseteq> metric_seqs R (ap_metric a)"
      by (rule view_seqs_mono) (simp add: reset_def Some M(2))
    show "trace_seqs (ap_trace (reset R service a)) \<subseteq> trace_seqs (ap_trace a)"
      by (rule view_seqs_mono) (simp add: reset_def Some T(2))
  qed
  moreover have "ids_fit (reset R service a)"
    using fit log_clear_service_keeps(4) [of R "ap_log a" name] I metric_clear_service_frame [of "ap_metric a" R name]
    by (simp add: ids_fit_def reset_def Some metric_frame_def)
  ultimately show ?thesis
    using I L(1) M(1) T(1) sv nm by (simp add: app_inv_def stores_ok_def reset_def Some)
qed

end
