(* ===== verification/App_Lifecycle_Correct.thy ===== *)
theory App_Lifecycle_Correct
  imports App_Steps Logql_Parser_Correct
begin

text \<open>
  The application as a whole: the numbers ingestion hands out, the invariant in every reachable
  state, what an eviction pass guarantees, and snapshots across a restart.
\<close>

section \<open>Consecutive numbers\<close>

text \<open>From \<open>n\<close> the numbers \<open>l\<close> were taken, one after the other, which leaves the counter at \<open>n'\<close>.\<close>

definition numbered :: "u64 \<Rightarrow> u64 \<Rightarrow> u64 list \<Rightarrow> bool" where
  "numbered n n' l \<longleftrightarrow> n' = stamp n (length l) \<and> l = map (stamp n) [0..<length l]"

lemma numbered_Nil: "n \<le> u64_max \<Longrightarrow> numbered n n []"
  by (simp add: numbered_def)

lemma numbered_append:
  assumes "numbered n n1 l1" and "numbered n1 n2 l2"
  shows "numbered n n2 (l1 @ l2)"
proof -
  have "map (stamp n1) [0..<length l2] = map (stamp n) [length l1..<length l1 + length l2]"
    using assms(1) by (intro nth_equalityI) (simp_all add: numbered_def)
  then have "l2 = map (stamp n) [length l1..<length l1 + length l2]" using assms(2) by (simp add: numbered_def)
  then have "l1 @ l2 = map (stamp n) [0..<length l1 + length l2]"
    using assms(1) by (metis map_append numbered_def upt_add_eq_append zero_le)
  then show ?thesis using assms by (simp add: numbered_def)
qed

lemma numbered_le: "numbered n n' l \<Longrightarrow> n' \<le> u64_max"
  by (simp add: numbered_def)

lemma numbered_fetch: "n \<le> u64_max \<Longrightarrow> numbered n (fst (fetch_add n)) [n]"
  by (simp add: numbered_def stamp_Suc)

lemma numbered_thread_map:
  assumes "\<And>n x. n \<le> u64_max \<Longrightarrow> numbered n (fst (f n x)) (out (snd (f n x)))" and "n \<le> u64_max"
  shows "numbered n (fst (thread_map f n xs)) (concat (map out (snd (thread_map f n xs))))"
  using assms(2)
proof (induction xs arbitrary: n)
  case Nil
  then show ?case by (simp add: numbered_Nil)
next
  case (Cons x xs)
  have head: "numbered n (fst (f n x)) (out (snd (f n x)))" by (rule assms(1) [OF Cons.prems])
  from numbered_append [OF head Cons.IH [OF numbered_le [OF head]]]
  show ?case by (simp add: case_prod_unfold Let_def)
qed

text \<open>Numbers taken without overflow lie between the old and the new counter.\<close>

lemma numbered_fresh:
  assumes "numbered n n' l" and "n + length l \<le> u64_max"
  shows "n' = n + length l \<and> (\<forall>k \<in> set l. n \<le> k \<and> k < n')"
proof -
  have n': "n' = n + length l" using assms by (simp add: numbered_def stamp_fresh)
  have "n \<le> k \<and> k < n'" if "k \<in> set l" for k
  proof -
    from that obtain j where "j < length l" "k = stamp n j"
      using assms(1) by (metis (no_types, lifting) atLeastLessThan_iff imageE list.set_map numbered_def set_upt)
    with assms(2) n' show ?thesis by (simp add: stamp_fresh)
  qed
  with n' show ?thesis by blast
qed

section \<open>Numbers of the metric rows\<close>

definition row_seqs :: "string \<times> string \<times> (string \<times> string) list \<times> sample list \<Rightarrow> u64 list" where
  "row_seqs row = map sm_ingest_seq (row_samples row)"

definition rows_seqs :: "metric_rows \<Rightarrow> u64 list" where
  "rows_seqs rows = concat (map row_seqs rows)"

lemma rows_seqs_simps [simp]:
  "rows_seqs [] = []" "rows_seqs (r # rs) = row_seqs r @ rows_seqs rs" "rows_seqs (rs @ ss) = rows_seqs rs @ rows_seqs ss"
  by (simp_all add: rows_seqs_def)

lemma rows_seqs_concat: "rows_seqs (concat rss) = concat (map rows_seqs rss)"
  by (induction rss) simp_all

lemma one_sample_numbered:
  assumes "n \<le> u64_max"
  shows "numbered n (fst (one_sample_row name src labels t v n)) (row_seqs (snd (one_sample_row name src labels t v n)))"
  using numbered_fetch [OF assms]
  by (simp add: one_sample_row_def row_seqs_def row_samples_def fetch_add_def)

lemma number_point_numbered:
  "n \<le> u64_max \<Longrightarrow> numbered n (fst (prepare_number_point fmt rls m n dp)) (row_seqs (snd (prepare_number_point fmt rls m n dp)))"
  unfolding prepare_number_point_def by (rule one_sample_numbered)

lemma buckets_numbered:
  "n \<le> u64_max \<Longrightarrow> numbered n (fst (prepare_buckets fmt m base t bounds i c ks n))
     (rows_seqs (snd (prepare_buckets fmt m base t bounds i c ks n)))"
proof (induction ks arbitrary: n i c)
  case Nil
  then show ?case by (simp add: numbered_Nil)
next
  case (Cons k ks)
  note head = one_sample_numbered [OF Cons.prems]
  note tail = Cons.IH [OF numbered_le [OF head]]
  show ?case
    by (simp add: Let_def case_prod_unfold, intro conjI impI) (rule numbered_append [OF head tail])+
qed

lemma sum_and_count_numbered:
  assumes "n \<le> u64_max"
  shows "numbered n (fst (sum_and_count m base t v k n)) (rows_seqs (snd (sum_and_count m base t v k n)))"
proof -
  note 1 = one_sample_numbered [OF assms]
  note 2 = one_sample_numbered [OF numbered_le [OF 1]]
  show ?thesis by (simp add: sum_and_count_def Let_def case_prod_unfold) (rule numbered_append [OF 1 2])
qed

lemma histogram_numbered:
  assumes "n \<le> u64_max"
  shows "numbered n (fst (prepare_histogram_point fmt rls m n dp)) (rows_seqs (snd (prepare_histogram_point fmt rls m n dp)))"
proof -
  note 1 = buckets_numbered [OF assms]
  note 2 = sum_and_count_numbered [OF numbered_le [OF 1]]
  show ?thesis by (simp add: prepare_histogram_point_def Let_def case_prod_unfold) (rule numbered_append [OF 1 2])
qed

lemma summary_numbered:
  assumes "n \<le> u64_max"
  shows "numbered n (fst (prepare_summary_point fmt rls m n dp)) (rows_seqs (snd (prepare_summary_point fmt rls m n dp)))"
proof -
  let ?f = "\<lambda>n p. one_sample_row (normalize_metric_name (om_name m)) (om_name m)
    (build_dp_labels fmt rls (sd_attributes dp) @ [(''quantile'', fmt (fst p))]) (point_ms (sd_time_unix_nano dp)) (snd p) n"
  note 1 = numbered_thread_map [of ?f row_seqs, OF one_sample_numbered assms, of "sd_quantile_values dp"]
  note 2 = sum_and_count_numbered [OF numbered_le [OF 1]]
  have f: "(\<lambda>n p. case p of (q, v) \<Rightarrow> one_sample_row (normalize_metric_name (om_name m)) (om_name m)
    (build_dp_labels fmt rls (sd_attributes dp) @ [(''quantile'', fmt q)]) (point_ms (sd_time_unix_nano dp)) v n) = ?f"
    by (simp add: case_prod_unfold)
  show ?thesis
    unfolding prepare_summary_point_def Let_def f
    by (simp add: case_prod_unfold rows_seqs_def) (rule numbered_append [OF 1 2 [unfolded rows_seqs_def]])
qed

lemma metric_numbered:
  assumes n: "n \<le> u64_max"
  shows "numbered n (fst (prepare_metric fmt rls n m)) (rows_seqs (fst (snd (prepare_metric fmt rls n m))))"
proof (cases "om_data m")
  case None
  then show ?thesis by (simp add: prepare_metric_def numbered_Nil n)
next
  case (Some d)
  show ?thesis
  proof (cases d)
    case (GaugeData dps)
    with Some numbered_thread_map [of "prepare_number_point fmt rls m" row_seqs, OF number_point_numbered n]
    show ?thesis by (simp add: prepare_metric_def case_prod_unfold Let_def rows_seqs_def)
  next
    case (SumData mono dps)
    with Some numbered_thread_map [of "prepare_number_point fmt rls m" row_seqs, OF number_point_numbered n]
    show ?thesis by (simp add: prepare_metric_def case_prod_unfold Let_def rows_seqs_def)
  next
    case (HistogramData dps)
    with Some numbered_thread_map [of "prepare_histogram_point fmt rls m" rows_seqs, OF histogram_numbered n]
    show ?thesis by (simp add: prepare_metric_def case_prod_unfold Let_def rows_seqs_concat)
  next
    case (SummaryData dps)
    with Some numbered_thread_map [of "prepare_summary_point fmt rls m" rows_seqs, OF summary_numbered n]
    show ?thesis by (simp add: prepare_metric_def case_prod_unfold Let_def rows_seqs_concat)
  next
    case ExponentialHistogramData
    with Some show ?thesis by (simp add: prepare_metric_def numbered_Nil n)
  qed
qed

lemma metrics_numbered:
  assumes "n \<le> u64_max"
  shows "numbered n (fst (prepare_metrics fmt n req)) (rows_seqs (fst (snd (prepare_metrics fmt n req))))"
proof -
  have rm: "numbered n (fst (prepare_resource_metrics fmt n rm)) (rows_seqs (fst (snd (prepare_resource_metrics fmt n rm))))"
    if "n \<le> u64_max" for n rm
    using numbered_thread_map [of "prepare_metric fmt rls" "rows_seqs \<circ> fst" for rls, OF _ that] metric_numbered
    by (simp add: prepare_resource_metrics_def case_prod_unfold Let_def rows_seqs_concat comp_def)
  show ?thesis
    using numbered_thread_map [of "prepare_resource_metrics fmt" "rows_seqs \<circ> fst", OF _ assms] rm
    by (simp add: prepare_metrics_def case_prod_unfold Let_def rows_seqs_concat comp_def)
qed

lemma remote_series_numbered:
  assumes "n \<le> u64_max"
  shows "numbered n (fst (prepare_remote_series n ts))
    (case snd (prepare_remote_series n ts) of None \<Rightarrow> [] | Some row \<Rightarrow> row_seqs row)"
proof (cases "remote_name (rw_labels ts) = []")
  case True
  then show ?thesis by (simp add: prepare_remote_series_def Let_def numbered_Nil assms)
next
  case False
  let ?f = "\<lambda>n p. (fst (fetch_add n), \<lparr>sm_timestamp_ms = snd p, sm_value = fst p, sm_ingest_seq = n\<rparr>)"
  have f: "(\<lambda>seq p. case p of (v, t) \<Rightarrow> let (seq1, n) = fetch_add seq
      in (seq1, \<lparr>sm_timestamp_ms = t, sm_value = v, sm_ingest_seq = n\<rparr>)) = ?f"
    by (simp add: fun_eq_iff fetch_add_def split: prod.split)
  have "numbered n (fst (?f n p)) ([sm_ingest_seq (snd (?f n p))])" if "n \<le> u64_max" for n p
    using numbered_fetch [OF that] by simp
  from numbered_thread_map [of ?f "\<lambda>x. [sm_ingest_seq x]", OF this assms, of "rw_samples ts"] False
  show ?thesis
    unfolding prepare_remote_series_def f
    by (simp add: Let_def case_prod_unfold row_seqs_def row_samples_def concat_map_singleton)
qed

lemma remote_numbered:
  assumes "n \<le> u64_max"
  shows "numbered n (fst (thread_filter_map prepare_remote_series n req))
    (rows_seqs (snd (thread_filter_map prepare_remote_series n req)))"
proof -
  have "concat (map (\<lambda>o'. case o' of None \<Rightarrow> [] | Some row \<Rightarrow> row_seqs row) os) = rows_seqs (List.map_filter id os)"
    for os
    by (induction os) (simp_all add: List.map_filter_simps split: option.split)
  with numbered_thread_map [of prepare_remote_series, OF remote_series_numbered assms, of req]
  show ?thesis by (simp add: thread_filter_map_def case_prod_unfold Let_def)
qed

section \<open>Numbers of the stored items\<close>

lemma samples_for_seqs: "sm_ingest_seq ` set (samples_for f rows) \<subseteq> set (rows_seqs rows)"
  by (induction rows) (auto simp: samples_for_def row_seqs_def)

lemma rows_written_seqs:
  assumes "rows_written R rows s s'"
  shows "metric_seqs R s' \<subseteq> metric_seqs R s \<union> set (rows_seqs rows)"
proof -
  have "sm_ingest_seq ` set (metric_view R s' f) \<subseteq> sm_ingest_seq ` set (metric_view R s f) \<union> set (rows_seqs rows)" for f
    using assms samples_for_seqs [of f rows] by (auto simp: rows_written_def split: if_splits)
  then show ?thesis unfolding metric_seqs_def by fastforce
qed

text \<open>The numbers of the entries of some batches.\<close>

definition batch_seqs :: "log_batch list \<Rightarrow> u64 set" where
  "batch_seqs bs = (\<Union>b \<in> set bs. (\<lambda>e. le_ingest_seq (fst e)) ` set (snd b))"

lemma logs_stored_seqs:
  assumes "logs_stored R s s' bs"
  shows "log_seqs R s' \<subseteq> log_seqs R s \<union> batch_seqs bs"
  unfolding log_seqs_def
proof (rule UN_least)
  fix f
  obtain new where n: "log_view R s' f = sort_key le_timestamp_ns (log_view R s f @ new)"
    "map (read_entry R (lg_interner s')) new = concat (map (\<lambda>b. map told (snd b)) (filter (\<lambda>b. label_fun (fst b) = f) bs))"
    using assms unfolding logs_stored_def by blast
  have "le_ingest_seq e \<in> batch_seqs bs" if "e \<in> set new" for e
  proof -
    have "read_entry R (lg_interner s') e \<in> set (map (read_entry R (lg_interner s')) new)" using that by simp
    then obtain b r where r: "b \<in> set bs" "r \<in> set (snd b)" "read_entry R (lg_interner s') e = told r"
      unfolding n(2) by auto
    have "le_ingest_seq (fst (read_entry R (lg_interner s') e)) = le_ingest_seq e" by (simp add: read_entry_def)
    moreover have "fst (told r) = fst r" by (simp add: told_def split: prod.split)
    ultimately have "le_ingest_seq e = le_ingest_seq (fst r)" using r(3) by simp
    with r(1,2) show ?thesis by (auto simp: batch_seqs_def)
  qed
  then have "le_ingest_seq ` set (log_view R s' f) \<subseteq> le_ingest_seq ` set (log_view R s f) \<union> batch_seqs bs"
    unfolding n(1) by auto
  then show "le_ingest_seq ` set (log_view R s' f) \<subseteq> (\<Union>f. le_ingest_seq ` set (log_view R s f)) \<union> batch_seqs bs"
    by blast
qed

lemma meaning_seqs:
  "le_ingest_seq (fst (snd (record_meaning L r n))) = n"
  "le_ingest_seq (fst (loki_meaning show_json v n)) = n"
  by (simp_all add: record_meaning_def log_entry_of_otlp_def loki_meaning_def loki_entry_def split: prod.split)

lemma request_batches_seqs:
  assumes "b \<in> set (request_batches L n req)" and "e \<in> set (snd b)"
  shows "\<exists>k < length (request_records req). le_ingest_seq (fst e) = stamp n k"
proof -
  have "e \<in> snd ` set (stamped (record_meaning L) n (request_records req))"
    using assms by (auto simp: request_batches_def batches_of_def having_def)
  then obtain r where "r \<in> set (stamped (record_meaning L) n (request_records req))" "e = snd r" by blast
  then obtain k where "k < length (request_records req)" "e = snd (record_meaning L (request_records req ! k) (stamp n k))"
    unfolding set_stamped by blast
  then show ?thesis using meaning_seqs(1) by blast
qed

lemma loki_batches_seqs:
  assumes "n \<le> u64_max" and "b \<in> set (loki_batches show_json n sts)" and "e \<in> set (snd b)"
  shows "\<exists>k < length (concat (map loki_accepted sts)). le_ingest_seq (fst e) = stamp n k"
  using assms
proof (induction sts arbitrary: n)
  case (Cons st sts)
  have here: "\<exists>k < length (loki_accepted st). le_ingest_seq (fst e) = stamp n k"
    if "e \<in> set (stamped (loki_meaning show_json) n (loki_accepted st))"
    using that by (auto simp: set_stamped meaning_seqs)
  show ?case
  proof (cases "b \<in> set (loki_batches show_json (stamp n (length (loki_accepted st))) sts)")
    case True
    from Cons.IH [OF stamp_le True Cons.prems(3)] obtain k where
      "k < length (concat (map loki_accepted sts))" "le_ingest_seq (fst e) = stamp n (length (loki_accepted st) + k)"
      by auto
    then show ?thesis by (intro exI [of _ "length (loki_accepted st) + k"]) simp
  next
    case False
    with Cons.prems(2) have "snd b = stamped (loki_meaning show_json) n (loki_accepted st)" by auto
    with here Cons.prems(3) obtain k where "k < length (loki_accepted st)" "le_ingest_seq (fst e) = stamp n k" by auto
    then show ?thesis by (intro exI [of _ k]) simp
  qed
qed simp

lemma stored_seqs:
  assumes "stored R s s' (stamped (span_meaning fmt) n ps)"
  shows "trace_seqs s' \<subseteq> trace_seqs s \<union> {stamp n k |k. k < length ps}"
proof -
  have "sp_ingest_seq ` set (spans_of s' t) \<subseteq> sp_ingest_seq ` set (spans_of s t) \<union> {stamp n k |k. k < length ps}" for t
  proof -
    obtain new where n: "spans_of s' t = spans_of s t @ new"
      "map (read_span R (ts_interner s')) new = filter (\<lambda>p. ps_trace_id p = t) (stamped (span_meaning fmt) n ps)"
      using assms unfolding stored_def by blast
    have "\<exists>k < length ps. sp_ingest_seq sp = stamp n k" if "sp \<in> set new" for sp
    proof -
      have "read_span R (ts_interner s') sp \<in> set (map (read_span R (ts_interner s')) new)" using that by simp
      then obtain k where k: "k < length ps" "read_span R (ts_interner s') sp = span_meaning fmt (ps ! k) (stamp n k)"
        unfolding n(2) by (auto simp: set_stamped)
      have "ps_ingest_seq (read_span R (ts_interner s') sp) = sp_ingest_seq sp" by (simp add: read_span_def)
      moreover have "ps_ingest_seq (span_meaning fmt x m) = m" for x m
        by (simp add: span_meaning_def with_attrs_def span_of_otlp_def Let_def split: prod.split)
      ultimately show ?thesis using k by auto
    qed
    then show ?thesis unfolding n(1) by auto
  qed
  then show ?thesis unfolding trace_seqs_def by fastforce
qed

lemma batch_seqs_stamped:
  "batch_seqs (request_batches L n req) \<subseteq> {stamp n k |k. k < length (request_records req)}"
  "n \<le> u64_max \<Longrightarrow>
     batch_seqs (loki_log_batches show_json n sts) \<subseteq> {stamp n k |k. k < length (concat (map loki_accepted sts))}"
  using request_batches_seqs loki_batches_seqs
  unfolding batch_seqs_def loki_log_batches_def
  by (fastforce, (fastforce simp: of_loki_def))

text \<open>Stamps taken without overflow are below the new counter.\<close>

lemma stamps_below:
  assumes "n + m \<le> u64_max"
  shows "stamp n m = n + m" and "k \<in> {stamp n k |k. k < m} \<Longrightarrow> k < n + m"
  using assms by (auto simp: stamp_fresh)

section \<open>Ingestion keeps the invariant\<close>

lemma app_inv_below:
  "app_inv R a \<Longrightarrow> n \<in> log_seqs R (ap_log a) \<union> metric_seqs R (ap_metric a) \<union> trace_seqs (ap_trace a) \<Longrightarrow>
     n < ap_seq a + k"
  unfolding app_inv_def seqs_below_def by (meson trans_less_add1)

lemma app_inv_logs:
  assumes inv: "app_inv R a" and fit: "ids_fit a" and st: "logs_stored R (ap_log a) s' bs"
    and room: "lg_next_stream_id (ap_log a) + length bs \<le> u64_max" "ap_seq a + m \<le> u64_max"
    and seqs: "batch_seqs bs \<subseteq> {stamp (ap_seq a) k |k. k < m}"
    and a': "a' = a\<lparr>ap_seq := stamp (ap_seq a) m, ap_log := s'\<rparr>"
  shows "app_inv R a' \<and> ids_fit a'"
proof -
  have "log_base R s'" "lg_next_stream_id s' \<le> lg_next_stream_id (ap_log a) + length bs"
    using st unfolding logs_stored_def by blast+
  moreover have "n < ap_seq a + m" if "n \<in> log_seqs R s'" for n
  proof (cases "n \<in> log_seqs R (ap_log a)")
    case True
    then show ?thesis using app_inv_below [OF inv] by blast
  next
    case False
    then show ?thesis using stamps_below(2) [OF room(2)] logs_stored_seqs [OF st] seqs that by blast
  qed
  moreover have "n < ap_seq a + m" if "n \<in> metric_seqs R (ap_metric a) \<union> trace_seqs (ap_trace a)" for n
    using app_inv_below [OF inv] that by blast
  ultimately show ?thesis
    using inv fit room
    by (auto simp: a' app_inv_def stores_ok_def ids_fit_def seqs_below_def stamps_below(1))
qed

lemma export_logs_inv:
  assumes laws: "rodeo_laws R" and inv: "app_inv R a" and fit: "ids_fit a"
    and room: "ap_seq a + length (request_records req) \<le> u64_max"
      "lg_next_stream_id (ap_log a) + length (request_records req) \<le> u64_max"
    and run: "ingest_logs R L req a = (a', n)"
  shows "app_inv R a' \<and> ids_fit a'"
proof -
  have wf: "log_base R (ap_log a)" and seq: "ap_seq a \<le> u64_max" using inv by (simp_all add: app_inv_def stores_ok_def)
  note S = ingest_logs_stored [OF laws wf seq room(2), of L, unfolded run, simplified]
  have len: "lg_next_stream_id (ap_log a) + length (request_batches L (ap_seq a) req) \<le> u64_max"
    using room(2) length_batches_of [of "stamped (record_meaning L) (ap_seq a) (request_records req)"]
    by (simp add: request_batches_def)
  show ?thesis
    by (rule app_inv_logs [OF inv fit S len room(1) batch_seqs_stamped(1)])
      (use ingest_logs_eq [OF seq, of R L req] run in auto)
qed

lemma push_loki_inv:
  assumes laws: "rodeo_laws R" and inv: "app_inv R a" and fit: "ids_fit a"
    and room: "ap_seq a + length (concat (map loki_accepted sts)) \<le> u64_max"
      "lg_next_stream_id (ap_log a) + length sts \<le> u64_max"
    and run: "ingest_loki_push R show_json sts a = (a', n)"
  shows "app_inv R a' \<and> ids_fit a'"
proof -
  have wf: "log_base R (ap_log a)" and seq: "ap_seq a \<le> u64_max" using inv by (simp_all add: app_inv_def stores_ok_def)
  note S = ingest_loki_stored [OF laws wf seq room(2), of show_json, unfolded run, simplified]
  have len: "lg_next_stream_id (ap_log a) + length (loki_log_batches show_json (ap_seq a) sts) \<le> u64_max"
    using room(2) by (simp add: loki_log_batches_def)
  show ?thesis
    by (rule app_inv_logs [OF inv fit S(1) len room(1) batch_seqs_stamped(2) [OF seq]]) (rule S(2))
qed

lemma export_traces_inv:
  assumes laws: "rodeo_laws R" and inv: "app_inv R a" and fit: "ids_fit a"
    and room: "ap_seq a + length (request_spans req) \<le> u64_max"
    and run: "ingest_traces R fmt req a = (a', acc)"
  shows "app_inv R a' \<and> ids_fit a'"
proof -
  have wf: "trace_wf R (ap_trace a)" "services_ok R (ap_trace a)" and seq: "ap_seq a \<le> u64_max"
    using inv by (simp_all add: app_inv_def stores_ok_def)
  note C = ingest_traces_correct [OF laws wf(1) seq, where fmt = fmt and req = req, unfolded run, simplified]
  have "services_ok R (ap_trace a')" by (rule stored_services_ok [OF laws wf C(1)])
  moreover have "trace_wf R (ap_trace a')" using C(1) by (simp add: stored_def)
  moreover have "n < ap_seq a + length (request_spans req)" if "n \<in> trace_seqs (ap_trace a')" for n
  proof (cases "n \<in> trace_seqs (ap_trace a)")
    case True
    then show ?thesis using app_inv_below [OF inv] by blast
  next
    case False
    then show ?thesis using stamps_below(2) [OF room] stored_seqs [OF C(1)] that by blast
  qed
  moreover have "n < ap_seq a + length (request_spans req)"
    if "n \<in> log_seqs R (ap_log a) \<union> metric_seqs R (ap_metric a)" for n
    using app_inv_below [OF inv] that by blast
  moreover have "ap_seq a' = ap_seq a + length (request_spans req)" "ap_log a' = ap_log a" "ap_metric a' = ap_metric a"
    using C(2) stamps_below(1) [OF room] by (metis app_state.simps app_state.surjective app_state.update_convs)+
  ultimately show ?thesis
    using inv fit room by (auto simp: app_inv_def stores_ok_def ids_fit_def seqs_below_def)
qed

lemma store_rows_next:
  "rodeo_laws R \<Longrightarrow> mt_next_series_id (store_rows R rows s) \<le> mt_next_series_id s + length rows"
proof (induction rows arbitrary: s)
  case Nil
  then show ?case by (simp add: store_rows_def)
next
  case (Cons row rows)
  obtain name src labels samples where row: "row = (name, src, labels, samples)" by (metis prod_cases4)
  let ?s = "ingest_samples R name labels samples s"
  have "store_rows R (row # rows) s = store_rows R rows ?s" by (simp add: store_rows_def row)
  moreover have "mt_next_series_id ?s \<le> Suc (mt_next_series_id s)"
    using ingest_samples_fields [OF Cons.prems] by blast
  ultimately show ?case using Cons.IH [OF Cons.prems, of ?s] by simp
qed

lemma store_metas_next: "mt_next_series_id (store_metas R metas s) = mt_next_series_id s"
proof -
  have "mt_next_series_id (store_metas R metas s) = mt_next_series_id s"
    unfolding store_metas_def
    by (rule fold_frame [where F = "\<lambda>s t. mt_next_series_id t = mt_next_series_id s"])
      (auto simp: register_metric_metadata_def split: prod.split)
  then show ?thesis .
qed

lemma write_metrics_next:
  assumes "rodeo_laws R" and "names_ok R s" and run: "write_metrics R rows metas s = (s', r)"
  shows "mt_next_series_id s' \<le> mt_next_series_id s + length rows"
proof -
  obtain s1 r1 where reg: "register_names R (map (\<lambda>(name, source, _, _). (name, source)) rows) s = (s1, r1)" by force
  have "s1 = s\<lparr>mt_interner := mt_interner s1, mt_name_sources := mt_name_sources s1\<rparr>"
    using register_names_spec [OF assms(1,2) reg] by blast
  from arg_cong [OF this, of mt_next_series_id] have "mt_next_series_id s1 = mt_next_series_id s" by simp
  then show ?thesis
    using run store_rows_next [OF assms(1), of rows s1]
    by (auto simp: write_metrics_def reg store_metas_next Let_def split: sum.splits)
qed

lemma app_inv_metrics:
  assumes laws: "rodeo_laws R" and inv: "app_inv R a" and fit: "ids_fit a"
    and room: "mt_next_series_id (ap_metric a) + length rows \<le> u64_max"
      "ap_seq a + length (rows_seqs rows) \<le> u64_max"
    and num: "numbered (ap_seq a) seq' (rows_seqs rows)"
    and run: "write_metrics R rows metas (ap_metric a) = (s', r)"
    and a': "a' = a\<lparr>ap_seq := seq', ap_metric := s'\<rparr>"
  shows "app_inv R a' \<and> ids_fit a'"
proof -
  have wf: "metric_base R (ap_metric a)" "names_ok R (ap_metric a)" using inv by (simp_all add: app_inv_def stores_ok_def)
  have W: "rows_written R rows (ap_metric a) s'" using write_metrics_spec [OF laws wf room(1) run] by blast
  then have "metric_base R s'" "names_ok R s'" by (simp_all add: rows_written_def)
  moreover note N = numbered_fresh [OF num room(2)]
  have "n < seq'" if "n \<in> metric_seqs R s'" for n
    using rows_written_seqs [OF W] that N app_inv_below [OF inv, of n "length (rows_seqs rows)"] by auto
  moreover have "n < seq'" if "n \<in> log_seqs R (ap_log a) \<union> trace_seqs (ap_trace a)" for n
    using app_inv_below [OF inv, of n "length (rows_seqs rows)"] that N by auto
  moreover have "mt_next_series_id s' \<le> u64_max"
    using write_metrics_next [OF laws wf(2) run] room(1) by simp
  ultimately show ?thesis
    using inv fit room(2) N by (auto simp: a' app_inv_def stores_ok_def ids_fit_def seqs_below_def)
qed

lemma export_metrics_inv:
  assumes laws: "rodeo_laws R" and inv: "app_inv R a" and fit: "ids_fit a"
    and prep: "prepare_metrics fmt (ap_seq a) req = (seq', rows, metas)"
    and room: "mt_next_series_id (ap_metric a) + length rows \<le> u64_max"
      "ap_seq a + length (rows_seqs rows) \<le> u64_max"
    and run: "ingest_metrics R fmt req a = (a', r)"
  shows "app_inv R a' \<and> ids_fit a'"
proof -
  obtain s' res where w: "write_metrics R rows metas (ap_metric a) = (s', res)" by force
  have seq: "ap_seq a \<le> u64_max" using inv by (simp add: app_inv_def)
  have "numbered (ap_seq a) seq' (rows_seqs rows)" using metrics_numbered [OF seq, of fmt req] by (simp add: prep)
  from app_inv_metrics [OF laws inv fit room this w] run show ?thesis
    by (simp add: ingest_metrics_def prep w)
qed

lemma write_remote_inv:
  assumes laws: "rodeo_laws R" and inv: "app_inv R a" and fit: "ids_fit a"
    and prep: "thread_filter_map prepare_remote_series (ap_seq a) req = (seq', rows)"
    and room: "mt_next_series_id (ap_metric a) + length rows \<le> u64_max"
      "ap_seq a + length (rows_seqs rows) \<le> u64_max"
    and run: "ingest_remote_write R req a = (a', r)"
  shows "app_inv R a' \<and> ids_fit a'"
proof -
  obtain s' res where w: "write_metrics R rows (remote_metas rows) (ap_metric a) = (s', res)" by force
  have seq: "ap_seq a \<le> u64_max" using inv by (simp add: app_inv_def)
  have "numbered (ap_seq a) seq' (rows_seqs rows)" using remote_numbered [OF seq, of req] by (simp add: prep)
  from app_inv_metrics [OF laws inv fit room this w] run show ?thesis
    by (simp add: ingest_remote_write_def prep w)
qed

section \<open>Start and restart\<close>

lemma rebuild_fold_next:
  "n \<le> u64_max \<Longrightarrow> snd (fold (rebuild_step lab streams) xs (ids, n)) \<le> u64_max"
  by (induction xs arbitrary: ids n) (simp_all add: rebuild_step_def u64_saturating_add_def split: option.split)

lemma rebuild_next:
  "lg_next_stream_id (log_rebuild_stream_ids s) \<le> u64_max"
  "mt_next_series_id (metric_rebuild_series_ids m) \<le> u64_max"
  by (simp_all add: log_rebuild_fields metric_rebuild_fields Let_def rebuild_fold_next)

lemma new_stores_ok: "names_ok R (metric_new R)" "services_ok R (trace_new R)"
  by (simp_all add: names_ok_def services_ok_def spans_of_def metric_new_def trace_new_def)

lemma fresh_ok: "stores_ok R (sn_log (fresh_snapshot R)) (sn_metric (fresh_snapshot R)) (sn_trace (fresh_snapshot R))"
  by (simp add: fresh_snapshot_def stores_ok_def log_base_wf [OF log_new_wf] metric_new_base trace_new_wf new_stores_ok)

lemma fresh_seqs:
  "log_seqs R (sn_log (fresh_snapshot R)) = {}" "metric_seqs R (sn_metric (fresh_snapshot R)) = {}"
  "trace_seqs (sn_trace (fresh_snapshot R)) = {}"
  by (simp_all add: fresh_snapshot_def log_seqs_def metric_seqs_def trace_seqs_def log_view_def metric_view_def
      series_view_def log_new_def metric_new_def trace_new_def spans_of_def)

text \<open>Starting on any sound stores re-establishes the invariant, the counter above every number.\<close>

lemma started_inv:
  assumes ok: "stores_ok R l m t" and room: "lg_next_stream_id l \<le> u64_max" "mt_next_series_id m \<le> u64_max"
    and below: "\<And>n. n \<in> log_seqs R l \<union> metric_seqs R m \<union> trace_seqs t \<Longrightarrow> n < u64_max"
  shows "let a = \<lparr>ap_log = l, ap_metric = m, ap_trace = t, ap_config = cfg,
      ap_seq = u64_saturating_add (max_ingest_seq l m t) 1\<rparr> in app_inv R a \<and> ids_fit a"
proof -
  have "n < u64_saturating_add (max_ingest_seq l m t) 1" if "n \<in> log_seqs R l \<union> metric_seqs R m \<union> trace_seqs t" for n
    using max_ingest_seq_ge [OF that] below [OF that] by (auto simp: u64_saturating_add_def)
  with ok room show ?thesis by (simp add: Let_def app_inv_def ids_fit_def seqs_below_def u64_saturating_add_def)
qed

lemma same_content_seqs:
  assumes "same_content R s s'"
  shows "log_seqs R (sn_log s') = log_seqs R (sn_log s)" "metric_seqs R (sn_metric s') = metric_seqs R (sn_metric s)"
    "trace_seqs (sn_trace s') = trace_seqs (sn_trace s)"
  using assms by (simp_all add: same_content_def log_seqs_def metric_seqs_def trace_seqs_def)

text \<open>The final file, if there is one, holds the stores of a sound state.\<close>

definition disk_ok :: "'i rodeo_ops \<Rightarrow> ('i, 'b) snapshot_codec \<Rightarrow> 'b snapshot_dir \<Rightarrow> bool" where
  "disk_ok R C d \<longleftrightarrow> (case sd_snap d of None \<Rightarrow> True | Some f \<Rightarrow>
     (\<exists>a b. f = Complete b \<and> sc_serialize C (snapshot_of a) = Some b \<and> app_inv R a \<and> ids_fit a))"

lemma restart_loads:
  assumes codec: "snapshot_codec_laws C" and bytes: "sc_serialize C (snapshot_of a) = Some b"
    and d: "sd_snap d = Some (Complete b)" and inv: "app_inv R a" and fit: "ids_fit a"
    and restore: "cf_restore cfg"
  shows "same_content R (snapshot_of a) (snapshot_of (start_app R C cfg d)) \<and>
    app_inv R (start_app R C cfg d) \<and> ids_fit (start_app R C cfg d)"
proof -
  have ok: "stores_ok R (sn_log (snapshot_of a)) (sn_metric (snapshot_of a)) (sn_trace (snapshot_of a))"
    using inv by (simp add: app_inv_def snapshot_of_def)
  obtain s' where s': "load_snapshot C d = Some s'"
    "stores_ok R (sn_log s') (sn_metric s') (sn_trace s')" "same_content R (snapshot_of a) s'"
    by (rule load_saved [OF codec bytes d ok]) (use fit in \<open>auto simp: ids_fit_def snapshot_of_def\<close>)
  have room: "lg_next_stream_id (sn_log s') \<le> u64_max" "mt_next_series_id (sn_metric s') \<le> u64_max"
    using s'(1) d by (auto simp: load_snapshot_def rebuild_next split: option.splits)
  have below: "n < u64_max" if "n \<in> log_seqs R (sn_log s') \<union> metric_seqs R (sn_metric s') \<union> trace_seqs (sn_trace s')" for n
    using that app_inv_below [OF inv, of n 0] inv
    by (simp add: same_content_seqs [OF s'(3)] snapshot_of_def app_inv_def)
  from started_inv [OF s'(2) room below, of cfg]
  have "app_inv R (start_app R C cfg d) \<and> ids_fit (start_app R C cfg d)"
    by (simp add: start_app_def restore s'(1) Let_def)
  moreover have "snapshot_of (start_app R C cfg d) = s'"
    by (simp add: start_app_def restore s'(1) Let_def snapshot_of_def)
  ultimately show ?thesis using s'(3) by simp
qed

lemma fresh_start_inv:
  "\<not> cf_restore cfg \<or> load_snapshot C d = None \<Longrightarrow>
     app_inv R (start_app R C cfg d) \<and> ids_fit (start_app R C cfg d)"
  using started_inv [OF fresh_ok [of R], of cfg] fresh_seqs [of R]
  by (auto simp: start_app_def Let_def fresh_snapshot_def log_new_def metric_new_def u64_max_def)

lemma restart_inv:
  assumes "snapshot_codec_laws C" and "disk_ok R C d"
  shows "app_inv R (start_app R C cfg d) \<and> ids_fit (start_app R C cfg d)"
proof (cases "cf_restore cfg \<and> load_snapshot C d \<noteq> None")
  case False
  then show ?thesis by (intro fresh_start_inv) blast
next
  case True
  then obtain a b where "sd_snap d = Some (Complete b)" "sc_serialize C (snapshot_of a) = Some b" "app_inv R a" "ids_fit a"
    using assms(2) by (auto simp: disk_ok_def load_snapshot_def split: option.splits)
  with restart_loads [OF assms(1) this(2,1,3,4), of cfg] True show ?thesis by blast
qed

lemma save_disk_ok:
  assumes "disk_ok R C d" and "app_inv R a" and "ids_fit a"
  shows "disk_ok R C (save_from_state C fails a d)"
proof -
  obtain d' r where run: "save_from_state_reported C fails a d = (d', r)" by force
  from save_atomic [OF run] assms show ?thesis
    by (auto simp: save_from_state_def run disk_ok_def split: sum.splits)
qed

section \<open>Reachable states\<close>

text \<open>
  The event leaves room in the 64-bit counters: for the sequence numbers its items take and for
  the stream and series ids it may open.
\<close>

fun event_fits :: "('i, 'b) app_env \<Rightarrow> 'i app_state \<Rightarrow> app_event \<Rightarrow> bool" where
  "event_fits E a (ExportLogs req) \<longleftrightarrow> ap_seq a + length (request_records req) \<le> u64_max \<and>
     lg_next_stream_id (ap_log a) + length (request_records req) \<le> u64_max"
| "event_fits E a (PushLoki sts) \<longleftrightarrow> ap_seq a + length (concat (map loki_accepted sts)) \<le> u64_max \<and>
     lg_next_stream_id (ap_log a) + length sts \<le> u64_max"
| "event_fits E a (ExportMetrics req) \<longleftrightarrow>
     (let rows = fst (snd (prepare_metrics (li_fmt (en_log E)) (ap_seq a) req))
      in ap_seq a + length (rows_seqs rows) \<le> u64_max \<and>
         mt_next_series_id (ap_metric a) + length rows \<le> u64_max)"
| "event_fits E a (WriteRemote sers) \<longleftrightarrow>
     (let rows = snd (thread_filter_map prepare_remote_series (ap_seq a) sers)
      in ap_seq a + length (rows_seqs rows) \<le> u64_max \<and>
         mt_next_series_id (ap_metric a) + length rows \<le> u64_max)"
| "event_fits E a (ExportTraces req) \<longleftrightarrow> ap_seq a + length (request_spans req) \<le> u64_max"
| "event_fits E a _ \<longleftrightarrow> True"

text \<open>What an instance started in a directory without a snapshot can get to.\<close>

inductive reachable :: "('i, 'b) app_env \<Rightarrow> ('i, 'b) server \<Rightarrow> bool" for E where
  first: "sd_snap d = None \<Longrightarrow>
    reachable E \<lparr>in_app = start_app (en_rodeo E) (en_codec E) cfg d, in_dir = d\<rparr>"
| more: "reachable E w \<Longrightarrow> event_fits E (in_app w) ev \<Longrightarrow> app_step E w ev w' \<Longrightarrow> reachable E w'"

definition server_inv :: "('i, 'b) app_env \<Rightarrow> ('i, 'b) server \<Rightarrow> bool" where
  "server_inv E w \<longleftrightarrow> app_inv (en_rodeo E) (in_app w) \<and> ids_fit (in_app w) \<and>
     disk_ok (en_rodeo E) (en_codec E) (in_dir w)"

lemma server_inv_app:
  assumes "server_inv E w" and "app_inv (en_rodeo E) a \<and> ids_fit a"
  shows "server_inv E (w\<lparr>in_app := a\<rparr>)"
  using assms by (simp add: server_inv_def)

lemma app_step_inv:
  assumes step: "app_step E w ev w'" and laws: "rodeo_laws (en_rodeo E)" "snapshot_codec_laws (en_codec E)"
    and inv: "server_inv E w" and fits: "event_fits E (in_app w) ev"
  shows "server_inv E w'"
proof -
  have I: "app_inv (en_rodeo E) (in_app w)" "ids_fit (in_app w)" using inv by (simp_all add: server_inv_def)
  note keep = server_inv_app [OF inv]
  from step show ?thesis
  proof cases
    case (logs req a n)
    show ?thesis unfolding logs(2)
      by (rule keep [OF export_logs_inv [OF laws(1) I _ _ logs(3)]]) (use fits logs(1) in simp_all)
  next
    case (loki sts a ns)
    show ?thesis unfolding loki(2)
      by (rule keep [OF push_loki_inv [OF laws(1) I _ _ loki(3)]]) (use fits loki(1) in simp_all)
  next
    case (metrics req a r)
    obtain seq' rows metas where
      prep: "prepare_metrics (li_fmt (en_log E)) (ap_seq (in_app w)) req = (seq', rows, metas)" by (metis prod_cases3)
    show ?thesis unfolding metrics(2)
      by (rule keep [OF export_metrics_inv [OF laws(1) I prep _ _ metrics(3)]]) (use fits metrics(1) prep in simp_all)
  next
    case (remote sers a r)
    obtain seq' rows where
      prep: "thread_filter_map prepare_remote_series (ap_seq (in_app w)) sers = (seq', rows)" by force
    show ?thesis unfolding remote(2)
      by (rule keep [OF write_remote_inv [OF laws(1) I prep _ _ remote(3)]]) (use fits remote(1) prep in simp_all)
  next
    case (traces req a acc)
    show ?thesis unfolding traces(2)
      by (rule keep [OF export_traces_inv [OF laws(1) I _ traces(3)]]) (use fits traces(1) in simp_all)
  next
    case (reset service)
    show ?thesis unfolding reset by (rule keep [OF reset_inv [OF laws(1) I]])
  next
    case (evict now a)
    show ?thesis unfolding evict by (rule keep [OF eviction_inv [OF I evict(3)]])
  next
    case (evict_panic now p)
    with inv show ?thesis by simp
  next
    case (save fails)
    with inv show ?thesis by (simp add: server_inv_def save_disk_ok)
  next
    case (restart cfg)
    with inv show ?thesis by (simp add: server_inv_def restart_inv [OF laws(2)])
  qed
qed

lemma reachable_inv:
  assumes "reachable E w" and "rodeo_laws (en_rodeo E)" and "snapshot_codec_laws (en_codec E)"
  shows "server_inv E w"
  using assms(1)
proof induction
  case (first d cfg)
  then have "load_snapshot (en_codec E) d = None" by (simp add: load_snapshot_def)
  with first show ?case by (simp add: server_inv_def disk_ok_def fresh_start_inv)
next
  case (more w ev w')
  then show ?case using app_step_inv assms(2,3) by blast
qed

section \<open>A sample instance\<close>

definition sample_codec :: "(string list, string list snapshot) snapshot_codec" where
  "sample_codec = \<lparr>sc_serialize = Some, sc_deserialize = Some, sc_len = (\<lambda>_. 1)\<rparr>"

lemma sample_codec_laws: "snapshot_codec_laws sample_codec"
  by (simp add: snapshot_codec_laws_def sample_codec_def same_snapshot_def same_log_def same_metric_def
      same_trace_def same_map_refl)

definition sample_env :: "(string list, string list snapshot) app_env" where
  "sample_env = \<lparr>en_rodeo = list_rodeo, en_codec = sample_codec, en_log = sample_log_env, en_json = (\<lambda>_. [])\<rparr>"

definition sample_config :: config where
  "sample_config = (ap_config sample_state)\<lparr>cf_restore := True, cf_max_log_entries := 1,
     cf_retention := nat_to_string 200 @ ''ms''\<rparr>"

definition sample_start :: "(string list, string list snapshot) server" where
  "sample_start = \<lparr>in_app = start_app list_rodeo sample_codec sample_config \<lparr>sd_tmp = None, sd_snap = None\<rparr>,
     in_dir = \<lparr>sd_tmp = None, sd_snap = None\<rparr>\<rparr>"

definition sample_logged :: "(string list, string list snapshot) server" where
  "sample_logged = sample_start\<lparr>in_app := fst (ingest_logs list_rodeo sample_log_env sample_log_request (in_app sample_start))\<rparr>"

lemma sample_start_eq: "in_app sample_start = sample_state\<lparr>ap_config := sample_config\<rparr>"
  by (simp add: sample_start_def start_app_def load_snapshot_def fresh_snapshot_def sample_state_def
      max_ingest_seq_def max_of_def log_new_def metric_new_def trace_new_def u64_saturating_add_def u64_max_def)

lemma sample_logged_reachable: "reachable sample_env sample_logged"
proof (rule reachable.more)
  show "reachable sample_env sample_start"
    using reachable.first [of "\<lparr>sd_tmp = None, sd_snap = None\<rparr>" sample_env sample_config]
    by (simp add: sample_env_def sample_start_def)
  show "event_fits sample_env (in_app sample_start) (ExportLogs sample_log_request)"
    by (simp add: sample_start_eq sample_state_def log_new_def request_records_def sample_log_request_def u64_max_def)
  show "app_step sample_env sample_start (ExportLogs sample_log_request) sample_logged"
    unfolding sample_logged_def
    by (rule app_step.logs [where n = "snd (ingest_logs list_rodeo sample_log_env sample_log_request (in_app sample_start))"])
      (simp add: sample_env_def)
qed

lemma sample_logged_config: "ap_config (in_app sample_logged) = sample_config"
  by (simp add: sample_logged_def sample_start_eq ingest_logs_def Let_def split: prod.split)

lemma sample_retention: "retention_duration sample_config = Inr (200 * 1000000)"
  using parse_duration_ms [of 200] by (simp add: sample_config_def retention_duration_def u64_max_def)

lemma sample_cutoff: "eviction_cutoff_ns (200 * 1000000) (10 ^ 18) = 999999999800000000"
  by (simp add: eviction_cutoff_ns_def system_time_ns_def eviction_duration_ns_def i64_max_def i64_min_def
      i64_saturating_sub_def i64_saturate_def)

section \<open>Properties\<close>

text \<open>
  C4: in every state an instance can reach by ingesting, resetting, evicting, saving snapshots and
  restarting, as long as the 64-bit counters are not used up, all three stores satisfy their
  invariants and every stored item has a sequence number below the counter: what is ingested
  next, even after a restart, is numbered higher than everything stored.
\<close>

theorem reachable_states_sound:
  assumes "rodeo_laws (en_rodeo E)" and "snapshot_codec_laws (en_codec E)" and "reachable E w"
  defines "R \<equiv> en_rodeo E" and "a \<equiv> in_app w"
  shows "log_base R (ap_log a) \<and> metric_base R (ap_metric a) \<and> names_ok R (ap_metric a) \<and>
    trace_wf R (ap_trace a) \<and> services_ok R (ap_trace a) \<and>
    (\<forall>f. \<forall>e \<in> set (log_view R (ap_log a) f). le_ingest_seq e < ap_seq a) \<and>
    (\<forall>f. \<forall>p \<in> set (metric_view R (ap_metric a) f). sm_ingest_seq p < ap_seq a) \<and>
    (\<forall>t. \<forall>sp \<in> set (spans_of (ap_trace a) t). sp_ingest_seq sp < ap_seq a)"
  using reachable_inv [OF assms(3,1,2)]
  by (simp add: R_def a_def server_inv_def app_inv_def stores_ok_def seqs_below_def log_seqs_def
      metric_seqs_def trace_seqs_def ball_Un)

theorem reachable_states_sound_witness:
  "log_base list_rodeo (ap_log (in_app sample_logged)) \<and>
   (\<forall>f. list_all (\<lambda>e. le_ingest_seq e < ap_seq (in_app sample_logged)) (log_view list_rodeo (ap_log (in_app sample_logged)) f))"
  using reachable_states_sound [OF _ _ sample_logged_reachable] list_rodeo_laws sample_codec_laws
  by (simp add: sample_env_def list_all_iff)

text \<open>
  C9: an eviction pass leaves each store within its configured limit and nothing older than the
  retention; it only removes; a store within its limit loses exactly what is older; a second pass
  at the same instant changes no content.
\<close>

theorem eviction_pass_limits:
  assumes "log_base R (ap_log a)" and "metric_base R (ap_metric a)" and "trace_wf R (ap_trace a)"
    and "retention_duration (ap_config a) = Inr ret" and "run_eviction R now a = Inr a'"
  defines "c \<equiv> eviction_cutoff_ns ret now" and "cfg \<equiv> ap_config a"
  shows "lg_total_entries (ap_log a') \<le> cf_max_log_entries cfg \<and>
    length (mt_series (ap_metric a')) \<le> cf_max_series cfg \<and> ts_total_spans (ap_trace a') \<le> cf_max_spans cfg \<and>
    (\<forall>f. \<forall>e \<in> set (log_view R (ap_log a') f). e \<in> set (log_view R (ap_log a) f) \<and> c \<le> le_timestamp_ns e) \<and>
    (\<forall>f. \<forall>p \<in> set (metric_view R (ap_metric a') f).
       p \<in> set (metric_view R (ap_metric a) f) \<and> i64_div c 1000000 \<le> sm_timestamp_ms p) \<and>
    (\<forall>t. \<forall>sp \<in> set (spans_of (ap_trace a') t). sp \<in> set (spans_of (ap_trace a) t) \<and> c \<le> sp_start_ns sp) \<and>
    (lg_total_entries (ap_log a) \<le> cf_max_log_entries cfg \<longrightarrow>
       (\<forall>f. log_view R (ap_log a') f = filter (\<lambda>e. c \<le> le_timestamp_ns e) (log_view R (ap_log a) f))) \<and>
    (ts_total_spans (ap_trace a) \<le> cf_max_spans cfg \<longrightarrow>
       (\<forall>t. spans_of (ap_trace a') t = filter (\<lambda>sp. c \<le> sp_start_ns sp) (spans_of (ap_trace a) t))) \<and>
    (\<exists>b. run_eviction R now a' = Inr b \<and> log_view R (ap_log b) = log_view R (ap_log a') \<and>
       metric_view R (ap_metric b) = metric_view R (ap_metric a') \<and> spans_of (ap_trace b) = spans_of (ap_trace a'))"
proof -
  note E = run_eviction_sweeps [OF assms(5,4), folded c_def cfg_def]
  note l = log_retention.sweep_size [OF assms(1), of c "cf_max_log_entries cfg"]
    log_retention.sweep_items [OF assms(1), of _ c "cf_max_log_entries cfg"]
  note m = metric_retention.sweep_size [OF assms(2), of "i64_div c 1000000" "cf_max_series cfg"]
    metric_retention.sweep_items [OF assms(2), of _ "i64_div c 1000000" "cf_max_series cfg"]
  note t = trace_retention.sweep_size [OF assms(3), of c "cf_max_spans cfg"]
    trace_retention.sweep_items [OF assms(3), of _ c "cf_max_spans cfg"]
  have lf: "log_view R (ap_log a') f = filter (\<lambda>e. c \<le> le_timestamp_ns e) (log_view R (ap_log a) f)"
    if "lg_total_entries (ap_log a) \<le> cf_max_log_entries cfg" for f
    using log_retention.sweep_within_limits [OF assms(1)] log_retention.before_size [OF assms(1), of c] that
    by (simp add: E)
  have tf: "spans_of (ap_trace a') u = filter (\<lambda>sp. c \<le> sp_start_ns sp) (spans_of (ap_trace a) u)"
    if "ts_total_spans (ap_trace a) \<le> cf_max_spans cfg" for u
    using trace_retention.sweep_within_limits [OF assms(3)] trace_retention.before_size [OF assms(3), of c] that
    by (simp add: E)
  obtain b where b: "run_eviction R now a' = Inr b"
    using assms(4) by (simp add: run_eviction_def Let_def E)
  have "retention_duration (ap_config a') = Inr ret" using assms(4) by (simp add: E)
  note B = run_eviction_sweeps [OF b this, folded c_def]
  have again: "log_view R (ap_log b) = log_view R (ap_log a')"
    "metric_view R (ap_metric b) = metric_view R (ap_metric a')" "spans_of (ap_trace b) = spans_of (ap_trace a')"
    using log_retention.sweep_again [OF assms(1)] metric_retention.sweep_again [OF assms(2)]
      trace_retention.sweep_again [OF assms(3)]
    by (auto simp: B E cfg_def)
  show ?thesis
  proof (intro conjI allI ballI impI)
    show "lg_total_entries (ap_log a') \<le> cf_max_log_entries cfg" using l(1) by (simp add: E)
    show "length (mt_series (ap_metric a')) \<le> cf_max_series cfg" using m(1) by (simp add: E)
    show "ts_total_spans (ap_trace a') \<le> cf_max_spans cfg" using t(1) by (simp add: E)
    fix f e assume "e \<in> set (log_view R (ap_log a') f)"
    then show "e \<in> set (log_view R (ap_log a) f)" "c \<le> le_timestamp_ns e" using l(2) by (simp_all add: E)
  next
    fix f p assume "p \<in> set (metric_view R (ap_metric a') f)"
    then show "p \<in> set (metric_view R (ap_metric a) f)" "i64_div c 1000000 \<le> sm_timestamp_ms p"
      using m(2) by (simp_all add: E)
  next
    fix u sp assume "sp \<in> set (spans_of (ap_trace a') u)"
    then show "sp \<in> set (spans_of (ap_trace a) u)" "c \<le> sp_start_ns sp" using t(2) by (simp_all add: E)
  qed (use lf tf b again in blast)+
qed

theorem eviction_pass_limits_witness:
  "\<exists>a'. run_eviction list_rodeo (10 ^ 18) (in_app sample_logged) = Inr a' \<and> lg_total_entries (ap_log a') \<le> 1 \<and>
     (\<forall>f. list_all (\<lambda>e. 999999999800000000 \<le> le_timestamp_ns e) (log_view list_rodeo (ap_log a') f))"
proof -
  have ret: "retention_duration (ap_config (in_app sample_logged)) = Inr (200 * 1000000)"
    by (simp only: sample_logged_config sample_retention)
  then obtain a' where run: "run_eviction list_rodeo (10 ^ 18) (in_app sample_logged) = Inr a'"
    by (simp add: run_eviction_def Let_def)
  note S = reachable_inv [OF sample_logged_reachable, unfolded server_inv_def app_inv_def stores_ok_def]
  have inv: "log_base list_rodeo (ap_log (in_app sample_logged))" "metric_base list_rodeo (ap_metric (in_app sample_logged))"
    "trace_wf list_rodeo (ap_trace (in_app sample_logged))"
    using S list_rodeo_laws sample_codec_laws by (simp_all add: sample_env_def)
  from eviction_pass_limits [OF inv ret run, unfolded sample_cutoff] run show ?thesis
    by (auto simp: sample_logged_config sample_config_def list_all_iff)
qed

text \<open>
  C8: saving is atomic and restoring loses nothing. A save that fails at any file operation
  leaves what a restart loads unchanged; after a successful one a restart with \<open>--restore\<close> shows
  the same logs, metrics and spans, satisfies the invariant and numbers higher than all of them.
\<close>

theorem snapshot_survives_restart:
  assumes "snapshot_codec_laws C" and "app_inv R a" and "ids_fit a"
    and "save_from_state_reported C fails a d = (d', r)" and "cf_restore cfg"
  shows "case r of
      Inl e \<Rightarrow> load_snapshot C d' = load_snapshot C d
    | Inr n \<Rightarrow> (let a' = start_app R C cfg d' in
        log_view R (ap_log a') = log_view R (ap_log a) \<and>
        metric_view R (ap_metric a') = metric_view R (ap_metric a) \<and>
        spans_of (ap_trace a') = spans_of (ap_trace a) \<and>
        lg_interner (ap_log a') = lg_interner (ap_log a) \<and> ts_interner (ap_trace a') = ts_interner (ap_trace a) \<and>
        app_inv R a')"
proof (cases r)
  case (Inl e)
  then show ?thesis using save_atomic [OF assms(4)] by (simp add: load_snapshot_def)
next
  case (Inr n)
  then obtain b where "sc_serialize C (snapshot_of a) = Some b" "sd_snap d' = Some (Complete b)"
    using save_atomic [OF assms(4)] by auto
  from restart_loads [OF assms(1) this assms(2,3,5)] Inr show ?thesis
    by (simp add: Let_def same_content_def snapshot_of_def)
qed

theorem snapshot_survives_restart_witness:
  "log_view list_rodeo (ap_log (start_app list_rodeo sample_codec sample_config
      (save_from_state sample_codec (\<lambda>_. False) (in_app sample_logged) (in_dir sample_start)))) =
    log_view list_rodeo (ap_log (in_app sample_logged))"
proof -
  have inv: "app_inv list_rodeo (in_app sample_logged)" "ids_fit (in_app sample_logged)"
    using reachable_inv [OF sample_logged_reachable] list_rodeo_laws sample_codec_laws
    by (simp_all add: server_inv_def sample_env_def)
  have run: "save_from_state_reported sample_codec (\<lambda>_. False) (in_app sample_logged) (in_dir sample_start) =
      (save_from_state sample_codec (\<lambda>_. False) (in_app sample_logged) (in_dir sample_start), Inr 1)"
    by (simp add: save_from_state_def save_from_state_reported_def save_snapshot_owned_def write_snapshot_def
        sample_codec_def sample_start_def Let_def)
  from snapshot_survives_restart [OF sample_codec_laws inv run, of sample_config] show ?thesis
    by (simp add: sample_config_def Let_def)
qed

definition sample_histogram :: otlp_metric where
  "sample_histogram = \<lparr>om_name = ''h'', om_description = ''latency'', om_unit = [],
     om_data = Some (HistogramData [\<lparr>hd_attributes = [], hd_time_unix_nano = 7000000, hd_count = 0,
       hd_sum = None, hd_bucket_counts = [], hd_explicit_bounds = []\<rparr>])\<rparr>"

definition after_histogram :: "string list app_state" where
  "after_histogram = fst (ingest_metrics list_rodeo (\<lambda>_. []) (sample_metrics_request [sample_histogram]) sample_state)"

text \<open>
  the metadata of a histogram does not outlive the next eviction pass, though nothing is
  evicted: it is registered under the histogram's own name, which no series bears, the series
  being those of the buckets, the sum and the count.
\<close>

lemma histogram_metadata_lost:
  "get_metric_metadata list_rodeo (ap_metric after_histogram) ''h'' =
     Some \<lparr>md_type = Some Histogram, md_help = Some ''latency'', md_unit = None\<rparr> \<and>
   get_metric_metadata list_rodeo (metric_evict_before list_rodeo 0 (ap_metric after_histogram)) ''h'' = None \<and>
   length (mt_series (metric_evict_before list_rodeo 0 (ap_metric after_histogram))) = length (mt_series (ap_metric after_histogram))"
  by (simp add: after_histogram_def sample_histogram_def metric_ingest_eval sample_state_def write_metrics_def
      hm_simps prepare_histogram_point_def sum_and_count_def store_rows_def store_metas_def get_metric_metadata_def
      register_metric_metadata_def merge_metadata_def metadata_default_def metric_eval surviving_names_def)

end
