(* ===== verification/App_Liveness.thy ===== *)
theory App_Liveness
  imports App_Lifecycle_Correct
begin

text \<open>
  The eviction task and its timer, \<open>src/main.rs\<close>: infinite runs of a process in which time passes.
  That the task runs again and again is derived from the timer and the progress of the clock, and
  bounds how long old data can stay.
\<close>

section \<open>The timer\<close>

text \<open>
  \<open>tokio::time::interval(Duration::from_secs(30))\<close>: the first tick is due at once, and each later one
  thirty seconds after the one before was due, late ticks being caught up (the documented default).
  Times are in nanoseconds; the timer and the clock that eviction reads go alike.
\<close>

definition eviction_period :: nat where "eviction_period = 30 * 10 ^ 9"

record ('i, 'b) process =
  pr_server :: "('i, 'b) server"
  pr_now :: nat
  pr_due :: nat \<comment> \<open>when the eviction task ticks next\<close>

text \<open>What happens between two ticks: requests and snapshots. A restart ends the process.\<close>

definition served :: "app_event \<Rightarrow> bool" where
  "served ev \<longleftrightarrow> (\<forall>now. ev \<noteq> Evict now) \<and> (\<forall>cfg. ev \<noteq> Restart cfg)"

text \<open>
  The loop of the task awaits a tick, which it gets when it is due and no later than \<open>latency\<close> after
  that, and runs an eviction pass; a panic of the pass is dropped (\<open>.await.ok()\<close>).
\<close>

inductive process_step :: "('i, 'b) app_env \<Rightarrow> nat \<Rightarrow> ('i, 'b) process \<Rightarrow> ('i, 'b) process \<Rightarrow> bool"
  for E latency where
  serve: "served ev \<Longrightarrow> event_fits E (in_app (pr_server w)) ev \<Longrightarrow> app_step E (pr_server w) ev sv \<Longrightarrow>
    process_step E latency w (w\<lparr>pr_server := sv\<rparr>)"
| wait: "now \<le> pr_due w + latency \<Longrightarrow> pr_now w \<le> now \<Longrightarrow>
    process_step E latency w (w\<lparr>pr_now := now\<rparr>)"
| tick: "pr_due w \<le> pr_now w \<Longrightarrow> app_step E (pr_server w) (Evict (pr_now w)) sv \<Longrightarrow>
    process_step E latency w (w\<lparr>pr_server := sv, pr_due := pr_due w + eviction_period\<rparr>)"

inductive_cases process_stepE: "process_step E latency w w'"

text \<open>A run of a process from its start, in which time passes every instant.\<close>

definition process_run :: "('i, 'b) app_env \<Rightarrow> nat \<Rightarrow> (nat \<Rightarrow> ('i, 'b) process) \<Rightarrow> bool" where
  "process_run E latency w \<longleftrightarrow> reachable E (pr_server (w 0)) \<and> pr_due (w 0) = pr_now (w 0) \<and>
     (\<forall>i. process_step E latency (w i) (w (Suc i))) \<and> (\<forall>t. \<exists>i. t \<le> pr_now (w i))"

lemma process_runD:
  assumes "process_run E latency w"
  shows "reachable E (pr_server (w 0))" and "pr_due (w 0) = pr_now (w 0)"
    and "process_step E latency (w i) (w (Suc i))" and "\<exists>i. t \<le> pr_now (w i)"
  using assms by (simp_all add: process_run_def)

lemma served_step_config: "app_step E sv ev sv' \<Longrightarrow> served ev \<Longrightarrow> ap_config (in_app sv') = ap_config (in_app sv)"
proof (induction rule: app_step.induct)
  case (reset w service)
  then show ?case by (cases service) (simp_all add: reset_def)
qed (auto simp: served_def ingest_logs_def ingest_loki_push_def ingest_metrics_def ingest_remote_write_def
    ingest_traces_def Let_def split: prod.splits)

lemma evict_step_config: "app_step E sv (Evict now) sv' \<Longrightarrow> ap_config (in_app sv') = ap_config (in_app sv)"
  by (cases rule: app_step.cases) (auto simp: run_eviction_def Let_def split: sum.splits)

lemma run_reachable:
  assumes run: "process_run E latency w"
  shows "reachable E (pr_server (w i))"
proof (induction i)
  case 0
  show ?case by (rule process_runD(1) [OF run])
next
  case (Suc i)
  from process_runD(3) [OF run, of i] show ?case
    by (rule process_stepE) (use Suc in \<open>auto intro: reachable.more [where ev = "Evict _"] reachable.more\<close>)
qed

text \<open>The next tick is never more than a period away, and the clock never more than the latency past it.\<close>

lemma run_timer:
  assumes run: "process_run E latency w"
  shows "pr_due (w i) \<le> pr_now (w i) + eviction_period \<and> pr_now (w i) \<le> pr_due (w i) + latency \<and>
    ap_config (in_app (pr_server (w i))) = ap_config (in_app (pr_server (w 0)))"
proof (induction i)
  case 0
  show ?case using process_runD(2) [OF run] by simp
next
  case (Suc i)
  from process_runD(3) [OF run, of i] show ?case
    by (rule process_stepE) (use Suc in \<open>auto simp: served_step_config evict_step_config\<close>)
qed

section \<open>Progress\<close>

definition ticks_at :: "('i, 'b) app_env \<Rightarrow> (nat \<Rightarrow> ('i, 'b) process) \<Rightarrow> nat \<Rightarrow> bool" where
  "ticks_at E w j \<longleftrightarrow> app_step E (pr_server (w j)) (Evict (pr_now (w j))) (pr_server (w (Suc j))) \<and>
     pr_now (w (Suc j)) = pr_now (w j)"

text \<open>Unless the step is a tick the timer stays.\<close>

lemma step_or_tick:
  assumes run: "process_run E latency w"
  shows "ticks_at E w i \<or> pr_due (w (Suc i)) = pr_due (w i)"
  by (rule process_stepE [OF process_runD(3) [OF run, of i]]) (auto simp: ticks_at_def)

lemma clock_mono:
  assumes run: "process_run E latency w" and "i \<le> j"
  shows "pr_now (w i) \<le> pr_now (w j)"
proof (rule lift_Suc_mono_le [OF _ assms(2)])
  fix n
  from process_runD(3) [OF run, of n] show "pr_now (w n) \<le> pr_now (w (Suc n))"
    by (rule process_stepE) auto
qed

text \<open>From every point of a run the task ticks, at the latest the latency after the next tick is due.\<close>

lemma tick_comes:
  assumes run: "process_run E latency w"
  shows "\<exists>j \<ge> i. ticks_at E w j \<and> pr_now (w j) \<le> pr_due (w i) + latency"
proof (rule ccontr)
  assume none: "\<not> ?thesis"
  have due: "pr_due (w (i + n)) = pr_due (w i)" for n
  proof (induction n)
    case (Suc n)
    have "pr_now (w (i + n)) \<le> pr_due (w i) + latency" using run_timer [OF run, of "i + n"] Suc by simp
    with none have "\<not> ticks_at E w (i + n)" using le_add1 by blast
    then show ?case using step_or_tick [OF run, of "i + n"] Suc by simp
  qed simp
  obtain k where k: "Suc (pr_due (w i) + latency) \<le> pr_now (w k)" using process_runD(4) [OF run] by blast
  also have "\<dots> \<le> pr_now (w (i + k))" by (rule clock_mono [OF run]) simp
  also have "\<dots> \<le> pr_due (w i) + latency" using run_timer [OF run, of "i + k"] due by simp
  finally show False by simp
qed

text \<open>After every instant to come the task ticks, no later than a period and the latency after it.\<close>

lemma tick_after:
  assumes run: "process_run E latency w" and t: "pr_now (w i) \<le> t"
  shows "\<exists>j \<ge> i. ticks_at E w j \<and> t \<le> pr_now (w j) \<and> pr_now (w j) \<le> t + eviction_period + latency"
proof -
  define m where "m = (LEAST m. i \<le> m \<and> t \<le> pr_now (w m))"
  obtain k where "t \<le> pr_now (w k)" using process_runD(4) [OF run] by blast
  then have "i \<le> i + k \<and> t \<le> pr_now (w (i + k))" using clock_mono [OF run, of k "i + k"] by simp
  then have m: "i \<le> m" "t \<le> pr_now (w m)" unfolding m_def by (rule LeastI2; blast)+
  have due: "pr_due (w m) \<le> t + eviction_period"
  proof (cases "m = i")
    case True
    then show ?thesis using run_timer [OF run, of i] t by simp
  next
    case False
    then obtain n where n: "m = Suc n" "i \<le> n" using m(1) by (metis le_SucE le_antisym nat.exhaust zero_le)
    then have before: "pr_now (w n) < t" using not_less_Least [of n "\<lambda>m. i \<le> m \<and> t \<le> pr_now (w m)"] unfolding m_def by auto
    from process_runD(3) [OF run, of n] show ?thesis
      by (rule process_stepE) (use run_timer [OF run, of n] before m(2) n(1) in auto)
  qed
  from tick_comes [OF run, of m] obtain j where j: "m \<le> j" "ticks_at E w j" "pr_now (w j) \<le> pr_due (w m) + latency" by blast
  then show ?thesis using m due clock_mono [OF run j(1)] by (intro exI [of _ j]) auto
qed

section \<open>What a tick leaves\<close>

text \<open>Nothing older than \<open>c\<close> is stored, and no store is over its limit.\<close>

definition tidy :: "'i rodeo_ops \<Rightarrow> i64 \<Rightarrow> 'i app_state \<Rightarrow> bool" where
  "tidy R c a \<longleftrightarrow>
     (\<forall>f. list_all (\<lambda>e. c \<le> le_timestamp_ns e) (log_view R (ap_log a) f)) \<and>
     (\<forall>f. list_all (\<lambda>p. i64_div c 1000000 \<le> sm_timestamp_ms p) (metric_view R (ap_metric a) f)) \<and>
     (\<forall>t. list_all (\<lambda>sp. c \<le> sp_start_ns sp) (spans_of (ap_trace a) t)) \<and>
     lg_total_entries (ap_log a) \<le> cf_max_log_entries (ap_config a) \<and>
     length (mt_series (ap_metric a)) \<le> cf_max_series (ap_config a) \<and>
     ts_total_spans (ap_trace a) \<le> cf_max_spans (ap_config a)"

lemma i64_div_mono: "c \<le> d \<Longrightarrow> i64_div c 1000000 \<le> i64_div d 1000000"
proof -
  assume "c \<le> d"
  then have up: "c div 1000000 \<le> d div 1000000" "- d div 1000000 \<le> - c div 1000000" by (intro zdiv_mono1; simp)+
  consider "0 \<le> c" | "c < 0" "0 \<le> d" | "c < 0" "d < 0" by linarith
  then show ?thesis
  proof cases
    case 2
    then have "0 \<le> - c div 1000000" "0 \<le> d div 1000000" by (simp_all add: pos_imp_zdiv_nonneg_iff)
    with 2 show ?thesis by (simp add: i64_div_def)
  qed (use up \<open>c \<le> d\<close> in \<open>simp_all add: i64_div_def\<close>)
qed

lemma evicted_tidy:
  assumes inv: "app_inv R a" and "retention_duration (ap_config a) = Inr ret" and run: "run_eviction R now a = Inr a'"
    and c: "c \<le> eviction_cutoff_ns ret now"
  shows "tidy R c a'"
proof -
  note E = run_eviction_sweeps [OF run assms(2)]
  let ?c = "eviction_cutoff_ns ret now"
  have l: "log_base R (ap_log a)" and m: "metric_base R (ap_metric a)" and t: "trace_wf R (ap_trace a)"
    using inv by (simp_all add: app_inv_def stores_ok_def)
  note items = log_retention.sweep_items [OF l, of _ ?c "cf_max_log_entries (ap_config a)"]
    metric_retention.sweep_items [OF m, of _ "i64_div ?c 1000000" "cf_max_series (ap_config a)"]
    trace_retention.sweep_items [OF t, of _ ?c "cf_max_spans (ap_config a)"]
  note sizes = log_retention.sweep_size [OF l, of ?c "cf_max_log_entries (ap_config a)"]
    metric_retention.sweep_size [OF m, of "i64_div ?c 1000000" "cf_max_series (ap_config a)"]
    trace_retention.sweep_size [OF t, of ?c "cf_max_spans (ap_config a)"]
  have "c \<le> le_timestamp_ns e" if "e \<in> set (log_view R (ap_log a') f)" for e f
    using items(1) that c by (fastforce simp: E)
  moreover have "i64_div c 1000000 \<le> sm_timestamp_ms p" if "p \<in> set (metric_view R (ap_metric a') f)" for p f
    using items(2) that i64_div_mono [OF c] by (fastforce simp: E)
  moreover have "c \<le> sp_start_ns sp" if "sp \<in> set (spans_of (ap_trace a') u)" for sp u
    using items(3) that c by (fastforce simp: E)
  ultimately show ?thesis using sizes by (simp add: tidy_def list_all_iff E)
qed

text \<open>Once the retention has passed since \<open>c\<close>, the cutoff of a pass is \<open>c\<close> or later.\<close>

lemma cutoff_reached:
  assumes "nat (c + int ret) \<le> now" and "c + int ret \<le> i64_max"
  shows "c \<le> eviction_cutoff_ns ret now"
  using assms
  by (auto simp: eviction_cutoff_ns_def system_time_ns_def eviction_duration_ns_def i64_saturating_sub_def
      i64_saturate_def i64_max_def i64_min_def min_def max_def)

lemma tick_tidy:
  assumes "ticks_at E w j" and "app_inv (en_rodeo E) (in_app (pr_server (w j)))"
    and ret: "retention_duration (ap_config (in_app (pr_server (w j)))) = Inr ret"
    and c: "c \<le> eviction_cutoff_ns ret (pr_now (w j))"
  shows "tidy (en_rodeo E) c (in_app (pr_server (w (Suc j))))"
proof -
  obtain a where run: "run_eviction (en_rodeo E) (pr_now (w j)) (in_app (pr_server (w j))) = Inr a"
    using ret by (simp add: run_eviction_def Let_def)
  have "app_step E (pr_server (w j)) (Evict (pr_now (w j))) (pr_server (w (Suc j)))" using assms(1) by (simp add: ticks_at_def)
  then have "in_app (pr_server (w (Suc j))) = a" using run by (cases rule: app_step.cases) simp_all
  with evicted_tidy [OF assms(2) ret run c] show ?thesis by simp
qed

section \<open>A run\<close>

text \<open>A process that only waits and ticks.\<close>

fun ticking :: "nat \<Rightarrow> (string list, string list snapshot) process" where
  "ticking 0 = \<lparr>pr_server = sample_logged, pr_now = 10 ^ 18, pr_due = 10 ^ 18\<rparr>"
| "ticking (Suc i) =
     (if pr_due (ticking i) \<le> pr_now (ticking i)
      then (ticking i)\<lparr>pr_server := (pr_server (ticking i))\<lparr>in_app :=
               (case run_eviction list_rodeo (pr_now (ticking i)) (in_app (pr_server (ticking i))) of
                  Inl p \<Rightarrow> in_app (pr_server (ticking i)) | Inr a \<Rightarrow> a)\<rparr>,
             pr_due := pr_due (ticking i) + eviction_period\<rparr>
      else (ticking i)\<lparr>pr_now := pr_due (ticking i)\<rparr>)"

lemma ticking_run: "process_run sample_env 0 ticking"
proof -
  have "process_step sample_env 0 (ticking i) (ticking (Suc i))" for i
  proof (cases "pr_due (ticking i) \<le> pr_now (ticking i)")
    case True
    have "app_step sample_env (pr_server (ticking i)) (Evict (pr_now (ticking i))) (pr_server (ticking (Suc i)))"
      using app_step.evict [of sample_env "pr_now (ticking i)" "pr_server (ticking i)"]
        app_step.evict_panic [of sample_env "pr_now (ticking i)" "pr_server (ticking i)"] True
      by (auto simp: sample_env_def split: sum.split)
    from process_step.tick [OF True this] True show ?thesis by simp
  next
    case False
    then show ?thesis using process_step.wait [of "pr_due (ticking i)" "ticking i" 0 sample_env] by simp
  qed
  moreover have "pr_now (ticking (2 * k)) = 10 ^ 18 + k * eviction_period \<and> pr_due (ticking (2 * k)) = pr_now (ticking (2 * k))" for k
    by (induction k) (simp_all add: eviction_period_def)
  then have "t \<le> pr_now (ticking (2 * t))" for t
    by (simp add: eviction_period_def)
  ultimately show ?thesis
    using sample_logged_reachable unfolding process_run_def by (auto simp: sample_env_def)
qed

section \<open>Property\<close>

text \<open>
  C39: in a process whose eviction task is polled within some latency of its timer, old data leaves in
  bounded time, whatever is ingested, reset and saved meanwhile without using up the counters: once the retention has passed since an
  instant \<open>c\<close>, there comes, no later than thirty seconds and the latency after that, a state in which
  no entry, sample or span older than \<open>c\<close> is stored and each store is within its limit. That passes
  keep coming is a consequence of the timer and of time going on.
\<close>

theorem old_data_leaves:
  assumes "rodeo_laws (en_rodeo E)" and "snapshot_codec_laws (en_codec E)" and "process_run E latency w"
    and "retention_duration (ap_config (in_app (pr_server (w 0)))) = Inr ret" and "c + int ret \<le> i64_max"
  shows "\<exists>j > i. tidy (en_rodeo E) c (in_app (pr_server (w j))) \<and>
    pr_now (w j) \<le> max (pr_now (w i)) (nat (c + int ret)) + eviction_period + latency"
proof -
  let ?t = "max (pr_now (w i)) (nat (c + int ret))"
  obtain j where j: "i \<le> j" "ticks_at E w j" "?t \<le> pr_now (w j)" "pr_now (w j) \<le> ?t + eviction_period + latency"
    using tick_after [OF assms(3), of i ?t] by auto
  have "app_inv (en_rodeo E) (in_app (pr_server (w j)))"
    using reachable_inv [OF run_reachable [OF assms(3)] assms(1,2)] by (simp add: server_inv_def)
  moreover have "retention_duration (ap_config (in_app (pr_server (w j)))) = Inr ret"
    using run_timer [OF assms(3), of j] assms(4) by simp
  ultimately have "tidy (en_rodeo E) c (in_app (pr_server (w (Suc j))))"
    using tick_tidy [OF j(2)] cutoff_reached [OF _ assms(5)] j(3) by simp
  moreover have "pr_now (w (Suc j)) = pr_now (w j)" using j(2) by (simp add: ticks_at_def)
  ultimately show ?thesis using j(1,4) by (intro exI [of _ "Suc j"]) simp
qed

lemma old_data_leaves_witness:
  "\<exists>j > 5. tidy list_rodeo 1000000009800000000 (in_app (pr_server (ticking j))) \<and>
    pr_now (ticking j) \<le> max (pr_now (ticking 5)) 1000000010000000000 + eviction_period"
  using old_data_leaves [of sample_env 0 ticking "200 * 1000000" 1000000009800000000 5] list_rodeo_laws sample_codec_laws
    ticking_run sample_retention
  by (simp add: sample_env_def sample_logged_config i64_max_def)

end
