(* ===== verification/Api_Views.thy ===== *)
theory Api_Views
  imports App_State Json "HOL-Library.Product_Lexorder"
begin

text \<open>
  The endpoints that look across the three stores: \<open>src/api/services.rs\<close>, \<open>status.rs\<close>,
  \<open>metadata.rs\<close>, \<open>catalog.rs\<close> and \<open>summary.rs\<close>. They share the list of services, the label
  matchers of a service and the JSON of a log entry.
\<close>

section \<open>Reading a JSON value\<close>

definition json_get :: "string \<Rightarrow> json \<Rightarrow> json option" where
  "json_get k v = (case v of JObject members \<Rightarrow> map_of members k | _ \<Rightarrow> None)"

definition str_member :: "string \<Rightarrow> string \<Rightarrow> json \<Rightarrow> string" where
  "str_member dflt k v = (case json_get k v of Some (JString s) \<Rightarrow> s | _ \<Rightarrow> dflt)"

definition float_member :: "f64 \<Rightarrow> string \<Rightarrow> json \<Rightarrow> f64" where
  "float_member dflt k v =
     (case json_get k v of Some (JFloat x) \<Rightarrow> x | Some (JInt n) \<Rightarrow> f64_of_int n | _ \<Rightarrow> dflt)"

text \<open>
  \<open>sort_by\<close> on a member that is a number or defaults to one: \<open>null\<close> stands for what is not finite, so
  \<open>partial_cmp\<close> always answers.
\<close>

definition sort_by_member_desc :: "string \<Rightarrow> json list \<Rightarrow> json list" where
  "sort_by_member_desc k xs = sort_by_key_desc (\<lambda>v. f64_units (float_member f64_zero k v)) xs"

section \<open>Services\<close>

definition service_matcher :: "string \<Rightarrow> label_matcher" where
  "service_matcher service = \<lparr>lm_name = ''service'', lm_op = Eq, lm_value = service\<rparr>"

definition error_matchers :: "string \<Rightarrow> label_matcher list" where
  "error_matchers service = [service_matcher service, \<lparr>lm_name = ''level'', lm_op = Eq, lm_value = ''error''\<rparr>]"

definition add_signal :: "string \<Rightarrow> string list \<Rightarrow> (string, string hash_set) hash_map \<Rightarrow> (string, string hash_set) hash_map" where
  "add_signal signal names m = fold (\<lambda>n. hm_upsert [] n (hs_insert signal)) names m"

definition service_signals :: "'i rodeo_ops \<Rightarrow> 'i app_state \<Rightarrow> (string, string hash_set) hash_map" where
  "service_signals R a =
     add_signal ''traces'' (trace_service_names R (ap_trace a))
       (add_signal ''metrics'' (metric_label_values R (ap_metric a) ''service'')
         (add_signal ''logs'' (log_label_values R (ap_log a) ''service'') []))"

definition signals_json :: "string \<times> string hash_set \<Rightarrow> json" where
  "signals_json p = json_map [(''name'', JString (fst p)), (''signals'', json_strings (sort (snd p)))]"

definition services_json :: "'i rodeo_ops \<Rightarrow> 'i app_state \<Rightarrow> json list" where
  "services_json R a = sort_key (str_member [] ''name'') (map signals_json (service_signals R a))"

definition api_success :: "json \<Rightarrow> json" where
  "api_success data = json_map [(''status'', JString ''success''), (''data'', data)]"

definition list_services :: "'i rodeo_ops \<Rightarrow> 'i app_state \<Rightarrow> json" where
  "list_services R a = api_success (json_map [(''services'', JArray (services_json R a))])"

text \<open>The names of all services, as a set that the stores fill one after the other.\<close>

definition collect_all_services :: "'i rodeo_ops \<Rightarrow> 'i app_state \<Rightarrow> string hash_set" where
  "collect_all_services R a =
     fold hs_insert (trace_service_names R (ap_trace a))
       (fold hs_insert (metric_label_values R (ap_metric a) ''service'')
         (fold hs_insert (log_label_values R (ap_log a) ''service'') []))"

section \<open>Readiness and status\<close>

definition api_ready :: json where "api_ready = json_map [(''status'', JString ''ready'')]"

text \<open>The estimates of the memory in use depend on the capacities of vectors: three parameters.\<close>

record 'i memory_estimates =
  me_log :: "'i log_store \<Rightarrow> usize"
  me_metric :: "'i metric_store \<Rightarrow> usize"
  me_trace :: "'i trace_store \<Rightarrow> usize"

definition api_status :: "'i rodeo_ops \<Rightarrow> 'i memory_estimates \<Rightarrow> u64 \<Rightarrow> 'i app_state \<Rightarrow> json" where
  "api_status R M uptime a =
     (let logs = me_log M (ap_log a); metrics = me_metric M (ap_metric a); traces = me_trace M (ap_trace a)
      in api_success (json_map
          [(''totalLogEntries'', JInt (int (lg_total_entries (ap_log a)))),
           (''totalMetricSeries'', JInt (int (length (mt_series (ap_metric a))))),
           (''totalMetricSamples'', JInt (int (mt_total_samples (ap_metric a)))),
           (''totalSpans'', JInt (int (ts_total_spans (ap_trace a)))),
           (''totalTraces'', JInt (int (length (ts_traces (ap_trace a))))),
           (''uptimeSeconds'', JInt (int uptime)),
           (''serviceCount'', JInt (int (length (collect_all_services R a)))),
           (''memoryBytes'', JInt (int (logs + metrics + traces))),
           (''logMemoryBytes'', JInt (int logs)),
           (''metricMemoryBytes'', JInt (int metrics)),
           (''traceMemoryBytes'', JInt (int traces))]))"

section \<open>Metric metadata\<close>

definition names_with_series :: "spur \<Rightarrow> 'i metric_store \<Rightarrow> spur hash_set \<Rightarrow> spur hash_set" where
  "names_with_series k s seen =
     fold (\<lambda>se. fold (\<lambda>(l, v) out. if l = k then hs_insert v out else out) (ms_labels se)) (hm_values (mt_series s)) seen"

definition metadata_names :: "'i rodeo_ops \<Rightarrow> 'i metric_store \<Rightarrow> spur hash_set" where
  "metadata_names R s =
     fold hs_insert (hm_keys (mt_metadata s))
       (case rd_get R (mt_interner s) ''__name__'' of None \<Rightarrow> [] | Some k \<Rightarrow> names_with_series k s [])"

definition metadata_entry :: "metric_metadata option \<Rightarrow> json" where
  "metadata_entry md =
     JArray [json_map
       [(''type'', JString (case Option.bind md md_type of None \<Rightarrow> ''unknown'' | Some t \<Rightarrow> metric_type_as_str t)),
        (''help'', JString (case Option.bind md md_help of None \<Rightarrow> [] | Some h \<Rightarrow> h)),
        (''unit'', JString (case Option.bind md md_unit of None \<Rightarrow> [] | Some u \<Rightarrow> u))]]"

definition api_metadata :: "'i rodeo_ops \<Rightarrow> 'i metric_store \<Rightarrow> json" where
  "api_metadata R s =
     api_success (json_map (map (\<lambda>n. (rd_resolve R (mt_interner s) n, metadata_entry (hm_get (mt_metadata s) n)))
       (metadata_names R s)))"

section \<open>Catalog\<close>

text \<open>\<open>seen.insert(x)\<close> guards the push of each name: the names of the distinct keys, in order.\<close>

definition push_new :: "('k \<Rightarrow> string) \<Rightarrow> 'k \<Rightarrow> 'k hash_set \<times> string list \<Rightarrow> 'k hash_set \<times> string list" where
  "push_new name x st = (case st of (seen, names) \<Rightarrow>
     if x \<in> set seen then st else (hs_insert x seen, names @ [name x]))"

definition distinct_names :: "('k \<Rightarrow> string) \<Rightarrow> 'k list \<Rightarrow> string list" where
  "distinct_names name xs = snd (fold (push_new name) xs ([], []))"

definition ids_of_pair :: "label_index \<Rightarrow> spur \<times> spur \<Rightarrow> u64 list" where
  "ids_of_pair idx p = (case hm_get idx p of None \<Rightarrow> [] | Some pl \<Rightarrow> pl_ids pl)"

definition catalog_metrics :: "'i rodeo_ops \<Rightarrow> 'i metric_store \<Rightarrow> string \<Rightarrow> string list" where
  "catalog_metrics R s service =
     (let get = rd_get R (mt_interner s)
      in case (get ''service'', get service, get ''__name__'') of
           (Some k, Some v, Some n) \<Rightarrow>
             sort (distinct_names (rd_resolve R (mt_interner s))
               (concat (map (\<lambda>x. case hm_get (mt_series s) x of None \<Rightarrow> []
                  | Some se \<Rightarrow> map snd (filter (\<lambda>p. fst p = n) (ms_labels se)))
                 (ids_of_pair (mt_label_index s) (k, v)))))
         | _ \<Rightarrow> [])"

definition catalog_log_labels :: "'i rodeo_ops \<Rightarrow> 'i log_store \<Rightarrow> string \<Rightarrow> string list" where
  "catalog_log_labels R s service =
     (let get = rd_get R (lg_interner s)
      in case (get ''service'', get service) of
           (Some k, Some v) \<Rightarrow>
             sort (distinct_names (rd_resolve R (lg_interner s))
               (concat (map (\<lambda>x. case hm_get (lg_streams s) x of None \<Rightarrow> [] | Some st \<Rightarrow> map fst (ls_labels st))
                 (ids_of_pair (lg_label_index s) (k, v)))))
         | _ \<Rightarrow> [])"

definition catalog_span_attributes :: "'i rodeo_ops \<Rightarrow> 'i trace_store \<Rightarrow> string \<Rightarrow> string list" where
  "catalog_span_attributes R s service =
     (case rd_get R (ts_interner s) service of
        None \<Rightarrow> []
      | Some k \<Rightarrow>
          (case hm_get (ts_service_index s) k of
             None \<Rightarrow> []
           | Some ts \<Rightarrow>
               sort (distinct_names (rd_resolve R (ts_interner s))
                 (concat (map (\<lambda>t. case hm_get (ts_traces s) t of None \<Rightarrow> []
                    | Some sps \<Rightarrow> concat (map (\<lambda>sp. map fst (sp_attributes sp)) (filter (\<lambda>sp. sp_service sp = k) sps))) ts)))))"

definition missing_service :: response where
  "missing_service = (status_bad_request,
     json_map [(''status'', JString ''error''), (''error'', JString ''missing required parameter: service'')])"

definition with_service :: "string option \<Rightarrow> (string \<Rightarrow> response) \<Rightarrow> response" where
  "with_service service f =
     (case service of None \<Rightarrow> missing_service | Some s \<Rightarrow> if s = [] then missing_service else f s)"

definition api_catalog :: "'i rodeo_ops \<Rightarrow> 'i app_state \<Rightarrow> string option \<Rightarrow> response" where
  "api_catalog R a service = with_service service (\<lambda>s. (status_ok, api_success (json_map
     [(''metrics'', json_strings (catalog_metrics R (ap_metric a) s)),
      (''log_labels'', json_strings (catalog_log_labels R (ap_log a) s)),
      (''span_attributes'', json_strings (catalog_span_attributes R (ap_trace a) s))])))"

end
