(* ===== verification/Api_Summary.thy ===== *)
theory Api_Summary
  imports Api_Views Float64_Ops Time_Grid
begin

text \<open>
  The error summary of a service, \<open>src/api/summary.rs\<close>: the newest error logs of the last hour, the
  latest samples of the metrics whose names speak of errors or latency, and the traces with failed
  spans of the service, slowest first.
\<close>

definition summary_hour_ns :: i64 where "summary_hour_ns = 3600 * 1000000000"
definition max_log_items :: nat where "max_log_items = 20"
definition max_metric_items :: nat where "max_metric_items = 20"
definition max_trace_items :: nat where "max_trace_items = 20"

text \<open>The system clock is a signed distance from the epoch in nanoseconds.\<close>

definition api_now_ns :: "int \<Rightarrow> i64" where
  "api_now_ns clock = duration_as_i64_ns (nat clock)"

definition ns_to_ms :: "i64 \<Rightarrow> f64" where
  "ns_to_ms ns = f64_div (f64_of_int ns) (f64_of_int 1000000)"

section \<open>Logs\<close>

definition pairs_json :: "(string \<times> string) list \<Rightarrow> json" where
  "pairs_json ps = JArray (map (\<lambda>(k, v). JArray [JString k, JString v]) ps)"

definition log_item_json :: "(string \<times> string) list \<Rightarrow> log_entry \<Rightarrow> json" where
  "log_item_json labels e = json_map
     [(''timestamp'', JString (int_to_string (le_timestamp_ns e))), (''line'', JString (le_line e)),
      (''labels'', pairs_json labels),
      (''trace_id'', json_option (JString \<circ> hex_encode) (le_trace_id e))]"

text \<open>The entries of one stream in a window, each with its time and its JSON.\<close>

definition stream_items :: "'i rodeo_ops \<Rightarrow> 'i log_store \<Rightarrow> i64 \<Rightarrow> i64 \<Rightarrow> u64 \<Rightarrow> panic + (i64 \<times> json) list" where
  "stream_items R s start_ns end_ns sid =
     (let labels = (case get_stream_labels R s sid of None \<Rightarrow> [] | Some ls \<Rightarrow> ls)
      in map_sum id (map (\<lambda>e. (le_timestamp_ns e, log_item_json labels e))) (get_entries s sid start_ns end_ns))"

definition newest_items :: "nat \<Rightarrow> (i64 \<times> json) list \<Rightarrow> json list" where
  "newest_items n items = map snd (take n (sort_by_key_desc fst items))"

definition summarize_logs :: "'i rodeo_ops \<Rightarrow> 'r regex_ops \<Rightarrow> 'i log_store \<Rightarrow> string \<Rightarrow> i64 \<Rightarrow> i64 \<Rightarrow> panic + json list" where
  "summarize_logs R X s service start_ns end_ns =
     map_sum id (newest_items max_log_items)
       (collect_streams (stream_items R s start_ns end_ns) (query_streams R X s (error_matchers service)))"

section \<open>Metrics\<close>

definition is_notable :: "string \<Rightarrow> bool" where
  "is_notable name =
     (let lower = map ascii_lower name
      in contains lower ''error'' \<or> contains lower ''fail'' \<or> contains lower ''duration'' \<or> contains lower ''latency'')"

definition metric_item :: "'i rodeo_ops \<Rightarrow> 'i metric_store \<Rightarrow> spur \<Rightarrow> u64 \<Rightarrow> json option" where
  "metric_item R s name_key sid =
     (case hm_get (mt_series s) sid of
        None \<Rightarrow> None
      | Some se \<Rightarrow>
          (case find (\<lambda>p. fst p = name_key) (ms_labels se) of
             None \<Rightarrow> None
           | Some p \<Rightarrow>
               if \<not> is_notable (rd_resolve R (mt_interner s) (snd p)) \<or> ms_samples se = [] then None
               else Some (json_map
                 [(''name'', JString (rd_resolve R (mt_interner s) (snd p))),
                  (''type'', json_option (JString \<circ> metric_type_as_str) (get_metric_type s (snd p))),
                  (''timestampMs'', JString (int_to_string (sm_timestamp_ms (last (ms_samples se))))),
                  (''value'', json_f64 (sm_value (last (ms_samples se)))),
                  (''labels'', pairs_json (resolve_labels R (mt_interner s)
                     (filter (\<lambda>p. fst p \<noteq> name_key) (ms_labels se))))])))"

text \<open>The items are ordered by the text of their times, not by the times.\<close>

definition newest_metrics :: "json list \<Rightarrow> json list" where
  "newest_metrics items = take max_metric_items (sort_by_key_desc (str_member ''0'' ''timestampMs'') items)"

definition summarize_metrics :: "'i rodeo_ops \<Rightarrow> 'i metric_store \<Rightarrow> string \<Rightarrow> json list" where
  "summarize_metrics R s service =
     (let get = rd_get R (mt_interner s)
      in case (get ''service'', get service, get ''__name__'') of
           (Some k, Some v, Some n) \<Rightarrow>
             newest_metrics (List.map_filter (metric_item R s n) (ids_of_pair (mt_label_index s) (k, v)))
         | _ \<Rightarrow> [])"

section \<open>Traces\<close>

definition trace_failure :: "'i rodeo_ops \<Rightarrow> 'i trace_store \<Rightarrow> spur \<Rightarrow> trace_id \<Rightarrow> json option" where
  "trace_failure R s service t =
     (case get_trace s t of
        None \<Rightarrow> None
      | Some sps \<Rightarrow>
          (let failed = length (filter (\<lambda>sp. sp_service sp = service \<and> sp_status sp = Error) sps)
           in if failed = 0 then None
              else map_option (\<lambda>tr. json_map
                [(''traceID'', JString (hex_encode t)), (''rootSpanName'', JString (tr_root_span tr)),
                 (''durationMs'', json_f64 (ns_to_ms (tr_duration_ns tr))),
                 (''errorSpanCount'', JInt (int failed))]) (trace_result_of R s t)))"

definition summarize_traces :: "'i rodeo_ops \<Rightarrow> 'i trace_store \<Rightarrow> string \<Rightarrow> json list" where
  "summarize_traces R s service =
     (case rd_get R (ts_interner s) service of
        None \<Rightarrow> []
      | Some k \<Rightarrow>
          (case hm_get (ts_service_index s) k of
             None \<Rightarrow> []
           | Some ts \<Rightarrow> take max_trace_items
               (sort_by_member_desc ''durationMs'' (List.map_filter (trace_failure R s k) ts))))"

section \<open>The endpoint\<close>

definition api_summary :: "'i rodeo_ops \<Rightarrow> 'r regex_ops \<Rightarrow> int \<Rightarrow> 'i app_state \<Rightarrow> string option \<Rightarrow> panic + response" where
  "api_summary R X clock a service =
     (case service of
        None \<Rightarrow> Inr missing_service
      | Some s \<Rightarrow>
          if s = [] then Inr missing_service
          else (let now = api_now_ns clock
                in map_sum id (\<lambda>logs. (status_ok, api_success (json_map
                     [(''service'', JString s), (''logs'', JArray logs),
                      (''metrics'', JArray (summarize_metrics R (ap_metric a) s)),
                      (''traces'', JArray (summarize_traces R (ap_trace a) s))])))
                   (summarize_logs R X (ap_log a) s (i64_saturating_sub now summary_hour_ns) now)))"

end
