(* ===== verification/Api_Diagnose.thy ===== *)
theory Api_Diagnose
  imports Api_Summary
begin

text \<open>
  The health assessment, \<open>src/api/diagnose.rs\<close>: a score from the rate of error logs, the share of
  failed spans and the 99th percentile of the trace durations; for one service with its details, or
  for all services, the worst first.
\<close>

definition five_min_ns :: i64 where "five_min_ns = 5 * 60 * 1000000000"

definition f64_lit :: "nat \<Rightarrow> int \<Rightarrow> f64" where "f64_lit m e = f64_of_decimal False (m, e)"

text \<open>\<open>f64::clamp\<close>; a NaN stays.\<close>

definition f64_clamp :: "f64 \<Rightarrow> f64 \<Rightarrow> f64 \<Rightarrow> f64" where
  "f64_clamp lo hi x = (if f64_lt x lo then lo else if f64_lt hi x then hi else x)"

text \<open>A count of entries in a window over some streams.\<close>

definition count_entries :: "'i log_store \<Rightarrow> u64 list \<Rightarrow> i64 \<Rightarrow> i64 \<Rightarrow> panic + usize" where
  "count_entries s sids start_ns end_ns =
     map_sum id length (collect_streams (\<lambda>sid. get_entries s sid start_ns end_ns) sids)"

definition ratio :: "nat \<Rightarrow> nat \<Rightarrow> f64" where
  "ratio part whole = (if 0 < whole then f64_div (f64_of_nat part) (f64_of_nat whole) else f64_zero)"

definition percent :: "nat \<Rightarrow> nat \<Rightarrow> f64" where
  "percent part whole =
     (if 0 < whole then f64_mul (f64_div (f64_of_nat part) (f64_of_nat whole)) (f64_of_nat 100) else f64_zero)"

text \<open>The share of error entries among the entries of the last hour, in percent.\<close>

definition error_rate_pct ::
  "'i rodeo_ops \<Rightarrow> 'r regex_ops \<Rightarrow> 'i log_store \<Rightarrow> string \<Rightarrow> i64 \<Rightarrow> i64 \<Rightarrow> panic + f64" where
  "error_rate_pct R X s service start_ns end_ns =
     (case count_entries s (query_streams R X s [service_matcher service]) start_ns end_ns of
        Inl p \<Rightarrow> Inl p
      | Inr entries \<Rightarrow> map_sum id (\<lambda>errors. percent errors entries)
          (count_entries s (query_streams R X s (error_matchers service)) start_ns end_ns))"

definition service_spans :: "'i rodeo_ops \<Rightarrow> 'i trace_store \<Rightarrow> string \<Rightarrow> span list" where
  "service_spans R s service =
     concat (map (\<lambda>t. case get_trace s t of None \<Rightarrow> [] | Some sps \<Rightarrow> sps) (traces_for_service R s service))"

definition span_error_ratio :: "'i rodeo_ops \<Rightarrow> 'i trace_store \<Rightarrow> string \<Rightarrow> f64" where
  "span_error_ratio R s service =
     ratio (length (filter (\<lambda>sp. sp_status sp = Error) (service_spans R s service)))
       (length (service_spans R s service))"

section \<open>Scores\<close>

definition deduct_rates :: "f64 \<Rightarrow> f64 \<Rightarrow> f64" where
  "deduct_rates rate spans =
     f64_sub (f64_sub (f64_of_nat 100) (f64_min rate (f64_of_nat 40)))
       (f64_min (f64_mul spans (f64_of_nat 30)) (f64_of_nat 30))"

definition clamp_score :: "f64 \<Rightarrow> f64" where
  "clamp_score x = f64_clamp f64_zero (f64_of_nat 100) x"

definition top_issue :: "(nat \<Rightarrow> f64 \<Rightarrow> string) \<Rightarrow> f64 \<Rightarrow> f64 \<Rightarrow> string" where
  "top_issue fixed rate spans =
     (let span_text = ''Span error ratio: '' @ fixed 1 (f64_mul spans (f64_of_nat 100)) @ ''%''
      in if f64_lt (f64_of_nat 10) rate then ''High log error rate: '' @ fixed 1 rate @ ''%''
         else if f64_lt (f64_lit 1 (- 1)) spans then span_text
         else if f64_lt f64_zero rate then ''Log error rate: '' @ fixed 1 rate @ ''%''
         else if f64_lt f64_zero spans then span_text
         else ''No issues detected'')"

definition compute_service_health ::
  "'i rodeo_ops \<Rightarrow> 'r regex_ops \<Rightarrow> (nat \<Rightarrow> f64 \<Rightarrow> string) \<Rightarrow> int \<Rightarrow> 'i app_state \<Rightarrow> string \<Rightarrow> panic + f64 \<times> string" where
  "compute_service_health R X fixed clock a service =
     (let now = api_now_ns clock;
          spans = span_error_ratio R (ap_trace a) service
      in map_sum id (\<lambda>rate. (clamp_score (deduct_rates rate spans), top_issue fixed rate spans))
           (error_rate_pct R X (ap_log a) service (i64_saturating_sub now summary_hour_ns) now))"

section \<open>All services\<close>

definition health_json :: "string \<Rightarrow> f64 \<times> string \<Rightarrow> json" where
  "health_json service h = json_map [(''service'', JString service), (''health_score'', json_f64 (fst h)),
     (''top_issue'', JString (snd h))]"

definition worst_first :: "json list \<Rightarrow> json list" where
  "worst_first entries = sort_key (\<lambda>v. f64_units (float_member (f64_of_nat 100) ''health_score'' v)) entries"

definition diagnose_global ::
  "'i rodeo_ops \<Rightarrow> 'r regex_ops \<Rightarrow> (nat \<Rightarrow> f64 \<Rightarrow> string) \<Rightarrow> int \<Rightarrow> 'i app_state \<Rightarrow> panic + json" where
  "diagnose_global R X fixed clock a =
     map_sum id (\<lambda>entries. json_map [(''services'', JArray (worst_first entries))])
       (collect_streams (\<lambda>name. map_sum id (\<lambda>h. [health_json name h]) (compute_service_health R X fixed clock a name))
         (collect_all_services R a))"

section \<open>One service\<close>

definition trend_direction :: "nat \<Rightarrow> nat \<Rightarrow> string" where
  "trend_direction current previous =
     (if previous < current then ''increasing'' else if current < previous then ''decreasing'' else ''stable'')"

definition error_trend :: "'i log_store \<Rightarrow> u64 list \<Rightarrow> i64 \<Rightarrow> panic + nat \<times> nat" where
  "error_trend s sids now =
     (case count_entries s sids (i64_saturating_sub now five_min_ns) now of
        Inl p \<Rightarrow> Inl p
      | Inr current \<Rightarrow> map_sum id (Pair current)
          (count_entries s sids (i64_saturating_sub now (2 * five_min_ns)) (i64_saturating_sub now five_min_ns)))"

definition recent_errors :: "'i rodeo_ops \<Rightarrow> 'i log_store \<Rightarrow> u64 list \<Rightarrow> i64 \<Rightarrow> i64 \<Rightarrow> panic + json list" where
  "recent_errors R s sids start_ns end_ns =
     map_sum id (newest_items 10) (collect_streams (stream_items R s start_ns end_ns) sids)"

definition service_results :: "'i rodeo_ops \<Rightarrow> 'i trace_store \<Rightarrow> string \<Rightarrow> (trace_id \<times> trace_result) list" where
  "service_results R s service =
     List.map_filter (\<lambda>t. map_option (Pair t) (trace_result_of R s t)) (traces_for_service R s service)"

definition slow_trace_json :: "trace_id \<times> trace_result \<Rightarrow> json" where
  "slow_trace_json p = (case p of (t, tr) \<Rightarrow> json_map
     [(''traceID'', JString (hex_encode t)), (''rootSpanName'', JString (tr_root_span tr)),
      (''durationMs'', json_f64 (ns_to_ms (tr_duration_ns tr))), (''spanCount'', JInt (int (tr_span_count tr)))])"

definition slowest_traces :: "(trace_id \<times> trace_result) list \<Rightarrow> json list" where
  "slowest_traces results = take 5 (sort_by_member_desc ''durationMs'' (map slow_trace_json results))"

text \<open>The index of the 99th percentile; an index before the first would wrap and panic.\<close>

definition latency_p99_ms :: "i64 list \<Rightarrow> panic + f64" where
  "latency_p99_ms durations =
     (if durations = [] then Inr f64_zero
      else let n = length durations;
               k = min (f64_to_usize (f64_ceil (f64_mul (f64_of_nat n) (f64_lit 99 (- 2))))) n
           in if k = 0 then Inl (IndexOutOfBounds u64_max n) else Inr (ns_to_ms (sort durations ! (k - 1))))"

definition deduct_latency :: "f64 \<Rightarrow> f64 \<Rightarrow> f64" where
  "deduct_latency score p99 =
     (if f64_lt (f64_of_nat 1000) p99
      then f64_sub score (f64_min (f64_mul (f64_div (f64_sub p99 (f64_of_nat 1000)) (f64_of_nat 1000)) (f64_of_nat 10))
             (f64_of_nat 20))
      else score)"

definition key_metric :: "'i rodeo_ops \<Rightarrow> 'i metric_store \<Rightarrow> u64 \<Rightarrow> json option" where
  "key_metric R s sid =
     (case hm_get (mt_series s) sid of
        None \<Rightarrow> None
      | Some se \<Rightarrow>
          (case Option.bind (rd_get R (mt_interner s) ''__name__'') (\<lambda>nk. find (\<lambda>p. fst p = nk) (ms_labels se)) of
             None \<Rightarrow> None
           | Some p \<Rightarrow> Some (json_map
               [(''name'', JString (rd_resolve R (mt_interner s) (snd p))),
                (''type'', json_option (JString \<circ> metric_type_as_str) (get_metric_type s (snd p))),
                (''labels'', json_map (map (\<lambda>(k, v). (k, JString v))
                   (filter (\<lambda>(k, v). k \<noteq> ''__name__'') (resolve_labels R (mt_interner s) (ms_labels se))))),
                (''sparkline'', JArray (map (json_f64 \<circ> sm_value)
                   (rev (take 10 (rev (ms_samples se))))))])))"

definition key_metrics :: "'i rodeo_ops \<Rightarrow> 'r regex_ops \<Rightarrow> 'i metric_store \<Rightarrow> string \<Rightarrow> json list" where
  "key_metrics R X s service =
     List.map_filter (key_metric R s) (select_series R X s [service_matcher service])"

definition suggestion :: "string \<Rightarrow> string \<Rightarrow> string \<Rightarrow> json" where
  "suggestion kind query reason =
     json_map [(''type'', JString kind), (''query'', JString query), (''reason'', JString reason)]"

definition quoted :: "string \<Rightarrow> string" where "quoted s = [CHR 0x22] @ s @ [CHR 0x22]"

definition suggested_queries :: "string \<Rightarrow> bool \<Rightarrow> f64 \<Rightarrow> f64 \<Rightarrow> json list" where
  "suggested_queries service any_errors spans p99 =
     (let of_service = ''{ resource.service.name = '' @ quoted service;
          found =
            (if any_errors then [suggestion ''logql'' (''{service='' @ quoted service @ '', level='' @ quoted ''error'' @ ''}'')
               ''Recent error logs detected''] else []) @
            (if f64_lt f64_zero spans then [suggestion ''traceql'' (of_service @ '' && status = error }'')
               ''Span errors detected''] else []) @
            (if f64_lt (f64_of_nat 1000) p99 then [suggestion ''traceql'' (of_service @ '' && duration > 1s }'')
               ''High latency traces detected''] else [])
      in if found = [] then [suggestion ''logql'' (''{service='' @ quoted service @ ''}'') ''General service log overview'']
         else found)"

definition diagnose_service ::
  "'i rodeo_ops \<Rightarrow> 'r regex_ops \<Rightarrow> int \<Rightarrow> 'i app_state \<Rightarrow> string \<Rightarrow> panic + json" where
  "diagnose_service R X clock a service =
     (let now = api_now_ns clock;
          start = i64_saturating_sub now summary_hour_ns;
          error_ids = query_streams R X (ap_log a) (error_matchers service);
          spans = span_error_ratio R (ap_trace a) service;
          results = service_results R (ap_trace a) service
      in case error_rate_pct R X (ap_log a) service start now of
           Inl p \<Rightarrow> Inl p
         | Inr rate \<Rightarrow>
             (case recent_errors R (ap_log a) error_ids start now of
                Inl p \<Rightarrow> Inl p
              | Inr errors \<Rightarrow>
                  (case error_trend (ap_log a) error_ids now of
                     Inl p \<Rightarrow> Inl p
                   | Inr (current, previous) \<Rightarrow>
                       map_sum id (\<lambda>p99. json_map
                         [(''service'', JString service),
                          (''health_score'', json_f64 (clamp_score (deduct_latency (deduct_rates rate spans) p99))),
                          (''health_factors'', json_map [(''error_rate_pct'', json_f64 rate),
                             (''latency_p99_ms'', json_f64 p99), (''span_error_ratio'', json_f64 spans)]),
                          (''slowest_traces'', JArray (slowest_traces results)),
                          (''error_trend'', JArray [json_map [(''current_5m'', JInt (int current)),
                             (''previous_5m'', JInt (int previous)),
                             (''direction'', JString (trend_direction current previous))]]),
                          (''recent_errors'', JArray errors),
                          (''key_metrics'', JArray (key_metrics R X (ap_metric a) service)),
                          (''suggested_queries'', JArray (suggested_queries service (errors \<noteq> []) spans p99))])
                       (latency_p99_ms (map (tr_duration_ns \<circ> snd) results)))))"

definition diagnose ::
  "'i rodeo_ops \<Rightarrow> 'r regex_ops \<Rightarrow> (nat \<Rightarrow> f64 \<Rightarrow> string) \<Rightarrow> int \<Rightarrow> 'i app_state \<Rightarrow> string option \<Rightarrow> panic + json" where
  "diagnose R X fixed clock a service =
     (case service of
        None \<Rightarrow> diagnose_global R X fixed clock a
      | Some s \<Rightarrow> if s = [] then diagnose_global R X fixed clock a else diagnose_service R X clock a s)"

end
