(* ===== verification/Mcp_Synth.thy ===== *)
theory Mcp_Synth
  imports Api_Diagnose
begin

text \<open>
  The typed cores of the MCP tools, \<open>src/mcp/synth\<close>: the activity of one service since a checkpoint,
  the health of all services in one pass per store, the catalog of a service, and the summaries and
  the span tree of traces.
\<close>

definition default_top :: nat where "default_top = 20"
definition detailed_top :: nat where "detailed_top = 100"
definition max_label_values :: nat where "max_label_values = 50"

record trace_item =
  ti_trace_id :: string
  ti_root_span :: string
  ti_duration_ms :: f64
  ti_errors :: usize

record service_health =
  sh_service :: string
  sh_score :: f64
  sh_issue :: string

text \<open>What is left open: interner, regular expressions, \<open>{:.n}\<close>, and the outcome of an unordered sort.\<close>

record ('i, 'r) synth_env =
  sy_rodeo :: "'i rodeo_ops"
  sy_regex :: "'r regex_ops"
  sy_fixed :: "nat \<Rightarrow> f64 \<Rightarrow> string"
  sy_fmt :: "f64 \<Rightarrow> string"
  sy_sort_traces :: "trace_item list \<Rightarrow> panic + trace_item list"
  sy_sort_services :: "service_health list \<Rightarrow> panic + service_health list"

section \<open>Activity of a service\<close>

record log_item =
  li_ts :: string
  li_line :: string

record metric_activity =
  ma_name :: string
  ma_value :: f64
  ma_labels :: "(string \<times> string) list"

record service_activity =
  sa_service :: string
  sa_since :: "u64 option"
  sa_observed_through :: u64
  sa_health :: f64
  sa_summary :: string
  sa_error_count :: usize
  sa_log_total :: usize
  sa_logs :: "log_item list"
  sa_error_traces :: usize
  sa_trace_total :: usize
  sa_traces :: "trace_item list"
  sa_metrics :: "metric_activity list"
  sa_truncated :: "bool \<times> bool \<times> bool" \<comment> \<open>logs, traces, metrics\<close>

definition seq_keep :: "u64 option \<Rightarrow> u64 \<Rightarrow> bool" where
  "seq_keep since seq = (case since of None \<Rightarrow> True | Some s \<Rightarrow> s \<le> seq)"

definition kept_entries ::
  "('i, 'r) synth_env \<Rightarrow> 'i log_store \<Rightarrow> label_matcher list \<Rightarrow> u64 option \<Rightarrow> panic + log_entry list" where
  "kept_entries E s ms since =
     map_sum id (filter (\<lambda>e. seq_keep since (le_ingest_seq e)))
       (collect_streams (\<lambda>sid. get_entries s sid i64_min i64_max) (query_streams (sy_rodeo E) (sy_regex E) s ms))"

definition activity_log_item :: "log_entry \<Rightarrow> log_item" where
  "activity_log_item e = \<lparr>li_ts = int_to_string (i64_div (le_timestamp_ns e) 1000000), li_line = le_line e\<rparr>"

text \<open>The traces of a service with a span in the window: the spans there and the failed ones.\<close>

definition window_traces ::
  "('i, 'r) synth_env \<Rightarrow> 'i trace_store \<Rightarrow> string \<Rightarrow> u64 option \<Rightarrow> (trace_id \<times> nat \<times> nat) list" where
  "window_traces E s service since =
     List.map_filter (\<lambda>t.
         case get_trace s t of
           None \<Rightarrow> None
         | Some sps \<Rightarrow>
             (let inside = filter (\<lambda>sp. seq_keep since (sp_ingest_seq sp)) sps
              in if inside = [] then None
                 else Some (t, length inside, length (filter (\<lambda>sp. sp_status sp = Error) inside))))
       (traces_for_service (sy_rodeo E) s service)"

definition notable_trace :: "('i, 'r) synth_env \<Rightarrow> 'i trace_store \<Rightarrow> trace_id \<times> nat \<times> nat \<Rightarrow> trace_item option" where
  "notable_trace E s w =
     (case w of (t, n, errs) \<Rightarrow>
        if errs = 0 then None
        else map_option (\<lambda>tr. \<lparr>ti_trace_id = hex_encode t, ti_root_span = tr_root_span tr,
               ti_duration_ms = ns_to_ms (tr_duration_ns tr), ti_errors = errs\<rparr>)
             (trace_result_of (sy_rodeo E) s t))"

definition activity_metric ::
  "('i, 'r) synth_env \<Rightarrow> 'i metric_store \<Rightarrow> u64 option \<Rightarrow> u64 \<Rightarrow> metric_activity option" where
  "activity_metric E s since sid =
     (let res = rd_resolve (sy_rodeo E) (mt_interner s); nk = rd_get (sy_rodeo E) (mt_interner s) ''__name__''
      in case hm_get (mt_series s) sid of
           None \<Rightarrow> None
         | Some se \<Rightarrow>
             (case Option.bind nk (\<lambda>k. find (\<lambda>p. fst p = k) (ms_labels se)) of
                None \<Rightarrow> None
              | Some p \<Rightarrow>
                  if \<not> is_notable (res (snd p)) then None
                  else map_option (\<lambda>sm. \<lparr>ma_name = res (snd p), ma_value = sm_value sm,
                         ma_labels = resolve_labels (sy_rodeo E) (mt_interner s)
                           (filter (\<lambda>p. Some (fst p) \<noteq> nk) (ms_labels se))\<rparr>)
                       (find (\<lambda>sm. seq_keep since (sm_ingest_seq sm)) (rev (ms_samples se)))))"

definition activity_health :: "f64 \<Rightarrow> nat \<Rightarrow> f64" where
  "activity_health spans errors =
     (let health = f64_sub (f64_of_nat 100) (f64_min (f64_mul spans (f64_of_nat 30)) (f64_of_nat 30));
          health = (if 0 < errors then f64_sub health (f64_min (f64_of_nat errors) (f64_of_nat 40)) else health)
      in f64_clamp f64_zero (f64_of_nat 100) health)"

definition summarize_activity ::
  "('i, 'r) synth_env \<Rightarrow> 'i app_state \<Rightarrow> string \<Rightarrow> u64 option \<Rightarrow> bool \<Rightarrow> panic + service_activity" where
  "summarize_activity E a service since detailed =
     (let top_n = (if detailed then detailed_top else default_top);
          ws = window_traces E (ap_trace a) service since;
          notable = List.map_filter (notable_trace E (ap_trace a)) ws;
          spans = ratio (sum_list (map (snd \<circ> snd) ws)) (sum_list (map (fst \<circ> snd) ws));
          metrics = List.map_filter (activity_metric E (ap_metric a) since)
            (select_series (sy_rodeo E) (sy_regex E) (ap_metric a) [service_matcher service])
      in case kept_entries E (ap_log a) [service_matcher service] since of
           Inl p \<Rightarrow> Inl p
         | Inr all_entries \<Rightarrow>
             (case kept_entries E (ap_log a) (error_matchers service) since of
                Inl p \<Rightarrow> Inl p
              | Inr errors \<Rightarrow>
                  map_sum id (\<lambda>slowest.
                    (let health = activity_health spans (length errors)
                     in \<lparr>sa_service = service, sa_since = since, sa_observed_through = ap_seq a, sa_health = health,
                          sa_summary = nat_to_string (length errors) @ '' error log(s), '' @
                            nat_to_string (length slowest) @ '' failing trace(s), health '' @ sy_fixed E 0 health,
                          sa_error_count = length errors, sa_log_total = length all_entries,
                          sa_logs = map activity_log_item (take top_n (sort_by_key_desc le_timestamp_ns errors)),
                          sa_error_traces = length slowest, sa_trace_total = length ws,
                          sa_traces = take top_n slowest, sa_metrics = take top_n metrics,
                          sa_truncated = (top_n < length errors, top_n < length slowest, top_n < length metrics)\<rparr>))
                    (partial_sort (sy_sort_traces E) ti_duration_ms True notable)))"

section \<open>Health of all services\<close>

definition stream_service :: "spur \<Rightarrow> log_stream \<Rightarrow> spur option" where
  "stream_service k st = map_option snd (find (\<lambda>p. fst p = k) (ls_labels st))"

definition is_error_stream :: "spur option \<Rightarrow> spur option \<Rightarrow> log_stream \<Rightarrow> bool" where
  "is_error_stream level_key error_val st =
     (case level_key of
        None \<Rightarrow> False
      | Some lk \<Rightarrow> list_ex (\<lambda>(k, v). k = lk \<and> Some v = error_val) (ls_labels st))"

text \<open>The error entries of each service, by its name.\<close>

definition log_errors :: "('i, 'r) synth_env \<Rightarrow> 'i log_store \<Rightarrow> (string, nat) hash_map" where
  "log_errors E s =
     (let get = rd_get (sy_rodeo E) (lg_interner s)
      in case get ''service'' of
           None \<Rightarrow> []
         | Some k \<Rightarrow>
             fold (\<lambda>st m.
                 case stream_service k st of
                   None \<Rightarrow> m
                 | Some v \<Rightarrow>
                     if is_error_stream (get ''level'') (get ''error'') st
                     then hm_upsert 0 (rd_resolve (sy_rodeo E) (lg_interner s) v) (\<lambda>n. n + length (ls_entries st)) m
                     else m)
               (hm_values (lg_streams s)) [])"

type_synonym trace_stats = "nat \<times> nat \<times> nat" \<comment> \<open>spans, failed spans, failing traces\<close>

definition add_trace_stats :: "span list \<Rightarrow> trace_stats \<Rightarrow> trace_stats" where
  "add_trace_stats sps st =
     (case st of (spans, failed, traces) \<Rightarrow>
        (let errs = length (filter (\<lambda>sp. sp_status sp = Error) sps)
         in (spans + length sps, failed + errs, if 0 < errs then traces + 1 else traces)))"

definition span_services :: "span list \<Rightarrow> spur hash_set" where
  "span_services sps = fold (\<lambda>sp. hs_insert (sp_service sp)) sps []"

definition service_trace_stats :: "('i, 'r) synth_env \<Rightarrow> 'i trace_store \<Rightarrow> (string, trace_stats) hash_map" where
  "service_trace_stats E s =
     fold (\<lambda>sps m. fold (\<lambda>k. hm_upsert (0, 0, 0) (rd_resolve (sy_rodeo E) (ts_interner s) k) (add_trace_stats sps))
                     (span_services sps) m)
       (hm_values (ts_traces s)) []"

definition overview_health :: "f64 \<Rightarrow> nat \<Rightarrow> f64" where
  "overview_health spans errors =
     (let health = f64_sub (f64_of_nat 100) (f64_min (f64_mul spans (f64_of_nat 30)) (f64_of_nat 30));
          health = (if 0 < errors then f64_sub health (f64_min (f64_of_nat errors) (f64_of_nat 40)) else health)
      in f64_clamp f64_zero (f64_of_nat 100) health)"

definition overview_names :: "('i, 'r) synth_env \<Rightarrow> 'i app_state \<Rightarrow> string hash_set" where
  "overview_names E a =
     fold hs_insert (metric_label_values (sy_rodeo E) (ap_metric a) ''service'')
       (fold hs_insert (trace_service_names (sy_rodeo E) (ap_trace a))
         (fold hs_insert (log_label_values (sy_rodeo E) (ap_log a) ''service'') []))"

definition overview_entry :: "(string, nat) hash_map \<Rightarrow> (string, trace_stats) hash_map \<Rightarrow> string \<Rightarrow> service_health" where
  "overview_entry errs stats name =
     (let errors = (case hm_get errs name of None \<Rightarrow> 0 | Some n \<Rightarrow> n);
          (spans, failed, traces) = (case hm_get stats name of None \<Rightarrow> (0, 0, 0) | Some st \<Rightarrow> st)
      in \<lparr>sh_service = name, sh_score = overview_health (ratio failed spans) errors,
          sh_issue = (if 0 < errors then nat_to_string errors @ '' error log(s)''
                      else if 0 < traces then nat_to_string traces @ '' failing trace(s)''
                      else ''No issues detected'')\<rparr>)"

definition check_health :: "('i, 'r) synth_env \<Rightarrow> 'i app_state \<Rightarrow> panic + service_health list" where
  "check_health E a =
     partial_sort (sy_sort_services E) sh_score False
       (map (overview_entry (log_errors E (ap_log a)) (service_trace_stats E (ap_trace a))) (overview_names E a))"

end
