(* ===== verification/Mcp_Trees.thy ===== *)
theory Mcp_Trees
  imports Mcp_Synth
begin

text \<open>
  More cores of the MCP tools: the catalog of a service (\<open>src/mcp/synth/catalog.rs\<close>), and the
  summaries and the span tree of traces (\<open>src/mcp/synth/trace.rs\<close>).
\<close>

section \<open>Catalog of a service\<close>

record metric_info =
  mi_name :: string
  mi_type :: "string option"
  mi_help :: "string option"
  mi_unit :: "string option"

record label_info =
  lb_key :: string
  lb_values :: "string list"
  lb_truncated :: bool

record service_catalog =
  sc_service :: string
  sc_metrics :: "metric_info list"
  sc_log_labels :: "label_info list"
  sc_span_attributes :: "string list"

definition metric_info_of :: "'i rodeo_ops \<Rightarrow> 'i metric_store \<Rightarrow> spur \<Rightarrow> metric_info" where
  "metric_info_of R s n =
     (let md = hm_get (mt_metadata s) n
      in \<lparr>mi_name = rd_resolve R (mt_interner s) n,
          mi_type = map_option metric_type_as_str (Option.bind md md_type),
          mi_help = Option.bind md md_help, mi_unit = Option.bind md md_unit\<rparr>)"

text \<open>The names of the service's series, each once, told apart by their text.\<close>

definition add_metric_info :: "'i rodeo_ops \<Rightarrow> 'i metric_store \<Rightarrow> spur \<Rightarrow> string hash_set \<times> metric_info list \<Rightarrow>
    string hash_set \<times> metric_info list" where
  "add_metric_info R s n st =
     (case st of (seen, infos) \<Rightarrow>
        (let name = rd_resolve R (mt_interner s) n
         in if name \<in> set seen then st else (hs_insert name seen, infos @ [metric_info_of R s n])))"

definition describe_metrics :: "('i, 'r) synth_env \<Rightarrow> 'i metric_store \<Rightarrow> string \<Rightarrow> metric_info list" where
  "describe_metrics E s service =
     (let R = sy_rodeo E;
          names = List.map_filter (\<lambda>sid. Option.bind (hm_get (mt_series s) sid) (\<lambda>se.
              Option.bind (rd_get R (mt_interner s) ''__name__'') (\<lambda>nk.
                map_option snd (find (\<lambda>p. fst p = nk) (ms_labels se)))))
            (select_series R (sy_regex E) s [service_matcher service])
      in sort_key mi_name (snd (fold (add_metric_info R s) names ([], []))))"

definition add_label_values :: "(string \<times> string) list \<Rightarrow> (string, string hash_set) hash_map \<Rightarrow> (string, string hash_set) hash_map" where
  "add_label_values labels m = fold (\<lambda>(k, v). hm_upsert [] k (hs_insert v)) labels m"

definition label_info_of :: "string \<Rightarrow> string hash_set \<Rightarrow> label_info" where
  "label_info_of k vs = \<lparr>lb_key = k, lb_values = take max_label_values (sort vs),
     lb_truncated = (max_label_values < length vs)\<rparr>"

text \<open>A \<open>BTreeMap\<close> from label key to the set of its values.\<close>

definition describe_log_labels :: "('i, 'r) synth_env \<Rightarrow> 'i log_store \<Rightarrow> string \<Rightarrow> label_info list" where
  "describe_log_labels E s service =
     (let by_key = fold add_label_values
            (List.map_filter (get_stream_labels (sy_rodeo E) s)
              (query_streams (sy_rodeo E) (sy_regex E) s [service_matcher service])) []
      in map (\<lambda>k. label_info_of k (the (hm_get by_key k))) (sort (hm_keys by_key)))"

definition describe_span_attributes :: "('i, 'r) synth_env \<Rightarrow> 'i trace_store \<Rightarrow> string \<Rightarrow> string list" where
  "describe_span_attributes E s service =
     (let R = sy_rodeo E
      in case rd_get R (ts_interner s) service of
           None \<Rightarrow> []
         | Some k \<Rightarrow>
             (case hm_get (ts_service_index s) k of
                None \<Rightarrow> []
              | Some ts \<Rightarrow>
                  sort (fold hs_insert
                    (concat (map (\<lambda>t. case hm_get (ts_traces s) t of None \<Rightarrow> []
                       | Some sps \<Rightarrow> concat (map (\<lambda>sp. map (rd_resolve R (ts_interner s) \<circ> fst) (sp_attributes sp))
                           (filter (\<lambda>sp. sp_service sp = k) sps))) ts)) [])))"

definition describe_service :: "('i, 'r) synth_env \<Rightarrow> 'i app_state \<Rightarrow> string \<Rightarrow> service_catalog" where
  "describe_service E a service = \<lparr>sc_service = service,
     sc_metrics = describe_metrics E (ap_metric a) service,
     sc_log_labels = describe_log_labels E (ap_log a) service,
     sc_span_attributes = describe_span_attributes E (ap_trace a) service\<rparr>"

section \<open>Summaries of traces\<close>

definition trace_item_of :: "('i, 'r) synth_env \<Rightarrow> 'i trace_store \<Rightarrow> trace_id \<Rightarrow> trace_item option" where
  "trace_item_of E s t =
     (case get_trace s t of
        None \<Rightarrow> None
      | Some sps \<Rightarrow>
          map_option (\<lambda>tr. \<lparr>ti_trace_id = hex_encode t, ti_root_span = tr_root_span tr,
              ti_duration_ms = ns_to_ms (tr_duration_ns tr),
              ti_errors = length (filter (\<lambda>sp. sp_status sp = Error) sps)\<rparr>)
            (trace_result_of (sy_rodeo E) s t))"

definition trace_items :: "('i, 'r) synth_env \<Rightarrow> 'i trace_store \<Rightarrow> trace_id list \<Rightarrow> trace_item list" where
  "trace_items E s ts = List.map_filter (trace_item_of E s) ts"

section \<open>The span tree\<close>

record span_info =
  si_span_id :: string
  si_name :: string
  si_service :: string
  si_start_ns :: i64
  si_duration_ms :: f64
  si_status :: string
  si_status_message :: "string option"
  si_attributes :: "(string \<times> string) list"

datatype span_node = SpanNode (node_info: span_info) (node_children: "span_node list")

definition max_depth :: nat where "max_depth = 128"

definition status_name :: "span_status \<Rightarrow> string" where
  "status_name st = (case st of Error \<Rightarrow> ''error'' | Ok \<Rightarrow> ''ok'' | Unset \<Rightarrow> ''unset'')"

definition span_info_of :: "('i, 'r) synth_env \<Rightarrow> 'i \<Rightarrow> bool \<Rightarrow> span \<Rightarrow> span_info" where
  "span_info_of E i detailed sp = \<lparr>si_span_id = hex_encode (sp_span_id sp),
     si_name = rd_resolve (sy_rodeo E) i (sp_name sp), si_service = rd_resolve (sy_rodeo E) i (sp_service sp),
     si_start_ns = sp_start_ns sp, si_duration_ms = ns_to_ms (sp_duration_ns sp),
     si_status = status_name (sp_status sp),
     si_status_message = map_option (rd_resolve (sy_rodeo E) i) (sp_status_message sp),
     si_attributes = (if detailed then map (\<lambda>(k, v). (rd_resolve (sy_rodeo E) i k,
         resolve_attribute_value (sy_rodeo E) (sy_fmt E) i v)) (sp_attributes sp) else [])\<rparr>"

text \<open>Each span goes to its parent if that is present, by index, else to the roots.\<close>

type_synonym span_links = "(span_id, nat list) hash_map \<times> nat list"

definition link_span :: "span_id hash_set \<Rightarrow> nat \<times> span \<Rightarrow> span_links \<Rightarrow> span_links" where
  "link_span present p links =
     (case (p, links) of ((idx, sp), (children_of, roots)) \<Rightarrow>
        (case sp_parent sp of
           None \<Rightarrow> (children_of, roots @ [idx])
         | Some parent \<Rightarrow>
             if parent \<in> set present then (hm_upsert [] parent (\<lambda>kids. kids @ [idx]) children_of, roots)
             else (children_of, roots @ [idx])))"

definition link_spans :: "span list \<Rightarrow> span_links" where
  "link_spans sps =
     (let present = fold (\<lambda>sp. hs_insert (sp_span_id sp)) sps []
      in fold (link_span present) (enumerate 0 sps) ([], []))"

text \<open>
  \<open>node\<close>: the first argument is the number of levels still allowed below this one; a span at depth
  \<open>max_depth - 1\<close> gets no children.
\<close>

fun build_node :: "nat \<Rightarrow> (span \<Rightarrow> span_info) \<Rightarrow> span list \<Rightarrow> (span_id, nat list) hash_map \<Rightarrow> nat \<Rightarrow> span_node" where
  "build_node 0 info sps children_of idx = SpanNode (info (sps ! idx)) []"
| "build_node (Suc below) info sps children_of idx =
     SpanNode (info (sps ! idx))
       (sort_key (si_start_ns \<circ> node_info)
         (map (build_node below info sps children_of)
           (case hm_get children_of (sp_span_id (sps ! idx)) of None \<Rightarrow> [] | Some kids \<Rightarrow> kids)))"

definition span_forest :: "(span \<Rightarrow> span_info) \<Rightarrow> span list \<Rightarrow> span_node list" where
  "span_forest info sps =
     (case link_spans sps of (children_of, roots) \<Rightarrow>
        sort_key (si_start_ns \<circ> node_info) (map (build_node (max_depth - 1) info sps children_of) roots))"

definition build_trace_tree ::
  "('i, 'r) synth_env \<Rightarrow> 'i trace_store \<Rightarrow> trace_id \<Rightarrow> bool \<Rightarrow> (string \<times> span_node list) option" where
  "build_trace_tree E s t detailed =
     map_option (\<lambda>sps. (hex_encode t, span_forest (span_info_of E (ts_interner s) detailed) sps)) (get_trace s t)"

end
