(* ===== verification/Api_Views_Correct.thy ===== *)
theory Api_Views_Correct
  imports Api_Views Log_Store_Correct Metric_Store_Correct Trace_Ingest_Correct
begin

text \<open>
  The services the endpoints know are those whose telemetry is stored: a stream or a series with their
  label, a trace with one of their spans.
\<close>

section \<open>Reading JSON objects\<close>

lemma json_get_map: "json_get k (json_map ms) = map_of (rev ms) k"
proof -
  have "map_of (map (\<lambda>k. (k, f k)) ks) k = (if k \<in> set ks then Some (f k) else None)" for f :: "string \<Rightarrow> json" and ks
    by (induction ks) auto
  moreover have "k \<in> fst ` set ms \<longleftrightarrow> map_of (rev ms) k \<noteq> None"
    by (simp add: map_of_eq_None_iff)
  ultimately show ?thesis by (auto simp: json_get_def json_map_def)
qed

section \<open>Known services\<close>

definition serves :: "'i rodeo_ops \<Rightarrow> 'i trace_store \<Rightarrow> string \<Rightarrow> span list \<Rightarrow> bool" where
  "serves R s n sps \<longleftrightarrow> n \<in> (\<lambda>sp. rd_resolve R (ts_interner s) (sp_service sp)) ` set sps"

definition service_known :: "'i rodeo_ops \<Rightarrow> 'i app_state \<Rightarrow> string \<Rightarrow> string \<Rightarrow> bool" where
  "service_known R a signal n \<longleftrightarrow>
     (signal = ''logs'' \<and> (\<exists>x st. hm_get (lg_streams (ap_log a)) x = Some st \<and>
        (''service'', n) \<in> set (resolve_labels R (lg_interner (ap_log a)) (ls_labels st)))) \<or>
     (signal = ''metrics'' \<and> (\<exists>x se. hm_get (mt_series (ap_metric a)) x = Some se \<and>
        (''service'', n) \<in> set (resolve_labels R (mt_interner (ap_metric a)) (ms_labels se)))) \<or>
     (signal = ''traces'' \<and> (\<exists>t sps. hm_get (ts_traces (ap_trace a)) t = Some sps \<and> serves R (ap_trace a) n sps))"

definition any_signal :: "'i rodeo_ops \<Rightarrow> 'i app_state \<Rightarrow> string \<Rightarrow> bool" where
  "any_signal R a n \<longleftrightarrow> (\<exists>signal. service_known R a signal n)"

lemma trace_services_spec:
  assumes "rodeo_laws R" and "trace_wf R s"
  shows "n \<in> set (trace_service_names R s) \<longleftrightarrow> (\<exists>t sps. hm_get (ts_traces s) t = Some sps \<and> serves R s n sps)"
proof -
  let ?idx = "ts_service_index s"
  have exact: "idx_exact sp_service (ts_traces s) ?idx" and full: "idx_full ?idx"
    using trace_wfD(2,3) [OF assms(2)] by (simp_all add: keys_exact_def keys_full_def)
  have "k \<in> set (hm_keys ?idx) \<longleftrightarrow> (\<exists>t. t \<in> idx_set ?idx k)" for k
    using full unfolding hm_key_iff idx_full_def idx_set_def
    by (cases "hm_get ?idx k") (auto simp: ex_in_conv)
  then have "n \<in> set (trace_service_names R s) \<longleftrightarrow> (\<exists>k t. t \<in> idx_set ?idx k \<and> n = rd_resolve R (ts_interner s) k)"
    unfolding trace_service_names_def set_map [of "rd_resolve R (ts_interner s)" "hm_keys ?idx"] by blast
  then show ?thesis unfolding idx_exactD [OF exact] has_key_def serves_def by blast
qed

lemma names_known:
  assumes "rodeo_laws R" and "log_base R (ap_log a)" and "metric_base R (ap_metric a)" and "trace_wf R (ap_trace a)"
  shows "n \<in> set (log_label_values R (ap_log a) ''service'') \<longleftrightarrow> service_known R a ''logs'' n"
    and "n \<in> set (metric_label_values R (ap_metric a) ''service'') \<longleftrightarrow> service_known R a ''metrics'' n"
    and "n \<in> set (trace_service_names R (ap_trace a)) \<longleftrightarrow> service_known R a ''traces'' n"
  unfolding log_label_values_spec [OF assms(1,2)] metric_label_values_spec [OF assms(1,3)] trace_services_spec [OF assms(1,4)]
  by (simp_all add: service_known_def)

lemma known_signals: "service_known R a signal n \<Longrightarrow> signal \<in> {''logs'', ''metrics'', ''traces''}"
  unfolding service_known_def by blast

lemma any_signal_iff:
  "any_signal R a n \<longleftrightarrow> service_known R a ''logs'' n \<or> service_known R a ''metrics'' n \<or> service_known R a ''traces'' n"
  unfolding any_signal_def using known_signals by blast

lemma hs_insert_all: "distinct ys \<Longrightarrow> distinct (fold hs_insert xs ys) \<and> set (fold hs_insert xs ys) = set ys \<union> set xs"
  by (induction xs arbitrary: ys) auto

lemma all_services_known:
  assumes "rodeo_laws R" and "log_base R (ap_log a)" and "metric_base R (ap_metric a)" and "trace_wf R (ap_trace a)"
  shows "distinct (collect_all_services R a)" and "n \<in> set (collect_all_services R a) \<longleftrightarrow> any_signal R a n"
  using names_known [OF assms, of n] by (auto simp: collect_all_services_def hs_insert_all any_signal_iff)

section \<open>The list of services\<close>

lemma add_signal_get:
  "hm_get (add_signal sig names m) n =
     (if n \<in> set names then Some (hs_insert sig (case hm_get m n of None \<Rightarrow> [] | Some sigs \<Rightarrow> sigs)) else hm_get m n)"
  unfolding add_signal_def by (induction names arbitrary: m) (auto simp: hm_simps split: option.splits)

lemma add_signal_wf: "hm_wf m \<Longrightarrow> hm_wf (add_signal sig names m)"
  unfolding add_signal_def by (induction names arbitrary: m) (simp_all add: hm_simps)

definition signals_of :: "(string, string hash_set) hash_map \<Rightarrow> string \<Rightarrow> string list" where
  "signals_of m n = (case hm_get m n of None \<Rightarrow> [] | Some sigs \<Rightarrow> sigs)"

lemma add_signal_of:
  "set (signals_of (add_signal sig names m) n) = (if n \<in> set names then {sig} else {}) \<union> set (signals_of m n)"
  "distinct (signals_of m n) \<Longrightarrow> distinct (signals_of (add_signal sig names m) n)"
  by (auto simp: signals_of_def add_signal_get)

lemma service_signals_spec:
  assumes "rodeo_laws R" and "log_base R (ap_log a)" and "metric_base R (ap_metric a)" and "trace_wf R (ap_trace a)"
  shows "hm_wf (service_signals R a)"
    and "hm_get (service_signals R a) n = None \<longleftrightarrow> \<not> any_signal R a n"
    and "hm_get (service_signals R a) n = Some sigs \<Longrightarrow> distinct sigs \<and> set sigs = {signal. service_known R a signal n}"
proof -
  note N = names_known [OF assms, of n]
  show "hm_wf (service_signals R a)" by (simp add: service_signals_def add_signal_wf)
  show "hm_get (service_signals R a) n = None \<longleftrightarrow> \<not> any_signal R a n"
    by (simp add: service_signals_def add_signal_get N any_signal_iff)
  have known: "service_known R a signal n \<longleftrightarrow> signal = ''logs'' \<and> service_known R a ''logs'' n \<or>
      signal = ''metrics'' \<and> service_known R a ''metrics'' n \<or> signal = ''traces'' \<and> service_known R a ''traces'' n" for signal
    using known_signals by blast
  have "signals_of [] n = []" by (simp add: signals_of_def)
  note start = this
  have all: "set (signals_of (service_signals R a) n) = {signal. service_known R a signal n}"
  proof (rule set_eqI)
    fix signal
    show "signal \<in> set (signals_of (service_signals R a) n) \<longleftrightarrow> signal \<in> {signal. service_known R a signal n}"
      unfolding service_signals_def add_signal_of(1) N start mem_Collect_eq by (subst known [of signal]) auto
  qed
  have dist: "distinct (signals_of (service_signals R a) n)"
    unfolding service_signals_def by (intro add_signal_of(2)) (simp add: start)
  assume "hm_get (service_signals R a) n = Some sigs"
  then have "signals_of (service_signals R a) n = sigs" by (simp add: signals_of_def)
  with all dist show "distinct sigs \<and> set sigs = {signal. service_known R a signal n}" by simp
qed

lemma signals_name: "str_member [] ''name'' (signals_json p) = fst p"
  by (simp add: signals_json_def str_member_def json_get_map)

text \<open>
  C37: The list of services names every service with telemetry exactly once, in order of the names, each
  with exactly the kinds of telemetry stored for it: logs where a stream carries it as its service
  label, metrics where a series does, traces where a span names it.
\<close>

theorem list_services_exact:
  assumes "rodeo_laws R" and "log_base R (ap_log a)" and "metric_base R (ap_metric a)" and "trace_wf R (ap_trace a)"
  shows "\<exists>entries. list_services R a = api_success (json_map [(''services'', JArray (map signals_json entries))]) \<and>
    sorted (map fst entries) \<and> distinct (map fst entries) \<and>
    set (map fst entries) = {n. any_signal R a n} \<and>
    list_all (\<lambda>(n, sigs). distinct sigs \<and> set sigs = {signal. service_known R a signal n}) entries"
proof -
  let ?m = "service_signals R a"
  note S = service_signals_spec [OF assms]
  have 1: "list_services R a = api_success (json_map [(''services'', JArray (map signals_json (sort_key fst ?m)))])"
    unfolding list_services_def services_json_def sort_key_map signals_name ..
  have 2: "distinct (map fst (sort_key fst ?m))"
    using S(1) mset_eq_imp_distinct_iff [of "map fst (sort_key fst ?m)" "map fst ?m"] by simp
  have 3: "set (map fst (sort_key fst ?m)) = {n. any_signal R a n}"
  proof -
    have "n \<in> set (hm_keys ?m) \<longleftrightarrow> any_signal R a n" for n unfolding hm_key_iff using S(2) [of n] by simp
    then show ?thesis by (simp add: set_eq_iff)
  qed
  have 4: "list_all (\<lambda>(n, sigs). distinct sigs \<and> set sigs = {signal. service_known R a signal n}) (sort_key fst ?m)"
    unfolding list_all_iff set_sort
  proof
    fix e assume "e \<in> set ?m"
    then have "hm_get ?m (fst e) = Some (snd e)" using map_of_is_SomeI [OF S(1), of "fst e" "snd e"] by simp
    from S(3) [OF this] show "case e of (n, sigs) \<Rightarrow> distinct sigs \<and> set sigs = {signal. service_known R a signal n}"
      by (simp only: case_prod_beta)
  qed
  show ?thesis by (rule exI [of _ "sort_key fst ?m"]) (intro conjI 1 2 3 4 sorted_sort_key)
qed

definition sample_app :: "string list app_state" where
  "sample_app = sample_state\<lparr>ap_log := sample_logs, ap_trace := sample_traces\<rparr>"

lemma sample_app_wf:
  "log_wf list_rodeo (ap_log sample_app)" "log_base list_rodeo (ap_log sample_app)"
  "metric_base list_rodeo (ap_metric sample_app)" "trace_wf list_rodeo (ap_trace sample_app)"
  using sample_logs_wf log_base_wf [OF sample_logs_wf] metric_new_base sample_traces_wf
  by (simp_all add: sample_app_def sample_state_def)

lemma list_services_exact_witness:
  "\<exists>entries. list_services list_rodeo sample_app = api_success (json_map [(''services'', JArray (map signals_json entries))]) \<and>
    sorted (map fst entries) \<and> set (map fst entries) = {n. any_signal list_rodeo sample_app n}"
  using list_services_exact [OF list_rodeo_laws sample_app_wf(2,3,4)] by blast

end
