(* ===== verification/Mcp_Synth_Correct.thy ===== *)
theory Mcp_Synth_Correct
  imports Mcp_Synth Api_Views_Correct Float64_Order Logql_Eval_Correct Traceql_Eval_Correct Metric_Store_Correct Trace_Ingest_Correct
begin

text \<open>
  The health of all services, computed in one pass per store, and the activity of one service,
  computed by queries, count the same errors, spans and failing traces; the scores lie between 0 and
  100, and neither panics.
\<close>

section \<open>The arithmetic of the scores\<close>

text \<open>
  Durations in milliseconds and deductions are numbers, and a clamped score lies between 0 and 100.
\<close>

lemma div_number:
  assumes "\<not> is_nan x" and "f64_lt f64_zero y" and "is_finite y"
  shows "\<not> is_nan (f64_div x y)"
proof -
  have "\<not> is_nan (f64_of_bits neg f64_inf_bits)" for neg
    by (simp add: is_nan_def f64_of_bits_bits [OF inf_bits_facts(1)])
  then show ?thesis using assms by (simp add: f64_div_def Let_def positive_cases)
qed

lemma int_number [simp]: "\<not> is_nan (f64_of_int n)"
  by (simp add: f64_of_int_def)

lemma nat_number [simp]: "\<not> is_nan (f64_of_nat n)"
  by (simp add: f64_of_nat_def)

lemma ms_number [simp]: "\<not> is_nan (ns_to_ms n)"
  unfolding ns_to_ms_def using f64_of_pos_int [of 1000000] by (intro div_number) simp_all

lemma negate_number: "is_nan (f64_negate x) = is_nan x" "is_finite (f64_negate x) = is_finite x"
proof -
  have "f64_bits (f64_negate x) = f64_bits x" unfolding f64_negate_def
    by (rule f64_of_bits_bits) (simp add: f64_bits_def)
  then show "is_nan (f64_negate x) = is_nan x" "is_finite (f64_negate x) = is_finite x"
    by (simp_all add: is_nan_def is_finite_def)
qed

lemma sub_number:
  assumes "\<not> is_nan x" and "\<not> is_nan y" and "is_finite x \<or> is_finite y"
  shows "\<not> is_nan (f64_sub x y)"
proof -
  have "\<not> is_nan (f64_of_bits neg 0)" for neg by (simp add: is_nan_def f64_of_bits_bits)
  then show ?thesis using assms by (auto simp: f64_sub_def f64_add_def Let_def negate_number)
qed

lemma min_number: "\<not> is_nan y \<Longrightarrow> \<not> is_nan (f64_min x y)"
  by (simp add: f64_min_def)

lemma clamped:
  assumes "\<not> is_nan x" and "f64_le lo hi"
  shows "f64_le lo (f64_clamp lo hi x) \<and> f64_le (f64_clamp lo hi x) hi"
  using assms by (auto simp: f64_clamp_def f64_lt_def f64_le_def)

lemma hundred: "f64_le f64_zero (f64_of_nat 100)" "is_finite (f64_of_nat 100)" "is_finite (f64_of_nat 40)"
  using f64_of_pos_int [of 100] f64_of_pos_int [of 40] by (auto simp: f64_of_nat_def f64_lt_def f64_le_def)

definition is_score :: "f64 \<Rightarrow> bool" where
  "is_score x \<longleftrightarrow> f64_le f64_zero x \<and> f64_le x (f64_of_nat 100)"

lemma score_number: "is_score x \<Longrightarrow> \<not> is_nan x"
  by (simp add: is_score_def f64_le_def)

text \<open>A deduction of at most \<open>c\<close> is finite when it is no negative number.\<close>

lemma capped_finite:
  assumes "f64_le f64_zero c" and "is_finite c" and "is_nan x \<or> f64_le f64_zero x"
  shows "is_finite (f64_min x c)"
proof (cases "is_nan x \<or> is_finite x")
  case True
  then show ?thesis using assms(2) by (auto simp: f64_min_def)
next
  case False
  then have x: "\<not> is_nan x" "f64_bits x = f64_inf_bits" "\<not> f64_neg x"
    using assms(3) infinite_number inf_bits_facts by (auto simp: nonneg_cases)
  have "f64_bits c < f64_inf_bits" using assms(2) by (simp add: is_finite_def)
  moreover have "units_of_bits (f64_inf_bits - 1) < units_of_bits f64_inf_bits"
    by (simp add: units_of_bits_def f64_inf_bits_def)
  ultimately have "units_of_bits (f64_bits c) < units_of_bits f64_inf_bits"
    using units_of_bits_mono [of "f64_bits c" "f64_inf_bits - 1"] by linarith
  then have "f64_lt c x" using x assms(1) by (auto simp: f64_lt_def f64_units_def nonneg_cases)
  then show ?thesis using x(1) assms(1,2) by (auto simp: f64_min_def f64_le_def)
qed

section \<open>Counting by key\<close>

text \<open>What the ids of a selection stand for is what a filter over the stored values leaves.\<close>

lemma selected_values:
  assumes "hm_wf m" and "distinct xs" and "set xs = {x. \<exists>v. hm_get m x = Some v \<and> P v}"
  shows "mset (map (\<lambda>x. the (hm_get m x)) xs) = mset (filter P (hm_values m))"
proof -
  have vals: "hm_values m = map (\<lambda>k. the (hm_get m k)) (hm_keys m)"
  proof -
    have "snd p = the (hm_get m (fst p))" if "p \<in> set m" for p
      using map_of_is_SomeI [OF assms(1), of "fst p" "snd p"] that by simp
    then show ?thesis by (simp only: map_map comp_def) (rule map_cong [OF refl])
  qed
  let ?ks = "filter (\<lambda>k. P (the (hm_get m k))) (hm_keys m)"
  have "x \<in> set xs \<longleftrightarrow> x \<in> set ?ks" for x
    using hm_key_iff [of x m] unfolding assms(3) set_filter by auto
  then have "mset xs = mset ?ks"
    using assms(1,2) by (subst set_eq_iff_mset_eq_distinct [symmetric]) auto
  then have "mset (map (\<lambda>x. the (hm_get m x)) xs) = mset (map (\<lambda>x. the (hm_get m x)) ?ks)"
    by (simp only: mset_map)
  then show ?thesis by (simp only: vals filter_map comp_def)
qed

lemma sum_selected:
  fixes f :: "'v \<Rightarrow> nat"
  assumes "hm_wf m" and "distinct xs" and "set xs = {x. \<exists>v. hm_get m x = Some v \<and> P v}"
  shows "(\<Sum>x \<leftarrow> xs. f (the (hm_get m x))) = (\<Sum>v \<leftarrow> filter P (hm_values m). f v)"
proof -
  have "(\<Sum>v \<leftarrow> map (\<lambda>x. the (hm_get m x)) xs. f v) = (\<Sum>v \<leftarrow> filter P (hm_values m). f v)"
    using arg_cong [OF selected_values [OF assms], of "\<lambda>M. sum_mset (image_mset f M)"]
    by (simp only: mset_map [symmetric] sum_mset_sum_list)
  then show ?thesis by (simp only: map_map comp_def)
qed

definition hm_count :: "'v \<Rightarrow> ('k, 'v) hash_map \<Rightarrow> 'k \<Rightarrow> 'v" where
  "hm_count z m n = (case hm_get m n of None \<Rightarrow> z | Some v \<Rightarrow> v)"

lemma count_upsert: "hm_count z (hm_upsert z k g m) n = (if n = k then g (hm_count z m n) else hm_count z m n)"
  by (simp add: hm_count_def hm_simps)

lemma count_fold:
  "hm_count z (fold (\<lambda>x m. case key x of None \<Rightarrow> m | Some k \<Rightarrow> hm_upsert z k (g x) m) xs m) n =
     fold g (filter (\<lambda>x. key x = Some n) xs) (hm_count z m n)"
  by (induction xs arbitrary: m) (auto simp: count_upsert split: option.split)

lemma count_fold_keys:
  assumes "distinct (map name ks)"
  shows "hm_count z (fold (\<lambda>k. hm_upsert z (name k) g) ks m) n =
    (if n \<in> name ` set ks then g (hm_count z m n) else hm_count z m n)"
  using assms by (induction ks arbitrary: m) (auto simp: count_upsert)

lemma count_fold_groups:
  assumes "\<And>x. x \<in> set xs \<Longrightarrow> distinct (map name (ks x))"
  shows "hm_count z (fold (\<lambda>x m. fold (\<lambda>k. hm_upsert z (name k) (g x)) (ks x) m) xs m) n =
    fold g (filter (\<lambda>x. n \<in> name ` set (ks x)) xs) (hm_count z m n)"
  using assms by (induction xs arbitrary: m) (simp_all add: count_fold_keys)

section \<open>Errors in the logs\<close>

text \<open>What a stream's labels say, as text.\<close>

definition stream_text :: "'i rodeo_ops \<Rightarrow> 'i log_store \<Rightarrow> log_stream \<Rightarrow> (string \<times> string) list" where
  "stream_text R s st = resolve_labels R (lg_interner s) (ls_labels st)"

definition stored_times_ok :: "'i log_store \<Rightarrow> bool" where
  "stored_times_ok s \<longleftrightarrow> list_all (\<lambda>st. list_all (\<lambda>e. in_i64 (le_timestamp_ns e)) (ls_entries st)) (hm_values (lg_streams s))"

text \<open>The streams that name the service as theirs name no other one beside it.\<close>

definition one_service :: "'i rodeo_ops \<Rightarrow> 'i log_store \<Rightarrow> string \<Rightarrow> bool" where
  "one_service R s n \<longleftrightarrow>
     list_all (\<lambda>st. (''service'', n) \<in> set (stream_text R s st) \<longrightarrow>
       length (filter (\<lambda>p. fst p = ''service'') (stream_text R s st)) \<le> 1) (hm_values (lg_streams s))"

lemma hm_get_value: "hm_get m k = Some v \<Longrightarrow> v \<in> set (hm_values m)"
  by (metis map_of_SomeD snd_conv image_eqI set_map)

lemma all_entries:
  assumes "log_wf R s" and "stored_times_ok s"
  shows "get_entries s sid i64_min i64_max = Inr (entries_of s sid)"
proof -
  have "filter (in_window i64_min i64_max) (entries_of s sid) = entries_of s sid"
    using assms(2) unfolding stored_times_ok_def entries_of_def list_all_iff filter_id_conv
    by (cases "hm_get (lg_streams s) sid") (fastforce simp: in_window_def in_i64_def dest: hm_get_value)+
  then show ?thesis using get_entries_window [OF assms(1), of i64_min i64_max sid] by (simp add: i64_min_def i64_max_def)
qed

lemma kept_entries_all:
  assumes "log_wf R s" and "stored_times_ok s" and "sy_rodeo E = R"
  shows "kept_entries E s ms None = Inr (concat (map (entries_of s) (query_streams R (sy_regex E) s ms)))"
  using all_entries [OF assms(1,2)]
  by (simp add: kept_entries_def seq_keep_def assms(3) collect_streams_total [where g = "entries_of s"])

text \<open>The service a stream's errors are counted for.\<close>

definition error_service :: "'i rodeo_ops \<Rightarrow> 'i log_store \<Rightarrow> log_stream \<Rightarrow> string option" where
  "error_service R s st =
     (let get = rd_get R (lg_interner s)
      in Option.bind (get ''service'') (\<lambda>k. Option.bind (stream_service k st) (\<lambda>v.
           if is_error_stream (get ''level'') (get ''error'') st then Some (rd_resolve R (lg_interner s) v) else None)))"

lemma log_errors_eq:
  "log_errors E s =
     fold (\<lambda>st m. case error_service (sy_rodeo E) s st of
         None \<Rightarrow> m
       | Some n \<Rightarrow> hm_upsert 0 n (\<lambda>c. c + length (ls_entries st)) m) (hm_values (lg_streams s)) []"
proof (cases "rd_get (sy_rodeo E) (lg_interner s) ''service''")
  case None
  have "fold (\<lambda>st m. m) xs m = m" for xs :: "log_stream list" and m :: "(string, nat) hash_map"
    by (induction xs) simp_all
  with None show ?thesis by (simp add: log_errors_def error_service_def)
next
  case (Some k)
  show ?thesis unfolding log_errors_def Let_def Some option.case
    by (rule fold_cong) (auto simp: error_service_def Some split: option.split)
qed

lemma short_unique:
  assumes "length (filter P xs) \<le> 1" and "x \<in> set xs" "P x" "y \<in> set xs" "P y"
  shows "x = y"
proof -
  have "x \<in> set (filter P xs)" "y \<in> set (filter P xs)" using assms by simp_all
  with assms(1) show ?thesis by (cases "filter P xs") simp_all
qed

lemma value_key:
  assumes "hm_wf m" and "v \<in> set (hm_values m)"
  obtains k where "hm_get m k = Some v"
proof -
  from assms(2) obtain k where "(k, v) \<in> set m" by auto
  with that show thesis using map_of_is_SomeI [OF assms(1)] by blast
qed

lemma stream_service_Some: "stream_service k st = Some v \<Longrightarrow> (k, v) \<in> set (ls_labels st)"
  unfolding stream_service_def by (cases "find (\<lambda>p. fst p = k) (ls_labels st)")
    (auto dest: find_SomeD)

lemma stream_service_None: "stream_service k st = None \<Longrightarrow> (k, v) \<notin> set (ls_labels st)"
  by (auto simp: stream_service_def find_None_iff)

lemma error_service_iff:
  assumes laws: "rodeo_laws R" and ok: "labels_ok R (lg_interner s) (ls_labels st)"
    and one: "(''service'', n) \<in> set (stream_text R s st) \<Longrightarrow>
      length (filter (\<lambda>p. fst p = ''service'') (stream_text R s st)) \<le> 1"
  shows "error_service R s st = Some n \<longleftrightarrow>
    (''service'', n) \<in> set (stream_text R s st) \<and> (''level'', ''error'') \<in> set (stream_text R s st)"
proof -
  let ?i = "lg_interner s" and ?ls = "ls_labels st"
  note pair = resolved_pair_iff [OF laws ok, folded stream_text_def]
  have err: "is_error_stream (rd_get R ?i ''level'') (rd_get R ?i ''error'') st \<longleftrightarrow>
      (''level'', ''error'') \<in> set (stream_text R s st)"
    unfolding pair is_error_stream_def
    by (cases "rd_get R ?i ''level''"; cases "rd_get R ?i ''error''") (auto simp: list_ex_iff)
  have svc: "(\<exists>k v. rd_get R ?i ''service'' = Some k \<and> stream_service k st = Some v \<and> rd_resolve R ?i v = n) \<longleftrightarrow>
      (''service'', n) \<in> set (stream_text R s st)" (is "?found \<longleftrightarrow> ?listed")
  proof
    assume ?found
    then obtain k v where k: "rd_get R ?i ''service'' = Some k" "(k, v) \<in> set ?ls" "rd_resolve R ?i v = n"
      using stream_service_Some by blast
    then have "rd_get R ?i n = Some v" using ok by (auto simp: labels_ok_def spur_ok_def)
    then show ?listed unfolding pair using k by blast
  next
    assume listed: ?listed
    then obtain k w where k: "rd_get R ?i ''service'' = Some k" "(k, w) \<in> set ?ls" unfolding pair by blast
    then obtain v where v: "stream_service k st = Some v" "(k, v) \<in> set ?ls"
      using stream_service_Some stream_service_None by (metis option.exhaust)
    then have "(''service'', rd_resolve R ?i v) \<in> set (stream_text R s st)"
      using rd_resolve_get [OF laws k(1)] by (force simp: stream_text_def resolve_labels_def)
    then have "rd_resolve R ?i v = n" using short_unique [OF one [OF listed], of "(''service'', n)"] listed by auto
    then show ?found using k(1) v(1) by blast
  qed
  show ?thesis unfolding error_service_def Let_def svc [symmetric] err
    by (auto simp: bind_eq_Some_conv)
qed

text \<open>The errors the overview counts for a service are those the activity finds.\<close>

lemma error_entries_counted:
  assumes laws: "rodeo_laws R" and wf: "log_wf R s" and times: "stored_times_ok s" and one: "one_service R s n"
    and R: "sy_rodeo E = R" and es: "kept_entries E s (error_matchers n) None = Inr es"
  shows "length es = hm_count 0 (log_errors E s) n"
proof -
  note base = log_base_wf [OF wf] and L = log_baseD(1) [OF log_base_wf [OF wf], unfolded log_labelled_def]
  let ?ids = "query_streams R (sy_regex E) s (error_matchers n)" and ?m = "lg_streams s"
  let ?P = "\<lambda>st. (''service'', n) \<in> set (stream_text R s st) \<and> (''level'', ''error'') \<in> set (stream_text R s st)"
  have valid: "\<forall>m \<in> set (error_matchers n). matcher_valid (sy_regex E) m"
    by (simp add: error_matchers_def service_matcher_def matcher_valid_def)
  have ids: "set ?ids = {x. \<exists>st. hm_get ?m x = Some st \<and> ?P st}"
    unfolding query_streams_spec [OF laws base valid]
    by (simp add: error_matchers_def service_matcher_def matcher_holds_def stream_text_def)
  have dist: "distinct ?ids" unfolding query_streams_def by (rule select_distinct [OF laws L valid])
  have keys: "error_service R s st = Some n \<longleftrightarrow> ?P st" if st: "st \<in> set (hm_values ?m)" for st
  proof (rule error_service_iff [OF laws])
    obtain x where "hm_get ?m x = Some st" using value_key [OF labelled_wfD(1) [OF L] st] .
    then show "labels_ok R (lg_interner s) (ls_labels st)" by (rule labelled_wfD(5) [OF L])
    show "length (filter (\<lambda>p. fst p = ''service'') (stream_text R s st)) \<le> 1"
      if "(''service'', n) \<in> set (stream_text R s st)"
      using one st that unfolding one_service_def list_all_iff by blast
  qed
  have "filter (\<lambda>st. error_service R s st = Some n) (hm_values ?m) = filter ?P (hm_values ?m)"
    by (rule filter_cong [OF refl keys])
  moreover have "fold (\<lambda>st c. c + length (ls_entries st)) xs c = c + (\<Sum>st \<leftarrow> xs. length (ls_entries st))" for xs :: "log_stream list" and c
    by (induction xs arbitrary: c) simp_all
  ultimately have "hm_count 0 (log_errors E s) n = (\<Sum>st \<leftarrow> filter ?P (hm_values ?m). length (ls_entries st))"
    unfolding log_errors_eq count_fold R by (simp add: hm_count_def)
  also have "\<dots> = (\<Sum>x \<leftarrow> ?ids. length (ls_entries (the (hm_get ?m x))))"
    by (rule sum_selected [OF labelled_wfD(1) [OF L] dist ids, symmetric])
  also have "\<dots> = (\<Sum>x \<leftarrow> ?ids. length (entries_of s x))"
    using ids by (intro arg_cong [where f = sum_list] map_cong refl) (auto simp: entries_of_def)
  finally show ?thesis using es kept_entries_all [OF wf times R] by (auto simp: length_concat comp_def)
qed

section \<open>Spans\<close>

definition failed_spans :: "span list \<Rightarrow> nat" where
  "failed_spans sps = length (filter (\<lambda>sp. sp_status sp = Error) sps)"

lemma service_traces:
  assumes laws: "rodeo_laws R" and wf: "trace_wf R s"
  shows "distinct (traces_for_service R s n)"
    and "set (traces_for_service R s n) = {t. \<exists>sps. hm_get (ts_traces s) t = Some sps \<and> serves R s n sps}"
proof -
  let ?i = "ts_interner s" and ?idx = "ts_service_index s"
  note T = traces_wfD [OF trace_wfD(1) [OF wf]]
  have exact: "idx_exact sp_service (ts_traces s) ?idx" using trace_wfD(2) [OF wf] by (simp add: keys_exact_def)
  have idx: "idx_wf ?idx" using exact by (simp add: idx_exact_def)
  show "distinct (traces_for_service R s n)"
    using idx unfolding idx_wf_def by (auto simp: traces_for_service_def split: option.split)
  have names: "serves R s n sps \<longleftrightarrow> (\<exists>k. rd_get R ?i n = Some k \<and> k \<in> sp_service ` set sps)"
    if sps: "hm_get (ts_traces s) t = Some sps" for t sps
  proof -
    have "spur_ok R ?i (sp_service sp)" if "sp \<in> set sps" for sp
      using T(4) [OF sps that] by (simp add: span_ok_def)
    then have "sp \<in> set sps \<Longrightarrow> rd_get R ?i n = Some (sp_service sp) \<longleftrightarrow> rd_resolve R ?i (sp_service sp) = n" for sp
      by (intro rd_get_iff [OF laws])
    then show ?thesis unfolding serves_def by (auto simp: image_iff)
  qed
  have "set (traces_for_service R s n) = {t. \<exists>k. rd_get R ?i n = Some k \<and> t \<in> idx_set ?idx k}"
    by (cases "rd_get R ?i n") (auto simp: traces_for_service_def idx_set_def split: option.split)
  also have "\<dots> = {t. \<exists>sps. hm_get (ts_traces s) t = Some sps \<and> serves R s n sps}"
    unfolding idx_exactD [OF exact] has_key_def using names by auto
  finally show "set (traces_for_service R s n) = {t. \<exists>sps. hm_get (ts_traces s) t = Some sps \<and> serves R s n sps}" .
qed

lemma service_traces_stored:
  assumes "rodeo_laws R" and "trace_wf R s" and "t \<in> set (traces_for_service R s n)"
  obtains sps where "hm_get (ts_traces s) t = Some sps" and "sps \<noteq> []"
  using assms(3) traces_wfD(2) [OF trace_wfD(1) [OF assms(2)]] that
  unfolding service_traces(2) [OF assms(1,2)] by blast

text \<open>Without a checkpoint the window holds every trace of the service whole.\<close>

definition whole_trace :: "'i trace_store \<Rightarrow> trace_id \<Rightarrow> trace_id \<times> nat \<times> nat" where
  "whole_trace s t = (let sps = the (hm_get (ts_traces s) t) in (t, length sps, failed_spans sps))"

lemma map_filter_all: "(\<And>x. x \<in> set xs \<Longrightarrow> f x = Some (g x)) \<Longrightarrow> List.map_filter f xs = map g xs"
  by (induction xs) (simp_all add: List.map_filter_simps)

lemma window_whole:
  assumes "rodeo_laws R" and "trace_wf R s" and "sy_rodeo E = R"
  shows "window_traces E s n None = map (whole_trace s) (traces_for_service R s n)"
  unfolding window_traces_def assms(3)
proof (rule map_filter_all)
  fix t assume "t \<in> set (traces_for_service R s n)"
  then obtain sps where "hm_get (ts_traces s) t = Some sps" "sps \<noteq> []"
    using service_traces_stored [OF assms(1,2)] by blast
  then show "(case get_trace s t of None \<Rightarrow> None
      | Some sps \<Rightarrow> let inside = filter (\<lambda>sp. seq_keep None (sp_ingest_seq sp)) sps
          in if inside = [] then None
             else Some (t, length inside, length (filter (\<lambda>sp. sp_status sp = Error) inside))) = Some (whole_trace s t)"
    by (simp add: get_trace_def seq_keep_def whole_trace_def failed_spans_def)
qed

definition trace_counts :: "span list list \<Rightarrow> trace_stats" where
  "trace_counts xs = ((\<Sum>sps \<leftarrow> xs. length sps), (\<Sum>sps \<leftarrow> xs. failed_spans sps),
     (\<Sum>sps \<leftarrow> xs. if failed_spans sps = 0 then 0 else 1))"

lemma fold_trace_stats:
  "fold add_trace_stats xs (a, b, c) =
     (a + fst (trace_counts xs), b + fst (snd (trace_counts xs)), c + snd (snd (trace_counts xs)))"
  by (induction xs arbitrary: a b c) (simp_all add: add_trace_stats_def trace_counts_def failed_spans_def)

lemma span_services_spec: "distinct (span_services sps) \<and> set (span_services sps) = sp_service ` set sps"
  using fold_hs_insert [of "[]" sp_service sps] by (simp add: span_services_def)

lemma service_trace_counts:
  assumes wf: "trace_wf R s" and R: "sy_rodeo E = R"
  shows "hm_count (0, 0, 0) (service_trace_stats E s) n = trace_counts (filter (serves R s n) (hm_values (ts_traces s)))"
proof -
  note T = traces_wfD [OF trace_wfD(1) [OF wf]]
  let ?name = "rd_resolve R (ts_interner s)"
  have "distinct (map ?name (span_services sps))" if sps: "sps \<in> set (hm_values (ts_traces s))" for sps
  proof -
    obtain t where t: "hm_get (ts_traces s) t = Some sps" using value_key [OF T(1) sps] .
    have "inj_on ?name (sp_service ` set sps)"
      using T(4) [OF t] by (auto simp: inj_on_def span_ok_def intro: rd_resolve_inj)
    then show ?thesis by (simp add: distinct_map span_services_spec)
  qed
  then have "hm_count (0, 0, 0) (service_trace_stats E s) n =
      fold add_trace_stats (filter (\<lambda>sps. n \<in> ?name ` set (span_services sps)) (hm_values (ts_traces s))) (0, 0, 0)"
    unfolding service_trace_stats_def R by (subst count_fold_groups) (simp_all add: hm_count_def)
  then show ?thesis
    by (simp add: fold_trace_stats span_services_spec image_image serves_def [abs_def])
qed

section \<open>Activity and overview\<close>

lemma partial_sort_total:
  assumes "\<And>x. x \<in> set xs \<Longrightarrow> \<not> is_nan (key x)"
  shows "\<exists>ys. partial_sort unordered key descending xs = Inr ys \<and> mset ys = mset xs \<and> length ys = length xs"
proof -
  have "list_all (\<lambda>x. \<not> is_nan (key x)) xs" using assms by (simp add: list_all_iff)
  then show ?thesis by (auto simp: partial_sort_def)
qed

lemma notable_number:
  assumes "x \<in> set (List.map_filter (notable_trace E s) ws)"
  shows "\<not> is_nan (ti_duration_ms x)"
proof -
  obtain w where "notable_trace E s w = Some x"
    using assms by (induction ws) (auto simp: List.map_filter_simps split: option.splits)
  then show ?thesis by (auto simp: notable_trace_def split: prod.splits if_splits)
qed

lemma notable_count:
  assumes "rodeo_laws R" and "trace_wf R s" and "sy_rodeo E = R"
  shows "length (List.map_filter (notable_trace E s) (map (whole_trace s) (traces_for_service R s n))) =
    (\<Sum>t \<leftarrow> traces_for_service R s n. if failed_spans (the (hm_get (ts_traces s) t)) = 0 then 0 else 1)"
proof -
  have "length (List.map_filter (notable_trace E s) (map (whole_trace s) ts)) =
      (\<Sum>t \<leftarrow> ts. if failed_spans (the (hm_get (ts_traces s) t)) = 0 then 0 else 1)"
    if "set ts \<subseteq> set (traces_for_service R s n)" for ts
    using that
  proof (induction ts)
    case (Cons t ts)
    then obtain sps where "hm_get (ts_traces s) t = Some sps"
      using service_traces_stored [OF assms(1,2), of t n] by (metis list.set_intros(1) subsetD)
    then obtain r where "trace_result_of R s t = Some r" using trace_result_of_stored(1) [OF assms(2), of t] by fastforce
    then have "notable_trace E s (whole_trace s t) = None \<longleftrightarrow> failed_spans (the (hm_get (ts_traces s) t)) = 0"
      by (simp add: notable_trace_def whole_trace_def Let_def assms(3))
    then show ?case using Cons by (auto simp: List.map_filter_simps split: option.split)
  qed (simp add: List.map_filter_simps)
  then show ?thesis by simp
qed

lemma activity_counts:
  assumes laws: "rodeo_laws R" and wf: "log_wf R (ap_log a)" and times: "stored_times_ok (ap_log a)"
    and twf: "trace_wf R (ap_trace a)" and R: "sy_rodeo E = R"
    and stats: "hm_count (0, 0, 0) (service_trace_stats E (ap_trace a)) n = (spans, failed, traces)"
  shows "\<exists>act. summarize_activity E a n None detailed = Inr act \<and>
    (one_service R (ap_log a) n \<longrightarrow> sa_error_count act = hm_count 0 (log_errors E (ap_log a)) n) \<and>
    sa_error_traces act = traces \<and> sa_health act = activity_health (ratio failed spans) (sa_error_count act)"
proof -
  let ?s = "ap_trace a" and ?ts = "traces_for_service R (ap_trace a) n"
  note whole = window_whole [OF laws twf R] and ids = service_traces [OF laws twf, of n]
  note T = traces_wfD(1) [OF trace_wfD(1) [OF twf]]
  note every = kept_entries_all [OF wf times R]
  obtain es where es: "kept_entries E (ap_log a) (error_matchers n) None = Inr es" using every by blast
  note counted = error_entries_counted [OF laws wf times _ R es]
  have counts: "trace_counts (filter (serves R ?s n) (hm_values (ts_traces ?s))) = (spans, failed, traces)"
    using service_trace_counts [OF twf R] stats by simp
  have sums: "(\<Sum>t \<leftarrow> ?ts. length (the (hm_get (ts_traces ?s) t))) = spans"
    "(\<Sum>t \<leftarrow> ?ts. failed_spans (the (hm_get (ts_traces ?s) t))) = failed"
    "(\<Sum>t \<leftarrow> ?ts. if failed_spans (the (hm_get (ts_traces ?s) t)) = 0 then 0 else 1) = traces"
    using counts unfolding trace_counts_def
      sum_selected [OF T ids, where f = length] sum_selected [OF T ids, where f = failed_spans]
      sum_selected [OF T ids, where f = "\<lambda>sps. if failed_spans sps = 0 then 0 else 1"] by simp_all
  let ?notable = "List.map_filter (notable_trace E ?s) (map (whole_trace ?s) ?ts)"
  have num: "\<And>x. x \<in> set ?notable \<Longrightarrow> \<not> is_nan (ti_duration_ms x)" by (rule notable_number)
  obtain ys where ys: "partial_sort (sy_sort_traces E) ti_duration_ms True ?notable = Inr ys" "length ys = length ?notable"
    using partial_sort_total [of ?notable ti_duration_ms "sy_sort_traces E" True, OF num] by blast
  have n: "length ?notable = traces" using notable_count [OF laws twf R] sums(3) by simp
  have r: "ratio (sum_list (map (snd \<circ> snd) (map (whole_trace ?s) ?ts))) (sum_list (map (fst \<circ> snd) (map (whole_trace ?s) ?ts))) =
      ratio failed spans"
    using sums by (simp add: comp_def whole_trace_def Let_def)
  show ?thesis
    unfolding summarize_activity_def Let_def whole every [of "[service_matcher n]"] es ys(1) r sum.case map_sum.simps
    by (rule exI, intro conjI, rule refl, insert counted, simp_all only: service_activity.simps ys(2) n simp_thms, blast)
qed

section \<open>Scores\<close>

lemma nat_nonneg: "f64_le f64_zero (f64_of_nat n)"
  unfolding f64_of_nat_def f64_of_int_def by (rule nonneg_round) simp

lemma overview_score: "is_score (overview_health r errors)"
proof -
  let ?h = "f64_sub (f64_of_nat 100) (f64_min (f64_mul r (f64_of_nat 30)) (f64_of_nat 30))"
  have "\<not> is_nan ?h" using hundred by (intro sub_number min_number disjI1) simp_all
  moreover have "\<not> is_nan (f64_sub ?h (f64_min (f64_of_nat errors) (f64_of_nat 40)))"
    by (rule sub_number [OF calculation min_number disjI2 [OF capped_finite]]) (simp_all add: hundred nat_nonneg)
  ultimately show ?thesis unfolding overview_health_def Let_def is_score_def
    using hundred by (intro clamped) simp_all
qed

lemma same_health: "activity_health r errors = overview_health r errors"
  by (simp only: activity_health_def overview_health_def)

lemma overview_names_known:
  assumes "rodeo_laws R" and "log_base R (ap_log a)" and "metric_base R (ap_metric a)" and "trace_wf R (ap_trace a)"
    and "sy_rodeo E = R"
  shows "distinct (overview_names E a)" and "n \<in> set (overview_names E a) \<longleftrightarrow> any_signal R a n"
  using names_known [OF assms(1-4), of n] assms(5) by (auto simp: overview_names_def hs_insert_all any_signal_iff)

section \<open>Properties\<close>

definition activity_issue :: "service_activity \<Rightarrow> string" where
  "activity_issue act =
     (if 0 < sa_error_count act then nat_to_string (sa_error_count act) @ '' error log(s)''
      else if 0 < sa_error_traces act then nat_to_string (sa_error_traces act) @ '' failing trace(s)''
      else ''No issues detected'')"

text \<open>
  C13: The health overview never panics and lists every service with telemetry once, the worst first.
  Every score lies between 0 and 100, and the activity of every service, queried without a checkpoint,
  is reported too. If no log stream that carries the name of the service as its service label carries
  a second service label, the score is the one that the activity reports, and the issue counts the
  errors and failing traces of that activity.
\<close>

theorem check_health_agrees:
  assumes "rodeo_laws (sy_rodeo E)" and "log_wf (sy_rodeo E) (ap_log a)" and "stored_times_ok (ap_log a)"
    and "metric_base (sy_rodeo E) (ap_metric a)"
    and "trace_wf (sy_rodeo E) (ap_trace a)"
  shows "\<exists>hs. check_health E a = Inr hs \<and> distinct (map sh_service hs) \<and>
    set (map sh_service hs) = {n. any_signal (sy_rodeo E) a n} \<and> sorted (map (f64_units \<circ> sh_score) hs) \<and>
    list_all (\<lambda>h. is_score (sh_score h) \<and> (\<exists>act. summarize_activity E a (sh_service h) None detailed = Inr act \<and>
      (one_service (sy_rodeo E) (ap_log a) (sh_service h) \<longrightarrow> sh_score h = sa_health act \<and> sh_issue h = activity_issue act))) hs"
proof -
  let ?entry = "overview_entry (log_errors E (ap_log a)) (service_trace_stats E (ap_trace a))"
  let ?names = "overview_names E a"
  let ?good = "\<lambda>h. is_score (sh_score h) \<and> (\<exists>act. summarize_activity E a (sh_service h) None detailed = Inr act \<and>
      (one_service (sy_rodeo E) (ap_log a) (sh_service h) \<longrightarrow> sh_score h = sa_health act \<and> sh_issue h = activity_issue act))"
  note names = overview_names_known [OF assms(1) log_base_wf [OF assms(2)] assms(4,5) refl]
  have good: "?good (?entry n)" for n
  proof -
    obtain spans failed traces where st: "hm_count (0, 0, 0) (service_trace_stats E (ap_trace a)) n = (spans, failed, traces)"
      by (metis prod_cases3)
    show ?thesis
      using activity_counts [OF assms(1,2,3,5) refl st, of detailed] st [unfolded hm_count_def]
      by (auto simp: overview_entry_def overview_score activity_issue_def same_health hm_count_def Let_def)
  qed
  have numbers: "list_all (\<lambda>h. \<not> is_nan (sh_score h)) (map ?entry ?names)"
    using good score_number by (simp add: list_all_iff)
  have perm: "\<exists>hs. check_health E a = Inr hs \<and> mset hs = mset (map ?entry ?names) \<and> sorted (map (f64_units \<circ> sh_score) hs)"
  proof (cases "length ?names < 2")
    case True
    then have "sorted (map (f64_units \<circ> sh_score) (map ?entry ?names))"
      by (cases ?names rule: remdups_adj.cases) simp_all
    with True show ?thesis by (simp add: check_health_def partial_sort_def)
  next
    case False
    with numbers show ?thesis
      using sorted_sort_key [of "\<lambda>h. f64_units (sh_score h)" "map ?entry ?names"]
      by (simp add: check_health_def partial_sort_def comp_def)
  qed
  then obtain hs where hs: "check_health E a = Inr hs" "mset hs = mset (map ?entry ?names)"
    "sorted (map (f64_units \<circ> sh_score) hs)" by blast
  have "mset (map sh_service hs) = mset ?names"
    using arg_cong [OF hs(2), of "image_mset sh_service"] by (simp add: overview_entry_def Let_def case_prod_beta multiset.map_comp comp_def)
  then have "distinct (map sh_service hs)" "set (map sh_service hs) = set ?names"
    using names(1) mset_eq_imp_distinct_iff mset_eq_setD by blast+
  moreover have "list_all ?good hs" using good mset_eq_setD [OF hs(2)] by (auto simp: list_all_iff)
  ultimately show ?thesis using hs(1,3) names(2) by blast
qed

definition list_synth_env :: "(string list, string) synth_env" where
  "list_synth_env = \<lparr>sy_rodeo = list_rodeo, sy_regex = literal_regex, sy_fixed = (\<lambda>_ _. []), sy_fmt = (\<lambda>_. []),
     sy_sort_traces = Inr, sy_sort_services = Inr\<rparr>"

lemma sample_logs_plain: "stored_times_ok sample_logs" "one_service list_rodeo sample_logs n"
  by (simp_all add: stored_times_ok_def one_service_def stream_text_def resolve_labels_def sample_logs_def sample_entry_def
      log_eval in_i64_def i64_min_def i64_max_def)

lemma check_health_agrees_witness:
  "\<exists>hs. check_health list_synth_env sample_app = Inr hs \<and> distinct (map sh_service hs) \<and>
    set (map sh_service hs) = {n. any_signal list_rodeo sample_app n} \<and>
    list_all (\<lambda>h. \<exists>act. summarize_activity list_synth_env sample_app (sh_service h) None True = Inr act \<and>
      sh_score h = sa_health act) hs"
proof -
  have R: "sy_rodeo list_synth_env = list_rodeo" by (simp add: list_synth_env_def)
  have times: "stored_times_ok (ap_log sample_app)" and one: "one_service list_rodeo (ap_log sample_app) n" for n
    using sample_logs_plain by (simp_all add: sample_app_def)
  show ?thesis
    using check_health_agrees [of list_synth_env sample_app True, unfolded R, OF list_rodeo_laws sample_app_wf(1) times sample_app_wf(3,4)]
      one by (fastforce simp: list_all_iff)
qed

text \<open>
  A resource may carry the service label twice. The activity of the second service has the errors of
  such a stream; the overview counts them for the first only.
\<close>

definition twice_labelled :: "string list log_store" where
  "twice_labelled = log_ingest_stream list_rodeo [(''service'', ''api''), (''service'', ''web''), (''level'', ''error'')]
     [sample_entry 20 ''b'' None] (log_new list_rodeo)"

lemma twice_labelled_streams:
  "lg_streams twice_labelled = [(0, \<lparr>ls_labels = [(0, 1), (0, 2), (3, 4)], ls_entries = [sample_entry 20 ''b'' None]\<rparr>)]"
  "lg_interner twice_labelled = [''service'', ''api'', ''web'', ''level'', ''error'']"
  by (simp_all add: twice_labelled_def log_eval)

lemma twice_labelled_wf: "log_wf list_rodeo twice_labelled"
proof -
  have "lg_next_stream_id (log_new list_rodeo) < u64_max" by (simp add: log_new_def u64_max_def)
  from log_ingest_correct [OF list_rodeo_laws log_base_wf [OF log_new_wf] this] show ?thesis
    unfolding twice_labelled_def log_wf_def using log_new_wf unfolding log_wf_def by blast
qed

lemma second_service_label_missed:
  "hm_count 0 (log_errors list_synth_env twice_labelled) ''web'' = 0"
  "map_sum id length (kept_entries list_synth_env twice_labelled (error_matchers ''web'') None) = Inr 1"
proof -
  let ?s = twice_labelled and ?ids = "query_streams list_rodeo literal_regex twice_labelled (error_matchers ''web'')"
  have R: "sy_rodeo list_synth_env = list_rodeo" "sy_regex list_synth_env = literal_regex" by (simp_all add: list_synth_env_def)
  show "hm_count 0 (log_errors list_synth_env ?s) ''web'' = 0"
    by (simp add: log_errors_def R twice_labelled_streams list_rodeo_def stream_service_def hm_count_def hm_upsert_def)
  have valid: "\<forall>m \<in> set (error_matchers ''web''). matcher_valid literal_regex m"
    by (simp add: error_matchers_def service_matcher_def matcher_valid_def)
  note base = log_base_wf [OF twice_labelled_wf]
  have "distinct ?ids"
    unfolding query_streams_def
    by (rule select_distinct [OF list_rodeo_laws log_baseD(1) [OF base, unfolded log_labelled_def] valid])
  moreover have "set ?ids = {0}"
    unfolding query_streams_spec [OF list_rodeo_laws base valid] twice_labelled_streams
    by (auto simp: error_matchers_def service_matcher_def matcher_holds_def resolve_labels_def list_rodeo_def)
  ultimately have "?ids = [0]" by (cases ?ids rule: remdups_adj.cases) auto
  moreover have "stored_times_ok ?s"
    by (simp add: stored_times_ok_def twice_labelled_streams sample_entry_def in_i64_def i64_min_def i64_max_def)
  ultimately show "map_sum id length (kept_entries list_synth_env ?s (error_matchers ''web'') None) = Inr 1"
    using kept_entries_all [OF twice_labelled_wf _ R(1), of "error_matchers ''web''"]
    by (simp add: R entries_of_def twice_labelled_streams)
qed

end
