(* ===== verification/Mcp_Trees_Correct.thy ===== *)
theory Mcp_Trees_Correct
  imports Mcp_Trees Mcp_Synth_Correct
begin

text \<open>
  The span tree of a trace: when the spans have ids of their own and the parent links no cycle, the
  tree shows every span of the first 128 levels once, under its parent, in order of time. The levels of the spans carry the proof:
  what the nodes of one level contribute is their own share and what the next level contributes.
\<close>

section \<open>The links\<close>

definition parent_in :: "span_id set \<Rightarrow> span \<Rightarrow> span_id option" where
  "parent_in ids sp = (case sp_parent sp of None \<Rightarrow> None | Some p \<Rightarrow> if p \<in> ids then Some p else None)"

definition kids_of :: "span list \<Rightarrow> span_id \<Rightarrow> nat list" where
  "kids_of sps p = filter (\<lambda>i. parent_in (sp_span_id ` set sps) (sps ! i) = Some p) [0..<length sps]"

definition roots_of :: "span list \<Rightarrow> nat list" where
  "roots_of sps = filter (\<lambda>i. parent_in (sp_span_id ` set sps) (sps ! i) = None) [0..<length sps]"

lemma link_span_eq:
  "link_span present p links =
     (case parent_in (set present) (snd p) of
        None \<Rightarrow> (fst links, snd links @ [fst p])
      | Some q \<Rightarrow> (hm_upsert [] q (\<lambda>kids. kids @ [fst p]) (fst links), snd links))"
  by (simp add: link_span_def parent_in_def split: prod.split option.split)

lemma link_fold:
  "snd (fold (link_span present) ps links) = snd links @ map fst (filter (\<lambda>p. parent_in (set present) (snd p) = None) ps)"
  "(case hm_get (fst (fold (link_span present) ps links)) q of None \<Rightarrow> [] | Some kids \<Rightarrow> kids) =
     (case hm_get (fst links) q of None \<Rightarrow> [] | Some kids \<Rightarrow> kids) @
     map fst (filter (\<lambda>p. parent_in (set present) (snd p) = Some q) ps)"
  by (induction ps arbitrary: links) (auto simp: link_span_eq hm_simps split: option.splits)

lemma span_ids_set: "set (fold (\<lambda>sp. hs_insert (sp_span_id sp)) sps ids) = set ids \<union> sp_span_id ` set sps"
  by (induction sps arbitrary: ids) auto

lemma enumerate_filter: "map fst (filter (\<lambda>p. P (snd p)) (enumerate 0 xs)) = filter (\<lambda>i. P (xs ! i)) [0..<length xs]"
proof -
  have "enumerate 0 xs = map (\<lambda>i. (i, xs ! i)) [0..<length xs]"
    by (rule nth_equalityI) (simp_all add: nth_enumerate_eq)
  then show ?thesis by (simp add: filter_map comp_def)
qed

lemma link_spans_eq:
  "snd (link_spans sps) = roots_of sps"
  "(case hm_get (fst (link_spans sps)) q of None \<Rightarrow> [] | Some kids \<Rightarrow> kids) = kids_of sps q"
  using enumerate_filter [of "\<lambda>sp. parent_in (sp_span_id ` set sps) sp = None" sps]
    enumerate_filter [of "\<lambda>sp. parent_in (sp_span_id ` set sps) sp = Some q" sps]
  by (simp_all add: link_spans_def Let_def link_fold span_ids_set roots_of_def kids_of_def)

section \<open>Nodes and edges of a forest\<close>

fun tree_nodes :: "span_node \<Rightarrow> span_info multiset" where
  "tree_nodes (SpanNode s children) = {#s#} + (\<Sum>c \<leftarrow> children. tree_nodes c)"

fun tree_edges :: "span_node \<Rightarrow> (span_info \<times> span_info) multiset" where
  "tree_edges (SpanNode s children) =
     image_mset (\<lambda>c. (s, node_info c)) (mset children) + (\<Sum>c \<leftarrow> children. tree_edges c)"

fun tree_sorted :: "span_node \<Rightarrow> bool" where
  "tree_sorted (SpanNode s children) \<longleftrightarrow>
     sorted (map (\<lambda>c. si_start_ns (node_info c)) children) \<and> list_all tree_sorted children"

lemma sum_list_sort_key: "(\<Sum>x \<leftarrow> sort_key k xs. f x) = (\<Sum>x \<leftarrow> xs. f x)" for f :: "'a \<Rightarrow> 'b :: comm_monoid_add"
  by (metis mset_map mset_sort sum_mset_sum_list)

lemma node_info_build [simp]: "node_info (build_node below info sps children_of i) = info (sps ! i)"
  by (cases below) simp_all

lemma sorted_by_start: "sorted (map (\<lambda>c. si_start_ns (node_info c)) (sort_key (si_start_ns \<circ> node_info) cs))"
  using sorted_sort_key [of "si_start_ns \<circ> node_info" cs] by (simp add: comp_def)

lemma tree_sorted_build: "tree_sorted (build_node below info sps children_of i)"
  by (induction below arbitrary: i) (simp_all add: sorted_by_start list_all_iff split: option.split)

text \<open>A node contributes its own share and those of its kids.\<close>

definition kid_list :: "(span_id, nat list) hash_map \<Rightarrow> span list \<Rightarrow> nat \<Rightarrow> nat list" where
  "kid_list children_of sps i =
     (case hm_get children_of (sp_span_id (sps ! i)) of None \<Rightarrow> [] | Some kids \<Rightarrow> kids)"

lemma tree_nodes_build:
  "tree_nodes (build_node 0 info sps m i) = {#info (sps ! i)#}"
  "tree_nodes (build_node (Suc d) info sps m i) =
     {#info (sps ! i)#} + (\<Sum>c \<leftarrow> kid_list m sps i. tree_nodes (build_node d info sps m c))"
  by (simp_all add: sum_list_sort_key comp_def kid_list_def)

lemma tree_edges_build:
  "tree_edges (build_node 0 info sps m i) = {#}"
  "tree_edges (build_node (Suc d) info sps m i) =
     image_mset (\<lambda>c. (info (sps ! i), info (sps ! c))) (mset (kid_list m sps i)) +
     (\<Sum>c \<leftarrow> kid_list m sps i. tree_edges (build_node d info sps m c))"
  by (simp_all add: sum_list_sort_key comp_def kid_list_def multiset.map_comp)

section \<open>Levels\<close>

lemma sum_concat_map: "(\<Sum>c \<leftarrow> concat (map g xs). f c) = (\<Sum>x \<leftarrow> xs. \<Sum>c \<leftarrow> g x. f c)"
  for f :: "'a \<Rightarrow> 'b :: comm_monoid_add"
  by (induction xs) simp_all

lemma sum_list_mset: "mset xs = mset ys \<Longrightarrow> (\<Sum>x \<leftarrow> xs. f x) = (\<Sum>y \<leftarrow> ys. f y)"
  for f :: "'a \<Rightarrow> 'b :: comm_monoid_add"
  by (metis mset_map sum_mset_sum_list)

lemma levels_sum:
  fixes F :: "nat \<Rightarrow> nat \<Rightarrow> 'a multiset"
  assumes step: "\<And>d i. F (Suc d) i = h i + (\<Sum>c \<leftarrow> kids i. F d c)"
    and down: "\<And>k. mset (concat (map kids (at k))) = mset (at (Suc k))"
  shows "(\<Sum>i \<leftarrow> at k. F d i) = (\<Sum>i \<leftarrow> concat (map at [k..<k + d]). h i) + (\<Sum>i \<leftarrow> at (k + d). F 0 i)"
proof (induction d arbitrary: k)
  case (Suc d)
  have next_level: "(\<Sum>c \<leftarrow> concat (map kids (at k)). F d c) = (\<Sum>c \<leftarrow> at (Suc k). F d c)"
    by (rule sum_list_mset [OF down])
  have "(\<Sum>i \<leftarrow> at k. F (Suc d) i) = (\<Sum>i \<leftarrow> at k. h i) + (\<Sum>i \<leftarrow> at k. \<Sum>c \<leftarrow> kids i. F d c)"
    by (simp add: step sum_list_addf)
  also have "(\<Sum>i \<leftarrow> at k. \<Sum>c \<leftarrow> kids i. F d c) = (\<Sum>c \<leftarrow> concat (map kids (at k)). F d c)"
    by (simp only: sum_concat_map)
  also have "\<dots> = (\<Sum>i \<leftarrow> concat (map at [Suc k..<Suc k + d]). h i) + (\<Sum>i \<leftarrow> at (Suc k + d). F 0 i)"
    using Suc.IH [of "Suc k"] next_level by simp
  finally have "(\<Sum>i \<leftarrow> at k. F (Suc d) i) = (\<Sum>i \<leftarrow> at k. h i) +
      ((\<Sum>i \<leftarrow> concat (map at [Suc k..<Suc k + d]). h i) + (\<Sum>i \<leftarrow> at (Suc k + d). F 0 i))" .
  moreover have "[k..<k + Suc d] = k # [Suc k..<Suc k + d]" by (simp add: upt_conv_Cons del: upt_Suc)
  ultimately show ?case by (simp add: add.assoc del: upt_Suc)
qed simp

text \<open>Spans with ids of their own and without cycles: a level for each, one more than its parent's.\<close>

definition span_levels :: "(span_id \<Rightarrow> nat) \<Rightarrow> span list \<Rightarrow> bool" where
  "span_levels lvl sps \<longleftrightarrow> distinct (map sp_span_id sps) \<and> list_all (\<lambda>sp.
     (case parent_in (sp_span_id ` set sps) sp of
        None \<Rightarrow> lvl (sp_span_id sp) = 0
      | Some p \<Rightarrow> lvl (sp_span_id sp) = Suc (lvl p))) sps"

definition at_level :: "(span_id \<Rightarrow> nat) \<Rightarrow> span list \<Rightarrow> nat \<Rightarrow> nat list" where
  "at_level lvl sps k = filter (\<lambda>i. lvl (sp_span_id (sps ! i)) = k) [0..<length sps]"

lemma span_levelsD:
  assumes "span_levels lvl sps" and "i < length sps"
  shows "parent_in (sp_span_id ` set sps) (sps ! i) = None \<longleftrightarrow> lvl (sp_span_id (sps ! i)) = 0"
    and "parent_in (sp_span_id ` set sps) (sps ! i) = Some p \<Longrightarrow> lvl (sp_span_id (sps ! i)) = Suc (lvl p)"
  using assms unfolding span_levels_def list_all_iff
  by (auto dest: bspec [OF _ nth_mem [OF assms(2)]] split: option.splits)

lemma parent_present: "parent_in ids sp = Some p \<Longrightarrow> p \<in> ids"
  by (simp add: parent_in_def split: option.splits if_splits)

lemma level_kids:
  assumes "span_levels lvl sps"
  shows "mset (concat (map (\<lambda>i. kids_of sps (sp_span_id (sps ! i))) (at_level lvl sps k))) = mset (at_level lvl sps (Suc k))"
proof -
  let ?sid = "\<lambda>i. sp_span_id (sps ! i)" and ?par = "\<lambda>i. parent_in (sp_span_id ` set sps) (sps ! i)"
  note L = span_levelsD [OF assms]
  have dist: "distinct (map ?sid (at_level lvl sps k))"
  proof -
    have "inj_on ?sid {..<length sps}"
      using assms by (auto simp: span_levels_def inj_on_def distinct_conv_nth)
    then show ?thesis by (simp add: distinct_map at_level_def inj_on_def)
  qed
  have par: "\<exists>p. ?par j = Some p \<and> p \<in> ?sid ` set (at_level lvl sps k)" if "j \<in> set (at_level lvl sps (Suc k))" for j
  proof -
    have j: "j < length sps" "lvl (?sid j) = Suc k" using that by (simp_all add: at_level_def)
    then obtain p where p: "?par j = Some p" using L(1) by fastforce
    then have "lvl p = k" using L(2) [OF j(1) p] j(2) by simp
    moreover obtain i where "i < length sps" "p = ?sid i"
      using parent_present [OF p] by (auto simp: in_set_conv_nth)
    ultimately show ?thesis using p by (auto simp: at_level_def)
  qed
  have kids: "kids_of sps (?sid i) = filter (\<lambda>j. the (?par j) = ?sid i) (at_level lvl sps (Suc k))"
    if "i \<in> set (at_level lvl sps k)" for i
    unfolding kids_of_def at_level_def filter_filter
  proof (rule filter_cong [OF refl])
    fix j assume "j \<in> set [0..<length sps]"
    then have j: "j < length sps" by simp
    then show "(?par j = Some (?sid i)) = (lvl (?sid j) = Suc k \<and> the (?par j) = ?sid i)"
      using L [OF j] that by (cases "?par j") (auto simp: at_level_def)
  qed
  have "mset (concat (map (\<lambda>i. kids_of sps (?sid i)) (at_level lvl sps k))) =
      (\<Sum>i \<leftarrow> at_level lvl sps k. mset (filter (\<lambda>j. the (?par j) = ?sid i) (at_level lvl sps (Suc k))))"
    by (simp add: mset_concat comp_def kids cong: map_cong)
  also have "\<dots> = (\<Sum>q \<leftarrow> map ?sid (at_level lvl sps k). mset (filter (\<lambda>j. the (?par j) = q) (at_level lvl sps (Suc k))))"
    by (simp add: comp_def)
  also have "\<dots> = mset (at_level lvl sps (Suc k))"
    by (rule mset_split [OF dist]) (use par in force)
  finally show ?thesis .
qed

text \<open>The spans of the first \<open>n\<close> levels.\<close>

definition above :: "(span_id \<Rightarrow> nat) \<Rightarrow> nat \<Rightarrow> span list \<Rightarrow> span list" where
  "above lvl n sps = filter (\<lambda>sp. lvl (sp_span_id sp) < n) sps"

lemma levels_all:
  "mset (concat (map (at_level lvl sps) [0..<n])) = mset (filter (\<lambda>i. lvl (sp_span_id (sps ! i)) < n) [0..<length sps])"
proof -
  let ?lvl = "\<lambda>i. lvl (sp_span_id (sps ! i))"
  let ?is = "filter (\<lambda>i. ?lvl i < n) [0..<length sps]"
  have "mset (concat (map (at_level lvl sps) [0..<n])) = (\<Sum>k \<leftarrow> [0..<n]. mset (filter (\<lambda>i. ?lvl i = k) ?is))"
  proof -
    have "at_level lvl sps k = filter (\<lambda>i. ?lvl i = k) ?is" if "k < n" for k
      using that unfolding at_level_def filter_filter by (intro filter_cong) auto
    then have "map (\<lambda>k. mset (at_level lvl sps k)) [0..<n] = map (\<lambda>k. mset (filter (\<lambda>i. ?lvl i = k) ?is)) [0..<n]"
      by (intro map_cong refl) (simp only: atLeastLessThan_iff set_upt)
    then show ?thesis by (simp only: mset_concat map_map comp_def)
  qed
  also have "\<dots> = mset ?is" by (rule mset_split) auto
  finally show ?thesis .
qed

lemma sum_singletons: "(\<Sum>x \<leftarrow> xs. {#f x#}) = mset (map f xs)"
  by (induction xs) simp_all

lemma filter_indexes: "map (nth xs) (filter (\<lambda>i. P (xs ! i)) [0..<length xs]) = filter P xs"
proof -
  have "filter P (map (nth xs) [0..<length xs]) = map (nth xs) (filter (\<lambda>i. P (xs ! i)) [0..<length xs])"
    by (simp add: filter_map comp_def)
  then show ?thesis by (simp add: map_nth)
qed

section \<open>The tree\<close>

lemma forest_sum:
  fixes F :: "nat \<Rightarrow> nat \<Rightarrow> 'a multiset"
  assumes lv: "span_levels lvl sps"
    and step: "\<And>d i. F (Suc d) i = h i + (\<Sum>c \<leftarrow> kids_of sps (sp_span_id (sps ! i)). F d c)"
  shows "(\<Sum>i \<leftarrow> roots_of sps. F d i) =
    (\<Sum>i \<leftarrow> filter (\<lambda>i. lvl (sp_span_id (sps ! i)) < d) [0..<length sps]. h i) + (\<Sum>i \<leftarrow> at_level lvl sps d. F 0 i)"
proof -
  have roots: "roots_of sps = at_level lvl sps 0"
    unfolding roots_of_def at_level_def using span_levelsD(1) [OF lv] by (intro filter_cong) auto
  have "(\<Sum>i \<leftarrow> at_level lvl sps 0. F d i) =
      (\<Sum>i \<leftarrow> concat (map (at_level lvl sps) [0..<0 + d]). h i) + (\<Sum>i \<leftarrow> at_level lvl sps (0 + d). F 0 i)"
    by (rule levels_sum [where kids = "\<lambda>i. kids_of sps (sp_span_id (sps ! i))" and F = F and h = h and at = "at_level lvl sps",
        OF step level_kids [OF lv]])
  moreover have "(\<Sum>i \<leftarrow> concat (map (at_level lvl sps) [0..<d]). h i) =
      (\<Sum>i \<leftarrow> filter (\<lambda>i. lvl (sp_span_id (sps ! i)) < d) [0..<length sps]. h i)"
    by (rule sum_list_mset [OF levels_all])
  ultimately show ?thesis by (simp add: roots)
qed

lemma sum_indexes: "(\<Sum>i \<leftarrow> filter (\<lambda>i. P (xs ! i)) [0..<length xs]. f (xs ! i)) = (\<Sum>x \<leftarrow> filter P xs. f x)"
  for f :: "'b \<Rightarrow> 'a :: comm_monoid_add"
  using arg_cong [OF filter_indexes [of xs P], of "map f"] by (simp add: comp_def)

lemma forest_nodes:
  assumes "span_levels lvl sps"
  shows "(\<Sum>r \<leftarrow> span_forest info sps. tree_nodes r) = mset (map info (above lvl max_depth sps))"
proof -
  let ?F = "\<lambda>d i. tree_nodes (build_node d info sps (fst (link_spans sps)) i)" and ?d = "max_depth - 1"
  let ?lvl = "\<lambda>sp :: span. lvl (sp_span_id sp)"
  have "(\<Sum>i \<leftarrow> roots_of sps. ?F ?d i) =
      (\<Sum>i \<leftarrow> filter (\<lambda>i. ?lvl (sps ! i) < ?d) [0..<length sps]. {#info (sps ! i)#}) +
      (\<Sum>i \<leftarrow> at_level lvl sps ?d. ?F 0 i)"
    by (rule forest_sum [OF assms]) (simp only: tree_nodes_build kid_list_def link_spans_eq)
  also have "\<dots> = (\<Sum>sp \<leftarrow> filter (\<lambda>sp. ?lvl sp < ?d) sps. {#info sp#}) + (\<Sum>sp \<leftarrow> filter (\<lambda>sp. ?lvl sp = ?d) sps. {#info sp#})"
    by (simp only: tree_nodes_build at_level_def sum_indexes [where P = "\<lambda>sp. ?lvl sp < ?d" and f = "\<lambda>sp. {#info sp#}"]
        sum_indexes [where P = "\<lambda>sp. ?lvl sp = ?d" and f = "\<lambda>sp. {#info sp#}"])
  also have "\<dots> = mset (map info (above lvl max_depth sps))"
    by (simp only: sum_singletons above_def) (induction sps; simp add: max_depth_def less_Suc_eq)
  finally show ?thesis
    by (simp add: span_forest_def case_prod_beta sum_list_sort_key comp_def link_spans_eq)
qed

lemma kids_spans:
  assumes "i < length sps"
  shows "map (nth sps) (kids_of sps (sp_span_id (sps ! i))) =
    filter (\<lambda>c. sp_parent c = Some (sp_span_id (sps ! i))) sps"
proof -
  have "parent_in (sp_span_id ` set sps) c = Some (sp_span_id (sps ! i)) \<longleftrightarrow> sp_parent c = Some (sp_span_id (sps ! i))" for c
    using assms by (auto simp: parent_in_def split: option.split)
  then show ?thesis
    using filter_indexes [where P = "\<lambda>c. parent_in (sp_span_id ` set sps) c = Some (sp_span_id (sps ! i))" and xs = sps]
    by (simp add: kids_of_def)
qed

text \<open>The pairs of a parent among the first spans and a child among the second.\<close>

definition parent_pairs :: "(span \<Rightarrow> span_info) \<Rightarrow> span list \<Rightarrow> span list \<Rightarrow> (span_info \<times> span_info) list" where
  "parent_pairs info parents sps =
     concat (map (\<lambda>p. map (\<lambda>c. (info p, info c)) (filter (\<lambda>c. sp_parent c = Some (sp_span_id p)) sps)) parents)"

lemma forest_edges:
  assumes "span_levels lvl sps"
  shows "(\<Sum>r \<leftarrow> span_forest info sps. tree_edges r) = mset (parent_pairs info (above lvl (max_depth - 1) sps) sps)"
proof -
  let ?F = "\<lambda>d i. tree_edges (build_node d info sps (fst (link_spans sps)) i)" and ?d = "max_depth - 1"
  let ?h = "\<lambda>i. image_mset (\<lambda>c. (info (sps ! i), info (sps ! c))) (mset (kids_of sps (sp_span_id (sps ! i))))"
  let ?pairs = "\<lambda>p. map (\<lambda>c. (info p, info c)) (filter (\<lambda>c. sp_parent c = Some (sp_span_id p)) sps)"
  let ?high = "filter (\<lambda>i. lvl (sp_span_id (sps ! i)) < ?d) [0..<length sps]"
  have "(\<Sum>i \<leftarrow> roots_of sps. ?F ?d i) = (\<Sum>i \<leftarrow> ?high. ?h i) + (\<Sum>i \<leftarrow> at_level lvl sps ?d. ?F 0 i)"
    by (rule forest_sum [OF assms]) (simp only: tree_edges_build kid_list_def link_spans_eq)
  also have "\<dots> = (\<Sum>i \<leftarrow> ?high. ?h i)" by (simp add: tree_edges_build)
  also have "\<dots> = (\<Sum>i \<leftarrow> ?high. mset (?pairs (sps ! i)))"
  proof -
    have "?h i = mset (?pairs (sps ! i))" if "i < length sps" for i
      by (simp only: mset_map [symmetric] kids_spans [OF that, symmetric] map_map comp_def)
    then show ?thesis by (intro arg_cong [where f = sum_list] map_cong refl) simp
  qed
  also have "\<dots> = mset (parent_pairs info (above lvl ?d sps) sps)"
    using sum_indexes [where P = "\<lambda>sp. lvl (sp_span_id sp) < ?d" and xs = sps and f = "\<lambda>p. mset (?pairs p)"]
    by (simp only: parent_pairs_def above_def mset_concat map_map comp_def)
  finally show ?thesis
    by (simp add: span_forest_def case_prod_beta sum_list_sort_key comp_def link_spans_eq)
qed

lemma forest_sorted:
  "sorted (map (\<lambda>c. si_start_ns (node_info c)) (span_forest info sps)) \<and> list_all tree_sorted (span_forest info sps)"
  by (simp add: span_forest_def case_prod_beta sorted_by_start list_all_iff tree_sorted_build)


text \<open>
  C38: the tree of a trace whose spans have ids of their own and whose parent links have no cycle shows
  its first 128 levels and nothing below them: its nodes are the spans of these levels, each once; its
  edges are exactly the pairs of a span above the last of them and a span that names it as parent;
  roots and children are in order of their start times. A trace of no more levels is shown completely.
\<close>

theorem span_tree_complete:
  assumes "get_trace s t = Some sps" and "span_levels lvl sps"
  shows "\<exists>roots. build_trace_tree E s t detailed = Some (hex_encode t, roots) \<and>
    (\<Sum>r \<leftarrow> roots. tree_nodes r) = mset (map (span_info_of E (ts_interner s) detailed)
      (filter (\<lambda>sp. lvl (sp_span_id sp) < 128) sps)) \<and>
    (\<Sum>r \<leftarrow> roots. tree_edges r) = mset (parent_pairs (span_info_of E (ts_interner s) detailed)
      (filter (\<lambda>sp. lvl (sp_span_id sp) < 127) sps) sps) \<and>
    sorted (map (\<lambda>r. si_start_ns (node_info r)) roots) \<and> list_all tree_sorted roots"
  using assms(1) forest_nodes [OF assms(2)] forest_edges [OF assms(2)] forest_sorted
  by (simp add: build_trace_tree_def above_def max_depth_def)

lemma span_tree_complete_witness:
  "\<exists>roots. build_trace_tree list_synth_env family_traces [9] True = Some (hex_encode [9], roots) \<and>
    (\<Sum>r \<leftarrow> roots. tree_nodes r) = mset (map (span_info_of list_synth_env family_interner True) family_spans) \<and>
    sorted (map (\<lambda>r. si_start_ns (node_info r)) roots)"
proof -
  have stored: "get_trace family_traces [9] = Some family_spans" by (simp add: get_trace_def family_stored)
  have levels: "span_levels (\<lambda>i. unat (hd i) - 1) family_spans"
    by (simp add: span_levels_def family_spans_def family_span_def parent_in_def)
  have "filter (\<lambda>sp. unat (hd (sp_span_id sp)) - 1 < 128) family_spans = family_spans"
    by (simp add: family_spans_def family_span_def)
  from span_tree_complete [OF stored levels, of list_synth_env True, unfolded this] show ?thesis
    by (auto simp: family_stored)
qed

text \<open>A span that lies deeper is a node of no tree, though its trace has no cycle.\<close>

lemma deep_spans_dropped:
  assumes "get_trace s t = Some sps" and "span_levels lvl sps"
  shows "\<exists>roots. build_trace_tree E s t detailed = Some (hex_encode t, roots) \<and>
    size (\<Sum>r \<leftarrow> roots. tree_nodes r) + length (filter (\<lambda>sp. 128 \<le> lvl (sp_span_id sp)) sps) = length sps"
proof -
  have "length (above lvl max_depth sps) + length (filter (\<lambda>sp. 128 \<le> lvl (sp_span_id sp)) sps) = length sps"
    using sum_length_filter_compl [of "\<lambda>sp. lvl (sp_span_id sp) < 128" sps]
    by (simp add: above_def max_depth_def not_less)
  with assms(1) forest_nodes [OF assms(2)] show ?thesis by (simp add: build_trace_tree_def)
qed

section \<open>Spans that share an id\<close>

text \<open>
  Spans of one id each get the children of that id: two spans that name their own id as parent, below
  a root of the same id, double the tree at every level down to the limit.
\<close>

lemma twin_kids:
  assumes "sp_span_id a = X" "sp_span_id b = X" "sp_span_id c = X"
    and "sp_parent a = None" "sp_parent b = Some X" "sp_parent c = Some X"
  shows "kids_of [a, b, c] X = [1, 2]" and "roots_of [a, b, c] = [0]"
  using assms by (simp_all add: kids_of_def roots_of_def parent_in_def upt_conv_Cons)

lemma duplicate_ids_blow_up:
  assumes "sp_span_id a = X" "sp_span_id b = X" "sp_span_id c = X"
    and "sp_parent a = None" "sp_parent b = Some X" "sp_parent c = Some X"
  shows "size (\<Sum>r \<leftarrow> span_forest info [a, b, c]. tree_nodes r) = 2 ^ 128 - 1"
proof -
  let ?m = "fst (link_spans [a, b, c])"
  note twins = twin_kids [OF assms]
  have kids: "kid_list ?m [a, b, c] i = [1, 2]" if "i \<le> 2" for i
  proof -
    have "i = 0 \<or> i = 1 \<or> i = 2" using that by arith
    then have "sp_span_id ([a, b, c] ! i) = X" using assms(1,2,3) by auto
    then show ?thesis by (simp only: kid_list_def link_spans_eq twins)
  qed
  have grow: "i \<le> 2 \<Longrightarrow> size (tree_nodes (build_node d info [a, b, c] ?m i)) + 1 = 2 ^ Suc d" for d i
  proof (induction d arbitrary: i)
    case (Suc d)
    have "size (tree_nodes (build_node d info [a, b, c] ?m 1)) + 1 = 2 ^ Suc d"
      and "size (tree_nodes (build_node d info [a, b, c] ?m 2)) + 1 = 2 ^ Suc d"
      using Suc.IH by simp_all
    then show ?case using kids [OF Suc.prems] by (simp only: tree_nodes_build) simp
  qed (simp add: tree_nodes_build)
  have "(\<Sum>r \<leftarrow> span_forest info [a, b, c]. tree_nodes r) = tree_nodes (build_node (max_depth - 1) info [a, b, c] ?m 0)"
    by (simp add: span_forest_def case_prod_beta sum_list_sort_key comp_def link_spans_eq twins del: build_node.simps tree_nodes.simps)
  then show ?thesis using grow [of 0 "max_depth - 1"] by (simp add: max_depth_def)
qed

end
