(* ===== verification/Mcp_Args.thy ===== *)
theory Mcp_Args
  imports Api_Views
begin

text \<open>
  The typed arguments of the MCP tools, \<open>src/mcp/tools/args\<close>: the fields each tool declares, the
  JSON schema generated from them, the check of a call against that schema, and the reading of the
  arguments that passed. The texts serde prints are parameters.
\<close>

section \<open>Declarations and schemas\<close>

datatype arg_type = ArgString | ArgU64 | ArgEnum "string list"

record arg_field =
  af_name :: string
  af_type :: arg_type
  af_optional :: bool

record tool_args =
  ta_tool :: string
  ta_fields :: "arg_field list"

definition arg_schema :: "arg_type \<Rightarrow> json" where
  "arg_schema t =
     (case t of
        ArgString \<Rightarrow> json_map [(''type'', JString ''string'')]
      | ArgU64 \<Rightarrow> json_map [(''type'', JString ''integer''), (''minimum'', JInt 0), (''maximum'', JInt (int u64_max))]
      | ArgEnum vs \<Rightarrow> json_map [(''type'', JString ''string''), (''enum'', json_strings vs)])"

definition required_names :: "tool_args \<Rightarrow> string list" where
  "required_names T = map af_name (filter (\<lambda>f. \<not> af_optional f) (ta_fields T))"

definition args_schema :: "tool_args \<Rightarrow> json" where
  "args_schema T = json_map
     ([(''type'', JString ''object''),
       (''properties'', json_map (map (\<lambda>f. (af_name f, arg_schema (af_type f))) (ta_fields T))),
       (''additionalProperties'', JBool False)] @
      (if required_names T = [] then [] else [(''required'', json_strings (required_names T))]))"

section \<open>The check against a schema\<close>

definition as_str :: "json \<Rightarrow> string option" where
  "as_str v = (case v of JString s \<Rightarrow> Some s | _ \<Rightarrow> None)"

definition as_array :: "json \<Rightarrow> json list option" where
  "as_array v = (case v of JArray xs \<Rightarrow> Some xs | _ \<Rightarrow> None)"

definition as_object :: "json \<Rightarrow> (string \<times> json) list option" where
  "as_object v = (case v of JObject m \<Rightarrow> Some m | _ \<Rightarrow> None)"

definition is_u64 :: "json \<Rightarrow> bool" where
  "is_u64 v = (case v of JInt n \<Rightarrow> 0 \<le> n \<and> n \<le> int u64_max | _ \<Rightarrow> False)"

definition is_number :: "json \<Rightarrow> bool" where
  "is_number v = (case v of JInt n \<Rightarrow> True | JFloat x \<Rightarrow> True | _ \<Rightarrow> False)"

definition type_matches :: "string \<Rightarrow> json \<Rightarrow> bool" where
  "type_matches expected v =
     (if expected = ''string'' then as_str v \<noteq> None
      else if expected = ''integer'' then is_u64 v
      else if expected = ''number'' then is_number v
      else if expected = ''boolean'' then (case v of JBool b \<Rightarrow> True | _ \<Rightarrow> False)
      else if expected = ''object'' then as_object v \<noteq> None
      else if expected = ''array'' then as_array v \<noteq> None
      else True)"

definition type_expectation :: "string \<Rightarrow> string" where
  "type_expectation expected =
     (if expected = ''integer'' then ''a non-negative integer''
      else if expected = ''string'' then ''a string''
      else if expected = ''number'' then ''a number''
      else if expected = ''boolean'' then ''a boolean''
      else if expected = ''object'' then ''an object''
      else if expected = ''array'' then ''an array''
      else expected)"

definition type_name :: "json \<Rightarrow> string" where
  "type_name v =
     (case v of JNull \<Rightarrow> ''null'' | JBool b \<Rightarrow> ''boolean'' | JInt n \<Rightarrow> if is_u64 v then ''integer'' else ''number''
      | JFloat x \<Rightarrow> ''number'' | JString s \<Rightarrow> ''string'' | JArray xs \<Rightarrow> ''array'' | JObject m \<Rightarrow> ''object'')"

text \<open>The dash of the messages, in UTF-8.\<close>

definition em_dash :: string where "em_dash = [CHR 0xE2, CHR 0x80, CHR 0x94]"

definition prop_names :: "(string \<times> json) list \<Rightarrow> string list \<Rightarrow> string" where
  "prop_names props exclude = join '', '' (sort (filter (\<lambda>n. n \<notin> set exclude) (map fst props)))"

definition unknown_argument :: "string \<Rightarrow> (string \<times> json) list \<Rightarrow> string \<Rightarrow> string" where
  "unknown_argument tool props key =
     ''unknown argument `'' @ key @ ''` '' @ em_dash @ '' '' @
     (if props = [] then tool @ '' takes no arguments'' else tool @ '' accepts: '' @ prop_names props []) @
     ''. Undeclared keys are not filters: they are never applied, so the result would have looked filtered when it was not. For span/resource attributes use a raw query string.''"

definition enum_problem :: "(json \<Rightarrow> string) \<Rightarrow> string \<Rightarrow> json \<Rightarrow> json \<Rightarrow> string option" where
  "enum_problem show_json key spec v =
     (case Option.bind (json_get ''enum'' spec) as_array of
        None \<Rightarrow> None
      | Some allowed \<Rightarrow>
          if v \<in> set allowed then None
          else Some (''invalid `'' @ key @ ''`: '' @ show_json v @ ''. Valid values: '' @ join '', '' (map show_json allowed)))"

definition value_problem :: "(json \<Rightarrow> string) \<Rightarrow> string \<Rightarrow> json \<Rightarrow> json \<Rightarrow> string option" where
  "value_problem show_json key spec v =
     (case Option.bind (json_get ''type'' spec) as_str of
        None \<Rightarrow> enum_problem show_json key spec v
      | Some expected \<Rightarrow>
          if type_matches expected v then enum_problem show_json key spec v
          else Some (''argument `'' @ key @ ''` must be '' @ type_expectation expected @ '', got '' @ type_name v @ '' ('' @
            show_json v @ ''). A value the handler cannot read is read as absent, so its filter would never have been applied.''))"

fun given_problem ::
  "(json \<Rightarrow> string) \<Rightarrow> string \<Rightarrow> (string \<times> json) list \<Rightarrow> (string \<times> json) list \<Rightarrow> string option" where
  "given_problem show_json tool props [] = None"
| "given_problem show_json tool props ((key, v) # rest) =
     (case map_of props key of
        None \<Rightarrow> Some (unknown_argument tool props key)
      | Some spec \<Rightarrow>
          (case value_problem show_json key spec v of
             Some m \<Rightarrow> Some m
           | None \<Rightarrow> given_problem show_json tool props rest))"

definition missing_argument :: "string \<Rightarrow> (string \<times> json) list \<Rightarrow> string list \<Rightarrow> string \<Rightarrow> string" where
  "missing_argument tool props required missing =
     (let optional = prop_names props required
      in ''missing required argument `'' @ missing @ ''` '' @ em_dash @ '' '' @ tool @ '' requires: '' @ join '', '' required @
         (if optional = [] then [] else ''; optional: '' @ optional))"

definition schema_required :: "json \<Rightarrow> string list" where
  "schema_required schema =
     (case Option.bind (json_get ''required'' schema) as_array of None \<Rightarrow> [] | Some ks \<Rightarrow> List.map_filter as_str ks)"

definition problem :: "(json \<Rightarrow> string) \<Rightarrow> string \<Rightarrow> json \<Rightarrow> json \<Rightarrow> string option" where
  "problem show_json tool schema args =
     (case Option.bind (json_get ''properties'' schema) as_object of
        None \<Rightarrow> None
      | Some props \<Rightarrow>
          (case as_object args of
             None \<Rightarrow> None
           | Some given \<Rightarrow>
               (case given_problem show_json tool props given of
                  Some m \<Rightarrow> Some m
                | None \<Rightarrow>
                    map_option (missing_argument tool props (schema_required schema))
                      (find (\<lambda>k. map_of given k = None) (schema_required schema)))))"

section \<open>Reading arguments\<close>

datatype arg_value = AvString string | AvU64 u64

type_synonym read_arguments = "string \<Rightarrow> arg_value option"

fun read_arg :: "arg_type \<Rightarrow> json \<Rightarrow> arg_value option" where
  "read_arg ArgString (JString s) = Some (AvString s)"
| "read_arg ArgU64 (JInt n) = (if 0 \<le> n \<and> n \<le> int u64_max then Some (AvU64 (nat n)) else None)"
| "read_arg (ArgEnum vs) (JString s) = (if s \<in> set vs then Some (AvString s) else None)"
| "read_arg _ _ = None"

text \<open>One field: an optional one may be absent or null.\<close>

definition read_field :: "(string \<times> json) list \<Rightarrow> arg_field \<Rightarrow> arg_value option option" where
  "read_field given f =
     (case map_of given (af_name f) of
        None \<Rightarrow> if af_optional f then Some None else None
      | Some v \<Rightarrow> if af_optional f \<and> v = JNull then Some None else map_option Some (read_arg (af_type f) v))"

text \<open>\<open>from_value\<close> with \<open>deny_unknown_fields\<close>; \<open>None\<close> is an error of serde.\<close>

definition from_value :: "tool_args \<Rightarrow> json \<Rightarrow> read_arguments option" where
  "from_value T args =
     (case as_object args of
        None \<Rightarrow> None
      | Some given \<Rightarrow>
          if list_ex (\<lambda>(k, v). k \<notin> set (map af_name (ta_fields T))) given \<or>
             list_ex (\<lambda>f. read_field given f = None) (ta_fields T)
          then None
          else Some (\<lambda>k. case find (\<lambda>f. af_name f = k) (ta_fields T) of
                 None \<Rightarrow> None
               | Some f \<Rightarrow> Option.bind (read_field given f) (\<lambda>v. v)))"

definition parse_args :: "(json \<Rightarrow> string) \<Rightarrow> (tool_args \<Rightarrow> json \<Rightarrow> string) \<Rightarrow> tool_args \<Rightarrow> json \<Rightarrow> string + read_arguments" where
  "parse_args show_json serde_error T args =
     (case problem show_json (ta_tool T) (args_schema T) args of
        Some m \<Rightarrow> Inl m
      | None \<Rightarrow>
          (case from_value T args of
             None \<Rightarrow> Inl (ta_tool T @ '' could not read these arguments: '' @ serde_error T args)
           | Some vals \<Rightarrow> Inr vals))"

definition arg_string :: "read_arguments \<Rightarrow> string \<Rightarrow> string option" where
  "arg_string vals k = (case vals k of Some (AvString s) \<Rightarrow> Some s | _ \<Rightarrow> None)"

definition arg_u64 :: "read_arguments \<Rightarrow> string \<Rightarrow> u64 option" where
  "arg_u64 vals k = (case vals k of Some (AvU64 n) \<Rightarrow> Some n | _ \<Rightarrow> None)"

section \<open>The tools\<close>

definition field :: "string \<Rightarrow> arg_type \<Rightarrow> arg_field" where
  "field name t = \<lparr>af_name = name, af_type = t, af_optional = False\<rparr>"

definition optional_field :: "string \<Rightarrow> arg_type \<Rightarrow> arg_field" where
  "optional_field name t = \<lparr>af_name = name, af_type = t, af_optional = True\<rparr>"

definition reset_scope :: arg_type where "reset_scope = ArgEnum [''all'', ''service'']"
definition detail_level :: arg_type where "detail_level = ArgEnum [''concise'', ''detailed'']"
definition trace_status :: arg_type where "trace_status = ArgEnum [''error'', ''ok'', ''unset'']"

definition wants_extras :: "string option \<Rightarrow> bool" where
  "wants_extras detail \<longleftrightarrow> detail = Some ''detailed''"

definition reset_args :: tool_args where
  "reset_args = \<lparr>ta_tool = ''reset'', ta_fields = [field ''scope'' reset_scope, optional_field ''service'' ArgString]\<rparr>"

definition mark_checkpoint_args :: tool_args where
  "mark_checkpoint_args = \<lparr>ta_tool = ''mark_checkpoint'', ta_fields = []\<rparr>"

definition summarize_activity_args :: tool_args where
  "summarize_activity_args = \<lparr>ta_tool = ''summarize_activity'', ta_fields = [field ''service'' ArgString,
     optional_field ''since'' ArgU64, optional_field ''detail'' detail_level]\<rparr>"

definition check_health_args :: tool_args where
  "check_health_args = \<lparr>ta_tool = ''check_health'', ta_fields = []\<rparr>"

definition query_logs_args :: tool_args where
  "query_logs_args = \<lparr>ta_tool = ''query_logs'', ta_fields = [optional_field ''service'' ArgString,
     optional_field ''level'' ArgString, optional_field ''contains'' ArgString, optional_field ''limit'' ArgU64,
     optional_field ''logql'' ArgString]\<rparr>"

definition query_traces_args :: tool_args where
  "query_traces_args = \<lparr>ta_tool = ''query_traces'', ta_fields = [optional_field ''service'' ArgString,
     optional_field ''name'' ArgString, optional_field ''status'' trace_status,
     optional_field ''min_duration'' ArgString, optional_field ''limit'' ArgU64, optional_field ''traceql'' ArgString]\<rparr>"

definition query_metrics_args :: tool_args where
  "query_metrics_args = \<lparr>ta_tool = ''query_metrics'', ta_fields = [field ''promql'' ArgString,
     optional_field ''start'' ArgString, optional_field ''end'' ArgString, optional_field ''step'' ArgString]\<rparr>"

definition get_trace_args :: tool_args where
  "get_trace_args = \<lparr>ta_tool = ''get_trace'', ta_fields = [field ''trace_id'' ArgString, optional_field ''detail'' detail_level]\<rparr>"

definition list_services_args :: tool_args where
  "list_services_args = \<lparr>ta_tool = ''list_services'', ta_fields = []\<rparr>"

definition describe_service_args :: tool_args where
  "describe_service_args = \<lparr>ta_tool = ''describe_service'', ta_fields = [field ''service'' ArgString]\<rparr>"

end
