(* ===== verification/Mcp_Tools.thy ===== *)
theory Mcp_Tools
  imports Mcp_Args Mcp_Trees Traceql_Handlers Logql_Handlers Promql_Handlers
begin

text \<open>
  The MCP tools, \<open>src/mcp/tools\<close>: the handlers and the table that dispatches a call. Only \<open>reset\<close>
  changes the stores. A handler that panics takes the response with it.
\<close>

record ('i, 'r, 'v) mcp_env =
  mc_synth :: "('i, 'r) synth_env"
  mc_log :: "('i, 'r, 'v) log_env"
  mc_eval :: "('i, 'r) eval_env"
  mc_prom :: "('i, 'r) prom_env"
  mc_nom :: nom_ops
  mc_nom_text :: "string \<Rightarrow> error_kind \<Rightarrow> string"
  mc_json_text :: "json \<Rightarrow> string"
  mc_serde_error :: "tool_args \<Rightarrow> json \<Rightarrow> string"
  mc_clock :: int

abbreviation mc_rodeo :: "('i, 'r, 'v) mcp_env \<Rightarrow> 'i rodeo_ops" where
  "mc_rodeo E \<equiv> sy_rodeo (mc_synth E)"

section \<open>Responses\<close>

definition rpc_success :: "json option \<Rightarrow> json \<Rightarrow> json" where
  "rpc_success id_value result = json_map [(''jsonrpc'', JString ''2.0''),
     (''id'', case id_value of None \<Rightarrow> JNull | Some v \<Rightarrow> v), (''result'', result)]"

definition rpc_error :: "json option \<Rightarrow> int \<Rightarrow> string \<Rightarrow> json" where
  "rpc_error id_value code message = json_map [(''jsonrpc'', JString ''2.0''),
     (''id'', case id_value of None \<Rightarrow> JNull | Some v \<Rightarrow> v),
     (''error'', json_map [(''code'', JInt code), (''message'', JString message)])]"

definition text_content :: "string \<Rightarrow> json" where
  "text_content t = JArray [json_map [(''type'', JString ''text''), (''text'', JString t)]]"

definition tool_ok :: "json option \<Rightarrow> json \<Rightarrow> string \<Rightarrow> json" where
  "tool_ok id_value structured message = rpc_success id_value (json_map [(''content'', text_content message),
     (''structuredContent'', structured), (''isError'', JBool False)])"

definition tool_err :: "json option \<Rightarrow> string \<Rightarrow> json" where
  "tool_err id_value message = rpc_success id_value (json_map [(''content'', text_content message), (''isError'', JBool True)])"

section \<open>What handlers share\<close>

definition known_services :: "'i rodeo_ops \<Rightarrow> 'i app_state \<Rightarrow> string list" where
  "known_services R a = sort (collect_all_services R a)"

text \<open>The message that refuses a service, if there is one.\<close>

definition unknown_service :: "'i rodeo_ops \<Rightarrow> 'i app_state \<Rightarrow> string \<Rightarrow> string option" where
  "unknown_service R a service =
     (if service = [] then Some ''`service` must not be empty''
      else if service \<in> set (known_services R a) then None
      else Some (''unknown service '' @ quoted service @ ''. Known services: '' @
             (if known_services R a = [] then ''none yet'' else join '', '' (known_services R a))))"

definition replace_char :: "char \<Rightarrow> string \<Rightarrow> string \<Rightarrow> string" where
  "replace_char c by s = concat (map (\<lambda>x. if x = c then by else [x]) s)"

definition escape_quoted :: "string \<Rightarrow> string" where
  "escape_quoted s = replace_char (CHR 0x22) [CHR 0x5C, CHR 0x22] (replace_char (CHR 0x5C) [CHR 0x5C, CHR 0x5C] s)"

definition page_limit :: "read_arguments \<Rightarrow> nat" where
  "page_limit args = min (case arg_u64 args ''limit'' of None \<Rightarrow> 50 | Some n \<Rightarrow> n) 100"

section \<open>Resetting and checkpoints\<close>

definition handle_reset ::
  "('i, 'r, 'v) mcp_env \<Rightarrow> 'i app_state \<Rightarrow> json option \<Rightarrow> read_arguments \<Rightarrow> 'i app_state \<times> json" where
  "handle_reset E a id_value args =
     (let finish = (\<lambda>a' members. (a', tool_ok id_value (json_map (members @ [(''checkpoint'', JInt (int (ap_seq a')))]))
            (''reset complete; checkpoint='' @ nat_to_string (ap_seq a'))))
      in if arg_string args ''scope'' = Some ''all''
         then finish (reset (mc_rodeo E) None a) [(''scope'', JString ''all'')]
         else (case arg_string args ''service'' of
                 None \<Rightarrow> (a, tool_err id_value ''scope='service' requires a non-empty `service`'')
               | Some s \<Rightarrow>
                   if s = [] then (a, tool_err id_value ''scope='service' requires a non-empty `service`'')
                   else finish (reset (mc_rodeo E) (Some s) a) [(''scope'', JString ''service''), (''service'', JString s)]))"

definition handle_mark_checkpoint :: "'i app_state \<Rightarrow> json option \<Rightarrow> json" where
  "handle_mark_checkpoint a id_value =
     tool_ok id_value (json_map [(''checkpoint'', JInt (int (ap_seq a)))])
       (''checkpoint='' @ nat_to_string (ap_seq a) @ '' '' @ em_dash @ '' pass as `since` to scope a later summary'')"

section \<open>Activity, health and catalog\<close>

definition trace_item_json :: "trace_item \<Rightarrow> json" where
  "trace_item_json t = json_map [(''trace_id'', JString (ti_trace_id t)), (''root_span_name'', JString (ti_root_span t)),
     (''duration_ms'', json_f64 (ti_duration_ms t)), (''error_span_count'', JInt (int (ti_errors t)))]"

definition activity_json :: "service_activity \<Rightarrow> json" where
  "activity_json s = json_map
     [(''service'', JString (sa_service s)), (''since'', json_option (JInt \<circ> int) (sa_since s)),
      (''observed_through'', JInt (int (sa_observed_through s))), (''health_score'', json_f64 (sa_health s)),
      (''summary'', JString (sa_summary s)),
      (''logs'', json_map [(''error_count'', JInt (int (sa_error_count s))), (''total'', JInt (int (sa_log_total s))),
         (''top'', JArray (map (\<lambda>l. json_map [(''ts'', JString (li_ts l)), (''line'', JString (li_line l))]) (sa_logs s)))]),
      (''traces'', json_map [(''error_trace_count'', JInt (int (sa_error_traces s))), (''total'', JInt (int (sa_trace_total s))),
         (''notable'', JArray (map trace_item_json (sa_traces s)))]),
      (''metrics'', json_map [(''notable'', JArray (map (\<lambda>m. json_map [(''name'', JString (ma_name m)),
         (''value'', json_f64 (ma_value m)), (''labels'', pairs_json (ma_labels m))]) (sa_metrics s)))]),
      (''truncated'', (case sa_truncated s of (l, t, m) \<Rightarrow>
         json_map [(''logs'', JBool l), (''traces'', JBool t), (''metrics'', JBool m)]))]"

definition handle_summarize_activity ::
  "('i, 'r, 'v) mcp_env \<Rightarrow> 'i app_state \<Rightarrow> json option \<Rightarrow> read_arguments \<Rightarrow> panic + json" where
  "handle_summarize_activity E a id_value args =
     (let service = (case arg_string args ''service'' of None \<Rightarrow> [] | Some s \<Rightarrow> s)
      in case unknown_service (mc_rodeo E) a service of
           Some m \<Rightarrow> Inr (tool_err id_value m)
         | None \<Rightarrow> map_sum id (\<lambda>act. tool_ok id_value (activity_json act) (sa_summary act))
             (summarize_activity (mc_synth E) a service (arg_u64 args ''since'') (wants_extras (arg_string args ''detail''))))"

definition handle_check_health :: "('i, 'r, 'v) mcp_env \<Rightarrow> 'i app_state \<Rightarrow> json option \<Rightarrow> panic + json" where
  "handle_check_health E a id_value =
     map_sum id (\<lambda>hs. tool_ok id_value
        (json_map [(''services'', JArray (map (\<lambda>h. health_json (sh_service h) (sh_score h, sh_issue h)) hs))])
        (case hs of
           [] \<Rightarrow> ''no services reporting telemetry yet''
         | worst # _ \<Rightarrow> nat_to_string (length hs) @ '' service(s) ranked worst-first; worst: '' @ sh_service worst @
             '' (health '' @ sy_fixed (mc_synth E) 0 (sh_score worst) @ '', '' @ sh_issue worst @ '')''))
       (check_health (mc_synth E) a)"

definition optional_member :: "string \<Rightarrow> string option \<Rightarrow> (string \<times> json) list" where
  "optional_member k v = (case v of None \<Rightarrow> [] | Some s \<Rightarrow> [(k, JString s)])"

definition metric_info_json :: "metric_info \<Rightarrow> json" where
  "metric_info_json m = json_map ([(''name'', JString (mi_name m))] @ optional_member ''metric_type'' (mi_type m) @
     optional_member ''help'' (mi_help m) @ optional_member ''unit'' (mi_unit m))"

definition catalog_json :: "service_catalog \<Rightarrow> json" where
  "catalog_json c = json_map [(''service'', JString (sc_service c)),
     (''metrics'', JArray (map metric_info_json (sc_metrics c))),
     (''log_labels'', JArray (map (\<lambda>l. json_map [(''key'', JString (lb_key l)), (''values'', json_strings (lb_values l)),
        (''truncated'', JBool (lb_truncated l))]) (sc_log_labels c))),
     (''span_attributes'', json_strings (sc_span_attributes c))]"

definition handle_describe_service ::
  "('i, 'r, 'v) mcp_env \<Rightarrow> 'i app_state \<Rightarrow> json option \<Rightarrow> read_arguments \<Rightarrow> json" where
  "handle_describe_service E a id_value args =
     (let service = (case arg_string args ''service'' of None \<Rightarrow> [] | Some s \<Rightarrow> s)
      in case unknown_service (mc_rodeo E) a service of
           Some m \<Rightarrow> tool_err id_value m
         | None \<Rightarrow>
             (let c = describe_service (mc_synth E) a service
              in tool_ok id_value (catalog_json c) (nat_to_string (length (sc_metrics c)) @ '' metric(s), '' @
                   nat_to_string (length (sc_log_labels c)) @ '' log label key(s), '' @
                   nat_to_string (length (sc_span_attributes c)) @ '' span attr key(s)'')))"

definition handle_list_services :: "('i, 'r, 'v) mcp_env \<Rightarrow> 'i app_state \<Rightarrow> json option \<Rightarrow> json" where
  "handle_list_services E a id_value =
     (let services = services_json (mc_rodeo E) a
      in tool_ok id_value (json_map [(''services'', JArray services)]) (nat_to_string (length services) @ '' service(s)''))"

section \<open>One trace\<close>

fun span_node_json :: "span_node \<Rightarrow> json" where
  "span_node_json (SpanNode s children) = json_map
     ([(''span_id'', JString (si_span_id s)), (''name'', JString (si_name s)), (''service'', JString (si_service s)),
       (''start_time_ns'', JInt (si_start_ns s)), (''duration_ms'', json_f64 (si_duration_ms s)),
       (''status'', JString (si_status s))] @ optional_member ''status_message'' (si_status_message s) @
      (if si_attributes s = [] then [] else [(''attributes'', pairs_json (si_attributes s))]) @
      [(''children'', JArray (map span_node_json children))])"

definition handle_get_trace ::
  "('i, 'r, 'v) mcp_env \<Rightarrow> 'i app_state \<Rightarrow> json option \<Rightarrow> read_arguments \<Rightarrow> json" where
  "handle_get_trace E a id_value args =
     (let hex = (case arg_string args ''trace_id'' of None \<Rightarrow> [] | Some s \<Rightarrow> s)
      in if length hex \<noteq> 32 then tool_err id_value ''trace_id must be exactly 32 hex characters''
         else (case hex_pairs hex of
                 None \<Rightarrow> tool_err id_value ''trace_id is not valid hex''
               | Some t \<Rightarrow>
                   (case build_trace_tree (mc_synth E) (ap_trace a) t (wants_extras (arg_string args ''detail'')) of
                      None \<Rightarrow> tool_err id_value (''trace '' @ hex @ '' not found'')
                    | Some (tid, roots) \<Rightarrow>
                        tool_ok id_value (json_map [(''trace_id'', JString tid), (''roots'', JArray (map span_node_json roots))])
                          (''trace '' @ tid @ '' with '' @ nat_to_string (length roots) @ '' root span(s)''))))"

end
