(* ===== verification/Mcp_Registry.thy ===== *)
theory Mcp_Registry
  imports Mcp_Args Api_Diagnose
begin

text \<open>
  What \<open>tools/list\<close> and \<open>initialize\<close> advertise, \<open>src/mcp/tools/registry.rs\<close>: the title, description,
  output schema and annotations of each tool, and the instructions of the server.
\<close>

definition typed :: "string \<Rightarrow> json" where "typed t = json_map [(''type'', JString t)]"

definition objects_schema :: json where
  "objects_schema = json_map [(''type'', JString ''array''), (''items'', typed ''object'')]"

text \<open>A schema without required members has no such list.\<close>

definition object_schema :: "(string \<times> json) list \<Rightarrow> string list \<Rightarrow> json" where
  "object_schema props required = json_map
     ([(''type'', JString ''object''), (''properties'', json_map props)] @
      (if required = [] then [] else [(''required'', json_strings required)]))"

definition read_only :: "string \<Rightarrow> json" where
  "read_only title = json_map [(''title'', JString title), (''readOnlyHint'', JBool True),
     (''openWorldHint'', JBool False), (''idempotentHint'', JBool True)]"

definition instructions :: string where
  "instructions = (let newline = [CHR 0x0A] in
     ''Aniani is your local observability instrument for the dev loop. Recommended flow:'' @ newline @
     ''1. reset(scope=all) for a clean baseline before a run.'' @ newline @
     ''2. Run your code/tests. Telemetry export may lag a moment '' @ em_dash @
     '' if a summary looks empty, wait briefly and retry.'' @ newline @
     ''3. summarize_activity(service) to see what the run produced: error logs, failing/slow traces, error metrics, health score.'' @ newline @
     ''4. Drill in: describe_service(service) to learn queryable labels/metrics, then query_logs / query_traces / query_metrics / get_trace.'' @ newline @
     ''5. To compare iterations without wiping, call mark_checkpoint() before a run and pass the returned token as `since` to summarize_activity.'' @ newline @
     ''Use check_health() when you don't yet know which service is in trouble, and list_services() to see what is reporting. summarize_activity/describe_service return an error listing known services if you name one that has produced no telemetry.'')"

section \<open>The tools\<close>

definition reset_meta :: "(string \<times> json) list" where
  "reset_meta =
     [(''title'', JString ''Reset Telemetry Store''),
      (''description'', JString ''Clear telemetry. scope='all' wipes everything; scope='service' clears one service (requires `service`). The only write tool. Returns a fresh checkpoint token.''),
      (''outputSchema'', object_schema
         [(''scope'', typed ''string''), (''service'', typed ''string''),
          (''checkpoint'', typed ''integer'')]
         [''scope'', ''checkpoint'']),
      (''annotations'', json_map [(''title'', JString ''Reset Telemetry Store''), (''readOnlyHint'', JBool False),
        (''destructiveHint'', JBool True), (''idempotentHint'', JBool True),
        (''openWorldHint'', JBool False)])]"

definition mark_checkpoint_meta :: "(string \<times> json) list" where
  "mark_checkpoint_meta =
     [(''title'', JString ''Mark Checkpoint''),
      (''description'', JString ''Return an opaque monotonic checkpoint token for 'now'. Pass it later as `since` to scope a summary to telemetry ingested after this point. Not a wall-clock time.''),
      (''outputSchema'', object_schema
         [(''checkpoint'', typed ''integer'')]
         [''checkpoint'']),
      (''annotations'', read_only ''Mark Checkpoint'')]"

definition summarize_activity_meta :: "(string \<times> json) list" where
  "summarize_activity_meta =
     [(''title'', JString ''Summarize Service Activity''),
      (''description'', JString ''Triage one service: error logs, failing/slow traces, error metrics, health score, one-line summary. Use after a run to see what it produced. Pass `since` (a checkpoint token) to scope to the latest run. Use this BEFORE drilling in with query_* tools.''),
      (''outputSchema'', object_schema
         [(''service'', typed ''string''), (''since'', json_map [(''type'', json_strings [''integer'',
          ''null''])]), (''observed_through'', typed ''integer''), (''health_score'', typed ''number''),
          (''summary'', typed ''string''), (''logs'', typed ''object''), (''traces'', typed ''object''),
          (''metrics'', typed ''object''), (''truncated'', typed ''object'')]
         [''service'', ''health_score'', ''summary'']),
      (''annotations'', read_only ''Summarize Service Activity'')]"

definition check_health_meta :: "(string \<times> json) list" where
  "check_health_meta =
     [(''title'', JString ''Check Global Health''),
      (''description'', JString ''Rank every known service by health, worst first. Use when you don't yet know which service is in trouble.''),
      (''outputSchema'', object_schema
         [(''services'', objects_schema)]
         [''services'']),
      (''annotations'', read_only ''Check Global Health'')]"

definition query_logs_meta :: "(string \<times> json) list" where
  "query_logs_meta =
     [(''title'', JString ''Query Logs''),
      (''description'', JString (''Fetch log lines. Provide structured filters (service, level, contains) OR a raw `logql` string (e.g. {service='' @ quoted ''api'' @ ''} |= '' @ quoted ''error'' @ ''). If `logql` is set, structured filters are ignored. To scope to a run, reset first, then query; summarize_activity is the checkpoint-accurate run summary.'')),
      (''outputSchema'', object_schema
         [(''logs'', objects_schema), (''shown'', typed ''integer''),
          (''total_count'', typed ''integer''), (''truncated'', typed ''boolean'')]
         [''logs'', ''shown'', ''total_count'', ''truncated'']),
      (''annotations'', read_only ''Query Logs'')]"

definition query_traces_meta :: "(string \<times> json) list" where
  "query_traces_meta =
     [(''title'', JString ''Query Traces''),
      (''description'', JString ''Find traces. Provide structured filters (service, name, status, min_duration) OR a raw `traceql` string. If `traceql` is set, structured filters are ignored.''),
      (''outputSchema'', object_schema
         [(''traces'', objects_schema), (''shown'', typed ''integer''),
          (''total_count'', typed ''integer''), (''truncated'', typed ''boolean'')]
         [''traces'', ''shown'', ''total_count'', ''truncated'']),
      (''annotations'', read_only ''Query Traces'')]"

definition query_metrics_meta :: "(string \<times> json) list" where
  "query_metrics_meta =
     [(''title'', JString ''Query Metrics''),
      (''description'', JString ''Run a raw PromQL query (e.g. rate(http_requests_total[5m])). For a range query pass all of start/end (unix seconds, or ms/ns) and step (a duration like 15s or 1m); omit all three for an instant query at now.''),
      (''outputSchema'', object_schema
         [(''series'', objects_schema), (''scalar'', typed ''number'')]
         []),
      (''annotations'', read_only ''Query Metrics'')]"

definition get_trace_meta :: "(string \<times> json) list" where
  "get_trace_meta =
     [(''title'', JString ''Get Trace Tree''),
      (''description'', JString ''Return one trace as a parent/child span tree. `trace_id` is 32 hex chars. Use `detail=detailed` to include span attributes.''),
      (''outputSchema'', object_schema
         [(''trace_id'', typed ''string''), (''roots'', objects_schema)]
         [''trace_id'', ''roots'']),
      (''annotations'', read_only ''Get Trace Tree'')]"

definition list_services_meta :: "(string \<times> json) list" where
  "list_services_meta =
     [(''title'', JString ''List Services''),
      (''description'', JString ''List every service reporting telemetry and which signals (logs/metrics/traces) each has.''),
      (''outputSchema'', object_schema
         [(''services'', objects_schema)]
         [''services'']),
      (''annotations'', read_only ''List Services'')]"

definition describe_service_meta :: "(string \<times> json) list" where
  "describe_service_meta =
     [(''title'', JString ''Describe Service''),
      (''description'', JString ''Catalog a service's queryable surface: metric names, log label keys + values, span attribute keys. Call this before writing a raw logql/promql/traceql query.''),
      (''outputSchema'', object_schema
         [(''service'', typed ''string''), (''metrics'', typed ''array''),
          (''log_labels'', typed ''array''), (''span_attributes'', typed ''array'')]
         [''service'']),
      (''annotations'', read_only ''Describe Service'')]"

end
