(* ===== verification/Mcp_Server.thy ===== *)
theory Mcp_Server
  imports Mcp_Tools Mcp_Registry
begin

text \<open>
  The query tools of the MCP endpoint (\<open>src/mcp/tools/handlers\<close>), the table of the tools and their
  dispatch (\<open>src/mcp/tools/registry.rs\<close>, \<open>dispatch.rs\<close>), and the JSON-RPC server (\<open>src/mcp/server.rs\<close>,
  \<open>protocol.rs\<close>).
\<close>

section \<open>Logs\<close>

definition equals_quoted :: "string \<Rightarrow> string \<Rightarrow> string \<Rightarrow> string" where
  "equals_quoted name eq value = name @ eq @ quoted (escape_quoted value)"

text \<open>The query of the structured filters, or the message that asks for one.\<close>

definition logs_query :: "read_arguments \<Rightarrow> string + string" where
  "logs_query args =
     (case arg_string args ''logql'' of
        Some raw \<Rightarrow> Inr raw
      | None \<Rightarrow>
          (let sel = map (equals_quoted ''service'' ''='') (case arg_string args ''service'' of None \<Rightarrow> [] | Some s \<Rightarrow> [s]) @
               map (equals_quoted ''level'' ''='') (case arg_string args ''level'' of None \<Rightarrow> [] | Some l \<Rightarrow> [l])
           in if sel = [] then Inl ''provide at least `service` or `level` (optionally with `contains`), or a raw `logql`''
              else Inr (''{'' @ join '', '' sel @ ''}'' @
                     (case arg_string args ''contains'' of None \<Rightarrow> [] | Some c \<Rightarrow> '' |= '' @ quoted (escape_quoted c)))))"

definition logs_hint :: string where
  "logs_hint = ''Example: {service='' @ quoted ''api'' @ ''} |= '' @ quoted ''error''"

definition log_line_json :: "(string \<times> string) list \<Rightarrow> resolved_entry \<Rightarrow> json" where
  "log_line_json labels e = json_map
     [(''ts'', JString (int_to_string (i64_div (re_timestamp_ns e) 1000000))), (''line'', JString (re_line e)),
      (''labels'', pairs_json labels), (''trace_id'', json_option JString (re_trace_id e)),
      (''span_id'', json_option JString (re_span_id e)), (''attributes'', string_members (re_attributes e))]"

definition log_lines :: "stream_result list \<Rightarrow> json list" where
  "log_lines streams = concat (map (\<lambda>sr. map (log_line_json (sr_labels sr)) (sr_entries sr)) streams)"

definition metric_logql_refused :: string where
  "metric_logql_refused = ''LogQL metric queries (count_over_time, rate, etc.) are not supported here; use query_metrics with a PromQL expression instead.''"

definition page_json :: "string \<Rightarrow> json list \<Rightarrow> nat \<Rightarrow> bool \<Rightarrow> json" where
  "page_json kind items counted truncated = json_map [(kind, JArray items), (''shown'', JInt (int (length items))),
     (''total_count'', JInt (int counted)), (''truncated'', JBool truncated)]"

text \<open>The exact total is only counted when the page was truncated.\<close>

definition logs_total ::
  "('i, 'r, 'v) mcp_env \<Rightarrow> 'i app_state \<Rightarrow> 'r logql_expr \<Rightarrow> bool \<Rightarrow> nat \<Rightarrow> panic + nat" where
  "logs_total E a expr truncated probed =
     (if \<not> truncated then Inr probed
      else map_sum id (\<lambda>r. case r of Streams all \<Rightarrow> sum_list (map (length \<circ> sr_entries) all) | Matrix ms \<Rightarrow> probed)
             (evaluate_logql_limited (mc_log E) expr (ap_log a) i64_min i64_max None None))"

definition logs_page ::
  "('i, 'r, 'v) mcp_env \<Rightarrow> 'i app_state \<Rightarrow> json option \<Rightarrow> 'r logql_expr \<Rightarrow> nat \<Rightarrow> stream_result list \<Rightarrow> panic + json" where
  "logs_page E a id_value expr limit streams =
     (let out = log_lines streams; truncated = limit < length out; page = take limit out
      in map_sum id (\<lambda>counted. tool_ok id_value (page_json ''logs'' page counted truncated)
           (if truncated
            then ''showing '' @ nat_to_string (length page) @ '' of '' @ nat_to_string counted @ '' log line(s) '' @ em_dash @
                 '' narrow `contains`/`level` or raise `limit`''
            else nat_to_string (length page) @ '' log line(s)''))
         (logs_total E a expr truncated (length out)))"

definition handle_query_logs ::
  "('i, 'r, 'v) mcp_env \<Rightarrow> 'i app_state \<Rightarrow> json option \<Rightarrow> read_arguments \<Rightarrow> panic + json" where
  "handle_query_logs E a id_value args =
     (case logs_query args of
        Inl m \<Rightarrow> Inr (tool_err id_value m)
      | Inr query \<Rightarrow>
          (case parse_logql (mc_nom E) (lv_regex (mc_log E)) query of
             Inl p \<Rightarrow> Inl p
           | Inr (Inl e) \<Rightarrow> Inr (tool_err id_value (''LogQL parse error: '' @ logql_error_text e @ ''. '' @ logs_hint))
           | Inr (Inr expr) \<Rightarrow>
               (case evaluate_logql_limited (mc_log E) expr (ap_log a) i64_min i64_max None (Some (page_limit args + 1)) of
                  Inl p \<Rightarrow> Inl p
                | Inr (Matrix ms) \<Rightarrow> Inr (tool_err id_value metric_logql_refused)
                | Inr (Streams streams) \<Rightarrow> logs_page E a id_value expr (page_limit args) streams)))"

section \<open>Traces\<close>

text \<open>The conditions of the structured filters, or the message that refuses them.\<close>

definition duration_filter :: "string option \<Rightarrow> panic + string + string list" where
  "duration_filter d =
     (case d of
        None \<Rightarrow> Inr (Inr [])
      | Some t \<Rightarrow> map_sum id (\<lambda>r. case r of
            None \<Rightarrow> Inl (''invalid `min_duration`: '' @ quoted t @ ''. Example: 100ms, 1s, 500us'')
          | Some _ \<Rightarrow> Inr [''duration > '' @ t]) (parse_duration t))"

definition traces_query :: "read_arguments \<Rightarrow> panic + string + string" where
  "traces_query args =
     (case arg_string args ''traceql'' of
        Some raw \<Rightarrow> Inr (Inr raw)
      | None \<Rightarrow> map_sum id (\<lambda>r. case r of
            Inl m \<Rightarrow> Inl m
          | Inr duration_conds \<Rightarrow>
              (let conds = map (equals_quoted ''resource.service.name'' '' = '')
                     (case arg_string args ''service'' of None \<Rightarrow> [] | Some s \<Rightarrow> [s]) @
                   map (append ''status = '') (case arg_string args ''status'' of None \<Rightarrow> [] | Some s \<Rightarrow> [s]) @
                   duration_conds @
                   map (equals_quoted ''name'' '' = '') (case arg_string args ''name'' of None \<Rightarrow> [] | Some n \<Rightarrow> [n])
               in if conds = [] then Inl ''provide service/name/status/min_duration, or a raw `traceql`''
                  else Inr (''{ '' @ join '' && '' conds @ '' }'')))
          (duration_filter (arg_string args ''min_duration'')))"

definition traces_hint :: string where
  "traces_hint = ''Example: { resource.service.name = '' @ quoted ''api'' @ '' && status = error }''"

definition mcp_traceql :: "('i, 'r, 'v) mcp_env \<Rightarrow> ('i, 'r) traceql_env" where
  "mcp_traceql E = \<lparr>te_eval = mc_eval E, te_nom = mc_nom E, te_nom_text = mc_nom_text E\<rparr>"

definition traces_page ::
  "('i, 'r, 'v) mcp_env \<Rightarrow> 'i app_state \<Rightarrow> json option \<Rightarrow> nat \<Rightarrow> trace_id list \<Rightarrow> json" where
  "traces_page E a id_value limit ids =
     (let truncated = limit < length ids;
          out = map trace_item_json (trace_items (mc_synth E) (ap_trace a) (take limit ids))
      in tool_ok id_value (page_json ''traces'' out (length ids) truncated)
           (if truncated
            then ''showing '' @ nat_to_string (length out) @ '' of '' @ nat_to_string (length ids) @ '' trace(s) '' @ em_dash @
                 '' narrow filters or raise `limit`''
            else nat_to_string (length out) @ '' trace(s)''))"

definition handle_query_traces ::
  "('i, 'r, 'v) mcp_env \<Rightarrow> 'i app_state \<Rightarrow> json option \<Rightarrow> read_arguments \<Rightarrow> panic + json" where
  "handle_query_traces E a id_value args =
     (case traces_query args of
        Inl p \<Rightarrow> Inl p
      | Inr (Inl m) \<Rightarrow> Inr (tool_err id_value m)
      | Inr (Inr query) \<Rightarrow>
          (case parse_traceql (mc_nom E) query of
             Inl p \<Rightarrow> Inl p
           | Inr (Inl e) \<Rightarrow> Inr (tool_err id_value
               (''TraceQL parse error: '' @ traceql_error_text (mcp_traceql E) e @ ''. '' @ traces_hint))
           | Inr (Inr expr) \<Rightarrow>
               map_sum id (\<lambda>rs. traces_page E a id_value (page_limit args) (map tq_trace_id rs))
                 (evaluate_traceql (mc_eval E) expr (ap_trace a))))"

section \<open>Metrics\<close>

definition series_json :: "series_result \<Rightarrow> json" where
  "series_json s = json_map [(''labels'', pairs_json (se_labels s)),
     (''samples'', JArray (map (\<lambda>(t, v). JArray [JString (int_to_string t), json_f64 v]) (se_samples s)))]"

definition metrics_answer ::
  "('i, 'r, 'v) mcp_env \<Rightarrow> json option \<Rightarrow> promql_result evaluated \<Rightarrow> panic + json" where
  "metrics_answer E id_value r =
     (let series = (\<lambda>ss. tool_ok id_value (json_map [(''series'', JArray (map series_json ss))])
            (nat_to_string (length ss) @ '' series''))
      in map_sum id (\<lambda>r. case r of
            Inl e \<Rightarrow> tool_err id_value (''PromQL error: '' @ promql_error_text e @ ''. Example: rate(http_requests_total[5m])'')
          | Inr (InstantVector ss) \<Rightarrow> series ss
          | Inr (RangeVector ss) \<Rightarrow> series ss
          | Inr (Scalar v) \<Rightarrow> tool_ok id_value (json_map [(''scalar'', json_f64 v)]) (''scalar '' @ pv_fmt (mc_prom E) v)) r)"

definition tool_step :: "string \<Rightarrow> panic + i64 option" where
  "tool_step t =
     map_sum id (\<lambda>d. case d of
         None \<Rightarrow> None
       | Some d \<Rightarrow> if 0 < duration_to_i64_ms d then Some (duration_to_i64_ms d) else None) (parse_duration t)"

definition metrics_range ::
  "('i, 'r, 'v) mcp_env \<Rightarrow> 'i app_state \<Rightarrow> json option \<Rightarrow> string \<Rightarrow> string \<Rightarrow> string \<Rightarrow> string \<Rightarrow> panic + json" where
  "metrics_range E a id_value promql start end_text step =
     (case parse_timestamp_ms start of
        None \<Rightarrow> Inr (tool_err id_value (''invalid `start`: '' @ start))
      | Some start_ms \<Rightarrow>
          (case parse_timestamp_ms end_text of
             None \<Rightarrow> Inr (tool_err id_value (''invalid `end`: '' @ end_text))
           | Some end_ms \<Rightarrow>
               (case tool_step step of
                  Inl p \<Rightarrow> Inl p
                | Inr None \<Rightarrow> Inr (tool_err id_value (''invalid `step`: '' @ step))
                | Inr (Some step_ms) \<Rightarrow>
                    if max_query_steps \<le> query_num_steps start_ms end_ms step_ms
                    then Inr (tool_err id_value (''range query would produce '' @
                           int_to_string (query_num_steps start_ms end_ms step_ms) @ '' steps (max '' @
                           int_to_string max_query_steps @ ''); increase `step` or narrow start/end''))
                    else metrics_answer E id_value
                           (evaluate_range (mc_prom E) promql (ap_metric a) start_ms end_ms step_ms))))"

definition handle_query_metrics ::
  "('i, 'r, 'v) mcp_env \<Rightarrow> 'i app_state \<Rightarrow> json option \<Rightarrow> read_arguments \<Rightarrow> panic + json" where
  "handle_query_metrics E a id_value args =
     (let promql = (case arg_string args ''promql'' of None \<Rightarrow> [] | Some q \<Rightarrow> q)
      in if promql = [] then Inr (tool_err id_value ''`promql` must not be empty'')
         else (case (arg_string args ''start'', arg_string args ''end'', arg_string args ''step'') of
                 (None, None, None) \<Rightarrow>
                   metrics_answer E id_value (evaluate_instant (mc_prom E) promql (ap_metric a) (now_ms (mc_clock E)))
               | (Some start, Some end_text, Some step) \<Rightarrow> metrics_range E a id_value promql start end_text step
               | _ \<Rightarrow> Inr (tool_err id_value
                   ''a range query requires all of `start`, `end`, `step` (omit all three for an instant query)'')))"

section \<open>The table of tools\<close>

type_synonym ('i, 'r, 'v) tool_handler =
  "('i, 'r, 'v) mcp_env \<Rightarrow> 'i app_state \<Rightarrow> json option \<Rightarrow> read_arguments \<Rightarrow> panic + 'i app_state \<times> json"

text \<open>A handler that only reads.\<close>

definition reading :: "(('i, 'r, 'v) mcp_env \<Rightarrow> 'i app_state \<Rightarrow> json option \<Rightarrow> read_arguments \<Rightarrow> panic + json) \<Rightarrow>
    ('i, 'r, 'v) tool_handler" where
  "reading h E a id_value args = map_sum id (Pair a) (h E a id_value args)"

definition tool_table :: "(tool_args \<times> (string \<times> json) list \<times> ('i, 'r, 'v) tool_handler) list" where
  "tool_table =
     [(reset_args, reset_meta, \<lambda>E a i args. Inr (handle_reset E a i args)),
      (mark_checkpoint_args, mark_checkpoint_meta, reading (\<lambda>E a i args. Inr (handle_mark_checkpoint a i))),
      (summarize_activity_args, summarize_activity_meta, reading handle_summarize_activity),
      (check_health_args, check_health_meta, reading (\<lambda>E a i args. handle_check_health E a i)),
      (query_logs_args, query_logs_meta, reading handle_query_logs),
      (query_traces_args, query_traces_meta, reading handle_query_traces),
      (query_metrics_args, query_metrics_meta, reading handle_query_metrics),
      (get_trace_args, get_trace_meta, reading (\<lambda>E a i args. Inr (handle_get_trace E a i args))),
      (list_services_args, list_services_meta, reading (\<lambda>E a i args. Inr (handle_list_services E a i))),
      (describe_service_args, describe_service_meta, reading (\<lambda>E a i args. Inr (handle_describe_service E a i args)))]"

definition tool_descriptors :: "json list" where
  "tool_descriptors =
     map (\<lambda>(T, meta, _). json_map ([(''name'', JString (ta_tool T)), (''inputSchema'', args_schema T)] @ meta))
       (tool_table :: (tool_args \<times> (string \<times> json) list \<times> (nat, nat, nat) tool_handler) list)"

definition tools_list :: "json option \<Rightarrow> json" where
  "tools_list id_value = rpc_success id_value (json_map [(''tools'', JArray tool_descriptors)])"

definition tool_dispatch ::
  "('i, 'r, 'v) mcp_env \<Rightarrow> 'i app_state \<Rightarrow> json option \<Rightarrow> string \<Rightarrow> json \<Rightarrow> (panic + 'i app_state \<times> json) option" where
  "tool_dispatch E a id_value name args =
     map_option (\<lambda>(T, meta, h).
         case parse_args (mc_json_text E) (mc_serde_error E) T args of
           Inl m \<Rightarrow> Inr (a, tool_err id_value m)
         | Inr vals \<Rightarrow> h E a id_value vals)
       (find (\<lambda>(T, meta, h). ta_tool T = name) tool_table)"

definition invalid_params :: int where "invalid_params = - 32602"

definition tool_call :: "('i, 'r, 'v) mcp_env \<Rightarrow> 'i app_state \<Rightarrow> json option \<Rightarrow> json \<Rightarrow> panic + 'i app_state \<times> json" where
  "tool_call E a id_value params =
     (let run = (\<lambda>name args. case tool_dispatch E a id_value name args of
            Some r \<Rightarrow> r
          | None \<Rightarrow> Inr (a, rpc_error id_value invalid_params ''unknown tool''))
      in case Option.bind (json_get ''name'' params) as_str of
           None \<Rightarrow> Inr (a, rpc_error id_value invalid_params ''missing tool name'')
         | Some name \<Rightarrow>
             (case json_get ''arguments'' params of
                None \<Rightarrow> run name (json_map [])
              | Some JNull \<Rightarrow> run name (json_map [])
              | Some (JObject m) \<Rightarrow> run name (JObject m)
              | Some _ \<Rightarrow> Inr (a, rpc_error id_value invalid_params ''`arguments` must be an object'')))"

section \<open>JSON-RPC\<close>

definition parse_error :: int where "parse_error = - 32700"
definition invalid_request :: int where "invalid_request = - 32600"
definition method_not_found :: int where "method_not_found = - 32601"

definition supported_versions :: "string list" where
  "supported_versions = [''2025-11-25'', ''2025-06-18'', ''2025-03-26'']"

definition latest_version :: string where "latest_version = ''2025-11-25''"

record rpc_request =
  rq_id :: "json option"
  rq_method :: string
  rq_params :: json

text \<open>The decoders of serde and the version of the package.\<close>

record rpc_env =
  re_decode :: "string \<Rightarrow> rpc_request option"
  re_decode_json :: "string \<Rightarrow> json option"
  re_version :: string

definition rpc_initialize :: "rpc_env \<Rightarrow> json option \<Rightarrow> json \<Rightarrow> json" where
  "rpc_initialize P id_value params = rpc_success id_value (json_map
     [(''protocolVersion'', JString (case Option.bind (json_get ''protocolVersion'' params) as_str of
         None \<Rightarrow> latest_version
       | Some v \<Rightarrow> if v \<in> set supported_versions then v else latest_version)),
      (''capabilities'', json_map [(''tools'', json_map [])]),
      (''serverInfo'', json_map [(''name'', JString ''aniani''), (''version'', JString (re_version P))]),
      (''instructions'', JString instructions)])"

text \<open>A notification has no response.\<close>

definition rpc_dispatch ::
  "('i, 'r, 'v) mcp_env \<Rightarrow> rpc_env \<Rightarrow> 'i app_state \<Rightarrow> rpc_request \<Rightarrow> panic + 'i app_state \<times> json option" where
  "rpc_dispatch E P a req =
     (if rq_id req = None then Inr (a, None)
      else let answer = (\<lambda>v. Inr (a, Some v))
           in if rq_method req = ''initialize'' then answer (rpc_initialize P (rq_id req) (rq_params req))
              else if rq_method req = ''ping'' then answer (rpc_success (rq_id req) (json_map []))
              else if rq_method req = ''tools/list'' then answer (tools_list (rq_id req))
              else if rq_method req = ''tools/call''
              then map_sum id (map_prod id Some) (tool_call E a (rq_id req) (rq_params req))
              else answer (rpc_error (rq_id req) method_not_found ''method not found''))"

text \<open>The text up to the first occurrence of another, and what follows it if there is one.\<close>

fun split_text :: "string \<Rightarrow> string \<Rightarrow> string \<times> string option" where
  "split_text sep [] = (case strip_prefix sep [] of Some rest \<Rightarrow> ([], Some rest) | None \<Rightarrow> ([], None))"
| "split_text sep (c # cs) =
     (case strip_prefix sep (c # cs) of
        Some rest \<Rightarrow> ([], Some rest)
      | None \<Rightarrow> (case split_text sep cs of (before, rest) \<Rightarrow> (c # before, rest)))"

definition origin_host :: "string \<Rightarrow> string" where
  "origin_host origin =
     (let after_scheme = (case split_text ''://'' origin of
            (_, None) \<Rightarrow> origin
          | (_, Some rest) \<Rightarrow> fst (split_text ''://'' rest));
          hostport = fst (split_text ''/'' after_scheme)
      in case strip_prefix ''['' hostport of
           Some s \<Rightarrow> fst (split_text '']'' s)
         | None \<Rightarrow> fst (split_text '':'' hostport))"

definition is_allowed_origin :: "string \<Rightarrow> bool" where
  "is_allowed_origin origin \<longleftrightarrow> origin_host origin \<in> {''localhost'', ''127.0.0.1'', ''::1''}"

text \<open>A response of the endpoint: a status, and a JSON body, a text or nothing.\<close>

datatype http_body = JsonBody json | TextBody string | NoBody

definition status_accepted :: nat where "status_accepted = 202"
definition status_forbidden :: nat where "status_forbidden = 403"
definition status_method_not_allowed :: nat where "status_method_not_allowed = 405"

text \<open>The headers, where they are readable text.\<close>

definition origin_refused :: "string option \<Rightarrow> bool" where
  "origin_refused origin \<longleftrightarrow> (case origin of None \<Rightarrow> False | Some g \<Rightarrow> \<not> is_allowed_origin g)"

definition version_refused :: "string option \<Rightarrow> bool" where
  "version_refused version \<longleftrightarrow> (case version of None \<Rightarrow> False | Some v \<Rightarrow> v \<notin> set supported_versions)"

definition mcp_post ::
  "('i, 'r, 'v) mcp_env \<Rightarrow> rpc_env \<Rightarrow> 'i app_state \<Rightarrow> string option \<Rightarrow> string option \<Rightarrow> string \<Rightarrow>
    panic + 'i app_state \<times> nat \<times> http_body" where
  "mcp_post E P a origin version body =
     (if origin_refused origin then Inr (a, status_forbidden, TextBody ''origin not allowed'')
      else if version_refused version then Inr (a, status_bad_request, TextBody ''unsupported MCP-Protocol-Version'')
      else case re_decode P body of
             None \<Rightarrow>
               Inr (a, status_ok, JsonBody (case re_decode_json P body of
                   Some v \<Rightarrow> rpc_error None invalid_request
                     ''batching/invalid request is not supported; send a single JSON-RPC message''
                 | None \<Rightarrow> rpc_error None parse_error ''parse error''))
           | Some req \<Rightarrow>
               map_sum id (map_prod id (\<lambda>r. case r of
                   Some v \<Rightarrow> (status_ok, JsonBody v)
                 | None \<Rightarrow> (status_accepted, NoBody))) (rpc_dispatch E P a req))"

definition mcp_get :: nat where "mcp_get = status_method_not_allowed"
definition mcp_delete :: nat where "mcp_delete = status_method_not_allowed"

end
