(* ===== verification/Mcp_Args_Correct.thy ===== *)
theory Mcp_Args_Correct
  imports Mcp_Args Api_Views_Correct
begin

text \<open>
  The arguments of the MCP tools: the check of a call against the generated schema accepts exactly the
  calls whose every argument is declared and readable and whose required arguments are there, and what
  it accepts is read without a loss.
\<close>

section \<open>Objects\<close>

lemma json_get_distinct:
  assumes "distinct (map fst ms)"
  shows "json_get k (json_map ms) = map_of ms k"
proof (cases "map_of ms k")
  case None
  then have "map_of (rev ms) k = None" unfolding map_of_eq_None_iff by simp
  with None show ?thesis unfolding json_get_map by (simp only:)
next
  case (Some v)
  then have "map_of (rev ms) k = Some v"
    using assms by (intro map_of_is_SomeI) (auto simp: rev_map [symmetric] dest: map_of_SomeD)
  with Some show ?thesis by (simp add: json_get_map)
qed

lemma as_object_map: "as_object (json_map ms) = Some m \<Longrightarrow> map_of m k = json_get k (json_map ms)"
  by (auto simp: as_object_def json_get_def json_map_def)

lemma as_object_map_nonempty: "\<exists>m. as_object (json_map ms) = Some m"
  by (simp add: as_object_def json_map_def)

section \<open>The schema of a tool\<close>

lemma schema_properties:
  assumes "distinct (map af_name (ta_fields T))"
  shows "\<exists>props. Option.bind (json_get ''properties'' (args_schema T)) as_object = Some props \<and>
    (\<forall>k. map_of props k = map_option (arg_schema \<circ> af_type) (find (\<lambda>f. af_name f = k) (ta_fields T)))"
proof -
  let ?ps = "map (\<lambda>f. (af_name f, arg_schema (af_type f))) (ta_fields T)"
  obtain props where props: "as_object (json_map ?ps) = Some props" using as_object_map_nonempty by blast
  have "map_of (map (\<lambda>f. (af_name f, arg_schema (af_type f))) fs) k =
      map_option (arg_schema \<circ> af_type) (find (\<lambda>f. af_name f = k) fs)" for k fs
    by (induction fs) auto
  then have "map_of props k = map_option (arg_schema \<circ> af_type) (find (\<lambda>f. af_name f = k) (ta_fields T))" for k
    using as_object_map [OF props, of k] json_get_distinct [of ?ps k] assms by (simp add: comp_def)
  moreover have "json_get ''properties'' (args_schema T) = Some (json_map ?ps)"
    unfolding args_schema_def by (subst json_get_distinct) simp_all
  ultimately show ?thesis using props by simp
qed

lemma map_filter_strings: "List.map_filter as_str (map JString ks) = ks"
  by (induction ks) (simp_all add: List.map_filter_simps as_str_def)

lemma schema_required_names: "schema_required (args_schema T) = required_names T"
proof -
  have "json_get ''required'' (args_schema T) =
      (if required_names T = [] then None else Some (json_strings (required_names T)))"
    unfolding args_schema_def by (subst json_get_distinct) simp_all
  then show ?thesis by (simp add: schema_required_def json_strings_def as_array_def map_filter_strings)
qed

text \<open>A value is refused exactly where it cannot be read.\<close>

lemma value_problem_iff: "value_problem show_json k (arg_schema t) v = None \<longleftrightarrow> read_arg t v \<noteq> None"
proof (cases t)
  case ArgString
  have "json_get ''type'' (arg_schema t) = Some (JString ''string'')" "json_get ''enum'' (arg_schema t) = None"
    unfolding ArgString arg_schema_def by (simp_all add: json_get_distinct)
  then show ?thesis
    unfolding ArgString by (cases v) (simp_all add: value_problem_def enum_problem_def type_matches_def as_str_def)
next
  case ArgU64
  have "json_get ''type'' (arg_schema t) = Some (JString ''integer'')" "json_get ''enum'' (arg_schema t) = None"
    unfolding ArgU64 arg_schema_def by (simp_all add: json_get_distinct)
  then show ?thesis
    unfolding ArgU64 by (cases v) (simp_all add: value_problem_def enum_problem_def type_matches_def as_str_def is_u64_def)
next
  case (ArgEnum vs)
  have "json_get ''type'' (arg_schema t) = Some (JString ''string'')"
    "json_get ''enum'' (arg_schema t) = Some (json_strings vs)"
    unfolding ArgEnum arg_schema_def by (simp_all add: json_get_distinct)
  then show ?thesis
    unfolding ArgEnum
    by (cases v) (auto simp: value_problem_def enum_problem_def type_matches_def as_str_def as_array_def json_strings_def)
qed

definition declared :: "tool_args \<Rightarrow> string \<Rightarrow> arg_field option" where
  "declared T k = find (\<lambda>f. af_name f = k) (ta_fields T)"

text \<open>Every argument declared and readable, every required one present.\<close>

definition args_ok :: "tool_args \<Rightarrow> (string \<times> json) list \<Rightarrow> bool" where
  "args_ok T given \<longleftrightarrow>
     (\<forall>(k, v) \<in> set given. \<exists>f. declared T k = Some f \<and> read_arg (af_type f) v \<noteq> None) \<and>
     (\<forall>k \<in> set (required_names T). map_of given k \<noteq> None)"

lemma given_problem_iff:
  assumes "\<forall>k. map_of props k = map_option (arg_schema \<circ> af_type) (declared T k)"
  shows "given_problem show_json tool props given = None \<longleftrightarrow>
    (\<forall>(k, v) \<in> set given. \<exists>f. declared T k = Some f \<and> read_arg (af_type f) v \<noteq> None)"
  using assms by (induction given) (auto simp: value_problem_iff split: option.splits)

lemma problem_iff:
  assumes "distinct (map af_name (ta_fields T))"
  shows "problem show_json (ta_tool T) (args_schema T) (JObject given) = None \<longleftrightarrow> args_ok T given"
proof -
  obtain props where props: "Option.bind (json_get ''properties'' (args_schema T)) as_object = Some props"
    and look: "\<forall>k. map_of props k = map_option (arg_schema \<circ> af_type) (declared T k)"
    using schema_properties [OF assms] unfolding declared_def by blast
  show ?thesis
    unfolding problem_def props schema_required_names args_ok_def
    using given_problem_iff [OF look, of show_json "ta_tool T" given]
    by (cases "given_problem show_json (ta_tool T) props given") (auto simp: as_object_def find_None_iff)
qed

lemma find_name:
  assumes "distinct (map af_name fs)" and "f \<in> set fs"
  shows "find (\<lambda>g. af_name g = af_name f) fs = Some f"
  using assms by (induction fs) (auto simp: image_iff)

lemma from_value_ok:
  assumes dist: "distinct (map af_name (ta_fields T))" and "distinct (map fst given)" and ok: "args_ok T given"
  shows "\<exists>vals. from_value T (JObject given) = Some vals \<and>
    (\<forall>k. vals k = (case map_of given k of None \<Rightarrow> None
       | Some v \<Rightarrow> Option.bind (declared T k) (\<lambda>f. read_arg (af_type f) v)))"
proof -
  have given: "\<exists>f. declared T k = Some f \<and> read_arg (af_type f) v \<noteq> None" if "map_of given k = Some v" for k v
    using ok map_of_SomeD [OF that] unfolding args_ok_def by blast
  have declared: "declared T (af_name f) = Some f" if "f \<in> set (ta_fields T)" for f
    using find_name [OF dist that] by (simp add: declared_def)
  have in_fields: "f \<in> set (ta_fields T) \<and> af_name f = k" if "declared T k = Some f" for f k
    using that by (auto simp: declared_def find_Some_iff)
  have read: "read_field given f = Some (case map_of given (af_name f) of None \<Rightarrow> None | Some v \<Rightarrow> read_arg (af_type f) v)"
    if f: "f \<in> set (ta_fields T)" for f
  proof (cases "map_of given (af_name f)")
    case None
    have "af_optional f"
    proof (rule ccontr)
      assume "\<not> af_optional f"
      then have "af_name f \<in> set (required_names T)" using f by (auto simp: required_names_def)
      then show False using ok None unfolding args_ok_def by blast
    qed
    then show ?thesis by (simp add: read_field_def None)
  next
    case (Some v)
    from given [OF this] declared [OF f] have r: "read_arg (af_type f) v \<noteq> None" by simp
    then have "v \<noteq> JNull" by (cases "af_type f") auto
    with r Some show ?thesis by (auto simp: read_field_def)
  qed
  have "\<not> list_ex (\<lambda>(k, v). k \<notin> set (map af_name (ta_fields T))) given"
    using ok in_fields unfolding args_ok_def list_ex_iff by force
  moreover have "\<not> list_ex (\<lambda>f. read_field given f = None) (ta_fields T)"
    using read by (auto simp: list_ex_iff)
  moreover have "(case find (\<lambda>f. af_name f = k) (ta_fields T) of None \<Rightarrow> None | Some f \<Rightarrow> Option.bind (read_field given f) (\<lambda>v. v)) =
      (case map_of given k of None \<Rightarrow> None | Some v \<Rightarrow> Option.bind (declared T k) (\<lambda>f. read_arg (af_type f) v))" for k
  proof (cases "declared T k")
    case None
    with given [of k] show ?thesis by (cases "map_of given k") (auto simp: declared_def)
  next
    case (Some f)
    with in_fields [OF Some] read [of f] show ?thesis by (auto simp: declared_def split: option.split)
  qed
  ultimately show ?thesis by (simp add: from_value_def as_object_def)
qed

section \<open>Properties\<close>

text \<open>
  C36: A call is accepted exactly when every argument it gives is declared by the tool and fits its
  type, and every required argument is there. What is accepted is read completely: each argument given
  reaches the handler with its value and nothing else does. So no argument is silently dropped, and
  what the schema check accepts the reader never refuses.
\<close>

theorem accepted_arguments_are_read:
  assumes "distinct (map af_name (ta_fields T))" and "distinct (map fst given)"
  shows "case parse_args show_json serde_error T (JObject given) of
      Inl m \<Rightarrow> \<not> args_ok T given \<and> problem show_json (ta_tool T) (args_schema T) (JObject given) = Some m
    | Inr vals \<Rightarrow> args_ok T given \<and>
        (\<forall>k. case map_of given k of
           None \<Rightarrow> vals k = None
         | Some v \<Rightarrow> (\<exists>f x. declared T k = Some f \<and> read_arg (af_type f) v = Some x \<and> vals k = Some x))"
proof (cases "problem show_json (ta_tool T) (args_schema T) (JObject given)")
  case None
  then have ok: "args_ok T given" unfolding problem_iff [OF assms(1)] .
  then have given: "\<exists>f. declared T k = Some f \<and> read_arg (af_type f) v \<noteq> None" if "map_of given k = Some v" for k v
    using map_of_SomeD [OF that] unfolding args_ok_def by blast
  obtain vals where "from_value T (JObject given) = Some vals" and
    vals: "\<And>k. vals k = (case map_of given k of None \<Rightarrow> None | Some v \<Rightarrow> Option.bind (declared T k) (\<lambda>f. read_arg (af_type f) v))"
    using from_value_ok [OF assms ok] by blast
  then have parsed: "parse_args show_json serde_error T (JObject given) = Inr vals" using None by (simp add: parse_args_def)
  have "case map_of given k of None \<Rightarrow> vals k = None
      | Some v \<Rightarrow> (\<exists>f x. declared T k = Some f \<and> read_arg (af_type f) v = Some x \<and> vals k = Some x)" for k
    using given [of k] by (cases "map_of given k") (auto simp: vals)
  with parsed ok show ?thesis by simp
next
  case (Some m)
  then show ?thesis using problem_iff [OF assms(1), of show_json given] by (simp add: parse_args_def)
qed

theorem accepted_arguments_are_read_witness:
  "\<exists>vals. parse_args (\<lambda>_. []) (\<lambda>_ _. []) reset_args (JObject [(''scope'', JString ''all'')]) = Inr vals \<and>
    vals ''scope'' = Some (AvString ''all'') \<and> vals ''service'' = None"
proof -
  let ?given = "[(''scope'', JString ''all'')]"
  have ok: "args_ok reset_args ?given"
    by (simp add: args_ok_def declared_def required_names_def reset_args_def field_def optional_field_def reset_scope_def)
  with accepted_arguments_are_read [of reset_args ?given "\<lambda>_. []" "\<lambda>_ _. []"]
  obtain vals where vals: "parse_args (\<lambda>_. []) (\<lambda>_ _. []) reset_args (JObject ?given) = Inr vals"
    and all: "\<And>k. case map_of ?given k of None \<Rightarrow> vals k = None
         | Some v \<Rightarrow> (\<exists>f x. declared reset_args k = Some f \<and> read_arg (af_type f) v = Some x \<and> vals k = Some x)"
    by (auto simp: reset_args_def field_def optional_field_def split: sum.splits)
  from all [of "''scope''"] all [of "''service''"] vals show ?thesis
    by (auto simp: declared_def reset_args_def field_def optional_field_def reset_scope_def)
qed

end
