(* ===== verification/Mcp_Server_Correct.thy ===== *)
theory Mcp_Server_Correct
  imports Mcp_Server Mcp_Args_Correct Mcp_Synth_Correct Promql_Select_Correct Logql_Parser_Correct
begin

text \<open>
  The MCP endpoint: only a \<open>reset\<close> that passes every check changes the stores, and the query built from
  structured log filters means those filters whatever text they hold.
\<close>

section \<open>What a call can change\<close>

lemma reading_keeps: "reading h E a id_value args = Inr (a', v) \<Longrightarrow> a' = a"
  by (cases "h E a id_value args") (simp_all add: reading_def)

lemma read_arg_string: "read_arg t v = Some (AvString s) \<Longrightarrow> v = JString s"
  by (cases "(t, v)" rule: read_arg.cases) (auto split: if_splits)

lemma arg_string_given:
  assumes "from_value T (JObject given) = Some vals" and "arg_string vals k = Some s"
  shows "map_of given k = Some (JString s)"
  using assms
  by (auto simp: from_value_def as_object_def arg_string_def read_field_def bind_eq_Some_conv dest!: find_SomeD read_arg_string
      split: if_splits option.splits arg_value.splits)

lemma parse_args_value:
  assumes "parse_args show_json serde_error T (JObject given) = Inr vals"
  shows "from_value T (JObject given) = Some vals"
  using assms by (simp add: parse_args_def split: option.splits)

lemma scope_given:
  assumes "from_value reset_args (JObject given) = Some vals"
  shows "\<exists>s. arg_string vals ''scope'' = Some s \<and> s \<in> {''all'', ''service''}"
proof -
  let ?f = "field ''scope'' reset_scope"
  have "read_field given ?f \<noteq> None" and vals: "vals ''scope'' = Option.bind (read_field given ?f) (\<lambda>v. v)"
    using assms by (auto simp: from_value_def as_object_def reset_args_def field_def split: if_splits)
  then obtain v x where v: "map_of given ''scope'' = Some v" "read_arg reset_scope v = Some x"
    by (auto simp: read_field_def field_def split: option.splits)
  then have x: "read_field given ?f = Some (Some x)" by (simp add: read_field_def field_def)
  from v(2) obtain s where "x = AvString s" "s \<in> {''all'', ''service''}"
    by (cases v) (auto simp: reset_scope_def split: if_splits)
  then show ?thesis using vals by (simp add: x arg_string_def)
qed

text \<open>A reset that was asked for with these arguments.\<close>

definition reset_asked :: "(string \<times> json) list \<Rightarrow> string option \<Rightarrow> bool" where
  "reset_asked given service \<longleftrightarrow>
     (case service of
        None \<Rightarrow> map_of given ''scope'' = Some (JString ''all'')
      | Some s \<Rightarrow> map_of given ''scope'' = Some (JString ''service'') \<and> map_of given ''service'' = Some (JString s) \<and> s \<noteq> [])"

lemma handle_reset_writes:
  assumes "from_value reset_args (JObject given) = Some vals" and "handle_reset E a id_value vals = (a', v)" and "a' \<noteq> a"
  shows "\<exists>service. reset_asked given service \<and> a' = reset (mc_rodeo E) service a"
proof -
  obtain s where s: "arg_string vals ''scope'' = Some s" "s \<in> {''all'', ''service''}"
    using scope_given [OF assms(1)] by blast
  note given = arg_string_given [OF assms(1)]
  show ?thesis
  proof (cases "s = ''all''")
    case True
    then have "reset_asked given None \<and> a' = reset (mc_rodeo E) None a"
      using assms(2) s given [OF s(1)] by (auto simp: handle_reset_def reset_asked_def Let_def)
    then show ?thesis by blast
  next
    case False
    with assms(2,3) s(1) obtain t where t: "arg_string vals ''service'' = Some t" "t \<noteq> []"
      and "a' = reset (mc_rodeo E) (Some t) a"
      by (auto simp: handle_reset_def Let_def split: option.splits if_splits)
    moreover have "reset_asked given (Some t)" using s False given [OF s(1)] given [OF t(1)] t(2) by (simp add: reset_asked_def)
    ultimately show ?thesis by blast
  qed
qed

lemma tool_writes:
  assumes "(T, meta, h) \<in> set tool_table" and "h E a id_value vals = Inr (a', v)" and "a' \<noteq> a"
  shows "T = reset_args \<and> handle_reset E a id_value vals = (a', v)"
  using assms by (auto simp: tool_table_def dest: reading_keeps)

lemma tool_dispatch_writes:
  assumes "tool_dispatch E a id_value name args = Some (Inr (a', v))" and "a' \<noteq> a"
  shows "name = ''reset'' \<and> (\<exists>vals. parse_args (mc_json_text E) (mc_serde_error E) reset_args args = Inr vals \<and>
    handle_reset E a id_value vals = (a', v))"
proof -
  obtain T meta h where f: "find (\<lambda>(T, meta, h). ta_tool T = name) tool_table = Some (T, meta, h)"
    and r: "(case parse_args (mc_json_text E) (mc_serde_error E) T args of
           Inl m \<Rightarrow> Inr (a, tool_err id_value m) | Inr vals \<Rightarrow> h E a id_value vals) = Inr (a', v)"
    using assms(1) by (auto simp: tool_dispatch_def)
  from r assms(2) obtain vals where vals: "parse_args (mc_json_text E) (mc_serde_error E) T args = Inr vals"
    "h E a id_value vals = Inr (a', v)" by (auto split: sum.splits)
  have m: "(T, meta, h) \<in> set tool_table" "ta_tool T = name" using find_SomeD [OF f] by simp_all
  from tool_writes [OF m(1) vals(2) assms(2)] m(2) vals(1) show ?thesis by (auto simp: reset_args_def)
qed

lemma json_get_object: "json_get k (JObject m) = map_of m k"
  by (simp add: json_get_def)

lemma map_sum_Inr: "map_sum id f r = Inr y \<longleftrightarrow> (\<exists>x. r = Inr x \<and> y = f x)"
  by (cases r) auto

lemma as_str_iff: "as_str v = Some s \<longleftrightarrow> v = JString s"
  by (cases v) (auto simp: as_str_def)

lemma tool_call_writes:
  assumes "tool_call E a id_value params = Inr (a', v)" and "a' \<noteq> a"
  shows "\<exists>given service. json_get ''name'' params = Some (JString ''reset'') \<and>
    json_get ''arguments'' params = Some (JObject given) \<and> reset_asked given service \<and>
    a' = reset (mc_rodeo E) service a"
proof -
  let ?run = "\<lambda>name args. case tool_dispatch E a id_value name args of
      Some r \<Rightarrow> r | None \<Rightarrow> Inr (a, rpc_error id_value invalid_params ''unknown tool'')"
  have run: "name = ''reset'' \<and> (\<exists>service. reset_asked given service \<and> a' = reset (mc_rodeo E) service a)"
    if "?run name (JObject given) = Inr (a', v)" for name given
  proof -
    have "tool_dispatch E a id_value name (JObject given) = Some (Inr (a', v))"
      using that assms(2) by (auto split: option.splits)
    from tool_dispatch_writes [OF this assms(2)] handle_reset_writes [OF parse_args_value _ assms(2)]
    show ?thesis by blast
  qed
  have empty: "json_map [] = JObject []" by (simp add: json_map_def)
  obtain name where name: "Option.bind (json_get ''name'' params) as_str = Some name"
    using assms by (auto simp: tool_call_def Let_def split: option.splits)
  then have n: "json_get ''name'' params = Some (JString name)"
    by (auto simp: bind_eq_Some_conv as_str_iff)
  have no_args: False if "?run name (JObject []) = Inr (a', v)"
    using run [OF that] by (auto simp: reset_asked_def split: option.splits)
  obtain given where "json_get ''arguments'' params = Some (JObject given)" "?run name (JObject given) = Inr (a', v)"
    using assms no_args unfolding tool_call_def Let_def name option.case empty
    by (auto split: option.splits json.splits)
  with run n show ?thesis by blast
qed

section \<open>Queries built from filters\<close>

lemma quote_escaped: "quoted (escape_quoted s) = quote s"
proof -
  have "escape_quoted s = concat (map escape_char s)"
    by (induction s) (simp_all add: escape_quoted_def replace_char_def escape_char_def)
  then show ?thesis by (simp add: quoted_def quote_def)
qed

definition equality :: "string \<Rightarrow> string \<Rightarrow> logql_matcher" where
  "equality name value = \<lparr>qm_name = name, qm_op = LqEq, qm_value = value\<rparr>"

lemma equals_quoted_show: "equals_quoted name ''='' value = show_matcher (equality name value)"
  by (simp add: equals_quoted_def show_matcher_def show_match_op_def equality_def quote_escaped)

text \<open>The selector of the filters: those given, in this order.\<close>

definition filter_matchers :: "read_arguments \<Rightarrow> logql_matcher list" where
  "filter_matchers args =
     List.map_filter (\<lambda>n. map_option (equality n) (arg_string args n)) [''service'', ''level'']"

lemma filter_matchers_ok: "list_all matcher_ok (filter_matchers args)"
  by (auto simp: filter_matchers_def List.map_filter_simps matcher_ok_def equality_def log_chars split: option.split)

lemma logs_query_show:
  assumes "arg_string args ''logql'' = None" and "logs_query args = Inr q"
  shows "filter_matchers args \<noteq> [] \<and> length (filter_matchers args) \<le> 2 \<and>
    q = CHR ''{'' # join '', '' (map show_matcher (filter_matchers args)) @ CHR ''}'' #
      (case arg_string args ''contains'' of None \<Rightarrow> [] | Some c \<Rightarrow> '' |= '' @ quote c)"
proof -
  define svc where "svc = (case arg_string args ''service'' of None \<Rightarrow> [] | Some s \<Rightarrow> [s])"
  define lvl where "lvl = (case arg_string args ''level'' of None \<Rightarrow> [] | Some l \<Rightarrow> [l])"
  have sel: "map (equals_quoted ''service'' ''='') svc @ map (equals_quoted ''level'' ''='') lvl = map show_matcher (filter_matchers args)"
    by (simp add: svc_def lvl_def filter_matchers_def List.map_filter_simps equals_quoted_show split: option.split)
  have "length (filter_matchers args) \<le> 2"
    by (simp add: filter_matchers_def List.map_filter_simps split: option.split)
  with assms show ?thesis
    unfolding logs_query_def svc_def [symmetric] lvl_def [symmetric] Let_def sel
    by (auto simp: quote_escaped split: if_splits option.splits)
qed

lemma parse_matcher_space: "nom_laws N \<Longrightarrow> parse_matcher N (CHR '' '' # s) = parse_matcher N s"
  by (simp add: parse_matcher_def nom_laws_rewrites(3) is_multispace_def)

lemma parse_spaced_selector:
  assumes N: "nom_laws N" and ok: "list_all matcher_ok ms" and "ms \<noteq> []" "length ms \<le> 2"
  shows "parse_stream_selector N (CHR ''{'' # join '', '' (map show_matcher ms) @ CHR ''}'' # rest) = Parsed rest (StreamSelector ms)"
proof (cases ms rule: remdups_adj.cases)
  case (2 m)
  then show ?thesis using parse_stream_selector_show [OF N ok, of rest] by (simp add: show_stream_selector_def show_matchers_def)
next
  case (3 m n ns)
  with assms(4) have ms: "ms = [m, n]" by simp
  let ?close = "CHR ''}'' # rest"
  have m: "parse_matcher N (show_matcher m @ CHR '','' # CHR '' '' # show_matcher n @ ?close) =
      Parsed (CHR '','' # CHR '' '' # show_matcher n @ ?close) m"
    and n: "parse_matcher N (CHR '' '' # show_matcher n @ ?close) = Parsed ?close n"
    using ok ms by (simp_all add: parse_matcher_space [OF N] parse_matcher_show [OF N])
  have e: "separated_more (nm_char N (CHR '','')) (parse_matcher N) fuel ?close = Parsed ?close []" for fuel
    using separated_show [OF N, of "[]" fuel rest] by (simp add: show_matchers_def)
  obtain c cs where c: "show_matcher m = c # cs" "is_label_char c"
    using ok ms by (cases "qm_name m") (auto simp: matcher_ok_def show_matcher_def)
  then have skip: "dropWhile is_multispace (show_matcher m @ s) = show_matcher m @ s" for s
    using label_not_space by simp
  show ?thesis
    by (simp add: ms parse_stream_selector_def separated_list0_def nom_laws_rewrites [OF N] doc_char_def skip m n e is_multispace_def)
next
  case 1
  with assms(3) show ?thesis by simp
qed

lemma parse_contains_stage:
  assumes N: "nom_laws N"
  shows "parse_pipeline_stage N X (''|= '' @ quote c) = Parsed [] (LineContains c)"
proof -
  have "parse_quoted_string N (quote c) = Parsed [] c" using parse_quoted_string_quote [OF N, of c "[]"] by simp
  moreover have "dropWhile is_multispace (CHR '' '' # quote c) = quote c"
    using quote_not_space [of c "[]"] by (simp add: is_multispace_def [of "CHR '' ''"])
  ultimately show ?thesis
    by (simp add: parse_pipeline_stage_def parse_line_contains_def parse_line_filter_def nom_laws_rewrites [OF N] doc_tag_def)
qed

lemma parse_filter_query:
  fixes X :: "'r regex_ops"
  assumes N: "nom_laws N" and "list_all matcher_ok ms" and "ms \<noteq> []" "length ms \<le> 2"
  defines "sel \<equiv> CHR ''{'' # join '', '' (map show_matcher ms) @ ''}''"
  shows "parse_logql N X sel = Inr (Inr (StreamSelector ms))"
    "parse_logql N X (sel @ '' |= '' @ quote c) = Inr (Inr (Pipeline (StreamSelector ms) [LineContains c]))"
proof -
  have S: "parse_stream_selector N (sel @ rest) = Parsed rest (StreamSelector ms :: 'r logql_expr)" for rest
    using parse_spaced_selector [OF assms(1-4)] by (simp add: sel_def)
  have L: "stage_loop N X fuel [] = Parsed [] []" for fuel
    using stage_loop_show [OF N, of X "[]" "[]"] by (simp add: show_log_stages_def query_end_def)
  show "parse_logql N X sel = Inr (Inr (StreamSelector ms))"
  proof (rule parse_logql_brace [OF N])
    show "trimmed sel" by (simp add: sel_def trimmed_def is_whitespace_def)
    show "parse_pipeline_or_selector N X sel = Parsed [] (StreamSelector ms)"
      using S [of "[]"] by (simp add: parse_pipeline_or_selector_def nom_laws_rewrites(3) [OF N] L)
  qed (simp add: sel_def)
  show "parse_logql N X (sel @ '' |= '' @ quote c) = Inr (Inr (Pipeline (StreamSelector ms) [LineContains c]))"
  proof (rule parse_logql_brace [OF N])
    show "trimmed (sel @ '' |= '' @ quote c)" by (simp add: sel_def trimmed_def is_whitespace_def)
    have "trim_start (''|= '' @ quote c) = ''|= '' @ quote c" by (simp add: trim_start_def is_whitespace_def)
    then have "stage_loop N X (Suc fuel) (''|= '' @ quote c) = Parsed [] [LineContains c]" for fuel
      using parse_contains_stage [OF N, of X c] L [of fuel] by simp
    then show "parse_pipeline_or_selector N X (sel @ '' |= '' @ quote c) = Parsed [] (Pipeline (StreamSelector ms) [LineContains c])"
      using S by (simp add: parse_pipeline_or_selector_def nom_laws_rewrites(3) [OF N] is_multispace_def)
  qed (simp add: sel_def)
qed

section \<open>Texts the checks let through or refuse\<close>

text \<open>What follows a closing bracket of an origin is not looked at.\<close>

lemma bracketed_origin_allowed: "is_allowed_origin ''http://[::1].evil.com''"
  by (simp add: is_allowed_origin_def origin_host_def)

text \<open>The message that refuses a minimal duration offers an example that is refused.\<close>

lemma duration_example_refused: "\<exists>m. duration_filter (Some ''500us'') = Inr (Inl m)"
proof -
  have "parse_duration ''500us'' = Inr None" by code_simp
  then show ?thesis by (simp add: duration_filter_def)
qed

section \<open>Properties\<close>

text \<open>
  C12: whatever a client sends, the stores are the same afterwards unless the request is a call of the
  tool \<open>reset\<close> with an id, from an allowed origin, in a supported version, whose arguments name the
  scope; then they are reset as asked, everything or the one service. No other tool writes, whatever
  its arguments.
\<close>

theorem only_reset_writes:
  assumes "mcp_post E P a origin version body = Inr (a', status, resp)" and "a' \<noteq> a"
  shows "\<exists>req given service. re_decode P body = Some req \<and> rq_id req \<noteq> None \<and> rq_method req = ''tools/call'' \<and>
    json_get ''name'' (rq_params req) = Some (JString ''reset'') \<and>
    json_get ''arguments'' (rq_params req) = Some (JObject given) \<and> reset_asked given service \<and>
    a' = reset (mc_rodeo E) service a \<and> \<not> origin_refused origin \<and> \<not> version_refused version"
proof -
  obtain req r where req: "re_decode P body = Some req" "rpc_dispatch E P a req = Inr (a', r)"
    and checks: "\<not> origin_refused origin" "\<not> version_refused version"
    using assms by (auto simp: mcp_post_def map_sum_Inr split: if_splits option.splits)
  have "rq_id req \<noteq> None \<and> rq_method req = ''tools/call'' \<and>
      (\<exists>v. tool_call E a (rq_id req) (rq_params req) = Inr (a', v))"
    using req(2) assms(2) by (auto simp: rpc_dispatch_def Let_def map_sum_Inr split: if_splits)
  with tool_call_writes [OF _ assms(2)] req(1) checks show ?thesis by blast
qed

definition list_mcp_env :: "(string list, string, unit) mcp_env" where
  "list_mcp_env = \<lparr>mc_synth = list_synth_env, mc_log = list_log_env, mc_eval = list_env, mc_prom = sample_prom,
     mc_nom = doc_nom, mc_nom_text = (\<lambda>_ _. []), mc_json_text = (\<lambda>_. []), mc_serde_error = (\<lambda>_ _. []), mc_clock = 0\<rparr>"

text \<open>A decoder that reads every body as a call that resets everything.\<close>

definition resetting :: rpc_env where
  "resetting = \<lparr>re_decode = (\<lambda>_. Some \<lparr>rq_id = Some (JInt 1), rq_method = ''tools/call'',
       rq_params = JObject [(''name'', JString ''reset''), (''arguments'', JObject [(''scope'', JString ''all'')])]\<rparr>),
     re_decode_json = (\<lambda>_. None), re_version = []\<rparr>"

lemma reset_all_read: "\<exists>vals. parse_args show_json serde_error reset_args (JObject [(''scope'', JString ''all'')]) = Inr vals \<and>
    arg_string vals ''scope'' = Some ''all''"
proof -
  let ?given = "[(''scope'', JString ''all'')]"
  have "args_ok reset_args ?given"
    by (simp add: args_ok_def declared_def required_names_def reset_args_def field_def optional_field_def reset_scope_def)
  then have "problem show_json (ta_tool reset_args) (args_schema reset_args) (JObject ?given) = None"
    by (subst problem_iff) (simp_all add: reset_args_def field_def optional_field_def)
  then show ?thesis
    by (simp add: parse_args_def from_value_def as_object_def reset_args_def field_def optional_field_def read_field_def
        reset_scope_def arg_string_def)
qed

lemma only_reset_writes_witness:
  "\<exists>a' status resp service. mcp_post list_mcp_env resetting sample_app None None [] = Inr (a', status, resp) \<and>
    a' \<noteq> sample_app \<and> a' = reset list_rodeo service sample_app"
proof -
  let ?a = "reset list_rodeo None sample_app"
  obtain vals where vals: "parse_args (\<lambda>_. []) (\<lambda>_ _. []) reset_args (JObject [(''scope'', JString ''all'')]) = Inr vals"
    "arg_string vals ''scope'' = Some ''all''" using reset_all_read by blast
  obtain v where v: "handle_reset list_mcp_env sample_app (Some (JInt 1)) vals = (?a, v)"
    using vals(2) by (simp add: handle_reset_def Let_def list_mcp_env_def list_synth_env_def)
  have "find (\<lambda>(T, meta, h). ta_tool T = ''reset'') (tool_table :: (tool_args \<times> (string \<times> json) list \<times>
        (string list, string, unit) tool_handler) list) =
      Some (reset_args, reset_meta, \<lambda>E a i args. Inr (handle_reset E a i args))"
    by (simp add: tool_table_def reset_args_def)
  then have "tool_dispatch list_mcp_env sample_app (Some (JInt 1)) ''reset'' (JObject [(''scope'', JString ''all'')]) = Some (Inr (?a, v))"
    using vals(1) v by (simp add: tool_dispatch_def) (simp add: list_mcp_env_def)
  then have "tool_call list_mcp_env sample_app (Some (JInt 1))
      (JObject [(''name'', JString ''reset''), (''arguments'', JObject [(''scope'', JString ''all'')])]) = Inr (?a, v)"
    by (auto simp: tool_call_def json_get_object as_str_def Let_def)
  then have post: "mcp_post list_mcp_env resetting sample_app None None [] = Inr (?a, status_ok, JsonBody v)"
    by (simp add: mcp_post_def resetting_def origin_refused_def version_refused_def rpc_dispatch_def Let_def)
  have "lg_total_entries (ap_log ?a) \<noteq> lg_total_entries (ap_log sample_app)"
    by (simp add: reset_def log_clear_def sample_app_def sample_logs_def log_eval)
  then have changed: "?a \<noteq> sample_app" by (metis (no_types))
  from only_reset_writes [OF post changed] post changed show ?thesis
    by (auto simp: list_mcp_env_def list_synth_env_def)
qed

text \<open>
  C40: the query that \<open>query_logs\<close> builds from structured filters parses, whatever the filters hold, and
  means exactly those filters: equality on each given label, and a substring of the line if one is
  given. No quote, backslash, brace or bar in a filter can change the structure of the query.
\<close>

theorem structured_filters_parse_back:
  assumes "nom_laws N" and "arg_string args ''logql'' = None" and "logs_query args = Inr q"
  shows "parse_logql N X q = Inr (Inr
    (case arg_string args ''contains'' of
       None \<Rightarrow> StreamSelector (filter_matchers args)
     | Some c \<Rightarrow> Pipeline (StreamSelector (filter_matchers args)) [LineContains c]))"
proof -
  note Q = logs_query_show [OF assms(2,3)]
  show ?thesis
    using Q parse_filter_query [OF assms(1) filter_matchers_ok, of args X] by (cases "arg_string args ''contains''") simp_all
qed

lemma structured_filters_parse_back_witness:
  "parse_logql doc_nom literal_regex
      (''{service='' @ quoted (CHR 0x5C # CHR 0x22 # ''}'') @ ''}'') =
    Inr (Inr (StreamSelector [equality ''service'' [CHR 0x22, CHR ''}'']]))"
proof -
  let ?args = "\<lambda>k. if k = ''service'' then Some (AvString [CHR 0x22, CHR ''}'']) else None"
  have "logs_query ?args = Inr (''{service='' @ quoted (CHR 0x5C # CHR 0x22 # ''}'') @ ''}'')"
    by (simp add: logs_query_def arg_string_def equals_quoted_def escape_quoted_def replace_char_def)
  from structured_filters_parse_back [OF doc_nom_laws _ this, of literal_regex] show ?thesis
    by (simp add: arg_string_def filter_matchers_def List.map_filter_simps)
qed

end
