(* ===== verification/Spec2Isabelle.thy ===== *)
theory Spec2Isabelle
  imports Log_Store_Correct Metric_Store_Correct Trace_Store_Correct Traceql_Eval_Correct Logql_Parser_Correct
    Logql_Handlers_Correct Traceql_Handlers_Correct Promql_Handlers_Correct
    Log_Answers Metric_Answers Trace_Answers App_Liveness Mcp_Trees_Correct Mcp_Server_Correct
begin

text \<open>
  A verification library for aniani, an observability server that keeps logs, metrics and traces
  in memory, takes them in over OTLP, Loki push and Prometheus remote write, answers LogQL,
  PromQL and TraceQL queries, evicts by age and by count, and saves snapshots.

  \<^bold>\<open>The program and its theories.\<close> Paths are relative to \<open>src/src/\<close>.

  \<^item> \<open>Prelude\<close>, \<open>Rust_Text\<close>, \<open>Float64\<close>, \<open>Threading\<close>: what the code uses of Rust. \<open>u64\<close> and
    \<open>usize\<close> are natural numbers and \<open>i64\<close> an integer, saturation and wrap-around written out; an
    \<open>f64\<close> is its 64-bit pattern with concrete IEEE arithmetic; a \<open>String\<close> is a list of bytes; a
    \<open>FxHashMap\<close> is an association list with distinct keys, whose order stands for the arbitrary
    iteration order, and a \<open>FxHashSet\<close> a distinct list; a panic is a value of a sum type.
  \<^item> \<open>Externals\<close>, \<open>Nom\<close>, \<open>Query_Text\<close>: third-party crates as records of operations with their
    documented laws as hypotheses (the string interner, regular expressions, parser combinators),
    each with an instance the witnesses run on.
  \<^item> \<open>Posting_List\<close>, \<open>Label_Index\<close>, \<open>Label_Select\<close>, \<open>Labelled_Store\<close>: \<open>store/posting_list.rs\<close> and
    the shared parts of \<open>store/mod.rs\<close>: interning, the inverted index, label matchers.
  \<^item> \<open>Log_Store\<close>, \<open>Metric_Store\<close>, \<open>Trace_Store\<close>, \<open>Attribute_Value\<close>, \<open>Trace_Index\<close>: the three
    stores, one record each with the fields of the struct, one definition per method. The
    theories named \<open>_Correct\<close> hold the invariants (\<open>log_base\<close>, \<open>log_wf\<close>, \<open>metric_base\<close>, \<open>names_ok\<close>,
    \<open>trace_wf\<close>, \<open>services_ok\<close>), the abstractions (\<open>log_view\<close> and \<open>metric_view\<close> give the entries
    stored under each label set, \<open>spans_of\<close> the spans of each trace) and a refinement theorem for
    each operation.
  \<^item> \<open>Retention\<close>: the contract between the eviction task and a store as a locale, interpreted on
    each of the three stores.
  \<^item> \<open>Traceql_Parser\<close>, \<open>Traceql_Eval\<close>, \<open>Logql_Parser\<close>, \<open>Logql_Eval\<close>, \<open>Config\<close>:
    \<open>query/traceql\<close>, \<open>query/logql\<close> and \<open>config.rs\<close>. The parsers are proved to read back what their
    printers write, the evaluators to agree with a full scan or a closed form.
  \<^item> \<open>Traceql_Handlers\<close>, \<open>Logql_Handlers\<close>: the endpoints of the two languages, from the decoded
    parameters to the JSON answer. Their \<open>_Correct\<close> theories carry the evaluators' guarantees through
    limits and rendering: which traces a search keeps, that a log query answers with the newest
    entries, that the id of a trace leads back to it, and where a request panics.
  \<^item> \<open>Time_Grid\<close>: the loops over series and times that LogQL and PromQL share, and their closed form.
  \<^item> \<open>Promql_Types\<close>, \<open>Promql_Select\<close>, \<open>Promql_Functions\<close>, \<open>Promql_Aggregation\<close>, \<open>Promql_Binary\<close>,
    \<open>Promql_Eval\<close>, \<open>Promql_Handlers\<close>, \<open>Json\<close>: \<open>query/promql\<close>, one theory per source file. Evaluation
    yields a panic, an error or a value (\<open>evaluated\<close>). \<open>Float64_Ops\<close> adds the float operations it
    uses, \<open>Float64_Order\<close> that rounding is monotone. The theories named \<open>_Correct\<close> show where a
    query can panic (\<open>panics_only\<close>, composed through every combinator: only in sorting values with a
    NaN among them), which samples a selector
    returns, that rates of counters are not negative, that aggregations fold a partition, that
    vector matching equals nested loops, and what the limits of the endpoints bound.
  \<^item> \<open>Ingest_Common\<close>, \<open>Trace_Ingest\<close>, \<open>Log_Ingest\<close>, \<open>Loki_Ingest\<close>, \<open>Metric_Ingest\<close>: \<open>ingest/\<close> and
    \<open>grpc.rs\<close>, from the decoded request to the store. \<open>Interned\<close> states the contract of a step
    that interns (what it stores reads back as what it was given, and stays so) as a locale,
    interpreted on every interning step of the three pipelines.
  \<^item> \<open>App_State\<close>, \<open>App_Lifecycle\<close>: the state the handlers share, \<open>run_eviction\<close>, \<open>snapshot.rs\<close>,
    start-up, \<open>api/reset.rs\<close>, and the step relation of a running instance with its snapshot
    directory. \<open>Snapshot_Correct\<close>, \<open>App_Steps\<close>, \<open>App_Lifecycle_Correct\<close>: the invariant in every
    reachable state, eviction passes, saving and restarting. \<open>App_Liveness\<close>: the eviction task of
    \<open>main.rs\<close> with its timer, and infinite runs of a process in which the clock goes on: old data leaves
    the stores within the period of the timer and the latency with which the runtime polls the task.
  \<^item> \<open>Log_Answers\<close>, \<open>Metric_Answers\<close>, \<open>Trace_Answers\<close> compose ingestion, store and query: a
    selector answers as a filter over the abstract contents, so what is pushed is what a query finds.

  \<^item> \<open>Api_Views\<close>, \<open>Api_Summary\<close>, \<open>Api_Diagnose\<close>: \<open>api/\<close>, the endpoints that read all three stores
    (services, catalog, metadata, status, summary, diagnosis). \<open>Api_Views_Correct\<close> says what knowing a
    service means for each store and proves the list of services exact.
  \<^item> \<open>Mcp_Synth\<close>, \<open>Mcp_Trees\<close>, \<open>Mcp_Args\<close>, \<open>Mcp_Registry\<close>, \<open>Mcp_Tools\<close>, \<open>Mcp_Server\<close>: \<open>mcp/\<close>, the tools
    for agents: activity and health of services, span trees, the declared arguments and their
    reading, the advertised tools, one handler per tool, JSON-RPC. \<open>Mcp_Synth_Correct\<close> bounds the
    scores and proves the one-pass overview equal to the reports it abbreviates for services whose
    streams name no second one, \<open>Mcp_Trees_Correct\<close> that a tree shows exactly the first 128 levels of an
    acyclic trace with distinct span ids, \<open>Mcp_Args_Correct\<close> that validation and reading of arguments agree,
    \<open>Mcp_Server_Correct\<close> that only an authorised \<open>reset\<close> writes and that filters cannot change the
    structure of the query built from them.

  \<^bold>\<open>Parameters.\<close> Code outside the repository is a parameter: the interner (\<open>lasso\<close>), regular
  expressions, the \<open>nom\<close> combinators, \<open>promql-parser\<close>, logarithms and powers, JSON and protobuf decoders, gzip and snappy, \<open>bincode\<close>,
  the rendering of floats, the clock, the file operations. Laws about them are named
  predicates (\<open>rodeo_laws\<close>, \<open>nom_laws\<close>, \<open>codec_laws\<close>, \<open>snapshot_codec_laws\<close>); each theorem that assumes one has a witness that
  instantiates it. What the standard library's sort does when a NaN makes the order partial, which by
  its documentation may be a panic, is a parameter too, about which nothing is assumed.

  \<^bold>\<open>Bounds.\<close> Ids and sequence numbers are 64-bit; the theorems about ingestion assume that the
  numbers a request takes are not used up (\<open>event_fits\<close>), and the counter itself wraps as
  \<open>fetch_add\<close> does. The parsers' loops take the length of the input as fuel, which is proved to be
  enough. Every operation under one lock is one atomic step;
  an eviction pass, which takes the three locks one after the other, is modelled as one step.
  Integers up to \<open>2 ^ 53\<close> are exact as floats, which bounds the lists a quantile can index.

  \<^bold>\<open>Not modelled.\<close> The HTTP and gRPC servers and the router, the command line, the seeding example,
  the user interface and the OpenAPI document (library configuration, static data and text
  rendering); memory estimates (allocator sizes) and the rendering of floats with a given number of
  digits, both parameters; log output.
\<close>

end
